(* ===== verification/Prelude.thy ===== *)
theory Prelude
  imports Main "HOL-Library.Word"
begin

text \<open>
  Shared ground of the development: names for the C integer types at their width, the
  treatment of pointer arguments, the saturating counter that the scheduler, the trace ring
  and the allocator all use, and the lemmas that move guards such as
  \<open>now > UINT64_MAX - delay\<close> from machine words to natural numbers.

  A pointer to a structure that a function updates is an \<open>option\<close>: \<open>None\<close> is \<open>NULL\<close>.
  \<open>on_ptr\<close> is the guard \<open>if (p == NULL) return false\<close> in front of a body, and \<open>call_ptr\<close>
  is a call \<open>f(&s)\<close> on a structure that exists.
\<close>

unbundle bit_operations_syntax

named_theorems nat_guards \<open>word guards against overflow, read as inequalities on natural numbers\<close>
named_theorems frame \<open>parts of a state that an operation leaves alone\<close>

type_synonym u8 = "8 word"
type_synonym u16 = "16 word"
type_synonym u32 = "32 word"
type_synonym u64 = "64 word"

abbreviation UINT16_MAX :: u16 where "UINT16_MAX \<equiv> 0xFFFF"
abbreviation UINT32_MAX :: u32 where "UINT32_MAX \<equiv> 0xFFFFFFFF"
abbreviation UINT64_MAX :: u64 where "UINT64_MAX \<equiv> 0xFFFFFFFFFFFFFFFF"

subsection \<open>Pointer arguments\<close>

definition on_ptr :: "'a option \<Rightarrow> ('a \<Rightarrow> bool \<times> 'a) \<Rightarrow> bool \<times> 'a option" where
  "on_ptr p body =
     (case p of None \<Rightarrow> (False, None) | Some s \<Rightarrow> (let (r, s') = body s in (r, Some s')))"

definition call_ptr :: "('a option \<Rightarrow> 'r \<times> 'a option) \<Rightarrow> 'a \<Rightarrow> 'r \<times> 'a" where
  "call_ptr f s = (let (r, p) = f (Some s) in (r, case p of None \<Rightarrow> s | Some s' \<Rightarrow> s'))"

lemma on_ptr_None [simp]: "on_ptr None body = (False, None)"
  by (simp add: on_ptr_def)

lemma on_ptr_Some: "on_ptr (Some s) body = (fst (body s), Some (snd (body s)))"
  by (simp add: on_ptr_def split: prod.splits)

lemma call_ptr_on_ptr [simp]: "call_ptr (\<lambda>p. on_ptr p body) s = body s"
  by (simp add: call_ptr_def on_ptr_Some)

subsection \<open>Ranges of the machine integers\<close>

lemma unat_less_2p:
  "unat (a :: u8) < 256" "unat (b :: u16) < 65536"
  "unat (c :: u32) < 4294967296" "unat (d :: u64) < 18446744073709551616"
  using unsigned_less [of a] unsigned_less [of b] unsigned_less [of c] unsigned_less [of d]
  by simp_all

lemma unat_le_max:
  "unat (c :: u32) \<le> 4294967295" "unat (d :: u64) \<le> 18446744073709551615"
  using unat_less_2p(3) [of c] unat_less_2p(4) [of d] by linarith+

lemma unat_of_nat32: "n < 2 ^ 32 \<Longrightarrow> unat (of_nat n :: u32) = n"
  by (simp add: unat_of_nat)

subsection \<open>Counters that stop at their maximum\<close>

definition increment_saturating :: "u32 \<Rightarrow> u32" where
  "increment_saturating v = (if v \<noteq> UINT32_MAX then v + 1 else v)"

lemma unat_increment_saturating:
  "unat (increment_saturating v) = min (unat v + 1) (2 ^ 32 - 1)"
proof (cases "v = UINT32_MAX")
  case True
  then show ?thesis by (simp add: increment_saturating_def)
next
  case False
  then have "unat v \<noteq> unat (UINT32_MAX)"
    by (simp add: word_unat_eq_iff)
  with unat_le_max(1) [of v] have "unat v + 1 < 4294967296" by simp
  with False show ?thesis
    by (simp add: increment_saturating_def unat_word_ariths min_def)
qed

text \<open>A loop that increments a counter once per item.\<close>

fun increment_saturating_times :: "nat \<Rightarrow> u32 \<Rightarrow> u32" where
  "increment_saturating_times 0 v = v"
| "increment_saturating_times (Suc n) v = increment_saturating_times n (increment_saturating v)"

lemma unat_increment_saturating_times:
  "unat (increment_saturating_times n v) = min (unat v + n) (2 ^ 32 - 1)"
proof (induction n arbitrary: v)
  case 0
  show ?case using unat_le_max(1) [of v] by simp
next
  case (Suc n)
  then show ?case by (simp add: unat_increment_saturating min_def)
qed

subsection \<open>Unsigned guards as inequalities\<close>

lemma unat_ucast_32_64 [simp]: "unat (ucast (x :: u32) :: u64) = unat x"
  by (simp add: unsigned_ucast_eq take_bit_nat_eq_self_iff less_le_trans [OF unat_less_2p(3)])

lemma le_max64_iff [nat_guards]:
  "(x :: u64) \<le> UINT64_MAX - d \<longleftrightarrow> unat x + unat d < 2 ^ 64"
proof -
  have "unat (UINT64_MAX - d) = 18446744073709551615 - unat d"
    by (subst unat_sub) (simp_all add: word_le_nat_alt unat_le_max)
  moreover note unat_le_max(2) [of d]
  moreover have "(2 :: nat) ^ 64 = 18446744073709551615 + 1" by simp
  ultimately show ?thesis
    unfolding word_le_nat_alt by (simp only:) arith
qed

lemma gt_max64_iff [nat_guards]:
  "UINT64_MAX - d < (x :: u64) \<longleftrightarrow> 2 ^ 64 \<le> unat x + unat d"
  using le_max64_iff [of x d] by (metis not_le)

lemma unat_add64 [nat_guards]:
  "unat (x :: u64) + unat d < 2 ^ 64 \<Longrightarrow> unat (x + d) = unat x + unat d"
  by (simp add: unat_word_ariths)

lemma gt_max32_iff [nat_guards]:
  "UINT32_MAX - d < (x :: u32) \<longleftrightarrow> 2 ^ 32 \<le> unat x + unat d"
proof -
  have "unat (UINT32_MAX - d) = 4294967295 - unat d"
    by (subst unat_sub) (simp_all add: word_le_nat_alt unat_le_max)
  moreover note unat_le_max(1) [of d]
  moreover have "(2 :: nat) ^ 32 = 4294967295 + 1" by simp
  ultimately show ?thesis
    unfolding word_less_nat_alt by (simp only:) arith
qed

lemma unat_add32 [nat_guards]:
  "unat (x :: u32) + unat d < 2 ^ 32 \<Longrightarrow> unat (x + d) = unat x + unat d"
  by (simp add: unat_word_ariths)

subsection \<open>Splitting a 64-bit value\<close>

lemma join_u64: "ucast (ucast a :: u32) OR push_bit 32 (ucast (ucast (drop_bit 32 a) :: u32)) = (a :: u64)"
  by (rule bit_word_eqI) (auto simp: bit_simps)

end
