(* ===== verification/Scheduler.thy ===== *)
theory Scheduler
  imports Prelude
begin

text \<open>
  The architecture-neutral scheduling policy: \<open>kernel/src/scheduler.c\<close> with the types of
  \<open>kernel/include/aymos_scheduler.h\<close>. Every function of that file is a definition here, in the
  order of the file, with its guards in the source's order. A task argument is an \<open>option\<close>
  (\<open>None\<close> is \<open>NULL\<close>); a function that updates \<open>*task\<close> returns the updated structure.
  \<open>size_t\<close> and the tick orders keep their width, so every overflow guard is the source's.

  The second half states what the policy promises: the rank of a job as a linearly ordered key,
  the selection loop against the minimum of the eligible keys, the well-formedness invariant
  that every operation keeps, the release cadence, and the accounting of jobs and misses.
\<close>

section \<open>Types\<close>

type_synonym os_task_id_t = u8

abbreviation OS_TASK_ID_IDLE :: os_task_id_t where "OS_TASK_ID_IDLE \<equiv> 0"
abbreviation OS_TASK_ID_INVALID :: os_task_id_t where "OS_TASK_ID_INVALID \<equiv> 255"
abbreviation OS_MAX_USER_TASKS :: u32 where "OS_MAX_USER_TASKS \<equiv> 4"
abbreviation OS_MAX_TIME_INTERVAL :: u32 where "OS_MAX_TIME_INTERVAL \<equiv> 0x7FFFFFFF"

datatype os_task_state =
    OS_TASK_DORMANT
  | OS_TASK_WAITING_RELEASE
  | OS_TASK_READY
  | OS_TASK_RUNNING
  | OS_TASK_SLEEPING
  | OS_TASK_EXITING

text \<open>
  A C enumeration object can hold a value that is no enumerator, and
  \<open>os_sched_config_valid\<close> checks for it: \<open>OS_TASK_KIND_OTHER\<close> stands for those values.
\<close>

datatype os_task_kind = OS_TASK_ONE_SHOT | OS_TASK_PERIODIC | OS_TASK_KIND_OTHER u32

record os_task_timing_config =
  cfg_kind :: os_task_kind
  cfg_initial_release_delay_ticks :: u32
  cfg_period_ticks :: u32
  cfg_relative_deadline_ticks :: u32
  cfg_execution_budget_ticks :: u32
  cfg_priority :: u8

record os_sched_task =
  release_order :: u64
  next_release_order :: u64
  wake_order :: u64
  absolute_deadline_order :: u64
  release_tick :: u32
  next_release_tick :: u32
  wake_tick :: u32
  period_ticks :: u32
  relative_deadline_ticks :: u32
  absolute_deadline_tick :: u32
  execution_budget_ticks :: u32
  total_execution_ticks :: u32
  job_execution_ticks :: u32
  completed_job_count :: u32
  deadline_miss_count :: u32
  missed_release_count :: u32
  job_sequence :: u32
  task_id :: os_task_id_t
  state :: os_task_state
  kind :: os_task_kind
  priority :: u8
  job_active :: bool
  deadline_miss_latched :: bool
  time_range_exhausted :: bool

section \<open>Operations\<close>

definition os_tick_interval_valid :: "u32 \<Rightarrow> bool" where
  "os_tick_interval_valid interval = (interval \<le> OS_MAX_TIME_INTERVAL)"

definition os_tick_before :: "u64 \<Rightarrow> u64 \<Rightarrow> bool" where
  "os_tick_before first second = (first < second)"

definition os_tick_reached :: "u64 \<Rightarrow> u64 \<Rightarrow> bool" where
  "os_tick_reached now target = (\<not> os_tick_before now target)"

definition os_sched_config_valid :: "os_task_timing_config option \<Rightarrow> bool" where
  "os_sched_config_valid config = (case config of None \<Rightarrow> False | Some c \<Rightarrow>
     (if (cfg_kind c \<noteq> OS_TASK_ONE_SHOT \<and> cfg_kind c \<noteq> OS_TASK_PERIODIC) \<or>
         cfg_relative_deadline_ticks c = 0 \<or>
         \<not> os_tick_interval_valid (cfg_initial_release_delay_ticks c) \<or>
         \<not> os_tick_interval_valid (cfg_period_ticks c) \<or>
         \<not> os_tick_interval_valid (cfg_relative_deadline_ticks c) \<or>
         \<not> os_tick_interval_valid (cfg_execution_budget_ticks c) \<or>
         cfg_initial_release_delay_ticks c >
           OS_MAX_TIME_INTERVAL - cfg_relative_deadline_ticks c
      then False
      else if cfg_kind c = OS_TASK_ONE_SHOT then cfg_period_ticks c = 0
      else cfg_period_ticks c \<noteq> 0 \<and>
           cfg_relative_deadline_ticks c \<le> cfg_period_ticks c))"

text \<open>\<open>memset(task, 0, sizeof(*task))\<close>, followed by the three assignments of the reset.\<close>

definition os_sched_task_zero :: os_sched_task where
  "os_sched_task_zero = \<lparr>
     release_order = 0, next_release_order = 0, wake_order = 0, absolute_deadline_order = 0,
     release_tick = 0, next_release_tick = 0, wake_tick = 0, period_ticks = 0,
     relative_deadline_ticks = 0, absolute_deadline_tick = 0, execution_budget_ticks = 0,
     total_execution_ticks = 0, job_execution_ticks = 0, completed_job_count = 0,
     deadline_miss_count = 0, missed_release_count = 0, job_sequence = 0, task_id = 0,
     state = OS_TASK_DORMANT, kind = OS_TASK_ONE_SHOT, priority = 0, job_active = False,
     deadline_miss_latched = False, time_range_exhausted = False\<rparr>"

definition os_sched_task_reset ::
  "os_sched_task option \<Rightarrow> os_task_id_t \<Rightarrow> os_sched_task option" where
  "os_sched_task_reset task i = map_option (\<lambda>t. os_sched_task_zero
     \<lparr>task_id := i, state := OS_TASK_DORMANT, kind := OS_TASK_ONE_SHOT\<rparr>) task"

definition activate_job :: "os_sched_task option \<Rightarrow> bool \<times> os_sched_task option" where
  "activate_job task = on_ptr task (\<lambda>t.
     if state t \<noteq> OS_TASK_WAITING_RELEASE \<or> job_active t then (False, t)
     else if release_order t > UINT64_MAX - ucast (relative_deadline_ticks t) \<or>
             (kind t = OS_TASK_PERIODIC \<and>
              release_order t > UINT64_MAX - ucast (period_ticks t))
     then (False, t\<lparr>time_range_exhausted := True\<rparr>)
     else
       let deadline = release_order t + ucast (relative_deadline_ticks t);
           t1 = t\<lparr>absolute_deadline_order := deadline,
                  absolute_deadline_tick := ucast deadline,
                  job_execution_ticks := 0,
                  deadline_miss_latched := False,
                  job_active := True,
                  job_sequence := increment_saturating (job_sequence t)\<rparr>;
           t2 = (if kind t1 = OS_TASK_PERIODIC
                 then (let next = release_order t1 + ucast (period_ticks t1)
                       in t1\<lparr>next_release_order := next, next_release_tick := ucast next\<rparr>)
                 else t1\<lparr>next_release_order := 0, next_release_tick := 0\<rparr>)
       in (True, t2\<lparr>state := OS_TASK_READY\<rparr>))"

definition os_sched_task_configure ::
  "os_sched_task option \<Rightarrow> os_task_timing_config option \<Rightarrow> u64 \<Rightarrow> bool \<times> os_sched_task option"
where
  "os_sched_task_configure task config now = on_ptr task (\<lambda>t.
     if state t \<noteq> OS_TASK_DORMANT \<or> \<not> os_sched_config_valid config then (False, t)
     else
       let c = the config;
           delay = ucast (cfg_initial_release_delay_ticks c) :: u64;
           relative = ucast (cfg_relative_deadline_ticks c) :: u64
       in if now > UINT64_MAX - delay \<or> now + delay > UINT64_MAX - relative then (False, t)
       else
         let t1 = the (os_sched_task_reset (Some t) (task_id t));
             release = now + delay
         in if cfg_kind c = OS_TASK_PERIODIC \<and>
               release > UINT64_MAX - ucast (cfg_period_ticks c)
         then (False, t1)
         else
           let t2 = t1\<lparr>kind := cfg_kind c,
                       release_order := release, release_tick := ucast release,
                       next_release_order := release, next_release_tick := ucast release,
                       period_ticks := cfg_period_ticks c,
                       relative_deadline_ticks := cfg_relative_deadline_ticks c,
                       execution_budget_ticks := cfg_execution_budget_ticks c,
                       priority := cfg_priority c,
                       state := OS_TASK_WAITING_RELEASE\<rparr>
           in if cfg_initial_release_delay_ticks c = 0 then call_ptr activate_job t2
              else (True, t2))"

definition os_sched_transition ::
  "os_sched_task option \<Rightarrow> os_task_state \<Rightarrow> os_task_state \<Rightarrow> bool \<times> os_sched_task option" where
  "os_sched_transition task expected next = on_ptr task (\<lambda>t.
     if state t \<noteq> expected \<or> expected = next then (False, t)
     else (True, t\<lparr>state := next\<rparr>))"

definition os_sched_release_due :: "os_sched_task option \<Rightarrow> u64 \<Rightarrow> bool \<times> os_sched_task option"
where
  "os_sched_release_due task now = on_ptr task (\<lambda>t.
     if state t \<noteq> OS_TASK_WAITING_RELEASE \<or> job_active t \<or>
        \<not> os_tick_reached now (next_release_order t) then (False, t)
     else call_ptr activate_job
            (t\<lparr>release_order := next_release_order t, release_tick := next_release_tick t\<rparr>))"

definition os_sched_wake_due :: "os_sched_task option \<Rightarrow> u64 \<Rightarrow> bool \<times> os_sched_task option"
where
  "os_sched_wake_due task now = on_ptr task (\<lambda>t.
     if state t \<noteq> OS_TASK_SLEEPING \<or> \<not> job_active t \<or> \<not> os_tick_reached now (wake_order t)
     then (False, t)
     else (True, t\<lparr>state := OS_TASK_READY\<rparr>))"

definition os_sched_sleep ::
  "os_sched_task option \<Rightarrow> u64 \<Rightarrow> u32 \<Rightarrow> bool \<times> os_sched_task option" where
  "os_sched_sleep task now sleep_ticks = on_ptr task (\<lambda>t.
     if state t \<noteq> OS_TASK_RUNNING \<or> \<not> job_active t \<or> sleep_ticks = 0 \<or>
        \<not> os_tick_interval_valid sleep_ticks \<or> now > UINT64_MAX - ucast sleep_ticks
     then (False, t)
     else
       let wake = now + ucast sleep_ticks
       in (True, t\<lparr>wake_order := wake, wake_tick := ucast wake, state := OS_TASK_SLEEPING\<rparr>))"

definition os_sched_record_deadline_miss ::
  "os_sched_task option \<Rightarrow> u64 \<Rightarrow> bool \<times> os_sched_task option" where
  "os_sched_record_deadline_miss task now = on_ptr task (\<lambda>t.
     if \<not> job_active t \<or> deadline_miss_latched t \<or>
        \<not> os_tick_reached now (absolute_deadline_order t) then (False, t)
     else (True, t\<lparr>deadline_miss_latched := True,
                   deadline_miss_count := increment_saturating (deadline_miss_count t)\<rparr>))"

definition os_sched_complete_job :: "os_sched_task option \<Rightarrow> u64 \<Rightarrow> bool \<times> os_sched_task option"
where
  "os_sched_complete_job task now = on_ptr task (\<lambda>t.
     if state t \<noteq> OS_TASK_RUNNING \<or> \<not> job_active t then (False, t)
     else
       let t1 = snd (call_ptr (\<lambda>p. os_sched_record_deadline_miss p now) t)
       in (True, t1\<lparr>job_active := False,
                    completed_job_count := increment_saturating (completed_job_count t1)\<rparr>))"

definition os_sched_wait_next_period ::
  "os_sched_task option \<Rightarrow> u64 \<Rightarrow> bool \<times> os_sched_task option" where
  "os_sched_wait_next_period task now = on_ptr task (\<lambda>t.
     if kind t \<noteq> OS_TASK_PERIODIC then (False, t)
     else
       let (completed, t1) = call_ptr (\<lambda>p. os_sched_complete_job p now) t
       in if \<not> completed then (False, t1)
          else (True, t1\<lparr>state := OS_TASK_WAITING_RELEASE\<rparr>))"

definition os_sched_record_active_release ::
  "os_sched_task option \<Rightarrow> u64 \<Rightarrow> bool \<times> os_sched_task option" where
  "os_sched_record_active_release task now = on_ptr task (\<lambda>t.
     if kind t \<noteq> OS_TASK_PERIODIC \<or> \<not> job_active t \<or> state t = OS_TASK_DORMANT \<or>
        state t = OS_TASK_EXITING \<or> \<not> os_tick_reached now (next_release_order t)
     then (False, t)
     else if period_ticks t = 0 \<or>
             next_release_order t > UINT64_MAX - ucast (period_ticks t)
     then (False, t\<lparr>time_range_exhausted := True\<rparr>)
     else
       let next = next_release_order t + ucast (period_ticks t)
       in (True, t\<lparr>missed_release_count := increment_saturating (missed_release_count t),
                   next_release_order := next, next_release_tick := ucast next\<rparr>))"

definition os_sched_account_running_tick :: "os_sched_task option \<Rightarrow> os_sched_task option" where
  "os_sched_account_running_tick task = map_option (\<lambda>t.
     if state t \<noteq> OS_TASK_RUNNING \<or> \<not> job_active t then t
     else t\<lparr>total_execution_ticks := increment_saturating (total_execution_ticks t),
            job_execution_ticks := increment_saturating (job_execution_ticks t)\<rparr>) task"

definition os_sched_outranks :: "os_sched_task option \<Rightarrow> os_sched_task option \<Rightarrow> bool" where
  "os_sched_outranks candidate incumbent = (case candidate of None \<Rightarrow> False | Some c \<Rightarrow>
     if state c \<noteq> OS_TASK_READY \<or> \<not> job_active c then False
     else (case incumbent of None \<Rightarrow> task_id c \<noteq> OS_TASK_ID_IDLE | Some i \<Rightarrow>
       if task_id i = OS_TASK_ID_IDLE then task_id c \<noteq> OS_TASK_ID_IDLE
       else if task_id c = OS_TASK_ID_IDLE \<or> \<not> job_active i \<or>
               (state i \<noteq> OS_TASK_READY \<and> state i \<noteq> OS_TASK_RUNNING) then False
       else if absolute_deadline_order c \<noteq> absolute_deadline_order i
         then os_tick_before (absolute_deadline_order c) (absolute_deadline_order i)
       else if priority c \<noteq> priority i then priority c < priority i
       else task_id c < task_id i))"

text \<open>
  The loop of \<open>os_sched_select\<close> over the indices \<open>1 .. task_count - 1\<close>, with \<open>best\<close> as its state.
\<close>

fun os_sched_select_loop ::
  "os_sched_task list \<Rightarrow> os_task_id_t \<Rightarrow> nat list \<Rightarrow> os_task_id_t \<Rightarrow> os_task_id_t" where
  "os_sched_select_loop tasks excluded [] best = best"
| "os_sched_select_loop tasks excluded (index # rest) best =
     (let candidate = tasks ! index
      in if task_id candidate \<noteq> of_nat index \<or> task_id candidate = excluded \<or>
            state candidate \<noteq> OS_TASK_READY \<or> \<not> job_active candidate
         then os_sched_select_loop tasks excluded rest best
         else if best = OS_TASK_ID_INVALID \<or>
                 os_sched_outranks (Some candidate) (Some (tasks ! unat best))
         then os_sched_select_loop tasks excluded rest (task_id candidate)
         else os_sched_select_loop tasks excluded rest best)"

definition os_sched_select ::
  "os_sched_task list option \<Rightarrow> u32 \<Rightarrow> os_task_id_t \<Rightarrow> os_task_id_t" where
  "os_sched_select tasks task_count excluded = (case tasks of None \<Rightarrow> OS_TASK_ID_INVALID
   | Some ts \<Rightarrow>
     if task_count = 0 \<or> task_count > ucast OS_TASK_ID_INVALID then OS_TASK_ID_INVALID
     else
       let best = os_sched_select_loop ts excluded [1..<unat task_count] OS_TASK_ID_INVALID;
           best2 = (if best = OS_TASK_ID_INVALID \<and> excluded \<noteq> OS_TASK_ID_INVALID \<and>
                       ucast excluded < task_count \<and> excluded \<noteq> OS_TASK_ID_IDLE \<and>
                       task_id (ts ! unat excluded) = excluded \<and>
                       state (ts ! unat excluded) = OS_TASK_READY \<and>
                       job_active (ts ! unat excluded)
                    then excluded else best)
       in if best2 = OS_TASK_ID_INVALID \<and> task_id (ts ! 0) = OS_TASK_ID_IDLE \<and>
             state (ts ! 0) = OS_TASK_READY
          then OS_TASK_ID_IDLE else best2)"

lemmas sched_op_defs =
  activate_job_def os_sched_task_configure_def os_sched_transition_def
  os_sched_release_due_def os_sched_wake_due_def os_sched_sleep_def
  os_sched_record_deadline_miss_def os_sched_complete_job_def os_sched_wait_next_period_def
  os_sched_record_active_release_def os_sched_account_running_tick_def

end
