(* ===== verification/Ranking.thy ===== *)
theory Ranking
  imports Main
begin

text \<open>
  The interface between a comparison function and the loops that scan a table for the best
  entry. \<open>scan_best\<close> is such a loop with the comparison as a parameter; the locale \<open>ranking\<close>
  says what the loop needs of the comparison (it agrees with a linearly ordered key on the
  candidates), and its lemmas say what the scan then returns. The dispatcher and the selection
  trace use two different comparison functions of the source, each with its interpretation.
\<close>

fun scan_best :: "('a \<Rightarrow> 'a \<Rightarrow> bool) \<Rightarrow> 'a list \<Rightarrow> 'a option \<Rightarrow> 'a option" where
  "scan_best better [] best = best"
| "scan_best better (x # xs) None = scan_best better xs (Some x)"
| "scan_best better (x # xs) (Some b) = scan_best better xs (Some (if better x b then x else b))"

locale ranking =
  fixes better :: "'a \<Rightarrow> 'a \<Rightarrow> bool"
    and key :: "'a \<Rightarrow> 'k::linorder"
    and candidate :: "'a \<Rightarrow> bool"
  assumes better_key: "candidate x \<Longrightarrow> candidate y \<Longrightarrow> better x y \<longleftrightarrow> key x < key y"
begin

lemma scan_best_from:
  assumes "\<forall>x \<in> set xs. candidate x" and "candidate b"
  shows "\<exists>m. scan_best better xs (Some b) = Some m \<and> m \<in> insert b (set xs) \<and> candidate m \<and>
           (\<forall>x \<in> insert b (set xs). key m \<le> key x)"
  using assms
proof (induction xs arbitrary: b)
  case Nil
  then show ?case by simp
next
  case (Cons x xs)
  define b' where "b' = (if better x b then x else b)"
  have b': "candidate b'" "key b' \<le> key b" "key b' \<le> key x" "b' \<in> {x, b}"
    using Cons.prems better_key [of x b] by (auto simp: b'_def)
  from Cons.prems b'(1) Cons.IH [of b'] obtain m where
    m: "scan_best better xs (Some b') = Some m" "m \<in> insert b' (set xs)" "candidate m"
       "\<forall>y \<in> insert b' (set xs). key m \<le> key y" by auto
  have "\<forall>y \<in> insert b (set (x # xs)). key m \<le> key y"
    using m(4) b'(2,3) by (auto intro: order_trans)
  with m b'(4) show ?case by (auto simp: b'_def)
qed

lemma scan_best_least:
  assumes "\<forall>x \<in> set xs. candidate x" and "xs \<noteq> []"
  shows "\<exists>m \<in> set xs. scan_best better xs None = Some m \<and> (\<forall>x \<in> set xs. key m \<le> key x)"
  using assms scan_best_from [of "tl xs" "hd xs"] by (cases xs) auto

lemma scan_best_is:
  assumes "\<forall>x \<in> set xs. candidate x" and "m \<in> set xs"
    and "\<forall>x \<in> set xs. x \<noteq> m \<longrightarrow> key m < key x"
  shows "scan_best better xs None = Some m"
proof -
  from assms(2) have "xs \<noteq> []" by auto
  with scan_best_least [OF assms(1)] obtain m' where
    m': "m' \<in> set xs" "scan_best better xs None = Some m'" "\<forall>x \<in> set xs. key m' \<le> key x" by blast
  then have "m' = m" using assms(2,3) by (metis not_le)
  with m' show ?thesis by simp
qed

end

end
