(* ===== verification/Edf_Select.thy ===== *)
theory Edf_Select
  imports Scheduler Ranking
begin

text \<open>
  The dispatch policy. A job's rank is its absolute deadline, then its priority, then its task
  ID, as the linearly ordered type \<open>edf_key\<close>. \<open>os_sched_outranks\<close> compares ranks, so the
  selection loop of \<open>os_sched_select\<close> is an instance of the locale \<open>ranking\<close> and returns the
  earliest-deadline eligible task; without one it falls back to the excluded task, then to idle.
\<close>

section \<open>Ranks\<close>

datatype edf_key = Edf_Key (key_deadline: u64) (key_priority: u8) (key_id: os_task_id_t)

instantiation edf_key :: linorder
begin

definition less_edf_key :: "edf_key \<Rightarrow> edf_key \<Rightarrow> bool" where
  "less_edf_key a b \<longleftrightarrow> key_deadline a < key_deadline b \<or>
     key_deadline a = key_deadline b \<and>
       (key_priority a < key_priority b \<or>
        key_priority a = key_priority b \<and> key_id a < key_id b)"

definition less_eq_edf_key :: "edf_key \<Rightarrow> edf_key \<Rightarrow> bool" where
  "less_eq_edf_key a b \<longleftrightarrow> a < b \<or> a = (b :: edf_key)"

instance
  by standard (auto simp: less_edf_key_def less_eq_edf_key_def intro: edf_key.expand)

end

definition edf_key_of :: "os_sched_task \<Rightarrow> edf_key" where
  "edf_key_of t = Edf_Key (absolute_deadline_order t) (priority t) (task_id t)"

lemma edf_key_of_eq_id: "edf_key_of a = edf_key_of b \<Longrightarrow> task_id a = task_id b"
  by (simp add: edf_key_of_def)

definition ready_user_job :: "os_sched_task \<Rightarrow> bool" where
  "ready_user_job t \<longleftrightarrow> state t = OS_TASK_READY \<and> job_active t \<and> task_id t \<noteq> OS_TASK_ID_IDLE"

definition live_user_job :: "os_sched_task \<Rightarrow> bool" where
  "live_user_job t \<longleftrightarrow> (state t = OS_TASK_READY \<or> state t = OS_TASK_RUNNING) \<and> job_active t \<and>
     task_id t \<noteq> OS_TASK_ID_IDLE"

lemma outranks_iff_key:
  assumes "ready_user_job c" and "live_user_job i"
  shows "os_sched_outranks (Some c) (Some i) \<longleftrightarrow> edf_key_of c < edf_key_of i"
  using assms
  by (auto simp: os_sched_outranks_def ready_user_job_def live_user_job_def os_tick_before_def
      edf_key_of_def less_edf_key_def)

lemma outranks_ready:
  "os_sched_outranks (Some c) i \<Longrightarrow> ready_user_job c"
  by (auto simp: os_sched_outranks_def ready_user_job_def split: option.splits if_splits)

interpretation dispatch: ranking
  "\<lambda>c i. os_sched_outranks (Some c) (Some i)" edf_key_of ready_user_job
  by unfold_locales
    (simp add: outranks_iff_key live_user_job_def ready_user_job_def)

section \<open>The selection loop\<close>

definition eligible :: "os_sched_task list \<Rightarrow> os_task_id_t \<Rightarrow> nat \<Rightarrow> bool" where
  "eligible tasks excluded i \<longleftrightarrow> task_id (tasks ! i) = of_nat i \<and> of_nat i \<noteq> excluded \<and>
     state (tasks ! i) = OS_TASK_READY \<and> job_active (tasks ! i)"

lemma unat_of_nat_id: "i < 256 \<Longrightarrow> unat (of_nat i :: os_task_id_t) = i"
  by (simp add: unat_of_nat)

lemma of_nat_id_small:
  "0 < i \<Longrightarrow> i < 255 \<Longrightarrow> (of_nat i :: os_task_id_t) \<noteq> OS_TASK_ID_IDLE"
  "i < 255 \<Longrightarrow> (of_nat i :: os_task_id_t) \<noteq> OS_TASK_ID_INVALID"
  using unat_of_nat_id [of i] by (auto simp: word_unat_eq_iff)

lemma eligible_ready_user_job:
  "eligible tasks excluded i \<Longrightarrow> 0 < i \<Longrightarrow> i < 255 \<Longrightarrow> ready_user_job (tasks ! i)"
  by (simp add: eligible_def ready_user_job_def of_nat_id_small)

text \<open>The ID the loop carries, for the task the scan carries.\<close>

definition id_of_best :: "os_sched_task option \<Rightarrow> os_task_id_t" where
  "id_of_best b = (case b of None \<Rightarrow> OS_TASK_ID_INVALID | Some t \<Rightarrow> task_id t)"

lemma select_loop_is_scan:
  assumes "\<forall>i \<in> set idx. i < 255"
    and "\<forall>t. b = Some t \<longrightarrow> (\<exists>i < 255. t = tasks ! i \<and> task_id t = of_nat i)"
  shows "os_sched_select_loop tasks excluded idx (id_of_best b) =
    id_of_best (scan_best (\<lambda>c i. os_sched_outranks (Some c) (Some i))
      (map ((!) tasks) (filter (eligible tasks excluded) idx)) b)"
  using assms
proof (induction idx arbitrary: b)
  case Nil
  then show ?case by simp
next
  case (Cons i idx)
  show ?case
  proof (cases "eligible tasks excluded i")
    case False
    then have "os_sched_select_loop tasks excluded (i # idx) (id_of_best b) =
        os_sched_select_loop tasks excluded idx (id_of_best b)"
      by (auto simp: eligible_def Let_def)
    with False Cons show ?thesis by simp
  next
    case True
    define b' where "b' = (case b of None \<Rightarrow> tasks ! i
       | Some t \<Rightarrow> if os_sched_outranks (Some (tasks ! i)) (Some t) then tasks ! i else t)"
    have best: "tasks ! unat (id_of_best b) = t" "id_of_best b \<noteq> OS_TASK_ID_INVALID"
      if "b = Some t" for t
      using that Cons.prems(2) by (auto simp: id_of_best_def unat_of_nat_id of_nat_id_small)
    have step: "os_sched_select_loop tasks excluded (i # idx) (id_of_best b) =
        os_sched_select_loop tasks excluded idx (id_of_best (Some b'))"
      using True best by (cases b) (auto simp: eligible_def Let_def id_of_best_def b'_def)
    have b'_ok: "\<forall>t. Some b' = Some t \<longrightarrow> (\<exists>i < 255. t = tasks ! i \<and> task_id t = of_nat i)"
      using True Cons.prems by (cases b) (auto simp: b'_def eligible_def)
    have "scan_best (\<lambda>c i. os_sched_outranks (Some c) (Some i))
        (map ((!) tasks) (filter (eligible tasks excluded) (i # idx))) b =
      scan_best (\<lambda>c i. os_sched_outranks (Some c) (Some i))
        (map ((!) tasks) (filter (eligible tasks excluded) idx)) (Some b')"
      using True by (cases b) (auto simp: b'_def)
    with step Cons.IH [OF _ b'_ok] Cons.prems(1) show ?thesis by simp
  qed
qed

definition eligible_set :: "os_sched_task list \<Rightarrow> u32 \<Rightarrow> os_task_id_t \<Rightarrow> nat set" where
  "eligible_set tasks task_count excluded =
     {i. 0 < i \<and> i < unat task_count \<and> eligible tasks excluded i}"

lemma unat_ucast_id [simp]: "unat (ucast (x :: os_task_id_t) :: u32) = unat x"
  using unat_less_2p(1) [of x]
  by (simp add: unsigned_ucast_eq take_bit_nat_eq_self_iff)

lemma task_count_small:
  "\<not> (task_count :: u32) > ucast OS_TASK_ID_INVALID \<Longrightarrow> i < unat task_count \<Longrightarrow> i < 255"
  by (simp add: word_less_nat_alt)

lemma select_loop_least:
  assumes small: "\<not> task_count > ucast OS_TASK_ID_INVALID"
    and some: "eligible_set tasks task_count excluded \<noteq> {}"
  shows "\<exists>i \<in> eligible_set tasks task_count excluded.
    os_sched_select_loop tasks excluded [1..<unat task_count] OS_TASK_ID_INVALID = of_nat i \<and>
    (\<forall>j \<in> eligible_set tasks task_count excluded. edf_key_of (tasks ! i) \<le> edf_key_of (tasks ! j))"
proof -
  let ?idx = "filter (eligible tasks excluded) [1..<unat task_count]"
  have idx: "set ?idx = eligible_set tasks task_count excluded"
    by (auto simp: eligible_set_def)
  have bound: "i < 255" if "i \<in> eligible_set tasks task_count excluded" for i
    using that task_count_small [OF small] by (auto simp: eligible_set_def)
  have "\<forall>t \<in> set (map ((!) tasks) ?idx). ready_user_job t"
    using bound unfolding set_map idx
    by (auto simp: eligible_set_def intro: eligible_ready_user_job)
  moreover have "map ((!) tasks) ?idx \<noteq> []" using some idx by (metis map_is_Nil_conv set_empty)
  ultimately obtain m where
    m: "m \<in> set (map ((!) tasks) ?idx)"
       "scan_best (\<lambda>c i. os_sched_outranks (Some c) (Some i)) (map ((!) tasks) ?idx) None = Some m"
       "\<forall>t \<in> set (map ((!) tasks) ?idx). edf_key_of m \<le> edf_key_of t"
    using dispatch.scan_best_least by blast
  from m(1) obtain i where i: "i \<in> eligible_set tasks task_count excluded" "m = tasks ! i"
    unfolding set_map idx by auto
  have "os_sched_select_loop tasks excluded [1..<unat task_count] (id_of_best None) =
      id_of_best (Some m)"
    using task_count_small [OF small] m(2)
    by (subst select_loop_is_scan) auto
  then have "os_sched_select_loop tasks excluded [1..<unat task_count] OS_TASK_ID_INVALID = of_nat i"
    using i by (simp add: id_of_best_def eligible_set_def eligible_def)
  with i m(3) show ?thesis unfolding set_map idx by auto
qed

lemma select_loop_none:
  assumes "\<not> task_count > ucast OS_TASK_ID_INVALID"
    and "eligible_set tasks task_count excluded = {}"
  shows "os_sched_select_loop tasks excluded [1..<unat task_count] OS_TASK_ID_INVALID =
    OS_TASK_ID_INVALID"
proof -
  have "filter (eligible tasks excluded) [1..<unat task_count] = []"
    using assms(2) by (auto simp: filter_empty_conv eligible_set_def)
  then have "os_sched_select_loop tasks excluded [1..<unat task_count] (id_of_best None) =
      id_of_best None"
    using task_count_small [OF assms(1)] by (subst select_loop_is_scan) auto
  then show ?thesis by (simp add: id_of_best_def)
qed


section \<open>What the dispatcher selects\<close>

lemma select_earliest:
  assumes "0 < task_count" and "task_count \<le> 255"
    and "eligible_set tasks task_count excluded \<noteq> {}"
  shows "\<exists>i \<in> eligible_set tasks task_count excluded.
    os_sched_select (Some tasks) task_count excluded = of_nat i \<and>
    (\<forall>j \<in> eligible_set tasks task_count excluded. j \<noteq> i \<longrightarrow>
       edf_key_of (tasks ! i) < edf_key_of (tasks ! j))"
proof -
  have small: "\<not> task_count > ucast OS_TASK_ID_INVALID"
    using assms(2) by (simp add: word_le_nat_alt word_less_nat_alt)
  from select_loop_least [OF small assms(3)] obtain i where
    i: "i \<in> eligible_set tasks task_count excluded"
       "os_sched_select_loop tasks excluded [1..<unat task_count] OS_TASK_ID_INVALID = of_nat i"
       "\<forall>j \<in> eligible_set tasks task_count excluded. edf_key_of (tasks ! i) \<le> edf_key_of (tasks ! j)"
    by blast
  have bound: "j < 255" if "j \<in> eligible_set tasks task_count excluded" for j
    using that task_count_small [OF small] by (auto simp: eligible_set_def)
  have "os_sched_select (Some tasks) task_count excluded = of_nat i"
    using assms(1) small i(2) of_nat_id_small(2) [OF bound [OF i(1)]]
    by (simp add: os_sched_select_def Let_def)
  moreover have "edf_key_of (tasks ! i) < edf_key_of (tasks ! j)"
    if j: "j \<in> eligible_set tasks task_count excluded" "j \<noteq> i" for j
  proof -
    have "edf_key_of (tasks ! i) \<noteq> edf_key_of (tasks ! j)"
    proof
      assume "edf_key_of (tasks ! i) = edf_key_of (tasks ! j)"
      then have "task_id (tasks ! i) = task_id (tasks ! j)" by (rule edf_key_of_eq_id)
      then have "(of_nat i :: os_task_id_t) = of_nat j"
        using i(1) j(1) by (simp add: eligible_set_def eligible_def)
      then have "unat (of_nat i :: os_task_id_t) = unat (of_nat j :: os_task_id_t)" by simp
      with bound [OF i(1)] bound [OF j(1)] j(2) show False by (simp add: unat_of_nat_id)
    qed
    with i(3) j(1) show ?thesis by (auto simp: less_le)
  qed
  ultimately show ?thesis using i(1) by blast
qed

text \<open>
  C10: Whenever some task other than the excluded one is READY with an active job, the selected
  ID is the index of the eligible task whose rank (absolute deadline, then priority, then task
  ID) is strictly below the rank of every other eligible task.
\<close>

theorem os_sched_select_earliest_deadline:
  assumes "0 < task_count" and "task_count \<le> 255"
    and "eligible_set tasks task_count excluded \<noteq> {}"
  shows "\<exists>i \<in> eligible_set tasks task_count excluded.
    os_sched_select (Some tasks) task_count excluded = of_nat i \<and>
    (\<forall>j \<in> eligible_set tasks task_count excluded. j \<noteq> i \<longrightarrow>
       edf_key_of (tasks ! i) < edf_key_of (tasks ! j))"
  using assms by (rule select_earliest)

lemma select_fallback:
  assumes "0 < task_count" and "task_count \<le> 255"
    and "eligible_set tasks task_count excluded = {}"
  shows "os_sched_select (Some tasks) task_count excluded =
    (if unat excluded < unat task_count \<and> excluded \<noteq> OS_TASK_ID_IDLE \<and>
        task_id (tasks ! unat excluded) = excluded \<and> ready_user_job (tasks ! unat excluded)
     then excluded
     else if task_id (tasks ! 0) = OS_TASK_ID_IDLE \<and> state (tasks ! 0) = OS_TASK_READY
     then OS_TASK_ID_IDLE else OS_TASK_ID_INVALID)"
proof -
  have small: "\<not> task_count > ucast OS_TASK_ID_INVALID"
    using assms(2) by (simp add: word_le_nat_alt word_less_nat_alt)
  have nz: "task_count \<noteq> 0" using assms(1) by auto
  have excl: "excluded \<noteq> OS_TASK_ID_INVALID" if "unat excluded < unat task_count"
    using task_count_small [OF small that] by auto
  have loop: "os_sched_select_loop tasks excluded [1..<unat task_count] OS_TASK_ID_INVALID =
      OS_TASK_ID_INVALID"
    by (rule select_loop_none [OF small assms(3)])
  show ?thesis
  proof (cases "unat excluded < unat task_count \<and> excluded \<noteq> OS_TASK_ID_IDLE \<and>
      task_id (tasks ! unat excluded) = excluded \<and> ready_user_job (tasks ! unat excluded)")
    case True
    with excl show ?thesis
      using nz small loop
      by (simp add: os_sched_select_def Let_def ready_user_job_def word_less_nat_alt)
  next
    case False
    then show ?thesis
      using nz small loop excl
      by (simp add: os_sched_select_def Let_def ready_user_job_def word_less_nat_alt) blast
  qed
qed

text \<open>
  Without an eligible task the selection falls back in a fixed order: the excluded task when
  it is a READY user job, otherwise idle when idle is READY, otherwise no task.
\<close>

theorem os_sched_select_fallback:
  assumes "0 < task_count" and "task_count \<le> 255"
    and "eligible_set tasks task_count excluded = {}"
  shows "os_sched_select (Some tasks) task_count excluded =
    (if unat excluded < unat task_count \<and> excluded \<noteq> OS_TASK_ID_IDLE \<and>
        task_id (tasks ! unat excluded) = excluded \<and> ready_user_job (tasks ! unat excluded)
     then excluded
     else if task_id (tasks ! 0) = OS_TASK_ID_IDLE \<and> state (tasks ! 0) = OS_TASK_READY
     then OS_TASK_ID_IDLE else OS_TASK_ID_INVALID)"
  using assms by (rule select_fallback)

text \<open>A table as the native tests build it: idle, a job due at 20 and a job due at 10.\<close>

definition two_jobs :: "os_sched_task list" where
  "two_jobs =
     [os_sched_task_zero\<lparr>state := OS_TASK_READY\<rparr>,
      os_sched_task_zero\<lparr>task_id := 1, state := OS_TASK_READY, job_active := True,
        absolute_deadline_order := 20, priority := 10\<rparr>,
      os_sched_task_zero\<lparr>task_id := 2, state := OS_TASK_READY, job_active := True,
        absolute_deadline_order := 10, priority := 200\<rparr>]"

lemmas two_jobs_simps = two_jobs_def os_sched_task_zero_def eligible_set_def eligible_def

theorem os_sched_select_earliest_deadline_witness:
  "\<exists>i \<in> eligible_set two_jobs 3 255. os_sched_select (Some two_jobs) 3 255 = of_nat i \<and>
    (\<forall>j \<in> eligible_set two_jobs 3 255. j \<noteq> i \<longrightarrow>
       edf_key_of (two_jobs ! i) < edf_key_of (two_jobs ! j))"
proof (rule os_sched_select_earliest_deadline)
  have "2 \<in> eligible_set two_jobs 3 255" by (simp add: two_jobs_simps)
  then show "eligible_set two_jobs 3 255 \<noteq> {}" by blast
qed simp_all

theorem os_sched_select_fallback_witness:
  "os_sched_select (Some two_jobs) 2 1 = 1"
proof -
  have "eligible_set two_jobs 2 1 = {}"
    unfolding eligible_set_def eligible_def
    by (auto dest!: less_2_cases simp: unat_numeral)
  then show ?thesis
    by (subst os_sched_select_fallback) (simp_all add: two_jobs_simps ready_user_job_def)
qed

end
