(* ===== verification/Task_Lifecycle.thy ===== *)
theory Task_Lifecycle
  imports Scheduler
begin

text \<open>
  The life of one scheduling record. \<open>task_step\<close> lists, as a step relation, every change the
  kernel makes to a record through the operations of \<open>Scheduler\<close>, failing calls included;
  \<open>sched_task_wf\<close> is the invariant they all keep, \<open>cadence\<close> ties the release times of a
  periodic task to its configuration, and \<open>accounts_ok\<close> bounds completions and misses by jobs.
\<close>

section \<open>Steps of a record\<close>

text \<open>
  The uses the kernel makes of \<open>os_sched_transition\<close>: dispatch, yield or preemption, exit
  (after the job has been completed) and reclamation. \<open>Begin\<close>-type changes of occupant
  (\<open>os_sched_task_configure\<close>, \<open>os_sched_task_reset\<close>) are kept apart, because they start a new
  history of releases.
\<close>

inductive task_step :: "u64 \<Rightarrow> os_sched_task \<Rightarrow> os_sched_task \<Rightarrow> bool" for now where
  release_due: "os_sched_release_due (Some t) now = (r, Some t') \<Longrightarrow> task_step now t t'"
| wake_due: "os_sched_wake_due (Some t) now = (r, Some t') \<Longrightarrow> task_step now t t'"
| sleep: "os_sched_sleep (Some t) now ticks = (r, Some t') \<Longrightarrow> task_step now t t'"
| complete_job: "os_sched_complete_job (Some t) now = (r, Some t') \<Longrightarrow> task_step now t t'"
| wait_next_period: "os_sched_wait_next_period (Some t) now = (r, Some t') \<Longrightarrow> task_step now t t'"
| deadline_miss: "os_sched_record_deadline_miss (Some t) now = (r, Some t') \<Longrightarrow> task_step now t t'"
| active_release: "os_sched_record_active_release (Some t) now = (r, Some t') \<Longrightarrow> task_step now t t'"
| running_tick: "os_sched_account_running_tick (Some t) = Some t' \<Longrightarrow> task_step now t t'"
| dispatch: "os_sched_transition (Some t) OS_TASK_READY OS_TASK_RUNNING = (r, Some t') \<Longrightarrow>
    task_step now t t'"
| undispatch: "os_sched_transition (Some t) OS_TASK_RUNNING OS_TASK_READY = (r, Some t') \<Longrightarrow>
    task_step now t t'"
| exit: "\<not> job_active t \<Longrightarrow>
    os_sched_transition (Some t) OS_TASK_RUNNING OS_TASK_EXITING = (r, Some t') \<Longrightarrow> task_step now t t'"
| reclaim: "\<not> job_active t \<Longrightarrow>
    os_sched_transition (Some t) OS_TASK_EXITING OS_TASK_DORMANT = (r, Some t') \<Longrightarrow> task_step now t t'"

text \<open>Any sequence of such steps, each at a time of its own.\<close>

inductive task_run :: "os_sched_task \<Rightarrow> os_sched_task \<Rightarrow> bool" where
  refl: "task_run t t"
| step: "task_run t u \<Longrightarrow> task_step now u v \<Longrightarrow> task_run t v"

lemma task_run_invariant:
  assumes "task_run t u" and "P t" and "\<And>now v w. task_step now v w \<Longrightarrow> P v \<Longrightarrow> P w"
  shows "P u"
  using assms by (induction rule: task_run.induct) blast+

lemmas step_unfold = sched_op_defs on_ptr_Some call_ptr_def Let_def

section \<open>Well-formed records\<close>

definition sched_task_wf :: "os_sched_task \<Rightarrow> bool" where
  "sched_task_wf t \<longleftrightarrow>
     release_tick t = ucast (release_order t) \<and>
     next_release_tick t = ucast (next_release_order t) \<and>
     wake_tick t = ucast (wake_order t) \<and>
     absolute_deadline_tick t = ucast (absolute_deadline_order t) \<and>
     (kind t = OS_TASK_ONE_SHOT \<or> kind t = OS_TASK_PERIODIC) \<and>
     (kind t = OS_TASK_PERIODIC \<longrightarrow>
        period_ticks t \<noteq> 0 \<and> relative_deadline_ticks t \<le> period_ticks t) \<and>
     (state t = OS_TASK_DORMANT \<or> state t = OS_TASK_WAITING_RELEASE \<or> state t = OS_TASK_EXITING \<longrightarrow>
        \<not> job_active t) \<and>
     (state t = OS_TASK_SLEEPING \<longrightarrow> job_active t) \<and>
     (job_active t \<longrightarrow>
        unat (absolute_deadline_order t) =
          unat (release_order t) + unat (relative_deadline_ticks t))"

lemma sched_task_wf_step:
  "task_step now t t' \<Longrightarrow> sched_task_wf t \<Longrightarrow> sched_task_wf t'"
  by (induction rule: task_step.induct)
    (auto simp: step_unfold sched_task_wf_def nat_guards not_less split: if_splits)


lemma configure_wf:
  assumes "os_sched_task_configure (Some t) (Some c) now = (True, Some t')"
  shows "sched_task_wf t'"
  using assms
  by (auto simp: step_unfold sched_task_wf_def nat_guards not_less os_sched_config_valid_def
      os_sched_task_reset_def os_sched_task_zero_def split: if_splits)

section \<open>Release cadence\<close>

definition on_grid :: "nat \<Rightarrow> nat \<Rightarrow> nat \<Rightarrow> bool" where
  "on_grid origin period n \<longleftrightarrow> (\<exists>k. n = origin + k * period)"

lemma on_grid_origin: "on_grid origin period origin"
  unfolding on_grid_def by (rule exI [of _ 0]) simp

lemma on_grid_next: "on_grid origin period n \<Longrightarrow> m = n + period \<Longrightarrow> on_grid origin period m"
  unfolding on_grid_def by (metis add.assoc add.commute mult_Suc)

definition cadence :: "nat \<Rightarrow> nat \<Rightarrow> os_sched_task \<Rightarrow> bool" where
  "cadence origin period t \<longleftrightarrow>
     kind t = OS_TASK_PERIODIC \<and> unat (period_ticks t) = period \<and> 0 < period \<and>
     on_grid origin period (unat (next_release_order t)) \<and>
     (job_active t \<longrightarrow> on_grid origin period (unat (release_order t)) \<and>
        unat (release_order t) < unat (next_release_order t)) \<and>
     (job_sequence t \<noteq> UINT32_MAX \<and> missed_release_count t \<noteq> UINT32_MAX \<longrightarrow>
        unat (next_release_order t) =
          origin + (unat (job_sequence t) + unat (missed_release_count t)) * period)"

lemma increment_not_max:
  "increment_saturating v \<noteq> UINT32_MAX \<Longrightarrow>
     v \<noteq> UINT32_MAX \<and> unat (increment_saturating v) = unat v + 1"
  using unat_increment_saturating [of v] unat_le_max(1) [of v]
  by (cases "v = UINT32_MAX") (auto simp: increment_saturating_def word_unat_eq_iff min_def split: if_splits)

text \<open>
  What a step can do to the release fields: nothing, an attempted activation of the pending
  release, or the accounting of a release that found the previous job active.
\<close>

definition same_releases :: "os_sched_task \<Rightarrow> os_sched_task \<Rightarrow> bool" where
  "same_releases t t' \<longleftrightarrow> release_order t' = release_order t \<and>
     next_release_order t' = next_release_order t \<and> job_sequence t' = job_sequence t \<and>
     missed_release_count t' = missed_release_count t \<and> (job_active t' \<longrightarrow> job_active t)"

definition activated :: "os_sched_task \<Rightarrow> os_sched_task \<Rightarrow> bool" where
  "activated t t' \<longleftrightarrow> \<not> job_active t \<and> state t' = OS_TASK_READY \<and> job_active t' \<and>
     release_order t' = next_release_order t \<and>
     (kind t = OS_TASK_PERIODIC \<longrightarrow> unat (next_release_order t') =
        unat (next_release_order t) + unat (period_ticks t)) \<and>
     job_sequence t' = increment_saturating (job_sequence t) \<and>
     missed_release_count t' = missed_release_count t \<and> \<not> deadline_miss_latched t'"

definition release_skipped :: "os_sched_task \<Rightarrow> os_sched_task \<Rightarrow> bool" where
  "release_skipped t t' \<longleftrightarrow> job_active t \<and> job_active t' \<and> kind t = OS_TASK_PERIODIC \<and>
     release_order t' = release_order t \<and>
     unat (next_release_order t') = unat (next_release_order t) + unat (period_ticks t) \<and>
     job_sequence t' = job_sequence t \<and>
     missed_release_count t' = increment_saturating (missed_release_count t)"

lemma task_step_releases:
  assumes "task_step now t t'"
  shows "kind t' = kind t \<and> period_ticks t' = period_ticks t \<and>
    (same_releases t t' \<or> activated t t' \<or> release_skipped t t' \<or>
     \<not> job_active t' \<and> time_range_exhausted t' \<and> next_release_order t' = next_release_order t \<and>
       job_sequence t' = job_sequence t \<and> missed_release_count t' = missed_release_count t)"
  using assms
  by (induction rule: task_step.induct)
    (auto simp: step_unfold same_releases_def activated_def release_skipped_def nat_guards not_less
      split: if_splits)

lemma cadence_step:
  assumes "task_step now t t'" and "cadence origin period t"
  shows "cadence origin period t'"
  using task_step_releases [OF assms(1)]
proof (elim conjE disjE)
  assume "kind t' = kind t" "period_ticks t' = period_ticks t" "same_releases t t'"
  with assms(2) show ?thesis by (auto simp: cadence_def same_releases_def)
next
  assume "kind t' = kind t" "period_ticks t' = period_ticks t" "activated t t'"
  with assms(2) show ?thesis
    by (auto simp: cadence_def activated_def algebra_simps dest!: increment_not_max
        intro: on_grid_next)
next
  assume "kind t' = kind t" "period_ticks t' = period_ticks t" "release_skipped t t'"
  with assms(2) show ?thesis
    by (auto simp: cadence_def release_skipped_def algebra_simps dest!: increment_not_max
        intro: on_grid_next)
next
  assume "kind t' = kind t" "period_ticks t' = period_ticks t" "\<not> job_active t'"
    "next_release_order t' = next_release_order t" "job_sequence t' = job_sequence t"
    "missed_release_count t' = missed_release_count t"
  with assms(2) show ?thesis by (auto simp: cadence_def)
qed


lemma configure_cadence:
  assumes "os_sched_task_configure (Some t) (Some c) now = (True, Some t')"
    and "cfg_kind c = OS_TASK_PERIODIC"
  shows "cadence (unat now + unat (cfg_initial_release_delay_ticks c))
    (unat (cfg_period_ticks c)) t'"
  using assms
  by (auto simp: step_unfold cadence_def nat_guards not_less os_sched_config_valid_def unat_gt_0
      os_sched_task_reset_def os_sched_task_zero_def increment_saturating_def
      intro: on_grid_origin on_grid_next split: if_splits)

section \<open>Accounting of jobs, misses and execution\<close>

definition accounts_ok :: "os_sched_task \<Rightarrow> bool" where
  "accounts_ok t \<longleftrightarrow>
     (job_sequence t \<noteq> UINT32_MAX \<longrightarrow>
        unat (completed_job_count t) + of_bool (job_active t) = unat (job_sequence t) \<and>
        unat (deadline_miss_count t) + of_bool (job_active t \<and> \<not> deadline_miss_latched t)
          \<le> unat (job_sequence t)) \<and>
     unat (job_execution_ticks t) \<le> unat (total_execution_ticks t)"

lemma increment_below:
  "unat v + 1 \<le> unat (w :: u32) \<Longrightarrow> unat (increment_saturating v) = unat v + 1"
  using unat_increment_saturating [of v] unat_le_max(1) [of w] by simp

lemma increment_mono:
  "unat v \<le> unat w \<Longrightarrow> unat (increment_saturating v) \<le> unat (increment_saturating w)"
  using unat_increment_saturating [of v] unat_increment_saturating [of w] by simp

lemma accounts_ok_state [simp]:
  "accounts_ok (t\<lparr>state := s\<rparr>) = accounts_ok t"
  "accounts_ok (t\<lparr>wake_tick := w\<rparr>) = accounts_ok t"
  "accounts_ok (t\<lparr>wake_order := w'\<rparr>) = accounts_ok t"
  by (simp_all add: accounts_ok_def)

lemma accounts_ok_step:
  assumes "task_step now t t'" and "accounts_ok t"
  shows "accounts_ok t'"
  using assms
proof (induction rule: task_step.induct)
  case (release_due t r t')
  then show ?case
    by (auto simp: step_unfold accounts_ok_def dest!: increment_not_max split: if_splits)
next
  case (complete_job t r t')
  then show ?case
    using increment_below [of "completed_job_count t" "job_sequence t"]
      increment_below [of "deadline_miss_count t" "job_sequence t"]
    by (auto simp: step_unfold accounts_ok_def split: if_splits)
next
  case (wait_next_period t r t')
  then show ?case
    using increment_below [of "completed_job_count t" "job_sequence t"]
      increment_below [of "deadline_miss_count t" "job_sequence t"]
    by (auto simp: step_unfold accounts_ok_def split: if_splits)
next
  case (deadline_miss t r t')
  then show ?case
    using increment_below [of "deadline_miss_count t" "job_sequence t"]
    by (auto simp: step_unfold accounts_ok_def split: if_splits)
next
  case (running_tick t t')
  then show ?case
    by (auto simp: step_unfold accounts_ok_def increment_mono split: if_splits)
qed (auto simp: step_unfold accounts_ok_def split: if_splits)


lemma configure_accounts:
  assumes "os_sched_task_configure (Some t) (Some c) now = (True, Some t')"
  shows "accounts_ok t'"
  using assms
  by (auto simp: step_unfold accounts_ok_def os_sched_task_reset_def os_sched_task_zero_def
      increment_saturating_def split: if_splits)

section \<open>Configuration\<close>

lemma os_tick_interval_valid_nat [nat_guards]:
  "os_tick_interval_valid x \<longleftrightarrow> unat x \<le> 2147483647"
  by (simp add: os_tick_interval_valid_def word_le_nat_alt)

lemma interval_sum_guard [nat_guards]:
  assumes "os_tick_interval_valid r"
  shows "d > OS_MAX_TIME_INTERVAL - r \<longleftrightarrow> 2147483647 < unat d + unat r"
proof -
  have "unat (OS_MAX_TIME_INTERVAL - r) = 2147483647 - unat r"
    using assms by (subst unat_sub) (simp_all add: word_le_nat_alt os_tick_interval_valid_def)
  then show ?thesis
    using assms unfolding os_tick_interval_valid_nat word_less_nat_alt by simp arith
qed

text \<open>
  The configuration check accepts exactly the configurations with a positive deadline, all
  intervals within \<open>INT32_MAX\<close>, delay plus deadline within \<open>INT32_MAX\<close>, and either a one-shot
  kind with no period or a periodic kind whose deadline is at most its period. \<open>NULL\<close> and values
  that are no enumerator are refused.
\<close>

theorem os_sched_config_valid_iff:
  "os_sched_config_valid None = False \<and>
   (os_sched_config_valid (Some c) \<longleftrightarrow>
     0 < unat (cfg_relative_deadline_ticks c) \<and>
     unat (cfg_initial_release_delay_ticks c) + unat (cfg_relative_deadline_ticks c) \<le> 2147483647 \<and>
     unat (cfg_period_ticks c) \<le> 2147483647 \<and>
     unat (cfg_execution_budget_ticks c) \<le> 2147483647 \<and>
     (cfg_kind c = OS_TASK_ONE_SHOT \<and> unat (cfg_period_ticks c) = 0 \<or>
      cfg_kind c = OS_TASK_PERIODIC \<and>
        unat (cfg_relative_deadline_ticks c) \<le> unat (cfg_period_ticks c)))"
proof (cases "os_tick_interval_valid (cfg_relative_deadline_ticks c)")
  case True
  then show ?thesis
    unfolding os_sched_config_valid_def
    by (auto simp: interval_sum_guard [OF True] os_tick_interval_valid_nat unat_gt_0
        word_le_nat_alt unat_eq_0)
next
  case False
  then show ?thesis
    by (auto simp: os_sched_config_valid_def os_tick_interval_valid_nat)
qed

text \<open>
  Configuring a slot succeeds exactly when the slot is dormant, the configuration is valid
  and no release, deadline or next release would pass \<open>UINT64_MAX\<close>. On success the first
  release is \<open>now\<close> plus the delay, released at once when the delay is zero; on failure the slot
  keeps its state and its ID, so no partial task is published.
\<close>

theorem os_sched_task_configure_outcome:
  assumes "os_sched_task_configure (Some t) (Some c) now = (ok, Some t')"
  shows "(ok \<longleftrightarrow> state t = OS_TASK_DORMANT \<and> os_sched_config_valid (Some c) \<and>
      unat now + unat (cfg_initial_release_delay_ticks c) +
        unat (cfg_relative_deadline_ticks c) < 2 ^ 64 \<and>
      (cfg_kind c = OS_TASK_PERIODIC \<longrightarrow> unat now + unat (cfg_initial_release_delay_ticks c) +
        unat (cfg_period_ticks c) < 2 ^ 64)) \<and>
    (ok \<longrightarrow> unat (release_order t') = unat now + unat (cfg_initial_release_delay_ticks c) \<and>
      (if cfg_initial_release_delay_ticks c = 0
       then state t' = OS_TASK_READY \<and> job_active t' \<and>
         unat (absolute_deadline_order t') = unat now + unat (cfg_relative_deadline_ticks c)
       else state t' = OS_TASK_WAITING_RELEASE \<and> \<not> job_active t' \<and>
         next_release_order t' = release_order t')) \<and>
    (\<not> ok \<longrightarrow> state t' = state t) \<and> task_id t' = task_id t"
  using assms
  by (auto simp: step_unfold nat_guards not_less os_sched_task_reset_def os_sched_task_zero_def
      split: if_splits)

text \<open>
  From its configuration on, through any sequence of kernel operations, a record stays well
  formed: the 32-bit tick fields are the low words of the 64-bit orders, a waiting, dormant or
  exiting task has no active job and a sleeping one has, and an active job's deadline is its
  release plus the relative deadline with no wrap-around.
\<close>

theorem task_history_well_formed:
  assumes "os_sched_task_configure (Some t0) (Some c) now = (True, Some t1)" and "task_run t1 t"
  shows "sched_task_wf t"
  using assms(2) configure_wf [OF assms(1)] sched_task_wf_step by (rule task_run_invariant)

text \<open>
  A periodic task never drifts. After any sequence of operations its next release is the
  first release plus a whole number of periods, and as long as the counters have not saturated
  that number is the jobs released plus the releases skipped; an active job was itself released
  on that grid.
\<close>

theorem periodic_release_cadence:
  assumes "os_sched_task_configure (Some t0) (Some c) now = (True, Some t1)"
    and "cfg_kind c = OS_TASK_PERIODIC" and "task_run t1 t"
  shows "cadence (unat now + unat (cfg_initial_release_delay_ticks c))
    (unat (cfg_period_ticks c)) t"
  using assms(3) configure_cadence [OF assms(1,2)] cadence_step by (rule task_run_invariant)

text \<open>
  Job accounting is exact until the job counter saturates: every released job but the active
  one has been completed, a job is counted as missed at most once, and the ticks charged to the
  current job never exceed those charged to the task.
\<close>

theorem task_history_accounts:
  assumes "os_sched_task_configure (Some t0) (Some c) now = (True, Some t1)" and "task_run t1 t"
  shows "accounts_ok t"
  using assms(2) configure_accounts [OF assms(1)] accounts_ok_step by (rule task_run_invariant)


section \<open>The urgent task of the EDF fixture\<close>

text \<open>
  The periodic task of \<open>aymos_edf_fixture.h\<close>: first release at tick 5, period 15, relative
  deadline 10. It is configured at tick 0 and released at tick 5.
\<close>

definition urgent_config :: os_task_timing_config where
  "urgent_config = \<lparr>cfg_kind = OS_TASK_PERIODIC, cfg_initial_release_delay_ticks = 5,
     cfg_period_ticks = 15, cfg_relative_deadline_ticks = 10,
     cfg_execution_budget_ticks = 0, cfg_priority = 1\<rparr>"

definition urgent_slot :: os_sched_task where
  "urgent_slot = os_sched_task_zero\<lparr>task_id := 1\<rparr>"

definition urgent_waiting :: os_sched_task where
  "urgent_waiting = the (snd (os_sched_task_configure (Some urgent_slot) (Some urgent_config) 0))"

definition urgent_released :: os_sched_task where
  "urgent_released = the (snd (os_sched_release_due (Some urgent_waiting) 5))"

lemmas urgent_simps = urgent_config_def urgent_slot_def step_unfold os_sched_task_reset_def
  os_sched_task_zero_def os_sched_config_valid_def os_tick_interval_valid_def

lemma urgent_configured:
  "os_sched_task_configure (Some urgent_slot) (Some urgent_config) 0 = (True, Some urgent_waiting)"
  by (simp add: urgent_waiting_def urgent_simps)

lemma urgent_run: "task_run urgent_waiting urgent_released"
proof (rule task_run.step [OF task_run.refl])
  show "task_step 5 urgent_waiting urgent_released"
    by (rule task_step.release_due) (simp add: urgent_released_def step_unfold)
qed

lemma urgent_released_fields:
  "job_sequence urgent_released = 1" "missed_release_count urgent_released = 0"
  "job_active urgent_released"
  by (simp_all add: urgent_released_def urgent_waiting_def urgent_simps os_tick_reached_def
      os_tick_before_def increment_saturating_def)

theorem os_sched_task_configure_outcome_witness:
  "unat (release_order urgent_waiting) = 5 \<and> state urgent_waiting = OS_TASK_WAITING_RELEASE"
  using os_sched_task_configure_outcome [OF urgent_configured]
  by (simp add: urgent_config_def)

theorem task_history_well_formed_witness:
  "sched_task_wf urgent_released \<and>
   unat (absolute_deadline_order urgent_released) =
     unat (release_order urgent_released) + unat (relative_deadline_ticks urgent_released)"
  using task_history_well_formed [OF urgent_configured urgent_run] urgent_released_fields(3)
  by (simp add: sched_task_wf_def)

theorem periodic_release_cadence_witness:
  "unat (next_release_order urgent_released) = 20"
proof -
  have "cadence 5 15 urgent_released"
    using periodic_release_cadence [OF urgent_configured _ urgent_run]
    by (simp add: urgent_config_def)
  then show ?thesis by (simp add: cadence_def urgent_released_fields)
qed

theorem task_history_accounts_witness:
  "unat (completed_job_count urgent_released) + 1 = 1 \<and> accounts_ok urgent_released"
  using task_history_accounts [OF urgent_configured urgent_run]
  by (simp add: accounts_ok_def urgent_released_fields)

end
