(* ===== verification/Record_Queue.thy ===== *)
theory Record_Queue
  imports Main
begin

text \<open>
  The interface between the trace producers, the trace ring and the code that drains it: a
  queue of records with an operation that may append a batch and one that takes the oldest
  record. The laws are those of a FIFO queue over \<open>contents\<close>; the lemmas say what a client
  that mixes both operations, or one that drains the queue, observes.
\<close>

datatype 'i queue_op = Push 'i | Pop

text \<open>
  A run of operations: the records taken out, the records put in, and the final state.
\<close>

fun queue_run ::
  "('i \<Rightarrow> 's \<Rightarrow> 's) \<Rightarrow> ('i \<Rightarrow> 's \<Rightarrow> 'r list) \<Rightarrow> ('s \<Rightarrow> 'r option \<times> 's) \<Rightarrow>
   'i queue_op list \<Rightarrow> 's \<Rightarrow> 'r list \<times> 'r list \<times> 's" where
  "queue_run push accepted pop [] s = ([], [], s)"
| "queue_run push accepted pop (Push i # ops) s =
     (let (out, inn, s') = queue_run push accepted pop ops (push i s)
      in (out, accepted i s @ inn, s'))"
| "queue_run push accepted pop (Pop # ops) s =
     (let (r, s1) = pop s; (out, inn, s') = queue_run push accepted pop ops s1
      in ((case r of None \<Rightarrow> [] | Some x \<Rightarrow> [x]) @ out, inn, s'))"

text \<open>Taking records until there is none, with fuel for the number of attempts.\<close>

fun drain :: "('s \<Rightarrow> 'r option \<times> 's) \<Rightarrow> nat \<Rightarrow> 's \<Rightarrow> 'r list \<times> 's" where
  "drain pop 0 s = ([], s)"
| "drain pop (Suc n) s =
     (case pop s of (None, s1) \<Rightarrow> ([], s1)
      | (Some r, s1) \<Rightarrow> (let (rs, s2) = drain pop n s1 in (r # rs, s2)))"

locale record_queue =
  fixes invar :: "'s \<Rightarrow> bool"
    and contents :: "'s \<Rightarrow> 'r list"
    and push :: "'i \<Rightarrow> 's \<Rightarrow> 's"
    and accepted :: "'i \<Rightarrow> 's \<Rightarrow> 'r list"
    and pop :: "'s \<Rightarrow> 'r option \<times> 's"
  assumes push_invar: "invar s \<Longrightarrow> invar (push i s)"
    and push_contents: "invar s \<Longrightarrow> contents (push i s) = contents s @ accepted i s"
    and pop_invar: "invar s \<Longrightarrow> invar (snd (pop s))"
    and pop_empty: "invar s \<Longrightarrow> contents s = [] \<Longrightarrow> pop s = (None, s)"
    and pop_oldest: "invar s \<Longrightarrow> contents s = r # rs \<Longrightarrow>
      fst (pop s) = Some r \<and> contents (snd (pop s)) = rs"
begin

lemma run_fifo:
  assumes "invar s" and "queue_run push accepted pop ops s = (out, inn, s')"
  shows "out @ contents s' = contents s @ inn \<and> invar s'"
  using assms
proof (induction ops arbitrary: s out inn s')
  case Nil
  then show ?case by simp
next
  case (Cons e ops)
  show ?case
  proof (cases e)
    case (Push i)
    then obtain inn1 where
      r: "queue_run push accepted pop ops (push i s) = (out, inn1, s')" "inn = accepted i s @ inn1"
      using Cons.prems(2) by (auto split: prod.splits)
    have "out @ contents s' = contents (push i s) @ inn1 \<and> invar s'"
      by (rule Cons.IH [OF push_invar [OF Cons.prems(1)] r(1)])
    with r(2) push_contents [OF Cons.prems(1)] show ?thesis by simp
  next
    case Pop
    then obtain out1 where
      r: "queue_run push accepted pop ops (snd (pop s)) = (out1, inn, s')"
         "out = (case fst (pop s) of None \<Rightarrow> [] | Some x \<Rightarrow> [x]) @ out1"
      using Cons.prems(2) by (auto split: prod.splits)
    have IH: "out1 @ contents s' = contents (snd (pop s)) @ inn \<and> invar s'"
      by (rule Cons.IH [OF pop_invar [OF Cons.prems(1)] r(1)])
    show ?thesis
    proof (cases "contents s")
      case Nil
      with r(2) IH pop_empty [OF Cons.prems(1)] show ?thesis by simp
    next
      case (Cons x xs)
      with r(2) IH pop_oldest [OF Cons.prems(1)] show ?thesis by simp
    qed
  qed
qed

lemma drain_all:
  assumes "invar s" and "length (contents s) < n"
  shows "fst (drain pop n s) = contents s \<and> contents (snd (drain pop n s)) = [] \<and>
    invar (snd (drain pop n s))"
  using assms
proof (induction n arbitrary: s)
  case 0
  then show ?case by simp
next
  case (Suc n)
  show ?case
  proof (cases "contents s")
    case Nil
    with Suc.prems pop_empty show ?thesis by simp
  next
    case (Cons r rs)
    obtain s1 where s1: "pop s = (Some r, s1)" "contents s1 = rs"
      using pop_oldest [OF Suc.prems(1) Cons] by (cases "pop s") auto
    have inv: "invar s1" using pop_invar [OF Suc.prems(1)] s1(1) by simp
    have "length (contents s1) < n" using Suc.prems(2) Cons s1(2) by simp
    from Suc.IH [OF inv this] s1 Cons show ?thesis by (auto split: prod.splits)
  qed
qed

end

end
