(* ===== verification/Trace_Ring.thy ===== *)
theory Trace_Ring
  imports Prelude Record_Queue
begin

text \<open>
  The bounded trace ring: \<open>kernel/src/trace.c\<close> with the types of
  \<open>kernel/include/aymos_trace.h\<close>. The ring owns an array of records, a read and a write index,
  a sequence counter and the three producer counters. \<open>size_t\<close> is 32 bits wide, as on the
  Cortex-M4 target; fences have no counterpart, since every operation here is atomic, as under
  the interrupt mask the firmware holds around each call.

  \<open>ring_contents\<close> reads the ring as a list, oldest record first. \<open>ring_ok\<close> is the invariant,
  and the locale \<open>record_queue\<close> is interpreted on the ring's own operations.
\<close>

section \<open>Types\<close>

datatype os_trace_event =
    OS_TRACE_KERNEL_START | OS_TRACE_TASK_CREATE | OS_TRACE_TASK_RELEASE
  | OS_TRACE_TASK_SELECT | OS_TRACE_SELECT_CANDIDATE | OS_TRACE_TASK_START
  | OS_TRACE_TASK_PREEMPT | OS_TRACE_TASK_YIELD | OS_TRACE_TASK_SLEEP
  | OS_TRACE_TASK_WAKE | OS_TRACE_TASK_EXIT | OS_TRACE_CONTEXT_SWITCH
  | OS_TRACE_IDLE_START | OS_TRACE_IDLE_STOP | OS_TRACE_DEADLINE_MET
  | OS_TRACE_DEADLINE_MISS | OS_TRACE_ALLOC | OS_TRACE_FREE
  | OS_TRACE_TASK_WAIT_PERIOD | OS_TRACE_TASK_RELEASE_SKIPPED
  | OS_TRACE_OWNER_RELEASE | OS_TRACE_OVERFLOW
  | OS_TRACE_EVENT_OTHER u32

text \<open>The integer value of an enumerator; \<open>OS_TRACE_EVENT_OTHER\<close> is any other integer.\<close>

fun event_value :: "os_trace_event \<Rightarrow> u32" where
  "event_value OS_TRACE_KERNEL_START = 1"
| "event_value OS_TRACE_TASK_CREATE = 2"
| "event_value OS_TRACE_TASK_RELEASE = 3"
| "event_value OS_TRACE_TASK_SELECT = 4"
| "event_value OS_TRACE_SELECT_CANDIDATE = 5"
| "event_value OS_TRACE_TASK_START = 6"
| "event_value OS_TRACE_TASK_PREEMPT = 7"
| "event_value OS_TRACE_TASK_YIELD = 8"
| "event_value OS_TRACE_TASK_SLEEP = 9"
| "event_value OS_TRACE_TASK_WAKE = 10"
| "event_value OS_TRACE_TASK_EXIT = 11"
| "event_value OS_TRACE_CONTEXT_SWITCH = 12"
| "event_value OS_TRACE_IDLE_START = 13"
| "event_value OS_TRACE_IDLE_STOP = 14"
| "event_value OS_TRACE_DEADLINE_MET = 15"
| "event_value OS_TRACE_DEADLINE_MISS = 16"
| "event_value OS_TRACE_ALLOC = 17"
| "event_value OS_TRACE_FREE = 18"
| "event_value OS_TRACE_TASK_WAIT_PERIOD = 19"
| "event_value OS_TRACE_TASK_RELEASE_SKIPPED = 20"
| "event_value OS_TRACE_OWNER_RELEASE = 21"
| "event_value OS_TRACE_OVERFLOW = 22"
| "event_value (OS_TRACE_EVENT_OTHER v) = v"

abbreviation OS_TRACE_SCHEMA_VERSION :: u16 where "OS_TRACE_SCHEMA_VERSION \<equiv> 1"
abbreviation OS_TRACE_MAX_BATCH_RECORDS :: u32 where "OS_TRACE_MAX_BATCH_RECORDS \<equiv> 5"
abbreviation OS_TRACE_TASK_INVALID :: u16 where "OS_TRACE_TASK_INVALID \<equiv> UINT16_MAX"
abbreviation OS_TRACE_FINAL_SEQUENCE_NONE :: u32 where
  "OS_TRACE_FINAL_SEQUENCE_NONE \<equiv> UINT32_MAX"

record os_trace_record =
  rec_tick :: u64
  rec_sequence :: u32
  rec_schema :: u16
  rec_event :: u8
  rec_flags :: u8
  rec_task :: u16
  rec_related :: u16
  rec_value0 :: u32
  rec_value1 :: u32
  rec_value2 :: u32

record os_trace_input =
  in_event :: os_trace_event
  in_flags :: u8
  in_task :: u16
  in_related :: u16
  in_value0 :: u32
  in_value1 :: u32
  in_value2 :: u32

record os_trace_ring =
  records :: "os_trace_record list option"
  capacity :: u32
  read_index :: u32
  write_index :: u32
  ring_count :: u32
  next_sequence :: u32
  attempted :: u32
  emitted :: u32
  dropped :: u32
  reported_dropped :: u32
  enabled :: bool
  sequence_exhausted :: bool

record os_trace_final =
  final_attempted :: u32
  final_emitted :: u32
  final_dropped :: u32
  final_sequence :: u32
  final_flags :: u32
  final_tick :: u64

section \<open>Operations\<close>

definition os_trace_event_valid :: "os_trace_event \<Rightarrow> bool" where
  "os_trace_event_valid event =
     (event_value event \<ge> event_value OS_TRACE_KERNEL_START \<and>
      event_value event \<le> event_value OS_TRACE_OVERFLOW)"

definition os_trace_record_zero :: os_trace_record where
  "os_trace_record_zero = \<lparr>rec_tick = 0, rec_sequence = 0, rec_schema = 0, rec_event = 0,
     rec_flags = 0, rec_task = 0, rec_related = 0, rec_value0 = 0, rec_value1 = 0,
     rec_value2 = 0\<rparr>"

definition os_trace_ring_zero :: os_trace_ring where
  "os_trace_ring_zero = \<lparr>records = None, capacity = 0, read_index = 0, write_index = 0,
     ring_count = 0, next_sequence = 0, attempted = 0, emitted = 0, dropped = 0,
     reported_dropped = 0, enabled = False, sequence_exhausted = False\<rparr>"

text \<open>
  The storage argument is its address (\<open>0\<close> is \<open>NULL\<close>); a record is 32 bytes long and eight-byte
  aligned. The array behind the address belongs to the ring from here on.
\<close>

definition os_trace_ring_init ::
  "os_trace_ring option \<Rightarrow> u32 \<Rightarrow> u32 \<Rightarrow> bool \<times> os_trace_ring option" where
  "os_trace_ring_init ring storage cap = on_ptr ring (\<lambda>r.
     if storage = 0 \<or> cap = 0 \<or> cap > UINT32_MAX \<or> cap > UINT32_MAX div 32 \<or> storage mod 8 \<noteq> 0
     then (False, r)
     else (True, os_trace_ring_zero
       \<lparr>records := Some (replicate (unat cap) os_trace_record_zero),
        capacity := cap, enabled := True\<rparr>))"

definition record_of_input :: "u64 \<Rightarrow> u32 \<Rightarrow> os_trace_input \<Rightarrow> os_trace_record" where
  "record_of_input tick sequence i = \<lparr>rec_tick = tick, rec_sequence = sequence,
     rec_schema = OS_TRACE_SCHEMA_VERSION, rec_event = ucast (event_value (in_event i)),
     rec_flags = in_flags i, rec_task = in_task i, rec_related = in_related i,
     rec_value0 = in_value0 i, rec_value1 = in_value1 i, rec_value2 = in_value2 i\<rparr>"

text \<open>The loop that writes a batch: the array and the local \<open>write\<close> index.\<close>

fun write_batch_loop ::
  "u32 \<Rightarrow> u64 \<Rightarrow> u32 \<Rightarrow> os_trace_input list \<Rightarrow> nat list \<Rightarrow> os_trace_record list \<Rightarrow> u32 \<Rightarrow>
   os_trace_record list \<times> u32" where
  "write_batch_loop cap tick first inputs [] rs write = (rs, write)"
| "write_batch_loop cap tick first inputs (index # rest) rs write =
     write_batch_loop cap tick first inputs rest
       (rs[unat write := record_of_input tick (first + of_nat index) (inputs ! index)])
       ((write + 1) mod cap)"

text \<open>
  The batch operation in its three parts: the guards that refuse a call without any effect,
  the counting of an attempt, and the storing of the records.
\<close>

definition batch_refused :: "os_trace_ring \<Rightarrow> os_trace_input list option \<Rightarrow> u32 \<Rightarrow> bool" where
  "batch_refused r inputs count =
     (if records r = None \<or> capacity r = 0 \<or> \<not> enabled r \<or> inputs = None \<or> count = 0 \<or>
         count > capacity r \<or> count > OS_TRACE_MAX_BATCH_RECORDS then True
      else list_ex (\<lambda>index. \<not> os_trace_event_valid (in_event (the inputs ! index)) \<or>
             in_flags (the inputs ! index) \<noteq> 0) [0..<unat count])"

definition attempt_batch :: "u32 \<Rightarrow> os_trace_ring \<Rightarrow> os_trace_ring" where
  "attempt_batch count r =
     (let r1 = r\<lparr>attempted := increment_saturating_times (unat count) (attempted r),
                 next_sequence := next_sequence r + count\<rparr>
      in if next_sequence r1 = 0 then r1\<lparr>sequence_exhausted := True\<rparr> else r1)"

definition store_batch ::
  "u64 \<Rightarrow> u32 \<Rightarrow> os_trace_input list \<Rightarrow> u32 \<Rightarrow> os_trace_ring \<Rightarrow> os_trace_ring" where
  "store_batch tick first ins count r =
     (let (rs, write) = write_batch_loop (capacity r) tick first ins [0..<unat count]
                          (the (records r)) (write_index r)
      in r\<lparr>records := Some rs, write_index := write, ring_count := ring_count r + count,
           emitted := increment_saturating_times (unat count) (emitted r)\<rparr>)"

definition os_trace_ring_push_batch ::
  "os_trace_ring option \<Rightarrow> u64 \<Rightarrow> os_trace_input list option \<Rightarrow> u32 \<Rightarrow> bool \<times> os_trace_ring option"
where
  "os_trace_ring_push_batch ring tick inputs count = on_ptr ring (\<lambda>r.
     if batch_refused r inputs count then (False, r)
     else if sequence_exhausted r \<or> next_sequence r > UINT32_MAX - (count - 1) then
       (False, r\<lparr>sequence_exhausted := True,
                 attempted := increment_saturating_times (unat count) (attempted r),
                 dropped := increment_saturating_times (unat count) (dropped r)\<rparr>)
     else
       let first = next_sequence r; r1 = attempt_batch count r
       in if count > capacity r1 - ring_count r1
          then (False, r1\<lparr>dropped := increment_saturating_times (unat count) (dropped r1)\<rparr>)
          else (True, store_batch tick first (the inputs) count r1))"

definition os_trace_ring_push ::
  "os_trace_ring option \<Rightarrow> u64 \<Rightarrow> os_trace_event \<Rightarrow> u8 \<Rightarrow> u16 \<Rightarrow> u16 \<Rightarrow> u32 \<Rightarrow> u32 \<Rightarrow> u32 \<Rightarrow>
   bool \<times> os_trace_ring option" where
  "os_trace_ring_push ring tick event fl task related value0 value1 value2 =
     os_trace_ring_push_batch ring tick
       (Some [\<lparr>in_event = event, in_flags = fl, in_task = task, in_related = related,
               in_value0 = value0, in_value1 = value1, in_value2 = value2\<rparr>]) 1"

text \<open>The out-parameter of \<open>os_trace_ring_pop\<close> is its third argument and third result.\<close>

definition os_trace_ring_pop ::
  "os_trace_ring option \<Rightarrow> os_trace_record option \<Rightarrow>
   bool \<times> os_trace_ring option \<times> os_trace_record option" where
  "os_trace_ring_pop ring out = (case ring of None \<Rightarrow> (False, ring, out) | Some r \<Rightarrow>
     if out = None \<or> records r = None \<or> ring_count r = 0 then (False, ring, out)
     else (True,
           Some (r\<lparr>read_index := (read_index r + 1) mod capacity r,
                   ring_count := ring_count r - 1\<rparr>),
           Some (the (records r) ! unat (read_index r))))"

definition os_trace_ring_report_overflow ::
  "os_trace_ring option \<Rightarrow> u64 \<Rightarrow> bool \<times> os_trace_ring option" where
  "os_trace_ring_report_overflow ring tick = on_ptr ring (\<lambda>r.
     if records r = None \<or> \<not> enabled r \<or> capacity r = 0 \<or> ring_count r \<ge> capacity r \<or>
        sequence_exhausted r \<or> dropped r = reported_dropped r then (False, r)
     else
       let lost = dropped r; tried = attempted r; kept = emitted r;
           (ok, r1) = call_ptr (\<lambda>p. os_trace_ring_push p tick OS_TRACE_OVERFLOW 0
                        OS_TRACE_TASK_INVALID OS_TRACE_TASK_INVALID lost tried kept) r
       in if \<not> ok then (False, r1) else (True, r1\<lparr>reported_dropped := lost\<rparr>))"

definition os_trace_ring_close ::
  "os_trace_ring option \<Rightarrow> u64 \<Rightarrow> os_trace_final option \<Rightarrow>
   bool \<times> os_trace_ring option \<times> os_trace_final option" where
  "os_trace_ring_close ring tick final = (case ring of None \<Rightarrow> (False, ring, final) | Some r \<Rightarrow>
     if final = None \<or> records r = None \<or> \<not> enabled r then (False, ring, final)
     else
       let r1 = r\<lparr>enabled := False\<rparr>
       in (True, Some r1, Some
            \<lparr>final_attempted = attempted r1, final_emitted = emitted r1,
             final_dropped = dropped r1,
             final_sequence = (if attempted r1 = 0 then OS_TRACE_FINAL_SEQUENCE_NONE
               else if sequence_exhausted r1 then UINT32_MAX else next_sequence r1 - 1),
             final_flags = (if sequence_exhausted r1 then 1 else 0),
             final_tick = tick\<rparr>))"


section \<open>The ring as a list\<close>

definition ring_contents :: "os_trace_ring \<Rightarrow> os_trace_record list" where
  "ring_contents r = map (\<lambda>k. the (records r) ! ((unat (read_index r) + k) mod unat (capacity r)))
     [0..<unat (ring_count r)]"

definition ring_geometry :: "os_trace_ring \<Rightarrow> bool" where
  "ring_geometry r \<longleftrightarrow> (\<exists>rs. records r = Some rs \<and> length rs = unat (capacity r)) \<and>
     0 < unat (capacity r) \<and> unat (capacity r) \<le> 2 ^ 27 \<and>
     unat (read_index r) < unat (capacity r) \<and> unat (ring_count r) \<le> unat (capacity r) \<and>
     unat (write_index r) = (unat (read_index r) + unat (ring_count r)) mod unat (capacity r)"

lemma length_ring_contents [simp]: "length (ring_contents r) = unat (ring_count r)"
  by (simp add: ring_contents_def)

lemma mod_window_less:
  fixes a c j k :: nat
  assumes "j < k" and "k < c"
  shows "(a + j) mod c \<noteq> (a + k) mod c"
proof
  assume "(a + j) mod c = (a + k) mod c"
  then have "c dvd (a + k) - (a + j)"
    using assms(1) mod_eq_dvd_iff_nat [of "a + j" "a + k" c] by simp
  then have "c \<le> k - j" using assms(1) by (auto intro: dvd_imp_le)
  with assms show False by simp
qed

lemma mod_window_inj:
  fixes a c j k :: nat
  assumes "j < c" and "k < c"
  shows "(a + j) mod c = (a + k) mod c \<longleftrightarrow> j = k"
  using mod_window_less [of j k c a] mod_window_less [of k j c a] assms
  by (cases j k rule: linorder_cases) auto

lemma write_batch_loop_spec:
  assumes "length rs = unat cap" and "unat cap \<le> 2 ^ 27"
    and "unat wr = (a + m) mod unat cap" and "m + length idx \<le> unat cap"
    and "write_batch_loop cap tick first inputs idx rs wr = (rs', wr')"
  shows "length rs' = unat cap \<and> unat wr' = (a + m + length idx) mod unat cap \<and>
    (\<forall>k < unat cap. rs' ! ((a + k) mod unat cap) =
      (if m \<le> k \<and> k < m + length idx
       then record_of_input tick (first + of_nat (idx ! (k - m))) (inputs ! (idx ! (k - m)))
       else rs ! ((a + k) mod unat cap)))"
  using assms
proof (induction idx arbitrary: rs wr m)
  case Nil
  then show ?case by auto
next
  case (Cons i idx)
  let ?c = "unat cap"
  let ?r = "record_of_input tick (first + of_nat i) (inputs ! i)"
  define rs1 where "rs1 = rs[unat wr := ?r]"
  have pos: "0 < ?c" using Cons.prems(4) by simp
  have "unat wr < ?c" using Cons.prems(3) pos by simp
  then have "unat ((wr + 1) mod cap) = (unat wr + 1) mod ?c"
    using Cons.prems(2) by (simp add: unat_mod unat_word_ariths(1))
  then have w: "unat ((wr + 1) mod cap) = (a + Suc m) mod ?c"
    using Cons.prems(3) by (simp add: mod_Suc_eq)
  have run: "write_batch_loop cap tick first inputs idx rs1 ((wr + 1) mod cap) = (rs', wr')"
    using Cons.prems(5) by (simp add: rs1_def)
  have IH: "length rs' = ?c \<and> unat wr' = (a + Suc m + length idx) mod ?c \<and>
    (\<forall>k < ?c. rs' ! ((a + k) mod ?c) =
      (if Suc m \<le> k \<and> k < Suc m + length idx
       then record_of_input tick (first + of_nat (idx ! (k - Suc m))) (inputs ! (idx ! (k - Suc m)))
       else rs1 ! ((a + k) mod ?c)))"
    using Cons.prems(1,2,4) w run by (intro Cons.IH) (auto simp: rs1_def)
  have old: "rs1 ! ((a + k) mod ?c) = (if k = m then ?r else rs ! ((a + k) mod ?c))"
    if "k < ?c" for k
    using that pos Cons.prems(1,3,4) mod_window_inj [of m ?c k a]
    by (auto simp: rs1_def nth_list_update)
  show ?case
    using IH old by (auto simp: nth_Cons' Suc_le_eq not_less_eq_eq)
qed


section \<open>The outcomes of a batch\<close>

definition batch_records :: "os_trace_ring \<Rightarrow> u64 \<Rightarrow> os_trace_input list \<Rightarrow> nat \<Rightarrow> os_trace_record list"
where
  "batch_records r tick ins n =
     map (\<lambda>i. record_of_input tick (next_sequence r + of_nat i) (ins ! i)) [0..<n]"

lemma attempt_batch_fields [simp]:
  "records (attempt_batch count r) = records r"
  "capacity (attempt_batch count r) = capacity r"
  "read_index (attempt_batch count r) = read_index r"
  "write_index (attempt_batch count r) = write_index r"
  "ring_count (attempt_batch count r) = ring_count r"
  "emitted (attempt_batch count r) = emitted r"
  "dropped (attempt_batch count r) = dropped r"
  "reported_dropped (attempt_batch count r) = reported_dropped r"
  "enabled (attempt_batch count r) = enabled r"
  "attempted (attempt_batch count r) = increment_saturating_times (unat count) (attempted r)"
  "next_sequence (attempt_batch count r) = next_sequence r + count"
  "sequence_exhausted (attempt_batch count r) =
     (sequence_exhausted r \<or> next_sequence r + count = 0)"
  by (simp_all add: attempt_batch_def Let_def del: add_eq_0_iff)

lemma sequence_guard:
  assumes "0 < unat count"
  shows "next > UINT32_MAX - (count - 1) \<longleftrightarrow> 2 ^ 32 < unat next + unat (count :: u32)"
proof -
  have "unat (count - 1) = unat count - 1"
    using assms by (subst unat_sub) (simp_all add: word_le_nat_alt)
  with assms show ?thesis unfolding gt_max32_iff by auto
qed

lemma batch_refused_facts:
  assumes "\<not> batch_refused r inputs count"
  shows "enabled r" "0 < unat count" "unat count \<le> 5" "unat count \<le> unat (capacity r)"
    "inputs = Some (the inputs)"
  using assms
  by (auto simp: batch_refused_def not_less word_le_nat_alt unat_gt_0 split: if_splits)

lemma push_batch_cases:
  assumes "os_trace_ring_push_batch (Some r) tick inputs count = (ok, Some r')"
  obtains (inert) "batch_refused r inputs count" "\<not> ok" "r' = r"
  | (exhausted) "\<not> batch_refused r inputs count" "\<not> ok"
      "r' = r\<lparr>sequence_exhausted := True,
        attempted := increment_saturating_times (unat count) (attempted r),
        dropped := increment_saturating_times (unat count) (dropped r)\<rparr>"
      "sequence_exhausted r \<or> 2 ^ 32 < unat (next_sequence r) + unat count"
  | (full) "\<not> batch_refused r inputs count" "\<not> ok" "\<not> sequence_exhausted r"
      "unat (next_sequence r) + unat count \<le> 2 ^ 32" "capacity r - ring_count r < count"
      "r' = (attempt_batch count r)
        \<lparr>dropped := increment_saturating_times (unat count) (dropped r)\<rparr>"
  | (stored) "\<not> batch_refused r inputs count" "ok" "\<not> sequence_exhausted r"
      "unat (next_sequence r) + unat count \<le> 2 ^ 32" "count \<le> capacity r - ring_count r"
      "r' = store_batch tick (next_sequence r) (the inputs) count (attempt_batch count r)"
proof (cases "batch_refused r inputs count")
  case True
  with assms show thesis by (intro inert) (auto simp: os_trace_ring_push_batch_def on_ptr_Some)
next
  case False
  note guard = sequence_guard [OF batch_refused_facts(2) [OF False], of "next_sequence r"]
  show thesis
  proof (cases "sequence_exhausted r \<or> next_sequence r > UINT32_MAX - (count - 1)")
    case True
    with assms False guard show thesis
      by (intro exhausted) (auto simp: os_trace_ring_push_batch_def on_ptr_Some)
  next
    case in_range: False
    show thesis
    proof (cases "capacity r - ring_count r < count")
      case True
      with assms False in_range guard show thesis
        by (intro full) (auto simp: os_trace_ring_push_batch_def on_ptr_Some Let_def)
    next
      case room: False
      with assms False in_range guard show thesis
        by (intro stored) (auto simp: os_trace_ring_push_batch_def on_ptr_Some Let_def)
    qed
  qed
qed


lemma ring_contents_cong:
  assumes "records r' = records r" "capacity r' = capacity r" "read_index r' = read_index r"
    "ring_count r' = ring_count r"
  shows "ring_contents r' = ring_contents r"
  using assms by (simp add: ring_contents_def)

lemma ring_geometry_cong:
  assumes "records r' = records r" "capacity r' = capacity r" "read_index r' = read_index r"
    "ring_count r' = ring_count r" "write_index r' = write_index r"
  shows "ring_geometry r' = ring_geometry r"
  using assms by (simp add: ring_geometry_def)

lemma store_batch_contents:
  assumes geo: "ring_geometry r" and room: "count \<le> capacity r - ring_count r"
  shows "ring_geometry (store_batch tick first ins count r) \<and>
    ring_contents (store_batch tick first ins count r) = ring_contents r @
      map (\<lambda>i. record_of_input tick (first + of_nat i) (ins ! i)) [0..<unat count]"
proof -
  let ?c = "unat (capacity r)" and ?n = "unat count" and ?m = "unat (ring_count r)"
    and ?a = "unat (read_index r)"
  obtain rs wr where loop: "write_batch_loop (capacity r) tick first ins [0..<?n]
      (the (records r)) (write_index r) = (rs, wr)" by fastforce
  have bounds: "length (the (records r)) = ?c" "?c \<le> 2 ^ 27" "?m \<le> ?c" "?a < ?c"
    "unat (write_index r) = (?a + ?m) mod ?c"
    using geo by (auto simp: ring_geometry_def)
  have "unat (capacity r - ring_count r) = ?c - ?m"
    using bounds(3) by (subst unat_sub) (simp_all add: word_le_nat_alt)
  then have fits: "?m + ?n \<le> ?c" using room bounds(3) by (simp add: word_le_nat_alt)
  then have count': "unat (ring_count r + count) = ?m + ?n"
    using bounds(2) by (intro unat_add32) simp
  have spec: "length rs = ?c \<and> unat wr = (?a + ?m + ?n) mod ?c \<and>
    (\<forall>k < ?c. rs ! ((?a + k) mod ?c) =
      (if ?m \<le> k \<and> k < ?m + ?n
       then record_of_input tick (first + of_nat (k - ?m)) (ins ! (k - ?m))
       else the (records r) ! ((?a + k) mod ?c)))"
    using write_batch_loop_spec [OF bounds(1,2,5) _ loop] fits by auto
  have "ring_geometry (store_batch tick first ins count r)"
    using geo spec fits count'
    by (simp add: ring_geometry_def store_batch_def loop add.assoc)
  moreover have "ring_contents (store_batch tick first ins count r) = ring_contents r @
      map (\<lambda>i. record_of_input tick (first + of_nat i) (ins ! i)) [0..<?n]"
    using spec fits count'
    by (intro nth_equalityI) (auto simp: ring_contents_def store_batch_def loop nth_append)
  ultimately show ?thesis ..
qed

section \<open>The invariant of the ring\<close>

definition ring_ok :: "os_trace_ring \<Rightarrow> bool" where
  "ring_ok r \<longleftrightarrow> ring_geometry r \<and>
     unat (emitted r) \<le> unat (attempted r) \<and> unat (dropped r) \<le> unat (attempted r) \<and>
     (attempted r \<noteq> UINT32_MAX \<longrightarrow> unat (attempted r) = unat (emitted r) + unat (dropped r)) \<and>
     (\<not> sequence_exhausted r \<longrightarrow> next_sequence r = attempted r \<and>
       (\<forall>x \<in> set (ring_contents r). unat (rec_sequence x) < unat (next_sequence r))) \<and>
     sorted_wrt (\<lambda>x y. unat (rec_sequence x) < unat (rec_sequence y)) (ring_contents r)"

lemma times_not_max:
  "increment_saturating_times n v \<noteq> UINT32_MAX \<Longrightarrow>
     v \<noteq> UINT32_MAX \<and> unat (increment_saturating_times n v) = unat v + n"
  using unat_increment_saturating_times [of n v]
  by (auto simp: word_unat_eq_iff min_def split: if_splits)

lemma times_in_range:
  "unat v + n < 2 ^ 32 \<Longrightarrow> increment_saturating_times n v = v + of_nat n"
  using unat_increment_saturating_times [of n v]
  by (simp add: word_unat_eq_iff unat_word_ariths unat_of_nat)

lemma times_mono:
  "unat v \<le> unat w \<Longrightarrow>
     unat (increment_saturating_times n v) \<le> unat (increment_saturating_times n w) \<and>
     unat v \<le> unat (increment_saturating_times n w)"
  using unat_increment_saturating_times [of n v] unat_increment_saturating_times [of n w]
    unat_le_max(1) [of w] by simp

text \<open>The counters of an attempt that keeps or drops the whole batch.\<close>

lemma attempt_counters:
  assumes "unat e \<le> unat a" "unat d \<le> unat a" "a \<noteq> UINT32_MAX \<longrightarrow> unat a = unat e + unat d"
  shows "increment_saturating_times n a \<noteq> UINT32_MAX \<longrightarrow>
      unat (increment_saturating_times n a) = unat (increment_saturating_times n e) + unat d"
    and "increment_saturating_times n a \<noteq> UINT32_MAX \<longrightarrow>
      unat (increment_saturating_times n a) = unat e + unat (increment_saturating_times n d)"
  using assms unat_increment_saturating_times [of n e] unat_increment_saturating_times [of n d]
    unat_le_max(1) [of "increment_saturating_times n a"]
  by (auto dest!: times_not_max)

lemma attempt_next_sequence:
  assumes "next_sequence r = attempted r" and "next_sequence r + count \<noteq> 0"
    and "unat (next_sequence r) + unat count \<le> 2 ^ 32"
  shows "next_sequence r + count = increment_saturating_times (unat count) (attempted r) \<and>
    unat (next_sequence r + count) = unat (next_sequence r) + unat count"
proof -
  have "unat (next_sequence r) + unat count \<noteq> 2 ^ 32"
    using assms(2) by (auto simp: word_unat_eq_iff unat_word_ariths simp del: add_eq_0_iff)
  with assms(3) have "unat (next_sequence r) + unat count < 2 ^ 32" by simp
  with times_in_range [of "attempted r" "unat count"] assms(1) show ?thesis
    by (simp add: unat_add32)
qed


lemma ring_ok_counters:
  assumes "ring_ok r" and "ring_geometry r'" and "ring_contents r' = ring_contents r"
    and "unat (emitted r') \<le> unat (attempted r')" "unat (dropped r') \<le> unat (attempted r')"
    and "attempted r' \<noteq> UINT32_MAX \<longrightarrow>
      unat (attempted r') = unat (emitted r') + unat (dropped r')"
    and "\<not> sequence_exhausted r' \<longrightarrow> \<not> sequence_exhausted r \<and>
      next_sequence r' = attempted r' \<and> unat (next_sequence r) \<le> unat (next_sequence r')"
  shows "ring_ok r'"
  using assms by (auto simp: ring_ok_def)

lemma push_batch_ok:
  assumes ok: "ring_ok r"
    and push: "os_trace_ring_push_batch (Some r) tick inputs count = (stored, Some r')"
  shows "ring_ok r' \<and> ring_contents r' = ring_contents r @
    (if stored then batch_records r tick (the inputs) (unat count) else [])"
proof -
  have geo: "ring_geometry r" using ok by (simp add: ring_ok_def)
  have counts: "unat (emitted r) \<le> unat (attempted r)" "unat (dropped r) \<le> unat (attempted r)"
    "attempted r \<noteq> UINT32_MAX \<longrightarrow> unat (attempted r) = unat (emitted r) + unat (dropped r)"
    using ok by (auto simp: ring_ok_def)
  note mono = times_mono [OF counts(1)] times_mono [OF counts(2)]
  from push show ?thesis
  proof (cases rule: push_batch_cases)
    case inert
    with ok show ?thesis by simp
  next
    case exhausted
    have same: "ring_geometry r'" "ring_contents r' = ring_contents r"
      using geo ring_geometry_cong [of r' r] ring_contents_cong [of r' r]
      by (simp_all add: exhausted(3))
    have "ring_ok r'"
      by (rule ring_ok_counters [OF ok same])
        (use mono attempt_counters(2) [OF counts] in \<open>simp_all add: exhausted(3)\<close>)
    with same exhausted(2) show ?thesis by simp
  next
    case full
    have same: "ring_geometry r'" "ring_contents r' = ring_contents r"
      using geo ring_geometry_cong [of r' r] ring_contents_cong [of r' r]
      by (simp_all add: full(6))
    have next_ok: "next_sequence r = attempted r" using ok full(3) by (simp add: ring_ok_def)
    have "ring_ok r'"
      by (rule ring_ok_counters [OF ok same])
        (use mono attempt_counters(2) [OF counts] attempt_next_sequence [OF next_ok _ full(4)]
          full(3) in \<open>simp_all add: full(6) del: add_eq_0_iff\<close>)
    with same full(2) show ?thesis by simp
  next
    case stored
    let ?r1 = "attempt_batch count r" and ?n = "unat count"
    have geo1: "ring_geometry ?r1" and con1: "ring_contents ?r1 = ring_contents r"
      using geo ring_geometry_cong [of ?r1 r] ring_contents_cong [of ?r1 r] by simp_all
    have room: "count \<le> capacity ?r1 - ring_count ?r1" using stored(5) by simp
    have con: "ring_geometry r'" "ring_contents r' = ring_contents r @
        batch_records r tick (the inputs) ?n"
      using store_batch_contents [OF geo1 room, of tick "next_sequence r" "the inputs"]
      by (simp_all add: stored(6) con1 batch_records_def)
    have fields: "emitted r' = increment_saturating_times ?n (emitted r)" "dropped r' = dropped r"
      "attempted r' = increment_saturating_times ?n (attempted r)"
      "next_sequence r' = next_sequence r + count"
      "sequence_exhausted r' = (next_sequence r + count = 0)"
      using stored(3) by (simp_all add: stored(6) store_batch_def del: add_eq_0_iff split: prod.split)
    have next_ok: "next_sequence r = attempted r" using ok stored(3) by (simp add: ring_ok_def)
    have old: "\<forall>x \<in> set (ring_contents r). unat (rec_sequence x) < unat (next_sequence r)"
      "sorted_wrt (\<lambda>x y. unat (rec_sequence x) < unat (rec_sequence y)) (ring_contents r)"
      using ok stored(3) by (auto simp: ring_ok_def)
    have seq: "unat (next_sequence r + of_nat i) = unat (next_sequence r) + i" if "i < ?n" for i
      using that stored(4) by (simp add: unat_word_ariths unat_of_nat)
    have batch: "\<forall>x \<in> set (batch_records r tick (the inputs) ?n).
        unat (next_sequence r) \<le> unat (rec_sequence x) \<and>
        unat (rec_sequence x) < unat (next_sequence r) + ?n"
      "sorted_wrt (\<lambda>x y. unat (rec_sequence x) < unat (rec_sequence y))
        (batch_records r tick (the inputs) ?n)"
      using seq by (auto simp: batch_records_def sorted_wrt_iff_nth_less record_of_input_def)
    have "sorted_wrt (\<lambda>x y. unat (rec_sequence x) < unat (rec_sequence y)) (ring_contents r')"
      using old batch by (fastforce simp: con(2) sorted_wrt_append)
    moreover have "\<not> sequence_exhausted r' \<longrightarrow> next_sequence r' = attempted r' \<and>
        (\<forall>x \<in> set (ring_contents r'). unat (rec_sequence x) < unat (next_sequence r'))"
      using attempt_next_sequence [OF next_ok _ stored(4)] old(1) batch(1)
      by (fastforce simp: fields con(2) simp del: add_eq_0_iff)
    ultimately have "ring_ok r'"
      using con(1) mono attempt_counters(1) [OF counts]
      unfolding ring_ok_def fields(1-3) by (simp add: fields(4,5) del: add_eq_0_iff)
    with con(2) stored(2) show ?thesis by simp
  qed
qed


section \<open>Taking a record, reporting a loss, closing\<close>

lemma ring_contents_Cons:
  assumes "ring_geometry r" and "0 < unat (ring_count r)"
  shows "ring_contents r = the (records r) ! unat (read_index r) #
    map (\<lambda>k. the (records r) ! ((unat (read_index r) + Suc k) mod unat (capacity r)))
      [0..<unat (ring_count r) - 1]"
proof -
  have "[0..<unat (ring_count r)] = 0 # map Suc [0..<unat (ring_count r) - 1]"
    using assms(2) by (simp add: map_Suc_upt upt_conv_Cons)
  with assms(1) show ?thesis by (simp add: ring_contents_def ring_geometry_def)
qed

lemma pop_empty:
  "ring_geometry r \<Longrightarrow> ring_contents r = [] \<Longrightarrow>
     os_trace_ring_pop (Some r) out = (False, Some r, out)"
  by (simp add: os_trace_ring_pop_def ring_contents_def unat_eq_0)

lemma pop_oldest:
  assumes geo: "ring_geometry r" and con: "ring_contents r = x # xs"
  shows "\<exists>r'. os_trace_ring_pop (Some r) (Some out) = (True, Some r', Some x) \<and>
    ring_geometry r' \<and> ring_contents r' = xs \<and>
    r' = r\<lparr>read_index := read_index r', ring_count := ring_count r'\<rparr>"
proof -
  let ?a = "unat (read_index r)" and ?c = "unat (capacity r)" and ?m = "unat (ring_count r)"
  define r' where "r' = r\<lparr>read_index := (read_index r + 1) mod capacity r,
    ring_count := ring_count r - 1\<rparr>"
  have m: "?m = Suc (length xs)" using con length_ring_contents [of r] by simp
  then have bounds: "0 < ?m" "?c \<le> 2 ^ 27" "?a < ?c" "?m \<le> ?c"
    using geo by (auto simp: ring_geometry_def)
  have rd: "unat (read_index r') = (?a + 1) mod ?c"
    using bounds by (simp add: r'_def unat_mod unat_word_ariths(1))
  have ct: "unat (ring_count r') = ?m - 1"
    using bounds by (simp add: r'_def) (subst unat_sub; simp add: word_le_nat_alt)
  have same: "records r' = records r" "capacity r' = capacity r" "write_index r' = write_index r"
    by (simp_all add: r'_def)
  have "((?a + 1) mod ?c + k) mod ?c = (?a + Suc k) mod ?c" for k
    by (simp add: mod_add_left_eq)
  then have con': "ring_contents r' = map (\<lambda>k. the (records r) ! ((?a + Suc k) mod ?c)) [0..<?m - 1]"
    unfolding ring_contents_def rd ct same by (simp only:)
  have "((?a + 1) mod ?c + (?m - 1)) mod ?c = (?a + 1 + (?m - 1)) mod ?c"
    by (rule mod_add_left_eq)
  then have "((?a + 1) mod ?c + (?m - 1)) mod ?c = (?a + ?m) mod ?c"
    using bounds(1) by simp
  then have "ring_geometry r'"
    using geo bounds unfolding ring_geometry_def rd ct same by auto
  moreover have "os_trace_ring_pop (Some r) (Some out) = (True, Some r', Some x)"
    using ring_contents_Cons [OF geo bounds(1)] con bounds(1) geo
    by (auto simp: os_trace_ring_pop_def r'_def ring_geometry_def)
  moreover have "ring_contents r' = xs"
    using ring_contents_Cons [OF geo bounds(1)] con con' by simp
  ultimately show ?thesis by (auto simp: r'_def)
qed

lemma report_guard_push:
  assumes ok: "ring_ok r" and room: "ring_count r < capacity r"
    and "enabled r" "\<not> sequence_exhausted r"
  shows "fst (os_trace_ring_push_batch (Some r) tick
    (Some [\<lparr>in_event = OS_TRACE_OVERFLOW, in_flags = 0, in_task = t, in_related = u,
      in_value0 = a, in_value1 = b, in_value2 = c\<rparr>]) 1)"
proof -
  let ?i = "\<lparr>in_event = OS_TRACE_OVERFLOW, in_flags = 0, in_task = t, in_related = u,
      in_value0 = a, in_value1 = b, in_value2 = c\<rparr> :: os_trace_input"
  have "1 \<le> unat (capacity r)" using ok by (simp add: ring_ok_def ring_geometry_def)
  then have acc: "\<not> batch_refused r (Some [?i]) 1"
    using assms by (auto simp: batch_refused_def ring_ok_def ring_geometry_def
      os_trace_event_valid_def word_le_nat_alt word_less_nat_alt)
  have "unat (capacity r - ring_count r) = unat (capacity r) - unat (ring_count r)"
    using room by (intro unat_sub) simp
  with room have free: "\<not> capacity r - ring_count r < 1"
    by (simp add: word_less_nat_alt)
  obtain ok' r' where push: "os_trace_ring_push_batch (Some r) tick (Some [?i]) 1 = (ok', Some r')"
    by (auto simp: os_trace_ring_push_batch_def on_ptr_Some)
  from push have ok'
  proof (cases rule: push_batch_cases)
    case exhausted
    then show ?thesis using assms(4) unat_le_max(1) [of "next_sequence r"] by simp
  qed (use acc free in auto)
  with push show ?thesis by simp
qed


definition overflow_record :: "os_trace_ring \<Rightarrow> u64 \<Rightarrow> os_trace_record" where
  "overflow_record r tick = \<lparr>rec_tick = tick, rec_sequence = next_sequence r,
     rec_schema = OS_TRACE_SCHEMA_VERSION, rec_event = 22, rec_flags = 0,
     rec_task = OS_TRACE_TASK_INVALID, rec_related = OS_TRACE_TASK_INVALID,
     rec_value0 = dropped r, rec_value1 = attempted r, rec_value2 = emitted r\<rparr>"

definition report_due :: "os_trace_ring \<Rightarrow> bool" where
  "report_due r \<longleftrightarrow> enabled r \<and> unat (ring_count r) < unat (capacity r) \<and>
     \<not> sequence_exhausted r \<and> dropped r \<noteq> reported_dropped r"

lemma report_refused:
  "\<not> report_due r \<Longrightarrow> os_trace_ring_report_overflow (Some r) tick = (False, Some r)"
  by (auto simp: os_trace_ring_report_overflow_def report_due_def on_ptr_Some word_le_nat_alt)

lemma store_batch_fields:
  "dropped (store_batch tick first ins count r) = dropped r"
  "reported_dropped (store_batch tick first ins count r) = reported_dropped r"
  "enabled (store_batch tick first ins count r) = enabled r"
  "attempted (store_batch tick first ins count r) = attempted r"
  "emitted (store_batch tick first ins count r) = increment_saturating_times (unat count) (emitted r)"
  by (simp_all add: store_batch_def split: prod.split)

lemma ring_ok_reported: "ring_ok (r\<lparr>reported_dropped := v\<rparr>) = ring_ok r"
  using ring_contents_cong [of "r\<lparr>reported_dropped := v\<rparr>" r]
    ring_geometry_cong [of "r\<lparr>reported_dropped := v\<rparr>" r]
  by (simp add: ring_ok_def)

definition overflow_input :: "os_trace_ring \<Rightarrow> os_trace_input" where
  "overflow_input r = \<lparr>in_event = OS_TRACE_OVERFLOW, in_flags = 0,
     in_task = OS_TRACE_TASK_INVALID, in_related = OS_TRACE_TASK_INVALID,
     in_value0 = dropped r, in_value1 = attempted r, in_value2 = emitted r\<rparr>"

lemma batch_records_overflow:
  "batch_records r tick [overflow_input r] (unat (1 :: u32)) = [overflow_record r tick]"
  by (simp add: batch_records_def record_of_input_def overflow_record_def overflow_input_def)

lemma report_is_push:
  assumes ok: "ring_ok r" and due: "report_due r"
  obtains r1 where "os_trace_ring_push_batch (Some r) tick (Some [overflow_input r]) 1 = (True, Some r1)"
    and "os_trace_ring_report_overflow (Some r) tick =
      (True, Some (r1\<lparr>reported_dropped := dropped r\<rparr>))"
proof -
  have room: "ring_count r < capacity r" "enabled r" "\<not> sequence_exhausted r"
    using due by (simp_all add: report_due_def word_less_nat_alt)
  obtain r1 where push:
    "os_trace_ring_push_batch (Some r) tick (Some [overflow_input r]) 1 = (True, Some r1)"
    using report_guard_push [OF ok room, of tick OS_TRACE_TASK_INVALID OS_TRACE_TASK_INVALID
      "dropped r" "attempted r" "emitted r"]
    by (auto simp: os_trace_ring_push_batch_def on_ptr_Some overflow_input_def)
  moreover have "os_trace_ring_report_overflow (Some r) tick =
      (True, Some (r1\<lparr>reported_dropped := dropped r\<rparr>))"
    using due push ok unfolding os_trace_ring_report_overflow_def on_ptr_Some
    by (auto simp: report_due_def Let_def call_ptr_def os_trace_ring_push_def word_le_nat_alt
      ring_ok_def ring_geometry_def overflow_input_def)
  ultimately show thesis ..
qed

lemma report_done:
  assumes ok: "ring_ok r" and due: "report_due r"
  shows "\<exists>r'. os_trace_ring_report_overflow (Some r) tick = (True, Some r') \<and> ring_ok r' \<and>
    ring_contents r' = ring_contents r @ [overflow_record r tick] \<and>
    dropped r' = dropped r \<and> reported_dropped r' = dropped r \<and>
    attempted r' = increment_saturating (attempted r) \<and>
    emitted r' = increment_saturating (emitted r) \<and> enabled r'"
proof -
  obtain r1 where push: "os_trace_ring_push_batch (Some r) tick (Some [overflow_input r]) 1 =
      (True, Some r1)"
    and report: "os_trace_ring_report_overflow (Some r) tick =
      (True, Some (r1\<lparr>reported_dropped := dropped r\<rparr>))"
    using report_is_push [OF assms] .
  have body: "r1 = store_batch tick (next_sequence r) [overflow_input r] 1 (attempt_batch 1 r)"
    using push by (cases rule: push_batch_cases) auto
  have fields: "dropped r1 = dropped r" "attempted r1 = increment_saturating (attempted r)"
    "emitted r1 = increment_saturating (emitted r)" "enabled r1 = enabled r"
    by (simp_all add: body store_batch_fields)
  have "ring_ok r1 \<and> ring_contents r1 = ring_contents r @ [overflow_record r tick]"
    using push_batch_ok [OF ok push] batch_records_overflow [of r tick] by simp
  moreover have "ring_contents (r1\<lparr>reported_dropped := dropped r\<rparr>) = ring_contents r1"
    by (rule ring_contents_cong) simp_all
  ultimately show ?thesis
    using report fields due by (simp add: ring_ok_reported report_due_def)
qed

section \<open>The ring implements the record queue\<close>

text \<open>
  The calls of the producers and of the code that ends the session. A call is a state change
  together with the records it appends.
\<close>

datatype ring_call =
    Emit_Batch u64 "os_trace_input list option" u32
  | Report_Overflow u64
  | Close_Ring u64

fun ring_call_step :: "ring_call \<Rightarrow> os_trace_ring \<Rightarrow> os_trace_ring" where
  "ring_call_step (Emit_Batch tick inputs count) r =
     snd (call_ptr (\<lambda>p. os_trace_ring_push_batch p tick inputs count) r)"
| "ring_call_step (Report_Overflow tick) r =
     snd (call_ptr (\<lambda>p. os_trace_ring_report_overflow p tick) r)"
| "ring_call_step (Close_Ring tick) r =
     snd (call_ptr (\<lambda>p. let (ok, q, f) = os_trace_ring_close p tick (Some
       \<lparr>final_attempted = 0, final_emitted = 0, final_dropped = 0, final_sequence = 0,
        final_flags = 0, final_tick = 0\<rparr>) in (ok, q)) r)"

fun ring_accepted :: "ring_call \<Rightarrow> os_trace_ring \<Rightarrow> os_trace_record list" where
  "ring_accepted (Emit_Batch tick inputs count) r =
     (if fst (os_trace_ring_push_batch (Some r) tick inputs count)
      then batch_records r tick (the inputs) (unat count) else [])"
| "ring_accepted (Report_Overflow tick) r =
     (if fst (os_trace_ring_report_overflow (Some r) tick) then [overflow_record r tick] else [])"
| "ring_accepted (Close_Ring tick) r = []"

definition ring_take :: "os_trace_ring \<Rightarrow> os_trace_record option \<times> os_trace_ring" where
  "ring_take r = (case os_trace_ring_pop (Some r) (Some os_trace_record_zero) of
     (ok, p, out) \<Rightarrow> (if ok then out else None, the p))"

lemma ring_call_step_ok:
  assumes "ring_ok r"
  shows "ring_ok (ring_call_step c r) \<and>
    ring_contents (ring_call_step c r) = ring_contents r @ ring_accepted c r"
proof (cases c)
  case (Emit_Batch tick inputs count)
  obtain ok r' where "os_trace_ring_push_batch (Some r) tick inputs count = (ok, Some r')"
    by (auto simp: os_trace_ring_push_batch_def on_ptr_Some)
  from push_batch_ok [OF assms this] this Emit_Batch show ?thesis by (simp add: call_ptr_def)
next
  case (Report_Overflow tick)
  show ?thesis
  proof (cases "report_due r")
    case True
    from report_done [OF assms this, of tick] Report_Overflow show ?thesis
      by (auto simp: call_ptr_def)
  next
    case False
    from report_refused [OF this, of tick] Report_Overflow assms show ?thesis
      by (simp add: call_ptr_def)
  qed
next
  case (Close_Ring tick)
  have "ring_ok (r\<lparr>enabled := False\<rparr>)" "ring_contents (r\<lparr>enabled := False\<rparr>) = ring_contents r"
    using assms ring_contents_cong [of "r\<lparr>enabled := False\<rparr>" r]
      ring_geometry_cong [of "r\<lparr>enabled := False\<rparr>" r] by (auto simp: ring_ok_def)
  with Close_Ring assms show ?thesis by (auto simp: call_ptr_def os_trace_ring_close_def Let_def)
qed

lemma ring_ok_take:
  assumes "ring_ok r" and "ring_contents r = x # xs"
  shows "fst (ring_take r) = Some x \<and> ring_contents (snd (ring_take r)) = xs \<and>
    ring_ok (snd (ring_take r))"
proof -
  have "ring_geometry r" using assms(1) by (simp add: ring_ok_def)
  from pop_oldest [OF this assms(2), of os_trace_record_zero] obtain r' where
    r': "os_trace_ring_pop (Some r) (Some os_trace_record_zero) = (True, Some r', Some x)"
    "ring_geometry r'" "ring_contents r' = xs"
    "r' = r\<lparr>read_index := read_index r', ring_count := ring_count r'\<rparr>" by blast
  have "emitted r' = emitted r" "attempted r' = attempted r" "dropped r' = dropped r"
    "next_sequence r' = next_sequence r" "sequence_exhausted r' = sequence_exhausted r"
    by (subst r'(4); simp)+
  with r'(2,3) assms have "ring_ok r'" by (auto simp: ring_ok_def)
  with r' show ?thesis by (simp add: ring_take_def)
qed

lemma ring_take_empty:
  "ring_ok r \<Longrightarrow> ring_contents r = [] \<Longrightarrow> ring_take r = (None, r)"
  using pop_empty [of r "Some os_trace_record_zero"] by (simp add: ring_take_def ring_ok_def)

interpretation ring_queue: record_queue ring_ok ring_contents ring_call_step ring_accepted ring_take
proof
  fix r :: os_trace_ring and c
  assume "ring_ok r"
  then show "ring_ok (ring_call_step c r)"
    and "ring_contents (ring_call_step c r) = ring_contents r @ ring_accepted c r"
    using ring_call_step_ok by blast+
next
  fix r :: os_trace_ring
  assume ok: "ring_ok r"
  show "ring_ok (snd (ring_take r))"
    by (cases "ring_contents r") (use ok ring_take_empty ring_ok_take in auto)
  show "ring_take r = (None, r)" if "ring_contents r = []"
    using ring_take_empty ok that by blast
  show "fst (ring_take r) = Some x \<and> ring_contents (snd (ring_take r)) = xs"
    if "ring_contents r = x # xs" for x xs
    using ring_ok_take [OF ok that] by blast
qed

lemma init_ok:
  assumes "os_trace_ring_init (Some g) storage cap = (True, Some r)"
  shows "ring_ok r \<and> ring_contents r = [] \<and> enabled r"
proof -
  have g: "cap \<noteq> 0" "cap \<le> 134217727" and r: "r = os_trace_ring_zero
       \<lparr>records := Some (replicate (unat cap) os_trace_record_zero),
        capacity := cap, enabled := True\<rparr>"
    using assms by (auto simp: os_trace_ring_init_def on_ptr_Some not_less split: if_splits)
  have "0 < unat cap" "unat cap \<le> 134217727"
    using g by (simp_all add: unat_gt_0 word_le_nat_alt)
  then show ?thesis
    by (simp add: r ring_ok_def ring_geometry_def ring_contents_def os_trace_ring_zero_def)
qed


section \<open>Histories of the ring\<close>

abbreviation ring_run ::
  "ring_call queue_op list \<Rightarrow> os_trace_ring \<Rightarrow>
     os_trace_record list \<times> os_trace_record list \<times> os_trace_ring" where
  "ring_run \<equiv> queue_run ring_call_step ring_accepted ring_take"

text \<open>
  What one call does to the part of the ring that orders and counts records: it accepts the
  next sequence numbers, in order, or none.
\<close>

definition extends_by :: "os_trace_ring \<Rightarrow> os_trace_record list \<Rightarrow> os_trace_ring \<Rightarrow> bool" where
  "extends_by r new r' \<longleftrightarrow>
     unat (emitted r') = min (unat (emitted r) + length new) (2 ^ 32 - 1) \<and>
     sorted_wrt (\<lambda>x y. unat (rec_sequence x) < unat (rec_sequence y)) new \<and>
     (\<forall>x \<in> set new. unat (next_sequence r) \<le> unat (rec_sequence x) \<and>
       (\<not> sequence_exhausted r' \<longrightarrow> unat (rec_sequence x) < unat (next_sequence r'))) \<and>
     (sequence_exhausted r \<longrightarrow> new = [] \<and> sequence_exhausted r') \<and>
     (\<not> sequence_exhausted r' \<longrightarrow> unat (next_sequence r) \<le> unat (next_sequence r'))"

lemma extends_by_refl:
  "emitted r' = emitted r \<Longrightarrow> next_sequence r' = next_sequence r \<Longrightarrow>
     sequence_exhausted r' = sequence_exhausted r \<Longrightarrow> extends_by r [] r'"
  using unat_le_max(1) [of "emitted r"] by (simp add: extends_by_def)

lemma extends_by_trans:
  assumes "extends_by r xs r1" and "extends_by r1 ys r2"
  shows "extends_by r (xs @ ys) r2"
proof (cases "sequence_exhausted r1")
  case True
  with assms show ?thesis by (auto simp: extends_by_def)
next
  case False
  have e: "unat (emitted r2) = min (unat (emitted r) + length (xs @ ys)) (2 ^ 32 - 1)"
    using assms by (simp add: extends_by_def)
  have s: "sorted_wrt (\<lambda>x y. unat (rec_sequence x) < unat (rec_sequence y)) (xs @ ys)"
    using assms False by (fastforce simp: extends_by_def sorted_wrt_append)
  show ?thesis
    using assms False e s by (fastforce simp: extends_by_def)
qed

lemma push_batch_extends:
  assumes ok: "ring_ok r"
    and push: "os_trace_ring_push_batch (Some r) tick inputs count = (stored, Some r')"
  shows "extends_by r (if stored then batch_records r tick (the inputs) (unat count) else []) r'"
  using push
proof (cases rule: push_batch_cases)
  case inert
  then show ?thesis by (simp add: extends_by_refl)
next
  case exhausted
  then show ?thesis using unat_le_max(1) [of "emitted r"] by (simp add: extends_by_def)
next
  case full
  have "attempted r = next_sequence r" using ok full(3) by (simp add: ring_ok_def)
  with full attempt_next_sequence [OF _ _ full(4)] unat_le_max(1) [of "emitted r"]
  show ?thesis by (simp add: extends_by_def del: add_eq_0_iff)
next
  case stored
  have fields: "emitted r' = increment_saturating_times (unat count) (emitted r)"
    "next_sequence r' = next_sequence r + count"
    "sequence_exhausted r' = (next_sequence r + count = 0)"
    using stored(3)
    by (simp_all add: stored(6) store_batch_def del: add_eq_0_iff split: prod.split)
  have next_ok: "next_sequence r = attempted r" using ok stored(3) by (simp add: ring_ok_def)
  have seq: "unat (next_sequence r + of_nat i) = unat (next_sequence r) + i"
    if "i < unat count" for i
    using that stored(4) by (simp add: unat_word_ariths unat_of_nat)
  have "sorted_wrt (\<lambda>x y. unat (rec_sequence x) < unat (rec_sequence y))
        (batch_records r tick (the inputs) (unat count))"
    using seq by (auto simp: batch_records_def sorted_wrt_iff_nth_less record_of_input_def)
  moreover have "unat (next_sequence r) \<le> unat (rec_sequence x) \<and>
      unat (rec_sequence x) < unat (next_sequence r) + unat count"
    if "x \<in> set (batch_records r tick (the inputs) (unat count))" for x
    using that seq by (auto simp: batch_records_def record_of_input_def)
  moreover have "unat (next_sequence r + count) = unat (next_sequence r) + unat count"
    if "next_sequence r + count \<noteq> 0"
    using attempt_next_sequence [OF next_ok that stored(4)] by blast
  ultimately show ?thesis
    using stored(2,3)
    by (simp add: extends_by_def fields unat_increment_saturating_times batch_records_def
      del: add_eq_0_iff)
qed


lemma ring_call_extends:
  assumes ok: "ring_ok r"
  shows "extends_by r (ring_accepted c r) (ring_call_step c r)"
proof (cases c)
  case (Emit_Batch tick inputs count)
  obtain b r' where "os_trace_ring_push_batch (Some r) tick inputs count = (b, Some r')"
    by (auto simp: os_trace_ring_push_batch_def on_ptr_Some)
  from push_batch_extends [OF ok this] this Emit_Batch show ?thesis by (simp add: call_ptr_def)
next
  case (Report_Overflow tick)
  show ?thesis
  proof (cases "report_due r")
    case True
    obtain r1 where push: "os_trace_ring_push_batch (Some r) tick (Some [overflow_input r]) 1 =
        (True, Some r1)"
      and report: "os_trace_ring_report_overflow (Some r) tick =
        (True, Some (r1\<lparr>reported_dropped := dropped r\<rparr>))"
      using report_is_push [OF ok True] .
    have "extends_by r [overflow_record r tick] r1"
      using push_batch_extends [OF ok push] batch_records_overflow [of r tick] by simp
    then have "extends_by r [overflow_record r tick] (r1\<lparr>reported_dropped := dropped r\<rparr>)"
      by (simp add: extends_by_def)
    with Report_Overflow report show ?thesis by (simp add: call_ptr_def)
  next
    case False
    with report_refused [OF this, of tick] Report_Overflow show ?thesis
      by (simp add: call_ptr_def extends_by_refl)
  qed
next
  case (Close_Ring tick)
  then show ?thesis
    by (auto simp: call_ptr_def os_trace_ring_close_def Let_def intro!: extends_by_refl)
qed

lemma ring_take_fields [frame]:
  "emitted (snd (ring_take r)) = emitted r" "next_sequence (snd (ring_take r)) = next_sequence r"
  "sequence_exhausted (snd (ring_take r)) = sequence_exhausted r"
  "attempted (snd (ring_take r)) = attempted r" "dropped (snd (ring_take r)) = dropped r"
  "capacity (snd (ring_take r)) = capacity r" "enabled (snd (ring_take r)) = enabled r"
  by (auto simp: ring_take_def os_trace_ring_pop_def)

lemma ring_run_extends:
  assumes "ring_ok r" and "ring_run ops r = (out, inn, r')"
  shows "extends_by r inn r'"
  using assms
proof (induction ops arbitrary: r out inn)
  case Nil
  then show ?case by (simp add: extends_by_refl)
next
  case (Cons e ops)
  show ?case
  proof (cases e)
    case (Push c)
    then obtain inn1 where run: "ring_run ops (ring_call_step c r) = (out, inn1, r')"
      and inn: "inn = ring_accepted c r @ inn1"
      using Cons.prems(2) by (auto split: prod.splits)
    have "extends_by (ring_call_step c r) inn1 r'"
      using Cons.IH [OF ring_queue.push_invar [OF Cons.prems(1)] run] .
    with ring_call_extends [OF Cons.prems(1)] inn show ?thesis by (auto intro: extends_by_trans)
  next
    case Pop
    then obtain out1 where run: "ring_run ops (snd (ring_take r)) = (out1, inn, r')"
      using Cons.prems(2) by (auto split: prod.splits)
    have "extends_by (snd (ring_take r)) inn r'"
      using Cons.IH [OF ring_queue.pop_invar [OF Cons.prems(1)] run] .
    moreover have "extends_by r [] (snd (ring_take r))"
      by (simp add: extends_by_refl frame)
    ultimately show ?thesis using extends_by_trans [of r "[]" "snd (ring_take r)" inn r'] by simp
  qed
qed

lemma push_batch_keeps [frame]:
  "capacity (snd (call_ptr (\<lambda>p. os_trace_ring_push_batch p tick inputs count) r)) = capacity r"
  "enabled (snd (call_ptr (\<lambda>p. os_trace_ring_push_batch p tick inputs count) r)) = enabled r"
proof -
  obtain b r' where push: "os_trace_ring_push_batch (Some r) tick inputs count = (b, Some r')"
    by (auto simp: os_trace_ring_push_batch_def on_ptr_Some)
  then have "capacity r' = capacity r \<and> enabled r' = enabled r"
    by (cases rule: push_batch_cases) (simp_all add: store_batch_def split: prod.splits)
  with push show
    "capacity (snd (call_ptr (\<lambda>p. os_trace_ring_push_batch p tick inputs count) r)) = capacity r"
    "enabled (snd (call_ptr (\<lambda>p. os_trace_ring_push_batch p tick inputs count) r)) = enabled r"
    by (simp_all add: call_ptr_def)
qed

lemma report_keeps [frame]:
  "capacity (snd (call_ptr (\<lambda>p. os_trace_ring_report_overflow p tick) r)) = capacity r"
proof -
  have "capacity r' = capacity r"
    if "call_ptr (\<lambda>p. os_trace_ring_push_batch p t i c) r = (b, r')" for t i c b r'
    using that push_batch_keeps(1) [of t i c r] by simp
  then show ?thesis
    by (auto simp: os_trace_ring_report_overflow_def os_trace_ring_push_def Let_def
      split: prod.split)
qed

lemma ring_call_step_fields [frame]:
  "capacity (ring_call_step c r) = capacity r"
  "\<not> enabled r \<Longrightarrow> ring_call_step c r = r"
proof -
  show "capacity (ring_call_step c r) = capacity r"
  proof (cases c)
    case (Close_Ring tick)
    then show ?thesis by (auto simp: os_trace_ring_close_def Let_def call_ptr_def)
  qed (simp_all add: frame)
  show "ring_call_step c r = r" if "\<not> enabled r"
    using that by (cases c) (auto simp: os_trace_ring_report_overflow_def
      os_trace_ring_push_batch_def batch_refused_def os_trace_ring_close_def call_ptr_def on_ptr_Some)
qed

lemma ring_run_capacity: "ring_run ops r = (out, inn, r') \<Longrightarrow> capacity r' = capacity r"
proof (induction ops arbitrary: r out inn)
  case (Cons e ops)
  show ?case
  proof (cases e)
    case (Push c)
    with Cons.prems obtain inn1 where "ring_run ops (ring_call_step c r) = (out, inn1, r')"
      by (auto split: prod.splits)
    from Cons.IH [OF this] show ?thesis by (simp add: frame)
  next
    case Pop
    with Cons.prems obtain out1 where "ring_run ops (snd (ring_take r)) = (out1, inn, r')"
      by (auto split: prod.splits)
    from Cons.IH [OF this] show ?thesis by (simp add: frame)
  qed
qed simp


section \<open>Properties\<close>

text \<open>
  C13: the trace ring is a bounded FIFO queue under every mix of operations. Start from a ring
  that \<open>os_trace_ring_init\<close> accepted and apply any sequence of batches, overflow reports,
  closes and pops: the records popped so far followed by the records still in the ring are
  exactly the accepted records in the order of acceptance, the ring never holds more records
  than its capacity, and the accepted records carry strictly increasing sequence numbers
  (none is reused, also when the 32-bit counter is used up).
\<close>

theorem trace_ring_fifo:
  assumes "os_trace_ring_init (Some g) storage cap = (True, Some r0)"
    and "queue_run ring_call_step ring_accepted ring_take ops r0 = (out, inn, r)"
  shows "out @ ring_contents r = inn \<and> length (ring_contents r) \<le> unat cap \<and>
    sorted_wrt (\<lambda>x y. unat (rec_sequence x) < unat (rec_sequence y)) inn"
proof -
  have r0: "ring_ok r0" "ring_contents r0 = []" using init_ok [OF assms(1)] by simp_all
  have "capacity r0 = cap"
    using assms(1) by (auto simp: os_trace_ring_init_def on_ptr_Some split: if_splits)
  then have cap: "capacity r = cap" using ring_run_capacity [OF assms(2)] by simp
  have run: "out @ ring_contents r = inn \<and> ring_ok r"
    using ring_queue.run_fifo [OF r0(1) assms(2)] r0(2) by simp
  then have "unat (ring_count r) \<le> unat cap"
    by (simp add: ring_ok_def ring_geometry_def flip: cap)
  with run ring_run_extends [OF r0(1) assms(2)] show ?thesis by (simp add: extends_by_def)
qed

definition ring_demo_input :: "u32 \<Rightarrow> os_trace_input" where
  "ring_demo_input v = \<lparr>in_event = OS_TRACE_ALLOC, in_flags = 0, in_task = 1,
     in_related = OS_TRACE_TASK_INVALID, in_value0 = v, in_value1 = 0, in_value2 = 0\<rparr>"

text \<open>Two batches of two records on a ring of three: the second is lost, then reported.\<close>

definition ring_demo_ops :: "ring_call queue_op list" where
  "ring_demo_ops =
     [Push (Emit_Batch 5 (Some [ring_demo_input 7, ring_demo_input 8]) 2),
      Push (Emit_Batch 6 (Some [ring_demo_input 9, ring_demo_input 10]) 2),
      Pop, Push (Report_Overflow 7), Pop, Pop, Pop]"

lemmas ring_demo_eval = ring_demo_ops_def ring_demo_input_def call_ptr_def on_ptr_def
  os_trace_ring_push_batch_def batch_refused_def attempt_batch_def store_batch_def
  os_trace_ring_report_overflow_def os_trace_ring_push_def os_trace_ring_pop_def ring_take_def
  batch_records_def record_of_input_def overflow_record_def increment_saturating_def
  os_trace_event_valid_def os_trace_record_zero_def ring_contents_def os_trace_ring_init_def
  os_trace_ring_zero_def

definition ring_demo_start :: os_trace_ring where
  "ring_demo_start = os_trace_ring_zero
     \<lparr>records := Some (replicate 3 os_trace_record_zero), capacity := 3, enabled := True\<rparr>"

lemma ring_demo_init:
  "os_trace_ring_init (Some os_trace_ring_zero) 0x20000000 3 = (True, Some ring_demo_start)"
  by (simp add: os_trace_ring_init_def ring_demo_start_def on_ptr_Some)

lemma ring_demo_run:
  "(let (out, inn, r) = queue_run ring_call_step ring_accepted ring_take ring_demo_ops ring_demo_start
    in (map (\<lambda>x. (rec_event x, rec_sequence x, rec_value0 x)) out,
        map (\<lambda>x. (rec_event x, rec_sequence x, rec_value0 x)) inn,
        attempted r, emitted r, dropped r, ring_count r)) =
   ([(17, 0, 7), (17, 1, 8), (22, 4, 2)], [(17, 0, 7), (17, 1, 8), (22, 4, 2)], 5, 3, 2, 0)"
  by code_simp


theorem trace_ring_fifo_witness:
  "\<exists>out inn r. queue_run ring_call_step ring_accepted ring_take ring_demo_ops ring_demo_start =
     (out, inn, r) \<and> length out = 3 \<and> out @ ring_contents r = inn"
proof -
  obtain out inn r where run: "queue_run ring_call_step ring_accepted ring_take ring_demo_ops
      ring_demo_start = (out, inn, r)" by (metis prod.exhaust)
  have "length out = 3" using ring_demo_run arg_cong [of _ _ length] by (auto simp: run)
  with trace_ring_fifo [OF ring_demo_init run] run show ?thesis by blast
qed

text \<open>
  A batch is stored whole or not at all. On a sound ring the call stores exactly when it
  passes the argument checks, the sequence counter has room for every record and so has the
  ring; then the records are appended in order with consecutive sequence numbers. A refused
  call changes nothing; a batch that does not fit is counted as attempted and dropped, one
  count per record, and leaves the stored records alone.
\<close>

theorem trace_ring_batch_outcome:
  assumes "ring_ok r"
  shows "\<exists>stored r'. os_trace_ring_push_batch (Some r) tick inputs count = (stored, Some r') \<and>
    ring_ok r' \<and>
    (stored \<longleftrightarrow> \<not> batch_refused r inputs count \<and> \<not> sequence_exhausted r \<and>
       unat (next_sequence r) + unat count \<le> 2 ^ 32 \<and>
       unat (ring_count r) + unat count \<le> unat (capacity r)) \<and>
    ring_contents r' = ring_contents r @ (if stored
       then map (\<lambda>i. record_of_input tick (next_sequence r + of_nat i) (the inputs ! i))
              [0..<unat count]
       else []) \<and>
    (if batch_refused r inputs count then r' = r
     else attempted r' = increment_saturating_times (unat count) (attempted r) \<and>
       emitted r' = (if stored then increment_saturating_times (unat count) (emitted r) else emitted r) \<and>
       dropped r' = (if stored then dropped r else increment_saturating_times (unat count) (dropped r)))"
proof -
  obtain stored r' where push: "os_trace_ring_push_batch (Some r) tick inputs count = (stored, Some r')"
    by (auto simp: os_trace_ring_push_batch_def on_ptr_Some)
  have le: "unat (ring_count r) \<le> unat (capacity r)"
    using assms by (simp add: ring_ok_def ring_geometry_def)
  then have "unat (capacity r - ring_count r) = unat (capacity r) - unat (ring_count r)"
    by (intro unat_sub) (simp add: word_le_nat_alt)
  then have room: "capacity r - ring_count r < count \<longleftrightarrow>
      \<not> unat (ring_count r) + unat count \<le> unat (capacity r)"
    using le by (auto simp: word_less_nat_alt)
  from push have "(stored \<longleftrightarrow> \<not> batch_refused r inputs count \<and> \<not> sequence_exhausted r \<and>
       unat (next_sequence r) + unat count \<le> 2 ^ 32 \<and>
       unat (ring_count r) + unat count \<le> unat (capacity r)) \<and>
    (if batch_refused r inputs count then r' = r
     else attempted r' = increment_saturating_times (unat count) (attempted r) \<and>
       emitted r' = (if stored then increment_saturating_times (unat count) (emitted r) else emitted r) \<and>
       dropped r' = (if stored then dropped r else increment_saturating_times (unat count) (dropped r)))"
  proof (cases rule: push_batch_cases)
    case stored
    with room show ?thesis by (auto simp: store_batch_fields not_less)
  qed (use room in auto)
  with push push_batch_ok [OF assms push] show ?thesis by (auto simp: batch_records_def)
qed

lemma ring_demo_start_ok: "ring_ok ring_demo_start"
  using init_ok [OF ring_demo_init] by simp

theorem trace_ring_batch_outcome_witness:
  "\<exists>stored r'. os_trace_ring_push_batch (Some ring_demo_start) 5
     (Some [ring_demo_input 7, ring_demo_input 8]) 2 = (stored, Some r') \<and> stored \<and>
     map rec_value0 (ring_contents r') = [7, 8]"
proof -
  have acc: "\<not> batch_refused ring_demo_start (Some [ring_demo_input 7, ring_demo_input 8]) 2"
    "ring_contents ring_demo_start = []" "\<not> sequence_exhausted ring_demo_start"
    "next_sequence ring_demo_start = 0" "ring_count ring_demo_start = 0"
    "capacity ring_demo_start = 3"
    by code_simp+
  show ?thesis
    using trace_ring_batch_outcome [OF ring_demo_start_ok, of 5
      "Some [ring_demo_input 7, ring_demo_input 8]" 2] acc
    by (auto simp: record_of_input_def ring_demo_input_def upt_rec)
qed

text \<open>
  C14: the producer counters account for every record. After any sequence of batches, overflow
  reports, closes and pops on a fresh ring, \<open>emitted\<close> is the number of accepted records (capped
  at \<open>UINT32_MAX\<close>), and until \<open>attempted\<close> saturates it is the sum of \<open>emitted\<close> and
  \<open>dropped\<close>; while sequence numbers last, \<open>attempted\<close> is the next sequence number, so a gap in
  the sequence is a drop that was counted.
\<close>

theorem trace_ring_accounting:
  assumes "os_trace_ring_init (Some g) storage cap = (True, Some r0)"
    and "queue_run ring_call_step ring_accepted ring_take ops r0 = (out, inn, r)"
  shows "unat (emitted r) = min (length inn) (2 ^ 32 - 1) \<and>
    (attempted r \<noteq> UINT32_MAX \<longrightarrow> unat (attempted r) = unat (emitted r) + unat (dropped r)) \<and>
    (\<not> sequence_exhausted r \<longrightarrow> next_sequence r = attempted r)"
proof -
  have "emitted r0 = 0"
    using assms(1)
    by (auto simp: os_trace_ring_init_def on_ptr_Some os_trace_ring_zero_def split: if_splits)
  moreover have "ring_ok r0" using init_ok [OF assms(1)] by simp
  ultimately show ?thesis
    using ring_run_extends [OF _ assms(2)] ring_queue.run_fifo [OF _ assms(2)]
    by (auto simp: extends_by_def ring_ok_def)
qed

theorem trace_ring_accounting_witness:
  "\<exists>out inn r. queue_run ring_call_step ring_accepted ring_take ring_demo_ops ring_demo_start =
     (out, inn, r) \<and> unat (emitted r) = 3 \<and> unat (dropped r) = 2 \<and> unat (attempted r) = 5"
proof -
  obtain out inn r where run: "queue_run ring_call_step ring_accepted ring_take ring_demo_ops
      ring_demo_start = (out, inn, r)" by (metis prod.exhaust)
  have "attempted r = 5" "length inn = 3"
    using ring_demo_run arg_cong [of _ _ length] by (auto simp: run)
  with trace_ring_accounting [OF ring_demo_init run] run show ?thesis by auto
qed

text \<open>
  A loss is reported once, as soon as there is room. The report appends one OVERFLOW record
  with the counters as they were and remembers the drop count, so that a second report is
  refused until another record is dropped; a report that is refused leaves the ring untouched.
\<close>

theorem trace_ring_report_once:
  assumes "ring_ok r"
  shows "if enabled r \<and> unat (ring_count r) < unat (capacity r) \<and> \<not> sequence_exhausted r \<and>
      dropped r \<noteq> reported_dropped r
    then \<exists>r'. os_trace_ring_report_overflow (Some r) tick = (True, Some r') \<and>
      ring_contents r' = ring_contents r @
        [\<lparr>rec_tick = tick, rec_sequence = next_sequence r, rec_schema = OS_TRACE_SCHEMA_VERSION,
          rec_event = 22, rec_flags = 0, rec_task = OS_TRACE_TASK_INVALID,
          rec_related = OS_TRACE_TASK_INVALID, rec_value0 = dropped r, rec_value1 = attempted r,
          rec_value2 = emitted r\<rparr>] \<and> dropped r' = dropped r \<and>
      os_trace_ring_report_overflow (Some r') tick' = (False, Some r')
    else os_trace_ring_report_overflow (Some r) tick = (False, Some r)"
proof (cases "report_due r")
  case True
  obtain r' where r': "os_trace_ring_report_overflow (Some r) tick = (True, Some r')"
    "ring_contents r' = ring_contents r @ [overflow_record r tick]"
    "dropped r' = dropped r" "reported_dropped r' = dropped r"
    using report_done [OF assms True] by blast
  then have "\<not> report_due r'" by (simp add: report_due_def)
  from report_refused [OF this] r' True show ?thesis
    by (auto simp: report_due_def overflow_record_def)
next
  case False
  with report_refused [OF False] show ?thesis by (auto simp: report_due_def)
qed

definition ring_demo_lossy :: os_trace_ring where
  "ring_demo_lossy = snd (snd (queue_run ring_call_step ring_accepted ring_take
     (take 3 ring_demo_ops) ring_demo_start))"

theorem trace_ring_report_once_witness:
  "\<exists>r'. os_trace_ring_report_overflow (Some ring_demo_lossy) 7 = (True, Some r') \<and>
     os_trace_ring_report_overflow (Some r') 8 = (False, Some r')"
proof -
  obtain out inn where run: "queue_run ring_call_step ring_accepted ring_take
      (take 3 ring_demo_ops) ring_demo_start = (out, inn, ring_demo_lossy)"
    by (metis ring_demo_lossy_def prod.collapse)
  have ok: "ring_ok ring_demo_lossy"
    using ring_queue.run_fifo [OF ring_demo_start_ok run] by simp
  have "enabled ring_demo_lossy" "unat (ring_count ring_demo_lossy) < unat (capacity ring_demo_lossy)"
    "\<not> sequence_exhausted ring_demo_lossy" "dropped ring_demo_lossy \<noteq> reported_dropped ring_demo_lossy"
    by code_simp+
  with trace_ring_report_once [OF ok, of 7 8] show ?thesis by auto
qed

text \<open>
  Closing freezes the session. The snapshot holds the counters and the last sequence number
  that was handed out (\<open>UINT32_MAX\<close> when none was, or when the counter was used up); afterwards
  no producer call changes the ring, so draining it yields exactly the records it held and the
  snapshot stays true.
\<close>

theorem trace_ring_close_freezes:
  assumes "ring_ok r" and "enabled r"
  shows "\<exists>r' f. os_trace_ring_close (Some r) tick (Some f0) = (True, Some r', Some f) \<and>
    final_attempted f = attempted r \<and> final_emitted f = emitted r \<and> final_dropped f = dropped r \<and>
    final_tick f = tick \<and>
    final_sequence f = (if attempted r = 0 \<or> sequence_exhausted r then UINT32_MAX
                        else attempted r - 1) \<and>
    ring_call_step c r' = r' \<and> os_trace_ring_close (Some r') t2 (Some f) = (False, Some r', Some f) \<and>
    (unat (capacity r) < n \<longrightarrow> fst (drain ring_take n r') = ring_contents r)"
proof -
  let ?r' = "r\<lparr>enabled := False\<rparr>"
  have ok: "ring_ok ?r'" "ring_contents ?r' = ring_contents r"
    using assms ring_contents_cong [of ?r' r] ring_geometry_cong [of ?r' r]
    by (auto simp: ring_ok_def)
  have rec: "records r \<noteq> None" "\<not> sequence_exhausted r \<longrightarrow> next_sequence r = attempted r"
    "unat (ring_count r) \<le> unat (capacity r)"
    using assms(1) by (auto simp: ring_ok_def ring_geometry_def)
  have "fst (drain ring_take n ?r') = ring_contents r" if "unat (capacity r) < n"
    using ring_queue.drain_all [OF ok(1), of n] ok(2) that rec(3) by simp
  moreover have "ring_call_step c ?r' = ?r'" by (simp add: frame)
  ultimately show ?thesis
    using rec(1,2) assms(2) by (auto simp: os_trace_ring_close_def Let_def)
qed

definition ring_demo_final :: os_trace_final where
  "ring_demo_final = \<lparr>final_attempted = 0, final_emitted = 0, final_dropped = 0,
     final_sequence = 0, final_flags = 0, final_tick = 0\<rparr>"

theorem trace_ring_close_freezes_witness:
  "\<exists>r' f. os_trace_ring_close (Some ring_demo_start) 9 (Some ring_demo_final) = (True, Some r', Some f) \<and>
     ring_call_step (Emit_Batch 9 (Some [ring_demo_input 1]) 1) r' = r' \<and>
     fst (drain ring_take 4 r') = []"
proof -
  have "enabled ring_demo_start" "ring_contents ring_demo_start = []"
    "unat (capacity ring_demo_start) < 4"
    by code_simp+
  with trace_ring_close_freezes [OF ring_demo_start_ok, of 9 ring_demo_final
    "Emit_Batch 9 (Some [ring_demo_input 1]) 1" 0 4] show ?thesis by auto
qed

end
