(* ===== verification/Trace_Frames.thy ===== *)
theory Trace_Frames
  imports Trace_Ring
begin

text \<open>
  The serial side of the trace: the little-endian encoders, the CRC, the frames and the final
  drain of \<open>kernel/src/trace_runtime.c\<close>, and \<open>board_uart_write\<close> of
  \<open>bsp/nucleo_f401re/src/board.c\<close>, which they send through. The vendor's
  \<open>HAL_UART_Transmit\<close> is a parameter: it takes the bytes of one chunk and the state \<open>'w\<close> of the
  peripheral. A byte array is a list, a pointer into it an index.

  The theorems: the CRC tells apart any two messages that differ in one byte, records are
  decoded to what was encoded, and a session that reports success has put every record of the
  ring on the wire, in order, followed by the footer.
\<close>

section \<open>Bytes\<close>

definition put_u16 :: "u8 list \<Rightarrow> nat \<Rightarrow> u16 \<Rightarrow> u8 list" where
  "put_u16 output at v = output[at := ucast v, at + 1 := ucast (drop_bit 8 v)]"

definition put_u32 :: "u8 list \<Rightarrow> nat \<Rightarrow> u32 \<Rightarrow> u8 list" where
  "put_u32 output at v = output
     [at := ucast v, at + 1 := ucast (drop_bit 8 v), at + 2 := ucast (drop_bit 16 v),
      at + 3 := ucast (drop_bit 24 v)]"

definition put_u64 :: "u8 list \<Rightarrow> nat \<Rightarrow> u64 \<Rightarrow> u8 list" where
  "put_u64 output at v = put_u32 (put_u32 output at (ucast v)) (at + 4) (ucast (drop_bit 32 v))"

definition OS_TRACE_RECORD_SIZE :: nat where "OS_TRACE_RECORD_SIZE = 32"
definition TRACE_FOOTER_PAYLOAD_SIZE :: nat where "TRACE_FOOTER_PAYLOAD_SIZE = 28"
definition TRACE_FRAME_HEADER_SIZE :: nat where "TRACE_FRAME_HEADER_SIZE = 12"
definition TRACE_FRAME_CRC_SIZE :: nat where "TRACE_FRAME_CRC_SIZE = 4"
definition TRACE_RECORD_FRAME_SIZE :: nat where
  "TRACE_RECORD_FRAME_SIZE = TRACE_FRAME_HEADER_SIZE + OS_TRACE_RECORD_SIZE + TRACE_FRAME_CRC_SIZE"
abbreviation TRACE_FRAME_VERSION :: u8 where "TRACE_FRAME_VERSION \<equiv> 1"
abbreviation TRACE_FRAME_RECORD :: u8 where "TRACE_FRAME_RECORD \<equiv> 1"
abbreviation TRACE_FRAME_FOOTER :: u8 where "TRACE_FRAME_FOOTER \<equiv> 2"

lemmas frame_sizes = OS_TRACE_RECORD_SIZE_def TRACE_FOOTER_PAYLOAD_SIZE_def
  TRACE_FRAME_HEADER_SIZE_def TRACE_FRAME_CRC_SIZE_def TRACE_RECORD_FRAME_SIZE_def

definition encode_record :: "os_trace_record \<Rightarrow> u8 list \<Rightarrow> u8 list" where
  "encode_record rc payload =
     (let p = put_u64 payload 0 (rec_tick rc);
          p = put_u32 p 8 (rec_sequence rc);
          p = put_u16 p 12 (rec_schema rc);
          p = p[14 := rec_event rc];
          p = p[15 := rec_flags rc];
          p = put_u16 p 16 (rec_task rc);
          p = put_u16 p 18 (rec_related rc);
          p = put_u32 p 20 (rec_value0 rc);
          p = put_u32 p 24 (rec_value1 rc)
      in put_u32 p 28 (rec_value2 rc))"

section \<open>CRC\<close>

definition crc32_bit :: "u32 \<Rightarrow> u32" where
  "crc32_bit crc = (let mask = 0 - (crc AND 1) in drop_bit 1 crc XOR (0xEDB88320 AND mask))"

definition crc32_byte :: "u32 \<Rightarrow> u8 \<Rightarrow> u32" where
  "crc32_byte crc b = (crc32_bit ^^ 8) (crc XOR ucast b)"

definition crc32 :: "u8 list \<Rightarrow> nat \<Rightarrow> u32" where
  "crc32 data len = NOT (fold (\<lambda>index crc. crc32_byte crc (data ! index)) [0..<len] UINT32_MAX)"

section \<open>The UART\<close>

datatype hal_status = HAL_OK | HAL_ERROR | HAL_BUSY | HAL_TIMEOUT

abbreviation AYMOS_UART_CHUNK_MAX :: nat where "AYMOS_UART_CHUNK_MAX \<equiv> 65535"

text \<open>The chunk loop; \<open>data\<close> holds the bytes from the current offset on.\<close>

function uart_write_loop ::
  "(u8 list \<Rightarrow> 'w \<Rightarrow> hal_status \<times> 'w) \<Rightarrow> u8 list \<Rightarrow> nat \<Rightarrow> nat \<Rightarrow> 'w \<Rightarrow> hal_status \<times> 'w" where
  "uart_write_loop transmit data len offset w =
     (if offset < len then
        let remaining = len - offset;
            chunk = (if remaining > AYMOS_UART_CHUNK_MAX then AYMOS_UART_CHUNK_MAX else remaining);
            (status, w') = transmit (take chunk (drop offset data)) w
        in if status \<noteq> HAL_OK then (status, w')
           else uart_write_loop transmit data len (offset + chunk) w'
      else (HAL_OK, w))"
  by pat_completeness auto
termination
  by (relation "measure (\<lambda>(_, _, len, offset, _). len - offset)") (auto split: if_splits)

declare uart_write_loop.simps [simp del]

definition board_uart_write ::
  "(u8 list \<Rightarrow> 'w \<Rightarrow> hal_status \<times> 'w) \<Rightarrow> u8 list option \<Rightarrow> nat \<Rightarrow> 'w \<Rightarrow> hal_status \<times> 'w" where
  "board_uart_write transmit data len w =
     (if data = None \<and> len \<noteq> 0 then (HAL_ERROR, w)
      else uart_write_loop transmit (the data) len 0 w)"

section \<open>Frames\<close>

text \<open>The bytes that \<open>send_frame\<close> builds, from an array with arbitrary contents.\<close>

definition build_frame :: "u8 list \<Rightarrow> u8 \<Rightarrow> u8 list \<Rightarrow> u16 \<Rightarrow> u8 list" where
  "build_frame f type payload len =
     (let f = f[0 := 0x41, 1 := 0x59, 2 := 0x4D, 3 := 0x54, 4 := TRACE_FRAME_VERSION, 5 := type];
          f = put_u16 f 6 OS_TRACE_SCHEMA_VERSION;
          f = put_u16 f 8 len;
          f = put_u16 f 10 0;
          f = fold (\<lambda>index f. f[TRACE_FRAME_HEADER_SIZE + index := payload ! index])
                [0..<unat len] f;
          crc_offset = TRACE_FRAME_HEADER_SIZE + unat len
      in put_u32 f crc_offset (crc32 (drop 4 f) (8 + unat len)))"

definition send_frame ::
  "(u8 list \<Rightarrow> 'w \<Rightarrow> hal_status \<times> 'w) \<Rightarrow> u8 \<Rightarrow> u8 list option \<Rightarrow> u16 \<Rightarrow> 'w \<Rightarrow> bool \<times> 'w" where
  "send_frame transmit type payload len w =
     (if payload = None \<or> (unat len \<noteq> OS_TRACE_RECORD_SIZE \<and> unat len \<noteq> TRACE_FOOTER_PAYLOAD_SIZE)
      then (False, w)
      else
        let f = build_frame (replicate TRACE_RECORD_FRAME_SIZE 0) type (the payload) len;
            (status, w') = board_uart_write transmit (Some f)
               (TRACE_FRAME_HEADER_SIZE + unat len + TRACE_FRAME_CRC_SIZE) w
        in (status = HAL_OK, w'))"

definition encode_footer :: "os_trace_final \<Rightarrow> u8 list \<Rightarrow> u8 list" where
  "encode_footer fin payload =
     (let p = put_u32 payload 0 (final_attempted fin);
          p = put_u32 p 4 (final_emitted fin);
          p = put_u32 p 8 (final_dropped fin);
          p = put_u32 p 12 (final_sequence fin);
          p = put_u32 p 16 (final_flags fin OR 0)
      in put_u64 p 20 (final_tick fin))"

section \<open>The end of a session\<close>

lemma pop_decreases:
  assumes "(True, p, out) = os_trace_ring_pop (Some r) x"
  shows "unat (ring_count (the p)) < unat (ring_count r)"
proof -
  have "ring_count r \<noteq> 0" "ring_count (the p) = ring_count r - 1"
    using assms by (auto simp: os_trace_ring_pop_def split: if_splits)
  then show ?thesis by (simp add: unat_minus_one unat_gt_0)
qed

text \<open>
  The pop loop of \<open>os_trace_finish\<close>; each round takes one record, so the number of stored
  records bounds it: \<open>ring_count\<close> is the measure. The first result says whether the loop ended
  with an empty ring (rather than with a failed transmission).
\<close>

function finish_loop ::
  "(u8 list \<Rightarrow> 'w \<Rightarrow> hal_status \<times> 'w) \<Rightarrow> os_trace_ring \<Rightarrow> 'w \<Rightarrow> bool \<times> os_trace_ring \<times> 'w" where
  "finish_loop transmit r w =
     (case os_trace_ring_pop (Some r) (Some os_trace_record_zero) of (available, p, out) \<Rightarrow>
        if \<not> available then (True, r, w)
        else
          let payload = encode_record (the out) (replicate OS_TRACE_RECORD_SIZE 0);
              (sent, w') = send_frame transmit TRACE_FRAME_RECORD (Some payload) 32 w
          in if \<not> sent then (False, the p, w') else finish_loop transmit (the p) w')"
  by pat_completeness auto
termination
  by (relation "measure (\<lambda>(_, r, _). unat (ring_count r))") (auto dest: pop_decreases)

declare finish_loop.simps [simp del]

text \<open>
  \<open>ipsr\<close>, \<open>current\<close> and \<open>tick\<close> are the exception number, the running task and the tick counter at
  the call.
\<close>

definition os_trace_finish ::
  "(u8 list \<Rightarrow> 'w \<Rightarrow> hal_status \<times> 'w) \<Rightarrow> u32 \<Rightarrow> u8 \<Rightarrow> u64 \<Rightarrow> os_trace_ring \<Rightarrow> 'w \<Rightarrow>
   int \<times> os_trace_ring \<times> 'w" where
  "os_trace_finish transmit ipsr current tick r w =
     (if ipsr \<noteq> 0 \<or> current \<noteq> 0 then (0, r, w)
      else
        let (closed, p, final) = os_trace_ring_close (Some r) tick (Some
              \<lparr>final_attempted = 0, final_emitted = 0, final_dropped = 0, final_sequence = 0,
               final_flags = 0, final_tick = 0\<rparr>)
        in if \<not> closed then (0, the p, w)
           else
             let (drained, r', w') = finish_loop transmit (the p) w
             in if \<not> drained then (0, r', w')
                else
                  let payload = encode_footer (the final) (replicate TRACE_FOOTER_PAYLOAD_SIZE 0);
                      (sent, w2) = send_frame transmit TRACE_FRAME_FOOTER (Some payload) 28 w'
                  in (if sent then 1 else 0, r', w2))"


section \<open>Encodings as byte strings\<close>

definition u16_bytes :: "u16 \<Rightarrow> u8 list" where
  "u16_bytes v = [ucast v, ucast (drop_bit 8 v)]"
definition u32_bytes :: "u32 \<Rightarrow> u8 list" where
  "u32_bytes v = [ucast v, ucast (drop_bit 8 v), ucast (drop_bit 16 v), ucast (drop_bit 24 v)]"

definition get_u16 :: "u8 list \<Rightarrow> nat \<Rightarrow> u16" where
  "get_u16 xs at = ucast (xs ! at) OR push_bit 8 (ucast (xs ! (at + 1)))"
definition get_u32 :: "u8 list \<Rightarrow> nat \<Rightarrow> u32" where
  "get_u32 xs at = ucast (xs ! at) OR push_bit 8 (ucast (xs ! (at + 1))) OR
     push_bit 16 (ucast (xs ! (at + 2))) OR push_bit 24 (ucast (xs ! (at + 3)))"
definition get_u64 :: "u8 list \<Rightarrow> nat \<Rightarrow> u64" where
  "get_u64 xs at = ucast (get_u32 xs at) OR push_bit 32 (ucast (get_u32 xs (at + 4)))"

lemma length_put [simp]:
  "length (put_u16 xs k a) = length xs" "length (put_u32 xs k b) = length xs"
  "length (put_u64 xs k c) = length xs"
  by (simp_all add: put_u16_def put_u32_def put_u64_def)

lemma nth_put:
  "k + 1 < length xs \<Longrightarrow> put_u16 xs k a ! i =
     (if i = k then ucast a else if i = k + 1 then ucast (drop_bit 8 a) else xs ! i)"
  "k + 3 < length xs \<Longrightarrow> put_u32 xs k b ! i =
     (if i = k then ucast b else if i = k + 1 then ucast (drop_bit 8 b)
      else if i = k + 2 then ucast (drop_bit 16 b) else if i = k + 3 then ucast (drop_bit 24 b)
      else xs ! i)"
  by (auto simp: put_u16_def put_u32_def nth_list_update)

lemma join_u16: "ucast (ucast a :: u8) OR push_bit 8 (ucast (ucast (drop_bit 8 a) :: u8)) = (a :: u16)"
  by (rule bit_word_eqI) (auto simp: bit_simps)

lemma join_u32:
  "ucast (ucast a :: u8) OR push_bit 8 (ucast (ucast (drop_bit 8 a) :: u8)) OR
   push_bit 16 (ucast (ucast (drop_bit 16 a) :: u8)) OR
   push_bit 24 (ucast (ucast (drop_bit 24 a) :: u8)) = (a :: u32)"
proof (rule bit_word_eqI)
  fix n assume n: "n < LENGTH(32)"
  then consider "n < 8" | "8 \<le> n" "n < 16" | "16 \<le> n" "n < 24" | "24 \<le> n" "n < 32"
    by fastforce
  then show "bit (ucast (ucast a :: u8) OR push_bit 8 (ucast (ucast (drop_bit 8 a) :: u8)) OR
     push_bit 16 (ucast (ucast (drop_bit 16 a) :: u8)) OR
     push_bit 24 (ucast (ucast (drop_bit 24 a) :: u8)) :: u32) n = bit a n"
    using n by cases (auto simp: bit_simps)
qed


lemma get_put:
  "k + 1 < length xs \<Longrightarrow> get_u16 (put_u16 xs k a) k = a"
  "k + 3 < length xs \<Longrightarrow> get_u32 (put_u32 xs k b) k = b"
  "k + 7 < length xs \<Longrightarrow> get_u64 (put_u64 xs k c) k = c"
proof -
  show "k + 1 < length xs \<Longrightarrow> get_u16 (put_u16 xs k a) k = a"
    using join_u16 [of a] by (simp add: get_u16_def nth_put)
  have 32: "k + 3 < length xs \<Longrightarrow> get_u32 (put_u32 xs k b) k = b" for xs k b
    using join_u32 [of b] by (simp add: get_u32_def nth_put)
  then show "k + 3 < length xs \<Longrightarrow> get_u32 (put_u32 xs k b) k = b" .
  assume k: "k + 7 < length xs"
  have "get_u32 (put_u64 xs k c) k = ucast c"
    using 32 [of k xs "ucast c"] k by (simp add: put_u64_def get_u32_def nth_put)
  moreover have "get_u32 (put_u64 xs k c) (k + 4) = ucast (drop_bit 32 c)"
    using k unfolding put_u64_def by (intro 32) simp
  ultimately show "get_u64 (put_u64 xs k c) k = c"
    using join_u64 [of c] by (simp add: get_u64_def)
qed

lemma get_u16_frame:
  "k + 1 < j \<or> j + 1 < k \<Longrightarrow> j + 1 < length xs \<Longrightarrow> get_u16 (put_u16 xs j a) k = get_u16 xs k"
  "k + 1 < j \<or> j + 3 < k \<Longrightarrow> j + 3 < length xs \<Longrightarrow> get_u16 (put_u32 xs j b) k = get_u16 xs k"
  "k + 1 < j \<or> j < k \<Longrightarrow> get_u16 (xs[j := v]) k = get_u16 xs k"
  by (auto simp: get_u16_def nth_put)

lemma get_u32_frame:
  "k + 3 < j \<or> j + 1 < k \<Longrightarrow> j + 1 < length xs \<Longrightarrow> get_u32 (put_u16 xs j a) k = get_u32 xs k"
  "k + 3 < j \<or> j + 3 < k \<Longrightarrow> j + 3 < length xs \<Longrightarrow> get_u32 (put_u32 xs j b) k = get_u32 xs k"
  "k + 3 < j \<or> j < k \<Longrightarrow> get_u32 (xs[j := v]) k = get_u32 xs k"
  by (auto simp: get_u32_def nth_put)

lemma get_u64_frame:
  "k + 7 < j \<or> j + 1 < k \<Longrightarrow> j + 1 < length xs \<Longrightarrow> get_u64 (put_u16 xs j a) k = get_u64 xs k"
  "k + 7 < j \<or> j + 3 < k \<Longrightarrow> j + 3 < length xs \<Longrightarrow> get_u64 (put_u32 xs j b) k = get_u64 xs k"
  "k + 7 < j \<or> j < k \<Longrightarrow> get_u64 (xs[j := v]) k = get_u64 xs k"
  by (auto simp: get_u64_def get_u32_frame)

lemma nth_frame:
  "i < j \<or> j + 1 < i \<Longrightarrow> j + 1 < length xs \<Longrightarrow> put_u16 xs j a ! i = xs ! i"
  "i < j \<or> j + 3 < i \<Longrightarrow> j + 3 < length xs \<Longrightarrow> put_u32 xs j b ! i = xs ! i"
  by (auto simp: nth_put)

lemmas get_simps = get_put get_u16_frame get_u32_frame get_u64_frame nth_frame

text \<open>The reader's side: the fields of a record payload at their documented offsets.\<close>

definition decode_record :: "u8 list \<Rightarrow> os_trace_record" where
  "decode_record p = \<lparr>rec_tick = get_u64 p 0, rec_sequence = get_u32 p 8,
     rec_schema = get_u16 p 12, rec_event = p ! 14, rec_flags = p ! 15, rec_task = get_u16 p 16,
     rec_related = get_u16 p 18, rec_value0 = get_u32 p 20, rec_value1 = get_u32 p 24,
     rec_value2 = get_u32 p 28\<rparr>"

lemma length_encode_record [simp]: "length (encode_record r p) = length p"
  by (simp add: encode_record_def Let_def)

lemma length_encode_footer [simp]: "length (encode_footer f p) = length p"
  by (simp add: encode_footer_def Let_def)

section \<open>The CRC tells messages apart\<close>

lemma crc32_bit_alt: "crc32_bit c = drop_bit 1 c XOR (if bit c 0 then 0xEDB88320 else 0)"
proof -
  have "c AND 1 = (if bit c 0 then 1 else 0)"
    by (rule bit_word_eqI) (auto simp: bit_simps intro: gr0I)
  then show ?thesis by (simp add: crc32_bit_def Let_def)
qed

lemma crc32_bit_inj: "inj crc32_bit"
proof (rule injI)
  fix x y :: u32
  assume eq: "crc32_bit x = crc32_bit y"
  have "\<not> bit (c :: u32) 32" for c by (auto dest: bit_imp_le_length)
  then have top: "bit (crc32_bit c) 31 = bit c 0" for c
    by (simp add: crc32_bit_alt bit_simps)
  have low: "bit x 0 = bit y 0" using top [of x] top [of y] eq by simp
  have drop: "drop_bit 1 c = crc32_bit c XOR (if bit c 0 then 0xEDB88320 else 0)" for c
    unfolding crc32_bit_alt by (simp only: xor.assoc xor_self_eq xor.right_neutral)
  have "drop_bit 1 x = drop_bit 1 y" unfolding drop [of x] drop [of y] eq low ..
  then have "bit (drop_bit 1 x) n = bit (drop_bit 1 y) n" for n by simp
  then have suc: "bit x (Suc n) = bit y (Suc n)" for n by (simp add: bit_drop_bit_eq)
  show "x = y"
  proof (rule bit_word_eqI)
    fix n show "bit x n = bit y n" using low suc by (cases n) auto
  qed
qed

lemma xor_cancel: "x XOR z = y XOR z \<longleftrightarrow> x = y" "z XOR x = z XOR y \<longleftrightarrow> x = (y :: u32)"
  by (metis xor.assoc xor.right_neutral xor_self_eq) (metis xor.assoc xor.left_neutral xor_self_eq)

lemma ucast_byte_eq: "(ucast (a :: u8) :: u32) = ucast b \<longleftrightarrow> a = b"
proof -
  have "unat (ucast x :: u32) = unat x" for x :: u8
    using unat_less_2p(1) [of x] by (simp add: unsigned_ucast_eq take_bit_nat_eq_self_iff)
  then show ?thesis by (simp add: word_unat_eq_iff)
qed

lemma crc32_byte_inj:
  "crc32_byte c a = crc32_byte d b \<longleftrightarrow> c XOR ucast a = d XOR ucast b"
proof -
  have "inj (crc32_bit ^^ 8)" by (rule inj_fn [OF crc32_bit_inj])
  then show ?thesis by (simp add: crc32_byte_def inj_eq)
qed

lemma crc32_as_fold: "crc32 data (length data) = NOT (fold (\<lambda>b crc. crc32_byte crc b) data UINT32_MAX)"
proof -
  have "fold (\<lambda>index crc. crc32_byte crc (data ! index)) [0..<length data] c =
      fold (\<lambda>b crc. crc32_byte crc b) (map ((!) data) [0..<length data]) c" for c
    by (simp add: fold_map comp_def)
  then show ?thesis by (simp add: crc32_def map_nth)
qed


lemma fold_crc_differ:
  "c \<noteq> d \<Longrightarrow> fold (\<lambda>b crc. crc32_byte crc b) xs c \<noteq> fold (\<lambda>b crc. crc32_byte crc b) xs d"
proof (induction xs arbitrary: c d)
  case (Cons x xs)
  then have "crc32_byte c x \<noteq> crc32_byte d x" by (simp add: crc32_byte_inj xor_cancel)
  with Cons.IH show ?case by simp
qed simp

lemma crc32_changed_byte:
  assumes "a \<noteq> b"
  shows "crc32 (xs @ a # ys) (length (xs @ a # ys)) \<noteq> crc32 (xs @ b # ys) (length (xs @ b # ys))"
proof -
  have "crc32_byte c a \<noteq> crc32_byte c b" for c
    using assms by (simp add: crc32_byte_inj xor_cancel ucast_byte_eq)
  from fold_crc_differ [OF this] show ?thesis unfolding crc32_as_fold by simp
qed

section \<open>The layout of a frame\<close>

lemma put_bytes:
  "length xs = k \<Longrightarrow> put_u32 (xs @ a # b # c # d # ys) k v = xs @ u32_bytes v @ ys"
  "length xs = k \<Longrightarrow> put_u16 (xs @ a # b # ys) k w = xs @ u16_bytes w @ ys"
  by (simp_all add: put_u32_def put_u16_def u32_bytes_def u16_bytes_def list_update_append)

lemma fold_copy:
  "k + n \<le> length f \<Longrightarrow> n \<le> length p \<Longrightarrow>
     fold (\<lambda>i f. f[k + i := p ! i]) [0..<n] f = take k f @ take n p @ drop (k + n) f"
proof (induction n)
  case (Suc n)
  have "fold (\<lambda>i f. f[k + i := p ! i]) [0..<Suc n] f =
      (take k f @ take n p @ drop (k + n) f)[k + n := p ! n]"
    using Suc by simp
  also have "\<dots> = take k f @ take n p @ (drop (k + n) f)[0 := p ! n]"
    using Suc.prems by (simp add: list_update_append min_def)
  also have "(drop (k + n) f)[0 := p ! n] = p ! n # drop (k + Suc n) f"
    using Suc.prems by (simp add: Cons_nth_drop_Suc [symmetric])
  finally show ?case using Suc.prems by (simp add: take_Suc_conv_app_nth)
qed simp

lemma fold_copy_append:
  "length xs = k \<Longrightarrow> n \<le> length ys \<Longrightarrow> n \<le> length p \<Longrightarrow>
     fold (\<lambda>i f. f[k + i := p ! i]) [0..<n] (xs @ ys) = xs @ take n p @ drop n ys"
  using fold_copy [of k n "xs @ ys" p] by simp

text \<open>What the decoder in \<open>tools\<close> expects: magic, header, payload, CRC of header tail and payload.\<close>

definition frame_body :: "u8 \<Rightarrow> u8 list \<Rightarrow> u8 list" where
  "frame_body type payload = [TRACE_FRAME_VERSION, type] @ u16_bytes OS_TRACE_SCHEMA_VERSION @
     u16_bytes (of_nat (length payload)) @ u16_bytes 0 @ payload"

definition frame_bytes :: "u8 \<Rightarrow> u8 list \<Rightarrow> u8 list" where
  "frame_bytes type payload = [0x41, 0x59, 0x4D, 0x54] @ frame_body type payload @
     u32_bytes (crc32 (frame_body type payload) (length (frame_body type payload)))"

lemma length_frame_body [simp]: "length (frame_body type payload) = 8 + length payload"
  by (simp add: frame_body_def u16_bytes_def)

lemma crc32_prefix: "crc32 (xs @ ys) (length xs) = crc32 xs (length xs)"
proof -
  have "fold (\<lambda>i crc. crc32_byte crc ((xs @ ys) ! i)) [0..<length xs] c =
      fold (\<lambda>i crc. crc32_byte crc (xs ! i)) [0..<length xs] c" for c
    by (rule fold_cong) (auto simp: nth_append)
  then show ?thesis by (simp add: crc32_def)
qed

lemma four_elements: "4 \<le> length xs \<Longrightarrow> \<exists>a b c d ys. xs = a # b # c # d # ys"
  by (auto simp: eval_nat_numeral Suc_le_length_iff)

lemma build_frame_layout:
  assumes f: "length f = 48" and p: "length payload = unat len" "unat len \<le> 32"
  shows "take (16 + unat len) (build_frame f type payload len) = frame_bytes type payload"
proof -
  obtain a0 a1 a2 a3 a4 a5 a6 a7 a8 a9 a10 a11 rest where
    f': "f = [a0, a1, a2, a3, a4, a5, a6, a7, a8, a9, a10, a11] @ rest" and rest: "length rest = 36"
    using f by (auto simp: length_Suc_conv eval_nat_numeral)
  let ?n = "unat len"
  let ?head = "[0x41, 0x59, 0x4D, 0x54, TRACE_FRAME_VERSION, type] @ u16_bytes 1 @ u16_bytes len @
    u16_bytes 0"
  let ?g = "put_u16 (put_u16 (put_u16 (f[0 := 0x41, 1 := 0x59, 2 := 0x4D, 3 := 0x54,
      4 := TRACE_FRAME_VERSION, 5 := type]) 6 1) 8 len) 10 0"
  have head: "?g = ?head @ rest"
    by (simp add: f' put_u16_def u16_bytes_def eval_nat_numeral)
  have len: "length ?head = 12" by (simp add: u16_bytes_def)
  have body: "?head @ payload = [0x41, 0x59, 0x4D, 0x54] @ frame_body type payload"
    using p(1) by (simp add: frame_body_def)
  have "fold (\<lambda>i f. f[12 + i := payload ! i]) [0..<?n] (?head @ rest) = ?head @ payload @ drop ?n rest"
    using fold_copy_append [OF len, of ?n rest payload] p rest by simp
  moreover obtain b0 b1 b2 b3 rest' where "drop ?n rest = b0 # b1 # b2 # b3 # rest'"
    using four_elements [of "drop ?n rest"] p(2) rest by fastforce
  ultimately have copied: "fold (\<lambda>i f. f[12 + i := payload ! i]) [0..<?n] ?g =
      (?head @ payload) @ b0 # b1 # b2 # b3 # rest'" unfolding head by simp
  have "build_frame f type payload len = put_u32 ((?head @ payload) @ b0 # b1 # b2 # b3 # rest')
      (12 + ?n) (crc32 (drop 4 ((?head @ payload) @ b0 # b1 # b2 # b3 # rest')) (8 + ?n))"
    unfolding build_frame_def Let_def TRACE_FRAME_HEADER_SIZE_def copied [symmetric] ..
  also have "drop 4 ((?head @ payload) @ b0 # b1 # b2 # b3 # rest') =
      frame_body type payload @ b0 # b1 # b2 # b3 # rest'"
    unfolding body by simp
  also have "crc32 \<dots> (8 + ?n) = crc32 (frame_body type payload) (length (frame_body type payload))"
    using crc32_prefix [of "frame_body type payload"] p(1) by simp
  also have "put_u32 ((?head @ payload) @ b0 # b1 # b2 # b3 # rest') (12 + ?n) c =
      (?head @ payload) @ u32_bytes c @ rest'" for c
    using len p(1) by (intro put_bytes) simp
  finally have whole: "build_frame f type payload len = ((?head @ payload) @
      u32_bytes (crc32 (frame_body type payload) (length (frame_body type payload)))) @ rest'"
    by (simp only: append_assoc)
  have "length ((?head @ payload) @ u32_bytes c) = 16 + ?n" for c
    using p(1) by (simp add: u16_bytes_def u32_bytes_def)
  then have "take (16 + ?n) (((?head @ payload) @ u32_bytes c) @ rest') =
      (?head @ payload) @ u32_bytes c" for c
    by (metis append_eq_conv_conj)
  with whole show ?thesis unfolding frame_bytes_def body by (simp only: append_assoc)
qed


section \<open>What reaches the wire\<close>

text \<open>
  What the code relies on of \<open>HAL_UART_Transmit\<close>: a call with between 1 and 65535 bytes that
  returns \<open>HAL_OK\<close> has transmitted those bytes.
\<close>

definition hal_sends :: "(u8 list \<Rightarrow> 'w \<Rightarrow> hal_status \<times> 'w) \<Rightarrow> ('w \<Rightarrow> u8 list) \<Rightarrow> bool" where
  "hal_sends transmit wire \<longleftrightarrow> (\<forall>bytes w. 0 < length bytes \<and> length bytes \<le> 65535 \<and>
     fst (transmit bytes w) = HAL_OK \<longrightarrow> wire (snd (transmit bytes w)) = wire w @ bytes)"

definition hal_never_fails :: "(u8 list \<Rightarrow> 'w \<Rightarrow> hal_status \<times> 'w) \<Rightarrow> bool" where
  "hal_never_fails transmit \<longleftrightarrow> (\<forall>bytes w. 0 < length bytes \<and> length bytes \<le> 65535 \<longrightarrow>
     fst (transmit bytes w) = HAL_OK)"

lemma take_split: "a \<le> b \<Longrightarrow> take a xs @ take (b - a) (drop a xs) = take b xs"
  by (metis le_add_diff_inverse take_add)

lemma uart_write_loop_sends:
  assumes "hal_sends transmit wire" and "len \<le> length data"
    and "uart_write_loop transmit data len offset w = (HAL_OK, w')"
  shows "wire w' = wire w @ take (len - offset) (drop offset data)"
  using assms
proof (induction transmit data len offset w rule: uart_write_loop.induct)
  case (1 transmit data len offset w)
  show ?case
  proof (cases "offset < len")
    case False
    with 1 show ?thesis by (simp add: uart_write_loop.simps)
  next
    case True
    define chunk where "chunk = (if len - offset > AYMOS_UART_CHUNK_MAX then AYMOS_UART_CHUNK_MAX
      else len - offset)"
    obtain status w1 where t: "transmit (take chunk (drop offset data)) w = (status, w1)"
      by fastforce
    have chunk: "0 < chunk" "chunk \<le> 65535" "chunk \<le> len - offset"
      using True by (auto simp: chunk_def)
    have len: "length (take chunk (drop offset data)) = chunk"
      using chunk(3) "1.prems"(2) by simp
    have run: "status = HAL_OK" "uart_write_loop transmit data len (offset + chunk) w1 = (HAL_OK, w')"
      using "1.prems"(3) True t
      by (auto simp: uart_write_loop.simps [of transmit data len offset] chunk_def [symmetric]
        Let_def split: if_splits)
    have "wire w1 = wire w @ take chunk (drop offset data)"
      using "1.prems"(1) t run(1) chunk(1,2) len unfolding hal_sends_def
      by (metis fst_conv snd_conv)
    moreover have "wire w' = wire w1 @ take (len - (offset + chunk)) (drop (offset + chunk) data)"
      using "1.IH" [OF True refl chunk_def refl t [symmetric] _ "1.prems"(1,2) run(2)] run(1) by simp
    ultimately show ?thesis
      using take_split [OF chunk(3), of "drop offset data"] by (simp add: add.commute)
  qed
qed

lemma uart_write_loop_ok:
  assumes "hal_never_fails transmit" and "len \<le> length data"
  shows "fst (uart_write_loop transmit data len offset w) = HAL_OK"
  using assms
proof (induction transmit data len offset w rule: uart_write_loop.induct)
  case (1 transmit data len offset w)
  show ?case
  proof (cases "offset < len")
    case False
    then show ?thesis by (simp add: uart_write_loop.simps)
  next
    case True
    define chunk where "chunk = (if len - offset > AYMOS_UART_CHUNK_MAX then AYMOS_UART_CHUNK_MAX
      else len - offset)"
    obtain status w1 where t: "transmit (take chunk (drop offset data)) w = (status, w1)"
      by fastforce
    have chunk: "0 < chunk" "chunk \<le> 65535" "chunk \<le> len - offset"
      using True by (auto simp: chunk_def)
    have "length (take chunk (drop offset data)) = chunk"
      using chunk(3) "1.prems"(2) by simp
    then have "status = HAL_OK"
      using "1.prems"(1) t chunk(1,2) unfolding hal_never_fails_def by (metis fst_conv)
    then show ?thesis
      using "1.IH" [OF True refl chunk_def refl t [symmetric] _ "1.prems"] True t
      by (simp add: uart_write_loop.simps [of transmit data len offset] chunk_def [symmetric] Let_def)
  qed
qed

lemma send_frame_sends:
  assumes "hal_sends transmit wire" and "length payload = unat len"
    and "send_frame transmit type (Some payload) len w = (True, w')"
  shows "wire w' = wire w @ frame_bytes type payload"
proof -
  let ?f = "build_frame (replicate 48 0) type payload len"
  have len: "unat len = 32 \<or> unat len = 28"
    using assms(3) by (auto simp: send_frame_def frame_sizes split: if_splits)
  have layout: "take (16 + unat len) ?f = frame_bytes type payload"
    using assms(2) len by (intro build_frame_layout) auto
  then have "length (frame_bytes type payload) \<le> length ?f" by (metis length_take min.cobounded1)
  moreover have "length (frame_bytes type payload) = 16 + unat len"
    using assms(2) by (simp add: frame_bytes_def u32_bytes_def)
  ultimately have fits: "16 + unat len \<le> length ?f" by simp
  have "board_uart_write transmit (Some ?f) (16 + unat len) w = (HAL_OK, w')"
    using assms(3) len
    by (auto simp: send_frame_def frame_sizes split: if_splits prod.splits)
  then have "uart_write_loop transmit ?f (16 + unat len) 0 w = (HAL_OK, w')"
    by (simp add: board_uart_write_def)
  from uart_write_loop_sends [OF assms(1) fits this] layout show ?thesis by simp
qed

lemma send_frame_ok:
  assumes "hal_never_fails transmit" and "length payload = unat len" and "unat len = 32 \<or> unat len = 28"
  shows "fst (send_frame transmit type (Some payload) len w)"
proof -
  let ?f = "build_frame (replicate 48 0) type payload len"
  have layout: "take (16 + unat len) ?f = frame_bytes type payload"
    using assms(2,3) by (intro build_frame_layout) auto
  then have "length (frame_bytes type payload) \<le> length ?f" by (metis length_take min.cobounded1)
  then have fits: "16 + unat len \<le> length ?f"
    using assms(2) by (simp add: frame_bytes_def u32_bytes_def)
  have "fst (uart_write_loop transmit ?f (16 + unat len) 0 w) = HAL_OK"
    by (rule uart_write_loop_ok [OF assms(1) fits])
  with assms(3) show ?thesis
    by (auto simp: send_frame_def frame_sizes board_uart_write_def Let_def case_prod_beta)
qed


definition record_payload :: "os_trace_record \<Rightarrow> u8 list" where
  "record_payload r = encode_record r (replicate OS_TRACE_RECORD_SIZE 0)"

definition footer_payload :: "os_trace_final \<Rightarrow> u8 list" where
  "footer_payload f = encode_footer f (replicate TRACE_FOOTER_PAYLOAD_SIZE 0)"

lemma length_payloads [simp]: "length (record_payload r) = 32" "length (footer_payload f) = 28"
  by (simp_all add: record_payload_def footer_payload_def frame_sizes)

text \<open>One round of the pop loop on a ring that is read as a list.\<close>

lemma finish_loop_empty:
  "ring_geometry r \<Longrightarrow> ring_contents r = [] \<Longrightarrow> finish_loop transmit r w = (True, r, w)"
  using pop_empty [of r "Some os_trace_record_zero"] by (simp add: finish_loop.simps)

lemma finish_loop_Cons:
  assumes "ring_geometry r" and "ring_contents r = x # xs"
  obtains r' where "ring_geometry r'" "ring_contents r' = xs"
    "finish_loop transmit r w =
      (let (sent, w') = send_frame transmit TRACE_FRAME_RECORD (Some (record_payload x)) 32 w
       in if \<not> sent then (False, r', w') else finish_loop transmit r' w')"
proof -
  obtain r' where "os_trace_ring_pop (Some r) (Some os_trace_record_zero) = (True, Some r', Some x)"
    "ring_geometry r'" "ring_contents r' = xs"
    using pop_oldest [OF assms] by blast
  then show thesis
    by (intro that [of r'])
      (simp_all add: finish_loop.simps [of transmit r] record_payload_def Let_def split: prod.split)
qed

lemma finish_loop_sends:
  assumes "hal_sends transmit wire" and "ring_geometry r"
    and "finish_loop transmit r w = (True, r', w')"
  shows "wire w' = wire w @
    concat (map (\<lambda>x. frame_bytes TRACE_FRAME_RECORD (record_payload x)) (ring_contents r)) \<and>
    ring_contents r' = []"
  using assms(2,3)
proof (induction "ring_contents r" arbitrary: r w)
  case Nil
  then show ?case using finish_loop_empty [of r transmit w] by simp
next
  case (Cons x xs)
  obtain r1 where r1: "ring_geometry r1" "ring_contents r1 = xs"
    "finish_loop transmit r w =
      (let (sent, w') = send_frame transmit TRACE_FRAME_RECORD (Some (record_payload x)) 32 w
       in if \<not> sent then (False, r1, w') else finish_loop transmit r1 w')"
    using finish_loop_Cons [OF Cons.prems(1) Cons.hyps(2) [symmetric]] .
  obtain sent w1 where send: "send_frame transmit TRACE_FRAME_RECORD (Some (record_payload x)) 32 w =
      (sent, w1)" by fastforce
  have step: "sent" "finish_loop transmit r1 w1 = (True, r', w')"
    using Cons.prems(2) send r1(3) by (auto split: if_splits)
  have "wire w1 = wire w @ frame_bytes TRACE_FRAME_RECORD (record_payload x)"
    using send_frame_sends [OF assms(1), of "record_payload x" 32] send step(1) by simp
  with Cons.hyps(1) [OF r1(2) [symmetric] r1(1) step(2)] show ?case
    unfolding r1(2) Cons.hyps(2) [symmetric] by simp
qed

lemma finish_loop_ok:
  assumes "hal_never_fails transmit" and "ring_geometry r"
  shows "fst (finish_loop transmit r w)"
  using assms(2)
proof (induction "ring_contents r" arbitrary: r w)
  case Nil
  then show ?case using finish_loop_empty [of r transmit w] by simp
next
  case (Cons x xs)
  obtain r1 where r1: "ring_geometry r1" "ring_contents r1 = xs"
    "finish_loop transmit r w =
      (let (sent, w') = send_frame transmit TRACE_FRAME_RECORD (Some (record_payload x)) 32 w
       in if \<not> sent then (False, r1, w') else finish_loop transmit r1 w')"
    using finish_loop_Cons [OF Cons.prems(1) Cons.hyps(2) [symmetric]] .
  have "fst (send_frame transmit TRACE_FRAME_RECORD (Some (record_payload x)) 32 w)"
    by (rule send_frame_ok [OF assms(1)]) simp_all
  with Cons.hyps(1) [OF r1(2) [symmetric] r1(1)] r1(3) show ?case
    by (simp add: case_prod_beta Let_def)
qed

section \<open>Properties\<close>

text \<open>
  the CRC of a frame detects every corruption that is confined to one byte, in any position
  and with any number of flipped bits.
\<close>

theorem crc32_detects_byte:
  assumes "length a = length b" and "i < length a" and "a ! i \<noteq> b ! i"
    and "\<forall>j. j \<noteq> i \<longrightarrow> a ! j = b ! j"
  shows "crc32 a (length a) \<noteq> crc32 b (length b)"
proof -
  have "b = b[i := b ! i]" by simp
  moreover have "a = b[i := a ! i]"
    using assms by (intro nth_equalityI) (auto simp: nth_list_update)
  ultimately have "a = take i b @ a ! i # drop (Suc i) b" "b = take i b @ b ! i # drop (Suc i) b"
    using assms(1,2) by (simp_all add: upd_conv_take_nth_drop flip: id_take_nth_drop)
  with crc32_changed_byte [OF assms(3), of "take i b" "drop (Suc i) b"] show ?thesis
    by metis
qed

theorem crc32_detects_byte_witness:
  "crc32 [1, 2, 3] 3 \<noteq> crc32 [1, 6, 3] 3"
proof -
  have "\<forall>j. j \<noteq> 1 \<longrightarrow> [1, 2, 3 :: u8] ! j = [1, 6, 3] ! j"
    by (auto simp: nth_Cons split: nat.split)
  with crc32_detects_byte [of "[1, 2, 3]" "[1, 6, 3]" 1] show ?thesis
    by (simp add: numeral_3_eq_3)
qed

text \<open>
  C15: a record survives the serial encoding: reading the fields of an encoded payload at their
  documented offsets gives back every field of the record, whatever the buffer held before.
\<close>

theorem record_roundtrip:
  assumes "length p = OS_TRACE_RECORD_SIZE"
  shows "decode_record (encode_record r p) = r \<and> length (encode_record r p) = 32"
  using assms
  by (cases r) (simp add: decode_record_def encode_record_def Let_def get_simps frame_sizes
    del: One_nat_def)

definition frame_demo_record :: os_trace_record where
  "frame_demo_record = record_of_input 0x123456789A 7 (ring_demo_input 9)"

theorem record_roundtrip_witness:
  "decode_record (encode_record frame_demo_record (replicate 32 0xFF)) = frame_demo_record"
  using record_roundtrip [of "replicate 32 0xFF" frame_demo_record] by (simp add: frame_sizes)

lemma trace_finish_effect:
  assumes ok: "ring_ok r" and en: "enabled r" and hal: "hal_sends transmit wire"
    and fin: "os_trace_finish transmit ipsr current tick r w = (res, r', w')"
  shows "(res = 1 \<longrightarrow> ipsr = 0 \<and> current = 0 \<and> ring_contents r' = [] \<and>
      (\<exists>f. snd (snd (os_trace_ring_close (Some r) tick (Some ring_demo_final))) = Some f \<and>
         wire w' = wire w @
           concat (map (\<lambda>x. frame_bytes TRACE_FRAME_RECORD (record_payload x)) (ring_contents r)) @
           frame_bytes TRACE_FRAME_FOOTER (footer_payload f))) \<and>
    (hal_never_fails transmit \<and> ipsr = 0 \<and> current = 0 \<longrightarrow> res = 1)"
proof -
  have rec: "records r \<noteq> None" using ok by (auto simp: ring_ok_def ring_geometry_def)
  let ?r1 = "r\<lparr>enabled := False\<rparr>"
  obtain f where close: "os_trace_ring_close (Some r) tick (Some ring_demo_final) =
      (True, Some ?r1, Some f)"
    using rec en by (simp add: os_trace_ring_close_def Let_def)
  have geo: "ring_geometry ?r1" "ring_contents ?r1 = ring_contents r"
    using ok ring_contents_cong [of ?r1 r] ring_geometry_cong [of ?r1 r] by (auto simp: ring_ok_def)
  obtain drained r2 w2 where loop: "finish_loop transmit ?r1 w = (drained, r2, w2)"
    by (metis prod.exhaust)
  obtain sent w3 where send: "send_frame transmit TRACE_FRAME_FOOTER (Some (footer_payload f)) 28 w2 =
      (sent, w3)" by fastforce
  have run: "(res, r', w') = (if ipsr \<noteq> 0 \<or> current \<noteq> 0 then (0, r, w)
      else if \<not> drained then (0, r2, w2) else (if sent then 1 else 0, r2, w3))"
    unfolding fin [symmetric] os_trace_finish_def
    by (simp add: close [unfolded ring_demo_final_def] loop send [unfolded footer_payload_def])
  have "drained" "sent" if "hal_never_fails transmit"
    using finish_loop_ok [OF that geo(1), of w] loop
      send_frame_ok [OF that, of "footer_payload f" 28 TRACE_FRAME_FOOTER w2] send by simp_all
  moreover have "wire w2 = wire w @
      concat (map (\<lambda>x. frame_bytes TRACE_FRAME_RECORD (record_payload x)) (ring_contents r)) \<and>
      ring_contents r2 = []" if drained
    using finish_loop_sends [OF hal geo(1)] loop that geo(2) by simp
  moreover have "wire w3 = wire w2 @ frame_bytes TRACE_FRAME_FOOTER (footer_payload f)" if sent
    using send_frame_sends [OF hal, of "footer_payload f" 28] send that by simp
  ultimately show ?thesis
    using run close by (auto split: if_splits)
qed

text \<open>
  C16: a session that reports success was transmitted in full. When \<open>os_trace_finish\<close> returns 1,
  it ran in the idle thread, and the wire has received the frame of every record of the ring,
  oldest first, and then the frame of the closing snapshot, nothing lost and nothing in between;
  and when the UART never fails, a call from the idle thread on an open ring does return 1.
\<close>

theorem trace_finish_complete:
  assumes ok: "ring_ok r" and en: "enabled r" and hal: "hal_sends transmit wire"
    and fin: "os_trace_finish transmit ipsr current tick r w = (res, r', w')"
  shows "(res = 1 \<longrightarrow> ipsr = 0 \<and> current = 0 \<and> ring_contents r' = [] \<and>
      (\<exists>f. snd (snd (os_trace_ring_close (Some r) tick (Some ring_demo_final))) = Some f \<and>
         wire w' = wire w @
           concat (map (\<lambda>x. frame_bytes TRACE_FRAME_RECORD (record_payload x)) (ring_contents r)) @
           frame_bytes TRACE_FRAME_FOOTER (footer_payload f))) \<and>
    (hal_never_fails transmit \<and> ipsr = 0 \<and> current = 0 \<longrightarrow> res = 1)"
  by (rule trace_finish_effect [OF assms])

text \<open>A UART that collects what it is given.\<close>

definition list_uart :: "u8 list \<Rightarrow> u8 list \<Rightarrow> hal_status \<times> u8 list" where
  "list_uart bytes w = (HAL_OK, w @ bytes)"

theorem trace_finish_complete_witness:
  "\<exists>r' w'. os_trace_finish list_uart 0 0 9 ring_demo_start [] = (1, r', w') \<and>
     ring_contents r' = [] \<and> length w' = 44"
proof -
  obtain res r' w' where run: "os_trace_finish list_uart 0 0 9 ring_demo_start [] = (res, r', w')"
    by (metis prod.exhaust)
  have hal: "hal_sends list_uart (\<lambda>w. w)" "hal_never_fails list_uart"
    by (simp_all add: hal_sends_def hal_never_fails_def list_uart_def)
  have en: "enabled ring_demo_start" and "ring_contents ring_demo_start = []"
    by code_simp+
  with trace_finish_complete [OF ring_demo_start_ok en hal(1) run] hal(2) run show ?thesis
    by (auto simp: frame_bytes_def u32_bytes_def)
qed

end
