(* ===== verification/Trace_Select.thy ===== *)
theory Trace_Select
  imports Trace_Ring Edf_Select
begin

text \<open>
  The producer side of the trace in \<open>kernel/src/trace_runtime.c\<close>: single events and the batch
  that records a scheduling decision (a summary and one record per candidate). The tick is the
  value of \<open>os_monotonic_tick_count()\<close>; interrupts are masked for the whole call, so the ring
  is the only state. The comparison \<open>snapshot_outranks\<close> is the second instance of the locale
  \<open>ranking\<close>, and the reason code is proved to say by which key the selected task won.
\<close>

section \<open>Types\<close>

datatype os_trace_select_reason =
    OS_TRACE_SELECT_ONLY_READY | OS_TRACE_SELECT_DEADLINE | OS_TRACE_SELECT_PRIORITY
  | OS_TRACE_SELECT_STABLE_TID | OS_TRACE_SELECT_IDLE | OS_TRACE_SELECT_EXCLUDED_FALLBACK

datatype os_trace_select_purpose =
    OS_TRACE_SELECT_DISPATCH | OS_TRACE_SELECT_SYSTICK_PROBE
  | OS_TRACE_SELECT_RUNTIME_CREATE_PROBE | OS_TRACE_SELECT_PURPOSE_OTHER u32

fun reason_value :: "os_trace_select_reason \<Rightarrow> u32" where
  "reason_value OS_TRACE_SELECT_ONLY_READY = 1"
| "reason_value OS_TRACE_SELECT_DEADLINE = 2"
| "reason_value OS_TRACE_SELECT_PRIORITY = 3"
| "reason_value OS_TRACE_SELECT_STABLE_TID = 4"
| "reason_value OS_TRACE_SELECT_IDLE = 5"
| "reason_value OS_TRACE_SELECT_EXCLUDED_FALLBACK = 6"

fun purpose_value :: "os_trace_select_purpose \<Rightarrow> u32" where
  "purpose_value OS_TRACE_SELECT_DISPATCH = 1"
| "purpose_value OS_TRACE_SELECT_SYSTICK_PROBE = 2"
| "purpose_value OS_TRACE_SELECT_RUNTIME_CREATE_PROBE = 3"
| "purpose_value (OS_TRACE_SELECT_PURPOSE_OTHER v) = v"

fun task_state_value :: "os_task_state \<Rightarrow> u32" where
  "task_state_value OS_TASK_DORMANT = 0"
| "task_state_value OS_TASK_WAITING_RELEASE = 1"
| "task_state_value OS_TASK_READY = 2"
| "task_state_value OS_TASK_RUNNING = 3"
| "task_state_value OS_TASK_SLEEPING = 4"
| "task_state_value OS_TASK_EXITING = 5"

section \<open>Operations\<close>

definition os_trace_emit ::
  "u64 \<Rightarrow> os_trace_event \<Rightarrow> u16 \<Rightarrow> u16 \<Rightarrow> u32 \<Rightarrow> u32 \<Rightarrow> u32 \<Rightarrow> os_trace_ring \<Rightarrow>
   bool \<times> os_trace_ring" where
  "os_trace_emit tick event task related value0 value1 value2 r =
     (let r1 = snd (call_ptr (\<lambda>p. os_trace_ring_report_overflow p tick) r)
      in call_ptr (\<lambda>p. os_trace_ring_push p tick event 0 task related value0 value1 value2) r1)"

definition snapshot_outranks :: "os_sched_task \<Rightarrow> os_sched_task \<Rightarrow> bool" where
  "snapshot_outranks candidate incumbent =
     (if absolute_deadline_order candidate \<noteq> absolute_deadline_order incumbent
      then absolute_deadline_order candidate < absolute_deadline_order incumbent
      else if priority candidate \<noteq> priority incumbent
      then priority candidate < priority incumbent
      else task_id candidate < task_id incumbent)"

text \<open>The test the three loops share: ready, or the running incumbent of a probe.\<close>

definition trace_candidate ::
  "os_sched_task list \<Rightarrow> os_task_id_t \<Rightarrow> os_trace_select_purpose \<Rightarrow> nat \<Rightarrow> bool" where
  "trace_candidate tasks incumbent purpose index =
     (let t = tasks ! index;
          ready = (state t = OS_TASK_READY \<and> job_active t);
          incumbent_running = (index = unat incumbent \<and> state t = OS_TASK_RUNNING \<and>
            job_active t \<and> purpose \<noteq> OS_TRACE_SELECT_DISPATCH)
      in ready \<or> incumbent_running)"

fun ready_mask_loop :: "os_sched_task list \<Rightarrow> nat list \<Rightarrow> u32 \<Rightarrow> u32" where
  "ready_mask_loop tasks [] bits = bits"
| "ready_mask_loop tasks (index # rest) bits = ready_mask_loop tasks rest
     (if state (tasks ! index) = OS_TASK_READY \<and> job_active (tasks ! index)
      then bits OR push_bit index 1 else bits)"

definition ready_mask :: "os_sched_task list \<Rightarrow> u32 \<Rightarrow> u32" where
  "ready_mask tasks task_count = ready_mask_loop tasks [1..<unat task_count] 0"

fun runner_up_loop ::
  "os_sched_task list \<Rightarrow> os_task_id_t \<Rightarrow> os_task_id_t \<Rightarrow> os_task_id_t \<Rightarrow>
   os_trace_select_purpose \<Rightarrow> nat list \<Rightarrow> os_task_id_t \<Rightarrow> os_task_id_t" where
  "runner_up_loop tasks selected incumbent excluded purpose [] runner_up = runner_up"
| "runner_up_loop tasks selected incumbent excluded purpose (index # rest) runner_up =
     (if index = unat selected \<or> index = unat excluded \<or>
         \<not> trace_candidate tasks incumbent purpose index
      then runner_up_loop tasks selected incumbent excluded purpose rest runner_up
      else if runner_up = OS_TASK_ID_INVALID \<or>
              snapshot_outranks (tasks ! index) (tasks ! unat runner_up)
      then runner_up_loop tasks selected incumbent excluded purpose rest (of_nat index)
      else runner_up_loop tasks selected incumbent excluded purpose rest runner_up)"

definition selection_reason ::
  "os_sched_task list \<Rightarrow> u32 \<Rightarrow> os_task_id_t \<Rightarrow> os_task_id_t \<Rightarrow> os_task_id_t \<Rightarrow>
   os_trace_select_purpose \<Rightarrow> nat \<Rightarrow> os_trace_select_reason" where
  "selection_reason tasks task_count selected incumbent excluded purpose eligible_count =
     (if selected = OS_TASK_ID_IDLE then OS_TRACE_SELECT_IDLE
      else if selected = excluded \<and> eligible_count = 0 then OS_TRACE_SELECT_EXCLUDED_FALLBACK
      else if eligible_count \<le> 1 then OS_TRACE_SELECT_ONLY_READY
      else
        let runner_up = runner_up_loop tasks selected incumbent excluded purpose
              [1..<unat task_count] OS_TASK_ID_INVALID
        in if runner_up = OS_TASK_ID_INVALID \<or>
              absolute_deadline_order (tasks ! unat selected) \<noteq>
              absolute_deadline_order (tasks ! unat runner_up)
           then OS_TRACE_SELECT_DEADLINE
           else if priority (tasks ! unat selected) \<noteq> priority (tasks ! unat runner_up)
           then OS_TRACE_SELECT_PRIORITY
           else OS_TRACE_SELECT_STABLE_TID)"

text \<open>The counting loop: all candidates, and those that are not excluded.\<close>

fun candidate_count_loop ::
  "os_sched_task list \<Rightarrow> os_task_id_t \<Rightarrow> os_task_id_t \<Rightarrow> os_trace_select_purpose \<Rightarrow>
   nat list \<Rightarrow> nat \<times> nat \<Rightarrow> nat \<times> nat" where
  "candidate_count_loop tasks incumbent excluded purpose [] counts = counts"
| "candidate_count_loop tasks incumbent excluded purpose (index # rest) (n, e) =
     candidate_count_loop tasks incumbent excluded purpose rest
       (if trace_candidate tasks incumbent purpose index
        then (n + 1, if index \<noteq> unat excluded then e + 1 else e) else (n, e))"

definition selection_summary ::
  "os_trace_select_reason \<Rightarrow> os_trace_select_purpose \<Rightarrow> os_task_id_t \<Rightarrow> nat \<Rightarrow> u32" where
  "selection_summary reason purpose excluded eligible_count =
     reason_value reason OR push_bit 8 (purpose_value purpose) OR
     push_bit 16 (ucast (if excluded = OS_TASK_ID_INVALID then 255 else excluded)) OR
     push_bit 24 (of_nat eligible_count)"

definition candidate_input ::
  "os_sched_task list \<Rightarrow> os_task_id_t \<Rightarrow> os_task_id_t \<Rightarrow> os_task_id_t \<Rightarrow> nat \<Rightarrow> os_trace_input"
where
  "candidate_input tasks selected incumbent excluded index =
     (let deadline = absolute_deadline_order (tasks ! index);
          candidate_meta = ucast (priority (tasks ! index)) OR
            push_bit 8 (task_state_value (state (tasks ! index))) OR
            push_bit 16 (if index = unat excluded then 1 else 0) OR
            push_bit 17 (if index = unat incumbent then 1 else 0) OR
            push_bit 18 (if index \<noteq> unat excluded then 1 else 0)
      in \<lparr>in_event = OS_TRACE_SELECT_CANDIDATE, in_flags = 0, in_task = of_nat index,
          in_related = ucast selected, in_value0 = ucast deadline,
          in_value1 = ucast (drop_bit 32 deadline), in_value2 = candidate_meta\<rparr>)"

fun candidate_inputs_loop ::
  "os_sched_task list \<Rightarrow> os_task_id_t \<Rightarrow> os_task_id_t \<Rightarrow> os_task_id_t \<Rightarrow>
   os_trace_select_purpose \<Rightarrow> nat list \<Rightarrow> os_trace_input list \<Rightarrow> os_trace_input list" where
  "candidate_inputs_loop tasks selected incumbent excluded purpose [] inputs = inputs"
| "candidate_inputs_loop tasks selected incumbent excluded purpose (index # rest) inputs =
     (if \<not> trace_candidate tasks incumbent purpose index
      then candidate_inputs_loop tasks selected incumbent excluded purpose rest inputs
      else candidate_inputs_loop tasks selected incumbent excluded purpose rest
             (inputs @ [candidate_input tasks selected incumbent excluded index]))"

definition selection_inputs ::
  "os_sched_task list \<Rightarrow> u32 \<Rightarrow> os_task_id_t \<Rightarrow> os_task_id_t \<Rightarrow> os_task_id_t \<Rightarrow>
   os_trace_select_purpose \<Rightarrow> os_trace_input list" where
  "selection_inputs tasks task_count selected incumbent excluded purpose =
     (let (count, eligible_count) = candidate_count_loop tasks incumbent excluded purpose
            [1..<unat task_count] (0, 0);
          reason = selection_reason tasks task_count selected incumbent excluded purpose
            eligible_count;
          head = \<lparr>in_event = OS_TRACE_TASK_SELECT, in_flags = 0, in_task = ucast selected,
            in_related = (if incumbent = OS_TASK_ID_INVALID then OS_TRACE_TASK_INVALID
                          else ucast incumbent),
            in_value0 = ready_mask tasks task_count,
            in_value1 = selection_summary reason purpose excluded eligible_count,
            in_value2 = of_nat count\<rparr>
      in candidate_inputs_loop tasks selected incumbent excluded purpose [1..<unat task_count] [head])"

definition os_trace_emit_selection ::
  "u64 \<Rightarrow> os_sched_task list option \<Rightarrow> u32 \<Rightarrow> os_task_id_t \<Rightarrow> os_task_id_t \<Rightarrow> os_task_id_t \<Rightarrow>
   os_trace_select_purpose \<Rightarrow> os_trace_ring \<Rightarrow> os_trace_ring" where
  "os_trace_emit_selection tick tasks task_count selected incumbent excluded purpose r =
     (if tasks = None \<or> task_count = 0 \<or> task_count > OS_MAX_USER_TASKS + 1 \<or>
         ucast selected \<ge> task_count \<or>
         (purpose \<noteq> OS_TRACE_SELECT_DISPATCH \<and> purpose \<noteq> OS_TRACE_SELECT_SYSTICK_PROBE \<and>
          purpose \<noteq> OS_TRACE_SELECT_RUNTIME_CREATE_PROBE)
      then r
      else
        let inputs = selection_inputs (the tasks) task_count selected incumbent excluded purpose;
            r1 = snd (call_ptr (\<lambda>p. os_trace_ring_report_overflow p tick) r)
        in snd (call_ptr (\<lambda>p. os_trace_ring_push_batch p tick (Some inputs)
                  (of_nat (length inputs))) r1))"

section \<open>Producers are calls of the ring\<close>

lemma emit_is_calls:
  "snd (os_trace_emit tick event task related a b c r) =
     ring_call_step (Emit_Batch tick (Some [\<lparr>in_event = event, in_flags = 0, in_task = task,
       in_related = related, in_value0 = a, in_value1 = b, in_value2 = c\<rparr>]) 1)
       (ring_call_step (Report_Overflow tick) r)"
  by (simp add: os_trace_emit_def os_trace_ring_push_def Let_def)

lemma emit_selection_is_calls:
  "os_trace_emit_selection tick tasks task_count selected incumbent excluded purpose r = r \<or>
   (\<exists>inputs. os_trace_emit_selection tick tasks task_count selected incumbent excluded purpose r =
     ring_call_step (Emit_Batch tick (Some inputs) (of_nat (length inputs)))
       (ring_call_step (Report_Overflow tick) r))"
  by (auto simp: os_trace_emit_selection_def Let_def)

section \<open>The runner-up\<close>

interpretation snapshot: ranking
  "\<lambda>i j. snapshot_outranks (tasks ! i) (tasks ! j)" "\<lambda>i. edf_key_of (tasks ! i)" "\<lambda>_. True"
  for tasks :: "os_sched_task list"
  by unfold_locales (auto simp: snapshot_outranks_def edf_key_of_def less_edf_key_def)

definition index_of_best :: "nat option \<Rightarrow> os_task_id_t" where
  "index_of_best b = (case b of None \<Rightarrow> OS_TASK_ID_INVALID | Some i \<Rightarrow> of_nat i)"

lemma runner_up_loop_is_scan:
  assumes "\<forall>i \<in> set idx. i < 255" and "\<forall>i. b = Some i \<longrightarrow> i < 255"
  shows "runner_up_loop tasks selected incumbent excluded purpose idx (index_of_best b) =
    index_of_best (scan_best (\<lambda>i j. snapshot_outranks (tasks ! i) (tasks ! j))
      (filter (\<lambda>i. i \<noteq> unat selected \<and> i \<noteq> unat excluded \<and>
         trace_candidate tasks incumbent purpose i) idx) b)"
  using assms
proof (induction idx arbitrary: b)
  case Nil
  then show ?case by simp
next
  case (Cons i idx)
  show ?case
  proof (cases "i \<noteq> unat selected \<and> i \<noteq> unat excluded \<and> trace_candidate tasks incumbent purpose i")
    case False
    with Cons show ?thesis by auto
  next
    case True
    define b' where "b' = (case b of None \<Rightarrow> i
      | Some j \<Rightarrow> if snapshot_outranks (tasks ! i) (tasks ! j) then i else j)"
    have best: "unat (index_of_best b) = j" "index_of_best b \<noteq> OS_TASK_ID_INVALID" if "b = Some j" for j
      using that Cons.prems(2) by (auto simp: index_of_best_def unat_of_nat_id of_nat_id_small)
    have "runner_up_loop tasks selected incumbent excluded purpose (i # idx) (index_of_best b) =
        runner_up_loop tasks selected incumbent excluded purpose idx (index_of_best (Some b'))"
      using True best by (cases b) (auto simp: index_of_best_def b'_def)
    moreover have "\<forall>j. Some b' = Some j \<longrightarrow> j < 255"
      using Cons.prems by (cases b) (auto simp: b'_def)
    ultimately show ?thesis
      using Cons.IH [of "Some b'"] Cons.prems(1) True by (cases b) (auto simp: b'_def)
  qed
qed


lemma count_loop_lengths:
  "candidate_count_loop tasks incumbent excluded purpose idx (n, e) =
     (n + length (filter (trace_candidate tasks incumbent purpose) idx),
      e + length (filter (\<lambda>i. trace_candidate tasks incumbent purpose i \<and> i \<noteq> unat excluded) idx))"
  by (induction idx arbitrary: n e) auto

lemma inputs_loop_map:
  "candidate_inputs_loop tasks selected incumbent excluded purpose idx inputs = inputs @
     map (candidate_input tasks selected incumbent excluded)
       (filter (trace_candidate tasks incumbent purpose) idx)"
  by (induction idx arbitrary: inputs) auto

lemma ready_mask_loop_bit:
  "n < 32 \<Longrightarrow> bit (ready_mask_loop tasks idx m) n \<longleftrightarrow> bit m n \<or>
     (n \<in> set idx \<and> state (tasks ! n) = OS_TASK_READY \<and> job_active (tasks ! n))"
  by (induction idx arbitrary: m) (auto simp: bit_simps)

section \<open>The reason code\<close>

text \<open>With consistent IDs the candidates of a dispatch are the eligible tasks of the selection.\<close>

definition ids_match :: "os_sched_task list \<Rightarrow> u32 \<Rightarrow> bool" where
  "ids_match tasks task_count \<longleftrightarrow> (\<forall>i < unat task_count. task_id (tasks ! i) = of_nat i)"

lemma dispatch_candidates:
  assumes "ids_match tasks task_count" and "i < unat task_count" and "i < 255"
  shows "trace_candidate tasks incumbent OS_TRACE_SELECT_DISPATCH i \<and> i \<noteq> unat excluded \<longleftrightarrow>
    eligible tasks excluded i"
proof -
  have "of_nat i = excluded \<longleftrightarrow> i = unat excluded"
    using assms(3) unat_of_nat_id [of i] by (auto simp: word_unat_eq_iff)
  then show ?thesis
    using assms by (auto simp: trace_candidate_def Let_def eligible_def ids_match_def)
qed

lemma edf_key_cases:
  assumes "edf_key_of a < edf_key_of b"
  shows "absolute_deadline_order a < absolute_deadline_order b \<or>
    absolute_deadline_order a = absolute_deadline_order b \<and>
      (priority a < priority b \<or> priority a = priority b \<and> task_id a < task_id b)"
  using assms by (auto simp: edf_key_of_def less_edf_key_def)

lemma edf_key_le_cases:
  assumes "edf_key_of a \<le> edf_key_of b"
  shows "absolute_deadline_order a \<le> absolute_deadline_order b \<and>
    (absolute_deadline_order a = absolute_deadline_order b \<longrightarrow> priority a \<le> priority b)"
  using assms by (auto simp: edf_key_of_def less_eq_edf_key_def less_edf_key_def)

text \<open>
  C17: the reason code of a dispatch record is true. For the task that \<open>os_sched_select\<close> chose
  among at most four user tasks: DEADLINE is recorded exactly when its deadline is strictly
  earlier than that of every other eligible task, PRIORITY when an eligible competitor has the
  same deadline but all those have a larger priority value, STABLE_TID when a competitor ties on
  deadline and priority, ONLY_READY without an eligible competitor, EXCLUDED_FALLBACK when only
  the yielding task is ready, and IDLE when nothing is.
\<close>

theorem selection_reason_true:
  assumes count: "0 < task_count" "task_count \<le> 5" and ids: "ids_match tasks task_count"
    and sel: "os_sched_select (Some tasks) task_count excluded = selected" "selected \<noteq> OS_TASK_ID_INVALID"
    and E: "E = eligible_set tasks task_count excluded" and s: "s = unat selected"
  shows "selection_reason tasks task_count selected incumbent excluded OS_TRACE_SELECT_DISPATCH
      (snd (candidate_count_loop tasks incumbent excluded OS_TRACE_SELECT_DISPATCH
         [1..<unat task_count] (0, 0))) =
    (if selected = OS_TASK_ID_IDLE then OS_TRACE_SELECT_IDLE
     else if E = {} then OS_TRACE_SELECT_EXCLUDED_FALLBACK
     else if E = {s} then OS_TRACE_SELECT_ONLY_READY
     else if \<forall>j \<in> E - {s}. absolute_deadline_order (tasks ! s) < absolute_deadline_order (tasks ! j)
     then OS_TRACE_SELECT_DEADLINE
     else if \<forall>j \<in> E - {s}. absolute_deadline_order (tasks ! s) = absolute_deadline_order (tasks ! j) \<longrightarrow>
       priority (tasks ! s) < priority (tasks ! j)
     then OS_TRACE_SELECT_PRIORITY else OS_TRACE_SELECT_STABLE_TID)"
proof -
  let ?n = "unat task_count" and ?D = OS_TRACE_SELECT_DISPATCH
  let ?p = "\<lambda>i. trace_candidate tasks incumbent ?D i \<and> i \<noteq> unat excluded"
  have n: "?n \<le> 5" "task_count \<le> 255" using count(2) by (simp_all add: word_le_nat_alt)
  have cand: "?p i \<longleftrightarrow> eligible tasks excluded i" if "i < ?n" for i
    using dispatch_candidates [OF ids that] that n by auto
  then have L: "filter ?p [1..<?n] = filter (eligible tasks excluded) [1..<?n]"
    by (intro filter_cong) auto
  have setL: "set (filter (eligible tasks excluded) [1..<?n]) = E"
    by (auto simp: E eligible_set_def)
  have E_less: "i < 255" if "i \<in> E" for i using that n by (auto simp: E eligible_set_def)
  define e where "e = snd (candidate_count_loop tasks incumbent excluded ?D [1..<?n] (0, 0))"
  have "e = length (filter (eligible tasks excluded) [1..<?n])"
    unfolding e_def count_loop_lengths L by simp
  then have e: "e = card E"
    using distinct_card [of "filter (eligible tasks excluded) [1..<?n]"] setL by simp
  have fin: "finite E" using setL by (metis List.finite_set)
  show ?thesis
  proof (cases "selected = OS_TASK_ID_IDLE \<or> E = {}")
    case True
    have "selected = excluded" if "E = {}" "selected \<noteq> OS_TASK_ID_IDLE"
      using select_fallback [OF count(1) n(2)] that sel by (simp add: E split: if_splits)
    moreover have "e = 0" if "E = {}" using e that by simp
    ultimately show ?thesis
      using True unfolding e_def [symmetric] selection_reason_def by (simp split: if_split) blast
  next
    case False
    then obtain i where i: "i \<in> E" "selected = of_nat i"
      "\<forall>j \<in> E. j \<noteq> i \<longrightarrow> edf_key_of (tasks ! i) < edf_key_of (tasks ! j)"
      using select_earliest [OF count(1) n(2), of tasks excluded] unfolding E [symmetric] sel(1)
      by blast
    have si: "s = i" using E_less [OF i(1)] by (simp add: s i(2) unat_of_nat_id)
    show ?thesis
    proof (cases "E = {s}")
      case True
      then have "e = 1" using e by simp
      with True False show ?thesis unfolding e_def [symmetric] selection_reason_def by simp
    next
      case many: False
      have "E - {s} \<noteq> {}" using many i(1) si by auto
      then have big: "\<not> e \<le> 1"
        using e fin i(1) si by (metis One_nat_def card_le_Suc0_iff_eq le_zero_eq
          Diff_eq_empty_iff subset_singleton_iff insert_not_empty subsetI singletonI)
      let ?q = "\<lambda>i. i \<noteq> unat selected \<and> i \<noteq> unat excluded \<and> trace_candidate tasks incumbent ?D i"
      have set_q: "set (filter ?q [1..<?n]) = E - {s}"
        using cand unfolding setL [symmetric] s by auto
      then have "filter ?q [1..<?n] \<noteq> []" using \<open>E - {s} \<noteq> {}\<close> by (metis set_empty)
      then obtain m where m: "m \<in> E - {s}"
        "scan_best (\<lambda>i j. snapshot_outranks (tasks ! i) (tasks ! j)) (filter ?q [1..<?n]) None = Some m"
        "\<forall>j \<in> E - {s}. edf_key_of (tasks ! m) \<le> edf_key_of (tasks ! j)"
        using snapshot.scan_best_least [of "filter ?q [1..<?n]" tasks] unfolding set_q by auto
      have "runner_up_loop tasks selected incumbent excluded ?D [1..<?n] (index_of_best None) =
          index_of_best (Some m)"
        using n m(2) by (subst runner_up_loop_is_scan) auto
      then have run: "runner_up_loop tasks selected incumbent excluded ?D [1..<?n] OS_TASK_ID_INVALID =
          of_nat m" by (simp add: index_of_best_def)
      have m255: "m < 255" using m(1) E_less by auto
      note ru = of_nat_id_small(2) [OF m255] unat_of_nat_id [of m]
      have less: "edf_key_of (tasks ! s) < edf_key_of (tasks ! m)" using i(3) m(1) si by auto
      have le: "absolute_deadline_order (tasks ! m) \<le> absolute_deadline_order (tasks ! j) \<and>
          (absolute_deadline_order (tasks ! m) = absolute_deadline_order (tasks ! j) \<longrightarrow>
             priority (tasks ! m) \<le> priority (tasks ! j))" if "j \<in> E - {s}" for j
        using m(3) that by (intro edf_key_le_cases) auto
      have reason: "selection_reason tasks task_count selected incumbent excluded ?D e =
          (if absolute_deadline_order (tasks ! s) \<noteq> absolute_deadline_order (tasks ! m)
           then OS_TRACE_SELECT_DEADLINE
           else if priority (tasks ! s) \<noteq> priority (tasks ! m)
           then OS_TRACE_SELECT_PRIORITY else OS_TRACE_SELECT_STABLE_TID)"
        using False big run ru m255 by (simp add: selection_reason_def s)
      consider (dl) "absolute_deadline_order (tasks ! s) < absolute_deadline_order (tasks ! m)"
        | (pr) "absolute_deadline_order (tasks ! s) = absolute_deadline_order (tasks ! m)"
            "priority (tasks ! s) < priority (tasks ! m)"
        | (id) "absolute_deadline_order (tasks ! s) = absolute_deadline_order (tasks ! m)"
            "priority (tasks ! s) = priority (tasks ! m)"
        using edf_key_cases [OF less] by blast
      then show ?thesis
      proof cases
        case dl
        then have "\<forall>j \<in> E - {s}. absolute_deadline_order (tasks ! s) < absolute_deadline_order (tasks ! j)"
          using le by (auto intro: less_le_trans)
        moreover have "absolute_deadline_order (tasks ! s) \<noteq> absolute_deadline_order (tasks ! m)"
          using dl by auto
        ultimately show ?thesis using reason False many by (simp add: e_def)
      next
        case pr
        then have "\<forall>j \<in> E - {s}. absolute_deadline_order (tasks ! s) = absolute_deadline_order (tasks ! j) \<longrightarrow>
            priority (tasks ! s) < priority (tasks ! j)"
          using le by (auto intro: less_le_trans)
        moreover have "\<not> (\<forall>j \<in> E - {s}. absolute_deadline_order (tasks ! s) < absolute_deadline_order (tasks ! j))"
          using pr(1) m(1) by auto
        ultimately show ?thesis using pr reason False many by (simp add: e_def)
      next
        case id
        with m(1) reason False many show ?thesis by (auto simp: e_def)
      qed
    qed
  qed
qed

lemma less_three: "i < 3 \<longleftrightarrow> i = 0 \<or> i = 1 \<or> i = 2" for i :: nat
  by arith

theorem selection_reason_true_witness:
  "selection_reason two_jobs 3 2 0 255 OS_TRACE_SELECT_DISPATCH
     (snd (candidate_count_loop two_jobs 0 255 OS_TRACE_SELECT_DISPATCH [1..<unat (3 :: u32)] (0, 0))) =
   OS_TRACE_SELECT_DEADLINE"
proof -
  have ids: "ids_match two_jobs 3"
    unfolding ids_match_def by (auto simp: less_three two_jobs_simps)
  have sel: "os_sched_select (Some two_jobs) 3 255 = 2" by code_simp
  have E: "eligible_set two_jobs 3 255 = {1, 2}"
    by (auto simp: eligible_set_def less_three eligible_def two_jobs_simps)
  have due: "absolute_deadline_order (two_jobs ! 2) = 10" "absolute_deadline_order (two_jobs ! 1) = 20"
    by (simp_all add: two_jobs_simps)
  have set: "{1, 2 :: nat} - {2} = {1}" "{1, 2 :: nat} \<noteq> {2}" "unat (2 :: u8) = 2" by auto
  have "selection_reason two_jobs 3 2 0 255 OS_TRACE_SELECT_DISPATCH
     (snd (candidate_count_loop two_jobs 0 255 OS_TRACE_SELECT_DISPATCH [1..<unat (3 :: u32)] (0, 0))) =
    (if (2 :: u8) = OS_TASK_ID_IDLE then OS_TRACE_SELECT_IDLE
     else if {1, 2 :: nat} = {} then OS_TRACE_SELECT_EXCLUDED_FALLBACK
     else if {1, 2} = {unat (2 :: u8)} then OS_TRACE_SELECT_ONLY_READY
     else if \<forall>j \<in> {1, 2} - {unat (2 :: u8)}. absolute_deadline_order (two_jobs ! unat (2 :: u8)) <
         absolute_deadline_order (two_jobs ! j)
     then OS_TRACE_SELECT_DEADLINE
     else if \<forall>j \<in> {1, 2} - {unat (2 :: u8)}. absolute_deadline_order (two_jobs ! unat (2 :: u8)) =
         absolute_deadline_order (two_jobs ! j) \<longrightarrow>
         priority (two_jobs ! unat (2 :: u8)) < priority (two_jobs ! j)
     then OS_TRACE_SELECT_PRIORITY else OS_TRACE_SELECT_STABLE_TID)"
    by (rule selection_reason_true [OF _ _ ids sel _ E [symmetric] refl]) simp_all
  then show ?thesis unfolding set by (simp add: due due [unfolded One_nat_def])
qed


section \<open>The decision record\<close>

lemma event_valid_selection:
  "os_trace_event_valid OS_TRACE_TASK_SELECT" "os_trace_event_valid OS_TRACE_SELECT_CANDIDATE"
  by (simp_all add: os_trace_event_valid_def)

lemma selection_inputs_shape:
  "\<exists>head. selection_inputs tasks task_count selected incumbent excluded purpose = head #
      map (candidate_input tasks selected incumbent excluded)
        (filter (trace_candidate tasks incumbent purpose) [1..<unat task_count]) \<and>
    in_event head = OS_TRACE_TASK_SELECT \<and> in_flags head = 0 \<and> in_task head = ucast selected \<and>
    in_value0 head = ready_mask tasks task_count"
  by (simp add: selection_inputs_def Let_def inputs_loop_map case_prod_beta)

lemma candidate_input_fields:
  "in_event (candidate_input tasks selected incumbent excluded i) = OS_TRACE_SELECT_CANDIDATE"
  "in_flags (candidate_input tasks selected incumbent excluded i) = 0"
  "in_task (candidate_input tasks selected incumbent excluded i) = of_nat i"
  "ucast (in_value0 (candidate_input tasks selected incumbent excluded i)) OR
     push_bit 32 (ucast (in_value1 (candidate_input tasks selected incumbent excluded i))) =
     absolute_deadline_order (tasks ! i)"
  using join_u64 [of "absolute_deadline_order (tasks ! i)"]
  by (simp_all add: candidate_input_def Let_def)

lemma report_step_keeps:
  assumes "ring_ok r" and "enabled r"
  shows "ring_ok (ring_call_step (Report_Overflow tick) r) \<and>
    enabled (ring_call_step (Report_Overflow tick) r) \<and>
    capacity (ring_call_step (Report_Overflow tick) r) = capacity r"
proof -
  have "enabled (ring_call_step (Report_Overflow tick) r)"
  proof (cases "report_due r")
    case True
    with report_done [OF assms(1) this, of tick] show ?thesis by (auto simp: call_ptr_def)
  next
    case False
    with report_refused [OF this, of tick] assms(2) show ?thesis by (simp add: call_ptr_def)
  qed
  with assms ring_queue.push_invar show ?thesis by (simp add: frame del: ring_call_step.simps)
qed

text \<open>
  A decision is recorded completely. On an open ring of at least five records the batch that
  \<open>os_trace_emit_selection\<close> builds always passes the checks of \<open>os_trace_ring_push_batch\<close>: it
  is one summary record naming the selected task, with a bit for every READY job, followed by
  one record for every candidate in ascending order, and the two value words of a candidate
  record join to its 64-bit absolute deadline.
\<close>

theorem selection_batch_complete:
  assumes "ring_ok r" and "enabled r" and "5 \<le> unat (capacity r)"
    and count: "0 < unat task_count" "unat task_count \<le> 5" and sel: "unat selected < unat task_count"
    and purpose: "purpose \<in> {OS_TRACE_SELECT_DISPATCH, OS_TRACE_SELECT_SYSTICK_PROBE,
      OS_TRACE_SELECT_RUNTIME_CREATE_PROBE}"
    and cands: "cands = filter (trace_candidate tasks incumbent purpose) [1..<unat task_count]"
  shows "\<exists>head rest.
    os_trace_emit_selection tick (Some tasks) task_count selected incumbent excluded purpose r =
      ring_call_step (Emit_Batch tick (Some (head # rest)) (of_nat (length (head # rest))))
        (ring_call_step (Report_Overflow tick) r) \<and>
    \<not> batch_refused (ring_call_step (Report_Overflow tick) r) (Some (head # rest))
        (of_nat (length (head # rest))) \<and>
    in_event head = OS_TRACE_TASK_SELECT \<and> in_task head = ucast selected \<and>
    (\<forall>i < 32. bit (in_value0 head) i \<longleftrightarrow> 1 \<le> i \<and> i < unat task_count \<and>
       state (tasks ! i) = OS_TASK_READY \<and> job_active (tasks ! i)) \<and>
    map in_task rest = map of_nat cands \<and>
    map (\<lambda>x. ucast (in_value0 x) OR push_bit 32 (ucast (in_value1 x))) rest =
      map (\<lambda>i. absolute_deadline_order (tasks ! i)) cands"
proof -
  obtain head where shape: "selection_inputs tasks task_count selected incumbent excluded purpose =
      head # map (candidate_input tasks selected incumbent excluded) cands"
    and head: "in_event head = OS_TRACE_TASK_SELECT" "in_flags head = 0"
      "in_task head = ucast selected" "in_value0 head = ready_mask tasks task_count"
    unfolding cands using selection_inputs_shape by blast
  let ?rest = "map (candidate_input tasks selected incumbent excluded) cands"
  let ?r1 = "ring_call_step (Report_Overflow tick) r"
  have r1: "ring_ok ?r1" "enabled ?r1" "capacity ?r1 = capacity r"
    using report_step_keeps [OF assms(1,2)] by simp_all
  have "length cands \<le> 4" using count(2) length_filter_le [of _ "[1..<unat task_count]"]
    unfolding cands by (intro order_trans [OF length_filter_le]) simp
  then have len5: "length (head # ?rest) \<le> 5" by simp
  have len: "unat (of_nat (length (head # ?rest)) :: u32) = length (head # ?rest)"
    by (rule unat_of_nat32) (use len5 in simp)
  have "batch_refused ?r1 (Some (head # ?rest)) (of_nat (length (head # ?rest))) \<longleftrightarrow>
      list_ex (\<lambda>index. \<not> os_trace_event_valid (in_event ((head # ?rest) ! index)) \<or>
        in_flags ((head # ?rest) ! index) \<noteq> 0) [0..<length (head # ?rest)]"
    using r1 len len5 assms(3) unfolding batch_refused_def
    by (auto simp: ring_ok_def ring_geometry_def word_less_nat_alt word_unat_eq_iff
        simp del: length_Cons ring_call_step.simps)
  also have "\<dots> \<longleftrightarrow> (\<exists>x \<in> set (head # ?rest). \<not> os_trace_event_valid (in_event x) \<or> in_flags x \<noteq> 0)"
    unfolding list_ex_iff set_upt by (metis atLeastLessThan_iff in_set_conv_nth zero_le)
  finally have "\<not> batch_refused ?r1 (Some (head # ?rest)) (of_nat (length (head # ?rest)))"
    using head event_valid_selection by (auto simp: candidate_input_fields)
  moreover have "os_trace_emit_selection tick (Some tasks) task_count selected incumbent excluded purpose r =
      ring_call_step (Emit_Batch tick (Some (head # ?rest)) (of_nat (length (head # ?rest)))) ?r1"
    using count sel purpose
    by (auto simp: os_trace_emit_selection_def shape word_less_nat_alt word_le_nat_alt)
  moreover have "bit (in_value0 head) i \<longleftrightarrow> 1 \<le> i \<and> i < unat task_count \<and>
       state (tasks ! i) = OS_TASK_READY \<and> job_active (tasks ! i)" if "i < 32" for i
    using that by (auto simp: head(4) ready_mask_def ready_mask_loop_bit)
  ultimately show ?thesis
    using head by (intro exI [of _ head] exI [of _ ?rest]) (simp add: candidate_input_fields)
qed

theorem selection_batch_complete_witness:
  "\<exists>r head rest. enabled r \<and>
     os_trace_emit_selection 3 (Some two_jobs) 3 2 0 255 OS_TRACE_SELECT_DISPATCH r =
       ring_call_step (Emit_Batch 3 (Some (head # rest)) (of_nat (length (head # rest))))
         (ring_call_step (Report_Overflow 3) r) \<and>
     in_task head = 2 \<and> map in_task rest = [1, 2]"
proof -
  define r where "r = os_trace_ring_zero
    \<lparr>records := Some (replicate 8 os_trace_record_zero), capacity := 8, enabled := True\<rparr>"
  have "os_trace_ring_init (Some os_trace_ring_zero) 0x20000000 8 = (True, Some r)"
    by (simp add: os_trace_ring_init_def r_def on_ptr_Some)
  then have ok: "ring_ok r" "enabled r" using init_ok by blast+
  have cap: "5 \<le> unat (capacity r)" by (simp add: r_def)
  have c: "[1, 2] = filter (trace_candidate two_jobs 0 OS_TRACE_SELECT_DISPATCH) [1..<unat (3 :: u32)]"
    by code_simp
  show ?thesis
    using selection_batch_complete [OF ok cap _ _ _ _ c, of 2 3 255] ok(2) by fastforce
qed

end
