(* ===== verification/Allocator.thy ===== *)
theory Allocator
  imports Prelude
begin

text \<open>
  The heap allocator: \<open>kernel/src/allocator.c\<close> with the types of
  \<open>kernel/include/aymos_allocator.h\<close>, for the 32-bit target. Block headers live in the arena; the
  heap maps the address of a header to its fields, so a store through a block pointer updates
  one entry. \<open>sizeof(os_memory_block_t)\<close> is 24 on the target.

  Loops that follow block links are \<open>partial_function (option)\<close>: \<open>None\<close> would be a loop that
  never ends. The chain theory shows that after the guards of the code it never is.
\<close>

section \<open>Types\<close>

type_synonym os_memory_owner_t = u16

abbreviation OS_MEMORY_ALIGNMENT :: u32 where "OS_MEMORY_ALIGNMENT \<equiv> 8"
abbreviation OS_MEMORY_OWNER_NONE :: os_memory_owner_t where "OS_MEMORY_OWNER_NONE \<equiv> UINT16_MAX"
abbreviation OS_MEMORY_BLOCK_MARKER :: u32 where "OS_MEMORY_BLOCK_MARKER \<equiv> 0xA94D4F53"
abbreviation sizeof_block :: u32 where "sizeof_block \<equiv> 24"

record os_memory_block =
  marker :: u32
  block_capacity :: u32
  block_next :: u32
  block_previous :: u32
  block_owner :: os_memory_owner_t
  block_allocated :: u8
  reserved :: "u8 list"

record os_memory_stats_t =
  st_heap_bytes :: u32
  st_payload_capacity_bytes :: u32
  st_allocated_bytes :: u32
  st_free_bytes :: u32
  st_largest_free_block_bytes :: u32
  st_high_watermark_bytes :: u32
  st_allocated_blocks :: u32
  st_free_blocks :: u32
  st_successful_allocations :: u32
  st_successful_frees :: u32
  st_failed_allocations :: u32
  st_invalid_frees :: u32

record os_allocator =
  heap_begin :: u32
  heap_end :: u32
  first_block :: u32
  next_fit :: u32
  allocated_bytes :: u32
  high_watermark_bytes :: u32
  successful_allocations :: u32
  successful_frees :: u32
  failed_allocations :: u32
  invalid_frees :: u32
  cookie :: u32
  initialized :: bool

type_synonym os_heap = "u32 \<Rightarrow> os_memory_block"

definition os_allocator_zero :: os_allocator where
  "os_allocator_zero = \<lparr>heap_begin = 0, heap_end = 0, first_block = 0, next_fit = 0,
     allocated_bytes = 0, high_watermark_bytes = 0, successful_allocations = 0,
     successful_frees = 0, failed_allocations = 0, invalid_frees = 0, cookie = 0,
     initialized = False\<rparr>"

section \<open>Helpers\<close>

text \<open>The out-parameter of \<open>align_up_size\<close> is the second result.\<close>

definition align_up_size :: "u32 \<Rightarrow> bool \<times> u32" where
  "align_up_size v =
     (if v > UINT32_MAX - (OS_MEMORY_ALIGNMENT - 1) then (False, 0)
      else let aligned = (v + (OS_MEMORY_ALIGNMENT - 1)) AND NOT (OS_MEMORY_ALIGNMENT - 1)
           in (aligned \<noteq> 0, aligned))"

definition align_up_address :: "u32 \<Rightarrow> u32" where
  "align_up_address v =
     (if v > UINT32_MAX - (OS_MEMORY_ALIGNMENT - 1) then UINT32_MAX
      else (v + (OS_MEMORY_ALIGNMENT - 1)) AND NOT (OS_MEMORY_ALIGNMENT - 1))"

definition align_down_address :: "u32 \<Rightarrow> u32" where
  "align_down_address v = v AND NOT (OS_MEMORY_ALIGNMENT - 1)"

definition block_marker :: "os_allocator \<Rightarrow> u32 \<Rightarrow> u32" where
  "block_marker a block = cookie a XOR block XOR OS_MEMORY_BLOCK_MARKER"

definition address_can_hold_block :: "os_allocator \<Rightarrow> u32 \<Rightarrow> bool" where
  "address_can_hold_block a address \<longleftrightarrow>
     address \<ge> heap_begin a \<and> address AND (OS_MEMORY_ALIGNMENT - 1) = 0 \<and>
     address \<le> heap_end a \<and> heap_end a - address \<ge> sizeof_block"

definition reserved_bytes_clear :: "os_memory_block \<Rightarrow> bool" where
  "reserved_bytes_clear blk \<longleftrightarrow> list_all (\<lambda>index. reserved blk ! index = 0) [0..<5]"

definition payload_address :: "u32 \<Rightarrow> u32" where
  "payload_address block = block + sizeof_block"

definition set_free :: "os_memory_block \<Rightarrow> os_memory_block" where
  "set_free blk = blk\<lparr>block_owner := OS_MEMORY_OWNER_NONE, block_allocated := 0,
     reserved := replicate 5 0\<rparr>"

section \<open>Validation\<close>

definition maximum_blocks :: "os_allocator \<Rightarrow> u32" where
  "maximum_blocks a = (heap_end a - heap_begin a) div (sizeof_block + OS_MEMORY_ALIGNMENT)"

text \<open>The checks on one block; \<open>visited\<close> is the counter after its increment.\<close>

definition block_corrupt ::
  "os_allocator \<Rightarrow> os_heap \<Rightarrow> u32 \<Rightarrow> u32 \<Rightarrow> nat \<Rightarrow> bool" where
  "block_corrupt a H block previous visited \<longleftrightarrow>
     visited > unat (maximum_blocks a) \<or> \<not> address_can_hold_block a block \<or>
     marker (H block) \<noteq> block_marker a block \<or> block_previous (H block) \<noteq> previous \<or>
     (block_allocated (H block) \<noteq> 0 \<and> block_allocated (H block) \<noteq> 1) \<or>
     \<not> reserved_bytes_clear (H block) \<or>
     block_capacity (H block) AND (OS_MEMORY_ALIGNMENT - 1) \<noteq> 0 \<or>
     block_capacity (H block) > heap_end a - block - sizeof_block \<or>
     (block_allocated (H block) = 0 \<and> block_owner (H block) \<noteq> OS_MEMORY_OWNER_NONE) \<or>
     (block_allocated (H block) \<noteq> 0 \<and> block_owner (H block) = OS_MEMORY_OWNER_NONE)"

definition link_corrupt :: "os_allocator \<Rightarrow> os_heap \<Rightarrow> u32 \<Rightarrow> bool" where
  "link_corrupt a H block =
     (let expected_next = block + sizeof_block + block_capacity (H block)
      in if expected_next = heap_end a then block_next (H block) \<noteq> 0
         else \<not> address_can_hold_block a expected_next \<or> block_next (H block) \<noteq> expected_next)"

text \<open>
  The walk over the chain. \<open>visited\<close> never exceeds \<open>maximum_blocks + 1\<close>, so it is a natural
  number here, and it bounds the recursion.
\<close>

function chain_valid_loop ::
  "os_allocator \<Rightarrow> os_heap \<Rightarrow> u32 \<Rightarrow> u32 \<Rightarrow> bool \<Rightarrow> u32 \<Rightarrow> nat \<Rightarrow> bool" where
  "chain_valid_loop a H block previous found_next_fit computed visited =
     (if block = 0 then
        found_next_fit \<and> computed = allocated_bytes a \<and>
        high_watermark_bytes a \<ge> allocated_bytes a
      else if block_corrupt a H block previous (visited + 1) then False
      else if link_corrupt a H block then False
      else if block_allocated (H block) \<noteq> 0 \<and> computed > UINT32_MAX - block_capacity (H block)
      then False
      else chain_valid_loop a H (block_next (H block)) block
             (found_next_fit \<or> block = next_fit a)
             (if block_allocated (H block) \<noteq> 0 then computed + block_capacity (H block) else computed)
             (visited + 1))"
  by pat_completeness auto
termination
  by (relation "measure (\<lambda>(a, _, _, _, _, _, visited). unat (maximum_blocks a) - visited)")
    (auto simp: block_corrupt_def)

declare chain_valid_loop.simps [simp del]

definition block_chain_valid :: "os_allocator option \<Rightarrow> os_heap \<Rightarrow> bool" where
  "block_chain_valid allocator H = (case allocator of None \<Rightarrow> False | Some a \<Rightarrow>
     if \<not> initialized a \<or> heap_begin a = 0 \<or> heap_end a = 0 \<or> first_block a = 0 \<or> next_fit a = 0
     then False
     else if heap_begin a \<ge> heap_end a \<or> heap_begin a AND (OS_MEMORY_ALIGNMENT - 1) \<noteq> 0 \<or>
             heap_end a AND (OS_MEMORY_ALIGNMENT - 1) \<noteq> 0 \<or> first_block a \<noteq> heap_begin a \<or>
             \<not> address_can_hold_block a (next_fit a)
     then False
     else chain_valid_loop a H (first_block a) 0 False 0 0)"

definition os_allocator_validate :: "os_allocator option \<Rightarrow> os_heap \<Rightarrow> bool" where
  "os_allocator_validate allocator H = block_chain_valid allocator H"

section \<open>Initialisation\<close>

definition os_allocator_init ::
  "os_allocator option \<Rightarrow> os_heap \<Rightarrow> u32 \<Rightarrow> u32 \<Rightarrow> bool \<times> os_allocator option \<times> os_heap" where
  "os_allocator_init allocator H arena arena_size =
     (if allocator = None then (False, None, H)
      else if arena = 0 \<or> arena_size < OS_MEMORY_ALIGNMENT then (False, Some os_allocator_zero, H)
      else if arena_size > UINT32_MAX - arena then (False, Some os_allocator_zero, H)
      else
        let raw_begin = arena; raw_end = arena + arena_size;
            begin_at = align_up_address raw_begin; end_at = align_down_address raw_end
        in if begin_at < raw_begin \<or> end_at > raw_end \<or> end_at \<le> begin_at \<or>
              end_at - begin_at < sizeof_block + OS_MEMORY_ALIGNMENT
           then (False, Some os_allocator_zero, H)
           else
             let a = os_allocator_zero
                   \<lparr>heap_begin := begin_at, heap_end := end_at,
                    cookie := begin_at XOR end_at XOR OS_MEMORY_BLOCK_MARKER\<rparr>;
                 H1 = H(begin_at := set_free ((H begin_at)
                   \<lparr>marker := block_marker a begin_at,
                    block_capacity := (end_at - begin_at) - sizeof_block,
                    block_next := 0, block_previous := 0\<rparr>));
                 a1 = a\<lparr>first_block := begin_at, next_fit := begin_at, initialized := True\<rparr>
             in if \<not> block_chain_valid (Some a1) H1 then (False, Some os_allocator_zero, H1)
                else (True, Some a1, H1))"

section \<open>Allocation\<close>

text \<open>The search loop: the block it stops at, or 0 when it has come back to its start.\<close>

partial_function (option) alloc_search ::
  "os_allocator \<Rightarrow> os_heap \<Rightarrow> u32 \<Rightarrow> u32 \<Rightarrow> u32 \<Rightarrow> u32 option" where
  "alloc_search a H aligned_size start block =
     (if block_allocated (H block) = 0 \<and> block_capacity (H block) \<ge> aligned_size then Some block
      else
        let block' = (if block_next (H block) \<noteq> 0 then block_next (H block) else first_block a)
        in if block' \<noteq> start then alloc_search a H aligned_size start block' else Some 0)"

text \<open>The body of the search loop for a block that fits: splitting and the new state.\<close>

definition split_block ::
  "os_allocator \<Rightarrow> os_heap \<Rightarrow> u32 \<Rightarrow> u32 \<Rightarrow> os_allocator \<times> os_heap" where
  "split_block a H block aligned_size =
     (let remainder = block_capacity (H block) - aligned_size
      in if remainder \<ge> sizeof_block + OS_MEMORY_ALIGNMENT then
           let split = payload_address block + aligned_size;
               next = block_next (H block);
               H1 = H(split := set_free ((H split)
                 \<lparr>marker := block_marker a split, block_capacity := remainder - sizeof_block,
                  block_next := next, block_previous := block\<rparr>));
               H2 = (if next \<noteq> 0 then H1(next := (H1 next)\<lparr>block_previous := split\<rparr>) else H1);
               H3 = H2(block := (H2 block)\<lparr>block_capacity := aligned_size, block_next := split\<rparr>)
           in (a\<lparr>next_fit := split\<rparr>, H3)
         else
           (a\<lparr>next_fit := (if block_next (H block) \<noteq> 0 then block_next (H block)
                            else first_block a)\<rparr>, H))"

definition alloc_take ::
  "os_allocator \<Rightarrow> os_heap \<Rightarrow> u32 \<Rightarrow> u32 \<Rightarrow> os_memory_owner_t \<Rightarrow> u32 \<times> os_allocator \<times> os_heap" where
  "alloc_take a H block aligned_size owner =
     (let (a1, H1) = split_block a H block aligned_size;
          H2 = H1(block := (H1 block)\<lparr>block_allocated := 1, block_owner := owner\<rparr>);
          total = allocated_bytes a1 + block_capacity (H2 block);
          a2 = a1\<lparr>allocated_bytes := total,
                 high_watermark_bytes := (if total > high_watermark_bytes a1 then total
                                          else high_watermark_bytes a1),
                 successful_allocations := increment_saturating (successful_allocations a1)\<rparr>
      in (if \<not> block_chain_valid (Some a2) H2 then 0 else payload_address block, a2, H2))"

definition os_allocator_alloc ::
  "os_allocator option \<Rightarrow> os_heap \<Rightarrow> u32 \<Rightarrow> os_memory_owner_t \<Rightarrow>
   (u32 \<times> os_allocator option \<times> os_heap) option" where
  "os_allocator_alloc allocator H sz owner = (case allocator of None \<Rightarrow> Some (0, None, H)
   | Some a \<Rightarrow>
     let failed = a\<lparr>failed_allocations := increment_saturating (failed_allocations a)\<rparr>
     in if \<not> initialized a then Some (0, Some a, H)
        else if \<not> block_chain_valid (Some a) H \<or> sz = 0 \<or> owner = OS_MEMORY_OWNER_NONE
        then Some (0, Some failed, H)
        else let (ok, aligned_size) = align_up_size sz
          in if \<not> ok then Some (0, Some failed, H)
             else if next_fit a = 0 then Some (0, Some failed, H)
             else (case alloc_search a H aligned_size (next_fit a) (next_fit a) of
                 None \<Rightarrow> None
               | Some block \<Rightarrow>
                   if block = 0 then Some (0, Some failed, H)
                   else let (p, a2, H2) = alloc_take a H block aligned_size owner
                        in Some (p, Some a2, H2)))"

section \<open>Release\<close>

definition merge_with_next ::
  "os_allocator \<Rightarrow> os_heap \<Rightarrow> u32 \<Rightarrow> os_allocator \<times> os_heap" where
  "merge_with_next a H block =
     (let removed = block_next (H block)
      in if removed = 0 \<or> block_allocated (H block) \<noteq> 0 \<or> block_allocated (H removed) \<noteq> 0
         then (a, H)
         else
           let a1 = (if next_fit a = removed then a\<lparr>next_fit := block\<rparr> else a);
               H1 = H(block := (H block)
                 \<lparr>block_capacity := block_capacity (H block) + (sizeof_block + block_capacity (H removed)),
                  block_next := block_next (H removed)\<rparr>);
               next = block_next (H1 block);
               H2 = (if next \<noteq> 0 then H1(next := (H1 next)\<lparr>block_previous := block\<rparr>) else H1)
           in (a1, H2))"

partial_function (option) coalesce_loop ::
  "os_allocator \<Rightarrow> os_heap \<Rightarrow> u32 \<Rightarrow> (os_allocator \<times> os_heap) option" where
  "coalesce_loop a H block =
     (if block \<noteq> 0 \<and> block_next (H block) \<noteq> 0 then
        if block_allocated (H block) = 0 \<and> block_allocated (H (block_next (H block))) = 0
        then coalesce_loop (fst (merge_with_next a H block)) (snd (merge_with_next a H block)) block
        else coalesce_loop a H (block_next (H block))
      else Some (a, H))"

definition coalesce_all :: "os_allocator \<Rightarrow> os_heap \<Rightarrow> (os_allocator \<times> os_heap) option" where
  "coalesce_all a H = coalesce_loop a H (first_block a)"

partial_function (option) find_payload_loop :: "os_heap \<Rightarrow> u32 \<Rightarrow> u32 \<Rightarrow> u32 option" where
  "find_payload_loop H address block =
     (if block = 0 then Some 0
      else if payload_address block = address then Some block
      else find_payload_loop H address (block_next (H block)))"

definition find_payload_block :: "os_allocator \<Rightarrow> os_heap \<Rightarrow> u32 \<Rightarrow> u32 option" where
  "find_payload_block a H pointer =
     (if pointer AND (OS_MEMORY_ALIGNMENT - 1) \<noteq> 0 \<or> pointer < heap_begin a + sizeof_block \<or>
         pointer \<ge> heap_end a then Some 0
      else find_payload_loop H pointer (first_block a))"

definition os_allocator_free ::
  "os_allocator option \<Rightarrow> os_heap \<Rightarrow> u32 \<Rightarrow> os_memory_owner_t \<Rightarrow>
   (bool \<times> os_allocator option \<times> os_heap) option" where
  "os_allocator_free allocator H pointer owner = (case allocator of None \<Rightarrow> Some (False, None, H)
   | Some a \<Rightarrow>
     let invalid = a\<lparr>invalid_frees := increment_saturating (invalid_frees a)\<rparr>
     in if \<not> initialized a then Some (False, Some a, H)
        else if pointer = 0 then Some (True, Some a, H)
        else if \<not> block_chain_valid (Some a) H \<or> owner = OS_MEMORY_OWNER_NONE
        then Some (False, Some invalid, H)
        else (case find_payload_block a H pointer of None \<Rightarrow> None | Some block \<Rightarrow>
          if block = 0 \<or> block_allocated (H block) = 0 \<or> block_owner (H block) \<noteq> owner
          then Some (False, Some invalid, H)
          else
            let a1 = a\<lparr>allocated_bytes := allocated_bytes a - block_capacity (H block)\<rparr>;
                H1 = H(block := set_free (H block))
            in (case coalesce_all a1 H1 of None \<Rightarrow> None | Some (a2, H2) \<Rightarrow>
                  let a3 = a2\<lparr>successful_frees := increment_saturating (successful_frees a2)\<rparr>
                  in Some (block_chain_valid (Some a3) H2, Some a3, H2))))"

partial_function (option) release_loop ::
  "os_memory_owner_t \<Rightarrow> os_allocator \<Rightarrow> os_heap \<Rightarrow> u32 \<Rightarrow> u32 \<Rightarrow>
   (os_allocator \<times> os_heap \<times> u32) option" where
  "release_loop owner a H block released =
     (if block = 0 then Some (a, H, released)
      else if block_allocated (H block) \<noteq> 0 \<and> block_owner (H block) = owner
      then release_loop owner
             (a\<lparr>allocated_bytes := allocated_bytes a - block_capacity (H block),
                successful_frees := increment_saturating (successful_frees a)\<rparr>)
             (H(block := set_free (H block))) (block_next (H block)) (released + 1)
      else release_loop owner a H (block_next (H block)) released)"

definition os_allocator_release_owner ::
  "os_allocator option \<Rightarrow> os_heap \<Rightarrow> os_memory_owner_t \<Rightarrow>
   (u32 \<times> os_allocator option \<times> os_heap) option" where
  "os_allocator_release_owner allocator H owner = (case allocator of None \<Rightarrow> Some (0, None, H)
   | Some a \<Rightarrow>
     if \<not> initialized a \<or> owner = OS_MEMORY_OWNER_NONE \<or> \<not> block_chain_valid (Some a) H
     then Some (0, Some a, H)
     else (case release_loop owner a H (first_block a) 0 of None \<Rightarrow> None
       | Some (a1, H1, released) \<Rightarrow>
         (case (if released \<noteq> 0 then
                  (case coalesce_all a1 H1 of None \<Rightarrow> None
                   | Some (a2, H2) \<Rightarrow> Some (a2\<lparr>next_fit := first_block a2\<rparr>, H2))
                else Some (a1, H1)) of None \<Rightarrow> None
          | Some (a3, H3) \<Rightarrow>
              Some (if \<not> block_chain_valid (Some a3) H3 then 0 else released, Some a3, H3))))"

section \<open>Inspection\<close>

partial_function (option) stats_loop ::
  "os_heap \<Rightarrow> u32 \<Rightarrow> os_memory_stats_t \<Rightarrow> os_memory_stats_t option" where
  "stats_loop H block st =
     (if block = 0 then Some st
      else
        let st1 = st\<lparr>st_payload_capacity_bytes := st_payload_capacity_bytes st + block_capacity (H block)\<rparr>;
            st2 = (if block_allocated (H block) \<noteq> 0
                   then st1\<lparr>st_allocated_blocks := st_allocated_blocks st1 + 1\<rparr>
                   else st1\<lparr>st_free_blocks := st_free_blocks st1 + 1,
                           st_free_bytes := st_free_bytes st1 + block_capacity (H block),
                           st_largest_free_block_bytes :=
                             (if block_capacity (H block) > st_largest_free_block_bytes st1
                              then block_capacity (H block) else st_largest_free_block_bytes st1)\<rparr>)
        in stats_loop H (block_next (H block)) st2)"

definition os_memory_stats_zero :: os_memory_stats_t where
  "os_memory_stats_zero = \<lparr>st_heap_bytes = 0, st_payload_capacity_bytes = 0, st_allocated_bytes = 0,
     st_free_bytes = 0, st_largest_free_block_bytes = 0, st_high_watermark_bytes = 0,
     st_allocated_blocks = 0, st_free_blocks = 0, st_successful_allocations = 0,
     st_successful_frees = 0, st_failed_allocations = 0, st_invalid_frees = 0\<rparr>"

definition os_allocator_get_stats ::
  "os_allocator option \<Rightarrow> os_heap \<Rightarrow> os_memory_stats_t option \<Rightarrow> (bool \<times> os_memory_stats_t option) option"
where
  "os_allocator_get_stats allocator H stats = (case (allocator, stats) of
     (Some a, Some _) \<Rightarrow>
       if \<not> initialized a \<or> \<not> block_chain_valid (Some a) H then Some (False, stats)
       else
         (case stats_loop H (first_block a) (os_memory_stats_zero
            \<lparr>st_heap_bytes := heap_end a - heap_begin a,
             st_allocated_bytes := allocated_bytes a,
             st_high_watermark_bytes := high_watermark_bytes a,
             st_successful_allocations := successful_allocations a,
             st_successful_frees := successful_frees a,
             st_failed_allocations := failed_allocations a,
             st_invalid_frees := invalid_frees a\<rparr>) of
            None \<Rightarrow> None | Some st \<Rightarrow> Some (True, Some st))
   | _ \<Rightarrow> Some (False, stats))"

partial_function (option) fragments_loop :: "os_heap \<Rightarrow> u32 \<Rightarrow> u32 \<Rightarrow> u32 \<Rightarrow> u32 option" where
  "fragments_loop H aligned_size block count =
     (if block = 0 then Some count
      else fragments_loop H aligned_size (block_next (H block))
        (if block_allocated (H block) = 0 \<and> block_capacity (H block) < aligned_size
         then count + 1 else count))"

definition os_allocator_count_fragments ::
  "os_allocator option \<Rightarrow> os_heap \<Rightarrow> u32 \<Rightarrow> u32 option" where
  "os_allocator_count_fragments allocator H requested_size = (case allocator of None \<Rightarrow> Some 0
   | Some a \<Rightarrow>
     let (ok, aligned_size) = align_up_size requested_size
     in if \<not> initialized a \<or> requested_size = 0 \<or> \<not> ok \<or> \<not> block_chain_valid (Some a) H
        then Some 0
        else fragments_loop H aligned_size (first_block a) 0)"

declare alloc_search.simps [code] coalesce_loop.simps [code] find_payload_loop.simps [code]
  release_loop.simps [code] stats_loop.simps [code] fragments_loop.simps [code]

end
