(* ===== verification/Allocator_Chain.thy ===== *)
theory Allocator_Chain
  imports Allocator
begin

text \<open>
  The chain theory of the allocator. A segment is a list of block addresses that tile a range of
  the arena without gaps, each header intact and linked to its neighbours; \<open>heap_shape\<close> says
  that the whole arena is one segment and that the allocator's own fields agree with it. The
  main lemma is that \<open>block_chain_valid\<close> accepts exactly the heaps with such a shape.
\<close>

section \<open>Alignment and addresses\<close>

lemma unat_and7: "unat ((x :: u32) AND 7) = unat x mod 8"
proof -
  have "x AND 7 = take_bit 3 x" by (simp add: take_bit_eq_mask mask_eq_exp_minus_1)
  then show ?thesis by (simp add: take_bit_eq_mod unat_mod)
qed

lemma aligned8 [nat_guards]: "(x :: u32) AND 7 = 0 \<longleftrightarrow> 8 dvd unat x"
  by (metis unat_and7 dvd_eq_mod_eq_0 unat_eq_0)

lemma unat_sub_le: "unat (b :: u32) \<le> unat a \<Longrightarrow> unat (a - b) = unat a - unat b"
  by (simp add: unat_sub word_le_nat_alt)

lemma can_hold_iff:
  "address_can_hold_block a x \<longleftrightarrow>
     unat (heap_begin a) \<le> unat x \<and> 8 dvd unat x \<and> unat x + 24 \<le> unat (heap_end a)"
proof -
  have "unat (heap_end a - x) = unat (heap_end a) - unat x" if "unat x \<le> unat (heap_end a)"
    using that by (rule unat_sub_le)
  then show ?thesis
    by (auto simp: address_can_hold_block_def aligned8 word_le_nat_alt)
qed

lemma set_free_simps [simp]:
  "marker (set_free blk) = marker blk" "block_capacity (set_free blk) = block_capacity blk"
  "block_next (set_free blk) = block_next blk" "block_previous (set_free blk) = block_previous blk"
  "block_owner (set_free blk) = OS_MEMORY_OWNER_NONE" "block_allocated (set_free blk) = 0"
  "reserved_bytes_clear (set_free blk)"
  by (simp_all add: set_free_def reserved_bytes_clear_def list_all_iff)

section \<open>Segments\<close>

abbreviation cap :: "os_heap \<Rightarrow> u32 \<Rightarrow> nat" where "cap H b \<equiv> unat (block_capacity (H b))"
abbreviation free_block :: "os_heap \<Rightarrow> u32 \<Rightarrow> bool" where "free_block H b \<equiv> block_allocated (H b) = 0"

definition head_or :: "u32 \<Rightarrow> u32 list \<Rightarrow> u32" where
  "head_or nxt bs = (case bs of [] \<Rightarrow> nxt | b # _ \<Rightarrow> b)"

lemma head_or_simps [simp]: "head_or nxt [] = nxt" "head_or nxt (b # bs) = b"
  by (simp_all add: head_or_def)

definition block_ok :: "os_allocator \<Rightarrow> os_heap \<Rightarrow> u32 \<Rightarrow> u32 \<Rightarrow> bool" where
  "block_ok a H previous b \<longleftrightarrow>
     8 dvd unat b \<and> marker (H b) = block_marker a b \<and> block_previous (H b) = previous \<and>
     (block_allocated (H b) = 0 \<or> block_allocated (H b) = 1) \<and> reserved_bytes_clear (H b) \<and>
     8 dvd cap H b \<and> (free_block H b \<longleftrightarrow> block_owner (H b) = OS_MEMORY_OWNER_NONE)"

fun seg :: "os_allocator \<Rightarrow> os_heap \<Rightarrow> u32 \<Rightarrow> nat \<Rightarrow> u32 list \<Rightarrow> u32 \<Rightarrow> nat \<Rightarrow> bool" where
  "seg a H previous pos [] nxt stop \<longleftrightarrow> pos = stop"
| "seg a H previous pos (b # bs) nxt stop \<longleftrightarrow>
     unat b = pos \<and> block_ok a H previous b \<and> block_next (H b) = head_or nxt bs \<and>
     seg a H b (pos + 24 + cap H b) bs nxt stop"

lemma seg_le: "seg a H p pos bs nxt stop \<Longrightarrow> pos + 24 * length bs \<le> stop"
  by (induction bs arbitrary: p pos) fastforce+

lemma seg_sum: "seg a H p pos bs nxt stop \<Longrightarrow> pos + (\<Sum>b\<leftarrow>bs. 24 + cap H b) = stop"
  by (induction bs arbitrary: p pos) fastforce+

lemma seg_range:
  "seg a H p pos bs nxt stop \<Longrightarrow> b \<in> set bs \<Longrightarrow> pos \<le> unat b \<and> unat b + 24 + cap H b \<le> stop"
proof (induction bs arbitrary: p pos)
  case (Cons c bs)
  then show ?case using seg_le [of a H c "pos + 24 + cap H c" bs nxt stop]
    by (auto dest: Cons.IH)
qed simp

lemma seg_sorted: "seg a H p pos bs nxt stop \<Longrightarrow> sorted_wrt (\<lambda>b c. unat b + 24 + cap H b \<le> unat c) bs"
proof (induction bs arbitrary: p pos)
  case (Cons b bs)
  then show ?case by (auto dest: seg_range)
qed simp

lemma seg_distinct: "seg a H p pos bs nxt stop \<Longrightarrow> distinct bs"
proof (induction bs arbitrary: p pos)
  case (Cons b bs)
  then show ?case by (auto dest: seg_range)
qed simp

lemma seg_append:
  "seg a H p pos (xs @ ys) nxt stop \<longleftrightarrow>
     (\<exists>m. seg a H p pos xs (head_or nxt ys) m \<and> seg a H (last (p # xs)) m ys nxt stop)"
  by (induction xs arbitrary: p pos) (auto simp: head_or_def split: list.split)

lemma seg_cong:
  assumes "\<forall>b \<in> set bs. H' b = H b" and "cookie a' = cookie a"
  shows "seg a' H' p pos bs nxt stop = seg a H p pos bs nxt stop"
  using assms by (induction bs arbitrary: p pos) (auto simp: block_ok_def block_marker_def)

lemma seg_block_ok: "seg a H p pos bs nxt stop \<Longrightarrow> b \<in> set bs \<Longrightarrow> \<exists>q. block_ok a H q b"
  by (induction bs arbitrary: p pos) auto

text \<open>Relinking the first block of a segment.\<close>

lemma seg_set_previous:
  assumes "seg a H p pos (c # bs) nxt stop"
  shows "seg a (H(c := (H c)\<lparr>block_previous := q\<rparr>)) q pos (c # bs) nxt stop"
proof -
  let ?H = "H(c := (H c)\<lparr>block_previous := q\<rparr>)"
  have "c \<notin> set bs" using seg_distinct [OF assms] by simp
  then have "seg a ?H c (pos + 24 + cap H c) bs nxt stop = seg a H c (pos + 24 + cap H c) bs nxt stop"
    by (intro seg_cong) auto
  with assms show ?thesis by (auto simp: block_ok_def reserved_bytes_clear_def)
qed

section \<open>The live blocks\<close>

definition live :: "os_heap \<Rightarrow> u32 list \<Rightarrow> (u32 \<times> u32 \<times> os_memory_owner_t) list" where
  "live H bs = map (\<lambda>b. (b, block_capacity (H b), block_owner (H b))) (filter (\<lambda>b. \<not> free_block H b) bs)"

definition live_bytes :: "os_heap \<Rightarrow> u32 list \<Rightarrow> nat" where
  "live_bytes H bs = (\<Sum>(b, c, owner) \<leftarrow> live H bs. unat c)"

lemma live_append [simp]: "live H (xs @ ys) = live H xs @ live H ys"
  by (simp add: live_def)

lemma live_Cons:
  "live H (b # bs) = (if free_block H b then [] else [(b, block_capacity (H b), block_owner (H b))]) @ live H bs"
  by (simp add: live_def)

lemma live_Nil [simp]: "live H [] = []"
  by (simp add: live_def)

lemma live_cong: "\<forall>b \<in> set bs. H' b = H b \<Longrightarrow> live H' bs = live H bs"
  by (simp add: live_def cong: map_cong filter_cong)

lemma live_bytes_simps [simp]:
  "live_bytes H [] = 0" "live_bytes H (xs @ ys) = live_bytes H xs + live_bytes H ys"
  "live_bytes H (b # bs) = (if free_block H b then 0 else cap H b) + live_bytes H bs"
  by (simp_all add: live_bytes_def live_Cons)

lemma live_bytes_le: "live_bytes H bs \<le> (\<Sum>b\<leftarrow>bs. 24 + cap H b)"
  by (induction bs) auto

section \<open>The shape of a heap\<close>

definition arena_ok :: "os_allocator \<Rightarrow> bool" where
  "arena_ok a \<longleftrightarrow> initialized a \<and> 0 < unat (heap_begin a) \<and>
     unat (heap_begin a) < unat (heap_end a) \<and>
     8 dvd unat (heap_begin a) \<and> 8 dvd unat (heap_end a) \<and> first_block a = heap_begin a"

definition heap_shape :: "os_allocator \<Rightarrow> os_heap \<Rightarrow> u32 list \<Rightarrow> bool" where
  "heap_shape a H bs \<longleftrightarrow> arena_ok a \<and>
     seg a H 0 (unat (heap_begin a)) bs 0 (unat (heap_end a)) \<and> next_fit a \<in> set bs \<and>
     unat (allocated_bytes a) = live_bytes H bs \<and>
     unat (allocated_bytes a) \<le> unat (high_watermark_bytes a)"

lemma heap_shape_first: "heap_shape a H bs \<Longrightarrow> \<exists>cs. bs = first_block a # cs"
  by (cases bs) (auto simp: heap_shape_def arena_ok_def word_unat_eq_iff)

lemma heap_shape_nonzero: "heap_shape a H bs \<Longrightarrow> b \<in> set bs \<Longrightarrow> b \<noteq> 0"
  by (auto simp: heap_shape_def arena_ok_def dest: seg_range)

lemma unat_maximum_blocks:
  "arena_ok a \<Longrightarrow> unat (maximum_blocks a) = (unat (heap_end a) - unat (heap_begin a)) div 32"
  by (simp add: maximum_blocks_def unat_div unat_sub_le arena_ok_def)


section \<open>What the validator accepts\<close>

lemma block_corrupt_iff:
  assumes "unat (heap_begin a) \<le> unat b" and "unat b \<le> unat (heap_end a)"
  shows "block_corrupt a H b p v \<longleftrightarrow> \<not> (v \<le> unat (maximum_blocks a) \<and> block_ok a H p b \<and>
    unat b + 24 + cap H b \<le> unat (heap_end a))"
proof (cases "address_can_hold_block a b")
  case False
  then show ?thesis using assms by (auto simp: block_corrupt_def can_hold_iff block_ok_def)
next
  case True
  then have "unat b + 24 \<le> unat (heap_end a)" by (simp add: can_hold_iff)
  then have "unat (heap_end a - b - 24) = unat (heap_end a) - unat b - 24"
    by (simp add: unat_sub_le)
  then have "block_capacity (H b) > heap_end a - b - 24 \<longleftrightarrow>
      \<not> unat b + 24 + cap H b \<le> unat (heap_end a)"
    using \<open>unat b + 24 \<le> unat (heap_end a)\<close> by (auto simp: word_less_nat_alt)
  with True show ?thesis
    by (auto simp: block_corrupt_def can_hold_iff block_ok_def aligned8)
qed

lemma link_corrupt_iff:
  assumes "unat (heap_begin a) \<le> unat b" and "block_ok a H p b"
    and "unat b + 24 + cap H b \<le> unat (heap_end a)"
  shows "link_corrupt a H b \<longleftrightarrow>
    \<not> (if unat b + 24 + cap H b = unat (heap_end a) then block_next (H b) = 0
       else unat b + 24 + cap H b + 24 \<le> unat (heap_end a) \<and>
         unat (block_next (H b)) = unat b + 24 + cap H b)"
proof -
  let ?e = "b + 24 + block_capacity (H b)"
  have e: "unat ?e = unat b + 24 + cap H b"
    using assms(3) unat_less_2p(3) [of "heap_end a"] by (simp add: unat_word_ariths)
  have "8 dvd unat ?e" using assms(2) unfolding e by (auto simp: block_ok_def)
  then show ?thesis
    using assms(1) e by (auto simp: link_corrupt_def Let_def can_hold_iff word_unat_eq_iff)
qed

text \<open>Walking over a segment that reaches the end of the arena accumulates its live bytes.\<close>

lemma chain_valid_loop_seg:
  assumes "seg a H p pos bs 0 (unat (heap_end a))" and "0 < pos" and "unat (heap_begin a) \<le> pos"
    and "v + length bs \<le> unat (maximum_blocks a)" and "unat c \<le> pos"
  shows "chain_valid_loop a H (head_or 0 bs) p f c v \<longleftrightarrow>
    (f \<or> next_fit a \<in> set bs) \<and> unat (allocated_bytes a) = unat c + live_bytes H bs \<and>
    unat (allocated_bytes a) \<le> unat (high_watermark_bytes a)"
  using assms
proof (induction bs arbitrary: p pos f c v)
  case Nil
  then show ?case
    by (auto simp: chain_valid_loop.simps [of a H 0] word_unat_eq_iff word_le_nat_alt)
next
  case (Cons b bs)
  let ?top = "unat (heap_end a)"
  have b: "unat b = pos" "block_ok a H p b" "block_next (H b) = head_or 0 bs"
    and tail: "seg a H b (pos + 24 + cap H b) bs 0 ?top" using Cons.prems(1) by auto
  have fits: "pos + 24 + cap H b \<le> ?top" using seg_le [OF tail] by simp
  have "b \<noteq> 0" using Cons.prems(2) b(1) by auto
  have nc: "\<not> block_corrupt a H b p (v + 1)"
    using block_corrupt_iff [of a b H p "v + 1"] Cons.prems(3,4) b fits by auto
  have "bs = [] \<longleftrightarrow> pos + 24 + cap H b = ?top"
    using tail seg_le [OF tail] by (cases bs) auto
  moreover have "unat (hd bs) = pos + 24 + cap H b \<and> pos + 24 + cap H b + 24 \<le> ?top" if "bs \<noteq> []"
    using that tail seg_le [OF tail] by (cases bs) auto
  ultimately have nl: "\<not> link_corrupt a H b"
    using link_corrupt_iff [of a b H p] Cons.prems(3) b fits by (cases bs) auto
  let ?c = "if block_allocated (H b) \<noteq> 0 then c + block_capacity (H b) else c"
  have lt: "unat c + cap H b < 2 ^ 32"
    using Cons.prems(5) fits unat_less_2p(3) [of "heap_end a"] by simp
  then have no: "\<not> c > UINT32_MAX - block_capacity (H b)" by (simp add: gt_max32_iff)
  have c: "unat ?c = unat c + (if free_block H b then 0 else cap H b)"
    using lt by (simp add: unat_add32)
  have "chain_valid_loop a H (head_or 0 (b # bs)) p f c v =
      chain_valid_loop a H (head_or 0 bs) b (f \<or> b = next_fit a) ?c (v + 1)"
    using \<open>b \<noteq> 0\<close> nc nl no b(3) by (simp add: chain_valid_loop.simps [of a H b])
  also have "\<dots> \<longleftrightarrow> ((f \<or> b = next_fit a) \<or> next_fit a \<in> set bs) \<and>
      unat (allocated_bytes a) = unat ?c + live_bytes H bs \<and>
      unat (allocated_bytes a) \<le> unat (high_watermark_bytes a)"
    using Cons.prems(3,4,5) c by (intro Cons.IH [OF tail]) auto
  finally show ?case unfolding c by auto
qed

text \<open>Conversely, an accepted walk has gone over a segment.\<close>

lemma chain_valid_loop_sound:
  assumes "chain_valid_loop a H b p f c v" and "unat (heap_begin a) \<le> pos" and "0 < pos"
    and "b \<noteq> 0 \<longrightarrow> unat b = pos \<and> pos \<le> unat (heap_end a)" and "b = 0 \<longrightarrow> pos = unat (heap_end a)"
    and "v \<le> unat (maximum_blocks a)"
  shows "\<exists>bs. seg a H p pos bs 0 (unat (heap_end a)) \<and> b = head_or 0 bs \<and>
    v + length bs \<le> unat (maximum_blocks a)"
  using assms
proof (induction a H b p f c v arbitrary: pos rule: chain_valid_loop.induct)
  case (1 a H b p f c v)
  let ?top = "unat (heap_end a)"
  show ?case
  proof (cases "b = 0")
    case True
    with "1.prems" show ?thesis by (intro exI [of _ "[]"]) simp
  next
    case False
    have step: "\<not> block_corrupt a H b p (v + 1)" "\<not> link_corrupt a H b"
      "\<not> (block_allocated (H b) \<noteq> 0 \<and> c > UINT32_MAX - block_capacity (H b))"
      "chain_valid_loop a H (block_next (H b)) b (f \<or> b = next_fit a)
        (if block_allocated (H b) \<noteq> 0 then c + block_capacity (H b) else c) (v + 1)"
      using "1.prems"(1) False by (simp_all add: chain_valid_loop.simps [of a H b] split: if_splits)
    have pos: "unat b = pos" "pos \<le> ?top" using "1.prems"(4) False by auto
    have blk: "v + 1 \<le> unat (maximum_blocks a)" "block_ok a H p b" "pos + 24 + cap H b \<le> ?top"
      using step(1) block_corrupt_iff [of a b H p "v + 1"] "1.prems"(2) pos by auto
    have link: "if pos + 24 + cap H b = ?top then block_next (H b) = 0
       else pos + 24 + cap H b + 24 \<le> ?top \<and> unat (block_next (H b)) = pos + 24 + cap H b"
      using step(2) link_corrupt_iff [of a b H p] "1.prems"(2) pos blk by (simp split: if_splits)
    have "\<exists>bs. seg a H b (pos + 24 + cap H b) bs 0 ?top \<and> block_next (H b) = head_or 0 bs \<and>
        (v + 1) + length bs \<le> unat (maximum_blocks a)"
      using link "1.prems"(2) blk(1)
      by (intro "1.IH" [OF False step(1-3) step(4)]) (auto split: if_splits)
    then obtain bs where "seg a H b (pos + 24 + cap H b) bs 0 ?top" "block_next (H b) = head_or 0 bs"
      "(v + 1) + length bs \<le> unat (maximum_blocks a)" by blast
    with pos blk show ?thesis by (intro exI [of _ "b # bs"]) simp
  qed
qed

lemma block_chain_valid_iff:
  "block_chain_valid (Some a) H \<longleftrightarrow>
     (\<exists>bs. heap_shape a H bs \<and> length bs \<le> unat (maximum_blocks a))"
proof
  assume valid: "block_chain_valid (Some a) H"
  then have arena: "arena_ok a" "first_block a \<noteq> 0"
    and run: "chain_valid_loop a H (first_block a) 0 False 0 0"
    by (auto simp: block_chain_valid_def arena_ok_def aligned8 word_less_nat_alt word_le_nat_alt
      unat_gt_0 split: if_splits)
  have first: "unat (first_block a) = unat (heap_begin a)" using arena(1) by (simp add: arena_ok_def)
  obtain bs where bs: "seg a H 0 (unat (heap_begin a)) bs 0 (unat (heap_end a))"
    "first_block a = head_or 0 bs" "length bs \<le> unat (maximum_blocks a)"
    using chain_valid_loop_sound [OF run, of "unat (heap_begin a)"] arena first
    by (auto simp: arena_ok_def)
  have "next_fit a \<in> set bs \<and> unat (allocated_bytes a) = live_bytes H bs \<and>
      unat (allocated_bytes a) \<le> unat (high_watermark_bytes a)"
    using chain_valid_loop_seg [OF bs(1), of 0 0 False] run bs(2,3) arena(1)
    by (simp add: arena_ok_def)
  with bs arena show "\<exists>bs. heap_shape a H bs \<and> length bs \<le> unat (maximum_blocks a)"
    by (auto simp: heap_shape_def)
next
  assume "\<exists>bs. heap_shape a H bs \<and> length bs \<le> unat (maximum_blocks a)"
  then obtain bs where shape: "heap_shape a H bs" and len: "length bs \<le> unat (maximum_blocks a)"
    by blast
  then have arena: "arena_ok a" and seg: "seg a H 0 (unat (heap_begin a)) bs 0 (unat (heap_end a))"
    and nf: "next_fit a \<in> set bs" by (auto simp: heap_shape_def)
  have first: "first_block a = head_or 0 bs" "first_block a \<in> set bs"
    using heap_shape_first [OF shape] by auto
  then have "chain_valid_loop a H (first_block a) 0 False 0 0"
    using chain_valid_loop_seg [OF seg, of 0 0 False] shape len arena
    by (auto simp: heap_shape_def arena_ok_def)
  moreover have "address_can_hold_block a (next_fit a)"
    using seg_range [OF seg nf] seg_block_ok [OF seg nf] by (auto simp: can_hold_iff block_ok_def)
  moreover have "first_block a \<noteq> 0" "next_fit a \<noteq> 0"
    using heap_shape_nonzero [OF shape] first(2) nf by blast+
  ultimately show "block_chain_valid (Some a) H"
    using arena
    by (auto simp: block_chain_valid_def arena_ok_def aligned8 word_le_nat_alt)
qed


section \<open>The invariant of the operations\<close>

text \<open>The operations keep a little more than the validator checks: no block is empty.\<close>

definition heap_inv :: "os_allocator \<Rightarrow> os_heap \<Rightarrow> u32 list \<Rightarrow> bool" where
  "heap_inv a H bs \<longleftrightarrow> heap_shape a H bs \<and> (\<forall>b \<in> set bs. 8 \<le> cap H b)"

lemma seg_length:
  "seg a H p pos bs nxt stop \<Longrightarrow> \<forall>b \<in> set bs. 8 \<le> cap H b \<Longrightarrow> pos + 32 * length bs \<le> stop"
  by (induction bs arbitrary: p pos) fastforce+

lemma heap_inv_valid:
  assumes "heap_inv a H bs"
  shows "block_chain_valid (Some a) H"
proof -
  have "unat (heap_begin a) + 32 * length bs \<le> unat (heap_end a)"
    using assms by (auto simp: heap_inv_def heap_shape_def intro: seg_length)
  then have "length bs \<le> unat (maximum_blocks a)"
    using assms by (simp add: unat_maximum_blocks heap_inv_def heap_shape_def)
  with assms show ?thesis by (auto simp: block_chain_valid_iff heap_inv_def)
qed

lemma seg_replace:
  assumes "seg a H p pos bs nxt stop"
    and "\<And>q. block_ok a H q b \<Longrightarrow> block_ok a (H(b := blk)) q b"
    and "block_next blk = block_next (H b)" and "block_capacity blk = block_capacity (H b)"
  shows "seg a (H(b := blk)) p pos bs nxt stop"
  using assms(1)
proof (induction bs arbitrary: p pos)
  case (Cons c bs)
  let ?H = "H(b := blk)"
  have "block_ok a ?H p c" if "block_ok a H p c"
    using that assms(2) by (cases "c = b") (auto simp: block_ok_def)
  moreover have "cap ?H c = cap H c" "block_next (?H c) = block_next (H c)"
    using assms(3,4) by simp_all
  moreover have "seg a ?H c (pos + 24 + cap H c) bs nxt stop"
    by (rule Cons.IH) (use Cons.prems in simp)
  ultimately show ?case using Cons.prems unfolding seg.simps by metis
qed simp

definition calm :: "os_heap \<Rightarrow> u32 list \<Rightarrow> bool" where
  "calm H bs \<longleftrightarrow> successively (\<lambda>b c. \<not> (free_block H b \<and> free_block H c)) bs"

lemma calm_cong:
  "(\<And>b. b \<in> set bs \<Longrightarrow> block_allocated (H' b) = block_allocated (H b)) \<Longrightarrow> calm H' bs = calm H bs"
  by (simp add: calm_def cong: successively_cong)

lemma calm_simps [simp]:
  "calm H []" "calm H [b]"
  "calm H (b # c # bs) \<longleftrightarrow> \<not> (free_block H b \<and> free_block H c) \<and> calm H (c # bs)"
  by (simp_all add: calm_def)

lemma calm_append:
  "calm H (xs @ b # c # ys) \<longleftrightarrow>
     calm H (xs @ [b]) \<and> \<not> (free_block H b \<and> free_block H c) \<and> calm H (c # ys)"
  by (auto simp: calm_def successively_append_iff)

text \<open>A calm heap without live blocks is one free block.\<close>

lemma calm_all_free:
  "calm H bs \<Longrightarrow> live H bs = [] \<Longrightarrow> bs = [] \<or> (\<exists>b. bs = [b])"
  by (cases bs rule: remdups_adj.cases) (auto simp: live_Cons split: if_splits)

end
