(* ===== verification/Allocator_Ops.thy ===== *)
theory Allocator_Ops
  imports Allocator_Chain
begin

text \<open>
  What the allocator's loops and updates do to a well-formed chain: the search is a linear
  search from \<open>next_fit\<close> around the list, splitting inserts a block, merging removes one, and
  none of them changes a live block. Every loop is shown to end.
\<close>

section \<open>Searching\<close>

abbreviation fits :: "os_heap \<Rightarrow> u32 \<Rightarrow> u32 \<Rightarrow> bool" where
  "fits H n b \<equiv> free_block H b \<and> n \<le> block_capacity (H b)"

lemma alloc_search_run:
  assumes "seg a H p pos (b # ys) nxt stop" and "start \<notin> set ys" and "0 \<notin> set (b # ys)"
  shows "alloc_search a H n start b =
    (case find (fits H n) (b # ys) of Some c \<Rightarrow> Some c
     | None \<Rightarrow> let e = (if nxt \<noteq> 0 then nxt else first_block a)
               in if e \<noteq> start then alloc_search a H n start e else Some 0)"
  using assms
proof (induction ys arbitrary: p pos b)
  case Nil
  then show ?case by (simp add: alloc_search.simps [of a H n start b] Let_def)
next
  case (Cons c ys)
  have nx: "block_next (H b) = c" "c \<noteq> 0" "c \<noteq> start" using Cons.prems by auto
  show ?case
  proof (cases "fits H n b")
    case True
    then show ?thesis by (simp add: alloc_search.simps [of a H n start b])
  next
    case False
    then have "alloc_search a H n start b = alloc_search a H n start c"
      using nx by (auto simp: alloc_search.simps [of a H n start b] Let_def)
    moreover have "seg a H b (pos + 24 + cap H b) (c # ys) nxt stop" using Cons.prems(1) by simp
    ultimately have "alloc_search a H n start b = (case find (fits H n) (c # ys) of Some d \<Rightarrow> Some d
     | None \<Rightarrow> let e = (if nxt \<noteq> 0 then nxt else first_block a)
               in if e \<noteq> start then alloc_search a H n start e else Some 0)"
      using Cons.IH Cons.prems(2,3) by (simp del: seg.simps find.simps)
    moreover have "find (fits H n) (b # c # ys) = find (fits H n) (c # ys)"
      using False by (simp only: find.simps if_False)
    ultimately show ?thesis by (simp only:)
  qed
qed

lemma find_append: "find P (xs @ ys) = (case find P xs of None \<Rightarrow> find P ys | r \<Rightarrow> r)"
  by (induction xs) auto

text \<open>The whole search: the first block that fits in the list rotated to \<open>next_fit\<close>.\<close>

lemma alloc_search_all:
  assumes shape: "heap_shape a H bs" and bs: "bs = pre @ start # post"
  shows "alloc_search a H n start start =
    Some (case find (fits H n) (start # post @ pre) of Some b \<Rightarrow> b | None \<Rightarrow> 0)"
proof -
  have seg: "seg a H 0 (unat (heap_begin a)) bs 0 (unat (heap_end a))"
    using shape by (simp add: heap_shape_def)
  have nz: "0 \<notin> set bs" using heap_shape_nonzero [OF shape] by blast
  obtain m where parts: "seg a H 0 (unat (heap_begin a)) pre start m"
    "seg a H (last (0 # pre)) m (start # post) 0 (unat (heap_end a))"
    using seg unfolding bs seg_append by auto
  have dist: "start \<notin> set post" "start \<notin> set pre" using seg_distinct [OF seg] bs by auto
  obtain cs where first: "bs = first_block a # cs" using heap_shape_first [OF shape] by blast
  have run1: "alloc_search a H n start start =
    (case find (fits H n) (start # post) of Some c \<Rightarrow> Some c
     | None \<Rightarrow> if first_block a \<noteq> start then alloc_search a H n start (first_block a) else Some 0)"
    using alloc_search_run [OF parts(2) dist(1), of n] nz bs
    by (simp add: Let_def split: option.split)
  have rot: "find (fits H n) (start # post @ pre) = (case find (fits H n) (start # post) of
      None \<Rightarrow> find (fits H n) pre | Some c \<Rightarrow> Some c)"
    using find_append [of "fits H n" "start # post" pre] by (simp only: append_Cons)
  show ?thesis
  proof (cases "find (fits H n) (start # post)")
    case (Some c)
    then show ?thesis using run1 unfolding rot by (simp del: find.simps)
  next
    case None
    show ?thesis
    proof (cases pre)
      case Nil
      then have "first_block a = start" using bs first by simp
      then show ?thesis using run1 None Nil unfolding rot by (simp del: find.simps add: find.simps(1))
    next
      case (Cons f pre')
      then have f: "first_block a = f" "f \<noteq> start" using bs first dist by auto
      have "alloc_search a H n start f =
          (case find (fits H n) pre of Some c \<Rightarrow> Some c | None \<Rightarrow> Some 0)"
        using alloc_search_run [of a H 0 "unat (heap_begin a)" f pre' start m start n]
          parts(1) dist nz bs Cons
        by (simp del: seg.simps find.simps add: Let_def split: option.split)
      with run1 None f show ?thesis unfolding rot by (simp del: find.simps split: option.splits)
    qed
  qed
qed

section \<open>Splitting\<close>

lemma unat_end_fits:
  "unat (b :: u32) + 24 + n \<le> unat (e :: u32) \<Longrightarrow> unat (b + 24) = unat b + 24"
  using unat_less_2p(3) [of e] by (simp add: unat_word_ariths)

definition split_at :: "u32 \<Rightarrow> u32 \<Rightarrow> u32" where
  "split_at b n = payload_address b + n"

text \<open>Chain, live blocks and links after the block \<open>b\<close> has been prepared for \<open>n\<close> bytes.\<close>

lemma split_block_chain:
  assumes seg: "seg a H 0 lo (xs @ b # ys) 0 (unat (heap_end a))" and "0 < lo"
    and big: "\<forall>c \<in> set (xs @ b # ys). 8 \<le> cap H c"
    and fit: "fits H n b" and n: "8 dvd unat n" "8 \<le> unat n"
    and first: "first_block a \<in> set (xs @ b # ys)"
  shows "\<exists>zs H1 nf. split_block a H b n = (a\<lparr>next_fit := nf\<rparr>, H1) \<and>
    seg a H1 0 lo (xs @ b # zs) 0 (unat (heap_end a)) \<and> (\<forall>c \<in> set (xs @ b # zs). 8 \<le> cap H1 c) \<and>
    free_block H1 b \<and> n \<le> block_capacity (H1 b) \<and> cap H1 b < unat n + 32 \<and>
    live H1 xs = live H xs \<and> live H1 zs = live H ys \<and> nf \<in> set (xs @ b # zs) \<and>
    length zs \<le> Suc (length ys) \<and> (unat n + 32 \<le> cap H b \<longrightarrow> cap H1 b = unat n)"
proof (cases "block_capacity (H b) - n \<ge> 32")
  case False
  have le: "unat n \<le> cap H b" using fit by (simp add: word_le_nat_alt)
  then have "cap H b < unat n + 32" using False by (simp add: word_le_nat_alt unat_sub_le)
  moreover have "block_next (H b) \<noteq> 0 \<longrightarrow> block_next (H b) \<in> set ys"
    using seg unfolding seg_append by (cases ys) auto
  ultimately show ?thesis using False seg big fit first
    by (intro exI [of _ ys] exI [of _ H]
        exI [of _ "if block_next (H b) \<noteq> 0 then block_next (H b) else first_block a"])
      (auto simp: split_block_def Let_def)
next
  case True
  let ?s = "payload_address b + n" and ?e = "unat (heap_end a)"
  obtain m where m: "seg a H 0 lo xs b m" "seg a H (last (0 # xs)) m (b # ys) 0 ?e"
    using seg unfolding seg_append by auto
  have b: "unat b = m" "block_ok a H (last (0 # xs)) b" "block_next (H b) = head_or 0 ys"
    and tail: "seg a H b (m + 24 + cap H b) ys 0 ?e"
    using m(2) by auto
  have le: "unat n + 32 \<le> cap H b"
    using True fit by (simp add: word_le_nat_alt unat_sub_le)
  have fits_end: "m + 24 + cap H b \<le> ?e" using seg_le [OF tail] by simp
  have e32: "?e < 2 ^ 32" using unat_less_2p(3) [of "heap_end a"] by simp
  have s: "unat ?s = m + 24 + unat n"
    using b(1) le fits_end e32 by (simp add: payload_address_def unat_word_ariths)
  have rem: "unat (block_capacity (H b) - n - 24) = cap H b - unat n - 24"
    using le by (simp add: unat_sub_le)
  have nz: "0 \<notin> set ys" using seg_range [OF tail] assms(2) seg_le [OF m(1)] by fastforce
  have fresh: "?s \<noteq> b" "?s \<notin> set xs" "?s \<notin> set ys" "b \<notin> set xs" "b \<notin> set ys" "set xs \<inter> set ys = {}"
    using seg_distinct [OF seg] s b(1) n(2) seg_range [OF tail] seg_range [OF m(1)] le by fastforce+
  define nx where "nx = block_next (H b)"
  define sb where "sb = set_free ((H ?s)\<lparr>marker := block_marker a ?s,
    block_capacity := block_capacity (H b) - n - 24, block_next := nx, block_previous := b\<rparr>)"
  define H1 where "H1 = H(?s := sb)"
  define H2 where "H2 = (if nx \<noteq> 0 then H1(nx := (H1 nx)\<lparr>block_previous := ?s\<rparr>) else H1)"
  define H3 where "H3 = H2(b := (H2 b)\<lparr>block_capacity := n, block_next := ?s\<rparr>)"
  have split: "split_block a H b n = (a\<lparr>next_fit := ?s\<rparr>, H3)"
    unfolding split_block_def Let_def H3_def H2_def H1_def sb_def nx_def
    by (rule if_P) (use True in simp)
  have nx_in: "nx = head_or 0 ys" using b(3) nx_def by simp
  have nx_set: "nx \<in> set ys" if "nx \<noteq> 0" using that nx_in by (cases ys) auto
  have H3_xs: "\<forall>c \<in> set xs. H3 c = H c"
    using fresh nx_set by (auto simp: H3_def H2_def H1_def)
  have H3_s: "H3 ?s = sb" using fresh nx_set by (auto simp: H3_def H2_def H1_def)
  have H3_b: "H3 b = (H b)\<lparr>block_capacity := n, block_next := ?s\<rparr>"
    using fresh nx_set by (auto simp: H3_def H2_def H1_def)
  have H3_ys: "block_capacity (H3 c) = block_capacity (H c) \<and> block_owner (H3 c) = block_owner (H c) \<and>
      block_allocated (H3 c) = block_allocated (H c)" if "c \<in> set ys" for c
    using that fresh by (auto simp: H3_def H2_def H1_def)
  have segxs: "seg a H3 0 lo xs b m" using m(1) seg_cong [of xs H3 H a a] H3_xs by simp
  have segys: "seg a H3 ?s (m + 24 + cap H b) ys 0 ?e"
  proof (cases ys)
    case Nil
    with tail show ?thesis by simp
  next
    case (Cons c ys')
    then have "nx = c" "c \<noteq> 0" using nx_in nz by auto
    then have "H3 d = (H(c := (H c)\<lparr>block_previous := ?s\<rparr>)) d" if "d \<in> set ys" for d
      using that fresh by (auto simp: H3_def H2_def H1_def)
    then have "seg a H3 ?s (m + 24 + cap H b) ys 0 ?e =
        seg a (H(c := (H c)\<lparr>block_previous := ?s\<rparr>)) ?s (m + 24 + cap H b) ys 0 ?e"
      by (intro seg_cong) auto
    with seg_set_previous [of a H b "m + 24 + cap H b" c ys' 0 ?e ?s] tail Cons show ?thesis
      by simp
  qed
  have dvd: "8 dvd m + 24 + unat n" "8 dvd cap H b - unat n - 24"
    using b(1,2) n by (auto simp: block_ok_def)
  have "block_ok a H3 b ?s"
    using dvd s rem
    by (auto simp: block_ok_def H3_s sb_def block_marker_def)
  moreover have pos: "m + 24 + unat n + 24 + cap H3 ?s = m + 24 + cap H b"
    using le rem by (simp add: H3_s sb_def)
  moreover have "block_next (H3 ?s) = head_or 0 ys" by (simp add: H3_s sb_def nx_in)
  ultimately have "seg a H3 b (m + 24 + unat n) (?s # ys) 0 ?e"
    using segys s unfolding seg.simps pos by blast
  moreover have "block_ok a H3 (last (0 # xs)) b"
    using b(2) n(1) by (auto simp: block_ok_def H3_b reserved_bytes_clear_def)
  ultimately have "seg a H3 (last (0 # xs)) m (b # ?s # ys) 0 ?e"
    using b(1) by (simp add: H3_b)
  then have "seg a H3 0 lo (xs @ b # ?s # ys) 0 ?e"
    using segxs unfolding seg_append by auto
  moreover have "\<forall>c \<in> set (xs @ b # ?s # ys). 8 \<le> cap H3 c"
    using big H3_xs H3_ys n(2) rem le by (auto simp: H3_b H3_s sb_def)
  moreover have "live H3 xs = live H xs" using H3_xs by (rule live_cong)
  moreover have "live H3 (?s # ys) = live H ys"
    using H3_ys by (simp add: live_Cons H3_s sb_def) (simp add: live_def cong: map_cong filter_cong)
  ultimately show ?thesis
    using split fit
    by (intro exI [of _ "?s # ys"] exI [of _ H3] exI [of _ ?s]) (simp add: H3_b)
qed


section \<open>Taking a block\<close>

lemma live_bytes_live: "live H' bs' = live H bs \<Longrightarrow> live_bytes H' bs' = live_bytes H bs"
  by (simp add: live_bytes_def)

lemma seg_live_bound:
  "seg a H p pos bs nxt stop \<Longrightarrow> live_bytes H bs \<le> stop - pos"
  using live_bytes_le [of H bs] seg_sum [of a H p pos bs nxt stop] by simp

lemma seg_mark:
  assumes seg: "seg a H p pos (xs @ b # ys) nxt stop" and "owner \<noteq> OS_MEMORY_OWNER_NONE"
    and H': "H' = H(b := (H b)\<lparr>block_allocated := 1, block_owner := owner\<rparr>)"
  shows "seg a H' p pos (xs @ b # ys) nxt stop \<and>
    live H' (xs @ b # ys) = live H xs @ [(b, block_capacity (H b), owner)] @ live H ys"
proof -
  have "b \<notin> set xs" "b \<notin> set ys" using seg_distinct [OF seg] by auto
  then have "live H' xs = live H xs" "live H' ys = live H ys"
    by (auto simp: H' intro!: live_cong)
  moreover have "seg a H' p pos (xs @ b # ys) nxt stop"
    unfolding H'
    by (rule seg_replace [OF seg]) (use assms(2) in \<open>auto simp: block_ok_def reserved_bytes_clear_def\<close>)
  ultimately show ?thesis by (simp add: live_Cons H')
qed

text \<open>Successful allocations, successful frees, failed allocations and invalid frees.\<close>

definition counters_of :: "os_allocator \<Rightarrow> u32 \<times> u32 \<times> u32 \<times> u32" where
  "counters_of a = (successful_allocations a, successful_frees a, failed_allocations a, invalid_frees a)"

lemma alloc_take_spec:
  assumes inv: "heap_inv a H (xs @ b # ys)" and fit: "fits H n b"
    and n: "8 dvd unat n" "8 \<le> unat n" and owner: "owner \<noteq> OS_MEMORY_OWNER_NONE"
  shows "\<exists>zs a' H'. alloc_take a H b n owner = (payload_address b, a', H') \<and>
    heap_inv a' H' (xs @ b # zs) \<and>
    live H' (xs @ b # zs) = live H xs @ [(b, block_capacity (H' b), owner)] @ live H ys \<and>
    unat n \<le> cap H' b \<and> cap H' b < unat n + 32 \<and>
    heap_begin a' = heap_begin a \<and> heap_end a' = heap_end a \<and>
    counters_of a' = (\<lambda>(s, f, e, i). (increment_saturating s, f, e, i)) (counters_of a) \<and>
    length zs \<le> Suc (length ys) \<and> (unat n + 32 \<le> cap H b \<longrightarrow> cap H' b = unat n)"
proof -
  let ?lo = "unat (heap_begin a)" and ?e = "unat (heap_end a)"
  have shape: "heap_shape a H (xs @ b # ys)" using inv by (simp add: heap_inv_def)
  have seg: "seg a H 0 ?lo (xs @ b # ys) 0 ?e" and lo: "0 < ?lo" and arena: "arena_ok a"
    and big: "\<forall>c \<in> set (xs @ b # ys). 8 \<le> cap H c"
    using inv by (auto simp: heap_inv_def heap_shape_def arena_ok_def)
  have first: "first_block a \<in> set (xs @ b # ys)"
    using heap_shape_first [OF shape] by (metis list.set_intros(1))
  obtain zs H1 nf where sp: "split_block a H b n = (a\<lparr>next_fit := nf\<rparr>, H1)"
    "seg a H1 0 ?lo (xs @ b # zs) 0 ?e" "\<forall>c \<in> set (xs @ b # zs). 8 \<le> cap H1 c" "free_block H1 b"
    "n \<le> block_capacity (H1 b)" "cap H1 b < unat n + 32" "live H1 xs = live H xs"
    "live H1 zs = live H ys" "nf \<in> set (xs @ b # zs)"
    "length zs \<le> Suc (length ys)" "unat n + 32 \<le> cap H b \<longrightarrow> cap H1 b = unat n"
    using split_block_chain [OF seg lo big fit n first] by blast
  define H2 where "H2 = H1(b := (H1 b)\<lparr>block_allocated := 1, block_owner := owner\<rparr>)"
  let ?total = "allocated_bytes a + block_capacity (H2 b)"
  define a2 where "a2 = a\<lparr>next_fit := nf, allocated_bytes := ?total,
    high_watermark_bytes := (if ?total > high_watermark_bytes a then ?total else high_watermark_bytes a),
    successful_allocations := increment_saturating (successful_allocations a)\<rparr>"
  have mark: "seg a H2 0 ?lo (xs @ b # zs) 0 ?e"
    "live H2 (xs @ b # zs) = live H xs @ [(b, block_capacity (H2 b), owner)] @ live H ys"
    using seg_mark [OF sp(2) owner H2_def] sp(7,8) by (simp_all add: H2_def)
  have bytes: "live_bytes H2 (xs @ b # zs) = live_bytes H (xs @ b # ys) + cap H2 b"
    using mark(2) fit by (simp add: live_bytes_def live_Cons)
  moreover have "live_bytes H2 (xs @ b # zs) < 2 ^ 32"
    using seg_live_bound [OF mark(1)] unat_less_2p(3) [of "heap_end a"] by simp
  ultimately have total: "unat ?total = live_bytes H2 (xs @ b # zs)"
    using shape by (simp add: heap_shape_def unat_add32)
  have seg2: "seg a2 H2 0 ?lo (xs @ b # zs) 0 ?e"
    using mark(1) seg_cong [of "xs @ b # zs" H2 H2 a2 a] by (simp add: a2_def)
  have "\<forall>c \<in> set (xs @ b # zs). 8 \<le> cap H2 c" using sp(3) by (simp add: H2_def)
  then have inv2: "heap_inv a2 H2 (xs @ b # zs)"
    using seg2 sp(9) arena total
    by (auto simp: heap_inv_def heap_shape_def a2_def arena_ok_def word_less_nat_alt)
  have "alloc_take a H b n owner = (payload_address b, a2, H2)"
  proof -
    have "alloc_take a H b n owner =
        (if \<not> block_chain_valid (Some a2) H2 then 0 else payload_address b, a2, H2)"
      unfolding alloc_take_def sp(1) a2_def H2_def by (simp add: Let_def)
    with heap_inv_valid [OF inv2] show ?thesis by simp
  qed
  moreover have "n \<le> block_capacity (H2 b)" "cap H2 b < unat n + 32" "unat n + 32 \<le> cap H b \<longrightarrow> cap H2 b = unat n"
    using sp(5,6,11) by (simp_all add: H2_def)
  ultimately show ?thesis
    using inv2 mark(2) sp(10)
    by (intro exI [of _ zs] exI [of _ a2] exI [of _ H2]) (simp add: a2_def word_le_nat_alt counters_of_def)
qed

section \<open>Merging\<close>

lemma merge_chain:
  assumes seg: "seg a H 0 lo (xs @ b # r # ys) 0 (unat (heap_end a))" and lo: "0 < lo"
    and both: "free_block H b" "free_block H r"
  shows "\<exists>H'. merge_with_next a H b =
      (if next_fit a = r then a\<lparr>next_fit := b\<rparr> else a, H') \<and>
    seg a H' 0 lo (xs @ b # ys) 0 (unat (heap_end a)) \<and>
    (\<forall>c. block_allocated (H' c) = block_allocated (H c)) \<and>
    (\<forall>c \<in> set (xs @ b # ys). cap H c \<le> cap H' c) \<and>
    live H' (xs @ b # ys) = live H (xs @ b # r # ys)"
proof -
  let ?e = "unat (heap_end a)"
  obtain m where m: "seg a H 0 lo xs b m" "seg a H (last (0 # xs)) m (b # r # ys) 0 ?e"
    using seg unfolding seg_append by auto
  have b: "unat b = m" "block_ok a H (last (0 # xs)) b" "block_next (H b) = r"
    and r: "unat r = m + 24 + cap H b" "block_ok a H b r" "block_next (H r) = head_or 0 ys"
    and tail: "seg a H r (m + 24 + cap H b + 24 + cap H r) ys 0 ?e"
    using m(2) by auto
  have le: "m + 24 + cap H b + 24 + cap H r \<le> ?e" using seg_le [OF tail] by simp
  then have sum: "unat (block_capacity (H b) + (24 + block_capacity (H r))) = cap H b + 24 + cap H r"
    using unat_less_2p(3) [of "heap_end a"] by (simp add: unat_word_ariths)
  have fresh: "b \<notin> set xs" "b \<notin> set ys" "r \<notin> set xs" "r \<notin> set ys" "b \<noteq> r" "set xs \<inter> set ys = {}"
    using seg_distinct [OF seg] by auto
  have nz: "r \<noteq> 0" "0 \<notin> set ys" using r(1) seg_range [OF tail] by fastforce+
  define nx where "nx = block_next (H r)"
  define H1 where "H1 = H(b := (H b)
    \<lparr>block_capacity := block_capacity (H b) + (24 + block_capacity (H r)), block_next := nx\<rparr>)"
  define H2 where "H2 = (if nx \<noteq> 0 then H1(nx := (H1 nx)\<lparr>block_previous := b\<rparr>) else H1)"
  have nx_set: "nx \<in> set ys" if "nx \<noteq> 0" using that r(3) by (cases ys) (auto simp: nx_def)
  have merge: "merge_with_next a H b = (if next_fit a = r then a\<lparr>next_fit := b\<rparr> else a, H2)"
    using b(3) nz(1) both by (simp add: merge_with_next_def H2_def H1_def nx_def Let_def)
  have H2_xs: "\<forall>c \<in> set xs. H2 c = H c" using fresh nx_set by (auto simp: H2_def H1_def)
  have H2_b: "H2 b = (H b)
    \<lparr>block_capacity := block_capacity (H b) + (24 + block_capacity (H r)), block_next := nx\<rparr>"
    using fresh nx_set by (auto simp: H2_def H1_def)
  have H2_ys: "block_capacity (H2 c) = block_capacity (H c) \<and> block_owner (H2 c) = block_owner (H c)"
    if "c \<in> set ys" for c using that fresh by (auto simp: H2_def H1_def)
  have alloc: "block_allocated (H2 c) = block_allocated (H c)" for c
    by (auto simp: H2_def H1_def)
  have segxs: "seg a H2 0 lo xs b m" using m(1) seg_cong [of xs H2 H a a] H2_xs by simp
  have segys: "seg a H2 b (m + 24 + cap H b + 24 + cap H r) ys 0 ?e"
  proof (cases ys)
    case Nil
    with tail show ?thesis by simp
  next
    case (Cons c ys')
    then have "nx = c" "c \<noteq> 0" using r(3) nz by (auto simp: nx_def)
    then have "H2 d = (H(c := (H c)\<lparr>block_previous := b\<rparr>)) d" if "d \<in> set ys" for d
      using that fresh by (auto simp: H2_def H1_def)
    then have "seg a H2 b (m + 24 + cap H b + 24 + cap H r) ys 0 ?e =
        seg a (H(c := (H c)\<lparr>block_previous := b\<rparr>)) b (m + 24 + cap H b + 24 + cap H r) ys 0 ?e"
      by (intro seg_cong) auto
    with seg_set_previous [of a H r "m + 24 + cap H b + 24 + cap H r" c ys' 0 ?e b] tail Cons
    show ?thesis by simp
  qed
  have cap_b: "cap H2 b = cap H b + 24 + cap H r" using sum by (simp add: H2_b)
  then have "8 dvd cap H2 b" using b(2) r(2) by (auto simp: block_ok_def)
  then have "block_ok a H2 (last (0 # xs)) b"
    using b(2) by (auto simp: block_ok_def H2_b reserved_bytes_clear_def)
  moreover have "m + 24 + cap H2 b = m + 24 + cap H b + 24 + cap H r" by (simp add: cap_b)
  moreover have "block_next (H2 b) = head_or 0 ys" using r(3) by (simp add: H2_b nx_def)
  ultimately have "seg a H2 (last (0 # xs)) m (b # ys) 0 ?e"
    using segys b(1) unfolding seg.simps by metis
  then have "seg a H2 0 lo (xs @ b # ys) 0 ?e" using segxs unfolding seg_append by auto
  moreover have "live H2 (xs @ b # ys) = live H (xs @ b # r # ys)"
    using H2_ys alloc both live_cong [OF H2_xs]
    by (simp add: live_Cons) (simp add: live_def cong: map_cong filter_cong)
  moreover have "\<forall>c \<in> set (xs @ b # ys). cap H c \<le> cap H2 c"
    using H2_xs H2_ys cap_b by auto
  ultimately show ?thesis using merge alloc by blast
qed


section \<open>Coalescing\<close>

lemma coalesce_loop_spec:
  assumes "seg a H 0 lo (xs @ b # ys) 0 (unat (heap_end a))" and "0 < lo" and "calm H (xs @ [b])"
  shows "\<exists>nf H' zs. coalesce_loop a H b = Some (a\<lparr>next_fit := nf\<rparr>, H') \<and>
    seg a H' 0 lo zs 0 (unat (heap_end a)) \<and> calm H' zs \<and>
    live H' zs = live H (xs @ b # ys) \<and>
    (next_fit a \<in> set (xs @ b # ys) \<longrightarrow> nf \<in> set zs) \<and> set zs \<subseteq> set (xs @ b # ys) \<and>
    (\<forall>c \<in> set zs. cap H c \<le> cap H' c)"
  using assms
proof (induction ys arbitrary: a H xs b)
  case Nil
  then have "block_next (H b) = 0" unfolding seg_append by simp
  with Nil show ?case
    by (intro exI [of _ "next_fit a"] exI [of _ H] exI [of _ "xs @ [b]"])
      (simp add: coalesce_loop.simps [of a H b])
next
  case (Cons r ys)
  let ?e = "unat (heap_end a)"
  have range: "lo \<le> unat c" if "c \<in> set (xs @ b # r # ys)" for c
    using seg_range [OF Cons.prems(1) that] by simp
  have nz: "b \<noteq> 0" "r \<noteq> 0" using range [of b] range [of r] Cons.prems(2) by auto
  have nx: "block_next (H b) = r" using Cons.prems(1) unfolding seg_append by auto
  show ?case
  proof (cases "free_block H b \<and> free_block H r")
    case True
    define a1 where "a1 = (if next_fit a = r then a\<lparr>next_fit := b\<rparr> else a)"
    obtain H1 where merge: "merge_with_next a H b = (a1, H1)"
      "seg a H1 0 lo (xs @ b # ys) 0 ?e"
      "\<forall>c. block_allocated (H1 c) = block_allocated (H c)"
      "\<forall>c \<in> set (xs @ b # ys). cap H c \<le> cap H1 c"
      "live H1 (xs @ b # ys) = live H (xs @ b # r # ys)"
      using merge_chain [OF Cons.prems(1,2)] True unfolding a1_def by blast
    have a1: "heap_end a1 = heap_end a" "cookie a1 = cookie a"
      "a1\<lparr>next_fit := nf\<rparr> = a\<lparr>next_fit := nf\<rparr>"
      "next_fit a \<in> set (xs @ b # r # ys) \<longrightarrow> next_fit a1 \<in> set (xs @ b # ys)" for nf
      by (auto simp: a1_def)
    have "seg a1 H1 0 lo (xs @ b # ys) 0 (unat (heap_end a1))"
      using merge(2) seg_cong [of "xs @ b # ys" H1 H1 a1 a] a1 by simp
    moreover have "calm H1 (xs @ [b])"
      using Cons.prems(3) merge(3) calm_cong [of "xs @ [b]" H1 H] by simp
    ultimately obtain nf H' zs where IH: "coalesce_loop a1 H1 b = Some (a1\<lparr>next_fit := nf\<rparr>, H')"
      "seg a1 H' 0 lo zs 0 (unat (heap_end a1))" "calm H' zs" "live H' zs = live H1 (xs @ b # ys)"
      "next_fit a1 \<in> set (xs @ b # ys) \<longrightarrow> nf \<in> set zs" "set zs \<subseteq> set (xs @ b # ys)"
      "\<forall>c \<in> set zs. cap H1 c \<le> cap H' c"
      using Cons.IH Cons.prems(2) by blast
    have "coalesce_loop a H b = Some (a\<lparr>next_fit := nf\<rparr>, H')"
      using IH(1) nz nx True merge(1) a1(3) by (simp add: coalesce_loop.simps [of a H b])
    moreover have "seg a H' 0 lo zs 0 ?e"
      using IH(2) seg_cong [of zs H' H' a1 a] a1 by simp
    moreover have "\<forall>c \<in> set zs. cap H c \<le> cap H' c"
      using IH(6,7) merge(4) by (meson order_trans subsetD)
    moreover have "live H' zs = live H (xs @ b # r # ys)" using IH(4) merge(5) by (rule trans)
    moreover have "next_fit a \<in> set (xs @ b # r # ys) \<longrightarrow> nf \<in> set zs" using IH(5) a1(4) by blast
    moreover have "set zs \<subseteq> set (xs @ b # r # ys)" using IH(6) by auto
    ultimately show ?thesis using IH(3) by blast
  next
    case False
    have "seg a H 0 lo ((xs @ [b]) @ r # ys) 0 ?e" using Cons.prems(1) by simp
    moreover have "calm H ((xs @ [b]) @ [r])"
      using Cons.prems(3) False calm_append [of H xs b r "[]"] by simp
    moreover have "coalesce_loop a H b = coalesce_loop a H r"
      using nz nx False by (auto simp: coalesce_loop.simps [of a H b])
    ultimately show ?thesis using Cons.IH [of a H "xs @ [b]" r] Cons.prems(2) by simp
  qed
qed

lemma coalesce_all_spec:
  assumes seg: "seg a H 0 (unat (heap_begin a)) bs 0 (unat (heap_end a))" and arena: "arena_ok a"
    and nf: "next_fit a \<in> set bs"
  shows "\<exists>nf H' zs. coalesce_all a H = Some (a\<lparr>next_fit := nf\<rparr>, H') \<and>
    seg a H' 0 (unat (heap_begin a)) zs 0 (unat (heap_end a)) \<and> calm H' zs \<and>
    live H' zs = live H bs \<and> nf \<in> set zs \<and> set zs \<subseteq> set bs \<and> (\<forall>c \<in> set zs. cap H c \<le> cap H' c)"
proof -
  obtain cs where bs: "bs = first_block a # cs"
    using seg arena nf by (cases bs) (auto simp: arena_ok_def word_unat_eq_iff)
  have lo: "0 < unat (heap_begin a)" using arena by (simp add: arena_ok_def)
  show ?thesis
    using coalesce_loop_spec [of a H "unat (heap_begin a)" "[]" "first_block a" cs] seg lo nf
    unfolding coalesce_all_def bs by (simp del: seg.simps) blast
qed

section \<open>Walking the chain\<close>

lemma find_payload_loop_spec:
  assumes "seg a H p pos bs 0 stop" and "0 < pos"
  shows "find_payload_loop H x (head_or 0 bs) =
    Some (case find (\<lambda>b. payload_address b = x) bs of Some b \<Rightarrow> b | None \<Rightarrow> 0)"
  using assms
proof (induction bs arbitrary: p pos)
  case Nil
  then show ?case by (simp add: find_payload_loop.simps)
next
  case (Cons b bs)
  then have "b \<noteq> 0" by auto
  with Cons show ?case by (auto simp: find_payload_loop.simps [of H x b])
qed

lemma payload_inj: "payload_address b = payload_address c \<longleftrightarrow> b = c"
  by (simp add: payload_address_def)

lemma find_payload:
  "find (\<lambda>b. payload_address b = x) bs =
     (if x - 24 \<in> set bs then Some (x - 24) else None)"
  by (induction bs) (auto simp: payload_address_def)

text \<open>The guards in front of the walk only refuse addresses that are no payload.\<close>

lemma find_payload_block_spec:
  assumes shape: "heap_shape a H bs"
  shows "find_payload_block a H x =
    Some (if x - 24 \<in> set bs \<and> unat x < unat (heap_end a) then x - 24 else 0)"
proof -
  let ?e = "unat (heap_end a)" and ?lo = "unat (heap_begin a)"
  have seg: "seg a H 0 ?lo bs 0 ?e" and arena: "arena_ok a" using shape by (simp_all add: heap_shape_def)
  have lo: "unat (heap_begin a + 24) = ?lo + 24"
  proof -
    obtain cs where "bs = first_block a # cs" using heap_shape_first [OF shape] by blast
    with seg have "?lo + 24 \<le> ?e" using seg_range [OF seg, of "first_block a"] arena
      by (auto simp: arena_ok_def)
    then show ?thesis using unat_less_2p(3) [of "heap_end a"] by (simp add: unat_word_ariths)
  qed
  have mem: "unat x = unat (x - 24) + 24 \<and> 8 dvd unat x \<and> ?lo + 24 \<le> unat x \<and>
      unat x + cap H (x - 24) \<le> ?e" if "x - 24 \<in> set bs"
  proof -
    have r: "?lo \<le> unat (x - 24)" "unat (x - 24) + 24 + cap H (x - 24) \<le> ?e"
      using seg_range [OF seg that] by simp_all
    have "unat ((x - 24) + 24) = unat (x - 24) + 24"
      by (rule unat_end_fits [OF r(2)])
    moreover have "8 dvd unat (x - 24)" using seg_block_ok [OF seg that] by (auto simp: block_ok_def)
    ultimately show ?thesis using r by simp
  qed
  have "find_payload_loop H x (first_block a) =
      Some (if x - 24 \<in> set bs then x - 24 else 0)"
    using find_payload_loop_spec [OF seg, of x] arena heap_shape_first [OF shape]
    by (auto simp: find_payload arena_ok_def)
  then have loop: "find_payload_loop H x (first_block a) = Some (if x - 24 \<in> set bs then x - 24 else 0)" .
  show ?thesis
  proof (cases "x - 24 \<in> set bs")
    case True
    with mem [OF True] loop lo show ?thesis
      by (auto simp: find_payload_block_def aligned8 word_less_nat_alt word_le_nat_alt not_less)
  next
    case False
    with loop show ?thesis by (simp add: find_payload_block_def)
  qed
qed


lemma seg_set_free:
  assumes seg: "seg a H p pos (xs @ b # ys) nxt stop"
  shows "seg a (H(b := set_free (H b))) p pos (xs @ b # ys) nxt stop \<and>
    live (H(b := set_free (H b))) (xs @ b # ys) = live H xs @ live H ys"
proof -
  have "b \<notin> set xs" "b \<notin> set ys" using seg_distinct [OF seg] by auto
  then have "live (H(b := set_free (H b))) xs = live H xs" "live (H(b := set_free (H b))) ys = live H ys"
    by (auto intro!: live_cong)
  moreover have "seg a (H(b := set_free (H b))) p pos (xs @ b # ys) nxt stop"
    by (rule seg_replace [OF seg]) (auto simp: block_ok_def)
  ultimately show ?thesis by (simp add: live_Cons)
qed

abbreviation owned_by :: "os_memory_owner_t \<Rightarrow> u32 \<times> u32 \<times> os_memory_owner_t \<Rightarrow> bool" where
  "owned_by owner x \<equiv> snd (snd x) = owner"

lemma release_loop_spec:
  assumes "seg a H 0 lo (xs @ ys) 0 (unat (heap_end a))" and "0 < lo"
    and "unat (allocated_bytes a) = live_bytes H (xs @ ys)"
    and "n = length (filter (owned_by owner) (live H ys))"
  shows "\<exists>total H'. release_loop owner a H (head_or 0 ys) k = Some (a\<lparr>allocated_bytes := total,
      successful_frees := increment_saturating_times n (successful_frees a)\<rparr>, H', k + of_nat n) \<and>
    seg a H' 0 lo (xs @ ys) 0 (unat (heap_end a)) \<and>
    unat total = live_bytes H' (xs @ ys) \<and> unat total \<le> unat (allocated_bytes a) \<and>
    live H' (xs @ ys) = live H xs @ filter (\<lambda>x. \<not> owned_by owner x) (live H ys) \<and>
    (\<forall>c. block_capacity (H' c) = block_capacity (H c))"
  using assms
proof (induction ys arbitrary: a H xs k n)
  case Nil
  then show ?case
    by (intro exI [of _ "allocated_bytes a"] exI [of _ H]) (simp add: release_loop.simps)
next
  case (Cons b ys)
  let ?e = "unat (heap_end a)"
  have "b \<noteq> 0" using seg_range [OF Cons.prems(1), of b] Cons.prems(2) by auto
  have nx: "block_next (H b) = head_or 0 ys" using Cons.prems(1) unfolding seg_append by auto
  show ?case
  proof (cases "\<not> free_block H b \<and> block_owner (H b) = owner")
    case False
    have n: "n = length (filter (owned_by owner) (live H ys))"
      using Cons.prems(4) False by (auto simp: live_Cons)
    have step: "release_loop owner a H (head_or 0 (b # ys)) k = release_loop owner a H (head_or 0 ys) k"
      using False \<open>b \<noteq> 0\<close> nx by (auto simp: release_loop.simps [of owner a H b])
    have "live H (xs @ [b]) @ filter (\<lambda>x. \<not> owned_by owner x) (live H ys) =
        live H xs @ filter (\<lambda>x. \<not> owned_by owner x) (live H (b # ys))"
      using False by (auto simp: live_Cons)
    with Cons.IH [of a H "xs @ [b]" n k] Cons.prems(1,2,3) n show ?thesis
      unfolding step by simp
  next
    case True
    define H1 where "H1 = H(b := set_free (H b))"
    define a1 where "a1 = a\<lparr>allocated_bytes := allocated_bytes a - block_capacity (H b),
      successful_frees := increment_saturating (successful_frees a)\<rparr>"
    obtain n' where n: "n = Suc n'" "n' = length (filter (owned_by owner) (live H ys))"
      using Cons.prems(4) True by (simp add: live_Cons)
    have free: "seg a H1 0 lo (xs @ b # ys) 0 ?e" "live H1 (xs @ b # ys) = live H xs @ live H ys"
      using seg_set_free [OF Cons.prems(1)] by (simp_all add: H1_def)
    have "b \<notin> set xs" "b \<notin> set ys" using seg_distinct [OF Cons.prems(1)] by auto
    then have parts: "live H1 (xs @ [b]) = live H xs" "live H1 ys = live H ys"
      using live_cong [of xs H1 H] live_cong [of ys H1 H] by (auto simp: H1_def live_Cons)
    have bytes: "live_bytes H (xs @ b # ys) = live_bytes H1 (xs @ b # ys) + cap H b"
      using True free(2) by (simp add: live_bytes_def live_Cons)
    then have total: "unat (allocated_bytes a1) = live_bytes H1 (xs @ b # ys)"
      using Cons.prems(3) by (simp add: a1_def unat_sub_le)
    have a1: "heap_end a1 = heap_end a" "cookie a1 = cookie a" by (simp_all add: a1_def)
    have seg1: "seg a1 H1 0 lo ((xs @ [b]) @ ys) 0 (unat (heap_end a1))"
      using free(1) seg_cong [of "xs @ b # ys" H1 H1 a1 a] a1 by simp
    have total': "unat (allocated_bytes a1) = live_bytes H1 ((xs @ [b]) @ ys)"
      using total by (simp only: append_assoc append_Cons append_Nil)
    have n': "n' = length (filter (owned_by owner) (live H1 ys))" using n(2) parts(2) by simp
    have step: "release_loop owner a H (head_or 0 (b # ys)) k =
        release_loop owner a1 H1 (head_or 0 ys) (k + 1)"
      using True \<open>b \<noteq> 0\<close> nx by (simp add: release_loop.simps [of owner a H b] a1_def H1_def)
    obtain tot H' where IH: "release_loop owner a1 H1 (head_or 0 ys) (k + 1) =
        Some (a1\<lparr>allocated_bytes := tot, successful_frees :=
          increment_saturating_times n' (successful_frees a1)\<rparr>, H', (k + 1) + of_nat n')"
      "seg a1 H' 0 lo ((xs @ [b]) @ ys) 0 (unat (heap_end a1))"
      "unat tot = live_bytes H' ((xs @ [b]) @ ys)" "unat tot \<le> unat (allocated_bytes a1)"
      "live H' ((xs @ [b]) @ ys) =
        live H1 (xs @ [b]) @ filter (\<lambda>x. \<not> owned_by owner x) (live H1 ys)"
      "\<forall>c. block_capacity (H' c) = block_capacity (H1 c)"
      using Cons.IH [OF seg1 Cons.prems(2) total' n', of "k + 1"] by blast
    have "seg a H' 0 lo (xs @ b # ys) 0 ?e"
      using IH(2) seg_cong [of "xs @ b # ys" H' H' a a1] a1 by simp
    moreover have "unat tot \<le> unat (allocated_bytes a)"
      using IH(4) total bytes Cons.prems(3) by simp
    moreover have "live H' (xs @ b # ys) =
        live H xs @ filter (\<lambda>x. \<not> owned_by owner x) (live H (b # ys))"
      using IH(5) parts True by (simp add: live_Cons)
    moreover have "\<forall>c. block_capacity (H' c) = block_capacity (H c)"
      using IH(6) by (simp add: H1_def)
    moreover have "release_loop owner a H (head_or 0 (b # ys)) k = Some (a\<lparr>allocated_bytes := tot,
        successful_frees := increment_saturating_times n (successful_frees a)\<rparr>, H', k + of_nat n)"
      unfolding step IH(1) n(1) by (simp add: a1_def)
    moreover have "unat tot = live_bytes H' (xs @ b # ys)"
      using IH(3) by (simp only: append_assoc append_Cons append_Nil)
    ultimately show ?thesis by blast
  qed
qed

lemma fragments_loop_spec:
  assumes "seg a H p pos bs 0 stop" and "0 < pos"
  shows "fragments_loop H n (head_or 0 bs) k =
    Some (k + of_nat (length (filter (\<lambda>b. free_block H b \<and> block_capacity (H b) < n) bs)))"
  using assms
proof (induction bs arbitrary: p pos k)
  case Nil
  then show ?case by (simp add: fragments_loop.simps)
next
  case (Cons b bs)
  then have "b \<noteq> 0" by auto
  with Cons show ?case by (auto simp: fragments_loop.simps [of H n b])
qed

text \<open>The largest capacity among the free blocks, starting from \<open>m\<close>.\<close>

fun largest_free :: "os_heap \<Rightarrow> u32 list \<Rightarrow> u32 \<Rightarrow> u32" where
  "largest_free H [] m = m"
| "largest_free H (b # bs) m =
     largest_free H bs (if free_block H b \<and> block_capacity (H b) > m then block_capacity (H b) else m)"

lemma largest_free_ge:
  "m \<le> largest_free H bs m \<and> (\<forall>b \<in> set bs. free_block H b \<longrightarrow> block_capacity (H b) \<le> largest_free H bs m)"
proof (induction bs arbitrary: m)
  case (Cons b bs)
  show ?case
    using Cons.IH [of "if free_block H b \<and> block_capacity (H b) > m then block_capacity (H b) else m"]
    by (auto split: if_splits intro: order_trans)
qed simp

lemma largest_free_in:
  "largest_free H bs m = m \<or> (\<exists>b \<in> set bs. free_block H b \<and> largest_free H bs m = block_capacity (H b))"
proof (induction bs arbitrary: m)
  case (Cons b bs)
  show ?case
    using Cons.IH [of "if free_block H b \<and> block_capacity (H b) > m then block_capacity (H b) else m"]
    by (auto split: if_splits)
qed simp

lemma stats_loop_spec:
  assumes "seg a H p pos bs 0 stop" and "0 < pos"
  shows "stats_loop H (head_or 0 bs) st = Some (st
    \<lparr>st_payload_capacity_bytes := st_payload_capacity_bytes st + (\<Sum>b\<leftarrow>bs. block_capacity (H b)),
     st_free_bytes := st_free_bytes st + (\<Sum>b\<leftarrow>filter (free_block H) bs. block_capacity (H b)),
     st_largest_free_block_bytes := largest_free H bs (st_largest_free_block_bytes st),
     st_allocated_blocks := st_allocated_blocks st + of_nat (length (live H bs)),
     st_free_blocks := st_free_blocks st + of_nat (length (filter (free_block H) bs))\<rparr>)"
  using assms
proof (induction bs arbitrary: p pos st)
  case Nil
  then show ?case by (simp add: stats_loop.simps)
next
  case (Cons b bs)
  then have "b \<noteq> 0" and nx: "block_next (H b) = head_or 0 bs"
    and IH: "\<And>st. stats_loop H (head_or 0 bs) st = Some (st
    \<lparr>st_payload_capacity_bytes := st_payload_capacity_bytes st + (\<Sum>b\<leftarrow>bs. block_capacity (H b)),
     st_free_bytes := st_free_bytes st + (\<Sum>b\<leftarrow>filter (free_block H) bs. block_capacity (H b)),
     st_largest_free_block_bytes := largest_free H bs (st_largest_free_block_bytes st),
     st_allocated_blocks := st_allocated_blocks st + of_nat (length (live H bs)),
     st_free_blocks := st_free_blocks st + of_nat (length (filter (free_block H) bs))\<rparr>)"
    by auto
  then show ?case
    by (simp add: stats_loop.simps [of H b] nx IH Let_def live_Cons)
qed

end
