(* ===== verification/Allocator_Spec.thy ===== *)
theory Allocator_Spec
  imports Allocator_Ops
begin

text \<open>
  The contract of the allocator. \<open>chain\<close> lists the block addresses of a heap, \<open>live_blocks\<close> the
  allocated ones with size and owner, and \<open>heap_ok\<close> is the invariant. Every operation keeps it,
  and its effect on the live blocks is that of an abstract store of owned blocks: the locale
  \<open>owned_store\<close> states that interface, and its interpretation is what the kernel relies on.
\<close>

section \<open>The abstract view\<close>

fun chain_from :: "os_heap \<Rightarrow> nat \<Rightarrow> u32 \<Rightarrow> u32 list" where
  "chain_from H 0 b = []"
| "chain_from H (Suc n) b = (if b = 0 then [] else b # chain_from H n (block_next (H b)))"

definition chain :: "os_allocator \<Rightarrow> os_heap \<Rightarrow> u32 list" where
  "chain a H = chain_from H (unat (maximum_blocks a)) (first_block a)"

definition live_blocks :: "os_allocator \<Rightarrow> os_heap \<Rightarrow> (u32 \<times> u32 \<times> os_memory_owner_t) list" where
  "live_blocks a H = live H (chain a H)"

definition heap_ok :: "os_allocator \<Rightarrow> os_heap \<Rightarrow> bool" where
  "heap_ok a H \<longleftrightarrow> heap_inv a H (chain a H)"

lemma chain_from_seg:
  "seg a H p pos bs 0 stop \<Longrightarrow> 0 < pos \<Longrightarrow> length bs \<le> n \<Longrightarrow> chain_from H n (head_or 0 bs) = bs"
proof (induction bs arbitrary: p pos n)
  case Nil
  then show ?case by (cases n) simp_all
next
  case (Cons b bs)
  then have "b \<noteq> 0" by auto
  with Cons show ?case by (cases n) auto
qed

lemma heap_inv_length:
  assumes "heap_inv a H bs"
  shows "length bs \<le> unat (maximum_blocks a)"
proof -
  have "unat (heap_begin a) + 32 * length bs \<le> unat (heap_end a)"
    using assms by (auto simp: heap_inv_def heap_shape_def intro: seg_length)
  then show ?thesis
    using assms by (simp add: unat_maximum_blocks heap_inv_def heap_shape_def)
qed

lemma heap_inv_chain:
  assumes "heap_inv a H bs"
  shows "chain a H = bs"
proof -
  have shape: "heap_shape a H bs" using assms by (simp add: heap_inv_def)
  then obtain cs where cs: "bs = first_block a # cs" using heap_shape_first by blast
  have seg: "seg a H 0 (unat (heap_begin a)) bs 0 (unat (heap_end a))" "0 < unat (heap_begin a)"
    using shape by (simp_all add: heap_shape_def arena_ok_def)
  from chain_from_seg [OF seg heap_inv_length [OF assms]] cs show ?thesis
    by (simp add: chain_def del: chain_from.simps)
qed

lemma heap_okI: "heap_inv a H bs \<Longrightarrow> heap_ok a H"
  by (simp add: heap_ok_def heap_inv_chain)

section \<open>Rounding\<close>

lemma unat_align_down: "unat ((x :: u32) AND NOT 7) = unat x div 8 * 8"
proof -
  have seven: "(7 :: u32) = mask 3" by (simp add: mask_eq_exp_minus_1)
  have "x AND NOT 7 = push_bit 3 (drop_bit 3 x)"
    unfolding seven by (rule bit_word_eqI) (auto simp: bit_simps)
  then have "(x AND NOT 7) + take_bit 3 x = x" using bits_ident [of 3 x] by simp
  then have "x AND NOT 7 = x - take_bit 3 x" by (metis add_diff_cancel_right')
  moreover have "unat (take_bit 3 x) = unat x mod 8" by (simp add: take_bit_eq_mod unat_mod)
  ultimately have "unat (x AND NOT 7) = unat x - unat x mod 8" by (simp add: unat_sub_le)
  then show ?thesis by (simp only: minus_mod_eq_div_mult)
qed

lemma unat_align_up:
  assumes "unat (x :: u32) + 7 < 2 ^ 32"
  shows "unat ((x + 7) AND NOT 7) = (unat x + 7) div 8 * 8"
proof -
  have "unat (x + 7) = unat x + 7" using unat_add32 [of x 7] assms by simp
  then show ?thesis by (simp only: unat_align_down)
qed

text \<open>The block size a request of \<open>sz\<close> bytes needs.\<close>

definition request_size :: "u32 \<Rightarrow> nat" where
  "request_size sz = (unat sz + 7) div 8 * 8"

definition request_ok :: "u32 \<Rightarrow> os_memory_owner_t \<Rightarrow> bool" where
  "request_ok sz owner \<longleftrightarrow> sz \<noteq> 0 \<and> owner \<noteq> OS_MEMORY_OWNER_NONE \<and> unat sz + 7 < 2 ^ 32"

lemma align_up_size_spec:
  "align_up_size sz = (if unat sz + 7 < 2 ^ 32 then (sz \<noteq> 0, (sz + 7) AND NOT 7) else (False, 0))"
proof (cases "unat sz + 7 < 2 ^ 32")
  case True
  then have "\<not> sz > UINT32_MAX - 7" using gt_max32_iff [of 7 sz] by (simp only:) simp
  moreover have "(sz + 7) AND NOT 7 \<noteq> 0 \<longleftrightarrow> sz \<noteq> 0"
    using unat_align_up [OF True] by (auto simp: word_unat_eq_iff)
  ultimately show ?thesis using True by (simp add: align_up_size_def Let_def)
next
  case False
  then have "sz > UINT32_MAX - 7" using gt_max32_iff [of 7 sz] by (simp only:) simp
  with False show ?thesis by (simp add: align_up_size_def)
qed

lemma request_size_bounds:
  assumes "sz \<noteq> 0"
  shows "8 dvd request_size sz" "8 \<le> request_size sz" "unat sz \<le> request_size sz"
    "request_size sz < unat sz + 8"
proof -
  have "0 < unat sz" using assms by (simp add: unat_gt_0)
  then show "8 dvd request_size sz" "8 \<le> request_size sz" "unat sz \<le> request_size sz"
    "request_size sz < unat sz + 8"
    unfolding request_size_def by (simp, presburger+)
qed

section \<open>Operations\<close>

lemma heap_shape_payload:
  assumes "heap_shape a H bs" and "b \<in> set bs"
  shows "payload_address b \<noteq> 0" "unat (payload_address b) = unat b + 24"
proof -
  have "unat b + 24 + cap H b \<le> unat (heap_end a)"
    using assms seg_range by (auto simp: heap_shape_def)
  from unat_end_fits [OF this] show "unat (payload_address b) = unat b + 24"
    by (simp add: payload_address_def)
  then show "payload_address b \<noteq> 0" by auto
qed

text \<open>What a failed request leaves: the heap as it was and one more failure counted.\<close>

lemma heap_inv_counters:
  assumes "heap_inv a H bs"
    and "a' = a\<lparr>failed_allocations := x\<rparr> \<or> a' = a\<lparr>invalid_frees := x\<rparr> \<or> a' = a\<lparr>successful_frees := x\<rparr>"
  shows "heap_inv a' H bs"
proof -
  have "seg a' H p pos bs nxt stop = seg a H p pos bs nxt stop" for p pos nxt stop
    using assms(2) by (intro seg_cong) auto
  with assms show ?thesis by (auto simp: heap_inv_def heap_shape_def arena_ok_def)
qed

lemma alloc_result:
  assumes "heap_ok a H"
  shows "\<exists>p a' H'. os_allocator_alloc (Some a) H sz owner = Some (p, Some a', H') \<and> heap_ok a' H' \<and>
    (p \<noteq> 0 \<longrightarrow> length (chain a' H') \<le> Suc (length (chain a H)) \<and>
       counters_of a' = (\<lambda>(s, f, e, i). (increment_saturating s, f, e, i)) (counters_of a) \<and>
       heap_begin a' = heap_begin a \<and> heap_end a' = heap_end a \<and>
       ((\<forall>b \<in> set (chain a H). request_size sz + 32 \<le> cap H b) \<longrightarrow> cap H' (p - 24) = request_size sz)) \<and>
    (p = 0 \<longrightarrow> H' = H \<and> a' = a\<lparr>failed_allocations := increment_saturating (failed_allocations a)\<rparr> \<and>
       (request_ok sz owner \<longrightarrow>
          (\<forall>b \<in> set (chain a H). free_block H b \<longrightarrow> cap H b < request_size sz))) \<and>
    (p \<noteq> 0 \<longrightarrow> request_ok sz owner \<and> (\<exists>c xs ys. live_blocks a H = xs @ ys \<and>
       live_blocks a' H' = xs @ [(p - 24, c, owner)] @ ys \<and> c = block_capacity (H' (p - 24)) \<and>
       request_size sz \<le> unat c \<and> unat c < request_size sz + 32))"
proof -
  let ?failed = "a\<lparr>failed_allocations := increment_saturating (failed_allocations a)\<rparr>"
  have inv: "heap_inv a H (chain a H)" using assms by (simp add: heap_ok_def)
  then have shape: "heap_shape a H (chain a H)" by (simp add: heap_inv_def)
  have valid: "block_chain_valid (Some a) H" by (rule heap_inv_valid [OF inv])
  have init: "initialized a" using shape by (simp add: heap_shape_def arena_ok_def)
  have failed: "heap_ok ?failed H" by (rule heap_okI [OF heap_inv_counters [OF inv]]) blast
  show ?thesis
  proof (cases "request_ok sz owner")
    case False
    then have "os_allocator_alloc (Some a) H sz owner = Some (0, Some ?failed, H)"
      using init valid by (auto simp: os_allocator_alloc_def request_ok_def align_up_size_spec Let_def)
    with failed False show ?thesis by simp
  next
    case True
    define n where "n = (sz + 7) AND NOT 7"
    have n: "unat n = request_size sz"
      using True unat_align_up [of sz] by (simp add: n_def request_size_def request_ok_def)
    note nb = request_size_bounds [of sz, folded n]
    have nf: "next_fit a \<in> set (chain a H)" using shape by (simp add: heap_shape_def)
    then have "next_fit a \<noteq> 0" using heap_shape_nonzero [OF shape] by blast
    obtain pre post where chain: "chain a H = pre @ next_fit a # post" using split_list [OF nf] by blast
    have "align_up_size sz = (True, n)"
      using True align_up_size_spec [of sz] unfolding request_ok_def n_def by simp
    then have run: "os_allocator_alloc (Some a) H sz owner =
      (case alloc_search a H n (next_fit a) (next_fit a) of None \<Rightarrow> None
       | Some block \<Rightarrow> if block = 0 then Some (0, Some ?failed, H)
          else let (p, a2, H2) = alloc_take a H block n owner in Some (p, Some a2, H2))"
      using True init valid \<open>next_fit a \<noteq> 0\<close>
      by (simp add: os_allocator_alloc_def request_ok_def)
    show ?thesis
    proof (cases "find (fits H n) (next_fit a # post @ pre)")
      case None
      then have none: "\<forall>b \<in> set (chain a H). free_block H b \<longrightarrow> cap H b < request_size sz"
        unfolding find_None_iff chain by (auto simp: word_le_nat_alt n)
      have "os_allocator_alloc (Some a) H sz owner = Some (0, Some ?failed, H)"
        unfolding run alloc_search_all [OF shape chain] None by simp
      with failed none show ?thesis by simp
    next
      case (Some b)
      then have b: "fits H n b" "b \<in> set (chain a H)"
        unfolding find_Some_iff chain by (auto simp: nth_append nth_Cons' split: if_splits)
      obtain xs ys where split: "chain a H = xs @ b # ys" using split_list [OF b(2)] by blast
      obtain zs a' H' where take: "alloc_take a H b n owner = (payload_address b, a', H')"
        "heap_inv a' H' (xs @ b # zs)"
        "live H' (xs @ b # zs) = live H xs @ [(b, block_capacity (H' b), owner)] @ live H ys"
        "unat n \<le> cap H' b" "cap H' b < unat n + 32" "heap_begin a' = heap_begin a \<and> heap_end a' = heap_end a"
        "counters_of a' = (\<lambda>(s, f, e, i). (increment_saturating s, f, e, i)) (counters_of a)"
        "length zs \<le> Suc (length ys)" "unat n + 32 \<le> cap H b \<longrightarrow> cap H' b = unat n"
        using alloc_take_spec [of a H xs b ys n owner] inv b(1) nb True
        unfolding split by (auto simp: request_ok_def)
      have "b \<noteq> 0" using heap_shape_nonzero [OF shape b(2)] .
      have "os_allocator_alloc (Some a) H sz owner = Some (payload_address b, Some a', H')"
        unfolding run alloc_search_all [OF shape chain] Some using \<open>b \<noteq> 0\<close> take(1) by simp
      moreover have nz: "payload_address b \<noteq> 0"
        by (rule heap_shape_payload [OF shape b(2)])
      moreover have "\<exists>c us vs. live_blocks a H = us @ vs \<and>
          live_blocks a' H' = us @ [(payload_address b - 24, c, owner)] @ vs \<and> c = block_capacity (H' (payload_address b - 24)) \<and>
          request_size sz \<le> unat c \<and> unat c < request_size sz + 32"
        using b(1) take(3-5) n by (intro exI [of _ "block_capacity (H' b)"] exI [of _ "live H xs"] exI [of _ "live H ys"])
          (simp add: live_blocks_def heap_inv_chain [OF take(2)] payload_address_def split live_Cons)
      moreover have "length (chain a' H') \<le> Suc (length (chain a H))"
        using take(8) by (simp add: heap_inv_chain [OF take(2)] split)
      moreover have "payload_address b - 24 = b" by (simp add: payload_address_def)
      ultimately show ?thesis
        using take(6,7,9) True n heap_okI [OF take(2)] b(2)
        by (intro exI [of _ "payload_address b"] exI [of _ a'] exI [of _ H'], intro conjI impI)
          (assumption | simp)+
    qed
  qed
qed

lemma alloc_outcome:
  assumes "heap_ok a H"
  shows "\<exists>p a' H'. os_allocator_alloc (Some a) H sz owner = Some (p, Some a', H') \<and> heap_ok a' H' \<and>
    (if p = 0 then H' = H \<and> a' = a\<lparr>failed_allocations := increment_saturating (failed_allocations a)\<rparr> \<and>
       (request_ok sz owner \<longrightarrow>
          (\<forall>b \<in> set (chain a H). free_block H b \<longrightarrow> cap H b < request_size sz))
     else request_ok sz owner \<and> (\<exists>c xs ys. live_blocks a H = xs @ ys \<and>
       live_blocks a' H' = xs @ [(p - 24, c, owner)] @ ys \<and>
       request_size sz \<le> unat c \<and> unat c < request_size sz + 32))"
proof -
  obtain p a' H' where run: "os_allocator_alloc (Some a) H sz owner = Some (p, Some a', H')" "heap_ok a' H'"
    "p = 0 \<longrightarrow> H' = H \<and> a' = a\<lparr>failed_allocations := increment_saturating (failed_allocations a)\<rparr> \<and>
       (request_ok sz owner \<longrightarrow>
          (\<forall>b \<in> set (chain a H). free_block H b \<longrightarrow> cap H b < request_size sz))"
    "p \<noteq> 0 \<longrightarrow> request_ok sz owner \<and> (\<exists>c xs ys. live_blocks a H = xs @ ys \<and>
       live_blocks a' H' = xs @ [(p - 24, c, owner)] @ ys \<and> c = block_capacity (H' (p - 24)) \<and>
       request_size sz \<le> unat c \<and> unat c < request_size sz + 32)"
    using alloc_result [OF assms] by blast
  show ?thesis
    by (rule exI [of _ p], rule exI [of _ a'], rule exI [of _ H']) (use run in \<open>simp split: if_splits; blast\<close>)
qed


lemma coalesce_inv:
  assumes "heap_inv a H bs"
  shows "\<exists>nf H'. coalesce_all a H = Some (a\<lparr>next_fit := nf\<rparr>, H') \<and>
    heap_ok (a\<lparr>next_fit := nf\<rparr>) H' \<and> live_blocks (a\<lparr>next_fit := nf\<rparr>) H' = live H bs \<and>
    calm H' (chain (a\<lparr>next_fit := nf\<rparr>) H')"
proof -
  have seg: "seg a H 0 (unat (heap_begin a)) bs 0 (unat (heap_end a))" and arena: "arena_ok a"
    and nf: "next_fit a \<in> set bs"
    using assms by (simp_all add: heap_inv_def heap_shape_def)
  obtain nf H' zs where c: "coalesce_all a H = Some (a\<lparr>next_fit := nf\<rparr>, H')"
    "seg a H' 0 (unat (heap_begin a)) zs 0 (unat (heap_end a))" "calm H' zs" "live H' zs = live H bs"
    "nf \<in> set zs" "set zs \<subseteq> set bs" "\<forall>c \<in> set zs. cap H c \<le> cap H' c"
    using coalesce_all_spec [OF seg arena nf] by blast
  let ?a = "a\<lparr>next_fit := nf\<rparr>"
  have "seg ?a H' 0 (unat (heap_begin a)) zs 0 (unat (heap_end a))"
    using c(2) seg_cong [of zs H' H' ?a a] by simp
  moreover have "\<forall>b \<in> set zs. 8 \<le> cap H' b"
    using assms c(6,7) by (auto simp: heap_inv_def intro: order_trans)
  moreover have "live_bytes H' zs = live_bytes H bs" using c(4) by (rule live_bytes_live)
  ultimately have inv: "heap_inv ?a H' zs"
    using assms c(5) by (simp add: heap_inv_def heap_shape_def arena_ok_def)
  with c(1,3,4) heap_okI [OF inv] show ?thesis
    by (auto simp: live_blocks_def heap_inv_chain [OF inv])
qed

lemma live_mem:
  "x \<in> set (live H bs) \<longleftrightarrow> (\<exists>b \<in> set bs. \<not> free_block H b \<and> x = (b, block_capacity (H b), block_owner (H b)))"
  by (auto simp: live_def)

lemma live_filter_id: "b \<notin> set bs \<Longrightarrow> filter (\<lambda>x. fst x \<noteq> b) (live H bs) = live H bs"
  by (auto simp: live_mem filter_id_conv)

lemma free_outcome:
  assumes "heap_ok a H"
  shows "\<exists>r a' H'. os_allocator_free (Some a) H ptr owner = Some (r, Some a', H') \<and> heap_ok a' H' \<and>
    (if ptr = 0 then r \<and> a' = a \<and> H' = H
     else (r \<longleftrightarrow> (\<exists>c. (ptr - 24, c, owner) \<in> set (live_blocks a H))) \<and>
       (if r then live_blocks a' H' = filter (\<lambda>x. fst x \<noteq> ptr - 24) (live_blocks a H) \<and>
          calm H' (chain a' H') \<and> counters_of a' = (\<lambda>(s, f, e, i). (s, increment_saturating f, e, i)) (counters_of a)
        else H' = H \<and> a' = a\<lparr>invalid_frees := increment_saturating (invalid_frees a)\<rparr>))"
proof -
  let ?invalid = "a\<lparr>invalid_frees := increment_saturating (invalid_frees a)\<rparr>"
  have inv: "heap_inv a H (chain a H)" using assms by (simp add: heap_ok_def)
  then have shape: "heap_shape a H (chain a H)" by (simp add: heap_inv_def)
  have valid: "block_chain_valid (Some a) H" by (rule heap_inv_valid [OF inv])
  have seg: "seg a H 0 (unat (heap_begin a)) (chain a H) 0 (unat (heap_end a))" and arena: "arena_ok a"
    using shape by (simp_all add: heap_shape_def)
  then have init: "initialized a" by (simp add: arena_ok_def)
  have invalid: "heap_ok ?invalid H" by (rule heap_okI [OF heap_inv_counters [OF inv]]) blast
  have owned: "block_owner (H b) \<noteq> OS_MEMORY_OWNER_NONE" if "b \<in> set (chain a H)" "\<not> free_block H b" for b
    using seg_block_ok [OF seg that(1)] that(2) by (auto simp: block_ok_def)
  show ?thesis
  proof (cases "ptr = 0")
    case True
    with init assms show ?thesis
      by (intro exI [of _ True] exI [of _ a] exI [of _ H]) (simp add: os_allocator_free_def)
  next
    case ptr: False
    let ?b = "ptr - 24"
    show ?thesis
    proof (cases "\<exists>c. (?b, c, owner) \<in> set (live_blocks a H)")
      case False
      have "find_payload_block a H ptr = Some (if ?b \<in> set (chain a H) \<and> unat ptr < unat (heap_end a) then ?b else 0)"
        by (rule find_payload_block_spec [OF shape])
      then have "os_allocator_free (Some a) H ptr owner = Some (False, Some ?invalid, H)"
        using False ptr init valid by (auto simp: os_allocator_free_def live_blocks_def live_mem Let_def)
      with invalid False ptr show ?thesis by (intro exI [of _ False]) simp
    next
      case True
      then have b: "?b \<in> set (chain a H)" "\<not> free_block H ?b" "block_owner (H ?b) = owner"
        by (auto simp: live_blocks_def live_mem)
      have "ptr = payload_address ?b" by (simp add: payload_address_def)
      then have up: "unat ptr = unat ?b + 24" using heap_shape_payload(2) [OF shape b(1)] by simp
      have "8 \<le> cap H ?b" using inv b(1) by (simp add: heap_inv_def)
      then have "unat ptr < unat (heap_end a)" using seg_range [OF seg b(1)] up by simp
      then have find: "find_payload_block a H ptr = Some ?b"
        using find_payload_block_spec [OF shape, of ptr] b(1) by simp
      have nz: "?b \<noteq> 0" using heap_shape_nonzero [OF shape b(1)] .
      obtain xs ys where split: "chain a H = xs @ ?b # ys" using split_list [OF b(1)] by blast
      define H1 where "H1 = H(?b := set_free (H ?b))"
      define a1 where "a1 = a\<lparr>allocated_bytes := allocated_bytes a - block_capacity (H ?b)\<rparr>"
      have free: "seg a H1 0 (unat (heap_begin a)) (xs @ ?b # ys) 0 (unat (heap_end a))"
        "live H1 (xs @ ?b # ys) = live H xs @ live H ys"
        using seg_set_free [of a H 0 "unat (heap_begin a)" xs ?b ys] seg by (simp_all add: split H1_def)
      have seg1: "seg a1 H1 0 (unat (heap_begin a)) (xs @ ?b # ys) 0 (unat (heap_end a))"
        using free(1) seg_cong [of "xs @ ?b # ys" H1 H1 a1 a] by (simp add: a1_def)
      have "live_bytes H (chain a H) = live_bytes H1 (xs @ ?b # ys) + cap H ?b"
        using b(2) free(2) by (simp add: split live_bytes_def live_Cons)
      then have "unat (allocated_bytes a1) = live_bytes H1 (xs @ ?b # ys)"
        "unat (allocated_bytes a1) \<le> unat (allocated_bytes a)"
        using shape by (simp_all add: a1_def heap_shape_def unat_sub_le)
      moreover have "\<forall>c \<in> set (xs @ ?b # ys). 8 \<le> cap H1 c"
        using inv by (auto simp: heap_inv_def split H1_def)
      ultimately have inv1: "heap_inv a1 H1 (xs @ ?b # ys)"
        using seg1 shape arena by (simp add: heap_inv_def heap_shape_def split a1_def arena_ok_def)
      obtain nf H2 where co: "coalesce_all a1 H1 = Some (a1\<lparr>next_fit := nf\<rparr>, H2)"
        "heap_ok (a1\<lparr>next_fit := nf\<rparr>) H2"
        "live_blocks (a1\<lparr>next_fit := nf\<rparr>) H2 = live H1 (xs @ ?b # ys)"
        "calm H2 (chain (a1\<lparr>next_fit := nf\<rparr>) H2)"
        using coalesce_inv [OF inv1] by blast
      define a3 where "a3 = a1\<lparr>next_fit := nf, successful_frees := increment_saturating (successful_frees a)\<rparr>"
      have inv3: "heap_inv a3 H2 (chain (a1\<lparr>next_fit := nf\<rparr>) H2)"
        by (rule heap_inv_counters [of "a1\<lparr>next_fit := nf\<rparr>" _ _ _ "increment_saturating (successful_frees a)"])
          (use co(2) in \<open>simp add: heap_ok_def\<close>, simp add: a3_def)
      have "os_allocator_free (Some a) H ptr owner = Some (block_chain_valid (Some a3) H2, Some a3, H2)"
        using ptr init valid find nz b owned [OF b(1,2)] co(1)
        by (simp add: os_allocator_free_def H1_def a1_def a3_def Let_def)
      moreover have "filter (\<lambda>x. fst x \<noteq> ?b) (live_blocks a H) = live H xs @ live H ys"
        using seg_distinct [OF seg] b(2) by (simp add: live_blocks_def split live_Cons live_filter_id)
      ultimately show ?thesis
        using True ptr heap_inv_valid [OF inv3] heap_okI [OF inv3] co(3,4) free(2) heap_inv_chain [OF inv3]
        by (intro exI [of _ True] exI [of _ a3] exI [of _ H2]) (simp add: live_blocks_def counters_of_def a3_def a1_def)
    qed
  qed
qed


lemma heap_ok_count:
  assumes "heap_ok a H"
  shows "length (live_blocks a H) < 2 ^ 32"
proof -
  have "length (live_blocks a H) \<le> length (chain a H)"
    by (simp add: live_blocks_def live_def)
  also have "\<dots> \<le> unat (maximum_blocks a)"
    using assms by (intro heap_inv_length) (simp add: heap_ok_def)
  finally show ?thesis using unat_less_2p(3) [of "maximum_blocks a"] by simp
qed

lemma release_outcome:
  assumes "heap_ok a H" and owner: "owner \<noteq> OS_MEMORY_OWNER_NONE"
    and n: "n = length (filter (owned_by owner) (live_blocks a H))"
  shows "\<exists>a' H'. os_allocator_release_owner (Some a) H owner = Some (of_nat n, Some a', H') \<and>
    heap_ok a' H' \<and>
    live_blocks a' H' = filter (\<lambda>x. \<not> owned_by owner x) (live_blocks a H) \<and>
    counters_of a' = (\<lambda>(s, f, e, i). (s, increment_saturating_times n f, e, i)) (counters_of a) \<and>
    (0 < n \<longrightarrow> calm H' (chain a' H') \<and> next_fit a' = first_block a')"
proof -
  have inv: "heap_inv a H (chain a H)" using assms by (simp add: heap_ok_def)
  then have shape: "heap_shape a H (chain a H)" by (simp add: heap_inv_def)
  have valid: "block_chain_valid (Some a) H" by (rule heap_inv_valid [OF inv])
  have seg: "seg a H 0 (unat (heap_begin a)) ([] @ chain a H) 0 (unat (heap_end a))" and arena: "arena_ok a"
    and bytes: "unat (allocated_bytes a) = live_bytes H ([] @ chain a H)"
    using shape by (simp_all add: heap_shape_def)
  then have init: "initialized a" and lo: "0 < unat (heap_begin a)" by (simp_all add: arena_ok_def)
  have first: "head_or 0 (chain a H) = first_block a"
  proof -
    obtain cs where cs: "chain a H = first_block a # cs" using heap_shape_first [OF shape] by blast
    show ?thesis unfolding cs by simp
  qed
  have "n \<le> length (live_blocks a H)" unfolding n by (rule length_filter_le)
  then have n32: "n < 2 ^ 32" using heap_ok_count [OF assms(1)] by simp
  then have n0: "(of_nat n :: u32) = 0 \<longleftrightarrow> n = 0"
    using unat_of_nat32 [OF n32] by (auto simp: word_unat_eq_iff)
  obtain total H1 where rel: "release_loop owner a H (first_block a) 0 = Some (a\<lparr>allocated_bytes := total,
      successful_frees := increment_saturating_times n (successful_frees a)\<rparr>, H1, of_nat n)"
    "seg a H1 0 (unat (heap_begin a)) ([] @ chain a H) 0 (unat (heap_end a))"
    "unat total = live_bytes H1 ([] @ chain a H)" "unat total \<le> unat (allocated_bytes a)"
    "live H1 ([] @ chain a H) = live H [] @ filter (\<lambda>x. \<not> owned_by owner x) (live H (chain a H))"
    "\<forall>c. block_capacity (H1 c) = block_capacity (H c)"
    using release_loop_spec [OF seg lo bytes n [unfolded live_blocks_def], of 0, unfolded first add_0]
    by blast
  define a1 where "a1 = a\<lparr>allocated_bytes := total,
      successful_frees := increment_saturating_times n (successful_frees a)\<rparr>"
  have "seg a1 H1 0 (unat (heap_begin a)) (chain a H) 0 (unat (heap_end a))"
    using rel(2) seg_cong [of "chain a H" H1 H1 a1 a] by (simp add: a1_def)
  then have inv1: "heap_inv a1 H1 (chain a H)"
    using rel(3,4,6) inv by (auto simp: heap_inv_def heap_shape_def a1_def arena_ok_def)
  have live1: "live H1 (chain a H) = filter (\<lambda>x. \<not> owned_by owner x) (live_blocks a H)"
    using rel(5) by (simp add: live_blocks_def)
  show ?thesis
  proof (cases "n = 0")
    case True
    then have "os_allocator_release_owner (Some a) H owner = Some (of_nat n, Some a1, H1)"
      using init owner valid rel(1) heap_inv_valid [OF inv1]
      by (simp add: os_allocator_release_owner_def a1_def)
    with True heap_okI [OF inv1] live1 show ?thesis
      by (simp add: live_blocks_def heap_inv_chain [OF inv1]) (simp add: counters_of_def a1_def)
  next
    case False
    obtain nf H2 where co: "coalesce_all a1 H1 = Some (a1\<lparr>next_fit := nf\<rparr>, H2)"
      "heap_ok (a1\<lparr>next_fit := nf\<rparr>) H2"
      "live_blocks (a1\<lparr>next_fit := nf\<rparr>) H2 = live H1 (chain a H)"
      "calm H2 (chain (a1\<lparr>next_fit := nf\<rparr>) H2)"
      using coalesce_inv [OF inv1] by blast
    let ?a2 = "a1\<lparr>next_fit := nf\<rparr>"
    define a3 where "a3 = a1\<lparr>next_fit := first_block a1\<rparr>"
    have inv2: "heap_inv ?a2 H2 (chain ?a2 H2)" using co(2) by (simp add: heap_ok_def)
    then have "\<exists>cs. chain ?a2 H2 = first_block a1 # cs"
      using heap_shape_first [of ?a2 H2] by (auto simp: heap_inv_def)
    then have "first_block a1 \<in> set (chain ?a2 H2)" by auto
    moreover have "seg a3 H2 p pos bs nxt stop = seg ?a2 H2 p pos bs nxt stop" for p pos bs nxt stop
      by (rule seg_cong) (simp_all add: a3_def)
    ultimately have inv3: "heap_inv a3 H2 (chain ?a2 H2)"
      using inv2 by (auto simp: heap_inv_def heap_shape_def a3_def arena_ok_def)
    have "os_allocator_release_owner (Some a) H owner = Some (of_nat n, Some a3, H2)"
      using init owner valid rel(1) co(1) heap_inv_valid [OF inv3] False n0
      by (simp add: os_allocator_release_owner_def a1_def a3_def)
    with heap_okI [OF inv3] co(3,4) live1 heap_inv_chain [OF inv3] show ?thesis
      by (intro exI [of _ a3] exI [of _ H2]) (simp add: live_blocks_def a3_def a1_def counters_of_def)
  qed
qed

lemma unat_align_down_address: "unat (align_down_address v) = unat v div 8 * 8"
  using unat_align_down [of v] by (simp add: align_down_address_def)

lemma unat_align_up_address:
  "unat (align_up_address v) =
     (if unat v + 7 < 2 ^ 32 then (unat v + 7) div 8 * 8 else 2 ^ 32 - 1)"
  using gt_max32_iff [of 7 v] unat_align_up [of v]
  by (auto simp: align_up_address_def)

lemma init_outcome:
  assumes run: "os_allocator_init (Some g) H arena sz = (ok, Some a, H')"
    and lo: "lo = (unat arena + 7) div 8 * 8" and hi: "hi = (unat arena + unat sz) div 8 * 8"
  shows "(ok \<longleftrightarrow> arena \<noteq> 0 \<and> unat arena + unat sz < 2 ^ 32 \<and> lo + 32 \<le> hi) \<and>
    (ok \<longrightarrow> heap_ok a H' \<and> live_blocks a H' = [] \<and> chain a H' = [heap_begin a] \<and>
       unat (heap_begin a) = lo \<and> unat (heap_end a) = hi \<and> allocated_bytes a = 0 \<and>
       counters_of a = (0, 0, 0, 0)) \<and>
    (\<not> ok \<longrightarrow> a = os_allocator_zero)"
proof (cases "arena \<noteq> 0 \<and> \<not> sz < 8 \<and> unat arena + unat sz < 2 ^ 32")
  case False
  have "sz < 8 \<Longrightarrow> \<not> lo + 32 \<le> hi"
    unfolding lo hi by (simp add: word_less_nat_alt)
  moreover have "ok = False" "a = os_allocator_zero"
    using False run gt_max32_iff [of arena sz]
    by (auto simp: os_allocator_init_def add.commute split: if_splits)
  ultimately show ?thesis using False by auto
next
  case True
  then have raw: "unat (arena + sz) = unat arena + unat sz" by (simp add: unat_add32)
  have fits: "\<not> sz > UINT32_MAX - arena" using True gt_max32_iff [of arena sz] by (simp add: add.commute)
  define b where "b = align_up_address arena"
  define e where "e = align_down_address (arena + sz)"
  have e: "unat e = hi" by (simp add: e_def unat_align_down_address raw hi)
  have hi_le: "hi \<le> unat arena + unat sz" "8 dvd hi" by (simp_all add: hi)
  have refused: "b < arena \<or> e > arena + sz \<or> e \<le> b \<or> e - b < 24 + 8 \<longleftrightarrow> \<not> lo + 32 \<le> hi"
  proof (cases "unat arena + 7 < 2 ^ 32")
    case False
    then have "2 ^ 32 \<le> lo" unfolding lo by simp
    moreover have "unat b = 2 ^ 32 - 1" using False by (simp add: b_def unat_align_up_address)
    then have "e \<le> b" using e hi_le True by (simp add: word_le_nat_alt)
    ultimately show ?thesis using hi_le True by auto
  next
    case in_range: True
    then have b: "unat b = lo" by (simp add: b_def unat_align_up_address lo)
    have "unat arena \<le> lo" unfolding lo by presburger
    then have "\<not> b < arena" "\<not> e > arena + sz"
      using b e raw hi_le by (simp_all add: word_less_nat_alt not_less)
    moreover have "e - b < 32 \<longleftrightarrow> hi - lo < 32" if "\<not> e \<le> b"
      using that b e by (simp add: word_less_nat_alt word_le_nat_alt unat_sub_le)
    moreover have "e \<le> b \<longleftrightarrow> hi \<le> lo" using b e by (simp add: word_le_nat_alt)
    ultimately show ?thesis by auto
  qed
  define a0 where "a0 = os_allocator_zero
    \<lparr>heap_begin := b, heap_end := e, cookie := b XOR e XOR OS_MEMORY_BLOCK_MARKER\<rparr>"
  define H1 where "H1 = H(b := set_free ((H b)\<lparr>marker := block_marker a0 b,
    block_capacity := e - b - 24, block_next := 0, block_previous := 0\<rparr>))"
  define a1 where "a1 = a0\<lparr>first_block := b, next_fit := b, initialized := True\<rparr>"
  have init: "os_allocator_init (Some g) H arena sz =
    (if b < arena \<or> e > arena + sz \<or> e \<le> b \<or> e - b < 24 + 8 then (False, Some os_allocator_zero, H)
     else if \<not> block_chain_valid (Some a1) H1 then (False, Some os_allocator_zero, H1)
     else (True, Some a1, H1))"
    using True fits
    unfolding os_allocator_init_def Let_def b_def [symmetric] e_def [symmetric] a0_def H1_def a1_def
    by simp
  show ?thesis
  proof (cases "lo + 32 \<le> hi")
    case False
    then show ?thesis using init run refused by auto
  next
    case big: True
    have "unat arena + 7 < 2 ^ 32"
    proof (rule ccontr)
      assume "\<not> unat arena + 7 < 2 ^ 32"
      then have "2 ^ 32 \<le> lo" unfolding lo by simp
      with hi_le(1) True big show False by linarith
    qed
    then have b: "unat b = lo" by (simp add: b_def unat_align_up_address lo)
    have dvd: "8 dvd lo" by (simp add: lo)
    have "unat arena \<noteq> 0" using True by (simp add: unat_eq_0)
    then have pos: "0 < lo" unfolding lo by presburger
    have cap_b: "cap H1 b = hi - lo - 24" using big b e by (simp add: H1_def unat_sub_le)
    have "block_ok a1 H1 0 b"
      using dvd hi_le(2) b cap_b by (simp add: block_ok_def H1_def a1_def block_marker_def)
    then have "seg a1 H1 0 lo [b] 0 hi"
      using b cap_b big by (simp add: H1_def)
    then have inv: "heap_inv a1 H1 [b]"
      using b e big pos dvd hi_le(2) cap_b
      by (simp add: heap_inv_def heap_shape_def arena_ok_def a1_def a0_def os_allocator_zero_def H1_def)
    have "ok" "a = a1" "H' = H1" using run init refused big heap_inv_valid [OF inv] by auto
    then show ?thesis
      using heap_okI [OF inv] heap_inv_chain [OF inv] True big b e
      by (simp add: live_blocks_def live_Cons a1_def a0_def os_allocator_zero_def H1_def counters_of_def)
  qed
qed

end
