(* ===== verification/Owned_Store.thy ===== *)
theory Owned_Store
  imports Main
begin

text \<open>
  The interface between the kernel and its heap: a store of blocks, each with an address, a size
  and an owner. A client may acquire a block for an owner, give one back, or release all blocks
  of an owner. The laws determine the owned blocks after each call; the lemmas say what a
  history of calls by several owners can and cannot do.
\<close>

datatype ('p, 'n, 'o) store_op = Acquire 'n 'o | Give_Back 'p 'o | Release_All 'o

fun op_owner :: "('p, 'n, 'o) store_op \<Rightarrow> 'o" where
  "op_owner (Acquire n x) = x"
| "op_owner (Give_Back p x) = x"
| "op_owner (Release_All x) = x"

abbreviation block_of :: "'o \<Rightarrow> 'p \<times> 'm \<times> 'o \<Rightarrow> bool" where
  "block_of x b \<equiv> snd (snd b) = x"

fun store_run ::
  "('n \<Rightarrow> 'o \<Rightarrow> 's \<Rightarrow> 'p option \<times> 's) \<Rightarrow> ('p \<Rightarrow> 'o \<Rightarrow> 's \<Rightarrow> bool \<times> 's) \<Rightarrow> ('o \<Rightarrow> 's \<Rightarrow> 's) \<Rightarrow>
   ('p, 'n, 'o) store_op list \<Rightarrow> 's \<Rightarrow> 's" where
  "store_run acquire give_back release_all [] s = s"
| "store_run acquire give_back release_all (Acquire n x # ops) s =
     store_run acquire give_back release_all ops (snd (acquire n x s))"
| "store_run acquire give_back release_all (Give_Back p x # ops) s =
     store_run acquire give_back release_all ops (snd (give_back p x s))"
| "store_run acquire give_back release_all (Release_All x # ops) s =
     store_run acquire give_back release_all ops (release_all x s)"

locale owned_store =
  fixes invar :: "'s \<Rightarrow> bool"
    and owned :: "'s \<Rightarrow> ('p \<times> 'm \<times> 'o) list"
    and acquire :: "'n \<Rightarrow> 'o \<Rightarrow> 's \<Rightarrow> 'p option \<times> 's"
    and give_back :: "'p \<Rightarrow> 'o \<Rightarrow> 's \<Rightarrow> bool \<times> 's"
    and release_all :: "'o \<Rightarrow> 's \<Rightarrow> 's"
  assumes owned_distinct: "invar s \<Longrightarrow> distinct (map fst (owned s))"
    and acquire_invar: "invar s \<Longrightarrow> invar (snd (acquire n x s))"
    and acquire_none: "invar s \<Longrightarrow> fst (acquire n x s) = None \<Longrightarrow> owned (snd (acquire n x s)) = owned s"
    and acquire_some: "invar s \<Longrightarrow> fst (acquire n x s) = Some p \<Longrightarrow>
      \<exists>c xs ys. owned s = xs @ ys \<and> owned (snd (acquire n x s)) = xs @ (p, c, x) # ys"
    and give_back_invar: "invar s \<Longrightarrow> invar (snd (give_back p x s))"
    and give_back_owned: "invar s \<Longrightarrow> owned (snd (give_back p x s)) =
      (if \<exists>c. (p, c, x) \<in> set (owned s) then filter (\<lambda>b. fst b \<noteq> p) (owned s) else owned s)"
    and release_invar: "invar s \<Longrightarrow> invar (release_all x s)"
    and release_owned: "invar s \<Longrightarrow> owned (release_all x s) = filter (\<lambda>b. \<not> block_of x b) (owned s)"
begin

lemma give_back_others:
  assumes "invar s" and "x \<noteq> y"
  shows "filter (block_of y) (owned (snd (give_back p x s))) = filter (block_of y) (owned s)"
proof (cases "\<exists>c. (p, c, x) \<in> set (owned s)")
  case True
  then obtain c where c: "(p, c, x) \<in> set (owned s)" ..
  have "fst b \<noteq> p" if "b \<in> set (owned s)" "block_of y b" for b
  proof
    assume "fst b = p"
    then have "b = (p, c, x)"
      using owned_distinct [OF assms(1)] that(1) c
      by (metis eq_key_imp_eq_value prod.collapse)
    with that(2) assms(2) show False by simp
  qed
  then have "filter (\<lambda>b. fst b \<noteq> p \<and> block_of y b) (owned s) = filter (block_of y) (owned s)"
    by (intro filter_cong) auto
  then show ?thesis
    using True give_back_owned [OF assms(1), of p x] by (simp add: filter_filter)
next
  case False
  then show ?thesis using give_back_owned [OF assms(1), of p x] by simp
qed

lemma run_invar: "invar s \<Longrightarrow> invar (store_run acquire give_back release_all ops s)"
proof (induction ops arbitrary: s)
  case (Cons c ops)
  then show ?case by (cases c) (simp_all add: acquire_invar give_back_invar release_invar)
qed simp

text \<open>No call of another owner touches the blocks of an owner.\<close>

lemma run_isolation:
  assumes "invar s" and "\<forall>c \<in> set ops. op_owner c \<noteq> y"
  shows "filter (block_of y) (owned (store_run acquire give_back release_all ops s)) =
    filter (block_of y) (owned s)"
  using assms
proof (induction ops arbitrary: s)
  case (Cons c ops)
  show ?case
  proof (cases c)
    case (Acquire n x)
    have "filter (block_of y) (owned (snd (acquire n x s))) = filter (block_of y) (owned s)"
    proof (cases "fst (acquire n x s)")
      case None
      with acquire_none Cons.prems show ?thesis by simp
    next
      case (Some p)
      with acquire_some [OF Cons.prems(1) Some] Cons.prems(2) Acquire show ?thesis by auto
    qed
    with Cons Acquire acquire_invar show ?thesis by simp
  next
    case (Give_Back p x)
    with Cons give_back_invar give_back_others show ?thesis by simp
  next
    case (Release_All x)
    with Cons release_invar release_owned show ?thesis
      by (auto simp: filter_filter intro!: filter_cong)
  qed
qed simp

lemma release_leaves_none: "invar s \<Longrightarrow> filter (block_of x) (owned (release_all x s)) = []"
  by (simp add: release_owned filter_filter filter_empty_conv)

end

end
