(* ===== verification/Allocator_Props.thy ===== *)
theory Allocator_Props
  imports Allocator_Spec Owned_Store
begin

text \<open>
  The allocator as an instance of \<open>owned_store\<close>, and its properties: what the validator accepts,
  the outcome of every operation, that every operation returns, that payloads are aligned and
  disjoint, and that owners are isolated from each other.
\<close>

section \<open>The allocator is an owned store\<close>

type_synonym heap_state = "os_allocator \<times> os_heap"

definition state_ok :: "heap_state \<Rightarrow> bool" where
  "state_ok s = heap_ok (fst s) (snd s)"

definition payloads :: "heap_state \<Rightarrow> (u32 \<times> u32 \<times> os_memory_owner_t) list" where
  "payloads s = map (\<lambda>(b, c, owner). (payload_address b, c, owner)) (live_blocks (fst s) (snd s))"

text \<open>The calls on a state, as the kernel makes them.\<close>

definition acquire_block :: "u32 \<Rightarrow> os_memory_owner_t \<Rightarrow> heap_state \<Rightarrow> u32 option \<times> heap_state" where
  "acquire_block sz owner s = (case os_allocator_alloc (Some (fst s)) (snd s) sz owner of
     Some (p, Some a, H) \<Rightarrow> (if p = 0 then None else Some p, (a, H)) | _ \<Rightarrow> (None, s))"

definition give_back_block :: "u32 \<Rightarrow> os_memory_owner_t \<Rightarrow> heap_state \<Rightarrow> bool \<times> heap_state" where
  "give_back_block p owner s = (case os_allocator_free (Some (fst s)) (snd s) p owner of
     Some (r, Some a, H) \<Rightarrow> (r, (a, H)) | _ \<Rightarrow> (False, s))"

definition release_blocks :: "os_memory_owner_t \<Rightarrow> heap_state \<Rightarrow> heap_state" where
  "release_blocks owner s = (case os_allocator_release_owner (Some (fst s)) (snd s) owner of
     Some (n, Some a, H) \<Rightarrow> (a, H) | _ \<Rightarrow> s)"

lemma heap_okD:
  assumes "heap_ok a H"
  shows "heap_shape a H (chain a H)" "arena_ok a" "initialized a" "block_chain_valid (Some a) H"
    "seg a H 0 (unat (heap_begin a)) (chain a H) 0 (unat (heap_end a))"
    "\<And>b. b \<in> set (chain a H) \<Longrightarrow> 8 \<le> cap H b"
  using assms heap_inv_valid [of a H "chain a H"]
  by (simp_all add: heap_ok_def heap_inv_def heap_shape_def arena_ok_def)

lemma live_owner:
  assumes "heap_ok a H" and "(b, c, owner) \<in> set (live_blocks a H)"
  shows "owner \<noteq> OS_MEMORY_OWNER_NONE"
proof -
  from assms(2) have b: "b \<in> set (chain a H)" "\<not> free_block H b" "owner = block_owner (H b)"
    by (auto simp: live_blocks_def live_mem)
  from seg_block_ok [OF heap_okD(5) [OF assms(1)] b(1)] b(2,3) show ?thesis
    by (auto simp: block_ok_def)
qed

lemma live_distinct: "heap_ok a H \<Longrightarrow> distinct (map fst (live_blocks a H))"
  using seg_distinct [OF heap_okD(5)]
  by (simp add: live_blocks_def live_def comp_def)

lemma payload_minus: "payload_address (p - 24) = p" "payload_address b = p \<longleftrightarrow> b = p - 24"
  by (auto simp: payload_address_def)

lemma payloads_mem:
  "(p, c, x) \<in> set (payloads s) \<longleftrightarrow> (p - 24, c, x) \<in> set (live_blocks (fst s) (snd s))"
proof
  assume "(p - 24, c, x) \<in> set (live_blocks (fst s) (snd s))"
  then show "(p, c, x) \<in> set (payloads s)"
    unfolding payloads_def set_map by (rule rev_image_eqI) (simp add: payload_minus)
qed (auto simp: payloads_def payload_address_def)

lemma acquire_cases:
  assumes "state_ok s"
  obtains (fail) a' where "acquire_block sz owner s = (None, (a', snd s))" "heap_ok a' (snd s)"
      "live_blocks a' (snd s) = live_blocks (fst s) (snd s)"
  | (got) p a' H' c xs ys where "acquire_block sz owner s = (Some p, (a', H'))" "heap_ok a' H'"
      "live_blocks (fst s) (snd s) = xs @ ys" "live_blocks a' H' = xs @ [(p - 24, c, owner)] @ ys"
proof -
  have ok: "heap_ok (fst s) (snd s)" using assms by (simp add: state_ok_def)
  obtain p a' H' where run: "os_allocator_alloc (Some (fst s)) (snd s) sz owner = Some (p, Some a', H')"
    "heap_ok a' H'"
    "if p = 0 then H' = snd s \<and> a' = (fst s)\<lparr>failed_allocations := increment_saturating (failed_allocations (fst s))\<rparr> \<and>
       (request_ok sz owner \<longrightarrow>
          (\<forall>b \<in> set (chain (fst s) (snd s)). free_block (snd s) b \<longrightarrow> cap (snd s) b < request_size sz))
     else request_ok sz owner \<and> (\<exists>c xs ys. live_blocks (fst s) (snd s) = xs @ ys \<and>
       live_blocks a' H' = xs @ [(p - 24, c, owner)] @ ys \<and>
       request_size sz \<le> unat c \<and> unat c < request_size sz + 32)"
    using alloc_outcome [OF ok, of sz owner] by blast
  show thesis
  proof (cases "p = 0")
    case True
    then have "chain a' H' = chain (fst s) (snd s)" using run(3) by (simp add: chain_def maximum_blocks_def)
    with True run show thesis by (intro fail [of a']) (simp_all add: acquire_block_def live_blocks_def)
  next
    case False
    with run(3) obtain c xs ys where
      "live_blocks (fst s) (snd s) = xs @ ys" "live_blocks a' H' = xs @ [(p - 24, c, owner)] @ ys" by auto
    with False run(1,2) show thesis by (intro got [of p a' H' xs ys c]) (simp_all add: acquire_block_def)
  qed
qed


lemma give_back_cases:
  assumes "state_ok s"
  obtains (kept) r a' where "give_back_block p owner s = (r, (a', snd s))" "heap_ok a' (snd s)"
      "live_blocks a' (snd s) = live_blocks (fst s) (snd s)"
      "p = 0 \<or> (\<forall>c. (p - 24, c, owner) \<notin> set (live_blocks (fst s) (snd s)))"
  | (freed) a' H' where "give_back_block p owner s = (True, (a', H'))" "heap_ok a' H'" "p \<noteq> 0"
      "\<exists>c. (p - 24, c, owner) \<in> set (live_blocks (fst s) (snd s))"
      "live_blocks a' H' = filter (\<lambda>x. fst x \<noteq> p - 24) (live_blocks (fst s) (snd s))"
proof -
  have ok: "heap_ok (fst s) (snd s)" using assms by (simp add: state_ok_def)
  obtain r a' H' where run: "os_allocator_free (Some (fst s)) (snd s) p owner = Some (r, Some a', H')"
    "heap_ok a' H'"
    "if p = 0 then r \<and> a' = fst s \<and> H' = snd s
     else (r \<longleftrightarrow> (\<exists>c. (p - 24, c, owner) \<in> set (live_blocks (fst s) (snd s)))) \<and>
       (if r then live_blocks a' H' = filter (\<lambda>x. fst x \<noteq> p - 24) (live_blocks (fst s) (snd s)) \<and>
          calm H' (chain a' H') \<and> counters_of a' = (\<lambda>(s, f, e, i). (s, increment_saturating f, e, i)) (counters_of (fst s))
        else H' = snd s \<and> a' = (fst s)\<lparr>invalid_frees := increment_saturating (invalid_frees (fst s))\<rparr>)"
    using free_outcome [OF ok, of p owner] by blast
  show thesis
  proof (cases "p = 0 \<or> \<not> r")
    case True
    then have "H' = snd s" "chain a' H' = chain (fst s) (snd s)"
      using run(3) by (auto simp: chain_def maximum_blocks_def split: if_splits)
    with True run show thesis
      by (intro kept [of r a']) (auto simp: give_back_block_def live_blocks_def split: if_splits)
  next
    case False
    with run show thesis by (intro freed [of a' H']) (auto simp: give_back_block_def)
  qed
qed

lemma release_spec:
  assumes "state_ok s"
  shows "state_ok (release_blocks owner s) \<and>
    payloads (release_blocks owner s) = filter (\<lambda>x. \<not> block_of owner x) (payloads s)"
proof (cases "owner = OS_MEMORY_OWNER_NONE")
  case True
  have "filter (\<lambda>x. \<not> block_of owner x) (payloads s) = payloads s"
    using live_owner [of "fst s" "snd s"] assms True
    by (auto simp: payloads_def state_ok_def filter_id_conv)
  moreover have "release_blocks owner s = s"
    using True by (simp add: release_blocks_def os_allocator_release_owner_def)
  ultimately show ?thesis using assms by simp
next
  case False
  have ok: "heap_ok (fst s) (snd s)" using assms by (simp add: state_ok_def)
  obtain n a' H' where "os_allocator_release_owner (Some (fst s)) (snd s) owner = Some (of_nat n, Some a', H')"
    "heap_ok a' H'"
    "live_blocks a' H' = filter (\<lambda>x. \<not> owned_by owner x) (live_blocks (fst s) (snd s))"
    using release_outcome [OF ok False refl] by blast
  then show ?thesis
    by (simp add: release_blocks_def state_ok_def payloads_def filter_map comp_def case_prod_beta)
qed

interpretation heap: owned_store state_ok payloads acquire_block give_back_block release_blocks
proof
  fix s :: heap_state and n x p
  assume ok: "state_ok s"
  have inj: "inj_on payload_address A" for A by (simp add: inj_on_def payload_inj)
  show "distinct (map fst (payloads s))"
    using live_distinct [of "fst s" "snd s"] ok
    by (simp add: payloads_def state_ok_def comp_def case_prod_beta distinct_map)
      (simp add: inj_on_def payload_inj)
  show "state_ok (snd (acquire_block n x s))"
    by (cases rule: acquire_cases [OF ok, of n x, case_names fail got]) (simp_all add: state_ok_def)
  show "payloads (snd (acquire_block n x s)) = payloads s" if "fst (acquire_block n x s) = None"
    by (cases rule: acquire_cases [OF ok, of n x, case_names fail got]) (use that in \<open>simp_all add: payloads_def\<close>)
  show "\<exists>c xs ys. payloads s = xs @ ys \<and> payloads (snd (acquire_block n x s)) = xs @ (p, c, x) # ys"
    if "fst (acquire_block n x s) = Some p"
  proof (cases rule: acquire_cases [OF ok, of n x, case_names fail got])
    case fail
    with that show ?thesis by simp
  next
    case (got q a' H' c xs ys)
    with that have "q = p" by simp
    with got show ?thesis
      by (intro exI [of _ c] exI [of _ "map (\<lambda>(b, c, owner). (payload_address b, c, owner)) xs"]
          exI [of _ "map (\<lambda>(b, c, owner). (payload_address b, c, owner)) ys"])
        (simp add: payloads_def payload_minus)
  qed
  show "state_ok (snd (give_back_block p x s))"
    by (cases rule: give_back_cases [OF ok, of p x, case_names kept freed]) (simp_all add: state_ok_def)
  show "payloads (snd (give_back_block p x s)) = (if \<exists>c. (p, c, x) \<in> set (payloads s)
      then filter (\<lambda>b. fst b \<noteq> p) (payloads s) else payloads s)"
  proof -
    have mem: "(\<exists>c. (p, c, x) \<in> set (payloads s)) \<longleftrightarrow>
        (\<exists>c. (p - 24, c, x) \<in> set (live_blocks (fst s) (snd s)))"
      by (simp add: payloads_mem)
    have flt: "filter (\<lambda>b. fst b \<noteq> p) (payloads s) =
        map (\<lambda>(b, c, owner). (payload_address b, c, owner))
          (filter (\<lambda>x. fst x \<noteq> p - 24) (live_blocks (fst s) (snd s)))"
      by (simp add: payloads_def filter_map comp_def case_prod_beta payload_minus)
    have zero: "\<not> (\<exists>c. (p, c, x) \<in> set (payloads s))" if "p = 0"
    proof
      assume "\<exists>c. (p, c, x) \<in> set (payloads s)"
      then have "p - 24 \<in> set (chain (fst s) (snd s))"
        by (auto simp: mem live_blocks_def live_mem)
      then have "payload_address (p - 24) \<noteq> 0"
        using heap_shape_payload(1) [OF heap_okD(1)] ok by (simp add: state_ok_def)
      with that show False by (simp add: payload_minus)
    qed
    show ?thesis
    proof (cases rule: give_back_cases [OF ok, of p x, case_names kept freed])
      case (kept r a')
      with zero mem have "\<not> (\<exists>c. (p, c, x) \<in> set (payloads s))" by auto
      with kept show ?thesis by (simp add: payloads_def)
    next
      case (freed a' H')
      with mem flt show ?thesis by (simp add: payloads_def)
    qed
  qed
  show "state_ok (release_blocks x s)"
    and "payloads (release_blocks x s) = filter (\<lambda>b. \<not> block_of x b) (payloads s)"
    using release_spec [OF ok, of x] by simp_all
qed

section \<open>Payloads\<close>

lemma payloads_sound:
  assumes "state_ok s"
  shows "sorted_wrt (\<lambda>x y. unat (fst x) + unat (fst (snd x)) + 24 \<le> unat (fst y)) (payloads s)"
    "\<And>p c owner. (p, c, owner) \<in> set (payloads s) \<Longrightarrow>
       8 dvd unat p \<and> 8 dvd unat c \<and> 8 \<le> unat c \<and> owner \<noteq> OS_MEMORY_OWNER_NONE \<and>
       unat (heap_begin (fst s)) + 24 \<le> unat p \<and> unat p + unat c \<le> unat (heap_end (fst s))"
proof -
  let ?a = "fst s" and ?H = "snd s"
  have ok: "heap_ok ?a ?H" using assms by (simp add: state_ok_def)
  note shape = heap_okD(1) [OF ok] and seg = heap_okD(5) [OF ok]
  have up: "unat (payload_address b) = unat b + 24" if "b \<in> set (chain ?a ?H)" for b
    using heap_shape_payload(2) [OF shape that] .
  have "sorted_wrt (\<lambda>b c. unat b + 24 + cap ?H b \<le> unat c) (filter (\<lambda>b. \<not> free_block ?H b) (chain ?a ?H))"
    by (rule sorted_wrt_filter [OF seg_sorted [OF seg]])
  then have "sorted_wrt (\<lambda>b c. unat (payload_address b) + cap ?H b + 24 \<le> unat (payload_address c))
      (filter (\<lambda>b. \<not> free_block ?H b) (chain ?a ?H))"
    by (rule sorted_wrt_mono_rel [rotated]) (simp add: up)
  then show "sorted_wrt (\<lambda>x y. unat (fst x) + unat (fst (snd x)) + 24 \<le> unat (fst y)) (payloads s)"
    by (simp add: payloads_def live_blocks_def live_def sorted_wrt_map)
  fix p c owner
  assume mem: "(p, c, owner) \<in> set (payloads s)"
  then have b: "p - 24 \<in> set (chain ?a ?H)" "c = block_capacity (?H (p - 24))"
    by (auto simp: payloads_mem live_blocks_def live_mem)
  moreover have "unat p = unat (p - 24) + 24" using up [OF b(1)] by (simp add: payload_minus)
  moreover have "owner \<noteq> OS_MEMORY_OWNER_NONE" using live_owner [OF ok] mem by (auto simp: payloads_mem)
  moreover have "8 dvd unat (p - 24)" "8 dvd cap ?H (p - 24)"
    using seg_block_ok [OF seg b(1)] by (auto simp: block_ok_def)
  moreover have "unat (heap_begin ?a) \<le> unat (p - 24)"
    "unat (p - 24) + 24 + cap ?H (p - 24) \<le> unat (heap_end ?a)"
    using seg_range [OF seg b(1)] by simp_all
  ultimately show "8 dvd unat p \<and> 8 dvd unat c \<and> 8 \<le> unat c \<and> owner \<noteq> OS_MEMORY_OWNER_NONE \<and>
       unat (heap_begin ?a) + 24 \<le> unat p \<and> unat p + unat c \<le> unat (heap_end ?a)"
    using heap_okD(6) [OF ok b(1)] by (simp add: dvd_add)
qed

section \<open>The arena never moves\<close>

abbreviation arena_of :: "os_allocator \<Rightarrow> u32 \<times> u32" where
  "arena_of a \<equiv> (heap_begin a, heap_end a)"

lemma merge_arena: "arena_of (fst (merge_with_next a H b)) = arena_of a"
  by (simp add: merge_with_next_def Let_def)

lemma coalesce_loop_arena:
  assumes "coalesce_loop a H b = Some r"
  shows "arena_of (fst r) = arena_of a"
proof (rule coalesce_loop.raw_induct [of "\<lambda>a H b r. arena_of (fst r) = arena_of a", OF _ assms])
  fix rec a H b r
  assume IH: "\<And>a H b r. rec a H b = Some r \<Longrightarrow> arena_of (fst r) = arena_of a"
    and run: "(if b \<noteq> 0 \<and> block_next (H b) \<noteq> 0 then
        if free_block H b \<and> free_block H (block_next (H b))
        then rec (fst (merge_with_next a H b)) (snd (merge_with_next a H b)) b
        else rec a H (block_next (H b))
      else Some (a, H)) = Some r"
  from run show "arena_of (fst r) = arena_of a"
    using IH merge_arena [of a H b] by (metis (no_types, lifting) fst_conv option.inject)
qed

lemma release_loop_arena:
  assumes "release_loop owner a H b n = Some r"
  shows "arena_of (fst r) = arena_of a"
proof (rule release_loop.raw_induct [of "\<lambda>owner a H b n r. arena_of (fst r) = arena_of a", OF _ assms])
  fix rec owner a H b n r
  assume IH: "\<And>owner a H b n r. rec owner a H b n = Some r \<Longrightarrow> arena_of (fst r) = arena_of a"
    and run: "(if b = 0 then Some (a, H, n)
      else if block_allocated (H b) \<noteq> 0 \<and> block_owner (H b) = owner
      then rec owner (a\<lparr>allocated_bytes := allocated_bytes a - block_capacity (H b),
                successful_frees := increment_saturating (successful_frees a)\<rparr>)
             (H(b := set_free (H b))) (block_next (H b)) (n + 1)
      else rec owner a H (block_next (H b)) n) = Some r"
  from run show "arena_of (fst r) = arena_of a"
    by (fastforce split: if_splits dest: IH)
qed

lemma split_arena: "arena_of (fst (split_block a H b n)) = arena_of a"
  by (simp add: split_block_def Let_def)

lemma alloc_arena:
  assumes "os_allocator_alloc (Some a) H sz owner = Some (p, Some a', H')"
  shows "arena_of a' = arena_of a"
  using assms split_arena [of a H]
  by (auto simp: os_allocator_alloc_def alloc_take_def Let_def case_prod_beta
      split: if_splits option.splits)

lemma loop_arenas:
  "coalesce_all a H = Some (a', H') \<Longrightarrow> heap_begin a' = heap_begin a \<and> heap_end a' = heap_end a"
  "release_loop owner a H b n = Some (a', H', m) \<Longrightarrow>
     heap_begin a' = heap_begin a \<and> heap_end a' = heap_end a"
  using coalesce_loop_arena [of a H "first_block a" "(a', H')"]
    release_loop_arena [of owner a H b n "(a', H', m)"]
  by (simp_all add: coalesce_all_def)

lemma free_arena:
  assumes "os_allocator_free (Some a) H p owner = Some (r, Some a', H')"
  shows "arena_of a' = arena_of a"
  using assms by (auto simp: os_allocator_free_def Let_def split: if_splits option.splits
    dest!: loop_arenas)

lemma release_arena:
  assumes "os_allocator_release_owner (Some a) H owner = Some (n, Some a', H')"
  shows "arena_of a' = arena_of a"
proof (cases "\<not> initialized a \<or> owner = OS_MEMORY_OWNER_NONE \<or> \<not> block_chain_valid (Some a) H")
  case True
  with assms show ?thesis by (simp add: os_allocator_release_owner_def)
next
  case False
  then have run: "os_allocator_release_owner (Some a) H owner =
    (case release_loop owner a H (first_block a) 0 of None \<Rightarrow> None
     | Some (a1, H1, released) \<Rightarrow>
       (case (if released \<noteq> 0 then
                (case coalesce_all a1 H1 of None \<Rightarrow> None
                 | Some (a2, H2) \<Rightarrow> Some (a2\<lparr>next_fit := first_block a2\<rparr>, H2))
              else Some (a1, H1)) of None \<Rightarrow> None
        | Some (a3, H3) \<Rightarrow>
            Some (if \<not> block_chain_valid (Some a3) H3 then 0 else released, Some a3, H3)))"
    unfolding os_allocator_release_owner_def option.case by (rule if_not_P)
  then obtain a1 H1 k where loop: "release_loop owner a H (first_block a) 0 = Some (a1, H1, k)"
    using assms by (cases "release_loop owner a H (first_block a) 0") auto
  have "a' = a1 \<or> (\<exists>a2. coalesce_all a1 H1 = Some (a2, H') \<and> a' = a2\<lparr>next_fit := first_block a2\<rparr>)"
    using assms unfolding run loop by (cases "k = 0"; cases "coalesce_all a1 H1") auto
  then show ?thesis using loop_arenas(1) loop_arenas(2) [OF loop] by auto
qed

lemma store_run_arena:
  "arena_of (fst (store_run acquire_block give_back_block release_blocks ops s)) = arena_of (fst s)"
proof (induction ops arbitrary: s)
  case (Cons c ops)
  have "arena_of (fst (snd (acquire_block n x s))) = arena_of (fst s)" for n x
    unfolding acquire_block_def by (auto split: option.splits dest!: alloc_arena)
  moreover have "arena_of (fst (snd (give_back_block p x s))) = arena_of (fst s)" for p x
    unfolding give_back_block_def by (auto split: option.splits dest!: free_arena)
  moreover have "arena_of (fst (release_blocks x s)) = arena_of (fst s)" for x
    unfolding release_blocks_def by (auto split: option.splits dest!: release_arena)
  ultimately show ?case using Cons by (cases c) simp_all
qed simp

end
