(* ===== verification/Allocator_Claims.thy ===== *)
theory Allocator_Claims
  imports Allocator_Props
begin

text \<open>
  What the allocator promises: the properties of its operations, and a heap of 256 bytes on which
  each is exercised.
\<close>

section \<open>Every call returns\<close>

lemma valid_shape:
  assumes "block_chain_valid (Some a) H"
  obtains bs where "heap_shape a H bs"
    "seg a H 0 (unat (heap_begin a)) bs 0 (unat (heap_end a))" "arena_ok a" "initialized a"
    "0 < unat (heap_begin a)" "first_block a = head_or 0 bs" "next_fit a \<in> set bs"
proof -
  obtain bs where shape: "heap_shape a H bs" using assms by (auto simp: block_chain_valid_iff)
  obtain cs where "bs = first_block a # cs" using heap_shape_first [OF shape] by blast
  then have "first_block a = head_or 0 bs" by simp
  with shape show thesis by (intro that [of bs]) (simp_all add: heap_shape_def arena_ok_def)
qed

lemma alloc_search_returns:
  assumes "block_chain_valid (Some a) H"
  shows "alloc_search a H n (next_fit a) (next_fit a) \<noteq> None"
proof -
  obtain bs where bs: "heap_shape a H bs" "next_fit a \<in> set bs" using assms valid_shape by blast
  obtain pre post where "bs = pre @ next_fit a # post" using split_list [OF bs(2)] by blast
  from alloc_search_all [OF bs(1) this] show ?thesis by simp
qed

lemma alloc_returns: "os_allocator_alloc al H sz owner \<noteq> None"
proof (cases al)
  case (Some a)
  show ?thesis
  proof (cases "block_chain_valid (Some a) H")
    case True
    then show ?thesis
      by (simp add: os_allocator_alloc_def Some case_prod_beta Let_def alloc_search_returns split: option.split)
  qed (simp add: os_allocator_alloc_def Some Let_def)
qed (simp add: os_allocator_alloc_def)

lemma coalesce_returns:
  assumes "heap_shape a H bs" and "seg a' H' 0 (unat (heap_begin a)) bs 0 (unat (heap_end a))"
    and "a' = a\<lparr>allocated_bytes := x, successful_frees := y\<rparr>"
  shows "coalesce_all a' H' \<noteq> None"
proof -
  have "arena_ok a'" "next_fit a' \<in> set bs" using assms by (simp_all add: heap_shape_def arena_ok_def)
  with assms(2,3) coalesce_all_spec [of a' H' bs] show ?thesis by auto
qed

lemma free_returns: "os_allocator_free al H p owner \<noteq> None"
proof (cases al)
  case (Some a)
  show ?thesis
  proof (cases "block_chain_valid (Some a) H")
    case True
    obtain bs where bs: "heap_shape a H bs" "seg a H 0 (unat (heap_begin a)) bs 0 (unat (heap_end a))"
      using True valid_shape by blast
    have "coalesce_all (a\<lparr>allocated_bytes := x\<rparr>) (H(p - 24 := set_free (H (p - 24)))) \<noteq> None"
      if mem: "p - 24 \<in> set bs" for x
    proof -
      obtain xs ys where split: "bs = xs @ (p - 24) # ys" using split_list [OF mem] by blast
      let ?a = "a\<lparr>allocated_bytes := x\<rparr>" and ?H = "H(p - 24 := set_free (H (p - 24)))"
      have "seg a ?H 0 (unat (heap_begin a)) bs 0 (unat (heap_end a))"
        using seg_set_free bs(2) unfolding split by blast
      then have "seg ?a ?H 0 (unat (heap_begin a)) bs 0 (unat (heap_end a))"
        using seg_cong [of bs ?H ?H ?a a] by simp
      from coalesce_returns [OF bs(1) this, where x = x and y = "successful_frees a"] show ?thesis by simp
    qed
    then have no: "coalesce_all (a\<lparr>allocated_bytes := x\<rparr>) (H(p - 24 := set_free (H (p - 24)))) = None \<longleftrightarrow> False"
      if "p - 24 \<in> set bs" for x using that by blast
    show ?thesis
      using True find_payload_block_spec [OF bs(1), of p]
      by (auto simp: os_allocator_free_def Some Let_def no split: option.split)
  qed (auto simp: os_allocator_free_def Some Let_def)
qed (simp add: os_allocator_free_def)

lemma release_returns: "os_allocator_release_owner al H owner \<noteq> None"
proof (cases al)
  case (Some a)
  show ?thesis
  proof (cases "block_chain_valid (Some a) H")
    case True
    obtain bs where bs: "heap_shape a H bs" "seg a H 0 (unat (heap_begin a)) ([] @ bs) 0 (unat (heap_end a))"
      "0 < unat (heap_begin a)" "first_block a = head_or 0 bs"
      using True valid_shape by (metis append_Nil)
    have "unat (allocated_bytes a) = live_bytes H ([] @ bs)" using bs(1) by (simp add: heap_shape_def)
    then obtain total H' n where loop: "release_loop owner a H (head_or 0 bs) 0 =
        Some (a\<lparr>allocated_bytes := total, successful_frees := increment_saturating_times n (successful_frees a)\<rparr>, H', 0 + of_nat n)"
      "seg a H' 0 (unat (heap_begin a)) ([] @ bs) 0 (unat (heap_end a))"
      using release_loop_spec [OF bs(2,3) _ refl, of owner 0] by blast
    define a1 where "a1 = a\<lparr>allocated_bytes := total, successful_frees := increment_saturating_times n (successful_frees a)\<rparr>"
    have "seg a1 H' 0 (unat (heap_begin a)) bs 0 (unat (heap_end a))"
      using loop(2) seg_cong [of bs H' H' a1 a] by (simp add: a1_def)
    note coalesce_returns [OF bs(1) this a1_def]
    with loop(1) bs(4) show ?thesis
      unfolding a1_def [symmetric]
      by (auto simp: os_allocator_release_owner_def Some split: option.split)
  qed (simp add: os_allocator_release_owner_def Some)
qed (simp add: os_allocator_release_owner_def)

lemma inspection_returns:
  "os_allocator_get_stats al H st \<noteq> None" "os_allocator_count_fragments al H n \<noteq> None"
proof -
  have *: "stats_loop H (first_block a) t \<noteq> None \<and> fragments_loop H k (first_block a) c \<noteq> None"
    if "block_chain_valid (Some a) H" for a t k c
  proof -
    obtain bs where bs: "seg a H 0 (unat (heap_begin a)) bs 0 (unat (heap_end a))" "0 < unat (heap_begin a)"
      "first_block a = head_or 0 bs" using \<open>block_chain_valid (Some a) H\<close> valid_shape by blast
    show ?thesis unfolding bs(3) stats_loop_spec [OF bs(1,2)] fragments_loop_spec [OF bs(1,2)] by simp
  qed
  show "os_allocator_get_stats al H st \<noteq> None"
    by (auto simp: os_allocator_get_stats_def * split: option.split)
  show "os_allocator_count_fragments al H n \<noteq> None"
    by (auto simp: os_allocator_count_fragments_def * [simplified] split: option.split prod.split)
qed

text \<open>
  C23: no call of the allocator runs forever. On every state of the block headers, also one that a task
  has overwritten at will, every operation of the allocator returns.
\<close>

theorem allocator_calls_return:
  "os_allocator_alloc al H sz owner \<noteq> None \<and> os_allocator_free al H p owner \<noteq> None \<and>
   os_allocator_release_owner al H owner \<noteq> None \<and> os_allocator_get_stats al H st \<noteq> None \<and>
   os_allocator_count_fragments al H n \<noteq> None"
  by (intro conjI alloc_returns free_returns release_returns inspection_returns)

section \<open>A heap of 256 bytes\<close>

definition blank_block :: os_memory_block where
  "blank_block = \<lparr>marker = 0, block_capacity = 0, block_next = 0, block_previous = 0,
     block_owner = 0, block_allocated = 0, reserved = [0, 0, 0, 0, 0]\<rparr>"

definition demo_heap :: heap_state where
  "demo_heap = (case os_allocator_init (Some os_allocator_zero) (\<lambda>_. blank_block) 0x20000004 260 of
     (_, Some a, H) \<Rightarrow> (a, H) | (_, None, H) \<Rightarrow> (os_allocator_zero, H))"

lemma init_some: "\<exists>ok a H'. os_allocator_init (Some g) H arena sz = (ok, Some a, H')"
proof -
  have "fst (snd (os_allocator_init (Some g) H arena sz)) \<noteq> None"
    by (simp add: os_allocator_init_def Let_def)
  then show ?thesis by (cases "os_allocator_init (Some g) H arena sz") auto
qed

lemma demo_heap_init:
  "os_allocator_init (Some os_allocator_zero) (\<lambda>_. blank_block) 0x20000004 260 =
     (True, Some (fst demo_heap), snd demo_heap)"
proof -
  obtain ok a H' where run: "os_allocator_init (Some os_allocator_zero) (\<lambda>_. blank_block) 0x20000004 260 = (ok, Some a, H')"
    using init_some by blast
  have "ok" using init_outcome [OF run refl refl] by simp
  with run show ?thesis by (simp add: demo_heap_def)
qed

lemma demo_heap_ok:
  "heap_ok (fst demo_heap) (snd demo_heap)" "live_blocks (fst demo_heap) (snd demo_heap) = []"
  "chain (fst demo_heap) (snd demo_heap) = [heap_begin (fst demo_heap)]"
  "unat (heap_begin (fst demo_heap)) = 0x20000008" "unat (heap_end (fst demo_heap)) = 0x20000108"
  "allocated_bytes (fst demo_heap) = 0"
  using init_outcome [OF demo_heap_init refl refl] by simp_all

section \<open>Initialisation and validation\<close>

text \<open>
  Initialisation accepts an arena exactly when it is not null, does not wrap around the address
  space and still holds a header and eight bytes after both ends are rounded inwards to multiples
  of eight. An accepted arena becomes one free block that spans it; a refused one leaves an
  allocator of zeros.
\<close>

theorem os_allocator_init_correct:
  assumes "os_allocator_init (Some g) H arena sz = (ok, Some a, H')"
    and "lo = (unat arena + 7) div 8 * 8" and "hi = (unat arena + unat sz) div 8 * 8"
  shows "(ok \<longleftrightarrow> arena \<noteq> 0 \<and> unat arena + unat sz < 2 ^ 32 \<and> lo + 32 \<le> hi) \<and>
    (if ok then os_allocator_validate (Some a) H' \<and> heap_ok a H' \<and> live_blocks a H' = [] \<and>
       chain a H' = [heap_begin a] \<and> unat (heap_begin a) = lo \<and> unat (heap_end a) = hi
     else a = os_allocator_zero)"
  using init_outcome [OF assms] heap_okD(4) [of a H'] by (auto simp: os_allocator_validate_def)

lemma os_allocator_init_correct_witness:
  "os_allocator_validate (Some (fst demo_heap)) (snd demo_heap) \<and> unat (heap_begin (fst demo_heap)) = 0x20000008"
  using os_allocator_init_correct [OF demo_heap_init refl refl] by simp

text \<open>
  C20: the validator accepts exactly the well-formed heaps: those whose blocks, followed from the
  first, tile the arena from its begin to its end without a gap, each with its marker, its back
  link and an owner if and only if it is allocated, with the next-fit cursor on a block, the
  allocated bytes equal to the sum over the allocated blocks and no more than the watermark.
\<close>

theorem os_allocator_validate_exact:
  "os_allocator_validate (Some a) H \<longleftrightarrow>
     (\<exists>bs. heap_shape a H bs \<and> length bs \<le> unat (maximum_blocks a))"
  unfolding os_allocator_validate_def by (rule block_chain_valid_iff)

section \<open>Allocation and release\<close>

text \<open>
  C18: allocation. A request succeeds only if size and owner are valid, and then the new block is
  one more live block of that owner, big enough and less than 32 bytes too big, while every other
  live block stays as it was. A valid request fails only if no free block is large enough, and a
  failure changes nothing but its counter.
\<close>

theorem os_allocator_alloc_correct:
  assumes "heap_ok a H"
  shows "\<exists>p a' H'. os_allocator_alloc (Some a) H sz owner = Some (p, Some a', H') \<and> heap_ok a' H' \<and>
    (if p = 0 then H' = H \<and> a' = a\<lparr>failed_allocations := increment_saturating (failed_allocations a)\<rparr> \<and>
       (request_ok sz owner \<longrightarrow>
          (\<forall>b \<in> set (chain a H). free_block H b \<longrightarrow> cap H b < request_size sz))
     else request_ok sz owner \<and> (\<exists>c xs ys. live_blocks a H = xs @ ys \<and>
       live_blocks a' H' = xs @ [(p - 24, c, owner)] @ ys \<and>
       request_size sz \<le> unat c \<and> unat c < request_size sz + 32))"
  using assms by (rule alloc_outcome)

lemma demo_heap_cap: "cap (snd demo_heap) (heap_begin (fst demo_heap)) = 232"
  using heap_okD(5) [OF demo_heap_ok(1)] by (simp add: demo_heap_ok(3,4,5))

lemma os_allocator_alloc_correct_witness:
  "\<exists>p a' H'. os_allocator_alloc (Some (fst demo_heap)) (snd demo_heap) 20 3 = Some (p, Some a', H') \<and>
     heap_ok a' H' \<and> p \<noteq> 0 \<and> (\<exists>c. live_blocks a' H' = [(p - 24, c, 3)] \<and> 24 \<le> unat c)"
proof -
  have "request_ok 20 3" "request_size 20 = 24" by (simp_all add: request_ok_def request_size_def)
  moreover have "free_block (snd demo_heap) (heap_begin (fst demo_heap))"
    using demo_heap_ok(2,3) by (simp add: live_blocks_def live_Cons split: if_splits)
  ultimately show ?thesis
    using os_allocator_alloc_correct [OF demo_heap_ok(1), of 20 3]
    by (auto simp: demo_heap_ok(2,3) demo_heap_cap split: if_splits)
qed

text \<open>
  C19: freeing. The null pointer is accepted and changes nothing. Any other pointer is accepted
  exactly when it is the payload of a live block of the caller, so a foreign, a stale or an inner
  pointer and a second free are refused and counted; an accepted one removes exactly that block,
  leaves no two neighbouring free blocks and counts one release, no other.
\<close>

theorem os_allocator_free_correct:
  assumes "heap_ok a H"
  shows "\<exists>r a' H'. os_allocator_free (Some a) H ptr owner = Some (r, Some a', H') \<and> heap_ok a' H' \<and>
    (if ptr = 0 then r \<and> a' = a \<and> H' = H
     else (r \<longleftrightarrow> (\<exists>c. (ptr - 24, c, owner) \<in> set (live_blocks a H))) \<and>
       (if r then live_blocks a' H' = filter (\<lambda>x. fst x \<noteq> ptr - 24) (live_blocks a H) \<and>
          calm H' (chain a' H') \<and> counters_of a' = (\<lambda>(s, f, e, i). (s, increment_saturating f, e, i)) (counters_of a)
        else H' = H \<and> a' = a\<lparr>invalid_frees := increment_saturating (invalid_frees a)\<rparr>))"
  using assms by (rule free_outcome)

lemma os_allocator_free_correct_witness:
  "\<exists>a'. os_allocator_free (Some (fst demo_heap)) (snd demo_heap) 0x20000020 3 = Some (False, Some a', snd demo_heap) \<and>
     invalid_frees a' = increment_saturating (invalid_frees (fst demo_heap))"
  using os_allocator_free_correct [OF demo_heap_ok(1), of "0x20000020" 3]
  by (auto simp: demo_heap_ok(2))

text \<open>
  Releasing an owner, as the kernel does when a task exits. Exactly the live blocks of that
  owner disappear, their number is returned, and if there was one the heap is coalesced and the
  search starts again from the first block.
\<close>

theorem os_allocator_release_owner_correct:
  assumes "heap_ok a H" and "owner \<noteq> OS_MEMORY_OWNER_NONE"
    and "n = length (filter (owned_by owner) (live_blocks a H))"
  shows "\<exists>a' H'. os_allocator_release_owner (Some a) H owner = Some (of_nat n, Some a', H') \<and>
    heap_ok a' H' \<and>
    live_blocks a' H' = filter (\<lambda>x. \<not> owned_by owner x) (live_blocks a H) \<and>
    counters_of a' = (\<lambda>(s, f, e, i). (s, increment_saturating_times n f, e, i)) (counters_of a) \<and>
    (0 < n \<longrightarrow> calm H' (chain a' H') \<and> next_fit a' = first_block a')"
  using assms by (rule release_outcome)

lemma demo_heap_used:
  obtains p a H c where
    "os_allocator_alloc (Some (fst demo_heap)) (snd demo_heap) 20 3 = Some (p, Some a, H)"
    "heap_ok a H" "live_blocks a H = [(p - 24, c, 3)]"
proof -
  have req: "request_ok 20 3" "request_size 20 = 24" by (simp_all add: request_ok_def request_size_def)
  have "free_block (snd demo_heap) (heap_begin (fst demo_heap))"
    using demo_heap_ok(2,3) by (simp add: live_blocks_def live_Cons split: if_splits)
  with req alloc_outcome [OF demo_heap_ok(1), of 20 3] that show thesis
    by (auto simp: demo_heap_ok(2,3) demo_heap_cap split: if_splits)
qed

lemma os_allocator_release_owner_correct_witness:
  "\<exists>a H a' H'. live_blocks a H \<noteq> [] \<and>
     os_allocator_release_owner (Some a) H 3 = Some (1, Some a', H') \<and> live_blocks a' H' = []"
proof (rule demo_heap_used)
  fix p a H c
  assume "heap_ok a H" and live: "live_blocks a H = [(p - 24, c, 3)]"
  with os_allocator_release_owner_correct [of a H 3 1]
  obtain a' H' where "os_allocator_release_owner (Some a) H 3 = Some (1, Some a', H')" "live_blocks a' H' = []"
    by auto
  with live show ?thesis by (metis list.distinct(1))
qed

section \<open>Histories of calls\<close>

abbreviation heap_run :: "(u32, u32, os_memory_owner_t) store_op list \<Rightarrow> heap_state \<Rightarrow> heap_state" where
  "heap_run \<equiv> store_run acquire_block give_back_block release_blocks"

text \<open>
  C21: the payloads that a history of calls leaves live are aligned to eight bytes, lie inside the
  arena the heap was initialised with, and keep a distance of at least a header from each other, so
  no two of them overlap and no header lies in a payload.
\<close>

theorem heap_payloads_disjoint:
  assumes "state_ok s" and "t = heap_run ops s"
  shows "state_ok t \<and>
    sorted_wrt (\<lambda>x y. unat (fst x) + unat (fst (snd x)) + 24 \<le> unat (fst y)) (payloads t) \<and>
    (\<forall>(p, c, owner) \<in> set (payloads t). 8 dvd unat p \<and> 8 \<le> unat c \<and> owner \<noteq> OS_MEMORY_OWNER_NONE \<and>
       unat (heap_begin (fst s)) + 24 \<le> unat p \<and> unat p + unat c \<le> unat (heap_end (fst s)))"
proof -
  have "state_ok t" unfolding assms(2) by (rule heap.run_invar [OF assms(1)])
  moreover have "heap_begin (fst t) = heap_begin (fst s)" "heap_end (fst t) = heap_end (fst s)"
    using store_run_arena [of ops s] by (simp_all add: assms(2))
  ultimately show ?thesis using payloads_sound [of t] by fastforce
qed

lemma demo_heap_state: "state_ok demo_heap" "payloads demo_heap = []"
  by (simp_all add: state_ok_def payloads_def demo_heap_ok)

lemma heap_payloads_disjoint_witness:
  "state_ok (heap_run [Acquire 20 3, Acquire 5 4, Release_All 3, Acquire 40 4] demo_heap)"
  using heap_payloads_disjoint [OF demo_heap_state(1) refl, of "[Acquire 20 3, Acquire 5 4, Release_All 3, Acquire 40 4]"]
  by blast

text \<open>
  C22: tasks are isolated in the heap. Whatever other owners allocate, free, fail to free or
  release, the live blocks of an owner keep their address, size and owner.
\<close>

theorem heap_owner_isolation:
  assumes "state_ok s" and "\<forall>c \<in> set ops. op_owner c \<noteq> y"
  shows "filter (block_of y) (payloads (heap_run ops s)) = filter (block_of y) (payloads s)"
  using assms by (rule heap.run_isolation)

lemma heap_owner_isolation_witness:
  "\<exists>s p c. filter (block_of 3) (payloads s) = [(p, c, 3)] \<and>
     filter (block_of 3) (payloads (heap_run [Acquire 8 4, Give_Back p 4, Release_All 4] s)) = [(p, c, 3)]"
proof (rule demo_heap_used)
  fix p a H c
  assume ok: "heap_ok a H" and live: "live_blocks a H = [(p - 24, c, 3)]"
  let ?s = "(a, H)"
  have "state_ok ?s" using ok by (simp add: state_ok_def)
  moreover have "payloads ?s = [(p, c, 3)]" using live by (simp add: payloads_def payload_minus)
  ultimately show ?thesis
    using heap_owner_isolation [of ?s "[Acquire 8 4, Give_Back p 4, Release_All 4]" 3]
    by (intro exI [of _ ?s] exI [of _ p] exI [of _ c]) (simp del: store_run.simps)
qed

section \<open>Statistics\<close>

lemma unat_sum32:
  "(\<Sum>x\<leftarrow>xs. unat (f x)) < 2 ^ 32 \<Longrightarrow> unat (\<Sum>x\<leftarrow>xs. (f x :: u32)) = (\<Sum>x\<leftarrow>xs. unat (f x))"
  by (induction xs) (simp_all add: unat_add32)

lemma cap_split:
  "(\<Sum>b\<leftarrow>bs. cap H b) = live_bytes H bs + (\<Sum>b\<leftarrow>filter (free_block H) bs. cap H b)"
  "length bs = length (live H bs) + length (filter (free_block H) bs)"
  by (induction bs) (auto simp: live_Cons)

text \<open>
  The statistics account for every byte of the arena: headers and payloads add up to the heap
  size, allocated and free bytes add up to the payload capacity, the allocated bytes are those of
  the live blocks, and the largest free block is the largest.
\<close>

theorem os_allocator_stats_account:
  assumes "heap_ok a H"
  shows "\<exists>st. os_allocator_get_stats (Some a) H (Some st0) = Some (True, Some st) \<and>
    unat (st_heap_bytes st) = unat (heap_end a) - unat (heap_begin a) \<and>
    unat (st_heap_bytes st) = unat (st_payload_capacity_bytes st) +
      24 * (unat (st_allocated_blocks st) + unat (st_free_blocks st)) \<and>
    unat (st_payload_capacity_bytes st) = unat (st_allocated_bytes st) + unat (st_free_bytes st) \<and>
    unat (st_allocated_blocks st) = length (live_blocks a H) \<and>
    unat (st_allocated_bytes st) = (\<Sum>(b, c, owner) \<leftarrow> live_blocks a H. unat c) \<and>
    (\<forall>b \<in> set (chain a H). free_block H b \<longrightarrow> block_capacity (H b) \<le> st_largest_free_block_bytes st) \<and>
    (st_largest_free_block_bytes st = 0 \<or>
      (\<exists>b \<in> set (chain a H). free_block H b \<and> block_capacity (H b) = st_largest_free_block_bytes st)) \<and>
    unat (st_free_blocks st) = length (filter (free_block H) (chain a H)) \<and>
    counters_of a = (st_successful_allocations st, st_successful_frees st, st_failed_allocations st, st_invalid_frees st)"
proof -
  let ?bs = "chain a H"
  note ok = heap_okD [OF assms]
  have pos: "0 < unat (heap_begin a)" using ok(2) by (simp add: arena_ok_def)
  obtain cs where "?bs = first_block a # cs" using heap_shape_first [OF ok(1)] by blast
  then have first: "first_block a = head_or 0 ?bs" by simp
  have total: "unat (heap_begin a) + (24 * length ?bs + (\<Sum>b\<leftarrow>?bs. cap H b)) = unat (heap_end a)"
    using seg_sum [OF ok(5)] by (simp add: sum_list_addf sum_list_triv mult.commute)
  have small: "24 * length ?bs + (\<Sum>b\<leftarrow>?bs. cap H b) < 2 ^ 32"
    using total unat_less_2p(3) [of "heap_end a"] by simp
  have bytes: "unat (allocated_bytes a) = live_bytes H ?bs" using ok(1) by (simp add: heap_shape_def)
  define st where "st = os_memory_stats_zero
    \<lparr>st_heap_bytes := heap_end a - heap_begin a, st_allocated_bytes := allocated_bytes a,
     st_high_watermark_bytes := high_watermark_bytes a,
     st_successful_allocations := successful_allocations a,
     st_successful_frees := successful_frees a,
     st_failed_allocations := failed_allocations a, st_invalid_frees := invalid_frees a,
     st_payload_capacity_bytes := (\<Sum>b\<leftarrow>?bs. block_capacity (H b)),
     st_free_bytes := (\<Sum>b\<leftarrow>filter (free_block H) ?bs. block_capacity (H b)),
     st_largest_free_block_bytes := largest_free H ?bs 0,
     st_allocated_blocks := of_nat (length (live H ?bs)),
     st_free_blocks := of_nat (length (filter (free_block H) ?bs))\<rparr>"
  have run: "os_allocator_get_stats (Some a) H (Some st0) = Some (True, Some st)"
    using ok(3,4) by (simp add: os_allocator_get_stats_def first stats_loop_spec [OF ok(5) pos] st_def
        os_memory_stats_zero_def)
  have heap: "unat (st_heap_bytes st) = unat (heap_end a) - unat (heap_begin a)"
    using ok(2) by (simp add: st_def unat_sub_le arena_ok_def)
  have cap: "unat (st_payload_capacity_bytes st) = (\<Sum>b\<leftarrow>?bs. cap H b)"
    "unat (st_free_bytes st) = (\<Sum>b\<leftarrow>filter (free_block H) ?bs. cap H b)"
    "unat (st_allocated_blocks st) = length (live H ?bs)"
    "unat (st_free_blocks st) = length (filter (free_block H) ?bs)"
    using small cap_split [where H = H and bs = ?bs]
    by (simp_all add: st_def unat_sum32 unat_of_nat32)
  have alloc: "unat (st_allocated_bytes st) = live_bytes H ?bs"
    by (simp add: st_def bytes)
  have blocks: "unat (st_heap_bytes st) = unat (st_payload_capacity_bytes st) +
      24 * (unat (st_allocated_blocks st) + unat (st_free_blocks st))"
    unfolding heap cap using total cap_split(2) [of ?bs H] by simp
  have bytes_sum: "unat (st_payload_capacity_bytes st) = unat (st_allocated_bytes st) + unat (st_free_bytes st)"
    unfolding cap alloc by (rule cap_split(1))
  have large: "st_largest_free_block_bytes st = largest_free H ?bs 0" by (simp add: st_def)
  have ge: "\<forall>b \<in> set ?bs. free_block H b \<longrightarrow> block_capacity (H b) \<le> st_largest_free_block_bytes st"
    unfolding large using largest_free_ge by blast
  have largest_in: "st_largest_free_block_bytes st = 0 \<or>
      (\<exists>b \<in> set ?bs. free_block H b \<and> block_capacity (H b) = st_largest_free_block_bytes st)"
    unfolding large using largest_free_in [of H ?bs 0] by metis
  have count: "unat (st_allocated_blocks st) = length (live_blocks a H)"
    unfolding cap by (simp add: live_blocks_def)
  have sum: "unat (st_allocated_bytes st) = (\<Sum>(b, c, owner) \<leftarrow> live_blocks a H. unat c)"
    unfolding alloc by (simp add: live_blocks_def live_bytes_def)
  have counters: "counters_of a = (st_successful_allocations st, st_successful_frees st, st_failed_allocations st, st_invalid_frees st)"
    by (simp add: counters_of_def st_def)
  show ?thesis
    by (intro exI [of _ st] conjI) (fact run heap blocks bytes_sum count sum ge largest_in cap(4) counters)+
qed

lemma os_allocator_stats_account_witness:
  "\<exists>st. os_allocator_get_stats (Some (fst demo_heap)) (snd demo_heap) (Some os_memory_stats_zero) = Some (True, Some st) \<and>
    unat (st_heap_bytes st) = 256 \<and> unat (st_allocated_blocks st) = 0"
  using os_allocator_stats_account [OF demo_heap_ok(1), of os_memory_stats_zero]
  by (auto simp: demo_heap_ok(2,4,5))

section \<open>No fragmentation is left behind\<close>

lemma calm_pristine:
  assumes "heap_ok a H" and "calm H (chain a H)" and "live_blocks a H = []"
  shows "chain a H = [heap_begin a] \<and> cap H (heap_begin a) = unat (heap_end a) - unat (heap_begin a) - 24"
proof -
  note ok = heap_okD [OF assms(1)]
  have "first_block a = heap_begin a" using ok(2) by (simp add: arena_ok_def)
  then obtain cs where cs: "chain a H = heap_begin a # cs" using heap_shape_first [OF ok(1)] by auto
  then have "chain a H = [heap_begin a]"
    using calm_all_free [OF assms(2)] assms(3) by (auto simp: live_blocks_def)
  moreover from this ok(5) have "unat (heap_begin a) + 24 + cap H (heap_begin a) = unat (heap_end a)" by simp
  ultimately show ?thesis by linarith
qed

text \<open>
  A heap whose last block goes is as good as new: when a free or the release of an owner leaves
  no live block, the whole arena is one free block again.
\<close>

theorem heap_reclaimed:
  assumes "heap_ok a H" and "live_blocks a H \<noteq> []" and "live_blocks a' H' = []"
    and "os_allocator_free (Some a) H ptr owner = Some (r, Some a', H') \<or>
      os_allocator_release_owner (Some a) H owner = Some (k, Some a', H')"
  shows "chain a' H' = [heap_begin a] \<and> heap_end a' = heap_end a \<and>
    cap H' (heap_begin a) = unat (heap_end a) - unat (heap_begin a) - 24"
proof -
  have "heap_ok a' H' \<and> calm H' (chain a' H') \<and> arena_of a' = arena_of a"
    using assms(4)
  proof
    assume run: "os_allocator_free (Some a) H ptr owner = Some (r, Some a', H')"
    then have "ptr \<noteq> 0 \<and> r"
      using free_outcome [OF assms(1), of ptr owner] assms(2,3)
      by (auto simp: live_blocks_def chain_def maximum_blocks_def split: if_splits)
    with run free_outcome [OF assms(1), of ptr owner] free_arena [OF run] show ?thesis by auto
  next
    assume run: "os_allocator_release_owner (Some a) H owner = Some (k, Some a', H')"
    have owner: "owner \<noteq> OS_MEMORY_OWNER_NONE"
      using run assms(2,3) by (auto simp: os_allocator_release_owner_def)
    obtain x xs where x: "live_blocks a H = x # xs" using assms(2) by (cases "live_blocks a H") auto
    from run release_outcome [OF assms(1) owner refl] assms(3)
    have *: "heap_ok a' H'" "filter (\<lambda>x. \<not> owned_by owner x) (live_blocks a H) = []"
      "0 < length (filter (owned_by owner) (live_blocks a H)) \<longrightarrow> calm H' (chain a' H')"
      by auto
    from *(2) x have "0 < length (filter (owned_by owner) (live_blocks a H))"
      by (auto split: if_splits)
    with * release_arena [OF run] show ?thesis by simp
  qed
  with calm_pristine [of a' H'] assms(3) show ?thesis by auto
qed

lemma heap_reclaimed_witness:
  "\<exists>a H a' H' k. live_blocks a H \<noteq> [] \<and>
     os_allocator_release_owner (Some a) H 3 = Some (k, Some a', H') \<and> chain a' H' = [heap_begin a]"
proof (rule demo_heap_used)
  fix p a H c
  assume ok: "heap_ok a H" and live: "live_blocks a H = [(p - 24, c, 3)]"
  obtain a' H' where run: "os_allocator_release_owner (Some a) H 3 = Some (1, Some a', H')" "live_blocks a' H' = []"
    using release_outcome [OF ok, of 3 1] live by auto
  with heap_reclaimed [OF ok, of a' H' 0 3 True 1] live
  have "live_blocks a H \<noteq> [] \<and> os_allocator_release_owner (Some a) H 3 = Some (1, Some a', H') \<and>
      chain a' H' = [heap_begin a]" by simp
  then show ?thesis by blast
qed

end
