(* ===== verification/Kernel.thy ===== *)
theory Kernel
  imports Trace_Select Allocator
begin

text \<open>
  The kernel: \<open>kernel/src/kernel.c\<close> with the types of \<open>kernel/include/aymos_kernel.h\<close>. The static
  variables of the file, the registers it reads and writes, the task stacks and the block headers
  of the heap are one record; every function is a definition on it, in which a kernel panic, from
  which the code never returns, is \<open>Inl\<close> of the reason. \<open>platform\<close> holds what other files and
  the linker supply: symbol addresses, the code in flash and the vendor call that sets an
  interrupt priority. A trace ring of \<open>None\<close> is a build without \<open>AYMOS_TRACE_ENABLED\<close>.
\<close>

section \<open>Types\<close>

abbreviation OS_TASK_COUNT :: nat where "OS_TASK_COUNT \<equiv> 5"
abbreviation OS_TASK_COUNT32 :: u32 where "OS_TASK_COUNT32 \<equiv> 5"
abbreviation OS_MIN_STACK_SIZE :: u32 where "OS_MIN_STACK_SIZE \<equiv> 256"
abbreviation OS_MAX_STACK_SIZE :: u32 where "OS_MAX_STACK_SIZE \<equiv> 1024"
abbreviation OS_MAX_SLEEP_TICKS :: u32 where "OS_MAX_SLEEP_TICKS \<equiv> OS_MAX_TIME_INTERVAL"
abbreviation OS_XPSR_THUMB :: u32 where "OS_XPSR_THUMB \<equiv> 0x1000000"
abbreviation OS_EXC_RETURN_THREAD_MSP :: u32 where "OS_EXC_RETURN_THREAD_MSP \<equiv> 0xFFFFFFF9"
abbreviation OS_EXC_RETURN_THREAD_PSP :: u32 where "OS_EXC_RETURN_THREAD_PSP \<equiv> 0xFFFFFFFD"
abbreviation OS_SVC_START :: u8 where "OS_SVC_START \<equiv> 0"
abbreviation OS_SVC_YIELD :: u8 where "OS_SVC_YIELD \<equiv> 1"
abbreviation OS_SVC_SLEEP :: u8 where "OS_SVC_SLEEP \<equiv> 2"
abbreviation OS_SVC_EXIT :: u8 where "OS_SVC_EXIT \<equiv> 3"
abbreviation OS_SVC_WAIT_NEXT_PERIOD :: u8 where "OS_SVC_WAIT_NEXT_PERIOD \<equiv> 4"
abbreviation OS_PRIORITY_SVC :: u32 where "OS_PRIORITY_SVC \<equiv> 0x80"
abbreviation OS_PRIORITY_SYSTICK :: u32 where "OS_PRIORITY_SYSTICK \<equiv> 0xE0"
abbreviation OS_PRIORITY_PENDSV :: u32 where "OS_PRIORITY_PENDSV \<equiv> 0xF0"
abbreviation OS_SWITCH_START :: u32 where "OS_SWITCH_START \<equiv> 1"
abbreviation OS_SWITCH_YIELD :: u32 where "OS_SWITCH_YIELD \<equiv> 2"
abbreviation OS_SWITCH_SLEEP :: u32 where "OS_SWITCH_SLEEP \<equiv> 3"
abbreviation OS_SWITCH_EXIT :: u32 where "OS_SWITCH_EXIT \<equiv> 4"
abbreviation OS_SWITCH_WAIT_PERIOD :: u32 where "OS_SWITCH_WAIT_PERIOD \<equiv> 5"
abbreviation OS_SWITCH_SYSTICK_PREEMPT :: u32 where "OS_SWITCH_SYSTICK_PREEMPT \<equiv> 6"
abbreviation OS_SWITCH_RUNTIME_CREATE :: u32 where "OS_SWITCH_RUNTIME_CREATE \<equiv> 7"
abbreviation OS_SWITCH_COALESCED_PREEMPT :: u32 where "OS_SWITCH_COALESCED_PREEMPT \<equiv> 8"
abbreviation OS_PREEMPT_SOURCE_SYSTICK :: u32 where "OS_PREEMPT_SOURCE_SYSTICK \<equiv> 1"
abbreviation OS_PREEMPT_SOURCE_RUNTIME_CREATE :: u32 where "OS_PREEMPT_SOURCE_RUNTIME_CREATE \<equiv> 2"
abbreviation OS_FLASH_START :: u32 where "OS_FLASH_START \<equiv> 0x08000000"
abbreviation OS_FLASH_END :: u32 where "OS_FLASH_END \<equiv> 0x08080000"
abbreviation TRACE_CAPACITY :: u32 where "TRACE_CAPACITY \<equiv> 256"
abbreviation SCB_CCR_STKALIGN_Msk :: u32 where "SCB_CCR_STKALIGN_Msk \<equiv> 0x200"
abbreviation CONTROL_SPSEL_Msk :: u32 where "CONTROL_SPSEL_Msk \<equiv> 2"

datatype irqn = SVCall_IRQn | SysTick_IRQn | PendSV_IRQn

record os_tcb =
  entry :: u32
  argument :: u32
  saved_psp :: u32
  stack_low :: u32
  stack_high :: u32
  stack_claimed :: bool
  started :: bool

record os_task_config =
  tc_entry :: u32
  tc_argument :: u32
  tc_stack_size :: u32
  tc_timing :: os_task_timing_config

record os_task_info_t =
  info_id :: os_task_id_t
  info_state :: os_task_state
  info_kind :: os_task_kind
  info_release_order :: u64
  info_next_release_order :: u64
  info_wake_order :: u64
  info_absolute_deadline_order :: u64
  info_release_tick :: u32
  info_next_release_tick :: u32
  info_wake_tick :: u32
  info_period_ticks :: u32
  info_relative_deadline_ticks :: u32
  info_absolute_deadline_tick :: u32
  info_execution_budget_ticks :: u32
  info_total_execution_ticks :: u32
  info_job_execution_ticks :: u32
  info_completed_job_count :: u32
  info_deadline_miss_count :: u32
  info_missed_release_count :: u32
  info_job_sequence :: u32
  info_priority :: u8
  info_job_active :: bool

text \<open>Addresses of the linker and of functions, the code in flash, and the vendor's priority call.\<close>

record platform =
  stacks_address :: u32
  heap_start_symbol :: u32
  heap_end_symbol :: u32
  msp_stack_limit :: u32
  msp_stack_top :: u32
  idle_entry_address :: u32
  trampoline_address :: u32
  return_guard_address :: u32
  trace_storage_address :: u32
  flash_halfword :: "u32 \<Rightarrow> u16"
  HAL_NVIC_SetPriority :: "irqn \<Rightarrow> u32 \<Rightarrow> u32 \<Rightarrow> (irqn \<Rightarrow> u32) \<Rightarrow> irqn \<Rightarrow> u32"

text \<open>The state. \<open>ram\<close> maps the address of an aligned word of a stack to its value.\<close>

record kernel =
  tasks :: "os_tcb list"
  schedules :: "os_sched_task list"
  current_task :: os_task_id_t
  yield_excluded_task :: os_task_id_t
  pending_switch_cause :: u32
  pending_preempt_sources :: u32
  monotonic_ticks :: u64
  reclaim_counter :: u32
  last_reclaimed :: os_task_id_t
  memory_allocator :: os_allocator
  kernel_initialized :: bool
  running :: bool
  has_active_context :: u32
  trace_ring :: "os_trace_ring option"
  memory_blocks :: os_heap
  ram :: "u32 \<Rightarrow> u32"
  pendsv_set :: bool
  ccr :: u32
  nvic_priority :: "irqn \<Rightarrow> u32"
  ipsr :: u32
  primask :: u32
  control :: u32
  psp :: u32
  msp :: u32

type_synonym 'a outcome = "string + 'a"

definition on_ok :: "'a outcome \<Rightarrow> ('a \<Rightarrow> 'b outcome) \<Rightarrow> 'b outcome" where
  "on_ok r f = (case r of Inl reason \<Rightarrow> Inl reason | Inr x \<Rightarrow> f x)"

definition os_kernel_panic :: "string \<Rightarrow> 'a outcome" where
  "os_kernel_panic reason = Inl reason"

text \<open>A body between \<open>__disable_irq()\<close> and \<open>__set_PRIMASK(saved_primask)\<close>.\<close>

definition masked :: "(kernel \<Rightarrow> ('r \<times> kernel) outcome) \<Rightarrow> kernel \<Rightarrow> ('r \<times> kernel) outcome" where
  "masked body k = on_ok (body (k\<lparr>primask := 1\<rparr>)) (\<lambda>(r, k'). Inr (r, k'\<lparr>primask := primask k\<rparr>))"

section \<open>Access to the tables\<close>

definition sched :: "kernel \<Rightarrow> os_task_id_t \<Rightarrow> os_sched_task" where
  "sched k i = schedules k ! unat i"

definition tcb :: "kernel \<Rightarrow> os_task_id_t \<Rightarrow> os_tcb" where
  "tcb k i = tasks k ! unat i"

definition set_tcb :: "os_task_id_t \<Rightarrow> (os_tcb \<Rightarrow> os_tcb) \<Rightarrow> kernel \<Rightarrow> kernel" where
  "set_tcb i f k = k\<lparr>tasks := (tasks k)[unat i := f (tcb k i)]\<rparr>"

text \<open>A call \<open>f(&schedules[id], ...)\<close>.\<close>

definition sched_call ::
  "(os_sched_task option \<Rightarrow> 'r \<times> os_sched_task option) \<Rightarrow> os_task_id_t \<Rightarrow> kernel \<Rightarrow> 'r \<times> kernel" where
  "sched_call f i k = (let (r, t) = call_ptr f (sched k i)
     in (r, k\<lparr>schedules := (schedules k)[unat i := t]\<rparr>))"

section \<open>Tracing\<close>

definition os_trace_runtime_init :: "platform \<Rightarrow> kernel \<Rightarrow> kernel outcome" where
  "os_trace_runtime_init P k = (case trace_ring k of None \<Rightarrow> Inr k
   | Some r \<Rightarrow> (let (ok, r') = call_ptr (\<lambda>p. os_trace_ring_init p (trace_storage_address P) TRACE_CAPACITY) r
       in if \<not> ok then os_kernel_panic ''TRACE_INIT'' else Inr (k\<lparr>trace_ring := Some r'\<rparr>)))"

definition trace_emit ::
  "os_trace_event \<Rightarrow> u16 \<Rightarrow> u16 \<Rightarrow> u32 \<Rightarrow> u32 \<Rightarrow> u32 \<Rightarrow> kernel \<Rightarrow> kernel" where
  "trace_emit event task related value0 value1 value2 k = k\<lparr>trace_ring := map_option
     (\<lambda>r. snd (os_trace_emit (monotonic_ticks k) event task related value0 value1 value2 r))
     (trace_ring k)\<rparr>"

definition trace_emit_selection ::
  "os_task_id_t \<Rightarrow> os_task_id_t \<Rightarrow> os_task_id_t \<Rightarrow> os_trace_select_purpose \<Rightarrow> kernel \<Rightarrow> kernel" where
  "trace_emit_selection selected incumbent excluded purpose k = k\<lparr>trace_ring := map_option
     (\<lambda>r. os_trace_emit_selection (monotonic_ticks k) (Some (schedules k)) OS_TASK_COUNT32
        selected incumbent excluded purpose r) (trace_ring k)\<rparr>"

definition trace_deadline :: "os_trace_event \<Rightarrow> os_task_id_t \<Rightarrow> kernel \<Rightarrow> kernel" where
  "trace_deadline event i k =
     (let deadline = absolute_deadline_order (sched k i)
      in trace_emit event (ucast i) OS_TRACE_TASK_INVALID (ucast deadline)
           (ucast (drop_bit 32 deadline)) (job_sequence (sched k i)) k)"

definition trace_task :: "os_task_id_t \<Rightarrow> u16" where
  "trace_task i = (if i = OS_TASK_ID_INVALID then OS_TRACE_TASK_INVALID else ucast i)"

definition trace_pointer_offset :: "platform \<Rightarrow> u32 \<Rightarrow> u32" where
  "trace_pointer_offset P pointer =
     (if pointer = 0 then UINT32_MAX
      else if pointer < heap_start_symbol P \<or> pointer \<ge> heap_end_symbol P then UINT32_MAX
      else pointer - heap_start_symbol P)"

section \<open>Helpers\<close>

definition reset_task :: "os_task_id_t \<Rightarrow> kernel \<Rightarrow> kernel" where
  "reset_task i k =
     (let k1 = set_tcb i (\<lambda>t. t\<lparr>entry := 0, argument := 0, saved_psp := 0, stack_low := 0,
            stack_high := 0, stack_claimed := False, started := False\<rparr>) k
      in snd (sched_call (\<lambda>p. ((), os_sched_task_reset p i)) i k1))"

definition transition_task ::
  "os_task_id_t \<Rightarrow> os_task_state \<Rightarrow> os_task_state \<Rightarrow> string \<Rightarrow> kernel \<Rightarrow> kernel outcome" where
  "transition_task i expected next reason k =
     (if unat i \<ge> OS_TASK_COUNT then os_kernel_panic reason
      else let (moved, k') = sched_call (\<lambda>p. os_sched_transition p expected next) i k
           in if \<not> moved then os_kernel_panic reason else Inr k')"

definition build_initial_frame :: "platform \<Rightarrow> os_task_id_t \<Rightarrow> kernel \<Rightarrow> (u32 \<times> kernel) outcome" where
  "build_initial_frame P i k =
     (let t = tcb k i
      in if stack_low t = 0 \<or> stack_high t = 0 \<or> stack_low t AND 7 \<noteq> 0 \<or> stack_high t AND 7 \<noteq> 0 \<or>
            stack_high t - stack_low t < 16 * 4
         then os_kernel_panic ''STACK_LAYOUT''
         else
           let frame = stack_high t - 16 * 4;
               m = fold (\<lambda>index m. m(frame + 4 * of_nat index := 0)) [0..<16] (ram k);
               m' = m(frame + 4 * 8 := argument t, frame + 4 * 13 := return_guard_address P,
                      frame + 4 * 14 := trampoline_address P, frame + 4 * 15 := OS_XPSR_THUMB)
           in Inr (frame, k\<lparr>ram := m'\<rparr>))"

definition request_pendsv :: "kernel \<Rightarrow> kernel" where
  "request_pendsv k = k\<lparr>pendsv_set := True\<rparr>"

text \<open>The counting loop of \<open>verify_state\<close>: \<open>running_count\<close> and \<open>running_id\<close>.\<close>

fun verify_loop :: "os_sched_task list \<Rightarrow> nat list \<Rightarrow> u32 \<times> os_task_id_t \<Rightarrow> u32 \<times> os_task_id_t" where
  "verify_loop ss [] acc = acc"
| "verify_loop ss (i # rest) (running_count, running_id) =
     verify_loop ss rest (if state (ss ! i) = OS_TASK_RUNNING then (running_count + 1, of_nat i)
                          else (running_count, running_id))"

definition verify_state :: "string \<Rightarrow> kernel \<Rightarrow> unit outcome" where
  "verify_state reason k =
     (let (running_count, running_id) = verify_loop (schedules k) [0..<OS_TASK_COUNT] (0, OS_TASK_ID_INVALID)
      in if (\<not> running k \<and> running_count \<noteq> 0) \<or>
            (running k \<and> has_active_context k \<noteq> 0 \<and>
             (running_count \<noteq> 1 \<or> running_id \<noteq> current_task k))
         then os_kernel_panic reason else Inr ())"

definition valid_exc_return :: "u32 \<Rightarrow> bool" where
  "valid_exc_return exc_return \<longleftrightarrow>
     exc_return = OS_EXC_RETURN_THREAD_MSP \<or> exc_return = OS_EXC_RETURN_THREAD_PSP"

definition valid_saved_psp :: "os_task_id_t \<Rightarrow> u32 \<Rightarrow> kernel \<Rightarrow> bool" where
  "valid_saved_psp i address k =
     (if unat i \<ge> OS_TASK_COUNT \<or> address = 0 \<or> stack_low (tcb k i) = 0 \<or> stack_high (tcb k i) = 0
      then False
      else
        let low = stack_low (tcb k i); high = stack_high (tcb k i); frame_bytes = 16 * 4
        in high \<ge> low \<and> high - low \<ge> frame_bytes \<and> address AND 7 = 0 \<and> address \<ge> low \<and>
           address \<le> high - frame_bytes)"

definition valid_svc_frame :: "platform \<Rightarrow> u32 \<Rightarrow> u32 \<Rightarrow> kernel \<Rightarrow> bool" where
  "valid_svc_frame P frame exc_return k =
     (if frame = 0 \<or> frame AND 7 \<noteq> 0 \<or> \<not> valid_exc_return exc_return then False
      else
        let frame_end = frame + 8 * 4
        in if frame_end < frame then False
           else if exc_return = OS_EXC_RETURN_THREAD_MSP
           then frame \<ge> msp_stack_limit P \<and> frame_end \<le> msp_stack_top P
           else current_task k \<noteq> OS_TASK_ID_INVALID \<and> frame \<ge> stack_low (tcb k (current_task k)) \<and>
                frame_end \<le> stack_high (tcb k (current_task k)))"

definition decode_svc :: "platform \<Rightarrow> u32 \<Rightarrow> u32 \<Rightarrow> kernel \<Rightarrow> u8 outcome" where
  "decode_svc P frame exc_return k =
     (if \<not> valid_svc_frame P frame exc_return k \<or> ram k (frame + 4 * 7) AND OS_XPSR_THUMB = 0 \<or>
         ram k (frame + 4 * 7) AND 0x1FF \<noteq> 0
      then os_kernel_panic ''SVC_FRAME''
      else
        let return_pc = ram k (frame + 4 * 6)
        in if return_pc AND 1 \<noteq> 0 \<or> return_pc < OS_FLASH_START + 2 \<or> return_pc \<ge> OS_FLASH_END
           then os_kernel_panic ''SVC_PC''
           else
             let instruction = flash_halfword P (return_pc - 2)
             in if instruction AND 0xFF00 \<noteq> 0xDF00 then os_kernel_panic ''SVC_OPCODE''
                else Inr (ucast (instruction AND 0x00FF)))"

definition caller_is_running_task :: "kernel \<Rightarrow> bool" where
  "caller_is_running_task k \<longleftrightarrow> running k \<and> unat (current_task k) < OS_TASK_COUNT \<and>
     state (sched k (current_task k)) = OS_TASK_RUNNING \<and> has_active_context k \<noteq> 0"

definition record_preemption_request :: "u32 \<Rightarrow> kernel \<Rightarrow> kernel outcome" where
  "record_preemption_request source k =
     (if source \<noteq> OS_PREEMPT_SOURCE_SYSTICK \<and> source \<noteq> OS_PREEMPT_SOURCE_RUNTIME_CREATE
      then os_kernel_panic ''PREEMPT_SOURCE''
      else
        let sources = pending_preempt_sources k OR source;
            k1 = k\<lparr>pending_preempt_sources := sources\<rparr>
        in if sources = OS_PREEMPT_SOURCE_SYSTICK
           then Inr (k1\<lparr>pending_switch_cause := OS_SWITCH_SYSTICK_PREEMPT\<rparr>)
           else if sources = OS_PREEMPT_SOURCE_RUNTIME_CREATE
           then Inr (k1\<lparr>pending_switch_cause := OS_SWITCH_RUNTIME_CREATE\<rparr>)
           else if sources = OS_PREEMPT_SOURCE_SYSTICK OR OS_PREEMPT_SOURCE_RUNTIME_CREATE
           then Inr (k1\<lparr>pending_switch_cause := OS_SWITCH_COALESCED_PREEMPT\<rparr>)
           else os_kernel_panic ''PREEMPT_MASK'')"

text \<open>
  \<open>None\<close> is a heap call that never returns; the allocator's theory shows that there is none.
\<close>

definition returned :: "'a option \<Rightarrow> 'a outcome" where
  "returned r = (case r of None \<Rightarrow> os_kernel_panic ''LOOP'' | Some x \<Rightarrow> Inr x)"

definition set_heap :: "os_allocator option \<Rightarrow> os_heap \<Rightarrow> kernel \<Rightarrow> kernel" where
  "set_heap al H k = k\<lparr>memory_allocator := (case al of None \<Rightarrow> memory_allocator k | Some a \<Rightarrow> a),
     memory_blocks := H\<rparr>"

definition reclaim_exiting_task :: "os_task_id_t \<Rightarrow> kernel \<Rightarrow> kernel outcome" where
  "reclaim_exiting_task i k =
     (if i = OS_TASK_ID_IDLE \<or> unat i \<ge> OS_TASK_COUNT \<or> state (sched k i) \<noteq> OS_TASK_EXITING \<or>
         \<not> stack_claimed (tcb k i)
      then os_kernel_panic ''RECLAIM''
      else if \<not> os_allocator_validate (Some (memory_allocator k)) (memory_blocks k)
      then os_kernel_panic ''HEAP_RECLAIM''
      else on_ok (returned (os_allocator_release_owner (Some (memory_allocator k)) (memory_blocks k) (ucast i)))
        (\<lambda>(released, al, H).
          let k1 = set_heap al H k;
              k2 = (if released \<noteq> 0 then trace_emit OS_TRACE_OWNER_RELEASE (ucast i)
                       OS_TRACE_TASK_INVALID released (ucast i) 1 k1 else k1)
          in if \<not> os_allocator_validate (Some (memory_allocator k2)) (memory_blocks k2)
             then os_kernel_panic ''HEAP_RELEASE''
             else on_ok (transition_task i OS_TASK_EXITING OS_TASK_DORMANT ''RECLAIM_STATE'' k2) (\<lambda>k3.
               let k4 = reset_task i k3
               in Inr (k4\<lparr>last_reclaimed := i, reclaim_counter := reclaim_counter k4 + 1\<rparr>))))"

end
