(* ===== verification/Kernel_Api.thy ===== *)
theory Kernel_Api
  imports Kernel
begin

text \<open>
  The operations of \<open>kernel/src/kernel.c\<close>: initialisation, task creation, the calls of a task,
  and the three entry points of the hardware, the supervisor call, the context switch and the
  tick. The C results 1 and 0 are \<open>True\<close> and \<open>False\<close>. A library call that ends in an \<open>svc\<close>
  instruction returns the service number and the argument in \<open>r0\<close>.
\<close>

section \<open>Start-up\<close>

definition os_kernel_init :: "platform \<Rightarrow> kernel \<Rightarrow> (bool \<times> kernel) outcome" where
  "os_kernel_init P k =
     (if kernel_initialized k \<or> running k then Inr (False, k)
      else
        let k1 = fold (\<lambda>i. reset_task (of_nat i)) [0..<OS_TASK_COUNT] k;
            k2 = set_tcb OS_TASK_ID_IDLE (\<lambda>t. t\<lparr>entry := idle_entry_address P, argument := 0\<rparr>) k1
        in on_ok (transition_task OS_TASK_ID_IDLE OS_TASK_DORMANT OS_TASK_READY ''IDLE_READY'' k2) (\<lambda>k3.
          let k4 = set_tcb OS_TASK_ID_IDLE (\<lambda>t. t\<lparr>stack_claimed := True, stack_low := stacks_address P,
                     stack_high := stacks_address P + OS_MAX_STACK_SIZE\<rparr>) k3
          in on_ok (build_initial_frame P OS_TASK_ID_IDLE k4) (\<lambda>(frame, k5).
          let k6 = set_tcb OS_TASK_ID_IDLE (\<lambda>t. t\<lparr>saved_psp := frame\<rparr>) k5;
              k7 = k6\<lparr>monotonic_ticks := 0, reclaim_counter := 0, last_reclaimed := OS_TASK_ID_INVALID,
                     current_task := OS_TASK_ID_INVALID, yield_excluded_task := OS_TASK_ID_INVALID,
                     pending_switch_cause := 0, pending_preempt_sources := 0, has_active_context := 0\<rparr>
          in on_ok (os_trace_runtime_init P k7) (\<lambda>k8.
          let heap_begin = heap_start_symbol P; heap_end = heap_end_symbol P;
              (ok, al, H) = os_allocator_init (Some (memory_allocator k8)) (memory_blocks k8) heap_begin
                              (heap_end - heap_begin)
          in if heap_end \<le> heap_begin \<or> \<not> ok then os_kernel_panic ''HEAP_INIT''
             else
               let k9 = (set_heap al H k8)\<lparr>ccr := ccr k8 OR SCB_CCR_STKALIGN_Msk,
                     nvic_priority :=
                       HAL_NVIC_SetPriority P PendSV_IRQn (drop_bit 4 OS_PRIORITY_PENDSV) 0
                        (HAL_NVIC_SetPriority P SysTick_IRQn (drop_bit 4 OS_PRIORITY_SYSTICK) 0
                          (HAL_NVIC_SetPriority P SVCall_IRQn (drop_bit 4 OS_PRIORITY_SVC) 0
                            (nvic_priority k8))),
                     kernel_initialized := True\<rparr>
               in on_ok (verify_state ''INIT'' k9) (\<lambda>_. Inr (True, k9))))))"

definition os_task_config_default :: "u32 \<Rightarrow> u32 \<Rightarrow> os_task_config" where
  "os_task_config_default entry_address arg =
     \<lparr>tc_entry = entry_address, tc_argument = arg, tc_stack_size = OS_MAX_STACK_SIZE,
      tc_timing = \<lparr>cfg_kind = OS_TASK_ONE_SHOT, cfg_initial_release_delay_ticks = 0,
        cfg_period_ticks = 0, cfg_relative_deadline_ticks = 1, cfg_execution_budget_ticks = 0,
        cfg_priority = 128\<rparr>\<rparr>"

section \<open>Task creation\<close>

text \<open>The search for a free slot.\<close>

fun free_slot_loop :: "kernel \<Rightarrow> nat list \<Rightarrow> os_task_id_t" where
  "free_slot_loop k [] = OS_TASK_ID_INVALID"
| "free_slot_loop k (candidate # rest) =
     (if state (schedules k ! candidate) = OS_TASK_DORMANT \<and> \<not> stack_claimed (tasks k ! candidate)
      then of_nat candidate else free_slot_loop k rest)"

definition creator_allowed :: "kernel \<Rightarrow> bool" where
  "creator_allowed k \<longleftrightarrow>
     \<not> (running k \<and> (\<not> caller_is_running_task k \<or> current_task k = OS_TASK_ID_IDLE))"

text \<open>The events of a creation and the request for a switch when the new task outranks its creator.\<close>

definition announce_task :: "os_task_id_t \<Rightarrow> kernel \<Rightarrow> kernel outcome" where
  "announce_task i k =
     (let creator = (if running k then current_task k else OS_TASK_ID_INVALID);
          k1 = trace_emit OS_TRACE_TASK_CREATE (ucast i) (trace_task creator)
                 (case kind (sched k i) of OS_TASK_ONE_SHOT \<Rightarrow> 0 | OS_TASK_PERIODIC \<Rightarrow> 1
                  | OS_TASK_KIND_OTHER v \<Rightarrow> v)
                 (ucast (priority (sched k i))) (task_state_value (state (sched k i))) k;
          k2 = (if state (sched k1 i) = OS_TASK_READY then trace_deadline OS_TRACE_TASK_RELEASE i k1
                else k1)
      in if running k2 \<and> state (sched k2 i) = OS_TASK_READY \<and>
            os_sched_outranks (Some (sched k2 i)) (Some (sched k2 (current_task k2)))
         then on_ok (record_preemption_request OS_PREEMPT_SOURCE_RUNTIME_CREATE
                (trace_emit_selection i (current_task k2) OS_TASK_ID_INVALID
                   OS_TRACE_SELECT_RUNTIME_CREATE_PROBE k2)) (\<lambda>k3. Inr (request_pendsv k3))
         else Inr k2)"

definition os_task_create_masked ::
  "platform \<Rightarrow> os_task_config \<Rightarrow> os_task_id_t \<Rightarrow> kernel \<Rightarrow> ((bool \<times> os_task_id_t) \<times> kernel) outcome" where
  "os_task_create_masked P c created k =
     (if \<not> creator_allowed k then Inr ((False, created), k)
      else
        let i = free_slot_loop k [1..<OS_TASK_COUNT]
        in if i = OS_TASK_ID_INVALID then Inr ((False, created), k)
           else
             let low = stacks_address P + OS_MAX_STACK_SIZE * ucast i;
                 k1 = set_tcb i (\<lambda>t. t\<lparr>entry := tc_entry c, argument := tc_argument c,
                        stack_claimed := True, stack_low := low,
                        stack_high := low + tc_stack_size c div 4 * 4\<rparr>) k;
                 (configured, k2) = sched_call
                   (\<lambda>p. os_sched_task_configure p (Some (tc_timing c)) (monotonic_ticks k1)) i k1
             in if \<not> configured then Inr ((False, created), reset_task i k2)
                else on_ok (build_initial_frame P i k2) (\<lambda>(frame, k3).
                  let k4 = set_tcb i (\<lambda>t. t\<lparr>saved_psp := frame\<rparr>) k3
                  in on_ok (announce_task i k4) (\<lambda>k5.
                     on_ok (verify_state ''CREATE'' k5) (\<lambda>_. Inr ((True, i), k5)))))"

definition os_task_create ::
  "platform \<Rightarrow> os_task_config option \<Rightarrow> os_task_id_t option \<Rightarrow> kernel \<Rightarrow>
   ((bool \<times> os_task_id_t option) \<times> kernel) outcome" where
  "os_task_create P config created_id k = (case (config, created_id) of
     (Some c, Some created) \<Rightarrow>
       if \<not> kernel_initialized k \<or> tc_entry c = 0 \<or> tc_stack_size c < OS_MIN_STACK_SIZE \<or>
          tc_stack_size c > OS_MAX_STACK_SIZE \<or> tc_stack_size c AND 7 \<noteq> 0 \<or>
          \<not> os_sched_config_valid (Some (tc_timing c)) \<or> ipsr k \<noteq> 0 \<or> \<not> creator_allowed k
       then Inr ((False, created_id), k)
       else on_ok (masked (os_task_create_masked P c created) k)
              (\<lambda>((ok, created'), k'). Inr ((ok, Some created'), k'))
   | _ \<Rightarrow> Inr ((False, created_id), k))"

section \<open>Calls of a task\<close>

definition os_kernel_start :: "kernel \<Rightarrow> (u8 \<times> kernel) outcome" where
  "os_kernel_start k =
     (if \<not> kernel_initialized k \<or> running k then os_kernel_panic ''START_STATE''
      else Inr (OS_SVC_START, trace_emit OS_TRACE_KERNEL_START OS_TRACE_TASK_INVALID
             OS_TRACE_TASK_INVALID 0 OS_TASK_COUNT32 0
             (k\<lparr>running := True, pending_switch_cause := OS_SWITCH_START\<rparr>)))"

definition os_yield :: "kernel \<Rightarrow> u8 outcome" where
  "os_yield k = (if \<not> running k \<or> current_task k = OS_TASK_ID_INVALID
     then os_kernel_panic ''YIELD_STATE'' else Inr OS_SVC_YIELD)"

definition os_sleep :: "u32 \<Rightarrow> kernel \<Rightarrow> (u8 \<times> u32) option" where
  "os_sleep sleep_ticks k =
     (if \<not> running k \<or> current_task k = OS_TASK_ID_INVALID then None
      else if sleep_ticks = 0 \<or> sleep_ticks > OS_MAX_SLEEP_TICKS then None
      else Some (OS_SVC_SLEEP, sleep_ticks))"

definition os_wait_next_period :: "kernel \<Rightarrow> u8 option" where
  "os_wait_next_period k =
     (if \<not> running k \<or> current_task k = OS_TASK_ID_INVALID \<or>
         kind (sched k (current_task k)) \<noteq> OS_TASK_PERIODIC
      then None else Some OS_SVC_WAIT_NEXT_PERIOD)"

definition os_task_exit :: "kernel \<Rightarrow> u8 outcome" where
  "os_task_exit k = (if \<not> running k \<or> current_task k = OS_TASK_ID_INVALID \<or>
       current_task k = OS_TASK_ID_IDLE
     then os_kernel_panic ''EXIT_STATE'' else Inr OS_SVC_EXIT)"

definition os_monotonic_tick_count :: "kernel \<Rightarrow> (u64 \<times> kernel) outcome" where
  "os_monotonic_tick_count = masked (\<lambda>k. Inr (monotonic_ticks k, k))"

definition os_tick_count :: "kernel \<Rightarrow> (u32 \<times> kernel) outcome" where
  "os_tick_count k = on_ok (os_monotonic_tick_count k) (\<lambda>(now, k'). Inr (ucast now, k'))"

definition os_current_task :: "kernel \<Rightarrow> os_task_id_t" where
  "os_current_task k = current_task k"

definition os_last_reclaimed_task :: "kernel \<Rightarrow> os_task_id_t" where
  "os_last_reclaimed_task k = last_reclaimed k"

definition os_reclaim_count :: "kernel \<Rightarrow> u32" where
  "os_reclaim_count k = reclaim_counter k"

definition info_of :: "os_task_id_t \<Rightarrow> os_sched_task \<Rightarrow> os_task_info_t" where
  "info_of i t = \<lparr>info_id = i, info_state = state t, info_kind = kind t,
     info_release_order = release_order t, info_next_release_order = next_release_order t,
     info_wake_order = wake_order t, info_absolute_deadline_order = absolute_deadline_order t,
     info_release_tick = release_tick t, info_next_release_tick = next_release_tick t,
     info_wake_tick = wake_tick t, info_period_ticks = period_ticks t,
     info_relative_deadline_ticks = relative_deadline_ticks t,
     info_absolute_deadline_tick = absolute_deadline_tick t,
     info_execution_budget_ticks = execution_budget_ticks t,
     info_total_execution_ticks = total_execution_ticks t,
     info_job_execution_ticks = job_execution_ticks t,
     info_completed_job_count = completed_job_count t,
     info_deadline_miss_count = deadline_miss_count t,
     info_missed_release_count = missed_release_count t,
     info_job_sequence = job_sequence t, info_priority = priority t, info_job_active = job_active t\<rparr>"

text \<open>The result is the written structure, or \<open>None\<close> when the call returns 0 without writing.\<close>

definition os_task_info :: "os_task_id_t \<Rightarrow> bool \<Rightarrow> kernel \<Rightarrow> (os_task_info_t option \<times> kernel) outcome" where
  "os_task_info i info_given k =
     (if unat i \<ge> OS_TASK_COUNT \<or> \<not> info_given then Inr (None, k)
      else masked (\<lambda>k. Inr (if state (sched k i) = OS_TASK_DORMANT then None
                            else Some (info_of i (sched k i)), k)) k)"

definition os_memory_alloc :: "platform \<Rightarrow> u32 \<Rightarrow> kernel \<Rightarrow> (u32 \<times> kernel) outcome" where
  "os_memory_alloc P sz k =
     (if ipsr k \<noteq> 0 \<or> \<not> caller_is_running_task k \<or> current_task k = OS_TASK_ID_IDLE then Inr (0, k)
      else masked (\<lambda>k.
        if caller_is_running_task k \<and> current_task k \<noteq> OS_TASK_ID_IDLE then
          on_ok (returned (os_allocator_alloc (Some (memory_allocator k)) (memory_blocks k) sz
                   (ucast (current_task k)))) (\<lambda>(result, al, H).
            Inr (result, trace_emit OS_TRACE_ALLOC (ucast (current_task k)) OS_TRACE_TASK_INVALID sz
                   (trace_pointer_offset P result) (if result \<noteq> 0 then 1 else 0) (set_heap al H k)))
        else Inr (0, k)) k)"

definition os_memory_free :: "platform \<Rightarrow> u32 \<Rightarrow> kernel \<Rightarrow> (bool \<times> kernel) outcome" where
  "os_memory_free P pointer k =
     (if ipsr k \<noteq> 0 \<or> \<not> caller_is_running_task k \<or> current_task k = OS_TASK_ID_IDLE then Inr (False, k)
      else masked (\<lambda>k.
        if caller_is_running_task k \<and> current_task k \<noteq> OS_TASK_ID_IDLE then
          (let pointer_offset = trace_pointer_offset P pointer
           in on_ok (returned (os_allocator_free (Some (memory_allocator k)) (memory_blocks k) pointer
                   (ucast (current_task k)))) (\<lambda>(result, al, H).
            Inr (result, trace_emit OS_TRACE_FREE (ucast (current_task k)) OS_TRACE_TASK_INVALID
                   pointer_offset 1 (if result then 1 else 0) (set_heap al H k))))
        else Inr (False, k)) k)"

definition os_memory_stats ::
  "os_memory_stats_t option \<Rightarrow> kernel \<Rightarrow> ((bool \<times> os_memory_stats_t option) \<times> kernel) outcome" where
  "os_memory_stats stats k =
     (if \<not> kernel_initialized k \<or> ipsr k \<noteq> 0 \<or> stats = None then Inr ((False, stats), k)
      else masked (\<lambda>k. on_ok (returned (os_allocator_get_stats (Some (memory_allocator k))
             (memory_blocks k) stats)) (\<lambda>r. Inr (r, k))) k)"

definition os_memory_count_fragments :: "u32 \<Rightarrow> kernel \<Rightarrow> (u32 \<times> kernel) outcome" where
  "os_memory_count_fragments requested_size k =
     (if \<not> kernel_initialized k \<or> ipsr k \<noteq> 0 then Inr (0, k)
      else masked (\<lambda>k. on_ok (returned (os_allocator_count_fragments (Some (memory_allocator k))
             (memory_blocks k) requested_size)) (\<lambda>r. Inr (r, k))) k)"

definition os_memory_validate :: "kernel \<Rightarrow> (bool \<times> kernel) outcome" where
  "os_memory_validate k =
     (if \<not> kernel_initialized k \<or> ipsr k \<noteq> 0 then Inr (False, k)
      else masked (\<lambda>k. Inr (os_allocator_validate (Some (memory_allocator k)) (memory_blocks k), k)) k)"

definition os_thread_uses_psp :: "kernel \<Rightarrow> bool" where
  "os_thread_uses_psp k =
     (if ipsr k \<noteq> 0 \<or> control k AND CONTROL_SPSEL_Msk = 0 \<or> current_task k = OS_TASK_ID_INVALID
      then False
      else ccr k AND SCB_CCR_STKALIGN_Msk \<noteq> 0 \<and> psp k AND 7 = 0 \<and>
           psp k \<ge> stack_low (tcb k (current_task k)) \<and>
           psp k \<le> stack_high (tcb k (current_task k)) \<and> msp k \<noteq> psp k)"

definition os_exception_configuration_valid :: "kernel \<Rightarrow> bool" where
  "os_exception_configuration_valid k \<longleftrightarrow> ccr k AND SCB_CCR_STKALIGN_Msk \<noteq> 0 \<and>
     nvic_priority k SVCall_IRQn = drop_bit 4 OS_PRIORITY_SVC \<and>
     nvic_priority k SysTick_IRQn = drop_bit 4 OS_PRIORITY_SYSTICK \<and>
     nvic_priority k PendSV_IRQn = drop_bit 4 OS_PRIORITY_PENDSV \<and>
     nvic_priority k SysTick_IRQn < nvic_priority k PendSV_IRQn"

text \<open>The trampoline checks its task and calls the entry, whose address is the result.\<close>

definition task_entry_trampoline :: "u32 \<Rightarrow> kernel \<Rightarrow> u32 outcome" where
  "task_entry_trampoline arg k =
     (if current_task k = OS_TASK_ID_INVALID \<or> state (sched k (current_task k)) \<noteq> OS_TASK_RUNNING \<or>
         entry (tcb k (current_task k)) = 0 \<or> argument (tcb k (current_task k)) \<noteq> arg
      then os_kernel_panic ''TRAMPOLINE'' else Inr (entry (tcb k (current_task k))))"

definition task_return_guard :: "unit outcome" where
  "task_return_guard = os_kernel_panic ''TASK_RETURN''"

section \<open>Supervisor calls\<close>

text \<open>The guard that yield, exit and the wait for the next period share.\<close>

definition svc_caller_bad :: "u32 \<Rightarrow> kernel \<Rightarrow> bool" where
  "svc_caller_bad exc_return k \<longleftrightarrow> exc_return \<noteq> OS_EXC_RETURN_THREAD_PSP \<or>
     current_task k = OS_TASK_ID_INVALID \<or> state (sched k (current_task k)) \<noteq> OS_TASK_RUNNING"

definition svc_start :: "u32 \<Rightarrow> kernel \<Rightarrow> kernel outcome" where
  "svc_start exc_return k =
     (if exc_return \<noteq> OS_EXC_RETURN_THREAD_MSP \<or> current_task k \<noteq> OS_TASK_ID_INVALID \<or>
         has_active_context k \<noteq> 0
      then os_kernel_panic ''SVC_START'' else Inr k)"

definition svc_yield :: "u32 \<Rightarrow> kernel \<Rightarrow> kernel outcome" where
  "svc_yield exc_return k =
     (if svc_caller_bad exc_return k then os_kernel_panic ''SVC_YIELD''
      else on_ok (transition_task (current_task k) OS_TASK_RUNNING OS_TASK_READY ''YIELD_READY'' k)
        (\<lambda>k1. Inr (trace_emit OS_TRACE_TASK_YIELD (ucast (current_task k1)) OS_TRACE_TASK_INVALID 0 0 0
          (k1\<lparr>yield_excluded_task := current_task k1, pending_switch_cause := OS_SWITCH_YIELD\<rparr>))))"

definition svc_sleep :: "u32 \<Rightarrow> u32 \<Rightarrow> kernel \<Rightarrow> kernel outcome" where
  "svc_sleep exc_return sleep_ticks k =
     (if svc_caller_bad exc_return k \<or> sleep_ticks = 0 \<or> sleep_ticks > OS_MAX_SLEEP_TICKS
      then os_kernel_panic ''SVC_SLEEP''
      else
        let (slept, k1) = sched_call (\<lambda>p. os_sched_sleep p (monotonic_ticks k) sleep_ticks)
              (current_task k) k
        in if \<not> slept then os_kernel_panic ''TASK_SLEEP''
           else
             let wake = wake_order (sched k1 (current_task k1));
                 k2 = trace_emit OS_TRACE_TASK_SLEEP (ucast (current_task k1)) OS_TRACE_TASK_INVALID
                        (ucast wake) (ucast (drop_bit 32 wake)) sleep_ticks k1
             in Inr (k2\<lparr>pending_switch_cause := OS_SWITCH_SLEEP\<rparr>))"

text \<open>The event after a job has ended: a miss that was latched just now, or a deadline met.\<close>

definition trace_completion :: "bool \<Rightarrow> os_task_id_t \<Rightarrow> kernel \<Rightarrow> kernel" where
  "trace_completion miss_before i k =
     (if \<not> miss_before \<and> deadline_miss_latched (sched k i)
      then trace_deadline OS_TRACE_DEADLINE_MISS i k
      else if \<not> deadline_miss_latched (sched k i) then trace_deadline OS_TRACE_DEADLINE_MET i k
      else k)"

definition svc_exit :: "u32 \<Rightarrow> kernel \<Rightarrow> kernel outcome" where
  "svc_exit exc_return k =
     (if svc_caller_bad exc_return k \<or> current_task k = OS_TASK_ID_IDLE
      then os_kernel_panic ''SVC_EXIT''
      else
        let miss_before = deadline_miss_latched (sched k (current_task k));
            (completed, k1) = sched_call (\<lambda>p. os_sched_complete_job p (monotonic_ticks k))
              (current_task k) k
        in if \<not> completed then os_kernel_panic ''EXIT_COMPLETE''
           else on_ok (transition_task (current_task k1) OS_TASK_RUNNING OS_TASK_EXITING ''TASK_EXIT''
                  (trace_completion miss_before (current_task k1) k1)) (\<lambda>k2.
             let t = sched k2 (current_task k2);
                 k3 = trace_emit OS_TRACE_TASK_EXIT (ucast (current_task k2)) OS_TRACE_TASK_INVALID
                        (completed_job_count t) (deadline_miss_count t) 0 k2
             in Inr (k3\<lparr>pending_switch_cause := OS_SWITCH_EXIT\<rparr>)))"

definition svc_wait_next_period :: "u32 \<Rightarrow> kernel \<Rightarrow> kernel outcome" where
  "svc_wait_next_period exc_return k =
     (if svc_caller_bad exc_return k \<or> current_task k = OS_TASK_ID_IDLE
      then os_kernel_panic ''SVC_PERIOD''
      else
        let miss_before = deadline_miss_latched (sched k (current_task k));
            (waiting, k1) = sched_call (\<lambda>p. os_sched_wait_next_period p (monotonic_ticks k))
              (current_task k) k
        in if \<not> waiting then os_kernel_panic ''SVC_PERIOD''
           else
             let k2 = trace_completion miss_before (current_task k1) k1;
                 next = next_release_order (sched k2 (current_task k2));
                 k3 = trace_emit OS_TRACE_TASK_WAIT_PERIOD (ucast (current_task k2))
                        OS_TRACE_TASK_INVALID (ucast next) (ucast (drop_bit 32 next)) 0 k2
             in Inr (k3\<lparr>pending_switch_cause := OS_SWITCH_WAIT_PERIOD\<rparr>))"

definition os_svc_dispatch :: "platform \<Rightarrow> u32 \<Rightarrow> u32 \<Rightarrow> kernel \<Rightarrow> kernel outcome" where
  "os_svc_dispatch P frame exc_return k =
     on_ok (decode_svc P frame exc_return k) (\<lambda>service.
     on_ok (if service = OS_SVC_START then svc_start exc_return k
            else if service = OS_SVC_YIELD then svc_yield exc_return k
            else if service = OS_SVC_SLEEP then svc_sleep exc_return (ram k frame) k
            else if service = OS_SVC_EXIT then svc_exit exc_return k
            else if service = OS_SVC_WAIT_NEXT_PERIOD then svc_wait_next_period exc_return k
            else os_kernel_panic ''SVC_NUMBER'') (\<lambda>k1. Inr (request_pendsv k1)))"

section \<open>The context switch\<close>

text \<open>Saving the context of the outgoing task.\<close>

definition save_outgoing :: "u32 \<Rightarrow> kernel \<Rightarrow> kernel outcome" where
  "save_outgoing psp_value k =
     (let outgoing = current_task k
      in if has_active_context k \<noteq> 0 then
           (if outgoing = OS_TASK_ID_INVALID \<or> \<not> valid_saved_psp outgoing psp_value k
            then os_kernel_panic ''SAVE_PSP''
            else Inr (set_tcb outgoing (\<lambda>t. t\<lparr>saved_psp := psp_value\<rparr>) k))
         else if psp_value \<noteq> 0 \<or> outgoing \<noteq> OS_TASK_ID_INVALID then os_kernel_panic ''FIRST_PSP''
         else Inr k)"

text \<open>A task that is still RUNNING becomes READY; a task that is EXITING is reclaimed.\<close>

definition retire_outgoing :: "kernel \<Rightarrow> kernel outcome" where
  "retire_outgoing k =
     (let outgoing = current_task k
      in on_ok (if outgoing \<noteq> OS_TASK_ID_INVALID \<and> state (sched k outgoing) = OS_TASK_RUNNING
                then transition_task outgoing OS_TASK_RUNNING OS_TASK_READY ''PEND_READY'' k
                else Inr k) (\<lambda>k1.
           if outgoing \<noteq> OS_TASK_ID_INVALID \<and> state (sched k1 outgoing) = OS_TASK_EXITING
           then reclaim_exiting_task outgoing k1 else Inr k1))"

text \<open>The choice of the next task and its transition to RUNNING.\<close>

definition dispatch_next :: "kernel \<Rightarrow> kernel outcome" where
  "dispatch_next k =
     (let outgoing = current_task k; excluded = yield_excluded_task k;
          selected = os_sched_select (Some (schedules k)) OS_TASK_COUNT32 excluded;
          next = (if selected = OS_TASK_ID_INVALID then OS_TASK_ID_IDLE else selected);
          k1 = k\<lparr>yield_excluded_task := OS_TASK_ID_INVALID\<rparr>
      in if state (sched k1 next) \<noteq> OS_TASK_READY \<or>
            \<not> valid_saved_psp next (saved_psp (tcb k1 next)) k1
         then os_kernel_panic ''NEXT_TASK''
         else on_ok (transition_task next OS_TASK_READY OS_TASK_RUNNING ''SELECT_RUNNING''
                (trace_emit_selection next outgoing excluded OS_TRACE_SELECT_DISPATCH k1))
              (\<lambda>k2. Inr (k2\<lparr>current_task := next, has_active_context := 1\<rparr>)))"

text \<open>The events of the switch, and the reset of the pending request.\<close>

definition commit_switch ::
  "os_task_id_t \<Rightarrow> u32 \<Rightarrow> os_task_state \<Rightarrow> kernel \<Rightarrow> kernel outcome" where
  "commit_switch outgoing preempt_sources outgoing_state k =
     (let next = current_task k;
          k1 = (if outgoing = OS_TASK_ID_IDLE \<and> next \<noteq> OS_TASK_ID_IDLE
                then trace_emit OS_TRACE_IDLE_STOP (ucast OS_TASK_ID_IDLE) (ucast next) 0 0 0 k else k);
          k2 = (if next = OS_TASK_ID_IDLE \<and> outgoing \<noteq> OS_TASK_ID_IDLE
                then trace_emit OS_TRACE_IDLE_START (ucast OS_TASK_ID_IDLE) (trace_task outgoing) 0 0 0 k1
                else k1)
      in if preempt_sources \<noteq> 0 \<and> (outgoing = OS_TASK_ID_INVALID \<or> outgoing = next)
         then os_kernel_panic ''PREEMPT_COMMIT''
         else
           let k3 = (if preempt_sources \<noteq> 0
                     then trace_emit OS_TRACE_TASK_PREEMPT (ucast outgoing) (ucast next) preempt_sources 0 0 k2
                     else k2);
               k4 = trace_emit OS_TRACE_CONTEXT_SWITCH (trace_task outgoing) (ucast next)
                      (pending_switch_cause k3) (task_state_value outgoing_state) 0 k3;
               k5 = k4\<lparr>pending_switch_cause := 0, pending_preempt_sources := 0\<rparr>
           in Inr (if next \<noteq> OS_TASK_ID_IDLE \<and> \<not> started (tcb k5 next)
                   then trace_deadline OS_TRACE_TASK_START next
                          (set_tcb next (\<lambda>t. t\<lparr>started := True\<rparr>) k5)
                   else k5))"

definition os_pendsv_switch :: "u32 \<Rightarrow> kernel \<Rightarrow> (u32 \<times> kernel) outcome" where
  "os_pendsv_switch psp_value k =
     (let outgoing = current_task k; preempt_sources = pending_preempt_sources k;
          outgoing_state = (if outgoing \<noteq> OS_TASK_ID_INVALID then state (sched k outgoing)
                            else OS_TASK_DORMANT)
      in on_ok (save_outgoing psp_value k) (\<lambda>k1.
         on_ok (retire_outgoing k1) (\<lambda>k2.
         on_ok (dispatch_next k2) (\<lambda>k3.
         on_ok (commit_switch outgoing preempt_sources outgoing_state k3) (\<lambda>k4.
         on_ok (verify_state ''SWITCH'' k4) (\<lambda>_.
           Inr (saved_psp (tcb k4 (current_task k4)), k4)))))))"

section \<open>The tick\<close>

text \<open>The body of the loop for one task; the Boolean is what it adds to \<open>made_ready\<close>.\<close>

definition tick_account :: "os_task_id_t \<Rightarrow> kernel \<Rightarrow> kernel" where
  "tick_account i k =
     (let now = monotonic_ticks k;
          k1 = snd (sched_call (\<lambda>p. ((), os_sched_account_running_tick p)) i k);
          (missed, k2) = sched_call (\<lambda>p. os_sched_record_deadline_miss p now) i k1;
          k3 = (if missed then trace_deadline OS_TRACE_DEADLINE_MISS i k2 else k2);
          (skipped, k4) = sched_call (\<lambda>p. os_sched_record_active_release p now) i k3;
          missed_release = next_release_order (sched k4 i) - ucast (period_ticks (sched k4 i))
      in if skipped
         then trace_emit OS_TRACE_TASK_RELEASE_SKIPPED (ucast i) OS_TRACE_TASK_INVALID
                (ucast missed_release) (ucast (drop_bit 32 missed_release))
                (missed_release_count (sched k4 i)) k4
         else k4)"

definition tick_task :: "os_task_id_t \<Rightarrow> kernel \<Rightarrow> (bool \<times> kernel) outcome" where
  "tick_task i k =
     (let k4 = tick_account i k; now = monotonic_ticks k
      in if time_range_exhausted (sched k4 i) then os_kernel_panic ''TASK_TIME_RANGE''
         else
           let (released, k5) = sched_call (\<lambda>p. os_sched_release_due p now) i k4;
               k6 = (if released then trace_deadline OS_TRACE_TASK_RELEASE i k5 else k5)
           in if time_range_exhausted (sched k6 i) then os_kernel_panic ''TASK_TIME_RANGE''
              else
                let (woken, k7) = sched_call (\<lambda>p. os_sched_wake_due p now) i k6;
                    k8 = (if woken then trace_deadline OS_TRACE_TASK_WAKE i k7 else k7)
                in Inr (released \<or> woken, k8))"

fun tick_loop :: "nat list \<Rightarrow> bool \<times> kernel \<Rightarrow> (bool \<times> kernel) outcome" where
  "tick_loop [] r = Inr r"
| "tick_loop (i # rest) (made_ready, k) =
     on_ok (tick_task (of_nat i) k) (\<lambda>(ready, k'). tick_loop rest (made_ready \<or> ready, k'))"

text \<open>The check for a preemption after the loop.\<close>

definition tick_preempt :: "kernel \<Rightarrow> kernel outcome" where
  "tick_preempt k =
     (let candidate = os_sched_select (Some (schedules k)) OS_TASK_COUNT32 OS_TASK_ID_INVALID
      in if candidate \<noteq> OS_TASK_ID_INVALID \<and> candidate \<noteq> OS_TASK_ID_IDLE \<and>
            os_sched_outranks (Some (sched k candidate)) (Some (sched k (current_task k)))
         then on_ok (record_preemption_request OS_PREEMPT_SOURCE_SYSTICK
                (trace_emit_selection candidate (current_task k) OS_TASK_ID_INVALID
                   OS_TRACE_SELECT_SYSTICK_PROBE k)) (\<lambda>k1.
              on_ok (transition_task (current_task k1) OS_TASK_RUNNING OS_TASK_READY ''PREEMPT_READY'' k1)
                (\<lambda>k2. Inr (request_pendsv k2)))
         else Inr k)"

definition os_kernel_tick :: "kernel \<Rightarrow> kernel outcome" where
  "os_kernel_tick k =
     (if \<not> running k then Inr k
      else if monotonic_ticks k = UINT64_MAX then os_kernel_panic ''TICK_RANGE''
      else on_ok (tick_loop [1..<OS_TASK_COUNT] (False, k\<lparr>monotonic_ticks := monotonic_ticks k + 1\<rparr>))
        (\<lambda>(made_ready, k1).
          if made_ready \<and> current_task k1 \<noteq> OS_TASK_ID_INVALID \<and>
             state (sched k1 (current_task k1)) = OS_TASK_RUNNING
          then tick_preempt k1 else Inr k1))"

end
