(* ===== verification/Kernel_Inv.thy ===== *)
theory Kernel_Inv
  imports Kernel_Api Task_Lifecycle Allocator_Claims
begin

text \<open>
  The invariant of the kernel. \<open>slot_ok\<close> is what holds of one task control block and its
  scheduling record, \<open>mode_ok\<close> says who may be running and what a pending switch request means,
  and \<open>heap_owned\<close> that every live heap block belongs to a task that exists.
\<close>

section \<open>What the trace does not touch\<close>

text \<open>A state up to its trace and the cause that the next switch will report.\<close>

definition quiet :: "kernel \<Rightarrow> kernel" where
  "quiet k = k\<lparr>trace_ring := None, pending_switch_cause := 0\<rparr>"

lemmas trace_defs = trace_emit_def trace_emit_selection_def trace_deadline_def trace_completion_def

lemma quiet_trace [simp, frame]:
  "quiet (trace_emit ev t r a b c k) = quiet k"
  "quiet (trace_emit_selection x y z w k) = quiet k"
  "quiet (trace_deadline ev i k) = quiet k"
  "quiet (trace_completion m i k) = quiet k"
  "quiet (k\<lparr>pending_switch_cause := cause\<rparr>) = quiet k"
  "quiet (k\<lparr>trace_ring := ring\<rparr>) = quiet k"
  by (simp_all add: quiet_def trace_defs Let_def)

lemma quiet_eqD:
  assumes "quiet k = quiet k'"
  shows "tasks k = tasks k'" "schedules k = schedules k'" "current_task k = current_task k'"
    "yield_excluded_task k = yield_excluded_task k'"
    "pending_preempt_sources k = pending_preempt_sources k'"
    "monotonic_ticks k = monotonic_ticks k'" "reclaim_counter k = reclaim_counter k'"
    "last_reclaimed k = last_reclaimed k'" "memory_allocator k = memory_allocator k'"
    "kernel_initialized k = kernel_initialized k'" "running k = running k'"
    "has_active_context k = has_active_context k'" "memory_blocks k = memory_blocks k'"
    "ram k = ram k'" "pendsv_set k = pendsv_set k'" "ccr k = ccr k'"
    "nvic_priority k = nvic_priority k'" "ipsr k = ipsr k'" "primask k = primask k'"
  using arg_cong [OF assms, of tasks] arg_cong [OF assms, of schedules]
    arg_cong [OF assms, of current_task] arg_cong [OF assms, of yield_excluded_task]
    arg_cong [OF assms, of pending_preempt_sources] arg_cong [OF assms, of monotonic_ticks]
    arg_cong [OF assms, of reclaim_counter] arg_cong [OF assms, of last_reclaimed]
    arg_cong [OF assms, of memory_allocator] arg_cong [OF assms, of kernel_initialized]
    arg_cong [OF assms, of running] arg_cong [OF assms, of has_active_context]
    arg_cong [OF assms, of memory_blocks] arg_cong [OF assms, of ram]
    arg_cong [OF assms, of pendsv_set] arg_cong [OF assms, of ccr]
    arg_cong [OF assms, of nvic_priority] arg_cong [OF assms, of ipsr] arg_cong [OF assms, of primask]
  by (simp_all add: quiet_def)

lemma quiet_eqE:
  assumes "quiet k = quiet k'"
  obtains r c where "k = k'\<lparr>trace_ring := r, pending_switch_cause := c\<rparr>"
proof
  have "k = (quiet k)\<lparr>trace_ring := trace_ring k, pending_switch_cause := pending_switch_cause k\<rparr>"
    by (simp add: quiet_def)
  then show "k = k'\<lparr>trace_ring := trace_ring k, pending_switch_cause := pending_switch_cause k\<rparr>"
    unfolding assms by (simp add: quiet_def)
qed

lemmas trace_same [simp, frame] =
  quiet_trace(1-4) [THEN quiet_eqD(1)] quiet_trace(1-4) [THEN quiet_eqD(2)]
  quiet_trace(1-4) [THEN quiet_eqD(3)] quiet_trace(1-4) [THEN quiet_eqD(4)]
  quiet_trace(1-4) [THEN quiet_eqD(5)] quiet_trace(1-4) [THEN quiet_eqD(6)]
  quiet_trace(1-4) [THEN quiet_eqD(7)] quiet_trace(1-4) [THEN quiet_eqD(8)]
  quiet_trace(1-4) [THEN quiet_eqD(9)] quiet_trace(1-4) [THEN quiet_eqD(10)]
  quiet_trace(1-4) [THEN quiet_eqD(11)] quiet_trace(1-4) [THEN quiet_eqD(12)]
  quiet_trace(1-4) [THEN quiet_eqD(13)] quiet_trace(1-4) [THEN quiet_eqD(14)]
  quiet_trace(1-4) [THEN quiet_eqD(15)] quiet_trace(1-4) [THEN quiet_eqD(16)]
  quiet_trace(1-4) [THEN quiet_eqD(17)] quiet_trace(1-4) [THEN quiet_eqD(18)]
  quiet_trace(1-4) [THEN quiet_eqD(19)]

lemma trace_same_access [simp]:
  "sched (trace_emit ev t r a b c k) = sched k" "tcb (trace_emit ev t r a b c k) = tcb k"
  "sched (trace_emit_selection x y z w k) = sched k" "tcb (trace_emit_selection x y z w k) = tcb k"
  "sched (trace_deadline ev i k) = sched k" "tcb (trace_deadline ev i k) = tcb k"
  "sched (trace_completion m i k) = sched k" "tcb (trace_completion m i k) = tcb k"
  by (simp_all add: sched_def tcb_def fun_eq_iff)

section \<open>The invariant\<close>

text \<open>Addresses that a linker can produce: aligned stacks that do not wrap and a heap with room.\<close>

definition platform_ok :: "platform \<Rightarrow> bool" where
  "platform_ok P \<longleftrightarrow> 8 dvd unat (stacks_address P) \<and> 0 < unat (stacks_address P) \<and>
     unat (stacks_address P) + 5 * 1024 < 2 ^ 32 \<and>
     trace_storage_address P \<noteq> 0 \<and> trace_storage_address P mod 8 = 0 \<and>
     heap_start_symbol P \<noteq> 0 \<and> heap_start_symbol P < heap_end_symbol P \<and>
     (unat (heap_start_symbol P) + 7) div 8 * 8 + 32 \<le> unat (heap_end_symbol P) div 8 * 8"

definition stack_region :: "platform \<Rightarrow> nat \<Rightarrow> os_tcb \<Rightarrow> bool" where
  "stack_region P i t \<longleftrightarrow> unat (stack_low t) = unat (stacks_address P) + 1024 * i \<and>
     unat (stack_low t) + 256 \<le> unat (stack_high t) \<and>
     unat (stack_high t) \<le> unat (stack_low t) + 1024 \<and>
     8 dvd unat (stack_low t) \<and> 8 dvd unat (stack_high t) \<and> stack_low t \<noteq> 0"

definition psp_ok :: "os_tcb \<Rightarrow> u32 \<Rightarrow> bool" where
  "psp_ok t p \<longleftrightarrow> unat (stack_low t) \<le> unat p \<and> unat p + 64 \<le> unat (stack_high t) \<and> 8 dvd unat p"

definition slot_ok :: "platform \<Rightarrow> nat \<Rightarrow> os_sched_task \<Rightarrow> os_tcb \<Rightarrow> bool" where
  "slot_ok P i s t \<longleftrightarrow> task_id s = of_nat i \<and> sched_task_wf s \<and> \<not> time_range_exhausted s \<and>
     (stack_claimed t \<longleftrightarrow> state s \<noteq> OS_TASK_DORMANT) \<and>
     (stack_claimed t \<longrightarrow> stack_region P i t \<and> psp_ok t (saved_psp t)) \<and>
     (i = 0 \<longrightarrow> \<not> job_active s \<and> (state s = OS_TASK_READY \<or> state s = OS_TASK_RUNNING)) \<and>
     (i \<noteq> 0 \<longrightarrow> state s = OS_TASK_READY \<or> state s = OS_TASK_RUNNING \<longrightarrow> job_active s)"

definition slots_ok :: "platform \<Rightarrow> kernel \<Rightarrow> bool" where
  "slots_ok P k \<longleftrightarrow> length (tasks k) = OS_TASK_COUNT \<and> length (schedules k) = OS_TASK_COUNT \<and>
     (\<forall>i < OS_TASK_COUNT. slot_ok P i (schedules k ! i) (tasks k ! i))"

definition off_cpu :: "os_sched_task \<Rightarrow> bool" where
  "off_cpu s \<longleftrightarrow> state s \<noteq> OS_TASK_RUNNING \<and> state s \<noteq> OS_TASK_EXITING"

text \<open>The task that a recorded preemption request stands for.\<close>

definition preemption_justified :: "kernel \<Rightarrow> bool" where
  "preemption_justified k \<longleftrightarrow> yield_excluded_task k = OS_TASK_ID_INVALID \<and>
     pending_preempt_sources k \<in> {1, 2, 3} \<and>
     (state (sched k (current_task k)) = OS_TASK_READY \<or> state (sched k (current_task k)) = OS_TASK_RUNNING) \<and>
     (\<exists>c < OS_TASK_COUNT. c \<noteq> unat (current_task k) \<and> ready_user_job (schedules k ! c) \<and>
        (current_task k = OS_TASK_ID_IDLE \<or>
         edf_key_of (schedules k ! c) < edf_key_of (sched k (current_task k))))"

definition mode_ok :: "kernel \<Rightarrow> bool" where
  "mode_ok k \<longleftrightarrow>
     (if has_active_context k = 0 then
        current_task k = OS_TASK_ID_INVALID \<and> yield_excluded_task k = OS_TASK_ID_INVALID \<and>
        pending_preempt_sources k = 0 \<and> (pendsv_set k \<longrightarrow> running k) \<and>
        (\<forall>i < OS_TASK_COUNT. off_cpu (schedules k ! i))
      else
        running k \<and> unat (current_task k) < OS_TASK_COUNT \<and>
        state (sched k (current_task k)) \<noteq> OS_TASK_DORMANT \<and>
        (\<forall>i < OS_TASK_COUNT. i \<noteq> unat (current_task k) \<longrightarrow> off_cpu (schedules k ! i)) \<and>
        (\<not> pendsv_set k \<longrightarrow> state (sched k (current_task k)) = OS_TASK_RUNNING \<and>
           yield_excluded_task k = OS_TASK_ID_INVALID \<and> pending_preempt_sources k = 0) \<and>
        (yield_excluded_task k = OS_TASK_ID_INVALID \<or> yield_excluded_task k = current_task k) \<and>
        (state (sched k (current_task k)) = OS_TASK_RUNNING \<longrightarrow> yield_excluded_task k = OS_TASK_ID_INVALID) \<and>
        (pending_preempt_sources k \<noteq> 0 \<longrightarrow> preemption_justified k))"

definition heap_owned :: "kernel \<Rightarrow> bool" where
  "heap_owned k \<longleftrightarrow> heap_ok (memory_allocator k) (memory_blocks k) \<and>
     (\<forall>(b, c, owner) \<in> set (live_blocks (memory_allocator k) (memory_blocks k)).
        \<exists>i < OS_TASK_COUNT. i \<noteq> 0 \<and> owner = of_nat i \<and> state (schedules k ! i) \<noteq> OS_TASK_DORMANT)"

definition kernel_ok :: "platform \<Rightarrow> kernel \<Rightarrow> bool" where
  "kernel_ok P k \<longleftrightarrow> kernel_initialized k \<and> slots_ok P k \<and> mode_ok k \<and> heap_owned k"

lemmas kernel_inv_defs = slots_ok_def mode_ok_def heap_owned_def kernel_ok_def preemption_justified_def

lemma inv_quiet:
  "slots_ok P (quiet k) = slots_ok P k" "mode_ok (quiet k) = mode_ok k"
  "heap_owned (quiet k) = heap_owned k" "kernel_ok P (quiet k) = kernel_ok P k"
  by (simp_all add: quiet_def kernel_inv_defs sched_def)

lemma inv_quiet_eq:
  assumes "quiet k = quiet k'"
  shows "slots_ok P k = slots_ok P k'" "mode_ok k = mode_ok k'" "heap_owned k = heap_owned k'"
    "kernel_ok P k = kernel_ok P k'"
  using inv_quiet(1,4) [of P k] inv_quiet(1,4) [of P k'] inv_quiet(2,3) [of k] inv_quiet(2,3) [of k'] assms
  by simp_all

lemma mode_ok_cong:
  assumes "schedules k = schedules k'" and "current_task k = current_task k'"
    and "yield_excluded_task k = yield_excluded_task k'"
    and "pending_preempt_sources k = pending_preempt_sources k'" and "running k = running k'"
    and "has_active_context k = has_active_context k'" and "pendsv_set k = pendsv_set k'"
  shows "mode_ok k = mode_ok k'"
  by (simp add: mode_ok_def preemption_justified_def sched_def assms)

lemma slots_ok_cong:
  "schedules k = schedules k' \<Longrightarrow> tasks k = tasks k' \<Longrightarrow> slots_ok P k = slots_ok P k'"
  by (simp add: slots_ok_def)

section \<open>Small facts\<close>

lemma on_ok_simps [simp]:
  "on_ok (Inr x) f = f x" "on_ok (Inl e) f = Inl e"
  by (simp_all add: on_ok_def)

lemma on_ok_eq_Inr: "on_ok r f = Inr y \<longleftrightarrow> (\<exists>x. r = Inr x \<and> f x = Inr y)"
  by (cases r) simp_all

lemma panic_simps [simp]:
  "os_kernel_panic e \<noteq> Inr x" "Inr x \<noteq> os_kernel_panic e" "on_ok (os_kernel_panic e) f = os_kernel_panic e"
  by (simp_all add: os_kernel_panic_def)

lemma sched_call_Some:
  "sched_call (\<lambda>p. on_ptr p body) i k =
     (fst (body (sched k i)), k\<lparr>schedules := (schedules k)[unat i := snd (body (sched k i))]\<rparr>)"
  by (simp add: sched_call_def split: prod.split)

lemma small_id:
  "unat i < OS_TASK_COUNT \<longleftrightarrow> i = 0 \<or> i = 1 \<or> i = 2 \<or> i = 3 \<or> i = (4 :: os_task_id_t)"
proof
  assume "unat i < OS_TASK_COUNT"
  then consider "unat i = 0" | "unat i = 1" | "unat i = 2" | "unat i = 3" | "unat i = 4" by linarith
  then show "i = 0 \<or> i = 1 \<or> i = 2 \<or> i = 3 \<or> i = 4"
    by cases (simp_all add: word_unat_eq_iff)
qed auto

lemma of_nat_id_eq:
  assumes "i < OS_TASK_COUNT" and "j < OS_TASK_COUNT"
  shows "(of_nat i :: os_task_id_t) = of_nat j \<longleftrightarrow> i = j"
    "unat (of_nat i :: os_task_id_t) = i" "(of_nat i :: os_task_id_t) \<noteq> OS_TASK_ID_INVALID"
proof -
  show u: "unat (of_nat i :: os_task_id_t) = i" using assms unat_of_nat_id by simp
  have "unat (of_nat j :: os_task_id_t) = j" using assms unat_of_nat_id by simp
  with u show "(of_nat i :: os_task_id_t) = of_nat j \<longleftrightarrow> i = j" by metis
  show "(of_nat i :: os_task_id_t) \<noteq> OS_TASK_ID_INVALID"
    using u assms by auto
qed

lemma valid_psp_iff:
  assumes "stack_region P i (tcb k j)" and "unat j < OS_TASK_COUNT"
  shows "valid_saved_psp j p k \<longleftrightarrow> psp_ok (tcb k j) p"
proof -
  let ?t = "tcb k j"
  have low: "0 < unat (stack_low ?t)" "unat (stack_low ?t) + 256 \<le> unat (stack_high ?t)"
    using assms(1) unfolding stack_region_def unat_gt_0 by blast+
  then have "stack_high ?t \<noteq> 0" by auto
  moreover have "unat (stack_high ?t - stack_low ?t) = unat (stack_high ?t) - unat (stack_low ?t)"
    "unat (stack_high ?t - 64) = unat (stack_high ?t) - 64"
    using low by (simp_all add: unat_sub_le)
  moreover have "unat p \<noteq> 0" if "unat (stack_low ?t) \<le> unat p" using that low by linarith
  ultimately show ?thesis
    using low assms(2) by (auto simp: valid_saved_psp_def psp_ok_def aligned8 word_le_nat_alt Let_def)
qed

end
