(* ===== verification/Kernel_Switch.thy ===== *)
theory Kernel_Switch
  imports Kernel_Inv
begin

text \<open>
  The context switch. Each part of \<open>os_pendsv_switch\<close> (saving, retiring, dispatching, committing)
  has a lemma with its effect on the tables; together they show that a requested switch never
  panics, that it leaves one RUNNING task, and that this is the task EDF demands.
\<close>

section \<open>Resetting a slot\<close>

definition cleared_tcb :: os_tcb where
  "cleared_tcb = \<lparr>entry = 0, argument = 0, saved_psp = 0, stack_low = 0, stack_high = 0,
     stack_claimed = False, started = False\<rparr>"

definition blank_schedule :: "os_task_id_t \<Rightarrow> os_sched_task" where
  "blank_schedule i = os_sched_task_zero\<lparr>task_id := i\<rparr>"

lemma reset_task_effect:
  "reset_task i k = k\<lparr>tasks := (tasks k)[unat i := cleared_tcb],
     schedules := (schedules k)[unat i := blank_schedule i]\<rparr>"
proof -
  have "tcb k i\<lparr>entry := 0, argument := 0, saved_psp := 0, stack_low := 0, stack_high := 0,
      stack_claimed := False, started := False\<rparr> = cleared_tcb"
    by (cases "tcb k i") (simp add: cleared_tcb_def)
  moreover have "os_sched_task_zero\<lparr>task_id := i, state := OS_TASK_DORMANT, kind := OS_TASK_ONE_SHOT\<rparr> = blank_schedule i"
    by (simp add: blank_schedule_def os_sched_task_zero_def)
  ultimately show ?thesis
    by (simp add: reset_task_def set_tcb_def sched_call_def call_ptr_def os_sched_task_reset_def)
qed

lemma slot_ok_blank: "i \<noteq> 0 \<Longrightarrow> slot_ok P i (blank_schedule (of_nat i)) cleared_tcb"
  by (simp add: slot_ok_def blank_schedule_def cleared_tcb_def os_sched_task_zero_def sched_task_wf_def)

lemma slots_ok_update:
  assumes "slots_ok P k" and "i < OS_TASK_COUNT" and "slot_ok P i s t"
    and "tasks k' = (tasks k)[i := t]" and "schedules k' = (schedules k)[i := s]"
  shows "slots_ok P k'"
  using assms by (auto simp: slots_ok_def nth_list_update)

lemma slots_okD:
  assumes "slots_ok P k" and "unat i < OS_TASK_COUNT"
  shows "slot_ok P (unat i) (sched k i) (tcb k i)"
  using assms by (simp add: slots_ok_def sched_def tcb_def)

lemma slots_ok_length: "slots_ok P k \<Longrightarrow> length (tasks k) = OS_TASK_COUNT \<and> length (schedules k) = OS_TASK_COUNT"
  by (simp add: slots_ok_def)

text \<open>Heap ownership only asks that no task that owns a block goes dormant.\<close>

lemma heap_owned_keep:
  assumes "heap_owned k" and "memory_allocator k' = memory_allocator k" and "memory_blocks k' = memory_blocks k"
    and keep: "\<And>i. i < OS_TASK_COUNT \<Longrightarrow> state (schedules k ! i) \<noteq> OS_TASK_DORMANT \<Longrightarrow>
      state (schedules k' ! i) \<noteq> OS_TASK_DORMANT"
  shows "heap_owned k'"
proof -
  have "\<exists>j < OS_TASK_COUNT. j \<noteq> 0 \<and> owner = of_nat j \<and> state (schedules k' ! j) \<noteq> OS_TASK_DORMANT"
    if "(b, c, owner) \<in> set (live_blocks (memory_allocator k) (memory_blocks k))" for b c owner
    using that assms(1) keep unfolding heap_owned_def by blast
  then show ?thesis using assms(1-3) unfolding heap_owned_def by auto
qed

section \<open>Reclaiming a task that exits\<close>

lemma transition_effect:
  assumes "unat i < OS_TASK_COUNT" and "state (sched k i) = e" and "e \<noteq> n"
  shows "transition_task i e n reason k = Inr (k\<lparr>schedules := (schedules k)[unat i := (sched k i)\<lparr>state := n\<rparr>]\<rparr>)"
  using assms by (simp add: transition_task_def os_sched_transition_def sched_call_Some)

lemma owner_id_eq:
  assumes "i < OS_TASK_COUNT" and "unat (j :: os_task_id_t) < OS_TASK_COUNT"
  shows "of_nat i = (ucast j :: os_memory_owner_t) \<longleftrightarrow> i = unat j"
proof -
  have "unat (of_nat i :: os_memory_owner_t) = i" using assms(1) by (simp add: unat_of_nat)
  moreover have "unat (ucast j :: os_memory_owner_t) = unat j"
    using assms(2) by (auto simp: small_id)
  ultimately show ?thesis by (metis word_unat_eq_iff)
qed

lemma owner_not_none: "unat (j :: os_task_id_t) < OS_TASK_COUNT \<Longrightarrow> (ucast j :: os_memory_owner_t) \<noteq> OS_MEMORY_OWNER_NONE"
  by (auto simp: small_id)

text \<open>The state after reclamation, with the heap that the release leaves.\<close>

definition reclaimed :: "os_task_id_t \<Rightarrow> os_allocator \<Rightarrow> os_heap \<Rightarrow> kernel \<Rightarrow> kernel" where
  "reclaimed i a H k = k\<lparr>tasks := (tasks k)[unat i := cleared_tcb],
     schedules := (schedules k)[unat i := blank_schedule i], memory_allocator := a, memory_blocks := H,
     last_reclaimed := i, reclaim_counter := reclaim_counter k + 1\<rparr>"

lemma reclaim_effect:
  assumes "slots_ok P k" and "heap_owned k" and "unat i < OS_TASK_COUNT" and "i \<noteq> 0"
    and "state (sched k i) = OS_TASK_EXITING"
  shows "\<exists>k' a H. reclaim_exiting_task i k = Inr k' \<and> quiet k' = quiet (reclaimed i a H k) \<and>
    heap_ok a H \<and> live_blocks a H =
      filter (\<lambda>x. \<not> owned_by (ucast i) x) (live_blocks (memory_allocator k) (memory_blocks k))"
proof -
  let ?a0 = "memory_allocator k" and ?H0 = "memory_blocks k"
  have ok: "heap_ok ?a0 ?H0" using assms(2) by (simp add: heap_owned_def)
  have claimed: "stack_claimed (tcb k i)"
    using slots_okD [OF assms(1,3)] assms(5) by (simp add: slot_ok_def)
  obtain n a H where rel: "os_allocator_release_owner (Some ?a0) ?H0 (ucast i) = Some (n, Some a, H)"
    "heap_ok a H" "live_blocks a H = filter (\<lambda>x. \<not> owned_by (ucast i) x) (live_blocks ?a0 ?H0)"
    using release_outcome [OF ok owner_not_none [OF assms(3)] HOL.refl] by blast
  have valid: "os_allocator_validate (Some ?a0) ?H0" "os_allocator_validate (Some a) H"
    using heap_okD(4) [OF ok] heap_okD(4) [OF rel(2)] by (simp_all add: os_allocator_validate_def)
  define k2 where "k2 = (if n \<noteq> 0 then trace_emit OS_TRACE_OWNER_RELEASE (ucast i) OS_TRACE_TASK_INVALID
      n (ucast i) 1 (set_heap (Some a) H k) else set_heap (Some a) H k)"
  have k2: "quiet k2 = quiet (k\<lparr>memory_allocator := a, memory_blocks := H\<rparr>)"
    by (simp add: k2_def set_heap_def)
  then have "sched k2 i = sched k i" using quiet_eqD(2) [OF k2] by (simp add: sched_def)
  then have trans: "transition_task i OS_TASK_EXITING OS_TASK_DORMANT ''RECLAIM_STATE'' k2 =
      Inr (k2\<lparr>schedules := (schedules k2)[unat i := (sched k2 i)\<lparr>state := OS_TASK_DORMANT\<rparr>]\<rparr>)"
    using assms(3,5) by (intro transition_effect) simp_all
  let ?k4 = "reset_task i (k2\<lparr>schedules := (schedules k2)[unat i := (sched k2 i)\<lparr>state := OS_TASK_DORMANT\<rparr>]\<rparr>)"
  have "reclaim_exiting_task i k = Inr (?k4\<lparr>last_reclaimed := i, reclaim_counter := reclaim_counter ?k4 + 1\<rparr>)"
    using assms(3-5) claimed valid rel(1) trans quiet_eqD(9,13) [OF k2]
    by (simp add: reclaim_exiting_task_def returned_def k2_def [symmetric] Let_def)
  moreover have "quiet (?k4\<lparr>last_reclaimed := i, reclaim_counter := reclaim_counter ?k4 + 1\<rparr>) = quiet (reclaimed i a H k)"
    by (rule quiet_eqE [OF k2]) (simp add: reset_task_effect reclaimed_def quiet_def)
  ultimately show ?thesis using rel(2,3) by blast
qed

lemma reclaimed_ok:
  assumes "slots_ok P k" and "heap_owned k" and "unat i < OS_TASK_COUNT" and "i \<noteq> 0"
    and "heap_ok a H"
    and live: "live_blocks a H = filter (\<lambda>x. \<not> owned_by (ucast i) x) (live_blocks (memory_allocator k) (memory_blocks k))"
  shows "slots_ok P (reclaimed i a H k)" "heap_owned (reclaimed i a H k)"
proof -
  have "unat i \<noteq> 0" using assms(4) by (simp add: unat_eq_0)
  then have "slot_ok P (unat i) (blank_schedule i) cleared_tcb"
    using slot_ok_blank [of "unat i" P] by simp
  then show "slots_ok P (reclaimed i a H k)"
    using assms(1,3) slots_ok_update by (simp add: reclaimed_def)
  have len: "length (schedules k) = OS_TASK_COUNT" using assms(1) by (simp add: slots_ok_def)
  have "\<exists>j < OS_TASK_COUNT. j \<noteq> 0 \<and> owner = of_nat j \<and> state (schedules (reclaimed i a H k) ! j) \<noteq> OS_TASK_DORMANT"
    if "(b, c, owner) \<in> set (live_blocks a H)" for b c owner
  proof -
    have old: "(b, c, owner) \<in> set (live_blocks (memory_allocator k) (memory_blocks k))" "owner \<noteq> ucast i"
      using that by (simp_all add: live)
    then obtain j where j: "j < OS_TASK_COUNT" "j \<noteq> 0" "owner = of_nat j" "state (schedules k ! j) \<noteq> OS_TASK_DORMANT"
      using assms(2) unfolding heap_owned_def by blast
    then have "j \<noteq> unat i" using old(2) owner_id_eq [of j i] assms(3) by auto
    with j show ?thesis by (intro exI [of _ j]) (simp add: reclaimed_def)
  qed
  with assms(5) show "heap_owned (reclaimed i a H k)"
    unfolding heap_owned_def by (auto simp: reclaimed_def)
qed

section \<open>Retiring the outgoing task\<close>

definition all_off_cpu :: "kernel \<Rightarrow> bool" where
  "all_off_cpu k \<longleftrightarrow> (\<forall>i < OS_TASK_COUNT. off_cpu (schedules k ! i))"

definition outgoing_ok :: "kernel \<Rightarrow> bool" where
  "outgoing_ok k \<longleftrightarrow> current_task k = OS_TASK_ID_INVALID \<and> all_off_cpu k \<or>
     unat (current_task k) < OS_TASK_COUNT \<and>
     (\<forall>i < OS_TASK_COUNT. i \<noteq> unat (current_task k) \<longrightarrow> off_cpu (schedules k ! i))"

text \<open>The three ways in which the outgoing task leaves the processor.\<close>

definition retires :: "kernel \<Rightarrow> kernel \<Rightarrow> bool" where
  "retires k k' \<longleftrightarrow>
     quiet k' = quiet k \<and> all_off_cpu k \<or>
     unat (current_task k) < OS_TASK_COUNT \<and> state (sched k (current_task k)) = OS_TASK_RUNNING \<and>
       quiet k' = quiet (k\<lparr>schedules := (schedules k)[unat (current_task k) :=
         (sched k (current_task k))\<lparr>state := OS_TASK_READY\<rparr>]\<rparr>) \<or>
     unat (current_task k) < OS_TASK_COUNT \<and> state (sched k (current_task k)) = OS_TASK_EXITING \<and>
       current_task k \<noteq> 0 \<and> (\<exists>a H. heap_ok a H \<and> live_blocks a H = filter (\<lambda>x. \<not> owned_by (ucast (current_task k)) x)
           (live_blocks (memory_allocator k) (memory_blocks k)) \<and>
         quiet k' = quiet (reclaimed (current_task k) a H k))"

lemma slot_ok_ready:
  assumes "slot_ok P i s t" and "state s = OS_TASK_RUNNING"
  shows "slot_ok P i (s\<lparr>state := OS_TASK_READY\<rparr>) t"
  using assms by (auto simp: slot_ok_def sched_task_wf_def)

lemma retire_effect:
  assumes "slots_ok P k" and "heap_owned k" and "outgoing_ok k"
  shows "\<exists>k'. retire_outgoing k = Inr k' \<and> retires k k'"
proof (cases "current_task k = OS_TASK_ID_INVALID")
  case True
  with assms(3) have "all_off_cpu k" by (auto simp: outgoing_ok_def)
  with True show ?thesis by (simp add: retire_outgoing_def retires_def)
next
  case False
  with assms(3) have cur: "unat (current_task k) < OS_TASK_COUNT"
    and others: "\<forall>i < OS_TASK_COUNT. i \<noteq> unat (current_task k) \<longrightarrow> off_cpu (schedules k ! i)"
    by (auto simp: outgoing_ok_def)
  note slot = slots_okD [OF assms(1) cur]
  have len: "unat (current_task k) < length (schedules k)" using assms(1) cur by (simp add: slots_ok_def)
  consider "state (sched k (current_task k)) = OS_TASK_RUNNING"
    | "state (sched k (current_task k)) = OS_TASK_EXITING" | "off_cpu (sched k (current_task k))"
    by (auto simp: off_cpu_def)
  then show ?thesis
  proof cases
    case 1
    with cur have t: "transition_task (current_task k) OS_TASK_RUNNING OS_TASK_READY ''PEND_READY'' k =
        Inr (k\<lparr>schedules := (schedules k)[unat (current_task k) := (sched k (current_task k))\<lparr>state := OS_TASK_READY\<rparr>]\<rparr>)"
      by (simp add: transition_effect)
    with 1 False len cur show ?thesis by (simp add: retire_outgoing_def retires_def sched_def Let_def)
  next
    case 2
    then have nz: "current_task k \<noteq> 0" using slot by (auto simp: slot_ok_def)
    from reclaim_effect [OF assms(1,2) cur nz 2] 2 False nz cur show ?thesis
      unfolding retire_outgoing_def retires_def Let_def by (auto simp: sched_def)
  next
    case 3
    then have "all_off_cpu k" using others unfolding all_off_cpu_def sched_def by blast
    with 3 show ?thesis by (simp add: retire_outgoing_def retires_def off_cpu_def)
  qed
qed

lemma retires_ok:
  assumes "slots_ok P k" and "heap_owned k" and "outgoing_ok k" and "retires k k'"
  shows "slots_ok P k'" "heap_owned k'" "all_off_cpu k'"
proof -
  have cong: "slots_ok P k' \<and> heap_owned k' \<and> all_off_cpu k'"
    if "quiet k' = quiet k1" "slots_ok P k1" "heap_owned k1" "all_off_cpu k1" for k1
    using that inv_quiet_eq(1,3) [OF that(1)] quiet_eqD(2) [OF that(1)] by (simp add: all_off_cpu_def)
  have cur: "unat (current_task k) < OS_TASK_COUNT" if "\<not> all_off_cpu k"
    using that assms(3) by (auto simp: outgoing_ok_def)
  have others: "i < OS_TASK_COUNT \<Longrightarrow> i \<noteq> unat (current_task k) \<Longrightarrow> off_cpu (schedules k ! i)"
    for i using assms(3) by (auto simp: outgoing_ok_def all_off_cpu_def)
  have len: "length (schedules k) = OS_TASK_COUNT" using assms(1) by (simp add: slots_ok_def)
  have "slots_ok P k' \<and> heap_owned k' \<and> all_off_cpu k'"
  proof (cases "all_off_cpu k")
    case True
    then have "off_cpu (sched k (current_task k))" if "unat (current_task k) < OS_TASK_COUNT"
      using that by (simp add: all_off_cpu_def sched_def)
    with assms(4) have "quiet k' = quiet k" by (auto simp: retires_def off_cpu_def)
    with True show ?thesis using cong assms(1,2) by blast
  next
    case False
    note cur = cur [OF False]
    note slot = slots_okD [OF assms(1) cur]
    from assms(4) False consider "state (sched k (current_task k)) = OS_TASK_RUNNING"
       "quiet k' = quiet (k\<lparr>schedules := (schedules k)[unat (current_task k) :=
         (sched k (current_task k))\<lparr>state := OS_TASK_READY\<rparr>]\<rparr>)"
      | a H where "state (sched k (current_task k)) = OS_TASK_EXITING" "current_task k \<noteq> 0" "heap_ok a H"
        "live_blocks a H = filter (\<lambda>x. \<not> owned_by (ucast (current_task k)) x)
           (live_blocks (memory_allocator k) (memory_blocks k))"
        "quiet k' = quiet (reclaimed (current_task k) a H k)"
      unfolding retires_def by blast
    then show ?thesis
    proof cases
      case 1
      let ?k1 = "k\<lparr>schedules := (schedules k)[unat (current_task k) :=
         (sched k (current_task k))\<lparr>state := OS_TASK_READY\<rparr>]\<rparr>"
      have "slots_ok P ?k1"
        by (rule slots_ok_update [OF assms(1) cur slot_ok_ready [OF slot 1(1)]]) (simp_all add: tcb_def)
      moreover have "heap_owned ?k1"
        by (rule heap_owned_keep [OF assms(2)]) (use len cur in \<open>auto simp: nth_list_update\<close>)
      moreover have "all_off_cpu ?k1"
        using others cur len by (auto simp: all_off_cpu_def nth_list_update off_cpu_def)
      ultimately show ?thesis using cong [OF 1(2)] by blast
    next
      case 2
      have "all_off_cpu (reclaimed (current_task k) a H k)"
        using others cur len
        by (auto simp: all_off_cpu_def reclaimed_def nth_list_update off_cpu_def blank_schedule_def os_sched_task_zero_def)
      then show ?thesis using cong [OF 2(5)] reclaimed_ok [OF assms(1,2) cur 2(2-4)] by blast
    qed
  qed
  then show "slots_ok P k'" "heap_owned k'" "all_off_cpu k'" by simp_all
qed

section \<open>Dispatching\<close>

text \<open>
  The task EDF demands: the least rank among the eligible ones; without one, the task that has
  just yielded, if it still has a job; otherwise idle.
\<close>

definition dispatch_choice :: "os_sched_task list \<Rightarrow> os_task_id_t \<Rightarrow> os_task_id_t \<Rightarrow> bool" where
  "dispatch_choice ss excluded next \<longleftrightarrow>
     (if eligible_set ss OS_TASK_COUNT32 excluded \<noteq> {}
      then unat next \<in> eligible_set ss OS_TASK_COUNT32 excluded \<and>
        (\<forall>j \<in> eligible_set ss OS_TASK_COUNT32 excluded. j \<noteq> unat next \<longrightarrow>
           edf_key_of (ss ! unat next) < edf_key_of (ss ! j))
      else if unat excluded < OS_TASK_COUNT \<and> excluded \<noteq> OS_TASK_ID_IDLE \<and> ready_user_job (ss ! unat excluded)
      then next = excluded else next = OS_TASK_ID_IDLE)"

lemma eligible_range: "i \<in> eligible_set ss OS_TASK_COUNT32 excluded \<Longrightarrow> 0 < i \<and> i < OS_TASK_COUNT"
  by (auto simp: eligible_set_def)

lemma select_choice:
  assumes "slots_ok P k" and "all_off_cpu k"
  shows "\<exists>nx. os_sched_select (Some (schedules k)) OS_TASK_COUNT32 excluded = nx \<and>
    unat nx < OS_TASK_COUNT \<and> state (sched k nx) = OS_TASK_READY \<and>
    dispatch_choice (schedules k) excluded nx"
proof (cases "eligible_set (schedules k) OS_TASK_COUNT32 excluded = {}")
  case False
  have "(0 :: u32) < 5" "(5 :: u32) \<le> 255" by simp_all
  from select_earliest [OF this False] obtain i where
    i: "i \<in> eligible_set (schedules k) OS_TASK_COUNT32 excluded"
      "os_sched_select (Some (schedules k)) OS_TASK_COUNT32 excluded = of_nat i"
      "\<forall>j \<in> eligible_set (schedules k) OS_TASK_COUNT32 excluded. j \<noteq> i \<longrightarrow>
         edf_key_of (schedules k ! i) < edf_key_of (schedules k ! j)" by blast
  have "unat (of_nat i :: os_task_id_t) = i" using eligible_range [OF i(1)] of_nat_id_eq(2) by blast
  with i False eligible_range [OF i(1)] show ?thesis
    by (intro exI [of _ "of_nat i"]) (auto simp: dispatch_choice_def sched_def eligible_set_def eligible_def)
next
  case True
  have "(0 :: u32) < 5" "(5 :: u32) \<le> 255" by simp_all
  note sel = select_fallback [OF this True]
  have slot: "slot_ok P i (schedules k ! i) (tasks k ! i)" if "i < OS_TASK_COUNT" for i
    using assms(1) that by (simp add: slots_ok_def)
  have id: "task_id (schedules k ! unat excluded) = excluded" if "unat excluded < OS_TASK_COUNT"
    using slot [OF that] by (simp add: slot_ok_def)
  have "off_cpu (schedules k ! 0)" using assms(2) by (simp add: all_off_cpu_def)
  then have idle: "state (schedules k ! 0) = OS_TASK_READY" "task_id (schedules k ! 0) = 0"
    using slot [of 0] by (auto simp: slot_ok_def off_cpu_def)
  show ?thesis
    using sel True id idle by (auto simp: dispatch_choice_def sched_def ready_user_job_def)
qed

lemma dispatch_effect:
  assumes "slots_ok P k" and "all_off_cpu k"
  shows "\<exists>nx k'. dispatch_next k = Inr k' \<and> unat nx < OS_TASK_COUNT \<and>
    state (sched k nx) = OS_TASK_READY \<and> dispatch_choice (schedules k) (yield_excluded_task k) nx \<and>
    quiet k' = quiet (k\<lparr>schedules := (schedules k)[unat nx := (sched k nx)\<lparr>state := OS_TASK_RUNNING\<rparr>],
      yield_excluded_task := OS_TASK_ID_INVALID, current_task := nx, has_active_context := 1\<rparr>)"
proof -
  obtain nx where sel: "os_sched_select (Some (schedules k)) OS_TASK_COUNT32 (yield_excluded_task k) = nx"
    "unat nx < OS_TASK_COUNT" "state (sched k nx) = OS_TASK_READY"
    "dispatch_choice (schedules k) (yield_excluded_task k) nx"
    using select_choice [OF assms] by blast
  then have valid: "nx \<noteq> OS_TASK_ID_INVALID" by auto
  let ?k1 = "k\<lparr>yield_excluded_task := OS_TASK_ID_INVALID\<rparr>"
  have same: "tcb ?k1 = tcb k" "sched ?k1 = sched k" by (simp_all add: fun_eq_iff tcb_def sched_def)
  have slot: "slot_ok P (unat nx) (sched k nx) (tcb k nx)" by (rule slots_okD [OF assms(1) sel(2)])
  then have "stack_region P (unat nx) (tcb k nx)" "psp_ok (tcb k nx) (saved_psp (tcb k nx))"
    using sel(3) by (auto simp: slot_ok_def)
  then have psp: "valid_saved_psp nx (saved_psp (tcb k nx)) ?k1"
    using valid_psp_iff [of P "unat nx" ?k1 nx] sel(2) by (simp add: same)
  have trans: "transition_task nx OS_TASK_READY OS_TASK_RUNNING reason k2 =
      Inr (k2\<lparr>schedules := (schedules k2)[unat nx := (sched k2 nx)\<lparr>state := OS_TASK_RUNNING\<rparr>]\<rparr>)"
    if "sched k2 = sched k" for k2 reason
    using sel(2,3) that by (intro transition_effect) simp_all
  let ?k2 = "trace_emit_selection nx (current_task k) (yield_excluded_task k) OS_TRACE_SELECT_DISPATCH ?k1"
  have "sched ?k2 = sched k" by (simp add: same)
  then have "dispatch_next k = Inr (?k2\<lparr>schedules := (schedules k)[unat nx := (sched k nx)\<lparr>state := OS_TASK_RUNNING\<rparr>],
      current_task := nx, has_active_context := 1\<rparr>)"
    using sel(1,3) valid psp by (simp add: dispatch_next_def same trans Let_def)
  with sel(2-4) show ?thesis
    by (intro exI [of _ nx] exI conjI) (assumption | simp add: quiet_def trace_emit_selection_def)+
qed

section \<open>Committing\<close>

text \<open>The tables after the switch to \<open>nx\<close>.\<close>

definition dispatched :: "os_task_id_t \<Rightarrow> kernel \<Rightarrow> kernel" where
  "dispatched nx k = k\<lparr>schedules := (schedules k)[unat nx := (sched k nx)\<lparr>state := OS_TASK_RUNNING\<rparr>],
     tasks := (if nx \<noteq> OS_TASK_ID_IDLE then (tasks k)[unat nx := (tcb k nx)\<lparr>started := True\<rparr>] else tasks k),
     yield_excluded_task := OS_TASK_ID_INVALID, current_task := nx, has_active_context := 1,
     pending_preempt_sources := 0\<rparr>"

lemma commit_effect:
  assumes "sources = 0 \<or> outgoing \<noteq> OS_TASK_ID_INVALID \<and> outgoing \<noteq> current_task k"
  shows "\<exists>k'. commit_switch outgoing sources st k = Inr k' \<and>
    quiet k' = quiet (k\<lparr>pending_preempt_sources := 0, tasks := (if current_task k \<noteq> OS_TASK_ID_IDLE
      then (tasks k)[unat (current_task k) := (tcb k (current_task k))\<lparr>started := True\<rparr>] else tasks k)\<rparr>)"
proof -
  have id: "(tasks k)[unat i := (tcb k i)\<lparr>started := True\<rparr>] = tasks k" if "started (tcb k i)" for i
  proof -
    have "(tcb k i)\<lparr>started := True\<rparr> = tcb k i" using that by (cases "tcb k i") simp
    then show ?thesis by (simp add: tcb_def)
  qed
  show ?thesis
    using assms
    by (cases "started (tcb k (current_task k))")
      (auto simp: commit_switch_def Let_def set_tcb_def quiet_def trace_defs tcb_def id [unfolded tcb_def])
qed

lemma verify_one:
  assumes "\<And>i. i < OS_TASK_COUNT \<Longrightarrow> state (ss ! i) = OS_TASK_RUNNING \<longleftrightarrow> i = unat c" and "unat c < OS_TASK_COUNT"
  shows "verify_loop ss [0..<OS_TASK_COUNT] (0, OS_TASK_ID_INVALID) = (1, c)"
proof -
  have "[0..<OS_TASK_COUNT] = [0, 1, 2, 3, 4]" by (simp add: upt_rec)
  moreover have "state (ss ! 0) = OS_TASK_RUNNING \<longleftrightarrow> 0 = unat c" "state (ss ! 1) = OS_TASK_RUNNING \<longleftrightarrow> 1 = unat c"
    "state (ss ! 2) = OS_TASK_RUNNING \<longleftrightarrow> 2 = unat c" "state (ss ! 3) = OS_TASK_RUNNING \<longleftrightarrow> 3 = unat c"
    "state (ss ! 4) = OS_TASK_RUNNING \<longleftrightarrow> 4 = unat c"
    using assms(1) by simp_all
  ultimately show ?thesis
    using assms(2) unfolding small_id by (elim disjE) simp_all
qed

lemma verify_none:
  assumes "\<And>i. i < OS_TASK_COUNT \<Longrightarrow> state (ss ! i) \<noteq> OS_TASK_RUNNING"
  shows "verify_loop ss [0..<OS_TASK_COUNT] (0, OS_TASK_ID_INVALID) = (0, OS_TASK_ID_INVALID)"
proof -
  have "[0..<OS_TASK_COUNT] = [0, 1, 2, 3, 4]" by (simp add: upt_rec)
  then show ?thesis
    using assms [of 0] assms [of 1] assms [of 2] assms [of 3] assms [of 4] by auto
qed

lemma save_effect:
  assumes "has_active_context k \<noteq> 0" and "unat (current_task k) < OS_TASK_COUNT"
    and "stack_region P i (tcb k (current_task k))" and "psp_ok (tcb k (current_task k)) p"
  shows "save_outgoing p k = Inr (set_tcb (current_task k) (\<lambda>t. t\<lparr>saved_psp := p\<rparr>) k)"
proof -
  have "current_task k \<noteq> OS_TASK_ID_INVALID" using assms(2) by auto
  then show ?thesis using assms valid_psp_iff [OF assms(3,2)] by (simp add: save_outgoing_def)
qed

lemma retires_same:
  assumes "retires k k'"
  shows "current_task k' = current_task k" "yield_excluded_task k' = yield_excluded_task k"
    "pending_preempt_sources k' = pending_preempt_sources k" "running k' = running k"
    "monotonic_ticks k' = monotonic_ticks k" "kernel_initialized k' = kernel_initialized k"
    "pendsv_set k' = pendsv_set k" "has_active_context k' = has_active_context k" "ram k' = ram k"
proof -
  obtain k1 where k1: "quiet k' = quiet k1" "current_task k1 = current_task k"
    "yield_excluded_task k1 = yield_excluded_task k"
    "pending_preempt_sources k1 = pending_preempt_sources k" "running k1 = running k"
    "monotonic_ticks k1 = monotonic_ticks k" "kernel_initialized k1 = kernel_initialized k"
    "pendsv_set k1 = pendsv_set k" "has_active_context k1 = has_active_context k" "ram k1 = ram k"
  proof -
    from assms consider "quiet k' = quiet k"
      | "quiet k' = quiet (k\<lparr>schedules := (schedules k)[unat (current_task k) :=
         (sched k (current_task k))\<lparr>state := OS_TASK_READY\<rparr>]\<rparr>)"
      | a H where "quiet k' = quiet (reclaimed (current_task k) a H k)"
      unfolding retires_def by blast
    then show thesis by cases (rule that, assumption, simp_all add: reclaimed_def)+
  qed
  note q = quiet_eqD [OF k1(1)]
  show "current_task k' = current_task k" "yield_excluded_task k' = yield_excluded_task k"
    "pending_preempt_sources k' = pending_preempt_sources k" "running k' = running k"
    "monotonic_ticks k' = monotonic_ticks k" "kernel_initialized k' = kernel_initialized k"
    "pendsv_set k' = pendsv_set k" "has_active_context k' = has_active_context k" "ram k' = ram k"
    by (simp_all only: q k1(2-))
qed

section \<open>The whole switch\<close>

lemma retires_schedules:
  assumes "retires k k'" and "i \<noteq> unat (current_task k)"
  shows "schedules k' ! i = schedules k ! i" "tasks k' ! i = tasks k ! i"
proof -
  from assms(1) consider "quiet k' = quiet k"
    | "quiet k' = quiet (k\<lparr>schedules := (schedules k)[unat (current_task k) :=
       (sched k (current_task k))\<lparr>state := OS_TASK_READY\<rparr>]\<rparr>)"
    | a H where "quiet k' = quiet (reclaimed (current_task k) a H k)"
    unfolding retires_def by blast
  then have "schedules k' ! i = schedules k ! i \<and> tasks k' ! i = tasks k ! i"
  proof cases
    case 1
    then show ?thesis using quiet_eqD(1,2) [OF 1] by simp
  next
    case 2
    then show ?thesis using quiet_eqD(1,2) [OF 2] assms(2) by simp
  next
    case 3
    then show ?thesis using quiet_eqD(1,2) [OF 3] assms(2) by (simp add: reclaimed_def)
  qed
  then show "schedules k' ! i = schedules k ! i" "tasks k' ! i = tasks k ! i" by simp_all
qed

lemma retires_key:
  assumes "retires k k'" and "state (sched k (current_task k)) \<noteq> OS_TASK_EXITING"
    and "length (schedules k) = OS_TASK_COUNT" and "unat (current_task k) < OS_TASK_COUNT"
  shows "\<exists>st. sched k' (current_task k) = (sched k (current_task k))\<lparr>state := st\<rparr>"
    "tasks k' = tasks k"
    "memory_blocks k' = memory_blocks k" "memory_allocator k' = memory_allocator k"
proof -
  let ?k1 = "k\<lparr>schedules := (schedules k)[unat (current_task k) :=
       (sched k (current_task k))\<lparr>state := OS_TASK_READY\<rparr>]\<rparr>"
  from assms(1,2) consider "quiet k' = quiet k" | "quiet k' = quiet ?k1"
    unfolding retires_def by blast
  then have "(\<exists>st. sched k' (current_task k) = (sched k (current_task k))\<lparr>state := st\<rparr>) \<and> tasks k' = tasks k \<and>
    memory_blocks k' = memory_blocks k \<and> memory_allocator k' = memory_allocator k"
  proof cases
    case 1
    have "(sched k (current_task k)) = (sched k (current_task k))\<lparr>state := state (sched k (current_task k))\<rparr>" by simp
    then show ?thesis using quiet_eqD(1,2,9,13) [OF 1] by (metis sched_def)
  next
    case 2
    then show ?thesis using quiet_eqD(1,2,9,13) [OF 2] assms(3,4)
      by (intro conjI exI [of _ OS_TASK_READY]) (simp_all add: sched_def)
  qed
  then show "\<exists>st. sched k' (current_task k) = (sched k (current_task k))\<lparr>state := st\<rparr>"
    "tasks k' = tasks k" "memory_blocks k' = memory_blocks k" "memory_allocator k' = memory_allocator k"
    by simp_all
qed

lemma edf_key_state [simp]: "edf_key_of (s\<lparr>state := st\<rparr>) = edf_key_of s"
  by (simp add: edf_key_of_def)

lemma eligibleI:
  assumes "slots_ok P k" and "i < OS_TASK_COUNT" and "i \<noteq> 0" and "state (schedules k ! i) = OS_TASK_READY"
    and "of_nat i \<noteq> excluded"
  shows "i \<in> eligible_set (schedules k) OS_TASK_COUNT32 excluded"
  using assms by (auto simp: eligible_set_def eligible_def slots_ok_def slot_ok_def)

lemma preempt_other:
  assumes "slots_ok P k" and "slots_ok P k'" and "preemption_justified k" and "unat (current_task k) < OS_TASK_COUNT"
    and "retires k k'" and "dispatch_choice (schedules k') OS_TASK_ID_INVALID nx"
  shows "nx \<noteq> current_task k"
proof
  assume eq: "nx = current_task k"
  let ?E = "eligible_set (schedules k') OS_TASK_COUNT32 OS_TASK_ID_INVALID"
  obtain c where c: "c < OS_TASK_COUNT" "c \<noteq> unat (current_task k)" "ready_user_job (schedules k ! c)"
    "current_task k = OS_TASK_ID_IDLE \<or> edf_key_of (schedules k ! c) < edf_key_of (sched k (current_task k))"
    and st: "state (sched k (current_task k)) \<noteq> OS_TASK_EXITING"
    using assms(3) by (auto simp: preemption_justified_def)
  have same: "schedules k' ! c = schedules k ! c" by (rule retires_schedules [OF assms(5) c(2)])
  have "slot_ok P c (schedules k ! c) (tasks k ! c)" using assms(1) c(1) by (simp add: slots_ok_def)
  then have "c \<noteq> 0" using c(3) unfolding ready_user_job_def slot_ok_def by (metis of_nat_0)
  then have cE: "c \<in> ?E"
    using c(1,3) assms(2) of_nat_id_eq(3) [OF c(1) c(1)]
    by (intro eligibleI) (simp_all add: same ready_user_job_def)
  then have ne: "?E \<noteq> {}" by blast
  then have nxE: "unat nx \<in> ?E" "\<forall>j \<in> ?E. j \<noteq> unat nx \<longrightarrow> edf_key_of (schedules k' ! unat nx) < edf_key_of (schedules k' ! j)"
    using assms(6) by (simp_all add: dispatch_choice_def)
  have "current_task k \<noteq> OS_TASK_ID_IDLE" using eligible_range [OF nxE(1)] eq by auto
  then have "edf_key_of (schedules k ! c) < edf_key_of (sched k (current_task k))" using c(4) by simp
  moreover have "edf_key_of (sched k' (current_task k)) = edf_key_of (sched k (current_task k))"
  proof -
    have "length (schedules k) = OS_TASK_COUNT" using assms(1) by (simp add: slots_ok_def)
    from retires_key(1) [OF assms(5) st this assms(4)] show ?thesis by auto
  qed
  moreover have "edf_key_of (sched k' (current_task k)) < edf_key_of (schedules k ! c)"
    using nxE(2) cE c(2) eq same by (auto simp: sched_def)
  ultimately show False by simp
qed

text \<open>What a switch needs: the invariant with a pending request, and the outgoing stack pointer.\<close>

definition switch_ready :: "platform \<Rightarrow> u32 \<Rightarrow> kernel \<Rightarrow> bool" where
  "switch_ready P p k \<longleftrightarrow> slots_ok P k \<and> heap_owned k \<and> running k \<and> kernel_initialized k \<and>
     mode_ok (k\<lparr>pendsv_set := True\<rparr>) \<and>
     (if has_active_context k = 0 then p = 0 else psp_ok (tcb k (current_task k)) p)"

definition saved :: "u32 \<Rightarrow> kernel \<Rightarrow> kernel" where
  "saved p k = (if has_active_context k = 0 then k else set_tcb (current_task k) (\<lambda>t. t\<lparr>saved_psp := p\<rparr>) k)"

lemma saved_same:
  "schedules (saved p k) = schedules k" "current_task (saved p k) = current_task k"
  "yield_excluded_task (saved p k) = yield_excluded_task k" "running (saved p k) = running k"
  "pending_preempt_sources (saved p k) = pending_preempt_sources k" "sched (saved p k) = sched k"
  "memory_allocator (saved p k) = memory_allocator k" "memory_blocks (saved p k) = memory_blocks k"
  "has_active_context (saved p k) = has_active_context k" "monotonic_ticks (saved p k) = monotonic_ticks k"
  "kernel_initialized (saved p k) = kernel_initialized k" "pendsv_set (saved p k) = pendsv_set k"
  by (simp_all add: saved_def set_tcb_def sched_def fun_eq_iff)

lemma switch_ready_current:
  assumes "switch_ready P p k" and "has_active_context k \<noteq> 0"
  shows "unat (current_task k) < OS_TASK_COUNT" "stack_region P (unat (current_task k)) (tcb k (current_task k))"
    "slot_ok P (unat (current_task k)) (sched k (current_task k)) (tcb k (current_task k))"
proof -
  show cur: "unat (current_task k) < OS_TASK_COUNT"
    using assms by (simp add: switch_ready_def mode_ok_def)
  have "slots_ok P k" using assms(1) by (simp add: switch_ready_def)
  then show slot: "slot_ok P (unat (current_task k)) (sched k (current_task k)) (tcb k (current_task k))"
    using cur slots_okD by blast
  have "state (sched k (current_task k)) \<noteq> OS_TASK_DORMANT"
    using assms by (simp add: switch_ready_def mode_ok_def sched_def)
  with slot show "stack_region P (unat (current_task k)) (tcb k (current_task k))"
    by (simp add: slot_ok_def)
qed

lemma saved_ok:
  assumes "switch_ready P p k"
  shows "save_outgoing p k = Inr (saved p k)" "slots_ok P (saved p k)" "heap_owned (saved p k)"
    "outgoing_ok (saved p k)"
proof -
  have ok: "slots_ok P k" "heap_owned k" and mode: "mode_ok (k\<lparr>pendsv_set := True\<rparr>)"
    using assms by (simp_all add: switch_ready_def)
  show "heap_owned (saved p k)"
    by (rule heap_owned_keep [OF ok(2)]) (simp_all add: saved_same)
  show "outgoing_ok (saved p k)"
    using mode by (auto simp: outgoing_ok_def mode_ok_def saved_same all_off_cpu_def split: if_splits)
  show "save_outgoing p k = Inr (saved p k)"
  proof (cases "has_active_context k = 0")
    case True
    then show ?thesis using assms by (simp add: save_outgoing_def saved_def switch_ready_def mode_ok_def)
  next
    case False
    then show ?thesis
      using save_effect [OF False switch_ready_current(1,2) [OF assms False]] assms
      by (simp add: switch_ready_def saved_def)
  qed
  show "slots_ok P (saved p k)"
  proof (cases "has_active_context k = 0")
    case False
    note cur = switch_ready_current [OF assms False]
    let ?t = "(tcb k (current_task k))\<lparr>saved_psp := p\<rparr>"
    have "slot_ok P (unat (current_task k)) (sched k (current_task k)) ?t"
      using cur(2,3) assms False by (simp add: slot_ok_def stack_region_def psp_ok_def switch_ready_def)
    then show ?thesis
      by (rule slots_ok_update [OF ok(1) cur(1)]) (simp_all add: saved_def set_tcb_def False sched_def)
  qed (simp add: saved_def ok)
qed

lemma switch_effect:
  assumes "switch_ready P p k"
  shows "\<exists>k' k2 nx. os_pendsv_switch p k = Inr (saved_psp (tcb k' nx), k') \<and> retires (saved p k) k2 \<and>
    slots_ok P k2 \<and> heap_owned k2 \<and> all_off_cpu k2 \<and>
    unat nx < OS_TASK_COUNT \<and> state (sched k2 nx) = OS_TASK_READY \<and>
    dispatch_choice (schedules k2) (yield_excluded_task k) nx \<and> quiet k' = quiet (dispatched nx k2)"
proof -
  let ?k1 = "saved p k"
  note ok1 = saved_ok [OF assms]
  obtain k2 where retire: "retire_outgoing ?k1 = Inr k2" "retires ?k1 k2"
    using retire_effect [OF ok1(2-4)] by blast
  note ok2 = retires_ok [OF ok1(2-4) retire(2)]
  note same2 = retires_same [OF retire(2), unfolded saved_same]
  obtain nx k3 where disp: "dispatch_next k2 = Inr k3" "unat nx < OS_TASK_COUNT"
    "state (sched k2 nx) = OS_TASK_READY" "dispatch_choice (schedules k2) (yield_excluded_task k) nx"
    "quiet k3 = quiet (k2\<lparr>schedules := (schedules k2)[unat nx := (sched k2 nx)\<lparr>state := OS_TASK_RUNNING\<rparr>],
      yield_excluded_task := OS_TASK_ID_INVALID, current_task := nx, has_active_context := 1\<rparr>)"
    using dispatch_effect [OF ok2(1,3)] unfolding same2 by blast
  have cur3: "current_task k3 = nx" using quiet_eqD(3) [OF disp(5)] by simp
  have "pending_preempt_sources k = 0 \<or> current_task k \<noteq> OS_TASK_ID_INVALID \<and> current_task k \<noteq> current_task k3"
  proof (cases "pending_preempt_sources k = 0")
    case False
    then have active: "has_active_context k \<noteq> 0" and just: "preemption_justified k"
      using assms by (auto simp: switch_ready_def mode_ok_def preemption_justified_def sched_def split: if_splits)
    note cur = switch_ready_current [OF assms active]
    have "preemption_justified ?k1" using just by (simp add: preemption_justified_def saved_same)
    moreover have "yield_excluded_task k = OS_TASK_ID_INVALID" using just by (simp add: preemption_justified_def)
    ultimately have "nx \<noteq> current_task k"
      using preempt_other [OF ok1(2) ok2(1) _ _ retire(2), of nx] cur(1) disp(4) by (simp add: saved_same)
    with cur(1) cur3 show ?thesis by auto
  qed simp
  moreover define st where "st = (if current_task k \<noteq> OS_TASK_ID_INVALID then state (sched k (current_task k))
      else OS_TASK_DORMANT)"
  ultimately obtain k4 where commit:
    "commit_switch (current_task k) (pending_preempt_sources k) st k3 = Inr k4"
    "quiet k4 = quiet (k3\<lparr>pending_preempt_sources := 0, tasks := (if current_task k3 \<noteq> OS_TASK_ID_IDLE
      then (tasks k3)[unat (current_task k3) := (tcb k3 (current_task k3))\<lparr>started := True\<rparr>] else tasks k3)\<rparr>)"
    using commit_effect by blast
  have q4: "quiet k4 = quiet (dispatched nx k2)"
    unfolding commit(2) by (rule quiet_eqE [OF disp(5)]) (simp add: quiet_def dispatched_def tcb_def)
  note f4 = quiet_eqD [OF q4]
  have len: "length (schedules k2) = OS_TASK_COUNT" using ok2(1) by (simp add: slots_ok_def)
  have "state (schedules k4 ! i) = OS_TASK_RUNNING \<longleftrightarrow> i = unat nx" if "i < OS_TASK_COUNT" for i
    using ok2(3) that disp(2) len by (auto simp: f4(2) dispatched_def nth_list_update all_off_cpu_def off_cpu_def)
  then have "verify_state ''SWITCH'' k4 = Inr ()"
    using verify_one [of "schedules k4" nx] disp(2) f4(3,11) assms same2(4)
    by (simp add: verify_state_def dispatched_def switch_ready_def)
  then have "os_pendsv_switch p k = Inr (saved_psp (tcb k4 nx), k4)"
    using ok1(1) retire(1) disp(1) commit(1) f4(3)
    by (simp add: os_pendsv_switch_def Let_def st_def dispatched_def)
  then show ?thesis using retire(2) ok2 disp(2-4) q4 by blast
qed

lemma dispatched_ok:
  assumes "slots_ok P k" and "heap_owned k" and "all_off_cpu k" and "unat nx < OS_TASK_COUNT"
    and "state (sched k nx) = OS_TASK_READY" and "running k" and "kernel_initialized k"
  shows "kernel_ok P (dispatched nx k)"
proof -
  let ?t = "if nx \<noteq> OS_TASK_ID_IDLE then (tcb k nx)\<lparr>started := True\<rparr> else tcb k nx"
  let ?s = "(sched k nx)\<lparr>state := OS_TASK_RUNNING\<rparr>"
  have len: "length (tasks k) = OS_TASK_COUNT" "length (schedules k) = OS_TASK_COUNT"
    using assms(1) by (simp_all add: slots_ok_def)
  have "slot_ok P (unat nx) ?s ?t"
    using slots_okD [OF assms(1,4)] assms(5)
    by (auto simp: slot_ok_def sched_task_wf_def stack_region_def psp_ok_def)
  then have "slots_ok P (dispatched nx k)"
    by (rule slots_ok_update [OF assms(1,4)]) (simp_all add: dispatched_def tcb_def)
  moreover have "heap_owned (dispatched nx k)"
    by (rule heap_owned_keep [OF assms(2)]) (use assms(4) len in \<open>auto simp: dispatched_def nth_list_update\<close>)
  moreover have "mode_ok (dispatched nx k)"
    using assms(3,4,6) len
    by (auto simp: mode_ok_def dispatched_def sched_def all_off_cpu_def nth_list_update)
  ultimately show ?thesis using assms(7) by (simp add: kernel_ok_def dispatched_def)
qed

lemma switch_keeps:
  assumes "switch_ready P p k"
  shows "\<exists>k'. os_pendsv_switch p k = Inr (saved_psp (tcb k' (current_task k')), k') \<and> kernel_ok P k' \<and>
    has_active_context k' \<noteq> 0 \<and> pendsv_set k' = pendsv_set k \<and> monotonic_ticks k' = monotonic_ticks k \<and>
    state (sched k' (current_task k')) = OS_TASK_RUNNING"
proof -
  obtain k' k2 nx where sw: "os_pendsv_switch p k = Inr (saved_psp (tcb k' nx), k')" "retires (saved p k) k2"
    "slots_ok P k2" "heap_owned k2" "all_off_cpu k2" "unat nx < OS_TASK_COUNT" "state (sched k2 nx) = OS_TASK_READY"
    "quiet k' = quiet (dispatched nx k2)"
    using switch_effect [OF assms] by blast
  note same2 = retires_same [OF sw(2), unfolded saved_same]
  have "running k2" "kernel_initialized k2" using assms by (simp_all add: same2 switch_ready_def)
  from dispatched_ok [OF sw(3-7) this] have "kernel_ok P k'" using inv_quiet_eq(4) [OF sw(8)] by simp
  moreover have "current_task k' = nx" "has_active_context k' = 1" "pendsv_set k' = pendsv_set k"
    "monotonic_ticks k' = monotonic_ticks k" "state (sched k' nx) = OS_TASK_RUNNING"
    using quiet_eqD [OF sw(8)] same2 sw(3,6) by (simp_all add: dispatched_def sched_def slots_ok_def)
  ultimately show ?thesis using sw(1) by auto
qed

end
