(* ===== verification/Kernel_Tick.thy ===== *)
theory Kernel_Tick
  imports Kernel_Switch
begin

text \<open>
  The tick. \<open>tick_record\<close> is what one tick does to one scheduling record; the loop of
  \<open>os_kernel_tick\<close> applies it to every user task, and the preemption check that follows requests
  a switch exactly when a task that has just become READY outranks the running one.
\<close>

section \<open>One record\<close>

definition tick_accounted :: "u64 \<Rightarrow> os_sched_task \<Rightarrow> os_sched_task" where
  "tick_accounted now s =
     (let s1 = the (os_sched_account_running_tick (Some s));
          s2 = snd (call_ptr (\<lambda>p. os_sched_record_deadline_miss p now) s1)
      in snd (call_ptr (\<lambda>p. os_sched_record_active_release p now) s2))"

definition tick_released :: "u64 \<Rightarrow> os_sched_task \<Rightarrow> os_sched_task" where
  "tick_released now s = snd (call_ptr (\<lambda>p. os_sched_release_due p now) (tick_accounted now s))"

definition tick_record :: "u64 \<Rightarrow> os_sched_task \<Rightarrow> os_sched_task" where
  "tick_record now s = snd (call_ptr (\<lambda>p. os_sched_wake_due p now) (tick_released now s))"

text \<open>What the three accounting operations leave alone.\<close>

definition accounts_only :: "os_sched_task \<Rightarrow> os_sched_task \<Rightarrow> bool" where
  "accounts_only s s' \<longleftrightarrow> state s' = state s \<and> job_active s' = job_active s \<and> task_id s' = task_id s \<and>
     edf_key_of s' = edf_key_of s \<and> wake_order s' = wake_order s \<and> kind s' = kind s \<and>
     period_ticks s' = period_ticks s \<and> (\<not> job_active s \<longrightarrow> s' = s) \<and>
     (sched_task_wf s \<longrightarrow> sched_task_wf s')"

lemma accounts_only_slot:
  "accounts_only s s' \<Longrightarrow> slot_ok P i s t \<Longrightarrow> \<not> time_range_exhausted s' \<Longrightarrow> slot_ok P i s' t"
  by (simp add: accounts_only_def slot_ok_def)

lemma accounts_only_trans: "accounts_only a b \<Longrightarrow> accounts_only b c \<Longrightarrow> accounts_only a c"
  by (auto simp: accounts_only_def)

lemma account_running_only:
  fixes s defines "s' \<equiv> the (os_sched_account_running_tick (Some s))"
  shows "accounts_only s s'" "time_range_exhausted s' = time_range_exhausted s"
    "next_release_order s' = next_release_order s"
proof -
  have "task_step now s s'" for now
    by (rule task_step.running_tick) (simp add: s'_def os_sched_account_running_tick_def)
  from sched_task_wf_step [OF this] show "accounts_only s s'"
    by (auto simp: accounts_only_def s'_def os_sched_account_running_tick_def edf_key_of_def)
  show "time_range_exhausted s' = time_range_exhausted s" "next_release_order s' = next_release_order s"
    by (simp_all add: s'_def os_sched_account_running_tick_def)
qed

lemma deadline_miss_only:
  fixes s now defines "s' \<equiv> snd (call_ptr (\<lambda>p. os_sched_record_deadline_miss p now) s)"
  shows "accounts_only s s'" "time_range_exhausted s' = time_range_exhausted s"
    "next_release_order s' = next_release_order s"
proof -
  have "os_sched_record_deadline_miss (Some s) now = (fst (os_sched_record_deadline_miss (Some s) now), Some s')"
    by (simp add: s'_def os_sched_record_deadline_miss_def on_ptr_Some)
  from sched_task_wf_step [OF task_step.deadline_miss [OF this]] show "accounts_only s s'"
    by (auto simp: accounts_only_def s'_def os_sched_record_deadline_miss_def edf_key_of_def)
  show "time_range_exhausted s' = time_range_exhausted s" "next_release_order s' = next_release_order s"
    by (simp_all add: s'_def os_sched_record_deadline_miss_def)
qed

lemma active_release_only:
  fixes s now defines "s' \<equiv> snd (call_ptr (\<lambda>p. os_sched_record_active_release p now) s)"
  assumes "sched_task_wf s" and "unat now + 2 ^ 32 \<le> 2 ^ 64"
  shows "accounts_only s s'" "time_range_exhausted s' = time_range_exhausted s"
proof -
  have fits: "\<not> next_release_order s > UINT64_MAX - ucast (period_ticks s)" if "next_release_order s \<le> now"
    using that assms(3) unat_less_2p(3) [of "period_ticks s"]
    unfolding word_le_nat_alt gt_max64_iff unat_ucast_32_64 by simp
  have period: "kind s = OS_TASK_PERIODIC \<longrightarrow> period_ticks s \<noteq> 0"
    using assms(2) by (simp add: sched_task_wf_def)
  have "os_sched_record_active_release (Some s) now = (fst (os_sched_record_active_release (Some s) now), Some s')"
    by (simp add: s'_def os_sched_record_active_release_def on_ptr_Some)
  from sched_task_wf_step [OF task_step.active_release [OF this]] show "accounts_only s s'"
    by (auto simp: accounts_only_def s'_def os_sched_record_active_release_def edf_key_of_def Let_def)
  show "time_range_exhausted s' = time_range_exhausted s"
    using fits period
    by (auto simp: s'_def os_sched_record_active_release_def Let_def os_tick_reached_def os_tick_before_def
        not_less)
qed

lemma tick_accounted_facts:
  assumes "slot_ok P i s t" and "unat now + 2 ^ 32 \<le> 2 ^ 64"
  shows "accounts_only s (tick_accounted now s)" "\<not> time_range_exhausted (tick_accounted now s)"
    "slot_ok P i (tick_accounted now s) t"
proof -
  define s1 where "s1 = the (os_sched_account_running_tick (Some s))"
  define s2 where "s2 = snd (call_ptr (\<lambda>p. os_sched_record_deadline_miss p now) s1)"
  note f1 = account_running_only [of s, folded s1_def]
  note f2 = deadline_miss_only [where now = now and s = s1, folded s2_def]
  have wf: "sched_task_wf s2" "\<not> time_range_exhausted s2"
    using assms(1) f1 f2 by (auto simp: slot_ok_def accounts_only_def)
  note f3 = active_release_only [OF wf(1) assms(2)]
  have eq: "tick_accounted now s = snd (call_ptr (\<lambda>p. os_sched_record_active_release p now) s2)"
    by (simp add: tick_accounted_def s1_def s2_def Let_def)
  show "accounts_only s (tick_accounted now s)"
    unfolding eq using f1(1) f2(1) f3(1) accounts_only_trans by blast
  moreover show "\<not> time_range_exhausted (tick_accounted now s)" unfolding eq using f3(2) wf(2) by simp
  ultimately show "slot_ok P i (tick_accounted now s) t" using assms(1) accounts_only_slot by blast
qed

text \<open>The release of a waiting task, and the wake-up of a sleeping one.\<close>

text \<open>The rank that the next job of a task will have.\<close>

definition next_key :: "os_sched_task \<Rightarrow> edf_key" where
  "next_key s = Edf_Key (next_release_order s + ucast (relative_deadline_ticks s)) (priority s) (task_id s)"

lemma release_waiting:
  assumes "slot_ok P i s t" and "unat now + 2 ^ 32 \<le> 2 ^ 64"
  shows "\<exists>s'. call_ptr (\<lambda>p. os_sched_release_due p now) s =
      (state s = OS_TASK_WAITING_RELEASE \<and> next_release_order s \<le> now, s') \<and> slot_ok P i s' t \<and>
    (if state s = OS_TASK_WAITING_RELEASE \<and> next_release_order s \<le> now
     then state s' = OS_TASK_READY \<and> job_active s' \<and> release_order s' = next_release_order s \<and>
       edf_key_of s' = next_key s
     else s' = s)"
proof (cases "state s = OS_TASK_WAITING_RELEASE \<and> next_release_order s \<le> now")
  case False
  then show ?thesis
    using assms(1) by (auto simp: os_sched_release_due_def os_tick_reached_def os_tick_before_def not_less)
next
  case True
  have inactive: "\<not> job_active s" and i: "i \<noteq> 0"
    using assms(1) True by (auto simp: slot_ok_def sched_task_wf_def)
  have small: "unat (next_release_order s) + 2 ^ 32 \<le> 2 ^ 64"
    using assms(2) True by (simp add: word_le_nat_alt)
  have fits: "\<not> next_release_order s > UINT64_MAX - ucast d" for d :: u32
    using small unat_less_2p(3) [of d] unfolding gt_max64_iff unat_ucast_32_64 by simp
  define s' where "s' = snd (call_ptr (\<lambda>p. os_sched_release_due p now) s)"
  have call: "call_ptr (\<lambda>p. os_sched_release_due p now) s = (True, s')"
    "state s' = OS_TASK_READY" "job_active s'" "release_order s' = next_release_order s"
    "task_id s' = task_id s" "time_range_exhausted s' = time_range_exhausted s" "edf_key_of s' = next_key s"
    unfolding s'_def using True inactive fits leD [of "next_release_order s" now]
    by (simp_all add: step_unfold os_tick_reached_def os_tick_before_def edf_key_of_def next_key_def)
  have "os_sched_release_due (Some s) now = (True, Some s')"
    using call(1) by (simp add: call_ptr_def os_sched_release_due_def on_ptr_Some split: prod.splits if_splits)
  from sched_task_wf_step [OF task_step.release_due [OF this]] have "sched_task_wf s'"
    using assms(1) by (simp add: slot_ok_def)
  with True call i assms(1) show ?thesis by (auto simp: slot_ok_def)
qed

lemma wake_sleeping:
  assumes "slot_ok P i s t"
  shows "\<exists>s'. call_ptr (\<lambda>p. os_sched_wake_due p now) s =
      (state s = OS_TASK_SLEEPING \<and> wake_order s \<le> now, s') \<and> slot_ok P i s' t \<and>
    s' = (if state s = OS_TASK_SLEEPING \<and> wake_order s \<le> now then s\<lparr>state := OS_TASK_READY\<rparr> else s)"
  using assms
  by (auto simp: os_sched_wake_due_def os_tick_reached_def os_tick_before_def not_less slot_ok_def sched_task_wf_def)

definition release_now :: "u64 \<Rightarrow> os_sched_task \<Rightarrow> bool" where
  "release_now now s \<longleftrightarrow> state s = OS_TASK_WAITING_RELEASE \<and> next_release_order s \<le> now"

definition wake_now :: "u64 \<Rightarrow> os_sched_task \<Rightarrow> bool" where
  "wake_now now s \<longleftrightarrow> state s = OS_TASK_SLEEPING \<and> wake_order s \<le> now"

lemma tick_record_facts:
  assumes "slot_ok P i s t" and "unat now + 2 ^ 32 \<le> 2 ^ 64"
  shows "slot_ok P i (tick_record now s) t"
    "state (tick_record now s) = (if release_now now s \<or> wake_now now s then OS_TASK_READY else state s)"
    "job_active s \<longrightarrow> edf_key_of (tick_record now s) = edf_key_of s \<and> job_active (tick_record now s)"
    "release_now now s \<longrightarrow> release_order (tick_record now s) = next_release_order s"
    "call_ptr (\<lambda>p. os_sched_release_due p now) (tick_accounted now s) = (release_now now s, tick_released now s)"
    "call_ptr (\<lambda>p. os_sched_wake_due p now) (tick_released now s) = (wake_now now s, tick_record now s)"
    "\<not> time_range_exhausted (tick_released now s)"
    "release_now now s \<longrightarrow> edf_key_of (tick_record now s) = next_key s"
proof -
  note acc = tick_accounted_facts [OF assms]
  let ?a = "tick_accounted now s"
  have inactive: "\<not> job_active s" if "state s = OS_TASK_WAITING_RELEASE"
    using assms(1) that by (simp add: slot_ok_def sched_task_wf_def)
  have due: "state ?a = OS_TASK_WAITING_RELEASE \<and> next_release_order ?a \<le> now \<longleftrightarrow> release_now now s"
    using acc(1) inactive by (auto simp: accounts_only_def release_now_def)
  obtain s4 where s4: "call_ptr (\<lambda>p. os_sched_release_due p now) ?a = (release_now now s, s4)" "slot_ok P i s4 t"
    "if release_now now s then state s4 = OS_TASK_READY \<and> job_active s4 \<and> release_order s4 = next_release_order ?a \<and>
       edf_key_of s4 = next_key ?a
     else s4 = ?a"
    using release_waiting [OF acc(3) assms(2)] unfolding due by blast
  have rel: "tick_released now s = s4" using s4(1) by (simp add: tick_released_def)
  have wdue: "state s4 = OS_TASK_SLEEPING \<and> wake_order s4 \<le> now \<longleftrightarrow> wake_now now s"
    using s4(3) acc(1) by (auto simp: accounts_only_def release_now_def wake_now_def split: if_splits)
  obtain s5 where s5: "call_ptr (\<lambda>p. os_sched_wake_due p now) s4 = (wake_now now s, s5)" "slot_ok P i s5 t"
    "s5 = (if wake_now now s then s4\<lparr>state := OS_TASK_READY\<rparr> else s4)"
    using wake_sleeping [OF s4(2), of now] unfolding wdue by blast
  have rec: "tick_record now s = s5" using s5(1) by (simp add: tick_record_def rel)
  show "slot_ok P i (tick_record now s) t"
    "call_ptr (\<lambda>p. os_sched_release_due p now) ?a = (release_now now s, tick_released now s)"
    "call_ptr (\<lambda>p. os_sched_wake_due p now) (tick_released now s) = (wake_now now s, tick_record now s)"
    "\<not> time_range_exhausted (tick_released now s)"
    using s4 s5 by (simp_all add: rec rel slot_ok_def)
  show "state (tick_record now s) = (if release_now now s \<or> wake_now now s then OS_TASK_READY else state s)"
    using s4(3) s5(3) acc(1) by (auto simp: rec accounts_only_def split: if_splits)
  have "\<not> release_now now s" if "job_active s" using inactive that by (auto simp: release_now_def)
  then show "job_active s \<longrightarrow> edf_key_of (tick_record now s) = edf_key_of s \<and> job_active (tick_record now s)"
    using s4(3) s5(3) acc(1) by (auto simp: rec accounts_only_def edf_key_of_def split: if_splits)
  have "?a = s \<and> \<not> wake_now now s" if "release_now now s"
    using acc(1) inactive that by (auto simp: accounts_only_def release_now_def wake_now_def)
  then show "release_now now s \<longrightarrow> release_order (tick_record now s) = next_release_order s"
    "release_now now s \<longrightarrow> edf_key_of (tick_record now s) = next_key s"
    using s4(3) s5(3) by (auto simp: rec)
qed

section \<open>The loop\<close>

lemma quiet_cong_schedules:
  "quiet k = quiet k' \<Longrightarrow> quiet (k\<lparr>schedules := ss\<rparr>) = quiet (k'\<lparr>schedules := ss\<rparr>)"
  by (erule quiet_eqE) (simp add: quiet_def)

lemma sched_update: "unat i < length (schedules k) \<Longrightarrow> sched (k\<lparr>schedules := (schedules k)[unat i := t]\<rparr>) i = t"
  by (simp add: sched_def)

lemma tick_account_effect:
  assumes "unat i < length (schedules k)"
  shows "quiet (tick_account i k) = quiet (k\<lparr>schedules := (schedules k)[unat i := tick_accounted (monotonic_ticks k) (sched k i)]\<rparr>)"
proof -
  define now where "now = monotonic_ticks k"
  define k1 where "k1 = snd (sched_call (\<lambda>p. ((), os_sched_account_running_tick p)) i k)"
  define r2 where "r2 = sched_call (\<lambda>p. os_sched_record_deadline_miss p now) i k1"
  define k3 where "k3 = (if fst r2 then trace_deadline OS_TRACE_DEADLINE_MISS i (snd r2) else snd r2)"
  define r4 where "r4 = sched_call (\<lambda>p. os_sched_record_active_release p now) i k3"
  define s1 where "s1 = the (os_sched_account_running_tick (Some (sched k i)))"
  define s2 where "s2 = snd (call_ptr (\<lambda>p. os_sched_record_deadline_miss p now) s1)"
  have k1: "k1 = k\<lparr>schedules := (schedules k)[unat i := s1]\<rparr>"
    by (simp add: k1_def sched_call_def call_ptr_def s1_def os_sched_account_running_tick_def)
  then have "sched k1 i = s1" using assms by (simp add: sched_def)
  then have "snd r2 = k\<lparr>schedules := (schedules k)[unat i := s2]\<rparr>"
    by (simp add: r2_def sched_call_def s2_def k1 case_prod_beta)
  then have k3: "quiet k3 = quiet (k\<lparr>schedules := (schedules k)[unat i := s2]\<rparr>)" by (simp add: k3_def)
  then have sk3: "sched k3 i = s2" "schedules k3 = (schedules k)[unat i := s2]"
    using quiet_eqD(2) [OF k3] assms by (simp_all add: sched_def)
  have t: "tick_accounted now (sched k i) = snd (call_ptr (\<lambda>p. os_sched_record_active_release p now) s2)"
    by (simp add: tick_accounted_def s1_def s2_def Let_def)
  have "snd r4 = k3\<lparr>schedules := (schedules k)[unat i := tick_accounted now (sched k i)]\<rparr>"
    by (simp add: r4_def sched_call_def sk3 t case_prod_beta)
  then have "quiet (snd r4) = quiet (k\<lparr>schedules := (schedules k)[unat i := tick_accounted now (sched k i)]\<rparr>)"
    using quiet_cong_schedules [OF k3] by simp
  moreover have "quiet (tick_account i k) = quiet (snd r4)"
    unfolding tick_account_def Let_def now_def [symmetric] k1_def [symmetric] r2_def [symmetric]
    by (simp add: case_prod_beta k3_def [symmetric] r4_def [symmetric])
  ultimately show ?thesis by (simp add: now_def)
qed

definition ready_now :: "u64 \<Rightarrow> os_sched_task \<Rightarrow> bool" where
  "ready_now now s \<longleftrightarrow> release_now now s \<or> wake_now now s"

lemma tick_task_effect:
  assumes "slots_ok P k" and "unat i < OS_TASK_COUNT" and "unat (monotonic_ticks k) + 2 ^ 32 \<le> 2 ^ 64"
  shows "\<exists>k'. tick_task i k = Inr (ready_now (monotonic_ticks k) (sched k i), k') \<and>
    quiet k' = quiet (k\<lparr>schedules := (schedules k)[unat i := tick_record (monotonic_ticks k) (sched k i)]\<rparr>)"
proof -
  define now where "now = monotonic_ticks k"
  let ?s = "sched k i"
  have len: "unat i < length (schedules k)" using assms(1,2) by (simp add: slots_ok_def)
  note facts = tick_record_facts [OF slots_okD [OF assms(1,2)], of now]
  note acc = tick_accounted_facts [OF slots_okD [OF assms(1,2)], of now]
  have small: "unat now + 2 ^ 32 \<le> 2 ^ 64" using assms(3) by (simp add: now_def)
  define k4 where "k4 = tick_account i k"
  have k4: "quiet k4 = quiet (k\<lparr>schedules := (schedules k)[unat i := tick_accounted now ?s]\<rparr>)"
    unfolding k4_def now_def by (rule tick_account_effect [OF len])
  then have s4: "sched k4 i = tick_accounted now ?s" "schedules k4 = (schedules k)[unat i := tick_accounted now ?s]"
    using quiet_eqD(2) [OF k4] len by (simp_all add: sched_def)
  define k5 where "k5 = k4\<lparr>schedules := (schedules k)[unat i := tick_released now ?s]\<rparr>"
  have r5: "sched_call (\<lambda>p. os_sched_release_due p now) i k4 = (release_now now ?s, k5)"
    using facts(5) [OF small] by (simp add: sched_call_def s4 k5_def)
  define k6 where "k6 = (if release_now now ?s then trace_deadline OS_TRACE_TASK_RELEASE i k5 else k5)"
  have k6: "quiet k6 = quiet (k\<lparr>schedules := (schedules k)[unat i := tick_released now ?s]\<rparr>)"
    using quiet_cong_schedules [OF k4] by (simp add: k6_def k5_def)
  then have s6: "sched k6 i = tick_released now ?s" "schedules k6 = (schedules k)[unat i := tick_released now ?s]"
    using quiet_eqD(2) [OF k6] len by (simp_all add: sched_def)
  define k7 where "k7 = k6\<lparr>schedules := (schedules k)[unat i := tick_record now ?s]\<rparr>"
  have r7: "sched_call (\<lambda>p. os_sched_wake_due p now) i k6 = (wake_now now ?s, k7)"
    using facts(6) [OF small] by (simp add: sched_call_def s6 k7_def)
  define k8 where "k8 = (if wake_now now ?s then trace_deadline OS_TRACE_TASK_WAKE i k7 else k7)"
  have k8: "quiet k8 = quiet (k\<lparr>schedules := (schedules k)[unat i := tick_record now ?s]\<rparr>)"
    using quiet_cong_schedules [OF k6] by (simp add: k8_def k7_def)
  have "tick_task i k = Inr (ready_now now ?s, k8)"
    unfolding tick_task_def Let_def now_def [symmetric] k4_def [symmetric]
    using acc(2) [OF small] facts(7) [OF small]
    by (simp add: s4 r5 k6_def [symmetric] s6 r7 k8_def [symmetric] ready_now_def)
  with k8 show ?thesis by (auto simp: now_def)
qed

text \<open>The tables after the loop: every listed task has had its tick.\<close>

definition ticked :: "nat list \<Rightarrow> u64 \<Rightarrow> os_sched_task list \<Rightarrow> os_sched_task list" where
  "ticked idx now ss = map (\<lambda>i. if i \<in> set idx then tick_record now (ss ! i) else ss ! i) [0..<length ss]"

lemma length_ticked [simp]: "length (ticked idx now ss) = length ss"
  by (simp add: ticked_def)

lemma nth_ticked [simp]:
  "i < length ss \<Longrightarrow> ticked idx now ss ! i = (if i \<in> set idx then tick_record now (ss ! i) else ss ! i)"
  by (simp add: ticked_def)

lemma ticked_Cons:
  assumes "i \<notin> set idx" and "i < length ss"
  shows "ticked idx now (ss[i := tick_record now (ss ! i)]) = ticked (i # idx) now ss"
  by (rule nth_equalityI) (use assms in \<open>auto simp: nth_list_update\<close>)

lemma tick_loop_effect:
  assumes "slots_ok P k" and "distinct idx" and "\<forall>i \<in> set idx. i < OS_TASK_COUNT"
    and "unat (monotonic_ticks k) + 2 ^ 32 \<le> 2 ^ 64"
  shows "\<exists>k'. tick_loop idx (m, k) =
      Inr (m \<or> (\<exists>i \<in> set idx. ready_now (monotonic_ticks k) (schedules k ! i)), k') \<and>
    quiet k' = quiet (k\<lparr>schedules := ticked idx (monotonic_ticks k) (schedules k)\<rparr>) \<and> slots_ok P k'"
  using assms
proof (induction idx arbitrary: m k)
  case Nil
  have "ticked [] now ss = ss" for now ss by (simp add: ticked_def map_nth)
  with Nil show ?case by simp
next
  case (Cons i idx)
  define now where "now = monotonic_ticks k"
  let ?s = "schedules k ! i"
  have i: "i < OS_TASK_COUNT" "unat (of_nat i :: os_task_id_t) = i" "i \<notin> set idx"
    using Cons.prems of_nat_id_eq(2) [of i i] by simp_all
  then have s: "sched k (of_nat i) = ?s" "tcb k (of_nat i) = tasks k ! i" by (simp_all add: sched_def tcb_def)
  have len: "i < length (schedules k)" using Cons.prems(1) i by (simp add: slots_ok_def)
  have small: "unat now + 2 ^ 32 \<le> 2 ^ 64" using Cons.prems(4) by (simp add: now_def)
  obtain k1 where k1: "tick_task (of_nat i) k = Inr (ready_now now ?s, k1)"
    "quiet k1 = quiet (k\<lparr>schedules := (schedules k)[i := tick_record now ?s]\<rparr>)"
    using tick_task_effect [OF Cons.prems(1), of "of_nat i"] Cons.prems(4) i s by (auto simp: now_def)
  note q1 = quiet_eqD [OF k1(2)]
  have slot: "slot_ok P i (tick_record now ?s) (tasks k ! i)"
    using tick_record_facts(1) [OF _ small] Cons.prems(1) i(1) by (simp add: slots_ok_def)
  have "slots_ok P (k\<lparr>schedules := (schedules k)[i := tick_record now ?s]\<rparr>)"
    by (rule slots_ok_update [OF Cons.prems(1) i(1) slot]) simp_all
  then have ok1: "slots_ok P k1" using inv_quiet_eq(1) [OF k1(2)] by simp
  have now1: "monotonic_ticks k1 = now" and sched1: "schedules k1 = (schedules k)[i := tick_record now ?s]"
    by (simp_all add: q1(6) q1(2) now_def)
  obtain k' where k': "tick_loop idx (m \<or> ready_now now ?s, k1) =
      Inr ((m \<or> ready_now now ?s) \<or> (\<exists>j \<in> set idx. ready_now now (schedules k1 ! j)), k')"
    "quiet k' = quiet (k1\<lparr>schedules := ticked idx now (schedules k1)\<rparr>)" "slots_ok P k'"
    using Cons.IH [OF ok1, of "m \<or> ready_now now ?s"] Cons.prems(2-4) unfolding now1 now_def by auto
  have "(\<exists>j \<in> set idx. ready_now now (schedules k1 ! j)) \<longleftrightarrow> (\<exists>j \<in> set idx. ready_now now (schedules k ! j))"
    unfolding sched1 using i(3) by (intro bex_cong HOL.refl) (metis nth_list_update_neq)
  moreover have "quiet k' = quiet (k\<lparr>schedules := ticked (i # idx) now (schedules k)\<rparr>)"
    unfolding k'(2) sched1 ticked_Cons [OF i(3) len]
    using quiet_cong_schedules [OF k1(2)] by simp
  ultimately show ?case
    using k1(1) k'(1,3) by (auto simp: now_def)
qed

section \<open>Preemption\<close>

lemma record_effect:
  assumes "pending_preempt_sources k \<in> {0, 1, 2, 3}" and "source \<in> {1, 2}"
  shows "\<exists>k'. record_preemption_request source k = Inr k' \<and>
    quiet k' = quiet (k\<lparr>pending_preempt_sources := pending_preempt_sources k OR source\<rparr>) \<and>
    pending_preempt_sources k OR source \<in> {1, 2, 3}"
  using assms by (auto simp: record_preemption_request_def Let_def quiet_def)

text \<open>The state after a preemption request of the tick.\<close>

definition tick_preempted :: "kernel \<Rightarrow> kernel" where
  "tick_preempted k = k\<lparr>pending_preempt_sources := pending_preempt_sources k OR 1,
     schedules := (schedules k)[unat (current_task k) := (sched k (current_task k))\<lparr>state := OS_TASK_READY\<rparr>],
     pendsv_set := True\<rparr>"

definition outranked :: "kernel \<Rightarrow> bool" where
  "outranked k \<longleftrightarrow> (\<exists>c < OS_TASK_COUNT. ready_user_job (schedules k ! c) \<and>
     (current_task k = OS_TASK_ID_IDLE \<or> edf_key_of (schedules k ! c) < edf_key_of (sched k (current_task k))))"

lemma outranks_current:
  assumes "slots_ok P k" and "unat (current_task k) < OS_TASK_COUNT"
    and "state (sched k (current_task k)) = OS_TASK_RUNNING" and "ready_user_job c"
  shows "os_sched_outranks (Some c) (Some (sched k (current_task k))) \<longleftrightarrow>
    current_task k = OS_TASK_ID_IDLE \<or> edf_key_of c < edf_key_of (sched k (current_task k))"
proof -
  let ?s = "sched k (current_task k)"
  have slot: "slot_ok P (unat (current_task k)) ?s (tcb k (current_task k))" by (rule slots_okD [OF assms(1,2)])
  then have id: "task_id ?s = current_task k" by (simp add: slot_ok_def)
  show ?thesis
  proof (cases "current_task k = OS_TASK_ID_IDLE")
    case True
    then show ?thesis using assms(4) id by (simp add: os_sched_outranks_def ready_user_job_def)
  next
    case False
    then have "unat (current_task k) \<noteq> 0" by (simp add: unat_eq_0)
    then have "live_user_job ?s" using slot id assms(3) False by (simp add: live_user_job_def slot_ok_def)
    from outranks_iff_key [OF assms(4) this] False show ?thesis by simp
  qed
qed

lemma ready_user_eligible:
  assumes "slots_ok P k" and "c < OS_TASK_COUNT" and "ready_user_job (schedules k ! c)"
  shows "c \<noteq> 0" "c \<in> eligible_set (schedules k) OS_TASK_COUNT32 OS_TASK_ID_INVALID"
proof -
  have "slot_ok P c (schedules k ! c) (tasks k ! c)" using assms(1,2) by (simp add: slots_ok_def)
  then show "c \<noteq> 0" using assms(3) unfolding ready_user_job_def slot_ok_def by (metis of_nat_0)
  then show "c \<in> eligible_set (schedules k) OS_TASK_COUNT32 OS_TASK_ID_INVALID"
    using assms of_nat_id_eq(3) [OF assms(2,2)] by (intro eligibleI) (simp_all add: ready_user_job_def)
qed

lemma eligible_ready_user:
  assumes "slots_ok P k" and "i \<in> eligible_set (schedules k) OS_TASK_COUNT32 excluded"
  shows "ready_user_job (schedules k ! i)"
proof -
  have i: "0 < i" "i < OS_TASK_COUNT" using eligible_range [OF assms(2)] by simp_all
  then have "(of_nat i :: os_task_id_t) \<noteq> 0" using of_nat_id_eq(1) [of i 0] by simp
  then show ?thesis using assms(2) by (auto simp: eligible_set_def eligible_def ready_user_job_def)
qed

lemma tick_preempt_effect:
  assumes "slots_ok P k" and "unat (current_task k) < OS_TASK_COUNT"
    and "state (sched k (current_task k)) = OS_TASK_RUNNING" and "pending_preempt_sources k \<in> {0, 1, 2, 3}"
  shows "\<exists>k'. tick_preempt k = Inr k' \<and> quiet k' = quiet (if outranked k then tick_preempted k else k)"
proof (cases "eligible_set (schedules k) OS_TASK_COUNT32 OS_TASK_ID_INVALID = {}")
  case True
  have "(0 :: u32) < 5" "(5 :: u32) \<le> 255" by simp_all
  note sel = select_fallback [OF this True]
  have "\<not> outranked k" using True ready_user_eligible(2) [OF assms(1)] by (auto simp: outranked_def)
  moreover have "tick_preempt k = Inr k" using sel by (auto simp: tick_preempt_def Let_def)
  ultimately show ?thesis by simp
next
  case False
  have "(0 :: u32) < 5" "(5 :: u32) \<le> 255" by simp_all
  from select_earliest [OF this False] obtain i where
    i: "i \<in> eligible_set (schedules k) OS_TASK_COUNT32 OS_TASK_ID_INVALID"
      "os_sched_select (Some (schedules k)) OS_TASK_COUNT32 OS_TASK_ID_INVALID = of_nat i"
      "\<forall>j \<in> eligible_set (schedules k) OS_TASK_COUNT32 OS_TASK_ID_INVALID. j \<noteq> i \<longrightarrow>
         edf_key_of (schedules k ! i) < edf_key_of (schedules k ! j)" by blast
  note range = eligible_range [OF i(1)]
  have id: "(of_nat i :: os_task_id_t) \<noteq> OS_TASK_ID_INVALID" "(of_nat i :: os_task_id_t) \<noteq> OS_TASK_ID_IDLE"
    "sched k (of_nat i) = schedules k ! i"
    using range of_nat_id_eq [of i 0] of_nat_id_eq(2) [of i i] by (auto simp: sched_def)
  have user: "ready_user_job (schedules k ! i)" by (rule eligible_ready_user [OF assms(1) i(1)])
  have out: "os_sched_outranks (Some (schedules k ! i)) (Some (sched k (current_task k))) \<longleftrightarrow> outranked k"
    unfolding outranks_current [OF assms(1-3) user] outranked_def
    using i(3) range user ready_user_eligible(2) [OF assms(1)] by (metis less_trans)
  let ?k1 = "trace_emit_selection (of_nat i) (current_task k) OS_TASK_ID_INVALID OS_TRACE_SELECT_SYSTICK_PROBE k"
  show ?thesis
  proof (cases "outranked k")
    case True
    obtain k2 where k2: "record_preemption_request OS_PREEMPT_SOURCE_SYSTICK ?k1 = Inr k2"
      "quiet k2 = quiet (?k1\<lparr>pending_preempt_sources := pending_preempt_sources k OR 1\<rparr>)"
      using record_effect [of ?k1 1] assms(4) by auto
    have q: "quiet k2 = quiet (k\<lparr>pending_preempt_sources := pending_preempt_sources k OR 1\<rparr>)"
      unfolding k2(2) by (simp add: quiet_def trace_emit_selection_def)
    note q2 = quiet_eqD(2,3) [OF q]
    have "transition_task (current_task k2) OS_TASK_RUNNING OS_TASK_READY ''PREEMPT_READY'' k2 =
        Inr (k2\<lparr>schedules := (schedules k)[unat (current_task k) := (sched k (current_task k))\<lparr>state := OS_TASK_READY\<rparr>]\<rparr>)"
      using transition_effect [of "current_task k2" k2 OS_TASK_RUNNING OS_TASK_READY] assms(2,3) q2
      by (simp add: sched_def)
    moreover have "quiet (request_pendsv (k2\<lparr>schedules := (schedules k)[unat (current_task k) :=
        (sched k (current_task k))\<lparr>state := OS_TASK_READY\<rparr>]\<rparr>)) = quiet (tick_preempted k)"
      by (rule quiet_eqE [OF q]) (simp add: quiet_def tick_preempted_def request_pendsv_def)
    ultimately show ?thesis
      using k2(1) i(2) id out True by (simp add: tick_preempt_def Let_def)
  next
    case False
    with i(2) id out show ?thesis by (simp add: tick_preempt_def Let_def)
  qed
qed

section \<open>The whole tick\<close>

definition after_loop :: "kernel \<Rightarrow> kernel" where
  "after_loop k = k\<lparr>monotonic_ticks := monotonic_ticks k + 1,
     schedules := ticked [1..<OS_TASK_COUNT] (monotonic_ticks k + 1) (schedules k)\<rparr>"

definition tick_range :: "kernel \<Rightarrow> bool" where
  "tick_range k \<longleftrightarrow> unat (monotonic_ticks k) + 1 + 2 ^ 32 \<le> 2 ^ 64"

lemma tick_range_next:
  "tick_range k \<Longrightarrow> unat (monotonic_ticks k + 1) = unat (monotonic_ticks k) + 1"
  "tick_range k \<Longrightarrow> unat (monotonic_ticks k + 1) + 2 ^ 32 \<le> 2 ^ 64"
  "tick_range k \<Longrightarrow> monotonic_ticks k \<noteq> UINT64_MAX"
proof -
  assume r: "tick_range k"
  then show "unat (monotonic_ticks k + 1) = unat (monotonic_ticks k) + 1"
    using unat_add64 [of "monotonic_ticks k" 1] by (simp add: tick_range_def)
  with r show "unat (monotonic_ticks k + 1) + 2 ^ 32 \<le> 2 ^ 64" by (simp add: tick_range_def)
  show "monotonic_ticks k \<noteq> UINT64_MAX" using r by (auto simp: tick_range_def)
qed

text \<open>How the record of a task looks after the loop.\<close>

lemma after_loop_nth:
  assumes "slots_ok P k" and "tick_range k" and "i < OS_TASK_COUNT"
  defines "s \<equiv> schedules k ! i" and "s' \<equiv> schedules (after_loop k) ! i" and "now \<equiv> monotonic_ticks k + 1"
  shows "s' = (if i = 0 then s else tick_record now s)" "slot_ok P i s' (tasks k ! i)"
    "state s' = (if ready_now now s then OS_TASK_READY else state s)"
    "job_active s \<longrightarrow> edf_key_of s' = edf_key_of s \<and> job_active s'"
    "release_now now s \<longrightarrow> edf_key_of s' = next_key s"
proof -
  have len: "length (schedules k) = OS_TASK_COUNT" and slot: "slot_ok P i s (tasks k ! i)"
    using assms(1,3) by (simp_all add: slots_ok_def s_def)
  show s': "s' = (if i = 0 then s else tick_record now s)"
    using assms(3) len by (auto simp: s'_def after_loop_def s_def now_def)
  note facts = tick_record_facts [OF slot tick_range_next(2) [OF assms(2)], folded now_def]
  have "\<not> ready_now now s" if "i = 0"
    using slot that by (auto simp: slot_ok_def ready_now_def release_now_def wake_now_def)
  then show "slot_ok P i s' (tasks k ! i)" "state s' = (if ready_now now s then OS_TASK_READY else state s)"
    "job_active s \<longrightarrow> edf_key_of s' = edf_key_of s \<and> job_active s'"
    "release_now now s \<longrightarrow> edf_key_of s' = next_key s"
    using facts(1-3,8) slot by (auto simp: s' ready_now_def)
qed

lemma after_loop_keeps:
  assumes "kernel_ok P k" and "tick_range k"
  shows "kernel_ok P (after_loop k)"
proof -
  have slots: "slots_ok P k" and mode: "mode_ok k" and heap: "heap_owned k"
    using assms(1) by (simp_all add: kernel_ok_def)
  note nth = after_loop_nth [OF slots assms(2)]
  have same: "tasks (after_loop k) = tasks k" "current_task (after_loop k) = current_task k"
    "has_active_context (after_loop k) = has_active_context k" "running (after_loop k) = running k"
    "yield_excluded_task (after_loop k) = yield_excluded_task k" "pendsv_set (after_loop k) = pendsv_set k"
    "pending_preempt_sources (after_loop k) = pending_preempt_sources k"
    by (simp_all add: after_loop_def)
  have slots': "slots_ok P (after_loop k)"
    using slots nth(2) by (simp add: slots_ok_def same) (simp add: after_loop_def)
  have off: "off_cpu (schedules (after_loop k) ! i)" if "i < OS_TASK_COUNT" "off_cpu (schedules k ! i)" for i
    using nth(3) [OF that(1)] that(2) by (auto simp: off_cpu_def)
  have keep: "state (schedules (after_loop k) ! i) = state (schedules k ! i)"
    if "i < OS_TASK_COUNT" "state (schedules k ! i) = OS_TASK_READY \<or> state (schedules k ! i) = OS_TASK_RUNNING" for i
    using nth(3) [OF that(1)] that(2) by (auto simp: ready_now_def release_now_def wake_now_def)
  have dorm: "state (schedules (after_loop k) ! i) \<noteq> OS_TASK_DORMANT"
    if "i < OS_TASK_COUNT" "state (schedules k ! i) \<noteq> OS_TASK_DORMANT" for i
    using nth(3) [OF that(1)] that(2) by auto
  have "heap_owned (after_loop k)"
    by (rule heap_owned_keep [OF heap]) (use dorm in \<open>simp_all add: after_loop_def\<close>)
  moreover have "mode_ok (after_loop k)"
  proof (cases "has_active_context k = 0")
    case True
    with mode off show ?thesis by (auto simp: mode_ok_def same)
  next
    case False
    then have cur: "unat (current_task k) < OS_TASK_COUNT" using mode by (simp add: mode_ok_def)
    have just: "preemption_justified (after_loop k)" if just: "preemption_justified k"
    proof -
      obtain c where c: "c < OS_TASK_COUNT" "c \<noteq> unat (current_task k)" "ready_user_job (schedules k ! c)"
        "current_task k = OS_TASK_ID_IDLE \<or> edf_key_of (schedules k ! c) < edf_key_of (sched k (current_task k))"
        and st: "state (sched k (current_task k)) = OS_TASK_READY \<or> state (sched k (current_task k)) = OS_TASK_RUNNING"
        using just by (auto simp: preemption_justified_def)
      have id: "task_id (schedules (after_loop k) ! c) = task_id (schedules k ! c)"
        using nth(2) [OF c(1)] slots c(1) by (simp add: slots_ok_def slot_ok_def)
      have "ready_user_job (schedules (after_loop k) ! c)" "edf_key_of (schedules (after_loop k) ! c) = edf_key_of (schedules k ! c)"
        using nth(4) [OF c(1)] keep [OF c(1)] c(3) id by (simp_all add: ready_user_job_def)
      moreover have "edf_key_of (sched (after_loop k) (current_task k)) = edf_key_of (sched k (current_task k))"
        if "current_task k \<noteq> OS_TASK_ID_IDLE"
      proof -
        have "unat (current_task k) \<noteq> 0" using that by (simp add: unat_eq_0)
        then have "job_active (sched k (current_task k))" using slots_okD [OF slots cur] st by (simp add: slot_ok_def)
        then show ?thesis using nth(4) [OF cur] by (simp add: sched_def)
      qed
      moreover have "state (sched (after_loop k) (current_task k)) = state (sched k (current_task k))"
        using keep [OF cur] st by (simp add: sched_def)
      ultimately show ?thesis using just c st unfolding preemption_justified_def same by metis
    qed
    have running: "state (sched (after_loop k) (current_task k)) = OS_TASK_RUNNING \<longleftrightarrow>
        state (sched k (current_task k)) = OS_TASK_RUNNING"
      using nth(3) [OF cur] by (auto simp: sched_def ready_now_def release_now_def wake_now_def)
    show ?thesis
      using mode False off dorm [OF cur] just running by (auto simp: mode_ok_def same sched_def)
  qed
  ultimately show ?thesis using assms(1) slots' by (simp add: kernel_ok_def after_loop_def)
qed

lemma tick_preempted_keeps:
  assumes "kernel_ok P k" and "has_active_context k \<noteq> 0" and "state (sched k (current_task k)) = OS_TASK_RUNNING"
    and "outranked k"
  shows "kernel_ok P (tick_preempted k)"
proof -
  have slots: "slots_ok P k" and mode: "mode_ok k" and heap: "heap_owned k"
    using assms(1) by (simp_all add: kernel_ok_def)
  have cur: "unat (current_task k) < OS_TASK_COUNT" using mode assms(2) by (simp add: mode_ok_def)
  have len: "length (schedules k) = OS_TASK_COUNT" using slots by (simp add: slots_ok_def)
  note slot = slot_ok_ready [OF slots_okD [OF slots cur] assms(3)]
  have "slots_ok P (tick_preempted k)"
    by (rule slots_ok_update [OF slots cur slot]) (simp_all add: tick_preempted_def tcb_def)
  moreover have "heap_owned (tick_preempted k)"
    by (rule heap_owned_keep [OF heap]) (use len cur in \<open>auto simp: tick_preempted_def nth_list_update\<close>)
  moreover have "preemption_justified (tick_preempted k)"
  proof -
    obtain c where c: "c < OS_TASK_COUNT" "ready_user_job (schedules k ! c)"
      "current_task k = OS_TASK_ID_IDLE \<or> edf_key_of (schedules k ! c) < edf_key_of (sched k (current_task k))"
      using assms(4) by (auto simp: outranked_def)
    have "c \<noteq> unat (current_task k)" using c(2) assms(3) by (auto simp: ready_user_job_def sched_def)
    moreover have "pending_preempt_sources k OR 1 \<in> {1, 2, 3}"
      using mode assms(2) by (auto simp: mode_ok_def preemption_justified_def)
    moreover have "yield_excluded_task k = OS_TASK_ID_INVALID" using mode assms(2,3) by (simp add: mode_ok_def)
    ultimately show ?thesis
      using c cur len
      by (auto simp: preemption_justified_def tick_preempted_def sched_def intro!: exI [of _ c])
  qed
  then have "mode_ok (tick_preempted k)"
    using mode assms(2) cur len by (auto simp: mode_ok_def tick_preempted_def sched_def)
  ultimately show ?thesis using assms(1) by (simp add: kernel_ok_def tick_preempted_def)
qed

definition tick_switches :: "kernel \<Rightarrow> bool" where
  "tick_switches k \<longleftrightarrow> has_active_context k \<noteq> 0 \<and>
     (\<exists>i \<in> {1..<OS_TASK_COUNT}. ready_now (monotonic_ticks k + 1) (schedules k ! i)) \<and>
     state (sched k (current_task k)) = OS_TASK_RUNNING \<and> outranked (after_loop k)"

lemma outranked_quiet: "quiet k = quiet k' \<Longrightarrow> outranked k = outranked k'"
  using quiet_eqD(2,3) [of k k'] by (simp add: outranked_def sched_def)

lemma tick_preempted_quiet: "quiet k = quiet k' \<Longrightarrow> quiet (tick_preempted k) = quiet (tick_preempted k')"
  by (erule quiet_eqE) (simp add: quiet_def tick_preempted_def sched_def)

lemma tick_effect:
  assumes "kernel_ok P k" and "running k" and "tick_range k"
  shows "\<exists>k'. os_kernel_tick k = Inr k' \<and> kernel_ok P k' \<and>
    quiet k' = quiet (if tick_switches k then tick_preempted (after_loop k) else after_loop k)"
proof -
  define now where "now = monotonic_ticks k + 1"
  let ?k0 = "k\<lparr>monotonic_ticks := now\<rparr>"
  let ?made = "\<exists>i \<in> {1..<OS_TASK_COUNT}. ready_now now (schedules k ! i)"
  have ok: "slots_ok P k" "mode_ok k" using assms(1) by (simp_all add: kernel_ok_def)
  have ok0: "slots_ok P ?k0" using ok(1) by (simp add: slots_ok_def)
  have idx: "set [1..<OS_TASK_COUNT] = {1..<OS_TASK_COUNT}" "distinct [1..<OS_TASK_COUNT]" by auto
  obtain k1 where k1: "tick_loop [1..<OS_TASK_COUNT] (False, ?k0) = Inr (?made, k1)"
    "quiet k1 = quiet (after_loop k)" "slots_ok P k1"
    using tick_loop_effect [OF ok0 idx(2), of False] tick_range_next(2) [OF assms(3)]
    unfolding idx(1) by (auto simp: after_loop_def now_def)
  have ok1: "kernel_ok P (after_loop k)" by (rule after_loop_keeps [OF assms(1,3)])
  note q = quiet_eqD(2,3) [OF k1(2)]
  have same: "current_task (after_loop k) = current_task k" "has_active_context (after_loop k) = has_active_context k"
    by (simp_all add: after_loop_def)
  have run: "os_kernel_tick k = (if ?made \<and> current_task k \<noteq> OS_TASK_ID_INVALID \<and>
      state (sched k1 (current_task k)) = OS_TASK_RUNNING then tick_preempt k1 else Inr k1)"
    using assms(2) tick_range_next(3) [OF assms(3)] k1(1) q(2)
    by (simp add: os_kernel_tick_def now_def [symmetric] same)
  show ?thesis
  proof (cases "has_active_context k = 0")
    case True
    then have "current_task k = OS_TASK_ID_INVALID" using ok(2) by (simp add: mode_ok_def)
    then have "os_kernel_tick k = Inr k1" using run by simp
    moreover have "\<not> tick_switches k" using True by (simp add: tick_switches_def)
    ultimately show ?thesis using k1(2) ok1 inv_quiet_eq(4) [OF k1(2)] by auto
  next
    case False
    then have cur: "unat (current_task k) < OS_TASK_COUNT" using ok(2) by (simp add: mode_ok_def)
    then have valid: "current_task k \<noteq> OS_TASK_ID_INVALID" by auto
    have st: "state (sched k1 (current_task k)) = OS_TASK_RUNNING \<longleftrightarrow> state (sched k (current_task k)) = OS_TASK_RUNNING"
      using after_loop_nth(3) [OF ok(1) assms(3) cur] q(1)
      by (auto simp: sched_def ready_now_def release_now_def wake_now_def)
    show ?thesis
    proof (cases "?made \<and> state (sched k (current_task k)) = OS_TASK_RUNNING")
      case True
      have pend: "pending_preempt_sources k1 \<in> {0, 1, 2, 3}"
        using ok(2) False quiet_eqD(5) [OF k1(2)]
        by (auto simp: mode_ok_def preemption_justified_def after_loop_def)
      have cur1: "current_task k1 = current_task k" using q(2) same by simp
      from tick_preempt_effect [OF k1(3)] obtain k' where
        k': "tick_preempt k1 = Inr k'" "quiet k' = quiet (if outranked k1 then tick_preempted k1 else k1)"
        using cur True st pend cur1 by metis
      have sw: "tick_switches k \<longleftrightarrow> outranked k1"
        using True False outranked_quiet [OF k1(2)] by (auto simp: tick_switches_def now_def)
      have q': "quiet k' = quiet (if tick_switches k then tick_preempted (after_loop k) else after_loop k)"
        using k'(2) sw k1(2) tick_preempted_quiet [OF k1(2)] by simp
      have "kernel_ok P (tick_preempted (after_loop k))" if "tick_switches k"
      proof (rule tick_preempted_keeps [OF ok1])
        show "has_active_context (after_loop k) \<noteq> 0" using False same by simp
        show "outranked (after_loop k)" using that by (simp add: tick_switches_def)
        show "state (sched (after_loop k) (current_task (after_loop k))) = OS_TASK_RUNNING"
          using True st q(1) same by (simp add: sched_def)
      qed
      then have "kernel_ok P k'" using ok1 inv_quiet_eq(4) [OF q'] by (auto split: if_splits)
      with run k'(1) True st valid q' show ?thesis by auto
    next
      case no: False
      then have "os_kernel_tick k = Inr k1" "\<not> tick_switches k"
        using run st by (auto simp: tick_switches_def now_def)
      then show ?thesis using k1(2) ok1 inv_quiet_eq(4) [OF k1(2)] by auto
    qed
  qed
qed

end
