(* ===== verification/Kernel_Create.thy ===== *)
theory Kernel_Create
  imports Kernel_Tick
begin

text \<open>
  Creation of a task: the free slot it takes, the stack frame it starts from, the record its
  configuration gives, and the request for a switch when it outranks its creator.
\<close>

section \<open>The free slot\<close>

lemma free_slot_spec:
  assumes "\<forall>i \<in> set idx. i < OS_TASK_COUNT"
  shows "(free_slot_loop k idx = OS_TASK_ID_INVALID \<and>
      (\<forall>i \<in> set idx. state (schedules k ! i) \<noteq> OS_TASK_DORMANT \<or> stack_claimed (tasks k ! i))) \<or>
    (\<exists>i \<in> set idx. free_slot_loop k idx = of_nat i \<and> state (schedules k ! i) = OS_TASK_DORMANT \<and>
      \<not> stack_claimed (tasks k ! i))"
  using assms by (induction idx) auto

section \<open>The initial frame\<close>

definition frame_words :: "platform \<Rightarrow> u32 \<Rightarrow> u32 \<Rightarrow> (u32 \<Rightarrow> u32) \<Rightarrow> u32 \<Rightarrow> u32" where
  "frame_words P frame arg m =
     (fold (\<lambda>index m. m(frame + 4 * of_nat index := 0)) [0..<16] m)
       (frame + 4 * 8 := arg, frame + 4 * 13 := return_guard_address P,
        frame + 4 * 14 := trampoline_address P, frame + 4 * 15 := OS_XPSR_THUMB)"

lemma region_top:
  assumes "stack_region P j t"
  shows "\<not> stack_high t - stack_low t < 64" "stack_high t \<noteq> 0" "psp_ok t (stack_high t - 64)"
proof -
  have low: "unat (stack_low t) + 256 \<le> unat (stack_high t)" "8 dvd unat (stack_high t)"
    using assms unfolding stack_region_def by blast+
  then show "stack_high t \<noteq> 0" by auto
  have diff: "unat (stack_high t - stack_low t) = unat (stack_high t) - unat (stack_low t)"
    "unat (stack_high t - 64) = unat (stack_high t) - 64"
    using low(1) by (simp_all add: unat_sub_le)
  show "\<not> stack_high t - stack_low t < 64" unfolding word_less_nat_alt diff using low(1) by simp
  have "(8 :: nat) dvd 64" by simp
  then have "8 dvd unat (stack_high t) - 64" using low(2) by (rule dvd_diff_nat [rotated])
  then show "psp_ok t (stack_high t - 64)" using low(1) by (simp add: psp_ok_def diff)
qed

lemma build_frame_effect:
  assumes "stack_region P j (tcb k i)"
  shows "build_initial_frame P i k =
    Inr (stack_high (tcb k i) - 64, k\<lparr>ram := frame_words P (stack_high (tcb k i) - 64) (argument (tcb k i)) (ram k)\<rparr>)"
proof -
  have "stack_low (tcb k i) \<noteq> 0" "8 dvd unat (stack_low (tcb k i))" "8 dvd unat (stack_high (tcb k i))"
    using assms unfolding stack_region_def by blast+
  then show ?thesis
    using region_top(1,2) [OF assms] by (simp add: build_initial_frame_def Let_def aligned8 frame_words_def)
qed

section \<open>The record of a new task\<close>

lemma configured_record:
  assumes "os_sched_task_configure (Some s) (Some c) now = (r, s')"
    and "state s = OS_TASK_DORMANT" and "task_id s = of_nat i" and "i \<noteq> 0" and "stack_claimed t"
    and "stack_region P i t" and "psp_ok t (saved_psp t)" and r
  shows "\<exists>s2. s' = Some s2 \<and> slot_ok P i s2 t \<and>
    (state s2 = OS_TASK_READY \<and> cfg_initial_release_delay_ticks c = 0 \<or>
     state s2 = OS_TASK_WAITING_RELEASE \<and> cfg_initial_release_delay_ticks c \<noteq> 0)"
proof -
  obtain s2 where s2: "s' = Some s2"
    using assms(1) by (auto simp: os_sched_task_configure_def on_ptr_Some)
  have run: "os_sched_task_configure (Some s) (Some c) now = (True, Some s2)" using assms(1,8) s2 by simp
  have wf: "sched_task_wf s2" by (rule configure_wf [OF run])
  have "task_id s2 = task_id s \<and> \<not> time_range_exhausted s2 \<and>
    (state s2 = OS_TASK_READY \<and> cfg_initial_release_delay_ticks c = 0 \<and> job_active s2 \<or>
     state s2 = OS_TASK_WAITING_RELEASE \<and> cfg_initial_release_delay_ticks c \<noteq> 0)"
    using run assms(2)
    by (auto simp: step_unfold os_sched_task_reset_def os_sched_task_zero_def split: if_splits)
  with wf s2 assms(3-7) show ?thesis by (auto simp: slot_ok_def)
qed

section \<open>The announcement\<close>

text \<open>A new task asks for a switch when it is ready at once and outranks its creator.\<close>

definition asks_switch :: "os_task_id_t \<Rightarrow> kernel \<Rightarrow> bool" where
  "asks_switch i k \<longleftrightarrow> running k \<and> state (sched k i) = OS_TASK_READY \<and>
     (current_task k = OS_TASK_ID_IDLE \<or> edf_key_of (sched k i) < edf_key_of (sched k (current_task k)))"

definition announced :: "os_task_id_t \<Rightarrow> kernel \<Rightarrow> kernel" where
  "announced i k = (if asks_switch i k
     then k\<lparr>pending_preempt_sources := pending_preempt_sources k OR 2, pendsv_set := True\<rparr> else k)"

lemma announce_effect:
  assumes "slots_ok P k" and "unat i < OS_TASK_COUNT" and "i \<noteq> 0"
    and "running k \<longrightarrow> unat (current_task k) < OS_TASK_COUNT \<and> state (sched k (current_task k)) = OS_TASK_RUNNING"
    and "pending_preempt_sources k \<in> {0, 1, 2, 3}"
  shows "\<exists>k'. announce_task i k = Inr k' \<and> quiet k' = quiet (announced i k)"
proof -
  define creator where "creator = (if running k then current_task k else OS_TASK_ID_INVALID)"
  define k1 where "k1 = trace_emit OS_TRACE_TASK_CREATE (ucast i) (trace_task creator)
     (case kind (sched k i) of OS_TASK_ONE_SHOT \<Rightarrow> 0 | OS_TASK_PERIODIC \<Rightarrow> 1 | OS_TASK_KIND_OTHER v \<Rightarrow> v)
     (ucast (priority (sched k i))) (task_state_value (state (sched k i))) k"
  define k2 where "k2 = (if state (sched k1 i) = OS_TASK_READY then trace_deadline OS_TRACE_TASK_RELEASE i k1 else k1)"
  have q2: "quiet k2 = quiet k" by (simp add: k2_def k1_def)
  note f2 = quiet_eqD [OF q2]
  have s2: "sched k2 = sched k" by (simp add: sched_def fun_eq_iff f2(2))
  have user: "ready_user_job (sched k i)" if "state (sched k i) = OS_TASK_READY"
    using slots_okD [OF assms(1,2)] assms(3) that by (simp add: slot_ok_def ready_user_job_def unat_eq_0)
  have ask: "running k \<and> state (sched k i) = OS_TASK_READY \<and>
      os_sched_outranks (Some (sched k i)) (Some (sched k (current_task k))) \<longleftrightarrow> asks_switch i k"
    using outranks_current [OF assms(1)] assms(4) user by (auto simp: asks_switch_def)
  have run: "announce_task i k = (if asks_switch i k
      then on_ok (record_preemption_request OS_PREEMPT_SOURCE_RUNTIME_CREATE
        (trace_emit_selection i (current_task k2) OS_TASK_ID_INVALID OS_TRACE_SELECT_RUNTIME_CREATE_PROBE k2))
        (\<lambda>k3. Inr (request_pendsv k3)) else Inr k2)"
    unfolding announce_task_def Let_def creator_def [symmetric] k1_def [symmetric] k2_def [symmetric]
    by (simp only: s2 f2 ask)
  show ?thesis
  proof (cases "asks_switch i k")
    case False
    with run q2 show ?thesis by (simp add: announced_def)
  next
    case True
    let ?k2 = "trace_emit_selection i (current_task k2) OS_TASK_ID_INVALID OS_TRACE_SELECT_RUNTIME_CREATE_PROBE k2"
    obtain k3 where k3: "record_preemption_request OS_PREEMPT_SOURCE_RUNTIME_CREATE ?k2 = Inr k3"
      "quiet k3 = quiet (?k2\<lparr>pending_preempt_sources := pending_preempt_sources k OR 2\<rparr>)"
      using record_effect [of ?k2 2] assms(5) f2(5) by auto
    have "quiet ?k2 = quiet k" using q2 by simp
    then have "quiet (?k2\<lparr>pending_preempt_sources := p\<rparr>) = quiet (k\<lparr>pending_preempt_sources := p\<rparr>)" for p
      by (rule quiet_eqE) (simp add: quiet_def)
    with k3(2) have q3: "quiet k3 = quiet (k\<lparr>pending_preempt_sources := pending_preempt_sources k OR 2\<rparr>)"
      by simp
    have "quiet (request_pendsv k3) = quiet (announced i k)"
      by (rule quiet_eqE [OF q3]) (simp add: quiet_def announced_def True request_pendsv_def)
    with run k3(1) True show ?thesis by simp
  qed
qed

section \<open>The whole creation\<close>

text \<open>The guards of \<open>os_task_create\<close>.\<close>

definition create_guard :: "os_task_config \<Rightarrow> kernel \<Rightarrow> bool" where
  "create_guard c k \<longleftrightarrow> kernel_initialized k \<and> tc_entry c \<noteq> 0 \<and> OS_MIN_STACK_SIZE \<le> tc_stack_size c \<and>
     tc_stack_size c \<le> OS_MAX_STACK_SIZE \<and> tc_stack_size c AND 7 = 0 \<and>
     os_sched_config_valid (Some (tc_timing c)) \<and> ipsr k = 0 \<and> creator_allowed k"

definition new_tcb :: "platform \<Rightarrow> os_task_config \<Rightarrow> os_task_id_t \<Rightarrow> os_tcb \<Rightarrow> os_tcb" where
  "new_tcb P c i t = (let low = stacks_address P + 1024 * ucast i; high = low + tc_stack_size c div 4 * 4
     in t\<lparr>entry := tc_entry c, argument := tc_argument c, stack_claimed := True, stack_low := low,
          stack_high := high, saved_psp := high - 64\<rparr>)"

definition installed :: "platform \<Rightarrow> os_task_config \<Rightarrow> os_task_id_t \<Rightarrow> os_sched_task \<Rightarrow> kernel \<Rightarrow> kernel" where
  "installed P c i s k = k\<lparr>tasks := (tasks k)[unat i := new_tcb P c i (tcb k i)],
     schedules := (schedules k)[unat i := s],
     ram := frame_words P (stack_high (new_tcb P c i (tcb k i)) - 64) (tc_argument c) (ram k)\<rparr>"

lemma stack_size_div:
  assumes "tc_stack_size c AND 7 = 0"
  shows "tc_stack_size c div 4 * 4 = tc_stack_size c" "8 dvd unat (tc_stack_size c)"
proof -
  show dvd: "8 dvd unat (tc_stack_size c)" using assms by (simp add: aligned8)
  then have "4 dvd unat (tc_stack_size c)" by (rule dvd_trans [rotated]) simp
  then have "unat (tc_stack_size c) div 4 * 4 = unat (tc_stack_size c)" by simp
  moreover have "unat (tc_stack_size c div 4) = unat (tc_stack_size c) div 4" by (simp add: unat_div)
  moreover have "unat (tc_stack_size c div 4 * 4) = unat (tc_stack_size c div 4) * 4"
    using unat_less_2p(3) [of "tc_stack_size c"] calculation by (simp add: unat_word_ariths)
  ultimately show "tc_stack_size c div 4 * 4 = tc_stack_size c" by (simp add: word_unat_eq_iff)
qed

lemma new_tcb_region:
  assumes "platform_ok P" and "create_guard c k" and "unat i < OS_TASK_COUNT"
  shows "stack_region P (unat i) (new_tcb P c i t)" "psp_ok (new_tcb P c i t) (saved_psp (new_tcb P c i t))"
    "unat (stack_high (new_tcb P c i t)) = unat (stack_low (new_tcb P c i t)) + unat (tc_stack_size c)"
proof -
  let ?low = "stacks_address P + 1024 * ucast i"
  have size: "256 \<le> unat (tc_stack_size c)" "unat (tc_stack_size c) \<le> 1024" "8 dvd unat (tc_stack_size c)"
    "tc_stack_size c div 4 * 4 = tc_stack_size c"
    using assms(2) stack_size_div [of c] by (simp_all add: create_guard_def word_le_nat_alt)
  have plat: "8 dvd unat (stacks_address P)" "0 < unat (stacks_address P)" "unat (stacks_address P) + 5120 < 2 ^ 32"
    using assms(1) by (simp_all add: platform_ok_def)
  have "unat (1024 * ucast i :: u32) = 1024 * unat i"
    using assms(3) by (auto simp: small_id)
  then have low: "unat ?low = unat (stacks_address P) + 1024 * unat i"
    using plat(3) assms(3) by (simp add: unat_add32)
  have high: "unat (?low + tc_stack_size c) = unat ?low + unat (tc_stack_size c)"
    using plat(3) assms(3) size(2) low by (simp add: unat_add32)
  then show "unat (stack_high (new_tcb P c i t)) = unat (stack_low (new_tcb P c i t)) + unat (tc_stack_size c)"
    by (simp add: new_tcb_def size(4) Let_def)
  have low8: "8 dvd unat ?low" using plat(1) unfolding low by (intro dvd_add dvd_mult2) simp_all
  then have high8: "8 dvd unat (?low + tc_stack_size c)" unfolding high using size(3) by (rule dvd_add)
  have low0: "?low \<noteq> 0" using low plat(2) by auto
  show region: "stack_region P (unat i) (new_tcb P c i t)"
    unfolding stack_region_def new_tcb_def Let_def size(4)
    using low high size(1,2) low8 high8 low0 by simp
  have "saved_psp (new_tcb P c i t) = stack_high (new_tcb P c i t) - 64" by (simp add: new_tcb_def Let_def)
  then show "psp_ok (new_tcb P c i t) (saved_psp (new_tcb P c i t))"
    using region_top(3) [OF region] by simp
qed

lemma creator_mode:
  assumes "kernel_ok P k" and "creator_allowed k"
  shows "running k \<longleftrightarrow> has_active_context k \<noteq> 0"
    "running k \<Longrightarrow> unat (current_task k) < OS_TASK_COUNT \<and> state (sched k (current_task k)) = OS_TASK_RUNNING \<and>
      current_task k \<noteq> OS_TASK_ID_IDLE"
proof -
  have "running k \<Longrightarrow> has_active_context k \<noteq> 0"
    using assms(2) by (simp add: creator_allowed_def caller_is_running_task_def)
  moreover have "has_active_context k \<noteq> 0 \<Longrightarrow> running k"
    using assms(1) by (simp add: kernel_ok_def mode_ok_def)
  ultimately show "running k \<longleftrightarrow> has_active_context k \<noteq> 0" by blast
  show "running k \<Longrightarrow> unat (current_task k) < OS_TASK_COUNT \<and> state (sched k (current_task k)) = OS_TASK_RUNNING \<and>
      current_task k \<noteq> OS_TASK_ID_IDLE"
    using assms(2) by (simp add: creator_allowed_def caller_is_running_task_def)
qed

lemma installed_keeps:
  assumes "kernel_ok P k" and "creator_allowed k" and "\<not> pendsv_set k"
    and "unat i < OS_TASK_COUNT" and "i \<noteq> 0" and "state (sched k i) = OS_TASK_DORMANT"
    and "slot_ok P (unat i) s (new_tcb P c i (tcb k i))"
    and "state s = OS_TASK_READY \<or> state s = OS_TASK_WAITING_RELEASE"
  defines "k1 \<equiv> installed P c i s k"
  shows "slots_ok P k1" "kernel_ok P (announced i k1)" "verify_state reason (announced i k1) = Inr ()"
    "running k1 \<longrightarrow> unat (current_task k1) < OS_TASK_COUNT \<and> state (sched k1 (current_task k1)) = OS_TASK_RUNNING"
    "pending_preempt_sources k1 = 0"
proof -
  have slots: "slots_ok P k" and mode: "mode_ok k" and heap: "heap_owned k"
    using assms(1) by (simp_all add: kernel_ok_def)
  have len: "length (schedules k) = OS_TASK_COUNT" using slots by (simp add: slots_ok_def)
  note creator = creator_mode [OF assms(1,2)]
  have other: "unat i \<noteq> unat (current_task k)" if "running k"
    using creator(2) [OF that] assms(6) by (auto simp: sched_def)
  have same: "current_task k1 = current_task k" "running k1 = running k" "pendsv_set k1 = pendsv_set k"
    "has_active_context k1 = has_active_context k" "yield_excluded_task k1 = yield_excluded_task k"
    "pending_preempt_sources k1 = pending_preempt_sources k" "schedules k1 = (schedules k)[unat i := s]"
    "kernel_initialized k1 = kernel_initialized k" "memory_blocks k1 = memory_blocks k"
    "memory_allocator k1 = memory_allocator k"
    by (simp_all add: k1_def installed_def)
  show pend: "pending_preempt_sources k1 = 0" using mode assms(3) by (auto simp: mode_ok_def same split: if_splits)
  have cur: "sched k1 (current_task k) = sched k (current_task k)" if "running k"
    using other [OF that] by (simp add: sched_def same)
  show running1: "running k1 \<longrightarrow> unat (current_task k1) < OS_TASK_COUNT \<and> state (sched k1 (current_task k1)) = OS_TASK_RUNNING"
    using creator(2) cur by (simp add: same)
  show slots1: "slots_ok P k1"
    by (rule slots_ok_update [OF slots assms(4) assms(7)]) (simp_all add: k1_def installed_def)
  then have "slots_ok P (announced i k1)" by (simp add: slots_ok_def announced_def)
  moreover have "heap_owned (announced i k1)"
    by (rule heap_owned_keep [OF heap])
      (use assms(4,6,8) len in \<open>auto simp: same announced_def nth_list_update sched_def\<close>)
  moreover have off: "off_cpu (schedules k1 ! j)" if "j < OS_TASK_COUNT" "j = unat i \<or> off_cpu (schedules k ! j)" for j
    using that assms(8) len by (cases "j = unat i") (auto simp: same off_cpu_def)
  have "mode_ok (announced i k1)"
  proof (cases "running k")
    case False
    then have "announced i k1 = k1" by (simp add: announced_def asks_switch_def same)
    with mode creator(1) False off show ?thesis by (auto simp: mode_ok_def same)
  next
    case True
    note run = creator(2) [OF True]
    have active: "has_active_context k \<noteq> 0" using creator(1) True by simp
    have si: "sched k1 i = s" using assms(4) len by (simp add: sched_def same)
    have "preemption_justified (k1\<lparr>pending_preempt_sources := 2, pendsv_set := True\<rparr>)" if ask: "asks_switch i k1"
    proof -
      have "state s = OS_TASK_READY" "edf_key_of s < edf_key_of (sched k (current_task k))"
        using ask si run cur [OF True] by (simp_all add: asks_switch_def same)
      moreover have "ready_user_job s"
        using assms(5,7) calculation(1) by (simp add: slot_ok_def ready_user_job_def unat_eq_0)
      moreover have "yield_excluded_task k = OS_TASK_ID_INVALID"
        using mode active assms(3) by (simp add: mode_ok_def)
      ultimately show ?thesis
        using assms(4) other [OF True] run len
        by (auto simp: preemption_justified_def sched_def same intro!: exI [of _ "unat i"])
    qed
    then show ?thesis
      using mode active assms(3) off run True other [OF True] pend
      by (auto simp: mode_ok_def announced_def same sched_def)
  qed
  ultimately show ok: "kernel_ok P (announced i k1)" using assms(1) by (simp add: kernel_ok_def announced_def same)
  have same2: "schedules (announced i k1) = schedules k1" "running (announced i k1) = running k"
    "has_active_context (announced i k1) = has_active_context k" "current_task (announced i k1) = current_task k"
    by (simp_all add: announced_def same)
  show "verify_state reason (announced i k1) = Inr ()"
  proof (cases "running k")
    case False
    then have "state (schedules k1 ! j) \<noteq> OS_TASK_RUNNING" if "j < OS_TASK_COUNT" for j
      using that mode creator(1) off by (auto simp: mode_ok_def off_cpu_def)
    with False verify_none [of "schedules k1"] show ?thesis by (simp add: verify_state_def same2)
  next
    case True
    then have active: "has_active_context k \<noteq> 0" using creator(1) by simp
    have "state (schedules k1 ! j) = OS_TASK_RUNNING \<longleftrightarrow> j = unat (current_task k)" if j: "j < OS_TASK_COUNT" for j
    proof (cases "j = unat (current_task k)")
      case True
      then show ?thesis using running1 \<open>running k\<close> by (simp add: same sched_def)
    next
      case False
      then show ?thesis using off [OF j] mode active j by (auto simp: mode_ok_def off_cpu_def)
    qed
    from verify_one [OF this] True creator(2) show ?thesis by (simp add: verify_state_def same2)
  qed
qed

definition new_record :: "os_task_config \<Rightarrow> os_task_id_t \<Rightarrow> os_sched_task \<Rightarrow> kernel \<Rightarrow> bool" where
  "new_record c i s k \<longleftrightarrow>
     os_sched_task_configure (Some (sched k i)) (Some (tc_timing c)) (monotonic_ticks k) = (True, Some s)"

lemma configure_succeeds:
  assumes "state s = OS_TASK_DORMANT" and "os_sched_config_valid (Some c)" and "unat now + 2 ^ 32 < 2 ^ 64"
  shows "fst (os_sched_task_configure (Some s) (Some c) now)"
proof -
  define delay where "delay = cfg_initial_release_delay_ticks c"
  define rel where "rel = cfg_relative_deadline_ticks c"
  define per where "per = cfg_period_ticks c"
  have small: "unat delay + unat rel \<le> 2147483647" "unat per \<le> 2147483647"
  proof -
    have "\<not> delay > OS_MAX_TIME_INTERVAL - rel" "rel \<le> OS_MAX_TIME_INTERVAL" "per \<le> OS_MAX_TIME_INTERVAL"
      using assms(2) by (auto simp: os_sched_config_valid_def os_tick_interval_valid_def delay_def rel_def per_def
          split: if_splits)
    then show "unat delay + unat rel \<le> 2147483647" "unat per \<le> 2147483647"
      by (simp_all add: word_le_nat_alt not_less unat_sub_le)
  qed
  have d: "unat (now + ucast delay) = unat now + unat delay" using small assms(3) by (simp add: unat_add64)
  have fits: "\<not> now > UINT64_MAX - ucast delay" "\<not> now + ucast delay > UINT64_MAX - ucast rel"
    "\<not> now + ucast delay > UINT64_MAX - ucast per"
    unfolding gt_max64_iff d unat_ucast_32_64 using small assms(3) by simp_all
  show ?thesis
    using assms(1,2) fits
    by (auto simp: step_unfold os_sched_task_reset_def os_sched_task_zero_def delay_def rel_def per_def)
qed

lemma stack_region_psp: "stack_region P j (t\<lparr>saved_psp := p\<rparr>) = stack_region P j t"
  by (simp add: stack_region_def)

lemma kernel_ok_primask [simp]: "kernel_ok P (k\<lparr>primask := m\<rparr>) = kernel_ok P k"
  by (simp add: kernel_inv_defs sched_def)

lemma creator_allowed_primask [simp]: "creator_allowed (k\<lparr>primask := m\<rparr>) = creator_allowed k"
  by (simp add: creator_allowed_def caller_is_running_task_def sched_def)

lemma verify_state_quiet: "quiet k = quiet k' \<Longrightarrow> verify_state reason k = verify_state reason k'"
  using quiet_eqD(2,3,11,12) [of k k'] by (simp add: verify_state_def)

lemma free_slot_loop_primask [simp]: "free_slot_loop (k\<lparr>primask := m\<rparr>) idx = free_slot_loop k idx"
  by (induction idx) simp_all

lemma quiet_primask: "quiet (k\<lparr>primask := m\<rparr>) = (quiet k)\<lparr>primask := m\<rparr>"
  by (simp add: quiet_def)

lemma announced_primask:
  "announced i (installed P c i s (k\<lparr>primask := m\<rparr>)) = (announced i (installed P c i s k))\<lparr>primask := m\<rparr>"
proof -
  have "asks_switch i (installed P c i s (k\<lparr>primask := m\<rparr>)) = asks_switch i (installed P c i s k)"
    by (simp add: asks_switch_def installed_def sched_def)
  then show ?thesis by (simp add: announced_def) (simp add: installed_def tcb_def)
qed

text \<open>The body, for the slot \<open>i\<close> that the search has found.\<close>

lemma create_masked_effect:
  assumes "kernel_ok P k" and "platform_ok P" and "\<not> pendsv_set k" and "create_guard c k"
    and free: "free_slot_loop k [1..<OS_TASK_COUNT] = i" and "unat i < OS_TASK_COUNT" and "i \<noteq> 0"
    and dormant: "state (sched k i) = OS_TASK_DORMANT"
  shows "(\<exists>s k'. new_record c i s k \<and> os_task_create_masked P c created k = Inr ((True, i), k') \<and>
      quiet k' = quiet (announced i (installed P c i s k)) \<and> kernel_ok P k') \<or>
    (\<exists>k1. (\<forall>s. \<not> new_record c i s k) \<and> os_task_create_masked P c created k = Inr ((False, created), reset_task i k1) \<and>
      (\<exists>t s. k1 = k\<lparr>tasks := (tasks k)[unat i := t], schedules := (schedules k)[unat i := s]\<rparr>))"
proof -
  have slots: "slots_ok P k" using assms(1) by (simp add: kernel_ok_def)
  have len: "unat i < length (schedules k)" "unat i < length (tasks k)" using slots assms(6) by (simp_all add: slots_ok_def)
  have valid: "i \<noteq> OS_TASK_ID_INVALID" using assms(6) by auto
  have allowed: "creator_allowed k" using assms(4) by (simp add: create_guard_def)
  define low where "low = stacks_address P + OS_MAX_STACK_SIZE * ucast i"
  define k1 where "k1 = set_tcb i (\<lambda>t. t\<lparr>entry := tc_entry c, argument := tc_argument c,
     stack_claimed := True, stack_low := low, stack_high := low + tc_stack_size c div 4 * 4\<rparr>) k"
  have k1: "sched k1 = sched k" "monotonic_ticks k1 = monotonic_ticks k" "schedules k1 = schedules k"
    by (simp_all add: k1_def set_tcb_def sched_def fun_eq_iff)
  obtain r s where call: "call_ptr (\<lambda>p. os_sched_task_configure p (Some (tc_timing c)) (monotonic_ticks k)) (sched k i) = (r, s)"
    by fastforce
  then have conf: "os_sched_task_configure (Some (sched k i)) (Some (tc_timing c)) (monotonic_ticks k) = (r, Some s)"
    by (simp add: call_ptr_def os_sched_task_configure_def on_ptr_Some split: prod.splits)
  let ?k2 = "k1\<lparr>schedules := (schedules k)[unat i := s]\<rparr>"
  have run: "os_task_create_masked P c created k = (if \<not> r then Inr ((False, created), reset_task i ?k2)
      else on_ok (build_initial_frame P i ?k2) (\<lambda>(frame, k3).
        on_ok (announce_task i (set_tcb i (\<lambda>t. t\<lparr>saved_psp := frame\<rparr>) k3)) (\<lambda>k5.
        on_ok (verify_state ''CREATE'' k5) (\<lambda>_. Inr ((True, i), k5)))))"
    unfolding os_task_create_masked_def free Let_def low_def [symmetric] k1_def [symmetric]
    using allowed valid by (simp add: sched_call_def k1 call)
  show ?thesis
  proof (cases r)
    case False
    then have "\<forall>s. \<not> new_record c i s k" using conf by (simp add: new_record_def)
    moreover have "?k2 = k\<lparr>tasks := tasks k1, schedules := (schedules k)[unat i := s]\<rparr>"
      by (simp add: k1_def set_tcb_def)
    ultimately show ?thesis using run False by (auto simp: k1_def set_tcb_def)
  next
    case True
    let ?t = "new_tcb P c i (tcb k i)"
    let ?k4 = "installed P c i s k"
    have new: "new_record c i s k" using conf True by (simp add: new_record_def)
    note reg = new_tcb_region [OF assms(2,4,6), of "tcb k i"]
    have "task_id (sched k i) = of_nat (unat i)" "unat i \<noteq> 0"
      using slots_okD [OF slots assms(6)] assms(7) by (simp_all add: slot_ok_def unat_eq_0)
    moreover have "stack_claimed ?t" by (simp add: new_tcb_def Let_def)
    ultimately have rec: "slot_ok P (unat i) s ?t" "state s = OS_TASK_READY \<or> state s = OS_TASK_WAITING_RELEASE"
      using configured_record [OF conf dormant _ _ _ reg(1,2) True] by auto
    note keep = installed_keeps [OF assms(1) allowed assms(3,6,7) dormant rec]
    have t2: "tcb ?k2 i = ?t\<lparr>saved_psp := saved_psp (tcb k i)\<rparr>"
      using len by (simp add: tcb_def k1_def set_tcb_def new_tcb_def low_def Let_def)
    then have "stack_region P (unat i) (tcb ?k2 i)" using reg(1) by (simp only: stack_region_psp)
    from build_frame_effect [OF this] have frame: "build_initial_frame P i ?k2 =
        Inr (stack_high ?t - 64, ?k2\<lparr>ram := frame_words P (stack_high ?t - 64) (tc_argument c) (ram k)\<rparr>)"
      by (simp add: t2) (simp add: new_tcb_def Let_def k1_def set_tcb_def)
    have k4: "set_tcb i (\<lambda>t. t\<lparr>saved_psp := stack_high ?t - 64\<rparr>)
        (?k2\<lparr>ram := frame_words P (stack_high ?t - 64) (tc_argument c) (ram k)\<rparr>) = ?k4"
      using len by (simp add: k1_def set_tcb_def installed_def tcb_def new_tcb_def low_def Let_def)
    obtain k5 where k5: "announce_task i ?k4 = Inr k5" "quiet k5 = quiet (announced i ?k4)"
      using announce_effect [OF keep(1) assms(6,7) keep(4)] keep(5) by auto
    have "verify_state ''CREATE'' k5 = Inr ()" using verify_state_quiet [OF k5(2)] keep(3) by simp
    then have "os_task_create_masked P c created k = Inr ((True, i), k5)"
      using run True by (simp add: frame k4 k5(1))
    moreover have "kernel_ok P k5" using inv_quiet_eq(4) [OF k5(2)] keep(2) by simp
    ultimately show ?thesis using new k5(2) by blast
  qed
qed

lemma reset_dormant_keeps:
  assumes "kernel_ok P k" and "\<not> pendsv_set k" and "unat i < OS_TASK_COUNT" and "i \<noteq> 0"
    and "state (sched k i) = OS_TASK_DORMANT"
    and "k' = k\<lparr>tasks := (tasks k)[unat i := cleared_tcb], schedules := (schedules k)[unat i := blank_schedule i]\<rparr>"
  shows "kernel_ok P k'"
proof -
  have slots: "slots_ok P k" and mode: "mode_ok k" and heap: "heap_owned k"
    using assms(1) by (simp_all add: kernel_ok_def)
  have len: "length (schedules k) = OS_TASK_COUNT" using slots by (simp add: slots_ok_def)
  have "slot_ok P (unat i) (blank_schedule i) cleared_tcb"
    using slot_ok_blank [of "unat i" P] assms(4) by (simp add: unat_eq_0)
  then have "slots_ok P k'" by (rule slots_ok_update [OF slots assms(3)]) (simp_all add: assms(6))
  moreover have blank: "state (blank_schedule i) = OS_TASK_DORMANT"
    by (simp add: blank_schedule_def os_sched_task_zero_def)
  then have same: "state (schedules k' ! j) = state (schedules k ! j)" if "j < OS_TASK_COUNT" for j
    using that assms(5) len by (cases "j = unat i") (simp_all add: assms(6) sched_def)
  moreover have "heap_owned k'" by (rule heap_owned_keep [OF heap]) (simp_all add: same, simp_all add: assms(6))
  moreover have "mode_ok k'"
  proof -
    have fields: "current_task k' = current_task k" "yield_excluded_task k' = yield_excluded_task k"
      "pending_preempt_sources k' = pending_preempt_sources k" "running k' = running k"
      "has_active_context k' = has_active_context k" "pendsv_set k' = pendsv_set k"
      by (simp_all add: assms(6))
    have "off_cpu (schedules k' ! j) = off_cpu (schedules k ! j)" if "j < OS_TASK_COUNT" for j
      using same [OF that] by (simp add: off_cpu_def)
    moreover have "unat (current_task k) < OS_TASK_COUNT \<Longrightarrow>
        state (sched k' (current_task k)) = state (sched k (current_task k))"
      using same by (simp add: sched_def)
    ultimately show ?thesis using mode assms(2) by (auto simp: mode_ok_def fields)
  qed
  ultimately show ?thesis using assms(1) by (simp add: kernel_ok_def assms(6))
qed

lemma free_slot_found:
  assumes "slots_ok P k"
  defines "i \<equiv> free_slot_loop k [1..<OS_TASK_COUNT]"
  shows "if \<exists>j \<in> {1..<OS_TASK_COUNT}. state (schedules k ! j) = OS_TASK_DORMANT
    then i \<noteq> 0 \<and> unat i < OS_TASK_COUNT \<and> state (sched k i) = OS_TASK_DORMANT else i = OS_TASK_ID_INVALID"
proof -
  have claimed: "stack_claimed (tasks k ! j) \<longleftrightarrow> state (schedules k ! j) \<noteq> OS_TASK_DORMANT" if "j < OS_TASK_COUNT" for j
    using assms(1) that by (simp add: slots_ok_def slot_ok_def)
  have "\<forall>j \<in> set [1..<OS_TASK_COUNT]. j < OS_TASK_COUNT" by simp
  from free_slot_spec [OF this, of k, folded i_def] show ?thesis
  proof
    assume "i = OS_TASK_ID_INVALID \<and>
      (\<forall>j\<in>set [1..<OS_TASK_COUNT]. state (schedules k ! j) \<noteq> OS_TASK_DORMANT \<or> stack_claimed (tasks k ! j))"
    with claimed show ?thesis by auto
  next
    assume "\<exists>j\<in>set [1..<OS_TASK_COUNT]. i = of_nat j \<and> state (schedules k ! j) = OS_TASK_DORMANT \<and> \<not> stack_claimed (tasks k ! j)"
    then obtain j where j: "j \<in> {1..<OS_TASK_COUNT}" "i = of_nat j" "state (schedules k ! j) = OS_TASK_DORMANT" by auto
    then have "unat i = j" using of_nat_id_eq(2) [of j j] by simp
    with j show ?thesis by (auto simp: sched_def)
  qed
qed

definition room :: "kernel \<Rightarrow> bool" where
  "room k \<longleftrightarrow> (\<exists>j \<in> {1..<OS_TASK_COUNT}. state (schedules k ! j) = OS_TASK_DORMANT)"

lemma create_effect:
  assumes "kernel_ok P k" and "platform_ok P" and "\<not> pendsv_set k"
  defines "i \<equiv> free_slot_loop k [1..<OS_TASK_COUNT]"
  shows "if create_guard c k \<and> room k
    then i \<noteq> 0 \<and> unat i < OS_TASK_COUNT \<and> state (sched k i) = OS_TASK_DORMANT \<and>
      ((\<exists>s k'. new_record c i s k \<and> os_task_create P (Some c) (Some created) k = Inr ((True, Some i), k') \<and>
         quiet k' = quiet (announced i (installed P c i s k)) \<and> kernel_ok P k') \<or>
       ((\<forall>s. \<not> new_record c i s k) \<and>
         (\<exists>k'. os_task_create P (Some c) (Some created) k = Inr ((False, Some created), k') \<and> kernel_ok P k' \<and>
            k' = k\<lparr>tasks := (tasks k)[unat i := cleared_tcb],
              schedules := (schedules k)[unat i := blank_schedule i]\<rparr>)))
    else os_task_create P (Some c) (Some created) k = Inr ((False, Some created), k)"
proof (cases "create_guard c k")
  case False
  then show ?thesis by (auto simp: os_task_create_def create_guard_def not_less)
next
  case guard: True
  let ?K = "k\<lparr>primask := 1\<rparr>"
  have run: "os_task_create P (Some c) (Some created) k =
      on_ok (os_task_create_masked P c created ?K) (\<lambda>((ok, created'), k'). Inr ((ok, Some created'), k'\<lparr>primask := primask k\<rparr>))"
    using guard
    by (auto simp: os_task_create_def create_guard_def masked_def not_less on_ok_def split: sum.split)
  have slots: "slots_ok P k" using assms(1) by (simp add: kernel_ok_def)
  note slot = free_slot_found [OF slots, folded room_def i_def]
  show ?thesis
  proof (cases "room k")
    case False
    then have none: "free_slot_loop k [1..<OS_TASK_COUNT] = OS_TASK_ID_INVALID" using slot by (simp add: i_def)
    have "os_task_create_masked P c created ?K = Inr ((False, created), ?K)"
      using none by (simp only: os_task_create_masked_def free_slot_loop_primask Let_def if_True if_cancel simp_thms)
    then show ?thesis using run False by simp
  next
    case True
    with slot have i: "i \<noteq> 0" "unat i < OS_TASK_COUNT" "state (sched k i) = OS_TASK_DORMANT" by simp_all
    have K: "kernel_ok P ?K" "\<not> pendsv_set ?K" "create_guard c ?K" "state (sched ?K i) = OS_TASK_DORMANT"
      "free_slot_loop ?K [1..<OS_TASK_COUNT] = i"
      using assms(1,3) guard i(3) by (simp_all only: kernel_ok_primask free_slot_loop_primask i_def)
        (simp_all add: create_guard_def sched_def)
    have rec: "new_record c i s ?K = new_record c i s k" for s by (simp add: new_record_def sched_def)
    from create_masked_effect [OF K(1) assms(2) K(2,3,5) i(2,1) K(4), of created] show ?thesis
    proof (elim disjE exE conjE)
      fix s k'
      assume s: "new_record c i s ?K" "os_task_create_masked P c created ?K = Inr ((True, i), k')"
        "quiet k' = quiet (announced i (installed P c i s ?K))" "kernel_ok P k'"
      have "announced i (installed P c i s k) = (announced i (installed P c i s k))\<lparr>primask := primask k\<rparr>"
        using announced_primask [where k = k and m = "primask k" and i = i and P = P and c = c and s = s] by simp
      then have quiet_announced: "(quiet (announced i (installed P c i s k)))\<lparr>primask := primask k\<rparr> =
          quiet (announced i (installed P c i s k))" by (metis quiet_primask)
      have "quiet (k'\<lparr>primask := primask k\<rparr>) = quiet (announced i (installed P c i s k))"
        using s(3) quiet_announced by (simp add: quiet_primask announced_primask)
      with run s(1,2,4) i guard True rec show ?thesis by auto
    next
      fix k1 t s
      assume s: "\<forall>s. \<not> new_record c i s ?K" "os_task_create_masked P c created ?K = Inr ((False, created), reset_task i k1)"
        "k1 = ?K\<lparr>tasks := (tasks ?K)[unat i := t], schedules := (schedules ?K)[unat i := s]\<rparr>"
      let ?k' = "k\<lparr>tasks := (tasks k)[unat i := cleared_tcb], schedules := (schedules k)[unat i := blank_schedule i]\<rparr>"
      have "(reset_task i k1)\<lparr>primask := primask k\<rparr> = ?k'" by (simp add: s(3) reset_task_effect)
      moreover have "kernel_ok P ?k'" by (rule reset_dormant_keeps [OF assms(1,3) i(2,1,3)]) simp
      ultimately show ?thesis using run s(1,2) i guard True rec by auto
    qed
  qed
qed

lemma create_keeps:
  assumes "kernel_ok P k" and "platform_ok P" and "\<not> pendsv_set k"
  shows "\<exists>r k'. os_task_create P config created k = Inr (r, k') \<and> kernel_ok P k'"
proof (cases "config = None \<or> created = None")
  case True
  then have "os_task_create P config created k = Inr ((False, created), k)"
    by (auto simp: os_task_create_def split: option.split)
  with assms(1) show ?thesis by blast
next
  case False
  then obtain c j where "config = Some c" "created = Some j" by auto
  with create_effect [OF assms, of c j] assms(1) show ?thesis
    by (cases "create_guard c k \<and> room k") (simp_all only: if_True if_False simp_thms, blast+)
qed

section \<open>What a creation leaves alone\<close>

definition stack_area :: "platform \<Rightarrow> nat \<Rightarrow> u32 \<Rightarrow> bool" where
  "stack_area P i a \<longleftrightarrow> unat (stacks_address P) + 1024 * i \<le> unat a \<and>
     unat a < unat (stacks_address P) + 1024 * i + 1024"

lemma stack_areas_disjoint: "stack_area P i a \<Longrightarrow> stack_area P j a \<Longrightarrow> i = j"
  by (simp add: stack_area_def)

lemma fold_upd_other:
  "a \<notin> f ` set idx \<Longrightarrow> fold (\<lambda>i m. m(f i := g i)) idx m a = m a"
  by (induction idx arbitrary: m) auto

text \<open>A frame of sixteen words at a valid stack pointer lies in the stack of its task.\<close>

lemma frame_word:
  assumes "psp_ok t p" and "i < 16"
  shows "unat (p + 4 * of_nat i) = unat p + 4 * i"
proof -
  have "unat (of_nat i :: u32) = i" using assms(2) by (simp add: unat_of_nat)
  then have "unat (4 * of_nat i :: u32) = 4 * i" using assms(2) by (simp add: unat_word_ariths)
  then show ?thesis
    using assms unat_less_2p(3) [of "stack_high t"] by (subst unat_add32) (simp_all add: psp_ok_def)
qed

lemma frame_in_area:
  assumes "stack_region P j t" and "psp_ok t p" and "i < 16"
  shows "stack_area P j (p + 4 * of_nat i)"
proof -
  have reg: "unat (stack_low t) = unat (stacks_address P) + 1024 * j"
    "unat (stack_high t) \<le> unat (stack_low t) + 1024"
    using assms(1) by (simp_all add: stack_region_def)
  have p: "unat (stack_low t) \<le> unat p" "unat p + 64 \<le> unat (stack_high t)"
    using assms(2) by (simp_all add: psp_ok_def)
  with reg assms(3) frame_word [OF assms(2,3)] show ?thesis unfolding stack_area_def by linarith
qed

lemma frame_words_other:
  assumes "stack_region P j t" and "\<not> stack_area P j a"
  shows "frame_words P (stack_high t - 64) arg m a = m a"
proof -
  let ?frame = "stack_high t - 64"
  have ne: "a \<noteq> ?frame + 4 * of_nat i" if "i < 16" for i
    using frame_in_area [OF assms(1) region_top(3) [OF assms(1)] that] assms(2) by blast
  have "fold (\<lambda>index m. m(?frame + 4 * of_nat index := 0)) [0..<16] m a = m a"
  proof (rule fold_upd_other, rule notI)
    assume "a \<in> (\<lambda>index. ?frame + 4 * of_nat index) ` set [0..<16]"
    then obtain i where "i < 16" "a = ?frame + 4 * of_nat i" by auto
    with ne show False by blast
  qed
  then show ?thesis
    using ne [of 8] ne [of 13] ne [of 14] ne [of 15] by (simp add: frame_words_def)
qed

lemma create_cases:
  assumes "kernel_ok P k" and "platform_ok P" and "\<not> pendsv_set k"
    and "os_task_create P config created k = Inr (r, k')"
  obtains (refused) "k' = k"
  | (slot) i t s where "unat i < OS_TASK_COUNT" "i \<noteq> 0" "state (sched k i) = OS_TASK_DORMANT"
      "tasks k' = (tasks k)[unat i := t]" "schedules k' = (schedules k)[unat i := s]"
      "current_task k' = current_task k" "monotonic_ticks k' = monotonic_ticks k"
      "memory_allocator k' = memory_allocator k" "memory_blocks k' = memory_blocks k"
      "\<And>a. \<not> stack_area P (unat i) a \<Longrightarrow> ram k' a = ram k a"
proof (cases "config = None \<or> created = None")
  case True
  then have "os_task_create P config created k = Inr ((False, created), k)"
    by (auto simp: os_task_create_def split: option.split)
  with assms(4) refused show thesis by simp
next
  case False
  then obtain c j where cj: "config = Some c" "created = Some j" by auto
  define i where "i = free_slot_loop k [1..<OS_TASK_COUNT]"
  note effect = create_effect [OF assms(1-3), of c j, folded i_def]
  show thesis
  proof (cases "create_guard c k \<and> room k")
    case False
    with effect assms(4) cj refused show thesis by simp
  next
    case True
    with effect have i: "i \<noteq> 0" "unat i < OS_TASK_COUNT" "state (sched k i) = OS_TASK_DORMANT"
      and cases: "(\<exists>s k'. new_record c i s k \<and> os_task_create P (Some c) (Some j) k = Inr ((True, Some i), k') \<and>
         quiet k' = quiet (announced i (installed P c i s k)) \<and> kernel_ok P k') \<or>
       (\<exists>k'. os_task_create P (Some c) (Some j) k = Inr ((False, Some j), k') \<and>
         k' = k\<lparr>tasks := (tasks k)[unat i := cleared_tcb], schedules := (schedules k)[unat i := blank_schedule i]\<rparr>)"
      by (simp_all only: if_True simp_thms) blast
    from cases show thesis
    proof (elim disjE exE conjE)
      fix s k1
      assume s: "os_task_create P (Some c) (Some j) k = Inr ((True, Some i), k1)"
        "quiet k1 = quiet (announced i (installed P c i s k))"
      then have "k1 = k'" using assms(4) cj by simp
      note q = quiet_eqD [OF s(2), unfolded this]
      have fields: "tasks (announced i (installed P c i s k)) = (tasks k)[unat i := new_tcb P c i (tcb k i)]"
        "schedules (announced i (installed P c i s k)) = (schedules k)[unat i := s]"
        "current_task (announced i (installed P c i s k)) = current_task k"
        "monotonic_ticks (announced i (installed P c i s k)) = monotonic_ticks k"
        "memory_allocator (announced i (installed P c i s k)) = memory_allocator k"
        "memory_blocks (announced i (installed P c i s k)) = memory_blocks k"
        "ram (announced i (installed P c i s k)) =
          frame_words P (stack_high (new_tcb P c i (tcb k i)) - 64) (tc_argument c) (ram k)"
        by (simp_all only: announced_def split: if_splits) (simp_all add: installed_def)
      show thesis
        by (rule slot [OF i(2,1,3), of "new_tcb P c i (tcb k i)" s]) (simp_all add: q fields,
          rule frame_words_other [OF new_tcb_region(1) [OF assms(2) _ i(2)]], use True in auto)
    next
      fix k1
      assume "os_task_create P (Some c) (Some j) k = Inr ((False, Some j), k1)"
        "k1 = k\<lparr>tasks := (tasks k)[unat i := cleared_tcb], schedules := (schedules k)[unat i := blank_schedule i]\<rparr>"
      then have "k' = k\<lparr>tasks := (tasks k)[unat i := cleared_tcb], schedules := (schedules k)[unat i := blank_schedule i]\<rparr>"
        using assms(4) cj by simp
      then show thesis by (intro slot [OF i(2,1,3), of cleared_tcb "blank_schedule i"]) simp_all
    qed
  qed
qed

end
