(* ===== verification/Kernel_Boot.thy ===== *)
theory Kernel_Boot
  imports Kernel_Create
begin

text \<open>
  Initialisation: from the static zero state, \<open>os_kernel_init\<close> establishes the invariant with
  an idle task that is ready, four free slots and a heap that is one free block.
\<close>

section \<open>The tables after the reset loop\<close>

definition blank_schedules :: "os_sched_task list" where
  "blank_schedules = map (\<lambda>i. blank_schedule (of_nat i)) [0..<OS_TASK_COUNT]"

lemma blank_schedules_list:
  "blank_schedules = [blank_schedule 0, blank_schedule 1, blank_schedule 2, blank_schedule 3, blank_schedule 4]"
  by (simp add: blank_schedules_def upt_rec)

lemma five_elements: "length xs = OS_TASK_COUNT \<Longrightarrow> \<exists>a b c d e. xs = [a, b, c, d, e]"
  by (auto simp: length_Suc_conv numeral_eq_Suc)

lemma reset_all:
  assumes "length (tasks k) = OS_TASK_COUNT" and "length (schedules k) = OS_TASK_COUNT"
  shows "fold (\<lambda>i. reset_task (of_nat i)) [0..<OS_TASK_COUNT] k =
    k\<lparr>tasks := replicate OS_TASK_COUNT cleared_tcb, schedules := blank_schedules\<rparr>"
proof -
  obtain t0 t1 t2 t3 t4 s0 s1 s2 s3 s4 where
    "tasks k = [t0, t1, t2, t3, t4]" "schedules k = [s0, s1, s2, s3, s4]"
    using five_elements [OF assms(1)] five_elements [OF assms(2)] by blast
  moreover have "[0..<OS_TASK_COUNT] = [0, 1, 2, 3, 4]" by (simp add: upt_rec)
  moreover have "replicate OS_TASK_COUNT cleared_tcb = [cleared_tcb, cleared_tcb, cleared_tcb, cleared_tcb, cleared_tcb]"
    by (simp add: numeral_eq_Suc)
  ultimately show ?thesis
    by (simp add: reset_task_effect blank_schedules_list)
qed

section \<open>The idle task\<close>

definition idle_tcb :: "platform \<Rightarrow> os_tcb" where
  "idle_tcb P = cleared_tcb\<lparr>entry := idle_entry_address P, stack_claimed := True,
     stack_low := stacks_address P, stack_high := stacks_address P + OS_MAX_STACK_SIZE,
     saved_psp := stacks_address P + OS_MAX_STACK_SIZE - 64\<rparr>"

definition idle_schedule :: os_sched_task where
  "idle_schedule = (blank_schedule 0)\<lparr>state := OS_TASK_READY\<rparr>"

lemma idle_slot:
  assumes "platform_ok P"
  shows "stack_region P 0 (idle_tcb P)" "slot_ok P 0 idle_schedule (idle_tcb P)"
proof -
  have plat: "8 dvd unat (stacks_address P)" "0 < unat (stacks_address P)" "unat (stacks_address P) + 5120 < 2 ^ 32"
    using assms by (simp_all add: platform_ok_def)
  have high: "unat (stacks_address P + 1024) = unat (stacks_address P) + 1024"
    using plat(3) by (simp add: unat_add32)
  then have "8 dvd unat (stacks_address P + 1024)" using plat(1) by simp
  moreover have "stacks_address P \<noteq> 0" using plat(2) by auto
  ultimately show region: "stack_region P 0 (idle_tcb P)"
    using plat(1) high by (simp add: stack_region_def idle_tcb_def)
  have "psp_ok (idle_tcb P) (stack_high (idle_tcb P) - 64)" by (rule region_top(3) [OF region])
  then have "psp_ok (idle_tcb P) (saved_psp (idle_tcb P))" by (simp add: idle_tcb_def)
  with region show "slot_ok P 0 idle_schedule (idle_tcb P)"
    by (simp add: slot_ok_def idle_schedule_def blank_schedule_def os_sched_task_zero_def sched_task_wf_def)
      (simp add: idle_tcb_def)
qed

definition booted_slots :: "platform \<Rightarrow> kernel \<Rightarrow> kernel" where
  "booted_slots P k = k\<lparr>tasks := (replicate OS_TASK_COUNT cleared_tcb)[0 := idle_tcb P],
     schedules := blank_schedules[0 := idle_schedule],
     ram := frame_words P (stack_high (idle_tcb P) - 64) 0 (ram k)\<rparr>"

lemma length_blank [simp]: "length blank_schedules = OS_TASK_COUNT"
  by (simp add: blank_schedules_def)

lemma booted_slots_ok:
  assumes "platform_ok P"
  shows "slots_ok P (booted_slots P k)"
    "\<And>i. i < OS_TASK_COUNT \<Longrightarrow>
      state (schedules (booted_slots P k) ! i) = (if i = 0 then OS_TASK_READY else OS_TASK_DORMANT)"
proof -
  have nth: "schedules (booted_slots P k) ! i = (if i = 0 then idle_schedule else blank_schedule (of_nat i))"
    "tasks (booted_slots P k) ! i = (if i = 0 then idle_tcb P else cleared_tcb)" if "i < OS_TASK_COUNT" for i
    using that by (simp_all add: booted_slots_def blank_schedules_def)
  have "slot_ok P i (schedules (booted_slots P k) ! i) (tasks (booted_slots P k) ! i)" if "i < OS_TASK_COUNT" for i
    using idle_slot(2) [OF assms] slot_ok_blank [of i P] by (simp add: nth [OF that])
  moreover have "length (tasks (booted_slots P k)) = OS_TASK_COUNT"
    "length (schedules (booted_slots P k)) = OS_TASK_COUNT" by (simp_all add: booted_slots_def)
  ultimately show "slots_ok P (booted_slots P k)" by (simp add: slots_ok_def)
  show "state (schedules (booted_slots P k) ! i) = (if i = 0 then OS_TASK_READY else OS_TASK_DORMANT)"
    if "i < OS_TASK_COUNT" for i
    using nth(1) [OF that] by (simp add: idle_schedule_def blank_schedule_def os_sched_task_zero_def)
qed

section \<open>The whole initialisation\<close>

text \<open>The priorities that the three calls of the vendor leave.\<close>

definition booted_priorities :: "platform \<Rightarrow> (irqn \<Rightarrow> u32) \<Rightarrow> irqn \<Rightarrow> u32" where
  "booted_priorities P prio = HAL_NVIC_SetPriority P PendSV_IRQn 15 0
     (HAL_NVIC_SetPriority P SysTick_IRQn 14 0 (HAL_NVIC_SetPriority P SVCall_IRQn 8 0 prio))"

definition booted :: "platform \<Rightarrow> os_trace_ring option \<Rightarrow> os_allocator \<Rightarrow> os_heap \<Rightarrow> kernel \<Rightarrow> kernel" where
  "booted P ring a H k = (booted_slots P k)\<lparr>monotonic_ticks := 0, reclaim_counter := 0,
     last_reclaimed := OS_TASK_ID_INVALID, current_task := OS_TASK_ID_INVALID,
     yield_excluded_task := OS_TASK_ID_INVALID, pending_switch_cause := 0, pending_preempt_sources := 0,
     has_active_context := 0, trace_ring := ring, memory_allocator := a, memory_blocks := H,
     ccr := ccr k OR SCB_CCR_STKALIGN_Msk, nvic_priority := booted_priorities P (nvic_priority k),
     kernel_initialized := True\<rparr>"

lemma idle_frame:
  assumes "platform_ok P" and "length (tasks k) = OS_TASK_COUNT" and "length (schedules k) = OS_TASK_COUNT"
  defines "k1 \<equiv> fold (\<lambda>i. reset_task (of_nat i)) [0..<OS_TASK_COUNT] k"
  defines "k2 \<equiv> set_tcb OS_TASK_ID_IDLE (\<lambda>t. t\<lparr>entry := idle_entry_address P, argument := 0\<rparr>) k1"
  defines "k3 \<equiv> k2\<lparr>schedules := blank_schedules[0 := idle_schedule]\<rparr>"
  defines "k4 \<equiv> set_tcb OS_TASK_ID_IDLE (\<lambda>t. t\<lparr>stack_claimed := True, stack_low := stacks_address P,
                     stack_high := stacks_address P + OS_MAX_STACK_SIZE\<rparr>) k3"
  shows "transition_task OS_TASK_ID_IDLE OS_TASK_DORMANT OS_TASK_READY ''IDLE_READY'' k2 = Inr k3"
    "\<exists>frame k5. build_initial_frame P OS_TASK_ID_IDLE k4 = Inr (frame, k5) \<and>
      set_tcb OS_TASK_ID_IDLE (\<lambda>t. t\<lparr>saved_psp := frame\<rparr>) k5 = booted_slots P k"
proof -
  have k1: "k1 = k\<lparr>tasks := replicate OS_TASK_COUNT cleared_tcb, schedules := blank_schedules\<rparr>"
    unfolding k1_def by (rule reset_all [OF assms(2,3)])
  then have "schedules k2 = blank_schedules" by (simp add: k2_def set_tcb_def)
  moreover from this have "sched k2 0 = blank_schedule 0" by (simp add: sched_def blank_schedules_list)
  moreover have "state (blank_schedule 0) = OS_TASK_DORMANT" by (simp add: blank_schedule_def os_sched_task_zero_def)
  ultimately show "transition_task OS_TASK_ID_IDLE OS_TASK_DORMANT OS_TASK_READY ''IDLE_READY'' k2 = Inr k3"
    using transition_effect [of 0 k2 OS_TASK_DORMANT OS_TASK_READY] by (simp add: k3_def idle_schedule_def)
  have t4: "tcb k4 0 = (idle_tcb P)\<lparr>saved_psp := 0\<rparr>"
    by (simp add: k4_def k3_def k2_def k1 set_tcb_def tcb_def idle_tcb_def cleared_tcb_def)
  then have "stack_region P 0 (tcb k4 0)" using idle_slot(1) [OF assms(1)] by (simp only: stack_region_psp)
  from build_frame_effect [OF this] have frame: "build_initial_frame P OS_TASK_ID_IDLE k4 =
      Inr (stack_high (idle_tcb P) - 64, k4\<lparr>ram := frame_words P (stack_high (idle_tcb P) - 64) 0 (ram k4)\<rparr>)"
    by (simp add: t4) (simp add: idle_tcb_def cleared_tcb_def)
  show "\<exists>frame k5. build_initial_frame P OS_TASK_ID_IDLE k4 = Inr (frame, k5) \<and>
      set_tcb OS_TASK_ID_IDLE (\<lambda>t. t\<lparr>saved_psp := frame\<rparr>) k5 = booted_slots P k"
    by (intro exI conjI, rule frame)
      (simp add: set_tcb_def tcb_def k4_def k3_def k2_def k1 booted_slots_def idle_tcb_def cleared_tcb_def)
qed

text \<open>The heap that the start-up makes of the region: one free block, nothing counted.\<close>

definition region_heap :: "platform \<Rightarrow> os_allocator \<Rightarrow> os_heap \<Rightarrow> bool" where
  "region_heap P a H \<longleftrightarrow> chain a H = [heap_begin a] \<and> counters_of a = (0, 0, 0, 0) \<and>
     unat (heap_begin a) = (unat (heap_start_symbol P) + 7) div 8 * 8 \<and> unat (heap_end a) = unat (heap_end_symbol P) div 8 * 8"

lemma heap_room:
  assumes "platform_ok P"
  shows "\<exists>a H'. os_allocator_init (Some g) H (heap_start_symbol P) (heap_end_symbol P - heap_start_symbol P) =
      (True, Some a, H') \<and> heap_ok a H' \<and> live_blocks a H' = [] \<and> region_heap P a H'"
proof -
  let ?b = "heap_start_symbol P" and ?e = "heap_end_symbol P"
  obtain ok a H' where run: "os_allocator_init (Some g) H ?b (?e - ?b) = (ok, Some a, H')"
  proof -
    obtain ok al H' where run: "os_allocator_init (Some g) H ?b (?e - ?b) = (ok, al, H')"
      by (metis prod_cases3)
    moreover from this obtain a where "al = Some a"
      by (auto simp: os_allocator_init_def Let_def split: if_splits)
    ultimately show thesis using that by simp
  qed
  have "?b < ?e" using assms by (simp add: platform_ok_def)
  then have "unat ?b + unat (?e - ?b) = unat ?e" by (simp add: unat_sub_le word_less_nat_alt)
  with init_outcome [OF run HOL.refl HOL.refl] assms unat_less_2p(3) [of ?e] run show ?thesis
    by (auto simp: platform_ok_def region_heap_def)
qed

lemma trace_init_effect:
  assumes "trace_storage_address P \<noteq> 0" and "trace_storage_address P mod 8 = 0"
  shows "\<exists>ring. os_trace_runtime_init P k = Inr (k\<lparr>trace_ring := ring\<rparr>)"
proof (cases "trace_ring k")
  case None
  then show ?thesis by (intro exI [of _ "trace_ring k"]) (simp add: os_trace_runtime_init_def)
next
  case (Some r)
  with assms show ?thesis by (auto simp: os_trace_runtime_init_def os_trace_ring_init_def)
qed

lemma init_effect:
  assumes "platform_ok P" and "\<not> kernel_initialized k" and "\<not> running k"
    and "length (tasks k) = OS_TASK_COUNT" and "length (schedules k) = OS_TASK_COUNT"
  shows "\<exists>ring a H. os_kernel_init P k = Inr (True, booted P ring a H k) \<and> heap_ok a H \<and> live_blocks a H = [] \<and> region_heap P a H"
proof -
  note idle = idle_frame [OF assms(1,4,5)]
  obtain frame k5 where frame: "build_initial_frame P OS_TASK_ID_IDLE
      (set_tcb OS_TASK_ID_IDLE (\<lambda>t. t\<lparr>stack_claimed := True, stack_low := stacks_address P,
         stack_high := stacks_address P + OS_MAX_STACK_SIZE\<rparr>)
       (set_tcb OS_TASK_ID_IDLE (\<lambda>t. t\<lparr>entry := idle_entry_address P, argument := 0\<rparr>)
        (fold (\<lambda>i. reset_task (of_nat i)) [0..<OS_TASK_COUNT] k)\<lparr>schedules := blank_schedules[0 := idle_schedule]\<rparr>))
      = Inr (frame, k5)" "set_tcb OS_TASK_ID_IDLE (\<lambda>t. t\<lparr>saved_psp := frame\<rparr>) k5 = booted_slots P k"
    using idle(2) by blast
  let ?k7 = "(booted_slots P k)\<lparr>monotonic_ticks := 0, reclaim_counter := 0,
     last_reclaimed := OS_TASK_ID_INVALID, current_task := OS_TASK_ID_INVALID,
     yield_excluded_task := OS_TASK_ID_INVALID, pending_switch_cause := 0, pending_preempt_sources := 0,
     has_active_context := 0\<rparr>"
  have "trace_storage_address P \<noteq> 0" "trace_storage_address P mod 8 = 0" using assms(1) by (simp_all add: platform_ok_def)
  from trace_init_effect [OF this, of ?k7]
  obtain ring where ring: "os_trace_runtime_init P ?k7 = Inr (?k7\<lparr>trace_ring := ring\<rparr>)" by (elim exE)
  obtain a H where heap: "os_allocator_init (Some (memory_allocator k)) (memory_blocks k) (heap_start_symbol P)
      (heap_end_symbol P - heap_start_symbol P) = (True, Some a, H)" "heap_ok a H" "live_blocks a H = []" "region_heap P a H"
    using heap_room [OF assms(1)] by blast
  have order: "\<not> heap_end_symbol P \<le> heap_start_symbol P" using assms(1) by (auto simp: platform_ok_def)
  have fields: "memory_allocator (booted_slots P k) = memory_allocator k" "memory_blocks (booted_slots P k) = memory_blocks k"
    "ccr (booted_slots P k) = ccr k" "nvic_priority (booted_slots P k) = nvic_priority k" "running (booted_slots P k) = running k"
    by (simp_all add: booted_slots_def)
  have "state (schedules (booted_slots P k) ! i) \<noteq> OS_TASK_RUNNING" if "i < OS_TASK_COUNT" for i
    using booted_slots_ok(2) [OF assms(1) that] by simp
  from verify_none [OF this] have verify: "verify_state ''INIT'' (booted P ring a H k) = Inr ()"
    using assms(3) by (simp add: verify_state_def booted_def fields)
  have "os_kernel_init P k = Inr (True, booted P ring a H k)"
    unfolding os_kernel_init_def Let_def
    using assms(2,3) verify
    by (simp add: idle(1) frame ring heap(1) order fields set_heap_def booted_def booted_priorities_def)
  with heap(2-4) show ?thesis by blast
qed

lemma booted_ok:
  assumes "platform_ok P" and "\<not> pendsv_set k" and "heap_ok a H" and "live_blocks a H = []"
  shows "kernel_ok P (booted P ring a H k)"
proof -
  have "slots_ok P (booted P ring a H k)"
    using booted_slots_ok(1) [OF assms(1), of k] by (simp add: slots_ok_def booted_def)
  moreover have "heap_owned (booted P ring a H k)" using assms(3,4) by (simp add: heap_owned_def booted_def)
  moreover have "off_cpu (schedules (booted_slots P k) ! i)" if "i < OS_TASK_COUNT" for i
    using booted_slots_ok(2) [OF assms(1) that] by (simp add: off_cpu_def)
  then have "mode_ok (booted P ring a H k)"
    using assms(2) by (simp add: mode_ok_def booted_def) (simp add: booted_slots_def)
  ultimately show ?thesis by (simp add: kernel_ok_def booted_def)
qed

end
