(* ===== verification/Kernel_Calls.thy ===== *)
theory Kernel_Calls
  imports Kernel_Switch
begin

text \<open>
  The calls of a task. A supervisor call replaces the record of the caller by one that is off the
  processor and requests a switch; the memory calls change only the heap; a creation fills one
  free slot and may request a switch. Each keeps the invariant of the kernel.
\<close>

section \<open>The record after a supervisor call\<close>

text \<open>What stays of the record of a task that gives up the processor.\<close>

definition gives_up :: "u64 \<Rightarrow> os_sched_task \<Rightarrow> os_sched_task \<Rightarrow> bool" where
  "gives_up now s s' \<longleftrightarrow> task_id s' = task_id s \<and> priority s' = priority s \<and>
     next_release_order s' = next_release_order s \<and> relative_deadline_ticks s' = relative_deadline_ticks s \<and>
     (state s' = OS_TASK_READY \<or> state s' = OS_TASK_SLEEPING \<longrightarrow> edf_key_of s' = edf_key_of s) \<and>
     (state s' = OS_TASK_SLEEPING \<longrightarrow> now < wake_order s')"

lemma sleep_record:
  assumes "slot_ok P i s t" and "state s = OS_TASK_RUNNING"
  shows "\<exists>s'. call_ptr (\<lambda>p. os_sched_sleep p now n) s =
      (i \<noteq> 0 \<and> n \<noteq> 0 \<and> n \<le> OS_MAX_SLEEP_TICKS \<and> unat now + unat n < 2 ^ 64, s') \<and>
    (i \<noteq> 0 \<and> n \<noteq> 0 \<and> n \<le> OS_MAX_SLEEP_TICKS \<and> unat now + unat n < 2 ^ 64 \<longrightarrow>
       slot_ok P i s' t \<and> state s' = OS_TASK_SLEEPING \<and> unat (wake_order s') = unat now + unat n \<and>
       edf_key_of s' = edf_key_of s \<and> gives_up now s s')"
proof -
  have act: "job_active s \<longleftrightarrow> i \<noteq> 0" using assms by (auto simp: slot_ok_def)
  have range: "\<not> now > UINT64_MAX - ucast n \<longleftrightarrow> unat now + unat n < 2 ^ 64"
    unfolding gt_max64_iff unat_ucast_32_64 by (simp only: not_le)
  show ?thesis
  proof (cases "i \<noteq> 0 \<and> n \<noteq> 0 \<and> n \<le> OS_MAX_SLEEP_TICKS \<and> unat now + unat n < 2 ^ 64")
    case True
    define s' where "s' = s\<lparr>wake_order := now + ucast n, wake_tick := ucast (now + ucast n), state := OS_TASK_SLEEPING\<rparr>"
    have "call_ptr (\<lambda>p. os_sched_sleep p now n) s = (True, s')"
      using True assms(2) act range
      by (simp add: os_sched_sleep_def os_tick_interval_valid_def s'_def Let_def)
    moreover have "slot_ok P i s' t" using assms True act by (simp add: slot_ok_def sched_task_wf_def s'_def)
    moreover have "unat (wake_order s') = unat now + unat n"
      using True unat_add64 [of now "ucast n"] by (simp add: s'_def)
    moreover have "0 < unat n" using True by (simp add: unat_gt_0)
    with calculation(3) have "now < wake_order s'" by (simp add: word_less_nat_alt)
    ultimately show ?thesis using True by (intro exI [of _ s']) (simp add: s'_def edf_key_of_def gives_up_def)
  next
    case False
    then have "call_ptr (\<lambda>p. os_sched_sleep p now n) s = (False, s)"
      using assms(2) act range by (auto simp: os_sched_sleep_def os_tick_interval_valid_def)
    with False show ?thesis by auto
  qed
qed

lemma complete_record:
  assumes "slot_ok P i s t" and "state s = OS_TASK_RUNNING"
  shows "\<exists>s'. call_ptr (\<lambda>p. os_sched_complete_job p now) s = (i \<noteq> 0, s') \<and>
    (i \<noteq> 0 \<longrightarrow> state s' = OS_TASK_RUNNING \<and> \<not> job_active s' \<and> kind s' = kind s \<and>
       next_release_order s' = next_release_order s \<and>
       (st = OS_TASK_EXITING \<or> st = OS_TASK_WAITING_RELEASE \<longrightarrow> slot_ok P i (s'\<lparr>state := st\<rparr>) t \<and>
         gives_up now s (s'\<lparr>state := st\<rparr>)))"
proof -
  have act: "job_active s \<longleftrightarrow> i \<noteq> 0" using assms by (auto simp: slot_ok_def)
  define s' where "s' = snd (call_ptr (\<lambda>p. os_sched_complete_job p now) s)"
  have call: "call_ptr (\<lambda>p. os_sched_complete_job p now) s = (i \<noteq> 0, s')"
    using assms(2) act by (simp add: s'_def os_sched_complete_job_def Let_def)
  have "os_sched_complete_job (Some s) now = (i \<noteq> 0, Some s')"
    using call by (simp add: call_ptr_def os_sched_complete_job_def on_ptr_Some split: prod.splits)
  from sched_task_wf_step [OF task_step.complete_job [OF this]] have wf: "sched_task_wf s'"
    using assms(1) by (simp add: slot_ok_def)
  have fields: "i \<noteq> 0 \<longrightarrow> state s' = OS_TASK_RUNNING \<and> \<not> job_active s' \<and> kind s' = kind s \<and>
      next_release_order s' = next_release_order s \<and> task_id s' = task_id s \<and>
      time_range_exhausted s' = time_range_exhausted s \<and> priority s' = priority s \<and>
      relative_deadline_ticks s' = relative_deadline_ticks s"
    using assms(2) act by (simp add: s'_def os_sched_complete_job_def os_sched_record_deadline_miss_def Let_def)
  have "slot_ok P i (s'\<lparr>state := st\<rparr>) t \<and> gives_up now s (s'\<lparr>state := st\<rparr>)"
    if "i \<noteq> 0" "st = OS_TASK_EXITING \<or> st = OS_TASK_WAITING_RELEASE"
    using that assms wf fields by (auto simp: slot_ok_def sched_task_wf_def gives_up_def)
  with call fields show ?thesis by (intro exI [of _ s']) simp
qed

lemma wait_record:
  assumes "slot_ok P i s t" and "state s = OS_TASK_RUNNING"
  shows "\<exists>s'. call_ptr (\<lambda>p. os_sched_wait_next_period p now) s = (i \<noteq> 0 \<and> kind s = OS_TASK_PERIODIC, s') \<and>
    (i \<noteq> 0 \<and> kind s = OS_TASK_PERIODIC \<longrightarrow> state s' = OS_TASK_WAITING_RELEASE \<and> slot_ok P i s' t \<and>
       next_release_order s' = next_release_order s \<and> gives_up now s s')"
proof -
  obtain s1 where s1: "call_ptr (\<lambda>p. os_sched_complete_job p now) s = (i \<noteq> 0, s1)"
    "i \<noteq> 0 \<longrightarrow> next_release_order s1 = next_release_order s \<and>
       slot_ok P i (s1\<lparr>state := OS_TASK_WAITING_RELEASE\<rparr>) t \<and> gives_up now s (s1\<lparr>state := OS_TASK_WAITING_RELEASE\<rparr>)"
    using complete_record [OF assms, of now OS_TASK_WAITING_RELEASE] by auto
  then show ?thesis
    by (cases "kind s = OS_TASK_PERIODIC"; cases "i = 0") (simp_all add: os_sched_wait_next_period_def)
qed

section \<open>The state after a supervisor call\<close>

definition trapped :: "os_sched_task \<Rightarrow> os_task_id_t \<Rightarrow> kernel \<Rightarrow> kernel" where
  "trapped s y k = k\<lparr>schedules := (schedules k)[unat (current_task k) := s], yield_excluded_task := y,
     pendsv_set := True\<rparr>"

lemma trapped_keeps:
  assumes "kernel_ok P k" and "has_active_context k \<noteq> 0" and "\<not> pendsv_set k"
    and "slot_ok P (unat (current_task k)) s (tcb k (current_task k))"
    and "state s \<noteq> OS_TASK_RUNNING" and "state s \<noteq> OS_TASK_DORMANT"
    and "y = OS_TASK_ID_INVALID \<or> y = current_task k"
  shows "kernel_ok P (trapped s y k)"
proof -
  have slots: "slots_ok P k" and mode: "mode_ok k" and heap: "heap_owned k"
    using assms(1) by (simp_all add: kernel_ok_def)
  have cur: "unat (current_task k) < OS_TASK_COUNT" using mode assms(2) by (simp add: mode_ok_def)
  have len: "length (schedules k) = OS_TASK_COUNT" using slots by (simp add: slots_ok_def)
  have "slots_ok P (trapped s y k)"
    by (rule slots_ok_update [OF slots cur assms(4)]) (simp_all add: trapped_def tcb_def)
  moreover have "heap_owned (trapped s y k)"
    by (rule heap_owned_keep [OF heap]) (use assms(6) len cur in \<open>auto simp: trapped_def nth_list_update\<close>)
  moreover have "mode_ok (trapped s y k)"
    using mode assms(2,3,5,6,7) cur len by (auto simp: mode_ok_def trapped_def sched_def)
  ultimately show ?thesis using assms(1) by (simp add: kernel_ok_def trapped_def)
qed

lemma svc_caller:
  assumes "kernel_ok P k" and "\<not> svc_caller_bad exc k"
  shows "state (sched k (current_task k)) = OS_TASK_RUNNING" "has_active_context k \<noteq> 0"
    "unat (current_task k) < OS_TASK_COUNT"
    "slot_ok P (unat (current_task k)) (sched k (current_task k)) (tcb k (current_task k))"
    "current_task k \<noteq> 0 \<longleftrightarrow> unat (current_task k) \<noteq> 0" "length (schedules k) = OS_TASK_COUNT"
proof -
  have ok: "slots_ok P k" "mode_ok k" using assms(1) by (simp_all add: kernel_ok_def)
  have valid: "current_task k \<noteq> OS_TASK_ID_INVALID" using assms(2) by (simp add: svc_caller_bad_def)
  show active: "has_active_context k \<noteq> 0" using ok(2) valid by (auto simp: mode_ok_def)
  then show cur: "unat (current_task k) < OS_TASK_COUNT" using ok(2) by (simp add: mode_ok_def)
  show "state (sched k (current_task k)) = OS_TASK_RUNNING" using assms(2) by (simp add: svc_caller_bad_def)
  show "slot_ok P (unat (current_task k)) (sched k (current_task k)) (tcb k (current_task k))"
    by (rule slots_okD [OF ok(1) cur])
  show "current_task k \<noteq> 0 \<longleftrightarrow> unat (current_task k) \<noteq> 0" by (simp add: unat_eq_0)
  show "length (schedules k) = OS_TASK_COUNT" using ok(1) by (simp add: slots_ok_def)
qed

text \<open>Each service, when it does not panic, is \<open>trapped\<close> with the record of its operation.\<close>

definition traps_to :: "platform \<Rightarrow> os_task_state \<Rightarrow> kernel \<Rightarrow> kernel \<Rightarrow> bool" where
  "traps_to P st k k' \<longleftrightarrow> (\<exists>s y. quiet k' = quiet (trapped s y k) \<and> state s = st \<and>
     (y = (if st = OS_TASK_READY then current_task k else OS_TASK_ID_INVALID)) \<and>
     slot_ok P (unat (current_task k)) s (tcb k (current_task k)) \<and>
     gives_up (monotonic_ticks k) (sched k (current_task k)) s)"

lemma traps_to_keeps:
  assumes "kernel_ok P k" and "has_active_context k \<noteq> 0" and "\<not> pendsv_set k" and "traps_to P st k k'"
    and "st \<noteq> OS_TASK_RUNNING" and "st \<noteq> OS_TASK_DORMANT"
  shows "kernel_ok P k'" "pendsv_set k'" "has_active_context k' = has_active_context k"
    "current_task k' = current_task k" "state (sched k' (current_task k)) = st"
    "\<And>i. i \<noteq> unat (current_task k) \<Longrightarrow> schedules k' ! i = schedules k ! i" "tasks k' = tasks k"
    "memory_allocator k' = memory_allocator k" "memory_blocks k' = memory_blocks k"
proof -
  from assms(4) obtain s y where s: "quiet k' = quiet (trapped s y k)" "state s = st"
    "y = (if st = OS_TASK_READY then current_task k else OS_TASK_ID_INVALID)"
    "slot_ok P (unat (current_task k)) s (tcb k (current_task k))" unfolding traps_to_def by blast
  have "kernel_ok P (trapped s y k)"
    by (rule trapped_keeps [OF assms(1-3) s(4)]) (use s(2,3) assms(5,6) in auto)
  then show "kernel_ok P k'" using inv_quiet_eq(4) [OF s(1)] by simp
  have "unat (current_task k) < OS_TASK_COUNT" "length (schedules k) = OS_TASK_COUNT"
    using assms(1,2) by (simp_all add: kernel_ok_def mode_ok_def slots_ok_def)
  then show "pendsv_set k'" "has_active_context k' = has_active_context k" "current_task k' = current_task k"
    "state (sched k' (current_task k)) = st" "\<And>i. i \<noteq> unat (current_task k) \<Longrightarrow> schedules k' ! i = schedules k ! i"
    "tasks k' = tasks k" "memory_allocator k' = memory_allocator k" "memory_blocks k' = memory_blocks k"
    using quiet_eqD [OF s(1)] s(2) by (simp_all add: trapped_def sched_def)
qed

lemma svc_yield_effect:
  assumes "kernel_ok P k" and "\<not> svc_caller_bad exc k"
  shows "\<exists>k'. svc_yield exc k = Inr k' \<and> traps_to P OS_TASK_READY k (request_pendsv k')"
proof -
  note c = svc_caller [OF assms]
  let ?s = "(sched k (current_task k))\<lparr>state := OS_TASK_READY\<rparr>"
  have "transition_task (current_task k) OS_TASK_RUNNING OS_TASK_READY ''YIELD_READY'' k =
      Inr (k\<lparr>schedules := (schedules k)[unat (current_task k) := ?s]\<rparr>)"
    using c(1,3) by (intro transition_effect) simp_all
  then obtain k' where "svc_yield exc k = Inr k'" "quiet (request_pendsv k') = quiet (trapped ?s (current_task k) k)"
    using assms(2) by (simp add: svc_yield_def quiet_def trapped_def request_pendsv_def trace_emit_def)
  moreover have "slot_ok P (unat (current_task k)) ?s (tcb k (current_task k))" by (rule slot_ok_ready [OF c(4,1)])
  moreover have "gives_up (monotonic_ticks k) (sched k (current_task k)) ?s" by (simp add: gives_up_def)
  ultimately show ?thesis unfolding traps_to_def
    by (intro exI [of _ k'] conjI exI [of _ ?s] exI [of _ "current_task k"]) simp_all
qed

definition sleep_allowed :: "u32 \<Rightarrow> kernel \<Rightarrow> bool" where
  "sleep_allowed n k \<longleftrightarrow> current_task k \<noteq> 0 \<and> n \<noteq> 0 \<and> n \<le> OS_MAX_SLEEP_TICKS \<and>
     unat (monotonic_ticks k) + unat n < 2 ^ 64"

lemma svc_sleep_effect:
  assumes "kernel_ok P k" and "\<not> svc_caller_bad exc k" and "\<not> pendsv_set k"
  shows "if sleep_allowed n k
    then \<exists>k'. svc_sleep exc n k = Inr k' \<and> traps_to P OS_TASK_SLEEPING k (request_pendsv k') \<and>
      unat (wake_order (sched k' (current_task k))) = unat (monotonic_ticks k) + unat n \<and>
      edf_key_of (sched k' (current_task k)) = edf_key_of (sched k (current_task k))
    else \<forall>k'. svc_sleep exc n k \<noteq> Inr k'"
proof -
  note c = svc_caller [OF assms(1,2)]
  have mode: "yield_excluded_task k = OS_TASK_ID_INVALID"
    using assms(1,3) c(2) by (simp add: kernel_ok_def mode_ok_def)
  obtain s' where s': "call_ptr (\<lambda>p. os_sched_sleep p (monotonic_ticks k) n) (sched k (current_task k)) = (sleep_allowed n k, s')"
    "sleep_allowed n k \<longrightarrow> slot_ok P (unat (current_task k)) s' (tcb k (current_task k)) \<and> state s' = OS_TASK_SLEEPING \<and>
       unat (wake_order s') = unat (monotonic_ticks k) + unat n \<and> edf_key_of s' = edf_key_of (sched k (current_task k)) \<and>
       gives_up (monotonic_ticks k) (sched k (current_task k)) s'"
    using sleep_record [OF c(4,1), of "monotonic_ticks k" n] by (auto simp: sleep_allowed_def c(5))
  let ?k1 = "k\<lparr>schedules := (schedules k)[unat (current_task k) := s']\<rparr>"
  have call: "sched_call (\<lambda>p. os_sched_sleep p (monotonic_ticks k) n) (current_task k) k = (sleep_allowed n k, ?k1)"
    by (simp add: sched_call_def s'(1))
  show ?thesis
  proof (cases "sleep_allowed n k")
    case False
    then show ?thesis by (simp add: svc_sleep_def call)
  next
    case True
    then have guard: "\<not> (svc_caller_bad exc k \<or> n = 0 \<or> n > OS_MAX_SLEEP_TICKS)"
      using assms(2) by (simp add: sleep_allowed_def not_less)
    then obtain k' where k': "svc_sleep exc n k = Inr k'" "quiet k' = quiet ?k1"
      using True by (simp add: svc_sleep_def call Let_def)
    have "yield_excluded_task k = OS_TASK_ID_INVALID \<Longrightarrow> quiet (request_pendsv k') = quiet (trapped s' OS_TASK_ID_INVALID k)"
      by (rule quiet_eqE [OF k'(2)]) (simp add: quiet_def trapped_def request_pendsv_def)
    then have "traps_to P OS_TASK_SLEEPING k (request_pendsv k')"
      unfolding traps_to_def using mode s'(2) True by (intro exI [of _ s'] exI [of _ OS_TASK_ID_INVALID]) simp
    moreover have "sched k' (current_task k) = s'"
      using quiet_eqD(2) [OF k'(2)] c(3,6) by (simp add: sched_def)
    ultimately show ?thesis using True k'(1) s'(2) by auto
  qed
qed

lemma svc_exit_effect:
  assumes "kernel_ok P k" and "\<not> svc_caller_bad exc k" and "\<not> pendsv_set k" and "current_task k \<noteq> 0"
  shows "\<exists>k'. svc_exit exc k = Inr k' \<and> traps_to P OS_TASK_EXITING k (request_pendsv k')"
proof -
  note c = svc_caller [OF assms(1,2)]
  have mode: "yield_excluded_task k = OS_TASK_ID_INVALID"
    using assms(1,3) c(2) by (simp add: kernel_ok_def mode_ok_def)
  obtain s1 where s1: "call_ptr (\<lambda>p. os_sched_complete_job p (monotonic_ticks k)) (sched k (current_task k)) = (True, s1)"
    "state s1 = OS_TASK_RUNNING" "slot_ok P (unat (current_task k)) (s1\<lparr>state := OS_TASK_EXITING\<rparr>) (tcb k (current_task k)) \<and>
      gives_up (monotonic_ticks k) (sched k (current_task k)) (s1\<lparr>state := OS_TASK_EXITING\<rparr>)"
    using complete_record [OF c(4,1), of "monotonic_ticks k" OS_TASK_EXITING] assms(4) c(5) by auto
  let ?k1 = "k\<lparr>schedules := (schedules k)[unat (current_task k) := s1]\<rparr>"
  have call: "sched_call (\<lambda>p. os_sched_complete_job p (monotonic_ticks k)) (current_task k) k = (True, ?k1)"
    by (simp add: sched_call_def s1(1))
  define m where "m = deadline_miss_latched (sched k (current_task k))"
  define k2 where "k2 = trace_completion m (current_task k) ?k1"
  have k2: "quiet k2 = quiet ?k1" by (simp add: k2_def)
  have sk2: "sched k2 (current_task k) = s1" "schedules k2 = (schedules k)[unat (current_task k) := s1]"
    using quiet_eqD(2) [OF k2] c(3,6) by (simp_all add: sched_def)
  let ?s = "s1\<lparr>state := OS_TASK_EXITING\<rparr>"
  have trans: "transition_task (current_task k) OS_TASK_RUNNING OS_TASK_EXITING ''TASK_EXIT'' k2 =
      Inr (k2\<lparr>schedules := (schedules k)[unat (current_task k) := ?s]\<rparr>)"
    using transition_effect [OF c(3), of k2 OS_TASK_RUNNING OS_TASK_EXITING] s1(2) by (simp add: sk2)
  obtain k' where k': "svc_exit exc k = Inr k'" "quiet k' = quiet (k2\<lparr>schedules := (schedules k)[unat (current_task k) := ?s]\<rparr>)"
    using assms(2,4) trans by (simp add: svc_exit_def call Let_def m_def [symmetric] k2_def [symmetric])
  have "quiet k' = quiet (k\<lparr>schedules := (schedules k)[unat (current_task k) := ?s]\<rparr>)"
    unfolding k'(2) by (rule quiet_eqE [OF k2]) (simp add: quiet_def)
  then have "quiet (request_pendsv k') = quiet (trapped ?s OS_TASK_ID_INVALID k)"
    by (rule quiet_eqE) (simp add: quiet_def trapped_def request_pendsv_def mode)
  then have "traps_to P OS_TASK_EXITING k (request_pendsv k')"
    unfolding traps_to_def using s1(3) by (intro exI [of _ ?s] exI [of _ OS_TASK_ID_INVALID]) simp
  with k'(1) show ?thesis by blast
qed

lemma svc_wait_effect:
  assumes "kernel_ok P k" and "\<not> svc_caller_bad exc k" and "\<not> pendsv_set k" and "current_task k \<noteq> 0"
  shows "if kind (sched k (current_task k)) = OS_TASK_PERIODIC
    then \<exists>k'. svc_wait_next_period exc k = Inr k' \<and> traps_to P OS_TASK_WAITING_RELEASE k (request_pendsv k')
    else \<forall>k'. svc_wait_next_period exc k \<noteq> Inr k'"
proof -
  note c = svc_caller [OF assms(1,2)]
  have mode: "yield_excluded_task k = OS_TASK_ID_INVALID"
    using assms(1,3) c(2) by (simp add: kernel_ok_def mode_ok_def)
  let ?per = "kind (sched k (current_task k)) = OS_TASK_PERIODIC"
  obtain s' where s': "call_ptr (\<lambda>p. os_sched_wait_next_period p (monotonic_ticks k)) (sched k (current_task k)) = (?per, s')"
    "?per \<longrightarrow> state s' = OS_TASK_WAITING_RELEASE \<and> slot_ok P (unat (current_task k)) s' (tcb k (current_task k)) \<and>
       gives_up (monotonic_ticks k) (sched k (current_task k)) s'"
    using wait_record [OF c(4,1), of "monotonic_ticks k"] assms(4) c(5) by auto
  let ?k1 = "k\<lparr>schedules := (schedules k)[unat (current_task k) := s']\<rparr>"
  have call: "sched_call (\<lambda>p. os_sched_wait_next_period p (monotonic_ticks k)) (current_task k) k = (?per, ?k1)"
    by (simp add: sched_call_def s'(1))
  show ?thesis
  proof (cases ?per)
    case False
    then show ?thesis using assms(2,4) by (simp add: svc_wait_next_period_def call)
  next
    case True
    then obtain k' where k': "svc_wait_next_period exc k = Inr k'" "quiet k' = quiet ?k1"
      using assms(2,4) by (simp add: svc_wait_next_period_def call Let_def)
    have "quiet (request_pendsv k') = quiet (trapped s' OS_TASK_ID_INVALID k)"
      by (rule quiet_eqE [OF k'(2)]) (simp add: quiet_def trapped_def request_pendsv_def mode)
    then have "traps_to P OS_TASK_WAITING_RELEASE k (request_pendsv k')"
      unfolding traps_to_def using s'(2) True by (intro exI [of _ s'] exI [of _ OS_TASK_ID_INVALID]) simp
    with True k'(1) show ?thesis by auto
  qed
qed

section \<open>Dispatching a service\<close>

lemma on_ok_InrE:
  assumes "on_ok r f = Inr y"
  obtains x where "r = Inr x" "f x = Inr y"
  using assms by (auto simp: on_ok_eq_Inr)

lemma svc_start_keeps:
  assumes "kernel_ok P k" and "running k" and "svc_start exc k = Inr k'"
  shows "kernel_ok P (request_pendsv k')" "has_active_context k = 0" "k' = k"
proof -
  show k': "k' = k" and active: "has_active_context k = 0"
    using assms(3) by (auto simp: svc_start_def split: if_splits)
  show "kernel_ok P (request_pendsv k')"
    using assms(1,2) active unfolding k' by (simp add: kernel_inv_defs request_pendsv_def)
qed

text \<open>What a dispatched service is: the start of the kernel or one of the four traps.\<close>

lemma svc_dispatch_cases:
  assumes "kernel_ok P k" and "\<not> pendsv_set k" and "running k" and "os_svc_dispatch P frame exc k = Inr k'"
  obtains (start) "has_active_context k = 0" "k' = request_pendsv k" "kernel_ok P k'"
  | (trap) st where "has_active_context k \<noteq> 0" "traps_to P st k k'" "state (sched k (current_task k)) = OS_TASK_RUNNING"
      "st = OS_TASK_READY \<or> (st = OS_TASK_SLEEPING \<or> st = OS_TASK_EXITING \<or> st = OS_TASK_WAITING_RELEASE) \<and> current_task k \<noteq> 0"
proof -
  from assms(4) obtain service where service: "decode_svc P frame exc k = Inr service"
    unfolding os_svc_dispatch_def by (rule on_ok_InrE)
  note run = assms(4) [unfolded os_svc_dispatch_def service on_ok_simps]
  have trap_from: thesis
    if "\<not> svc_caller_bad exc k" "traps_to P st k k'"
      "st = OS_TASK_READY \<or> (st = OS_TASK_SLEEPING \<or> st = OS_TASK_EXITING \<or> st = OS_TASK_WAITING_RELEASE) \<and> current_task k \<noteq> 0" for st
    using svc_caller(1,2) [OF assms(1) that(1)] that(2,3) trap by blast
  consider "service = OS_SVC_START" | "service = OS_SVC_YIELD" | "service = OS_SVC_SLEEP"
    | "service = OS_SVC_EXIT" | "service = OS_SVC_WAIT_NEXT_PERIOD"
    using run by (auto split: if_splits)
  then show thesis
  proof cases
    case 1
    then obtain k1 where "svc_start exc k = Inr k1" "k' = request_pendsv k1"
      using run by (auto elim: on_ok_InrE)
    with svc_start_keeps [OF assms(1,3)] start show ?thesis by blast
  next
    case 2
    then obtain k1 where k1: "svc_yield exc k = Inr k1" "k' = request_pendsv k1"
      using run by (auto elim: on_ok_InrE)
    then have "\<not> svc_caller_bad exc k" by (auto simp: svc_yield_def)
    with svc_yield_effect [OF assms(1) this] k1 trap_from show ?thesis by auto
  next
    case 3
    then obtain k1 where k1: "svc_sleep exc (ram k frame) k = Inr k1" "k' = request_pendsv k1"
      using run by (auto elim: on_ok_InrE)
    then have ok: "\<not> svc_caller_bad exc k" by (auto simp: svc_sleep_def)
    from svc_sleep_effect [OF assms(1) this assms(2), of "ram k frame"] k1 have "sleep_allowed (ram k frame) k"
      by (auto split: if_splits)
    with svc_sleep_effect [OF assms(1) ok assms(2), of "ram k frame"] k1 trap_from [OF ok] show ?thesis
      by (auto simp: sleep_allowed_def)
  next
    case 4
    then obtain k1 where k1: "svc_exit exc k = Inr k1" "k' = request_pendsv k1"
      using run by (auto elim: on_ok_InrE)
    then have ok: "\<not> svc_caller_bad exc k" "current_task k \<noteq> 0" by (auto simp: svc_exit_def)
    from svc_exit_effect [OF assms(1) ok(1) assms(2) ok(2)] k1 trap_from [OF ok(1)] ok(2) show ?thesis by auto
  next
    case 5
    then obtain k1 where k1: "svc_wait_next_period exc k = Inr k1" "k' = request_pendsv k1"
      using run by (auto elim: on_ok_InrE)
    then have ok: "\<not> svc_caller_bad exc k" "current_task k \<noteq> 0" by (auto simp: svc_wait_next_period_def)
    from svc_wait_effect [OF assms(1) ok(1) assms(2) ok(2)] k1 trap_from [OF ok(1)] ok(2) show ?thesis
      by (auto split: if_splits)
  qed
qed

lemma svc_dispatch_keeps:
  assumes "kernel_ok P k" and "\<not> pendsv_set k" and "running k" and "os_svc_dispatch P frame exc k = Inr k'"
  shows "kernel_ok P k'"
  using assms
proof (cases rule: svc_dispatch_cases [OF assms, case_names start trap])
  case (trap st)
  then show ?thesis using traps_to_keeps(1) [OF assms(1) trap(1) assms(2) trap(2)] by auto
qed

section \<open>Memory calls\<close>

definition heap_of :: "kernel \<Rightarrow> heap_state" where
  "heap_of k = (memory_allocator k, memory_blocks k)"

definition with_heap :: "heap_state \<Rightarrow> kernel \<Rightarrow> kernel" where
  "with_heap s k = k\<lparr>memory_allocator := fst s, memory_blocks := snd s\<rparr>"

definition heap_caller :: "kernel \<Rightarrow> bool" where
  "heap_caller k \<longleftrightarrow> ipsr k = 0 \<and> caller_is_running_task k \<and> current_task k \<noteq> OS_TASK_ID_IDLE"

lemma os_memory_alloc_effect:
  "if heap_caller k then \<exists>p k'. os_memory_alloc P sz k = Inr (p, k') \<and>
      p = (case fst (acquire_block sz (ucast (current_task k)) (heap_of k)) of None \<Rightarrow> 0 | Some q \<Rightarrow> q) \<and>
      heap_of k' = snd (acquire_block sz (ucast (current_task k)) (heap_of k)) \<and>
      quiet k' = quiet (with_heap (heap_of k') k)
   else os_memory_alloc P sz k = Inr (0, k)"
proof (cases "heap_caller k")
  case False
  then show ?thesis by (auto simp: heap_caller_def os_memory_alloc_def)
next
  case True
  obtain p al H where run: "os_allocator_alloc (Some (memory_allocator k)) (memory_blocks k) sz (ucast (current_task k)) = Some (p, al, H)"
    using alloc_returns [of "Some (memory_allocator k)" "memory_blocks k" sz "ucast (current_task k)"] by auto
  have "al \<noteq> None"
    using run by (auto simp: os_allocator_alloc_def Let_def case_prod_beta split: if_splits option.splits)
  then obtain a where al: "al = Some a" by blast
  have same: "caller_is_running_task (k\<lparr>primask := 1\<rparr>) = caller_is_running_task k" "sched (k\<lparr>primask := 1\<rparr>) = sched k"
    by (simp_all add: caller_is_running_task_def sched_def fun_eq_iff)
  obtain k' where "os_memory_alloc P sz k = Inr (p, k')" "quiet k' = quiet (with_heap (a, H) k)" "heap_of k' = (a, H)"
    using True run al
    by (simp add: os_memory_alloc_def heap_caller_def masked_def same returned_def set_heap_def with_heap_def quiet_def
        trace_emit_def heap_of_def)
  moreover have "acquire_block sz (ucast (current_task k)) (heap_of k) = (if p = 0 then None else Some p, (a, H))"
    using run al by (simp add: acquire_block_def heap_of_def)
  ultimately show ?thesis using True by simp
qed

lemma os_memory_free_effect:
  "if heap_caller k then \<exists>r k'. os_memory_free P ptr k = Inr (r, k') \<and>
      r = fst (give_back_block ptr (ucast (current_task k)) (heap_of k)) \<and>
      heap_of k' = snd (give_back_block ptr (ucast (current_task k)) (heap_of k)) \<and>
      quiet k' = quiet (with_heap (heap_of k') k)
   else os_memory_free P ptr k = Inr (False, k)"
proof (cases "heap_caller k")
  case False
  then show ?thesis by (auto simp: heap_caller_def os_memory_free_def)
next
  case True
  obtain r al H where run: "os_allocator_free (Some (memory_allocator k)) (memory_blocks k) ptr (ucast (current_task k)) = Some (r, al, H)"
    using free_returns [of "Some (memory_allocator k)" "memory_blocks k" ptr "ucast (current_task k)"] by auto
  have "al \<noteq> None"
    using run by (auto simp: os_allocator_free_def Let_def case_prod_beta split: if_splits option.splits)
  then obtain a where al: "al = Some a" by blast
  have same: "caller_is_running_task (k\<lparr>primask := 1\<rparr>) = caller_is_running_task k"
    by (simp add: caller_is_running_task_def sched_def)
  obtain k' where "os_memory_free P ptr k = Inr (r, k')" "quiet k' = quiet (with_heap (a, H) k)" "heap_of k' = (a, H)"
    using True run al
    by (simp add: os_memory_free_def heap_caller_def masked_def same returned_def set_heap_def with_heap_def quiet_def
        trace_emit_def heap_of_def Let_def)
  moreover have "give_back_block ptr (ucast (current_task k)) (heap_of k) = (r, (a, H))"
    using run al by (simp add: give_back_block_def heap_of_def)
  ultimately show ?thesis using True by simp
qed

lemma heap_owned_payloads:
  "heap_owned k \<longleftrightarrow> state_ok (heap_of k) \<and> (\<forall>(p, c, owner) \<in> set (payloads (heap_of k)).
     \<exists>i < OS_TASK_COUNT. i \<noteq> 0 \<and> owner = of_nat i \<and> state (schedules k ! i) \<noteq> OS_TASK_DORMANT)"
  by (simp add: heap_owned_def state_ok_def heap_of_def payloads_def case_prod_beta)

lemma with_heap_keeps:
  assumes "kernel_ok P k" and "state_ok s"
    and "\<And>p c owner. (p, c, owner) \<in> set (payloads s) \<Longrightarrow>
      (p, c, owner) \<in> set (payloads (heap_of k)) \<or> owner = ucast (current_task k)"
    and "heap_caller k"
  shows "kernel_ok P (with_heap s k)"
proof -
  have cur: "unat (current_task k) < OS_TASK_COUNT" "unat (current_task k) \<noteq> 0"
    "state (schedules k ! unat (current_task k)) \<noteq> OS_TASK_DORMANT"
    using assms(4) by (auto simp: heap_caller_def caller_is_running_task_def sched_def unat_eq_0)
  have "heap_of (with_heap s k) = s" by (simp add: heap_of_def with_heap_def)
  moreover have "\<exists>i < OS_TASK_COUNT. i \<noteq> 0 \<and> owner = of_nat i \<and> state (schedules k ! i) \<noteq> OS_TASK_DORMANT"
    if mem: "(p, c, owner) \<in> set (payloads s)" for p c owner
  proof (cases "owner = ucast (current_task k)")
    case True
    then show ?thesis
      using cur owner_id_eq [OF cur(1) cur(1)] by (intro exI [of _ "unat (current_task k)"]) simp
  next
    case False
    with assms(3) [OF mem] have "(p, c, owner) \<in> set (payloads (heap_of k))" by blast
    moreover have "heap_owned k" using assms(1) by (simp add: kernel_ok_def)
    ultimately show ?thesis unfolding heap_owned_payloads by blast
  qed
  ultimately have "heap_owned (with_heap s k)"
    using assms(2) unfolding heap_owned_payloads by (auto simp: with_heap_def)
  moreover have "mode_ok (with_heap s k) = mode_ok k" "slots_ok P (with_heap s k) = slots_ok P k"
    by (rule mode_ok_cong slots_ok_cong; simp add: with_heap_def)+
  ultimately show ?thesis using assms(1) by (simp add: kernel_ok_def with_heap_def)
qed

lemma os_memory_alloc_keeps:
  assumes "kernel_ok P k" and "os_memory_alloc P sz k = Inr (p, k')"
  shows "kernel_ok P k'" "quiet k' = quiet (with_heap (heap_of k') k)"
proof -
  let ?x = "ucast (current_task k) :: os_memory_owner_t"
  have "kernel_ok P k' \<and> quiet k' = quiet (with_heap (heap_of k') k)"
  proof (cases "heap_caller k")
    case False
    then have "k' = k" using os_memory_alloc_effect [of k P sz] assms(2) by simp
    then show ?thesis using assms(1) by (simp add: with_heap_def heap_of_def)
  next
    case True
    let ?r = "acquire_block sz ?x (heap_of k)"
    have h: "heap_of k' = snd ?r" "quiet k' = quiet (with_heap (heap_of k') k)"
      using os_memory_alloc_effect [of k P sz] assms(2) True by auto
    have ok: "state_ok (heap_of k)" using assms(1) by (simp add: kernel_ok_def heap_owned_payloads)
    have "kernel_ok P (with_heap (heap_of k') k)"
    proof (rule with_heap_keeps [OF assms(1) _ _ True])
      show "state_ok (heap_of k')" unfolding h(1) by (rule heap.acquire_invar [OF ok])
      fix q c owner assume mem: "(q, c, owner) \<in> set (payloads (heap_of k'))"
      show "(q, c, owner) \<in> set (payloads (heap_of k)) \<or> owner = ?x"
      proof (cases "fst ?r")
        case None
        with heap.acquire_none [OF ok None] mem h(1) show ?thesis by simp
      next
        case (Some p')
        with heap.acquire_some [OF ok Some] mem h(1) show ?thesis by auto
      qed
    qed
    then show ?thesis using h(2) inv_quiet_eq(4) [OF h(2)] by simp
  qed
  then show "kernel_ok P k'" "quiet k' = quiet (with_heap (heap_of k') k)" by simp_all
qed

lemma os_memory_free_keeps:
  assumes "kernel_ok P k" and "os_memory_free P ptr k = Inr (r, k')"
  shows "kernel_ok P k'" "quiet k' = quiet (with_heap (heap_of k') k)"
proof -
  let ?x = "ucast (current_task k) :: os_memory_owner_t"
  have "kernel_ok P k' \<and> quiet k' = quiet (with_heap (heap_of k') k)"
  proof (cases "heap_caller k")
    case False
    then have "k' = k" using os_memory_free_effect [of k P ptr] assms(2) by simp
    then show ?thesis using assms(1) by (simp add: with_heap_def heap_of_def)
  next
    case True
    let ?r = "give_back_block ptr ?x (heap_of k)"
    have h: "heap_of k' = snd ?r" "quiet k' = quiet (with_heap (heap_of k') k)"
      using os_memory_free_effect [of k P ptr] assms(2) True by auto
    have ok: "state_ok (heap_of k)" using assms(1) by (simp add: kernel_ok_def heap_owned_payloads)
    have "kernel_ok P (with_heap (heap_of k') k)"
    proof (rule with_heap_keeps [OF assms(1) _ _ True])
      show "state_ok (heap_of k')" unfolding h(1) by (rule heap.give_back_invar [OF ok])
      fix q c owner assume "(q, c, owner) \<in> set (payloads (heap_of k'))"
      then show "(q, c, owner) \<in> set (payloads (heap_of k)) \<or> owner = ?x"
        unfolding h(1) heap.give_back_owned [OF ok] by (auto split: if_splits)
    qed
    then show ?thesis using h(2) inv_quiet_eq(4) [OF h(2)] by simp
  qed
  then show "kernel_ok P k'" "quiet k' = quiet (with_heap (heap_of k') k)" by simp_all
qed

end
