(* ===== verification/Kernel_Steps.thy ===== *)
theory Kernel_Steps
  imports Kernel_Boot Kernel_Calls
begin

text \<open>
  The two exception handlers of \<open>arch/arm_cm4/context_switch.S\<close> and the steps of the running
  system. Interrupts are taken between the operations of the kernel, which run with interrupts
  masked or inside a handler; between them the running task, or the start-up code before there
  is one, changes its registers and any memory but the stacks of the other tasks and the data of
  the kernel.
\<close>

section \<open>The exception handlers\<close>

text \<open>Bit 2 of the exception return value selects the stack that holds the exception frame.\<close>

definition SVC_Handler :: "platform \<Rightarrow> u32 \<Rightarrow> kernel \<Rightarrow> kernel outcome" where
  "SVC_Handler P lr k = os_svc_dispatch P (if lr AND 4 = 0 then msp k else psp k) lr k"

text \<open>The store and the load of \<open>{r4-r11}\<close>, lowest register at the lowest address.\<close>

definition store_registers :: "u32 \<Rightarrow> u32 list \<Rightarrow> (u32 \<Rightarrow> u32) \<Rightarrow> u32 \<Rightarrow> u32" where
  "store_registers at rs m = fold (\<lambda>i m. m(at + 4 * of_nat i := rs ! i)) [0..<8] m"

definition load_registers :: "u32 \<Rightarrow> (u32 \<Rightarrow> u32) \<Rightarrow> u32 list" where
  "load_registers at m = map (\<lambda>i. m (at + 4 * of_nat i)) [0..<8]"

text \<open>The registers \<open>r4\<close> to \<open>r11\<close> and the kernel; the handler runs with interrupts masked.\<close>

type_synonym cpu = "u32 list \<times> kernel"

definition PendSV_Handler :: "cpu \<Rightarrow> cpu outcome" where
  "PendSV_Handler c = (let (rs, k) = c;
       active = has_active_context k \<noteq> 0;
       r0 = (if active then psp k - 32 else 0);
       k0 = k\<lparr>primask := 1, ram := (if active then store_registers r0 rs (ram k) else ram k)\<rparr>
     in on_ok (os_pendsv_switch r0 k0) (\<lambda>(r0', k1).
       if r0' = 0 then os_kernel_panic ''ARCH_PSP''
       else Inr (load_registers r0' (ram k1),
                 k1\<lparr>psp := r0' + 32, control := CONTROL_SPSEL_Msk, primask := primask k\<rparr>)))"

section \<open>The steps of the system\<close>

text \<open>The task on the processor has not run over its stack.\<close>

definition stack_in_bounds :: "kernel \<Rightarrow> bool" where
  "stack_in_bounds k \<longleftrightarrow> has_active_context k \<noteq> 0 \<longrightarrow> psp_ok (tcb k (current_task k)) (psp k - 32)"

inductive kernel_step :: "platform \<Rightarrow> cpu \<Rightarrow> cpu \<Rightarrow> bool" for P where
  create: "\<not> pendsv_set k \<Longrightarrow> os_task_create P config created k = Inr (r, k') \<Longrightarrow>
     kernel_step P (rs, k) (rs, k')"
| start: "os_kernel_start k = Inr (service, k') \<Longrightarrow> kernel_step P (rs, k) (rs, k')"
| svc: "\<not> pendsv_set k \<Longrightarrow> running k \<Longrightarrow> SVC_Handler P lr k = Inr k' \<Longrightarrow> kernel_step P (rs, k) (rs, k')"
| switch: "pendsv_set k \<Longrightarrow> stack_in_bounds k \<Longrightarrow>
     PendSV_Handler (rs, k\<lparr>pendsv_set := False\<rparr>) = Inr (rs', k') \<Longrightarrow> kernel_step P (rs, k) (rs', k')"
| tick: "tick_range k \<Longrightarrow> os_kernel_tick k = Inr k' \<Longrightarrow> kernel_step P (rs, k) (rs, k')"
| alloc: "\<not> pendsv_set k \<Longrightarrow> os_memory_alloc P sz k = Inr (p, k') \<Longrightarrow> kernel_step P (rs, k) (rs, k')"
| free: "\<not> pendsv_set k \<Longrightarrow> os_memory_free P p k = Inr (r, k') \<Longrightarrow> kernel_step P (rs, k) (rs, k')"
| task: "has_active_context k \<noteq> 0 \<Longrightarrow>
     (\<And>i a. i < OS_TASK_COUNT \<Longrightarrow> i \<noteq> unat (current_task k) \<Longrightarrow> stack_area P i a \<Longrightarrow> m a = ram k a) \<Longrightarrow>
     kernel_step P (rs, k) (rs', k\<lparr>ram := m, psp := p, ipsr := exception\<rparr>)"
| main: "has_active_context k = 0 \<Longrightarrow>
     (\<And>i a. i < OS_TASK_COUNT \<Longrightarrow> stack_area P i a \<Longrightarrow> m a = ram k a) \<Longrightarrow>
     kernel_step P (rs, k) (rs', k\<lparr>ram := m, msp := p, ipsr := exception\<rparr>)"

inductive kernel_run :: "platform \<Rightarrow> cpu \<Rightarrow> cpu \<Rightarrow> bool" for P where
  stop: "kernel_run P c c"
| more: "kernel_run P c c' \<Longrightarrow> kernel_step P c' c'' \<Longrightarrow> kernel_run P c c''"

text \<open>The states that the system reaches from the zeroed statics after a reset.\<close>

definition power_on :: "kernel \<Rightarrow> bool" where
  "power_on k \<longleftrightarrow> \<not> kernel_initialized k \<and> \<not> running k \<and> \<not> pendsv_set k \<and>
     length (tasks k) = OS_TASK_COUNT \<and> length (schedules k) = OS_TASK_COUNT"

inductive reachable :: "platform \<Rightarrow> cpu \<Rightarrow> bool" for P where
  boot: "power_on k \<Longrightarrow> os_kernel_init P k = Inr (True, k') \<Longrightarrow> reachable P (rs, k')"
| step: "reachable P c \<Longrightarrow> kernel_step P c c' \<Longrightarrow> reachable P c'"

lemma registers_ok [simp]:
  "kernel_ok P (k\<lparr>psp := p, control := c\<rparr>) = kernel_ok P k"
  "kernel_ok P (k\<lparr>ram := mem, psp := p, ipsr := x\<rparr>) = kernel_ok P k"
  "kernel_ok P (k\<lparr>ram := mem, msp := p, ipsr := x\<rparr>) = kernel_ok P k"
  by (simp_all add: kernel_inv_defs sched_def)

section \<open>The switch, as the handler makes it\<close>

definition stacked :: "u32 list \<Rightarrow> kernel \<Rightarrow> kernel" where
  "stacked rs k = k\<lparr>pendsv_set := False, primask := 1,
     ram := (if has_active_context k \<noteq> 0 then store_registers (psp k - 32) rs (ram k) else ram k)\<rparr>"

lemma stacked_ready:
  assumes "kernel_ok P k" and "pendsv_set k" and "stack_in_bounds k"
  shows "switch_ready P (if has_active_context k \<noteq> 0 then psp k - 32 else 0) (stacked rs k)"
proof -
  have "mode_ok ((stacked rs k)\<lparr>pendsv_set := True\<rparr>) = mode_ok k"
    by (rule mode_ok_cong) (simp_all add: stacked_def assms(2))
  moreover have "slots_ok P (stacked rs k) = slots_ok P k" by (rule slots_ok_cong) (simp_all add: stacked_def)
  moreover have "heap_owned (stacked rs k) = heap_owned k" by (simp add: heap_owned_def stacked_def)
  moreover have "tcb (stacked rs k) = tcb k" by (simp add: tcb_def fun_eq_iff stacked_def)
  moreover have "running k" using assms(1,2) by (auto simp: kernel_ok_def mode_ok_def split: if_splits)
  ultimately show ?thesis
    using assms(1,3) by (simp add: switch_ready_def kernel_ok_def stack_in_bounds_def) (simp add: stacked_def)
qed

text \<open>What the handler does to a state that satisfies the invariant and has a request pending.\<close>

lemma handler_effect:
  fixes rs
  assumes "kernel_ok P k" and "pendsv_set k" and "stack_in_bounds k"
  defines "k0 \<equiv> saved (if has_active_context k \<noteq> 0 then psp k - 32 else 0) (stacked rs k)"
  obtains k' k2 nx where
    "PendSV_Handler (rs, k\<lparr>pendsv_set := False\<rparr>) = Inr (load_registers (saved_psp (tcb k' nx)) (ram k'), k')"
    "retires k0 k2" "slots_ok P k2" "heap_owned k2" "all_off_cpu k2"
    "unat nx < OS_TASK_COUNT" "state (sched k2 nx) = OS_TASK_READY"
    "dispatch_choice (schedules k2) (yield_excluded_task k) nx"
    "quiet k' = quiet ((dispatched nx k2)\<lparr>psp := saved_psp (tcb k' nx) + 32, control := CONTROL_SPSEL_Msk,
       primask := primask k\<rparr>)" "kernel_ok P k'"
proof -
  let ?p = "if has_active_context k \<noteq> 0 then psp k - 32 else 0"
  obtain k1 k2 nx where sw: "os_pendsv_switch ?p (stacked rs k) = Inr (saved_psp (tcb k1 nx), k1)"
    "retires k0 k2" "slots_ok P k2" "heap_owned k2" "all_off_cpu k2" "unat nx < OS_TASK_COUNT"
    "state (sched k2 nx) = OS_TASK_READY" "dispatch_choice (schedules k2) (yield_excluded_task (stacked rs k)) nx"
    "quiet k1 = quiet (dispatched nx k2)"
    using switch_effect [OF stacked_ready [OF assms(1-3)]] unfolding k0_def by blast
  note same2 = retires_same [OF sw(2), unfolded k0_def saved_same]
  have "running k2" "kernel_initialized k2"
    using stacked_ready [OF assms(1-3), of rs] by (simp_all add: same2 switch_ready_def)
  from dispatched_ok [OF sw(3-7) this] have ok: "kernel_ok P (dispatched nx k2)" .
  then have slot: "slot_ok P (unat nx) (sched k1 nx) (tcb k1 nx)"
    using slots_okD [of P k1 nx] sw(6) inv_quiet_eq(1) [OF sw(9), of P] by (simp add: kernel_ok_def)
  have "state (sched k1 nx) = OS_TASK_RUNNING"
    using quiet_eqD(2) [OF sw(9)] sw(3,6) by (simp add: dispatched_def sched_def slots_ok_def)
  with slot have "psp_ok (tcb k1 nx) (saved_psp (tcb k1 nx))" "stack_low (tcb k1 nx) \<noteq> 0"
    by (simp_all add: slot_ok_def stack_region_def)
  then have nz: "saved_psp (tcb k1 nx) \<noteq> 0" by (auto simp: psp_ok_def unat_eq_0)
  define k' where "k' = k1\<lparr>psp := saved_psp (tcb k1 nx) + 32, control := CONTROL_SPSEL_Msk, primask := primask k\<rparr>"
  have tcb': "tcb k' = tcb k1" by (simp add: k'_def tcb_def fun_eq_iff)
  show thesis
  proof (rule that [of k' nx k2])
    have "stacked rs k = (k\<lparr>pendsv_set := False\<rparr>)\<lparr>primask := 1, ram := (if has_active_context k \<noteq> 0
        then store_registers (psp k - 32) rs (ram k) else ram k)\<rparr>" by (simp add: stacked_def)
    with sw(1) nz show "PendSV_Handler (rs, k\<lparr>pendsv_set := False\<rparr>) =
        Inr (load_registers (saved_psp (tcb k' nx)) (ram k'), k')"
      unfolding tcb' by (cases "has_active_context k = 0") (simp_all add: PendSV_Handler_def Let_def k'_def)
    show "quiet k' = quiet ((dispatched nx k2)\<lparr>psp := saved_psp (tcb k' nx) + 32,
        control := CONTROL_SPSEL_Msk, primask := primask k\<rparr>)"
      unfolding tcb' by (rule quiet_eqE [OF sw(9)]) (simp add: k'_def quiet_def)
    then have "kernel_ok P k' = kernel_ok P ((dispatched nx k2)\<lparr>psp := saved_psp (tcb k' nx) + 32,
        control := CONTROL_SPSEL_Msk, primask := primask k\<rparr>)" by (rule inv_quiet_eq(4))
    also have "\<dots>" using ok by simp
    finally show "kernel_ok P k'" .
    show "dispatch_choice (schedules k2) (yield_excluded_task k) nx" using sw(8) by (simp add: stacked_def)
  qed (fact sw)+
qed

section \<open>The invariant holds in every reachable state\<close>

lemma start_keeps:
  assumes "kernel_ok P k" and "os_kernel_start k = Inr (service, k')"
  shows "kernel_ok P k'" "quiet k' = quiet (k\<lparr>running := True\<rparr>)"
proof -
  have run: "\<not> running k" and k': "quiet k' = quiet (k\<lparr>running := True\<rparr>)"
    using assms(2) by (auto simp: os_kernel_start_def quiet_def trace_emit_def split: if_splits)
  show "quiet k' = quiet (k\<lparr>running := True\<rparr>)" by (rule k')
  have "kernel_ok P (k\<lparr>running := True\<rparr>)"
    using assms(1) run by (auto simp: kernel_inv_defs sched_def split: if_splits)
  then show "kernel_ok P k'" using inv_quiet_eq(4) [OF k'] by simp
qed

lemma tick_keeps:
  assumes "kernel_ok P k" and "tick_range k" and "os_kernel_tick k = Inr k'"
  shows "kernel_ok P k'"
proof (cases "running k")
  case True
  with tick_effect [OF assms(1) _ assms(2)] assms(3) show ?thesis by auto
next
  case False
  with assms show ?thesis by (simp add: os_kernel_tick_def)
qed

lemma kernel_step_keeps:
  assumes "kernel_step P c c'" and "platform_ok P" and "kernel_ok P (snd c)"
  shows "kernel_ok P (snd c')"
  using assms
proof (induction rule: kernel_step.induct)
  case (create k config created r k' rs)
  from create_keeps [of P k config created] create show ?case by auto
next
  case (start k service k' rs)
  then show ?case using start_keeps(1) by auto
next
  case (svc k lr k' rs)
  then show ?case using svc_dispatch_keeps by (auto simp: SVC_Handler_def)
next
  case (switch k rs rs' k')
  then have ok: "kernel_ok P k" by simp
  show ?case
    by (rule handler_effect [OF ok switch(1,2), of rs]) (use switch(3) in simp)
next
  case (tick k k' rs)
  then show ?case using tick_keeps by auto
next
  case (alloc k sz p k' rs)
  then show ?case using os_memory_alloc_keeps(1) by auto
next
  case (free k p r k' rs)
  then show ?case using os_memory_free_keeps(1) by auto
qed simp_all

lemma reachable_ok:
  assumes "reachable P c" and "platform_ok P"
  shows "kernel_ok P (snd c)"
  using assms
proof (induction rule: reachable.induct)
  case (boot k k' rs)
  then obtain ring a H where "k' = booted P ring a H k" "heap_ok a H" "live_blocks a H = []"
    using init_effect [of P k] by (auto simp: power_on_def)
  with boot booted_ok [of P k a H ring] show ?case by (simp add: power_on_def)
next
  case (step c c')
  then show ?case using kernel_step_keeps by blast
qed

end
