(* ===== verification/Kernel_Runs.thy ===== *)
theory Kernel_Runs
  imports Kernel_Steps
begin

text \<open>
  What a step of the system leaves alone. A task that is not on the processor keeps its control
  block, the words of its stack and its heap blocks; its scheduling record changes only by a tick.
\<close>

section \<open>Blocks of a task\<close>

definition own_blocks :: "os_task_id_t \<Rightarrow> kernel \<Rightarrow> (u32 \<times> u32 \<times> os_memory_owner_t) list" where
  "own_blocks i k = filter (block_of (ucast i)) (payloads (heap_of k))"

lemma own_blocks_same:
  "memory_allocator k' = memory_allocator k \<Longrightarrow> memory_blocks k' = memory_blocks k \<Longrightarrow>
    own_blocks i k' = own_blocks i k"
  by (simp add: own_blocks_def heap_of_def)

lemma owner_ids_differ:
  assumes "unat (i :: os_task_id_t) < OS_TASK_COUNT" and "unat (j :: os_task_id_t) < OS_TASK_COUNT" and "i \<noteq> j"
  shows "(ucast i :: os_memory_owner_t) \<noteq> ucast j"
  using assms owner_id_eq [of "unat i" j] owner_id_eq [of "unat i" i] by (auto simp: word_unat_eq_iff)

lemma payloads_release:
  assumes "live_blocks a H = filter (\<lambda>x. \<not> owned_by owner x) (live_blocks a0 H0)"
  shows "payloads (a, H) = filter (\<lambda>b. \<not> block_of owner b) (payloads (a0, H0))"
  by (simp add: payloads_def assms filter_map comp_def case_prod_beta)

section \<open>One step of a bystander\<close>

text \<open>What does not change for a task that is off the processor.\<close>

definition left_alone :: "platform \<Rightarrow> os_task_id_t \<Rightarrow> kernel \<Rightarrow> kernel \<Rightarrow> bool" where
  "left_alone P i k k' \<longleftrightarrow> saved_psp (tcb k' i) = saved_psp (tcb k i) \<and> stack_low (tcb k' i) = stack_low (tcb k i) \<and>
     stack_high (tcb k' i) = stack_high (tcb k i) \<and>
     (\<forall>a. stack_area P (unat i) a \<longrightarrow> ram k' a = ram k a) \<and> own_blocks i k' = own_blocks i k"

lemma left_aloneI:
  assumes "tasks k' ! unat i = tasks k ! unat i" and "\<And>a. stack_area P (unat i) a \<Longrightarrow> ram k' a = ram k a"
    and "own_blocks i k' = own_blocks i k"
  shows "left_alone P i k k'"
  using assms by (simp add: left_alone_def tcb_def)

lemma left_alone_quiet:
  assumes "quiet k' = quiet k1" and "left_alone P i k k1"
  shows "left_alone P i k k'"
  using assms(2) quiet_eqD(1,9,13,14) [OF assms(1)]
  by (simp add: left_alone_def tcb_def own_blocks_def heap_of_def)

text \<open>A heap call of another task.\<close>

lemma heap_call_others:
  assumes "kernel_ok P k" and "unat i < OS_TASK_COUNT" and "i \<noteq> current_task k" and "heap_caller k"
  shows "filter (block_of (ucast i)) (payloads (snd (acquire_block sz (ucast (current_task k)) (heap_of k)))) = own_blocks i k"
    "filter (block_of (ucast i)) (payloads (snd (give_back_block p (ucast (current_task k)) (heap_of k)))) = own_blocks i k"
proof -
  have ok: "state_ok (heap_of k)" using assms(1) by (simp add: kernel_ok_def heap_owned_payloads)
  have cur: "unat (current_task k) < OS_TASK_COUNT"
    using assms(4) by (simp add: heap_caller_def caller_is_running_task_def)
  have ne: "(ucast (current_task k) :: os_memory_owner_t) \<noteq> ucast i"
    using owner_ids_differ [OF cur assms(2)] assms(3) by metis
  show "filter (block_of (ucast i)) (payloads (snd (acquire_block sz (ucast (current_task k)) (heap_of k)))) = own_blocks i k"
    using heap.run_isolation [OF ok, of "[Acquire sz (ucast (current_task k))]" "ucast i"] ne
    by (simp add: own_blocks_def)
  show "filter (block_of (ucast i)) (payloads (snd (give_back_block p (ucast (current_task k)) (heap_of k)))) = own_blocks i k"
    using heap.run_isolation [OF ok, of "[Give_Back p (ucast (current_task k))]" "ucast i"] ne
    by (simp add: own_blocks_def)
qed

lemma with_heap_left_alone:
  assumes "quiet k' = quiet (with_heap (heap_of k') k)" and "filter (block_of (ucast i)) (payloads (heap_of k')) = own_blocks i k"
  shows "left_alone P i k k'"
proof (rule left_aloneI)
  show "tasks k' ! unat i = tasks k ! unat i" "\<And>a. ram k' a = ram k a"
    using quiet_eqD(1,14) [OF assms(1)] by (simp_all add: with_heap_def)
  show "own_blocks i k' = own_blocks i k" using assms(2) by (simp add: own_blocks_def)
qed

lemma memory_call_left_alone:
  assumes "kernel_ok P k" and "unat i < OS_TASK_COUNT" and "i \<noteq> current_task k"
    and "os_memory_alloc P sz k = Inr (p, k') \<or> os_memory_free P q k = Inr (r, k')"
  shows "left_alone P i k k'"
proof (cases "heap_caller k")
  case False
  then have "k' = k" using assms(4) os_memory_alloc_effect [of k P sz] os_memory_free_effect [of k P q] by auto
  then show ?thesis by (simp add: left_alone_def)
next
  case True
  note others = heap_call_others [OF assms(1-3) True]
  have "quiet k' = quiet (with_heap (heap_of k') k)"
    using assms(4) os_memory_alloc_keeps(2) [OF assms(1)] os_memory_free_keeps(2) [OF assms(1)] by blast
  moreover have "filter (block_of (ucast i)) (payloads (heap_of k')) = own_blocks i k"
    using assms(4) True os_memory_alloc_effect [of k P sz] os_memory_free_effect [of k P q] others by auto
  ultimately show ?thesis by (rule with_heap_left_alone)
qed

text \<open>The stores of the switch go to the stack of the outgoing task.\<close>

lemma store_registers_other:
  assumes "stack_region P j t" and "psp_ok t p" and "\<not> stack_area P j a"
  shows "store_registers p rs m a = m a"
  unfolding store_registers_def
proof (rule fold_upd_other, rule notI)
  assume "a \<in> (\<lambda>i. p + 4 * of_nat i) ` set [0..<8]"
  then obtain i where "i \<in> set [0..<8]" "a = p + 4 * of_nat i" by blast
  moreover from this have "i < 16" by simp
  ultimately show False using frame_in_area [OF assms(1,2)] assms(3) by blast
qed

lemma current_region:
  assumes "kernel_ok P k" and "has_active_context k \<noteq> 0"
  shows "unat (current_task k) < OS_TASK_COUNT" "stack_region P (unat (current_task k)) (tcb k (current_task k))"
    "state (sched k (current_task k)) \<noteq> OS_TASK_DORMANT"
proof -
  have ok: "slots_ok P k" "mode_ok k" using assms(1) by (simp_all add: kernel_ok_def)
  show cur: "unat (current_task k) < OS_TASK_COUNT" and st: "state (sched k (current_task k)) \<noteq> OS_TASK_DORMANT"
    using ok(2) assms(2) by (simp_all add: mode_ok_def)
  show "stack_region P (unat (current_task k)) (tcb k (current_task k))"
    using slots_okD [OF ok(1) cur] st by (simp add: slot_ok_def)
qed

lemma retires_blocks:
  assumes "retires k k'" and "unat i < OS_TASK_COUNT" and "i \<noteq> current_task k"
  shows "own_blocks i k' = own_blocks i k"
proof -
  from assms(1) consider "quiet k' = quiet k"
    | "quiet k' = quiet (k\<lparr>schedules := (schedules k)[unat (current_task k) :=
       (sched k (current_task k))\<lparr>state := OS_TASK_READY\<rparr>]\<rparr>)"
    | a H where "quiet k' = quiet (reclaimed (current_task k) a H k)" "unat (current_task k) < OS_TASK_COUNT"
      "live_blocks a H = filter (\<lambda>x. \<not> owned_by (ucast (current_task k)) x)
           (live_blocks (memory_allocator k) (memory_blocks k))"
    unfolding retires_def by blast
  then show ?thesis
  proof cases
    case 1
    then show ?thesis using quiet_eqD(9,13) [OF 1] by (intro own_blocks_same) simp_all
  next
    case 2
    then show ?thesis using quiet_eqD(9,13) [OF 2] by (intro own_blocks_same) simp_all
  next
    case 3
    have "heap_of k' = (a, H)" using quiet_eqD(9,13) [OF 3(1)] by (simp add: heap_of_def reclaimed_def)
    then have "payloads (heap_of k') = filter (\<lambda>b. \<not> block_of (ucast (current_task k)) b) (payloads (heap_of k))"
      using payloads_release [OF 3(3)] by (simp add: heap_of_def)
    moreover have "(ucast i :: os_memory_owner_t) \<noteq> ucast (current_task k)"
      by (rule owner_ids_differ [OF assms(2) 3(2) assms(3)])
    ultimately show ?thesis by (auto simp: own_blocks_def intro!: filter_cong)
  qed
qed

lemma switch_left_alone:
  assumes "kernel_ok P k" and "pendsv_set k" and "stack_in_bounds k"
    and "PendSV_Handler (rs, k\<lparr>pendsv_set := False\<rparr>) = Inr (rs', k')"
    and "unat i < OS_TASK_COUNT" and "i \<noteq> current_task k"
  shows "left_alone P i k k'"
proof -
  let ?p = "if has_active_context k \<noteq> 0 then psp k - 32 else 0"
  let ?k0 = "saved ?p (stacked rs k)"
  obtain k1 k2 nx where sw: "PendSV_Handler (rs, k\<lparr>pendsv_set := False\<rparr>) =
      Inr (load_registers (saved_psp (tcb k1 nx)) (ram k1), k1)" "retires ?k0 k2" "slots_ok P k2" "unat nx < OS_TASK_COUNT"
    "quiet k1 = quiet ((dispatched nx k2)\<lparr>psp := saved_psp (tcb k1 nx) + 32, control := CONTROL_SPSEL_Msk,
       primask := primask k\<rparr>)"
    by (rule handler_effect [OF assms(1-3), of rs]) blast
  have k1: "k1 = k'" using sw(1) assms(4) by simp
  have len: "length (tasks k2) = OS_TASK_COUNT" using sw(3) by (simp add: slots_ok_def)
  have cur: "current_task ?k0 = current_task k" by (simp add: saved_same stacked_def)
  have tasks0: "tasks ?k0 ! unat i = tasks k ! unat i"
    using assms(6) by (simp add: saved_def set_tcb_def stacked_def word_unat_eq_iff)
  moreover have ne: "unat i \<noteq> unat (current_task ?k0)" using assms(6) cur by (simp add: word_unat_eq_iff)
  ultimately have tasks2: "tasks k2 ! unat i = tasks k ! unat i" using retires_schedules(2) [OF sw(2)] by simp
  have "ram ?k0 a = ram k a" if "stack_area P (unat i) a" for a
  proof (cases "has_active_context k = 0")
    case False
    have "\<not> stack_area P (unat (current_task k)) a"
      using stack_areas_disjoint [OF that] assms(6) by (auto simp: word_unat_eq_iff)
    moreover have "psp_ok (tcb k (current_task k)) (psp k - 32)" using assms(3) False by (simp add: stack_in_bounds_def)
    ultimately show ?thesis
      using store_registers_other [OF current_region(2) [OF assms(1) False]] False
      by (simp add: saved_def set_tcb_def stacked_def)
  qed (simp add: saved_def stacked_def)
  moreover have "ram k2 = ram ?k0" by (rule retires_same(9) [OF sw(2)])
  moreover have "own_blocks i k2 = own_blocks i k"
  proof -
    have "own_blocks i ?k0 = own_blocks i k" by (rule own_blocks_same) (simp_all add: saved_same stacked_def)
    then show ?thesis using retires_blocks [OF sw(2) assms(5)] assms(6) cur by simp
  qed
  ultimately have "left_alone P i k (dispatched nx k2)"
    using tasks2 len sw(4) own_blocks_same [of "dispatched nx k2" k2]
    by (auto simp: left_alone_def tcb_def dispatched_def nth_list_update)
  then have "left_alone P i k ((dispatched nx k2)\<lparr>psp := saved_psp (tcb k1 nx) + 32, control := CONTROL_SPSEL_Msk,
       primask := primask k\<rparr>)" by (simp add: left_alone_def tcb_def own_blocks_def heap_of_def)
  from left_alone_quiet [OF sw(5) this] k1 show ?thesis by simp
qed

lemma create_left_alone:
  assumes "kernel_ok P k" and "platform_ok P" and "\<not> pendsv_set k"
    and "os_task_create P config created k = Inr (r, k')" and "state (sched k i) \<noteq> OS_TASK_DORMANT"
  shows "left_alone P i k k'" "sched k' i = sched k i" "monotonic_ticks k' = monotonic_ticks k"
proof -
  have "left_alone P i k k' \<and> sched k' i = sched k i \<and> monotonic_ticks k' = monotonic_ticks k"
  proof (cases rule: create_cases [OF assms(1-4), case_names refused slot])
    case refused
    then show ?thesis by (simp add: left_alone_def)
  next
    case (slot j t s)
    have ne: "unat i \<noteq> unat j" using slot(3) assms(5) by (auto simp: sched_def)
    have "ram k' a = ram k a" if "stack_area P (unat i) a" for a
      using slot(10) stack_areas_disjoint [OF that] ne by blast
    moreover have "own_blocks i k' = own_blocks i k" by (rule own_blocks_same) (fact slot)+
    ultimately have "left_alone P i k k'" using slot(4) ne by (intro left_aloneI) simp_all
    then show ?thesis using slot(5,7) ne by (simp add: sched_def)
  qed
  then show "left_alone P i k k'" "sched k' i = sched k i" "monotonic_ticks k' = monotonic_ticks k" by simp_all
qed

lemma svc_others:
  assumes "kernel_ok P k" and "\<not> pendsv_set k" and "running k" and "SVC_Handler P lr k = Inr k'"
  shows "tasks k' = tasks k" "ram k' = ram k" "own_blocks i k' = own_blocks i k"
    "i \<noteq> current_task k \<Longrightarrow> sched k' i = sched k i" "monotonic_ticks k' = monotonic_ticks k"
    "has_active_context k \<noteq> 0 \<Longrightarrow> state (sched k (current_task k)) = OS_TASK_RUNNING"
    "current_task k' = current_task k"
proof -
  have run: "os_svc_dispatch P (if lr AND 4 = 0 then msp k else psp k) lr k = Inr k'"
    using assms(4) by (simp add: SVC_Handler_def)
  have all: "tasks k' = tasks k \<and> ram k' = ram k \<and> own_blocks i k' = own_blocks i k \<and>
    (i \<noteq> current_task k \<longrightarrow> sched k' i = sched k i) \<and> monotonic_ticks k' = monotonic_ticks k \<and>
    (has_active_context k \<noteq> 0 \<longrightarrow> state (sched k (current_task k)) = OS_TASK_RUNNING) \<and>
    current_task k' = current_task k"
  proof (cases rule: svc_dispatch_cases [OF assms(1-3) run, case_names start trap])
    case start
    then show ?thesis by (simp add: request_pendsv_def own_blocks_def heap_of_def sched_def)
  next
    case (trap st)
    from trap(2) obtain s y where q: "quiet k' = quiet (trapped s y k)" unfolding traps_to_def by blast
    note f = quiet_eqD [OF q]
    have "own_blocks i k' = own_blocks i k" by (rule own_blocks_same) (simp_all add: f trapped_def)
    then show ?thesis
      using trap(3) by (simp add: f trapped_def sched_def word_unat_eq_iff)
  qed
  show "tasks k' = tasks k" "ram k' = ram k" "own_blocks i k' = own_blocks i k"
    "i \<noteq> current_task k \<Longrightarrow> sched k' i = sched k i" "monotonic_ticks k' = monotonic_ticks k"
    "has_active_context k \<noteq> 0 \<Longrightarrow> state (sched k (current_task k)) = OS_TASK_RUNNING"
    "current_task k' = current_task k"
    using all by blast+
qed

lemma tick_fields:
  assumes "kernel_ok P k" and "tick_range k" and "os_kernel_tick k = Inr k'"
  shows "tasks k' = tasks k" "ram k' = ram k" "own_blocks i k' = own_blocks i k"
    "current_task k' = current_task k"
    "running k \<Longrightarrow> monotonic_ticks k' = monotonic_ticks k + 1"
    "running k \<Longrightarrow> i \<noteq> current_task k \<or> state (sched k i) \<noteq> OS_TASK_RUNNING \<Longrightarrow>
      sched k' i = sched (after_loop k) i"
    "\<not> running k \<Longrightarrow> k' = k"
proof -
  show stop: "\<not> running k \<Longrightarrow> k' = k" using assms(3) by (simp add: os_kernel_tick_def)
  have run: "tasks k' = tasks k \<and> ram k' = ram k \<and> own_blocks i k' = own_blocks i k \<and>
      current_task k' = current_task k \<and> monotonic_ticks k' = monotonic_ticks k + 1 \<and>
      (i \<noteq> current_task k \<or> state (sched k i) \<noteq> OS_TASK_RUNNING \<longrightarrow> sched k' i = sched (after_loop k) i)" if "running k"
  proof -
    from tick_effect [OF assms(1) that assms(2)] assms(3)
    have q: "quiet k' = quiet (if tick_switches k then tick_preempted (after_loop k) else after_loop k)" by simp
    have same: "current_task (after_loop k) = current_task k" by (simp add: after_loop_def)
    have own: "own_blocks i k' = own_blocks i k"
      by (rule own_blocks_same) (simp_all add: quiet_eqD [OF q] tick_preempted_def after_loop_def)
    show ?thesis
    proof (cases "tick_switches k")
      case True
      then have "state (sched k (current_task k)) = OS_TASK_RUNNING" by (simp add: tick_switches_def)
      with True own quiet_eqD [OF q] show ?thesis
        by (auto simp: tick_preempted_def sched_def word_unat_eq_iff same) (simp_all add: after_loop_def)
    next
      case False
      with own quiet_eqD [OF q] show ?thesis by (simp add: sched_def) (simp add: after_loop_def)
    qed
  qed
  show "tasks k' = tasks k" "ram k' = ram k" "own_blocks i k' = own_blocks i k" "current_task k' = current_task k"
    using run stop by (cases "running k"; simp)+
  show "running k \<Longrightarrow> monotonic_ticks k' = monotonic_ticks k + 1"
    "running k \<Longrightarrow> i \<noteq> current_task k \<or> state (sched k i) \<noteq> OS_TASK_RUNNING \<Longrightarrow>
      sched k' i = sched (after_loop k) i"
    using run by simp_all
qed

lemma step_left_alone:
  assumes "kernel_step P c c'" and "platform_ok P" and "kernel_ok P (snd c)" and "unat i < OS_TASK_COUNT"
    and "i \<noteq> current_task (snd c)" and "state (sched (snd c) i) \<noteq> OS_TASK_DORMANT"
  shows "left_alone P i (snd c) (snd c')"
  using assms
proof (induction rule: kernel_step.induct)
  case (create k config created r k' rs)
  then show ?case using create_left_alone(1) by simp
next
  case (start k service k' rs)
  then have "quiet k' = quiet (k\<lparr>running := True\<rparr>)" using start_keeps(2) by simp
  then have "left_alone P i k k'"
    by (rule left_alone_quiet) (simp add: left_alone_def tcb_def own_blocks_def heap_of_def)
  then show ?case by simp
next
  case (svc k lr k' rs)
  then have "kernel_ok P k" by simp
  note same = svc_others(1-3) [OF this svc(1-3)]
  have "left_alone P i k k'" by (rule left_aloneI) (simp_all add: same)
  then show ?case by simp
next
  case (switch k rs rs' k')
  then show ?case using switch_left_alone by simp
next
  case (tick k k' rs)
  then have "kernel_ok P k" by simp
  note same = tick_fields(1-3) [OF this tick(1,2)]
  have "left_alone P i k k'" by (rule left_aloneI) (simp_all add: same)
  then show ?case by simp
next
  case (alloc k sz p k' rs)
  then show ?case using memory_call_left_alone [of P k i sz p k'] by simp
next
  case (free k p r k' rs)
  then show ?case using memory_call_left_alone [of P k i _ _ k' p r] by simp
next
  case (task k m rs rs' exception p)
  have "m a = ram k a" if "stack_area P (unat i) a" for a
    using task(2) [OF task(5) _ that] task(6) by (simp add: word_unat_eq_iff)
  then have "left_alone P i k (k\<lparr>ram := m, psp := p, ipsr := exception\<rparr>)"
    by (intro left_aloneI) (simp_all add: own_blocks_def heap_of_def)
  then show ?case by simp
next
  case (main k m rs rs' exception p)
  have "m a = ram k a" if "stack_area P (unat i) a" for a using main(2) [OF main(5) that] .
  then have "left_alone P i k (k\<lparr>ram := m, msp := p, ipsr := exception\<rparr>)"
    by (intro left_aloneI) (simp_all add: own_blocks_def heap_of_def)
  then show ?case by simp
qed

text \<open>
  The record of a task that is off the processor: the same, or one tick further. A task that
  sleeps or waits for its release may still be the one the next switch will take off.
\<close>

definition ticked_once :: "os_task_id_t \<Rightarrow> kernel \<Rightarrow> kernel \<Rightarrow> bool" where
  "ticked_once i k k' \<longleftrightarrow> tick_range k \<and> monotonic_ticks k' = monotonic_ticks k + 1 \<and>
     sched k' i = sched (after_loop k) i"

definition waits :: "os_sched_task \<Rightarrow> bool" where
  "waits s \<longleftrightarrow> state s = OS_TASK_SLEEPING \<or> state s = OS_TASK_WAITING_RELEASE"

lemma switch_schedule:
  assumes "kernel_ok P k" and "pendsv_set k" and "stack_in_bounds k"
    and "PendSV_Handler (rs, k\<lparr>pendsv_set := False\<rparr>) = Inr (rs', k')" and "unat i < OS_TASK_COUNT"
    and "waits (sched k i) \<or> i \<noteq> current_task k \<and> i \<noteq> current_task k'"
  shows "sched k' i = sched k i" "monotonic_ticks k' = monotonic_ticks k"
proof -
  let ?p = "if has_active_context k \<noteq> 0 then psp k - 32 else 0"
  let ?k0 = "saved ?p (stacked rs k)"
  obtain k1 k2 nx where sw: "PendSV_Handler (rs, k\<lparr>pendsv_set := False\<rparr>) =
      Inr (load_registers (saved_psp (tcb k1 nx)) (ram k1), k1)" "retires ?k0 k2" "slots_ok P k2" "unat nx < OS_TASK_COUNT"
    "state (sched k2 nx) = OS_TASK_READY"
    "quiet k1 = quiet ((dispatched nx k2)\<lparr>psp := saved_psp (tcb k1 nx) + 32, control := CONTROL_SPSEL_Msk,
       primask := primask k\<rparr>)"
    by (rule handler_effect [OF assms(1-3), of rs]) blast
  have k1: "k1 = k'" using sw(1) assms(4) by simp
  note f = quiet_eqD [OF sw(6), unfolded k1]
  have nx: "current_task k' = nx" by (simp add: f dispatched_def)
  have same0: "current_task ?k0 = current_task k" "sched ?k0 = sched k" "schedules ?k0 = schedules k"
    "monotonic_ticks ?k0 = monotonic_ticks k"
    by (simp_all add: saved_same) (simp_all add: stacked_def sched_def fun_eq_iff)
  have two: "sched k2 i = sched k i"
  proof (cases "i = current_task k")
    case False
    then show ?thesis using retires_schedules(1) [OF sw(2)] same0 by (simp add: sched_def word_unat_eq_iff)
  next
    case True
    then have "waits (sched ?k0 (current_task ?k0))" using assms(6) same0 by simp
    then have "quiet k2 = quiet ?k0" using sw(2) by (auto simp: retires_def waits_def)
    from quiet_eqD(2) [OF this] same0 show ?thesis by (simp add: sched_def)
  qed
  then have "i \<noteq> nx" using assms(6) sw(5) nx by (auto simp: waits_def)
  then have "sched (dispatched nx k2) i = sched k2 i" by (simp add: dispatched_def sched_def word_unat_eq_iff)
  with two show "sched k' i = sched k i" by (simp add: f sched_def)
  show "monotonic_ticks k' = monotonic_ticks k"
    using retires_same(5) [OF sw(2)] same0 by (simp add: f dispatched_def)
qed

lemma step_schedule:
  assumes "kernel_step P c c'" and "platform_ok P" and "kernel_ok P (snd c)" and "unat i < OS_TASK_COUNT"
    and "waits (sched (snd c) i) \<or> i \<noteq> current_task (snd c) \<and> i \<noteq> current_task (snd c') \<and>
      state (sched (snd c) i) \<noteq> OS_TASK_DORMANT"
  shows "sched (snd c') i = sched (snd c) i \<and> monotonic_ticks (snd c') = monotonic_ticks (snd c) \<or>
    ticked_once i (snd c) (snd c')"
  using assms
proof (induction rule: kernel_step.induct)
  case (create k config created r k' rs)
  then have "state (sched k i) \<noteq> OS_TASK_DORMANT" by (auto simp: waits_def)
  with create create_left_alone(2,3) show ?case by simp
next
  case (start k service k' rs)
  then have "quiet k' = quiet (k\<lparr>running := True\<rparr>)" using start_keeps(2) by simp
  from quiet_eqD(2,6) [OF this] show ?case by (simp add: sched_def)
next
  case (svc k lr k' rs)
  then have ok: "kernel_ok P k" by simp
  note same = svc_others [OF ok svc(1-3)]
  have "i \<noteq> current_task k"
  proof
    assume cur: "i = current_task k"
    then have "waits (sched k i)" using svc(7) by simp
    moreover have "has_active_context k \<noteq> 0" using ok cur svc(6) by (auto simp: kernel_ok_def mode_ok_def split: if_splits)
    ultimately show False using same(6) cur by (simp add: waits_def)
  qed
  with same(4,5) show ?case by simp
next
  case (switch k rs rs' k')
  then have ok: "kernel_ok P k" by simp
  from switch_schedule [OF ok switch(1-3), of i] switch(6,7) show ?case by auto
next
  case (tick k k' rs)
  then have ok: "kernel_ok P k" by simp
  note same = tick_fields [OF ok tick(1,2)]
  show ?case
  proof (cases "running k")
    case True
    then have "i \<noteq> current_task k \<or> state (sched k i) \<noteq> OS_TASK_RUNNING" using tick(6) by (auto simp: waits_def)
    with same(5,6) True tick(1) show ?thesis by (simp add: ticked_once_def)
  next
    case False
    with same(7) show ?thesis by simp
  qed
next
  case (alloc k sz p k' rs)
  then have "quiet k' = quiet (with_heap (heap_of k') k)" using os_memory_alloc_keeps(2) by simp
  from quiet_eqD(2,6) [OF this] show ?case by (simp add: sched_def with_heap_def)
next
  case (free k p r k' rs)
  then have "quiet k' = quiet (with_heap (heap_of k') k)" using os_memory_free_keeps(2) by simp
  from quiet_eqD(2,6) [OF this] show ?case by (simp add: sched_def with_heap_def)
qed (simp_all add: sched_def)

end
