(* ===== verification/Kernel_Context.thy ===== *)
theory Kernel_Context
  imports Kernel_Runs
begin

text \<open>
  Histories in which a task stays off the processor. What the switch has saved of it, its stack
  and its heap blocks are there unchanged when it is dispatched again, and a task that sleeps or
  waits for its release leaves that state at its tick and not before.
\<close>

section \<open>Runs without a task\<close>

text \<open>Every state of the run has another current task.\<close>

inductive runs_without :: "platform \<Rightarrow> os_task_id_t \<Rightarrow> cpu \<Rightarrow> cpu \<Rightarrow> bool" for P i where
  stop: "current_task (snd c) \<noteq> i \<Longrightarrow> runs_without P i c c"
| more: "runs_without P i c c' \<Longrightarrow> kernel_step P c' c'' \<Longrightarrow> current_task (snd c'') \<noteq> i \<Longrightarrow>
    runs_without P i c c''"

lemma left_alone_refl: "left_alone P i k k"
  by (simp add: left_alone_def)

lemma left_alone_trans: "left_alone P i k k' \<Longrightarrow> left_alone P i k' k'' \<Longrightarrow> left_alone P i k k''"
  by (simp add: left_alone_def)

lemma run_left_alone:
  assumes "runs_without P i c c'" and "platform_ok P" and "kernel_ok P (snd c)" and "unat i < OS_TASK_COUNT"
    and "state (sched (snd c) i) \<noteq> OS_TASK_DORMANT"
  shows "left_alone P i (snd c) (snd c') \<and> kernel_ok P (snd c') \<and> state (sched (snd c') i) \<noteq> OS_TASK_DORMANT \<and>
    current_task (snd c') \<noteq> i"
  using assms
proof (induction rule: runs_without.induct)
  case (stop c)
  then show ?case by (simp add: left_alone_refl)
next
  case (more c c' c'')
  then have IH: "left_alone P i (snd c) (snd c')" "kernel_ok P (snd c')" "state (sched (snd c') i) \<noteq> OS_TASK_DORMANT"
    "i \<noteq> current_task (snd c')" by auto
  have alone: "left_alone P i (snd c') (snd c'')" by (rule step_left_alone [OF more(2,5) IH(2) more(7) IH(4,3)])
  have ok: "kernel_ok P (snd c'')" by (rule kernel_step_keeps [OF more(2,5) IH(2)])
  have "sched (snd c'') i = sched (snd c') i \<or> ticked_once i (snd c') (snd c'')"
    using step_schedule [OF more(2,5) IH(2) more(7)] IH(3,4) more(3) by blast
  then have "state (sched (snd c'') i) \<noteq> OS_TASK_DORMANT"
  proof
    assume "ticked_once i (snd c') (snd c'')"
    then have "sched (snd c'') i = sched (after_loop (snd c')) i" "tick_range (snd c')" by (simp_all add: ticked_once_def)
    moreover have "slots_ok P (snd c')" using IH(2) by (simp add: kernel_ok_def)
    ultimately show ?thesis
      using after_loop_nth(3) [of P "snd c'" "unat i"] more(7) IH(3) by (simp add: sched_def)
  qed (use IH(3) in simp)
  with left_alone_trans [OF IH(1) alone] ok more(3) show ?case by simp
qed

section \<open>Saving and restoring a context\<close>

lemma load_store_registers:
  assumes "length rs = 8"
  shows "load_registers p (store_registers p rs m) = rs"
proof -
  obtain a b c d e f g h where rs: "rs = [a, b, c, d, e, f, g, h]"
    using assms by (auto simp: length_Suc_conv numeral_eq_Suc)
  have "[0..<8] = [0, 1, 2, 3, 4, 5, 6, 7]" by (simp add: upt_rec)
  then show ?thesis by (simp add: load_registers_def store_registers_def rs)
qed

lemma load_registers_cong:
  assumes "\<And>i. i < 8 \<Longrightarrow> m' (p + 4 * of_nat i) = m (p + 4 * of_nat i)"
  shows "load_registers p m' = load_registers p m"
  unfolding load_registers_def by (rule map_cong) (use assms in auto)

text \<open>What the switch leaves of a task that it takes off the processor and does not reclaim.\<close>

lemma switch_saves:
  assumes "kernel_ok P k" and "pendsv_set k" and "stack_in_bounds k" and "has_active_context k \<noteq> 0"
    and "state (sched k (current_task k)) \<noteq> OS_TASK_EXITING"
    and "PendSV_Handler (rs, k\<lparr>pendsv_set := False\<rparr>) = Inr (rs', k')"
  defines "i \<equiv> current_task k"
  shows "saved_psp (tcb k' i) = psp k - 32" "stack_low (tcb k' i) = stack_low (tcb k i)"
    "stack_high (tcb k' i) = stack_high (tcb k i)" "state (sched k' i) \<noteq> OS_TASK_DORMANT"
    "ram k' = store_registers (psp k - 32) rs (ram k)"
proof -
  let ?p = "if has_active_context k \<noteq> 0 then psp k - 32 else 0"
  let ?k0 = "saved ?p (stacked rs k)"
  obtain k1 k2 nx where sw: "PendSV_Handler (rs, k\<lparr>pendsv_set := False\<rparr>) =
      Inr (load_registers (saved_psp (tcb k1 nx)) (ram k1), k1)" "retires ?k0 k2" "slots_ok P k2" "unat nx < OS_TASK_COUNT"
    "quiet k1 = quiet ((dispatched nx k2)\<lparr>psp := saved_psp (tcb k1 nx) + 32, control := CONTROL_SPSEL_Msk,
       primask := primask k\<rparr>)"
    by (rule handler_effect [OF assms(1-3), of rs]) blast
  have k1: "k1 = k'" using sw(1) assms(6) by simp
  have f: "tasks k' = tasks (dispatched nx k2)" "schedules k' = schedules (dispatched nx k2)"
    "ram k' = ram k2"
    using quiet_eqD(1,2,14) [OF sw(5), unfolded k1] by (simp_all add: dispatched_def)
  note cur = current_region [OF assms(1,4), folded i_def]
  have len: "length (tasks k) = OS_TASK_COUNT" "length (schedules k) = OS_TASK_COUNT"
    "length (tasks k2) = OS_TASK_COUNT" "length (schedules k2) = OS_TASK_COUNT"
    using assms(1) sw(3) by (simp_all add: kernel_ok_def slots_ok_def)
  have k0: "current_task ?k0 = i" "sched ?k0 = sched k" "ram ?k0 = store_registers (psp k - 32) rs (ram k)"
    "length (schedules ?k0) = OS_TASK_COUNT" "tcb ?k0 i = (tcb k i)\<lparr>saved_psp := psp k - 32\<rparr>"
    using assms(4) len cur(1) by (simp_all add: saved_def set_tcb_def stacked_def sched_def tcb_def i_def fun_eq_iff)
  have keep: "\<exists>st. sched k2 i = (sched k i)\<lparr>state := st\<rparr>" "tasks k2 = tasks ?k0"
    using retires_key(1,2) [OF sw(2)] assms(5) k0 cur(1) i_def by simp_all
  then have t2: "tcb k2 i = (tcb k i)\<lparr>saved_psp := psp k - 32\<rparr>" using k0(5) by (simp add: tcb_def)
  have t': "tcb k' i = tcb k2 i \<or> tcb k' i = (tcb k2 i)\<lparr>started := True\<rparr>"
    using len sw(4) by (simp add: f tcb_def dispatched_def nth_list_update)
  then have "saved_psp (tcb k' i) = saved_psp (tcb k2 i) \<and> stack_low (tcb k' i) = stack_low (tcb k2 i) \<and>
    stack_high (tcb k' i) = stack_high (tcb k2 i)" by (elim disjE) simp_all
  then show "saved_psp (tcb k' i) = psp k - 32" "stack_low (tcb k' i) = stack_low (tcb k i)"
    "stack_high (tcb k' i) = stack_high (tcb k i)" by (simp_all add: t2)
  have "state (sched k2 i) \<noteq> OS_TASK_DORMANT"
  proof -
    have "stack_claimed (tcb k i)"
      using slots_okD [of P k i] cur assms(1) by (simp add: kernel_ok_def slot_ok_def)
    then have "stack_claimed (tcb k2 i)" by (simp add: t2)
    then show ?thesis using slots_okD [OF sw(3) cur(1)] by (simp add: slot_ok_def)
  qed
  then show "state (sched k' i) \<noteq> OS_TASK_DORMANT"
    using len sw(4) by (auto simp: f sched_def dispatched_def nth_list_update)
  show "ram k' = store_registers (psp k - 32) rs (ram k)"
    using retires_same(9) [OF sw(2)] k0(3) by (simp add: f)
qed

lemma switch_restores:
  assumes "kernel_ok P k" and "pendsv_set k" and "stack_in_bounds k"
    and "PendSV_Handler (rs, k\<lparr>pendsv_set := False\<rparr>) = Inr (rs', k')"
  shows "rs' = load_registers (saved_psp (tcb k' (current_task k'))) (ram k')"
    "psp k' = saved_psp (tcb k' (current_task k')) + 32" "control k' = CONTROL_SPSEL_Msk"
proof -
  let ?k0 = "stacked rs k"
  have all: "rs' = load_registers (saved_psp (tcb k' (current_task k'))) (ram k') \<and>
    psp k' = saved_psp (tcb k' (current_task k')) + 32 \<and> control k' = CONTROL_SPSEL_Msk"
  proof -
    obtain k1 k2 nx where sw: "PendSV_Handler (rs, k\<lparr>pendsv_set := False\<rparr>) =
      Inr (load_registers (saved_psp (tcb k1 nx)) (ram k1), k1)"
      "quiet k1 = quiet ((dispatched nx k2)\<lparr>psp := saved_psp (tcb k1 nx) + 32, control := CONTROL_SPSEL_Msk,
       primask := primask k\<rparr>)"
      by (rule handler_effect [OF assms(1-3), of rs]) blast
    have k1: "k1 = k'" "rs' = load_registers (saved_psp (tcb k1 nx)) (ram k1)" using sw(1) assms(4) by simp_all
    have "current_task k' = nx" using quiet_eqD(3) [OF sw(2)] by (simp add: k1 dispatched_def)
    moreover have "psp k1 = saved_psp (tcb k1 nx) + 32 \<and> control k1 = CONTROL_SPSEL_Msk"
    proof -
      have "psp (quiet k1) = saved_psp (tcb k1 nx) + 32" "control (quiet k1) = CONTROL_SPSEL_Msk"
        unfolding sw(2) by (simp_all add: quiet_def)
      then show ?thesis by (simp add: quiet_def)
    qed
    ultimately show ?thesis using k1 by simp
  qed
  then show "rs' = load_registers (saved_psp (tcb k' (current_task k'))) (ram k')"
    "psp k' = saved_psp (tcb k' (current_task k')) + 32" "control k' = CONTROL_SPSEL_Msk" by simp_all
qed

section \<open>Waiting for a tick\<close>

text \<open>The tick that a waiting task waits for.\<close>

definition due_tick :: "os_sched_task \<Rightarrow> u64" where
  "due_tick s = (if state s = OS_TASK_SLEEPING then wake_order s else next_release_order s)"

lemma ready_now_due: "waits s \<Longrightarrow> ready_now now s \<longleftrightarrow> due_tick s \<le> now"
  by (auto simp: waits_def ready_now_def release_now_def wake_now_def due_tick_def)

text \<open>A record that does not become ready is only accounted for.\<close>

lemma tick_record_not_due:
  assumes "slot_ok P i s t" and "unat now + 2 ^ 32 \<le> 2 ^ 64" and "\<not> ready_now now s"
  shows "tick_record now s = tick_accounted now s" "\<not> job_active s \<Longrightarrow> tick_record now s = s"
    "wake_order (tick_record now s) = wake_order s" "state (tick_record now s) = state s"
proof -
  note facts = tick_record_facts [OF assms(1,2)]
  note acc = tick_accounted_facts [OF assms(1,2)]
  have notready: "\<not> release_now now s" "\<not> wake_now now s" using assms(3) by (simp_all add: ready_now_def)
  have rel: "tick_released now s = tick_accounted now s"
    using release_waiting [OF acc(3) assms(2)] facts(5) notready(1) by auto
  have "slot_ok P i (tick_released now s) t" using acc(3) rel by simp
  from wake_sleeping [OF this, of now] facts(6) notready(2) have "tick_record now s = tick_released now s" by auto
  with rel show rec: "tick_record now s = tick_accounted now s" by simp
  show "\<not> job_active s \<Longrightarrow> tick_record now s = s" "wake_order (tick_record now s) = wake_order s"
    using acc(1) by (simp_all add: rec accounts_only_def)
  show "state (tick_record now s) = state s" using facts(2) notready by simp
qed

text \<open>Before its tick the record of a waiting task keeps what it waits for.\<close>

lemma tick_record_waits:
  assumes "slot_ok P i s t" and "unat now + 2 ^ 32 \<le> 2 ^ 64" and "waits s" and "now < due_tick s"
  shows "state (tick_record now s) = state s" "due_tick (tick_record now s) = due_tick s"
proof -
  have "\<not> ready_now now s" using ready_now_due [OF assms(3), of now] assms(4) by auto
  note rec = tick_record_not_due [OF assms(1,2) this]
  show "state (tick_record now s) = state s" by (fact rec(4))
  have "\<not> job_active s" if "state s \<noteq> OS_TASK_SLEEPING"
    using assms(1,3) that by (auto simp: slot_ok_def sched_task_wf_def waits_def)
  with rec(2-4) show "due_tick (tick_record now s) = due_tick s"
    by (cases "state s = OS_TASK_SLEEPING") (simp_all add: due_tick_def)
qed

lemma step_waits:
  assumes "kernel_step P c c'" and "platform_ok P" and "kernel_ok P (snd c)" and "unat i < OS_TASK_COUNT"
    and "waits (sched (snd c) i)"
  shows "monotonic_ticks (snd c) \<le> monotonic_ticks (snd c')"
    "monotonic_ticks (snd c') < due_tick (sched (snd c) i) \<Longrightarrow>
      state (sched (snd c') i) = state (sched (snd c) i) \<and> due_tick (sched (snd c') i) = due_tick (sched (snd c) i)"
    "monotonic_ticks (snd c) < due_tick (sched (snd c) i) \<Longrightarrow> due_tick (sched (snd c) i) \<le> monotonic_ticks (snd c') \<Longrightarrow>
      state (sched (snd c') i) = OS_TASK_READY \<and> monotonic_ticks (snd c') = due_tick (sched (snd c) i)"
proof -
  let ?k = "snd c" and ?k' = "snd c'"
  let ?s = "sched ?k i" and ?now = "monotonic_ticks ?k"
  have slots: "slots_ok P ?k" using assms(3) by (simp add: kernel_ok_def)
  have slot: "slot_ok P (unat i) ?s (tcb ?k i)" by (rule slots_okD [OF slots assms(4)])
  have all: "?now \<le> monotonic_ticks ?k' \<and>
    (monotonic_ticks ?k' < due_tick ?s \<longrightarrow> state (sched ?k' i) = state ?s \<and> due_tick (sched ?k' i) = due_tick ?s) \<and>
    (?now < due_tick ?s \<longrightarrow> due_tick ?s \<le> monotonic_ticks ?k' \<longrightarrow>
       state (sched ?k' i) = OS_TASK_READY \<and> monotonic_ticks ?k' = due_tick ?s)"
  proof (cases "sched ?k' i = ?s \<and> monotonic_ticks ?k' = ?now")
    case True
    then show ?thesis by auto
  next
    case False
    then have tick: "ticked_once i ?k ?k'" using step_schedule [OF assms(1-4)] assms(5) by blast
    then have range: "tick_range ?k" and now: "monotonic_ticks ?k' = ?now + 1"
      and s': "sched ?k' i = schedules (after_loop ?k) ! unat i"
      by (simp_all add: ticked_once_def sched_def)
    note loop = after_loop_nth [OF slots range assms(4), folded s' sched_def]
    note n = tick_range_next [OF range]
    have "unat i \<noteq> 0" using slot assms(5) by (auto simp: slot_ok_def waits_def)
    then have rec: "sched ?k' i = tick_record (?now + 1) ?s" using loop(1) by simp
    have le: "?now \<le> ?now + 1" using n(1) by (simp add: word_le_nat_alt)
    have "due_tick ?s = ?now + 1" if "?now < due_tick ?s" "due_tick ?s \<le> ?now + 1"
      using that n(1) by (simp add: word_less_nat_alt word_le_nat_alt word_unat_eq_iff)
    moreover have "state (sched ?k' i) = OS_TASK_READY" if "due_tick ?s \<le> ?now + 1"
      using loop(3) ready_now_due [OF assms(5)] that by simp
    moreover have "state (sched ?k' i) = state ?s \<and> due_tick (sched ?k' i) = due_tick ?s" if "?now + 1 < due_tick ?s"
      using tick_record_waits [OF slot n(2) assms(5) that] by (simp add: rec)
    ultimately show ?thesis using now le by auto
  qed
  then show "?now \<le> monotonic_ticks ?k'"
    "monotonic_ticks ?k' < due_tick ?s \<Longrightarrow> state (sched ?k' i) = state ?s \<and> due_tick (sched ?k' i) = due_tick ?s"
    "?now < due_tick ?s \<Longrightarrow> due_tick ?s \<le> monotonic_ticks ?k' \<Longrightarrow>
      state (sched ?k' i) = OS_TASK_READY \<and> monotonic_ticks ?k' = due_tick ?s"
    by blast+
qed

text \<open>The clock never goes back.\<close>

lemma switch_time:
  assumes "kernel_ok P k" and "pendsv_set k" and "stack_in_bounds k"
    and "PendSV_Handler (rs, k\<lparr>pendsv_set := False\<rparr>) = Inr (rs', k')"
  shows "monotonic_ticks k' = monotonic_ticks k"
proof -
  let ?k0 = "saved (if has_active_context k \<noteq> 0 then psp k - 32 else 0) (stacked rs k)"
  obtain k1 k2 nx where sw: "PendSV_Handler (rs, k\<lparr>pendsv_set := False\<rparr>) =
      Inr (load_registers (saved_psp (tcb k1 nx)) (ram k1), k1)" "retires ?k0 k2"
    "quiet k1 = quiet ((dispatched nx k2)\<lparr>psp := saved_psp (tcb k1 nx) + 32, control := CONTROL_SPSEL_Msk,
       primask := primask k\<rparr>)"
    by (rule handler_effect [OF assms(1-3), of rs]) blast
  have "k1 = k'" using sw(1) assms(4) by simp
  moreover have "monotonic_ticks ?k0 = monotonic_ticks k" by (simp add: saved_same) (simp add: stacked_def)
  ultimately show ?thesis
    using quiet_eqD(6) [OF sw(3)] retires_same(5) [OF sw(2)] by (simp add: dispatched_def)
qed

lemma step_time:
  assumes "kernel_step P c c'" and "platform_ok P" and "kernel_ok P (snd c)"
  shows "monotonic_ticks (snd c) \<le> monotonic_ticks (snd c')"
  using assms
proof (induction rule: kernel_step.induct)
  case (create k config created r k' rs)
  then have ok: "kernel_ok P k" by simp
  show ?case
    by (cases rule: create_cases [OF ok create(3,1,2), case_names refused slot]) simp_all
next
  case (start k service k' rs)
  then have "quiet k' = quiet (k\<lparr>running := True\<rparr>)" using start_keeps(2) by simp
  from quiet_eqD(6) [OF this] show ?case by simp
next
  case (svc k lr k' rs)
  then show ?case using svc_others(5) [of P k lr k'] by simp
next
  case (switch k rs rs' k')
  then show ?case using switch_time [of P k rs rs' k'] by simp
next
  case (tick k k' rs)
  then have ok: "kernel_ok P k" by simp
  show ?case
    using tick_fields(5,7) [OF ok tick(1,2)] tick_range_next(1) [OF tick(1)]
    by (cases "running k") (simp_all add: word_le_nat_alt)
next
  case (alloc k sz p k' rs)
  then have "quiet k' = quiet (with_heap (heap_of k') k)" using os_memory_alloc_keeps(2) by simp
  from quiet_eqD(6) [OF this] show ?case by (simp add: with_heap_def)
next
  case (free k p r k' rs)
  then have "quiet k' = quiet (with_heap (heap_of k') k)" using os_memory_free_keeps(2) by simp
  from quiet_eqD(6) [OF this] show ?case by (simp add: with_heap_def)
qed simp_all

lemma run_waits:
  assumes "kernel_run P c c'" and "platform_ok P" and "kernel_ok P (snd c)" and "unat i < OS_TASK_COUNT"
    and "waits (sched (snd c) i)"
  shows "kernel_ok P (snd c') \<and> (monotonic_ticks (snd c') < due_tick (sched (snd c) i) \<longrightarrow>
      state (sched (snd c') i) = state (sched (snd c) i) \<and> due_tick (sched (snd c') i) = due_tick (sched (snd c) i))"
  using assms
proof (induction rule: kernel_run.induct)
  case (stop c)
  then show ?case by simp
next
  case (more c c' c'')
  then have ok: "kernel_ok P (snd c')" and IH: "monotonic_ticks (snd c') < due_tick (sched (snd c) i) \<Longrightarrow>
      state (sched (snd c') i) = state (sched (snd c) i) \<and> due_tick (sched (snd c') i) = due_tick (sched (snd c) i)"
    by simp_all
  have "state (sched (snd c'') i) = state (sched (snd c) i) \<and> due_tick (sched (snd c'') i) = due_tick (sched (snd c) i)"
    if early: "monotonic_ticks (snd c'') < due_tick (sched (snd c) i)"
  proof -
    have "monotonic_ticks (snd c') < due_tick (sched (snd c) i)"
      using step_time [OF more(2,4) ok] early by simp
    note IH = IH [OF this]
    have "waits (sched (snd c') i)" using IH more.prems(4) by (simp add: waits_def)
    from step_waits(2) [OF more(2,4) ok more.prems(3) this] IH early show ?thesis by simp
  qed
  with kernel_step_keeps [OF more(2,4) ok] show ?case by blast
qed

section \<open>A switch away from a task that has left the processor already\<close>

lemma switch_off_cpu:
  assumes "kernel_ok P k" and "pendsv_set k" and "stack_in_bounds k"
    and off: "current_task k = OS_TASK_ID_INVALID \<or> off_cpu (sched k (current_task k))"
  obtains rs' k' nx where "PendSV_Handler (rs, k\<lparr>pendsv_set := False\<rparr>) = Inr (rs', k')" "kernel_ok P k'"
    "unat nx < OS_TASK_COUNT" "dispatch_choice (schedules k) (yield_excluded_task k) nx"
    "schedules k' = (schedules k)[unat nx := (sched k nx)\<lparr>state := OS_TASK_RUNNING\<rparr>]" "current_task k' = nx"
    "has_active_context k' = 1" "\<not> pendsv_set k'" "monotonic_ticks k' = monotonic_ticks k"
    "ipsr k' = ipsr k" "running k'" "psp k' = saved_psp (tcb k' nx) + 32"
    "saved_psp (tcb k' nx) = saved_psp (tcb k nx) \<or> has_active_context k \<noteq> 0 \<and> nx = current_task k"
proof -
  let ?p = "if has_active_context k \<noteq> 0 then psp k - 32 else 0"
  let ?k0 = "saved ?p (stacked rs k)"
  obtain k' k2 nx where sw: "PendSV_Handler (rs, k\<lparr>pendsv_set := False\<rparr>) =
      Inr (load_registers (saved_psp (tcb k' nx)) (ram k'), k')" "retires ?k0 k2" "slots_ok P k2" "unat nx < OS_TASK_COUNT"
    "dispatch_choice (schedules k2) (yield_excluded_task k) nx"
    "quiet k' = quiet ((dispatched nx k2)\<lparr>psp := saved_psp (tcb k' nx) + 32, control := CONTROL_SPSEL_Msk,
       primask := primask k\<rparr>)" "kernel_ok P k'"
    by (rule handler_effect [OF assms(1-3), of rs]) blast
  have same0: "current_task ?k0 = current_task k" "sched ?k0 = sched k" "schedules ?k0 = schedules k"
    "monotonic_ticks ?k0 = monotonic_ticks k" "ipsr ?k0 = ipsr k" "pendsv_set ?k0 = False"
    "running ?k0 = running k"
    by (simp_all add: saved_def set_tcb_def stacked_def sched_def fun_eq_iff)
  have "quiet k2 = quiet ?k0"
    using sw(2) off by (auto simp: retires_def same0 off_cpu_def)
  note two = quiet_eqD [OF this, unfolded same0]
  have f: "schedules k' = schedules (dispatched nx k2)" "current_task k' = nx" "has_active_context k' = 1"
    "pendsv_set k' = pendsv_set k2" "monotonic_ticks k' = monotonic_ticks k2" "ipsr k' = ipsr k2" "running k' = running k2"
    "tasks k' = tasks (dispatched nx k2)"
    using quiet_eqD [OF sw(6)] by (simp_all add: dispatched_def)
  have "psp (quiet k') = saved_psp (tcb k' nx) + 32" unfolding sw(6) by (simp add: quiet_def)
  then have psp: "psp k' = saved_psp (tcb k' nx) + 32" by (simp add: quiet_def)
  have "saved_psp (tcb k' nx) = saved_psp (tcb k2 nx)"
    using sw(3,4) by (simp add: tcb_def f dispatched_def slots_ok_def)
  moreover have "tcb k2 nx = tcb ?k0 nx" using two(1) by (simp add: tcb_def)
  moreover have "tcb ?k0 nx = tcb k nx \<or> has_active_context k \<noteq> 0 \<and> nx = current_task k"
    by (auto simp: saved_def set_tcb_def stacked_def tcb_def word_unat_eq_iff nth_list_update_neq)
  ultimately have saved: "saved_psp (tcb k' nx) = saved_psp (tcb k nx) \<or> has_active_context k \<noteq> 0 \<and> nx = current_task k"
    by auto
  have "running k" using assms(1,2) by (auto simp: kernel_ok_def mode_ok_def split: if_splits)
  show thesis
  proof (rule that [OF sw(1,7,4) _ _ f(2,3)])
    show "dispatch_choice (schedules k) (yield_excluded_task k) nx" using sw(5) two(2) by simp
    show "schedules k' = (schedules k)[unat nx := (sched k nx)\<lparr>state := OS_TASK_RUNNING\<rparr>]"
      using two(2) by (simp add: f(1) dispatched_def sched_def)
    show "\<not> pendsv_set k'" "monotonic_ticks k' = monotonic_ticks k" "ipsr k' = ipsr k" "running k'"
      using two(6,11,15,18) \<open>running k\<close> by (simp_all add: f)
  qed (fact psp saved)+
qed

end
