(* ===== verification/Kernel_Setup.thy ===== *)
theory Kernel_Setup
  imports Kernel_Context
begin

text \<open>
  What an application does before it starts the kernel: it initialises it, checks the configuration of
  the exceptions and creates tasks, which get the slots in order.
\<close>

lemma blank_dormant: "state (blank_schedule i) = OS_TASK_DORMANT"
  by (simp add: blank_schedule_def os_sched_task_zero_def)

lemma free_slot_is:
  assumes "slots_ok P k" and "0 < i" and "i < OS_TASK_COUNT" and "state (schedules k ! i) = OS_TASK_DORMANT"
    and "\<And>j. 0 < j \<Longrightarrow> j < i \<Longrightarrow> state (schedules k ! j) \<noteq> OS_TASK_DORMANT"
  shows "free_slot_loop k [1..<OS_TASK_COUNT] = of_nat i"
proof -
  have claimed: "stack_claimed (tasks k ! i) \<longleftrightarrow> state (schedules k ! i) \<noteq> OS_TASK_DORMANT"
    using assms(1,3) by (simp add: slots_ok_def slot_ok_def)
  have upt: "[1..<OS_TASK_COUNT] = [1..<i] @ i # [Suc i..<OS_TASK_COUNT]"
    using assms(2,3) upt_add_eq_append [of 1 i "OS_TASK_COUNT - i"] by (simp add: upt_conv_Cons)
  have skip: "free_slot_loop k (xs @ ys) = free_slot_loop k ys" if "\<forall>j \<in> set xs. state (schedules k ! j) \<noteq> OS_TASK_DORMANT" for xs ys
    using that by (induction xs) simp_all
  show ?thesis unfolding upt using skip [of "[1..<i]"] assms(4,5) claimed by simp
qed

lemma create_before_start:
  assumes "platform_ok P" and "kernel_ok P k" and "\<not> running k" and "\<not> pendsv_set k" and "create_guard c k"
    and "0 < i" and "i < OS_TASK_COUNT" and "schedules k ! i = blank_schedule (of_nat i)"
    and "\<And>j. 0 < j \<Longrightarrow> j < i \<Longrightarrow> state (schedules k ! j) \<noteq> OS_TASK_DORMANT"
    and "os_sched_task_configure (Some (blank_schedule (of_nat i))) (Some (tc_timing c)) (monotonic_ticks k) = (True, Some s)"
  shows "\<exists>k'. os_task_create P (Some c) (Some created) k = Inr ((True, Some (of_nat i)), k') \<and> kernel_ok P k' \<and>
    quiet k' = quiet (installed P c (of_nat i) s k)"
proof -
  let ?i = "free_slot_loop k [1..<OS_TASK_COUNT]"
  have slots: "slots_ok P k" using assms(2) by (simp add: kernel_ok_def)
  have i: "?i = of_nat i" by (rule free_slot_is [OF slots assms(6,7) _ assms(9)]) (use assms(8) in \<open>simp_all add: blank_dormant\<close>)
  have room: "room k" unfolding room_def by (rule bexI [of _ i]) (use assms(6-8) in \<open>simp_all add: blank_dormant\<close>)
  have u: "unat (of_nat i :: os_task_id_t) = i" using of_nat_id_eq(2) [OF assms(7,7)] .
  have rec: "new_record c (of_nat i) t k \<longleftrightarrow> t = s" for t
    using assms(8,10) by (auto simp: new_record_def sched_def u)
  from create_effect [OF assms(2,1,4), of c created] assms(5) room
  obtain k' where k': "os_task_create P (Some c) (Some created) k = Inr ((True, Some (of_nat i)), k')"
    "quiet k' = quiet (announced (of_nat i) (installed P c (of_nat i) s k))" "kernel_ok P k'"
    unfolding i by (auto simp: rec)
  have "announced (of_nat i) (installed P c (of_nat i) s k) = installed P c (of_nat i) s k"
    using assms(3) by (simp add: announced_def asks_switch_def installed_def)
  with k' show ?thesis by auto
qed

text \<open>What the start of the kernel keeps.\<close>

lemma installed_fields:
  assumes "quiet k' = quiet (installed P c i s k)"
  shows "schedules k' = (schedules k)[unat i := s]" "running k' = running k" "pendsv_set k' = pendsv_set k"
    "ipsr k' = ipsr k" "monotonic_ticks k' = monotonic_ticks k" "nvic_priority k' = nvic_priority k" "ccr k' = ccr k"
    "tasks k' = (tasks k)[unat i := new_tcb P c i (tcb k i)]"
    "memory_allocator k' = memory_allocator k" "memory_blocks k' = memory_blocks k" "kernel_initialized k' = kernel_initialized k"
  using quiet_eqD [OF assms] by (simp_all add: installed_def)

end
