(* ===== verification/Kernel_Demo.thy ===== *)
theory Kernel_Demo
  imports Kernel_Setup
begin

text \<open>
  A run of the system on a concrete platform: after the start-up two tasks are created, the
  kernel starts, the first task sleeps for three ticks while the second runs, wakes and preempts
  it, allocates a block and exits.
\<close>

text \<open>The code in flash: at \<open>0x08000100\<close>, the instructions \<open>svc 0\<close>, \<open>svc 1\<close> and so on.\<close>

definition demo_platform :: platform where
  "demo_platform = \<lparr>stacks_address = 0x20001000, heap_start_symbol = 0x20008000,
     heap_end_symbol = 0x2000C000, msp_stack_limit = 0x20017C00, msp_stack_top = 0x20018000,
     idle_entry_address = 0x08001001, trampoline_address = 0x08002001,
     return_guard_address = 0x08003001, trace_storage_address = 0x20010000,
     flash_halfword = (\<lambda>a. 0xDF00 OR (ucast (drop_bit 1 (a - 0x08000100)) AND 0xFF)),
     HAL_NVIC_SetPriority = (\<lambda>i p s f. f(i := p))\<rparr>"

definition zero_kernel :: kernel where
  "zero_kernel = \<lparr>tasks = replicate 5 cleared_tcb, schedules = replicate 5 os_sched_task_zero,
     current_task = 0, yield_excluded_task = 0, pending_switch_cause = 0, pending_preempt_sources = 0,
     monotonic_ticks = 0, reclaim_counter = 0, last_reclaimed = 0, memory_allocator = os_allocator_zero,
     kernel_initialized = False, running = False, has_active_context = 0, trace_ring = None,
     memory_blocks = (\<lambda>_. blank_block), ram = (\<lambda>a. 0), pendsv_set = False, ccr = 0,
     nvic_priority = (\<lambda>i. 0), ipsr = 0, primask = 0, control = 0, psp = 0, msp = 0x20018000\<rparr>"

text \<open>The exception frame of an \<open>svc n\<close> with \<open>arg\<close> in \<open>r0\<close>, at address \<open>p\<close>.\<close>

definition trap_frame :: "u32 \<Rightarrow> u32 \<Rightarrow> u32 \<Rightarrow> (u32 \<Rightarrow> u32) \<Rightarrow> u32 \<Rightarrow> u32" where
  "trap_frame n arg p m = m(p := arg, p + 4 * 6 := 0x08000102 + 2 * n, p + 4 * 7 := OS_XPSR_THUMB)"

definition job_config :: "u32 \<Rightarrow> u32 \<Rightarrow> os_task_config" where
  "job_config entry_address deadline = (let c = os_task_config_default entry_address 7
     in c\<lparr>tc_timing := (tc_timing c)\<lparr>cfg_relative_deadline_ticks := deadline\<rparr>\<rparr>)"

definition state_of :: "('a \<times> 'b) outcome \<Rightarrow> 'b" where
  "state_of r = (case r of Inr (x, k) \<Rightarrow> k)"

definition reached :: "'a outcome \<Rightarrow> 'a" where
  "reached r = (case r of Inr k \<Rightarrow> k)"

definition demo_regs :: "u32 list" where
  "demo_regs = [1, 2, 3, 4, 5, 6, 7, 8]"

definition d0 :: cpu where "d0 = (demo_regs, state_of (os_kernel_init demo_platform zero_kernel))"
definition d1 :: cpu where
  "d1 = (demo_regs, state_of (os_task_create demo_platform (Some (job_config 0x08004001 10)) (Some 0) (snd d0)))"
definition d2 :: cpu where
  "d2 = (demo_regs, state_of (os_task_create demo_platform (Some (job_config 0x08005001 20)) (Some 0) (snd d1)))"
definition d3 :: cpu where "d3 = (demo_regs, state_of (os_kernel_start (snd d2)))"
definition d4 :: cpu where
  "d4 = (demo_regs, (snd d3)\<lparr>ram := trap_frame 0 0 0x20017F00 (ram (snd d3)), msp := 0x20017F00, ipsr := 11\<rparr>)"
definition d5 :: cpu where "d5 = (demo_regs, reached (SVC_Handler demo_platform 0xFFFFFFF9 (snd d4)))"
definition d6 :: cpu where "d6 = reached (PendSV_Handler (demo_regs, (snd d5)\<lparr>pendsv_set := False\<rparr>))"

text \<open>The first task makes the call \<open>n\<close>: it sleeps, or it exits.\<close>

definition traps :: "u32 \<Rightarrow> u32 \<Rightarrow> cpu" where
  "traps n arg = (demo_regs, (snd d6)\<lparr>ram := trap_frame n arg 0x20001480 (ram (snd d6)),
     psp := 0x20001480, ipsr := 11\<rparr>)"

abbreviation d7 :: cpu where "d7 \<equiv> traps 2 3"
abbreviation e7 :: cpu where "e7 \<equiv> traps 3 0"
definition e8 :: cpu where "e8 = (demo_regs, reached (SVC_Handler demo_platform 0xFFFFFFFD (snd e7)))"
definition d8 :: cpu where "d8 = (demo_regs, reached (SVC_Handler demo_platform 0xFFFFFFFD (snd d7)))"
definition d9 :: cpu where "d9 = reached (PendSV_Handler (demo_regs, (snd d8)\<lparr>pendsv_set := False\<rparr>))"
definition d10 :: cpu where "d10 = (fst d9, reached (os_kernel_tick (snd d9)))"
definition d11 :: cpu where "d11 = (fst d9, reached (os_kernel_tick (snd d10)))"
definition d12 :: cpu where "d12 = (fst d9, reached (os_kernel_tick (snd d11)))"
definition d13 :: cpu where "d13 = reached (PendSV_Handler (fst d9, (snd d12)\<lparr>pendsv_set := False\<rparr>))"

section \<open>Start-up\<close>

lemma demo_platform_ok: "platform_ok demo_platform"
  by (simp add: platform_ok_def demo_platform_def)

lemma zero_power_on: "power_on zero_kernel"
  by (simp add: power_on_def zero_kernel_def)

definition job_a :: os_sched_task where
  "job_a = the (snd (os_sched_task_configure (Some (blank_schedule 1)) (Some (tc_timing (job_config 0x08004001 10))) 0))"

definition job_b :: os_sched_task where
  "job_b = the (snd (os_sched_task_configure (Some (blank_schedule 2)) (Some (tc_timing (job_config 0x08005001 20))) 0))"

lemmas job_defs = job_config_def os_task_config_default_def blank_schedule_def os_sched_task_zero_def

lemma job_fields:
  "os_sched_task_configure (Some (blank_schedule 1)) (Some (tc_timing (job_config 0x08004001 10))) 0 = (True, Some job_a)"
  "os_sched_task_configure (Some (blank_schedule 2)) (Some (tc_timing (job_config 0x08005001 20))) 0 = (True, Some job_b)"
  "state job_a = OS_TASK_READY" "state job_b = OS_TASK_READY" "job_active job_a" "job_active job_b"
  "edf_key_of job_a < edf_key_of job_b" "task_id job_a = 1" "task_id job_b = 2"
  by (simp_all add: job_a_def job_b_def job_defs step_unfold os_sched_task_reset_def os_sched_config_valid_def
      os_tick_interval_valid_def edf_key_of_def less_edf_key_def)

lemma d0_facts:
  "kernel_ok demo_platform (snd d0)" "reachable demo_platform d0"
  "schedules (snd d0) = [idle_schedule, blank_schedule 1, blank_schedule 2, blank_schedule 3, blank_schedule 4]"
  "\<not> running (snd d0)" "\<not> pendsv_set (snd d0)" "ipsr (snd d0) = 0" "monotonic_ticks (snd d0) = 0"
  "os_kernel_init demo_platform zero_kernel = Inr (True, snd d0)"
proof -
  obtain ring a H where run: "os_kernel_init demo_platform zero_kernel = Inr (True, booted demo_platform ring a H zero_kernel)"
    "heap_ok a H" "live_blocks a H = []"
    using init_effect [OF demo_platform_ok, of zero_kernel] zero_power_on by (auto simp: power_on_def)
  then have d0: "snd d0 = booted demo_platform ring a H zero_kernel" by (simp add: d0_def state_of_def)
  show "os_kernel_init demo_platform zero_kernel = Inr (True, snd d0)" using run(1) d0 by simp
  from reachable.boot [OF zero_power_on this] show "reachable demo_platform d0" by (simp add: d0_def)
  show "kernel_ok demo_platform (snd d0)"
    unfolding d0 by (rule booted_ok [OF demo_platform_ok _ run(2,3)]) (simp add: zero_kernel_def)
  show "schedules (snd d0) = [idle_schedule, blank_schedule 1, blank_schedule 2, blank_schedule 3, blank_schedule 4]"
    "\<not> running (snd d0)" "\<not> pendsv_set (snd d0)" "ipsr (snd d0) = 0" "monotonic_ticks (snd d0) = 0"
    by (simp_all add: d0 booted_def booted_slots_def blank_schedules_list zero_kernel_def)
qed

text \<open>A creation before the start, in the first free slot.\<close>

lemma demo_create:
  assumes "kernel_ok demo_platform k" and "\<not> running k" and "\<not> pendsv_set k" and "ipsr k = 0"
    and "monotonic_ticks k = 0" and "e \<noteq> 0" and "0 < d" and "d \<le> 1000" and "0 < i" and "i < OS_TASK_COUNT"
    and "schedules k ! i = blank_schedule (of_nat i)"
    and "\<And>j. 0 < j \<Longrightarrow> j < i \<Longrightarrow> state (schedules k ! j) \<noteq> OS_TASK_DORMANT"
    and "os_sched_task_configure (Some (blank_schedule (of_nat i))) (Some (tc_timing (job_config e d))) 0 = (True, Some s)"
  shows "\<exists>k'. os_task_create demo_platform (Some (job_config e d)) (Some 0) k = Inr ((True, Some (of_nat i)), k') \<and>
    kernel_ok demo_platform k' \<and> schedules k' = (schedules k)[i := s] \<and> \<not> running k' \<and> \<not> pendsv_set k' \<and>
    ipsr k' = 0 \<and> monotonic_ticks k' = 0"
proof -
  have "d \<noteq> 0" using assms(7) by auto
  then have guard: "create_guard (job_config e d) k"
    using assms(1,2,4,6,8)
    by (simp add: create_guard_def job_config_def os_task_config_default_def kernel_ok_def creator_allowed_def
        os_sched_config_valid_def os_tick_interval_valid_def word_le_nat_alt word_less_nat_alt unat_sub_le)
  have u: "unat (of_nat i :: os_task_id_t) = i" using of_nat_id_eq(2) [OF assms(10,10)] .
  obtain k' where k': "os_task_create demo_platform (Some (job_config e d)) (Some 0) k = Inr ((True, Some (of_nat i)), k')"
    "kernel_ok demo_platform k'" "quiet k' = quiet (installed demo_platform (job_config e d) (of_nat i) s k)"
    using create_before_start [OF demo_platform_ok assms(1-3) guard assms(9-12), of s 0] assms(5,13) by auto
  with installed_fields [OF k'(3)] assms(2-5) show ?thesis by (simp add: u)
qed

lemma d1_facts:
  "os_task_create demo_platform (Some (job_config 0x08004001 10)) (Some 0) (snd d0) = Inr ((True, Some 1), snd d1)"
  "kernel_ok demo_platform (snd d1)" "schedules (snd d1) = [idle_schedule, job_a, blank_schedule 2, blank_schedule 3, blank_schedule 4]"
  "\<not> running (snd d1)" "\<not> pendsv_set (snd d1)" "ipsr (snd d1) = 0" "monotonic_ticks (snd d1) = 0"
  "reachable demo_platform d1"
proof -
  obtain k' where k': "os_task_create demo_platform (Some (job_config 0x08004001 10)) (Some 0) (snd d0) = Inr ((True, Some 1), k')"
    "kernel_ok demo_platform k'" "schedules k' = (schedules (snd d0))[1 := job_a]" "\<not> running k'" "\<not> pendsv_set k'"
    "ipsr k' = 0" "monotonic_ticks k' = 0"
    using demo_create [OF d0_facts(1,4-7), of "0x08004001" 10 1 job_a] job_fields(1) by (auto simp: d0_facts)
  then have d1: "snd d1 = k'" by (simp add: d1_def state_of_def)
  show "os_task_create demo_platform (Some (job_config 0x08004001 10)) (Some 0) (snd d0) = Inr ((True, Some 1), snd d1)"
    using k'(1) d1 by simp
  from kernel_step.create [OF d0_facts(5) this] have "kernel_step demo_platform d0 d1" by (simp add: d0_def d1_def)
  with d0_facts(2) show "reachable demo_platform d1" by (rule reachable.step)
  show "kernel_ok demo_platform (snd d1)"
    "schedules (snd d1) = [idle_schedule, job_a, blank_schedule 2, blank_schedule 3, blank_schedule 4]"
    "\<not> running (snd d1)" "\<not> pendsv_set (snd d1)" "ipsr (snd d1) = 0" "monotonic_ticks (snd d1) = 0"
    using k' by (simp_all add: d1 d0_facts)
qed

lemma d2_facts:
  "kernel_ok demo_platform (snd d2)" "schedules (snd d2) = [idle_schedule, job_a, job_b, blank_schedule 3, blank_schedule 4]"
  "\<not> running (snd d2)" "\<not> pendsv_set (snd d2)" "ipsr (snd d2) = 0" "monotonic_ticks (snd d2) = 0"
  "reachable demo_platform d2"
proof -
  obtain k' where k': "os_task_create demo_platform (Some (job_config 0x08005001 20)) (Some 0) (snd d1) = Inr ((True, Some 2), k')"
    "kernel_ok demo_platform k'" "schedules k' = (schedules (snd d1))[2 := job_b]" "\<not> running k'" "\<not> pendsv_set k'"
    "ipsr k' = 0" "monotonic_ticks k' = 0"
    using demo_create [OF d1_facts(2,4-7), of "0x08005001" 20 2 job_b] job_fields(2,3) less_2_cases
    by (fastforce simp: d1_facts)
  then have d2: "snd d2 = k'" by (simp add: d2_def state_of_def)
  have "os_task_create demo_platform (Some (job_config 0x08005001 20)) (Some 0) (snd d1) = Inr ((True, Some 2), snd d2)"
    using k'(1) d2 by simp
  from kernel_step.create [OF d1_facts(5) this] have "kernel_step demo_platform d1 d2" by (simp add: d1_def d2_def)
  with d1_facts(8) show "reachable demo_platform d2" by (rule reachable.step)
  show "kernel_ok demo_platform (snd d2)"
    "schedules (snd d2) = [idle_schedule, job_a, job_b, blank_schedule 3, blank_schedule 4]"
    "\<not> running (snd d2)" "\<not> pendsv_set (snd d2)" "ipsr (snd d2) = 0" "monotonic_ticks (snd d2) = 0"
    using k' by (simp_all add: d2 d1_facts)
qed

section \<open>The start of the kernel\<close>

lemma d3_facts:
  "kernel_ok demo_platform (snd d3)" "schedules (snd d3) = schedules (snd d2)" "running (snd d3)" "\<not> pendsv_set (snd d3)"
  "ipsr (snd d3) = 0" "monotonic_ticks (snd d3) = 0" "has_active_context (snd d3) = 0" "reachable demo_platform d3"
proof -
  have init: "kernel_initialized (snd d2)" using d2_facts(1) by (simp add: kernel_ok_def)
  obtain k' where k': "os_kernel_start (snd d2) = Inr (OS_SVC_START, k')"
    using init d2_facts(3) by (simp add: os_kernel_start_def)
  then have d3: "snd d3 = k'" by (simp add: d3_def state_of_def)
  have run: "os_kernel_start (snd d2) = Inr (OS_SVC_START, snd d3)" using k' d3 by simp
  from kernel_step.start [OF this, of demo_platform demo_regs] have "kernel_step demo_platform d2 d3"
    by (simp add: d2_def d3_def)
  with d2_facts(7) show "reachable demo_platform d3" by (rule reachable.step)
  note q = quiet_eqD [OF start_keeps(2) [OF d2_facts(1) run]]
  have "has_active_context (snd d2) = 0"
    using d2_facts(1,3) by (auto simp: kernel_ok_def mode_ok_def split: if_splits)
  then show "schedules (snd d3) = schedules (snd d2)" "running (snd d3)" "\<not> pendsv_set (snd d3)"
    "ipsr (snd d3) = 0" "monotonic_ticks (snd d3) = 0" "has_active_context (snd d3) = 0"
    by (simp_all add: q d2_facts)
  show "kernel_ok demo_platform (snd d3)" by (rule start_keeps(1) [OF d2_facts(1) run])
qed

lemma outside_stacks:
  assumes "a \<notin> {0x20001000..<0x20002400}" and "i < OS_TASK_COUNT"
  shows "\<not> stack_area demo_platform i a"
  using assms by (auto simp: stack_area_def demo_platform_def word_le_nat_alt word_less_nat_alt)

lemma trap_frame_other: "a \<notin> {p, p + 4 * 6, p + 4 * 7} \<Longrightarrow> trap_frame n arg p m a = m a"
  by (simp add: trap_frame_def)

lemma d4_facts:
  "kernel_ok demo_platform (snd d4)" "schedules (snd d4) = schedules (snd d2)" "running (snd d4)" "\<not> pendsv_set (snd d4)"
  "monotonic_ticks (snd d4) = 0" "has_active_context (snd d4) = 0" "current_task (snd d4) = OS_TASK_ID_INVALID"
  "yield_excluded_task (snd d4) = OS_TASK_ID_INVALID" "reachable demo_platform d4"
proof -
  let ?m = "trap_frame 0 0 0x20017F00 (ram (snd d3))"
  have "?m a = ram (snd d3) a" if "i < OS_TASK_COUNT" "stack_area demo_platform i a" for i a
    using outside_stacks [of a i] that by (intro trap_frame_other) auto
  from kernel_step.main [OF d3_facts(7) this, where rs = demo_regs and rs' = demo_regs and p = "0x20017F00" and exception = 11]
  have "kernel_step demo_platform d3 d4" by (simp add: d3_def d4_def)
  with d3_facts(8) show "reachable demo_platform d4" by (rule reachable.step)
  from reachable_ok [OF this demo_platform_ok] show ok: "kernel_ok demo_platform (snd d4)" .
  show active: "has_active_context (snd d4) = 0" by (simp add: d4_def d3_facts)
  show "current_task (snd d4) = OS_TASK_ID_INVALID" "yield_excluded_task (snd d4) = OS_TASK_ID_INVALID"
    using ok active by (simp_all add: kernel_ok_def mode_ok_def)
qed (simp_all add: d4_def d3_facts)

lemma d5_facts:
  "SVC_Handler demo_platform 0xFFFFFFF9 (snd d4) = Inr ((snd d4)\<lparr>pendsv_set := True\<rparr>)"
  "snd d5 = (snd d4)\<lparr>pendsv_set := True\<rparr>" "reachable demo_platform d5" "kernel_ok demo_platform (snd d5)"
proof -
  have ram4: "ram (snd d4) = trap_frame 0 0 0x20017F00 (ram (snd d3))" "msp (snd d4) = 0x20017F00" by (simp_all add: d4_def)
  have "decode_svc demo_platform 0x20017F00 0xFFFFFFF9 (snd d4) = Inr 0"
    by (simp add: decode_svc_def valid_svc_frame_def valid_exc_return_def ram4 trap_frame_def demo_platform_def)
  then show run: "SVC_Handler demo_platform 0xFFFFFFF9 (snd d4) = Inr ((snd d4)\<lparr>pendsv_set := True\<rparr>)"
    by (simp add: SVC_Handler_def os_svc_dispatch_def svc_start_def d4_facts request_pendsv_def ram4)
  then show d5: "snd d5 = (snd d4)\<lparr>pendsv_set := True\<rparr>" by (simp add: d5_def reached_def)
  from kernel_step.svc [OF d4_facts(4,3) run] have "kernel_step demo_platform d4 d5"
    using d5 by (simp add: d4_def d5_def)
  with d4_facts(9) show r: "reachable demo_platform d5" by (rule reachable.step)
  show "kernel_ok demo_platform (snd d5)" using reachable_ok [OF r demo_platform_ok] .
qed

section \<open>Two switches and three ticks\<close>

lemma chosen:
  assumes "dispatch_choice ss excluded nx" and "i \<in> eligible_set ss OS_TASK_COUNT32 excluded"
    and "\<And>j. j \<in> eligible_set ss OS_TASK_COUNT32 excluded \<Longrightarrow> j \<noteq> i \<Longrightarrow> edf_key_of (ss ! i) < edf_key_of (ss ! j)"
  shows "unat nx = i"
proof (rule ccontr)
  assume ne: "unat nx \<noteq> i"
  have some: "eligible_set ss OS_TASK_COUNT32 excluded \<noteq> {}" using assms(2) by blast
  have "unat nx \<in> eligible_set ss OS_TASK_COUNT32 excluded"
    and least: "\<forall>j \<in> eligible_set ss OS_TASK_COUNT32 excluded. j \<noteq> unat nx \<longrightarrow> edf_key_of (ss ! unat nx) < edf_key_of (ss ! j)"
    using assms(1) by (simp_all add: dispatch_choice_def some)
  from assms(3) [OF this(1) ne] least assms(2) ne show False by (metis less_asym)
qed

lemma eligible_small:
  assumes "j \<in> eligible_set ss OS_TASK_COUNT32 excluded"
  shows "(j = 1 \<or> j = 2 \<or> j = 3 \<or> j = 4) \<and> eligible ss excluded j"
  using assms eligible_range [OF assms] by (auto simp: eligible_set_def)

text \<open>Two tasks are ready, the others are dormant: the first is dispatched.\<close>

lemma first_of_two:
  assumes "dispatch_choice [s0, sa, sb, blank_schedule 3, blank_schedule 4] OS_TASK_ID_INVALID nx"
    and "task_id sa = 1" and "state sa = OS_TASK_READY" and "job_active sa" and "edf_key_of sa < edf_key_of sb"
  shows "nx = 1"
proof -
  have "unat nx = 1"
  proof (rule chosen [OF assms(1)])
    fix j
    assume "j \<in> eligible_set [s0, sa, sb, blank_schedule 3, blank_schedule 4] OS_TASK_COUNT32 OS_TASK_ID_INVALID" "j \<noteq> 1"
    with eligible_small [OF this(1)] assms(2-5)
    show "edf_key_of ([s0, sa, sb, blank_schedule 3, blank_schedule 4] ! 1) <
        edf_key_of ([s0, sa, sb, blank_schedule 3, blank_schedule 4] ! j)"
      by (elim conjE disjE) (simp_all add: eligible_def blank_dormant)
  qed (use assms(2-5) in \<open>simp add: eligible_set_def eligible_def\<close>)
  then show ?thesis by (simp add: word_unat_eq_iff)
qed

lemma second_alone:
  assumes "dispatch_choice [s0, sa, sb, blank_schedule 3, blank_schedule 4] OS_TASK_ID_INVALID nx"
    and "state sa \<noteq> OS_TASK_READY" and "task_id sb = 2" and "state sb = OS_TASK_READY" and "job_active sb"
  shows "nx = 2"
proof -
  have "unat nx = 2"
  proof (rule chosen [OF assms(1)])
    fix j
    assume "j \<in> eligible_set [s0, sa, sb, blank_schedule 3, blank_schedule 4] OS_TASK_COUNT32 OS_TASK_ID_INVALID" "j \<noteq> 2"
    with eligible_small [OF this(1)] assms(2-5)
    show "edf_key_of ([s0, sa, sb, blank_schedule 3, blank_schedule 4] ! 2) <
        edf_key_of ([s0, sa, sb, blank_schedule 3, blank_schedule 4] ! j)"
      by (elim conjE disjE) (simp_all add: eligible_def blank_dormant)
  qed (use assms(2-5) in \<open>simp add: eligible_set_def eligible_def\<close>)
  then show ?thesis by (simp add: word_unat_eq_iff)
qed

lemma d6_facts:
  "PendSV_Handler (demo_regs, (snd d5)\<lparr>pendsv_set := False\<rparr>) = Inr d6" "reachable demo_platform d6"
  "kernel_ok demo_platform (snd d6)"
  "schedules (snd d6) = [idle_schedule, job_a\<lparr>state := OS_TASK_RUNNING\<rparr>, job_b, blank_schedule 3, blank_schedule 4]"
  "current_task (snd d6) = 1" "has_active_context (snd d6) = 1" "\<not> pendsv_set (snd d6)" "running (snd d6)"
  "monotonic_ticks (snd d6) = 0"
proof -
  have bounds: "stack_in_bounds (snd d5)" by (simp add: stack_in_bounds_def d5_facts(2) d4_facts)
  have pend: "pendsv_set (snd d5)" by (simp add: d5_facts(2))
  have cur: "current_task (snd d5) = OS_TASK_ID_INVALID" by (simp add: d5_facts(2) d4_facts)
  obtain rs' k' nx where sw: "PendSV_Handler (demo_regs, (snd d5)\<lparr>pendsv_set := False\<rparr>) = Inr (rs', k')"
    "kernel_ok demo_platform k'" "dispatch_choice (schedules (snd d5)) (yield_excluded_task (snd d5)) nx"
    "schedules k' = (schedules (snd d5))[unat nx := (sched (snd d5) nx)\<lparr>state := OS_TASK_RUNNING\<rparr>]" "current_task k' = nx"
    "has_active_context k' = 1" "\<not> pendsv_set k'" "monotonic_ticks k' = monotonic_ticks (snd d5)" "running k'"
    by (rule switch_off_cpu [OF d5_facts(4) pend bounds, of demo_regs]) (use cur in auto)
  have ss: "schedules (snd d5) = [idle_schedule, job_a, job_b, blank_schedule 3, blank_schedule 4]"
    "yield_excluded_task (snd d5) = OS_TASK_ID_INVALID"
    by (simp_all add: d5_facts(2) d4_facts d2_facts)
  have nx: "nx = 1" by (rule first_of_two [OF sw(3) [unfolded ss]]) (simp_all add: job_fields)
  have d6: "d6 = (rs', k')" by (simp add: d6_def sw(1) reached_def)
  then show run: "PendSV_Handler (demo_regs, (snd d5)\<lparr>pendsv_set := False\<rparr>) = Inr d6" using sw(1) by simp
  from kernel_step.switch [OF pend bounds sw(1)] have "kernel_step demo_platform d5 d6"
    by (simp add: d6 d5_def)
  with d5_facts(3) show "reachable demo_platform d6" by (rule reachable.step)
  show "kernel_ok demo_platform (snd d6)"
    "schedules (snd d6) = [idle_schedule, job_a\<lparr>state := OS_TASK_RUNNING\<rparr>, job_b, blank_schedule 3, blank_schedule 4]"
    "current_task (snd d6) = 1" "has_active_context (snd d6) = 1" "\<not> pendsv_set (snd d6)" "running (snd d6)"
    using sw(2,4-7,9) by (simp_all add: d6 nx ss sched_def)
  show "monotonic_ticks (snd d6) = 0" using sw(8) by (simp add: d6 d5_facts(2) d4_facts)
qed

text \<open>A task of the demo that runs: its stack and the frame of a call in it.\<close>

lemma region_low:
  assumes "kernel_ok demo_platform k" and "has_active_context k \<noteq> 0"
  shows "unat (stack_low (tcb k (current_task k))) = 0x20001000 + 1024 * unat (current_task k)"
    "unat (stack_low (tcb k (current_task k))) + 256 \<le> unat (stack_high (tcb k (current_task k)))"
    "unat (stack_high (tcb k (current_task k))) \<le> unat (stack_low (tcb k (current_task k))) + 1024"
  using current_region(2) [OF assms] by (simp_all add: stack_region_def demo_platform_def)

lemma traps_facts:
  fixes n arg defines "c \<equiv> traps n arg"
  shows "kernel_ok demo_platform (snd c)" "reachable demo_platform c" "schedules (snd c) = schedules (snd d6)"
  "current_task (snd c) = 1" "has_active_context (snd c) = 1" "\<not> pendsv_set (snd c)" "running (snd c)"
  "monotonic_ticks (snd c) = 0" "psp (snd c) = 0x20001480" "tasks (snd c) = tasks (snd d6)"
proof -
  let ?m = "trap_frame n arg 0x20001480 (ram (snd d6))"
  have m: "?m a = ram (snd d6) a"
    if "i < OS_TASK_COUNT" "i \<noteq> unat (current_task (snd d6))" "stack_area demo_platform i a" for i a
    by (rule trap_frame_other)
      (use that in \<open>auto simp: d6_facts stack_area_def demo_platform_def\<close>)
  have active: "has_active_context (snd d6) \<noteq> 0" by (simp add: d6_facts)
  from kernel_step.task [OF this m, where rs = "fst d6" and rs' = demo_regs and p = "0x20001480" and exception = 11]
  have "kernel_step demo_platform d6 c" by (simp add: c_def traps_def)
  with d6_facts(2) show "reachable demo_platform c" by (rule reachable.step)
  from reachable_ok [OF this demo_platform_ok] show "kernel_ok demo_platform (snd c)" .
qed (simp_all add: c_def traps_def d6_facts)

lemma traps_call:
  fixes n arg defines "c \<equiv> traps n arg"
  shows "n = 2 \<or> n = 3 \<Longrightarrow> decode_svc demo_platform 0x20001480 0xFFFFFFFD (snd c) = Inr (ucast n)"
    "\<not> svc_caller_bad 0xFFFFFFFD (snd c)" "ram (snd c) 0x20001480 = arg"
    "sched (snd c) 1 = job_a\<lparr>state := OS_TASK_RUNNING\<rparr>"
proof -
  note facts = traps_facts [of n arg, folded c_def]
  show s: "sched (snd c) 1 = job_a\<lparr>state := OS_TASK_RUNNING\<rparr>" by (simp add: sched_def facts d6_facts)
  then show "\<not> svc_caller_bad 0xFFFFFFFD (snd c)" by (simp add: svc_caller_bad_def facts)
  have ram7: "ram (snd c) = trap_frame n arg 0x20001480 (ram (snd d6))" by (simp add: c_def traps_def)
  then show "ram (snd c) 0x20001480 = arg" by (simp add: trap_frame_def)
  have "has_active_context (snd c) \<noteq> 0" by (simp add: facts)
  from region_low [OF facts(1) this]
  have "stack_low (tcb (snd c) 1) \<le> 0x20001480" "0x200014A0 \<le> stack_high (tcb (snd c) 1)"
    by (simp_all add: facts word_le_nat_alt)
  then have frame: "valid_svc_frame demo_platform 0x20001480 0xFFFFFFFD (snd c)"
    by (simp add: valid_svc_frame_def valid_exc_return_def facts)
  show "decode_svc demo_platform 0x20001480 0xFFFFFFFD (snd c) = Inr (ucast n)" if "n = 2 \<or> n = 3"
    using that frame
    by (elim disjE) (simp_all add: decode_svc_def ram7 trap_frame_def, simp_all add: demo_platform_def)
qed

lemmas d7_facts = traps_facts [of 2 3]
lemmas d7_call = traps_call(1) [of 2 3, simplified] traps_call(2-4) [of 2 3]

lemma traps_step:
  assumes "SVC_Handler demo_platform 0xFFFFFFFD (snd (traps n arg)) = Inr k'"
  shows "reachable demo_platform (demo_regs, k')"
proof -
  have "traps n arg = (demo_regs, snd (traps n arg))" by (simp add: traps_def)
  with kernel_step.svc [OF traps_facts(6,7) assms, of demo_regs]
  have "kernel_step demo_platform (traps n arg) (demo_regs, k')" by simp
  with traps_facts(2) show ?thesis by (rule reachable.step)
qed

lemma d8_facts:
  "SVC_Handler demo_platform 0xFFFFFFFD (snd d7) = Inr (snd d8)" "reachable demo_platform d8"
  "kernel_ok demo_platform (snd d8)" "pendsv_set (snd d8)" "current_task (snd d8) = 1" "has_active_context (snd d8) = 1"
  "yield_excluded_task (snd d8) = OS_TASK_ID_INVALID" "monotonic_ticks (snd d8) = 0"
  "schedules (snd d8) = [idle_schedule, sched (snd d8) 1, job_b, blank_schedule 3, blank_schedule 4]"
  "state (sched (snd d8) 1) = OS_TASK_SLEEPING" "wake_order (sched (snd d8) 1) = 3"
  "psp (snd d8) = 0x20001480" "tasks (snd d8) = tasks (snd d6)"
  "edf_key_of (sched (snd d8) 1) = edf_key_of job_a"
proof -
  have "unat (current_task (snd d7)) = 1" "length (schedules (snd d7)) = OS_TASK_COUNT" by (simp_all add: d7_facts d6_facts)
  note call = d7_call(1,3) d7_facts(4)
  have "sleep_allowed 3 (snd d7)" by (simp add: sleep_allowed_def d7_facts)
  with svc_sleep_effect [OF d7_facts(1) d7_call(2) d7_facts(6), of 3]
  obtain k' where k': "svc_sleep 0xFFFFFFFD 3 (snd d7) = Inr k'"
    "traps_to demo_platform OS_TASK_SLEEPING (snd d7) (request_pendsv k')"
    "unat (wake_order (sched k' 1)) = 3" "edf_key_of (sched k' 1) = edf_key_of job_a"
    by (auto simp: d7_facts d7_call(4))
  have run: "SVC_Handler demo_platform 0xFFFFFFFD (snd d7) = Inr (request_pendsv k')"
    by (simp add: SVC_Handler_def os_svc_dispatch_def d7_facts(9) call k'(1))
  have d8: "snd d8 = request_pendsv k'" by (simp add: d8_def run reached_def)
  with run show h: "SVC_Handler demo_platform 0xFFFFFFFD (snd d7) = Inr (snd d8)" by simp
  from traps_step [OF h] show "reachable demo_platform d8" by (simp add: d8_def)
  from reachable_ok [OF this demo_platform_ok] show ok: "kernel_ok demo_platform (snd d8)" .
  have "has_active_context (snd d7) \<noteq> 0" by (simp add: d7_facts)
  note keep = traps_to_keeps [OF d7_facts(1) this d7_facts(6) k'(2), folded d8, unfolded d7_facts(4)]
  show "pendsv_set (snd d8)" "current_task (snd d8) = 1" "has_active_context (snd d8) = 1"
    "state (sched (snd d8) 1) = OS_TASK_SLEEPING" "tasks (snd d8) = tasks (snd d6)"
    using keep(2-5,7) by (simp_all add: d7_facts)
  have others: "schedules (snd d8) ! i = schedules (snd d7) ! i" if "i \<noteq> 1" for i using keep(6) that by simp
  have len: "length (schedules (snd d8)) = OS_TASK_COUNT" using ok by (simp add: kernel_ok_def slots_ok_def)
  then obtain a b c d e where l: "schedules (snd d8) = [a, b, c, d, e]" using five_elements by blast
  show "schedules (snd d8) = [idle_schedule, sched (snd d8) 1, job_b, blank_schedule 3, blank_schedule 4]"
    using others [of 0] others [of 2] others [of 3] others [of 4] by (simp add: l d7_facts d6_facts sched_def)
  show "wake_order (sched (snd d8) 1) = 3" "edf_key_of (sched (snd d8) 1) = edf_key_of job_a"
    using k'(3,4) by (simp_all add: d8 request_pendsv_def sched_def word_unat_eq_iff)
  obtain s y where t: "quiet (snd d8) = quiet (trapped s y (snd d7))" "y = OS_TASK_ID_INVALID"
    using k'(2) by (auto simp: traps_to_def d8)
  then show "yield_excluded_task (snd d8) = OS_TASK_ID_INVALID" "monotonic_ticks (snd d8) = 0"
    using quiet_eqD(4,6) [OF t(1)] by (simp_all add: trapped_def d7_facts)
  have "psp (quiet (snd d8)) = psp (snd d7)" unfolding t(1) by (simp add: quiet_def trapped_def)
  then show "psp (snd d8) = 0x20001480" by (simp add: quiet_def d7_facts)
qed

lemma d8_bounds: "stack_in_bounds (snd d8)"
proof -
  have "has_active_context (snd d8) \<noteq> 0" by (simp add: d8_facts)
  from region_low [OF d8_facts(3) this] show ?thesis
    by (simp add: stack_in_bounds_def psp_ok_def d8_facts)
qed

lemma d9_facts:
  "PendSV_Handler (demo_regs, (snd d8)\<lparr>pendsv_set := False\<rparr>) = Inr d9" "reachable demo_platform d9"
  "kernel_ok demo_platform (snd d9)" "current_task (snd d9) = 2" "has_active_context (snd d9) = 1" "\<not> pendsv_set (snd d9)"
  "monotonic_ticks (snd d9) = 0" "running (snd d9)"
  "schedules (snd d9) = [idle_schedule, sched (snd d8) 1, job_b\<lparr>state := OS_TASK_RUNNING\<rparr>, blank_schedule 3, blank_schedule 4]"
  "stack_in_bounds (snd d9)"
proof -
  have off: "current_task (snd d8) = OS_TASK_ID_INVALID \<or> off_cpu (sched (snd d8) (current_task (snd d8)))"
    by (simp add: d8_facts off_cpu_def)
  obtain rs' k' nx where sw: "PendSV_Handler (demo_regs, (snd d8)\<lparr>pendsv_set := False\<rparr>) = Inr (rs', k')"
    "kernel_ok demo_platform k'" "dispatch_choice (schedules (snd d8)) (yield_excluded_task (snd d8)) nx"
    "schedules k' = (schedules (snd d8))[unat nx := (sched (snd d8) nx)\<lparr>state := OS_TASK_RUNNING\<rparr>]" "current_task k' = nx"
    "has_active_context k' = 1" "\<not> pendsv_set k'" "monotonic_ticks k' = monotonic_ticks (snd d8)" "running k'"
    "psp k' = saved_psp (tcb k' nx) + 32"
    by (rule switch_off_cpu [OF d8_facts(3,4) d8_bounds off, of demo_regs])
  have nx: "nx = 2"
    by (rule second_alone [of idle_schedule "sched (snd d8) 1" job_b])
      (use sw(3) d8_facts(7,9) in \<open>simp_all add: d8_facts job_fields\<close>)
  have d9: "d9 = (rs', k')" by (simp add: d9_def sw(1) reached_def)
  then show "PendSV_Handler (demo_regs, (snd d8)\<lparr>pendsv_set := False\<rparr>) = Inr d9" using sw(1) by simp
  from kernel_step.switch [OF d8_facts(4) d8_bounds sw(1)] have "kernel_step demo_platform d8 d9"
    by (simp add: d9 d8_def)
  with d8_facts(2) show "reachable demo_platform d9" by (rule reachable.step)
  have ss: "schedules k' = [idle_schedule, sched (snd d8) 1, job_b\<lparr>state := OS_TASK_RUNNING\<rparr>, blank_schedule 3, blank_schedule 4]"
  proof -
    define s1 where "s1 = sched (snd d8) 1"
    have "schedules (snd d8) = [idle_schedule, s1, job_b, blank_schedule 3, blank_schedule 4]"
      using d8_facts(9) by (simp add: s1_def)
    then show ?thesis unfolding sw(4) nx s1_def [symmetric] by (simp add: sched_def)
  qed
  then show "kernel_ok demo_platform (snd d9)" "current_task (snd d9) = 2" "has_active_context (snd d9) = 1" "\<not> pendsv_set (snd d9)"
    "monotonic_ticks (snd d9) = 0" "running (snd d9)"
    "schedules (snd d9) = [idle_schedule, sched (snd d8) 1, job_b\<lparr>state := OS_TASK_RUNNING\<rparr>, blank_schedule 3, blank_schedule 4]"
    using sw(2,5-9) by (simp_all add: d9 nx d8_facts)
  have "slot_ok demo_platform 2 (sched k' 2) (tcb k' 2)"
    using slots_okD [of demo_platform k' 2] sw(2) by (simp add: kernel_ok_def)
  moreover have "state (sched k' 2) = OS_TASK_RUNNING" by (simp add: sched_def ss)
  ultimately show "stack_in_bounds (snd d9)" using sw(5,10) by (simp add: stack_in_bounds_def d9 nx slot_ok_def)
qed

text \<open>The other continuation: the first task exits.\<close>

lemma e8_facts:
  "SVC_Handler demo_platform 0xFFFFFFFD (snd e7) = Inr (snd e8)" "reachable demo_platform e8"
  "kernel_ok demo_platform (snd e8)" "pendsv_set (snd e8)" "current_task (snd e8) = 1" "has_active_context (snd e8) = 1"
  "state (sched (snd e8) 1) = OS_TASK_EXITING" "stack_in_bounds (snd e8)"
proof -
  note f = traps_facts [of 3 0] and call = traps_call [of 3 0]
  have "current_task (snd e7) \<noteq> 0" by (simp add: f)
  from svc_exit_effect [OF f(1) call(2) f(6) this] obtain k' where
    k': "svc_exit 0xFFFFFFFD (snd e7) = Inr k'" "traps_to demo_platform OS_TASK_EXITING (snd e7) (request_pendsv k')" by blast
  have run: "SVC_Handler demo_platform 0xFFFFFFFD (snd e7) = Inr (request_pendsv k')"
    using call(1) by (simp add: SVC_Handler_def os_svc_dispatch_def f(9) k'(1))
  have e8: "snd e8 = request_pendsv k'" by (simp add: e8_def run reached_def)
  with run show h: "SVC_Handler demo_platform 0xFFFFFFFD (snd e7) = Inr (snd e8)" by simp
  from traps_step [OF h] show "reachable demo_platform e8" by (simp add: e8_def)
  from reachable_ok [OF this demo_platform_ok] show ok: "kernel_ok demo_platform (snd e8)" .
  have "has_active_context (snd e7) \<noteq> 0" by (simp add: f)
  note keep = traps_to_keeps [OF f(1) this f(6) k'(2), folded e8, unfolded f(4)]
  show "pendsv_set (snd e8)" "current_task (snd e8) = 1" "has_active_context (snd e8) = 1"
    "state (sched (snd e8) 1) = OS_TASK_EXITING"
    using keep(2-5) by (simp_all add: f)
  obtain s y where t: "quiet (snd e8) = quiet (trapped s y (snd e7))" using k'(2) by (auto simp: traps_to_def e8)
  have "psp (quiet (snd e8)) = psp (snd e7)" unfolding t by (simp add: quiet_def trapped_def)
  then have "psp (snd e8) = 0x20001480" by (simp add: quiet_def f)
  moreover have "has_active_context (snd e8) \<noteq> 0" using keep(3) by (simp add: f)
  moreover from region_low [OF ok this] have "psp_ok (tcb (snd e8) 1) (0x20001480 - 32)"
    using keep(4) by (simp add: psp_ok_def f)
  ultimately show "stack_in_bounds (snd e8)" using keep(4) by (simp add: stack_in_bounds_def f)
qed

text \<open>The second task runs at tick \<open>n\<close>, the first sleeps until tick 3.\<close>

definition asleep :: "u64 \<Rightarrow> kernel \<Rightarrow> bool" where
  "asleep n k \<longleftrightarrow> kernel_ok demo_platform k \<and> running k \<and> \<not> pendsv_set k \<and> current_task k = 2 \<and>
     has_active_context k \<noteq> 0 \<and> monotonic_ticks k = n \<and> state (sched k 1) = OS_TASK_SLEEPING \<and>
     wake_order (sched k 1) = 3 \<and> edf_key_of (sched k 1) = edf_key_of job_a \<and>
     state (sched k 2) = OS_TASK_RUNNING \<and> edf_key_of (sched k 2) = edf_key_of job_b \<and>
     state (sched k 3) = OS_TASK_DORMANT \<and> state (sched k 4) = OS_TASK_DORMANT \<and> stack_in_bounds k"

lemma asleep_d9: "asleep 0 (snd d9)"
proof -
  define s1 where "s1 = sched (snd d8) 1"
  have l: "schedules (snd d9) = [idle_schedule, s1, job_b\<lparr>state := OS_TASK_RUNNING\<rparr>, blank_schedule 3, blank_schedule 4]"
    using d9_facts(9) by (simp add: s1_def)
  have "state s1 = OS_TASK_SLEEPING" "wake_order s1 = 3" "edf_key_of s1 = edf_key_of job_a"
    using d8_facts(10,11,14) by (simp_all add: s1_def)
  then show ?thesis using d9_facts(3-8,10) by (simp add: asleep_def sched_def l blank_dormant)
qed

lemma asleep_ready:
  assumes "asleep n k" and "unat n < 5"
  shows "tick_range k" "\<And>i. i \<in> {1..<OS_TASK_COUNT} \<Longrightarrow> ready_now (n + 1) (schedules k ! i) \<longleftrightarrow> i = 1 \<and> 3 \<le> n + 1"
proof -
  show "tick_range k" using assms by (simp add: tick_range_def asleep_def)
  fix i :: nat
  assume "i \<in> {1..<OS_TASK_COUNT}"
  then consider "i = 1" | "i = 2" | "i = 3" | "i = 4" by fastforce
  then show "ready_now (n + 1) (schedules k ! i) \<longleftrightarrow> i = 1 \<and> 3 \<le> n + 1"
    using assms(1) by cases (simp_all add: asleep_def sched_def ready_now_def release_now_def wake_now_def)
qed

text \<open>What every tick of the demo keeps.\<close>

lemma asleep_loop:
  assumes "asleep n k" and "unat n < 5"
  shows "edf_key_of (sched (after_loop k) 1) = edf_key_of job_a" "edf_key_of (sched (after_loop k) 2) = edf_key_of job_b"
    "state (sched (after_loop k) 1) = (if 3 \<le> n + 1 then OS_TASK_READY else OS_TASK_SLEEPING)"
    "state (sched (after_loop k) 2) = OS_TASK_RUNNING" "state (sched (after_loop k) 3) = OS_TASK_DORMANT"
    "state (sched (after_loop k) 4) = OS_TASK_DORMANT" "job_active (sched (after_loop k) 1)"
    "n + 1 < 3 \<Longrightarrow> wake_order (sched (after_loop k) 1) = 3" "slots_ok demo_platform (after_loop k)"
proof -
  have ok: "kernel_ok demo_platform k" "slots_ok demo_platform k" and now: "monotonic_ticks k = n"
    using assms(1) by (simp_all add: asleep_def kernel_ok_def)
  note range = asleep_ready(1) [OF assms]
  have loop: "state (sched (after_loop k) i) = (if ready_now (n + 1) (sched k i) then OS_TASK_READY else state (sched k i))"
    "job_active (sched k i) \<Longrightarrow> edf_key_of (sched (after_loop k) i) = edf_key_of (sched k i) \<and> job_active (sched (after_loop k) i)"
    if "unat i < OS_TASK_COUNT" for i
    using after_loop_nth(3,4) [OF ok(2) range that] now by (simp_all add: sched_def)
  have ready: "ready_now (n + 1) (sched k i) \<longleftrightarrow> i = 1 \<and> 3 \<le> n + 1" if "0 < unat i" "unat i < OS_TASK_COUNT" for i
    using asleep_ready(2) [OF assms, of "unat i"] that by (auto simp: sched_def word_unat_eq_iff)
  have act: "job_active (sched k 1)" "job_active (sched k 2)"
    using slots_okD [OF ok(2), of 1] slots_okD [OF ok(2), of 2] assms(1)
    by (auto simp: slot_ok_def asleep_def sched_task_wf_def)
  show "edf_key_of (sched (after_loop k) 1) = edf_key_of job_a" "edf_key_of (sched (after_loop k) 2) = edf_key_of job_b"
    "state (sched (after_loop k) 1) = (if 3 \<le> n + 1 then OS_TASK_READY else OS_TASK_SLEEPING)"
    "state (sched (after_loop k) 2) = OS_TASK_RUNNING" "state (sched (after_loop k) 3) = OS_TASK_DORMANT"
    "state (sched (after_loop k) 4) = OS_TASK_DORMANT" "job_active (sched (after_loop k) 1)"
    using loop [of 1] loop [of 2] loop [of 3] loop [of 4] ready [of 1] ready [of 2] ready [of 3] ready [of 4] act assms(1)
    by (simp_all add: asleep_def)
  show "slots_ok demo_platform (after_loop k)" using after_loop_keeps [OF ok(1) range] by (simp add: kernel_ok_def)
  show "wake_order (sched (after_loop k) 1) = 3" if "n + 1 < 3"
  proof -
    have slot: "slot_ok demo_platform 1 (sched k 1) (tcb k 1)" using slots_okD [OF ok(2), of 1] by simp
    have wait: "waits (sched k 1)" "n + 1 < due_tick (sched k 1)"
      using assms(1) that by (simp_all add: asleep_def waits_def due_tick_def)
    have "sched (after_loop k) 1 = tick_record (n + 1) (sched k 1)"
      using after_loop_nth(1) [OF ok(2) range, of 1] now by (simp add: sched_def)
    with tick_record_waits [OF slot _ wait] tick_range_next(2) [OF range] now assms(1)
    show ?thesis by (simp add: due_tick_def asleep_def)
  qed
qed

lemma demo_tick:
  assumes "asleep n k" and "unat n < 5"
  shows "\<exists>k'. os_kernel_tick k = Inr k' \<and> kernel_ok demo_platform k' \<and>
    quiet k' = quiet (if 3 \<le> n + 1 then tick_preempted (after_loop k) else after_loop k)"
proof -
  have ok: "kernel_ok demo_platform k" "running k" and now: "monotonic_ticks k = n"
    using assms(1) by (simp_all add: asleep_def)
  note loop = asleep_loop [OF assms]
  have cur: "current_task (after_loop k) = 2" using assms(1) by (simp add: after_loop_def asleep_def)
  have out: "outranked (after_loop k)" if "3 \<le> n + 1"
  proof -
    have "slot_ok demo_platform 1 (sched (after_loop k) 1) (tcb (after_loop k) 1)"
      using slots_okD [OF loop(9), of 1] by simp
    then have "ready_user_job (sched (after_loop k) 1)" using loop(3,7) that by (simp add: ready_user_job_def slot_ok_def)
    moreover have "edf_key_of (sched (after_loop k) 1) < edf_key_of (sched (after_loop k) 2)"
      using loop(1,2) job_fields(7) by simp
    ultimately show ?thesis unfolding outranked_def cur
      by (intro exI [of _ 1]) (simp add: sched_def)
  qed
  have "tick_switches k \<longleftrightarrow> 3 \<le> n + 1"
  proof -
    have "(\<exists>i \<in> {1..<OS_TASK_COUNT}. ready_now (monotonic_ticks k + 1) (schedules k ! i)) \<longleftrightarrow> 3 \<le> n + 1"
      using asleep_ready(2) [OF assms] unfolding now by (auto intro!: bexI [of _ 1])
    then show ?thesis using out assms(1) by (auto simp: tick_switches_def asleep_def)
  qed
  with tick_effect [OF ok asleep_ready(1) [OF assms]] show ?thesis by simp
qed

lemma asleep_tick:
  assumes "asleep n k" and "unat n < 2"
  shows "\<exists>k'. os_kernel_tick k = Inr k' \<and> asleep (n + 1) k'"
proof -
  have n: "unat (n + 1) = unat n + 1" using assms(2) unat_add64 [of n 1] by simp
  then have early: "n + 1 < 3" "\<not> 3 \<le> n + 1" using assms(2) by (simp_all add: word_less_nat_alt word_le_nat_alt)
  have small: "unat n < 5" using assms(2) by simp
  from demo_tick [OF assms(1) small] early obtain k' where
    k': "os_kernel_tick k = Inr k'" "kernel_ok demo_platform k'" "quiet k' = quiet (after_loop k)" by auto
  note q = quiet_eqD [OF k'(3)]
  have "psp (quiet k') = psp (quiet (after_loop k))" unfolding k'(3) ..
  then have psp: "psp k' = psp k" by (simp add: quiet_def after_loop_def)
  have s: "sched k' = sched (after_loop k)" by (simp add: sched_def fun_eq_iff q(2))
  have bounds: "stack_in_bounds k' = stack_in_bounds k"
    by (simp add: stack_in_bounds_def tcb_def q(1,3,12) psp after_loop_def)
  have "asleep (n + 1) k'"
    using assms(1) k'(2) asleep_loop(1-6,8) [OF assms(1) small] early
    by (simp add: asleep_def s q(3,6,11,12,15) bounds) (simp add: after_loop_def)
  with k'(1) show ?thesis by blast
qed

lemma ticking:
  assumes "tick_range k" and "os_kernel_tick k = Inr k'"
  shows "kernel_step demo_platform (rs, k) (rs, k')"
  using kernel_step.tick [OF assms] .

lemma d10_facts: "asleep 1 (snd d10)" "kernel_step demo_platform d9 d10"
  and d11_facts: "asleep 2 (snd d11)" "kernel_step demo_platform d10 d11"
proof -
  obtain k1 where k1: "os_kernel_tick (snd d9) = Inr k1" "asleep 1 k1" using asleep_tick [OF asleep_d9] by auto
  then have d10: "d10 = (fst d9, k1)" by (simp add: d10_def reached_def)
  show "asleep 1 (snd d10)" using k1(2) by (simp add: d10)
  have "tick_range (snd d9)" using asleep_ready(1) [OF asleep_d9] by simp
  from ticking [OF this k1(1), of "fst d9"] show "kernel_step demo_platform d9 d10" by (simp add: d10)
  obtain k2 where k2: "os_kernel_tick (snd d10) = Inr k2" "asleep 2 k2"
    using asleep_tick [OF k1(2)] by (auto simp: d10)
  then have d11: "d11 = (fst d9, k2)" by (simp add: d11_def reached_def)
  show "asleep 2 (snd d11)" using k2(2) by (simp add: d11)
  have "tick_range (snd d10)" using asleep_ready(1) [OF k1(2)] by (simp add: d10)
  from ticking [OF this k2(1), of "fst d9"] show "kernel_step demo_platform d10 d11" by (simp add: d10 d11)
qed

lemma d12_facts:
  "kernel_step demo_platform d11 d12" "kernel_ok demo_platform (snd d12)" "pendsv_set (snd d12)"
  "current_task (snd d12) = 2" "monotonic_ticks (snd d12) = 3" "stack_in_bounds (snd d12)"
  "state (sched (snd d12) 1) = OS_TASK_READY" "state (sched (snd d12) 2) = OS_TASK_READY"
  "state (sched (snd d12) 3) = OS_TASK_DORMANT" "state (sched (snd d12) 4) = OS_TASK_DORMANT"
  "edf_key_of (sched (snd d12) 1) < edf_key_of (sched (snd d12) 2)" "job_active (sched (snd d12) 1)"
  "has_active_context (snd d12) \<noteq> 0" "yield_excluded_task (snd d12) = OS_TASK_ID_INVALID"
proof -
  let ?k = "snd d11"
  from demo_tick [OF d11_facts(1)] obtain k' where k': "os_kernel_tick ?k = Inr k'" "kernel_ok demo_platform k'"
    "quiet k' = quiet (tick_preempted (after_loop ?k))" by auto
  have d12: "d12 = (fst d9, k')" by (simp add: d12_def k'(1) reached_def)
  have range: "tick_range ?k" using asleep_ready(1) [OF d11_facts(1)] by simp
  have "d11 = (fst d9, ?k)" by (simp add: d11_def)
  with ticking [OF range k'(1), of "fst d9"] show "kernel_step demo_platform d11 d12" by (simp add: d12)
  show "kernel_ok demo_platform (snd d12)" by (simp add: d12 k'(2))
  have a: "current_task ?k = 2" "monotonic_ticks ?k = 2" "stack_in_bounds ?k" "has_active_context ?k \<noteq> 0"
    "length (schedules ?k) = OS_TASK_COUNT"
    using d11_facts(1) by (simp_all add: asleep_def kernel_ok_def slots_ok_def)
  have "unat (2 :: u64) < 5" by simp
  note loop = asleep_loop [OF d11_facts(1) this]
  note q = quiet_eqD [OF k'(3)]
  have "psp (quiet k') = psp (quiet (tick_preempted (after_loop ?k)))" unfolding k'(3) ..
  then have psp: "psp k' = psp ?k" by (simp add: quiet_def after_loop_def tick_preempted_def)
  have cur: "current_task (after_loop ?k) = 2" using a(1) by (simp add: after_loop_def)
  have s: "sched k' i = (if i = 2 then (sched (after_loop ?k) 2)\<lparr>state := OS_TASK_READY\<rparr> else sched (after_loop ?k) i)"
    if "unat i < OS_TASK_COUNT" for i
    using that a(5) by (simp add: sched_def q(2) tick_preempted_def cur nth_list_update word_unat_eq_iff)
      (simp add: after_loop_def)
  show "pendsv_set (snd d12)" "current_task (snd d12) = 2" "monotonic_ticks (snd d12) = 3" "stack_in_bounds (snd d12)"
    "has_active_context (snd d12) \<noteq> 0"
    using a by (simp_all add: d12 q(3,6,12,15) tick_preempted_def after_loop_def stack_in_bounds_def tcb_def q(1) psp)
  have fields: "state (sched k' 1) = OS_TASK_READY" "state (sched k' 2) = OS_TASK_READY"
    "state (sched k' 3) = OS_TASK_DORMANT" "state (sched k' 4) = OS_TASK_DORMANT"
    "edf_key_of (sched k' 1) < edf_key_of (sched k' 2)" "job_active (sched k' 1)"
    using s [of 1] s [of 2] s [of 3] s [of 4] loop job_fields(7) by simp_all
  then show "state (sched (snd d12) 1) = OS_TASK_READY" "state (sched (snd d12) 2) = OS_TASK_READY"
    "state (sched (snd d12) 3) = OS_TASK_DORMANT" "state (sched (snd d12) 4) = OS_TASK_DORMANT"
    "edf_key_of (sched (snd d12) 1) < edf_key_of (sched (snd d12) 2)" "job_active (sched (snd d12) 1)"
    by (simp_all add: d12)
  have "yield_excluded_task ?k = OS_TASK_ID_INVALID"
    using d11_facts(1) by (auto simp: asleep_def kernel_ok_def mode_ok_def)
  then show "yield_excluded_task (snd d12) = OS_TASK_ID_INVALID"
    by (simp add: d12 q(4) tick_preempted_def after_loop_def)
qed

lemma d13_facts:
  "PendSV_Handler (fst d9, (snd d12)\<lparr>pendsv_set := False\<rparr>) = Inr d13" "kernel_step demo_platform d12 d13"
  "current_task (snd d13) = 1" "\<not> pendsv_set (snd d13)" "running (snd d13)" "has_active_context (snd d13) = 1"
proof -
  have off: "current_task (snd d12) = OS_TASK_ID_INVALID \<or> off_cpu (sched (snd d12) (current_task (snd d12)))"
    by (simp add: d12_facts off_cpu_def)
  obtain rs' k' nx where sw: "PendSV_Handler (fst d9, (snd d12)\<lparr>pendsv_set := False\<rparr>) = Inr (rs', k')"
    "dispatch_choice (schedules (snd d12)) (yield_excluded_task (snd d12)) nx" "unat nx < OS_TASK_COUNT"
    "current_task k' = nx" "\<not> pendsv_set k'" "running k'" "has_active_context k' = 1"
    by (rule switch_off_cpu [OF d12_facts(2,3,6) off, of "fst d9"])
  have s: "schedules (snd d12) ! i = sched (snd d12) (of_nat i)" if "i < OS_TASK_COUNT" for i
    using of_nat_id_eq(2) [OF that that] by (simp add: sched_def)
  have slot: "task_id (sched (snd d12) 1) = 1"
    using slots_okD [of demo_platform "snd d12" 1] d12_facts(2) by (simp add: kernel_ok_def slot_ok_def)
  have "unat nx = 1"
  proof (rule chosen [OF sw(2)])
    show "1 \<in> eligible_set (schedules (snd d12)) OS_TASK_COUNT32 (yield_excluded_task (snd d12))"
      using s [of 1] slot by (simp add: eligible_set_def eligible_def d12_facts)
    fix j
    assume j: "j \<in> eligible_set (schedules (snd d12)) OS_TASK_COUNT32 (yield_excluded_task (snd d12))" "j \<noteq> 1"
    with eligible_small [OF j(1)] s [of 1] s [of j]
    show "edf_key_of (schedules (snd d12) ! 1) < edf_key_of (schedules (snd d12) ! j)"
      by (elim conjE disjE) (simp_all add: eligible_def d12_facts)
  qed
  then have nx: "nx = 1" by (simp add: word_unat_eq_iff)
  have d13: "d13 = (rs', k')" by (simp add: d13_def sw(1) reached_def)
  then show "PendSV_Handler (fst d9, (snd d12)\<lparr>pendsv_set := False\<rparr>) = Inr d13" using sw(1) by simp
  have "d12 = (fst d9, snd d12)" by (simp add: d12_def)
  with kernel_step.switch [OF d12_facts(3,6) sw(1)] show "kernel_step demo_platform d12 d13" by (simp add: d13)
  show "current_task (snd d13) = 1" "\<not> pendsv_set (snd d13)" "running (snd d13)" "has_active_context (snd d13) = 1"
    using sw(4-7) by (simp_all add: d13 nx)
qed

lemma demo_reachable: "reachable demo_platform d10" "reachable demo_platform d11" "reachable demo_platform d12"
  "reachable demo_platform d13"
  using reachable.step [OF d9_facts(2) d10_facts(2)] reachable.step [OF _ d11_facts(2)]
    reachable.step [OF _ d12_facts(1)] reachable.step [OF _ d13_facts(2)] by blast+

end
