(* ===== verification/Kernel_Claims.thy ===== *)
theory Kernel_Claims
  imports Kernel_Demo
begin

text \<open>
  The properties of the kernel. They hold in every state that the system reaches after
  \<open>os_kernel_init\<close> by the steps of \<open>kernel_step\<close>; the witnesses are states of the run of the
  theory before.
\<close>

section \<open>One running task\<close>

lemma kernel_ok_one_running:
  assumes "kernel_ok P k" and "i < OS_TASK_COUNT" and "state (schedules k ! i) = OS_TASK_RUNNING"
  shows "has_active_context k \<noteq> 0 \<and> i = unat (current_task k)"
  using assms by (auto simp: kernel_ok_def mode_ok_def off_cpu_def split: if_splits)

lemma kernel_ok_current_running:
  assumes "kernel_ok P k" and "has_active_context k \<noteq> 0" and "\<not> pendsv_set k"
  shows "unat (current_task k) < OS_TASK_COUNT" "state (sched k (current_task k)) = OS_TASK_RUNNING"
  using assms by (simp_all add: kernel_ok_def mode_ok_def)

text \<open>
  C1: in every reachable state at most one task is RUNNING, and it is the current task; once the
  first task has been dispatched and no switch is pending, the current task is RUNNING. Every live
  task has a stack of its own, inside the static array, disjoint from the stacks of the others, and
  while it is off the processor its saved stack pointer leaves room in that stack for the sixteen
  words of a context.
\<close>

theorem one_running_task_own_stack:
  assumes "platform_ok P" and "reachable P (rs, k)" and "i < OS_TASK_COUNT" and "j < OS_TASK_COUNT"
  shows "(state (schedules k ! i) = OS_TASK_RUNNING \<longrightarrow> has_active_context k \<noteq> 0 \<and> i = unat (current_task k)) \<and>
    (has_active_context k \<noteq> 0 \<and> \<not> pendsv_set k \<longrightarrow> state (sched k (current_task k)) = OS_TASK_RUNNING) \<and>
    (state (schedules k ! i) \<noteq> OS_TASK_DORMANT \<longrightarrow>
       unat (stacks_address P) + 1024 * i = unat (stack_low (tasks k ! i)) \<and>
       unat (stack_high (tasks k ! i)) \<le> unat (stacks_address P) + 1024 * (i + 1) \<and>
       unat (stack_low (tasks k ! i)) \<le> unat (saved_psp (tasks k ! i)) \<and>
       unat (saved_psp (tasks k ! i)) + 64 \<le> unat (stack_high (tasks k ! i))) \<and>
    (state (schedules k ! i) \<noteq> OS_TASK_DORMANT \<and> state (schedules k ! j) \<noteq> OS_TASK_DORMANT \<and> i < j \<longrightarrow>
       stack_high (tasks k ! i) \<le> stack_low (tasks k ! j))"
proof -
  have ok: "kernel_ok P k" using reachable_ok [OF assms(2,1)] by simp
  then have slot: "slot_ok P l (schedules k ! l) (tasks k ! l)" if "l < OS_TASK_COUNT" for l
    using that by (simp add: kernel_ok_def slots_ok_def)
  have region: "stack_region P l (tasks k ! l) \<and> psp_ok (tasks k ! l) (saved_psp (tasks k ! l))"
    if "l < OS_TASK_COUNT" "state (schedules k ! l) \<noteq> OS_TASK_DORMANT" for l
    using slot [OF that(1)] that(2) by (simp add: slot_ok_def)
  have own: "unat (stacks_address P) + 1024 * l = unat (stack_low (tasks k ! l)) \<and>
      unat (stack_high (tasks k ! l)) \<le> unat (stacks_address P) + 1024 * (l + 1) \<and>
      unat (stack_low (tasks k ! l)) \<le> unat (saved_psp (tasks k ! l)) \<and>
      unat (saved_psp (tasks k ! l)) + 64 \<le> unat (stack_high (tasks k ! l))"
    if "l < OS_TASK_COUNT" "state (schedules k ! l) \<noteq> OS_TASK_DORMANT" for l
    using region [OF that] by (simp add: stack_region_def psp_ok_def)
  have "stack_high (tasks k ! i) \<le> stack_low (tasks k ! j)"
    if "state (schedules k ! i) \<noteq> OS_TASK_DORMANT" "state (schedules k ! j) \<noteq> OS_TASK_DORMANT" "i < j"
  proof -
    have "unat (stack_high (tasks k ! i)) \<le> unat (stacks_address P) + 1024 * (i + 1)"
      "unat (stacks_address P) + 1024 * j = unat (stack_low (tasks k ! j))"
      using own [OF assms(3) that(1)] own [OF assms(4) that(2)] by blast+
    moreover have "1024 * (i + 1) \<le> 1024 * j" using that(3) by simp
    ultimately show ?thesis unfolding word_le_nat_alt by linarith
  qed
  with own [OF assms(3)] kernel_ok_one_running [OF ok assms(3)] kernel_ok_current_running(2) [OF ok]
  show ?thesis by blast
qed

lemma d9_pair: "reachable demo_platform (fst d9, snd d9)"
  using d9_facts(2) by simp

theorem one_running_task_own_stack_witness:
  "state (schedules (snd d9) ! 2) = OS_TASK_RUNNING \<and> current_task (snd d9) = 2 \<and>
   stack_high (tasks (snd d9) ! 1) \<le> stack_low (tasks (snd d9) ! 2)"
proof -
  have "state (schedules (snd d9) ! 2) = OS_TASK_RUNNING" "state (schedules (snd d9) ! 1) \<noteq> OS_TASK_DORMANT"
    by (simp_all add: d9_facts d8_facts)
  with one_running_task_own_stack [OF demo_platform_ok d9_pair, of 1 2] d9_facts(4) show ?thesis by simp
qed

section \<open>The switch\<close>




text \<open>
  C4: a task never notices that it was off the processor. Let a switch take task \<open>i\<close> off with its
  registers \<open>r4\<close> to \<open>r11\<close> and its stack pointer, let any steps of other tasks, interrupts and the
  kernel follow in which \<open>i\<close> is not the current task, and let a later switch dispatch \<open>i\<close>: then
  the registers and the stack pointer are those it had, every word of its stack from that stack
  pointer up is unchanged, and it still owns the same heap blocks.
\<close>

theorem context_restored:
  assumes "platform_ok P" and "reachable P (rs, k)" and "length rs = 8" and "has_active_context k \<noteq> 0"
    and "pendsv_set k" and "stack_in_bounds k" and "state (sched k (current_task k)) \<noteq> OS_TASK_EXITING"
    and "PendSV_Handler (rs, k\<lparr>pendsv_set := False\<rparr>) = Inr (rs1, k1)"
    and "runs_without P (current_task k) (rs1, k1) (rs2, k2)"
    and "pendsv_set k2" and "stack_in_bounds k2"
    and "PendSV_Handler (rs2, k2\<lparr>pendsv_set := False\<rparr>) = Inr (rs3, k3)" and "current_task k3 = current_task k"
  shows "rs3 = rs \<and> psp k3 = psp k \<and> own_blocks (current_task k) k2 = own_blocks (current_task k) k1 \<and>
    (\<forall>a. psp k \<le> a \<and> a < stack_high (tcb k (current_task k)) \<longrightarrow> ram k3 a = ram k a)"
proof -
  let ?i = "current_task k" and ?p = "psp k - 32"
  have ok: "kernel_ok P k" using reachable_ok [OF assms(2,1)] by simp
  note cur = current_region [OF ok assms(4)]
  note save = switch_saves [OF ok assms(5,6,4,7,8)]
  have ok1: "kernel_ok P k1"
    using kernel_step_keeps [OF kernel_step.switch [OF assms(5,6,8)] assms(1)] ok by simp
  from run_left_alone [OF assms(9,1) _ cur(1)] ok1 save(4)
  have run: "left_alone P ?i k1 k2" "kernel_ok P k2" "state (sched k2 ?i) \<noteq> OS_TASK_DORMANT" "?i \<noteq> current_task k2" by auto
  have last: "left_alone P ?i k2 k3" by (rule switch_left_alone [OF run(2) assms(10,11,12) cur(1) run(4)])
  have all: "left_alone P ?i k1 k3" by (rule left_alone_trans [OF run(1) last])
  then have p3: "saved_psp (tcb k3 ?i) = ?p" using save(1) by (simp add: left_alone_def)
  note restore = switch_restores [OF run(2) assms(10-12), unfolded assms(13) p3]
  have psp: "psp_ok (tcb k ?i) ?p" using assms(4,6) by (simp add: stack_in_bounds_def)
  have mem: "ram k3 a = ram k1 a" if "stack_area P (unat ?i) a" for a
    using all that by (simp add: left_alone_def)
  have "load_registers ?p (ram k3) = load_registers ?p (ram k1)"
    by (rule load_registers_cong) (intro mem frame_in_area [OF cur(2) psp], simp)
  then have "rs3 = rs" using restore(1) load_store_registers [OF assms(3)] by (simp add: save(5))
  moreover have "ram k3 a = ram k a" if a: "psp k \<le> a" "a < stack_high (tcb k ?i)" for a
  proof -
    have reg: "unat (stack_low (tcb k ?i)) = unat (stacks_address P) + 1024 * unat ?i"
      "unat (stack_high (tcb k ?i)) \<le> unat (stack_low (tcb k ?i)) + 1024"
      using cur(2) by (simp_all add: stack_region_def)
    have low: "unat (stack_low (tcb k ?i)) \<le> unat ?p" "unat ?p + 64 \<le> unat (stack_high (tcb k ?i))"
      using psp by (simp_all add: psp_ok_def)
    then have up: "unat (?p + 32) = unat ?p + 32" using unat_less_2p(3) [of "stack_high (tcb k ?i)"]
      by (subst unat_add32) simp_all
    then have above: "unat ?p + 32 \<le> unat a" "unat a < unat (stack_high (tcb k ?i))"
      using a by (simp_all add: word_le_nat_alt word_less_nat_alt)
    have "stack_area P (unat ?i) a" using reg low above unfolding stack_area_def by linarith
    moreover have "store_registers ?p rs (ram k) a = ram k a"
      unfolding store_registers_def
    proof (rule fold_upd_other, rule notI)
      assume "a \<in> (\<lambda>i. ?p + 4 * of_nat i) ` set [0..<8]"
      then obtain n where n: "n \<in> set [0..<8]" "a = ?p + 4 * of_nat n" by blast
      then have "unat a = unat ?p + 4 * n" using frame_word [OF psp, of n] by simp
      with n(1) above show False by simp
    qed
    ultimately show ?thesis using mem save(5) by simp
  qed
  moreover have "own_blocks ?i k2 = own_blocks ?i k1" using run(1) by (simp add: left_alone_def)
  ultimately show ?thesis using restore(2) by simp
qed

lemma demo_away: "runs_without demo_platform 1 d9 d12"
proof -
  have "runs_without demo_platform 1 d9 d9" by (rule runs_without.stop) (simp add: d9_facts)
  then have "runs_without demo_platform 1 d9 d10"
    by (rule runs_without.more [OF _ d10_facts(2)]) (use d10_facts(1) in \<open>simp add: asleep_def\<close>)
  then have "runs_without demo_platform 1 d9 d11"
    by (rule runs_without.more [OF _ d11_facts(2)]) (use d11_facts(1) in \<open>simp add: asleep_def\<close>)
  then show ?thesis by (rule runs_without.more [OF _ d12_facts(1)]) (simp add: d12_facts)
qed

theorem context_restored_witness:
  "fst d13 = [1, 2, 3, 4, 5, 6, 7, 8] \<and> psp (snd d13) = 0x20001480"
proof -
  have reach: "reachable demo_platform (demo_regs, snd d8)" using d8_facts(2) by (simp add: d8_def)
  have hyps: "length demo_regs = 8" "has_active_context (snd d8) \<noteq> 0"
    "state (sched (snd d8) (current_task (snd d8))) \<noteq> OS_TASK_EXITING"
    by (simp_all add: demo_regs_def d8_facts)
  have out: "PendSV_Handler (demo_regs, (snd d8)\<lparr>pendsv_set := False\<rparr>) = Inr (fst d9, snd d9)"
    using d9_facts(1) by simp
  have away: "runs_without demo_platform (current_task (snd d8)) (fst d9, snd d9) (fst d9, snd d12)"
    using demo_away by (simp add: d8_facts) (simp add: d12_def)
  have again: "PendSV_Handler (fst d9, (snd d12)\<lparr>pendsv_set := False\<rparr>) = Inr (fst d13, snd d13)"
    "current_task (snd d13) = current_task (snd d8)"
    using d13_facts(1) by (simp_all add: d13_facts(3) d8_facts)
  from context_restored [OF demo_platform_ok reach hyps(1,2) d8_facts(4) d8_bounds hyps(3) out away
      d12_facts(3,6) again]
  show ?thesis by (simp add: demo_regs_def d8_facts)
qed

text \<open>
  C5: the exit of a task completes at the switch that follows. The slot of the task becomes free, all
  heap blocks it still owned are released and those of every other task are kept, its number is
  recorded and the counter of reclaimed tasks advances; the other slots keep their records up to
  the dispatch.
\<close>

theorem exit_reclaims_exactly:
  assumes "platform_ok P" and "reachable P (rs, k)" and "pendsv_set k" and "stack_in_bounds k"
    and "has_active_context k \<noteq> 0" and "state (sched k (current_task k)) = OS_TASK_EXITING"
  shows "\<exists>rs' k'. PendSV_Handler (rs, k\<lparr>pendsv_set := False\<rparr>) = Inr (rs', k') \<and>
    state (sched k' (current_task k)) = OS_TASK_DORMANT \<and> \<not> stack_claimed (tcb k' (current_task k)) \<and>
    payloads (heap_of k') = filter (\<lambda>b. \<not> block_of (ucast (current_task k)) b) (payloads (heap_of k)) \<and>
    last_reclaimed k' = current_task k \<and> reclaim_counter k' = reclaim_counter k + 1 \<and>
    (\<forall>j \<in> {0..<OS_TASK_COUNT}. j \<noteq> unat (current_task k) \<and> j \<noteq> unat (current_task k') \<longrightarrow>
       schedules k' ! j = schedules k ! j \<and> tasks k' ! j = tasks k ! j)"
proof -
  let ?i = "current_task k"
  have ok: "kernel_ok P k" using reachable_ok [OF assms(2,1)] by simp
  note cur = current_region [OF ok assms(5)]
  let ?k0 = "saved (psp k - 32) (stacked rs k)"
  obtain k' k2 nx where sw: "PendSV_Handler (rs, k\<lparr>pendsv_set := False\<rparr>) =
      Inr (load_registers (saved_psp (tcb k' nx)) (ram k'), k')" "retires ?k0 k2" "slots_ok P k2" "unat nx < OS_TASK_COUNT"
    "state (sched k2 nx) = OS_TASK_READY"
    "quiet k' = quiet ((dispatched nx k2)\<lparr>psp := saved_psp (tcb k' nx) + 32, control := CONTROL_SPSEL_Msk,
       primask := primask k\<rparr>)"
    by (rule handler_effect [OF ok assms(3,4), of rs]) (use assms(5) in auto)
  have f: "schedules k' = schedules (dispatched nx k2)" "tasks k' = tasks (dispatched nx k2)" "current_task k' = nx"
    "last_reclaimed k' = last_reclaimed k2" "reclaim_counter k' = reclaim_counter k2" "heap_of k' = heap_of k2"
    using quiet_eqD [OF sw(6)] by (simp_all add: dispatched_def heap_of_def)
  have k0: "current_task ?k0 = ?i" "sched ?k0 = sched k" "schedules ?k0 = schedules k" "heap_of ?k0 = heap_of k"
    "reclaim_counter ?k0 = reclaim_counter k" "length (tasks ?k0) = OS_TASK_COUNT" "length (schedules ?k0) = OS_TASK_COUNT"
    "\<And>j. j \<noteq> unat ?i \<Longrightarrow> tasks ?k0 ! j = tasks k ! j"
    using ok by (simp_all add: saved_def set_tcb_def stacked_def sched_def heap_of_def fun_eq_iff kernel_ok_def slots_ok_def)
  obtain a H where rec: "quiet k2 = quiet (reclaimed ?i a H ?k0)"
    "live_blocks a H = filter (\<lambda>x. \<not> owned_by (ucast ?i) x) (live_blocks (memory_allocator ?k0) (memory_blocks ?k0))"
    using sw(2) assms(6) cur(1) by (auto simp: retires_def k0 all_off_cpu_def off_cpu_def sched_def)
  note r = quiet_eqD [OF rec(1)]
  have blank: "state (blank_schedule ?i) = OS_TASK_DORMANT" by (simp add: blank_schedule_def os_sched_task_zero_def)
  have two: "sched k2 ?i = blank_schedule ?i" "tcb k2 ?i = cleared_tcb"
    using cur(1) k0(6,7) by (simp_all add: sched_def tcb_def r(1,2) reclaimed_def)
  then have nx: "nx \<noteq> ?i" using sw(5) blank by auto
  then have ne: "unat nx \<noteq> unat ?i" by (simp add: word_unat_eq_iff)
  have heap: "payloads (heap_of k2) = filter (\<lambda>b. \<not> block_of (ucast ?i) b) (payloads (heap_of k))"
  proof -
    have "heap_of k2 = (a, H)" by (simp add: heap_of_def r(9,13) reclaimed_def)
    then show ?thesis using payloads_release [OF rec(2)] k0(4) by (simp add: heap_of_def)
  qed
  have slot: "sched k' ?i = blank_schedule ?i" "tcb k' ?i = cleared_tcb"
    using two ne by (simp_all add: sched_def tcb_def f(1,2) dispatched_def)
  have others: "schedules k' ! j = schedules k ! j \<and> tasks k' ! j = tasks k ! j"
    if "j \<noteq> unat ?i" "j \<noteq> unat nx" for j
    using that k0(3,8) by (simp add: f(1,2) dispatched_def r(1,2) reclaimed_def)
  have count: "last_reclaimed k2 = ?i" "reclaim_counter k2 = reclaim_counter k + 1"
    using k0(5) by (simp_all add: r(7,8) reclaimed_def)
  show ?thesis
    by (intro exI conjI, rule sw(1)) (use heap slot others count in \<open>simp_all add: f(3-6) blank cleared_tcb_def\<close>)
qed

theorem exit_reclaims_exactly_witness:
  "\<exists>rs' k'. PendSV_Handler (demo_regs, (snd e8)\<lparr>pendsv_set := False\<rparr>) = Inr (rs', k') \<and>
     state (sched k' 1) = OS_TASK_DORMANT \<and> last_reclaimed k' = 1"
proof -
  have "reachable demo_platform (demo_regs, snd e8)" using e8_facts(2) by (simp add: e8_def)
  moreover have "has_active_context (snd e8) \<noteq> 0" "state (sched (snd e8) (current_task (snd e8))) = OS_TASK_EXITING"
    by (simp_all add: e8_facts)
  ultimately show ?thesis
    using exit_reclaims_exactly [OF demo_platform_ok, of demo_regs "snd e8"] e8_facts(4,5,8) by auto
qed

section \<open>The tick\<close>






text \<open>
  C7: a task that sleeps or waits for its next release leaves that state at its tick. In any run from
  a state in which it waits for a later tick \<open>d\<close>, it waits for \<open>d\<close> as long as the clock is before
  \<open>d\<close>, and the step that brings the clock to \<open>d\<close> makes it READY.
\<close>

theorem waiting_task_wakes_at_its_tick:
  assumes "platform_ok P" and "reachable P c" and "unat i < OS_TASK_COUNT" and "waits (sched (snd c) i)"
    and "d = due_tick (sched (snd c) i)" and "kernel_run P c c'" and "monotonic_ticks (snd c') < d"
  shows "waits (sched (snd c') i) \<and> due_tick (sched (snd c') i) = d \<and>
    (\<forall>c''. kernel_step P c' c'' \<and> d \<le> monotonic_ticks (snd c'') \<longrightarrow>
       state (sched (snd c'') i) = OS_TASK_READY \<and> monotonic_ticks (snd c'') = d)"
proof -
  have ok: "kernel_ok P (snd c)" by (rule reachable_ok [OF assms(2,1)])
  from run_waits [OF assms(6,1) ok assms(3,4)] assms(5,7)
  have c': "kernel_ok P (snd c')" "waits (sched (snd c') i)" "due_tick (sched (snd c') i) = d"
    using assms(4) by (simp_all add: waits_def)
  have "state (sched (snd c'') i) = OS_TASK_READY \<and> monotonic_ticks (snd c'') = d"
    if "kernel_step P c' c''" "d \<le> monotonic_ticks (snd c'')" for c''
    using step_waits(3) [OF that(1) assms(1) c'(1) assms(3) c'(2)] assms(7) that(2) unfolding c'(3) by blast
  with c'(2,3) show ?thesis by blast
qed

theorem waiting_task_wakes_at_its_tick_witness:
  "state (sched (snd d11) 1) = OS_TASK_SLEEPING \<and> state (sched (snd d12) 1) = OS_TASK_READY \<and>
   monotonic_ticks (snd d12) = 3"
proof -
  have "kernel_run demo_platform d9 d9" by (rule kernel_run.stop)
  then have "kernel_run demo_platform d9 d10" using d10_facts(2) by (rule kernel_run.more)
  then have run: "kernel_run demo_platform d9 d11" using d11_facts(2) by (rule kernel_run.more)
  have w: "waits (sched (snd d9) 1)" "3 = due_tick (sched (snd d9) 1)"
    using asleep_d9 by (simp_all add: asleep_def waits_def due_tick_def)
  have t: "monotonic_ticks (snd d11) < 3" "state (sched (snd d11) 1) = OS_TASK_SLEEPING"
    using d11_facts(1) by (simp_all add: asleep_def)
  have "unat (1 :: os_task_id_t) < OS_TASK_COUNT" by simp
  from waiting_task_wakes_at_its_tick [OF demo_platform_ok d9_facts(2) this w run t(1)]
  have "kernel_step demo_platform d11 d12 \<and> 3 \<le> monotonic_ticks (snd d12) \<longrightarrow>
      state (sched (snd d12) 1) = OS_TASK_READY \<and> monotonic_ticks (snd d12) = 3" by blast
  then show ?thesis using d12_facts(1,5) t(2) by simp
qed

section \<open>Calls of a task\<close>

text \<open>When the kernel grants a service to the running task, and the state the caller is then in.\<close>

definition service_granted :: "u8 \<Rightarrow> kernel \<Rightarrow> bool" where
  "service_granted n k \<longleftrightarrow> n = OS_SVC_YIELD \<or>
     n = OS_SVC_SLEEP \<and> current_task k \<noteq> OS_TASK_ID_IDLE \<and> 0 < ram k (psp k) \<and>
       ram k (psp k) \<le> OS_MAX_SLEEP_TICKS \<and> unat (monotonic_ticks k) + unat (ram k (psp k)) < 2 ^ 64 \<or>
     n = OS_SVC_EXIT \<and> current_task k \<noteq> OS_TASK_ID_IDLE \<or>
     n = OS_SVC_WAIT_NEXT_PERIOD \<and> current_task k \<noteq> OS_TASK_ID_IDLE \<and>
       kind (sched k (current_task k)) = OS_TASK_PERIODIC"

definition service_state :: "u8 \<Rightarrow> os_task_state" where
  "service_state n = (if n = OS_SVC_YIELD then OS_TASK_READY else if n = OS_SVC_SLEEP then OS_TASK_SLEEPING
     else if n = OS_SVC_EXIT then OS_TASK_EXITING else OS_TASK_WAITING_RELEASE)"

lemma svc_from_psp: "SVC_Handler P 0xFFFFFFFD k = os_svc_dispatch P (psp k) 0xFFFFFFFD k"
  by (simp add: SVC_Handler_def)

lemma inl_cases: "(\<forall>x. r \<noteq> Inr x) \<Longrightarrow> \<exists>e. r = Inl e"
  by (cases r) auto

lemma service_outcome:
  assumes "kernel_ok P k" and "running k" and "\<not> pendsv_set k" and "has_active_context k \<noteq> 0"
    and dec: "decode_svc P (psp k) 0xFFFFFFFD k = Inr n"
  shows "if service_granted n k
    then \<exists>k'. SVC_Handler P 0xFFFFFFFD k = Inr (request_pendsv k') \<and>
      traps_to P (service_state n) k (request_pendsv k') \<and>
      (n = OS_SVC_SLEEP \<longrightarrow> unat (wake_order (sched k' (current_task k))) = unat (monotonic_ticks k) + unat (ram k (psp k)))
    else \<exists>reason. SVC_Handler P 0xFFFFFFFD k = Inl reason"
proof -
  note run = kernel_ok_current_running [OF assms(1,4,3)]
  then have ok: "\<not> svc_caller_bad 0xFFFFFFFD k" by (auto simp: svc_caller_bad_def)
  note h = svc_from_psp [of P k, unfolded os_svc_dispatch_def dec on_ok_simps]
  have sleep: "service_granted OS_SVC_SLEEP k \<longleftrightarrow> sleep_allowed (ram k (psp k)) k"
    by (auto simp: service_granted_def sleep_allowed_def word_neq_0_conv)
  consider "n = OS_SVC_START" | "n = OS_SVC_YIELD" | "n = OS_SVC_SLEEP" | "n = OS_SVC_EXIT"
    | "n = OS_SVC_WAIT_NEXT_PERIOD" | "OS_SVC_WAIT_NEXT_PERIOD < n"
  proof -
    have "unat n = 0 \<or> unat n = 1 \<or> unat n = 2 \<or> unat n = 3 \<or> unat n = 4 \<or> 4 < unat n" by linarith
    then show thesis using that by (elim disjE) (simp_all add: word_unat_eq_iff word_less_nat_alt)
  qed
  then show ?thesis
  proof cases
    case 1
    then have "\<not> service_granted n k" by (simp add: service_granted_def)
    with 1 show ?thesis by (simp add: h svc_start_def os_kernel_panic_def)
  next
    case 2
    from svc_yield_effect [OF assms(1) ok] obtain k' where
      "svc_yield 0xFFFFFFFD k = Inr k'" "traps_to P OS_TASK_READY k (request_pendsv k')" by blast
    with 2 show ?thesis by (auto simp: h service_granted_def service_state_def)
  next
    case 3
    note eff = svc_sleep_effect [OF assms(1) ok assms(3), of "ram k (psp k)"]
    show ?thesis
    proof (cases "sleep_allowed (ram k (psp k)) k")
      case True
      with eff obtain k' where "svc_sleep 0xFFFFFFFD (ram k (psp k)) k = Inr k'"
        "traps_to P OS_TASK_SLEEPING k (request_pendsv k')"
        "unat (wake_order (sched k' (current_task k))) = unat (monotonic_ticks k) + unat (ram k (psp k))" by auto
      with 3 True sleep show ?thesis by (auto simp: h service_state_def)
    next
      case False
      with eff have "\<exists>e. svc_sleep 0xFFFFFFFD (ram k (psp k)) k = Inl e" by (intro inl_cases) simp
      with 3 False sleep show ?thesis by (auto simp: h)
    qed
  next
    case 4
    show ?thesis
    proof (cases "current_task k = OS_TASK_ID_IDLE")
      case True
      with 4 show ?thesis by (simp add: h svc_exit_def service_granted_def os_kernel_panic_def)
    next
      case False
      from svc_exit_effect [OF assms(1) ok assms(3) False] obtain k' where
        "svc_exit 0xFFFFFFFD k = Inr k'" "traps_to P OS_TASK_EXITING k (request_pendsv k')" by blast
      with 4 False show ?thesis by (auto simp: h service_granted_def service_state_def)
    qed
  next
    case 5
    show ?thesis
    proof (cases "current_task k = OS_TASK_ID_IDLE")
      case True
      with 5 show ?thesis by (simp add: h svc_wait_next_period_def service_granted_def os_kernel_panic_def)
    next
      case False
      note eff = svc_wait_effect [OF assms(1) ok assms(3) False]
      show ?thesis
      proof (cases "kind (sched k (current_task k)) = OS_TASK_PERIODIC")
        case True
        with eff obtain k' where "svc_wait_next_period 0xFFFFFFFD k = Inr k'"
          "traps_to P OS_TASK_WAITING_RELEASE k (request_pendsv k')" by auto
        with 5 False True show ?thesis by (auto simp: h service_granted_def service_state_def)
      next
        case no: False
        with eff have "\<exists>e. svc_wait_next_period 0xFFFFFFFD k = Inl e" by (intro inl_cases) simp
        with 5 no show ?thesis by (auto simp: h service_granted_def)
      qed
    qed
  next
    case 6
    then have "n \<noteq> 0 \<and> n \<noteq> 1 \<and> n \<noteq> 2 \<and> n \<noteq> 3 \<and> n \<noteq> 4" by (auto simp: word_less_nat_alt)
    then show ?thesis by (simp add: h service_granted_def os_kernel_panic_def)
  qed
qed

text \<open>
  C8: the supervisor calls of the running task. An \<open>svc\<close> whose service exists and whose conditions
  hold takes the caller off the processor in the state of that service and requests a switch: after
  a yield it is READY but passed over once, after a sleep of \<open>n\<close> ticks its wake-up is \<open>n\<close> ticks
  ahead. No other task, control block or heap block changes. Every other \<open>svc\<close> (a number the kernel
  does not know, a start from a task, a sleep of 0 or too many ticks, an exit or a wait of the idle
  task, a wait of a one-shot task) ends in a panic.
\<close>

theorem supervisor_call_outcome:
  assumes "platform_ok P" and "reachable P (rs, k)" and "running k" and "\<not> pendsv_set k"
    and "has_active_context k \<noteq> 0" and "decode_svc P (psp k) 0xFFFFFFFD k = Inr n"
  shows "if service_granted n k
    then \<exists>k'. SVC_Handler P 0xFFFFFFFD k = Inr k' \<and> pendsv_set k' \<and> current_task k' = current_task k \<and>
      state (sched k' (current_task k)) = service_state n \<and>
      yield_excluded_task k' = (if n = OS_SVC_YIELD then current_task k else OS_TASK_ID_INVALID) \<and>
      (n = OS_SVC_SLEEP \<longrightarrow> unat (wake_order (sched k' (current_task k))) = unat (monotonic_ticks k) + unat (ram k (psp k))) \<and>
      (\<forall>j \<in> {0..<OS_TASK_COUNT}. j \<noteq> unat (current_task k) \<longrightarrow> schedules k' ! j = schedules k ! j) \<and>
      tasks k' = tasks k \<and> heap_of k' = heap_of k
    else \<exists>reason. SVC_Handler P 0xFFFFFFFD k = Inl reason"
proof (cases "service_granted n k")
  case False
  have ok: "kernel_ok P k" using reachable_ok [OF assms(2,1)] by simp
  from service_outcome [OF ok assms(3-6)] False show ?thesis by simp
next
  case True
  have ok: "kernel_ok P k" using reachable_ok [OF assms(2,1)] by simp
  from service_outcome [OF ok assms(3-6)] True obtain k1 where k1: "SVC_Handler P 0xFFFFFFFD k = Inr (request_pendsv k1)"
    "traps_to P (service_state n) k (request_pendsv k1)"
    "n = OS_SVC_SLEEP \<longrightarrow> unat (wake_order (sched k1 (current_task k))) = unat (monotonic_ticks k) + unat (ram k (psp k))"
    by auto
  have st: "service_state n \<noteq> OS_TASK_RUNNING" "service_state n \<noteq> OS_TASK_DORMANT"
    "service_state n = OS_TASK_READY \<longleftrightarrow> n = OS_SVC_YIELD"
    by (simp_all add: service_state_def)
  note keep = traps_to_keeps [OF ok assms(5,4) k1(2) st(1,2)]
  from k1(2) have "yield_excluded_task (request_pendsv k1) = (if n = OS_SVC_YIELD then current_task k else OS_TASK_ID_INVALID)"
    unfolding traps_to_def st(3) by (auto dest!: quiet_eqD(4) simp: trapped_def)
  moreover have "sched (request_pendsv k1) = sched k1" by (simp add: request_pendsv_def sched_def fun_eq_iff)
  ultimately show ?thesis
    using True k1(1,3) keep(2-9) by (simp add: heap_of_def)
qed

theorem supervisor_call_outcome_witness:
  "service_granted 2 (snd d7) \<and> (\<exists>k'. SVC_Handler demo_platform 0xFFFFFFFD (snd d7) = Inr k' \<and>
     unat (wake_order (sched k' 1)) = 3)"
proof -
  have reach: "reachable demo_platform (demo_regs, snd d7)" using d7_facts(2) by (simp add: traps_def)
  have g: "service_granted 2 (snd d7)"
    using d7_call(3) by (simp add: service_granted_def d7_facts)
  have active: "has_active_context (snd d7) \<noteq> 0" by (simp add: d7_facts)
  have dec: "decode_svc demo_platform (psp (snd d7)) 0xFFFFFFFD (snd d7) = Inr 2"
    using d7_call(1) by (simp add: d7_facts)
  from supervisor_call_outcome [OF demo_platform_ok reach d7_facts(7,6) active dec] g d7_call(3)
  show ?thesis by (auto simp: d7_facts)
qed

section \<open>Creation and initialisation\<close>





text \<open>
  \<open>os_kernel_init\<close> on the zeroed statics succeeds and leaves an idle task that is READY, four
  free slots, no heap block and no task on the processor; the second call is refused and changes
  nothing. If the vendor's \<open>HAL_NVIC_SetPriority\<close> sets the priority it is given, the exception
  configuration that the kernel relies on is in force: stack alignment, and the supervisor call
  before the tick before the context switch.
\<close>

theorem kernel_init_outcome:
  assumes "platform_ok P" and "power_on k"
    and "\<forall>i p s f. HAL_NVIC_SetPriority P i p s f = f(i := p)"
  shows "\<exists>k'. os_kernel_init P k = Inr (True, k') \<and> os_kernel_init P k' = Inr (False, k') \<and>
    (\<forall>i \<in> {0..<OS_TASK_COUNT}. state (schedules k' ! i) = (if i = 0 then OS_TASK_READY else OS_TASK_DORMANT)) \<and>
    payloads (heap_of k') = [] \<and> os_allocator_validate (Some (memory_allocator k')) (memory_blocks k') \<and>
    current_task k' = OS_TASK_ID_INVALID \<and> monotonic_ticks k' = 0 \<and> \<not> running k' \<and>
    os_exception_configuration_valid k'"
proof -
  obtain ring a H where run: "os_kernel_init P k = Inr (True, booted P ring a H k)" "heap_ok a H" "live_blocks a H = []"
    using init_effect [OF assms(1), of k] assms(2) unfolding power_on_def by blast
  let ?k = "booted P ring a H k"
  have fields: "kernel_initialized ?k" "current_task ?k = OS_TASK_ID_INVALID" "monotonic_ticks ?k = 0"
    "memory_allocator ?k = a" "memory_blocks ?k = H" "running ?k = running k"
    "schedules ?k = schedules (booted_slots P k)" "ccr ?k = ccr k OR SCB_CCR_STKALIGN_Msk"
    "nvic_priority ?k = booted_priorities P (nvic_priority k)"
    by (simp_all add: booted_def booted_slots_def)
  have "(ccr k OR SCB_CCR_STKALIGN_Msk) AND SCB_CCR_STKALIGN_Msk \<noteq> 0"
    by (simp add: bit.conj_disj_distrib2)
  then have "os_exception_configuration_valid ?k"
    using assms(3) by (simp add: os_exception_configuration_valid_def fields booted_priorities_def)
  moreover have "os_kernel_init P ?k = Inr (False, ?k)" using fields(1) by (simp add: os_kernel_init_def)
  moreover have "payloads (heap_of ?k) = []" using run(3) by (simp add: payloads_def heap_of_def fields)
  moreover have "os_allocator_validate (Some a) H" using heap_okD(4) [OF run(2)] by (simp add: os_allocator_validate_def)
  moreover have "\<not> running k" using assms(2) by (simp add: power_on_def)
  ultimately show ?thesis
    using run(1) booted_slots_ok(2) [OF assms(1), of _ k] by (intro exI [of _ ?k]) (simp add: fields)
qed

theorem kernel_init_outcome_witness:
  "\<exists>k'. os_kernel_init demo_platform zero_kernel = Inr (True, k') \<and> os_exception_configuration_valid k'"
proof -
  have "\<forall>i p s f. HAL_NVIC_SetPriority demo_platform i p s f = f(i := p)" by (simp add: demo_platform_def)
  from kernel_init_outcome [OF demo_platform_ok zero_power_on this] show ?thesis by blast
qed

end
