(* ===== verification/Edf_Machine.thy ===== *)
theory Edf_Machine
  imports Edf_Select
begin

text \<open>
  The kernel as a scheduler, without its records, stacks and registers: five slots, a clock, the
  slot that has the processor, and the steps an earliest-deadline-first kernel may take. A rank is
  an \<open>edf_key\<close>, the smaller the more urgent; slot 0 is the idle task, which competes with nobody.
\<close>

section \<open>States\<close>

text \<open>
  \<open>Waiting d r\<close> is a slot that becomes ready, with rank \<open>r\<close>, at the tick \<open>d\<close>; \<open>Leaving\<close> one whose
  task has ended and is not yet reclaimed.
\<close>

datatype phase = Free | Waiting nat edf_key | Ready edf_key | Running edf_key | Leaving

record edf_state =
  clock :: nat
  phase :: "nat \<Rightarrow> phase"
  cpu :: "nat option"
  passed_over :: "nat option"
  switch_due :: bool

definition edf_start :: edf_state where
  "edf_start = \<lparr>clock = 0, phase = (\<lambda>_. Free)(0 := Ready (Edf_Key 0 0 0)), cpu = None,
     passed_over = None, switch_due = False\<rparr>"

section \<open>What the steps are made of\<close>

definition is_ready :: "edf_state \<Rightarrow> nat \<Rightarrow> bool" where
  "is_ready s i \<longleftrightarrow> (\<exists>r. phase s i = Ready r)"

definition rank :: "edf_state \<Rightarrow> nat \<Rightarrow> edf_key" where
  "rank s i = (case phase s i of Ready r \<Rightarrow> r | Running r \<Rightarrow> r | Waiting d r \<Rightarrow> r | _ \<Rightarrow> Edf_Key 0 0 0)"

text \<open>A ready slot is before the running one.\<close>

definition precedes_running :: "edf_state \<Rightarrow> nat \<Rightarrow> bool" where
  "precedes_running s i \<longleftrightarrow> is_ready s i \<and> i \<noteq> 0 \<and>
     (\<exists>j r. cpu s = Some j \<and> phase s j = Running r \<and> (j = 0 \<or> rank s i < r))"

text \<open>The tick \<open>t\<close> for one slot.\<close>

definition wake_at :: "nat \<Rightarrow> phase \<Rightarrow> phase" where
  "wake_at t p = (case p of Waiting d r \<Rightarrow> (if d \<le> t then Ready r else p) | _ \<Rightarrow> p)"

text \<open>The slot that has the processor when a switch begins.\<close>

definition put_back :: "phase \<Rightarrow> phase" where
  "put_back p = (case p of Running r \<Rightarrow> Ready r | Leaving \<Rightarrow> Free | _ \<Rightarrow> p)"

definition outgoing :: "edf_state \<Rightarrow> edf_state" where
  "outgoing s = (case cpu s of None \<Rightarrow> s | Some i \<Rightarrow> s\<lparr>phase := (phase s)(i := put_back (phase s i))\<rparr>)"

text \<open>Who competes: every ready slot but the idle one and the one that has just yielded.\<close>

definition competes :: "edf_state \<Rightarrow> nat \<Rightarrow> bool" where
  "competes s i \<longleftrightarrow> is_ready s i \<and> i \<noteq> 0 \<and> passed_over s \<noteq> Some i"

definition chosen :: "edf_state \<Rightarrow> nat \<Rightarrow> bool" where
  "chosen s n \<longleftrightarrow>
     (if \<exists>i. competes s i then competes s n \<and> (\<forall>i. competes s i \<and> i \<noteq> n \<longrightarrow> rank s n < rank s i)
      else if \<exists>i. passed_over s = Some i \<and> i \<noteq> 0 \<and> is_ready s i then passed_over s = Some n
      else n = 0)"

section \<open>Steps\<close>

text \<open>
  A task arrives in a free slot; the processor is asked for; the running task gives up the processor
  (it yields, sleeps, waits for its next job or ends); the clock ticks, slots become ready and one
  of them may preempt; the switch that is due is made.
\<close>

inductive edf_step :: "edf_state \<Rightarrow> edf_state \<Rightarrow> bool" where
  arrive: "0 < i \<Longrightarrow> phase s i = Free \<Longrightarrow> key_id r = of_nat i \<Longrightarrow>
     p = Ready r \<or> (\<exists>d. p = Waiting d r \<and> clock s < d) \<Longrightarrow> s1 = s\<lparr>phase := (phase s)(i := p)\<rparr> \<Longrightarrow>
     edf_step s (s1\<lparr>switch_due := precedes_running s1 i \<or> switch_due s\<rparr>)"
| begin_run: "cpu s = None \<Longrightarrow> edf_step s (s\<lparr>switch_due := True\<rparr>)"
| yield: "cpu s = Some i \<Longrightarrow> phase s i = Running r \<Longrightarrow> \<not> switch_due s \<Longrightarrow>
     edf_step s (s\<lparr>phase := (phase s)(i := Ready r), passed_over := Some i, switch_due := True\<rparr>)"
| sleep: "cpu s = Some i \<Longrightarrow> i \<noteq> 0 \<Longrightarrow> phase s i = Running r \<Longrightarrow> \<not> switch_due s \<Longrightarrow> clock s < d \<Longrightarrow>
     edf_step s (s\<lparr>phase := (phase s)(i := Waiting d r), passed_over := None, switch_due := True\<rparr>)"
| next_job: "cpu s = Some i \<Longrightarrow> i \<noteq> 0 \<Longrightarrow> phase s i = Running r \<Longrightarrow> \<not> switch_due s \<Longrightarrow>
     key_id r' = key_id r \<Longrightarrow> key_priority r' = key_priority r \<Longrightarrow>
     edf_step s (s\<lparr>phase := (phase s)(i := Waiting d r'), passed_over := None, switch_due := True\<rparr>)"
| leave: "cpu s = Some i \<Longrightarrow> i \<noteq> 0 \<Longrightarrow> phase s i = Running r \<Longrightarrow> \<not> switch_due s \<Longrightarrow>
     edf_step s (s\<lparr>phase := (phase s)(i := Leaving), passed_over := None, switch_due := True\<rparr>)"
| tick: "s1 = s\<lparr>clock := clock s + 1, phase := wake_at (clock s + 1) \<circ> phase s\<rparr> \<Longrightarrow>
     \<not> ((\<exists>i. phase s1 i \<noteq> phase s i) \<and> (\<exists>i. precedes_running s1 i)) \<Longrightarrow> edf_step s s1"
| preempt: "s1 = s\<lparr>clock := clock s + 1, phase := wake_at (clock s + 1) \<circ> phase s\<rparr> \<Longrightarrow>
     phase s1 i \<noteq> phase s i \<Longrightarrow> precedes_running s1 j \<Longrightarrow> cpu s = Some c \<Longrightarrow>
     edf_step s (s1\<lparr>phase := (phase s1)(c := put_back (phase s1 c)), switch_due := True\<rparr>)"
| switch: "switch_due s \<Longrightarrow> chosen (outgoing s) n \<Longrightarrow> phase (outgoing s) n = Ready r \<Longrightarrow>
     edf_step s ((outgoing s)\<lparr>phase := (phase (outgoing s))(n := Running r), cpu := Some n,
       passed_over := None, switch_due := False\<rparr>)"

inductive edf_reachable :: "edf_state \<Rightarrow> bool" where
  start: "edf_reachable edf_start"
| step: "edf_reachable s \<Longrightarrow> edf_step s s' \<Longrightarrow> edf_reachable s'"

text \<open>
  The machine keeps the processor and the phases together: only the slot on the processor runs or
  leaves, and it runs whenever no switch is due. The idle slot is always ready or running.
\<close>

definition edf_ok :: "edf_state \<Rightarrow> bool" where
  "edf_ok s \<longleftrightarrow> (\<forall>i. (\<exists>r. phase s i = Running r) \<or> phase s i = Leaving \<longrightarrow> cpu s = Some i) \<and>
     (\<forall>i. cpu s = Some i \<and> \<not> switch_due s \<longrightarrow> (\<exists>r. phase s i = Running r)) \<and>
     (\<exists>r. phase s 0 = Ready r \<or> phase s 0 = Running r)"

inductive_cases edf_stepE: "edf_step s s'"

lemma wake_at_simps [simp]:
  "wake_at t Free = Free" "wake_at t (Ready r) = Ready r" "wake_at t (Running r) = Running r"
  "wake_at t Leaving = Leaving" "wake_at t (Waiting d r) = (if d \<le> t then Ready r else Waiting d r)"
  "wake_at t p = Running r \<longleftrightarrow> p = Running r" "wake_at t p = Leaving \<longleftrightarrow> p = Leaving"
  "wake_at t p = Free \<longleftrightarrow> p = Free"
  by (auto simp: wake_at_def split: phase.splits)

lemma put_back_simps [simp]:
  "put_back Free = Free" "put_back (Ready r) = Ready r" "put_back (Running r) = Ready r"
  "put_back Leaving = Free" "put_back (Waiting d r) = Waiting d r"
  by (simp_all add: put_back_def)

lemma put_back_off [simp]: "put_back p \<noteq> Running r" "put_back p \<noteq> Leaving"
  by (auto simp: put_back_def split: phase.splits)

section \<open>The machine keeps its invariant\<close>

lemma edf_okD:
  assumes "edf_ok s"
  shows "phase s i = Running r \<Longrightarrow> cpu s = Some i" "phase s i = Leaving \<Longrightarrow> cpu s = Some i"
    "cpu s = Some i \<Longrightarrow> \<not> switch_due s \<Longrightarrow> \<exists>r. phase s i = Running r"
    "\<exists>r. phase s 0 = Ready r \<or> phase s 0 = Running r"
  using assms unfolding edf_ok_def by blast+

lemma edf_okI:
  assumes "\<And>i r. phase s i = Running r \<Longrightarrow> cpu s = Some i" and "\<And>i. phase s i = Leaving \<Longrightarrow> cpu s = Some i"
    and "\<And>i. cpu s = Some i \<Longrightarrow> \<not> switch_due s \<Longrightarrow> \<exists>r. phase s i = Running r"
    and "\<exists>r. phase s 0 = Ready r \<or> phase s 0 = Running r"
  shows "edf_ok s"
  using assms unfolding edf_ok_def by blast

text \<open>The slot on the processor is free to change when a switch is due.\<close>

lemma edf_ok_current:
  assumes "edf_ok s" and "cpu s = Some i" and "i \<noteq> 0 \<or> (\<exists>r. p = Ready r)"
  shows "edf_ok (s\<lparr>phase := (phase s)(i := p), passed_over := x, switch_due := True\<rparr>)"
    "edf_ok (s\<lparr>phase := (phase s)(i := p), switch_due := True\<rparr>)"
proof -
  have others: "phase s j \<noteq> Running r" "phase s j \<noteq> Leaving" if "j \<noteq> i" for j r
    using edf_okD(1,2) [OF assms(1), of j] assms(2) that by auto
  have idle: "\<exists>r. ((phase s)(i := p)) 0 = Ready r \<or> ((phase s)(i := p)) 0 = Running r"
    using edf_okD(4) [OF assms(1)] assms(3) by auto
  show "edf_ok (s\<lparr>phase := (phase s)(i := p), passed_over := x, switch_due := True\<rparr>)"
    "edf_ok (s\<lparr>phase := (phase s)(i := p), switch_due := True\<rparr>)"
    using others assms(2) idle by (auto simp del: fun_upd_apply intro!: edf_okI) (auto split: if_splits)
qed

lemma edf_ok_ticked:
  assumes "edf_ok s"
  shows "edf_ok (s\<lparr>clock := t, phase := wake_at t' \<circ> phase s\<rparr>)"
proof (rule edf_okI)
  from edf_okD(4) [OF assms] obtain r where "phase s 0 = Ready r \<or> phase s 0 = Running r" by blast
  then show "\<exists>r. phase (s\<lparr>clock := t, phase := wake_at t' \<circ> phase s\<rparr>) 0 = Ready r \<or>
      phase (s\<lparr>clock := t, phase := wake_at t' \<circ> phase s\<rparr>) 0 = Running r" by auto
qed (use edf_okD(1-3) [OF assms] in simp_all)

lemma outgoing_off:
  assumes "edf_ok s"
  shows "phase (outgoing s) i \<noteq> Running r" "phase (outgoing s) i \<noteq> Leaving" "\<exists>r. phase (outgoing s) 0 = Ready r"
proof -
  note ok = edf_okD [OF assms]
  show "phase (outgoing s) i \<noteq> Running r" "phase (outgoing s) i \<noteq> Leaving"
    using ok(1,2) [of i] by (auto simp: outgoing_def split: option.split)
  from ok(4) obtain r where r: "phase s 0 = Ready r \<or> phase s 0 = Running r" by blast
  with ok(1) [of 0 r] have "phase (outgoing s) 0 = Ready r"
    by (auto simp: outgoing_def split: option.split)
  then show "\<exists>r. phase (outgoing s) 0 = Ready r" by blast
qed

lemma edf_step_keeps:
  assumes "edf_step s s'" and "edf_ok s"
  shows "edf_ok s'"
  using assms
proof cases
  case (arrive i r p s1)
  note ok = edf_okD [OF assms(2)]
  have "i \<noteq> 0" "\<And>r. p \<noteq> Running r" "p \<noteq> Leaving" using arrive by auto
  moreover have "cpu s \<noteq> Some i" if "\<not> switch_due s" using ok(3) [of i] that arrive(3) by auto
  ultimately show ?thesis unfolding arrive(1,6) using ok by (intro edf_okI) (auto split: if_splits)
next
  case begin_run
  then show ?thesis using edf_okD [OF assms(2)] by (auto intro!: edf_okI)
next
  case (tick)
  then show ?thesis using edf_ok_ticked [OF assms(2)] by simp
next
  case (preempt s1 i j c)
  then have "edf_ok s1" "cpu s1 = Some c" using edf_ok_ticked [OF assms(2)] by simp_all
  moreover from edf_okD(4) [OF this(1)] have "c \<noteq> 0 \<or> (\<exists>r. put_back (phase s1 c) = Ready r)"
    by (metis put_back_simps(2,3))
  ultimately show ?thesis using edf_ok_current(2) preempt(1) by simp
next
  case (switch n r)
  note off = outgoing_off [OF assms(2)]
  show ?thesis unfolding switch(1) using off by (intro edf_okI) (auto split: if_splits)
qed (use edf_ok_current(1) [OF assms(2)] in simp_all)

lemma edf_reachable_ok: "edf_reachable s \<Longrightarrow> edf_ok s"
proof (induction rule: edf_reachable.induct)
  case start
  show ?case by (rule edf_okI) (simp_all add: edf_start_def split: if_splits)
qed (rule edf_step_keeps)

end
