(* ===== verification/Kernel_Edf.thy ===== *)
theory Kernel_Edf
  imports Kernel_Context Edf_Machine
begin

text \<open>
  The kernel refines the machine of \<open>Edf_Machine\<close>: \<open>edf_of\<close> reads the phases of the slots from the
  scheduling records, and every step of the system is a step of the machine or changes nothing
  that the machine sees.
\<close>

section \<open>The abstraction\<close>

definition phase_of :: "os_sched_task \<Rightarrow> phase" where
  "phase_of s = (case state s of
     OS_TASK_DORMANT \<Rightarrow> Free
   | OS_TASK_WAITING_RELEASE \<Rightarrow> Waiting (unat (next_release_order s)) (next_key s)
   | OS_TASK_READY \<Rightarrow> Ready (edf_key_of s)
   | OS_TASK_RUNNING \<Rightarrow> Running (edf_key_of s)
   | OS_TASK_SLEEPING \<Rightarrow> Waiting (unat (wake_order s)) (edf_key_of s)
   | OS_TASK_EXITING \<Rightarrow> Leaving)"

definition phases :: "os_sched_task list \<Rightarrow> nat \<Rightarrow> phase" where
  "phases ss i = (if i < OS_TASK_COUNT then phase_of (ss ! i) else Free)"

definition edf_of :: "kernel \<Rightarrow> edf_state" where
  "edf_of k = \<lparr>clock = unat (monotonic_ticks k),
     phase = phases (schedules k),
     cpu = (if has_active_context k = 0 then None else Some (unat (current_task k))),
     passed_over = (if yield_excluded_task k = OS_TASK_ID_INVALID then None
                    else Some (unat (yield_excluded_task k))),
     switch_due = pendsv_set k\<rparr>"

lemma edf_of_cong:
  assumes "monotonic_ticks k = monotonic_ticks k'" and "schedules k = schedules k'"
    and "has_active_context k = has_active_context k'" and "current_task k = current_task k'"
    and "yield_excluded_task k = yield_excluded_task k'" and "pendsv_set k = pendsv_set k'"
  shows "edf_of k = edf_of k'"
  by (simp add: edf_of_def assms)

lemma edf_of_quiet: "quiet k = quiet k' \<Longrightarrow> edf_of k = edf_of k'"
  using quiet_eqD [of k k'] by (intro edf_of_cong)

lemma phase_of_simps:
  "phase_of s = Free \<longleftrightarrow> state s = OS_TASK_DORMANT"
  "phase_of s = Ready r \<longleftrightarrow> state s = OS_TASK_READY \<and> r = edf_key_of s"
  "phase_of s = Running r \<longleftrightarrow> state s = OS_TASK_RUNNING \<and> r = edf_key_of s"
  "phase_of s = Leaving \<longleftrightarrow> state s = OS_TASK_EXITING"
  by (auto simp: phase_of_def split: os_task_state.splits)

lemma phases_update:
  "length ss = OS_TASK_COUNT \<Longrightarrow> j < OS_TASK_COUNT \<Longrightarrow> phases (ss[j := s]) = (phases ss)(j := phase_of s)"
  by (auto simp: phases_def fun_eq_iff)

lemma edf_of_phase: "phase (edf_of k) = phases (schedules k)"
  by (simp add: edf_of_def)

lemma edf_of_fields:
  "clock (edf_of k) = unat (monotonic_ticks k)"
  "i < OS_TASK_COUNT \<Longrightarrow> phase (edf_of k) i = phase_of (schedules k ! i)"
  "\<not> i < OS_TASK_COUNT \<Longrightarrow> phase (edf_of k) i = Free"
  "cpu (edf_of k) = (if has_active_context k = 0 then None else Some (unat (current_task k)))"
  "passed_over (edf_of k) = (if yield_excluded_task k = OS_TASK_ID_INVALID then None
     else Some (unat (yield_excluded_task k)))"
  "switch_due (edf_of k) = pendsv_set k"
  by (simp_all add: edf_of_def phases_def)

section \<open>Supervisor calls\<close>

lemma trap_refines:
  assumes "kernel_ok P k" and "has_active_context k \<noteq> 0" and "\<not> pendsv_set k" and "traps_to P st k k'"
    and "state (sched k (current_task k)) = OS_TASK_RUNNING"
    and "st = OS_TASK_READY \<or>
      (st = OS_TASK_SLEEPING \<or> st = OS_TASK_EXITING \<or> st = OS_TASK_WAITING_RELEASE) \<and> current_task k \<noteq> 0"
  shows "edf_step (edf_of k) (edf_of k')"
proof -
  let ?i = "unat (current_task k)" and ?r = "sched k (current_task k)"
  from assms(4) obtain s y where s: "quiet k' = quiet (trapped s y k)" "state s = st"
    "y = (if st = OS_TASK_READY then current_task k else OS_TASK_ID_INVALID)"
    "gives_up (monotonic_ticks k) ?r s" unfolding traps_to_def by blast
  have cur: "?i < OS_TASK_COUNT" "length (schedules k) = OS_TASK_COUNT"
    using assms(1,2) by (simp_all add: kernel_ok_def mode_ok_def slots_ok_def)
  then have valid: "current_task k \<noteq> OS_TASK_ID_INVALID" by auto
  have to: "edf_of k' = (edf_of k)\<lparr>phase := (phase (edf_of k))(?i := phase_of s),
      passed_over := (if st = OS_TASK_READY then Some ?i else None), switch_due := True\<rparr>"
    unfolding edf_of_quiet [OF s(1)] using valid
    by (simp add: edf_of_def trapped_def s(3) phases_update [OF cur(2,1)])
  have on: "cpu (edf_of k) = Some ?i" "phase (edf_of k) ?i = Running (edf_key_of ?r)" "\<not> switch_due (edf_of k)"
    using assms(2,3,5) cur by (simp_all add: edf_of_fields phase_of_simps sched_def)
  note g = s(4) [unfolded gives_up_def s(2)]
  show ?thesis
  proof (cases "st = OS_TASK_READY")
    case True
    then have "phase_of s = Ready (edf_key_of ?r)" using s(2) g by (simp add: phase_of_simps)
    with edf_step.yield [OF on] to True show ?thesis by simp
  next
    case False
    then have i: "?i \<noteq> 0" using assms(6) by (simp add: unat_eq_0)
    from False assms(6) consider "st = OS_TASK_SLEEPING" | "st = OS_TASK_EXITING" | "st = OS_TASK_WAITING_RELEASE"
      by blast
    then show ?thesis
    proof cases
      case 1
      then have "phase_of s = Waiting (unat (wake_order s)) (edf_key_of ?r)" "clock (edf_of k) < unat (wake_order s)"
        using s(2) g by (simp_all add: phase_of_def edf_of_fields word_less_nat_alt)
      with edf_step.sleep [OF on(1) i on(2,3)] to 1 show ?thesis by simp
    next
      case 2
      then have "phase_of s = Leaving" using s(2) by (simp add: phase_of_simps)
      with edf_step.leave [OF on(1) i on(2,3)] to 2 show ?thesis by simp
    next
      case 3
      then have "phase_of s = Waiting (unat (next_release_order s)) (next_key s)"
        using s(2) by (simp add: phase_of_def)
      moreover have "key_id (next_key s) = key_id (edf_key_of ?r)" "key_priority (next_key s) = key_priority (edf_key_of ?r)"
        using g by (simp_all add: next_key_def edf_key_of_def)
      ultimately show ?thesis using edf_step.next_job [OF on(1) i on(2,3)] to 3 by simp
    qed
  qed
qed

section \<open>Creation\<close>

lemma new_record_phase:
  assumes "new_record c i s k" and "state (sched k i) = OS_TASK_DORMANT"
  shows "task_id s = task_id (sched k i)"
    "state s = OS_TASK_READY \<or> state s = OS_TASK_WAITING_RELEASE \<and> monotonic_ticks k < next_release_order s"
proof -
  define d where "d = cfg_initial_release_delay_ticks (tc_timing c)"
  have sum: "monotonic_ticks k < monotonic_ticks k + ucast d"
    if "d \<noteq> 0" "\<not> monotonic_ticks k > UINT64_MAX - ucast d"
  proof -
    from that(2) have "unat (monotonic_ticks k) + unat d < 2 ^ 64"
      unfolding gt_max64_iff unat_ucast_32_64 by (simp only: not_le)
    with that(1) show ?thesis
      using unat_add64 [of "monotonic_ticks k" "ucast d"] by (simp add: word_less_nat_alt unat_gt_0)
  qed
  show "task_id s = task_id (sched k i)"
    using assms by (auto simp: new_record_def step_unfold os_sched_task_reset_def os_sched_task_zero_def split: if_splits)
  show "state s = OS_TASK_READY \<or> state s = OS_TASK_WAITING_RELEASE \<and> monotonic_ticks k < next_release_order s"
    using assms sum unfolding d_def
    by (auto simp: new_record_def step_unfold os_sched_task_reset_def os_sched_task_zero_def split: if_splits)
qed

lemma create_refines:
  assumes "kernel_ok P k" and "platform_ok P" and "\<not> pendsv_set k"
    and "os_task_create P config created k = Inr (r, k')"
  shows "edf_step (edf_of k) (edf_of k') \<or> edf_of k' = edf_of k"
proof (cases "config = None \<or> created = None")
  case True
  then have "k' = k" using assms(4) by (auto simp: os_task_create_def split: option.splits)
  then show ?thesis by simp
next
  case False
  then obtain c cr where c: "config = Some c" "created = Some cr" by auto
  define i where "i = free_slot_loop k [1..<OS_TASK_COUNT]"
  note eff = create_effect [OF assms(1-3), of c cr, folded i_def]
  have slots: "slots_ok P k" using assms(1) by (simp add: kernel_ok_def)
  then have len: "length (schedules k) = OS_TASK_COUNT" by (simp add: slots_ok_def)
  show ?thesis
  proof (cases "create_guard c k \<and> room k")
    case False
    with eff assms(4) c show ?thesis by simp
  next
    case True
    then have slot: "i \<noteq> 0" "unat i < OS_TASK_COUNT" "state (sched k i) = OS_TASK_DORMANT"
      and outcome: "(\<exists>s k1. new_record c i s k \<and> os_task_create P config created k = Inr ((True, Some i), k1) \<and>
          quiet k1 = quiet (announced i (installed P c i s k))) \<or>
        k' = k\<lparr>tasks := (tasks k)[unat i := cleared_tcb], schedules := (schedules k)[unat i := blank_schedule i]\<rparr>"
      using eff assms(4) c by auto
    have free: "phase (edf_of k) (unat i) = Free" using slot by (simp add: edf_of_fields phase_of_simps sched_def)
    from outcome show ?thesis
    proof
      assume k': "k' = k\<lparr>tasks := (tasks k)[unat i := cleared_tcb],
        schedules := (schedules k)[unat i := blank_schedule i]\<rparr>"
      have "phase_of (blank_schedule i) = Free" by (simp add: phase_of_simps blank_schedule_def os_sched_task_zero_def)
      then have "edf_of k' = edf_of k"
        using free by (simp add: k' edf_of_def phases_update [OF len slot(2)] fun_upd_idem)
      then show ?thesis by simp
    next
      assume "\<exists>s k1. new_record c i s k \<and> os_task_create P config created k = Inr ((True, Some i), k1) \<and>
          quiet k1 = quiet (announced i (installed P c i s k))"
      then obtain s where s: "new_record c i s k" "quiet k' = quiet (announced i (installed P c i s k))"
        using assms(4) by auto
      note ph = new_record_phase [OF s(1) slot(3)]
      define r1 where "r1 = (if state s = OS_TASK_READY then edf_key_of s else next_key s)"
      have p: "phase_of s = Ready r1 \<or> (\<exists>d. phase_of s = Waiting d r1 \<and> clock (edf_of k) < d)"
        using ph(2) by (auto simp: phase_of_def r1_def edf_of_fields word_less_nat_alt)
      have id: "key_id r1 = of_nat (unat i)"
        using slots_okD [OF slots slot(2)] ph(1) by (simp add: r1_def edf_key_of_def next_key_def slot_ok_def)
      define s1 where "s1 = (edf_of k)\<lparr>phase := (phase (edf_of k))(unat i := phase_of s)\<rparr>"
      have "0 < unat i" using slot(1) by (simp add: unat_gt_0)
      from edf_step.arrive [OF this free id p s1_def]
      have step: "edf_step (edf_of k) (s1\<lparr>switch_due := precedes_running s1 (unat i) \<or> pendsv_set k\<rparr>)"
        by (simp add: edf_of_fields)
      have mode: "running k \<longrightarrow> has_active_context k \<noteq> 0 \<and> unat (current_task k) < OS_TASK_COUNT \<and>
          state (sched k (current_task k)) = OS_TASK_RUNNING \<and> current_task k \<noteq> OS_TASK_ID_IDLE"
        "\<not> running k \<longrightarrow> has_active_context k = 0"
        using creator_mode [OF assms(1)] True by (auto simp: create_guard_def)
      have "rank s1 (unat i) = edf_key_of s" if "state s = OS_TASK_READY"
        using that by (simp add: rank_def s1_def phase_of_def)
      then have "asks_switch i (installed P c i s k) \<longleftrightarrow> precedes_running s1 (unat i)"
        using mode slot len
        by (auto simp: asks_switch_def installed_def precedes_running_def s1_def is_ready_def edf_of_fields
            phase_of_simps sched_def word_unat_eq_iff nth_list_update)
      then have "edf_of k' = s1\<lparr>switch_due := precedes_running s1 (unat i) \<or> pendsv_set k\<rparr>"
        unfolding edf_of_quiet [OF s(2)] s1_def using assms(3)
        by (simp add: announced_def edf_of_def installed_def phases_update [OF len slot(2)])
      with step show ?thesis by simp
    qed
  qed
qed

section \<open>The switch\<close>

lemma outgoing_refines:
  assumes "retires k k2" and "kernel_ok P k1" and "schedules k1 = schedules k" and "current_task k1 = current_task k"
    and "has_active_context k1 = has_active_context k" and "length (schedules k) = OS_TASK_COUNT"
  shows "phases (schedules k2) = phase (outgoing (edf_of k1))"
proof -
  let ?i = "unat (current_task k)"
  have mode: "mode_ok k1" using assms(2) by (simp add: kernel_ok_def)
  have out: "phase (outgoing (edf_of k1)) = (if has_active_context k = 0 then phases (schedules k)
      else (phases (schedules k))(?i := put_back (phase_of (sched k (current_task k)))))"
    using mode assms(3-5) by (auto simp: outgoing_def edf_of_def phases_def mode_ok_def sched_def fun_eq_iff split: if_splits)
  have on: "has_active_context k \<noteq> 0" if "state (sched k (current_task k)) = OS_TASK_RUNNING \<or>
      state (sched k (current_task k)) = OS_TASK_EXITING" "?i < OS_TASK_COUNT"
    using mode that assms(3-5) by (auto simp: mode_ok_def off_cpu_def sched_def split: if_splits)
  from assms(1) consider (off) "quiet k2 = quiet k" "all_off_cpu k"
    | (run) "?i < OS_TASK_COUNT" "state (sched k (current_task k)) = OS_TASK_RUNNING"
      "quiet k2 = quiet (k\<lparr>schedules := (schedules k)[?i := (sched k (current_task k))\<lparr>state := OS_TASK_READY\<rparr>]\<rparr>)"
    | (exit) a H where "?i < OS_TASK_COUNT" "state (sched k (current_task k)) = OS_TASK_EXITING"
      "quiet k2 = quiet (reclaimed (current_task k) a H k)"
    unfolding retires_def by blast
  then show ?thesis
  proof cases
    case off
    have "put_back (phase_of (sched k (current_task k))) = phase_of (sched k (current_task k))" if "?i < OS_TASK_COUNT"
      using off(2) that by (auto simp: all_off_cpu_def off_cpu_def sched_def phase_of_def split: os_task_state.splits)
    moreover have "?i < OS_TASK_COUNT" if "has_active_context k \<noteq> 0" using mode that assms(3-5) by (simp add: mode_ok_def)
    ultimately show ?thesis
      using quiet_eqD(2) [OF off(1)] by (auto simp: out phases_def sched_def fun_eq_iff)
  next
    case run
    then have "phase_of ((sched k (current_task k))\<lparr>state := OS_TASK_READY\<rparr>) = put_back (phase_of (sched k (current_task k)))"
      by (simp add: phase_of_def)
    then show ?thesis
      using quiet_eqD(2) [OF run(3)] on run(1,2) by (simp add: out phases_update [OF assms(6) run(1)])
  next
    case exit
    then have "phase_of (blank_schedule (current_task k)) = put_back (phase_of (sched k (current_task k)))"
      by (simp add: phase_of_def blank_schedule_def os_sched_task_zero_def)
    then show ?thesis
      using quiet_eqD(2) [OF exit(3)] on exit(1,2) by (simp add: out reclaimed_def phases_update [OF assms(6) exit(1)])
  qed
qed

lemma ready_user_iff:
  assumes "slots_ok P k" and "phase s = phases (schedules k)"
  shows "is_ready s j \<and> j \<noteq> 0 \<longleftrightarrow> j < OS_TASK_COUNT \<and> ready_user_job (schedules k ! j)"
proof (cases "j < OS_TASK_COUNT")
  case True
  then have slot: "slot_ok P j (schedules k ! j) (tasks k ! j)" and id: "(of_nat j :: os_task_id_t) = 0 \<longleftrightarrow> j = 0"
    using assms(1) unat_of_nat_id [of j] by (auto simp: slots_ok_def)
  with True show ?thesis
    by (auto simp: is_ready_def assms(2) phases_def phase_of_simps ready_user_job_def slot_ok_def)
qed (auto simp: is_ready_def assms(2) phases_def)

lemma precedes_running_iff:
  assumes "slots_ok P k"
  shows "(\<exists>i. precedes_running (edf_of k) i) \<longleftrightarrow> has_active_context k \<noteq> 0 \<and> unat (current_task k) < OS_TASK_COUNT \<and>
    state (sched k (current_task k)) = OS_TASK_RUNNING \<and> outranked k"
proof -
  let ?on = "has_active_context k \<noteq> 0 \<and> unat (current_task k) < OS_TASK_COUNT \<and>
    state (sched k (current_task k)) = OS_TASK_RUNNING"
  note ready = ready_user_iff [OF assms edf_of_phase]
  have running: "cpu (edf_of k) = Some j \<and> phase (edf_of k) j = Running r \<longleftrightarrow>
      ?on \<and> j = unat (current_task k) \<and> r = edf_key_of (sched k (current_task k))" for j r
    by (auto simp: edf_of_fields(4) edf_of_phase phases_def phase_of_simps sched_def)
  have on: "(\<exists>j r. cpu (edf_of k) = Some j \<and> phase (edf_of k) j = Running r \<and> Q j r) \<longleftrightarrow>
      ?on \<and> Q (unat (current_task k)) (edf_key_of (sched k (current_task k)))" for Q
  proof -
    have "(\<exists>j r. cpu (edf_of k) = Some j \<and> phase (edf_of k) j = Running r \<and> Q j r) \<longleftrightarrow>
        (\<exists>j r. (cpu (edf_of k) = Some j \<and> phase (edf_of k) j = Running r) \<and> Q j r)" by simp
    then show ?thesis unfolding running by simp
  qed
  have rank: "rank (edf_of k) i = edf_key_of (schedules k ! i)"
    if "i < OS_TASK_COUNT" "ready_user_job (schedules k ! i)" for i
    using that by (simp add: rank_def edf_of_fields ready_user_job_def phase_of_def)
  have "precedes_running (edf_of k) i \<longleftrightarrow> ?on \<and> i < OS_TASK_COUNT \<and> ready_user_job (schedules k ! i) \<and>
      (current_task k = OS_TASK_ID_IDLE \<or> edf_key_of (schedules k ! i) < edf_key_of (sched k (current_task k)))" for i
    unfolding precedes_running_def on using ready [of i] rank [of i] by (auto simp: unat_eq_0)
  then show ?thesis by (auto simp: outranked_def)
qed

lemma chosen_refines:
  assumes "slots_ok P k2" and "dispatch_choice (schedules k2) excluded nx" and "phase s = phases (schedules k2)"
    and "passed_over s = (if excluded = OS_TASK_ID_INVALID then None else Some (unat excluded))"
    and "excluded = OS_TASK_ID_INVALID \<or> unat excluded < OS_TASK_COUNT"
  shows "chosen s (unat nx)"
proof -
  let ?E = "eligible_set (schedules k2) OS_TASK_COUNT32 excluded"
  have competes: "competes s i \<longleftrightarrow> i \<in> ?E" for i
  proof
    assume i: "competes s i"
    then have "i < OS_TASK_COUNT" "i \<noteq> 0" "state (schedules k2 ! i) = OS_TASK_READY"
      by (auto simp: competes_def is_ready_def assms(3) phases_def phase_of_simps split: if_splits)
    moreover have "of_nat i \<noteq> excluded"
      using i calculation(1) assms(4) unat_of_nat_id [of i] by (auto simp: competes_def split: if_splits)
    ultimately show "i \<in> ?E" by (intro eligibleI [OF assms(1)])
  next
    assume i: "i \<in> ?E"
    from eligible_range [OF this] eligible_ready_user [OF assms(1) i] have "0 < i" "i < OS_TASK_COUNT"
      "state (schedules k2 ! i) = OS_TASK_READY" by (simp_all add: ready_user_job_def)
    moreover have "of_nat i \<noteq> excluded" using i by (auto simp: eligible_set_def eligible_def)
    then have "passed_over s \<noteq> Some i" by (auto simp: assms(4))
    ultimately show "competes s i"
      by (auto simp: competes_def is_ready_def assms(3) phases_def phase_of_simps)
  qed
  have rank: "rank s i = edf_key_of (schedules k2 ! i)" if "i \<in> ?E" for i
  proof -
    have "i < OS_TASK_COUNT" "state (schedules k2 ! i) = OS_TASK_READY"
      using eligible_range [OF that] eligible_ready_user [OF assms(1) that] by (simp_all add: ready_user_job_def)
    then show ?thesis by (simp add: rank_def assms(3) phases_def phase_of_def)
  qed
  show ?thesis
  proof (cases "?E = {}")
    case False
    then have "unat nx \<in> ?E \<and> (\<forall>j \<in> ?E. j \<noteq> unat nx \<longrightarrow> edf_key_of (schedules k2 ! unat nx) < edf_key_of (schedules k2 ! j))"
      using assms(2) by (simp add: dispatch_choice_def)
    with False show ?thesis by (auto simp: chosen_def competes rank)
  next
    case True
    note ready = ready_user_iff [OF assms(1,3)]
    show ?thesis
    proof (cases "\<exists>i. passed_over s = Some i \<and> i \<noteq> 0 \<and> is_ready s i")
      case some: True
      then have "excluded \<noteq> OS_TASK_ID_INVALID" "unat excluded \<noteq> 0" "is_ready s (unat excluded)"
        by (auto simp: assms(4) split: if_splits)
      then have "nx = excluded" using assms(2,5) True ready [of "unat excluded"]
        by (auto simp: dispatch_choice_def unat_eq_0 split: if_splits)
      with some True assms(4) show ?thesis by (auto simp: chosen_def competes split: if_splits)
    next
      case False
      have "nx = OS_TASK_ID_IDLE"
        using assms(2,4,5) True False ready [of "unat excluded"]
        by (auto simp: dispatch_choice_def unat_eq_0 split: if_splits)
      moreover have "\<not> (\<exists>i. competes s i)" using True by (simp add: competes)
      ultimately show ?thesis using False by (simp only: chosen_def if_False unat_0)
    qed
  qed
qed

lemma switch_refines:
  assumes "kernel_ok P k" and "pendsv_set k" and "stack_in_bounds k"
    and "PendSV_Handler (rs, k\<lparr>pendsv_set := False\<rparr>) = Inr (rs', k')"
  shows "edf_step (edf_of k) (edf_of k')"
proof -
  let ?k0 = "saved (if has_active_context k \<noteq> 0 then psp k - 32 else 0) (stacked rs k)"
  obtain k1 k2 nx where sw: "PendSV_Handler (rs, k\<lparr>pendsv_set := False\<rparr>) =
      Inr (load_registers (saved_psp (tcb k1 nx)) (ram k1), k1)" "retires ?k0 k2" "slots_ok P k2"
    "unat nx < OS_TASK_COUNT" "state (sched k2 nx) = OS_TASK_READY"
    "dispatch_choice (schedules k2) (yield_excluded_task k) nx"
    "quiet k1 = quiet ((dispatched nx k2)\<lparr>psp := saved_psp (tcb k1 nx) + 32, control := CONTROL_SPSEL_Msk,
       primask := primask k\<rparr>)"
    by (rule handler_effect [OF assms(1-3), of rs]) blast
  have k1: "k1 = k'" using sw(1) assms(4) by simp
  note f = quiet_eqD [OF sw(7), unfolded k1]
  have len: "length (schedules k2) = OS_TASK_COUNT" "length (schedules k) = OS_TASK_COUNT"
    using sw(3) assms(1) by (simp_all add: slots_ok_def kernel_ok_def)
  have same0: "current_task ?k0 = current_task k" "schedules ?k0 = schedules k"
    "has_active_context ?k0 = has_active_context k" "monotonic_ticks ?k0 = monotonic_ticks k"
    by (simp_all add: saved_same) (simp_all add: stacked_def)
  have out: "phase (outgoing (edf_of k)) = phases (schedules k2)"
    using outgoing_refines [OF sw(2) assms(1)] same0 len by simp
  have keep: "passed_over (outgoing (edf_of k)) = passed_over (edf_of k)" "clock (outgoing (edf_of k)) = clock (edf_of k)"
    by (simp_all add: outgoing_def split: option.split)
  have mode: "yield_excluded_task k = OS_TASK_ID_INVALID \<or> unat (yield_excluded_task k) < OS_TASK_COUNT"
    using assms(1) by (auto simp: kernel_ok_def mode_ok_def split: if_splits)
  have "chosen (outgoing (edf_of k)) (unat nx)"
    by (rule chosen_refines [OF sw(3,6) out _ mode]) (simp add: keep edf_of_fields)
  moreover have "phase (outgoing (edf_of k)) (unat nx) = Ready (edf_key_of (sched k2 nx))"
    using sw(4,5) by (simp add: out phases_def phase_of_simps sched_def)
  ultimately have step: "edf_step (edf_of k) ((outgoing (edf_of k))\<lparr>phase := (phase (outgoing (edf_of k)))
      (unat nx := Running (edf_key_of (sched k2 nx))), cpu := Some (unat nx), passed_over := None, switch_due := False\<rparr>)"
    using edf_step.switch [of "edf_of k"] assms(2) by (simp add: edf_of_fields)
  have "phase_of ((sched k2 nx)\<lparr>state := OS_TASK_RUNNING\<rparr>) = Running (edf_key_of (sched k2 nx))"
    by (simp add: phase_of_def edf_key_of_def)
  then have phase': "phases (schedules k') = (phases (schedules k2))(unat nx := Running (edf_key_of (sched k2 nx)))"
    by (simp add: f dispatched_def phases_update [OF len(1) sw(4)])
  have "monotonic_ticks k' = monotonic_ticks k" "pendsv_set k' = False"
    using retires_same [OF sw(2)] same0 by (simp_all add: f dispatched_def saved_same) (simp_all add: stacked_def)
  then have "edf_of k' = (outgoing (edf_of k))\<lparr>phase := (phase (outgoing (edf_of k)))
      (unat nx := Running (edf_key_of (sched k2 nx))), cpu := Some (unat nx), passed_over := None, switch_due := False\<rparr>"
    using keep(2) by (intro edf_state.equality)
      (simp_all add: edf_of_phase phase' out edf_of_fields(1,4-6), simp_all add: f dispatched_def)
  with step show ?thesis by simp
qed

section \<open>The tick\<close>

lemma tick_record_phase:
  assumes "slot_ok P i s t" and "unat now + 2 ^ 32 \<le> 2 ^ 64"
  shows "phase_of (if i = 0 then s else tick_record now s) = wake_at (unat now) (phase_of s)"
proof (cases "i = 0")
  case True
  then have "state s = OS_TASK_READY \<or> state s = OS_TASK_RUNNING" using assms(1) by (simp add: slot_ok_def)
  with True show ?thesis by (auto simp: phase_of_def)
next
  case False
  note facts = tick_record_facts [OF assms]
  have active: "job_active s" if "state s = OS_TASK_READY \<or> state s = OS_TASK_RUNNING \<or> state s = OS_TASK_SLEEPING"
    using assms(1) False that by (auto simp: slot_ok_def sched_task_wf_def)
  show ?thesis
  proof (cases "ready_now now s")
    case True
    then have "state (tick_record now s) = OS_TASK_READY" using facts(2) by (auto simp: ready_now_def)
    then show ?thesis
      using True False facts(3,8) active
      by (auto simp: phase_of_def ready_now_def release_now_def wake_now_def word_le_nat_alt)
  next
    case no: False
    note rec = tick_record_not_due [OF assms no]
    show ?thesis
    proof (cases "job_active s")
      case True
      then have "state s \<noteq> OS_TASK_WAITING_RELEASE" using assms(1) by (auto simp: slot_ok_def sched_task_wf_def)
      with rec(3,4) facts(3) True False no show ?thesis
        by (cases "state s") (simp_all add: phase_of_def ready_now_def wake_now_def word_le_nat_alt)
    next
      case inactive: False
      with rec(2) active False no show ?thesis
        by (cases "state s") (auto simp: phase_of_def ready_now_def release_now_def word_le_nat_alt)
    qed
  qed
qed

lemma phase_of_due: "wake_at (unat now) (phase_of s) \<noteq> phase_of s \<longleftrightarrow> ready_now now s"
  by (cases "state s") (simp_all add: phase_of_def ready_now_def release_now_def wake_now_def word_le_nat_alt)

lemma tick_refines:
  assumes "kernel_ok P k" and "tick_range k" and "running k" and "os_kernel_tick k = Inr k'"
  shows "edf_step (edf_of k) (edf_of k')"
proof -
  have slots: "slots_ok P k" and mode: "mode_ok k" using assms(1) by (simp_all add: kernel_ok_def)
  have len: "length (schedules k) = OS_TASK_COUNT" "length (schedules (after_loop k)) = OS_TASK_COUNT"
    using slots by (simp_all add: slots_ok_def after_loop_def)
  let ?s = "edf_of k" and ?a = "after_loop k"
  have same: "current_task ?a = current_task k" "has_active_context ?a = has_active_context k"
    "yield_excluded_task ?a = yield_excluded_task k" "pendsv_set ?a = pendsv_set k"
    "monotonic_ticks ?a = monotonic_ticks k + 1"
    by (simp_all add: after_loop_def)
  have slot: "slot_ok P i (schedules k ! i) (tasks k ! i)" if "i < OS_TASK_COUNT" for i
    using slots that by (simp add: slots_ok_def)
  note nth = after_loop_nth [OF slots assms(2)]
  have phase: "phase_of (schedules ?a ! i) = wake_at (clock ?s + 1) (phase_of (schedules k ! i))" if "i < OS_TASK_COUNT" for i
    using tick_record_phase [OF slot [OF that] tick_range_next(2) [OF assms(2)]] nth(1) [OF that]
      tick_range_next(1) [OF assms(2)] by (simp add: edf_of_fields)
  have s1: "edf_of ?a = ?s\<lparr>clock := clock ?s + 1, phase := wake_at (clock ?s + 1) \<circ> phase ?s\<rparr>"
    using phase tick_range_next(1) [OF assms(2)]
    by (intro edf_state.equality) (auto simp: edf_of_def same phases_def fun_eq_iff)
  have moved: "phase (edf_of ?a) i \<noteq> phase ?s i \<longleftrightarrow>
      i \<in> {1..<OS_TASK_COUNT} \<and> ready_now (monotonic_ticks k + 1) (schedules k ! i)" for i
  proof (cases "i < OS_TASK_COUNT")
    case True
    have "\<not> ready_now (monotonic_ticks k + 1) (schedules k ! 0)"
      using slot [of 0] by (auto simp: slot_ok_def ready_now_def release_now_def wake_now_def)
    with phase [OF True] phase_of_due [of "monotonic_ticks k + 1" "schedules k ! i"] True show ?thesis
      using tick_range_next(1) [OF assms(2)] by (cases "i = 0") (simp_all add: edf_of_fields)
  qed (simp add: edf_of_fields)
  have still: "state (sched ?a (current_task k)) = OS_TASK_RUNNING \<longleftrightarrow> state (sched k (current_task k)) = OS_TASK_RUNNING"
    if "unat (current_task k) < OS_TASK_COUNT"
    using nth(3) [OF that] by (auto simp: sched_def ready_now_def release_now_def wake_now_def)
  have "slots_ok P ?a" using after_loop_keeps [OF assms(1,2)] by (simp add: kernel_ok_def)
  from precedes_running_iff [OF this] have outranks: "(\<exists>i. precedes_running (edf_of ?a) i) \<longleftrightarrow>
      has_active_context k \<noteq> 0 \<and> state (sched k (current_task k)) = OS_TASK_RUNNING \<and> outranked ?a"
    using mode still by (auto simp: same mode_ok_def)
  from tick_effect [OF assms(1,3,2)] assms(4)
  have q: "quiet k' = quiet (if tick_switches k then tick_preempted ?a else ?a)" by simp
  show ?thesis
  proof (cases "tick_switches k")
    case False
    then have "\<not> ((\<exists>i. phase (edf_of ?a) i \<noteq> phase ?s i) \<and> (\<exists>i. precedes_running (edf_of ?a) i))"
      unfolding moved outranks by (auto simp: tick_switches_def)
    from edf_step.tick [OF s1 this] edf_of_quiet [OF q] False show ?thesis by simp
  next
    case True
    then obtain i j where ij: "phase (edf_of ?a) i \<noteq> phase ?s i" "precedes_running (edf_of ?a) j"
      using moved outranks unfolding tick_switches_def by blast
    have cur: "unat (current_task k) < OS_TASK_COUNT" "cpu ?s = Some (unat (current_task k))"
      using True mode by (simp_all add: tick_switches_def mode_ok_def edf_of_fields)
    have "state (sched ?a (current_task k)) = OS_TASK_RUNNING"
      using still [OF cur(1)] True by (simp add: tick_switches_def)
    then have "phase_of ((sched ?a (current_task k))\<lparr>state := OS_TASK_READY\<rparr>) =
        put_back (phase (edf_of ?a) (unat (current_task k)))"
      using cur by (simp add: edf_of_fields sched_def phase_of_def edf_key_of_def)
    then have "edf_of k' = (edf_of ?a)\<lparr>phase := (phase (edf_of ?a))(unat (current_task k) :=
        put_back (phase (edf_of ?a) (unat (current_task k)))), switch_due := True\<rparr>"
      using edf_of_quiet [OF q] True
      by (intro edf_state.equality) (simp_all add: edf_of_phase edf_of_fields(1,4-6),
        simp_all add: tick_preempted_def same phases_update [OF len(2) cur(1)])
    with edf_step.preempt [OF s1 ij cur(2)] show ?thesis by simp
  qed
qed

section \<open>All steps\<close>

lemma booted_refines:
  assumes "\<not> pendsv_set k"
  shows "edf_of (booted P ring a H k) = edf_start"
proof -
  have "phase_of (blank_schedule i) = Free" for i
    by (simp add: phase_of_def blank_schedule_def os_sched_task_zero_def)
  moreover have "phase_of idle_schedule = Ready (Edf_Key 0 0 0)"
    by (simp add: phase_of_def idle_schedule_def blank_schedule_def os_sched_task_zero_def edf_key_of_def)
  ultimately have "phases (blank_schedules[0 := idle_schedule]) = (\<lambda>_. Free)(0 := Ready (Edf_Key 0 0 0))"
    by (auto simp: phases_def blank_schedules_def fun_eq_iff nth_list_update)
  with assms show ?thesis by (simp add: edf_of_def edf_start_def booted_def booted_slots_def)
qed

lemma step_refines:
  assumes "kernel_step P c c'" and "platform_ok P" and "kernel_ok P (snd c)"
  shows "edf_step (edf_of (snd c)) (edf_of (snd c')) \<or> edf_of (snd c') = edf_of (snd c)"
  using assms
proof (induction rule: kernel_step.induct)
  case (create k config created r k' rs)
  then show ?case using create_refines [of P k config created r k'] by simp
next
  case (start k service k' rs)
  then have "quiet k' = quiet (k\<lparr>running := True\<rparr>)" using start_keeps(2) by simp
  from edf_of_quiet [OF this] show ?case by (simp add: edf_of_def)
next
  case (svc k lr k' rs)
  then have ok: "kernel_ok P k" by simp
  have run: "os_svc_dispatch P (if lr AND 4 = 0 then msp k else psp k) lr k = Inr k'"
    using svc(3) by (simp add: SVC_Handler_def)
  show ?case
  proof (cases rule: svc_dispatch_cases [OF ok svc(1,2) run, case_names start trap])
    case start
    then have "edf_of k' = (edf_of k)\<lparr>switch_due := True\<rparr>" by (simp add: edf_of_def request_pendsv_def)
    with edf_step.begin_run [of "edf_of k"] start(1) show ?thesis by (simp add: edf_of_fields)
  next
    case (trap st)
    from trap_refines [OF ok trap(1) svc(1) trap(2,3,4)] show ?thesis by simp
  qed
next
  case (switch k rs rs' k')
  then show ?case using switch_refines [of P k rs rs' k'] by simp
next
  case (tick k k' rs)
  show ?case
  proof (cases "running k")
    case True
    then show ?thesis using tick_refines [of P k k'] tick by simp
  next
    case False
    then have "k' = k" using tick(2) by (simp add: os_kernel_tick_def)
    then show ?thesis by simp
  qed
next
  case (alloc k sz p k' rs)
  then have "quiet k' = quiet (with_heap (heap_of k') k)" using os_memory_alloc_keeps(2) by simp
  from edf_of_quiet [OF this] show ?case by (simp add: edf_of_def with_heap_def)
next
  case (free k p r k' rs)
  then have "quiet k' = quiet (with_heap (heap_of k') k)" using os_memory_free_keeps(2) by simp
  from edf_of_quiet [OF this] show ?case by (simp add: edf_of_def with_heap_def)
qed (simp_all add: edf_of_def)

lemma reachable_refines:
  assumes "reachable P c" and "platform_ok P"
  shows "edf_reachable (edf_of (snd c))"
  using assms
proof (induction rule: reachable.induct)
  case (boot k k' rs)
  then obtain ring a H where "k' = booted P ring a H k"
    using init_effect [of P k] by (auto simp: power_on_def)
  with boot booted_refines show ?case by (simp add: power_on_def edf_reachable.start)
next
  case (step c c')
  with step_refines [of P c c'] reachable_ok [of P c] show ?case
    using edf_reachable.step by fastforce
qed

end
