(* ===== verification/Kernel_Edf_Claims.thy ===== *)
theory Kernel_Edf_Claims
  imports Kernel_Demo Kernel_Edf
begin

text \<open>The kernel is an implementation of the machine of \<open>Edf_Machine\<close>.\<close>

text \<open>C3: The kernel refines an abstract earliest-deadline-first machine. The machine has five slots that
  are free, waiting for a tick, ready with a rank, running or leaving, a clock and one processor, and no
  records, stacks, registers or heap; its only way to give the processor to a slot is the step \<open>switch\<close>,
  which takes the ready slot of least rank. The abstraction of every reachable state of the kernel is a
  reachable state of the machine, in which at most the slot on the processor runs and it does run unless a
  switch is due; and every step of the system, be it a supervisor call, a switch, a tick, a creation or a
  heap call, is a step of the machine or changes nothing that the machine sees.\<close>

theorem kernel_refines_edf_machine:
  assumes "platform_ok P" and "reachable P c"
  shows "edf_reachable (edf_of (snd c)) \<and> edf_ok (edf_of (snd c)) \<and>
    (\<forall>c'. kernel_step P c c' \<longrightarrow>
       edf_step (edf_of (snd c)) (edf_of (snd c')) \<or> edf_of (snd c') = edf_of (snd c))"
proof -
  have reach: "edf_reachable (edf_of (snd c))" by (rule reachable_refines [OF assms(2,1)])
  with edf_reachable_ok step_refines [OF _ assms(1) reachable_ok [OF assms(2,1)]] show ?thesis by blast
qed

theorem kernel_refines_edf_machine_witness:
  "edf_step (edf_of (snd d9)) (edf_of (snd d10)) \<and> clock (edf_of (snd d10)) = 1"
proof -
  have "monotonic_ticks (snd d9) = 0" "monotonic_ticks (snd d10) = 1"
    using asleep_d9 d10_facts(1) by (simp_all add: asleep_def)
  then have clocks: "clock (edf_of (snd d9)) = 0" "clock (edf_of (snd d10)) = 1" by (simp_all add: edf_of_fields)
  then have "edf_of (snd d10) \<noteq> edf_of (snd d9)" by auto
  with kernel_refines_edf_machine [OF demo_platform_ok d9_facts(2)] d10_facts(2) clocks show ?thesis by blast
qed

end
