(* ===== verification/Fir.thy ===== *)
theory Fir
  imports Prelude "HOL-Library.Signed_Division"
begin

text \<open>
  The Q15 filter of \<open>dsp/\<close>: a portable reference, a portable two-lane loop and the Cortex-M4 loop. An
  \<open>int16_t\<close> is a \<open>16 word\<close> read by \<open>sint\<close>, an \<open>int64_t\<close> accumulator a \<open>64 word\<close>; memory maps the
  address of an element to its value, and \<open>size_t\<close> and \<open>uintptr_t\<close> have 32 bits. The two instructions
  of the Cortex-M4, which CMSIS supplies, are parameters.
\<close>

unbundle bit_operations_syntax

abbreviation AYMOS_FIR_Q15_MAX_TAPS :: u32 where "AYMOS_FIR_Q15_MAX_TAPS \<equiv> 64"

datatype aymos_fir_q15_status = AYMOS_FIR_Q15_OK | AYMOS_FIR_Q15_NULL_POINTER
  | AYMOS_FIR_Q15_INVALID_TAP_COUNT | AYMOS_FIR_Q15_INPUT_TOO_SHORT | AYMOS_FIR_Q15_OUTPUT_TOO_SMALL
  | AYMOS_FIR_Q15_SIZE_OVERFLOW | AYMOS_FIR_Q15_OVERLAPPING_OUTPUT

type_synonym cells = "u32 \<Rightarrow> u16"

text \<open>The element \<open>base[index]\<close> of an array of \<open>int16_t\<close>.\<close>

definition element :: "u32 \<Rightarrow> nat \<Rightarrow> u32" where
  "element base index = base + 2 * of_nat index"

section \<open>Validation\<close>

definition byte_range :: "u32 \<Rightarrow> u32 \<Rightarrow> (u32 \<times> u32) option" where
  "byte_range pointer count =
     (if count > UINT32_MAX div 2 then None
      else let bytes = count * 2; address = pointer
           in if bytes > UINT32_MAX - address then None else Some (address, address + bytes))"

definition ranges_overlap :: "u32 \<Rightarrow> u32 \<Rightarrow> u32 \<Rightarrow> u32 \<Rightarrow> bool" where
  "ranges_overlap first_begin first_end second_begin second_end \<longleftrightarrow>
     first_begin < second_end \<and> second_begin < first_end"

definition aymos_fir_q15_valid_output_count :: "u32 \<Rightarrow> u32 \<Rightarrow> u32" where
  "aymos_fir_q15_valid_output_count sample_count tap_count =
     (if tap_count = 0 \<or> tap_count > AYMOS_FIR_Q15_MAX_TAPS \<or> sample_count < tap_count then 0
      else (sample_count - tap_count) + 1)"

definition aymos_fir_q15_validate ::
  "u32 \<Rightarrow> u32 \<Rightarrow> u32 \<Rightarrow> u32 \<Rightarrow> u32 \<Rightarrow> u32 \<Rightarrow> aymos_fir_q15_status" where
  "aymos_fir_q15_validate samples sample_count coefficients tap_count output output_capacity =
     (if samples = 0 \<or> coefficients = 0 \<or> output = 0 then AYMOS_FIR_Q15_NULL_POINTER
      else if tap_count = 0 \<or> tap_count > AYMOS_FIR_Q15_MAX_TAPS then AYMOS_FIR_Q15_INVALID_TAP_COUNT
      else if sample_count < tap_count then AYMOS_FIR_Q15_INPUT_TOO_SHORT
      else
        let output_count = aymos_fir_q15_valid_output_count sample_count tap_count
        in if output_capacity < output_count then AYMOS_FIR_Q15_OUTPUT_TOO_SMALL
           else case (byte_range samples sample_count, byte_range coefficients tap_count,
                      byte_range output output_count) of
             (Some (samples_begin, samples_end), Some (coefficients_begin, coefficients_end),
              Some (output_begin, output_end)) \<Rightarrow>
               (if ranges_overlap output_begin output_end samples_begin samples_end \<or>
                   ranges_overlap output_begin output_end coefficients_begin coefficients_end
                then AYMOS_FIR_Q15_OVERLAPPING_OUTPUT else AYMOS_FIR_Q15_OK)
           | _ \<Rightarrow> AYMOS_FIR_Q15_SIZE_OVERFLOW)"

section \<open>Scaling\<close>

text \<open>C division truncates towards zero.\<close>

definition aymos_fir_q15_truncate :: "u64 \<Rightarrow> u32" where
  "aymos_fir_q15_truncate q30_value = word_of_int (sint q30_value sdiv 32768)"

definition aymos_fir_q15_saturate :: "u32 \<Rightarrow> u16" where
  "aymos_fir_q15_saturate q15_value =
     (if sint q15_value > 32767 then 32767
      else if sint q15_value < - 32768 then word_of_int (- 32768)
      else ucast q15_value)"

definition aymos_fir_q15_pack :: "u16 \<Rightarrow> u16 \<Rightarrow> u32" where
  "aymos_fir_q15_pack low_lane high_lane = ucast low_lane OR push_bit 16 (ucast high_lane)"

section \<open>The portable reference\<close>

fun scalar_taps :: "cells \<Rightarrow> u32 \<Rightarrow> u32 \<Rightarrow> nat \<Rightarrow> nat list \<Rightarrow> u64 \<Rightarrow> u64" where
  "scalar_taps m samples coefficients sample_index [] accumulator = accumulator"
| "scalar_taps m samples coefficients sample_index (tap_index # rest) accumulator =
     scalar_taps m samples coefficients sample_index rest
       (accumulator + scast (m (element samples (sample_index + tap_index))) *
                      scast (m (element coefficients tap_index)))"

definition aymos_fir_q15_scalar ::
  "u32 \<Rightarrow> u32 \<Rightarrow> u32 \<Rightarrow> u32 \<Rightarrow> u32 \<Rightarrow> u32 \<Rightarrow> cells \<Rightarrow> aymos_fir_q15_status \<times> cells" where
  "aymos_fir_q15_scalar samples sample_count coefficients tap_count output output_capacity m =
     (let status = aymos_fir_q15_validate samples sample_count coefficients tap_count output output_capacity
      in if status \<noteq> AYMOS_FIR_Q15_OK then (status, m)
         else
           let output_count = aymos_fir_q15_valid_output_count sample_count tap_count
           in (AYMOS_FIR_Q15_OK, fold (\<lambda>sample_index m. m(element output sample_index :=
                 aymos_fir_q15_saturate (aymos_fir_q15_truncate
                   (scalar_taps m samples coefficients sample_index [0..<unat tap_count] 0))))
               [0..<unat output_count] m))"

section \<open>The portable two-lane loop\<close>

definition signed_lane :: "u16 \<Rightarrow> u32" where
  "signed_lane value = (if value \<le> 32767 then ucast value else - 1 - ucast (0xFFFF - value))"

definition portable_pair_mac :: "u32 \<Rightarrow> u32 \<Rightarrow> u64" where
  "portable_pair_mac sample_pair coefficient_pair =
     (let sample_low = signed_lane (ucast sample_pair);
          sample_high = signed_lane (ucast (drop_bit 16 sample_pair));
          coefficient_low = signed_lane (ucast coefficient_pair);
          coefficient_high = signed_lane (ucast (drop_bit 16 coefficient_pair))
      in scast sample_low * scast coefficient_low + scast sample_high * scast coefficient_high)"

text \<open>The loop over pairs of taps, with its multiply-accumulate step; it ends with the tap index.\<close>

function pair_taps ::
  "(u32 \<Rightarrow> u32 \<Rightarrow> u64 \<Rightarrow> u64) \<Rightarrow> cells \<Rightarrow> u32 \<Rightarrow> u32 \<Rightarrow> nat \<Rightarrow> nat \<Rightarrow> nat \<Rightarrow> u64 \<Rightarrow> nat \<times> u64" where
  "pair_taps mac m samples coefficients sample_index tap_count tap_index accumulator =
     (if tap_index + 1 < tap_count then
        let sample_pair = aymos_fir_q15_pack (m (element samples (sample_index + tap_index)))
              (m (element samples (sample_index + tap_index + 1)));
            coefficient_pair = aymos_fir_q15_pack (m (element coefficients tap_index))
              (m (element coefficients (tap_index + 1)))
        in pair_taps mac m samples coefficients sample_index tap_count (tap_index + 2)
             (mac sample_pair coefficient_pair accumulator)
      else (tap_index, accumulator))"
  by pat_completeness auto
termination
  by (relation "measure (\<lambda>(mac, m, s, c, i, n, t, a). n - t)") auto

declare pair_taps.simps [simp del]

text \<open>The last tap of an odd number of taps.\<close>

definition tail_tap :: "cells \<Rightarrow> u32 \<Rightarrow> u32 \<Rightarrow> nat \<Rightarrow> nat \<Rightarrow> nat \<times> u64 \<Rightarrow> u64" where
  "tail_tap m samples coefficients sample_index tap_count r = (let (tap_index, accumulator) = r
     in if tap_index < tap_count
        then accumulator + scast (m (element samples (sample_index + tap_index))) *
                           scast (m (element coefficients tap_index))
        else accumulator)"

definition aymos_fir_q15_packed_portable ::
  "u32 \<Rightarrow> u32 \<Rightarrow> u32 \<Rightarrow> u32 \<Rightarrow> u32 \<Rightarrow> u32 \<Rightarrow> cells \<Rightarrow> aymos_fir_q15_status \<times> cells" where
  "aymos_fir_q15_packed_portable samples sample_count coefficients tap_count output output_capacity m =
     (let status = aymos_fir_q15_validate samples sample_count coefficients tap_count output output_capacity
      in if status \<noteq> AYMOS_FIR_Q15_OK then (status, m)
         else
           let output_count = aymos_fir_q15_valid_output_count sample_count tap_count
           in (AYMOS_FIR_Q15_OK, fold (\<lambda>sample_index m. m(element output sample_index :=
                 aymos_fir_q15_saturate (aymos_fir_q15_truncate
                   (tail_tap m samples coefficients sample_index (unat tap_count)
                     (pair_taps (\<lambda>x y acc. acc + portable_pair_mac x y) m samples coefficients
                        sample_index (unat tap_count) 0 0)))))
               [0..<unat output_count] m))"

section \<open>The Cortex-M4 loop\<close>

definition signed_accumulator :: "u64 \<Rightarrow> u64" where
  "signed_accumulator value = (if value \<le> 0x7FFFFFFFFFFFFFFF then value else - 1 - (UINT64_MAX - value))"

record dsp_instructions =
  SMLALD :: "u32 \<Rightarrow> u32 \<Rightarrow> u64 \<Rightarrow> u64"
  SSAT :: "u32 \<Rightarrow> u32 \<Rightarrow> u32"

definition aymos_fir_q15_m4 ::
  "dsp_instructions \<Rightarrow> u32 \<Rightarrow> u32 \<Rightarrow> u32 \<Rightarrow> u32 \<Rightarrow> u32 \<Rightarrow> u32 \<Rightarrow> cells \<Rightarrow> aymos_fir_q15_status \<times> cells" where
  "aymos_fir_q15_m4 D samples sample_count coefficients tap_count output output_capacity m =
     (let status = aymos_fir_q15_validate samples sample_count coefficients tap_count output output_capacity
      in if status \<noteq> AYMOS_FIR_Q15_OK then (status, m)
         else
           let output_count = aymos_fir_q15_valid_output_count sample_count tap_count
           in (AYMOS_FIR_Q15_OK, fold (\<lambda>sample_index m. m(element output sample_index :=
                 (let accumulator = tail_tap m samples coefficients sample_index (unat tap_count)
                        (pair_taps (SMLALD D) m samples coefficients sample_index (unat tap_count) 0 0);
                      scaled = aymos_fir_q15_truncate (signed_accumulator accumulator)
                  in ucast (SSAT D scaled 16))))
               [0..<unat output_count] m))"

end
