(* ===== verification/Fir_Lemmas.thy ===== *)
theory Fir_Lemmas
  imports Fir
begin

text \<open>
  The mathematics of the filter: the convolution sum as an integer, the ranges of bytes a call
  reads and writes, the accumulators of the three loops read as that sum, and the loop over the
  outputs, whose writes do not disturb what it reads.
\<close>

section \<open>The convolution sum\<close>

definition dot :: "cells \<Rightarrow> u32 \<Rightarrow> u32 \<Rightarrow> nat \<Rightarrow> nat \<Rightarrow> int" where
  "dot m samples coefficients j n =
     (\<Sum>t<n. sint (m (element samples (j + t))) * sint (m (element coefficients t)))"

definition q15_output :: "int \<Rightarrow> int" where
  "q15_output acc = max (- 32768) (min 32767 (acc sdiv 32768))"

lemma sint16_range: "- 32768 \<le> sint (v :: u16)" "sint (v :: u16) < 32768"
  using sint_greater_eq [of v] sint_less [of v] by simp_all

lemma sint32_range: "- 2147483648 \<le> sint (v :: u32)" "sint (v :: u32) < 2147483648"
  using sint_greater_eq [of v] sint_less [of v] by simp_all

lemma sint_product_bound: "\<bar>sint (v :: u16) * sint (w :: u16)\<bar> \<le> 1073741824"
proof -
  have "\<bar>sint v\<bar> \<le> 32768" "\<bar>sint w\<bar> \<le> 32768"
    using sint16_range [of v] sint16_range [of w] by linarith+
  then have "\<bar>sint v\<bar> * \<bar>sint w\<bar> \<le> 32768 * 32768"
    by (intro mult_mono) simp_all
  then show ?thesis by (simp add: abs_mult)
qed

lemma dot_0 [simp]: "dot m s c j 0 = 0"
  by (simp add: dot_def)

lemma dot_Suc:
  "dot m s c j (Suc n) = dot m s c j n + sint (m (element s (j + n))) * sint (m (element c n))"
  by (simp add: dot_def)

lemma dot_bound: "\<bar>dot m s c j n\<bar> \<le> int n * 1073741824"
proof (induction n)
  case (Suc n)
  from sint_product_bound [of "m (element s (j + n))" "m (element c n)"] Suc.IH
  show ?case by (simp add: dot_Suc)
qed simp

lemma dot_bound_taps: "n \<le> 64 \<Longrightarrow> \<bar>dot m s c j n\<bar> \<le> 68719476736"
  using dot_bound [of m s c j n] by linarith

section \<open>Readings of machine integers\<close>

lemma sint_word64: "- 9223372036854775808 \<le> x \<Longrightarrow> x < 9223372036854775808 \<Longrightarrow> sint (word_of_int x :: u64) = x"
  by (subst sint_sbintrunc') (simp add: signed_take_bit_int_eq_self_iff)

lemma sint_word32: "- 2147483648 \<le> x \<Longrightarrow> x < 2147483648 \<Longrightarrow> sint (word_of_int x :: u32) = x"
  by (subst sint_sbintrunc') (simp add: signed_take_bit_int_eq_self_iff)

lemma sint_word16: "- 32768 \<le> x \<Longrightarrow> x < 32768 \<Longrightarrow> sint (word_of_int x :: u16) = x"
  by (subst sint_sbintrunc') (simp add: signed_take_bit_int_eq_self_iff)

lemma scast_word_of_int: "(scast (v :: 'a :: len word) :: 'b :: len word) = word_of_int (sint v)"
  by (rule scast_eq)

lemma word_of_int_mac:
  "(word_of_int a :: u64) + scast (v :: u16) * scast (w :: u16) = word_of_int (a + sint v * sint w)"
  unfolding scast_word_of_int by (simp only: wi_hom_syms)

lemma sdiv_bound: "\<bar>(x :: int)\<bar> \<le> 68719476736 \<Longrightarrow> \<bar>x sdiv 32768\<bar> \<le> 2097152"
proof -
  assume x: "\<bar>x\<bar> \<le> 68719476736"
  have "\<bar>x sdiv 32768\<bar> \<le> \<bar>x\<bar> div 32768"
    by (simp add: signed_divide_int_def abs_mult abs_sgn_eq)
  also have "\<dots> \<le> 68719476736 div 32768" by (rule zdiv_mono1 [OF x]) simp
  finally show ?thesis by simp
qed

text \<open>A sum of at most 64 products passes the division and the clamp without any truncation.\<close>

lemma truncate_sum:
  assumes "\<bar>x\<bar> \<le> 68719476736"
  shows "aymos_fir_q15_truncate (word_of_int x) = word_of_int (x sdiv 32768)"
    and "sint (aymos_fir_q15_truncate (word_of_int x)) = x sdiv 32768"
proof -
  have "sint (word_of_int x :: u64) = x" by (rule sint_word64) (use assms in linarith)+
  then show *: "aymos_fir_q15_truncate (word_of_int x) = word_of_int (x sdiv 32768)"
    by (simp add: aymos_fir_q15_truncate_def)
  show "sint (aymos_fir_q15_truncate (word_of_int x)) = x sdiv 32768"
    unfolding * by (rule sint_word32) (use sdiv_bound [OF assms] in linarith)+
qed

lemma ucast_16: "(ucast (v :: u32) :: u16) = word_of_int (sint v)"
proof -
  have "(ucast (word_of_int (sint v) :: u32) :: u16) = word_of_int (sint v)"
    by (rule ucast_down_wi) (simp add: is_down)
  then show ?thesis by simp
qed

lemma sint_ucast_16: "- 32768 \<le> sint v \<Longrightarrow> sint v < 32768 \<Longrightarrow> sint (ucast (v :: u32) :: u16) = sint v"
  unfolding ucast_16 by (rule sint_word16)

lemma saturate_clamps: "sint (aymos_fir_q15_saturate v) = max (- 32768) (min 32767 (sint v))"
proof -
  consider "sint v > 32767" | "sint v < - 32768" | "- 32768 \<le> sint v" "sint v \<le> 32767"
    by linarith
  then show ?thesis
    by cases (simp_all add: aymos_fir_q15_saturate_def sint_ucast_16)
qed

lemma scaled_output:
  "\<bar>x\<bar> \<le> 68719476736 \<Longrightarrow>
   sint (aymos_fir_q15_saturate (aymos_fir_q15_truncate (word_of_int x))) = q15_output x"
  by (simp add: saturate_clamps truncate_sum(2) q15_output_def)

section \<open>The accumulators\<close>

lemma scalar_taps_append:
  "scalar_taps m s c j (xs @ ys) a = scalar_taps m s c j ys (scalar_taps m s c j xs a)"
  by (induction xs arbitrary: a) simp_all

lemma scalar_taps_dot: "scalar_taps m s c j [0..<n] 0 = word_of_int (dot m s c j n)"
proof (induction n)
  case (Suc n)
  then show ?case
    by (simp only: upt_Suc_append scalar_taps_append scalar_taps.simps word_of_int_mac dot_Suc zero_le)
qed simp

lemma sint16_cases: "sint (v :: u16) = (if uint v \<le> 32767 then uint v else uint v - 65536)"
proof -
  have "sint (word_of_int (uint v) :: u16) = (uint v + 32768) mod 65536 - 32768"
    unfolding int_word_sint by simp
  then have v: "sint v = (uint v + 32768) mod 65536 - 32768" by simp
  have range: "0 \<le> uint v" "uint v < 65536"
    using unsigned_less [of v] by simp_all
  show ?thesis
  proof (cases "uint v \<le> 32767")
    case True
    with range show ?thesis unfolding v by (simp add: mod_pos_pos_trivial)
  next
    case False
    have "(uint v + 32768) mod 65536 = (uint v - 32768) mod 65536"
      using mod_add_self2 [of "uint v - 32768" 65536] by (simp add: add.commute)
    with False range show ?thesis unfolding v by (simp add: mod_pos_pos_trivial)
  qed
qed

lemma signed_lane_sint: "signed_lane v = word_of_int (sint v)"
proof (cases "uint v \<le> 32767")
  case True
  then show ?thesis
    unfolding signed_lane_def sint16_cases word_le_def ucast_eq by simp
next
  case False
  have "uint v < 65536" using unsigned_less [of v] by simp
  then have "uint (0xFFFF - v) = 65535 - uint v"
    using uint_sub_lem [of v "0xFFFF"] by simp
  then have "(ucast (0xFFFF - v) :: u32) = word_of_int (65535 - uint v)"
    unfolding ucast_eq by simp
  with False have "signed_lane v = - 1 - word_of_int (65535 - uint v)"
    by (simp only: signed_lane_def word_le_def) simp
  also have "\<dots> = word_of_int (- 1 - (65535 - uint v))" by simp
  finally show ?thesis using False by (simp only: sint16_cases) simp
qed

lemma sint_of_sint16: "sint (word_of_int (sint (v :: u16)) :: u32) = sint v"
  by (rule sint_word32) (use sint16_range [of v] in linarith)+

lemma lanes_of_pack:
  "(ucast (aymos_fir_q15_pack low high) :: u16) = low"
  "(ucast (drop_bit 16 (aymos_fir_q15_pack low high)) :: u16) = high"
  unfolding aymos_fir_q15_pack_def
  by (rule bit_word_eqI, auto simp: bit_simps dest: bit_imp_le_length)+

text \<open>What a multiply-accumulate step over two packed lanes has to do for the sum to come out.\<close>

definition adds_lane_products :: "(u32 \<Rightarrow> u32 \<Rightarrow> u64 \<Rightarrow> u64) \<Rightarrow> bool" where
  "adds_lane_products mac \<longleftrightarrow> (\<forall>x y a. mac x y a = a
     + word_of_int (sint (ucast x :: u16) * sint (ucast y :: u16))
     + word_of_int (sint (ucast (drop_bit 16 x) :: u16) * sint (ucast (drop_bit 16 y) :: u16)))"

lemma mac_pack:
  assumes "adds_lane_products mac"
  shows "mac (aymos_fir_q15_pack a b) (aymos_fir_q15_pack p q) (word_of_int x) =
         word_of_int (x + sint a * sint p + sint b * sint q)"
  using assms by (simp add: adds_lane_products_def lanes_of_pack)

lemma portable_mac: "adds_lane_products (\<lambda>x y acc. acc + portable_pair_mac x y)"
  unfolding adds_lane_products_def portable_pair_mac_def Let_def signed_lane_sint
    scast_word_of_int sint_of_sint16 by (simp only: of_int_mult add.assoc simp_thms)

lemma pair_taps_dot:
  assumes "adds_lane_products mac" "t \<le> n"
  shows "\<exists>t'. pair_taps mac m s c j n t (word_of_int (dot m s c j t)) = (t', word_of_int (dot m s c j t'))
     \<and> t' \<le> n \<and> n \<le> t' + 1"
  using assms(2)
proof (induction "n - t" arbitrary: t rule: less_induct)
  case less
  show ?case
  proof (cases "t + 1 < n")
    case True
    with less.hyps [of "t + 2"] have
      "\<exists>t'. pair_taps mac m s c j n (t + 2) (word_of_int (dot m s c j (t + 2))) =
         (t', word_of_int (dot m s c j t')) \<and> t' \<le> n \<and> n \<le> t' + 1" by simp
    with True show ?thesis
      by (subst pair_taps.simps) (simp add: mac_pack [OF assms(1)] dot_Suc add.assoc)
  next
    case False
    with less.prems show ?thesis by (subst pair_taps.simps) simp
  qed
qed

lemma paired_dot:
  assumes "adds_lane_products mac"
  shows "tail_tap m s c j n (pair_taps mac m s c j n 0 0) = word_of_int (dot m s c j n)"
proof -
  from pair_taps_dot [OF assms, of 0 n m s c j] obtain t where
    t: "pair_taps mac m s c j n 0 0 = (t, word_of_int (dot m s c j t))" "t \<le> n" "n \<le> t + 1"
    by auto
  show ?thesis
  proof (cases "t = n")
    case False
    with t(2,3) have n: "n = Suc t" by simp
    show ?thesis unfolding t(1) tail_tap_def
      by (simp only: n Let_def prod.case lessI if_True dot_Suc word_of_int_mac)
  qed (simp add: t(1) tail_tap_def)
qed

lemma signed_accumulator_id: "signed_accumulator v = v"
proof -
  have "UINT64_MAX = (- 1 :: u64)" by simp
  then show ?thesis unfolding signed_accumulator_def by (simp only: diff_diff_eq2) simp
qed

section \<open>What a valid call may touch\<close>

definition bytes :: "u32 \<Rightarrow> nat \<Rightarrow> nat set" where
  "bytes p count = {unat p ..< unat p + 2 * count}"

definition window_count :: "u32 \<Rightarrow> u32 \<Rightarrow> nat" where
  "window_count sample_count tap_count = unat sample_count - unat tap_count + 1"

lemma output_count_nat:
  assumes "tap_count \<noteq> 0" "tap_count \<le> 64" "tap_count \<le> sample_count"
  shows "unat (aymos_fir_q15_valid_output_count sample_count tap_count) =
         window_count sample_count tap_count"
proof -
  have "0 < unat tap_count" using assms(1) by (simp add: unat_gt_0)
  moreover have le: "unat tap_count \<le> unat sample_count" using assms(3) by (simp add: word_le_nat_alt)
  ultimately have "unat sample_count - unat tap_count + 1 < 2 ^ 32"
    using unat_less_2p(3) [of sample_count] by simp
  moreover have "unat (sample_count - tap_count) = unat sample_count - unat tap_count"
    by (rule unat_sub [OF assms(3)])
  ultimately have "unat (sample_count - tap_count + 1) = unat sample_count - unat tap_count + 1"
    by (subst unat_add32) simp_all
  with assms show ?thesis
    by (simp add: aymos_fir_q15_valid_output_count_def window_count_def linorder_not_less [symmetric])
qed

lemma byte_range_nat:
  "byte_range p n = (if 2 ^ 32 \<le> unat p + 2 * unat n then None else Some (p, p + n * 2))"
proof (cases "n > UINT32_MAX div 2")
  case True
  then have "2147483648 \<le> unat n" by (simp add: word_less_nat_alt)
  with True show ?thesis by (simp add: byte_range_def)
next
  case False
  then have "unat n < 2147483648" by (simp add: word_less_nat_alt)
  then have "unat (n * 2) = 2 * unat n" by (simp add: unat_word_ariths)
  then show ?thesis
    using False gt_max32_iff [of p "n * 2"] by (simp add: byte_range_def Let_def)
qed

lemma range_end_nat: "unat (p :: u32) + 2 * unat n < 2 ^ 32 \<Longrightarrow> unat (p + n * 2) = unat p + 2 * unat n"
  by (simp add: unat_word_ariths)

lemma overlap_bytes:
  assumes "unat p + 2 * unat m < 2 ^ 32" "unat q + 2 * unat n < 2 ^ 32" "0 < unat m" "0 < unat n"
  shows "ranges_overlap p (p + m * 2) q (q + n * 2) \<longleftrightarrow> bytes p (unat m) \<inter> bytes q (unat n) \<noteq> {}"
proof -
  have "{a ..< a + 2 * k} \<inter> {b ..< b + 2 * l} \<noteq> {} \<longleftrightarrow> a < b + 2 * l \<and> b < a + 2 * k"
    if "0 < k" "0 < l" for a b k l :: nat
  proof -
    have "a < b + 2 * l \<and> b < a + 2 * k \<longleftrightarrow> max a b \<in> {a ..< a + 2 * k} \<inter> {b ..< b + 2 * l}"
      using that by auto
    moreover have "x \<in> {a ..< a + 2 * k} \<inter> {b ..< b + 2 * l} \<Longrightarrow> a < b + 2 * l \<and> b < a + 2 * k" for x
      by auto
    ultimately show ?thesis by blast
  qed
  with assms(3,4) show ?thesis
    by (simp add: ranges_overlap_def word_less_nat_alt range_end_nat [OF assms(1)] range_end_nat [OF assms(2)] bytes_def)
qed

text \<open>The status of the validation, over the natural numbers.\<close>

definition call_status :: "u32 \<Rightarrow> u32 \<Rightarrow> u32 \<Rightarrow> u32 \<Rightarrow> u32 \<Rightarrow> u32 \<Rightarrow> aymos_fir_q15_status" where
  "call_status samples sample_count coefficients tap_count output output_capacity =
     (if samples = 0 \<or> coefficients = 0 \<or> output = 0 then AYMOS_FIR_Q15_NULL_POINTER
      else if unat tap_count = 0 \<or> 64 < unat tap_count then AYMOS_FIR_Q15_INVALID_TAP_COUNT
      else if unat sample_count < unat tap_count then AYMOS_FIR_Q15_INPUT_TOO_SHORT
      else if unat output_capacity < window_count sample_count tap_count then AYMOS_FIR_Q15_OUTPUT_TOO_SMALL
      else if 2 ^ 32 \<le> unat samples + 2 * unat sample_count \<or>
              2 ^ 32 \<le> unat coefficients + 2 * unat tap_count \<or>
              2 ^ 32 \<le> unat output + 2 * window_count sample_count tap_count
           then AYMOS_FIR_Q15_SIZE_OVERFLOW
      else if bytes output (window_count sample_count tap_count) \<inter>
              (bytes samples (unat sample_count) \<union> bytes coefficients (unat tap_count)) \<noteq> {}
           then AYMOS_FIR_Q15_OVERLAPPING_OUTPUT
      else AYMOS_FIR_Q15_OK)"

lemma validate_nat:
  "aymos_fir_q15_validate samples sample_count coefficients tap_count output output_capacity =
   call_status samples sample_count coefficients tap_count output output_capacity"
proof (cases "tap_count = 0 \<or> tap_count > 64 \<or> sample_count < tap_count")
  case True
  then show ?thesis
    by (auto simp: aymos_fir_q15_validate_def call_status_def word_less_nat_alt unat_eq_0)
next
  case False
  define count where "count = aymos_fir_q15_valid_output_count sample_count tap_count"
  have count: "window_count sample_count tap_count = unat count"
    unfolding count_def by (rule output_count_nat [symmetric]) (use False in \<open>simp_all add: linorder_not_less\<close>)
  have taps: "0 < unat tap_count" "\<not> 64 < unat tap_count" "0 < unat sample_count" "0 < unat count"
    "\<not> unat sample_count < unat tap_count"
    using False unfolding count [symmetric]
    by (auto simp: unat_gt_0 word_less_nat_alt window_count_def)
  show ?thesis
    unfolding aymos_fir_q15_validate_def call_status_def count Let_def count_def [symmetric] byte_range_nat
    using False taps
    by (auto simp: word_less_nat_alt overlap_bytes Int_Un_distrib)
qed

section \<open>The loop over the outputs\<close>

text \<open>A valid call: its three arrays lie in the address space, the written one apart from the read ones.\<close>

definition valid_call :: "u32 \<Rightarrow> u32 \<Rightarrow> u32 \<Rightarrow> u32 \<Rightarrow> u32 \<Rightarrow> u32 \<Rightarrow> bool" where
  "valid_call samples sample_count coefficients tap_count output output_capacity \<longleftrightarrow>
     aymos_fir_q15_validate samples sample_count coefficients tap_count output output_capacity = AYMOS_FIR_Q15_OK"

lemma unat_element: "unat p + 2 * i < 2 ^ 32 \<Longrightarrow> unat (element p i) = unat p + 2 * i"
  by (simp add: element_def unat_word_ariths unat_of_nat)

lemma valid_callD:
  assumes "valid_call samples sample_count coefficients tap_count output output_capacity"
  shows "0 < unat tap_count" "unat tap_count \<le> 64" "unat tap_count \<le> unat sample_count"
    "unat samples + 2 * unat sample_count < 2 ^ 32" "unat coefficients + 2 * unat tap_count < 2 ^ 32"
    "unat output + 2 * window_count sample_count tap_count < 2 ^ 32"
    "bytes output (window_count sample_count tap_count) \<inter> bytes samples (unat sample_count) = {}"
    "bytes output (window_count sample_count tap_count) \<inter> bytes coefficients (unat tap_count) = {}"
    "unat (aymos_fir_q15_valid_output_count sample_count tap_count) = window_count sample_count tap_count"
proof -
  note status = assms [unfolded valid_call_def validate_nat call_status_def]
  show taps: "0 < unat tap_count" "unat tap_count \<le> 64" "unat tap_count \<le> unat sample_count"
    and "unat samples + 2 * unat sample_count < 2 ^ 32" "unat coefficients + 2 * unat tap_count < 2 ^ 32"
    "unat output + 2 * window_count sample_count tap_count < 2 ^ 32"
    "bytes output (window_count sample_count tap_count) \<inter> bytes samples (unat sample_count) = {}"
    "bytes output (window_count sample_count tap_count) \<inter> bytes coefficients (unat tap_count) = {}"
    using status by (auto split: if_splits)
  show "unat (aymos_fir_q15_valid_output_count sample_count tap_count) = window_count sample_count tap_count"
    using taps by (intro output_count_nat) (auto simp: word_le_nat_alt)
qed

lemma element_in_bytes:
  "unat p + 2 * n < 2 ^ 32 \<Longrightarrow> i < n \<Longrightarrow> unat (element p i) \<in> bytes p n"
  by (simp add: bytes_def unat_element)

lemma element_apart:
  assumes "unat p + 2 * m < 2 ^ 32" "unat q + 2 * n < 2 ^ 32" "bytes p m \<inter> bytes q n = {}" "i < m" "j < n"
  shows "element p i \<noteq> element q j"
  using element_in_bytes [OF assms(1,4)] element_in_bytes [OF assms(2,5)] assms(3) by auto

lemma element_inj:
  assumes "unat p + 2 * n < 2 ^ 32" "i < n" "j < n" "element p i = element p j"
  shows "i = j"
proof -
  from assms(1-3) have "unat p + 2 * i < 2 ^ 32" "unat p + 2 * j < 2 ^ 32" by linarith+
  from unat_element [OF this(1)] unat_element [OF this(2)] have "unat p + 2 * i = unat p + 2 * j"
    by (simp only: assms(4))
  then show ?thesis by simp
qed

lemma dot_cong:
  assumes "\<And>t. t < n \<Longrightarrow> m (element s (j + t)) = m' (element s (j + t)) \<and> m (element c t) = m' (element c t)"
  shows "dot m s c j n = dot m' s c j n"
  unfolding dot_def using assms by (intro sum.cong) auto

text \<open>The memory after the filter: the outputs hold the convolution, every other element its old value.\<close>

definition filtered :: "u32 \<Rightarrow> u32 \<Rightarrow> nat \<Rightarrow> u32 \<Rightarrow> nat \<Rightarrow> cells \<Rightarrow> cells" where
  "filtered samples coefficients taps output count m = (\<lambda>a.
     let offset = unat (a - output)
     in if even offset \<and> offset div 2 < count
        then word_of_int (q15_output (dot m samples coefficients (offset div 2) taps)) else m a)"

lemma element_offset:
  "unat p + 2 * n < 2 ^ 32 \<Longrightarrow> j < n \<Longrightarrow> unat (element p j - p) = 2 * j"
  by (simp add: element_def unat_word_ariths unat_of_nat)

lemma element_of_offset:
  assumes "even (unat (a - p))"
  shows "a = element p (unat (a - p) div 2)"
proof -
  have "2 * (of_nat (unat (a - p) div 2) :: u32) = of_nat (2 * (unat (a - p) div 2))" by simp
  also have "2 * (unat (a - p) div 2) = unat (a - p)" using assms by simp
  finally show ?thesis by (simp add: element_def)
qed

text \<open>The contract of the code that computes one output.\<close>

locale window_sum =
  fixes window :: "cells \<Rightarrow> u32 \<Rightarrow> u32 \<Rightarrow> nat \<Rightarrow> nat \<Rightarrow> u16"
  assumes exact: "n \<le> 64 \<Longrightarrow> sint (window m s c j n) = q15_output (dot m s c j n)"
begin

lemma writes_windows:
  assumes valid: "valid_call s ns c nt out cap" and k: "k \<le> window_count ns nt"
    and m': "m' = fold (\<lambda>j m. m(element out j := window m s c j (unat nt))) [0..<k] m"
  shows "(\<forall>j<k. sint (m' (element out j)) = q15_output (dot m s c j (unat nt))) \<and>
    (\<forall>a. (\<forall>j<k. a \<noteq> element out j) \<longrightarrow> m' a = m a)"
  using k m'
proof (induction k arbitrary: m')
  case (Suc k)
  note D = valid_callD [OF valid]
  define m1 where "m1 = fold (\<lambda>j m. m(element out j := window m s c j (unat nt))) [0..<k] m"
  from Suc.IH [OF _ m1_def] Suc.prems(1) have IH:
    "\<And>j. j < k \<Longrightarrow> sint (m1 (element out j)) = q15_output (dot m s c j (unat nt))"
    "\<And>a. (\<And>j. j < k \<Longrightarrow> a \<noteq> element out j) \<Longrightarrow> m1 a = m a" by auto
  have m': "m' = m1(element out k := window m1 s c k (unat nt))"
    unfolding m1_def Suc.prems(2) by (simp only: upt_Suc_append zero_le fold_append fold_simps o_apply)
  have "dot m1 s c k (unat nt) = dot m s c k (unat nt)"
  proof (rule dot_cong)
    fix t
    assume t: "t < unat nt"
    with Suc.prems(1) D(3) have "k + t < unat ns" by (simp add: window_count_def)
    then show "m1 (element s (k + t)) = m (element s (k + t)) \<and> m1 (element c t) = m (element c t)"
      using element_apart [OF D(6) D(4) D(7)] element_apart [OF D(6) D(5) D(8)] t Suc.prems(1)
      by (intro conjI IH(2)) (metis less_trans less_Suc_eq_le Suc_le_lessD)+
  qed
  then have "sint (m' (element out k)) = q15_output (dot m s c k (unat nt))"
    by (simp add: m' exact D(2))
  moreover have "element out j \<noteq> element out k" if "j < k" for j
    using element_inj [OF D(6), of j k] that Suc.prems(1) by auto
  ultimately show ?case
    using IH by (auto simp: m' less_Suc_eq)
qed simp

lemma run_filters:
  assumes valid: "valid_call s ns c nt out cap"
  shows "fold (\<lambda>j m. m(element out j := window m s c j (unat nt)))
      [0..<unat (aymos_fir_q15_valid_output_count ns nt)] m =
    filtered s c (unat nt) out (window_count ns nt) m"
proof (rule ext)
  fix a
  let ?m' = "fold (\<lambda>j m. m(element out j := window m s c j (unat nt))) [0..<window_count ns nt] m"
  note D = valid_callD [OF valid]
  have writes: "\<And>j. j < window_count ns nt \<Longrightarrow> sint (?m' (element out j)) = q15_output (dot m s c j (unat nt))"
    and frame: "(\<And>j. j < window_count ns nt \<Longrightarrow> a \<noteq> element out j) \<Longrightarrow> ?m' a = m a"
    using writes_windows [OF valid le_refl HOL.refl, of m] by blast+
  have "?m' a = filtered s c (unat nt) out (window_count ns nt) m a"
  proof (cases "\<exists>j < window_count ns nt. a = element out j")
    case True
    then obtain j where j: "j < window_count ns nt" "a = element out j" by blast
    then have "unat (a - out) = 2 * j" using D(6) by (simp add: element_offset)
    then show ?thesis
      using j by (simp add: filtered_def writes [symmetric])
  next
    case False
    then have "\<not> (even (unat (a - out)) \<and> unat (a - out) div 2 < window_count ns nt)"
      using element_of_offset by blast
    then show ?thesis using frame False by (auto simp: filtered_def)
  qed
  then show "fold (\<lambda>j m. m(element out j := window m s c j (unat nt)))
      [0..<unat (aymos_fir_q15_valid_output_count ns nt)] m a =
    filtered s c (unat nt) out (window_count ns nt) m a"
    unfolding D(9) .
qed

end

section \<open>The three filters\<close>

text \<open>What every one of the filters computes: the status, and for a valid call the filtered memory.\<close>

definition fir_reference ::
  "u32 \<Rightarrow> u32 \<Rightarrow> u32 \<Rightarrow> u32 \<Rightarrow> u32 \<Rightarrow> u32 \<Rightarrow> cells \<Rightarrow> aymos_fir_q15_status \<times> cells" where
  "fir_reference samples sample_count coefficients tap_count output output_capacity m =
     (let status = call_status samples sample_count coefficients tap_count output output_capacity
      in (status, if status = AYMOS_FIR_Q15_OK
                  then filtered samples coefficients (unat tap_count) output (window_count sample_count tap_count) m
                  else m))"

interpretation scalar: window_sum
  "\<lambda>m s c j n. aymos_fir_q15_saturate (aymos_fir_q15_truncate (scalar_taps m s c j [0..<n] 0))"
  by unfold_locales (simp only: scalar_taps_dot scaled_output dot_bound_taps)

interpretation packed: window_sum
  "\<lambda>m s c j n. aymos_fir_q15_saturate (aymos_fir_q15_truncate
     (tail_tap m s c j n (pair_taps (\<lambda>x y acc. acc + portable_pair_mac x y) m s c j n 0 0)))"
  by unfold_locales (simp only: paired_dot [OF portable_mac] scaled_output dot_bound_taps)

lemma scalar_reference:
  "aymos_fir_q15_scalar s ns c nt out cap m = fir_reference s ns c nt out cap m"
  using scalar.run_filters [of s ns c nt out cap m]
  by (simp add: aymos_fir_q15_scalar_def fir_reference_def valid_call_def validate_nat Let_def)

lemma packed_reference:
  "aymos_fir_q15_packed_portable s ns c nt out cap m = fir_reference s ns c nt out cap m"
  using packed.run_filters [of s ns c nt out cap m]
  by (simp add: aymos_fir_q15_packed_portable_def fir_reference_def valid_call_def validate_nat Let_def)

text \<open>The documented effect of the saturating instruction at 16 bits.\<close>

definition saturates_16 :: "(u32 \<Rightarrow> u32 \<Rightarrow> u32) \<Rightarrow> bool" where
  "saturates_16 ssat \<longleftrightarrow> (\<forall>v. ssat v 16 = word_of_int (max (- 32768) (min 32767 (sint v))))"

lemma m4_window:
  assumes "adds_lane_products (SMLALD D)" "saturates_16 (SSAT D)"
  shows "window_sum (\<lambda>m s c j n. let accumulator = tail_tap m s c j n (pair_taps (SMLALD D) m s c j n 0 0);
      scaled = aymos_fir_q15_truncate (signed_accumulator accumulator) in ucast (SSAT D scaled 16))"
proof
  fix n m s c j
  assume n: "n \<le> (64 :: nat)"
  let ?q = "q15_output (dot m s c j n)"
  let ?t = "tail_tap m s c j n (pair_taps (SMLALD D) m s c j n 0 0)"
  have q: "- 32768 \<le> ?q" "?q < 32768" by (simp_all add: q15_output_def)
  have "SSAT D (aymos_fir_q15_truncate (signed_accumulator ?t)) 16 = word_of_int ?q"
    unfolding paired_dot [OF assms(1)] signed_accumulator_id assms(2) [unfolded saturates_16_def, rule_format]
      truncate_sum(2) [OF dot_bound_taps [OF n]] q15_output_def ..
  then have "sint (SSAT D (aymos_fir_q15_truncate (signed_accumulator ?t)) 16) = ?q"
    using q by (simp only: sint_word32)
  then have "sint (ucast (SSAT D (aymos_fir_q15_truncate (signed_accumulator ?t)) 16) :: u16) = ?q"
    using q by (simp only: sint_ucast_16)
  then show "sint (let accumulator = ?t; scaled = aymos_fir_q15_truncate (signed_accumulator accumulator)
      in ucast (SSAT D scaled 16) :: u16) = ?q"
    by (simp only: Let_def)
qed

lemma m4_reference:
  assumes "adds_lane_products (SMLALD D)" "saturates_16 (SSAT D)"
  shows "aymos_fir_q15_m4 D s ns c nt out cap m = fir_reference s ns c nt out cap m"
  using window_sum.run_filters [OF m4_window [OF assms], of s ns c nt out cap m]
  by (simp add: aymos_fir_q15_m4_def fir_reference_def valid_call_def validate_nat Let_def)

end
