(* ===== verification/Fir_Claims.thy ===== *)
theory Fir_Claims
  imports Fir_Lemmas
begin

text \<open>
  What callers of the filter can rely on: which calls are refused and with which status, the value
  of every output, that the packed loop and the Cortex-M4 loop compute what the reference computes.
\<close>

text \<open>C27: The validation refuses a call with exactly the documented status: a null pointer, a number of taps
  outside 1..64, fewer samples than taps, an output that cannot hold every complete window, an array that
  runs past the end of the address space, and an output that shares a byte with the samples or the
  coefficients, tested in this order; otherwise the call is valid. The conditions are over the natural
  numbers and sets of byte addresses, so no test of the code wraps.\<close>

theorem validation_outcome:
  "aymos_fir_q15_validate samples sample_count coefficients tap_count output output_capacity =
     (let bytes = \<lambda>p n. {unat p ..< unat p + 2 * n};
          windows = unat sample_count - unat tap_count + 1
      in if samples = 0 \<or> coefficients = 0 \<or> output = 0 then AYMOS_FIR_Q15_NULL_POINTER
         else if unat tap_count = 0 \<or> 64 < unat tap_count then AYMOS_FIR_Q15_INVALID_TAP_COUNT
         else if unat sample_count < unat tap_count then AYMOS_FIR_Q15_INPUT_TOO_SHORT
         else if unat output_capacity < windows then AYMOS_FIR_Q15_OUTPUT_TOO_SMALL
         else if 2 ^ 32 \<le> unat samples + 2 * unat sample_count \<or>
                 2 ^ 32 \<le> unat coefficients + 2 * unat tap_count \<or> 2 ^ 32 \<le> unat output + 2 * windows
              then AYMOS_FIR_Q15_SIZE_OVERFLOW
         else if bytes output windows \<inter>
                 (bytes samples (unat sample_count) \<union> bytes coefficients (unat tap_count)) \<noteq> {}
              then AYMOS_FIR_Q15_OVERLAPPING_OUTPUT
         else AYMOS_FIR_Q15_OK)"
  unfolding validate_nat call_status_def bytes_def window_count_def Let_def ..

text \<open>C24: On a valid call the reference filter returns success, and output \<open>j\<close> holds the sum over the taps
  of \<open>sample[j + t] * coefficient[t]\<close>, divided by \<open>2 ^ 15\<close> towards zero and clamped to 16 bits; no other
  element of memory changes, and the 64-bit accumulator holds the exact sum after every tap.\<close>

theorem scalar_convolves:
  assumes valid: "aymos_fir_q15_validate samples sample_count coefficients tap_count output output_capacity = AYMOS_FIR_Q15_OK"
    and run: "aymos_fir_q15_scalar samples sample_count coefficients tap_count output output_capacity m = (status, m')"
  shows "status = AYMOS_FIR_Q15_OK \<and>
    (\<forall>j < unat sample_count - unat tap_count + 1. sint (m' (element output j)) = max (- 32768) (min 32767
       ((\<Sum>t < unat tap_count. sint (m (element samples (j + t))) * sint (m (element coefficients t))) sdiv 32768))) \<and>
    (\<forall>a. (\<forall>j < unat sample_count - unat tap_count + 1. a \<noteq> element output j) \<longrightarrow> m' a = m a) \<and>
    (\<forall>j. \<forall>n \<le> unat tap_count. sint (scalar_taps m samples coefficients j [0..<n] 0) =
       (\<Sum>t<n. sint (m (element samples (j + t))) * sint (m (element coefficients t))))"
proof -
  have call: "valid_call samples sample_count coefficients tap_count output output_capacity"
    using valid by (simp add: valid_call_def)
  note D = valid_callD [OF call]
  from run valid have st: "status = AYMOS_FIR_Q15_OK" and m':
    "m' = fold (\<lambda>j m. m(element output j := aymos_fir_q15_saturate (aymos_fir_q15_truncate
        (scalar_taps m samples coefficients j [0..<unat tap_count] 0))))
      [0..<window_count sample_count tap_count] m"
    by (simp_all add: aymos_fir_q15_scalar_def Let_def D(9))
  have "sint (scalar_taps m samples coefficients j [0..<n] 0) = dot m samples coefficients j n"
    if "n \<le> unat tap_count" for j n
  proof -
    have "\<bar>dot m samples coefficients j n\<bar> \<le> 68719476736"
      using that D(2) by (intro dot_bound_taps) simp
    then show ?thesis unfolding scalar_taps_dot by (intro sint_word64) linarith+
  qed
  with st scalar.writes_windows [OF call le_refl m'] show ?thesis
    unfolding window_count_def q15_output_def dot_def by blast
qed

text \<open>C25: The portable two-lane loop is equivalent to the reference on every call: same status, same memory,
  whatever the number of taps, even or odd, and whatever the signs of the lanes.\<close>

theorem packed_portable_equals_scalar:
  "aymos_fir_q15_packed_portable samples sample_count coefficients tap_count output output_capacity m =
   aymos_fir_q15_scalar samples sample_count coefficients tap_count output output_capacity m"
  by (simp add: packed_reference scalar_reference)

text \<open>C26: The Cortex-M4 loop is equivalent to the reference on every call, when the two instructions do what
  the architecture documents: \<open>SMLALD\<close> adds the products of the low and of the high signed halfwords
  to the 64-bit accumulator, and \<open>SSAT\<close> at 16 bits clamps a signed word to that range.\<close>

theorem m4_equals_scalar:
  assumes "\<And>x y acc. SMLALD D x y acc = acc
      + word_of_int (sint (ucast x :: u16) * sint (ucast y :: u16))
      + word_of_int (sint (ucast (drop_bit 16 x) :: u16) * sint (ucast (drop_bit 16 y) :: u16))"
    and "\<And>v. SSAT D v 16 = word_of_int (max (- 32768) (min 32767 (sint v)))"
  shows "aymos_fir_q15_m4 D samples sample_count coefficients tap_count output output_capacity m =
    aymos_fir_q15_scalar samples sample_count coefficients tap_count output output_capacity m"
proof -
  have "adds_lane_products (SMLALD D)" "saturates_16 (SSAT D)"
    using assms by (simp_all only: adds_lane_products_def saturates_16_def simp_thms)
  then show ?thesis by (simp only: m4_reference scalar_reference)
qed

section \<open>Instances\<close>

text \<open>Two taps and three samples near the limits of the format; the first output saturates.\<close>

definition demo_cells :: cells where
  "demo_cells a = (if a = 0x100 \<or> a = 0x102 \<or> a = 0x200 \<or> a = 0x202 then 0x7FFF
     else if a = 0x104 then 0x8000 else 0)"

lemma demo_valid: "aymos_fir_q15_validate 0x100 3 0x200 2 0x300 2 = AYMOS_FIR_Q15_OK"
  by code_simp

theorem scalar_convolves_witness:
  "fst (aymos_fir_q15_scalar 0x100 3 0x200 2 0x300 2 demo_cells) = AYMOS_FIR_Q15_OK \<and>
   sint (snd (aymos_fir_q15_scalar 0x100 3 0x200 2 0x300 2 demo_cells) (element 0x300 0)) = 32767 \<and>
   sint (snd (aymos_fir_q15_scalar 0x100 3 0x200 2 0x300 2 demo_cells) (element 0x300 1)) = 0 \<and>
   snd (aymos_fir_q15_scalar 0x100 3 0x200 2 0x300 2 demo_cells) 0x104 = 0x8000"
proof -
  note run = surjective_pairing [of "aymos_fir_q15_scalar 0x100 3 0x200 2 0x300 2 demo_cells"]
  note claim = scalar_convolves [OF demo_valid run]
  have sums: "(\<Sum>t<2. f t) = f 0 + f 1" for f :: "nat \<Rightarrow> int"
    by (simp only: numeral_2_eq_2 lessThan_Suc) simp
  have cells: "sint (demo_cells (element 0x100 0)) = 32767" "sint (demo_cells (element 0x100 1)) = 32767"
    "sint (demo_cells (element 0x100 2)) = - 32768" "sint (demo_cells (element 0x200 0)) = 32767"
    "sint (demo_cells (element 0x200 1)) = 32767" "demo_cells 0x104 = 0x8000"
    by code_simp+
  have apart: "\<forall>j < unat (3 :: u32) - unat (2 :: u32) + 1. (0x104 :: u32) \<noteq> element 0x300 j"
    by (auto simp: element_def less_Suc_eq)
  have windows: "(0 :: nat) < unat (3 :: u32) - unat (2 :: u32) + 1" "(1 :: nat) < unat (3 :: u32) - unat (2 :: u32) + 1"
    by simp_all
  from claim windows apart have "fst (aymos_fir_q15_scalar 0x100 3 0x200 2 0x300 2 demo_cells) = AYMOS_FIR_Q15_OK"
    "snd (aymos_fir_q15_scalar 0x100 3 0x200 2 0x300 2 demo_cells) 0x104 = demo_cells 0x104"
    and out: "j < unat (3 :: u32) - unat (2 :: u32) + 1 \<Longrightarrow>
      sint (snd (aymos_fir_q15_scalar 0x100 3 0x200 2 0x300 2 demo_cells) (element 0x300 j)) =
      max (- 32768) (min 32767 ((\<Sum>t < unat (2 :: u32). sint (demo_cells (element 0x100 (j + t))) *
        sint (demo_cells (element 0x200 t))) sdiv 32768))" for j
    by blast+
  then show ?thesis
    using out [OF windows(1)] out [OF windows(2)] by (simp add: sums cells cells [unfolded One_nat_def] numeral_2_eq_2 [symmetric])
qed

definition arm_instructions :: dsp_instructions where
  "arm_instructions = \<lparr>
     SMLALD = \<lambda>x y acc. acc
       + word_of_int (sint (ucast x :: u16) * sint (ucast y :: u16))
       + word_of_int (sint (ucast (drop_bit 16 x) :: u16) * sint (ucast (drop_bit 16 y) :: u16)),
     SSAT = \<lambda>v n. word_of_int (max (- (2 ^ (unat n - 1))) (min (2 ^ (unat n - 1) - 1) (sint v)))\<rparr>"

theorem m4_equals_scalar_witness:
  "aymos_fir_q15_m4 arm_instructions 0x100 3 0x200 2 0x300 2 demo_cells =
   aymos_fir_q15_scalar 0x100 3 0x200 2 0x300 2 demo_cells"
  by (rule m4_equals_scalar) (simp_all add: arm_instructions_def)

end
