(* ===== verification/App_Line.thy ===== *)
theory App_Line
  imports Kernel_Api Trace_Frames
begin

text \<open>
  What the programs under \<open>apps/\<close> share: \<open>require\<close>, which panics with a reason, \<open>write_line\<close>, and
  the routines of \<open>apps/signal_lab/main.c\<close> that build a line of text in a fixed buffer. A C string
  is the list of its bytes before the terminator; a buffer is a list of bytes with the length of
  what has been written so far.
\<close>

definition require :: "bool \<Rightarrow> string \<Rightarrow> unit outcome" where
  "require condition reason = (if \<not> condition then os_kernel_panic reason else Inr ())"

text \<open>The bytes of a string literal.\<close>

definition c_text :: "string \<Rightarrow> u8 list" where
  "c_text s = map of_char s"

text \<open>The loop that counts the bytes before the terminator.\<close>

fun text_length :: "u8 list \<Rightarrow> nat" where
  "text_length [] = 0"
| "text_length (b # rest) = (if b \<noteq> 0 then Suc (text_length rest) else 0)"

definition write_line :: "(u8 list \<Rightarrow> 'w \<Rightarrow> hal_status \<times> 'w) \<Rightarrow> string \<Rightarrow> 'w \<Rightarrow> 'w outcome" where
  "write_line transmit line w =
     (let data = c_text line @ [0];
          (status, w') = board_uart_write transmit (Some data) (text_length data) w
      in on_ok (require (status = HAL_OK) ''UART'') (\<lambda>_. Inr w'))"

section \<open>Appending to a line\<close>

type_synonym line = "u8 list \<times> u32"

fun append_text :: "u32 \<Rightarrow> u8 list \<Rightarrow> line \<Rightarrow> bool \<times> line" where
  "append_text cap [] (line, len) = (True, line, len)"
| "append_text cap (c # text) (line, len) =
     (if len \<ge> cap then (False, line, len)
      else append_text cap text (line[unat len := c], len + 1))"

lemma div_10_less: "v div 10 \<noteq> 0 \<Longrightarrow> unat (v div 10 :: u32) < unat v"
  by (simp add: unat_div unat_eq_0 [symmetric])

text \<open>The digits of \<open>append_decimal\<close>, least significant first: the array \<open>reversed\<close>.\<close>

function decimal_digits :: "u32 \<Rightarrow> u8 list" where
  "decimal_digits value =
     (let d = 0x30 + ucast (value mod 10); rest = value div 10
      in if rest \<noteq> 0 then d # decimal_digits rest else [d])"
  by pat_completeness auto
termination
  by (relation "measure unat") (auto simp: div_10_less)

declare decimal_digits.simps [simp del]

text \<open>The loop that writes bytes one after the other.\<close>

fun put_bytes :: "u8 list \<Rightarrow> line \<Rightarrow> line" where
  "put_bytes [] l = l"
| "put_bytes (c # rest) (line, len) = put_bytes rest (line[unat len := c], len + 1)"

definition append_decimal :: "u32 \<Rightarrow> u32 \<Rightarrow> line \<Rightarrow> bool \<times> line" where
  "append_decimal cap value l =
     (let reversed = decimal_digits value; count = of_nat (length reversed)
      in if count > cap - snd l then (False, l) else (True, put_bytes (rev reversed) l))"

definition hex_digits :: "u8 list" where
  "hex_digits = c_text ''0123456789ABCDEF''"

definition append_hex32 :: "u32 \<Rightarrow> u32 \<Rightarrow> line \<Rightarrow> bool \<times> line" where
  "append_hex32 cap value l =
     (if 8 > cap - snd l then (False, l)
      else (True, put_bytes (map (\<lambda>shift. hex_digits ! unat (drop_bit (shift - 4) value AND 0xF))
                    [32, 28, 24, 20, 16, 12, 8, 4]) l))"

text \<open>A conjunction of appends, evaluated from the left until one fails.\<close>

fun append_all :: "(line \<Rightarrow> bool \<times> line) list \<Rightarrow> line \<Rightarrow> bool \<times> line" where
  "append_all [] l = (True, l)"
| "append_all (a # rest) l = (let (ok, l') = a l in if ok then append_all rest l' else (False, l'))"

section \<open>What is appended\<close>

text \<open>\<open>holds l out\<close>: the line so far is \<open>out\<close>.\<close>

definition holds :: "line \<Rightarrow> u8 list \<Rightarrow> bool" where
  "holds l out \<longleftrightarrow> unat (snd l) = length out \<and> take (length out) (fst l) = out \<and> length out \<le> length (fst l)"

lemma take_snoc_update:
  assumes "n < length xs"
  shows "take (Suc n) (xs[n := c]) = take n xs @ [c]"
  using assms by (simp add: take_Suc_conv_app_nth)

lemma holds_put:
  assumes "holds (line, len) out" and "length out < length line" and "length line < 2 ^ 32"
  shows "holds (line[unat len := c], len + 1) (out @ [c])"
proof -
  have "unat (len + 1) = length out + 1"
    using assms by (simp add: holds_def unat_add32)
  then show ?thesis using assms by (simp add: holds_def take_snoc_update)
qed

lemma put_bytes_holds:
  assumes "holds l out" and "length out + length cs \<le> length (fst l)" and "length (fst l) < 2 ^ 32"
  shows "holds (put_bytes cs l) (out @ cs) \<and> length (fst (put_bytes cs l)) = length (fst l)"
  using assms
proof (induction cs l arbitrary: out rule: put_bytes.induct)
  case (2 c rest line len)
  from 2(2-4) have "holds (line[unat len := c], len + 1) (out @ [c])" by (intro holds_put) simp_all
  with 2(1) [of "out @ [c]"] 2(3,4) show ?case by simp
qed simp

text \<open>The room that is left, as the code computes it.\<close>

lemma room_left:
  assumes "holds l out" and "length out \<le> n" and "n < 2 ^ 32"
  shows "unat (of_nat n - snd l) = n - length out"
proof -
  have n: "unat (of_nat n :: u32) = n" using assms(3) by (simp add: unat_of_nat32)
  have "snd l \<le> of_nat n" using assms by (simp add: word_le_nat_alt n holds_def)
  then show ?thesis using assms(1) by (simp add: unat_sub n holds_def)
qed

text \<open>
  \<open>appends n a cs\<close>: on a buffer of \<open>n\<close> bytes the routine \<open>a\<close> adds \<open>cs\<close> to the line, or reports that
  there is no room for it.
\<close>

definition appends :: "nat \<Rightarrow> (line \<Rightarrow> bool \<times> line) \<Rightarrow> u8 list \<Rightarrow> bool" where
  "appends n a cs \<longleftrightarrow> (\<forall>l out. holds l out \<and> length (fst l) = n \<longrightarrow> (\<exists>l'. a l = (length out + length cs \<le> n, l') \<and>
     length (fst l') = n \<and> (length out + length cs \<le> n \<longrightarrow> holds l' (out @ cs))))"

lemma appendsD:
  assumes "appends n a cs" and "holds l out" and "length (fst l) = n"
  obtains l' where "a l = (length out + length cs \<le> n, l')" "length (fst l') = n"
    "length out + length cs \<le> n \<Longrightarrow> holds l' (out @ cs)"
  using assms unfolding appends_def by blast

lemma appends_text:
  assumes "n < 2 ^ 32"
  shows "appends n (append_text (of_nat n) cs) cs"
proof -
  have "\<exists>l'. append_text (of_nat n) cs (line, len) = (length out + length cs \<le> n, l') \<and>
    length (fst l') = n \<and> (length out + length cs \<le> n \<longrightarrow> holds l' (out @ cs))"
    if "holds (line, len) out" "length line = n" for line len out
    using that
  proof (induction cs arbitrary: line len out)
    case Nil
    then show ?case by (auto simp: holds_def)
  next
    case (Cons c cs)
    have full: "len \<ge> of_nat n \<longleftrightarrow> \<not> length out < n"
      using Cons.prems assms by (simp add: word_le_nat_alt unat_of_nat32 holds_def not_less)
    show ?case
    proof (cases "length out < n")
      case True
      with Cons.prems assms have "holds (line[unat len := c], len + 1) (out @ [c])" by (intro holds_put) simp_all
      from Cons.IH [OF this] Cons.prems True full show ?thesis by simp
    next
      case False
      with Cons.prems full show ?thesis by auto
    qed
  qed
  then show ?thesis by (auto simp: appends_def)
qed

text \<open>A routine that first tests the room and then writes all its bytes.\<close>

lemma appends_bytes:
  assumes "n < 2 ^ 32" and "length cs < 2 ^ 32"
    and "\<And>l. a l = (if of_nat (length cs) > of_nat n - snd l then (False, l) else (True, put_bytes cs l))"
  shows "appends n a cs"
  unfolding appends_def
proof (intro allI impI)
  fix l out
  assume l: "holds l out \<and> length (fst l) = n"
  then have le: "length out \<le> n" by (simp add: holds_def)
  have "of_nat (length cs) > of_nat n - snd l \<longleftrightarrow> \<not> length out + length cs \<le> n"
    using room_left [of l out n] l le assms(1,2) by (auto simp: word_less_nat_alt unat_of_nat32)
  then show "\<exists>l'. a l = (length out + length cs \<le> n, l') \<and> length (fst l') = n \<and>
      (length out + length cs \<le> n \<longrightarrow> holds l' (out @ cs))"
    using put_bytes_holds [of l out cs] l assms(1) by (cases "length out + length cs \<le> n") (simp_all add: assms(3))
qed

lemma appends_all:
  assumes "list_all2 (appends n) as css"
  shows "appends n (append_all as) (concat css)"
  using assms
proof (induction rule: list_all2_induct)
  case Nil
  then show ?case by (auto simp: appends_def holds_def)
next
  case (Cons a as cs css)
  show ?case
    unfolding appends_def
  proof (intro allI impI)
    fix l out
    assume l: "holds l out \<and> length (fst l) = n"
    then obtain l1 where l1: "a l = (length out + length cs \<le> n, l1)" "length (fst l1) = n"
      "length out + length cs \<le> n \<Longrightarrow> holds l1 (out @ cs)"
      using appendsD [OF Cons(1)] by blast
    show "\<exists>l'. append_all (a # as) l = (length out + length (concat (cs # css)) \<le> n, l') \<and> length (fst l') = n \<and>
        (length out + length (concat (cs # css)) \<le> n \<longrightarrow> holds l' (out @ concat (cs # css)))"
    proof (cases "length out + length cs \<le> n")
      case True
      from appendsD [OF Cons(3) l1(3) [OF True] l1(2)] obtain l2 where
        "append_all as l1 = (length (out @ cs) + length (concat css) \<le> n, l2)" "length (fst l2) = n"
        "length (out @ cs) + length (concat css) \<le> n \<Longrightarrow> holds l2 ((out @ cs) @ concat css)" by blast
      with l1(1) True show ?thesis by (simp add: add.assoc)
    next
      case False
      with l1(1,2) show ?thesis by simp
    qed
  qed
qed

section \<open>Decimal and hexadecimal\<close>

text \<open>Reading digits, the most significant first.\<close>

definition digit_value :: "u8 \<Rightarrow> nat" where
  "digit_value c = (if c \<ge> 0x41 then unat c - 55 else unat c - 48)"

definition read_number :: "nat \<Rightarrow> u8 list \<Rightarrow> nat" where
  "read_number base cs = foldl (\<lambda>n c. base * n + digit_value c) 0 cs"

lemma read_number_snoc [simp]:
  "read_number base [] = 0" "read_number base (cs @ [c]) = base * read_number base cs + digit_value c"
  by (simp_all add: read_number_def)

lemma decimal_digit:
  "digit_value (0x30 + ucast (v mod 10 :: u32)) = unat v mod 10"
  "0x30 \<le> 0x30 + (ucast (v mod 10) :: u8)" "0x30 + (ucast (v mod 10) :: u8) \<le> 0x39"
proof -
  have "unat (v mod 10) < 10" by (simp add: unat_mod)
  then have "unat (ucast (v mod 10) :: u8) = unat v mod 10" by (simp add: unsigned_ucast_eq take_bit_nat_eq_self_iff unat_mod)
  moreover have "unat v mod 10 < 10" by simp
  ultimately have u: "unat (0x30 + ucast (v mod 10) :: u8) = 48 + unat v mod 10"
    by (simp add: unat_word_ariths)
  then show "digit_value (0x30 + ucast (v mod 10 :: u32)) = unat v mod 10"
    using \<open>unat v mod 10 < 10\<close> by (simp add: digit_value_def word_le_nat_alt)
  show "0x30 \<le> 0x30 + (ucast (v mod 10) :: u8)" "0x30 + (ucast (v mod 10) :: u8) \<le> 0x39"
    using \<open>unat v mod 10 < 10\<close> by (simp_all add: word_le_nat_alt u)
qed

lemma decimal_digits_value:
  "read_number 10 (rev (decimal_digits v)) = unat v" "\<forall>c \<in> set (decimal_digits v). 0x30 \<le> c \<and> c \<le> 0x39"
  "length (decimal_digits v) \<le> n \<longleftrightarrow> 0 < n \<and> unat v < 10 ^ n"
proof -
  have "read_number 10 (rev (decimal_digits v)) = unat v \<and> (\<forall>c \<in> set (decimal_digits v). 0x30 \<le> c \<and> c \<le> 0x39) \<and>
    (\<forall>n. length (decimal_digits v) \<le> n \<longleftrightarrow> 0 < n \<and> unat v < 10 ^ n)"
  proof (induction v rule: decimal_digits.induct)
    case (1 v)
    have rest: "v div 10 \<noteq> 0 \<longleftrightarrow> 10 \<le> unat v" by (auto simp: unat_div unat_eq_0 [symmetric])
    show ?case
    proof (cases "v div 10 = 0")
      case True
      then have "decimal_digits v = [0x30 + ucast (v mod 10)]" by (simp add: decimal_digits.simps [of v])
      moreover have "unat v < 10" using True rest by simp
      moreover from this have "unat v < 10 ^ n" if "0 < n" for n
        using that power_increasing [of 1 n "10 :: nat"] by simp
      ultimately show ?thesis using decimal_digit [of v] by (auto simp: read_number_def)
    next
      case False
      then have ds: "decimal_digits v = (0x30 + ucast (v mod 10)) # decimal_digits (v div 10)"
        by (simp add: decimal_digits.simps [of v])
      have len: "length (decimal_digits v) \<le> n \<longleftrightarrow> 0 < n \<and> unat v < 10 ^ n" for n
      proof (cases n)
        case (Suc m)
        have "unat v < 10 ^ n \<longleftrightarrow> unat v div 10 < 10 ^ m" by (simp add: Suc div_less_iff_less_mult mult.commute)
        moreover have "0 < m" if "unat v div 10 < 10 ^ m" using that False rest by (cases m) auto
        ultimately show ?thesis using 1 False Suc by (auto simp: ds unat_div)
      qed (simp add: ds)
      then show ?thesis using 1 False decimal_digit [of v] by (simp add: ds unat_div)
    qed
  qed
  then show "read_number 10 (rev (decimal_digits v)) = unat v" "\<forall>c \<in> set (decimal_digits v). 0x30 \<le> c \<and> c \<le> 0x39"
    "length (decimal_digits v) \<le> n \<longleftrightarrow> 0 < n \<and> unat v < 10 ^ n" by blast+
qed

lemma decimal_digits_fit: "length (decimal_digits v) \<le> 10"
  unfolding decimal_digits_value(3) using unat_less_2p(3) [of v] by simp

definition hex_text :: "u32 \<Rightarrow> u8 list" where
  "hex_text v = map (\<lambda>shift. hex_digits ! unat (drop_bit (shift - 4) v AND 0xF)) [32, 28, 24, 20, 16, 12, 8, 4]"

lemma hex_digit: "d < 16 \<Longrightarrow> digit_value (hex_digits ! d) = d"
proof -
  have "\<forall>d \<in> set [0..<16]. digit_value (hex_digits ! d) = d" by code_simp
  then show "d < 16 \<Longrightarrow> ?thesis" by simp
qed

lemma hex_text_value: "read_number 16 (hex_text v) = unat v" "length (hex_text v) = 8"
proof -
  have digit: "digit_value (hex_digits ! unat (drop_bit n v AND 0xF)) = unat v div 2 ^ n mod 16" for n
  proof -
    have "unat (drop_bit n v AND 0xF) = unat v div 2 ^ n mod 16"
    proof -
      have "k AND 15 = k mod 16" for k :: nat
        using take_bit_eq_mask [of 4 k] by (simp add: mask_eq_exp_minus_1 take_bit_eq_mod)
      moreover have "take_bit 32 (unat v) = unat v" by (simp add: take_bit_nat_eq_self_iff unat_less_2p)
      then have "unat (drop_bit n v AND 0xF) = drop_bit n (unat v) AND 15"
        by (simp add: unsigned_and_eq unsigned_drop_bit_eq)
      ultimately show ?thesis by (simp add: drop_bit_eq_div)
    qed
    moreover have "unat v div 2 ^ n mod 16 < 16" by simp
    ultimately show ?thesis by (simp only: hex_digit)
  qed
  have step: "16 * (m div 2 ^ k') + m div 2 ^ k mod 16 = m div 2 ^ k" if "k' = k + 4" for m k k' :: nat
    using mult_div_mod_eq [of 16 "m div 2 ^ k"] that by (simp add: power_add div_mult2_eq)
  have top: "unat v div 2 ^ 28 mod 16 = unat v div 2 ^ 28"
    using unat_less_2p(3) [of v] by simp
  have horner: "read_number 16 (hex_text v) = 16 * (16 * (16 * (16 * (16 * (16 * (16 * (unat v div 2 ^ 28 mod 16) +
      unat v div 2 ^ 24 mod 16) + unat v div 2 ^ 20 mod 16) + unat v div 2 ^ 16 mod 16) + unat v div 2 ^ 12 mod 16) +
      unat v div 2 ^ 8 mod 16) + unat v div 2 ^ 4 mod 16) + unat v div 2 ^ 0 mod 16"
    by (simp only: hex_text_def read_number_def list.map foldl.simps digit) simp
  note steps = step [of 28 24] step [of 24 20] step [of 20 16] step [of 16 12] step [of 12 8] step [of 8 4] step [of 4 0]
  show "read_number 16 (hex_text v) = unat v" 
    unfolding horner top by (simp only: steps) simp
  show "length (hex_text v) = 8" by (simp add: hex_text_def)
qed

lemma appends_decimal: "n < 2 ^ 32 \<Longrightarrow> appends n (append_decimal (of_nat n) v) (rev (decimal_digits v))"
  by (rule appends_bytes) (use decimal_digits_fit [of v] in \<open>simp_all add: append_decimal_def Let_def\<close>)

lemma appends_hex32: "n < 2 ^ 32 \<Longrightarrow> appends n (append_hex32 (of_nat n) v) (hex_text v)"
  by (rule appends_bytes) (simp_all only: hex_text_value(2), simp_all add: append_hex32_def hex_text_def)

end
