(* ===== verification/Board.thy ===== *)
theory Board
  imports App_Line
begin

text \<open>
  The board: \<open>bsp/nucleo_f401re/src/board.c\<close>. The calls and macros of the vendor library are
  parameters over a state of the hardware, and its named constants are names; the serial port of the
  panic display is a device that is polled through its status register. \<open>board_uart_write\<close> is in
  \<open>Trace_Frames\<close>.
\<close>

section \<open>Start-up\<close>

datatype vendor_constant = RCC_OSCILLATORTYPE_HSI | RCC_HSI_ON | RCC_HSICALIBRATION_DEFAULT | RCC_PLL_ON
  | RCC_PLLSOURCE_HSI | RCC_PLLP_DIV4 | RCC_CLOCKTYPE_HCLK | RCC_CLOCKTYPE_SYSCLK | RCC_CLOCKTYPE_PCLK1
  | RCC_CLOCKTYPE_PCLK2 | RCC_SYSCLKSOURCE_PLLCLK | RCC_SYSCLK_DIV1 | RCC_HCLK_DIV1 | RCC_HCLK_DIV2
  | FLASH_LATENCY_2 | PWR_REGULATOR_VOLTAGE_SCALE2 | NVIC_PRIORITYGROUP_4 | GPIO_MODE_OUTPUT_PP
  | GPIO_MODE_AF_PP | GPIO_NOPULL | GPIO_SPEED_FREQ_LOW | GPIO_SPEED_FREQ_VERY_HIGH | GPIO_AF7_USART2
  | UART_WORDLENGTH_8B | UART_STOPBITS_1 | UART_PARITY_NONE | UART_MODE_TX_RX | UART_HWCONTROL_NONE
  | UART_OVERSAMPLING_16

datatype gpio_pin = GPIO_PIN_2 | GPIO_PIN_3 | GPIO_PIN_5

datatype usart_instance = USART2 | Other_USART

record RCC_OscInitTypeDef =
  OscillatorType :: vendor_constant
  HSIState :: vendor_constant
  HSICalibrationValue :: vendor_constant
  PLLState :: vendor_constant
  PLLSource :: vendor_constant
  PLLM :: nat
  PLLN :: nat
  PLLP :: vendor_constant
  PLLQ :: nat

record RCC_ClkInitTypeDef =
  ClockType :: "vendor_constant set"
  SYSCLKSource :: vendor_constant
  AHBCLKDivider :: vendor_constant
  APB1CLKDivider :: vendor_constant
  APB2CLKDivider :: vendor_constant

record UART_InitTypeDef =
  BaudRate :: nat
  WordLength :: vendor_constant
  StopBits :: vendor_constant
  Parity :: vendor_constant
  UartMode :: vendor_constant
  HwFlowCtl :: vendor_constant
  OverSampling :: vendor_constant

text \<open>A field that the code leaves zero is \<open>None\<close>.\<close>

record GPIO_InitTypeDef =
  Pin :: "gpio_pin set"
  GpioMode :: vendor_constant
  Pull :: vendor_constant
  Speed :: vendor_constant
  Alternate :: "vendor_constant option"

record 'w hal =
  HAL_Init :: "'w \<Rightarrow> hal_status \<times> 'w"
  RCC_PWR_CLK_ENABLE :: "'w \<Rightarrow> 'w"
  RCC_SYSCFG_CLK_ENABLE :: "'w \<Rightarrow> 'w"
  RCC_GPIOA_CLK_ENABLE :: "'w \<Rightarrow> 'w"
  RCC_USART2_CLK_ENABLE :: "'w \<Rightarrow> 'w"
  PWR_VOLTAGESCALING_CONFIG :: "vendor_constant \<Rightarrow> 'w \<Rightarrow> 'w"
  HAL_RCC_OscConfig :: "RCC_OscInitTypeDef \<Rightarrow> 'w \<Rightarrow> hal_status \<times> 'w"
  HAL_RCC_ClockConfig :: "RCC_ClkInitTypeDef \<Rightarrow> vendor_constant \<Rightarrow> 'w \<Rightarrow> hal_status \<times> 'w"
  HAL_NVIC_SetPriorityGrouping :: "vendor_constant \<Rightarrow> 'w \<Rightarrow> 'w"
  HAL_GPIO_WritePin :: "gpio_pin \<Rightarrow> bool \<Rightarrow> 'w \<Rightarrow> 'w"
  HAL_GPIO_Init :: "GPIO_InitTypeDef \<Rightarrow> 'w \<Rightarrow> 'w"
  HAL_UART_Init :: "UART_InitTypeDef \<Rightarrow> 'w \<Rightarrow> hal_status \<times> 'w"

definition HAL_MspInit :: "'w hal \<Rightarrow> 'w \<Rightarrow> 'w" where
  "HAL_MspInit h w = HAL_NVIC_SetPriorityGrouping h NVIC_PRIORITYGROUP_4
     (RCC_PWR_CLK_ENABLE h (RCC_SYSCFG_CLK_ENABLE h w))"

definition HAL_UART_MspInit :: "'w hal \<Rightarrow> usart_instance \<Rightarrow> 'w \<Rightarrow> 'w" where
  "HAL_UART_MspInit h inst w =
     (if inst \<noteq> USART2 then w
      else
        let w1 = RCC_USART2_CLK_ENABLE h w;
            w2 = RCC_GPIOA_CLK_ENABLE h w1
        in HAL_GPIO_Init h \<lparr>Pin = {GPIO_PIN_2, GPIO_PIN_3}, GpioMode = GPIO_MODE_AF_PP, Pull = GPIO_NOPULL,
             Speed = GPIO_SPEED_FREQ_VERY_HIGH, Alternate = Some GPIO_AF7_USART2\<rparr> w2)"

definition oscillator :: RCC_OscInitTypeDef where
  "oscillator = \<lparr>OscillatorType = RCC_OSCILLATORTYPE_HSI, HSIState = RCC_HSI_ON,
     HSICalibrationValue = RCC_HSICALIBRATION_DEFAULT, PLLState = RCC_PLL_ON, PLLSource = RCC_PLLSOURCE_HSI,
     PLLM = 16, PLLN = 336, PLLP = RCC_PLLP_DIV4, PLLQ = 7\<rparr>"

definition clocks :: RCC_ClkInitTypeDef where
  "clocks = \<lparr>ClockType = {RCC_CLOCKTYPE_HCLK, RCC_CLOCKTYPE_SYSCLK, RCC_CLOCKTYPE_PCLK1, RCC_CLOCKTYPE_PCLK2},
     SYSCLKSource = RCC_SYSCLKSOURCE_PLLCLK, AHBCLKDivider = RCC_SYSCLK_DIV1, APB1CLKDivider = RCC_HCLK_DIV2,
     APB2CLKDivider = RCC_HCLK_DIV1\<rparr>"

definition configure_clock :: "'w hal \<Rightarrow> 'w \<Rightarrow> hal_status \<times> 'w" where
  "configure_clock h w =
     (let w1 = PWR_VOLTAGESCALING_CONFIG h PWR_REGULATOR_VOLTAGE_SCALE2 (RCC_PWR_CLK_ENABLE h w);
          (status, w2) = HAL_RCC_OscConfig h oscillator w1
      in if status \<noteq> HAL_OK then (HAL_ERROR, w2) else HAL_RCC_ClockConfig h clocks FLASH_LATENCY_2 w2)"

definition configure_gpio :: "'w hal \<Rightarrow> 'w \<Rightarrow> hal_status \<times> 'w" where
  "configure_gpio h w =
     (let w1 = HAL_GPIO_WritePin h GPIO_PIN_5 False (RCC_GPIOA_CLK_ENABLE h w)
      in (HAL_OK, HAL_GPIO_Init h \<lparr>Pin = {GPIO_PIN_5}, GpioMode = GPIO_MODE_OUTPUT_PP, Pull = GPIO_NOPULL,
            Speed = GPIO_SPEED_FREQ_LOW, Alternate = None\<rparr> w1))"

definition configure_uart :: "'w hal \<Rightarrow> 'w \<Rightarrow> hal_status \<times> 'w" where
  "configure_uart h w = HAL_UART_Init h \<lparr>BaudRate = 115200, WordLength = UART_WORDLENGTH_8B,
     StopBits = UART_STOPBITS_1, Parity = UART_PARITY_NONE, UartMode = UART_MODE_TX_RX,
     HwFlowCtl = UART_HWCONTROL_NONE, OverSampling = UART_OVERSAMPLING_16\<rparr> w"

definition board_init :: "'w hal \<Rightarrow> 'w \<Rightarrow> hal_status \<times> 'w" where
  "board_init h w =
     (let (s1, w1) = HAL_Init h w
      in if s1 \<noteq> HAL_OK then (HAL_ERROR, w1)
         else let (s2, w2) = configure_clock h w1
              in if s2 \<noteq> HAL_OK then (HAL_ERROR, w2)
                 else let (s3, w3) = configure_gpio h w2
                      in if s3 \<noteq> HAL_OK then (HAL_ERROR, w3) else configure_uart h w3)"

section \<open>The panic display\<close>

text \<open>
  The registers of the port as the panic code uses them, over a state of the device: whether its clock
  is enabled, the status register, whose reads may change the device, and the data register.
\<close>

record 'd usart =
  USART2_IS_CLK_ENABLED :: "'d \<Rightarrow> bool"
  SR :: "'d \<Rightarrow> u32 \<times> 'd"
  DR :: "u8 \<Rightarrow> 'd \<Rightarrow> 'd"

abbreviation USART_SR_TXE :: u32 where "USART_SR_TXE \<equiv> 0x80"
abbreviation USART_SR_TC :: u32 where "USART_SR_TC \<equiv> 0x40"
abbreviation PANIC_UART_SPIN_LIMIT :: nat where "PANIC_UART_SPIN_LIMIT \<equiv> 1000000"

text \<open>Waiting for a flag: the result is what is left of \<open>remaining\<close>.\<close>

fun spin :: "'d usart \<Rightarrow> u32 \<Rightarrow> nat \<Rightarrow> 'd \<Rightarrow> nat \<times> 'd" where
  "spin u flag 0 d = (0, snd (SR u d))"
| "spin u flag (Suc remaining) d =
     (let (status, d') = SR u d
      in if status AND flag = 0 then spin u flag remaining d' else (Suc remaining, d'))"

fun panic_bytes :: "'d usart \<Rightarrow> u8 list \<Rightarrow> 'd \<Rightarrow> bool \<times> 'd" where
  "panic_bytes u [] d = (True, d)"
| "panic_bytes u (b # rest) d =
     (let (remaining, d') = spin u USART_SR_TXE PANIC_UART_SPIN_LIMIT d
      in if remaining = 0 then (False, d') else panic_bytes u rest (DR u b d'))"

definition panic_uart_write :: "'d usart \<Rightarrow> u8 list option \<Rightarrow> nat \<Rightarrow> 'd \<Rightarrow> 'd" where
  "panic_uart_write u data len d =
     (if \<not> USART2_IS_CLK_ENABLED u d \<or> data = None then d
      else
        let (sent, d') = panic_bytes u (take len (the data)) d
        in if sent then snd (spin u USART_SR_TC PANIC_UART_SPIN_LIMIT d') else d')"

text \<open>The state of the device when the endless loop of \<open>board_kernel_panic\<close> begins.\<close>

definition board_kernel_panic :: "'d usart \<Rightarrow> string option \<Rightarrow> 'd \<Rightarrow> 'd" where
  "board_kernel_panic u reason d =
     (let prefix = c_text ''AYMOS PANIC ''; newline = [0x0D, 0x0A];
          d1 = panic_uart_write u (Some prefix) (length prefix) d;
          d2 = (case reason of None \<Rightarrow> d1
                | Some r \<Rightarrow> let data = c_text r @ [0] in panic_uart_write u (Some data) (text_length data) d1)
      in panic_uart_write u (Some newline) (length newline) d2)"

section \<open>What the panic display sends\<close>

text \<open>
  \<open>panic_port u sent polls\<close>: reading the status register is counted by \<open>polls\<close> and sends nothing, writing
  the data register sends the byte, and neither disables the clock.
\<close>

definition panic_port :: "'d usart \<Rightarrow> ('d \<Rightarrow> u8 list) \<Rightarrow> ('d \<Rightarrow> nat) \<Rightarrow> bool" where
  "panic_port u sent polls \<longleftrightarrow>
     (\<forall>d. sent (snd (SR u d)) = sent d \<and> polls (snd (SR u d)) = polls d + 1 \<and>
        USART2_IS_CLK_ENABLED u (snd (SR u d)) = USART2_IS_CLK_ENABLED u d) \<and>
     (\<forall>b d. sent (DR u b d) = sent d @ [b] \<and> polls (DR u b d) = polls d \<and>
        USART2_IS_CLK_ENABLED u (DR u b d) = USART2_IS_CLK_ENABLED u d)"

text \<open>The flag shows up within the limit, whatever the state.\<close>

definition prompt_port :: "'d usart \<Rightarrow> bool" where
  "prompt_port u \<longleftrightarrow> (\<forall>flag \<in> {USART_SR_TXE, USART_SR_TC}. \<forall>d. fst (spin u flag PANIC_UART_SPIN_LIMIT d) \<noteq> 0)"

lemma spin_effect:
  assumes "panic_port u sent polls"
  shows "sent (snd (spin u flag n d)) = sent d" "polls (snd (spin u flag n d)) \<le> polls d + n + 1"
    "USART2_IS_CLK_ENABLED u (snd (spin u flag n d)) = USART2_IS_CLK_ENABLED u d"
proof -
  have "sent (snd (spin u flag n d)) = sent d \<and> polls (snd (spin u flag n d)) \<le> polls d + n + 1 \<and>
    USART2_IS_CLK_ENABLED u (snd (spin u flag n d)) = USART2_IS_CLK_ENABLED u d"
  proof (induction n arbitrary: d)
    case 0
    then show ?case using assms by (simp add: panic_port_def)
  next
    case (Suc n)
    have law: "sent (snd (SR u d)) = sent d" "polls (snd (SR u d)) = polls d + 1"
      "USART2_IS_CLK_ENABLED u (snd (SR u d)) = USART2_IS_CLK_ENABLED u d"
      using assms by (simp_all add: panic_port_def)
    show ?case using Suc [of "snd (SR u d)"] by (simp add: case_prod_beta Let_def law)
  qed
  then show "sent (snd (spin u flag n d)) = sent d" "polls (snd (spin u flag n d)) \<le> polls d + n + 1"
    "USART2_IS_CLK_ENABLED u (snd (spin u flag n d)) = USART2_IS_CLK_ENABLED u d" by simp_all
qed

lemma panic_bytes_effect:
  assumes "panic_port u sent polls"
  shows "\<exists>k \<le> length data. sent (snd (panic_bytes u data d)) = sent d @ take k data \<and>
    (fst (panic_bytes u data d) \<longrightarrow> k = length data) \<and>
    polls (snd (panic_bytes u data d)) \<le> polls d + length data * 1000001 \<and>
    USART2_IS_CLK_ENABLED u (snd (panic_bytes u data d)) = USART2_IS_CLK_ENABLED u d"
    and "prompt_port u \<Longrightarrow> fst (panic_bytes u data d)"
proof -
  define limit where "limit = PANIC_UART_SPIN_LIMIT"
  have law: "sent (DR u b d) = sent d @ [b]" "polls (DR u b d) = polls d"
    "USART2_IS_CLK_ENABLED u (DR u b d) = USART2_IS_CLK_ENABLED u d" for b d
    using assms by (simp_all add: panic_port_def)
  note spin = spin_effect [OF assms, of USART_SR_TXE limit]
  have step: "panic_bytes u (b # rest) d = (if fst (spin u USART_SR_TXE limit d) = 0
      then (False, snd (spin u USART_SR_TXE limit d))
      else panic_bytes u rest (DR u b (snd (spin u USART_SR_TXE limit d))))" for b rest d
    by (simp add: limit_def case_prod_beta Let_def del: spin.simps)
  show "\<exists>k \<le> length data. sent (snd (panic_bytes u data d)) = sent d @ take k data \<and>
    (fst (panic_bytes u data d) \<longrightarrow> k = length data) \<and>
    polls (snd (panic_bytes u data d)) \<le> polls d + length data * 1000001 \<and>
    USART2_IS_CLK_ENABLED u (snd (panic_bytes u data d)) = USART2_IS_CLK_ENABLED u d"
  proof (induction data arbitrary: d)
    case (Cons b rest)
    define d1 where "d1 = snd (spin u USART_SR_TXE limit d)"
    have d1: "sent d1 = sent d" "polls d1 \<le> polls d + 1000001"
      "USART2_IS_CLK_ENABLED u d1 = USART2_IS_CLK_ENABLED u d"
      using spin [of d] by (simp_all add: d1_def limit_def del: spin.simps)
    show ?case
    proof (cases "fst (spin u USART_SR_TXE limit d) = 0")
      case True
      then have "panic_bytes u (b # rest) d = (False, d1)" by (simp add: step d1_def del: panic_bytes.simps)
      with d1 show ?thesis by (intro exI [of _ 0]) simp
    next
      case False
      then have run: "panic_bytes u (b # rest) d = panic_bytes u rest (DR u b d1)"
        by (simp add: step d1_def del: panic_bytes.simps)
      obtain k where "k \<le> length rest" "sent (snd (panic_bytes u rest (DR u b d1))) = sent (DR u b d1) @ take k rest"
        "fst (panic_bytes u rest (DR u b d1)) \<longrightarrow> k = length rest"
        "polls (snd (panic_bytes u rest (DR u b d1))) \<le> polls (DR u b d1) + length rest * 1000001"
        "USART2_IS_CLK_ENABLED u (snd (panic_bytes u rest (DR u b d1))) = USART2_IS_CLK_ENABLED u (DR u b d1)"
        using Cons.IH by blast
      with d1 law show ?thesis unfolding run by (intro exI [of _ "Suc k"]) simp
    qed
  qed simp
  show "fst (panic_bytes u data d)" if "prompt_port u"
  proof (induction data arbitrary: d)
    case (Cons b rest)
    have "fst (spin u USART_SR_TXE limit d) \<noteq> 0" using that unfolding prompt_port_def limit_def by blast
    with Cons.IH show ?case by (simp add: step del: panic_bytes.simps)
  qed simp
qed

lemma panic_uart_write_effect:
  assumes "panic_port u sent polls" and "USART2_IS_CLK_ENABLED u d" and "len \<le> length data"
  shows "\<exists>k \<le> len. sent (panic_uart_write u (Some data) len d) = sent d @ take k data \<and>
    (prompt_port u \<longrightarrow> k = len) \<and>
    polls (panic_uart_write u (Some data) len d) \<le> polls d + (len + 1) * 1000001 \<and>
    USART2_IS_CLK_ENABLED u (panic_uart_write u (Some data) len d)"
proof -
  define limit where "limit = PANIC_UART_SPIN_LIMIT"
  define r where "r = panic_bytes u (take len data) d"
  obtain k where k: "k \<le> len" "sent (snd r) = sent d @ take k (take len data)" "fst r \<longrightarrow> k = len"
    "polls (snd r) \<le> polls d + len * 1000001" "USART2_IS_CLK_ENABLED u (snd r)"
  proof -
    have "length (take len data) = len" using assms(3) by simp
    with panic_bytes_effect(1) [OF assms(1), of "take len data" d] assms(2) that show thesis
      unfolding r_def by metis
  qed
  have run: "panic_uart_write u (Some data) len d =
      (if fst r then snd (spin u USART_SR_TC limit (snd r)) else snd r)"
    using assms(2) by (simp add: panic_uart_write_def r_def limit_def case_prod_beta Let_def del: spin.simps)
  note spin = spin_effect [OF assms(1), of USART_SR_TC limit "snd r"]
  have "prompt_port u \<longrightarrow> k = len" using panic_bytes_effect(2) [OF assms(1)] k(3) by (simp add: r_def)
  moreover have "sent (panic_uart_write u (Some data) len d) = sent d @ take k data"
    using k(1,2) spin(1) by (simp add: run min_absorb1 del: spin.simps)
  moreover have "polls (panic_uart_write u (Some data) len d) \<le> polls d + (len + 1) * 1000001"
    using k(4) spin(2) by (simp add: run limit_def del: spin.simps)
  moreover have "USART2_IS_CLK_ENABLED u (panic_uart_write u (Some data) len d)"
    using k(5) spin(3) by (simp add: run del: spin.simps)
  ultimately show ?thesis using k(1) by blast
qed

lemma text_length_terminated: "0 \<notin> set bs \<Longrightarrow> text_length (bs @ [0]) = length bs"
  by (induction bs) auto

lemma c_text_nonzero:
  assumes "CHR 0x00 \<notin> set s"
  shows "0 \<notin> set (c_text s)"
proof -
  have nonzero: "of_char c \<noteq> (0 :: u8)" if "c \<noteq> CHR 0x00" for c
  proof
    assume "of_char c = (0 :: u8)"
    then have "of_nat (of_char c) = (0 :: u8)" by (simp only: of_nat_of_char)
    then have "256 dvd (of_char c :: nat)" by (simp add: word_of_nat_eq_0_iff)
    then have "of_char c = (0 :: nat)" using of_char_mod_256 [where ?'a = nat and c = c] by (simp only: dvd_eq_mod_eq_0)
    also have "\<dots> = of_char (CHR 0x00)" by simp
    finally show False using that by (simp only: of_char_eq_iff)
  qed
  show ?thesis
  proof
    assume "0 \<in> set (c_text s)"
    then obtain c where "c \<in> set s" "of_char c = (0 :: u8)" unfolding c_text_def by force
    with nonzero [of c] assms show False by blast
  qed
qed

section \<open>The panic display as a whole\<close>

text \<open>C32: A kernel panic is displayed without hanging. For a port whose registers behave as documented, the
  display sends the bytes of \<open>AYMOS PANIC\<close>, the reason and the end of the line, each part cut off at
  most where the port stays busy for a million reads of its status register; it reads that register
  at most a million and one times per byte and part, so it always comes to the final halt; when the port
  is prompt the line is complete; and it touches nothing when the clock of the port is off.\<close>

theorem kernel_panic_display:
  assumes "panic_port u sent polls" and "CHR 0x00 \<notin> set reason"
  shows "(\<not> USART2_IS_CLK_ENABLED u d \<longrightarrow> board_kernel_panic u (Some reason) d = d) \<and>
    (USART2_IS_CLK_ENABLED u d \<longrightarrow>
      (\<exists>k1 k2 k3. sent (board_kernel_panic u (Some reason) d) =
         sent d @ take k1 (c_text ''AYMOS PANIC '') @ take k2 (c_text reason) @ take k3 [0x0D, 0x0A]) \<and>
      polls (board_kernel_panic u (Some reason) d) \<le> polls d + (length reason + 17) * 1000001 \<and>
      (prompt_port u \<longrightarrow> sent (board_kernel_panic u (Some reason) d) =
         sent d @ c_text (''AYMOS PANIC '' @ reason) @ [0x0D, 0x0A]))"
proof (cases "USART2_IS_CLK_ENABLED u d")
  case False
  then show ?thesis by (simp add: board_kernel_panic_def panic_uart_write_def Let_def)
next
  case True
  define prefix where "prefix = c_text ''AYMOS PANIC ''"
  define data where "data = c_text reason"
  define newline :: "u8 list" where "newline = [0x0D, 0x0A]"
  have len: "length prefix = 12" "length newline = 2" "length data = length reason"
    by (simp_all add: prefix_def newline_def data_def c_text_def)
  have tl: "text_length (data @ [0]) = length data"
    unfolding data_def by (rule text_length_terminated [OF c_text_nonzero [OF assms(2)]])
  define d1 where "d1 = panic_uart_write u (Some prefix) (length prefix) d"
  define d2 where "d2 = panic_uart_write u (Some (data @ [0])) (length data) d1"
  have run: "board_kernel_panic u (Some reason) d = panic_uart_write u (Some newline) (length newline) d2"
    unfolding board_kernel_panic_def Let_def option.case prefix_def [symmetric] data_def [symmetric]
      newline_def [symmetric] tl d1_def [symmetric] d2_def [symmetric] ..
  note effect = panic_uart_write_effect [OF assms(1)]
  obtain k1 where k1: "sent d1 = sent d @ take k1 prefix" "prompt_port u \<longrightarrow> k1 = length prefix"
    "polls d1 \<le> polls d + (length prefix + 1) * 1000001" "USART2_IS_CLK_ENABLED u d1"
    using effect [OF True le_refl, of prefix] unfolding d1_def by blast
  obtain k2 where k2: "k2 \<le> length data" "sent d2 = sent d1 @ take k2 (data @ [0])" "prompt_port u \<longrightarrow> k2 = length data"
    "polls d2 \<le> polls d1 + (length data + 1) * 1000001" "USART2_IS_CLK_ENABLED u d2"
  proof -
    have "length data \<le> length (data @ [0])" by simp
    from effect [OF k1(4) this] that show thesis unfolding d2_def by blast
  qed
  obtain k3 where k3: "sent (board_kernel_panic u (Some reason) d) = sent d2 @ take k3 newline" "prompt_port u \<longrightarrow> k3 = length newline"
    "polls (board_kernel_panic u (Some reason) d) \<le> polls d2 + (length newline + 1) * 1000001"
    using effect [OF k2(5) le_refl, of newline] unfolding run by blast
  have "sent (board_kernel_panic u (Some reason) d) = sent d @ take k1 prefix @ take k2 data @ take k3 newline"
    using k1(1) k2(1,2) k3(1) by simp
  moreover have "polls (board_kernel_panic u (Some reason) d) \<le> polls d + (length reason + 17) * 1000001"
    using k1(3) k2(4) k3(3) by (simp add: len)
  moreover have "c_text (''AYMOS PANIC '' @ reason) = prefix @ data" by (simp add: prefix_def data_def c_text_def)
  ultimately show ?thesis
    using True k1(2) k2(3) k3(2) unfolding prefix_def [symmetric] data_def [symmetric] newline_def [symmetric]
    by auto
qed

text \<open>A port that is always ready: the bytes sent and the number of reads.\<close>

definition ready_port :: "(u8 list \<times> nat) usart" where
  "ready_port = \<lparr>USART2_IS_CLK_ENABLED = (\<lambda>_. True), SR = (\<lambda>(bs, n). (0xC0, bs, n + 1)),
     DR = (\<lambda>b (bs, n). (bs @ [b], n))\<rparr>"

theorem kernel_panic_display_witness:
  "fst (board_kernel_panic ready_port (Some ''SVC_PC'') ([], 0)) = c_text ''AYMOS PANIC SVC_PC'' @ [0x0D, 0x0A]"
proof -
  have port: "panic_port ready_port fst snd" by (auto simp: panic_port_def ready_port_def)
  have "spin ready_port flag (Suc n) d = (Suc n, fst d, snd d + 1)" if "flag \<in> {USART_SR_TXE, USART_SR_TC}" for flag n d
    using that by (auto simp: ready_port_def case_prod_beta)
  then have "fst (spin ready_port flag (Suc 999999) d) \<noteq> 0" if "flag \<in> {USART_SR_TXE, USART_SR_TC}" for flag d
    using that by (simp only: fst_conv)
  then have "prompt_port ready_port" by (simp add: prompt_port_def)
  with kernel_panic_display [OF port, of "''SVC_PC''" "([], 0)"] show ?thesis
    by (simp add: ready_port_def)
qed

end
