(* ===== verification/Signal_Lab.thy ===== *)
theory Signal_Lab
  imports Board Fir
begin

text \<open>
  The signal workload: \<open>apps/signal_lab/main.c\<close>. Its statics are the record \<open>signal_lab\<close>; the three
  arrays that the filter reads and writes are in a memory of 16-bit elements at addresses that the
  linker chooses. A task is followed from one call of the kernel to the next: a \<open>point\<close> says where it is
  in its code, and each definition \<open>*_task\<close> runs it on to its next point, given the state of the kernel
  at that moment. A failed \<open>require\<close> is a panic.
\<close>

abbreviation TASK_SAMPLER :: os_task_id_t where "TASK_SAMPLER \<equiv> 1"
abbreviation TASK_PROCESSOR :: os_task_id_t where "TASK_PROCESSOR \<equiv> 2"
abbreviation TASK_VERIFIER :: os_task_id_t where "TASK_VERIFIER \<equiv> 3"
abbreviation FRAME_COUNT :: u32 where "FRAME_COUNT \<equiv> 4"
abbreviation SAMPLE_COUNT :: u32 where "SAMPLE_COUNT \<equiv> 128"
abbreviation TAP_COUNT :: u32 where "TAP_COUNT \<equiv> 16"
abbreviation VALID_OUTPUT_COUNT :: u32 where "VALID_OUTPUT_COUNT \<equiv> 113"
abbreviation TOTAL_OUTPUT_COUNT :: u32 where "TOTAL_OUTPUT_COUNT \<equiv> 452"
abbreviation WORK_UNITS :: u32 where "WORK_UNITS \<equiv> 7232"
abbreviation PERIOD_TICKS :: u32 where "PERIOD_TICKS \<equiv> 6"
abbreviation FINAL_TICK :: u32 where "FINAL_TICK \<equiv> 21"
abbreviation RESULT_LINE_CAPACITY :: nat where "RESULT_LINE_CAPACITY \<equiv> 192"
abbreviation SIGNAL_SEED :: u32 where "SIGNAL_SEED \<equiv> 0x1A2B3C4D"
abbreviation EXPECTED_INPUT_CRC :: u32 where "EXPECTED_INPUT_CRC \<equiv> 0x0CAF72FD"
abbreviation EXPECTED_OUTPUT_CRC :: u32 where "EXPECTED_OUTPUT_CRC \<equiv> 0xAFC277C1"

definition coefficients :: "u16 list" where
  "coefficients = [- 128, - 256, - 256, 256, 1280, 3072, 5120, 7296,
     7296, 5120, 3072, 1280, 256, - 256, - 256, - 128]"

definition expected_frame_input_crc :: "u32 list" where
  "expected_frame_input_crc = [0x730ADC09, 0x516D1F6C, 0xB4AAC437, 0x241DBA95]"

definition expected_frame_output_crc :: "u32 list" where
  "expected_frame_output_crc = [0x4C2C86C2, 0x0D108262, 0x65642ED9, 0x469B7F1A]"

record lab_image =
  samples :: u32
  coefficients_array :: u32
  outputs :: u32

record signal_lab =
  cells :: cells
  frame_input_crc :: "u32 list"
  frame_output_crc :: "u32 list"
  sampled_generation :: u32
  processed_generation :: u32
  verified_generation :: u32
  sampler_finished :: bool
  processor_finished :: bool
  verifier_finished :: bool
  lfsr_state :: u32
  aggregate_input_state :: u32
  aggregate_output_state :: u32
  trace_flushed :: bool

definition signal_lab_start :: "cells \<Rightarrow> signal_lab" where
  "signal_lab_start m = \<lparr>cells = m, frame_input_crc = replicate 4 0, frame_output_crc = replicate 4 0,
     sampled_generation = 0, processed_generation = 0, verified_generation = 0, sampler_finished = False,
     processor_finished = False, verifier_finished = False, lfsr_state = SIGNAL_SEED,
     aggregate_input_state = UINT32_MAX, aggregate_output_state = UINT32_MAX, trace_flushed = False\<rparr>"

section \<open>Signal and checksums\<close>

definition lfsr_step :: "u32 \<Rightarrow> u32" where
  "lfsr_step s = (let feedback = 0 - (s AND 1) in drop_bit 1 s XOR (0x80200003 AND feedback))"

definition lfsr_next :: "signal_lab \<Rightarrow> u32 \<times> signal_lab" where
  "lfsr_next s = (let s' = s\<lparr>lfsr_state := lfsr_step (lfsr_state s)\<rparr> in (lfsr_state s', s'))"

definition signed_sample :: "u16 \<Rightarrow> u16" where
  "signed_sample bits = (if bits \<le> 32767 then bits else word_of_int (- 1 - uint (UINT16_MAX - bits)))"

definition crc32_byte_bit :: "u32 \<Rightarrow> u32" where
  "crc32_byte_bit crc = (let mask = 0 - (crc AND 1) in drop_bit 1 crc XOR (0xEDB88320 AND mask))"

definition signal_crc32_byte :: "u32 \<Rightarrow> u8 \<Rightarrow> u32" where
  "signal_crc32_byte crc b = (crc32_byte_bit ^^ 8) (crc XOR ucast b)"

definition crc32_u16 :: "u32 \<Rightarrow> u16 \<Rightarrow> u32" where
  "crc32_u16 crc bits = signal_crc32_byte (signal_crc32_byte crc (ucast bits)) (ucast (drop_bit 8 bits))"

definition crc32_q15 :: "cells \<Rightarrow> u32 \<Rightarrow> u32 \<Rightarrow> nat \<Rightarrow> u32" where
  "crc32_q15 m crc at count = fold (\<lambda>index crc. crc32_u16 crc (m (element at index))) [0..<count] crc"

section \<open>The frames\<close>

text \<open>The loop over the samples of a frame, with the checksum of the frame.\<close>

fun sampler_loop :: "lab_image \<Rightarrow> nat list \<Rightarrow> u32 \<times> signal_lab \<Rightarrow> u32 \<times> signal_lab" where
  "sampler_loop L [] r = r"
| "sampler_loop L (index # rest) (frame_state, s) =
     (let (bits, s1) = lfsr_next s;
          s2 = s1\<lparr>cells := (cells s1)(element (samples L) index := signed_sample (ucast bits))\<rparr>;
          frame_state' = crc32_q15 (cells s2) frame_state (element (samples L) index) 1;
          s3 = s2\<lparr>aggregate_input_state :=
                 crc32_q15 (cells s2) (aggregate_input_state s2) (element (samples L) index) 1\<rparr>
      in sampler_loop L rest (frame_state', s3))"

definition sampler_frame :: "lab_image \<Rightarrow> u32 \<Rightarrow> signal_lab \<Rightarrow> signal_lab outcome" where
  "sampler_frame L frame s =
     on_ok (require (sampled_generation s = frame \<and> processed_generation s = frame \<and>
                     verified_generation s = frame) ''SAMPLER_GENERATION'') (\<lambda>_.
       let (frame_state, s1) = sampler_loop L [0..<unat SAMPLE_COUNT] (UINT32_MAX, s)
       in Inr (s1\<lparr>frame_input_crc := (frame_input_crc s1)[unat frame := NOT frame_state],
                 sampled_generation := frame + 1\<rparr>))"

text \<open>The filter of the build: the reference, or the Cortex-M4 loop with its instructions.\<close>

type_synonym fir_q15 = "u32 \<Rightarrow> u32 \<Rightarrow> u32 \<Rightarrow> u32 \<Rightarrow> u32 \<Rightarrow> u32 \<Rightarrow> cells \<Rightarrow> aymos_fir_q15_status \<times> cells"

definition signal_fir :: "dsp_instructions option \<Rightarrow> fir_q15" where
  "signal_fir impl = (case impl of None \<Rightarrow> aymos_fir_q15_scalar | Some D \<Rightarrow> aymos_fir_q15_m4 D)"

definition processor_frame :: "fir_q15 \<Rightarrow> lab_image \<Rightarrow> u32 \<Rightarrow> signal_lab \<Rightarrow> signal_lab outcome" where
  "processor_frame fir L frame s =
     on_ok (require (sampled_generation s = frame + 1 \<and> processed_generation s = frame \<and>
                     verified_generation s = frame) ''PROCESSOR_GENERATION'') (\<lambda>_.
       let (status, m) = fir (samples L) SAMPLE_COUNT (coefficients_array L) TAP_COUNT (outputs L)
                           VALID_OUTPUT_COUNT (cells s);
           s1 = s\<lparr>cells := m\<rparr>
       in on_ok (require (status = AYMOS_FIR_Q15_OK) ''FIR'') (\<lambda>_.
         let frame_state = crc32_q15 m UINT32_MAX (outputs L) (unat VALID_OUTPUT_COUNT);
             aggregate = crc32_q15 m (aggregate_output_state s1) (outputs L) (unat VALID_OUTPUT_COUNT)
         in Inr (s1\<lparr>aggregate_output_state := aggregate,
                   frame_output_crc := (frame_output_crc s1)[unat frame := NOT frame_state],
                   processed_generation := frame + 1\<rparr>)))"

definition verifier_frame :: "u32 \<Rightarrow> signal_lab \<Rightarrow> signal_lab outcome" where
  "verifier_frame frame s =
     on_ok (require (sampled_generation s = frame + 1 \<and> processed_generation s = frame + 1 \<and>
                     verified_generation s = frame \<and>
                     frame_input_crc s ! unat frame = expected_frame_input_crc ! unat frame \<and>
                     frame_output_crc s ! unat frame = expected_frame_output_crc ! unat frame) ''VERIFY_FRAME'')
       (\<lambda>_. Inr (s\<lparr>verified_generation := frame + 1\<rparr>))"

definition verify_aggregate :: "signal_lab \<Rightarrow> unit outcome" where
  "verify_aggregate s = require (NOT (aggregate_input_state s) = EXPECTED_INPUT_CRC \<and>
     NOT (aggregate_output_state s) = EXPECTED_OUTPUT_CRC) ''VERIFY_AGGREGATE''"

section \<open>The tasks\<close>

text \<open>
  \<open>Frame f\<close> is the start of the loop body, \<open>Executing f\<close> the loop of \<open>wait_for_one_execution_tick\<close>,
  \<open>Waiting f\<close> the supervisor call of \<open>os_wait_next_period\<close>, from which the task comes back at its
  next release.
\<close>

datatype point = Entry | Frame u32 | Executing u32 | Waiting u32 | Returned

text \<open>One round of the waiting loop: the ticks that the job has had, as read with interrupts masked.\<close>

definition execution_round :: "os_task_id_t \<Rightarrow> kernel \<Rightarrow> bool outcome" where
  "execution_round task k =
     on_ok (os_task_info task True (k\<lparr>primask := 1\<rparr>)) (\<lambda>(info, k1).
       on_ok (require (primask k1 = 1 \<and> info \<noteq> None \<and> info_job_active (the info) \<and>
                info_state (the info) = OS_TASK_RUNNING) ''EXECUTION_INFO'') (\<lambda>_.
         if info_job_execution_ticks (the info) = 0 then Inr False
         else on_ok (require (info_job_execution_ticks (the info) = 1 \<and>
                info_deadline_miss_count (the info) = 0) ''EXECUTION_TICK'') (\<lambda>_. Inr True)))"

definition task_entry :: "os_task_id_t \<Rightarrow> string \<Rightarrow> u32 \<Rightarrow> kernel \<Rightarrow> point outcome" where
  "task_entry task reason arg k =
     on_ok (require (arg = 0 \<and> os_current_task k = task \<and> os_thread_uses_psp k) reason) (\<lambda>_. Inr (Frame 0))"

text \<open>The end of a frame: the call for the next period, whose result must be 1.\<close>

definition next_period :: "string \<Rightarrow> u32 \<Rightarrow> kernel \<Rightarrow> point outcome" where
  "next_period reason frame k =
     on_ok (require (os_wait_next_period k \<noteq> None) reason) (\<lambda>_. Inr (Waiting frame))"

definition sampler_task :: "lab_image \<Rightarrow> kernel \<Rightarrow> point \<Rightarrow> signal_lab \<Rightarrow> (point \<times> signal_lab) outcome" where
  "sampler_task L k p s = (case p of
     Entry \<Rightarrow> on_ok (task_entry TASK_SAMPLER ''SAMPLER_START'' 0 k) (\<lambda>p. Inr (p, s))
   | Frame frame \<Rightarrow> if frame < FRAME_COUNT then on_ok (sampler_frame L frame s) (\<lambda>s. Inr (Executing frame, s))
       else on_ok (require False ''SAMPLER_LOOP'') (\<lambda>_. Inr (p, s))
   | Executing frame \<Rightarrow> on_ok (execution_round TASK_SAMPLER k) (\<lambda>ticked.
       if \<not> ticked then Inr (p, s)
       else if frame + 1 = FRAME_COUNT then Inr (Returned, s\<lparr>sampler_finished := True\<rparr>)
       else on_ok (next_period ''SAMPLER_WAIT'' frame k) (\<lambda>p. Inr (p, s)))
   | Waiting frame \<Rightarrow> Inr (Frame (frame + 1), s)
   | Returned \<Rightarrow> Inr (p, s))"

definition processor_task ::
  "fir_q15 \<Rightarrow> lab_image \<Rightarrow> kernel \<Rightarrow> point \<Rightarrow> signal_lab \<Rightarrow> (point \<times> signal_lab) outcome" where
  "processor_task fir L k p s = (case p of
     Entry \<Rightarrow> on_ok (task_entry TASK_PROCESSOR ''PROCESSOR_START'' 0 k) (\<lambda>p. Inr (p, s))
   | Frame frame \<Rightarrow> if frame < FRAME_COUNT then on_ok (processor_frame fir L frame s) (\<lambda>s. Inr (Executing frame, s))
       else on_ok (require False ''PROCESSOR_LOOP'') (\<lambda>_. Inr (p, s))
   | Executing frame \<Rightarrow> on_ok (execution_round TASK_PROCESSOR k) (\<lambda>ticked.
       if \<not> ticked then Inr (p, s)
       else if frame + 1 = FRAME_COUNT then Inr (Returned, s\<lparr>processor_finished := True\<rparr>)
       else on_ok (next_period ''PROCESSOR_WAIT'' frame k) (\<lambda>p. Inr (p, s)))
   | Waiting frame \<Rightarrow> Inr (Frame (frame + 1), s)
   | Returned \<Rightarrow> Inr (p, s))"

definition verifier_task :: "kernel \<Rightarrow> point \<Rightarrow> signal_lab \<Rightarrow> (point \<times> signal_lab) outcome" where
  "verifier_task k p s = (case p of
     Entry \<Rightarrow> on_ok (task_entry TASK_VERIFIER ''VERIFIER_START'' 0 k) (\<lambda>p. Inr (p, s))
   | Frame frame \<Rightarrow> if frame < FRAME_COUNT then on_ok (verifier_frame frame s) (\<lambda>s. Inr (Executing frame, s))
       else on_ok (require False ''VERIFIER_LOOP'') (\<lambda>_. Inr (p, s))
   | Executing frame \<Rightarrow> on_ok (execution_round TASK_VERIFIER k) (\<lambda>ticked.
       if \<not> ticked then Inr (p, s)
       else if frame + 1 = FRAME_COUNT
         then on_ok (verify_aggregate s) (\<lambda>_. Inr (Returned, s\<lparr>verifier_finished := True\<rparr>))
       else on_ok (next_period ''VERIFIER_WAIT'' frame k) (\<lambda>p. Inr (p, s)))
   | Waiting frame \<Rightarrow> Inr (Frame (frame + 1), s)
   | Returned \<Rightarrow> Inr (p, s))"

section \<open>Any order of the tasks\<close>

text \<open>
  An event is a task that runs on to its next point and the state of the kernel that it finds. Nothing
  is assumed here about the order of the tasks or about those states.
\<close>

type_synonym lab_state = "(os_task_id_t \<Rightarrow> point) \<times> signal_lab"

definition lab_step :: "fir_q15 \<Rightarrow> lab_image \<Rightarrow> os_task_id_t \<times> kernel \<Rightarrow> lab_state \<Rightarrow> lab_state outcome" where
  "lab_step fir L event c = (let (task, k) = event; (at, s) = c
     in on_ok (if task = TASK_SAMPLER then sampler_task L k (at task) s
               else if task = TASK_PROCESSOR then processor_task fir L k (at task) s
               else if task = TASK_VERIFIER then verifier_task k (at task) s
               else Inr (at task, s)) (\<lambda>(p, s'). Inr (at(task := p), s')))"

fun lab_run :: "fir_q15 \<Rightarrow> lab_image \<Rightarrow> (os_task_id_t \<times> kernel) list \<Rightarrow> lab_state \<Rightarrow> lab_state outcome" where
  "lab_run fir L [] c = Inr c"
| "lab_run fir L (event # later) c = on_ok (lab_step fir L event c) (lab_run fir L later)"

definition lab_start :: "cells \<Rightarrow> lab_state" where
  "lab_start m = (\<lambda>_. Entry, signal_lab_start m)"

end
