(* ===== verification/Signal_Data.thy ===== *)
theory Signal_Data
  imports Signal_Lab Fir_Lemmas
begin

text \<open>
  What a frame of the signal workload does to its data, as functions on lists: the samples that the
  shift register produces, the outputs of the filter on them and the running checksums.
\<close>

section \<open>The arrays\<close>

text \<open>The linker puts the three arrays apart from each other; the coefficients are initialised data.\<close>

definition lab_image_ok :: "lab_image \<Rightarrow> bool" where
  "lab_image_ok L \<longleftrightarrow> samples L \<noteq> 0 \<and> coefficients_array L \<noteq> 0 \<and> outputs L \<noteq> 0 \<and>
     unat (samples L) + 256 < 2 ^ 32 \<and> unat (coefficients_array L) + 32 < 2 ^ 32 \<and> unat (outputs L) + 226 < 2 ^ 32 \<and>
     bytes (samples L) 128 \<inter> bytes (coefficients_array L) 16 = {} \<and>
     bytes (outputs L) 113 \<inter> bytes (samples L) 128 = {} \<and>
     bytes (outputs L) 113 \<inter> bytes (coefficients_array L) 16 = {}"

definition coefficients_loaded :: "lab_image \<Rightarrow> cells \<Rightarrow> bool" where
  "coefficients_loaded L m \<longleftrightarrow> (\<forall>t<16. m (element (coefficients_array L) t) = coefficients ! t)"

definition read_array :: "cells \<Rightarrow> u32 \<Rightarrow> nat \<Rightarrow> u16 list" where
  "read_array m at n = map (\<lambda>i. m (element at i)) [0..<n]"

lemma lab_call_valid:
  assumes "lab_image_ok L"
  shows "call_status (samples L) SAMPLE_COUNT (coefficients_array L) TAP_COUNT (outputs L) VALID_OUTPUT_COUNT = AYMOS_FIR_Q15_OK"
    "window_count SAMPLE_COUNT TAP_COUNT = 113"
  using assms by (auto simp: lab_image_ok_def call_status_def window_count_def Int_Un_distrib)

section \<open>Samples\<close>

fun lfsr_samples :: "nat \<Rightarrow> u32 \<Rightarrow> u16 list" where
  "lfsr_samples 0 s = []"
| "lfsr_samples (Suc n) s = signed_sample (ucast (lfsr_step s)) # lfsr_samples n (lfsr_step s)"

lemma length_lfsr_samples [simp]: "length (lfsr_samples n s) = n"
  by (induction n arbitrary: s) simp_all

definition crc_list :: "u32 \<Rightarrow> u16 list \<Rightarrow> u32" where
  "crc_list = foldl crc32_u16"

lemma crc_list_simps [simp]:
  "crc_list c [] = c" "crc_list c (x # xs) = crc_list (crc32_u16 c x) xs"
  "crc_list c (xs @ ys) = crc_list (crc_list c xs) ys"
  by (simp_all add: crc_list_def)

lemma crc32_q15_list: "crc32_q15 m c at n = crc_list c (read_array m at n)"
proof -
  have "fold (\<lambda>i c. crc32_u16 c (m (element at i))) is c = crc_list c (map (\<lambda>i. m (element at i)) is)" for "is" c
    by (induction "is" arbitrary: c) simp_all
  then show ?thesis by (simp add: crc32_q15_def read_array_def)
qed

lemma sampler_loop_effect:
  assumes "unat (samples L) + 256 < 2 ^ 32" and "a + n \<le> 128"
  shows "\<exists>m. sampler_loop L [a..<a + n] (c, s) =
      (crc_list c (lfsr_samples n (lfsr_state s)),
       s\<lparr>cells := m, lfsr_state := (lfsr_step ^^ n) (lfsr_state s),
         aggregate_input_state := crc_list (aggregate_input_state s) (lfsr_samples n (lfsr_state s))\<rparr>) \<and>
    (\<forall>i<n. m (element (samples L) (a + i)) = lfsr_samples n (lfsr_state s) ! i) \<and>
    (\<forall>x. (\<forall>i<n. x \<noteq> element (samples L) (a + i)) \<longrightarrow> m x = cells s x)"
  using assms(2)
proof (induction n arbitrary: a c s)
  case 0
  show ?case by (intro exI [of _ "cells s"]) simp
next
  case (Suc n)
  let ?b = "lfsr_step (lfsr_state s)"
  let ?v = "signed_sample (ucast ?b)"
  define s3 where "s3 = s\<lparr>lfsr_state := ?b, cells := (cells s)(element (samples L) a := ?v),
     aggregate_input_state := crc32_u16 (aggregate_input_state s) ?v\<rparr>"
  have e0: "element (element (samples L) a) 0 = element (samples L) a" by (simp add: element_def)
  define rest where "rest = [Suc a..<Suc a + n]"
  have head: "[a..<a + Suc n] = a # rest" by (simp add: upt_rec rest_def)
  have step: "sampler_loop L [a..<a + Suc n] (c, s) = sampler_loop L rest (crc32_u16 c ?v, s3)"
    unfolding head by (simp add: lfsr_next_def Let_def crc32_q15_def e0 s3_def)
  obtain m where m: "sampler_loop L rest (crc32_u16 c ?v, s3) =
      (crc_list (crc32_u16 c ?v) (lfsr_samples n (lfsr_state s3)),
       s3\<lparr>cells := m, lfsr_state := (lfsr_step ^^ n) (lfsr_state s3),
         aggregate_input_state := crc_list (aggregate_input_state s3) (lfsr_samples n (lfsr_state s3))\<rparr>)"
    "\<And>i. i < n \<Longrightarrow> m (element (samples L) (Suc a + i)) = lfsr_samples n (lfsr_state s3) ! i"
    "\<And>x. (\<forall>i<n. x \<noteq> element (samples L) (Suc a + i)) \<Longrightarrow> m x = cells s3 x"
    using Suc.IH [of "Suc a" "crc32_u16 c ?v" s3] Suc.prems unfolding rest_def by auto
  have apart: "element (samples L) a \<noteq> element (samples L) (Suc a + i)" if "i < n" for i
    using element_inj [of "samples L" 128 a "Suc a + i"] assms(1) Suc.prems that by auto
  have "m (element (samples L) a) = ?v" using m(3) [of "element (samples L) a"] apart by (simp add: s3_def)
  then have new: "m (element (samples L) (a + i)) = lfsr_samples (Suc n) (lfsr_state s) ! i" if "i < Suc n" for i
    using m(2) [of "i - 1"] that by (cases i) (simp_all add: s3_def)
  have old: "m x = cells s x" if x: "\<forall>i<Suc n. x \<noteq> element (samples L) (a + i)" for x
  proof -
    have "x \<noteq> element (samples L) (Suc a + i)" if "i < n" for i using x that by (auto dest: spec [of _ "Suc i"])
    moreover have "x \<noteq> element (samples L) a" using x by (auto dest: spec [of _ 0])
    ultimately show ?thesis using m(3) [of x] by (simp add: s3_def)
  qed
  show ?case
    unfolding step m(1) using new old by (intro exI [of _ m]) (simp add: s3_def funpow_swap1)
qed

section \<open>Outputs\<close>

definition fir_outputs :: "u16 list \<Rightarrow> u16 list" where
  "fir_outputs xs = map (\<lambda>j. word_of_int (q15_output (\<Sum>t<16. sint (xs ! (j + t)) * sint (coefficients ! t)))) [0..<113]"

text \<open>Every build of the filter is the reference.\<close>

definition documented_impl :: "dsp_instructions option \<Rightarrow> bool" where
  "documented_impl impl \<longleftrightarrow> (\<forall>D. impl = Some D \<longrightarrow> adds_lane_products (SMLALD D) \<and> saturates_16 (SSAT D))"

lemma signal_fir_reference: "documented_impl impl \<Longrightarrow> signal_fir impl = fir_reference"
  by (auto simp: signal_fir_def documented_impl_def fun_eq_iff scalar_reference m4_reference split: option.split)

lemma fir_outputs_effect:
  assumes "lab_image_ok L" and "coefficients_loaded L m" and "read_array m (samples L) 128 = xs"
  shows "\<exists>m'. fir_reference (samples L) SAMPLE_COUNT (coefficients_array L) TAP_COUNT (outputs L) VALID_OUTPUT_COUNT m =
      (AYMOS_FIR_Q15_OK, m') \<and> read_array m' (outputs L) 113 = fir_outputs xs \<and>
    read_array m' (samples L) 128 = xs \<and> coefficients_loaded L m'"
proof -
  define m' where "m' = filtered (samples L) (coefficients_array L) 16 (outputs L) 113 m"
  note ok = assms(1) [unfolded lab_image_ok_def]
  have run: "fir_reference (samples L) SAMPLE_COUNT (coefficients_array L) TAP_COUNT (outputs L) VALID_OUTPUT_COUNT m =
      (AYMOS_FIR_Q15_OK, m')"
    by (simp add: fir_reference_def lab_call_valid [OF assms(1)] m'_def)
  have xs: "m (element (samples L) i) = xs ! i" if "i < 128" for i
    using assms(3) that by (auto simp: read_array_def)
  have dot: "dot m (samples L) (coefficients_array L) j 16 = (\<Sum>t<16. sint (xs ! (j + t)) * sint (coefficients ! t))"
    if "j < 113" for j
    unfolding dot_def using that assms(2) by (intro sum.cong) (auto simp: xs coefficients_loaded_def)
  have out: "m' (element (outputs L) j) = fir_outputs xs ! j" if "j < 113" for j
    using element_offset [of "outputs L" 113 j] ok that
    by (simp add: m'_def filtered_def Let_def dot fir_outputs_def)
  have other: "m' x = m x" if "\<forall>j<113. x \<noteq> element (outputs L) j" for x
  proof -
    have "\<not> (even (unat (x - outputs L)) \<and> unat (x - outputs L) div 2 < 113)"
      using element_of_offset [of x "outputs L"] that by auto
    then show ?thesis unfolding m'_def filtered_def Let_def by (rule if_not_P)
  qed
  have "m' (element (samples L) i) = m (element (samples L) i)" if "i < 128" for i
    by (rule other) (use element_apart [of "samples L" 128 "outputs L" 113 i] ok that in auto)
  moreover have "m' (element (coefficients_array L) t) = m (element (coefficients_array L) t)" if "t < 16" for t
    by (rule other) (use element_apart [of "coefficients_array L" 16 "outputs L" 113 t] ok that in auto)
  ultimately have "read_array m' (samples L) 128 = xs" "coefficients_loaded L m'"
    using assms(2,3) by (auto simp: read_array_def coefficients_loaded_def)
  moreover have "read_array m' (outputs L) 113 = fir_outputs xs"
    by (rule nth_equalityI) (auto simp: read_array_def fir_outputs_def out)
  ultimately show ?thesis using run by blast
qed

end
