(* ===== verification/Signal_Eval.thy ===== *)
theory Signal_Eval
  imports Signal_Data
begin

text \<open>
  The signal workload evaluated: the shift register, the checksum and the filter on integers, in a
  form that the simplifier computes with, and with it the checksums that the source states as
  constants.
\<close>

section \<open>The checksum takes a sample in one go\<close>

lemma crc32_byte_bit_same: "crc32_byte_bit = crc32_bit"
  by (simp add: fun_eq_iff crc32_byte_bit_def crc32_bit_def)

lemma signal_crc32_byte_same: "signal_crc32_byte = crc32_byte"
  by (simp add: fun_eq_iff signal_crc32_byte_def crc32_byte_def crc32_byte_bit_same)

lemma crc_bit_cases: "crc32_byte_bit c = (if odd c then drop_bit 1 c XOR 0xEDB88320 else drop_bit 1 c)"
  by (simp add: crc32_byte_bit_def Let_def and_one_eq odd_iff_mod_2_eq_one even_iff_mod_2_eq_zero)

lemma crc_bit_xor: "crc32_byte_bit (a XOR b) = crc32_byte_bit a XOR crc32_byte_bit b"
  by (auto simp: crc_bit_cases xor_self_eq ac_simps even_xor_iff drop_bit_xor)

lemma crc_bits_xor: "(crc32_byte_bit ^^ n) (a XOR b) = (crc32_byte_bit ^^ n) a XOR (crc32_byte_bit ^^ n) b"
  by (induction n arbitrary: a b) (simp_all add: funpow_swap1 crc_bit_xor)

lemma crc_bits_shift: "n \<le> 8 \<Longrightarrow> (crc32_byte_bit ^^ n) (push_bit n (ucast (b :: u8))) = ucast b"
proof (induction n)
  case (Suc n)
  have "drop_bit 1 (push_bit (Suc n) (ucast b :: u32)) = push_bit n (ucast b)"
    using Suc.prems by (intro bit_word_eqI) (auto simp: bit_simps simp del: push_bit_Suc dest: bit_imp_le_length)
  moreover have "even (push_bit (Suc n) (ucast b :: u32))" by simp
  ultimately have "crc32_byte_bit (push_bit (Suc n) (ucast b)) = push_bit n (ucast b)"
    unfolding crc_bit_cases by simp
  with Suc show ?case by (simp add: funpow_swap1)
qed simp

lemma crc32_u16_bits: "crc32_u16 c v = (crc32_byte_bit ^^ 16) (c XOR ucast v)"
proof -
  define lo hi :: u8 where "lo = ucast v" and "hi = ucast (drop_bit 8 v)"
  have v: "(ucast v :: u32) = ucast lo XOR push_bit 8 (ucast hi)"
    by (rule bit_word_eqI) (auto simp: lo_def hi_def bit_simps dest: bit_imp_le_length)
  have "crc32_u16 c v = (crc32_byte_bit ^^ 8) ((crc32_byte_bit ^^ 8) (c XOR ucast lo) XOR ucast hi)"
    by (simp add: crc32_u16_def signal_crc32_byte_def lo_def hi_def)
  also have "\<dots> = (crc32_byte_bit ^^ 8) ((crc32_byte_bit ^^ 8) ((c XOR ucast lo) XOR push_bit 8 (ucast hi)))"
    unfolding crc_bits_xor [of 8 "c XOR ucast lo" "push_bit 8 (ucast hi)"] crc_bits_shift [OF le_refl] ..
  also have "\<dots> = (crc32_byte_bit ^^ (8 + 8)) (c XOR ucast v)" by (simp only: funpow_add comp_apply v xor.assoc)
  finally show ?thesis by simp
qed

section \<open>Integers\<close>

definition lfsr_int :: "int \<Rightarrow> int" where
  "lfsr_int n = (if odd n then n div 2 XOR 0x80200003 else n div 2)"

definition crc_int :: "int \<Rightarrow> int" where
  "crc_int n = (if odd n then n div 2 XOR 0xEDB88320 else n div 2)"

definition crc16_int :: "int \<Rightarrow> int \<Rightarrow> int" where
  "crc16_int s v = (crc_int ^^ 16) (s XOR v)"

definition crc_list_int :: "int \<Rightarrow> int list \<Rightarrow> int" where
  "crc_list_int = foldl crc16_int"

fun stream_int :: "nat \<Rightarrow> int \<Rightarrow> int list" where
  "stream_int 0 s = []"
| "stream_int (Suc n) s = take_bit 16 (lfsr_int s) # stream_int n (lfsr_int s)"

definition signed16 :: "int \<Rightarrow> int" where
  "signed16 v = (if v < 32768 then v else v - 65536)"

definition scale_int :: "int \<Rightarrow> int" where
  "scale_int x = (let q = (if x < 0 then - drop_bit 15 (- x) else drop_bit 15 x);
     r = max (- 32768) (min 32767 q) in if r < 0 then r + 65536 else r)"

text \<open>The window at the head of the list.\<close>

definition window_int :: "int list \<Rightarrow> int" where
  "window_int xs = (\<Sum>t<16. xs ! t * sint (coefficients ! t))"

fun fir_int :: "nat \<Rightarrow> int list \<Rightarrow> int list" where
  "fir_int 0 xs = []"
| "fir_int (Suc n) xs = scale_int (window_int xs) # fir_int n (tl xs)"

lemma uint_shift: "uint (drop_bit 1 (w :: u32)) = uint w div 2" "even w \<longleftrightarrow> even (uint w)"
proof -
  show "uint (drop_bit 1 w) = uint w div 2" by (simp add: drop_bit_Suc uint_div)
  have "bit w 0 \<longleftrightarrow> bit (uint w) 0" by (simp add: bit_uint_iff)
  then show "even w \<longleftrightarrow> even (uint w)" by (simp add: bit_0)
qed

lemma uint_lfsr: "uint (lfsr_step w) = lfsr_int (uint w)"
proof -
  have "lfsr_step w = (if odd w then drop_bit 1 w XOR 0x80200003 else drop_bit 1 w)"
    by (simp add: lfsr_step_def Let_def and_one_eq odd_iff_mod_2_eq_one even_iff_mod_2_eq_zero)
  then show ?thesis
    by (simp only: lfsr_int_def unsigned_xor_eq uint_shift if_distrib [of uint] uint_numeral) simp
qed

lemma uint_crc_bit: "uint (crc32_byte_bit c) = crc_int (uint c)"
  by (simp only: crc_bit_cases crc_int_def unsigned_xor_eq uint_shift if_distrib [of uint] uint_numeral) simp

lemma uint_crc_bits: "uint ((crc32_byte_bit ^^ n) c) = (crc_int ^^ n) (uint c)"
  by (induction n) (simp_all add: uint_crc_bit)

lemma uint_crc16: "uint (crc32_u16 c v) = crc16_int (uint c) (uint v)"
  by (simp add: crc32_u16_bits uint_crc_bits crc16_int_def unsigned_xor_eq uint_up_ucast is_up)

lemma uint_crc_list: "uint (crc_list c xs) = crc_list_int (uint c) (map uint xs)"
  by (induction xs arbitrary: c) (simp_all add: crc_list_int_def uint_crc16)

lemma signed_sample_same: "signed_sample b = b"
proof -
  have "word_of_int (- 1 - uint (UINT16_MAX - b)) = (- 1 - (UINT16_MAX - b) :: u16)" by simp
  then show ?thesis by (simp add: signed_sample_def)
qed

lemma uint_samples: "map uint (lfsr_samples n s) = stream_int n (uint s)"
  by (induction n arbitrary: s) (simp_all add: signed_sample_same uint_lfsr [symmetric] unsigned_ucast_eq)

lemma sint_signed16: "sint (v :: u16) = signed16 (uint v)"
  by (auto simp: sint16_cases signed16_def)

lemma uint_scale: "uint (word_of_int (q15_output x) :: u16) = scale_int x"
proof -
  define q where "q = q15_output x"
  have q: "- 32768 \<le> q" "q \<le> 32767" by (simp_all add: q_def q15_output_def)
  have "x sdiv 32768 = (if x < 0 then - drop_bit 15 (- x) else drop_bit 15 x)"
    by (simp add: signed_divide_int_def drop_bit_eq_div abs_if sgn_if)
  then have "scale_int x = (let r = q in if r < 0 then r + 65536 else r)"
    unfolding scale_int_def q_def q15_output_def by (simp only: Let_def)
  then have "scale_int x = (if q < 0 then q + 65536 else q)" by (simp only: Let_def)
  moreover have "uint (word_of_int q :: u16) = q mod 65536" by (simp add: uint_word_of_int)
  moreover have "q mod 65536 = (if q < 0 then q + 65536 else q)" using q mod_add_self2 [of q 65536] mod_pos_pos_trivial [of "q + 65536" 65536] by auto
  ultimately show ?thesis by (simp add: q_def)
qed

lemma uint_outputs:
  assumes "length xs = 128"
  shows "map uint (fir_outputs xs) = fir_int 113 (map signed16 (map uint xs))"
proof -
  have windows: "fir_int n ys = map (\<lambda>j. scale_int (window_int (drop j ys))) [0..<n]" for n ys
  proof (induction n arbitrary: ys)
    case (Suc n)
    have "map f [0..<Suc n] = f 0 # map (\<lambda>j. f (Suc j)) [0..<n]" for f :: "nat \<Rightarrow> int"
      by (simp add: upt_conv_Cons map_Suc_upt [symmetric] comp_def del: upt_Suc)
    then show ?case by (simp add: Suc.IH drop_Suc del: upt_Suc)
  qed simp
  have "uint (fir_outputs xs ! j) = scale_int (window_int (drop j (map signed16 (map uint xs))))" if "j < 113" for j
  proof -
    have "(\<Sum>t<16. sint (xs ! (j + t)) * sint (coefficients ! t)) = window_int (drop j (map signed16 (map uint xs)))"
      unfolding window_int_def using that assms by (intro sum.cong) (simp_all add: sint_signed16)
    with that show ?thesis by (simp add: fir_outputs_def uint_scale)
  qed
  then show ?thesis unfolding windows by (intro nth_equalityI) (simp_all add: fir_outputs_def)
qed

section \<open>Rules to compute with\<close>

definition emit_int :: "int \<Rightarrow> nat \<Rightarrow> int list" where
  "emit_int s n = take_bit 16 s # stream_int n s"

lemma stream_int_numeral: "stream_int (numeral k) s = emit_int (lfsr_int s) (pred_numeral k)"
  by (simp add: emit_int_def numeral_eq_Suc)

lemma lfsr_int_numeral:
  "lfsr_int (numeral (Num.Bit0 k)) = numeral k" "lfsr_int (numeral (Num.Bit1 k)) = numeral k XOR 0x80200003"
  by (simp_all add: lfsr_int_def)

lemma crc_int_numeral:
  "crc_int (numeral (Num.Bit0 k)) = numeral k" "crc_int (numeral (Num.Bit1 k)) = numeral k XOR 0xEDB88320"
  by (simp_all add: crc_int_def)

lemma crc16_int_steps:
  "crc16_int s v = crc_int (crc_int (crc_int (crc_int (crc_int (crc_int (crc_int (crc_int
     (crc_int (crc_int (crc_int (crc_int (crc_int (crc_int (crc_int (crc_int (s XOR v))))))))))))))))"
  by (simp add: crc16_int_def eval_nat_numeral)

lemma xor_numeral_int:
  "(numeral m :: int) XOR numeral n = (case xor_num m n of None \<Rightarrow> 0 | Some q \<Rightarrow> numeral q)"
  "(numeral m :: int) XOR 0 = numeral m" "(numeral m :: int) XOR 1 = (numeral m :: int) XOR numeral Num.One"
  by (simp_all add: numeral_xor_num)

lemma take_16_numeral:
  "take_bit 16 (numeral m :: int) = (case take_bit_num 16 m of None \<Rightarrow> 0 | Some q \<Rightarrow> numeral q)"
  by (simp add: take_bit_numeral_numeral)

lemma signed16_numeral:
  "signed16 (numeral m) = (if (numeral m :: int) < 32768 then numeral m else numeral m - 65536)" "signed16 0 = 0"
  by (simp_all add: signed16_def)

lemma window_int_16:
  "window_int (x0 # x1 # x2 # x3 # x4 # x5 # x6 # x7 # x8 # x9 # x10 # x11 # x12 # x13 # x14 # x15 # r) =
     x0 * - 128 + (x1 * - 256 + (x2 * - 256 + (x3 * 256 + (x4 * 1280 + (x5 * 3072 + (x6 * 5120 + (x7 * 7296 +
     (x8 * 7296 + (x9 * 5120 + (x10 * 3072 + (x11 * 1280 + (x12 * 256 + (x13 * - 256 + (x14 * - 256 + x15 * - 128))))))))))))))"
  by (simp add: window_int_def coefficients_def eval_nat_numeral lessThan_Suc)

lemma fir_int_numeral:
  "fir_int (numeral k) (x0 # x1 # x2 # x3 # x4 # x5 # x6 # x7 # x8 # x9 # x10 # x11 # x12 # x13 # x14 # x15 # r) =
     scale_int (x0 * - 128 + (x1 * - 256 + (x2 * - 256 + (x3 * 256 + (x4 * 1280 + (x5 * 3072 + (x6 * 5120 + (x7 * 7296 +
     (x8 * 7296 + (x9 * 5120 + (x10 * 3072 + (x11 * 1280 + (x12 * 256 + (x13 * - 256 + (x14 * - 256 + x15 * - 128))))))))))))))) #
     fir_int (pred_numeral k) (x1 # x2 # x3 # x4 # x5 # x6 # x7 # x8 # x9 # x10 # x11 # x12 # x13 # x14 # x15 # r)"
  by (simp add: numeral_eq_Suc [of k] window_int_16)

lemma scale_int_numeral:
  "scale_int (numeral m) = (let q = drop_bit 15 (numeral m) in if q < 32767 then q else 32767)"
  "scale_int (- numeral m) = (let q = drop_bit 15 (numeral m) in
     if q = 0 then 0 else if q < 32768 then 65536 - q else 32768)"
  "scale_int 0 = 0"
proof -
  define q where "q = drop_bit 15 (numeral m :: int)"
  then have pos: "0 \<le> q" by simp
  show "scale_int (numeral m) = (let q = drop_bit 15 (numeral m) in if q < 32767 then q else 32767)"
    using pos by (simp add: scale_int_def Let_def min_def max_def flip: q_def)
  show "scale_int (- numeral m) = (let q = drop_bit 15 (numeral m) in
     if q = 0 then 0 else if q < 32768 then 65536 - q else 32768)"
    using pos by (auto simp: scale_int_def Let_def min_def max_def simp flip: q_def)
  show "scale_int 0 = 0" by (simp add: scale_int_def)
qed

lemma drop_numeral_int:
  "drop_bit (numeral l) (numeral (Num.Bit0 k) :: int) = drop_bit (pred_numeral l) (numeral k)"
  "drop_bit (numeral l) (numeral (Num.Bit1 k) :: int) = drop_bit (pred_numeral l) (numeral k)"
  "drop_bit (numeral l) (numeral Num.One :: int) = 0"
  "drop_bit 0 (numeral k :: int) = numeral k"
  "drop_bit n 0 = (0 :: int)"
  by (simp_all add: drop_bit_numeral_bit0 drop_bit_numeral_bit1 numeral_eq_Suc [of l] drop_bit_Suc)

lemmas stream_eval = stream_int_numeral stream_int.simps(1) emit_int_def lfsr_int_numeral xor_numeral_int
  take_16_numeral take_bit_num_simps xor_num.simps option.case option.map pred_numeral_simps

lemmas crc_eval = crc_list_int_def foldl_Cons foldl_Nil crc16_int_steps crc_int_numeral

lemmas fir_eval = list.map signed16_numeral fir_int_numeral fir_int.simps(1) scale_int_numeral Let_def
  arith_simps rel_simps if_True if_False drop_numeral_int

lemma lfsr_end_numeral:
  "(lfsr_int ^^ numeral k) s = (lfsr_int ^^ pred_numeral k) (lfsr_int s)"
  by (simp add: numeral_eq_Suc funpow_swap1)

lemmas end_eval = lfsr_end_numeral lfsr_int_numeral xor_numeral_int xor_num.simps option.case option.map
  pred_numeral_simps BitM.simps funpow.simps(1) id_apply

section \<open>The four frames\<close>

text \<open>The running value of a checksum is the complement of the checksum.\<close>

lemma frame_0_int:
  "(lfsr_int ^^ 128) 0x1A2B3C4D = 0x2EF25275"
  "crc_list_int 0xFFFFFFFF (stream_int 128 0x1A2B3C4D) = 0x8CF523F6"
  "crc_list_int 0xFFFFFFFF (fir_int 113 (map signed16 (stream_int 128 0x1A2B3C4D))) = 0xB3D3793D"
  by (simp only: end_eval, (simp only: stream_eval crc_eval fir_eval)+)

lemma frame_1_int:
  "(lfsr_int ^^ 128) 0x2EF25275 = 0xEC4AC803"
  "crc_list_int 0xFFFFFFFF (stream_int 128 0x2EF25275) = 0xAE92E093"
  "crc_list_int 0x8CF523F6 (stream_int 128 0x2EF25275) = 0x2798DA33"
  "crc_list_int 0xFFFFFFFF (fir_int 113 (map signed16 (stream_int 128 0x2EF25275))) = 0xF2EF7D9D"
  "crc_list_int 0xB3D3793D (fir_int 113 (map signed16 (stream_int 128 0x2EF25275))) = 0x4C22C844"
  by (simp only: end_eval, (simp only: stream_eval crc_eval fir_eval)+)

lemma frame_2_int:
  "(lfsr_int ^^ 128) 0xEC4AC803 = 0xD0D417BC"
  "crc_list_int 0xFFFFFFFF (stream_int 128 0xEC4AC803) = 0x4B553BC8"
  "crc_list_int 0x2798DA33 (stream_int 128 0xEC4AC803) = 0xB3D46940"
  "crc_list_int 0xFFFFFFFF (fir_int 113 (map signed16 (stream_int 128 0xEC4AC803))) = 0x9A9BD126"
  "crc_list_int 0x4C22C844 (fir_int 113 (map signed16 (stream_int 128 0xEC4AC803))) = 0xC15289D3"
  by (simp only: end_eval, (simp only: stream_eval crc_eval fir_eval)+)

lemma frame_3_int:
  "(lfsr_int ^^ 128) 0xD0D417BC = 0x38FE235E"
  "crc_list_int 0xFFFFFFFF (stream_int 128 0xD0D417BC) = 0xDBE2456A"
  "crc_list_int 0xB3D46940 (stream_int 128 0xD0D417BC) = 0xF3508D02"
  "crc_list_int 0xFFFFFFFF (fir_int 113 (map signed16 (stream_int 128 0xD0D417BC))) = 0xB96480E5"
  "crc_list_int 0xC15289D3 (fir_int 113 (map signed16 (stream_int 128 0xD0D417BC))) = 0x503D883E"
  by (simp only: end_eval, (simp only: stream_eval crc_eval fir_eval)+)

definition frame_start :: "nat \<Rightarrow> u32" where
  "frame_start f = (lfsr_step ^^ (128 * f)) SIGNAL_SEED"

definition frame_samples :: "nat \<Rightarrow> u16 list" where
  "frame_samples f = lfsr_samples 128 (frame_start f)"

definition frame_outputs :: "nat \<Rightarrow> u16 list" where
  "frame_outputs f = fir_outputs (frame_samples f)"

text \<open>The running checksums over the first frames.\<close>

definition input_state :: "nat \<Rightarrow> u32" where
  "input_state n = crc_list UINT32_MAX (concat (map frame_samples [0..<n]))"

definition output_state :: "nat \<Rightarrow> u32" where
  "output_state n = crc_list UINT32_MAX (concat (map frame_outputs [0..<n]))"

lemma running_states:
  "input_state 0 = UINT32_MAX" "input_state (Suc n) = crc_list (input_state n) (frame_samples n)"
  "output_state 0 = UINT32_MAX" "output_state (Suc n) = crc_list (output_state n) (frame_outputs n)"
  by (simp_all add: input_state_def output_state_def)

lemma frame_start_Suc: "frame_start (Suc f) = (lfsr_step ^^ 128) (frame_start f)"
  by (simp only: frame_start_def mult_Suc_right funpow_add comp_apply)

lemma uint_lfsr_end: "uint ((lfsr_step ^^ n) w) = (lfsr_int ^^ n) (uint w)"
  by (induction n) (simp_all add: uint_lfsr)

lemma frame_starts: "frame_start 0 = 0x1A2B3C4D" "frame_start 1 = 0x2EF25275" "frame_start 2 = 0xEC4AC803"
  "frame_start 3 = 0xD0D417BC"
proof -
  have step: "frame_start n = v" if "frame_start f = u" "(lfsr_int ^^ 128) (uint u) = uint v" "n = Suc f" for f n u v
    using that by (simp only: frame_start_Suc word_uint_eq_iff uint_lfsr_end)
  show s0: "frame_start 0 = 0x1A2B3C4D" by (simp add: frame_start_def)
  show s1: "frame_start 1 = 0x2EF25275" by (rule step [OF s0]) (simp_all add: frame_0_int)
  show s2: "frame_start 2 = 0xEC4AC803" by (rule step [OF s1]) (simp_all add: frame_1_int)
  show "frame_start 3 = 0xD0D417BC" by (rule step [OF s2]) (simp_all add: frame_2_int)
qed

lemma crc_of_ints:
  "map uint xs = ys \<Longrightarrow> crc_list_int (uint c) ys = uint d \<Longrightarrow> crc_list c xs = d"
  by (simp add: word_uint_eq_iff uint_crc_list)

lemma frame_ints: "map uint (frame_samples f) = stream_int 128 (uint (frame_start f))"
  "map uint (frame_outputs f) = fir_int 113 (map signed16 (stream_int 128 (uint (frame_start f))))"
  by (simp_all add: frame_samples_def frame_outputs_def uint_outputs uint_samples)

lemma input_states: "input_state 1 = 0x8CF523F6" "input_state 2 = 0x2798DA33" "input_state 3 = 0xB3D46940"
  "input_state 4 = 0xF3508D02"
proof -
  have step: "input_state k = d"
    if "input_state n = c" "frame_start n = s" "crc_list_int (uint c) (stream_int 128 (uint s)) = uint d" "k = Suc n"
    for n k c d s
    unfolding that(4) running_states that(1) by (rule crc_of_ints [OF frame_ints(1)]) (simp only: that)
  show i1: "input_state 1 = 0x8CF523F6"
    by (rule step [OF running_states(1) frame_starts(1)]) (simp_all add: frame_0_int)
  show i2: "input_state 2 = 0x2798DA33" by (rule step [OF i1 frame_starts(2)]) (simp_all add: frame_1_int)
  show i3: "input_state 3 = 0xB3D46940" by (rule step [OF i2 frame_starts(3)]) (simp_all add: frame_2_int)
  show "input_state 4 = 0xF3508D02" by (rule step [OF i3 frame_starts(4)]) (simp_all add: frame_3_int)
qed

lemma output_states: "output_state 1 = 0xB3D3793D" "output_state 2 = 0x4C22C844" "output_state 3 = 0xC15289D3"
  "output_state 4 = 0x503D883E"
proof -
  have step: "output_state k = d"
    if "output_state n = c" "frame_start n = s"
      "crc_list_int (uint c) (fir_int 113 (map signed16 (stream_int 128 (uint s)))) = uint d" "k = Suc n"
    for n k c d s
    unfolding that(4) running_states that(1) by (rule crc_of_ints [OF frame_ints(2)]) (simp only: that)
  show i1: "output_state 1 = 0xB3D3793D"
    by (rule step [OF running_states(3) frame_starts(1)]) (simp_all add: frame_0_int)
  show i2: "output_state 2 = 0x4C22C844" by (rule step [OF i1 frame_starts(2)]) (simp_all add: frame_1_int)
  show i3: "output_state 3 = 0xC15289D3" by (rule step [OF i2 frame_starts(3)]) (simp_all add: frame_2_int)
  show "output_state 4 = 0x503D883E" by (rule step [OF i3 frame_starts(4)]) (simp_all add: frame_3_int)
qed

text \<open>The constants of the source are the checksums of these frames.\<close>

lemma frame_checksums:
  "crc_list UINT32_MAX (frame_samples 0) = 0x8CF523F6"
  "crc_list UINT32_MAX (frame_samples 1) = 0xAE92E093"
  "crc_list UINT32_MAX (frame_samples 2) = 0x4B553BC8"
  "crc_list UINT32_MAX (frame_samples 3) = 0xDBE2456A"
  "crc_list UINT32_MAX (frame_outputs 0) = 0xB3D3793D"
  "crc_list UINT32_MAX (frame_outputs 1) = 0xF2EF7D9D"
  "crc_list UINT32_MAX (frame_outputs 2) = 0x9A9BD126"
  "crc_list UINT32_MAX (frame_outputs 3) = 0xB96480E5"
proof -
  have sums: "crc_list UINT32_MAX (frame_samples n) = d"
    if "frame_start n = s" "crc_list_int 0xFFFFFFFF (stream_int 128 (uint s)) = uint d" for n d s
    by (rule crc_of_ints [OF frame_ints(1)]) (simp add: that)
  show "crc_list UINT32_MAX (frame_samples 0) = 0x8CF523F6" by (rule sums [OF frame_starts(1)]) (simp add: frame_0_int)
  show "crc_list UINT32_MAX (frame_samples 1) = 0xAE92E093" by (rule sums [OF frame_starts(2)]) (simp add: frame_1_int)
  show "crc_list UINT32_MAX (frame_samples 2) = 0x4B553BC8" by (rule sums [OF frame_starts(3)]) (simp add: frame_2_int)
  show "crc_list UINT32_MAX (frame_samples 3) = 0xDBE2456A" by (rule sums [OF frame_starts(4)]) (simp add: frame_3_int)
  have outs: "crc_list UINT32_MAX (frame_outputs n) = d"
    if "frame_start n = s" "crc_list_int 0xFFFFFFFF (fir_int 113 (map signed16 (stream_int 128 (uint s)))) = uint d"
    for n d s
    by (rule crc_of_ints [OF frame_ints(2)]) (simp add: that)
  show "crc_list UINT32_MAX (frame_outputs 0) = 0xB3D3793D" by (rule outs [OF frame_starts(1)]) (simp add: frame_0_int)
  show "crc_list UINT32_MAX (frame_outputs 1) = 0xF2EF7D9D" by (rule outs [OF frame_starts(2)]) (simp add: frame_1_int)
  show "crc_list UINT32_MAX (frame_outputs 2) = 0x9A9BD126" by (rule outs [OF frame_starts(3)]) (simp add: frame_2_int)
  show "crc_list UINT32_MAX (frame_outputs 3) = 0xB96480E5" by (rule outs [OF frame_starts(4)]) (simp add: frame_3_int)
qed

lemma expected_checksums:
  assumes "f < 4"
  shows "NOT (crc_list UINT32_MAX (frame_samples f)) = expected_frame_input_crc ! f"
    "NOT (crc_list UINT32_MAX (frame_outputs f)) = expected_frame_output_crc ! f"
proof -
  have "f \<in> {0, 1, 2, 3}" using assms by auto
  then show "NOT (crc_list UINT32_MAX (frame_samples f)) = expected_frame_input_crc ! f"
    "NOT (crc_list UINT32_MAX (frame_outputs f)) = expected_frame_output_crc ! f"
    by (auto simp: frame_checksums frame_checksums(2,6) [unfolded One_nat_def] expected_frame_input_crc_def expected_frame_output_crc_def)
qed

lemma expected_aggregates: "NOT (input_state 4) = EXPECTED_INPUT_CRC" "NOT (output_state 4) = EXPECTED_OUTPUT_CRC"
  by (simp_all add: input_states output_states)

end
