(* ===== verification/Signal_Runs.thy ===== *)
theory Signal_Runs
  imports Signal_Eval Kernel_Context
begin

text \<open>
  The invariant of the signal workload over any order of its tasks: the checksums, the shift register
  and the arrays are those of the frames that the generation counters say are done, and each counter is
  where its task is.
\<close>

section \<open>The invariant\<close>

definition generations_ok :: "signal_lab \<Rightarrow> bool" where
  "generations_ok s \<longleftrightarrow> verified_generation s \<le> processed_generation s \<and>
     processed_generation s \<le> sampled_generation s \<and> sampled_generation s \<le> FRAME_COUNT \<and>
     unat (sampled_generation s) \<le> unat (verified_generation s) + 1"

definition lab_data_ok :: "lab_image \<Rightarrow> signal_lab \<Rightarrow> bool" where
  "lab_data_ok L s \<longleftrightarrow> (let n = unat (sampled_generation s); p = unat (processed_generation s) in
     length (frame_input_crc s) = 4 \<and> length (frame_output_crc s) = 4 \<and>
     (\<forall>f<n. frame_input_crc s ! f = NOT (crc_list UINT32_MAX (frame_samples f))) \<and>
     (\<forall>f<p. frame_output_crc s ! f = NOT (crc_list UINT32_MAX (frame_outputs f))) \<and>
     lfsr_state s = frame_start n \<and>
     aggregate_input_state s = input_state n \<and> aggregate_output_state s = output_state p \<and>
     coefficients_loaded L (cells s) \<and>
     (0 < n \<longrightarrow> read_array (cells s) (samples L) 128 = frame_samples (n - 1)) \<and>
     (0 < p \<longrightarrow> read_array (cells s) (outputs L) 113 = frame_outputs (p - 1)))"

text \<open>The generation that a task has written when it is at a point, and the points that exist.\<close>

fun frames_done :: "point \<Rightarrow> u32" where
  "frames_done Entry = 0"
| "frames_done (Frame frame) = frame"
| "frames_done (Executing frame) = frame + 1"
| "frames_done (Waiting frame) = frame + 1"
| "frames_done Returned = FRAME_COUNT"

fun point_ok :: "point \<Rightarrow> bool" where
  "point_ok (Frame frame) \<longleftrightarrow> frame < FRAME_COUNT"
| "point_ok (Executing frame) \<longleftrightarrow> frame < FRAME_COUNT"
| "point_ok (Waiting frame) \<longleftrightarrow> frame < FRAME_COUNT - 1"
| "point_ok _ \<longleftrightarrow> True"

definition places_ok :: "lab_state \<Rightarrow> bool" where
  "places_ok c \<longleftrightarrow> (case c of (at, s) \<Rightarrow>
     point_ok (at TASK_SAMPLER) \<and> sampled_generation s = frames_done (at TASK_SAMPLER) \<and>
     (sampler_finished s \<longleftrightarrow> at TASK_SAMPLER = Returned) \<and>
     point_ok (at TASK_PROCESSOR) \<and> processed_generation s = frames_done (at TASK_PROCESSOR) \<and>
     (processor_finished s \<longleftrightarrow> at TASK_PROCESSOR = Returned) \<and>
     point_ok (at TASK_VERIFIER) \<and> verified_generation s = frames_done (at TASK_VERIFIER) \<and>
     (verifier_finished s \<longleftrightarrow> at TASK_VERIFIER = Returned) \<and> \<not> trace_flushed s)"

definition lab_inv :: "lab_image \<Rightarrow> lab_state \<Rightarrow> bool" where
  "lab_inv L c \<longleftrightarrow> generations_ok (snd c) \<and> lab_data_ok L (snd c) \<and> places_ok c"

lemma lab_start_inv: "coefficients_loaded L m \<Longrightarrow> lab_inv L (lab_start m)"
  by (simp add: lab_inv_def lab_start_def signal_lab_start_def generations_ok_def lab_data_ok_def places_ok_def
      frame_start_def running_states)

section \<open>The frames\<close>

lemma next_frame: "frame < FRAME_COUNT \<Longrightarrow> unat (frame + 1) = Suc (unat frame)" "frame < FRAME_COUNT \<Longrightarrow> frame + 1 \<le> FRAME_COUNT"
  "frame < FRAME_COUNT \<Longrightarrow> frame \<le> frame + 1" "frame < FRAME_COUNT \<Longrightarrow> unat frame < 4"
  by (simp_all add: word_le_nat_alt word_less_nat_alt unat_add32)

lemma read_array_other:
  assumes "\<And>i. i < n \<Longrightarrow> m' (element at i) = m (element at i)"
  shows "read_array m' at n = read_array m at n"
  using assms by (simp add: read_array_def)

lemma nth_update_less: "f < Suc n \<Longrightarrow> n < length xs \<Longrightarrow> xs[n := v] ! f = (if f = n then v else xs ! f)"
  by simp

lemma sampler_frame_effect:
  assumes "lab_image_ok L" and "lab_data_ok L s" and "frame < FRAME_COUNT"
    and at: "sampled_generation s = frame" "processed_generation s = frame" "verified_generation s = frame"
  shows "\<exists>s'. sampler_frame L frame s = Inr s' \<and> lab_data_ok L s' \<and> sampled_generation s' = frame + 1 \<and>
    processed_generation s' = frame \<and> verified_generation s' = frame \<and> sampler_finished s' = sampler_finished s \<and>
    processor_finished s' = processor_finished s \<and> verifier_finished s' = verifier_finished s \<and>
    trace_flushed s' = trace_flushed s"
proof -
  define n where "n = unat frame"
  define xs where "xs = lfsr_samples 128 (lfsr_state s)"
  note ok = assms(1) [unfolded lab_image_ok_def]
  obtain m where m: "sampler_loop L [0..<128] (UINT32_MAX, s) = (crc_list UINT32_MAX xs,
       s\<lparr>cells := m, lfsr_state := (lfsr_step ^^ 128) (lfsr_state s),
         aggregate_input_state := crc_list (aggregate_input_state s) xs\<rparr>)"
    "\<And>i. i < 128 \<Longrightarrow> m (element (samples L) i) = xs ! i"
    "\<And>x. (\<forall>i<128. x \<noteq> element (samples L) i) \<Longrightarrow> m x = cells s x"
    using sampler_loop_effect [of L 0 128 UINT32_MAX s] ok unfolding xs_def by auto
  have xs: "xs = frame_samples n" using assms(2) at by (simp add: xs_def frame_samples_def lab_data_ok_def Let_def n_def)
  have n: "unat (frame + 1) = Suc n" "n < 4" using next_frame [OF assms(3)] by (simp_all add: n_def)
  have samples: "read_array m (samples L) 128 = frame_samples n"
    by (rule nth_equalityI) (auto simp: read_array_def m(2) xs frame_samples_def)
  have outputs: "read_array m (outputs L) 113 = read_array (cells s) (outputs L) 113"
    by (rule read_array_other, rule m(3)) (use element_apart [of "outputs L" 113 "samples L" 128] ok in auto)
  have coefficients: "coefficients_loaded L m"
    unfolding coefficients_loaded_def
  proof (intro allI impI)
    fix t :: nat assume t: "t < 16"
    have "m (element (coefficients_array L) t) = cells s (element (coefficients_array L) t)"
      by (rule m(3)) (use element_apart [of "coefficients_array L" 16 "samples L" 128] ok t in auto)
    then show "m (element (coefficients_array L) t) = coefficients ! t"
      using assms(2) t by (simp add: lab_data_ok_def Let_def coefficients_loaded_def)
  qed
  define s' where "s' = s\<lparr>cells := m, lfsr_state := (lfsr_step ^^ 128) (lfsr_state s),
         aggregate_input_state := crc_list (aggregate_input_state s) xs,
         frame_input_crc := (frame_input_crc s)[n := NOT (crc_list UINT32_MAX xs)], sampled_generation := frame + 1\<rparr>"
  have "sampler_frame L frame s = Inr s'"
    by (simp add: sampler_frame_def at require_def on_ok_def m(1) s'_def n_def)
  moreover have "lab_data_ok L s'"
    using assms(2) by (simp add: lab_data_ok_def Let_def s'_def n at flip: n_def)
      (auto simp: n samples outputs coefficients xs frame_start_Suc running_states nth_update_less)
  ultimately show ?thesis by (simp add: s'_def at)
qed

lemma processor_frame_effect:
  assumes "lab_image_ok L" and "documented_impl impl" and "lab_data_ok L s" and "frame < FRAME_COUNT"
    and at: "sampled_generation s = frame + 1" "processed_generation s = frame" "verified_generation s = frame"
  shows "\<exists>s'. processor_frame (signal_fir impl) L frame s = Inr s' \<and> lab_data_ok L s' \<and>
    sampled_generation s' = frame + 1 \<and> processed_generation s' = frame + 1 \<and> verified_generation s' = frame \<and>
    sampler_finished s' = sampler_finished s \<and> processor_finished s' = processor_finished s \<and>
    verifier_finished s' = verifier_finished s \<and>
    trace_flushed s' = trace_flushed s"
proof -
  define n where "n = unat frame"
  have n: "unat (frame + 1) = Suc n" "n < 4" using next_frame [OF assms(4)] by (simp_all add: n_def)
  have samples: "read_array (cells s) (samples L) 128 = frame_samples n" and coefficients: "coefficients_loaded L (cells s)"
    using assms(3) by (simp_all add: lab_data_ok_def Let_def at n)
  obtain m where m: "fir_reference (samples L) SAMPLE_COUNT (coefficients_array L) TAP_COUNT (outputs L)
      VALID_OUTPUT_COUNT (cells s) = (AYMOS_FIR_Q15_OK, m)"
    "read_array m (outputs L) 113 = frame_outputs n" "read_array m (samples L) 128 = frame_samples n" "coefficients_loaded L m"
    using fir_outputs_effect [OF assms(1) coefficients samples] by (auto simp: frame_outputs_def)
  define s' where "s' = s\<lparr>cells := m, aggregate_output_state := crc_list (aggregate_output_state s) (frame_outputs n),
     frame_output_crc := (frame_output_crc s)[n := NOT (crc_list UINT32_MAX (frame_outputs n))],
     processed_generation := frame + 1\<rparr>"
  have "processor_frame (signal_fir impl) L frame s = Inr s'"
    by (simp add: processor_frame_def at require_def on_ok_def signal_fir_reference [OF assms(2)] m crc32_q15_list
        s'_def flip: n_def)
  moreover have "lab_data_ok L s'"
    using assms(3) by (simp add: lab_data_ok_def Let_def s'_def n at flip: n_def)
      (auto simp: n m running_states nth_update_less)
  ultimately show ?thesis by (simp add: s'_def at)
qed

lemma verifier_frame_effect:
  assumes "lab_data_ok L s" and "frame < FRAME_COUNT"
    and at: "sampled_generation s = frame + 1" "processed_generation s = frame + 1" "verified_generation s = frame"
  shows "verifier_frame frame s = Inr (s\<lparr>verified_generation := frame + 1\<rparr>)"
  using assms(1) next_frame(1,4) [OF assms(2)]
  by (simp add: verifier_frame_def at require_def on_ok_def lab_data_ok_def Let_def expected_checksums)

lemma data_ok_same:
  assumes "lab_data_ok L s"
  shows "lab_data_ok L (s\<lparr>verified_generation := g\<rparr>)" "lab_data_ok L (s\<lparr>sampler_finished := b\<rparr>)"
    "lab_data_ok L (s\<lparr>processor_finished := b\<rparr>)" "lab_data_ok L (s\<lparr>verifier_finished := b\<rparr>)"
  using assms by (simp_all add: lab_data_ok_def)

lemma verify_aggregate_ok:
  assumes "lab_data_ok L s" and "sampled_generation s = FRAME_COUNT" and "processed_generation s = FRAME_COUNT"
  shows "verify_aggregate s = Inr ()"
  using assms expected_aggregates by (simp add: verify_aggregate_def require_def lab_data_ok_def Let_def)

section \<open>The tasks\<close>

lemma require_Inr [simp]: "require c r = Inr u \<longleftrightarrow> c"
  by (simp add: require_def os_kernel_panic_def)

lemma require_Inl [simp]: "require c r = Inl e \<longleftrightarrow> \<not> c \<and> e = r"
  by (auto simp: require_def os_kernel_panic_def)

lemma on_ok_Inl: "on_ok r f = Inl e \<longleftrightarrow> r = Inl e \<or> (\<exists>x. r = Inr x \<and> f x = Inl e)"
  by (cases r) simp_all

lemma frame_places:
  "frame < FRAME_COUNT \<Longrightarrow> frame + 1 \<noteq> FRAME_COUNT \<Longrightarrow> frame < 3" "frame < 3 \<Longrightarrow> frame + 1 < FRAME_COUNT"
  for frame :: u32
  by (auto simp: word_less_nat_alt word_unat_eq_iff unat_add32)

lemma frame_generations: "frame < FRAME_COUNT \<Longrightarrow> unat frame \<le> Suc (unat frame)" 
  "frame < FRAME_COUNT \<Longrightarrow> unat (frame + 1) \<le> Suc (unat frame)"
  using next_frame(1) [of frame] by simp_all

lemma sampler_task_inv:
  assumes "lab_image_ok L" and inv: "lab_inv L (at, s)" and run: "sampler_task L k (at TASK_SAMPLER) s = Inr (p, s')"
  shows "lab_inv L (at(TASK_SAMPLER := p), s')"
proof (cases "at TASK_SAMPLER")
  case (Frame frame)
  have f: "frame < FRAME_COUNT" and data: "lab_data_ok L s" and g: "sampled_generation s = frame"
    using inv Frame by (simp_all add: lab_inv_def places_ok_def)
  from run f have r: "processed_generation s = frame" "verified_generation s = frame"
    and s': "sampler_frame L frame s = Inr s'" and p: "p = Executing frame"
    by (auto simp: sampler_task_def Frame on_ok_eq_Inr sampler_frame_def)
  show ?thesis
    using sampler_frame_effect [OF assms(1) data f g r] inv f
    by (auto simp: s' p lab_inv_def places_ok_def generations_ok_def Frame r next_frame frame_generations)
qed (use inv run in \<open>auto simp: lab_inv_def places_ok_def generations_ok_def sampler_task_def task_entry_def
      next_period_def on_ok_eq_Inr frame_places data_ok_same split: if_splits\<close>)

lemma processor_task_inv:
  assumes "lab_image_ok L" and "documented_impl impl" and inv: "lab_inv L (at, s)"
    and run: "processor_task (signal_fir impl) L k (at TASK_PROCESSOR) s = Inr (p, s')"
  shows "lab_inv L (at(TASK_PROCESSOR := p), s')"
proof (cases "at TASK_PROCESSOR")
  case (Frame frame)
  have f: "frame < FRAME_COUNT" and data: "lab_data_ok L s" and g: "processed_generation s = frame"
    using inv Frame by (simp_all add: lab_inv_def places_ok_def)
  from run f have r: "sampled_generation s = frame + 1" "verified_generation s = frame"
    and s': "processor_frame (signal_fir impl) L frame s = Inr s'" and p: "p = Executing frame"
    by (auto simp: processor_task_def Frame on_ok_eq_Inr processor_frame_def)
  show ?thesis
    using processor_frame_effect [OF assms(1,2) data f r(1) g r(2)] inv f
    by (auto simp: s' p lab_inv_def places_ok_def generations_ok_def Frame r next_frame frame_generations)
qed (use inv run in \<open>auto simp: lab_inv_def places_ok_def generations_ok_def processor_task_def task_entry_def
      next_period_def on_ok_eq_Inr frame_places data_ok_same split: if_splits\<close>)

lemma verifier_task_inv:
  assumes inv: "lab_inv L (at, s)" and run: "verifier_task k (at TASK_VERIFIER) s = Inr (p, s')"
  shows "lab_inv L (at(TASK_VERIFIER := p), s')"
proof (cases "at TASK_VERIFIER")
  case (Frame frame)
  have f: "frame < FRAME_COUNT" and g: "verified_generation s = frame"
    using inv Frame by (simp_all add: lab_inv_def places_ok_def)
  from run f have r: "sampled_generation s = frame + 1" "processed_generation s = frame + 1"
    and s': "s' = s\<lparr>verified_generation := frame + 1\<rparr>" and p: "p = Executing frame"
    by (auto simp: verifier_task_def Frame on_ok_eq_Inr verifier_frame_def)
  have "generations_ok s'" using next_frame [OF f] by (simp add: generations_ok_def s' r)
  moreover have "lab_data_ok L s'" using inv by (simp add: lab_inv_def s' data_ok_same)
  moreover have "places_ok (at(TASK_VERIFIER := p), s')" using inv f by (simp add: lab_inv_def places_ok_def s' p Frame)
  ultimately show ?thesis by (simp add: lab_inv_def)
qed (use inv run in \<open>auto simp: lab_inv_def places_ok_def generations_ok_def verifier_task_def task_entry_def
      next_period_def on_ok_eq_Inr frame_places data_ok_same split: if_splits\<close>)

lemma lab_step_inv:
  assumes "lab_image_ok L" and "documented_impl impl" and "lab_inv L c"
    and "lab_step (signal_fir impl) L event c = Inr c'"
  shows "lab_inv L c'"
proof -
  obtain task k "at" s where "event = (task, k)" "c = (at, s)" by (cases event, cases c) 
  then show ?thesis
    using assms by (auto simp: lab_step_def on_ok_eq_Inr split: if_splits
        intro: sampler_task_inv processor_task_inv verifier_task_inv)
qed

lemma lab_run_inv:
  assumes "lab_image_ok L" and "documented_impl impl" and "lab_inv L c"
    and "lab_run (signal_fir impl) L events c = Inr c'"
  shows "lab_inv L c'"
  using assms(3,4)
proof (induction events arbitrary: c)
  case (Cons event later)
  from Cons.prems obtain d where d: "lab_step (signal_fir impl) L event c = Inr d"
    "lab_run (signal_fir impl) L later d = Inr c'" by (auto simp: on_ok_eq_Inr)
  show ?case by (rule Cons.IH [OF lab_step_inv [OF assms(1,2) Cons.prems(1) d(1)] d(2)])
qed simp

end
