(* ===== verification/Signal_Order.thy ===== *)
theory Signal_Order
  imports Signal_Runs
begin

text \<open>
  The three tasks of the signal workload have one shape: a loop over the frames whose body is followed
  by the wait for one execution tick and the wait for the next period. The shape is a locale; with it,
  the workload as it is meant to run: in each frame the sampler, then the processor, then the verifier,
  each with one tick of execution and no deadline miss.
\<close>

section \<open>What a task sees of the kernel\<close>

definition running_job :: "os_task_id_t \<Rightarrow> u32 \<Rightarrow> kernel \<Rightarrow> bool" where
  "running_job task ticks k \<longleftrightarrow> running k \<and> current_task k = task \<and> os_thread_uses_psp k \<and>
     kind (sched k task) = OS_TASK_PERIODIC \<and> state (sched k task) = OS_TASK_RUNNING \<and> job_active (sched k task) \<and>
     job_execution_ticks (sched k task) = ticks \<and> deadline_miss_count (sched k task) = 0"

text \<open>The states that a task finds during a frame: the job gets its tick before the last of them.\<close>

definition frame_observed :: "os_task_id_t \<Rightarrow> kernel list \<Rightarrow> bool" where
  "frame_observed task ks \<longleftrightarrow> 3 \<le> length ks \<and> (\<forall>k \<in> set (butlast ks). running_job task 0 k) \<and> running_job task 1 (last ks)"

lemma execution_round_result:
  assumes "running_job task ticks k" and "task \<in> {TASK_SAMPLER, TASK_PROCESSOR, TASK_VERIFIER}" and "ticks \<in> {0, 1}"
  shows "execution_round task k = Inr (ticks = 1)"
proof -
  have "unat task < OS_TASK_COUNT" using assms(2) by auto
  then show ?thesis
    using assms(1,3) by (auto simp: execution_round_def running_job_def os_task_info_def masked_def sched_def info_of_def require_def)
qed

lemma next_period_result: "running_job task ticks k \<Longrightarrow> task \<noteq> OS_TASK_ID_INVALID \<Longrightarrow> next_period reason frame k = Inr (Waiting frame)"
  by (simp add: next_period_def os_wait_next_period_def running_job_def require_def)

lemma task_entry_result: "running_job task ticks k \<Longrightarrow> task_entry task reason 0 k = Inr (Frame 0)"
  by (simp add: task_entry_def running_job_def os_current_task_def require_def)

section \<open>A task over one frame\<close>

definition before_frame :: "u32 \<Rightarrow> point" where
  "before_frame frame = (if frame = 0 then Entry else Waiting (frame - 1))"

definition after_frame :: "u32 \<Rightarrow> point" where
  "after_frame frame = (if frame + 1 = FRAME_COUNT then Returned else Waiting frame)"

fun rounds :: "(kernel \<Rightarrow> point \<Rightarrow> signal_lab \<Rightarrow> (point \<times> signal_lab) outcome) \<Rightarrow> kernel list \<Rightarrow>
    point \<times> signal_lab \<Rightarrow> (point \<times> signal_lab) outcome" where
  "rounds run [] c = Inr c"
| "rounds run (k # ks) c = on_ok (run k (fst c) (snd c)) (rounds run ks)"

locale framed_task =
  fixes task :: os_task_id_t
    and run :: "kernel \<Rightarrow> point \<Rightarrow> signal_lab \<Rightarrow> (point \<times> signal_lab) outcome"
    and body :: "u32 \<Rightarrow> signal_lab \<Rightarrow> signal_lab outcome"
    and finish :: "signal_lab \<Rightarrow> signal_lab outcome"
  assumes entry: "running_job task 0 k \<Longrightarrow> run k Entry s = Inr (Frame 0, s)"
    and again: "run k (Waiting frame) s = Inr (Frame (frame + 1), s)"
    and frame: "frame < FRAME_COUNT \<Longrightarrow> run k (Frame frame) s = on_ok (body frame s) (\<lambda>s. Inr (Executing frame, s))"
    and idle: "running_job task 0 k \<Longrightarrow> run k (Executing frame) s = Inr (Executing frame, s)"
    and ticked: "running_job task 1 k \<Longrightarrow> run k (Executing frame) s =
      (if frame + 1 = FRAME_COUNT then on_ok (finish s) (\<lambda>s. Inr (Returned, s)) else Inr (Waiting frame, s))"
begin

lemma starts: "running_job task 0 k \<Longrightarrow> run k (before_frame frame) s = Inr (Frame frame, s)"
  by (simp add: before_frame_def entry again)

lemma executes:
  assumes "\<forall>k \<in> set ks. running_job task 0 k" and "running_job task 1 k'"
  shows "rounds run (ks @ [k']) (Executing frame, s) =
    (if frame + 1 = FRAME_COUNT then on_ok (finish s) (\<lambda>s. Inr (Returned, s)) else Inr (Waiting frame, s))"
  using assms(1)
proof (induction ks)
  case Nil
  have same: "on_ok r Inr = r" for r :: "(point \<times> signal_lab) outcome" by (cases r) simp_all
  have "rounds run [] = Inr" by (simp add: fun_eq_iff)
  then show ?case by (simp add: ticked [OF assms(2)] same)
qed (simp add: idle)

lemma whole_frame:
  assumes "frame_observed task ks" and "frame < FRAME_COUNT" and "body frame s = Inr s'"
    and "frame + 1 = FRAME_COUNT \<Longrightarrow> finish s' = Inr s''" and "frame + 1 \<noteq> FRAME_COUNT \<Longrightarrow> s'' = s'"
  shows "rounds run ks (before_frame frame, s) = Inr (after_frame frame, s'')"
proof -
  obtain k0 k1 ks' k' where ks: "ks = k0 # k1 # ks' @ [k']"
    using assms(1) by (cases ks rule: rev_cases) (auto simp: frame_observed_def neq_Nil_conv Suc_le_length_iff numeral_3_eq_3)
  have seen: "running_job task 0 k0" "\<forall>k \<in> set ks'. running_job task 0 k" "running_job task 1 k'"
    using assms(1) by (simp_all add: ks frame_observed_def butlast_append)
  show ?thesis
    using executes [OF seen(2,3)] assms(4,5) by (auto simp: ks starts [OF seen(1)] frame [OF assms(2)] assms(3) after_frame_def)
qed

end

section \<open>The three tasks\<close>

interpretation sampler: framed_task TASK_SAMPLER "sampler_task L" "sampler_frame L"
  "\<lambda>s. Inr (s\<lparr>sampler_finished := True\<rparr>)" for L
  by unfold_locales (simp_all add: sampler_task_def task_entry_result execution_round_result next_period_result)

interpretation processor: framed_task TASK_PROCESSOR "processor_task fir L" "processor_frame fir L"
  "\<lambda>s. Inr (s\<lparr>processor_finished := True\<rparr>)" for fir L
  by unfold_locales (simp_all add: processor_task_def task_entry_result execution_round_result next_period_result)

interpretation verifier: framed_task TASK_VERIFIER verifier_task verifier_frame
  "\<lambda>s. on_ok (verify_aggregate s) (\<lambda>_. Inr (s\<lparr>verifier_finished := True\<rparr>))"
  by unfold_locales (auto simp: verifier_task_def task_entry_result execution_round_result next_period_result on_ok_def
      split: sum.split)

lemma lab_run_append: "lab_run fir L (xs @ ys) c = on_ok (lab_run fir L xs c) (lab_run fir L ys)"
proof (induction xs arbitrary: c)
  case (Cons event xs)
  then show ?case by (cases "lab_step fir L event c") simp_all
qed simp

lemma lab_run_rounds:
  assumes "\<And>k at s. lab_step fir L (task, k) (at, s) = on_ok (run k (at task) s) (\<lambda>(p, s'). Inr (at(task := p), s'))"
  shows "lab_run fir L (map (Pair task) ks) (at, s) =
    on_ok (rounds run ks (at task, s)) (\<lambda>(p, s'). Inr (at(task := p), s'))"
proof (induction ks arbitrary: "at" s)
  case (Cons k ks)
  show ?case
  proof (cases "run k (at task) s")
    case (Inr c)
    then show ?thesis by (cases c) (simp add: assms Cons.IH fun_upd_same fun_upd_upd del: fun_upd_apply)
  qed (simp add: assms)
qed simp

lemma lab_steps:
  "lab_step fir L (TASK_SAMPLER, k) (at, s) = on_ok (sampler_task L k (at TASK_SAMPLER) s) (\<lambda>(p, s'). Inr (at(TASK_SAMPLER := p), s'))"
  "lab_step fir L (TASK_PROCESSOR, k) (at, s) =
     on_ok (processor_task fir L k (at TASK_PROCESSOR) s) (\<lambda>(p, s'). Inr (at(TASK_PROCESSOR := p), s'))"
  "lab_step fir L (TASK_VERIFIER, k) (at, s) = on_ok (verifier_task k (at TASK_VERIFIER) s) (\<lambda>(p, s'). Inr (at(TASK_VERIFIER := p), s'))"
  by (simp_all add: lab_step_def)

lemmas lab_segments = lab_run_rounds [OF lab_steps(1)] lab_run_rounds [OF lab_steps(2)] lab_run_rounds [OF lab_steps(3)]

lemma frames_done_around:
  "frames_done (before_frame frame) = frame" "frames_done (after_frame frame) = frame + 1"
  by (simp_all add: before_frame_def after_frame_def)

text \<open>A task that has done its frame where the others are: the sampler first.\<close>

lemma sampler_segment:
  assumes "lab_image_ok L" and inv: "lab_inv L (at, s)" and f: "frame < FRAME_COUNT" and "frame_observed TASK_SAMPLER ks"
    and "at TASK_SAMPLER = before_frame frame" "at TASK_PROCESSOR = before_frame frame" "at TASK_VERIFIER = before_frame frame"
  shows "\<exists>s'. lab_run fir L (map (Pair TASK_SAMPLER) ks) (at, s) = Inr (at(TASK_SAMPLER := after_frame frame), s')"
proof -
  have g: "lab_data_ok L s" "sampled_generation s = frame" "processed_generation s = frame" "verified_generation s = frame"
    using inv assms(5-7) by (simp_all add: lab_inv_def places_ok_def frames_done_around)
  obtain s1 where "sampler_frame L frame s = Inr s1" using sampler_frame_effect [OF assms(1) g(1) f g(2-4)] by blast
  then have "rounds (sampler_task L) ks (before_frame frame, s) =
      Inr (after_frame frame, if frame + 1 = FRAME_COUNT then s1\<lparr>sampler_finished := True\<rparr> else s1)"
    by (rule sampler.whole_frame [OF assms(4) f]) simp_all
  then show ?thesis by (simp add: lab_segments assms(5))
qed

lemma processor_segment:
  assumes "lab_image_ok L" and impl: "documented_impl impl" and inv: "lab_inv L (at, s)" and f: "frame < FRAME_COUNT"
    and "frame_observed TASK_PROCESSOR ks"
    and "at TASK_SAMPLER = after_frame frame" "at TASK_PROCESSOR = before_frame frame" "at TASK_VERIFIER = before_frame frame"
  shows "\<exists>s'. lab_run (signal_fir impl) L (map (Pair TASK_PROCESSOR) ks) (at, s) =
    Inr (at(TASK_PROCESSOR := after_frame frame), s')"
proof -
  have g: "lab_data_ok L s" "sampled_generation s = frame + 1" "processed_generation s = frame" "verified_generation s = frame"
    using inv assms(6-8) by (simp_all add: lab_inv_def places_ok_def frames_done_around)
  obtain s1 where "processor_frame (signal_fir impl) L frame s = Inr s1"
    using processor_frame_effect [OF assms(1) impl g(1) f g(2-4)] by blast
  then have "rounds (processor_task (signal_fir impl) L) ks (before_frame frame, s) =
      Inr (after_frame frame, if frame + 1 = FRAME_COUNT then s1\<lparr>processor_finished := True\<rparr> else s1)"
    by (rule processor.whole_frame [OF assms(5) f]) simp_all
  then show ?thesis by (simp add: lab_segments assms(7))
qed

lemma verifier_segment:
  assumes inv: "lab_inv L (at, s)" and f: "frame < FRAME_COUNT" and "frame_observed TASK_VERIFIER ks"
    and "at TASK_SAMPLER = after_frame frame" "at TASK_PROCESSOR = after_frame frame" "at TASK_VERIFIER = before_frame frame"
  shows "\<exists>s'. lab_run fir L (map (Pair TASK_VERIFIER) ks) (at, s) = Inr (at(TASK_VERIFIER := after_frame frame), s')"
proof -
  have g: "lab_data_ok L s" "sampled_generation s = frame + 1" "processed_generation s = frame + 1" "verified_generation s = frame"
    using inv assms(4-6) by (simp_all add: lab_inv_def places_ok_def frames_done_around)
  define s1 where "s1 = s\<lparr>verified_generation := frame + 1\<rparr>"
  have body: "verifier_frame frame s = Inr s1" unfolding s1_def by (rule verifier_frame_effect [OF g(1) f g(2-4)])
  have "verify_aggregate s1 = Inr ()" if "frame + 1 = FRAME_COUNT"
    using verify_aggregate_ok [of L s1] data_ok_same(1) [OF g(1)] g that by (simp add: s1_def)
  then have "rounds verifier_task ks (before_frame frame, s) =
      Inr (after_frame frame, if frame + 1 = FRAME_COUNT then s1\<lparr>verifier_finished := True\<rparr> else s1)"
    by (intro verifier.whole_frame [OF assms(3) f body]) simp_all
  then show ?thesis by (simp add: lab_segments assms(6))
qed

section \<open>The whole run\<close>

definition frame_events :: "(os_task_id_t \<Rightarrow> kernel list) \<Rightarrow> (os_task_id_t \<times> kernel) list" where
  "frame_events seen = map (Pair TASK_SAMPLER) (seen TASK_SAMPLER) @ map (Pair TASK_PROCESSOR) (seen TASK_PROCESSOR) @
     map (Pair TASK_VERIFIER) (seen TASK_VERIFIER)"

definition all_at :: "point \<Rightarrow> (os_task_id_t \<Rightarrow> point) \<Rightarrow> bool" where
  "all_at p at \<longleftrightarrow> at TASK_SAMPLER = p \<and> at TASK_PROCESSOR = p \<and> at TASK_VERIFIER = p"

lemma frame_events_run:
  assumes L: "lab_image_ok L" and impl: "documented_impl impl" and inv: "lab_inv L (at, s)" and f: "frame < FRAME_COUNT"
    and seen: "\<forall>task \<in> {TASK_SAMPLER, TASK_PROCESSOR, TASK_VERIFIER}. frame_observed task (seen task)"
    and places: "all_at (before_frame frame) at"
  shows "\<exists>at' s'. lab_run (signal_fir impl) L (frame_events seen) (at, s) = Inr (at', s') \<and> lab_inv L (at', s') \<and>
    all_at (after_frame frame) at'"
proof -
  note step = lab_run_inv [OF L impl]
  obtain s1 where 1: "lab_run (signal_fir impl) L (map (Pair TASK_SAMPLER) (seen TASK_SAMPLER)) (at, s) =
      Inr (at(TASK_SAMPLER := after_frame frame), s1)"
    using sampler_segment [OF L inv f] seen places by (auto simp: all_at_def)
  note inv1 = step [OF inv 1]
  obtain s2 where 2: "lab_run (signal_fir impl) L (map (Pair TASK_PROCESSOR) (seen TASK_PROCESSOR))
      (at(TASK_SAMPLER := after_frame frame), s1) =
      Inr (at(TASK_SAMPLER := after_frame frame, TASK_PROCESSOR := after_frame frame), s2)"
    using processor_segment [OF L impl inv1 f, of "seen TASK_PROCESSOR"] seen places by (auto simp: all_at_def)
  note inv2 = step [OF inv1 2]
  obtain s3 where 3: "lab_run (signal_fir impl) L (map (Pair TASK_VERIFIER) (seen TASK_VERIFIER))
      (at(TASK_SAMPLER := after_frame frame, TASK_PROCESSOR := after_frame frame), s2) =
      Inr (at(TASK_SAMPLER := after_frame frame, TASK_PROCESSOR := after_frame frame, TASK_VERIFIER := after_frame frame), s3)"
    using verifier_segment [OF inv2 f, of "seen TASK_VERIFIER"] seen places by (auto simp: all_at_def)
  show ?thesis
    using step [OF inv2 3] by (auto simp: frame_events_def lab_run_append 1 2 3 all_at_def)
qed

lemma in_order_run:
  fixes seen :: "u32 \<Rightarrow> os_task_id_t \<Rightarrow> kernel list"
  assumes L: "lab_image_ok L" and impl: "documented_impl impl" and m: "coefficients_loaded L m"
    and seen: "\<forall>frame \<in> {0, 1, 2, 3}. \<forall>task \<in> {TASK_SAMPLER, TASK_PROCESSOR, TASK_VERIFIER}. frame_observed task (seen frame task)"
  shows "\<exists>at s. lab_run (signal_fir impl) L (concat (map (\<lambda>frame. frame_events (seen frame)) [0, 1, 2, 3])) (lab_start m) =
      Inr (at, s) \<and> lab_inv L (at, s) \<and> all_at Returned at"
proof -
  have run: "\<exists>c'. lab_run (signal_fir impl) L (frame_events (seen frame)) c = Inr c' \<and> lab_inv L c' \<and> all_at (after_frame frame) (fst c')"
    if "lab_inv L c" "all_at (before_frame frame) (fst c)" "frame \<in> {0, 1, 2, 3}" for frame c
    using frame_events_run [OF L impl, of "fst c" "snd c" frame "seen frame"] that seen by fastforce
  have start: "lab_inv L (lab_start m)" "all_at (before_frame 0) (fst (lab_start m))"
    using lab_start_inv [OF m] by (simp_all add: lab_start_def all_at_def before_frame_def)
  obtain c1 where 1: "lab_run (signal_fir impl) L (frame_events (seen 0)) (lab_start m) = Inr c1" "lab_inv L c1"
    "all_at (before_frame 1) (fst c1)" using run [OF start] by (auto simp: before_frame_def after_frame_def)
  obtain c2 where 2: "lab_run (signal_fir impl) L (frame_events (seen 1)) c1 = Inr c2" "lab_inv L c2"
    "all_at (before_frame 2) (fst c2)" using run [OF 1(2,3)] by (auto simp: before_frame_def after_frame_def)
  obtain c3 where 3: "lab_run (signal_fir impl) L (frame_events (seen 2)) c2 = Inr c3" "lab_inv L c3"
    "all_at (before_frame 3) (fst c3)" using run [OF 2(2,3)] by (auto simp: before_frame_def after_frame_def)
  obtain c4 where 4: "lab_run (signal_fir impl) L (frame_events (seen 3)) c3 = Inr c4" "lab_inv L c4"
    "all_at Returned (fst c4)" using run [OF 3(2,3)] by (auto simp: before_frame_def after_frame_def)
  show ?thesis using 4(2,3) by (intro exI [of _ "fst c4"] exI [of _ "snd c4"]) (simp add: lab_run_append 1(1) 2(1) 3(1) 4(1))
qed

end
