(* ===== verification/App_Start.thy ===== *)
theory App_Start
  imports Board Kernel_Setup
begin

text \<open>
  How the programs under \<open>apps/\<close> start: \<open>main\<close> sets up the board, announces itself on the serial port,
  initialises the kernel, creates its tasks in a fixed order and starts the kernel. The lemmas show
  where that leads from a reset: to a reachable state of the kernel in which the tasks have their slots.
\<close>

section \<open>The code\<close>

definition crlf :: string where "crlf = [CHR 0x0D, CHR 0x0A]"

text \<open>A task that \<open>main\<close> creates: its configuration, the identifier that it must get and the reason of
  the panic when it does not.\<close>

type_synonym wanted_task = "os_task_config \<times> os_task_id_t \<times> string"

fun create_tasks :: "platform \<Rightarrow> os_task_id_t \<Rightarrow> wanted_task list \<Rightarrow> kernel \<Rightarrow> kernel outcome" where
  "create_tasks P created [] k = Inr k"
| "create_tasks P created ((config, wanted, reason) # rest) k =
     on_ok (os_task_create P (Some config) (Some created) k) (\<lambda>((ok, id), k').
       on_ok (require (ok \<and> id = Some wanted) reason) (\<lambda>_. create_tasks P created rest k'))"

definition app_main ::
  "platform \<Rightarrow> 'w hal \<Rightarrow> (u8 list \<Rightarrow> 'w \<Rightarrow> hal_status \<times> 'w) \<Rightarrow> os_task_id_t \<Rightarrow> wanted_task list \<Rightarrow>
   kernel \<Rightarrow> 'w \<Rightarrow> (u8 \<times> kernel \<times> 'w) outcome" where
  "app_main P h transmit created wanted k w =
     (let (status, w1) = board_init h w
      in on_ok (require (status = HAL_OK) ''BOARD_INIT'') (\<lambda>_.
         on_ok (write_line transmit (''AYMOS READY'' @ crlf) w1) (\<lambda>w2.
         on_ok (write_line transmit (''TRACE BEGIN'' @ crlf) w2) (\<lambda>w3.
         on_ok (os_kernel_init P k) (\<lambda>(ok, k1).
         on_ok (require ok ''KERNEL_INIT'') (\<lambda>_.
         on_ok (require (os_exception_configuration_valid k1) ''EXCEPTION_CONFIG'') (\<lambda>_.
         on_ok (create_tasks P created wanted k1) (\<lambda>k2.
         on_ok (os_kernel_start k2) (\<lambda>(service, k3). Inr (service, k3, w3))))))))))"

section \<open>What the vendor's calls do\<close>

text \<open>The calls that can fail do not, and the priority call sets the priority of its interrupt.\<close>

definition hal_works :: "'w hal \<Rightarrow> bool" where
  "hal_works h \<longleftrightarrow> (\<forall>w. fst (HAL_Init h w) = HAL_OK) \<and> (\<forall>c w. fst (HAL_RCC_OscConfig h c w) = HAL_OK) \<and>
     (\<forall>c l w. fst (HAL_RCC_ClockConfig h c l w) = HAL_OK) \<and> (\<forall>c w. fst (HAL_UART_Init h c w) = HAL_OK)"

definition sets_priority :: "platform \<Rightarrow> bool" where
  "sets_priority P \<longleftrightarrow> (\<forall>i p s f. HAL_NVIC_SetPriority P i p s f = f(i := p))"

lemma board_init_ok: "hal_works h \<Longrightarrow> fst (board_init h w) = HAL_OK"
  by (simp add: hal_works_def board_init_def configure_clock_def configure_gpio_def configure_uart_def Let_def case_prod_beta)

text \<open>The first call that fails ends the set-up with an error.\<close>

lemma board_init_error:
  "fst (HAL_Init h w) \<noteq> HAL_OK \<Longrightarrow> board_init h w = (HAL_ERROR, snd (HAL_Init h w))"
  by (simp add: board_init_def case_prod_beta)

lemma write_line_sends:
  assumes "hal_sends transmit wire" and "hal_never_fails transmit" and "CHR 0x00 \<notin> set line"
  shows "\<exists>w'. write_line transmit line w = Inr w' \<and> wire w' = wire w @ c_text line"
proof -
  let ?data = "c_text line @ [0]"
  have len: "text_length ?data = length (c_text line)"
    by (rule text_length_terminated [OF c_text_nonzero [OF assms(3)]])
  have le: "length (c_text line) \<le> length ?data" by simp
  obtain w' where run: "uart_write_loop transmit ?data (length (c_text line)) 0 w = (HAL_OK, w')"
    using uart_write_loop_ok [OF assms(2) le, of 0 w] by (cases "uart_write_loop transmit ?data (length (c_text line)) 0 w") simp
  with uart_write_loop_sends [OF assms(1) le run] show ?thesis
    by (simp add: write_line_def len board_uart_write_def require_def)
qed

section \<open>The tasks\<close>

definition startable :: "os_task_config \<Rightarrow> bool" where
  "startable c \<longleftrightarrow> tc_entry c \<noteq> 0 \<and> OS_MIN_STACK_SIZE \<le> tc_stack_size c \<and> tc_stack_size c \<le> OS_MAX_STACK_SIZE \<and>
     tc_stack_size c AND 7 = 0 \<and> os_sched_config_valid (Some (tc_timing c))"

text \<open>The record of a task that is configured at tick 0.\<close>

definition initial_record :: "nat \<Rightarrow> os_task_config \<Rightarrow> os_sched_task" where
  "initial_record i c = the (snd (os_sched_task_configure (Some (blank_schedule (of_nat i))) (Some (tc_timing c)) 0))"

lemma initial_record_configured:
  assumes "startable c"
  shows "os_sched_task_configure (Some (blank_schedule (of_nat i))) (Some (tc_timing c)) 0 = (True, Some (initial_record i c))"
proof -
  have "fst (os_sched_task_configure (Some (blank_schedule (of_nat i))) (Some (tc_timing c)) 0)"
    by (rule configure_succeeds [OF blank_dormant]) (use assms in \<open>simp_all add: startable_def\<close>)
  moreover obtain r s where "os_sched_task_configure (Some (blank_schedule (of_nat i))) (Some (tc_timing c)) 0 = (r, Some s)"
    by (auto simp: os_sched_task_configure_def on_ptr_Some)
  ultimately show ?thesis by (simp add: initial_record_def)
qed

text \<open>The kernel before its start, with the first \<open>i - 1\<close> tasks created.\<close>

definition before_start :: "platform \<Rightarrow> u32 list \<Rightarrow> os_sched_task list \<Rightarrow> kernel \<Rightarrow> bool" where
  "before_start P rs ss k \<longleftrightarrow> reachable P (rs, k) \<and> kernel_ok P k \<and> \<not> running k \<and> \<not> pendsv_set k \<and> ipsr k = 0 \<and>
     monotonic_ticks k = 0 \<and> length ss \<le> OS_TASK_COUNT \<and>
     schedules k = ss @ drop (length ss) blank_schedules \<and> (\<forall>j < length ss. state (ss ! j) \<noteq> OS_TASK_DORMANT)"

lemma configured_claimed:
  "os_sched_task_configure (Some s) (Some c) now = (True, Some r) \<Longrightarrow> state s = OS_TASK_DORMANT \<Longrightarrow> state r \<noteq> OS_TASK_DORMANT"
  by (auto simp: step_unfold os_sched_task_reset_def os_sched_task_zero_def split: if_splits)

lemma initial_record_claimed: "startable c \<Longrightarrow> state (initial_record i c) \<noteq> OS_TASK_DORMANT"
  using configured_claimed [OF initial_record_configured blank_dormant] .

lemma create_one:
  assumes "platform_ok P" and "before_start P rs ss k" and "startable c" and "0 < length ss" and "length ss < OS_TASK_COUNT"
  shows "\<exists>k'. os_task_create P (Some c) (Some created) k = Inr ((True, Some (of_nat (length ss))), k') \<and>
    before_start P rs (ss @ [initial_record (length ss) c]) k' \<and> nvic_priority k' = nvic_priority k \<and> ccr k' = ccr k \<and>
    memory_allocator k' = memory_allocator k \<and> memory_blocks k' = memory_blocks k"
proof -
  let ?i = "length ss"
  note k = assms(2) [unfolded before_start_def]
  have guard: "create_guard c k"
    using assms(3) k by (simp add: create_guard_def startable_def kernel_ok_def creator_allowed_def)
  have slot: "schedules k ! ?i = blank_schedule (of_nat ?i)"
    using k assms(5) by (simp add: nth_append blank_schedules_def)
  have before: "state (schedules k ! j) \<noteq> OS_TASK_DORMANT" if "j < ?i" for j
    using k that by (simp add: nth_append)
  have rec: "os_sched_task_configure (Some (blank_schedule (of_nat ?i))) (Some (tc_timing c)) (monotonic_ticks k) =
      (True, Some (initial_record ?i c))" using initial_record_configured [OF assms(3), of ?i] k by simp
  obtain k' where k': "os_task_create P (Some c) (Some created) k = Inr ((True, Some (of_nat ?i)), k')" "kernel_ok P k'"
    "quiet k' = quiet (installed P c (of_nat ?i) (initial_record ?i c) k)"
    using create_before_start [OF assms(1) _ _ _ guard assms(4,5) slot before rec, of created] k by blast
  have u: "unat (of_nat ?i :: os_task_id_t) = ?i" using of_nat_id_eq(2) [OF assms(5,5)] .
  have "(ss @ drop ?i blank_schedules)[?i := r] = (ss @ [r]) @ drop (Suc ?i) blank_schedules" for r
    using assms(5) by (simp add: list_update_append Cons_nth_drop_Suc [symmetric])
  moreover have "reachable P (rs, k')" using k kernel_step.create [of k P "Some c" "Some created" _ k' rs] k'(1) reachable.step by blast
  ultimately have "before_start P rs (ss @ [initial_record ?i c]) k'"
    using k k'(2) installed_fields [OF k'(3)] assms(5) initial_record_claimed [OF assms(3)]
    by (simp add: before_start_def u nth_append less_Suc_eq)
  with k'(1) installed_fields [OF k'(3)] show ?thesis by blast
qed

text \<open>The tasks of an application, in the slots 1, 2 and so on.\<close>

fun initial_records :: "nat \<Rightarrow> wanted_task list \<Rightarrow> os_sched_task list" where
  "initial_records i [] = []"
| "initial_records i ((config, _, _) # rest) = initial_record i config # initial_records (Suc i) rest"

lemma create_tasks_effect:
  assumes "platform_ok P" and "before_start P rs ss k" and "0 < length ss"
    and "length ss + length wanted \<le> OS_TASK_COUNT" and "\<forall>(c, _, _) \<in> set wanted. startable c"
    and "map (\<lambda>(_, i, _). unat i) wanted = [length ss..<length ss + length wanted]"
  shows "\<exists>k'. create_tasks P created wanted k = Inr k' \<and> before_start P rs (ss @ initial_records (length ss) wanted) k' \<and>
    nvic_priority k' = nvic_priority k \<and> ccr k' = ccr k"
  using assms(2-)
proof (induction wanted arbitrary: ss k)
  case Nil
  then show ?case by simp
next
  case (Cons t rest)
  obtain c i reason where t: "t = (c, i, reason)" by (cases t)
  have n: "length ss < OS_TASK_COUNT" using Cons.prems(3) by simp
  have "[length ss..<length ss + length (t # rest)] = length ss # [Suc (length ss)..<Suc (length ss) + length rest]"
    by (simp add: upt_conv_Cons del: upt_Suc)
  with Cons.prems(5) have ids: "unat i = length ss"
    "map (\<lambda>(_, i, _). unat i) rest = [Suc (length ss)..<Suc (length ss) + length rest]" by (simp_all add: t del: upt_Suc)
  have i: "i = of_nat (length ss)" unfolding ids(1) [symmetric] by simp
  obtain k1 where k1: "os_task_create P (Some c) (Some created) k = Inr ((True, Some i), k1)"
    "before_start P rs (ss @ [initial_record (length ss) c]) k1" "nvic_priority k1 = nvic_priority k" "ccr k1 = ccr k"
    using create_one [OF assms(1) Cons.prems(1) _ Cons.prems(2) n, of c created] Cons.prems(4) unfolding i by (auto simp: t)
  from Cons.IH [OF k1(2)] Cons.prems(3,4) ids(2)
  obtain k' where "create_tasks P created rest k1 = Inr k'"
    "before_start P rs (ss @ initial_record (length ss) c # initial_records (Suc (length ss)) rest) k'"
    "nvic_priority k' = nvic_priority k1" "ccr k' = ccr k1" by (auto simp del: upt_Suc)
  with k1 show ?case by (simp add: t require_def)
qed

section \<open>From the reset to the start\<close>

lemma booted_ready:
  assumes "platform_ok P" and "power_on k" and "ipsr k = 0" and "sets_priority P"
  shows "\<exists>k'. os_kernel_init P k = Inr (True, k') \<and> before_start P rs [idle_schedule] k' \<and> os_exception_configuration_valid k' \<and>
    kernel_initialized k' \<and> heap_ok (memory_allocator k') (memory_blocks k') \<and> live_blocks (memory_allocator k') (memory_blocks k') = [] \<and>
    region_heap P (memory_allocator k') (memory_blocks k') \<and> current_task k' = OS_TASK_ID_INVALID"
proof -
  have off: "\<not> kernel_initialized k" "\<not> running k" "\<not> pendsv_set k" "length (tasks k) = OS_TASK_COUNT"
    "length (schedules k) = OS_TASK_COUNT" using assms(2) by (simp_all add: power_on_def)
  obtain ring a H where run: "os_kernel_init P k = Inr (True, booted P ring a H k)" "heap_ok a H" "live_blocks a H = []" "region_heap P a H"
    using init_effect [OF assms(1) off(1,2,4,5)] by blast
  have "kernel_ok P (booted P ring a H k)" by (rule booted_ok [OF assms(1) off(3) run(2,3)])
  moreover have "reachable P (rs, booted P ring a H k)" by (rule reachable.boot [OF assms(2) run(1)])
  moreover have "schedules (booted P ring a H k) = [idle_schedule] @ drop 1 blank_schedules"
    by (simp add: booted_def booted_slots_def blank_schedules_list)
  moreover have "state idle_schedule \<noteq> OS_TASK_DORMANT" by (simp add: idle_schedule_def)
  ultimately have "before_start P rs [idle_schedule] (booted P ring a H k)"
    using off assms(3) by (simp add: before_start_def) (simp add: booted_def booted_slots_def)
  moreover have "os_exception_configuration_valid (booted P ring a H k)"
    using assms(4) by (simp add: os_exception_configuration_valid_def booted_def booted_priorities_def sets_priority_def bit_simps
        word_bw_lcs)
  moreover have "kernel_initialized (booted P ring a H k)" "memory_allocator (booted P ring a H k) = a" "memory_blocks (booted P ring a H k) = H"
    "current_task (booted P ring a H k) = OS_TASK_ID_INVALID"
    by (simp_all add: booted_def)
  ultimately show ?thesis using run by (intro exI [of _ "booted P ring a H k"]) simp
qed

lemma app_main_effect:
  assumes "platform_ok P" and "sets_priority P" and "power_on k" and "ipsr k = 0"
    and "hal_works h" and "hal_sends transmit wire" and "hal_never_fails transmit"
    and "length wanted < OS_TASK_COUNT" and "\<forall>(c, _, _) \<in> set wanted. startable c"
    and "map (\<lambda>(_, i, _). unat i) wanted = [1..<1 + length wanted]"
  shows "\<exists>k' w'. app_main P h transmit created wanted k w = Inr (OS_SVC_START, k', w') \<and>
    wire w' = wire (snd (board_init h w)) @ c_text (''AYMOS READY'' @ crlf) @ c_text (''TRACE BEGIN'' @ crlf) \<and>
    reachable P (rs, k') \<and> running k' \<and> monotonic_ticks k' = 0 \<and>
    schedules k' = idle_schedule # initial_records 1 wanted @ drop (Suc (length wanted)) blank_schedules"
proof -
  obtain w1 where b: "board_init h w = (HAL_OK, w1)" using board_init_ok [OF assms(5), of w] by (cases "board_init h w") simp
  have clean: "CHR 0x00 \<notin> set (''AYMOS READY'' @ crlf)" "CHR 0x00 \<notin> set (''TRACE BEGIN'' @ crlf)" by (simp_all add: crlf_def)
  obtain w2 where w2: "write_line transmit (''AYMOS READY'' @ crlf) w1 = Inr w2" "wire w2 = wire w1 @ c_text (''AYMOS READY'' @ crlf)"
    using write_line_sends [OF assms(6,7) clean(1)] by blast
  obtain w3 where w3: "write_line transmit (''TRACE BEGIN'' @ crlf) w2 = Inr w3" "wire w3 = wire w2 @ c_text (''TRACE BEGIN'' @ crlf)"
    using write_line_sends [OF assms(6,7) clean(2)] by blast
  obtain k1 where k1: "os_kernel_init P k = Inr (True, k1)" "before_start P rs [idle_schedule] k1" "os_exception_configuration_valid k1"
    using booted_ready [OF assms(1,3,4,2)] by blast
  have "map (\<lambda>(_, i, _). unat i) wanted = [length [idle_schedule]..<length [idle_schedule] + length wanted]"
    using assms(10) by simp
  then obtain k2 where k2: "create_tasks P created wanted k1 = Inr k2"
    "before_start P rs (idle_schedule # initial_records 1 wanted) k2"
    using create_tasks_effect [OF assms(1) k1(2) _ _ assms(9), of created] assms(8) by auto
  note facts = k2(2) [unfolded before_start_def]
  have len: "length (initial_records i ts) = length ts" for i ts by (induction i ts rule: initial_records.induct) simp_all
  obtain k3 where k3: "os_kernel_start k2 = Inr (OS_SVC_START, k3)"
    using facts by (simp add: os_kernel_start_def kernel_ok_def)
  note q = quiet_eqD [OF start_keeps(2) [OF conjunct1 [OF conjunct2 [OF facts]] k3]]
  have "reachable P (rs, k3)" using reachable.step [OF _ kernel_step.start [OF k3]] facts by blast
  moreover have "app_main P h transmit created wanted k w = Inr (OS_SVC_START, k3, w3)"
    by (simp add: app_main_def b w2(1) [simplified] w3(1) [simplified] k1(1,3) k2(1) k3 require_def)
  ultimately show ?thesis using facts q w2(2) w3(2) by (simp add: b len)
qed

end
