(* ===== verification/Signal_Main.thy ===== *)
theory Signal_Main
  imports Signal_Order App_Start
begin

text \<open>
  The start and the end of the signal workload: \<open>main\<close>, \<open>board_lifecycle_idle_hook\<close> and the line with the
  results, of \<open>apps/signal_lab/main.c\<close>.
\<close>

section \<open>The start\<close>

text \<open>The configuration of a stage: its entry, the delay of its first release and its priority.\<close>

definition stage_config :: "u32 \<Rightarrow> u32 \<Rightarrow> u8 \<Rightarrow> os_task_config" where
  "stage_config entry_address delay prio = (let c = os_task_config_default entry_address 0
     in c\<lparr>tc_timing := (tc_timing c)\<lparr>cfg_kind := OS_TASK_PERIODIC, cfg_initial_release_delay_ticks := delay,
          cfg_period_ticks := PERIOD_TICKS, cfg_relative_deadline_ticks := 3, cfg_execution_budget_ticks := 1,
          cfg_priority := prio\<rparr>\<rparr>)"

definition signal_tasks :: "u32 \<Rightarrow> u32 \<Rightarrow> u32 \<Rightarrow> wanted_task list" where
  "signal_tasks sampler processor verifier =
     [(stage_config sampler 0 0, TASK_SAMPLER, ''CREATE_SAMPLER''),
      (stage_config processor 1 1, TASK_PROCESSOR, ''CREATE_PROCESSOR''),
      (stage_config verifier 2 2, TASK_VERIFIER, ''CREATE_VERIFIER'')]"

definition signal_main ::
  "platform \<Rightarrow> 'w hal \<Rightarrow> (u8 list \<Rightarrow> 'w \<Rightarrow> hal_status \<times> 'w) \<Rightarrow> u32 \<times> u32 \<times> u32 \<Rightarrow> kernel \<Rightarrow> 'w \<Rightarrow>
   (u8 \<times> kernel \<times> 'w) outcome" where
  "signal_main P h transmit entries k w = (case entries of (sampler, processor, verifier) \<Rightarrow>
     app_main P h transmit OS_TASK_ID_INVALID (signal_tasks sampler processor verifier) k w)"

section \<open>The result\<close>

text \<open>The parts of the line; \<open>m4\<close> is the build with the Cortex-M4 loop.\<close>

definition result_parts :: "bool \<Rightarrow> (line \<Rightarrow> bool \<times> line) list" where
  "result_parts m4 = (let cap = of_nat RESULT_LINE_CAPACITY; say = (\<lambda>s. append_text cap (c_text s)) in
     [say ''AYMOS SIGNAL PASS IMPL='', say (if m4 then ''m4'' else ''scalar''),
      say '' FRAMES='', append_decimal cap FRAME_COUNT, say '' SAMPLES='', append_decimal cap SAMPLE_COUNT,
      say '' TAPS='', append_decimal cap TAP_COUNT, say '' VALID='', append_decimal cap VALID_OUTPUT_COUNT,
      say '' OUTPUTS='', append_decimal cap TOTAL_OUTPUT_COUNT, say '' WORK='', append_decimal cap WORK_UNITS,
      say '' SEED=0x'', append_hex32 cap SIGNAL_SEED, say '' INPUT_CRC=0x'', append_hex32 cap EXPECTED_INPUT_CRC,
      say '' OUTPUT_CRC=0x'', append_hex32 cap EXPECTED_OUTPUT_CRC, say crlf])"

text \<open>\<open>buffer\<close> is the array on the stack, with arbitrary contents.\<close>

definition write_result ::
  "bool \<Rightarrow> u8 list \<Rightarrow> (u8 list \<Rightarrow> 'w \<Rightarrow> hal_status \<times> 'w) \<Rightarrow> 'w \<Rightarrow> 'w outcome" where
  "write_result m4 buffer transmit w =
     (let (ok, line, len) = append_all (result_parts m4) (buffer, 0)
      in on_ok (require ok ''RESULT_FORMAT'') (\<lambda>_.
           let (status, w') = board_uart_write transmit (Some line) (unat len) w
           in on_ok (require (status = HAL_OK) ''RESULT_UART'') (\<lambda>_. Inr w')))"

section \<open>The idle task\<close>

text \<open>A call of \<open>os_trace_finish\<close> on the ring of the kernel; a build without tracing has no such function, and
  the workload is not built without.\<close>

definition finish_trace :: "(u8 list \<Rightarrow> 'w \<Rightarrow> hal_status \<times> 'w) \<Rightarrow> kernel \<Rightarrow> 'w \<Rightarrow> int \<times> kernel \<times> 'w" where
  "finish_trace transmit k w = (case trace_ring k of
     None \<Rightarrow> (0, k, w)
   | Some r \<Rightarrow> let (res, r', w') = os_trace_finish transmit (ipsr k) (current_task k) (monotonic_ticks k) r w
       in (res, k\<lparr>trace_ring := Some r'\<rparr>, w'))"

definition signal_idle_hook ::
  "bool \<Rightarrow> u8 list \<Rightarrow> (u8 list \<Rightarrow> 'w \<Rightarrow> hal_status \<times> 'w) \<Rightarrow> kernel \<Rightarrow> 'w \<Rightarrow> signal_lab \<Rightarrow>
   (signal_lab \<times> kernel \<times> 'w) outcome" where
  "signal_idle_hook m4 buffer transmit k w s =
     (if trace_flushed s \<or> \<not> sampler_finished s \<or> \<not> processor_finished s \<or> \<not> verifier_finished s
      then Inr (s, k, w)
      else
        on_ok (os_tick_count k) (\<lambda>(now, k1).
        on_ok (require (os_thread_uses_psp k \<and> now = FINAL_TICK \<and> os_reclaim_count k1 = 3 \<and>
            os_last_reclaimed_task k1 = TASK_VERIFIER \<and> sampled_generation s = FRAME_COUNT \<and>
            processed_generation s = FRAME_COUNT \<and> verified_generation s = FRAME_COUNT \<and>
            NOT (aggregate_input_state s) = EXPECTED_INPUT_CRC \<and>
            NOT (aggregate_output_state s) = EXPECTED_OUTPUT_CRC) ''LAB_COMPLETE'') (\<lambda>_.
        let s1 = s\<lparr>trace_flushed := True\<rparr>; (res, k2, w2) = finish_trace transmit k1 w
        in on_ok (require (res = 1) ''TRACE_FLUSH'') (\<lambda>_.
           on_ok (write_line transmit (''AYMOS TRACE DONE'' @ crlf) w2) (\<lambda>w3.
           on_ok (write_result m4 buffer transmit w3) (\<lambda>w4. Inr (s1, k2, w4)))))))"

section \<open>What the start leads to\<close>

lemma stage_startable: "entry_address \<noteq> 0 \<Longrightarrow> delay \<le> 2 \<Longrightarrow> startable (stage_config entry_address delay prio)"
  by (simp add: startable_def stage_config_def os_task_config_default_def os_sched_config_valid_def os_tick_interval_valid_def
      Let_def word_le_nat_alt word_less_nat_alt unat_sub_le)

lemma stage_record:
  assumes "entry_address \<noteq> 0" and "delay \<le> 2"
  shows "kind (initial_record i (stage_config entry_address delay prio)) = OS_TASK_PERIODIC \<and>
    state (initial_record i (stage_config entry_address delay prio)) = (if delay = 0 then OS_TASK_READY else OS_TASK_WAITING_RELEASE) \<and>
    next_release_order (initial_record i (stage_config entry_address delay prio)) = (if delay = 0 then 6 else ucast delay) \<and>
    period_ticks (initial_record i (stage_config entry_address delay prio)) = 6 \<and>
    relative_deadline_ticks (initial_record i (stage_config entry_address delay prio)) = 3"
proof -
  define c where "c = tc_timing (stage_config entry_address delay prio)"
  have "kind r = OS_TASK_PERIODIC \<and> state r = (if delay = 0 then OS_TASK_READY else OS_TASK_WAITING_RELEASE) \<and>
    next_release_order r = (if delay = 0 then 6 else ucast delay) \<and> period_ticks r = 6 \<and> relative_deadline_ticks r = 3"
    if "os_sched_task_configure (Some s) (Some c) 0 = (True, Some r)" "state s = OS_TASK_DORMANT" for s r
    using that by (auto simp: step_unfold os_sched_task_reset_def os_sched_task_zero_def c_def stage_config_def
        os_task_config_default_def Let_def split: if_splits)
  from this [OF initial_record_configured [OF stage_startable [OF assms], of i prio, folded c_def] blank_dormant]
  show ?thesis .
qed

section \<open>The line\<close>

definition result_text :: "bool \<Rightarrow> string" where
  "result_text m4 = ''AYMOS SIGNAL PASS IMPL='' @ (if m4 then ''m4'' else ''scalar'') @
     '' FRAMES=4 SAMPLES=128 TAPS=16 VALID=113 OUTPUTS=452 WORK=7232 SEED=0x1A2B3C4D INPUT_CRC=0x0CAF72FD OUTPUT_CRC=0xAFC277C1'' @ crlf"

lemma result_parts_append:
  "\<exists>css. list_all2 (appends RESULT_LINE_CAPACITY) (result_parts m4) css \<and> concat css = c_text (result_text m4)"
proof -
  have say: "appends 192 (append_text (of_nat 192) cs) cs" for cs by (rule appends_text) simp
  have dec: "appends 192 (append_decimal (of_nat 192) v) (rev (decimal_digits v))" for v by (rule appends_decimal) simp
  have hex: "appends 192 (append_hex32 (of_nat 192) v) (hex_text v)" for v by (rule appends_hex32) simp
  let ?css = "[c_text ''AYMOS SIGNAL PASS IMPL='', c_text (if m4 then ''m4'' else ''scalar''),
      c_text '' FRAMES='', rev (decimal_digits FRAME_COUNT), c_text '' SAMPLES='', rev (decimal_digits SAMPLE_COUNT),
      c_text '' TAPS='', rev (decimal_digits TAP_COUNT), c_text '' VALID='', rev (decimal_digits VALID_OUTPUT_COUNT),
      c_text '' OUTPUTS='', rev (decimal_digits TOTAL_OUTPUT_COUNT), c_text '' WORK='', rev (decimal_digits WORK_UNITS),
      c_text '' SEED=0x'', hex_text SIGNAL_SEED, c_text '' INPUT_CRC=0x'', hex_text EXPECTED_INPUT_CRC,
      c_text '' OUTPUT_CRC=0x'', hex_text EXPECTED_OUTPUT_CRC, c_text crlf]"
  have "list_all2 (appends RESULT_LINE_CAPACITY) (result_parts m4) ?css"
    unfolding result_parts_def Let_def by (intro list_all2_Cons [THEN iffD2] conjI say dec hex list.rel_intros)
  moreover have "rev (decimal_digits FRAME_COUNT) = c_text ''4''" "rev (decimal_digits SAMPLE_COUNT) = c_text ''128''"
    "rev (decimal_digits TAP_COUNT) = c_text ''16''" "rev (decimal_digits VALID_OUTPUT_COUNT) = c_text ''113''"
    "rev (decimal_digits TOTAL_OUTPUT_COUNT) = c_text ''452''" "rev (decimal_digits WORK_UNITS) = c_text ''7232''"
    by (simp_all add: decimal_digits.simps c_text_def Let_def)
  moreover have "hex_text SIGNAL_SEED = c_text ''1A2B3C4D''" "hex_text EXPECTED_INPUT_CRC = c_text ''0CAF72FD''"
    "hex_text EXPECTED_OUTPUT_CRC = c_text ''AFC277C1''" by code_simp+
  ultimately have "concat ?css = c_text (result_text m4)" by (simp add: result_text_def c_text_def)
  with \<open>list_all2 _ _ ?css\<close> show ?thesis by blast
qed

lemma write_result_sends:
  assumes "hal_sends transmit wire" and "hal_never_fails transmit" and "length buffer = 192"
  shows "\<exists>w'. write_result m4 buffer transmit w = Inr w' \<and> wire w' = wire w @ c_text (result_text m4)"
proof -
  obtain css where css: "list_all2 (appends RESULT_LINE_CAPACITY) (result_parts m4) css" "concat css = c_text (result_text m4)"
    using result_parts_append by blast
  have start: "holds (buffer, 0) []" by (simp add: holds_def)
  have fits: "length (c_text (result_text m4)) \<le> 192" by (simp add: c_text_def result_text_def crlf_def)
  obtain line len where l: "append_all (result_parts m4) (buffer, 0) = (True, line, len)" "holds (line, len) (c_text (result_text m4))"
    "length line = 192"
  proof -
    obtain l' where "append_all (result_parts m4) (buffer, 0) = (True, l')" "length (fst l') = 192"
      "holds l' (c_text (result_text m4))"
      by (rule appendsD [OF appends_all [OF css(1)] start]) (use assms(3) fits css(2) in auto)
    with that show thesis by (cases l') auto
  qed
  have len: "unat len \<le> length line" "take (unat len) line = c_text (result_text m4)" using l(2,3) by (auto simp: holds_def)
  obtain w' where run: "uart_write_loop transmit line (unat len) 0 w = (HAL_OK, w')"
    using uart_write_loop_ok [OF assms(2) len(1), of 0 w] by (cases "uart_write_loop transmit line (unat len) 0 w") simp
  with uart_write_loop_sends [OF assms(1) len(1) run] show ?thesis
    by (simp add: write_result_def l(1) board_uart_write_def require_def len(2))
qed

end
