(* ===== verification/App_Demo.thy ===== *)
theory App_Demo
  imports App_Start Kernel_Demo
begin

text \<open>Concrete parameters for the programs: a vendor library whose calls succeed and a port that keeps every byte.\<close>

definition demo_hal :: "u8 list hal" where
  "demo_hal = \<lparr>HAL_Init = (\<lambda>w. (HAL_OK, w)), RCC_PWR_CLK_ENABLE = (\<lambda>w. w), RCC_SYSCFG_CLK_ENABLE = (\<lambda>w. w),
     RCC_GPIOA_CLK_ENABLE = (\<lambda>w. w), RCC_USART2_CLK_ENABLE = (\<lambda>w. w), PWR_VOLTAGESCALING_CONFIG = (\<lambda>_ w. w),
     HAL_RCC_OscConfig = (\<lambda>_ w. (HAL_OK, w)), HAL_RCC_ClockConfig = (\<lambda>_ _ w. (HAL_OK, w)),
     HAL_NVIC_SetPriorityGrouping = (\<lambda>_ w. w), HAL_GPIO_WritePin = (\<lambda>_ _ w. w), HAL_GPIO_Init = (\<lambda>_ w. w),
     HAL_UART_Init = (\<lambda>_ w. (HAL_OK, w))\<rparr>"

lemma demo_hal_works: "hal_works demo_hal"
  by (simp add: hal_works_def demo_hal_def)

lemma demo_board: "snd (board_init demo_hal w) = w"
  by (simp add: board_init_def configure_clock_def configure_gpio_def configure_uart_def demo_hal_def)

lemma demo_priorities: "sets_priority demo_platform"
  by (simp add: sets_priority_def demo_platform_def)

lemma list_uart_hal: "hal_sends list_uart (\<lambda>w. w)" "hal_never_fails list_uart"
  by (simp_all add: hal_sends_def hal_never_fails_def list_uart_def)

lemma zero_thread: "ipsr zero_kernel = 0"
  by (simp add: zero_kernel_def)

end
