(* ===== verification/Signal_Claims.thy ===== *)
theory Signal_Claims
  imports Signal_Main App_Demo
begin

text \<open>
  The properties of the signal workload: its data are right in every order of the tasks, no check of
  the data can fail, and in the order of the design the workload ends with the checksums of the source.
\<close>

section \<open>A concrete workload\<close>

definition demo_lab_image :: lab_image where
  "demo_lab_image = \<lparr>samples = 0x20002000, coefficients_array = 0x08006000, outputs = 0x20003000\<rparr>"

definition demo_cells :: cells where
  "demo_cells x = (if unat (x - 0x08006000) < 32 then coefficients ! (unat (x - 0x08006000) div 2) else 0)"

definition demo_lab_kernel :: "os_task_id_t \<Rightarrow> u32 \<Rightarrow> kernel" where
  "demo_lab_kernel task ticks = zero_kernel\<lparr>running := True, current_task := task,
     schedules := replicate 5 (os_sched_task_zero\<lparr>kind := OS_TASK_PERIODIC, state := OS_TASK_RUNNING, job_active := True,
       job_execution_ticks := ticks\<rparr>),
     tasks := replicate 5 (cleared_tcb\<lparr>stack_low := 0x20001000, stack_high := 0x20001400\<rparr>),
     control := 2, ccr := 0x200, psp := 0x20001200\<rparr>"

definition demo_seen :: "u32 \<Rightarrow> os_task_id_t \<Rightarrow> kernel list" where
  "demo_seen frame task = [demo_lab_kernel task 0, demo_lab_kernel task 0, demo_lab_kernel task 0, demo_lab_kernel task 1]"

lemma demo_image_ok: "lab_image_ok demo_lab_image"
  by (auto simp: lab_image_ok_def demo_lab_image_def bytes_def)

lemma demo_coefficients: "coefficients_loaded demo_lab_image demo_cells"
proof -
  have "unat (element 0x08006000 t - 0x08006000) = 2 * t" if "t < 16" for t
    using element_offset [of "0x08006000" 16 t] that by simp
  then show ?thesis by (auto simp: coefficients_loaded_def demo_lab_image_def demo_cells_def)
qed

lemma demo_lab_kernel_runs:
  assumes "task \<in> {TASK_SAMPLER, TASK_PROCESSOR, TASK_VERIFIER}"
  shows "running_job task ticks (demo_lab_kernel task ticks)"
  using assms by (auto simp: running_job_def demo_lab_kernel_def zero_kernel_def sched_def tcb_def os_thread_uses_psp_def
      os_sched_task_zero_def cleared_tcb_def)

lemma demo_frames: "\<forall>frame \<in> {0, 1, 2, 3}. \<forall>task \<in> {TASK_SAMPLER, TASK_PROCESSOR, TASK_VERIFIER}. frame_observed task (demo_seen frame task)"
  by (auto simp: frame_observed_def demo_seen_def intro!: demo_lab_kernel_runs)

definition demo_events :: "(os_task_id_t \<times> kernel) list" where
  "demo_events = concat (map (\<lambda>frame. frame_events (demo_seen frame)) [0, 1, 2, 3])"

lemmas demo_run = in_order_run [OF demo_image_ok _ demo_coefficients demo_frames, folded demo_events_def]

lemma reference_documented: "documented_impl None"
  by (simp add: documented_impl_def)

section \<open>The data\<close>

text \<open>C28: In whatever order the tasks of the signal workload run and whatever they see of the kernel,
  as long as no check has failed: the counters of the three stages differ by at most one and are in
  the order of the stages, the checksums stored for the frames that are done, the running checksums and
  the state of the shift register are those of exactly these frames of the stream, the arrays hold the
  last frame, and a task that has returned has done four frames.\<close>

theorem signal_frames_consistent:
  assumes "lab_image_ok L" and "documented_impl impl" and "coefficients_loaded L m"
    and "lab_run (signal_fir impl) L events (lab_start m) = Inr (at, s)"
  shows "generations_ok s \<and> lab_data_ok L s \<and> places_ok (at, s)"
  using lab_run_inv [OF assms(1,2) lab_start_inv [OF assms(3)] assms(4)] by (simp add: lab_inv_def)

theorem signal_frames_consistent_witness:
  "\<exists>at s. lab_run (signal_fir None) demo_lab_image demo_events (lab_start demo_cells) = Inr (at, s) \<and>
     lab_data_ok demo_lab_image s \<and> sampled_generation s = 4"
proof -
  obtain "at" s where run: "lab_run (signal_fir None) demo_lab_image demo_events (lab_start demo_cells) = Inr (at, s)"
    "all_at Returned at"
    using demo_run [OF reference_documented] by blast
  show ?thesis
    using signal_frames_consistent [OF demo_image_ok reference_documented demo_coefficients run(1)] run
    by (auto simp: places_ok_def all_at_def)
qed

section \<open>What cannot fail\<close>

lemma task_entry_Inl: "task_entry task reason arg k = Inl e \<Longrightarrow> e = reason"
  by (auto simp: task_entry_def on_ok_Inl)

lemma next_period_Inl: "next_period reason frame k = Inl e \<Longrightarrow> e = reason"
  by (auto simp: next_period_def on_ok_Inl)

lemma execution_round_Inl: "execution_round task k = Inl e \<Longrightarrow> e \<in> {''EXECUTION_INFO'', ''EXECUTION_TICK''}"
  by (auto simp: execution_round_def on_ok_Inl os_task_info_def masked_def split: if_splits)

lemmas task_Inl = task_entry_Inl next_period_Inl execution_round_Inl

definition data_reasons :: "string set" where
  "data_reasons = {''FIR'', ''SAMPLER_LOOP'', ''PROCESSOR_LOOP'', ''VERIFIER_LOOP'', ''VERIFY_AGGREGATE''}"

lemma sampler_task_Inl:
  assumes inv: "lab_inv L (at, s)" and run: "sampler_task L k (at TASK_SAMPLER) s = Inl e"
  shows "e \<notin> data_reasons \<and> e \<noteq> ''VERIFY_FRAME''"
proof (cases "at TASK_SAMPLER")
  case (Frame frame)
  then have "frame < FRAME_COUNT" using inv by (simp add: lab_inv_def places_ok_def)
  then show ?thesis
    using run by (auto simp: sampler_task_def Frame sampler_frame_def on_ok_Inl data_reasons_def split: prod.splits)
qed (use run in \<open>auto simp: sampler_task_def on_ok_Inl data_reasons_def dest!: task_Inl split: if_splits\<close>)

lemma processor_task_Inl:
  assumes "lab_image_ok L" and "documented_impl impl" and inv: "lab_inv L (at, s)"
    and run: "processor_task (signal_fir impl) L k (at TASK_PROCESSOR) s = Inl e"
  shows "e \<notin> data_reasons \<and> e \<noteq> ''VERIFY_FRAME''"
proof (cases "at TASK_PROCESSOR")
  case (Frame frame)
  have f: "frame < FRAME_COUNT" "lab_data_ok L s" using inv Frame by (simp_all add: lab_inv_def places_ok_def)
  from run f(1) have "processor_frame (signal_fir impl) L frame s = Inl e" by (auto simp: processor_task_def Frame on_ok_Inl)
  moreover from this have "e = ''PROCESSOR_GENERATION''" if "\<not> (sampled_generation s = frame + 1 \<and> processed_generation s = frame \<and> verified_generation s = frame)"
    using that by (auto simp: processor_frame_def on_ok_Inl)
  ultimately show ?thesis
    using processor_frame_effect [OF assms(1,2) f(2,1)] by (fastforce simp: data_reasons_def)
qed (use run in \<open>auto simp: processor_task_def on_ok_Inl data_reasons_def dest!: task_Inl split: if_splits\<close>)

lemma verifier_task_Inl:
  assumes inv: "lab_inv L (at, s)" and run: "verifier_task k (at TASK_VERIFIER) s = Inl e"
  shows "e \<notin> data_reasons \<and>
    (e = ''VERIFY_FRAME'' \<longrightarrow> processed_generation s = verified_generation s)"
proof (cases "at TASK_VERIFIER")
  case (Frame frame)
  have f: "frame < FRAME_COUNT" "lab_data_ok L s" "verified_generation s = frame" "generations_ok s"
    using inv Frame by (simp_all add: lab_inv_def places_ok_def)
  from run f(1) have e: "verifier_frame frame s = Inl e" by (auto simp: verifier_task_def Frame on_ok_Inl)
  then have "e = ''VERIFY_FRAME''" by (auto simp: verifier_frame_def on_ok_Inl)
  moreover have "processed_generation s = frame"
  proof (rule ccontr)
    assume p: "processed_generation s \<noteq> frame"
    then have "unat frame < unat (processed_generation s)" "unat (processed_generation s) \<le> unat (sampled_generation s)"
      "unat (sampled_generation s) \<le> unat (frame + 1)"
      using f(3,4) next_frame(1) [OF f(1)] unfolding generations_ok_def word_le_nat_alt word_unat_eq_iff by auto
    then have "processed_generation s = frame + 1" "sampled_generation s = frame + 1"
      using next_frame(1) [OF f(1)] unfolding word_unat_eq_iff by linarith+
    then show False using verifier_frame_effect [OF f(2,1) _ _ f(3)] e by simp
  qed
  ultimately show ?thesis using f(3) by (simp add: data_reasons_def)
next
  case (Executing frame)
  have "verify_aggregate s = Inr ()" if last: "frame + 1 = FRAME_COUNT"
  proof -
    have "sampled_generation s = FRAME_COUNT" "processed_generation s = FRAME_COUNT"
      using inv last unfolding lab_inv_def generations_ok_def places_ok_def by (auto simp: Executing)
    then show ?thesis using verify_aggregate_ok [of L s] inv by (simp add: lab_inv_def)
  qed
  then show ?thesis
    using run by (auto simp: verifier_task_def Executing on_ok_Inl data_reasons_def dest!: task_Inl split: if_splits)
qed (use run in \<open>auto simp: verifier_task_def on_ok_Inl data_reasons_def dest!: task_Inl split: if_splits\<close>)

text \<open>C29: No check of the data can fail, in any order of the tasks: the filter always accepts its call, no
  loop runs past its four frames, the aggregate checksums always match, and the verification of a frame
  panics only because the task that filters the frame has not run, never because of a checksum.\<close>

theorem signal_checks_never_fail:
  assumes "lab_image_ok L" and "documented_impl impl" and "coefficients_loaded L m"
    and "lab_run (signal_fir impl) L events (lab_start m) = Inr (at, s)"
    and "lab_step (signal_fir impl) L event (at, s) = Inl reason"
  shows "reason \<notin> {''FIR'', ''SAMPLER_LOOP'', ''PROCESSOR_LOOP'', ''VERIFIER_LOOP'', ''VERIFY_AGGREGATE''} \<and>
    (reason = ''VERIFY_FRAME'' \<longrightarrow> fst event = TASK_VERIFIER \<and> processed_generation s = verified_generation s)"
proof -
  note inv = lab_run_inv [OF assms(1,2) lab_start_inv [OF assms(3)] assms(4)]
  obtain task k where ev: "event = (task, k)" by (cases event)
  from assms(5) consider "sampler_task L k (at TASK_SAMPLER) s = Inl reason"
    | "processor_task (signal_fir impl) L k (at TASK_PROCESSOR) s = Inl reason"
    | "task = TASK_VERIFIER" "verifier_task k (at TASK_VERIFIER) s = Inl reason"
    by (auto simp: lab_step_def ev on_ok_Inl split: if_splits)
  then show ?thesis
    using sampler_task_Inl [OF inv] processor_task_Inl [OF assms(1,2) inv] verifier_task_Inl [OF inv]
    unfolding ev data_reasons_def by cases auto
qed

theorem signal_checks_never_fail_witness:
  "lab_step (signal_fir None) demo_lab_image (TASK_VERIFIER, demo_lab_kernel 3 0)
     ((\<lambda>_. Entry)(TASK_VERIFIER := Frame 0), signal_lab_start demo_cells) = Inl ''VERIFY_FRAME'' \<and>
   processed_generation (signal_lab_start demo_cells) = verified_generation (signal_lab_start demo_cells)"
proof -
  have start: "lab_run (signal_fir None) demo_lab_image [(TASK_VERIFIER, demo_lab_kernel 3 0)] (lab_start demo_cells) =
      Inr ((\<lambda>_. Entry)(TASK_VERIFIER := Frame 0), signal_lab_start demo_cells)"
    by (simp add: lab_start_def lab_step_def verifier_task_def task_entry_result [OF demo_lab_kernel_runs])
  have step: "lab_step (signal_fir None) demo_lab_image (TASK_VERIFIER, demo_lab_kernel 3 0)
     ((\<lambda>_. Entry)(TASK_VERIFIER := Frame 0), signal_lab_start demo_cells) = Inl ''VERIFY_FRAME''"
    by (simp add: lab_step_def verifier_task_def verifier_frame_def signal_lab_start_def require_def os_kernel_panic_def)
  show ?thesis
    using signal_checks_never_fail [OF demo_image_ok reference_documented demo_coefficients start step] step by simp
qed

section \<open>The run of the design\<close>

text \<open>C30: When in each of the four frames the sampler, the processor and the verifier run in this order, each
  with an active periodic job that has had no tick until its wait ends with one, the workload ends: all
  three tasks return and report so, all counters are four, and the complements of the running checksums are
  the two constants of the source.\<close>

theorem signal_run_in_order:
  fixes seen :: "u32 \<Rightarrow> os_task_id_t \<Rightarrow> kernel list"
  assumes "lab_image_ok L" and "documented_impl impl" and "coefficients_loaded L m"
    and "\<forall>frame \<in> {0, 1, 2, 3}. \<forall>task \<in> {TASK_SAMPLER, TASK_PROCESSOR, TASK_VERIFIER}. frame_observed task (seen frame task)"
  shows "\<exists>at s. lab_run (signal_fir impl) L (concat (map (\<lambda>frame. frame_events (seen frame)) [0, 1, 2, 3])) (lab_start m) =
      Inr (at, s) \<and> all_at Returned at \<and> sampler_finished s \<and> processor_finished s \<and> verifier_finished s \<and>
    sampled_generation s = FRAME_COUNT \<and> processed_generation s = FRAME_COUNT \<and> verified_generation s = FRAME_COUNT \<and>
    NOT (aggregate_input_state s) = EXPECTED_INPUT_CRC \<and> NOT (aggregate_output_state s) = EXPECTED_OUTPUT_CRC"
proof -
  obtain "at" s where run: "lab_run (signal_fir impl) L (concat (map (\<lambda>frame. frame_events (seen frame)) [0, 1, 2, 3]))
      (lab_start m) = Inr (at, s)" "lab_inv L (at, s)" "all_at Returned at"
    using in_order_run [OF assms] by blast
  then have "sampled_generation s = FRAME_COUNT" "processed_generation s = FRAME_COUNT"
    by (auto simp: lab_inv_def places_ok_def all_at_def)
  then show ?thesis
    using run expected_aggregates by (auto simp: lab_inv_def places_ok_def all_at_def lab_data_ok_def Let_def)
qed

theorem signal_run_in_order_witness:
  "\<exists>at s. lab_run (signal_fir None) demo_lab_image demo_events (lab_start demo_cells) = Inr (at, s) \<and>
     verifier_finished s \<and> NOT (aggregate_output_state s) = 0xAFC277C1"
  using signal_run_in_order [OF demo_image_ok reference_documented demo_coefficients demo_frames]
  unfolding demo_events_def by blast

section \<open>The end\<close>

text \<open>C31: When the three tasks have returned and the idle task finds the clock, the number of reclaimed tasks
  and the last one as designed, its hook passes all its checks and sends, in this order and exactly once: the
  frames of the stored trace records and of the closing snapshot, the completion line, and the result line
  with the figures in decimal and the two checksums in hexadecimal. Later calls do nothing.\<close>

theorem signal_idle_reports:
  assumes "lab_image_ok L" and "documented_impl impl" and "coefficients_loaded L m"
    and "lab_run (signal_fir impl) L events (lab_start m) = Inr (at, s)" and "all_at Returned at"
    and idle: "os_thread_uses_psp k" "current_task k = OS_TASK_ID_IDLE" "ucast (monotonic_ticks k) = FINAL_TICK"
      "reclaim_counter k = 3" "last_reclaimed k = TASK_VERIFIER"
    and ring: "trace_ring k = Some r" "ring_ok r" "enabled r"
    and hal: "hal_sends transmit wire" "hal_never_fails transmit" and "length buffer = 192"
  shows "\<exists>s' k' w' f. signal_idle_hook m4 buffer transmit k w s = Inr (s', k', w') \<and>
    wire w' = wire w @ concat (map (\<lambda>x. frame_bytes TRACE_FRAME_RECORD (record_payload x)) (ring_contents r)) @
      frame_bytes TRACE_FRAME_FOOTER (footer_payload f) @ c_text (''AYMOS TRACE DONE'' @ crlf) @ c_text (result_text m4) \<and>
    (\<exists>r'. trace_ring k' = Some r' \<and> ring_contents r' = []) \<and>
    (\<forall>k2 w2 buffer'. signal_idle_hook m4 buffer' transmit k2 w2 s' = Inr (s', k2, w2))"
proof -
  have inv: "lab_inv L (at, s)" by (rule lab_run_inv [OF assms(1,2) lab_start_inv [OF assms(3)] assms(4)])
  have fin: "sampler_finished s" "processor_finished s" "verifier_finished s" and gen: "sampled_generation s = FRAME_COUNT"
    "processed_generation s = FRAME_COUNT" "verified_generation s = FRAME_COUNT"
    using inv assms(5) by (auto simp: lab_inv_def places_ok_def all_at_def)
  have sums: "NOT (aggregate_input_state s) = EXPECTED_INPUT_CRC" "NOT (aggregate_output_state s) = EXPECTED_OUTPUT_CRC"
    using inv gen expected_aggregates by (auto simp: lab_inv_def lab_data_ok_def Let_def)
  have "ipsr k = 0" using idle(1) by (auto simp: os_thread_uses_psp_def split: if_splits)
  then obtain res r' w1 where trace: "os_trace_finish transmit (ipsr k) (current_task k) (monotonic_ticks k) r w = (res, r', w1)"
    "res = 1" using trace_finish_effect [OF ring(2,3) hal(1)] hal(2) idle(2) by (metis prod.exhaust)
  from trace_finish_effect [OF ring(2,3) hal(1) trace(1)] trace(2) obtain f where f: "ring_contents r' = []"
    "wire w1 = wire w @ concat (map (\<lambda>x. frame_bytes TRACE_FRAME_RECORD (record_payload x)) (ring_contents r)) @
      frame_bytes TRACE_FRAME_FOOTER (footer_payload f)" by auto
  obtain w2 where w2: "write_line transmit (''AYMOS TRACE DONE'' @ crlf) w1 = Inr w2"
    "wire w2 = wire w1 @ c_text (''AYMOS TRACE DONE'' @ crlf)"
    using write_line_sends [OF hal, of "''AYMOS TRACE DONE'' @ crlf"] by (auto simp: crlf_def)
  obtain w3 where w3: "write_result m4 buffer transmit w2 = Inr w3" "wire w3 = wire w2 @ c_text (result_text m4)"
    using write_result_sends [OF hal assms(16)] by blast
  have flushed: "\<not> trace_flushed s" using inv by (simp add: lab_inv_def places_ok_def)
  have run: "signal_idle_hook m4 buffer transmit k w s = Inr (s\<lparr>trace_flushed := True\<rparr>, k\<lparr>trace_ring := Some r'\<rparr>, w3)"
    using flushed fin gen sums idle ring(1) trace w2(1) [simplified] w3(1)
    by (simp add: signal_idle_hook_def os_tick_count_def os_monotonic_tick_count_def masked_def os_reclaim_count_def
        os_last_reclaimed_task_def finish_trace_def require_def)
  moreover have "signal_idle_hook m4 buffer' transmit k2 w2 (s\<lparr>trace_flushed := True\<rparr>) = Inr (s\<lparr>trace_flushed := True\<rparr>, k2, w2)"
    for k2 w2 buffer' by (simp add: signal_idle_hook_def)
  ultimately show ?thesis using f w2(2) w3(2) by (intro exI conjI) auto
qed

text \<open>An idle state at the end of the run, with an open trace ring.\<close>

definition demo_idle_kernel :: kernel where
  "demo_idle_kernel = (demo_lab_kernel 0 0)\<lparr>monotonic_ticks := 21, reclaim_counter := 3, last_reclaimed := 3,
     trace_ring := Some ring_demo_start\<rparr>"

theorem signal_idle_reports_witness:
  "\<exists>at s s' k' w' f. lab_run (signal_fir None) demo_lab_image demo_events (lab_start demo_cells) = Inr (at, s) \<and>
     signal_idle_hook False (replicate 192 0) list_uart demo_idle_kernel [] s = Inr (s', k', w') \<and>
     w' = frame_bytes TRACE_FRAME_FOOTER (footer_payload f) @ c_text (''AYMOS TRACE DONE'' @ crlf) @ c_text (result_text False)"
proof -
  obtain "at" s where run: "lab_run (signal_fir None) demo_lab_image demo_events (lab_start demo_cells) = Inr (at, s)"
    "all_at Returned at"
    using demo_run [OF reference_documented] by blast
  have idle: "os_thread_uses_psp demo_idle_kernel" "current_task demo_idle_kernel = OS_TASK_ID_IDLE"
    "ucast (monotonic_ticks demo_idle_kernel) = FINAL_TICK" "reclaim_counter demo_idle_kernel = 3"
    "last_reclaimed demo_idle_kernel = TASK_VERIFIER" "trace_ring demo_idle_kernel = Some ring_demo_start"
    by (simp_all add: demo_idle_kernel_def demo_lab_kernel_def zero_kernel_def os_thread_uses_psp_def tcb_def cleared_tcb_def)
  have ring: "enabled ring_demo_start" "ring_contents ring_demo_start = []" by code_simp+
  note hal = list_uart_hal
  have buffer: "length (replicate 192 (0 :: u8)) = 192" by simp
  obtain s' k' w' f where "signal_idle_hook False (replicate 192 0) list_uart demo_idle_kernel [] s = Inr (s', k', w')"
    "w' = [] @ concat (map (\<lambda>x. frame_bytes TRACE_FRAME_RECORD (record_payload x)) (ring_contents ring_demo_start)) @
      frame_bytes TRACE_FRAME_FOOTER (footer_payload f) @ c_text (''AYMOS TRACE DONE'' @ crlf) @ c_text (result_text False)"
    using signal_idle_reports [OF demo_image_ok reference_documented demo_coefficients run idle ring_demo_start_ok ring(1) hal
        buffer, of False "[]"] by blast
  with run(1) ring(2) show ?thesis by auto
qed

section \<open>On the kernel\<close>

text \<open>From a reset, with vendor calls that succeed, the program starts as designed: it announces itself
  on the serial port and comes to a state of the kernel that is reachable, so every theorem on reachable
  states applies to the workload, in which the kernel runs at tick 0 with three periodic tasks of period 6 and
  relative deadline 3 in the slots 1 to 3, the first ready at once and the others due at the ticks 1 and 2.\<close>

theorem signal_main_starts:
  assumes "platform_ok P" and "sets_priority P" and "power_on k" and "ipsr k = 0"
    and "hal_works h" and "hal_sends transmit wire" and "hal_never_fails transmit"
    and "e1 \<noteq> 0" and "e2 \<noteq> 0" and "e3 \<noteq> 0"
  shows "\<exists>k' w'. signal_main P h transmit (e1, e2, e3) k w = Inr (OS_SVC_START, k', w') \<and>
    wire w' = wire (snd (board_init h w)) @ c_text (''AYMOS READY'' @ crlf) @ c_text (''TRACE BEGIN'' @ crlf) \<and>
    reachable P (rs, k') \<and> running k' \<and> monotonic_ticks k' = 0 \<and>
    (\<forall>i \<in> {1, 2, 3}. kind (schedules k' ! i) = OS_TASK_PERIODIC \<and> period_ticks (schedules k' ! i) = 6 \<and>
       relative_deadline_ticks (schedules k' ! i) = 3) \<and>
    map (\<lambda>i. state (schedules k' ! i)) [0, 1, 2, 3, 4] =
      [OS_TASK_READY, OS_TASK_READY, OS_TASK_WAITING_RELEASE, OS_TASK_WAITING_RELEASE, OS_TASK_DORMANT] \<and>
    map (\<lambda>i. next_release_order (schedules k' ! i)) [1, 2, 3] = [6, 1, 2]"
proof -
  let ?ts = "signal_tasks e1 e2 e3"
  have ts: "length ?ts < OS_TASK_COUNT" "\<forall>(c, _, _) \<in> set ?ts. startable c"
    "map (\<lambda>(_, i, _). unat i) ?ts = [1..<1 + length ?ts]"
    using assms(8-10) by (simp_all add: signal_tasks_def stage_startable upt_rec)
  obtain k' w' where run: "app_main P h transmit OS_TASK_ID_INVALID ?ts k w = Inr (OS_SVC_START, k', w')"
    "wire w' = wire (snd (board_init h w)) @ c_text (''AYMOS READY'' @ crlf) @ c_text (''TRACE BEGIN'' @ crlf)"
    "reachable P (rs, k')" "running k'" "monotonic_ticks k' = 0"
    "schedules k' = idle_schedule # initial_records 1 ?ts @ drop (Suc (length ?ts)) blank_schedules"
    using app_main_effect [OF assms(1-7) ts, of OS_TASK_ID_INVALID w rs] by blast
  have slots: "schedules k' = [idle_schedule, initial_record 1 (stage_config e1 0 0), initial_record 2 (stage_config e2 1 1),
      initial_record 3 (stage_config e3 2 2), blank_schedule 4]"
    using run(6) by (simp add: signal_tasks_def blank_schedules_list numeral_2_eq_2 numeral_3_eq_3)
  show ?thesis
    using run(1-5) stage_record [OF assms(8), of 0 1 0] stage_record [OF assms(9), of 1 2 1] stage_record [OF assms(10), of 2 3 2]
    by (simp add: signal_main_def slots idle_schedule_def blank_dormant)
qed

theorem signal_main_starts_witness:
  "\<exists>k' w'. signal_main demo_platform demo_hal list_uart (0x08004001, 0x08005001, 0x08006001) zero_kernel [] = Inr (OS_SVC_START, k', w') \<and>
     w' = c_text (''AYMOS READY'' @ crlf) @ c_text (''TRACE BEGIN'' @ crlf) \<and> reachable demo_platform (demo_regs, k')"
proof -
  show ?thesis
    using signal_main_starts [OF demo_platform_ok demo_priorities zero_power_on zero_thread demo_hal_works list_uart_hal,
        of "0x08004001" "0x08005001" "0x08006001" "[]" demo_regs] demo_board by auto
qed

text \<open>A task of the workload that waits for its execution tick always finds its own running job: in every
  reachable state in which it is the current task and no switch is pending, the check of the job information
  holds, the wait goes on while the job has had no tick, ends with the first, and panics only when the
  job has had more than one tick or has missed a deadline.\<close>

theorem signal_wait_sees_its_job:
  assumes "reachable P (rs, k)" and "platform_ok P" and "has_active_context k \<noteq> 0" and "\<not> pendsv_set k"
    and "current_task k \<noteq> OS_TASK_ID_IDLE"
  shows "let t = sched k (current_task k) in execution_round (current_task k) k =
    (if job_execution_ticks t = 0 then Inr False
     else if job_execution_ticks t = 1 \<and> deadline_miss_count t = 0 then Inr True else Inl ''EXECUTION_TICK'')"
proof -
  have ok: "kernel_ok P k" using reachable_ok [OF assms(1,2)] by simp
  then have mode: "unat (current_task k) < OS_TASK_COUNT" "state (sched k (current_task k)) = OS_TASK_RUNNING"
    using assms(3,4) by (simp_all add: kernel_ok_def mode_ok_def)
  have "unat (current_task k) \<noteq> 0" using assms(5) by (simp add: unat_eq_0)
  then have "job_active (sched k (current_task k))"
    using ok mode by (auto simp: kernel_ok_def slots_ok_def slot_ok_def sched_def)
  then show ?thesis
    using mode by (auto simp: execution_round_def os_task_info_def masked_def sched_def info_of_def require_def os_kernel_panic_def Let_def)
qed

lemma job_a_ticks: "job_execution_ticks job_a = 0"
  by (simp add: job_a_def job_defs step_unfold os_sched_task_reset_def os_sched_config_valid_def os_tick_interval_valid_def)

theorem signal_wait_sees_its_job_witness:
  "execution_round 1 (snd d6) = Inr False"
proof -
  have d6: "reachable demo_platform (fst d6, snd d6)" "has_active_context (snd d6) \<noteq> 0" "current_task (snd d6) \<noteq> OS_TASK_ID_IDLE"
    using d6_facts(2,5,6) by simp_all
  have "job_execution_ticks (sched (snd d6) 1) = 0" using d6_facts(4) by (simp add: sched_def job_a_ticks)
  with signal_wait_sees_its_job [OF d6(1) demo_platform_ok d6(2) d6_facts(7) d6(3)] show ?thesis by (simp add: d6_facts(5) Let_def)
qed

end
