(* ===== verification/Deadline_Lab.thy ===== *)
theory Deadline_Lab
  imports App_Start Signal_Main
begin

text \<open>
  The deadline workload: \<open>apps/deadline_lab/main.c\<close>. Its statics are the record \<open>deadline_lab\<close>, and its four
  tasks run the same code on their entries of the table \<open>workload\<close>. A task is followed in the smallest
  pieces between which another task may run: one reading of the job information, one call of
  \<open>perform_work\<close> or one kernel call. (\<open>perform_work\<close> reads one variable of another task and writes only its
  own, so running it in one piece loses no interleaving.)
\<close>

section \<open>The state\<close>

datatype task_role = ROLE_SAMPLER | ROLE_CONTROLLER | ROLE_TELEMETRY | ROLE_LOAD

record workload_task_t =
  wt_name :: "string option"
  wt_role :: task_role
  wt_id :: os_task_id_t
  wt_execution_ticks :: u32
  wt_job_limit :: u32
  wt_jobs_completed :: u32
  wt_checksum :: u32

abbreviation DL_SAMPLER :: nat where "DL_SAMPLER \<equiv> 1"
abbreviation DL_CONTROLLER :: nat where "DL_CONTROLLER \<equiv> 2"
abbreviation DL_TELEMETRY :: nat where "DL_TELEMETRY \<equiv> 3"
abbreviation DL_LOAD :: nat where "DL_LOAD \<equiv> 4"
abbreviation DL_TASK_COUNT :: os_task_id_t where "DL_TASK_COUNT \<equiv> 5"
abbreviation DL_FINAL_TICK :: u32 where "DL_FINAL_TICK \<equiv> 21"

record deadline_lab =
  workload :: "workload_task_t list"
  task_finished :: "bool list"
  sensor_sample :: u32
  control_output :: u32
  telemetry_digest :: u32
  dl_trace_flushed :: bool

text \<open>The table as it is initialised; \<open>overload\<close> is the build with the long load. \<open>main\<close> fills in the
  identifiers.\<close>

definition workload_start :: "bool \<Rightarrow> workload_task_t list" where
  "workload_start overload =
     [\<lparr>wt_name = None, wt_role = ROLE_SAMPLER, wt_id = 0, wt_execution_ticks = 0, wt_job_limit = 0,
        wt_jobs_completed = 0, wt_checksum = 0\<rparr>,
      \<lparr>wt_name = Some ''sampler'', wt_role = ROLE_SAMPLER, wt_id = 0, wt_execution_ticks = 1, wt_job_limit = 3,
        wt_jobs_completed = 0, wt_checksum = 0\<rparr>,
      \<lparr>wt_name = Some ''controller'', wt_role = ROLE_CONTROLLER, wt_id = 0, wt_execution_ticks = 2, wt_job_limit = 2,
        wt_jobs_completed = 0, wt_checksum = 0\<rparr>,
      \<lparr>wt_name = Some ''telemetry'', wt_role = ROLE_TELEMETRY, wt_id = 0, wt_execution_ticks = 1, wt_job_limit = 2,
        wt_jobs_completed = 0, wt_checksum = 0\<rparr>,
      \<lparr>wt_name = Some ''load'', wt_role = ROLE_LOAD, wt_id = 0, wt_execution_ticks = (if overload then 8 else 1),
        wt_job_limit = 1, wt_jobs_completed = 0, wt_checksum = 0\<rparr>]"

definition deadline_lab_start :: "bool \<Rightarrow> deadline_lab" where
  "deadline_lab_start overload = \<lparr>workload = workload_start overload, task_finished = replicate 5 False,
     sensor_sample = 0, control_output = 0, telemetry_digest = 0, dl_trace_flushed = False\<rparr>"

abbreviation entry_of :: "nat \<Rightarrow> deadline_lab \<Rightarrow> workload_task_t" where
  "entry_of i s \<equiv> workload s ! i"

definition set_entry :: "nat \<Rightarrow> (workload_task_t \<Rightarrow> workload_task_t) \<Rightarrow> deadline_lab \<Rightarrow> deadline_lab" where
  "set_entry i f s = s\<lparr>workload := (workload s)[i := f (workload s ! i)]\<rparr>"

section \<open>The work\<close>

definition xorshift :: "u32 \<Rightarrow> u32" where
  "xorshift value = (let a = value XOR push_bit 13 value; b = a XOR drop_bit 17 a in b XOR push_bit 5 b)"

definition work_value :: "u32 \<Rightarrow> os_task_id_t \<Rightarrow> u32 \<Rightarrow> u32 \<Rightarrow> u32" where
  "work_value checksum own job execution_step =
     (xorshift ^^ 64) (checksum XOR ucast own XOR push_bit 8 job XOR execution_step XOR 0x9E3779B9)"

definition perform_work :: "nat \<Rightarrow> u32 \<Rightarrow> u32 \<Rightarrow> deadline_lab \<Rightarrow> deadline_lab" where
  "perform_work i job execution_step s =
     (let t = entry_of i s;
          v = work_value (wt_checksum t) (wt_id t) job execution_step;
          s1 = set_entry i (\<lambda>t. t\<lparr>wt_checksum := v\<rparr>) s
      in case wt_role t of
           ROLE_SAMPLER \<Rightarrow> s1\<lparr>sensor_sample := v\<rparr>
         | ROLE_CONTROLLER \<Rightarrow> s1\<lparr>control_output := v XOR sensor_sample s1\<rparr>
         | ROLE_TELEMETRY \<Rightarrow> s1\<lparr>telemetry_digest := telemetry_digest s1 XOR (v XOR control_output s1)\<rparr>
         | ROLE_LOAD \<Rightarrow> s1)"

section \<open>The tasks\<close>

text \<open>\<open>Outer c\<close> is the head of the loop of \<open>consume_execution\<close> with \<open>completed = c\<close>, \<open>Inner n q c\<close> its inner loop
  with the ticks \<open>n\<close> and the job number \<open>q\<close> that it has read.\<close>

datatype dl_point = Start | Outer u32 | Inner u32 u32 u32 | Sleeping | Done

definition read_job :: "nat \<Rightarrow> deadline_lab \<Rightarrow> kernel \<Rightarrow> os_task_info_t option outcome" where
  "read_job i s k = on_ok (os_task_info (wt_id (entry_of i s)) True k) (\<lambda>(info, _). Inr info)"

text \<open>After the work of a job: the checks, the count, and the end or the wait for the next period.\<close>

definition finish_job :: "bool \<Rightarrow> nat \<Rightarrow> kernel \<Rightarrow> deadline_lab \<Rightarrow> (dl_point \<times> deadline_lab) outcome" where
  "finish_job overload i k s =
     on_ok (read_job i s k) (\<lambda>info.
     on_ok (require (info \<noteq> None \<and> info_job_active (the info) \<and> info_state (the info) = OS_TASK_RUNNING) ''TASK_INFO'') (\<lambda>_.
     let s1 = set_entry i (\<lambda>t. t\<lparr>wt_jobs_completed := wt_jobs_completed t + 1\<rparr>) s; t = entry_of i s1
     in if wt_jobs_completed t = wt_job_limit t then
          on_ok (if wt_role t = ROLE_LOAD then
                   on_ok (os_tick_count k) (\<lambda>(now, _).
                     if overload then require (info_deadline_miss_count (the info) = 1 \<and> now = 12) ''OVERLOAD_MISS''
                     else require (info_deadline_miss_count (the info) = 0 \<and> now = 4) ''NORMAL_LOAD'')
                 else Inr ()) (\<lambda>_.
          Inr (Done, s1\<lparr>task_finished := (task_finished s1)[unat (wt_id t) := True]\<rparr>))
        else on_ok (require (info_deadline_miss_count (the info) = 0 \<and> os_wait_next_period k \<noteq> None) ''WAIT_PERIOD'') (\<lambda>_.
          Inr (Sleeping, s1))))"

definition workload_task :: "bool \<Rightarrow> nat \<Rightarrow> kernel \<Rightarrow> dl_point \<Rightarrow> deadline_lab \<Rightarrow> (dl_point \<times> deadline_lab) outcome" where
  "workload_task overload i k p s = (let t = entry_of i s in case p of
     Start \<Rightarrow> on_ok (require (wt_id t = os_current_task k \<and> wt_id t > OS_TASK_ID_IDLE \<and> wt_id t < DL_TASK_COUNT \<and>
         wt_name t \<noteq> None \<and> os_thread_uses_psp k) ''TASK_START'') (\<lambda>_. Inr (Outer 0, s))
   | Outer completed \<Rightarrow>
       if completed < wt_execution_ticks t then
         on_ok (read_job i s k) (\<lambda>info.
         on_ok (require (info \<noteq> None \<and> info_job_active (the info)) ''EXECUTION_INFO'') (\<lambda>_.
           Inr (Inner (info_job_execution_ticks (the info)) (info_job_sequence (the info)) completed, s)))
       else finish_job overload i k s
   | Inner ticks job completed \<Rightarrow>
       if completed < ticks \<and> completed < wt_execution_ticks t
       then Inr (Inner ticks job (completed + 1), perform_work i job completed s)
       else Inr (Outer completed, s)
   | Sleeping \<Rightarrow> Inr (Outer 0, s)
   | Done \<Rightarrow> Inr (p, s))"

section \<open>Start and end\<close>

definition deadline_tasks :: "u32 \<Rightarrow> (nat \<Rightarrow> u32) \<Rightarrow> bool \<Rightarrow> wanted_task list" where
  "deadline_tasks task_entry_address arg overload =
     (let config = (\<lambda>i knd delay period deadline budget prio. let c = os_task_config_default task_entry_address (arg i)
        in c\<lparr>tc_timing := \<lparr>cfg_kind = knd, cfg_initial_release_delay_ticks = delay, cfg_period_ticks = period,
             cfg_relative_deadline_ticks = deadline, cfg_execution_budget_ticks = budget, cfg_priority = prio\<rparr>\<rparr>)
      in [(config DL_SAMPLER OS_TASK_PERIODIC 0 6 3 1 0, 1, ''CREATE_SAMPLER''),
          (config DL_CONTROLLER OS_TASK_PERIODIC 1 10 8 2 1, 2, ''CREATE_CONTROLLER''),
          (config DL_TELEMETRY OS_TASK_PERIODIC 2 18 14 1 2, 3, ''CREATE_TELEMETRY''),
          (config DL_LOAD OS_TASK_ONE_SHOT 0 0 12 (if overload then 8 else 1) 3, 4, ''CREATE_LOAD'')])"

text \<open>The identifiers that the calls of \<open>os_task_create\<close> store in the table.\<close>

definition identified :: "deadline_lab \<Rightarrow> deadline_lab" where
  "identified = fold (\<lambda>i. set_entry i (\<lambda>t. t\<lparr>wt_id := of_nat i\<rparr>)) [DL_SAMPLER, DL_CONTROLLER, DL_TELEMETRY, DL_LOAD]"

definition deadline_main ::
  "platform \<Rightarrow> 'w hal \<Rightarrow> (u8 list \<Rightarrow> 'w \<Rightarrow> hal_status \<times> 'w) \<Rightarrow> u32 \<Rightarrow> (nat \<Rightarrow> u32) \<Rightarrow> bool \<Rightarrow> kernel \<Rightarrow> 'w \<Rightarrow>
   deadline_lab \<Rightarrow> (u8 \<times> kernel \<times> 'w \<times> deadline_lab) outcome" where
  "deadline_main P h transmit task_entry_address arg overload k w s =
     on_ok (app_main P h transmit 0 (deadline_tasks task_entry_address arg overload) k w)
       (\<lambda>(service, k', w'). Inr (service, k', w', identified s))"

definition deadline_idle_hook ::
  "(u8 list \<Rightarrow> 'w \<Rightarrow> hal_status \<times> 'w) \<Rightarrow> kernel \<Rightarrow> 'w \<Rightarrow> deadline_lab \<Rightarrow> (deadline_lab \<times> kernel \<times> 'w) outcome" where
  "deadline_idle_hook transmit k w s =
     (if dl_trace_flushed s \<or> \<not> task_finished s ! DL_SAMPLER \<or> \<not> task_finished s ! DL_CONTROLLER \<or>
         \<not> task_finished s ! DL_TELEMETRY \<or> \<not> task_finished s ! DL_LOAD
      then Inr (s, k, w)
      else
        on_ok (require (os_thread_uses_psp k) ''IDLE_PSP'') (\<lambda>_.
        on_ok (os_tick_count k) (\<lambda>(now, k1).
        on_ok (require (now = DL_FINAL_TICK \<and> os_reclaim_count k1 = 4 \<and>
            os_last_reclaimed_task k1 = of_nat DL_TELEMETRY \<and> sensor_sample s \<noteq> 0 \<and> control_output s \<noteq> 0 \<and>
            telemetry_digest s \<noteq> 0) ''LAB_COMPLETE'') (\<lambda>_.
        let s1 = s\<lparr>dl_trace_flushed := True\<rparr>; (res, k2, w2) = finish_trace transmit k1 w
        in on_ok (require (res = 1) ''TRACE_FLUSH'') (\<lambda>_.
           on_ok (write_line transmit (''AYMOS TRACE DONE'' @ crlf) w2) (\<lambda>w3. Inr (s1, k2, w3)))))))"

section \<open>Any order of the tasks\<close>

type_synonym dl_state = "(nat \<Rightarrow> dl_point) \<times> deadline_lab"

definition dl_step :: "bool \<Rightarrow> nat \<times> kernel \<Rightarrow> dl_state \<Rightarrow> dl_state outcome" where
  "dl_step overload event c = (let (i, k) = event; (at, s) = c
     in on_ok (workload_task overload i k (at i) s) (\<lambda>(p, s'). Inr (at(i := p), s')))"

fun dl_run :: "bool \<Rightarrow> (nat \<times> kernel) list \<Rightarrow> dl_state \<Rightarrow> dl_state outcome" where
  "dl_run overload [] c = Inr c"
| "dl_run overload (event # later) c = on_ok (dl_step overload event c) (dl_run overload later)"

definition dl_begin :: "bool \<Rightarrow> dl_state" where
  "dl_begin overload = (\<lambda>_. Start, identified (deadline_lab_start overload))"

end
