(* ===== verification/Deadline_Runs.thy ===== *)
theory Deadline_Runs
  imports Deadline_Lab Signal_Eval Kernel_Context
begin

text \<open>
  The invariant of the deadline workload over any order of the pieces of its tasks: the checksum of a task
  is a function of the work it has done, and what the tasks share is built from these checksums.
\<close>

section \<open>The work of a task\<close>

definition ticks_of :: "bool \<Rightarrow> nat \<Rightarrow> nat" where
  "ticks_of overload i = [0, 1, 2, 1, if overload then 8 else 1] ! i"

definition jobs_of :: "nat \<Rightarrow> nat" where
  "jobs_of i = [0, 3, 2, 2, 1] ! i"

definition role_of :: "nat \<Rightarrow> task_role" where
  "role_of i = [ROLE_SAMPLER, ROLE_SAMPLER, ROLE_CONTROLLER, ROLE_TELEMETRY, ROLE_LOAD] ! i"

text \<open>The checksum after \<open>n\<close> calls of \<open>perform_work\<close>, \<open>e\<close> for each job.\<close>

fun work_chain :: "nat \<Rightarrow> os_task_id_t \<Rightarrow> nat \<Rightarrow> u32" where
  "work_chain e own 0 = 0"
| "work_chain e own (Suc n) = work_value (work_chain e own n) own (of_nat (n div e) + 1) (of_nat (n mod e))"

fun completed_at :: "dl_point \<Rightarrow> nat" where
  "completed_at (Outer c) = unat c"
| "completed_at (Inner _ _ c) = unat c"
| "completed_at _ = 0"

definition calls :: "bool \<Rightarrow> nat \<Rightarrow> dl_point \<Rightarrow> workload_task_t \<Rightarrow> nat" where
  "calls overload i p t = unat (wt_jobs_completed t) * ticks_of overload i + completed_at p"

fun point_fits :: "nat \<Rightarrow> nat \<Rightarrow> u32 \<Rightarrow> dl_point \<Rightarrow> bool" where
  "point_fits e limit jobs Start \<longleftrightarrow> unat jobs < limit"
| "point_fits e limit jobs (Outer c) \<longleftrightarrow> unat jobs < limit \<and> unat c \<le> e"
| "point_fits e limit jobs (Inner _ q c) \<longleftrightarrow> unat jobs < limit \<and> unat c \<le> e \<and> q = jobs + 1"
| "point_fits e limit jobs Sleeping \<longleftrightarrow> unat jobs < limit"
| "point_fits e limit jobs Done \<longleftrightarrow> unat jobs = limit"

definition local_ok :: "bool \<Rightarrow> nat \<Rightarrow> dl_point \<Rightarrow> workload_task_t \<Rightarrow> bool \<Rightarrow> bool" where
  "local_ok overload i p t fin \<longleftrightarrow> wt_id t = of_nat i \<and> wt_name t \<noteq> None \<and> wt_role t = role_of i \<and>
     wt_execution_ticks t = of_nat (ticks_of overload i) \<and> wt_job_limit t = of_nat (jobs_of i) \<and>
     point_fits (ticks_of overload i) (jobs_of i) (wt_jobs_completed t) p \<and>
     wt_checksum t = work_chain (ticks_of overload i) (of_nat i) (calls overload i p t) \<and> (fin \<longleftrightarrow> p = Done)"

definition dl_tasks :: "nat set" where "dl_tasks = {DL_SAMPLER, DL_CONTROLLER, DL_TELEMETRY, DL_LOAD}"

text \<open>What the tasks share: the sample of the sampler, some output of the controller on some sample, and the
  digest of the telemetry over the outputs that it has seen.\<close>

definition sample_values :: "u32 set" where
  "sample_values = work_chain 1 1 ` {..3}"

definition outputs_after :: "nat \<Rightarrow> u32 set" where
  "outputs_after n = (if n = 0 then {0} else (\<lambda>x. work_chain 2 2 n XOR x) ` sample_values)"

definition possible_outputs :: "u32 set" where
  "possible_outputs = (\<Union>n\<in>{..4}. outputs_after n)"

fun digests_after :: "nat \<Rightarrow> u32 set" where
  "digests_after 0 = {0}"
| "digests_after (Suc n) = (\<lambda>(d, x). d XOR (work_chain 1 3 (Suc n) XOR x)) ` (digests_after n \<times> possible_outputs)"

declare work_chain.simps [simp del] digests_after.simps [simp del]

definition shared_ok :: "dl_state \<Rightarrow> bool" where
  "shared_ok c \<longleftrightarrow> (let (at, s) = c; count = (\<lambda>i. calls False i (at i) (entry_of i s)) in
     sensor_sample s = wt_checksum (entry_of DL_SAMPLER s) \<and> control_output s \<in> outputs_after (count DL_CONTROLLER) \<and>
     telemetry_digest s \<in> digests_after (count DL_TELEMETRY))"

definition dl_inv :: "bool \<Rightarrow> dl_state \<Rightarrow> bool" where
  "dl_inv overload c \<longleftrightarrow> (let (at, s) = c in length (workload s) = 5 \<and> length (task_finished s) = 5 \<and>
     (\<forall>i \<in> dl_tasks. local_ok overload i (at i) (entry_of i s) (task_finished s ! i)) \<and> \<not> dl_trace_flushed s \<and> shared_ok c)"

lemma task_numbers:
  assumes "i \<in> dl_tasks"
  shows "i < 5" "0 < ticks_of overload i" "ticks_of overload i \<le> 8" "jobs_of i \<le> 3" "0 < jobs_of i"
    "unat (of_nat i :: os_task_id_t) = i"
  using assms by (auto simp: dl_tasks_def ticks_of_def jobs_of_def)

lemma small_words:
  assumes "i \<in> dl_tasks"
  shows "unat (of_nat (ticks_of overload i) :: u32) = ticks_of overload i" "unat (of_nat (jobs_of i) :: u32) = jobs_of i"
  using assms by (auto simp: dl_tasks_def ticks_of_def jobs_of_def)

lemma dl_begin_inv: "dl_inv overload (dl_begin overload)"
  by (auto simp: dl_inv_def dl_begin_def dl_tasks_def identified_def deadline_lab_start_def workload_start_def set_entry_def
      local_ok_def role_of_def ticks_of_def jobs_of_def calls_def shared_ok_def outputs_after_def digests_after.simps work_chain.simps)

section \<open>A step of a task\<close>

text \<open>The kernel shows a task its own job: the number of the job that it works on.\<close>

definition own_job :: "nat \<times> kernel \<Rightarrow> dl_state \<Rightarrow> bool" where
  "own_job event c \<longleftrightarrow> (case fst c (fst event) of
     Outer _ \<Rightarrow> let t = entry_of (fst event) (snd c) in job_sequence (sched (snd event) (wt_id t)) = wt_jobs_completed t + 1
   | _ \<Rightarrow> True)"

lemma entry_set [simp]:
  "i < length (workload s) \<Longrightarrow> workload (set_entry i f s) ! j = (if i = j then f (workload s ! i) else workload s ! j)"
  "length (workload (set_entry i f s)) = length (workload s)" "task_finished (set_entry i f s) = task_finished s"
  "sensor_sample (set_entry i f s) = sensor_sample s" "control_output (set_entry i f s) = control_output s"
  "telemetry_digest (set_entry i f s) = telemetry_digest s" "dl_trace_flushed (set_entry i f s) = dl_trace_flushed s"
  by (simp_all add: set_entry_def)

text \<open>Every piece but a call of \<open>perform_work\<close> leaves the checksums and the shared variables alone.\<close>

definition same_shared :: "deadline_lab \<Rightarrow> deadline_lab \<Rightarrow> bool" where
  "same_shared s s' \<longleftrightarrow> sensor_sample s' = sensor_sample s \<and> control_output s' = control_output s \<and>
     telemetry_digest s' = telemetry_digest s \<and> dl_trace_flushed s' = dl_trace_flushed s"

lemma next_small: "unat c < 2 ^ 32 - 1 \<Longrightarrow> unat (c + 1 :: u32) = Suc (unat c)"
  by (simp add: unat_add32)

lemma finish_job_effect:
  assumes "i \<in> dl_tasks" and "length (workload s) = 5" and "length (task_finished s) = 5"
    and ok: "local_ok overload i (Outer c) (entry_of i s) (task_finished s ! i)" and "unat c = ticks_of overload i"
    and run: "finish_job overload i k s = Inr (p, s')"
  shows "local_ok overload i p (entry_of i s') (task_finished s' ! i) \<and> same_shared s s' \<and>
    calls overload i p (entry_of i s') = calls overload i (Outer c) (entry_of i s) \<and>
    wt_checksum (entry_of i s') = wt_checksum (entry_of i s) \<and> length (workload s') = 5 \<and> length (task_finished s') = 5 \<and>
    (\<forall>j. j \<noteq> i \<longrightarrow> entry_of j s' = entry_of j s \<and> task_finished s' ! j = task_finished s ! j)"
proof -
  let ?t = "entry_of i s"
  define s1 where "s1 = set_entry i (\<lambda>t. t\<lparr>wt_jobs_completed := wt_jobs_completed t + 1\<rparr>) s"
  note n = task_numbers [OF assms(1)] small_words [OF assms(1)]
  have jobs: "unat (wt_jobs_completed ?t) < jobs_of i" using ok by (simp add: local_ok_def)
  then have up: "unat (wt_jobs_completed ?t + 1) = Suc (unat (wt_jobs_completed ?t))" using n(4) by (intro next_small) simp
  have t1: "entry_of i s1 = ?t\<lparr>wt_jobs_completed := wt_jobs_completed ?t + 1\<rparr>" using n(1) assms(2) by (simp add: s1_def)
  have last: "wt_jobs_completed ?t + 1 = wt_job_limit ?t \<longleftrightarrow> Suc (unat (wt_jobs_completed ?t)) = jobs_of i"
    using ok up n(8) by (simp add: local_ok_def word_unat_eq_iff)
  have calls: "calls overload i p (entry_of i s1) = calls overload i (Outer c) ?t" if "completed_at p = 0" for p
    using that assms(5) by (simp add: calls_def t1 up)
  from run consider "Suc (unat (wt_jobs_completed ?t)) = jobs_of i" "p = Done" "s' = s1\<lparr>task_finished := (task_finished s1)[i := True]\<rparr>"
    | "Suc (unat (wt_jobs_completed ?t)) \<noteq> jobs_of i" "p = Sleeping" "s' = s1"
    using last ok n(6) unfolding finish_job_def s1_def [symmetric]
    by (auto simp: on_ok_eq_Inr Let_def t1 local_ok_def split: if_splits)
  then show ?thesis
  proof cases
    case 1
    then show ?thesis
      using ok up calls [of Done] assms(2,3) n(1)
      by (simp add: local_ok_def same_shared_def t1) (simp add: s1_def)
  next
    case 2
    then show ?thesis
      using ok up calls [of Sleeping] assms(2,3) n(1) jobs
      by (simp add: local_ok_def same_shared_def t1) (simp add: s1_def)
  qed
qed

lemma calls_bound:
  assumes "i \<in> dl_tasks" and "local_ok overload i p t fin"
  shows "calls overload i p t \<le> jobs_of i * ticks_of overload i"
proof -
  have "calls overload i p t \<le> unat (wt_jobs_completed t) * ticks_of overload i + ticks_of overload i \<and> unat (wt_jobs_completed t) < jobs_of i
      \<or> p = Done \<and> unat (wt_jobs_completed t) = jobs_of i"
    using assms(2) by (cases p) (auto simp: local_ok_def calls_def)
  then show ?thesis
  proof (elim disjE conjE)
    assume a: "calls overload i p t \<le> unat (wt_jobs_completed t) * ticks_of overload i + ticks_of overload i"
      "unat (wt_jobs_completed t) < jobs_of i"
    have "Suc (unat (wt_jobs_completed t)) * ticks_of overload i \<le> jobs_of i * ticks_of overload i"
      using a(2) by (intro mult_le_mono1) simp
    with a(1) show ?thesis by simp
  qed (simp add: calls_def)
qed

lemma perform_work_effect:
  assumes i: "i \<in> dl_tasks" and len: "length (workload s) = 5"
    and ok: "local_ok overload i (Inner n q c) (entry_of i s) fin" and c: "unat c < ticks_of overload i"
  defines "s' \<equiv> perform_work i q c s"
    and "v \<equiv> work_chain (ticks_of overload i) (of_nat i) (Suc (calls overload i (Inner n q c) (entry_of i s)))"
  shows "entry_of i s' = (entry_of i s)\<lparr>wt_checksum := v\<rparr>" "j \<noteq> i \<Longrightarrow> entry_of j s' = entry_of j s"
    "length (workload s') = 5" "task_finished s' = task_finished s" "dl_trace_flushed s' = dl_trace_flushed s"
    "sensor_sample s' = (if i = DL_SAMPLER then v else sensor_sample s)"
    "control_output s' = (if i = DL_CONTROLLER then v XOR sensor_sample s else control_output s)"
    "telemetry_digest s' = (if i = DL_TELEMETRY then telemetry_digest s XOR (v XOR control_output s) else telemetry_digest s)"
    "local_ok overload i (Inner n q (c + 1)) (entry_of i s') fin"
    "calls overload i (Inner n q (c + 1)) (entry_of i s') = Suc (calls overload i (Inner n q c) (entry_of i s))"
proof -
  let ?t = "entry_of i s" and ?e = "ticks_of overload i"
  note num = task_numbers [OF i]
  have q: "q = wt_jobs_completed ?t + 1" using ok by (simp add: local_ok_def)
  have div: "calls overload i (Inner n q' c) ?t div ?e = unat (wt_jobs_completed ?t)"
    "calls overload i (Inner n q' c) ?t mod ?e = unat c" for q' using c by (simp_all add: calls_def)
  have v: "work_value (wt_checksum ?t) (wt_id ?t) q c = v"
    using ok by (simp add: local_ok_def v_def q div work_chain.simps)
  define s1 where "s1 = set_entry i (\<lambda>t. t\<lparr>wt_checksum := v\<rparr>) s"
  have entry: "entry_of i s1 = ?t\<lparr>wt_checksum := v\<rparr>" "j \<noteq> i \<Longrightarrow> entry_of j s1 = entry_of j s" for j
    using num(1) len by (simp_all add: s1_def)
  have s': "s' = (case role_of i of ROLE_SAMPLER \<Rightarrow> s1\<lparr>sensor_sample := v\<rparr>
         | ROLE_CONTROLLER \<Rightarrow> s1\<lparr>control_output := v XOR sensor_sample s1\<rparr>
         | ROLE_TELEMETRY \<Rightarrow> s1\<lparr>telemetry_digest := telemetry_digest s1 XOR (v XOR control_output s1)\<rparr>
         | ROLE_LOAD \<Rightarrow> s1)"
    using ok unfolding s'_def perform_work_def Let_def v s1_def [symmetric] by (simp add: local_ok_def)
  have work: "workload s' = workload s1" by (simp add: s' split: task_role.split)
  show e: "entry_of i s' = ?t\<lparr>wt_checksum := v\<rparr>" and "j \<noteq> i \<Longrightarrow> entry_of j s' = entry_of j s" and "length (workload s') = 5"
    using entry len by (simp_all add: work) (simp add: s1_def)
  consider "i = DL_SAMPLER" | "i = DL_CONTROLLER" | "i = DL_TELEMETRY" | "i = DL_LOAD" using i by (auto simp: dl_tasks_def)
  then have "task_finished s' = task_finished s \<and> dl_trace_flushed s' = dl_trace_flushed s \<and>
    sensor_sample s' = (if i = DL_SAMPLER then v else sensor_sample s) \<and>
    control_output s' = (if i = DL_CONTROLLER then v XOR sensor_sample s else control_output s) \<and>
    telemetry_digest s' = (if i = DL_TELEMETRY then telemetry_digest s XOR (v XOR control_output s) else telemetry_digest s)"
    by cases (simp_all add: s' role_of_def s1_def)
  then show "task_finished s' = task_finished s" "dl_trace_flushed s' = dl_trace_flushed s"
    "sensor_sample s' = (if i = DL_SAMPLER then v else sensor_sample s)"
    "control_output s' = (if i = DL_CONTROLLER then v XOR sensor_sample s else control_output s)"
    "telemetry_digest s' = (if i = DL_TELEMETRY then telemetry_digest s XOR (v XOR control_output s) else telemetry_digest s)"
    by simp_all
  have up: "unat (c + 1) = Suc (unat c)" using le_less_trans [of "unat c" 8 "2 ^ 32 - 1"] c num(3) [of overload] by (intro next_small) simp
  then show calls: "calls overload i (Inner n q (c + 1)) (entry_of i s') = Suc (calls overload i (Inner n q c) ?t)"
    by (simp add: calls_def e)
  show "local_ok overload i (Inner n q (c + 1)) (entry_of i s') fin"
    using ok c up calls by (simp add: local_ok_def e v_def)
qed

section \<open>The invariant\<close>

lemma sampler_checksum:
  assumes "local_ok overload DL_SAMPLER p t fin"
  shows "wt_checksum t \<in> sample_values"
proof -
  have "calls overload DL_SAMPLER p t \<le> 3" using calls_bound [OF _ assms] by (simp add: dl_tasks_def jobs_of_def ticks_of_def)
  moreover have "wt_checksum t = work_chain 1 1 (calls overload DL_SAMPLER p t)" using assms by (simp add: local_ok_def ticks_of_def)
  ultimately show ?thesis unfolding sample_values_def by blast
qed

text \<open>The counts of the first three tasks do not depend on the build.\<close>

lemma calls_any: "i \<in> {DL_SAMPLER, DL_CONTROLLER, DL_TELEMETRY} \<Longrightarrow> calls overload i p t = calls False i p t"
  by (auto simp: calls_def ticks_of_def)

lemma controller_output:
  assumes "dl_inv overload (at, s)"
  shows "control_output s \<in> possible_outputs"
proof -
  define n where "n = calls False DL_CONTROLLER (at DL_CONTROLLER) (entry_of DL_CONTROLLER s)"
  have "local_ok overload DL_CONTROLLER (at DL_CONTROLLER) (entry_of DL_CONTROLLER s) (task_finished s ! DL_CONTROLLER)"
    using assms by (simp add: dl_inv_def dl_tasks_def)
  from calls_bound [OF _ this] have "n \<le> 4"
    by (simp add: dl_tasks_def jobs_of_def ticks_of_def n_def calls_def)
  moreover have "control_output s \<in> outputs_after n" using assms by (simp add: dl_inv_def shared_ok_def n_def)
  ultimately show ?thesis unfolding possible_outputs_def by blast
qed

text \<open>A piece that keeps the checksums and the counts.\<close>

lemma shared_ok_keep:
  assumes "shared_ok (at, s)" and "same_shared s s'"
    and "calls False i p (entry_of i s') = calls False i (at i) (entry_of i s)"
    and "wt_checksum (entry_of i s') = wt_checksum (entry_of i s)" and "\<forall>j. j \<noteq> i \<longrightarrow> entry_of j s' = entry_of j s"
  shows "shared_ok (at(i := p), s')"
proof -
  have "calls False j ((at(i := p)) j) (entry_of j s') = calls False j (at j) (entry_of j s)"
    "wt_checksum (entry_of j s') = wt_checksum (entry_of j s)" for j
    using assms(3-5) by (cases "j = i"; simp)+
  with assms(1,2) show ?thesis by (simp add: shared_ok_def same_shared_def del: fun_upd_apply)
qed

lemma dl_inv_keep:
  assumes inv: "dl_inv overload (at, s)" and i: "i \<in> dl_tasks" and "same_shared s s'"
    and "local_ok overload i p (entry_of i s') (task_finished s' ! i)"
    and "calls overload i p (entry_of i s') = calls overload i (at i) (entry_of i s)"
    and "wt_checksum (entry_of i s') = wt_checksum (entry_of i s)"
    and "length (workload s') = 5" "length (task_finished s') = 5"
    and other: "\<forall>j. j \<noteq> i \<longrightarrow> entry_of j s' = entry_of j s \<and> task_finished s' ! j = task_finished s ! j"
  shows "dl_inv overload (at(i := p), s')"
proof -
  have "calls False i p (entry_of i s') = calls False i (at i) (entry_of i s) \<or> i = DL_LOAD"
    using assms(5) i calls_any [of i overload] by (auto simp: dl_tasks_def)
  then have "shared_ok (at(i := p), s')"
  proof
    assume "calls False i p (entry_of i s') = calls False i (at i) (entry_of i s)"
    with inv other show ?thesis by (intro shared_ok_keep [OF _ assms(3) _ assms(6)]) (simp_all add: dl_inv_def)
  next
    assume load: "i = DL_LOAD"
    then have "entry_of j s' = entry_of j s" if "j \<in> {DL_SAMPLER, DL_CONTROLLER, DL_TELEMETRY}" for j using other that by auto
    with inv assms(3) load show ?thesis by (simp add: dl_inv_def shared_ok_def same_shared_def)
  qed
  moreover have "\<forall>j \<in> dl_tasks. local_ok overload j ((at(i := p)) j) (entry_of j s') (task_finished s' ! j)"
    using inv assms(4) other by (simp add: dl_inv_def)
  ultimately show ?thesis using inv assms(3,7,8) by (simp add: dl_inv_def same_shared_def)
qed

lemma perform_work_inv:
  assumes inv: "dl_inv overload (at, s)" and i: "i \<in> dl_tasks" and p: "at i = Inner n q c" and c: "unat c < ticks_of overload i"
  shows "dl_inv overload (at(i := Inner n q (c + 1)), perform_work i q c s)"
proof -
  let ?s' = "perform_work i q c s" and ?at' = "at(i := Inner n q (c + 1))"
  let ?count = "\<lambda>j. calls False j (at j) (entry_of j s)"
  have len: "length (workload s) = 5" and ok: "local_ok overload i (Inner n q c) (entry_of i s) (task_finished s ! i)"
    using inv i p by (auto simp: dl_inv_def)
  define v where "v = work_chain (ticks_of overload i) (of_nat i) (Suc (calls overload i (Inner n q c) (entry_of i s)))"
  note eff = perform_work_effect [OF i len ok c, folded v_def]
  have sampler: "wt_checksum (entry_of DL_SAMPLER s) \<in> sample_values"
    using inv sampler_checksum by (auto simp: dl_inv_def dl_tasks_def)
  have shared: "sensor_sample s = wt_checksum (entry_of DL_SAMPLER s)" "control_output s \<in> outputs_after (?count DL_CONTROLLER)"
    "telemetry_digest s \<in> digests_after (?count DL_TELEMETRY)"
    using inv by (simp_all add: dl_inv_def shared_ok_def)
  have same: "entry_of j ?s' = entry_of j s" "calls False j (?at' j) (entry_of j ?s') = ?count j" if "j \<noteq> i" for j
    using eff(2) [OF that] that by simp_all
  have up: "calls False i (?at' i) (entry_of i ?s') = Suc (?count i)" if "i \<in> {DL_SAMPLER, DL_CONTROLLER, DL_TELEMETRY}"
    using eff(10) calls_any [OF that, of overload] p by simp
  have sensor: "sensor_sample ?s' = wt_checksum (entry_of DL_SAMPLER ?s')"
    using eff(6) eff(1) shared(1) same(1) [of DL_SAMPLER] by (cases "i = DL_SAMPLER") auto
  have control: "control_output ?s' \<in> outputs_after (calls False DL_CONTROLLER (?at' DL_CONTROLLER) (entry_of DL_CONTROLLER ?s'))"
  proof (cases "i = DL_CONTROLLER")
    case True
    then have "v = work_chain 2 2 (Suc (?count DL_CONTROLLER))"
      using calls_any [of DL_CONTROLLER overload] p by (simp add: v_def ticks_of_def)
    then show ?thesis
      using up eff(7) shared(1) sampler True by (simp add: outputs_after_def)
  next
    case False
    then show ?thesis using same(2) [of DL_CONTROLLER] eff(7) shared(2) by simp
  qed
  have digest: "telemetry_digest ?s' \<in> digests_after (calls False DL_TELEMETRY (?at' DL_TELEMETRY) (entry_of DL_TELEMETRY ?s'))"
  proof (cases "i = DL_TELEMETRY")
    case True
    then have "v = work_chain 1 3 (Suc (?count DL_TELEMETRY))"
      using calls_any [of DL_TELEMETRY overload] p by (simp add: v_def ticks_of_def)
    moreover have "control_output s \<in> possible_outputs" by (rule controller_output [OF inv])
    ultimately show ?thesis
      using up eff(8) shared(3) True by (force simp: digests_after.simps)
  next
    case False
    then show ?thesis using same(2) [of DL_TELEMETRY] eff(8) shared(3) by simp
  qed
  have "shared_ok (?at', ?s')" using sensor control digest by (simp add: shared_ok_def del: fun_upd_apply)
  moreover have "local_ok overload j (?at' j) (entry_of j ?s') (task_finished ?s' ! j)" if "j \<in> dl_tasks" for j
    using inv that eff(4,9) same(1) by (cases "j = i") (auto simp: dl_inv_def)
  ultimately show ?thesis using inv eff(3-5) by (simp add: dl_inv_def)
qed

lemma read_job_info: "read_job i s k = Inr (Some x) \<Longrightarrow> x = info_of (wt_id (entry_of i s)) (sched k (wt_id (entry_of i s)))"
  by (auto simp: read_job_def os_task_info_def masked_def sched_def on_ok_eq_Inr split: if_splits)

lemma dl_step_inv:
  assumes inv: "dl_inv overload (at, s)" and i: "i \<in> dl_tasks" and own: "own_job (i, k) (at, s)"
    and run: "dl_step overload (i, k) (at, s) = Inr (at', s')"
  shows "dl_inv overload (at', s')"
proof -
  let ?t = "entry_of i s" and ?e = "ticks_of overload i"
  note num = task_numbers [OF i] small_words(1) [OF i]
  have len: "length (workload s) = 5" "length (task_finished s) = 5" and ok: "local_ok overload i (at i) ?t (task_finished s ! i)"
    using inv i by (auto simp: dl_inv_def)
  have idle: "dl_inv overload (at(i := p), s)"
    if "local_ok overload i p ?t (task_finished s ! i)" "calls overload i p ?t = calls overload i (at i) ?t" for p
    by (rule dl_inv_keep [OF inv i]) (use that len in \<open>simp_all add: same_shared_def\<close>)
  obtain p where step: "workload_task overload i k (at i) s = Inr (p, s')" "at' = at(i := p)"
    using run by (auto simp: dl_step_def on_ok_eq_Inr)
  show ?thesis
  proof (cases "at i")
    case Start
    with step have "p = Outer 0" "s' = s" by (auto simp: workload_task_def Let_def on_ok_eq_Inr)
    with idle [of "Outer 0"] ok Start step(2) show ?thesis by (simp add: local_ok_def calls_def)
  next
    case (Outer c)
    show ?thesis
    proof (cases "c < of_nat ?e")
      case True
      with step(1) Outer ok obtain x where x: "read_job i s k = Inr (Some x)"
        "p = Inner (info_job_execution_ticks x) (info_job_sequence x) c" "s' = s"
        by (auto simp: workload_task_def on_ok_eq_Inr local_ok_def)
      then have "info_job_sequence x = wt_jobs_completed ?t + 1"
        using read_job_info [OF x(1)] own Outer by (simp add: own_job_def Let_def info_of_def)
      with x obtain n where "p = Inner n (wt_jobs_completed ?t + 1) c" "s' = s" by simp
      with idle [of p] ok Outer step(2) show ?thesis by (simp add: local_ok_def calls_def)
    next
      case False
      then have c: "unat c = ?e" using ok Outer num(7) [of overload] by (simp add: local_ok_def word_less_nat_alt)
      have "finish_job overload i k s = Inr (p, s')" using step(1) Outer False ok by (simp add: workload_task_def local_ok_def)
      note eff = finish_job_effect [OF i len ok [unfolded Outer] c this]
      show ?thesis unfolding step(2) by (rule dl_inv_keep [OF inv i]) (use eff Outer in simp_all)
    qed
  next
    case (Inner n q c)
    show ?thesis
    proof (cases "c < n \<and> c < of_nat ?e")
      case True
      then have c: "unat c < ?e" using num(7) [of overload] by (simp add: word_less_nat_alt)
      have "p = Inner n q (c + 1)" "s' = perform_work i q c s" using step(1) Inner True ok by (auto simp: workload_task_def local_ok_def)
      with perform_work_inv [OF inv i Inner c] step(2) show ?thesis by simp
    next
      case False
      then have "p = Outer c" "s' = s" using step(1) Inner ok by (auto simp: workload_task_def local_ok_def)
      with idle [of "Outer c"] ok Inner step(2) show ?thesis by (simp add: local_ok_def calls_def)
    qed
  next
    case Sleeping
    with step have "p = Outer 0" "s' = s" by (auto simp: workload_task_def)
    with idle [of "Outer 0"] ok Sleeping step(2) show ?thesis by (simp add: local_ok_def calls_def)
  next
    case Done
    with step have "p = Done" "s' = s" by (auto simp: workload_task_def)
    with idle [of Done] ok Done step(2) show ?thesis by simp
  qed
qed

text \<open>A run in which every task sees its own jobs.\<close>

fun own_jobs :: "bool \<Rightarrow> (nat \<times> kernel) list \<Rightarrow> dl_state \<Rightarrow> bool" where
  "own_jobs overload [] c \<longleftrightarrow> True"
| "own_jobs overload (event # later) c \<longleftrightarrow> own_job event c \<and>
     (case dl_step overload event c of Inl _ \<Rightarrow> True | Inr c' \<Rightarrow> own_jobs overload later c')"

lemma dl_run_inv:
  assumes "dl_inv overload c" and "fst ` set events \<subseteq> dl_tasks" and "own_jobs overload events c"
    and "dl_run overload events c = Inr c'"
  shows "dl_inv overload c'"
  using assms
proof (induction events arbitrary: c)
  case (Cons event later)
  obtain i k where ev: "event = (i, k)" by (cases event)
  obtain "at" s where c: "c = (at, s)" by (cases c)
  from Cons.prems(4) obtain d where d: "dl_step overload event c = Inr d" "dl_run overload later d = Inr c'"
    by (auto simp: on_ok_eq_Inr)
  obtain at' s' where d': "d = (at', s')" by (cases d)
  have "dl_inv overload d"
    using dl_step_inv [of overload "at" s i k at' s'] Cons.prems(1-3) d(1) by (simp add: ev c d')
  with Cons.IH d Cons.prems(2,3) show ?case by simp
qed simp

end
