(* ===== verification/Deadline_Eval.thy ===== *)
theory Deadline_Eval
  imports Deadline_Runs
begin

text \<open>
  The work of the deadline workload evaluated: the checksum of each task after each of its calls, and from
  it that nothing the tasks share can be zero at the end.
\<close>

section \<open>Integers\<close>

definition shift_13 :: "int \<Rightarrow> int" where "shift_13 n = n XOR take_bit 32 (push_bit 13 n)"
definition shift_17 :: "int \<Rightarrow> int" where "shift_17 n = n XOR drop_bit 17 n"
definition shift_5 :: "int \<Rightarrow> int" where "shift_5 n = n XOR take_bit 32 (push_bit 5 n)"

definition xorshift_int :: "int \<Rightarrow> int" where
  "xorshift_int n = shift_5 (shift_17 (shift_13 n))"

lemma uint_shifts:
  "uint (v XOR push_bit 13 v :: u32) = shift_13 (uint v)" "uint (v XOR drop_bit 17 v :: u32) = shift_17 (uint v)"
  "uint (v XOR push_bit 5 v :: u32) = shift_5 (uint v)"
proof -
  show "uint (v XOR push_bit 13 v) = shift_13 (uint v)" "uint (v XOR push_bit 5 v) = shift_5 (uint v)"
    by (simp_all add: shift_13_def shift_5_def unsigned_xor_eq unsigned_push_bit_eq)
  have "uint (drop_bit 17 v) = drop_bit 17 (uint v)" by (simp add: drop_bit_eq_div uint_div)
  then show "uint (v XOR drop_bit 17 v) = shift_17 (uint v)" by (simp add: shift_17_def unsigned_xor_eq)
qed

lemma uint_xorshift: "uint (xorshift v) = xorshift_int (uint v)"
  by (simp only: xorshift_def xorshift_int_def Let_def uint_shifts)

lemma uint_xorshifts: "uint ((xorshift ^^ n) v) = (xorshift_int ^^ n) (uint v)"
  by (induction n) (simp_all add: uint_xorshift)

lemma xorshifts_numeral: "(xorshift_int ^^ numeral k) s = (xorshift_int ^^ pred_numeral k) (xorshift_int s)"
  by (simp add: numeral_eq_Suc funpow_swap1)

lemma push_numeral_int:
  "push_bit (numeral l) (numeral k :: int) = push_bit (pred_numeral l) (numeral (Num.Bit0 k))"
  "push_bit 0 (numeral k :: int) = numeral k"
proof -
  have "numeral k * 2 = (numeral (Num.Bit0 k) :: int)" by (rule trans [OF mult_2_right numeral_Bit0 [symmetric]])
  then show "push_bit (numeral l) (numeral k :: int) = push_bit (pred_numeral l) (numeral (Num.Bit0 k))"
    unfolding numeral_eq_Suc [of l] push_bit_Suc by (rule arg_cong)
qed simp

lemma take_32_numeral:
  "take_bit 32 (numeral m :: int) = (case take_bit_num 32 m of None \<Rightarrow> 0 | Some q \<Rightarrow> numeral q)"
  by (simp add: take_bit_numeral_numeral)

lemmas xorshift_eval = xorshifts_numeral xorshift_int_def shift_13_def shift_17_def shift_5_def push_numeral_int take_32_numeral
  take_bit_num_simps drop_numeral_int xor_numeral_int xor_num.simps option.case option.map pred_numeral_simps BitM.simps
  funpow.simps(1) id_apply

section \<open>The checksums\<close>

lemma work_value_of_int:
  assumes "checksum XOR ucast own XOR push_bit 8 job XOR execution_step XOR 0x9E3779B9 = a" and "(xorshift_int ^^ 64) (uint a) = uint d"
  shows "work_value checksum own job execution_step = d"
  using assms by (simp add: work_value_def word_uint_eq_iff [where ?'a = 32] uint_xorshifts)

lemma work_rounds:
  "(xorshift_int ^^ 64) 0x9E3778B8 = 0xF916EEA5"
  "(xorshift_int ^^ 64) 0x6721951D = 0xF74CF5F8"
  "(xorshift_int ^^ 64) 0x697B8F40 = 0xD46F0E59"
  "(xorshift_int ^^ 64) 0x9E3778BB = 0x8CD118A0"
  "(xorshift_int ^^ 64) 0x12E6601A = 0x3CA5925A"
  "(xorshift_int ^^ 64) 0xA292E9E1 = 0x142B0388"
  "(xorshift_int ^^ 64) 0x8A1C7832 = 0x6B246A55"
  "(xorshift_int ^^ 64) 0x9E3778BA = 0xBB479E67"
  "(xorshift_int ^^ 64) 0x2570E5DD = 0xA814B3D3"
  "(xorshift_int ^^ 64) 0x9E3778BD = 0xDFFB050A"
  "(xorshift_int ^^ 64) 0x41CC7DB6 = 0xF1640A6E"
  "(xorshift_int ^^ 64) 0x6F5372D1 = 0xDA4F0F94"
  "(xorshift_int ^^ 64) 0x4478772A = 0x985984AB"
  "(xorshift_int ^^ 64) 0x066EFC12 = 0x3F9D7F86"
  "(xorshift_int ^^ 64) 0xA1AA073E = 0xB1204F6D"
  "(xorshift_int ^^ 64) 0x2F1737D6 = 0x6FCF88BB"
  "(xorshift_int ^^ 64) 0xF1F8F001 = 0xFAA364AB"
  by (simp only: xorshift_eval)+

lemma work_chain_step:
  assumes "work_chain e own n = c" and "c XOR ucast own XOR push_bit 8 (of_nat (n div e) + 1) XOR of_nat (n mod e) XOR 0x9E3779B9 = a"
    and "(xorshift_int ^^ 64) (uint a) = uint d" and "k = Suc n"
  shows "work_chain e own k = d"
  using work_value_of_int [OF assms(2,3)] by (simp add: assms(1,4) work_chain.simps)

lemma sampler_chain:
  "work_chain 1 1 1 = 0xF916EEA5"
  "work_chain 1 1 2 = 0xF74CF5F8"
  "work_chain 1 1 3 = 0xD46F0E59"
proof -
  have 0: "work_chain 1 1 0 = 0" by (simp add: work_chain.simps)
  show 1: "work_chain 1 1 1 = 0xF916EEA5" by (rule work_chain_step [OF 0, of "0x9E3778B8"]) (simp_all add: work_rounds)
  show 2: "work_chain 1 1 2 = 0xF74CF5F8" by (rule work_chain_step [OF 1, of "0x6721951D"]) (simp_all add: work_rounds)
  show 3: "work_chain 1 1 3 = 0xD46F0E59" by (rule work_chain_step [OF 2, of "0x697B8F40"]) (simp_all add: work_rounds)
qed

lemma controller_chain:
  "work_chain 2 2 1 = 0x8CD118A0"
  "work_chain 2 2 2 = 0x3CA5925A"
  "work_chain 2 2 3 = 0x142B0388"
  "work_chain 2 2 4 = 0x6B246A55"
proof -
  have 0: "work_chain 2 2 0 = 0" by (simp add: work_chain.simps)
  show 1: "work_chain 2 2 1 = 0x8CD118A0" by (rule work_chain_step [OF 0, of "0x9E3778BB"]) (simp_all add: work_rounds)
  show 2: "work_chain 2 2 2 = 0x3CA5925A" by (rule work_chain_step [OF 1, of "0x12E6601A"]) (simp_all add: work_rounds)
  show 3: "work_chain 2 2 3 = 0x142B0388" by (rule work_chain_step [OF 2, of "0xA292E9E1"]) (simp_all add: work_rounds)
  show 4: "work_chain 2 2 4 = 0x6B246A55" by (rule work_chain_step [OF 3, of "0x8A1C7832"]) (simp_all add: work_rounds)
qed

lemma telemetry_chain:
  "work_chain 1 3 1 = 0xBB479E67"
  "work_chain 1 3 2 = 0xA814B3D3"
proof -
  have 0: "work_chain 1 3 0 = 0" by (simp add: work_chain.simps)
  show 1: "work_chain 1 3 1 = 0xBB479E67" by (rule work_chain_step [OF 0, of "0x9E3778BA"]) (simp_all add: work_rounds)
  show 2: "work_chain 1 3 2 = 0xA814B3D3" by (rule work_chain_step [OF 1, of "0x2570E5DD"]) (simp_all add: work_rounds)
qed

lemma load_chain:
  "work_chain 1 4 1 = 0xDFFB050A"
proof -
  have 0: "work_chain 1 4 0 = 0" by (simp add: work_chain.simps)
  show 1: "work_chain 1 4 1 = 0xDFFB050A" by (rule work_chain_step [OF 0, of "0x9E3778BD"]) (simp_all add: work_rounds)
qed

lemma overload_chain:
  "work_chain 8 4 1 = 0xDFFB050A"
  "work_chain 8 4 2 = 0xF1640A6E"
  "work_chain 8 4 3 = 0xDA4F0F94"
  "work_chain 8 4 4 = 0x985984AB"
  "work_chain 8 4 5 = 0x3F9D7F86"
  "work_chain 8 4 6 = 0xB1204F6D"
  "work_chain 8 4 7 = 0x6FCF88BB"
  "work_chain 8 4 8 = 0xFAA364AB"
proof -
  have 0: "work_chain 8 4 0 = 0" by (simp add: work_chain.simps)
  show 1: "work_chain 8 4 1 = 0xDFFB050A" by (rule work_chain_step [OF 0, of "0x9E3778BD"]) (simp_all add: work_rounds)
  show 2: "work_chain 8 4 2 = 0xF1640A6E" by (rule work_chain_step [OF 1, of "0x41CC7DB6"]) (simp_all add: work_rounds)
  show 3: "work_chain 8 4 3 = 0xDA4F0F94" by (rule work_chain_step [OF 2, of "0x6F5372D1"]) (simp_all add: work_rounds)
  show 4: "work_chain 8 4 4 = 0x985984AB" by (rule work_chain_step [OF 3, of "0x4478772A"]) (simp_all add: work_rounds)
  show 5: "work_chain 8 4 5 = 0x3F9D7F86" by (rule work_chain_step [OF 4, of "0x066EFC12"]) (simp_all add: work_rounds)
  show 6: "work_chain 8 4 6 = 0xB1204F6D" by (rule work_chain_step [OF 5, of "0xA1AA073E"]) (simp_all add: work_rounds)
  show 7: "work_chain 8 4 7 = 0x6FCF88BB" by (rule work_chain_step [OF 6, of "0x2F1737D6"]) (simp_all add: work_rounds)
  show 8: "work_chain 8 4 8 = 0xFAA364AB" by (rule work_chain_step [OF 7, of "0xF1F8F001"]) (simp_all add: work_rounds)
qed

end
