(* ===== verification/Deadline_Claims.thy ===== *)
theory Deadline_Claims
  imports Deadline_Eval Signal_Claims
begin

text \<open>
  The properties of the deadline workload: however its tasks are interleaved, the work done is the same
  and the completion checks on it hold.
\<close>

section \<open>What the tasks share in the end\<close>

lemma sample_values_eq: "sample_values = {0, 0xF916EEA5, 0xF74CF5F8, 0xD46F0E59}"
proof -
  have "{..3 :: nat} = {0, 1, 2, 3}" by auto
  then show ?thesis by (simp only: sample_values_def image_insert image_empty sampler_chain work_chain.simps(1))
qed

lemma outputs_after_eq: "n \<noteq> 0 \<Longrightarrow> work_chain 2 2 n = c \<Longrightarrow>
  outputs_after n = {c, c XOR 0xF916EEA5, c XOR 0xF74CF5F8, c XOR 0xD46F0E59}"
  by (simp add: outputs_after_def sample_values_eq)

lemma last_output: "x \<in> outputs_after 4 \<Longrightarrow> x \<noteq> 0"
  using outputs_after_eq [OF _ controller_chain(4)] by auto

lemma possible_outputs_eq: "possible_outputs =
    {0x6B246A55, 0x923284F0, 0x9C689FAD, 0xBF4B640C, 0x142B0388, 0xED3DED2D, 0xE367F670, 0xC0440DD1,
     0x3CA5925A, 0xC5B37CFF, 0xCBE967A2, 0xE8CA9C03, 0x8CD118A0, 0x75C7F605, 0x7B9DED58, 0x58BE16F9, 0}"
proof -
  have "{..4 :: nat} = {0, 1, 2, 3, 4}" by auto
  moreover have "outputs_after 0 = {0}" by (simp add: outputs_after_def)
  ultimately show ?thesis
    unfolding possible_outputs_def using controller_chain by (simp add: outputs_after_eq)
qed

text \<open>Two outputs never differ by exactly the difference of the telemetry checksums.\<close>

lemma outputs_differ:
  assumes "x \<in> possible_outputs" and "y \<in> possible_outputs"
  shows "x XOR y \<noteq> 0xBB479E67 XOR 0xA814B3D3"
proof -
  have "\<forall>x \<in> possible_outputs. \<forall>y \<in> possible_outputs. x XOR y \<noteq> 0xBB479E67 XOR 0xA814B3D3"
    unfolding possible_outputs_eq by simp
  with assms show ?thesis by blast
qed

lemma last_digest:
  assumes "d \<in> digests_after 2"
  shows "d \<noteq> 0"
proof
  assume "d = 0"
  have two: "digests_after 2 = (\<lambda>(d, x). d XOR (0xA814B3D3 XOR x)) ` (digests_after 1 \<times> possible_outputs)"
    "digests_after 1 = (\<lambda>(d, x). d XOR (0xBB479E67 XOR x)) ` (digests_after 0 \<times> possible_outputs)"
    unfolding numeral_2_eq_2 One_nat_def digests_after.simps(2) using telemetry_chain
    by (simp_all only: numeral_2_eq_2 One_nat_def)
  from assms obtain e y where y: "d = e XOR (0xA814B3D3 XOR y)" "e \<in> digests_after 1" "y \<in> possible_outputs"
    unfolding two(1) by (elim imageE SigmaE) simp
  from y(2) obtain x where x: "e = 0xBB479E67 XOR x" "x \<in> possible_outputs"
    unfolding two(2) digests_after.simps(1) by (elim imageE SigmaE) simp
  have cancel: "a XOR b = 0 \<Longrightarrow> b = a" for a b :: u32 by (metis xor.assoc xor.right_neutral xor.left_neutral xor_self_eq)
  have "(0xBB479E67 XOR 0xA814B3D3) XOR (x XOR y) = (0xBB479E67 XOR x) XOR (0xA814B3D3 XOR y)" by (simp only: ac_simps)
  then have "(0xBB479E67 XOR 0xA814B3D3) XOR (x XOR y) = 0" using x(1) y(1) \<open>d = 0\<close> by (simp only:)
  from cancel [OF this] outputs_differ [OF x(2) y(3)] show False by (rule notE [rotated])
qed

section \<open>A job from its start to its end\<close>

text \<open>What a task sees during a job: its own running job with all its ticks, no deadline miss, and for the load
  the tick of the design.\<close>

definition job_seen :: "bool \<Rightarrow> nat \<Rightarrow> u32 \<Rightarrow> kernel \<Rightarrow> bool" where
  "job_seen overload i jobs k \<longleftrightarrow> running k \<and> current_task k = of_nat i \<and> os_thread_uses_psp k \<and>
     (let t = sched k (of_nat i) in state t = OS_TASK_RUNNING \<and> job_active t \<and>
        job_execution_ticks t = of_nat (ticks_of overload i) \<and> job_sequence t = jobs + 1 \<and>
        (i \<noteq> DL_LOAD \<longrightarrow> kind t = OS_TASK_PERIODIC) \<and>
        deadline_miss_count t = (if i = DL_LOAD \<and> overload then 1 else 0)) \<and>
     (i = DL_LOAD \<longrightarrow> ucast (monotonic_ticks k) = (if overload then 12 else 4 :: u32))"

lemma read_job_result:
  assumes "i \<in> dl_tasks" and "wt_id (entry_of i s) = of_nat i" and "state (sched k (of_nat i)) = OS_TASK_RUNNING"
  shows "read_job i s k = Inr (Some (info_of (of_nat i) (sched k (of_nat i))))"
  using assms(2,3) task_numbers(1,6) [OF assms(1)] by (simp add: read_job_def os_task_info_def masked_def sched_def)

lemma dl_run_append: "dl_run overload (xs @ ys) c = on_ok (dl_run overload xs c) (dl_run overload ys)"
proof (induction xs arbitrary: c)
  case (Cons event xs)
  then show ?case by (cases "dl_step overload event c") simp_all
qed simp

lemma own_jobs_append:
  "dl_run overload xs c = Inr c' \<Longrightarrow> own_jobs overload (xs @ ys) c \<longleftrightarrow> own_jobs overload xs c \<and> own_jobs overload ys c'"
  by (induction xs arbitrary: c) (auto simp: on_ok_eq_Inr)

text \<open>A run of one task: the pieces follow each other and the task sees its jobs.\<close>

definition goes :: "bool \<Rightarrow> (nat \<times> kernel) list \<Rightarrow> dl_state \<Rightarrow> dl_state \<Rightarrow> bool" where
  "goes overload events c c' \<longleftrightarrow> dl_run overload events c = Inr c' \<and> own_jobs overload events c \<and> fst ` set events \<subseteq> dl_tasks"

lemma goes_trans: "goes overload xs c d \<Longrightarrow> goes overload ys d e \<Longrightarrow> goes overload (xs @ ys) c e"
  by (auto simp: goes_def dl_run_append own_jobs_append)

lemma goes_one: "i \<in> dl_tasks \<Longrightarrow> own_job (i, k) c \<Longrightarrow> dl_step overload (i, k) c = Inr d \<Longrightarrow> goes overload [(i, k)] c d"
  by (simp add: goes_def)

lemma goes_inv: "goes overload xs c d \<Longrightarrow> dl_inv overload c \<Longrightarrow> dl_inv overload d"
  unfolding goes_def using dl_run_inv by blast

text \<open>A task leaves the entries and the places of the others alone.\<close>

lemma dl_step_other:
  assumes "dl_step overload (i, k) (at, s) = Inr (at', s')" and "j \<noteq> i"
  shows "at' j = at j \<and> entry_of j s' = entry_of j s"
  using assms
  by (auto simp: dl_step_def workload_task_def finish_job_def perform_work_def set_entry_def Let_def on_ok_eq_Inr
      split: dl_point.splits if_splits task_role.splits)

lemma goes_other:
  assumes "goes overload events (at, s) (at', s')" and "j \<notin> fst ` set events"
  shows "at' j = at j \<and> entry_of j s' = entry_of j s"
  using assms
proof (induction events arbitrary: "at" s)
  case (Cons event later)
  obtain i k where ev: "event = (i, k)" by (cases event)
  from Cons.prems(1) obtain at1 s1 where one: "dl_step overload (i, k) (at, s) = Inr (at1, s1)" "goes overload later (at1, s1) (at', s')"
    by (auto simp: goes_def ev on_ok_eq_Inr)
  with Cons.IH [OF one(2)] dl_step_other [OF one(1), of j] Cons.prems(2) show ?case by (auto simp: ev)
qed (simp add: goes_def)

lemma inner_goes:
  assumes "i \<in> dl_tasks" and "dl_inv overload (at, s)" and "at i = Inner (of_nat (ticks_of overload i)) q (of_nat c)"
    and "c + d = ticks_of overload i"
  shows "\<exists>s'. goes overload (replicate d (i, k)) (at, s) (at(i := Inner (of_nat (ticks_of overload i)) q (of_nat (c + d))), s') \<and>
    wt_jobs_completed (entry_of i s') = wt_jobs_completed (entry_of i s)"
  using assms(2-4)
proof (induction d arbitrary: "at" s c)
  case 0
  then show ?case by (auto simp: goes_def fun_upd_idem)
next
  case (Suc d)
  let ?n = "of_nat (ticks_of overload i) :: u32"
  have small: "unat (of_nat c :: u32) = c" "unat ?n = ticks_of overload i"
    using task_numbers(3) [OF assms(1), of overload] Suc.prems(3) small_words(1) [OF assms(1)] by (simp_all add: unat_of_nat32)
  have len: "length (workload s) = 5" and ok: "local_ok overload i (at i) (entry_of i s) (task_finished s ! i)"
    using Suc.prems(1) assms(1) by (auto simp: dl_inv_def)
  have lt: "of_nat c < ?n" using Suc.prems(3) small by (simp add: word_less_nat_alt)
  let ?at = "at(i := Inner ?n q (of_nat (Suc c)))" and ?s = "perform_work i q (of_nat c) s"
  have "dl_step overload (i, k) (at, s) = Inr (?at, ?s)"
    using ok lt Suc.prems(2) by (simp add: dl_step_def workload_task_def local_ok_def add.commute)
  then have one: "goes overload [(i, k)] (at, s) (?at, ?s)"
    using assms(1) Suc.prems(2) by (intro goes_one) (simp_all add: own_job_def)
  have at: "?at i = Inner ?n q (of_nat (Suc c))" "Suc c + d = ticks_of overload i" using Suc.prems(3) by simp_all
  obtain s' where rest: "goes overload (replicate d (i, k)) (?at, ?s) (?at(i := Inner ?n q (of_nat (Suc c + d))), s')"
    "wt_jobs_completed (entry_of i s') = wt_jobs_completed (entry_of i ?s)"
    using Suc.IH [OF goes_inv [OF one Suc.prems(1)] at] by blast
  have jobs: "wt_jobs_completed (entry_of i ?s) = wt_jobs_completed (entry_of i s)"
    using perform_work_effect(1) [OF assms(1) len ok [unfolded Suc.prems(2)]] small Suc.prems(3) by simp
  have "goes overload (replicate (Suc d) (i, k)) (at, s) (at(i := Inner ?n q (of_nat (c + Suc d))), s')"
    using goes_trans [OF one rest(1)] by (simp only: replicate_Suc append_Cons append_Nil fun_upd_upd add_Suc add_Suc_right)
  then show ?case using rest(2) unfolding jobs by (intro exI conjI)
qed

lemma finish_job_result:
  assumes i: "i \<in> dl_tasks" and len: "length (workload s) = 5" and ok: "local_ok overload i (Outer c) (entry_of i s) fin"
    and seen: "job_seen overload i (wt_jobs_completed (entry_of i s)) k"
  shows "\<exists>s'. finish_job overload i k s = Inr (if Suc (unat (wt_jobs_completed (entry_of i s))) = jobs_of i then Done else Sleeping, s') \<and>
    unat (wt_jobs_completed (entry_of i s')) = Suc (unat (wt_jobs_completed (entry_of i s)))"
proof -
  let ?t = "entry_of i s"
  define s1 where "s1 = set_entry i (\<lambda>t. t\<lparr>wt_jobs_completed := wt_jobs_completed t + 1\<rparr>) s"
  define x where "x = info_of (of_nat i) (sched k (of_nat i))"
  note n = task_numbers [OF i] small_words [OF i]
  have t1: "entry_of i s1 = ?t\<lparr>wt_jobs_completed := wt_jobs_completed ?t + 1\<rparr>" using n(1) len by (simp add: s1_def)
  have jobs: "unat (wt_jobs_completed ?t) < jobs_of i" using ok by (simp add: local_ok_def)
  then have up: "unat (wt_jobs_completed ?t + 1) = Suc (unat (wt_jobs_completed ?t))" using n(4) by (intro next_small) simp
  have last: "wt_jobs_completed ?t + 1 = wt_job_limit ?t \<longleftrightarrow> Suc (unat (wt_jobs_completed ?t)) = jobs_of i"
    using ok up n(8) by (simp add: local_ok_def word_unat_eq_iff)
  have read: "read_job i s k = Inr (Some x)"
    using read_job_result [OF i] ok seen by (simp add: local_ok_def job_seen_def Let_def x_def)
  have info: "info_job_active x" "info_state x = OS_TASK_RUNNING" "info_deadline_miss_count x = (if i = DL_LOAD \<and> overload then 1 else 0)"
    using seen by (simp_all add: x_def info_of_def job_seen_def Let_def)
  have load: "role_of i = ROLE_LOAD \<longleftrightarrow> i = DL_LOAD" using i by (auto simp: dl_tasks_def role_of_def)
  have wait: "os_wait_next_period k \<noteq> None" if "i \<noteq> DL_LOAD"
    using seen that i by (auto simp: os_wait_next_period_def job_seen_def Let_def dl_tasks_def)
  have single: "jobs_of DL_LOAD = 1" by (simp add: jobs_of_def)
  have role: "wt_role ?t = role_of i" using ok by (simp add: local_ok_def)
  have tick: "i = DL_LOAD \<Longrightarrow> ucast (monotonic_ticks k) = (if overload then 12 else 4 :: u32)" using seen by (simp add: job_seen_def)
  show ?thesis
  proof (cases "Suc (unat (wt_jobs_completed ?t)) = jobs_of i")
    case True
    have "finish_job overload i k s = Inr (Done, s1\<lparr>task_finished := (task_finished s1)[unat (wt_id ?t) := True]\<rparr>)"
      using read info True last tick unfolding finish_job_def s1_def [symmetric]
      by (simp add: Let_def t1 role load require_def os_tick_count_def os_monotonic_tick_count_def masked_def)
    then show ?thesis using True up by (simp add: t1)
  next
    case False
    then have "i \<noteq> DL_LOAD" using jobs single by auto
    then have "finish_job overload i k s = Inr (Sleeping, s1)"
      using read info False last wait unfolding finish_job_def s1_def [symmetric] by (simp add: Let_def t1 require_def)
    then show ?thesis using False up by (simp add: t1)
  qed
qed

text \<open>A whole job, from the start of the task or its release.\<close>

lemma job_goes:
  assumes inv: "dl_inv overload (at, s)" and i: "i \<in> dl_tasks" and at: "at i = Start \<or> at i = Sleeping"
    and seen: "job_seen overload i (wt_jobs_completed (entry_of i s)) k"
  shows "\<exists>s'. goes overload (replicate (ticks_of overload i + 4) (i, k)) (at, s)
      (at(i := if Suc (unat (wt_jobs_completed (entry_of i s))) = jobs_of i then Done else Sleeping), s') \<and>
    unat (wt_jobs_completed (entry_of i s')) = Suc (unat (wt_jobs_completed (entry_of i s)))"
proof -
  let ?e = "ticks_of overload i" and ?q = "wt_jobs_completed (entry_of i s) + 1"
  note num = task_numbers [OF i] small_words(1) [OF i, of overload]
  have ok: "local_ok overload i (at i) (entry_of i s) (task_finished s ! i)" using inv i by (simp add: dl_inv_def)
  have "dl_step overload (i, k) (at, s) = Inr (at(i := Outer 0), s)"
    using at ok seen num(1,6) i
    by (auto simp: dl_step_def workload_task_def local_ok_def job_seen_def Let_def os_current_task_def require_def word_less_nat_alt dl_tasks_def)
  then have g1: "goes overload [(i, k)] (at, s) (at(i := Outer 0), s)"
    using at by (intro goes_one [OF i]) (auto simp: own_job_def)
  note inv1 = goes_inv [OF g1 inv]
  have "read_job i s k = Inr (Some (info_of (of_nat i) (sched k (of_nat i))))"
    using read_job_result [OF i] ok seen by (simp add: local_ok_def job_seen_def Let_def)
  then have "dl_step overload (i, k) (at(i := Outer 0), s) = Inr (at(i := Inner (of_nat ?e) ?q (of_nat 0)), s)"
    using ok seen num(2) [of overload] num(7)
    by (simp add: dl_step_def workload_task_def local_ok_def job_seen_def Let_def info_of_def require_def word_less_nat_alt)
  then have g2: "goes overload [(i, k)] (at(i := Outer 0), s) (at(i := Inner (of_nat ?e) ?q (of_nat 0)), s)"
    using ok seen by (intro goes_one [OF i]) (simp_all add: own_job_def local_ok_def job_seen_def Let_def)
  note inv2 = goes_inv [OF g2 inv1]
  obtain s3 where g3: "goes overload (replicate ?e (i, k)) (at(i := Inner (of_nat ?e) ?q (of_nat 0)), s)
      (at(i := Inner (of_nat ?e) ?q (of_nat ?e)), s3)" "wt_jobs_completed (entry_of i s3) = wt_jobs_completed (entry_of i s)"
    using inner_goes [OF i inv2, of ?q 0 ?e k] by (auto simp: fun_upd_same fun_upd_upd simp del: fun_upd_apply)
  note inv3 = goes_inv [OF g3(1) inv2]
  have ok3: "length (workload s3) = 5" "local_ok overload i (Inner (of_nat ?e) ?q (of_nat ?e)) (entry_of i s3) (task_finished s3 ! i)"
    using inv3 i by (auto simp: dl_inv_def)
  have "dl_step overload (i, k) (at(i := Inner (of_nat ?e) ?q (of_nat ?e)), s3) = Inr (at(i := Outer (of_nat ?e)), s3)"
    by (simp add: dl_step_def workload_task_def)
  then have g4: "goes overload [(i, k)] (at(i := Inner (of_nat ?e) ?q (of_nat ?e)), s3) (at(i := Outer (of_nat ?e)), s3)"
    by (intro goes_one [OF i]) (simp_all add: own_job_def)
  have ok4: "local_ok overload i (Outer (of_nat ?e)) (entry_of i s3) (task_finished s3 ! i)"
    using goes_inv [OF g4 inv3] i by (auto simp: dl_inv_def)
  obtain s' where fin: "finish_job overload i k s3 =
      Inr (if Suc (unat (wt_jobs_completed (entry_of i s))) = jobs_of i then Done else Sleeping, s')"
    "unat (wt_jobs_completed (entry_of i s')) = Suc (unat (wt_jobs_completed (entry_of i s)))"
    using finish_job_result [OF i ok3(1) ok4, of k] seen g3(2) by auto
  let ?final = "at(i := if Suc (unat (wt_jobs_completed (entry_of i s))) = jobs_of i then Done else Sleeping)"
  have "dl_step overload (i, k) (at(i := Outer (of_nat ?e)), s3) = Inr (?final, s')"
    using ok3(2) fin(1) by (simp add: dl_step_def workload_task_def local_ok_def)
  then have g5: "goes overload [(i, k)] (at(i := Outer (of_nat ?e)), s3) (?final, s')"
    using ok4 seen g3(2) by (intro goes_one [OF i]) (simp_all add: own_job_def local_ok_def job_seen_def Let_def)
  have "replicate (?e + 4) (i, k) = [(i, k)] @ [(i, k)] @ replicate ?e (i, k) @ [(i, k)] @ [(i, k)]"
    by (simp add: replicate_add eval_nat_numeral replicate_app_Cons_same)
  then show ?thesis
    using goes_trans [OF g1 goes_trans [OF g2 goes_trans [OF g3(1) goes_trans [OF g4 g5]]]] fin(2) by (metis append_assoc)
qed

section \<open>All jobs of a task\<close>

definition task_events :: "bool \<Rightarrow> nat \<Rightarrow> (nat \<Rightarrow> kernel) \<Rightarrow> (nat \<times> kernel) list" where
  "task_events overload i seen = concat (map (\<lambda>j. replicate (ticks_of overload i + 4) (i, seen j)) [0..<jobs_of i])"

lemma task_goes:
  assumes inv: "dl_inv overload (at, s)" and i: "i \<in> dl_tasks" and at: "at i = Start" and "wt_jobs_completed (entry_of i s) = 0"
    and seen: "\<forall>j < jobs_of i. job_seen overload i (of_nat j) (seen j)"
  shows "\<exists>s'. goes overload (task_events overload i seen) (at, s) (at(i := Done), s')"
proof -
  have some: "\<exists>at' s'. goes overload (concat (map (\<lambda>j. replicate (ticks_of overload i + 4) (i, seen j)) [0..<n])) (at, s) (at', s') \<and>
      at' = at(i := if n = 0 then Start else if n = jobs_of i then Done else Sleeping) \<and> unat (wt_jobs_completed (entry_of i s')) = n"
    if "n \<le> jobs_of i" for n
    using that
  proof (induction n)
    case 0
    then show ?case using at assms(4) by (auto simp: goes_def fun_upd_idem)
  next
    case (Suc n)
    from Suc.IH [OF Suc_leD [OF Suc.prems]] obtain at1 s1 where g: "goes overload (concat (map (\<lambda>j. replicate (ticks_of overload i + 4) (i, seen j)) [0..<n])) (at, s) (at1, s1)"
      "at1 = at(i := if n = 0 then Start else if n = jobs_of i then Done else Sleeping)" "unat (wt_jobs_completed (entry_of i s1)) = n"
      by blast
    have "at1 i = Start \<or> at1 i = Sleeping" using g(2) Suc.prems by auto
    moreover have "job_seen overload i (wt_jobs_completed (entry_of i s1)) (seen n)"
    proof -
      have "wt_jobs_completed (entry_of i s1) = of_nat n" unfolding g(3) [symmetric] by simp
      then show ?thesis using seen Suc.prems by simp
    qed
    ultimately obtain s2 where step: "goes overload (replicate (ticks_of overload i + 4) (i, seen n)) (at1, s1)
        (at1(i := if Suc n = jobs_of i then Done else Sleeping), s2)" "unat (wt_jobs_completed (entry_of i s2)) = Suc n"
      using job_goes [OF goes_inv [OF g(1) inv] i] unfolding g(3) by blast
    have "goes overload (concat (map (\<lambda>j. replicate (ticks_of overload i + 4) (i, seen j)) [0..<Suc n])) (at, s)
        (at1(i := if Suc n = jobs_of i then Done else Sleeping), s2)"
      using goes_trans [OF g(1) step(1)] by simp
    moreover have "at1(i := if Suc n = jobs_of i then Done else Sleeping) =
        at(i := if Suc n = 0 then Start else if Suc n = jobs_of i then Done else Sleeping)" by (simp add: g(2) fun_upd_upd del: fun_upd_apply)
    ultimately show ?case using step(2) by blast
  qed
  have "jobs_of i \<noteq> 0" using task_numbers(5) [OF i] by simp
  with some [OF le_refl] show ?thesis unfolding task_events_def by auto
qed

section \<open>The end of the workload\<close>

lemma write_line_fails: "write_line transmit xs w = Inl e \<Longrightarrow> e = ''UART''"
  by (auto simp: write_line_def on_ok_Inl require_def os_kernel_panic_def Let_def split: prod.splits if_splits)

lemma idle_hook_complete:
  assumes "deadline_idle_hook transmit k w s = Inl ''LAB_COMPLETE''"
  shows "ucast (monotonic_ticks k) \<noteq> DL_FINAL_TICK \<or> reclaim_counter k \<noteq> 4 \<or> last_reclaimed k \<noteq> of_nat DL_TELEMETRY \<or>
    sensor_sample s = 0 \<or> control_output s = 0 \<or> telemetry_digest s = 0"
  using assms
  by (auto simp: deadline_idle_hook_def on_ok_Inl os_tick_count_def os_monotonic_tick_count_def masked_def
      os_reclaim_count_def os_last_reclaimed_task_def require_def os_kernel_panic_def Let_def dest: write_line_fails
      split: prod.splits if_splits)

text \<open>C33: However the tasks of the deadline workload are interleaved, as long as each sees the numbers of its own
  jobs and no check has failed, in the end every task has done its jobs, the checksum of its work is the same
  as in every other order, and the sample, the output and the digest that the tasks exchange are not zero; so
  the check of completion passes when the clock and the reclaimed tasks are as designed.\<close>

theorem deadline_work_order_independent:
  assumes "fst ` set events \<subseteq> {DL_SAMPLER, DL_CONTROLLER, DL_TELEMETRY, DL_LOAD}"
    and "own_jobs overload events (dl_begin overload)"
    and "dl_run overload events (dl_begin overload) = Inr (at, s)"
    and "\<forall>i \<in> {DL_SAMPLER, DL_CONTROLLER, DL_TELEMETRY, DL_LOAD}. at i = Done"
  shows "(\<forall>i \<in> {DL_SAMPLER, DL_CONTROLLER, DL_TELEMETRY, DL_LOAD}. task_finished s ! i \<and>
      wt_jobs_completed (entry_of i s) = wt_job_limit (entry_of i s)) \<and>
    map (\<lambda>i. wt_checksum (entry_of i s)) [DL_SAMPLER, DL_CONTROLLER, DL_TELEMETRY, DL_LOAD] =
      [0xD46F0E59, 0x6B246A55, 0xA814B3D3, if overload then 0xFAA364AB else 0xDFFB050A] \<and>
    sensor_sample s \<noteq> 0 \<and> control_output s \<noteq> 0 \<and> telemetry_digest s \<noteq> 0 \<and>
    (ucast (monotonic_ticks k) = DL_FINAL_TICK \<and> reclaim_counter k = 4 \<and> last_reclaimed k = 3 \<longrightarrow>
      deadline_idle_hook transmit k w s \<noteq> Inl ''LAB_COMPLETE'')"
proof -
  have inv: "dl_inv overload (at, s)" using dl_run_inv [OF dl_begin_inv _ assms(2,3)] assms(1) by (simp add: dl_tasks_def)
  have ok: "local_ok overload i Done (entry_of i s) (task_finished s ! i)" if "i \<in> dl_tasks" for i
    using inv that assms(4) by (auto simp: dl_inv_def dl_tasks_def)
  have calls: "calls overload i Done (entry_of i s) = jobs_of i * ticks_of overload i" if "i \<in> dl_tasks" for i
    using ok [OF that] by (simp add: calls_def local_ok_def)
  have sums: "wt_checksum (entry_of i s) = work_chain (ticks_of overload i) (of_nat i) (jobs_of i * ticks_of overload i)"
    if "i \<in> dl_tasks" for i using ok [OF that] calls [OF that] by (simp add: local_ok_def)
  have tasks: "DL_SAMPLER \<in> dl_tasks" "DL_CONTROLLER \<in> dl_tasks" "DL_TELEMETRY \<in> dl_tasks" "DL_LOAD \<in> dl_tasks"
    by (simp_all add: dl_tasks_def)
  have checksums: "wt_checksum (entry_of DL_SAMPLER s) = 0xD46F0E59" "wt_checksum (entry_of DL_CONTROLLER s) = 0x6B246A55"
    "wt_checksum (entry_of DL_TELEMETRY s) = 0xA814B3D3"
    "wt_checksum (entry_of DL_LOAD s) = (if overload then 0xFAA364AB else 0xDFFB050A)"
    using sums [OF tasks(1)] sums [OF tasks(2)] sums [OF tasks(3)] sums [OF tasks(4)]
      sampler_chain(3) controller_chain(4) telemetry_chain(2) load_chain(1) overload_chain(8)
    by (simp_all add: ticks_of_def jobs_of_def)
  have finished: "task_finished s ! i \<and> wt_jobs_completed (entry_of i s) = wt_job_limit (entry_of i s)" if "i \<in> dl_tasks" for i
    using ok [OF that] small_words(2) [OF that] by (simp add: local_ok_def word_unat_eq_iff)
  have counts: "calls False DL_CONTROLLER Done (entry_of DL_CONTROLLER s) = 4" "calls False DL_TELEMETRY Done (entry_of DL_TELEMETRY s) = 2"
    using calls [OF tasks(2)] calls [OF tasks(3)] by (simp_all add: calls_def ticks_of_def jobs_of_def)
  have at: "at DL_CONTROLLER = Done" "at DL_TELEMETRY = Done" using assms(4) by simp_all
  have "sensor_sample s = wt_checksum (entry_of DL_SAMPLER s)" "control_output s \<in> outputs_after 4" "telemetry_digest s \<in> digests_after 2"
    using inv counts by (simp_all add: dl_inv_def shared_ok_def at)
  then have nonzero: "sensor_sample s \<noteq> 0" "control_output s \<noteq> 0" "telemetry_digest s \<noteq> 0"
    using checksums(1) last_output last_digest by auto
  have "deadline_idle_hook transmit k w s \<noteq> Inl ''LAB_COMPLETE''"
    if "ucast (monotonic_ticks k) = DL_FINAL_TICK" "reclaim_counter k = 4" "last_reclaimed k = 3"
    using idle_hook_complete [of transmit k w s] that nonzero by auto
  with finished checksums nonzero tasks show ?thesis by (auto simp: dl_tasks_def)
qed

section \<open>The workload can end\<close>

text \<open>The tasks one after the other, each seeing its jobs.\<close>

definition all_events :: "bool \<Rightarrow> (nat \<Rightarrow> nat \<Rightarrow> kernel) \<Rightarrow> nat list \<Rightarrow> (nat \<times> kernel) list" where
  "all_events overload seen order = concat (map (\<lambda>i. task_events overload i (seen i)) order)"

lemma all_goes:
  assumes "dl_inv overload (at, s)" and "set order \<subseteq> dl_tasks" and "distinct order"
    and "\<forall>i \<in> set order. at i = Start \<and> wt_jobs_completed (entry_of i s) = 0"
    and seen: "\<forall>i \<in> dl_tasks. \<forall>j < jobs_of i. job_seen overload i (of_nat j) (seen i j)"
  shows "\<exists>at' s'. goes overload (all_events overload seen order) (at, s) (at', s') \<and> (\<forall>i \<in> set order. at' i = Done)"
  using assms(1-4)
proof (induction order arbitrary: "at" s)
  case Nil
  then show ?case by (auto simp: goes_def all_events_def)
next
  case (Cons i order)
  from Cons.prems seen obtain s1 where one: "goes overload (task_events overload i (seen i)) (at, s) (at(i := Done), s1)"
    using task_goes [OF Cons.prems(1), of i "seen i"] by auto
  have only: "fst ` set (task_events overload i (seen i)) \<subseteq> {i}" by (auto simp: task_events_def)
  have "\<forall>j \<in> set order. (at(i := Done)) j = Start \<and> wt_jobs_completed (entry_of j s1) = 0"
    using goes_other [OF one] only Cons.prems(3,4) by fastforce
  then obtain at2 s2 where rest: "goes overload (all_events overload seen order) (at(i := Done), s1) (at2, s2)"
    "\<forall>j \<in> set order. at2 j = Done"
    using Cons.IH [OF goes_inv [OF one Cons.prems(1)]] Cons.prems(2,3) by (meson distinct.simps(2) set_subset_Cons subset_trans)
  have "fst ` set (all_events overload seen order) \<subseteq> set order" by (auto simp: all_events_def task_events_def)
  then have "at2 i = Done" using goes_other [OF rest(1), of i] Cons.prems(3) by auto
  with goes_trans [OF one rest(1)] rest(2) show ?case by (auto simp: all_events_def)
qed

definition demo_job_kernel :: "nat \<Rightarrow> nat \<Rightarrow> kernel" where
  "demo_job_kernel i j = zero_kernel\<lparr>running := True, current_task := of_nat i,
     schedules := replicate 5 (os_sched_task_zero\<lparr>kind := OS_TASK_PERIODIC, state := OS_TASK_RUNNING, job_active := True,
       job_execution_ticks := of_nat (ticks_of False i), job_sequence := of_nat j + 1\<rparr>),
     tasks := replicate 5 (cleared_tcb\<lparr>stack_low := 0x20001000, stack_high := 0x20001400\<rparr>),
     control := 2, ccr := 0x200, psp := 0x20001200, monotonic_ticks := 4\<rparr>"

lemma demo_jobs: "i \<in> dl_tasks \<Longrightarrow> job_seen False i (of_nat j) (demo_job_kernel i j)"
  by (auto simp: job_seen_def demo_job_kernel_def zero_kernel_def sched_def tcb_def os_thread_uses_psp_def
      os_sched_task_zero_def cleared_tcb_def dl_tasks_def)

definition demo_dl_events :: "(nat \<times> kernel) list" where
  "demo_dl_events = all_events False demo_job_kernel [DL_SAMPLER, DL_CONTROLLER, DL_TELEMETRY, DL_LOAD]"

theorem deadline_work_order_independent_witness:
  "\<exists>at s. dl_run False demo_dl_events (dl_begin False) = Inr (at, s) \<and>
     map (\<lambda>i. wt_checksum (entry_of i s)) [DL_SAMPLER, DL_CONTROLLER, DL_TELEMETRY, DL_LOAD] =
       [0xD46F0E59, 0x6B246A55, 0xA814B3D3, 0xDFFB050A]"
proof -
  let ?tasks = "[DL_SAMPLER, DL_CONTROLLER, DL_TELEMETRY, DL_LOAD]"
  obtain at0 s0 where start: "dl_begin False = (at0, s0)" by (cases "dl_begin False")
  have "\<forall>i \<in> set ?tasks. at0 i = Start \<and> wt_jobs_completed (entry_of i s0) = 0"
    using start by (auto simp: dl_begin_def identified_def deadline_lab_start_def workload_start_def set_entry_def)
  then obtain at' s' where goes: "goes False demo_dl_events (dl_begin False) (at', s')" "\<forall>i \<in> set ?tasks. at' i = Done"
    using all_goes [of False at0 s0 ?tasks demo_job_kernel] dl_begin_inv [of False] demo_jobs
    unfolding demo_dl_events_def start by (auto simp: dl_tasks_def)
  then have "fst ` set demo_dl_events \<subseteq> set ?tasks" "own_jobs False demo_dl_events (dl_begin False)"
    "dl_run False demo_dl_events (dl_begin False) = Inr (at', s')" by (auto simp: goes_def dl_tasks_def)
  note run = this
  have ended: "\<forall>i \<in> {DL_SAMPLER, DL_CONTROLLER, DL_TELEMETRY, DL_LOAD}. at' i = Done" using goes(2) by simp
  have "map (\<lambda>i. wt_checksum (entry_of i s')) ?tasks = [0xD46F0E59, 0x6B246A55, 0xA814B3D3, 0xDFFB050A]"
    using deadline_work_order_independent [OF _ run(2,3) ended, THEN conjunct2, THEN conjunct1] run(1) by simp
  with run(3) show ?thesis by (intro exI conjI)
qed

end
