(* ===== verification/Heap_Lab.thy ===== *)
theory Heap_Lab
  imports App_Start Signal_Main
begin

text \<open>
  The allocator workload: \<open>apps/allocator/main.c\<close>. A manager holds one block and creates eight workers, one
  after the other in the same slot; a worker tries to free the manager's block, asks for too much,
  allocates three blocks, frees one of them twice and exits with the other two. The statics of the file
  are the record \<open>heap_lab\<close>, with the bytes that the tasks write in their blocks. What happens to the
  kernel while a task is interrupted before its call number \<open>n\<close> is the function \<open>between n\<close>.
\<close>

section \<open>The state\<close>

abbreviation ALLOCATOR_ITERATIONS :: u32 where "ALLOCATOR_ITERATIONS \<equiv> 8"
abbreviation MANAGER_ARGUMENT :: u32 where "MANAGER_ARGUMENT \<equiv> 0xA5"
abbreviation MANAGER_DEADLINE :: u32 where "MANAGER_DEADLINE \<equiv> 1000000"
abbreviation WORKER_DEADLINE :: u32 where "WORKER_DEADLINE \<equiv> 100"

record heap_lab =
  manager_id :: os_task_id_t
  worker_id :: os_task_id_t
  manager_allocation :: u32
  worker_completed_iteration :: u32
  payload_bytes :: "u32 \<Rightarrow> u8"

definition fill_bytes :: "u32 \<Rightarrow> u32 \<Rightarrow> u8 \<Rightarrow> heap_lab \<Rightarrow> heap_lab" where
  "fill_bytes pointer sz value s = s\<lparr>payload_bytes :=
     fold (\<lambda>index m. m(pointer + of_nat index := value)) [0..<unat sz] (payload_bytes s)\<rparr>"

definition bytes_equal :: "u32 \<Rightarrow> u32 \<Rightarrow> u8 \<Rightarrow> heap_lab \<Rightarrow> bool" where
  "bytes_equal pointer sz value s \<longleftrightarrow> list_all (\<lambda>index. payload_bytes s (pointer + of_nat index) = value) [0..<unat sz]"

section \<open>The worker\<close>

text \<open>The calls that have to fail: the free of a foreign block and a size that cannot be rounded up.\<close>

definition worker_refusals :: "platform \<Rightarrow> (nat \<Rightarrow> kernel \<Rightarrow> kernel) \<Rightarrow> heap_lab \<Rightarrow> kernel \<Rightarrow> kernel outcome" where
  "worker_refusals P between s k =
     on_ok (os_memory_free P (manager_allocation s) (between 0 k)) (\<lambda>(freed, k1).
     on_ok (require (\<not> freed) ''OWNER_VIOLATION'') (\<lambda>_.
     on_ok (require (primask k1 = 0) ''OWNER_PRIMASK'') (\<lambda>_.
     on_ok (require (bytes_equal (manager_allocation s) 24 0x5A s) ''OWNER_CANARY'') (\<lambda>_.
     on_ok (os_memory_alloc P 0xFFFFFFFF (between 1 k1)) (\<lambda>(p, k2).
     on_ok (require (p = 0) ''ALLOC_OVERFLOW'') (\<lambda>_.
     on_ok (require (primask k2 = 0) ''ALLOC_ERROR_PRIMASK'') (\<lambda>_. Inr k2)))))))"

text \<open>The three blocks, with their checks and their contents.\<close>

definition worker_blocks ::
  "platform \<Rightarrow> (nat \<Rightarrow> kernel \<Rightarrow> kernel) \<Rightarrow> heap_lab \<Rightarrow> kernel \<Rightarrow> ((u32 \<times> u32 \<times> u32) \<times> kernel \<times> heap_lab) outcome" where
  "worker_blocks P between s k =
     on_ok (os_memory_alloc P 13 (between 2 k)) (\<lambda>(fst_block, k1).
     on_ok (os_memory_alloc P 1024 (between 3 k1)) (\<lambda>(middle, k2).
     on_ok (os_memory_alloc P 9 (between 4 k2)) (\<lambda>(lst_block, k3).
     on_ok (require (fst_block \<noteq> 0 \<and> middle \<noteq> 0 \<and> lst_block \<noteq> 0) ''WORKER_ALLOC'') (\<lambda>_.
     on_ok (require (fst_block mod OS_MEMORY_ALIGNMENT = 0 \<and> middle mod OS_MEMORY_ALIGNMENT = 0 \<and>
         lst_block mod OS_MEMORY_ALIGNMENT = 0) ''WORKER_ALIGN'') (\<lambda>_.
     let s1 = fill_bytes lst_block 9 0x33 (fill_bytes middle 1024 0x22 (fill_bytes fst_block 13 0x11 s))
     in on_ok (require (bytes_equal fst_block 13 0x11 s1 \<and> bytes_equal middle 1024 0x22 s1 \<and>
          bytes_equal lst_block 9 0x33 s1) ''WORKER_CANARY_INITIAL'') (\<lambda>_. Inr ((fst_block, middle, lst_block), k3, s1)))))))"

definition heap_worker_task ::
  "platform \<Rightarrow> (nat \<Rightarrow> kernel \<Rightarrow> kernel) \<Rightarrow> u32 \<Rightarrow> kernel \<Rightarrow> heap_lab \<Rightarrow> (kernel \<times> heap_lab) outcome" where
  "heap_worker_task P between arg k s =
     on_ok (require (arg \<ge> 1 \<and> arg \<le> ALLOCATOR_ITERATIONS \<and> os_current_task k = worker_id s \<and> os_thread_uses_psp k)
       ''WORKER_START'') (\<lambda>_.
     on_ok (require (primask k = 0) ''WORKER_PRIMASK'') (\<lambda>_.
     on_ok (worker_refusals P between s k) (\<lambda>k1.
     on_ok (worker_blocks P between s k1) (\<lambda>((fst_block, middle, lst_block), k2, s1).
     on_ok (os_memory_free P middle (between 5 k2)) (\<lambda>(freed, k3).
     on_ok (require freed ''WORKER_FREE'') (\<lambda>_.
     on_ok (os_memory_free P middle (between 6 k3)) (\<lambda>(again, k4).
     on_ok (require (\<not> again) ''WORKER_DOUBLE_FREE'') (\<lambda>_.
     on_ok (require (primask k4 = 0) ''DOUBLE_FREE_PRIMASK'') (\<lambda>_.
     on_ok (require (bytes_equal fst_block 13 0x11 s1 \<and> bytes_equal lst_block 9 0x33 s1) ''WORKER_CANARY_FINAL'') (\<lambda>_.
     on_ok (os_memory_validate (between 7 k4)) (\<lambda>(valid, k5).
     on_ok (require valid ''WORKER_HEAP'') (\<lambda>_.
       Inr (k5, s1\<lparr>worker_completed_iteration := arg\<rparr>)))))))))))))"

section \<open>The manager\<close>

definition manager_start ::
  "platform \<Rightarrow> (nat \<Rightarrow> kernel \<Rightarrow> kernel) \<Rightarrow> u32 \<Rightarrow> kernel \<Rightarrow> heap_lab \<Rightarrow> (kernel \<times> heap_lab) outcome" where
  "manager_start P between arg k s =
     on_ok (require (arg = MANAGER_ARGUMENT \<and> os_current_task k = manager_id s \<and> os_thread_uses_psp k)
       ''MANAGER_START'') (\<lambda>_.
     on_ok (os_memory_alloc P 24 (between 0 k)) (\<lambda>(p, k1).
     on_ok (require (p \<noteq> 0 \<and> p mod OS_MEMORY_ALIGNMENT = 0) ''MANAGER_ALLOC'') (\<lambda>_.
       Inr (k1, fill_bytes p 24 0x5A (s\<lparr>manager_allocation := p\<rparr>)))))"

text \<open>
  One turn of the loop, in two parts: the creation of the worker, at whose end the worker runs, and the
  checks after the worker has been reclaimed.
\<close>

definition manager_create ::
  "platform \<Rightarrow> (nat \<Rightarrow> kernel \<Rightarrow> kernel) \<Rightarrow> u32 \<Rightarrow> u32 \<Rightarrow> kernel \<Rightarrow> heap_lab \<Rightarrow> (bool \<times> kernel \<times> heap_lab) outcome" where
  "manager_create P between worker_entry iteration k s =
     (let c = os_task_config_default worker_entry iteration;
          config = c\<lparr>tc_timing := (tc_timing c)\<lparr>cfg_relative_deadline_ticks := WORKER_DEADLINE, cfg_priority := 1\<rparr>\<rparr>
      in on_ok (require (primask k = 0) ''CREATE_PRIMASK_BEFORE'') (\<lambda>_.
         on_ok (os_task_create P (Some config) (Some OS_TASK_ID_INVALID) (between 0 k)) (\<lambda>((ok, created), k1).
           Inr (ok, k1, s\<lparr>worker_id := the created\<rparr>))))"

definition loop_stats_ok :: "u32 \<Rightarrow> os_memory_stats_t \<Rightarrow> bool" where
  "loop_stats_ok iteration st \<longleftrightarrow> st_allocated_blocks st = 1 \<and> st_allocated_bytes st = 24 \<and>
     st_successful_allocations st = 1 + 3 * iteration \<and> st_successful_frees st = 3 * iteration \<and>
     st_failed_allocations st = iteration \<and> st_invalid_frees st = 2 * iteration"

definition worker_line :: "u32 \<Rightarrow> string" where
  "worker_line iteration = (''ALLOCATOR WORKER ITER=0 SLOT=2'' @ crlf)[22 := char_of (48 + unat iteration)]"

definition write_worker_iteration :: "(u8 list \<Rightarrow> 'w \<Rightarrow> hal_status \<times> 'w) \<Rightarrow> u32 \<Rightarrow> 'w \<Rightarrow> 'w outcome" where
  "write_worker_iteration transmit iteration w =
     on_ok (require (iteration \<ge> 1 \<and> iteration \<le> 9) ''ITERATION_FORMAT'') (\<lambda>_.
       write_line transmit (worker_line iteration) w)"

definition manager_check ::
  "(nat \<Rightarrow> kernel \<Rightarrow> kernel) \<Rightarrow> (u8 list \<Rightarrow> 'w \<Rightarrow> hal_status \<times> 'w) \<Rightarrow> u32 \<Rightarrow> bool \<Rightarrow> heap_lab \<Rightarrow> kernel \<Rightarrow> 'w \<Rightarrow>
   (kernel \<times> 'w) outcome" where
  "manager_check between transmit iteration created s k w =
     on_ok (require created ''CREATE_WORKER'') (\<lambda>_.
     on_ok (require (primask k = 0) ''CREATE_PRIMASK_AFTER'') (\<lambda>_.
     on_ok (require (worker_id s = 2) ''WORKER_SLOT'') (\<lambda>_.
     on_ok (require (worker_completed_iteration s = iteration) ''RUNTIME_CREATE_PREEMPT'') (\<lambda>_.
     on_ok (require (os_reclaim_count k = iteration \<and> os_last_reclaimed_task k = worker_id s) ''WORKER_RECLAIM'') (\<lambda>_.
     on_ok (os_task_info (worker_id s) True (between 0 k)) (\<lambda>(info, k1).
     on_ok (require (info = None) ''WORKER_DORMANT'') (\<lambda>_.
     on_ok (os_memory_validate (between 1 k1)) (\<lambda>(valid, k2).
     on_ok (require valid ''HEAP_AFTER_WORKER'') (\<lambda>_.
     on_ok (require (bytes_equal (manager_allocation s) 24 0x5A s) ''MANAGER_CANARY'') (\<lambda>_.
     on_ok (os_memory_stats (Some os_memory_stats_zero) (between 2 k2)) (\<lambda>((ok, st), k3).
     on_ok (require (ok \<and> loop_stats_ok iteration (the st)) ''LOOP_STATS'') (\<lambda>_.
     on_ok (write_worker_iteration transmit iteration w) (\<lambda>w1. Inr (k3, w1))))))))))))))"

definition manager_end ::
  "platform \<Rightarrow> (nat \<Rightarrow> kernel \<Rightarrow> kernel) \<Rightarrow> (u8 list \<Rightarrow> 'w \<Rightarrow> hal_status \<times> 'w) \<Rightarrow> heap_lab \<Rightarrow> kernel \<Rightarrow> 'w \<Rightarrow> (kernel \<times> 'w \<times> heap_lab) outcome" where
  "manager_end P between transmit s k w =
     on_ok (os_memory_free P 0 (between 0 k)) (\<lambda>(null_freed, k1).
     on_ok (require null_freed ''FREE_NULL'') (\<lambda>_.
     on_ok (os_memory_free P (manager_allocation s) (between 1 k1)) (\<lambda>(freed, k2).
     on_ok (require freed ''FREE_MANAGER'') (\<lambda>_.
     on_ok (os_memory_validate (between 2 k2)) (\<lambda>(valid, k3).
     on_ok (require valid ''HEAP_MANAGER_DONE'') (\<lambda>_.
     on_ok (write_line transmit (''ALLOCATOR REUSED SLOT=2 COUNT=8'' @ crlf) w) (\<lambda>w1.
       Inr (k3, w1, s\<lparr>manager_allocation := 0\<rparr>))))))))"

section \<open>Start and end\<close>

definition heap_main ::
  "platform \<Rightarrow> 'w hal \<Rightarrow> (u8 list \<Rightarrow> 'w \<Rightarrow> hal_status \<times> 'w) \<Rightarrow> u32 \<Rightarrow> kernel \<Rightarrow> 'w \<Rightarrow> heap_lab \<Rightarrow>
   (u8 \<times> kernel \<times> 'w \<times> heap_lab) outcome" where
  "heap_main P h transmit manager_entry k w s =
     (let c = os_task_config_default manager_entry MANAGER_ARGUMENT;
          config = c\<lparr>tc_timing := (tc_timing c)\<lparr>cfg_relative_deadline_ticks := MANAGER_DEADLINE, cfg_priority := 200\<rparr>\<rparr>;
          (status, w1) = board_init h w
      in on_ok (require (status = HAL_OK) ''BOARD_INIT'') (\<lambda>_.
         on_ok (write_line transmit (''AYMOS READY'' @ crlf) w1) (\<lambda>w2.
         on_ok (os_kernel_init P k) (\<lambda>(ok, k1).
         on_ok (require ok ''KERNEL_INIT'') (\<lambda>_.
         on_ok (require (os_exception_configuration_valid k1) ''EXCEPTION_CONFIG'') (\<lambda>_.
         on_ok (os_memory_validate k1) (\<lambda>(valid, k2).
         on_ok (require valid ''HEAP_INITIAL'') (\<lambda>_.
         on_ok (os_memory_stats (Some os_memory_stats_zero) k2) (\<lambda>((got, st), k3).
         on_ok (require (got \<and> st_allocated_blocks (the st) = 0 \<and> st_free_blocks (the st) = 1 \<and>
             st_free_bytes (the st) = st_largest_free_block_bytes (the st)) ''HEAP_INITIAL_STATS'') (\<lambda>_.
         on_ok (os_memory_alloc P OS_MEMORY_ALIGNMENT k3) (\<lambda>(p, k4).
         on_ok (require (p = 0) ''ALLOC_BEFORE_START'') (\<lambda>_.
         on_ok (os_task_create P (Some config) (Some (manager_id s)) k4) (\<lambda>((made, created), k5).
         on_ok (require (made \<and> created = Some 1) ''CREATE_MANAGER'') (\<lambda>_.
         on_ok (write_line transmit (''ALLOCATOR BEGIN'' @ crlf) w2) (\<lambda>w3.
         on_ok (os_kernel_start k5) (\<lambda>(service, k6).
           Inr (service, k6, w3, s\<lparr>manager_id := the created\<rparr>)))))))))))))))))"

definition final_stats_ok :: "os_memory_stats_t \<Rightarrow> bool" where
  "final_stats_ok st \<longleftrightarrow> st_allocated_blocks st = 0 \<and> st_allocated_bytes st = 0 \<and> st_free_blocks st = 1 \<and>
     st_free_bytes st = st_largest_free_block_bytes st \<and> st_successful_allocations st = 25 \<and>
     st_successful_frees st = 25 \<and> st_failed_allocations st = ALLOCATOR_ITERATIONS \<and>
     st_invalid_frees st = 2 * ALLOCATOR_ITERATIONS"

definition heap_idle_hook ::
  "platform \<Rightarrow> (nat \<Rightarrow> kernel \<Rightarrow> kernel) \<Rightarrow> (u8 list \<Rightarrow> 'w \<Rightarrow> hal_status \<times> 'w) \<Rightarrow> u32 \<Rightarrow> heap_lab \<Rightarrow> kernel \<Rightarrow> 'w \<Rightarrow> (kernel \<times> 'w) outcome" where
  "heap_idle_hook P between transmit worker_entry s k w =
     on_ok (require (os_thread_uses_psp k) ''IDLE_PSP'') (\<lambda>_.
     on_ok (require (primask k = 0) ''IDLE_CREATE_REJECT'') (\<lambda>_.
     on_ok (os_task_create P (Some (os_task_config_default worker_entry 0)) (Some OS_TASK_ID_INVALID) (between 0 k)) (\<lambda>((ok, rejected), k1).
     on_ok (require (\<not> ok \<and> rejected = Some OS_TASK_ID_INVALID \<and> primask k1 = 0) ''IDLE_CREATE_REJECT'') (\<lambda>_.
     on_ok (require (os_reclaim_count k1 = ALLOCATOR_ITERATIONS + 1 \<and> os_last_reclaimed_task k1 = manager_id s)
       ''MANAGER_RECLAIM'') (\<lambda>_.
     on_ok (os_memory_validate (between 1 k1)) (\<lambda>(valid, k2).
     on_ok (require valid ''HEAP_FINAL'') (\<lambda>_.
     on_ok (os_memory_stats (Some os_memory_stats_zero) (between 2 k2)) (\<lambda>((got, st), k3).
     on_ok (require got ''FINAL_STATS'') (\<lambda>_.
     on_ok (require (final_stats_ok (the st)) ''FINAL_COUNTS'') (\<lambda>_.
     on_ok (write_line transmit (''ALLOCATOR STATS ALLOCATED=0 FREE_BLOCKS=1 INVALID_FREES=16'' @ crlf) w) (\<lambda>w1.
     on_ok (write_line transmit (''AYMOS ALLOCATOR PASS'' @ crlf) w1) (\<lambda>w2. Inr (k3, w2)))))))))))))"

end
