(* ===== verification/Heap_Rounds.thy ===== *)
theory Heap_Rounds
  imports Allocator_Claims
begin

text \<open>
  A heap with room: when a request of a client succeeds, what every call does to the counters, and the
  effect of a client that asks for three blocks, frees one of them twice and is then released.
\<close>

section \<open>Room\<close>

definition counts :: "heap_state \<Rightarrow> u32 \<times> u32 \<times> u32 \<times> u32" where
  "counts s = counters_of (fst s)"

definition heap_bytes :: "heap_state \<Rightarrow> nat" where
  "heap_bytes s = unat (heap_end (fst s)) - unat (heap_begin (fst s))"

definition gaps :: "heap_state \<Rightarrow> nat" where
  "gaps s = length (filter (free_block (snd s)) (chain (fst s) (snd s)))"

definition used :: "heap_state \<Rightarrow> nat" where
  "used s = (\<Sum>b\<leftarrow>payloads s. unat (fst (snd b)))"

lemma chain_numbers:
  "length (chain (fst s) (snd s)) = length (payloads s) + gaps s"
  "used s = live_bytes (snd s) (chain (fst s) (snd s))"
  using cap_split(2) [of "chain (fst s) (snd s)" "snd s"]
  by (simp_all add: payloads_def live_blocks_def gaps_def used_def live_bytes_def comp_def split_def)

lemma calm_gaps:
  assumes "calm (snd s) (chain (fst s) (snd s))"
  shows "gaps s \<le> length (payloads s) + 1"
proof -
  have "length (filter (free_block H) bs) \<le> length (live H bs) + (if bs \<noteq> [] \<and> free_block H (hd bs) then 1 else 0)"
    if "calm H bs" for H bs
    using that by (induction bs rule: induct_list012) (auto simp: live_Cons split: if_splits)
  from this [OF assms] show ?thesis by (simp add: gaps_def payloads_def live_blocks_def split: if_splits)
qed

text \<open>If every gap is too small for a request, the blocks and the gaps bound the heap.\<close>

lemma full_heap:
  assumes "state_ok s" and "\<forall>b \<in> set (chain (fst s) (snd s)). free_block (snd s) b \<longrightarrow> cap (snd s) b < n"
  shows "heap_bytes s \<le> 24 * (length (payloads s) + gaps s) + used s + gaps s * n"
proof -
  let ?H = "snd s" and ?bs = "chain (fst s) (snd s)"
  have seg: "seg (fst s) ?H 0 (unat (heap_begin (fst s))) ?bs 0 (unat (heap_end (fst s)))"
    using heap_okD(5) assms(1) by (simp add: state_ok_def)
  have "(\<Sum>b\<leftarrow>filter (free_block ?H) ?bs. cap ?H b) \<le> (\<Sum>b\<leftarrow>filter (free_block ?H) ?bs. n)"
    by (rule sum_list_mono) (use assms(2) in force)
  then have "(\<Sum>b\<leftarrow>filter (free_block ?H) ?bs. cap ?H b) \<le> gaps s * n" by (simp add: gaps_def sum_list_triv)
  then have "(\<Sum>b\<leftarrow>?bs. cap ?H b) \<le> used s + gaps s * n" using cap_split(1) [of ?H ?bs] by (simp add: chain_numbers)
  moreover have "(\<Sum>b\<leftarrow>?bs. 24 + cap ?H b) = 24 * length ?bs + (\<Sum>b\<leftarrow>?bs. cap ?H b)"
    by (simp add: sum_list_addf sum_list_triv mult.commute)
  ultimately show ?thesis using seg_sum [OF seg] by (simp add: heap_bytes_def chain_numbers)
qed

section \<open>One call\<close>

lemma acquire_room:
  assumes ok: "state_ok s" and "request_ok sz x" and "gaps s \<le> 2"
    and room: "24 * (length (payloads s) + 2) + used s + 2 * request_size sz < heap_bytes s"
  obtains p s' c xs ys where "acquire_block sz x s = (Some p, s')" "state_ok s'" "p \<noteq> 0"
    "payloads s = xs @ ys" "payloads s' = xs @ (p, c, x) # ys" "request_size sz \<le> unat c" "unat c < request_size sz + 32"
    "gaps s' \<le> gaps s" "heap_bytes s' = heap_bytes s" "counts s' = (\<lambda>(g, f, e, i). (increment_saturating g, f, e, i)) (counts s)"
proof -
  have heap: "heap_ok (fst s) (snd s)" using ok by (simp add: state_ok_def)
  obtain p a' H' where run: "os_allocator_alloc (Some (fst s)) (snd s) sz x = Some (p, Some a', H')" "heap_ok a' H'"
    "p \<noteq> 0 \<longrightarrow> length (chain a' H') \<le> Suc (length (chain (fst s) (snd s))) \<and>
       counters_of a' = (\<lambda>(s, f, e, i). (increment_saturating s, f, e, i)) (counters_of (fst s)) \<and>
       heap_begin a' = heap_begin (fst s) \<and> heap_end a' = heap_end (fst s)"
    "p = 0 \<longrightarrow> (request_ok sz x \<longrightarrow> (\<forall>b \<in> set (chain (fst s) (snd s)). free_block (snd s) b \<longrightarrow> cap (snd s) b < request_size sz))"
    "p \<noteq> 0 \<longrightarrow> (\<exists>c xs ys. live_blocks (fst s) (snd s) = xs @ ys \<and>
       live_blocks a' H' = xs @ [(p - 24, c, x)] @ ys \<and> request_size sz \<le> unat c \<and> unat c < request_size sz + 32)"
    using alloc_result [OF heap, of sz x] by blast
  have "p \<noteq> 0"
  proof
    assume "p = 0"
    then have "heap_bytes s \<le> 24 * (length (payloads s) + gaps s) + used s + gaps s * request_size sz"
      using run(4) assms(2) by (intro full_heap [OF ok]) simp
    also have "\<dots> \<le> 24 * (length (payloads s) + 2) + used s + 2 * request_size sz"
      using assms(3) by (intro add_mono mult_le_mono) simp_all
    finally show False using room by simp
  qed
  then obtain c us vs where l: "live_blocks (fst s) (snd s) = us @ vs" "live_blocks a' H' = us @ [(p - 24, c, x)] @ vs"
    "request_size sz \<le> unat c" "unat c < request_size sz + 32" using run(5) by blast
  have pay: "payloads s = map (\<lambda>(b, c, owner). (payload_address b, c, owner)) us @ map (\<lambda>(b, c, owner). (payload_address b, c, owner)) vs"
    "payloads (a', H') = map (\<lambda>(b, c, owner). (payload_address b, c, owner)) us @ (p, c, x) # map (\<lambda>(b, c, owner). (payload_address b, c, owner)) vs"
    using l by (simp_all add: payloads_def payload_minus)
  have "gaps (a', H') \<le> gaps s" using run(3) \<open>p \<noteq> 0\<close> pay chain_numbers(1) [of s] chain_numbers(1) [of "(a', H')"] by simp
  with run \<open>p \<noteq> 0\<close> l pay show thesis
    by (intro that [of p "(a', H')"]) (simp_all add: acquire_block_def state_ok_def heap_bytes_def counts_def)
qed

lemma acquire_refused:
  assumes "state_ok s" and "\<not> request_ok sz x"
  obtains s' where "acquire_block sz x s = (None, s')" "state_ok s'" "payloads s' = payloads s" "gaps s' = gaps s"
    "heap_bytes s' = heap_bytes s" "counts s' = (\<lambda>(g, f, e, i). (g, f, increment_saturating e, i)) (counts s)"
proof -
  let ?a = "(fst s)\<lparr>failed_allocations := increment_saturating (failed_allocations (fst s))\<rparr>"
  have run: "os_allocator_alloc (Some (fst s)) (snd s) sz x = Some (0, Some ?a, snd s)" "heap_ok ?a (snd s)"
    using alloc_outcome [of "fst s" "snd s" sz x] assms by (auto simp: state_ok_def split: if_splits)
  have "chain ?a (snd s) = chain (fst s) (snd s)" by (simp add: chain_def maximum_blocks_def)
  with run show thesis
    by (intro that [of "(?a, snd s)"])
      (simp_all add: acquire_block_def state_ok_def payloads_def live_blocks_def gaps_def heap_bytes_def counts_def counters_of_def)
qed

lemma give_back_refused:
  assumes "state_ok s" and "p \<noteq> 0" and "\<forall>c. (p, c, x) \<notin> set (payloads s)"
  obtains s' where "give_back_block p x s = (False, s')" "state_ok s'" "payloads s' = payloads s" "gaps s' = gaps s"
    "heap_bytes s' = heap_bytes s" "counts s' = (\<lambda>(g, f, e, i). (g, f, e, increment_saturating i)) (counts s)"
proof -
  let ?a = "(fst s)\<lparr>invalid_frees := increment_saturating (invalid_frees (fst s))\<rparr>"
  have "\<nexists>c. (p - 24, c, x) \<in> set (live_blocks (fst s) (snd s))" using assms(3) by (simp add: payloads_mem)
  then have run: "os_allocator_free (Some (fst s)) (snd s) p x = Some (False, Some ?a, snd s)" "heap_ok ?a (snd s)"
    using free_outcome [of "fst s" "snd s" p x] assms(1,2) by (auto simp: state_ok_def split: if_splits)
  have "chain ?a (snd s) = chain (fst s) (snd s)" by (simp add: chain_def maximum_blocks_def)
  with run show thesis
    by (intro that [of "(?a, snd s)"])
      (simp_all add: give_back_block_def state_ok_def payloads_def live_blocks_def gaps_def heap_bytes_def counts_def counters_of_def)
qed

lemma payloads_filter:
  "payloads s = L \<Longrightarrow> live_blocks a' H' = filter (\<lambda>b. fst b \<noteq> p - 24) (live_blocks (fst s) (snd s)) \<Longrightarrow>
     payloads (a', H') = filter (\<lambda>b. fst b \<noteq> p) L"
  by (auto simp: payloads_def filter_map comp_def case_prod_beta payload_minus(2) intro!: map_cong filter_cong)

lemma give_back_taken:
  assumes "state_ok s" and "p \<noteq> 0" and "(p, c, x) \<in> set (payloads s)"
  obtains s' where "give_back_block p x s = (True, s')" "state_ok s'" "payloads s' = filter (\<lambda>b. fst b \<noteq> p) (payloads s)"
    "calm (snd s') (chain (fst s') (snd s'))" "heap_bytes s' = heap_bytes s"
    "counts s' = (\<lambda>(g, f, e, i). (g, increment_saturating f, e, i)) (counts s)"
proof -
  have mem: "\<exists>c. (p - 24, c, x) \<in> set (live_blocks (fst s) (snd s))" using assms(3) by (auto simp: payloads_mem)
  then obtain a' H' where run: "os_allocator_free (Some (fst s)) (snd s) p x = Some (True, Some a', H')" "heap_ok a' H'"
    "live_blocks a' H' = filter (\<lambda>b. fst b \<noteq> p - 24) (live_blocks (fst s) (snd s))" "calm H' (chain a' H')"
    "counters_of a' = (\<lambda>(s, f, e, i). (s, increment_saturating f, e, i)) (counters_of (fst s))"
    using free_outcome [of "fst s" "snd s" p x] assms(1,2) by (auto simp: state_ok_def split: if_splits)
  have "arena_of a' = arena_of (fst s)" by (rule free_arena [OF run(1)])
  with run payloads_filter [OF refl run(3)] show thesis
    by (intro that [of "(a', H')"]) (simp_all add: give_back_block_def state_ok_def heap_bytes_def counts_def)
qed

lemma release_taken:
  assumes "state_ok s" and "x \<noteq> OS_MEMORY_OWNER_NONE" and "n = length (filter (block_of x) (payloads s))" and "0 < n"
  shows "state_ok (release_blocks x s)" "payloads (release_blocks x s) = filter (\<lambda>b. \<not> block_of x b) (payloads s)"
    "calm (snd (release_blocks x s)) (chain (fst (release_blocks x s)) (snd (release_blocks x s)))"
    "heap_bytes (release_blocks x s) = heap_bytes s"
    "counts (release_blocks x s) = (\<lambda>(g, f, e, i). (g, increment_saturating_times n f, e, i)) (counts s)"
proof -
  have n: "n = length (filter (owned_by x) (live_blocks (fst s) (snd s)))"
    unfolding assms(3) by (simp add: payloads_def filter_map comp_def case_prod_beta)
  obtain a' H' where run: "os_allocator_release_owner (Some (fst s)) (snd s) x = Some (of_nat n, Some a', H')" "heap_ok a' H'"
    "live_blocks a' H' = filter (\<lambda>b. \<not> owned_by x b) (live_blocks (fst s) (snd s))" "calm H' (chain a' H')"
    "counters_of a' = (\<lambda>(s, f, e, i). (s, increment_saturating_times n f, e, i)) (counters_of (fst s))"
    using release_outcome [of "fst s" "snd s" x n] assms n by (auto simp: state_ok_def)
  have arena: "arena_of a' = arena_of (fst s)" by (rule release_arena [OF run(1)])
  have s': "release_blocks x s = (a', H')" using run(1) by (simp add: release_blocks_def)
  show "state_ok (release_blocks x s)" "payloads (release_blocks x s) = filter (\<lambda>b. \<not> block_of x b) (payloads s)"
    "calm (snd (release_blocks x s)) (chain (fst (release_blocks x s)) (snd (release_blocks x s)))"
    "heap_bytes (release_blocks x s) = heap_bytes s"
    "counts (release_blocks x s) = (\<lambda>(g, f, e, i). (g, increment_saturating_times n f, e, i)) (counts s)"
    using run arena by (simp_all add: s' state_ok_def heap_bytes_def counts_def payloads_def filter_map comp_def case_prod_beta)
qed

section \<open>The payloads of a heap\<close>

lemma payloads_apart:
  assumes "state_ok s" and "(p, c, x) \<in> set (payloads s)" and "(q, d, y) \<in> set (payloads s)" and "p \<noteq> q"
  shows "unat p + unat c \<le> unat q \<or> unat q + unat d \<le> unat p"
proof -
  obtain i j where ij: "i < length (payloads s)" "payloads s ! i = (p, c, x)" "j < length (payloads s)" "payloads s ! j = (q, d, y)"
    using assms(2,3) unfolding in_set_conv_nth by blast
  have "i \<noteq> j" using ij(2,4) assms(4) by auto
  then show ?thesis
    using sorted_wrt_nth_less [OF payloads_sound(1) [OF assms(1)], of i j] sorted_wrt_nth_less [OF payloads_sound(1) [OF assms(1)], of j i]
      ij by (cases "i < j") auto
qed

lemma payload_nonzero: "state_ok s \<Longrightarrow> (p, c, x) \<in> set (payloads s) \<Longrightarrow> p \<noteq> 0"
  using payloads_sound(2) [of s p c x] by auto

lemma used_insert:
  "payloads s = xs @ ys \<Longrightarrow> payloads s' = xs @ (p, c, x) # ys \<Longrightarrow> used s' = used s + unat c \<and>
     length (payloads s') = Suc (length (payloads s)) \<and> set (payloads s') = insert (p, c, x) (set (payloads s)) \<and>
     filter (\<lambda>b. \<not> block_of x b) (payloads s') = filter (\<lambda>b. \<not> block_of x b) (payloads s)"
  by (simp add: used_def)

lemma fresh_address:
  "state_ok s' \<Longrightarrow> payloads s' = xs @ (p, c, x) # ys \<Longrightarrow> payloads s = xs @ ys \<Longrightarrow> (q, d, y) \<in> set (payloads s) \<Longrightarrow> q \<noteq> p"
  using heap.owned_distinct [of s'] by force

section \<open>A client in a heap with one other block\<close>

text \<open>The counters after \<open>n\<close> clients.\<close>

definition lab_counts :: "nat \<Rightarrow> u32 \<times> u32 \<times> u32 \<times> u32" where
  "lab_counts n = (of_nat (1 + 3 * n), of_nat (3 * n), of_nat n, of_nat (2 * n))"

definition lab_heap :: "os_memory_owner_t \<Rightarrow> u32 \<Rightarrow> nat \<Rightarrow> heap_state \<Rightarrow> bool" where
  "lab_heap m p n s \<longleftrightarrow> state_ok s \<and> payloads s = [(p, 24, m)] \<and> calm (snd s) (chain (fst s) (snd s)) \<and>
     4096 \<le> heap_bytes s \<and> counts s = lab_counts n"

lemma increment_of_nat: "k < 2 ^ 32 - 1 \<Longrightarrow> increment_saturating (of_nat k) = of_nat (Suc k)"
  by (simp add: word_unat_eq_iff unat_increment_saturating unat_of_nat32 del: of_nat_Suc)

lemma lab_counts_next:
  assumes "n < 8"
  shows "lab_counts (Suc n) = (\<lambda>(g, f, e, i). (increment_saturating (increment_saturating (increment_saturating g)),
    increment_saturating_times 2 (increment_saturating f), increment_saturating e, increment_saturating (increment_saturating i)))
    (lab_counts n)"
  using assms
  by (simp add: lab_counts_def word_unat_eq_iff unat_increment_saturating unat_increment_saturating_times unat_of_nat32
      del: of_nat_add of_nat_mult of_nat_Suc)

lemma request_numbers:
  "request_size 13 = 16" "request_size 1024 = 1024" "request_size 9 = 16" "\<not> request_ok 0xFFFFFFFF x"
  "x \<noteq> OS_MEMORY_OWNER_NONE \<Longrightarrow> request_ok 13 x" "x \<noteq> OS_MEMORY_OWNER_NONE \<Longrightarrow> request_ok 1024 x" "x \<noteq> OS_MEMORY_OWNER_NONE \<Longrightarrow> request_ok 9 x"
  by (simp_all add: request_size_def request_ok_def)

text \<open>The states of the heap during the calls of a client.\<close>

definition client_calls ::
  "os_memory_owner_t \<Rightarrow> u32 \<Rightarrow> u32 \<times> u32 \<times> u32 \<Rightarrow> heap_state list \<Rightarrow> bool" where
  "client_calls x p blocks ss \<longleftrightarrow> (let (a, b, c) = blocks in length ss = 8 \<and>
     give_back_block p x (ss ! 0) = (False, ss ! 1) \<and> acquire_block 0xFFFFFFFF x (ss ! 1) = (None, ss ! 2) \<and>
     acquire_block 13 x (ss ! 2) = (Some a, ss ! 3) \<and> acquire_block 1024 x (ss ! 3) = (Some b, ss ! 4) \<and>
     acquire_block 9 x (ss ! 4) = (Some c, ss ! 5) \<and> give_back_block b x (ss ! 5) = (True, ss ! 6) \<and>
     give_back_block b x (ss ! 6) = (False, ss ! 7))"

text \<open>The ranges of bytes that the client and the other task write.\<close>

definition ranges_apart :: "(u32 \<times> nat) list \<Rightarrow> bool" where
  "ranges_apart rs \<longleftrightarrow> (\<forall>(q, l) \<in> set rs. 8 dvd unat q \<and> q \<noteq> 0 \<and> unat q + l < 2 ^ 32) \<and>
     sorted_wrt (\<lambda>(q, l) (r, k). unat q + l \<le> unat r \<or> unat r + k \<le> unat q) rs"

lemma client_effect:
  assumes lab: "lab_heap m p n s" and "n < 8" and "x \<noteq> m" and x: "x \<noteq> OS_MEMORY_OWNER_NONE"
  obtains a b c ss where "client_calls x p (a, b, c) ss" "ss ! 0 = s" "\<forall>t \<in> set ss. state_ok t"
    "ranges_apart [(p, 24), (a, 13), (b, 1024), (c, 9)]" "lab_heap m p (Suc n) (release_blocks x (ss ! 7))"
proof -
  note l = lab [unfolded lab_heap_def]
  let ?mine = "\<lambda>t. filter (\<lambda>b. \<not> block_of x b) (payloads t)"
  have p0: "p \<noteq> 0" using payload_nonzero [of s p 24 m] l by simp
  have u0: "used s = 24" "gaps s \<le> 2" "?mine s = [(p, 24, m)]"
    using l calm_gaps [of s] \<open>x \<noteq> m\<close> by (simp_all add: used_def)
  have "\<forall>c. (p, c, x) \<notin> set (payloads s)" using l \<open>x \<noteq> m\<close> by simp
  then obtain s1 where s1: "give_back_block p x s = (False, s1)" "state_ok s1" "payloads s1 = payloads s" "gaps s1 = gaps s"
    "heap_bytes s1 = heap_bytes s" "counts s1 = (\<lambda>(g, f, e, i). (g, f, e, increment_saturating i)) (counts s)"
    using give_back_refused [of s p x] l p0 by blast
  obtain s2 where s2: "acquire_block 0xFFFFFFFF x s1 = (None, s2)" "state_ok s2" "payloads s2 = payloads s1" "gaps s2 = gaps s1"
    "heap_bytes s2 = heap_bytes s1" "counts s2 = (\<lambda>(g, f, e, i). (g, f, increment_saturating e, i)) (counts s1)"
    using acquire_refused [OF s1(2) request_numbers(4)] by blast
  have u2: "used s2 = 24" "length (payloads s2) = 1" using s1(3) s2(3) l by (simp_all add: used_def)
  have r2: "gaps s2 \<le> 2" "24 * (length (payloads s2) + 2) + used s2 + 2 * request_size 13 < heap_bytes s2"
    using l u0(2) u2 s1(4,5) s2(4,5) by (simp_all add: request_numbers)
  obtain a s3 ca xs ys where s3: "acquire_block 13 x s2 = (Some a, s3)" "state_ok s3" "a \<noteq> 0"
    "payloads s2 = xs @ ys" "payloads s3 = xs @ (a, ca, x) # ys" "request_size 13 \<le> unat ca" "unat ca < request_size 13 + 32"
    "gaps s3 \<le> gaps s2" "heap_bytes s3 = heap_bytes s2" "counts s3 = (\<lambda>(g, f, e, i). (increment_saturating g, f, e, i)) (counts s2)"
    by (rule acquire_room [OF s2(2) request_numbers(5) [OF x] r2]) (rule that)
  note i3 = used_insert [OF s3(4,5)]
  have u3: "used s3 \<le> 72" "length (payloads s3) = 2" using i3 u2 s3(7) by (simp_all add: request_numbers)
  have r3: "gaps s3 \<le> 2" "24 * (length (payloads s3) + 2) + used s3 + 2 * request_size 1024 < heap_bytes s3"
    using l u3 s1(4,5) s2(4,5) s3(8,9) u0(2) by (simp_all add: request_numbers)
  obtain b s4 cb xs ys where s4: "acquire_block 1024 x s3 = (Some b, s4)" "state_ok s4" "b \<noteq> 0"
    "payloads s3 = xs @ ys" "payloads s4 = xs @ (b, cb, x) # ys" "request_size 1024 \<le> unat cb" "unat cb < request_size 1024 + 32"
    "gaps s4 \<le> gaps s3" "heap_bytes s4 = heap_bytes s3" "counts s4 = (\<lambda>(g, f, e, i). (increment_saturating g, f, e, i)) (counts s3)"
    by (rule acquire_room [OF s3(2) request_numbers(6) [OF x] r3]) (rule that)
  note i4 = used_insert [OF s4(4,5)]
  have u4: "used s4 \<le> 1128" "length (payloads s4) = 3" using i4 u3 s4(7) by (simp_all add: request_numbers)
  have r4: "gaps s4 \<le> 2" "24 * (length (payloads s4) + 2) + used s4 + 2 * request_size 9 < heap_bytes s4"
    using l u4 s1(4,5) s2(4,5) s3(8,9) s4(8,9) u0(2) by (simp_all add: request_numbers)
  obtain c s5 cc xs ys where s5: "acquire_block 9 x s4 = (Some c, s5)" "state_ok s5" "c \<noteq> 0"
    "payloads s4 = xs @ ys" "payloads s5 = xs @ (c, cc, x) # ys" "request_size 9 \<le> unat cc" "unat cc < request_size 9 + 32"
    "gaps s5 \<le> gaps s4" "heap_bytes s5 = heap_bytes s4" "counts s5 = (\<lambda>(g, f, e, i). (increment_saturating g, f, e, i)) (counts s4)"
    by (rule acquire_room [OF s4(2) request_numbers(7) [OF x] r4]) (rule that)
  note i5 = used_insert [OF s5(4,5)]
  have set5: "set (payloads s5) = {(p, 24, m), (a, ca, x), (b, cb, x), (c, cc, x)}" "length (payloads s5) = 4"
    using i3 i4 i5 s1(3) s2(3) u2 l by auto
  have ne: "distinct [p, a, b, c]"
    using fresh_address [OF s3(2,5,4), of p 24 m] fresh_address [OF s4(2,5,4), of p 24 m] fresh_address [OF s5(2,5,4), of p 24 m]
      fresh_address [OF s4(2,5,4), of a ca x] fresh_address [OF s5(2,5,4), of a ca x] fresh_address [OF s5(2,5,4), of b cb x]
      i3 i4 s1(3) s2(3) l by auto
  obtain s6 where s6: "give_back_block b x s5 = (True, s6)" "state_ok s6" "payloads s6 = filter (\<lambda>y. fst y \<noteq> b) (payloads s5)"
    "heap_bytes s6 = heap_bytes s5" "counts s6 = (\<lambda>(g, f, e, i). (g, increment_saturating f, e, i)) (counts s5)"
    using give_back_taken [OF s5(2) s4(3), of cb x] set5 by blast
  have "\<forall>c. (b, c, x) \<notin> set (payloads s6)" using s6(3) by auto
  then obtain s7 where s7: "give_back_block b x s6 = (False, s7)" "state_ok s7" "payloads s7 = payloads s6"
    "heap_bytes s7 = heap_bytes s6" "counts s7 = (\<lambda>(g, f, e, i). (g, f, e, increment_saturating i)) (counts s6)"
    using give_back_refused [OF s6(2) s4(3)] by blast
  have "?mine s7 = filter (\<lambda>y. fst y \<noteq> b) (?mine s5)" by (simp add: s7(3) s6(3) filter_filter conj_commute)
  also have "?mine s5 = [(p, 24, m)]" using i3 i4 i5 s1(3) s2(3) u0(3) by simp
  finally have mine: "?mine s7 = [(p, 24, m)]" using ne by auto
  have "length (filter (\<lambda>y. fst y \<noteq> b) (payloads s5)) = 3"
  proof -
    have d: "distinct (map fst (payloads s5))" using heap.owned_distinct [OF s5(2)] .
    have "card (set (map fst (payloads s6))) = length (map fst (payloads s6))"
      unfolding s6(3) by (rule distinct_card [OF distinct_map_filter [OF d]])
    moreover have "set (payloads s6) = {(p, 24, m), (a, ca, x), (c, cc, x)}" using ne by (auto simp: s6(3) set5(1))
    ultimately show ?thesis using ne s6(3) by simp
  qed
  then have "length (filter (block_of x) (payloads s7)) = 2"
    using sum_length_filter_compl [of "block_of x" "payloads s7"] mine by (simp add: s7(3) s6(3))
  note rel = release_taken [OF s7(2) x this [symmetric], simplified]
  have "counts (release_blocks x s7) = lab_counts (Suc n)"
    using rel(5) l by (simp add: lab_counts_next [OF \<open>n < 8\<close>] s7(5) s6(5) s5(10) s4(10) s3(10) s2(6) s1(6) case_prod_beta)
  then have fin: "lab_heap m p (Suc n) (release_blocks x s7)"
    using rel mine l s1(5) s2(5) s3(9) s4(9) s5(9) s6(4) s7(4) by (simp add: lab_heap_def)
  have apart: "ranges_apart [(p, 24), (a, 13), (b, 1024), (c, 9)]"
  proof -
    have mem: "(p, 24, m) \<in> set (payloads s5)" "(a, ca, x) \<in> set (payloads s5)" "(b, cb, x) \<in> set (payloads s5)" "(c, cc, x) \<in> set (payloads s5)"
      using set5 by simp_all
    note sound = payloads_sound(2) [OF s5(2) mem(1)] payloads_sound(2) [OF s5(2) mem(2)]
      payloads_sound(2) [OF s5(2) mem(3)] payloads_sound(2) [OF s5(2) mem(4)]
    have top: "unat (heap_end (fst s5)) < 2 ^ 32" using unat_less_2p(3) [of "heap_end (fst s5)"] by simp
    note far = payloads_apart [OF s5(2) mem(1,2)] payloads_apart [OF s5(2) mem(1,3)] payloads_apart [OF s5(2) mem(1,4)]
      payloads_apart [OF s5(2) mem(2,3)] payloads_apart [OF s5(2) mem(2,4)] payloads_apart [OF s5(2) mem(3,4)]
    have caps: "13 \<le> unat ca" "1024 \<le> unat cb" "9 \<le> unat cc" using s3(6) s4(6) s5(6) by (simp_all add: request_numbers)
    show ?thesis
      unfolding ranges_apart_def using sound far ne caps top p0 s3(3) s4(3) s5(3) by simp arith
  qed
  show thesis
    by (rule that [of a b c "[s, s1, s2, s3, s4, s5, s6, s7]"])
      (use s1 s2 s3 s4 s5 s6 s7 apart fin l in \<open>simp_all add: client_calls_def\<close>)
qed

section \<open>A fresh heap\<close>

text \<open>One free block, nothing counted.\<close>

definition fresh_heap :: "heap_state \<Rightarrow> bool" where
  "fresh_heap s \<longleftrightarrow> state_ok s \<and> payloads s = [] \<and> chain (fst s) (snd s) = [heap_begin (fst s)] \<and>
     counts s = (0, 0, 0, 0) \<and> 4096 \<le> heap_bytes s"

text \<open>The first block of the manager turns it into the heap of the rounds.\<close>

lemma fresh_lab:
  assumes fresh: "fresh_heap s" and m: "m \<noteq> OS_MEMORY_OWNER_NONE"
  obtains p s' where "acquire_block 24 m s = (Some p, s')" "lab_heap m p 0 s'" "p \<noteq> 0" "8 dvd unat p"
proof -
  note f = fresh [unfolded fresh_heap_def]
  have ok: "heap_ok (fst s) (snd s)" using f by (simp add: state_ok_def)
  have cap: "heap_bytes s = 24 + cap (snd s) (heap_begin (fst s))"
    using seg_sum [OF heap_okD(5) [OF ok]] f by (simp add: heap_bytes_def)
  have "gaps s \<le> length (chain (fst s) (snd s))" by (simp add: gaps_def)
  then have room: "gaps s \<le> 2" "24 * (length (payloads s) + 2) + used s + 2 * request_size 24 < heap_bytes s"
    using f by (simp_all add: used_def request_size_def)
  have req: "request_ok 24 m" using m by (simp add: request_ok_def)
  obtain p s' c xs ys where s': "acquire_block 24 m s = (Some p, s')" "state_ok s'" "p \<noteq> 0"
    "payloads s = xs @ ys" "payloads s' = xs @ (p, c, m) # ys" "gaps s' \<le> gaps s" "heap_bytes s' = heap_bytes s"
    "counts s' = (\<lambda>(g, f, e, i). (increment_saturating g, f, e, i)) (counts s)"
    by (rule acquire_room [OF _ req room]) (use f in simp, rule that)
  have pay: "payloads s' = [(p, c, m)]" using s'(4,5) f by simp
  have "unat c = 24"
  proof -
    obtain q a' H' us vs where run: "os_allocator_alloc (Some (fst s)) (snd s) 24 m = Some (q, Some a', H')"
      "q \<noteq> 0 \<longrightarrow> (\<forall>b \<in> set (chain (fst s) (snd s)). request_size 24 + 32 \<le> cap (snd s) b) \<longrightarrow>
         cap H' (q - 24) = request_size 24"
      "q \<noteq> 0 \<longrightarrow> live_blocks a' H' = us @ [(q - 24, block_capacity (H' (q - 24)), m)] @ vs"
      using alloc_result [OF ok, of 24 m] by blast
    have q: "q = p" "s' = (a', H')" using run(1) s'(1) by (auto simp: acquire_block_def split: if_splits)
    have "c = block_capacity (H' (p - 24))" using run(3) q s'(3) pay by (auto simp: payloads_def append_eq_Cons_conv)
    then show ?thesis using run(2) q s'(3) f cap by (simp add: request_size_def)
  qed
  then have c: "c = 24" by (simp add: word_unat_eq_iff)
  have "gaps s \<le> 1" using f by (simp add: gaps_def)
  then have "length (chain (fst s') (snd s')) \<le> 2" using chain_numbers(1) [of s'] pay s'(6) by simp
  moreover have "live (snd s') (chain (fst s') (snd s')) \<noteq> []" using pay by (auto simp: payloads_def live_blocks_def)
  ultimately have "calm (snd s') (chain (fst s') (snd s'))"
    by (cases "chain (fst s') (snd s')" rule: remdups_adj.cases) (auto simp: live_Cons)
  moreover have "counts s' = lab_counts 0" using s'(8) f increment_of_nat [of 0] by (simp add: lab_counts_def)
  ultimately have "lab_heap m p 0 s'" using s'(2,7) pay c f by (simp add: lab_heap_def)
  moreover have "8 dvd unat p" using payloads_sound(2) [OF s'(2), of p c m] pay by simp
  ultimately show thesis by (intro that [OF s'(1) _ s'(3)])
qed

section \<open>The statistics\<close>

lemma lab_stats:
  assumes "lab_heap m p n s" and "n \<le> 8"
  obtains st where "os_allocator_get_stats (Some (fst s)) (snd s) (Some st0) = Some (True, Some st)"
    "st_allocated_blocks st = 1" "st_allocated_bytes st = 24"
    "(st_successful_allocations st, st_successful_frees st, st_failed_allocations st, st_invalid_frees st) = lab_counts n"
proof -
  have ok: "heap_ok (fst s) (snd s)" and pay: "payloads s = [(p, 24, m)]" and c: "counters_of (fst s) = lab_counts n"
    using assms(1) by (simp_all add: lab_heap_def state_ok_def counts_def)
  obtain b where live: "live_blocks (fst s) (snd s) = [(b, 24, m)]" using pay by (auto simp: payloads_def)
  from os_allocator_stats_account [OF ok, of st0] obtain st where
    st: "os_allocator_get_stats (Some (fst s)) (snd s) (Some st0) = Some (True, Some st)"
    "unat (st_allocated_blocks st) = 1" "unat (st_allocated_bytes st) = 24"
    "(st_successful_allocations st, st_successful_frees st, st_failed_allocations st, st_invalid_frees st) = lab_counts n"
    unfolding live c by auto
  then show thesis by (intro that [of st]) (simp_all add: word_unat_eq_iff)
qed

text \<open>A calm heap without live blocks is one free block, and the statistics say so.\<close>

lemma empty_stats:
  assumes "state_ok s" and "payloads s = []" and "calm (snd s) (chain (fst s) (snd s))"
  obtains st where "os_allocator_get_stats (Some (fst s)) (snd s) (Some st0) = Some (True, Some st)"
    "st_allocated_blocks st = 0" "st_allocated_bytes st = 0" "st_free_blocks st = 1"
    "st_free_bytes st = st_largest_free_block_bytes st"
    "(st_successful_allocations st, st_successful_frees st, st_failed_allocations st, st_invalid_frees st) = counts s"
proof -
  let ?a = "fst s" and ?H = "snd s"
  have ok: "heap_ok ?a ?H" and live: "live_blocks ?a ?H = []" using assms(1,2) by (simp_all add: state_ok_def payloads_def)
  have ne: "chain ?a ?H \<noteq> []" using heap_shape_first [OF heap_okD(1) [OF ok]] by auto
  then obtain b where b: "chain ?a ?H = [b]" using calm_all_free [OF assms(3)] live by (auto simp: live_blocks_def)
  have free: "free_block ?H b" using live by (simp add: live_blocks_def b live_Cons split: if_splits)
  have cap: "unat (heap_end ?a) - unat (heap_begin ?a) = 24 + cap ?H b" "8 \<le> cap ?H b"
    using seg_sum [OF heap_okD(5) [OF ok]] heap_okD(6) [OF ok] by (simp_all add: b)
  from os_allocator_stats_account [OF ok, of st0] obtain st where
    st: "os_allocator_get_stats (Some ?a) ?H (Some st0) = Some (True, Some st)"
    "unat (st_heap_bytes st) = unat (heap_end ?a) - unat (heap_begin ?a)"
    "unat (st_heap_bytes st) = unat (st_payload_capacity_bytes st) + 24 * (unat (st_allocated_blocks st) + unat (st_free_blocks st))"
    "unat (st_payload_capacity_bytes st) = unat (st_allocated_bytes st) + unat (st_free_bytes st)"
    "unat (st_allocated_blocks st) = 0" "unat (st_allocated_bytes st) = 0"
    "block_capacity (?H b) \<le> st_largest_free_block_bytes st"
    "st_largest_free_block_bytes st = 0 \<or> block_capacity (?H b) = st_largest_free_block_bytes st"
    "unat (st_free_blocks st) = 1"
    "(st_successful_allocations st, st_successful_frees st, st_failed_allocations st, st_invalid_frees st) = counts s"
    unfolding live b counts_def using free by auto
  have "unat (st_free_bytes st) = cap ?H b" using st(2-6,9) cap by simp
  moreover have "block_capacity (?H b) = st_largest_free_block_bytes st" using st(7,8) cap(2) by (auto simp: word_le_nat_alt)
  ultimately have "st_free_bytes st = st_largest_free_block_bytes st" by (simp add: word_unat_eq_iff)
  with st show thesis by (intro that [of st]) (simp_all add: word_unat_eq_iff)
qed

section \<open>An owner without blocks\<close>

lemma release_loop_none:
  assumes "seg a H p pos ys 0 stop" and "0 < pos" and "\<forall>b \<in> set ys. free_block H b \<or> block_owner (H b) \<noteq> x"
  shows "release_loop x a H (head_or 0 ys) n = Some (a, H, n)"
  using assms
proof (induction ys arbitrary: p pos)
  case Nil
  then show ?case by (simp add: release_loop.simps)
next
  case (Cons b ys)
  have "unat b = pos" "block_next (H b) = head_or 0 ys" "seg a H b (pos + 24 + cap H b) ys 0 stop" using Cons.prems(1) by auto
  moreover from this have "release_loop x a H (head_or 0 ys) n = Some (a, H, n)" using Cons.IH Cons.prems(2,3) by simp
  ultimately show ?case using Cons.prems(2,3) by (subst release_loop.simps) auto
qed

lemma release_none:
  assumes "state_ok s" and "\<forall>b \<in> set (payloads s). \<not> block_of x b"
  shows "release_blocks x s = s"
proof -
  let ?a = "fst s" and ?H = "snd s"
  have ok: "heap_ok ?a ?H" using assms(1) by (simp add: state_ok_def)
  have "\<forall>b \<in> set (chain ?a ?H). free_block ?H b \<or> block_owner (?H b) \<noteq> x"
    using assms(2) by (auto simp: payloads_def live_blocks_def live_def)
  moreover have "0 < unat (heap_begin ?a)" using heap_okD(2) [OF ok] by (simp add: arena_ok_def)
  moreover have "head_or 0 (chain ?a ?H) = first_block ?a" using heap_shape_first [OF heap_okD(1) [OF ok]] by auto
  ultimately have "release_loop x ?a ?H (first_block ?a) 0 = Some (?a, ?H, 0)"
    using release_loop_none [OF heap_okD(5) [OF ok]] by metis
  then show ?thesis by (cases s) (auto simp: release_blocks_def os_allocator_release_owner_def)
qed

lemma give_back_null: "state_ok s \<Longrightarrow> give_back_block 0 x s = (True, s)"
  using free_outcome [of "fst s" "snd s" 0 x] by (auto simp: state_ok_def give_back_block_def)

end
