(* ===== verification/Heap_Start.thy ===== *)
theory Heap_Start
  imports Heap_Lab Heap_Rounds Kernel_Calls
begin

text \<open>
  The start of the allocator workload: \<open>main\<close> finds one free block, a request before the start is refused,
  and the manager becomes task 1.
\<close>

lemma manager_startable:
  assumes "manager_entry \<noteq> 0"
  defines "c \<equiv> os_task_config_default manager_entry MANAGER_ARGUMENT"
  shows "startable (c\<lparr>tc_timing := (tc_timing c)\<lparr>cfg_relative_deadline_ticks := MANAGER_DEADLINE, cfg_priority := 200\<rparr>\<rparr>)"
  using assms(1)
  by (simp add: c_def startable_def os_task_config_default_def os_sched_config_valid_def os_tick_interval_valid_def
      Let_def word_le_nat_alt word_less_nat_alt unat_sub_le)

lemma region_fresh:
  assumes "heap_ok (memory_allocator k) (memory_blocks k)" and "live_blocks (memory_allocator k) (memory_blocks k) = []"
    and "region_heap P (memory_allocator k) (memory_blocks k)"
    and "(unat (heap_start_symbol P) + 7) div 8 * 8 + 4096 \<le> unat (heap_end_symbol P) div 8 * 8"
  shows "fresh_heap (heap_of k)"
  using assms by (simp add: fresh_heap_def region_heap_def heap_of_def state_ok_def payloads_def counts_def heap_bytes_def)

lemma heap_main_starts:
  assumes "platform_ok P" and "sets_priority P" and "power_on k" and "ipsr k = 0"
    and "hal_works h" and "hal_sends transmit wire" and "hal_never_fails transmit" and "manager_entry \<noteq> 0"
    and region: "(unat (heap_start_symbol P) + 7) div 8 * 8 + 4096 \<le> unat (heap_end_symbol P) div 8 * 8"
  shows "\<exists>k' w'. heap_main P h transmit manager_entry k w s = Inr (OS_SVC_START, k', w', s\<lparr>manager_id := 1\<rparr>) \<and>
    wire w' = wire (snd (board_init h w)) @ c_text (''AYMOS READY'' @ crlf) @ c_text (''ALLOCATOR BEGIN'' @ crlf) \<and>
    reachable P (rs, k') \<and> running k' \<and> fresh_heap (heap_of k')"
proof -
  let ?c = "os_task_config_default manager_entry MANAGER_ARGUMENT"
  let ?config = "?c\<lparr>tc_timing := (tc_timing ?c)\<lparr>cfg_relative_deadline_ticks := MANAGER_DEADLINE, cfg_priority := 200\<rparr>\<rparr>"
  obtain w1 where b: "board_init h w = (HAL_OK, w1)" using board_init_ok [OF assms(5), of w] by (cases "board_init h w") simp
  have clean: "CHR 0x00 \<notin> set (''AYMOS READY'' @ crlf)" "CHR 0x00 \<notin> set (''ALLOCATOR BEGIN'' @ crlf)" by (simp_all add: crlf_def)
  obtain w2 where w2: "write_line transmit (''AYMOS READY'' @ crlf) w1 = Inr w2" "wire w2 = wire w1 @ c_text (''AYMOS READY'' @ crlf)"
    using write_line_sends [OF assms(6,7) clean(1)] by blast
  obtain w3 where w3: "write_line transmit (''ALLOCATOR BEGIN'' @ crlf) w2 = Inr w3" "wire w3 = wire w2 @ c_text (''ALLOCATOR BEGIN'' @ crlf)"
    using write_line_sends [OF assms(6,7) clean(2)] by blast
  obtain k1 where k1: "os_kernel_init P k = Inr (True, k1)" "before_start P rs [idle_schedule] k1" "os_exception_configuration_valid k1"
    "kernel_initialized k1" "heap_ok (memory_allocator k1) (memory_blocks k1)" "live_blocks (memory_allocator k1) (memory_blocks k1) = []"
    "region_heap P (memory_allocator k1) (memory_blocks k1)"
    using booted_ready [OF assms(1,3,4,2)] by blast
  have off: "ipsr k1 = 0" "\<not> running k1" using k1(2) by (simp_all add: before_start_def)
  have fresh: "fresh_heap (heap_of k1)" by (rule region_fresh [OF k1(5-7) region])
  have valid: "os_memory_validate k1 = Inr (True, k1)"
    using heap_okD(4) [OF k1(5)] k1(4) off(1) by (simp add: os_memory_validate_def masked_def os_allocator_validate_def)
  have calm: "calm (snd (heap_of k1)) (chain (fst (heap_of k1)) (snd (heap_of k1)))" using fresh by (simp add: fresh_heap_def)
  obtain st where st: "os_allocator_get_stats (Some (memory_allocator k1)) (memory_blocks k1) (Some os_memory_stats_zero) = Some (True, Some st)"
    "st_allocated_blocks st = 0" "st_free_blocks st = 1" "st_free_bytes st = st_largest_free_block_bytes st"
    using empty_stats [OF _ _ calm, of os_memory_stats_zero] fresh by (auto simp: fresh_heap_def heap_of_def)
  have stats: "os_memory_stats (Some os_memory_stats_zero) k1 = Inr ((True, Some st), k1)"
    using st(1) k1(4) off(1) by (simp add: os_memory_stats_def masked_def returned_def)
  have refused: "os_memory_alloc P OS_MEMORY_ALIGNMENT k1 = Inr (0, k1)"
    using off(2) by (simp add: os_memory_alloc_def caller_is_running_task_def)
  obtain k2 where k2: "os_task_create P (Some ?config) (Some (manager_id s)) k1 = Inr ((True, Some 1), k2)"
    "before_start P rs [idle_schedule, initial_record 1 ?config] k2"
    "memory_allocator k2 = memory_allocator k1" "memory_blocks k2 = memory_blocks k1"
    using create_one [OF assms(1) k1(2) manager_startable [OF assms(8)], of "manager_id s"] by auto
  note facts = k2(2) [unfolded before_start_def]
  obtain k3 where k3: "os_kernel_start k2 = Inr (OS_SVC_START, k3)"
    using facts by (simp add: os_kernel_start_def kernel_ok_def)
  note q = quiet_eqD [OF start_keeps(2) [OF conjunct1 [OF conjunct2 [OF facts]] k3]]
  have "reachable P (rs, k3)" using reachable.step [OF _ kernel_step.start [OF k3]] facts by blast
  moreover have "fresh_heap (heap_of k3)" using fresh q k2(3,4) by (simp add: heap_of_def)
  moreover have "heap_main P h transmit manager_entry k w s = Inr (OS_SVC_START, k3, w3, s\<lparr>manager_id := 1\<rparr>)"
    using b w2(1) w3(1) k1(1,3) valid stats st(2-4) refused k2(1) k3
    by (simp add: heap_main_def require_def Let_def del: append.simps)
  ultimately show ?thesis using q w2(2) w3(2) b by (intro exI [of _ k3] exI [of _ w3]) simp
qed

end
