(* ===== verification/Heap_Lab_Claims.thy ===== *)
theory Heap_Lab_Claims
  imports Heap_Start App_Demo
begin

text \<open>
  The properties of the allocator workload: it starts with one free block, of which the manager takes 24 bytes;
  every round of the manager and a worker passes all its checks and leaves the heap as it was, with the
  counters of the round; at the end the heap is one free block.
\<close>

section \<open>Bytes\<close>

lemma fill_fold:
  "fold (\<lambda>index m. m(q + of_nat index := v)) [0..<n] m x = (if \<exists>i < n. x = q + of_nat i then v else m x)"
  by (induction n) (auto simp: less_Suc_eq)

lemma payload_fill: "payload_bytes (fill_bytes q n v s) x = (if \<exists>i < unat n. x = q + of_nat i then v else payload_bytes s x)"
  by (simp add: fill_bytes_def fill_fold)

lemma fill_fields [simp]:
  "manager_id (fill_bytes q n v s) = manager_id s" "worker_id (fill_bytes q n v s) = worker_id s"
  "manager_allocation (fill_bytes q n v s) = manager_allocation s"
  "worker_completed_iteration (fill_bytes q n v s) = worker_completed_iteration s"
  by (simp_all add: fill_bytes_def)

lemma bytes_fill_same [simp]: "bytes_equal q n v (fill_bytes q n v s)"
  by (auto simp: bytes_equal_def list_all_iff payload_fill)


section \<open>Calls of a task that is interrupted\<close>

text \<open>What interrupts and the calls of the heap leave alone.\<close>

definition steady :: "kernel \<Rightarrow> kernel \<Rightarrow> bool" where
  "steady k k' \<longleftrightarrow> (heap_caller k \<longrightarrow> heap_caller k') \<and> primask k' = primask k \<and> current_task k' = current_task k \<and>
     kernel_initialized k' = kernel_initialized k \<and> ipsr k' = ipsr k \<and> running k' = running k \<and>
     reclaim_counter k' = reclaim_counter k \<and> last_reclaimed k' = last_reclaimed k \<and>
     (\<forall>i. state (sched k' i) = OS_TASK_DORMANT \<longleftrightarrow> state (sched k i) = OS_TASK_DORMANT)"

lemma steady_trans: "steady k k' \<Longrightarrow> steady k' k'' \<Longrightarrow> steady k k''"
  by (simp add: steady_def)

lemma steady_quiet: "quiet k' = quiet (with_heap s k) \<Longrightarrow> steady k k'"
  using quiet_eqD [of k' "with_heap s k"]
  by (simp add: steady_def with_heap_def heap_caller_def caller_is_running_task_def sched_def)

definition undisturbed :: "(nat \<Rightarrow> kernel \<Rightarrow> kernel) \<Rightarrow> bool" where
  "undisturbed between \<longleftrightarrow> (\<forall>n k. steady k (between n k) \<and> heap_of (between n k) = heap_of k)"

lemma free_call:
  assumes "undisturbed between" and "heap_caller k" and "give_back_block q (ucast (current_task k)) (heap_of k) = (r, h)"
  shows "\<exists>k'. os_memory_free P q (between n k) = Inr (r, k') \<and> heap_of k' = h \<and> steady k k'"
proof -
  have b: "steady k (between n k)" "heap_of (between n k) = heap_of k" using assms(1) by (simp_all add: undisturbed_def)
  then have "heap_caller (between n k)" "current_task (between n k) = current_task k" using assms(2) by (simp_all add: steady_def)
  then obtain k' where "os_memory_free P q (between n k) = Inr (r, k')" "heap_of k' = h"
    "quiet k' = quiet (with_heap (heap_of k') (between n k))"
    using os_memory_free_effect [of "between n k" P q] assms(3) b(2) by auto
  with steady_trans [OF b(1) steady_quiet] show ?thesis by blast
qed

lemma alloc_call:
  assumes "undisturbed between" and "heap_caller k" and "acquire_block sz (ucast (current_task k)) (heap_of k) = (r, h)"
  shows "\<exists>k'. os_memory_alloc P sz (between n k) = Inr (case r of None \<Rightarrow> 0 | Some q \<Rightarrow> q, k') \<and> heap_of k' = h \<and> steady k k'"
proof -
  have b: "steady k (between n k)" "heap_of (between n k) = heap_of k" using assms(1) by (simp_all add: undisturbed_def)
  then have "heap_caller (between n k)" "current_task (between n k) = current_task k" using assms(2) by (simp_all add: steady_def)
  then obtain k' where "os_memory_alloc P sz (between n k) = Inr (case r of None \<Rightarrow> 0 | Some q \<Rightarrow> q, k')" "heap_of k' = h"
    "quiet k' = quiet (with_heap (heap_of k') (between n k))"
    using os_memory_alloc_effect [of "between n k" P sz] assms(3) b(2) by auto
  with steady_trans [OF b(1) steady_quiet] show ?thesis by blast
qed

lemma masked_same: "heap_of (k\<lparr>primask := x\<rparr>) = heap_of k" "k\<lparr>primask := primask k\<rparr> = k"
  by (simp_all add: heap_of_def)

lemma validate_call:
  assumes "undisturbed between" and "kernel_initialized k" and "ipsr k = 0" and "state_ok (heap_of k)"
  shows "\<exists>k'. os_memory_validate (between n k) = Inr (True, k') \<and> heap_of k' = heap_of k \<and> steady k k'"
proof -
  have b: "steady k (between n k)" "heap_of (between n k) = heap_of k" using assms(1) by (simp_all add: undisturbed_def)
  have "os_allocator_validate (Some (memory_allocator (between n k))) (memory_blocks (between n k))"
    using heap_okD(4) assms(4) b(2) by (simp add: state_ok_def heap_of_def os_allocator_validate_def)
  moreover have "kernel_initialized (between n k)" "ipsr (between n k) = 0" using b(1) assms(2,3) by (simp_all add: steady_def)
  ultimately show ?thesis using b by (simp add: os_memory_validate_def masked_def)
qed

lemma stats_call:
  assumes "undisturbed between" and "kernel_initialized k" and "ipsr k = 0"
    and "os_allocator_get_stats (Some (fst (heap_of k))) (snd (heap_of k)) (Some st0) = Some (True, Some st)"
  shows "\<exists>k'. os_memory_stats (Some st0) (between n k) = Inr ((True, Some st), k') \<and> heap_of k' = heap_of k \<and> steady k k'"
proof -
  have b: "steady k (between n k)" "heap_of (between n k) = heap_of k" using assms(1) by (simp_all add: undisturbed_def)
  then have "kernel_initialized (between n k)" "ipsr (between n k) = 0" using assms(2,3) by (simp_all add: steady_def)
  with b assms(4) show ?thesis by (simp add: os_memory_stats_def masked_def heap_of_def returned_def)
qed

text \<open>The bytes of the manager.\<close>

definition canary :: "heap_lab \<Rightarrow> bool" where
  "canary s \<longleftrightarrow> bytes_equal (manager_allocation s) 24 0x5A s"

lemma aligned_mod: "8 dvd unat (q :: u32) \<Longrightarrow> q mod 8 = 0"
  by (simp add: word_unat_eq_iff unat_mod dvd_eq_mod_eq_0)

section \<open>The start\<close>

lemma manager_start_passes:
  assumes "undisturbed between" and "fresh_heap (heap_of k)" and "heap_caller k" and "os_thread_uses_psp k"
    and "current_task k = 1" and "manager_id s = 1"
  shows "\<exists>k' s'. manager_start P between MANAGER_ARGUMENT k s = Inr (k', s') \<and> manager_id s' = 1 \<and> canary s' \<and>
    lab_heap 1 (manager_allocation s') 0 (heap_of k')"
proof -
  obtain p h where h: "acquire_block 24 1 (heap_of k) = (Some p, h)" "lab_heap 1 p 0 h" "p \<noteq> 0" "8 dvd unat p"
    by (rule fresh_lab [OF assms(2), of 1]) (auto intro: that)
  obtain k' where k': "os_memory_alloc P 24 (between 0 k) = Inr (p, k')" "heap_of k' = h"
    using alloc_call [OF assms(1,3), of 24 "Some p" h P 0] h(1) assms(5) by auto
  have "manager_start P between MANAGER_ARGUMENT k s = Inr (k', fill_bytes p 24 0x5A (s\<lparr>manager_allocation := p\<rparr>))"
    using k'(1) h(3) aligned_mod [OF h(4)] assms(4-6) by (simp add: manager_start_def require_def os_current_task_def)
  moreover have "canary (fill_bytes p 24 0x5A (s\<lparr>manager_allocation := p\<rparr>))" by (simp add: canary_def)
  ultimately show ?thesis using h(2) k'(2) assms(6) by (intro exI conjI) auto
qed

text \<open>C34: The start of the allocator workload. From a reset \<open>main\<close> passes its checks (the heap valid and one free
  block, a request before the start refused, the manager in slot 1), announces itself and comes to a reachable
  state of the running kernel; there the manager, wherever it is first interrupted, obtains its block, which is
  then the only one in the heap, and fills it.\<close>

theorem allocator_workload_begins:
  assumes "platform_ok P" and "sets_priority P" and "power_on k" and "ipsr k = 0"
    and "hal_works h" and "hal_sends transmit wire" and "hal_never_fails transmit" and "manager_entry \<noteq> 0"
    and "(unat (heap_start_symbol P) + 7) div 8 * 8 + 4096 \<le> unat (heap_end_symbol P) div 8 * 8" and "undisturbed between"
  shows "\<exists>k1 w' s1. heap_main P h transmit manager_entry k w s = Inr (OS_SVC_START, k1, w', s1) \<and>
    wire w' = wire (snd (board_init h w)) @ c_text (''AYMOS READY'' @ crlf) @ c_text (''ALLOCATOR BEGIN'' @ crlf) \<and>
    reachable P (rs, k1) \<and> running k1 \<and>
    (\<forall>k2. heap_of k2 = heap_of k1 \<and> heap_caller k2 \<and> os_thread_uses_psp k2 \<and> current_task k2 = 1 \<longrightarrow>
      (\<exists>k3 s3. manager_start P between MANAGER_ARGUMENT k2 s1 = Inr (k3, s3) \<and> manager_id s3 = 1 \<and> canary s3 \<and>
         lab_heap 1 (manager_allocation s3) 0 (heap_of k3)))"
proof -
  obtain k1 w' where k1: "heap_main P h transmit manager_entry k w s = Inr (OS_SVC_START, k1, w', s\<lparr>manager_id := 1\<rparr>)"
    "wire w' = wire (snd (board_init h w)) @ c_text (''AYMOS READY'' @ crlf) @ c_text (''ALLOCATOR BEGIN'' @ crlf)"
    "reachable P (rs, k1)" "running k1" "fresh_heap (heap_of k1)"
    using heap_main_starts [OF assms(1-9)] by blast
  have "\<exists>k3 s3. manager_start P between MANAGER_ARGUMENT k2 (s\<lparr>manager_id := 1\<rparr>) = Inr (k3, s3) \<and> manager_id s3 = 1 \<and> canary s3 \<and>
         lab_heap 1 (manager_allocation s3) 0 (heap_of k3)"
    if "heap_of k2 = heap_of k1" "heap_caller k2" "os_thread_uses_psp k2" "current_task k2 = 1" for k2
    using manager_start_passes [OF assms(10) _ that(2-4), of "s\<lparr>manager_id := 1\<rparr>" P] k1(5) that(1) by simp
  with k1(1-4) show ?thesis by blast
qed

section \<open>The worker\<close>




section \<open>The round\<close>

text \<open>What \<open>reclaim_exiting_task\<close> leaves, when it does not panic.\<close>

lemma reclaim_leaves:
  assumes "reclaim_exiting_task i k = Inr k'" and "unat i < length (schedules k)"
  shows "heap_of k' = release_blocks (ucast i) (heap_of k)" "reclaim_counter k' = reclaim_counter k + 1" "last_reclaimed k' = i"
    "state (sched k' i) = OS_TASK_DORMANT"
proof -
  obtain n al H where rel: "os_allocator_release_owner (Some (memory_allocator k)) (memory_blocks k) (ucast i) = Some (n, al, H)"
    using release_returns [of "Some (memory_allocator k)" "memory_blocks k" "ucast i"] by auto
  have "al \<noteq> None"
    using rel by (auto simp: os_allocator_release_owner_def split: if_splits option.splits prod.splits)
  then obtain a where a: "al = Some a" by blast
  show "heap_of k' = release_blocks (ucast i) (heap_of k)" "reclaim_counter k' = reclaim_counter k + 1" "last_reclaimed k' = i"
    "state (sched k' i) = OS_TASK_DORMANT"
    using assms rel a
    by (auto simp: reclaim_exiting_task_def returned_def on_ok_eq_Inr transition_task_def reset_task_def Let_def release_blocks_def heap_of_def
        set_heap_def os_kernel_panic_def sched_call_def set_tcb_def call_ptr_def os_sched_task_reset_def sched_def tcb_def case_prod_beta
        split: if_splits option.splits)
qed

text \<open>A task that leaves, in the kernel that reclaims it.\<close>

definition leaving :: "os_task_id_t \<Rightarrow> u32 \<Rightarrow> kernel \<Rightarrow> bool" where
  "leaving i reclaims k \<longleftrightarrow> length (schedules k) = OS_TASK_COUNT \<and> state (sched k i) = OS_TASK_EXITING \<and>
     stack_claimed (tcb k i) \<and> reclaim_counter k = reclaims"

lemma reclaim_succeeds:
  assumes "state_ok (heap_of k)" and "leaving i n k" and "unat i < OS_TASK_COUNT" and "i \<noteq> OS_TASK_ID_IDLE"
  shows "\<exists>k'. reclaim_exiting_task i k = Inr k' \<and> heap_of k' = release_blocks (ucast i) (heap_of k) \<and>
    reclaim_counter k' = n + 1 \<and> last_reclaimed k' = i \<and> state (sched k' i) = OS_TASK_DORMANT"
proof -
  let ?a0 = "memory_allocator k" and ?H0 = "memory_blocks k"
  note l = assms(2) [unfolded leaving_def]
  have ok: "heap_ok ?a0 ?H0" using assms(1) by (simp add: state_ok_def heap_of_def)
  obtain r a H where rel: "os_allocator_release_owner (Some ?a0) ?H0 (ucast i) = Some (r, Some a, H)" "heap_ok a H"
    using release_outcome [OF ok owner_not_none [OF assms(3)] HOL.refl] by blast
  have valid: "os_allocator_validate (Some ?a0) ?H0" "os_allocator_validate (Some a) H"
    using heap_okD(4) [OF ok] heap_okD(4) [OF rel(2)] by (simp_all add: os_allocator_validate_def)
  define k2 where "k2 = (if r \<noteq> 0 then trace_emit OS_TRACE_OWNER_RELEASE (ucast i) OS_TRACE_TASK_INVALID
      r (ucast i) 1 (set_heap (Some a) H k) else set_heap (Some a) H k)"
  have k2: "quiet k2 = quiet (k\<lparr>memory_allocator := a, memory_blocks := H\<rparr>)" by (simp add: k2_def set_heap_def)
  then have "sched k2 i = sched k i" using quiet_eqD(2) [OF k2] by (simp add: sched_def)
  then have "\<exists>k3. transition_task i OS_TASK_EXITING OS_TASK_DORMANT ''RECLAIM_STATE'' k2 = Inr k3"
    using transition_effect [of i k2 OS_TASK_EXITING OS_TASK_DORMANT "''RECLAIM_STATE''"] assms(3) l by simp
  then obtain k' where k': "reclaim_exiting_task i k = Inr k'"
    using assms(3,4) l valid rel(1) quiet_eqD(9,13) [OF k2]
    by (auto simp: reclaim_exiting_task_def returned_def k2_def [symmetric] Let_def)
  have "unat i < length (schedules k)" using assms(3) l by simp
  from reclaim_leaves [OF k' this] k' l show ?thesis by blast
qed

text \<open>The kernel in which another task goes on after a reclaim.\<close>

definition goes_on :: "kernel \<Rightarrow> kernel \<Rightarrow> bool" where
  "goes_on k k' \<longleftrightarrow> heap_of k' = heap_of k \<and> reclaim_counter k' = reclaim_counter k \<and> last_reclaimed k' = last_reclaimed k \<and>
     (\<forall>i. state (sched k' i) = OS_TASK_DORMANT \<longleftrightarrow> state (sched k i) = OS_TASK_DORMANT) \<and>
     primask k' = 0 \<and> ipsr k' = 0 \<and> kernel_initialized k'"




section \<open>The end\<close>

lemma final_heap:
  assumes "lab_heap m p 8 s"
  obtains s' where "give_back_block p m s = (True, s')" "state_ok s'" "payloads s' = []" "calm (snd s') (chain (fst s') (snd s'))"
    "counts s' = (25, 25, 8, 16)"
proof -
  have l: "state_ok s" "payloads s = [(p, 24, m)]" "counts s = lab_counts 8" using assms by (simp_all add: lab_heap_def)
  have p: "p \<noteq> 0" using payload_nonzero [OF l(1), of p 24 m] l(2) by simp
  obtain s' where s': "give_back_block p m s = (True, s')" "state_ok s'" "payloads s' = filter (\<lambda>b. fst b \<noteq> p) (payloads s)"
    "calm (snd s') (chain (fst s') (snd s'))" "counts s' = (\<lambda>(g, f, e, i). (g, increment_saturating f, e, i)) (counts s)"
    by (rule give_back_taken [OF l(1) p, of 24 m]) (use l(2) in simp, rule that)
  have "counts s' = (25, 25, 8, 16)" using s'(5) l(3) increment_of_nat [of 24] by (simp add: lab_counts_def)
  with s' l(2) show thesis by (intro that [of s']) simp_all
qed

lemma idle_create_refused:
  assumes "running k" and "current_task k = OS_TASK_ID_IDLE"
  shows "os_task_create P (Some c) (Some created) k = Inr ((False, Some created), k)"
  using assms by (simp add: os_task_create_def creator_allowed_def)

lemma final_lines:
  "CHR 0x00 \<notin> set (''ALLOCATOR REUSED SLOT=2 COUNT=8'' @ crlf)"
  "CHR 0x00 \<notin> set (''ALLOCATOR STATS ALLOCATED=0 FREE_BLOCKS=1 INVALID_FREES=16'' @ crlf)"
  "CHR 0x00 \<notin> set (''AYMOS ALLOCATOR PASS'' @ crlf)"
  by (simp_all add: crlf_def)

lemma idle_hook_passes:
  assumes "undisturbed between" and "hal_sends transmit wire" and "hal_never_fails transmit"
    and heap: "state_ok (heap_of k)" "payloads (heap_of k) = []" "calm (snd (heap_of k)) (chain (fst (heap_of k)) (snd (heap_of k)))"
      "counts (heap_of k) = (25, 25, 8, 16)"
    and k: "reclaim_counter k = 9" "last_reclaimed k = manager_id s" "primask k = 0" "ipsr k = 0" "kernel_initialized k"
      "running k" "current_task k = OS_TASK_ID_IDLE" "os_thread_uses_psp k"
  shows "\<exists>k' w'. heap_idle_hook P between transmit worker_entry s k w = Inr (k', w') \<and>
    wire w' = wire w @ c_text (''ALLOCATOR STATS ALLOCATED=0 FREE_BLOCKS=1 INVALID_FREES=16'' @ crlf) @ c_text (''AYMOS ALLOCATOR PASS'' @ crlf)"
proof -
  have b: "steady k (between 0 k)" "heap_of (between 0 k) = heap_of k" using assms(1) by (simp_all add: undisturbed_def)
  have create: "os_task_create P (Some (os_task_config_default worker_entry 0)) (Some OS_TASK_ID_INVALID) (between 0 k) =
      Inr ((False, Some OS_TASK_ID_INVALID), between 0 k)"
    by (rule idle_create_refused) (use b(1) k in \<open>simp_all add: steady_def\<close>)
  obtain k1 where k1: "os_memory_validate (between 1 (between 0 k)) = Inr (True, k1)" "heap_of k1 = heap_of k" "steady (between 0 k) k1"
    using validate_call [OF assms(1), of "between 0 k" 1] b k heap(1) by (auto simp: steady_def)
  note t1 = steady_trans [OF b(1) k1(3)]
  obtain st where st: "os_allocator_get_stats (Some (fst (heap_of k1))) (snd (heap_of k1)) (Some os_memory_stats_zero) = Some (True, Some st)"
    "st_allocated_blocks st = 0" "st_allocated_bytes st = 0" "st_free_blocks st = 1" "st_free_bytes st = st_largest_free_block_bytes st"
    "(st_successful_allocations st, st_successful_frees st, st_failed_allocations st, st_invalid_frees st) = counts (heap_of k)"
    using empty_stats [OF heap(1-3), of os_memory_stats_zero] k1(2) by auto
  obtain k2 where k2: "os_memory_stats (Some os_memory_stats_zero) (between 2 k1) = Inr ((True, Some st), k2)"
    using stats_call [OF assms(1) _ _ st(1), of 2] t1 k by (auto simp: steady_def)
  have fin: "final_stats_ok st" using st(2-6) heap(4) by (simp add: final_stats_ok_def)
  obtain w1 where w1: "write_line transmit (''ALLOCATOR STATS ALLOCATED=0 FREE_BLOCKS=1 INVALID_FREES=16'' @ crlf) w = Inr w1"
    "wire w1 = wire w @ c_text (''ALLOCATOR STATS ALLOCATED=0 FREE_BLOCKS=1 INVALID_FREES=16'' @ crlf)"
    using write_line_sends [OF assms(2,3) final_lines(2)] by blast
  obtain w2 where w2: "write_line transmit (''AYMOS ALLOCATOR PASS'' @ crlf) w1 = Inr w2" "wire w2 = wire w1 @ c_text (''AYMOS ALLOCATOR PASS'' @ crlf)"
    using write_line_sends [OF assms(2,3) final_lines(3)] by blast
  have "heap_idle_hook P between transmit worker_entry s k w = Inr (k2, w2)"
    using create k1(1) k2 fin w1(1) w2(1) k b(1)
    by (simp add: heap_idle_hook_def require_def os_reclaim_count_def os_last_reclaimed_task_def steady_def del: append.simps)
  with w1(2) w2(2) show ?thesis by simp
qed

text \<open>C36: The end of the allocator workload. After eight rounds the manager frees its block and passes its last checks;
  when it has been reclaimed, the hook of the idle task finds the heap in one free block and the counters of the whole
  run, 25 allocations, 25 releases, 8 failures and 16 refused frees, its attempt to create a task is refused, and it
  sends its two lines.\<close>

theorem allocator_workload_ends:
  assumes "undisturbed between" and "hal_sends transmit wire" and "hal_never_fails transmit"
    and "lab_heap 1 (manager_allocation s) 8 (heap_of k)" and "heap_caller k" and "kernel_initialized k"
    and "current_task k = 1" and "manager_id s = 1"
  shows "\<exists>k1 w1 s1. manager_end P between transmit s k w = Inr (k1, w1, s1) \<and> manager_allocation s1 = 0 \<and>
    wire w1 = wire w @ c_text (''ALLOCATOR REUSED SLOT=2 COUNT=8'' @ crlf) \<and>
    (\<forall>k2. heap_of k2 = heap_of k1 \<and> leaving 1 8 k2 \<longrightarrow> (\<exists>k3. reclaim_exiting_task 1 k2 = Inr k3 \<and>
      (\<forall>k4. goes_on k3 k4 \<and> running k4 \<and> current_task k4 = OS_TASK_ID_IDLE \<and> os_thread_uses_psp k4 \<longrightarrow>
       (\<exists>k5 w'. heap_idle_hook P between transmit worker_entry s1 k4 w1 = Inr (k5, w') \<and> wire w' = wire w1 @
          c_text (''ALLOCATOR STATS ALLOCATED=0 FREE_BLOCKS=1 INVALID_FREES=16'' @ crlf) @ c_text (''AYMOS ALLOCATOR PASS'' @ crlf)))))"
proof -
  have ok: "state_ok (heap_of k)" using assms(4) by (simp add: lab_heap_def)
  obtain h where h: "give_back_block (manager_allocation s) 1 (heap_of k) = (True, h)" "state_ok h" "payloads h = []"
    "calm (snd h) (chain (fst h) (snd h))" "counts h = (25, 25, 8, 16)"
    by (rule final_heap [OF assms(4)]) (rule that)
  have x: "ucast (current_task k) = (1 :: os_memory_owner_t)" by (simp add: assms(7))
  obtain k1 where k1: "os_memory_free P 0 (between 0 k) = Inr (True, k1)" "heap_of k1 = heap_of k" "steady k k1"
    using free_call [OF assms(1,5) give_back_null [OF ok], of P 0] by blast
  have on: "heap_caller k1" "ucast (current_task k1) = (1 :: os_memory_owner_t)" "ipsr k1 = 0" "kernel_initialized k1"
    using k1(3) assms(5-7) by (simp_all add: steady_def) (simp add: heap_caller_def)
  obtain k2 where k2: "os_memory_free P (manager_allocation s) (between 1 k1) = Inr (True, k2)" "heap_of k2 = h" "steady k1 k2"
    using free_call [OF assms(1) on(1), of "manager_allocation s" True h P 1] h(1) k1(2) on(2) by auto
  obtain k3 where k3: "os_memory_validate (between 2 k2) = Inr (True, k3)" "heap_of k3 = h"
    using validate_call [OF assms(1), of k2 2] k2 on h(2) by (auto simp: steady_def)
  obtain w1 where w1: "write_line transmit (''ALLOCATOR REUSED SLOT=2 COUNT=8'' @ crlf) w = Inr w1"
    "wire w1 = wire w @ c_text (''ALLOCATOR REUSED SLOT=2 COUNT=8'' @ crlf)"
    using write_line_sends [OF assms(2,3) final_lines(1)] by blast
  have run: "manager_end P between transmit s k w = Inr (k3, w1, s\<lparr>manager_allocation := 0\<rparr>)"
    using k1(1) k2(1) k3(1) w1(1) by (simp add: manager_end_def require_def del: append.simps)
  have "\<exists>c. reclaim_exiting_task 1 b = Inr c \<and>
      (\<forall>d. goes_on c d \<and> running d \<and> current_task d = OS_TASK_ID_IDLE \<and> os_thread_uses_psp d \<longrightarrow>
        (\<exists>k5 w'. heap_idle_hook P between transmit worker_entry (s\<lparr>manager_allocation := 0\<rparr>) d w1 = Inr (k5, w') \<and> wire w' = wire w1 @
          c_text (''ALLOCATOR STATS ALLOCATED=0 FREE_BLOCKS=1 INVALID_FREES=16'' @ crlf) @ c_text (''AYMOS ALLOCATOR PASS'' @ crlf)))"
    if g: "heap_of b = heap_of k3" "leaving 1 8 b" for b
  proof -
    have "state_ok (heap_of b)" using h(2) g(1) k3(2) by simp
    from reclaim_succeeds [OF this g(2)] obtain c where c: "reclaim_exiting_task 1 b = Inr c" "heap_of c = release_blocks 1 h"
      "reclaim_counter c = 9" "last_reclaimed c = 1" using g(1) k3(2) by auto
    have "heap_of c = h" using c(2) release_none [OF h(2)] h(3) by simp
    with h(2-5) c(3,4) have "\<exists>k5 w'. heap_idle_hook P between transmit worker_entry (s\<lparr>manager_allocation := 0\<rparr>) d w1 = Inr (k5, w') \<and> wire w' = wire w1 @
          c_text (''ALLOCATOR STATS ALLOCATED=0 FREE_BLOCKS=1 INVALID_FREES=16'' @ crlf) @ c_text (''AYMOS ALLOCATOR PASS'' @ crlf)"
      if "goes_on c d" "running d" "current_task d = OS_TASK_ID_IDLE" "os_thread_uses_psp d" for d
      using that by (intro idle_hook_passes [OF assms(1-3)]) (simp_all add: goes_on_def assms(8))
    with c(1) show ?thesis by blast
  qed
  with run w1(2) show ?thesis by (intro exI [of _ k3] exI [of _ w1] exI [of _ "s\<lparr>manager_allocation := 0\<rparr>"]) auto
qed

section \<open>A run\<close>

text \<open>A heap of eight kilobytes, the block of the manager and the heap after \<open>n\<close> workers.\<close>

definition demo_fresh :: heap_state where
  "demo_fresh = (case os_allocator_init (Some os_allocator_zero) (\<lambda>_. blank_block) 0x20004000 8192 of
     (_, Some a, H) \<Rightarrow> (a, H) | (_, None, H) \<Rightarrow> (os_allocator_zero, H))"

lemma demo_fresh: "fresh_heap demo_fresh"
proof -
  obtain ok a H where run: "os_allocator_init (Some os_allocator_zero) (\<lambda>_. blank_block) 0x20004000 8192 = (ok, Some a, H)"
    using init_some by blast
  then have d: "demo_fresh = (a, H)" by (simp add: demo_fresh_def)
  from init_outcome [OF run HOL.refl HOL.refl] show ?thesis
    by (simp add: d fresh_heap_def state_ok_def payloads_def counts_def heap_bytes_def)
qed

lemma demo_rounds: "n \<le> 8 \<Longrightarrow> \<exists>p s. lab_heap 1 p n s"
proof (induction n)
  case 0
  show ?case by (rule fresh_lab [OF demo_fresh, of 1]) auto
next
  case (Suc n)
  then obtain p s where "lab_heap 1 p n s" by auto
  then obtain s' where "lab_heap 1 p (Suc n) s'" by (rule client_effect [of 1 p n s 2]) (use Suc.prems in auto)
  then show ?case by blast
qed

definition demo_lab_kernel_of :: "heap_state \<Rightarrow> os_task_id_t \<Rightarrow> kernel" where
  "demo_lab_kernel_of h i = zero_kernel\<lparr>running := True, kernel_initialized := True, has_active_context := 1, current_task := i,
     schedules := replicate 5 (os_sched_task_zero\<lparr>state := OS_TASK_RUNNING\<rparr>),
     tasks := replicate 5 (cleared_tcb\<lparr>stack_low := 0x20001000, stack_high := 0x20001400\<rparr>),
     control := 2, ccr := 0x200, psp := 0x20001200, memory_allocator := fst h, memory_blocks := snd h\<rparr>"

definition demo_heap_lab :: "u32 \<Rightarrow> heap_lab" where
  "demo_heap_lab p = fill_bytes p 24 0x5A \<lparr>manager_id = 1, worker_id = 2, manager_allocation = p,
     worker_completed_iteration = 0, payload_bytes = (\<lambda>_. 0)\<rparr>"

lemma demo_lab_fields:
  "heap_of (demo_lab_kernel_of h i) = h" "current_task (demo_lab_kernel_of h i) = i" "kernel_initialized (demo_lab_kernel_of h i)"
  "primask (demo_lab_kernel_of h i) = 0" "i = 1 \<or> i = 2 \<Longrightarrow> os_thread_uses_psp (demo_lab_kernel_of h i)"
  "i = 1 \<or> i = 2 \<Longrightarrow> heap_caller (demo_lab_kernel_of h i)"
  "manager_id (demo_heap_lab p) = 1" "worker_id (demo_heap_lab p) = 2" "manager_allocation (demo_heap_lab p) = p" "canary (demo_heap_lab p)"
  by (auto simp: demo_lab_kernel_of_def demo_heap_lab_def heap_of_def zero_kernel_def canary_def heap_caller_def caller_is_running_task_def
      sched_def tcb_def os_thread_uses_psp_def cleared_tcb_def os_sched_task_zero_def)

lemma undisturbed_none: "undisturbed (\<lambda>_ k. k)"
  by (simp add: undisturbed_def steady_def)

text \<open>The kernel with task \<open>i\<close> about to be reclaimed, and a kernel in which task \<open>j\<close> goes on.\<close>

definition demo_leaving :: "heap_state \<Rightarrow> os_task_id_t \<Rightarrow> u32 \<Rightarrow> kernel" where
  "demo_leaving h i n = zero_kernel\<lparr>schedules := replicate 5 (os_sched_task_zero\<lparr>state := OS_TASK_EXITING\<rparr>),
     tasks := replicate 5 (cleared_tcb\<lparr>stack_claimed := True\<rparr>), reclaim_counter := n,
     memory_allocator := fst h, memory_blocks := snd h\<rparr>"

lemma demo_leaving: "heap_of (demo_leaving h i n) = h" "unat i < 5 \<Longrightarrow> leaving i n (demo_leaving h i n)"
  by (simp_all add: demo_leaving_def heap_of_def leaving_def zero_kernel_def sched_def tcb_def os_sched_task_zero_def cleared_tcb_def)

definition demo_going :: "os_task_id_t \<Rightarrow> kernel \<Rightarrow> kernel" where
  "demo_going j k = k\<lparr>primask := 0, ipsr := 0, kernel_initialized := True, running := True, current_task := j,
     tasks := replicate 5 (cleared_tcb\<lparr>stack_low := 0x20001000, stack_high := 0x20001400\<rparr>),
     control := 2, ccr := 0x200, psp := 0x20001200, msp := 0x20018000\<rparr>"

lemma demo_going: "goes_on k (demo_going j k)" "running (demo_going j k)" "current_task (demo_going j k) = j"
  "unat j < 5 \<Longrightarrow> os_thread_uses_psp (demo_going j k)"
  by (auto simp: goes_on_def demo_going_def heap_of_def sched_def os_thread_uses_psp_def tcb_def cleared_tcb_def)

definition roomy_platform :: platform where
  "roomy_platform = demo_platform\<lparr>heap_end_symbol := 0x2000C000\<rparr>"

theorem allocator_workload_begins_witness:
  "\<exists>k1 w s1 k3 s3. heap_main roomy_platform demo_hal list_uart 0x08004001 zero_kernel [] (demo_heap_lab 0) = Inr (OS_SVC_START, k1, w, s1) \<and>
     w = c_text (''AYMOS READY'' @ crlf) @ c_text (''ALLOCATOR BEGIN'' @ crlf) \<and>
     manager_start roomy_platform (\<lambda>_ k. k) MANAGER_ARGUMENT (demo_lab_kernel_of (heap_of k1) 1) s1 = Inr (k3, s3) \<and>
     lab_heap 1 (manager_allocation s3) 0 (heap_of k3)"
proof -
  let ?P = roomy_platform
  have platform: "platform_ok ?P" "sets_priority ?P" "(unat (heap_start_symbol ?P) + 7) div 8 * 8 + 4096 \<le> unat (heap_end_symbol ?P) div 8 * 8"
    by (simp_all add: roomy_platform_def platform_ok_def demo_platform_def sets_priority_def)
  note board = demo_hal_works demo_board
  have manager: "(0x08004001 :: u32) \<noteq> 0" by simp
  obtain k1 w s1 where k1: "heap_main ?P demo_hal list_uart 0x08004001 zero_kernel [] (demo_heap_lab 0) = Inr (OS_SVC_START, k1, w, s1)"
    "w = snd (board_init demo_hal []) @ c_text (''AYMOS READY'' @ crlf) @ c_text (''ALLOCATOR BEGIN'' @ crlf)"
    "\<forall>k2. heap_of k2 = heap_of k1 \<and> heap_caller k2 \<and> os_thread_uses_psp k2 \<and> current_task k2 = 1 \<longrightarrow>
      (\<exists>k3 s3. manager_start ?P (\<lambda>_ k. k) MANAGER_ARGUMENT k2 s1 = Inr (k3, s3) \<and> manager_id s3 = 1 \<and> canary s3 \<and>
         lab_heap 1 (manager_allocation s3) 0 (heap_of k3))"
    using allocator_workload_begins [OF platform(1,2) zero_power_on zero_thread board(1) list_uart_hal manager platform(3) undisturbed_none,
      of "[]" "demo_heap_lab 0" demo_regs] by (elim exE conjE) (rule that)
  have w: "w = c_text (''AYMOS READY'' @ crlf) @ c_text (''ALLOCATOR BEGIN'' @ crlf)" using k1(2) unfolding board(2) by simp
  have "heap_caller (demo_lab_kernel_of (heap_of k1) 1)" "os_thread_uses_psp (demo_lab_kernel_of (heap_of k1) 1)"
    by (rule demo_lab_fields, simp)+
  then obtain k3 s3 where "manager_start ?P (\<lambda>_ k. k) MANAGER_ARGUMENT (demo_lab_kernel_of (heap_of k1) 1) s1 = Inr (k3, s3)"
    "lab_heap 1 (manager_allocation s3) 0 (heap_of k3)"
    using k1(3) demo_lab_fields(1,2) by blast
  with k1(1) w show ?thesis by blast
qed


theorem allocator_workload_ends_witness:
  "\<exists>p h k1 w1 s1 k3 k5 w. lab_heap 1 p 8 h \<and>
     manager_end demo_platform (\<lambda>_ k. k) list_uart (demo_heap_lab p) (demo_lab_kernel_of h 1) [] = Inr (k1, w1, s1) \<and>
     reclaim_exiting_task 1 (demo_leaving (heap_of k1) 1 8) = Inr k3 \<and>
     heap_idle_hook demo_platform (\<lambda>_ k. k) list_uart 0x08004001 s1 (demo_going OS_TASK_ID_IDLE k3) w1 = Inr (k5, w) \<and>
     w = w1 @ c_text (''ALLOCATOR STATS ALLOCATED=0 FREE_BLOCKS=1 INVALID_FREES=16'' @ crlf) @ c_text (''AYMOS ALLOCATOR PASS'' @ crlf)"
proof -
  obtain p h where h: "lab_heap 1 p 8 h" using demo_rounds [of 8] by auto
  let ?k = "demo_lab_kernel_of h 1" and ?out = "c_text (''ALLOCATOR STATS ALLOCATED=0 FREE_BLOCKS=1 INVALID_FREES=16'' @ crlf) @
    c_text (''AYMOS ALLOCATOR PASS'' @ crlf)"
  have lab: "lab_heap 1 (manager_allocation (demo_heap_lab p)) 8 (heap_of ?k)" using h by (simp add: demo_lab_fields)
  have on: "heap_caller ?k" "kernel_initialized ?k" "current_task ?k = 1" "manager_id (demo_heap_lab p) = 1"
    by (simp_all add: demo_lab_fields)
  obtain k1 w1 s1 where k1: "manager_end demo_platform (\<lambda>_ k. k) list_uart (demo_heap_lab p) ?k [] = Inr (k1, w1, s1)"
    "\<forall>k2. heap_of k2 = heap_of k1 \<and> leaving 1 8 k2 \<longrightarrow> (\<exists>k3. reclaim_exiting_task 1 k2 = Inr k3 \<and>
      (\<forall>k4. goes_on k3 k4 \<and> running k4 \<and> current_task k4 = OS_TASK_ID_IDLE \<and> os_thread_uses_psp k4 \<longrightarrow>
        (\<exists>k5 w. heap_idle_hook demo_platform (\<lambda>_ k. k) list_uart 0x08004001 s1 k4 w1 = Inr (k5, w) \<and> w = w1 @ ?out)))"
    using allocator_workload_ends [OF undisturbed_none list_uart_hal lab on, of demo_platform "[]" "0x08004001"] by blast
  have "leaving 1 8 (demo_leaving (heap_of k1) 1 8)" by (rule demo_leaving) simp
  then obtain k3 where k3: "reclaim_exiting_task 1 (demo_leaving (heap_of k1) 1 8) = Inr k3"
    "\<forall>k4. goes_on k3 k4 \<and> running k4 \<and> current_task k4 = OS_TASK_ID_IDLE \<and> os_thread_uses_psp k4 \<longrightarrow>
        (\<exists>k5 w. heap_idle_hook demo_platform (\<lambda>_ k. k) list_uart 0x08004001 s1 k4 w1 = Inr (k5, w) \<and> w = w1 @ ?out)"
    using k1(2) demo_leaving(1) by blast
  have "os_thread_uses_psp (demo_going OS_TASK_ID_IDLE k3)" by (rule demo_going) simp
  then obtain k5 w where "heap_idle_hook demo_platform (\<lambda>_ k. k) list_uart 0x08004001 s1 (demo_going OS_TASK_ID_IDLE k3) w1 = Inr (k5, w)"
    "w = w1 @ ?out" using k3(2) demo_going(1-3) by blast
  with h k1(1) k3(1) show ?thesis by blast
qed

end
