(* ===== verification/Kernel_History.thy ===== *)
theory Kernel_History
  imports Kernel_Setup
begin

text \<open>
  The scheduling records in a run of the system. A step of the kernel changes the record of a live task only
  by the operations of \<open>Task_Lifecycle\<close>; otherwise it configures a free slot for a new task or blanks the
  slot of a task that has left.
\<close>

section \<open>Runs of records\<close>

lemma task_run_one: "task_step now s t \<Longrightarrow> task_run s t"
  by (rule task_run.step [OF task_run.refl])

lemma task_run_trans: "task_run t u \<Longrightarrow> task_run s t \<Longrightarrow> task_run s u"
  by (induction rule: task_run.induct) (blast intro: task_run.step)+

text \<open>A call of an operation through a pointer, on a record and on the table.\<close>

lemma call_ptr_run:
  assumes "\<And>r s'. f (Some s) = (r, Some s') \<Longrightarrow> task_run s s'"
  shows "task_run s (snd (call_ptr f s))"
  using assms by (auto simp: call_ptr_def task_run.refl split: prod.splits option.splits)

lemma sched_call_run:
  assumes "sched_call f i k = (r, k')" and "unat i < length (schedules k)"
    and "\<And>r s'. f (Some (sched k i)) = (r, Some s') \<Longrightarrow> task_run (sched k i) s'"
  shows "task_run (sched k i) (sched k' i)" "length (schedules k') = length (schedules k)" "current_task k' = current_task k"
  using call_ptr_run [of f "sched k i", OF assms(3)] assms(1,2)
  by (auto simp: sched_call_def sched_def split: prod.splits)

lemma transition_run:
  assumes "transition_task i a b reason k = Inr k'" and "unat i < length (schedules k)"
    and "a = OS_TASK_READY \<and> b = OS_TASK_RUNNING \<or> a = OS_TASK_RUNNING \<and> b = OS_TASK_READY \<or>
      \<not> job_active (sched k i) \<and> a = OS_TASK_RUNNING \<and> b = OS_TASK_EXITING"
  shows "task_run (sched k i) (sched k' i)" "length (schedules k') = length (schedules k)" "current_task k' = current_task k"
proof -
  obtain moved where call: "sched_call (\<lambda>p. os_sched_transition p a b) i k = (moved, k')"
    using assms(1) by (auto simp: transition_task_def split: if_splits prod.splits)
  have "task_run (sched k i) s'" if "os_sched_transition (Some (sched k i)) a b = (r, Some s')" for r s'
    using assms(3) that by (auto intro: task_run_one task_step.dispatch task_step.undispatch task_step.exit)
  then show "task_run (sched k i) (sched k' i)" "length (schedules k') = length (schedules k)" "current_task k' = current_task k"
    using sched_call_run [OF call assms(2)] by blast+
qed

section \<open>The services\<close>

lemma trace_sched [simp]:
  "sched (trace_emit e a b c d f k) i = sched k i" "length (schedules (trace_emit e a b c d f k)) = length (schedules k)"
  "sched (trace_completion m j k) i = sched k i" "length (schedules (trace_completion m j k)) = length (schedules k)"
  "current_task (trace_emit e a b c d f k) = current_task k" "current_task (trace_completion m j k) = current_task k"
  by (simp_all add: sched_def trace_emit_def trace_completion_def)

lemma service_run:
  assumes "svc_yield exc k = Inr k' \<or> svc_sleep exc n k = Inr k' \<or> svc_exit exc k = Inr k' \<or> svc_wait_next_period exc k = Inr k'"
    and "unat (current_task k) < length (schedules k)"
  shows "task_run (sched k (current_task k)) (sched k' (current_task k))"
  using assms(1)
proof (elim disjE)
  assume "svc_yield exc k = Inr k'"
  then obtain k1 where k1: "transition_task (current_task k) OS_TASK_RUNNING OS_TASK_READY ''YIELD_READY'' k = Inr k1"
    "sched k' (current_task k) = sched k1 (current_task k)"
    by (auto simp: svc_yield_def on_ok_eq_Inr sched_def trace_emit_def split: if_splits)
  with transition_run(1) [OF k1(1) assms(2)] show ?thesis by simp
next
  assume "svc_sleep exc n k = Inr k'"
  then obtain k1 where k1: "sched_call (\<lambda>p. os_sched_sleep p (monotonic_ticks k) n) (current_task k) k = (True, k1)"
    "sched k' (current_task k) = sched k1 (current_task k)"
    by (auto simp: svc_sleep_def Let_def sched_def trace_emit_def split: if_splits prod.splits)
  with sched_call_run(1) [OF k1(1) assms(2)] task_run_one [OF task_step.sleep] show ?thesis by simp
next
  assume "svc_wait_next_period exc k = Inr k'"
  then obtain k1 where k1: "sched_call (\<lambda>p. os_sched_wait_next_period p (monotonic_ticks k)) (current_task k) k = (True, k1)"
    "sched k' (current_task k) = sched (trace_completion (deadline_miss_latched (sched k (current_task k))) (current_task k1) k1) (current_task k)"
    by (auto simp: svc_wait_next_period_def Let_def sched_def trace_emit_def split: if_splits prod.splits)
  with sched_call_run(1) [OF k1(1) assms(2)] task_run_one [OF task_step.wait_next_period] show ?thesis by simp
next
  assume exit: "svc_exit exc k = Inr k'"
  let ?m = "deadline_miss_latched (sched k (current_task k))"
  obtain k1 k2 where k1: "sched_call (\<lambda>p. os_sched_complete_job p (monotonic_ticks k)) (current_task k) k = (True, k1)"
    "transition_task (current_task k1) OS_TASK_RUNNING OS_TASK_EXITING ''TASK_EXIT'' (trace_completion ?m (current_task k1) k1) = Inr k2"
    "sched k' (current_task k) = sched k2 (current_task k)"
    using exit by (auto simp: svc_exit_def Let_def on_ok_eq_Inr sched_def trace_emit_def split: if_splits prod.splits)
  note run1 = sched_call_run [OF k1(1) assms(2) task_run_one [OF task_step.complete_job]]
  have "\<not> job_active (sched k1 (current_task k))"
    using k1(1) assms(2) by (auto simp: sched_call_def call_ptr_def os_sched_complete_job_def on_ptr_Some Let_def sched_def
        split: prod.splits if_splits)
  with transition_run(1) [OF k1(2)] run1 assms(2)
  have "task_run (sched k1 (current_task k)) (sched k2 (current_task k))" by simp
  with run1(1) k1(3) show ?thesis using task_run_trans by simp
qed

lemma dispatch_run:
  assumes "os_svc_dispatch P frame exc k = Inr k'" and "unat (current_task k) < length (schedules k)"
  shows "task_run (sched k (current_task k)) (sched k' (current_task k))"
proof -
  obtain k1 where "sched k' (current_task k) = sched k1 (current_task k)"
    "svc_start exc k = Inr k1 \<or> svc_yield exc k = Inr k1 \<or> svc_sleep exc (ram k frame) k = Inr k1 \<or> svc_exit exc k = Inr k1 \<or>
     svc_wait_next_period exc k = Inr k1"
    using assms(1) by (auto simp: os_svc_dispatch_def on_ok_eq_Inr request_pendsv_def sched_def split: if_splits)
  then show ?thesis
    using service_run [OF _ assms(2), of exc k1 "ram k frame"] by (auto simp: svc_start_def task_run.refl split: if_splits)
qed

section \<open>The tick\<close>

lemma tick_record_run: "task_run s (tick_record now s)"
proof -
  have a: "task_run s (the (os_sched_account_running_tick (Some s)))"
    by (rule task_run_one [OF task_step.running_tick]) (simp add: os_sched_account_running_tick_def)
  have b: "task_run t (snd (call_ptr (\<lambda>p. os_sched_record_deadline_miss p now) t))" for t
    by (rule call_ptr_run) (rule task_run_one [OF task_step.deadline_miss])
  have c: "task_run t (snd (call_ptr (\<lambda>p. os_sched_record_active_release p now) t))" for t
    by (rule call_ptr_run) (rule task_run_one [OF task_step.active_release])
  have d: "task_run t (snd (call_ptr (\<lambda>p. os_sched_release_due p now) t))" for t
    by (rule call_ptr_run) (rule task_run_one [OF task_step.release_due])
  have e: "task_run t (snd (call_ptr (\<lambda>p. os_sched_wake_due p now) t))" for t
    by (rule call_ptr_run) (rule task_run_one [OF task_step.wake_due])
  show ?thesis
    unfolding tick_record_def tick_released_def tick_accounted_def Let_def
    by (rule task_run_trans [OF e] task_run_trans [OF d] task_run_trans [OF c] task_run_trans [OF b] a)+
qed

section \<open>One step\<close>

text \<open>What a step does to a slot: nothing but operations on its record, a new task in a free slot, or a blank slot.\<close>

definition configured :: "os_task_id_t \<Rightarrow> os_task_config \<Rightarrow> u64 \<Rightarrow> os_sched_task \<Rightarrow> os_sched_task \<Rightarrow> bool" where
  "configured i c now s s' \<longleftrightarrow> state s = OS_TASK_DORMANT \<and> os_sched_task_configure (Some s) (Some (tc_timing c)) now = (True, Some s')"

definition slot_step :: "os_task_id_t \<Rightarrow> kernel \<Rightarrow> kernel \<Rightarrow> bool" where
  "slot_step i k k' \<longleftrightarrow> task_run (sched k i) (sched k' i) \<or>
     (\<exists>c. configured i c (monotonic_ticks k) (sched k i) (sched k' i)) \<or> state (sched k' i) = OS_TASK_DORMANT"

lemma slot_step_same: "sched k' i = sched k i \<Longrightarrow> slot_step i k k'"
  by (simp add: slot_step_def task_run.refl)

lemma create_slot:
  assumes "kernel_ok P k" and "platform_ok P" and "\<not> pendsv_set k" and "os_task_create P config created k = Inr (r, k')"
  shows "slot_step i k k'"
proof (cases "config = None \<or> created = None")
  case True
  then have "k' = k" using assms(4) by (auto simp: os_task_create_def split: option.splits)
  then show ?thesis by (simp add: slot_step_same)
next
  case False
  then obtain c j where cj: "config = Some c" "created = Some j" by auto
  define n where "n = free_slot_loop k [1..<OS_TASK_COUNT]"
  note effect = create_effect [OF assms(1-3), of c j, folded n_def]
  have len: "length (schedules k) = OS_TASK_COUNT" using assms(1) by (simp add: kernel_ok_def slots_ok_def)
  show ?thesis
  proof (cases "create_guard c k \<and> room k")
    case False
    then have "k' = k" using effect assms(4) cj by simp
    then show ?thesis by (simp add: slot_step_same)
  next
    case True
    have n: "unat n < OS_TASK_COUNT" "state (sched k n) = OS_TASK_DORMANT" using effect True by simp_all
    consider (made) s where "new_record c n s k" "schedules k' = (schedules k)[unat n := s]"
      | (failed) "schedules k' = (schedules k)[unat n := blank_schedule n]"
    proof -
      from effect True have "(\<exists>s k1. new_record c n s k \<and> os_task_create P (Some c) (Some j) k = Inr ((True, Some n), k1) \<and>
           quiet k1 = quiet (announced n (installed P c n s k))) \<or>
         (\<exists>k1. os_task_create P (Some c) (Some j) k = Inr ((False, Some j), k1) \<and>
           schedules k1 = (schedules k)[unat n := blank_schedule n])" by auto
      then show thesis
      proof (elim disjE exE conjE)
        fix s k1 assume h: "new_record c n s k" "os_task_create P (Some c) (Some j) k = Inr ((True, Some n), k1)"
          "quiet k1 = quiet (announced n (installed P c n s k))"
        then have "schedules k' = (schedules k)[unat n := s]"
          using quiet_eqD(2) [OF h(3)] assms(4) cj by (simp add: announced_def installed_def split: if_splits)
        with made h(1) show thesis by blast
      next
        fix k1 assume h: "os_task_create P (Some c) (Some j) k = Inr ((False, Some j), k1)"
          "schedules k1 = (schedules k)[unat n := blank_schedule n]"
        then show thesis using failed assms(4) cj by simp
      qed
    qed
    then show ?thesis
    proof cases
      case made
      show ?thesis
      proof (cases "i = n")
        case True
        with made n len show ?thesis by (auto simp: slot_step_def configured_def new_record_def sched_def)
      next
        case False
        with made show ?thesis by (intro slot_step_same) (simp add: sched_def word_unat_eq_iff)
      qed
    next
      case failed
      then show ?thesis using n len by (cases "i = n") (simp_all add: slot_step_def blank_dormant sched_def word_unat_eq_iff task_run.refl)
    qed
  qed
qed

lemma svc_slot:
  assumes "kernel_ok P k" and "\<not> pendsv_set k" and "running k" and "SVC_Handler P lr k = Inr k'"
  shows "slot_step i k k'"
proof (cases "i = current_task k \<and> has_active_context k \<noteq> 0")
  case True
  then have "unat (current_task k) < length (schedules k)" using assms(1) by (simp add: kernel_ok_def mode_ok_def slots_ok_def)
  from dispatch_run [OF assms(4) [unfolded SVC_Handler_def] this] True show ?thesis by (simp add: slot_step_def)
next
  case False
  show ?thesis
  proof (cases "i = current_task k")
    case True
    with False have off: "has_active_context k = 0" by simp
    show ?thesis
      using assms(4) unfolding SVC_Handler_def
      by (rule svc_dispatch_cases [OF assms(1-3)]) (use off in \<open>auto intro!: slot_step_same simp: request_pendsv_def sched_def\<close>)
  next
    case False
    with svc_others(4) [OF assms] show ?thesis by (simp add: slot_step_same)
  qed
qed

lemma undispatch_run: "state s = OS_TASK_RUNNING \<Longrightarrow> task_run s (s\<lparr>state := OS_TASK_READY\<rparr>)"
  by (rule task_run_one [OF task_step.undispatch [where r = True]]) (simp add: os_sched_transition_def on_ptr_Some)

lemma dispatch_ready_run: "state s = OS_TASK_READY \<Longrightarrow> task_run s (s\<lparr>state := OS_TASK_RUNNING\<rparr>)"
  by (rule task_run_one [OF task_step.dispatch [where r = True]]) (simp add: os_sched_transition_def on_ptr_Some)

lemma retires_slot:
  assumes "retires k k'" and "length (schedules k) = OS_TASK_COUNT"
  shows "task_run (sched k i) (sched k' i) \<or> state (sched k' i) = OS_TASK_DORMANT"
  using assms(1) unfolding retires_def
proof (elim disjE exE conjE)
  assume "quiet k' = quiet k"
  from quiet_eqD(2) [OF this] show ?thesis by (simp add: sched_def task_run.refl)
next
  let ?j = "current_task k"
  assume h: "state (sched k ?j) = OS_TASK_RUNNING" "unat ?j < OS_TASK_COUNT"
    "quiet k' = quiet (k\<lparr>schedules := (schedules k)[unat ?j := (sched k ?j)\<lparr>state := OS_TASK_READY\<rparr>]\<rparr>)"
  show ?thesis
    using quiet_eqD(2) [OF h(3)] h(1,2) undispatch_run [OF h(1)] assms(2)
    by (cases "i = ?j") (simp_all add: sched_def word_unat_eq_iff task_run.refl)
next
  let ?j = "current_task k"
  fix a H assume h: "unat ?j < OS_TASK_COUNT" "quiet k' = quiet (reclaimed ?j a H k)"
  show ?thesis
    using quiet_eqD(2) [OF h(2)] h(1) assms(2)
    by (cases "i = ?j") (simp_all add: reclaimed_def sched_def word_unat_eq_iff task_run.refl blank_dormant)
qed

lemma switch_slot:
  assumes "kernel_ok P k" and "pendsv_set k" and "stack_in_bounds k"
    and "PendSV_Handler (rs, k\<lparr>pendsv_set := False\<rparr>) = Inr (rs', k')"
  shows "slot_step i k k'"
proof -
  let ?p = "if has_active_context k \<noteq> 0 then psp k - 32 else 0"
  let ?k0 = "saved ?p (stacked rs k)"
  obtain k1 k2 nx where sw: "PendSV_Handler (rs, k\<lparr>pendsv_set := False\<rparr>) =
      Inr (load_registers (saved_psp (tcb k1 nx)) (ram k1), k1)" "retires ?k0 k2" "slots_ok P k2" "unat nx < OS_TASK_COUNT"
    "state (sched k2 nx) = OS_TASK_READY"
    "quiet k1 = quiet ((dispatched nx k2)\<lparr>psp := saved_psp (tcb k1 nx) + 32, control := CONTROL_SPSEL_Msk,
       primask := primask k\<rparr>)"
    by (rule handler_effect [OF assms(1-3), of rs]) blast
  have k1: "k1 = k'" using sw(1) assms(4) by simp
  have same: "sched ?k0 i = sched k i" "length (schedules ?k0) = OS_TASK_COUNT"
    using assms(1) by (simp_all add: saved_same kernel_ok_def slots_ok_def) (simp_all add: stacked_def sched_def)
  have two: "task_run (sched k i) (sched k2 i) \<or> state (sched k2 i) = OS_TASK_DORMANT"
    using retires_slot [OF sw(2) same(2), of i] same(1) by simp
  have len: "length (schedules k2) = OS_TASK_COUNT" using sw(3) by (simp add: slots_ok_def)
  have new: "schedules k' = (schedules k2)[unat nx := (sched k2 nx)\<lparr>state := OS_TASK_RUNNING\<rparr>]"
    using quiet_eqD(2) [OF sw(6), unfolded k1] by (simp add: dispatched_def)
  show ?thesis
  proof (cases "i = nx")
    case True
    then have "sched k' i = (sched k2 i)\<lparr>state := OS_TASK_RUNNING\<rparr>" using sw(4) len by (simp add: new sched_def)
    moreover have "task_run (sched k i) (sched k2 i)" using two sw(5) True by auto
    ultimately show ?thesis using dispatch_ready_run [of "sched k2 i"] sw(5) True task_run_trans by (auto simp: slot_step_def)
  next
    case False
    then have "sched k' i = sched k2 i" by (simp add: new sched_def word_unat_eq_iff)
    with two show ?thesis by (auto simp: slot_step_def)
  qed
qed

lemma tick_slot:
  assumes "kernel_ok P k" and "tick_range k" and "os_kernel_tick k = Inr k'" and "unat i < OS_TASK_COUNT"
  shows "slot_step i k k'"
proof (cases "running k")
  case False
  with assms(3) show ?thesis by (simp add: os_kernel_tick_def slot_step_same)
next
  case True
  have slots: "slots_ok P k" "length (schedules k) = OS_TASK_COUNT" using assms(1) by (simp_all add: kernel_ok_def slots_ok_def)
  have q: "quiet k' = quiet (if tick_switches k then tick_preempted (after_loop k) else after_loop k)"
    using tick_effect [OF assms(1) True assms(2)] assms(3) by simp
  have loop: "task_run (sched k i) (sched (after_loop k) i)"
    using after_loop_nth(1) [OF slots(1) assms(2,4)] tick_record_run by (auto simp: sched_def task_run.refl)
  show ?thesis
  proof (cases "tick_switches k \<and> i = current_task k")
    case False
    then have "sched k' i = sched (after_loop k) i"
      using quiet_eqD(2) [OF q] by (auto simp: tick_preempted_def sched_def word_unat_eq_iff after_loop_def split: if_splits)
    with loop show ?thesis by (simp add: slot_step_def)
  next
    case True
    then have "state (sched (after_loop k) i) = OS_TASK_RUNNING"
      using after_loop_nth(3) [OF slots(1) assms(2,4)]
      by (auto simp: tick_switches_def sched_def ready_now_def release_now_def wake_now_def)
    moreover have "sched k' i = (sched (after_loop k) i)\<lparr>state := OS_TASK_READY\<rparr>"
      using quiet_eqD(2) [OF q] True assms(4) slots(2) by (simp add: tick_preempted_def sched_def after_loop_def)
    ultimately show ?thesis using undispatch_run task_run_trans loop by (auto simp: slot_step_def)
  qed
qed

lemma step_slot:
  assumes "kernel_step P c c'" and "platform_ok P" and "kernel_ok P (snd c)" and "unat i < OS_TASK_COUNT"
  shows "slot_step i (snd c) (snd c')"
  using assms
proof (induction rule: kernel_step.induct)
  case (create k config created r k' rs)
  then show ?case using create_slot by simp
next
  case (start k service k' rs)
  then have "quiet k' = quiet (k\<lparr>running := True\<rparr>)" using start_keeps(2) by simp
  from quiet_eqD(2) [OF this] show ?case by (intro slot_step_same) (simp add: sched_def)
next
  case (svc k lr k' rs)
  then show ?case using svc_slot by simp
next
  case (switch k rs rs' k')
  then show ?case using switch_slot by simp
next
  case (tick k k' rs)
  then show ?case using tick_slot by simp
next
  case (alloc k sz p k' rs)
  then have "quiet k' = quiet (with_heap (heap_of k') k)" using os_memory_alloc_keeps(2) by simp
  from quiet_eqD(2) [OF this] show ?case by (intro slot_step_same) (simp add: sched_def with_heap_def)
next
  case (free k p r k' rs)
  then have "quiet k' = quiet (with_heap (heap_of k') k)" using os_memory_free_keeps(2) by simp
  from quiet_eqD(2) [OF this] show ?case by (intro slot_step_same) (simp add: sched_def with_heap_def)
qed (auto intro!: slot_step_same simp: sched_def)

section \<open>The life of a task\<close>

text \<open>A run in which the slot stays occupied.\<close>

inductive alive_run :: "platform \<Rightarrow> os_task_id_t \<Rightarrow> cpu \<Rightarrow> cpu \<Rightarrow> bool" for P i where
  stop: "state (sched (snd c) i) \<noteq> OS_TASK_DORMANT \<Longrightarrow> alive_run P i c c"
| more: "alive_run P i c c' \<Longrightarrow> kernel_step P c' c'' \<Longrightarrow> state (sched (snd c'') i) \<noteq> OS_TASK_DORMANT \<Longrightarrow> alive_run P i c c''"

lemma runs_alive:
  assumes "runs_without P i c c'" and "platform_ok P" and "kernel_ok P (snd c)" and "unat i < OS_TASK_COUNT"
    and "state (sched (snd c) i) \<noteq> OS_TASK_DORMANT"
  shows "alive_run P i c c'"
  using assms
proof (induction rule: runs_without.induct)
  case (stop c)
  then show ?case by (simp add: alive_run.stop)
next
  case (more c c' c'')
  have "runs_without P i c c''" by (rule runs_without.more [OF more(1-3)])
  from run_left_alone [OF this more.prems] have "state (sched (snd c'') i) \<noteq> OS_TASK_DORMANT" by simp
  with more show ?case by (intro alive_run.more [OF _ more(2)]) simp_all
qed

lemma alive_task_run:
  assumes "alive_run P i c c'" and "platform_ok P" and "kernel_ok P (snd c)" and "unat i < OS_TASK_COUNT"
  shows "task_run (sched (snd c) i) (sched (snd c') i) \<and> kernel_ok P (snd c') \<and> state (sched (snd c') i) \<noteq> OS_TASK_DORMANT"
  using assms
proof (induction rule: alive_run.induct)
  case (stop c)
  then show ?case by (simp add: task_run.refl)
next
  case (more c c' c'')
  then have ih: "task_run (sched (snd c) i) (sched (snd c') i)" "kernel_ok P (snd c')" "state (sched (snd c') i) \<noteq> OS_TASK_DORMANT" by simp_all
  have "task_run (sched (snd c') i) (sched (snd c'') i)"
    using step_slot [OF more(2) more.prems(1) ih(2) more.prems(3)] ih(3) more(3) by (auto simp: slot_step_def configured_def)
  with ih kernel_step_keeps [OF more(2) more.prems(1)] more(3) show ?case using task_run_trans by blast
qed

text \<open>A creation that succeeds configures the slot whose number it returns.\<close>

lemma create_configures:
  assumes "kernel_ok P k" and "platform_ok P" and "\<not> pendsv_set k"
    and "os_task_create P (Some c) (Some created) k = Inr ((True, Some i), k')"
  shows "configured i c (monotonic_ticks k) (sched k i) (sched k' i)" "unat i < OS_TASK_COUNT" "i \<noteq> 0" "kernel_ok P k'"
proof -
  define n where "n = free_slot_loop k [1..<OS_TASK_COUNT]"
  note effect = create_effect [OF assms(1-3), of c created, folded n_def]
  have len: "length (schedules k) = OS_TASK_COUNT" using assms(1) by (simp add: kernel_ok_def slots_ok_def)
  have made: "create_guard c k \<and> room k" using effect assms(4) by (auto split: if_splits)
  have n: "n \<noteq> 0" "unat n < OS_TASK_COUNT" "state (sched k n) = OS_TASK_DORMANT" using effect made by simp_all
  from effect made assms(4) obtain s where s: "n = i" "new_record c n s k" "quiet k' = quiet (announced n (installed P c n s k))" "kernel_ok P k'"
    by auto
  have "sched k' i = s"
    using quiet_eqD(2) [OF s(3)] s(1) n(2) len by (simp add: announced_def installed_def sched_def split: if_splits)
  with s n show "configured i c (monotonic_ticks k) (sched k i) (sched k' i)" "unat i < OS_TASK_COUNT" "i \<noteq> 0" "kernel_ok P k'"
    by (simp_all add: configured_def new_record_def)
qed

lemma created_history:
  assumes "reachable P (rs, k0)" and "platform_ok P" and "\<not> pendsv_set k0"
    and "os_task_create P (Some c) (Some created) k0 = Inr ((True, Some i), k1)" and "alive_run P i (rs, k1) (rs', k)"
  shows "os_sched_task_configure (Some (sched k0 i)) (Some (tc_timing c)) (monotonic_ticks k0) = (True, Some (sched k1 i))"
    "task_run (sched k1 i) (sched k i)"
proof -
  have "kernel_ok P k0" using reachable_ok [OF assms(1,2)] by simp
  note made = create_configures [OF this assms(2-4)]
  then show "os_sched_task_configure (Some (sched k0 i)) (Some (tc_timing c)) (monotonic_ticks k0) = (True, Some (sched k1 i))"
    by (simp add: configured_def)
  show "task_run (sched k1 i) (sched k i)" using alive_task_run [OF assms(5,2)] made(2,4) by simp
qed

section \<open>The jobs of a periodic task\<close>

text \<open>As long as no release was skipped, the active job was released one period before the next release.\<close>

definition job_on_grid :: "nat \<Rightarrow> u32 \<Rightarrow> os_sched_task \<Rightarrow> bool" where
  "job_on_grid period deadline t \<longleftrightarrow> kind t = OS_TASK_PERIODIC \<and> unat (period_ticks t) = period \<and> relative_deadline_ticks t = deadline \<and>
     (job_active t \<and> missed_release_count t = 0 \<longrightarrow> unat (next_release_order t) = unat (release_order t) + period)"

lemma task_step_deadline: "task_step now t t' \<Longrightarrow> relative_deadline_ticks t' = relative_deadline_ticks t"
  by (induction rule: task_step.induct) (auto simp: step_unfold split: if_splits)

lemma job_on_grid_step:
  assumes "task_step now t t'" and "job_on_grid period deadline t"
  shows "job_on_grid period deadline t'"
proof -
  have "increment_saturating x \<noteq> 0" for x :: u32
    using unat_increment_saturating [of x] unat_le_max(1) [of x] by (auto simp: min_def split: if_splits)
  then show ?thesis
    using task_step_releases [OF assms(1)] task_step_deadline [OF assms(1)] assms(2)
    by (auto simp: job_on_grid_def same_releases_def activated_def release_skipped_def)
qed

lemma configure_on_grid:
  assumes "os_sched_task_configure (Some t) (Some c) now = (True, Some t')" and "cfg_kind c = OS_TASK_PERIODIC"
  shows "job_on_grid (unat (cfg_period_ticks c)) (cfg_relative_deadline_ticks c) t'"
  using assms
  by (auto simp: step_unfold job_on_grid_def nat_guards not_less os_sched_config_valid_def unat_gt_0
      os_sched_task_reset_def os_sched_task_zero_def split: if_splits)

text \<open>The releases, the deadline and the accounts of the job number \<open>n\<close>.\<close>

definition periodic_job :: "nat \<Rightarrow> nat \<Rightarrow> nat \<Rightarrow> os_sched_task \<Rightarrow> bool" where
  "periodic_job origin period deadline t \<longleftrightarrow> (let n = unat (job_sequence t) in
     unat (next_release_order t) = origin + n * period \<and>
     (job_active t \<longrightarrow> 1 \<le> n \<and> unat (release_order t) = origin + (n - 1) * period \<and>
        unat (absolute_deadline_order t) = origin + (n - 1) * period + deadline \<and> unat (completed_job_count t) = n - 1))"

lemma history_job:
  assumes "os_sched_task_configure (Some t0) (Some c) now = (True, Some t1)" and "cfg_kind c = OS_TASK_PERIODIC" and "task_run t1 t"
    and "missed_release_count t = 0" and "job_sequence t \<noteq> UINT32_MAX"
  shows "periodic_job (unat now + unat (cfg_initial_release_delay_ticks c)) (unat (cfg_period_ticks c)) (unat (cfg_relative_deadline_ticks c)) t"
proof -
  let ?o = "unat now + unat (cfg_initial_release_delay_ticks c)" and ?p = "unat (cfg_period_ticks c)" and ?n = "unat (job_sequence t)"
  have cad: "cadence ?o ?p t" using assms(3) configure_cadence [OF assms(1,2)] cadence_step by (rule task_run_invariant)
  have grid: "job_on_grid ?p (cfg_relative_deadline_ticks c) t"
    using assms(3) configure_on_grid [OF assms(1,2)] job_on_grid_step by (rule task_run_invariant)
  have wf: "sched_task_wf t" using assms(3) configure_wf [OF assms(1)] sched_task_wf_step by (rule task_run_invariant)
  have acc: "accounts_ok t" using assms(3) configure_accounts [OF assms(1)] accounts_ok_step by (rule task_run_invariant)
  have nxt: "unat (next_release_order t) = ?o + ?n * ?p" using cad assms(4,5) by (simp add: cadence_def)
  have "1 \<le> ?n \<and> unat (release_order t) = ?o + (?n - 1) * ?p \<and>
      unat (absolute_deadline_order t) = ?o + (?n - 1) * ?p + unat (cfg_relative_deadline_ticks c) \<and> unat (completed_job_count t) = ?n - 1"
    if "job_active t"
  proof -
    have n: "unat (completed_job_count t) + 1 = ?n" using acc assms(5) that by (simp add: accounts_ok_def)
    then obtain m where m: "?n = Suc m" by (metis add.commute plus_1_eq_Suc)
    have "unat (release_order t) + ?p = ?o + ?n * ?p" using grid nxt assms(4) that by (simp add: job_on_grid_def)
    then have rel: "unat (release_order t) = ?o + m * ?p" by (simp add: m)
    moreover have "unat (absolute_deadline_order t) = unat (release_order t) + unat (cfg_relative_deadline_ticks c)"
      using wf grid that by (simp add: sched_task_wf_def job_on_grid_def)
    ultimately show ?thesis using n by (simp add: m)
  qed
  with nxt show ?thesis by (simp add: periodic_job_def Let_def)
qed

text \<open>A one-shot task is released once.\<close>

definition one_shot_job :: "u64 \<Rightarrow> u32 \<Rightarrow> os_sched_task \<Rightarrow> bool" where
  "one_shot_job release deadline t \<longleftrightarrow> kind t = OS_TASK_ONE_SHOT \<and> state t \<noteq> OS_TASK_WAITING_RELEASE \<and> release_order t = release \<and>
     relative_deadline_ticks t = deadline"

lemma one_shot_job_step: "task_step now t t' \<Longrightarrow> one_shot_job release deadline t \<Longrightarrow> one_shot_job release deadline t'"
  by (induction rule: task_step.induct) (auto simp: step_unfold one_shot_job_def split: if_splits)

lemma configure_one_shot:
  assumes "os_sched_task_configure (Some t) (Some c) now = (True, Some t')" and "cfg_kind c = OS_TASK_ONE_SHOT"
    and "cfg_initial_release_delay_ticks c = 0"
  shows "one_shot_job now (cfg_relative_deadline_ticks c) t'"
  using assms by (auto simp: step_unfold one_shot_job_def os_sched_task_reset_def os_sched_task_zero_def split: if_splits)

end
