(* ===== verification/Kernel_Entry.thy ===== *)
theory Kernel_Entry
  imports Kernel_History
begin

text \<open>
  From the creation of a task to its first dispatch: the frame that the creation builds, the entry and the
  argument stay as they are while the task waits for the processor.
\<close>

lemma dispatched_entry:
  "length (tasks k) = OS_TASK_COUNT \<Longrightarrow> unat n < OS_TASK_COUNT \<Longrightarrow>
     entry (tcb (dispatched n k) i) = entry (tcb k i) \<and> argument (tcb (dispatched n k) i) = argument (tcb k i)"
  by (simp add: dispatched_def tcb_def nth_list_update)

lemma switch_entry:
  assumes "kernel_ok P k" and "pendsv_set k" and "stack_in_bounds k"
    and "PendSV_Handler (rs, k\<lparr>pendsv_set := False\<rparr>) = Inr (rs', k')" and "i \<noteq> current_task k"
  shows "entry (tcb k' i) = entry (tcb k i)" "argument (tcb k' i) = argument (tcb k i)"
proof -
  let ?p = "if has_active_context k \<noteq> 0 then psp k - 32 else 0"
  let ?k0 = "saved ?p (stacked rs k)"
  obtain k1 k2 nx where sw: "PendSV_Handler (rs, k\<lparr>pendsv_set := False\<rparr>) =
      Inr (load_registers (saved_psp (tcb k1 nx)) (ram k1), k1)" "retires ?k0 k2" "slots_ok P k2" "unat nx < OS_TASK_COUNT"
    "quiet k1 = quiet ((dispatched nx k2)\<lparr>psp := saved_psp (tcb k1 nx) + 32, control := CONTROL_SPSEL_Msk,
       primask := primask k\<rparr>)"
    by (rule handler_effect [OF assms(1-3), of rs]) blast
  have k1: "k1 = k'" using sw(1) assms(4) by simp
  have len: "length (tasks k2) = OS_TASK_COUNT" using sw(3) by (simp add: slots_ok_def)
  have ne: "unat i \<noteq> unat (current_task ?k0)" using assms(5) by (simp add: saved_same stacked_def word_unat_eq_iff)
  have "tasks ?k0 ! unat i = tasks k ! unat i" using assms(5) by (simp add: saved_def set_tcb_def stacked_def word_unat_eq_iff)
  then have "tcb k2 i = tcb k i" using retires_schedules(2) [OF sw(2) ne] by (simp add: tcb_def)
  moreover have "tcb k' i = tcb (dispatched nx k2) i" using quiet_eqD(1) [OF sw(5)] by (simp add: k1 tcb_def)
  ultimately show "entry (tcb k' i) = entry (tcb k i)" "argument (tcb k' i) = argument (tcb k i)"
    using dispatched_entry [OF len sw(4), of i] by simp_all
qed

lemma step_entry:
  assumes "kernel_step P c c'" and "platform_ok P" and "kernel_ok P (snd c)"
    and "i \<noteq> current_task (snd c)" and "state (sched (snd c) i) \<noteq> OS_TASK_DORMANT"
  shows "entry (tcb (snd c') i) = entry (tcb (snd c) i) \<and> argument (tcb (snd c') i) = argument (tcb (snd c) i)"
  using assms
proof (induction rule: kernel_step.induct)
  case (create k config created r k' rs)
  then have ok: "kernel_ok P k" by simp
  show ?case
  proof (cases rule: create_cases [OF ok create(3,1,2), case_names refused slot])
    case refused
    then show ?thesis by simp
  next
    case (slot j t s)
    then have "unat i \<noteq> unat j" using create(6) by (auto simp: sched_def)
    then show ?thesis using slot(4) by (simp add: tcb_def)
  qed
next
  case (start k service k' rs)
  then have "quiet k' = quiet (k\<lparr>running := True\<rparr>)" using start_keeps(2) by simp
  from quiet_eqD(1) [OF this] show ?case by (simp add: tcb_def)
next
  case (svc k lr k' rs)
  then have "tasks k' = tasks k" by (intro svc_others(1) [of P k lr k']) simp_all
  then show ?case by (simp add: tcb_def)
next
  case (switch k rs rs' k')
  then show ?case using switch_entry by simp
next
  case (tick k k' rs)
  then have "tasks k' = tasks k" by (intro tick_fields(1) [of P k k']) simp_all
  then show ?case by (simp add: tcb_def)
next
  case (alloc k sz p k' rs)
  then have "quiet k' = quiet (with_heap (heap_of k') k)" using os_memory_alloc_keeps(2) by simp
  from quiet_eqD(1) [OF this] show ?case by (simp add: tcb_def with_heap_def)
next
  case (free k p r k' rs)
  then have "quiet k' = quiet (with_heap (heap_of k') k)" using os_memory_free_keeps(2) by simp
  from quiet_eqD(1) [OF this] show ?case by (simp add: tcb_def with_heap_def)
qed (simp_all add: tcb_def)

lemma run_entry:
  assumes "runs_without P i c c'" and "platform_ok P" and "kernel_ok P (snd c)" and "unat i < OS_TASK_COUNT"
    and "state (sched (snd c) i) \<noteq> OS_TASK_DORMANT"
  shows "entry (tcb (snd c') i) = entry (tcb (snd c) i) \<and> argument (tcb (snd c') i) = argument (tcb (snd c) i)"
  using assms
proof (induction rule: runs_without.induct)
  case (stop c)
  then show ?case by simp
next
  case (more c c' c'')
  from run_left_alone [OF more(1) more.prems]
  have "kernel_ok P (snd c')" "state (sched (snd c') i) \<noteq> OS_TASK_DORMANT" "i \<noteq> current_task (snd c')" by auto
  from step_entry [OF more(2) more.prems(1) this(1,3,2)] more show ?case by simp
qed

text \<open>What the creation has written for the first dispatch.\<close>

definition first_frame :: "platform \<Rightarrow> u32 \<Rightarrow> (u32 \<Rightarrow> u32) \<Rightarrow> u32 \<Rightarrow> bool" where
  "first_frame P arg m p \<longleftrightarrow> m p = arg \<and> m (p + 4 * 5) = return_guard_address P \<and>
     m (p + 4 * 6) = trampoline_address P \<and> m (p + 4 * 7) = OS_XPSR_THUMB"

lemma create_frame:
  assumes "kernel_ok P k" and "platform_ok P" and "\<not> pendsv_set k"
    and "os_task_create P (Some c) (Some created) k = Inr ((True, Some i), k')"
  shows "first_frame P (tc_argument c) (ram k') (saved_psp (tcb k' i) + 32)" "entry (tcb k' i) = tc_entry c"
    "argument (tcb k' i) = tc_argument c" "tc_entry c \<noteq> 0" "unat (saved_psp (tcb k' i)) + 64 = unat (stack_high (tcb k' i))"
proof -
  define n where "n = free_slot_loop k [1..<OS_TASK_COUNT]"
  note effect = create_effect [OF assms(1-3), of c created, folded n_def]
  have made: "create_guard c k \<and> room k" using effect assms(4) by (auto split: if_splits)
  then have slot: "unat n < OS_TASK_COUNT" using effect by simp
  from effect made assms(4) obtain s where s: "n = i" "quiet k' = quiet (announced n (installed P c n s k))" by auto
  note q = quiet_eqD [OF s(2)]
  let ?t = "new_tcb P c n (tcb k n)"
  have len: "length (tasks k) = OS_TASK_COUNT" using assms(1) by (simp add: kernel_ok_def slots_ok_def)
  have "tasks k' = (tasks k)[unat n := ?t]" and m: "ram k' = frame_words P (stack_high ?t - 64) (tc_argument c) (ram k)"
    using assms(3) by (simp_all add: q announced_def installed_def)
  then have t: "tcb k' i = ?t" using slot len s(1) by (simp add: tcb_def)
  have psp: "saved_psp ?t = stack_high ?t - 64" by (simp add: new_tcb_def Let_def)
  note reg = new_tcb_region [OF assms(2) conjunct1 [OF made] slot, of "tcb k n"]
  have "64 \<le> unat (stack_high ?t)" using reg(1) unfolding stack_region_def by linarith
  then show "unat (saved_psp (tcb k' i)) + 64 = unat (stack_high (tcb k' i))" by (simp add: t psp unat_sub_le)
  show "first_frame P (tc_argument c) (ram k') (saved_psp (tcb k' i) + 32)"
    by (simp add: first_frame_def t psp m frame_words_def)
  show "entry (tcb k' i) = tc_entry c" "argument (tcb k' i) = tc_argument c" by (simp_all add: t new_tcb_def Let_def)
  show "tc_entry c \<noteq> 0" using made by (simp add: create_guard_def)
qed

end
