(* ===== verification/App_Pair.thy ===== *)
theory App_Pair
  imports App_Start Kernel_Entry
begin

text \<open>
  The start of a program with two tasks, from the initialisation to the supervisor call, with the frames that
  wait for the first dispatch of each task.
\<close>

text \<open>The task \<open>i\<close> of the configuration \<open>c\<close> has not run yet.\<close>

definition unentered :: "platform \<Rightarrow> os_task_config \<Rightarrow> os_task_id_t \<Rightarrow> kernel \<Rightarrow> bool" where
  "unentered P c i k \<longleftrightarrow> first_frame P (tc_argument c) (ram k) (saved_psp (tcb k i) + 32) \<and>
     unat (saved_psp (tcb k i)) + 64 = unat (stack_high (tcb k i)) \<and>
     entry (tcb k i) = tc_entry c \<and> argument (tcb k i) = tc_argument c \<and> tc_entry c \<noteq> 0 \<and> state (sched k i) \<noteq> OS_TASK_DORMANT"

lemma frame_part:
  assumes "stack_region P i t" and "psp_ok t p" and "j < 8"
  shows "stack_area P i (p + 32 + 4 * of_nat j)"
  using frame_in_area [OF assms(1,2), of "8 + j"] assms(3) by (simp add: algebra_simps)

lemma first_frame_cong:
  assumes "stack_region P (unat i) t" and "psp_ok t p" and "\<And>a. stack_area P (unat i) a \<Longrightarrow> m' a = m a"
  shows "first_frame P arg m' (p + 32) = first_frame P arg m (p + 32)"
  using assms(3) [OF frame_part [OF assms(1,2), of 0]] assms(3) [OF frame_part [OF assms(1,2), of 5]]
    assms(3) [OF frame_part [OF assms(1,2), of 6]] assms(3) [OF frame_part [OF assms(1,2), of 7]]
  by (simp add: first_frame_def)

lemma alone_unentered:
  assumes "left_alone P i k k'" and "kernel_ok P k" and "unat i < OS_TASK_COUNT" and "unentered P c i k"
    and "entry (tcb k' i) = entry (tcb k i)" and "argument (tcb k' i) = argument (tcb k i)" and "state (sched k' i) \<noteq> OS_TASK_DORMANT"
  shows "unentered P c i k'"
proof -
  have "slot_ok P (unat i) (sched k i) (tcb k i)" using assms(2,3) slots_okD by (simp add: kernel_ok_def)
  then have reg: "stack_region P (unat i) (tcb k i)" "psp_ok (tcb k i) (saved_psp (tcb k i))"
    using assms(4) by (simp_all add: slot_ok_def unentered_def)
  have "first_frame P (tc_argument c) (ram k') (saved_psp (tcb k i) + 32) = first_frame P (tc_argument c) (ram k) (saved_psp (tcb k i) + 32)"
    by (rule first_frame_cong [OF reg]) (use assms(1) in \<open>simp add: left_alone_def\<close>)
  with assms(1,4-7) show ?thesis by (simp add: unentered_def left_alone_def)
qed

lemma run_unentered:
  assumes "runs_without P i c c'" and "platform_ok P" and "kernel_ok P (snd c)" and "unat i < OS_TASK_COUNT"
    and "unentered P cfg i (snd c)"
  shows "unentered P cfg i (snd c')"
proof -
  have s: "state (sched (snd c) i) \<noteq> OS_TASK_DORMANT" using assms(5) by (simp add: unentered_def)
  from run_left_alone [OF assms(1-4) s] run_entry [OF assms(1-4) s] alone_unentered [OF _ assms(3-5)] show ?thesis by blast
qed

lemma created_unentered:
  assumes "kernel_ok P k" and "platform_ok P" and "\<not> pendsv_set k"
    and "os_task_create P (Some c) (Some created) k = Inr ((True, Some i), k')"
  shows "unentered P c i k'"
proof -
  note made = create_configures [OF assms]
  have "state (sched k' i) \<noteq> OS_TASK_DORMANT"
    using made(1) configured_claimed by (auto simp: configured_def)
  with create_frame [OF assms] show ?thesis by (simp add: unentered_def)
qed

text \<open>The first dispatch leaves the frame for the return from the exception, which enters the trampoline.\<close>

lemma unentered_dispatched:
  assumes "unentered P c i k" and "platform_ok P" and "kernel_ok P k" and "unat i < OS_TASK_COUNT" and "current_task k \<noteq> i"
    and "pendsv_set k" and "stack_in_bounds k" and "PendSV_Handler (rs, k\<lparr>pendsv_set := False\<rparr>) = Inr (rs', k')" and "current_task k' = i"
  shows "first_frame P (tc_argument c) (ram k') (psp k')" "unat (psp k') + 32 = unat (stack_high (tcb k' i))"
    "task_entry_trampoline (tc_argument c) k' = Inr (tc_entry c)"
proof -
  have ne: "i \<noteq> current_task k" using assms(5) by simp
  have alone: "left_alone P i k k'" by (rule switch_left_alone [OF assms(3,6-8,4) ne])
  have ok': "kernel_ok P k'" using kernel_step_keeps [OF kernel_step.switch [OF assms(6-8)] assms(2)] assms(3) by simp
  have act: "has_active_context k' \<noteq> 0" using assms(4,9) ok' by (auto simp: kernel_ok_def mode_ok_def split: if_splits)
  have st: "state (sched k' i) \<noteq> OS_TASK_DORMANT" using current_region(3) [OF ok' act] assms(9) by simp
  have un: "unentered P c i k'"
    by (rule alone_unentered [OF alone assms(3,4,1) switch_entry [OF assms(3,6-8) ne] st])
  have psp: "psp k' = saved_psp (tcb k' i) + 32" using switch_restores(2) [OF assms(3,6-8)] assms(9) by simp
  with un show "first_frame P (tc_argument c) (ram k') (psp k')" by (simp add: unentered_def)
  have "unat (saved_psp (tcb k' i)) + 64 < 2 ^ 32"
    using un unsigned_less [of "stack_high (tcb k' i)", where ?'a = nat] by (simp add: unentered_def)
  then have "unat (saved_psp (tcb k' i) + 32) = unat (saved_psp (tcb k' i)) + 32" by (simp add: unat_word_ariths)
  then show "unat (psp k') + 32 = unat (stack_high (tcb k' i))" using un by (simp add: psp unentered_def)
  have "state (sched k' i) = OS_TASK_RUNNING"
  proof -
    obtain k1 k2 nx where sw: "PendSV_Handler (rs, k\<lparr>pendsv_set := False\<rparr>) =
        Inr (load_registers (saved_psp (tcb k1 nx)) (ram k1), k1)" "slots_ok P k2" "unat nx < OS_TASK_COUNT"
      "quiet k1 = quiet ((dispatched nx k2)\<lparr>psp := saved_psp (tcb k1 nx) + 32, control := CONTROL_SPSEL_Msk, primask := primask k\<rparr>)"
      by (rule handler_effect [OF assms(3,6,7), of rs]) blast
    have k1: "k1 = k'" using sw(1) assms(8) by simp
    show ?thesis
      using quiet_eqD(2,3) [OF sw(4)] sw(2,3) assms(9) by (simp add: k1 dispatched_def sched_def slots_ok_def)
  qed
  moreover have "current_task k' \<noteq> OS_TASK_ID_INVALID" using assms(4,9) by auto
  ultimately show "task_entry_trampoline (tc_argument c) k' = Inr (tc_entry c)"
    using un assms(9) by (simp add: task_entry_trampoline_def unentered_def)
qed

section \<open>Two tasks\<close>

lemma pair_starts:
  assumes "platform_ok P" and "sets_priority P" and "power_on k" and "ipsr k = 0" and "startable c1" and "startable c2"
  obtains k1 k2 k3 k4 where "os_kernel_init P k = Inr (True, k1)" "os_exception_configuration_valid k1"
    "os_task_create P (Some c1) (Some x1) k1 = Inr ((True, Some 1), k2)"
    "os_task_create P (Some c2) (Some x2) k2 = Inr ((True, Some 2), k3)"
    "os_kernel_start k3 = Inr (OS_SVC_START, k4)" "reachable P (rs, k4)" "running k4" "\<not> pendsv_set k4" "has_active_context k4 = 0"
    "ccr k4 AND SCB_CCR_STKALIGN_Msk \<noteq> 0" "ipsr k4 = 0"
    "schedules k4 = [idle_schedule, initial_record 1 c1, initial_record 2 c2, blank_schedule 3, blank_schedule 4]"
    "unentered P c1 1 k4" "unentered P c2 2 k4" "current_task k4 = OS_TASK_ID_INVALID"
proof -
  obtain k1 where k1: "os_kernel_init P k = Inr (True, k1)" "before_start P rs [idle_schedule] k1" "os_exception_configuration_valid k1"
    using booted_ready [OF assms(1,3,4,2)] by blast
  obtain k2 where k2: "os_task_create P (Some c1) (Some x1) k1 = Inr ((True, Some 1), k2)"
    "before_start P rs [idle_schedule, initial_record 1 c1] k2" "ccr k2 = ccr k1"
    using create_one [OF assms(1) k1(2) assms(5), of x1] by auto
  obtain k3 where k3: "os_task_create P (Some c2) (Some x2) k2 = Inr ((True, Some 2), k3)"
    "before_start P rs [idle_schedule, initial_record 1 c1, initial_record 2 c2] k3" "ccr k3 = ccr k2"
    using create_one [OF assms(1) k2(2) assms(6), of x2] by (auto simp: numeral_2_eq_2)
  note b1 = k1(2) [unfolded before_start_def] and b2 = k2(2) [unfolded before_start_def] and b3 = k3(2) [unfolded before_start_def]
  obtain k4 where k4: "os_kernel_start k3 = Inr (OS_SVC_START, k4)" using b3 by (simp add: os_kernel_start_def kernel_ok_def)
  have ok3: "kernel_ok P k3" using b3 by simp
  note q = quiet_eqD [OF start_keeps(2) [OF ok3 k4]]
  have s3: "kernel_step P (rs, k2) (rs, k3)" by (rule kernel_step.create [OF _ k3(1)]) (use b2 in simp)
  have s4: "kernel_step P (rs, k3) (rs, k4)" by (rule kernel_step.start [OF k4])
  have off: "has_active_context k2 = 0" "current_task k2 = OS_TASK_ID_INVALID" "has_active_context k3 = 0" "current_task k3 = OS_TASK_ID_INVALID"
    using b2 b3 by (auto simp: kernel_ok_def mode_ok_def split: if_splits)
  have off4: "current_task k4 = OS_TASK_ID_INVALID" "has_active_context k4 = 0" using q off by simp_all
  have "unentered P c1 1 k2" by (rule created_unentered [OF _ assms(1) _ k2(1)]) (use b1 in simp_all)
  moreover have "runs_without P 1 (rs, k2) (rs, k4)"
    by (rule runs_without.more [OF runs_without.more [OF runs_without.stop s3] s4]) (simp_all add: off off4)
  ultimately have u1: "unentered P c1 1 k4" using run_unentered [of P 1 "(rs, k2)" "(rs, k4)" c1] assms(1) b2 by simp
  have "unentered P c2 2 k3" by (rule created_unentered [OF _ assms(1) _ k3(1)]) (use b2 in simp_all)
  moreover have "runs_without P 2 (rs, k3) (rs, k4)"
    by (rule runs_without.more [OF runs_without.stop s4]) (simp_all add: off off4)
  ultimately have u2: "unentered P c2 2 k4" using run_unentered [of P 2 "(rs, k3)" "(rs, k4)" c2] assms(1) ok3 by simp
  show thesis
  proof (rule that [OF k1(1,3) k2(1) k3(1) k4 _ _ _ off4(2) _ _ _ u1 u2 off4(1)])
    show "reachable P (rs, k4)" using reachable.step [OF _ s4] b3 by blast
    show "schedules k4 = [idle_schedule, initial_record 1 c1, initial_record 2 c2, blank_schedule 3, blank_schedule 4]"
      using q(2) b3 by (simp add: blank_schedules_list)
    show "ccr k4 AND SCB_CCR_STKALIGN_Msk \<noteq> 0"
      using k1(3) q(16) by (simp add: k2(3) k3(3) os_exception_configuration_valid_def)
  qed (use q b3 in simp_all)
qed

end
