(* ===== verification/Kernel_History_Claims.thy ===== *)
theory Kernel_History_Claims
  imports Kernel_History App_Pair Kernel_Demo
begin

text \<open>
  The life of a task in the running system: what holds of its record from its creation on, whatever the
  other tasks, the ticks and the switches do, as long as its slot has not been given to another task.
\<close>

text \<open>C12: A task never drifts. From its creation on, in every state of every run of the system in which it still
  has its slot, the record of a task is well formed and its accounts are exact; the next release of a periodic task is its
  creation plus its delay plus a whole number of periods, and, while no release has been skipped, its job number \<open>n\<close> was
  released \<open>n - 1\<close> periods after the first, has its deadline there, and follows \<open>n - 1\<close> completed jobs.\<close>

theorem created_task_never_drifts:
  assumes "reachable P (rs, k0)" and "platform_ok P" and "\<not> pendsv_set k0"
    and "os_task_create P (Some c) (Some created) k0 = Inr ((True, Some i), k1)" and "alive_run P i (rs, k1) (rs', k)"
  defines "origin \<equiv> unat (monotonic_ticks k0) + unat (cfg_initial_release_delay_ticks (tc_timing c))"
    and "period \<equiv> unat (cfg_period_ticks (tc_timing c))"
  shows "sched_task_wf (sched k i) \<and> accounts_ok (sched k i) \<and>
    (cfg_kind (tc_timing c) = OS_TASK_PERIODIC \<longrightarrow> cadence origin period (sched k i) \<and>
       (missed_release_count (sched k i) = 0 \<and> job_sequence (sched k i) \<noteq> UINT32_MAX \<longrightarrow>
          periodic_job origin period (unat (cfg_relative_deadline_ticks (tc_timing c))) (sched k i)))"
proof -
  note h = created_history [OF assms(1-5)]
  have "sched_task_wf (sched k i)" using h(2) configure_wf [OF h(1)] sched_task_wf_step by (rule task_run_invariant)
  moreover have "accounts_ok (sched k i)" using h(2) configure_accounts [OF h(1)] accounts_ok_step by (rule task_run_invariant)
  moreover have "cadence origin period (sched k i)" if "cfg_kind (tc_timing c) = OS_TASK_PERIODIC"
    unfolding origin_def period_def using h(2) configure_cadence [OF h(1) that] cadence_step by (rule task_run_invariant)
  ultimately show ?thesis using history_job [OF h(1) _ h(2)] by (simp add: origin_def period_def)
qed

definition demo_periodic :: os_task_config where
  "demo_periodic = (let c = os_task_config_default 0x08004001 0
     in c\<lparr>tc_timing := (tc_timing c)\<lparr>cfg_kind := OS_TASK_PERIODIC, cfg_initial_release_delay_ticks := 5,
          cfg_period_ticks := 15, cfg_relative_deadline_ticks := 10\<rparr>\<rparr>)"

lemma demo_periodic: "startable demo_periodic"
  by (simp add: demo_periodic_def startable_def os_task_config_default_def os_sched_config_valid_def os_tick_interval_valid_def
      Let_def word_le_nat_alt word_less_nat_alt unat_sub_le)

lemma demo_before: "before_start demo_platform demo_regs [idle_schedule] (snd d0)"
proof -
  have "reachable demo_platform (demo_regs, snd d0)" using d0_facts(2) by (simp add: d0_def)
  then show ?thesis using d0_facts(1,3-7) by (simp add: before_start_def blank_schedules_list) (simp add: idle_schedule_def)
qed

theorem created_task_never_drifts_witness:
  "\<exists>k1 k2. os_task_create demo_platform (Some demo_periodic) (Some 0) (snd d0) = Inr ((True, Some 1), k1) \<and>
     os_kernel_start k1 = Inr (OS_SVC_START, k2) \<and> job_sequence (sched k2 1) = 0 \<and> cadence 5 15 (sched k2 1) \<and>
     periodic_job 5 15 10 (sched k2 1)"
proof -
  obtain k1 where k1: "os_task_create demo_platform (Some demo_periodic) (Some 0) (snd d0) = Inr ((True, Some 1), k1)"
    "before_start demo_platform demo_regs [idle_schedule, initial_record 1 demo_periodic] k1"
    using create_one [OF demo_platform_ok demo_before demo_periodic, of 0] by auto
  note b = k1(2) [unfolded before_start_def]
  obtain k2 where k2: "os_kernel_start k1 = Inr (OS_SVC_START, k2)" using b by (simp add: os_kernel_start_def kernel_ok_def)
  have one: "sched k1 1 = initial_record 1 demo_periodic" using b by (simp add: sched_def)
  have "quiet k2 = quiet (k1\<lparr>running := True\<rparr>)" by (rule start_keeps(2) [OF _ k2]) (use b in blast)
  from quiet_eqD(2) [OF this] have two: "sched k2 1 = sched k1 1" by (simp add: sched_def)
  have live: "state (sched k1 1) \<noteq> OS_TASK_DORMANT" using initial_record_claimed [OF demo_periodic, of 1] by (simp add: one)
  have "alive_run demo_platform 1 (demo_regs, k1) (demo_regs, k2)"
    by (rule alive_run.more [OF alive_run.stop kernel_step.start [OF k2]]) (simp_all add: live two)
  moreover have fields: "job_sequence (sched k2 1) = 0" "missed_release_count (sched k2 1) = 0"
    unfolding two one by (simp_all add: initial_record_def demo_periodic_def os_task_config_default_def step_unfold os_sched_task_reset_def
        os_sched_task_zero_def os_sched_config_valid_def os_tick_interval_valid_def blank_schedule_def Let_def)
  moreover have "reachable demo_platform (demo_regs, snd d0)" using d0_facts(2) by (simp add: d0_def)
  moreover have "cfg_kind (tc_timing demo_periodic) = OS_TASK_PERIODIC" "unat (cfg_initial_release_delay_ticks (tc_timing demo_periodic)) = 5"
    "unat (cfg_period_ticks (tc_timing demo_periodic)) = 15" "unat (cfg_relative_deadline_ticks (tc_timing demo_periodic)) = 10"
    by (simp_all add: demo_periodic_def Let_def)
  ultimately have "cadence 5 15 (sched k2 1) \<and> periodic_job 5 15 10 (sched k2 1)"
    using created_task_never_drifts [OF _ demo_platform_ok d0_facts(5) k1(1), of demo_regs demo_regs k2] d0_facts(7) by simp
  with k1(1) k2 fields(1) show ?thesis by blast
qed

text \<open>C11: A created task starts at its entry, with its argument. Between its creation and its first dispatch any steps of the
  other tasks, of interrupts and of the kernel may happen: the switch that dispatches it leaves the process stack pointer at the
  frame that the creation has built, from which the processor loads the argument as \<open>r0\<close>, the guard as return address and the
  trampoline as program counter, and nothing else is on the stack; the trampoline passes its checks and calls the entry.\<close>

theorem created_task_enters:
  assumes "reachable P (rs, k0)" and "platform_ok P" and "\<not> pendsv_set k0"
    and "os_task_create P (Some c) (Some created) k0 = Inr ((True, Some i), k1)"
    and "runs_without P i (rs, k1) (rs2, k2)" and "pendsv_set k2" and "stack_in_bounds k2"
    and "PendSV_Handler (rs2, k2\<lparr>pendsv_set := False\<rparr>) = Inr (rs3, k3)" and "current_task k3 = i"
  shows "ram k3 (psp k3) = tc_argument c \<and> ram k3 (psp k3 + 4 * 5) = return_guard_address P \<and>
    ram k3 (psp k3 + 4 * 6) = trampoline_address P \<and> ram k3 (psp k3 + 4 * 7) = OS_XPSR_THUMB \<and>
    unat (psp k3) + 32 = unat (stack_high (tcb k3 i)) \<and> task_entry_trampoline (tc_argument c) k3 = Inr (tc_entry c)"
proof -
  have ok0: "kernel_ok P k0" using reachable_ok [OF assms(1,2)] by simp
  note made = create_configures [OF ok0 assms(2-4)]
  have un: "unentered P c i k1" by (rule created_unentered [OF ok0 assms(2-4)])
  then have live: "state (sched k1 i) \<noteq> OS_TASK_DORMANT" by (simp add: unentered_def)
  have run: "kernel_ok P k2" "current_task k2 \<noteq> i" using run_left_alone [OF assms(5,2)] made(2,4) live by simp_all
  have "unentered P c i k2" using run_unentered [OF assms(5,2)] made(2,4) un by simp
  note first = unentered_dispatched [OF this assms(2) run(1) made(2) run(2) assms(6-9)]
  show ?thesis using first(1) unfolding first_frame_def by (intro conjI first(2,3)) simp_all
qed

text \<open>In the demonstration run the first task waits while the second is created and the kernel starts.\<close>

lemma demo_waits_entry: "runs_without demo_platform 1 d1 d5"
proof -
  have "\<exists>k'. os_task_create demo_platform (Some (job_config 0x08005001 20)) (Some 0) (snd d1) = Inr ((True, Some 2), k')"
    using demo_create [OF d1_facts(2,4-7), of "0x08005001" 20 2 job_b] job_fields(2,3) less_2_cases
    by (fastforce simp: d1_facts)
  then have "os_task_create demo_platform (Some (job_config 0x08005001 20)) (Some 0) (snd d1) = Inr ((True, Some 2), snd d2)"
    by (auto simp: d2_def state_of_def)
  from kernel_step.create [OF d1_facts(5) this] have s2: "kernel_step demo_platform d1 d2" by (simp add: d1_def d2_def)
  have "\<exists>k'. os_kernel_start (snd d2) = Inr (OS_SVC_START, k')"
    using d2_facts(1,3) by (simp add: os_kernel_start_def kernel_ok_def)
  then have "os_kernel_start (snd d2) = Inr (OS_SVC_START, snd d3)" by (auto simp: d3_def state_of_def)
  from kernel_step.start [OF this, of demo_platform demo_regs] have s3: "kernel_step demo_platform d2 d3" by (simp add: d2_def d3_def)
  have "trap_frame 0 0 0x20017F00 (ram (snd d3)) a = ram (snd d3) a" if "i < OS_TASK_COUNT" "stack_area demo_platform i a" for i a
    using outside_stacks [of a i] that by (intro trap_frame_other) auto
  from kernel_step.main [OF d3_facts(7) this, where rs = demo_regs and rs' = demo_regs and p = "0x20017F00" and exception = 11]
  have s4: "kernel_step demo_platform d3 d4" by (simp add: d3_def d4_def)
  from kernel_step.svc [OF d4_facts(4,3) d5_facts(1), of demo_regs]
  have s5: "kernel_step demo_platform d4 d5" using d5_facts(2) by (simp add: d4_def d5_def)
  have idle: "current_task k = OS_TASK_ID_INVALID" if "kernel_ok demo_platform k" "\<not> running k \<or> has_active_context k = 0" for k
    using that by (cases "has_active_context k = 0") (simp_all add: kernel_ok_def mode_ok_def)
  have "current_task (snd d1) \<noteq> 1" using idle [OF d1_facts(2)] d1_facts(4) by simp
  moreover have "current_task (snd d2) \<noteq> 1" using idle [OF d2_facts(1)] d2_facts(3) by simp
  moreover have "current_task (snd d3) \<noteq> 1" using idle [OF d3_facts(1)] d3_facts(7) by simp
  moreover have "current_task (snd d4) \<noteq> 1" using d4_facts(7) by simp
  moreover have "current_task (snd d5) \<noteq> 1" using d4_facts(7) d5_facts(2) by simp
  ultimately show ?thesis
    by (intro runs_without.more [OF _ s5] runs_without.more [OF _ s4] runs_without.more [OF _ s3] runs_without.more [OF _ s2] runs_without.stop)
qed

theorem created_task_enters_witness:
  "ram (snd d6) (psp (snd d6)) = 7 \<and> ram (snd d6) (psp (snd d6) + 4 * 6) = 0x08002001 \<and>
     task_entry_trampoline 7 (snd d6) = Inr 0x08004001"
proof -
  have reach: "reachable demo_platform (demo_regs, snd d0)" using d0_facts(2) by (simp add: d0_def)
  have away: "runs_without demo_platform 1 (demo_regs, snd d1) (demo_regs, snd d5)"
    using demo_waits_entry by (simp add: d1_def d5_def)
  have sw: "pendsv_set (snd d5)" "stack_in_bounds (snd d5)" by (simp_all add: stack_in_bounds_def d5_facts(2) d4_facts)
  have disp: "PendSV_Handler (demo_regs, (snd d5)\<lparr>pendsv_set := False\<rparr>) = Inr (fst d6, snd d6)" using d6_facts(1) by simp
  show ?thesis
    using created_task_enters [OF reach demo_platform_ok d0_facts(5) d1_facts(1) away sw disp d6_facts(5)]
    by (simp add: job_config_def os_task_config_default_def demo_platform_def)
qed

end
