(* ===== verification/Edf_Lab.thy ===== *)
theory Edf_Lab
  imports App_Start
begin

text \<open>
  The scheduling workload: \<open>apps/edf/main.c\<close>, with the constants of \<open>aymos_edf_fixture.h\<close>. A periodic task
  with the nearer deadline preempts a long one twice and exits. The statics of the file are the record
  \<open>edf_lab\<close>; what happens to the kernel before a call number \<open>n\<close> of a task is the function \<open>between n\<close>.
\<close>

section \<open>The state\<close>

abbreviation OS_EDF_FIXTURE_URGENT_ID :: u8 where "OS_EDF_FIXTURE_URGENT_ID \<equiv> 1"
abbreviation OS_EDF_FIXTURE_RELAXED_ID :: u8 where "OS_EDF_FIXTURE_RELAXED_ID \<equiv> 2"
abbreviation OS_EDF_FIXTURE_URGENT_RELEASE :: u32 where "OS_EDF_FIXTURE_URGENT_RELEASE \<equiv> 5"
abbreviation OS_EDF_FIXTURE_URGENT_PERIOD :: u32 where "OS_EDF_FIXTURE_URGENT_PERIOD \<equiv> 15"
abbreviation OS_EDF_FIXTURE_URGENT_RELATIVE_DEADLINE :: u32 where "OS_EDF_FIXTURE_URGENT_RELATIVE_DEADLINE \<equiv> 10"
abbreviation OS_EDF_FIXTURE_URGENT_FIRST_DEADLINE :: u32 where "OS_EDF_FIXTURE_URGENT_FIRST_DEADLINE \<equiv> 15"
abbreviation OS_EDF_FIXTURE_URGENT_SECOND_RELEASE :: u32 where "OS_EDF_FIXTURE_URGENT_SECOND_RELEASE \<equiv> 20"
abbreviation OS_EDF_FIXTURE_URGENT_SECOND_DEADLINE :: u32 where "OS_EDF_FIXTURE_URGENT_SECOND_DEADLINE \<equiv> 30"
abbreviation OS_EDF_FIXTURE_RELAXED_RELEASE :: u32 where "OS_EDF_FIXTURE_RELAXED_RELEASE \<equiv> 0"
abbreviation OS_EDF_FIXTURE_RELAXED_RELATIVE_DEADLINE :: u32 where "OS_EDF_FIXTURE_RELAXED_RELATIVE_DEADLINE \<equiv> 50"
abbreviation OS_EDF_FIXTURE_RELAXED_ABSOLUTE_DEADLINE :: u32 where "OS_EDF_FIXTURE_RELAXED_ABSOLUTE_DEADLINE \<equiv> 50"
abbreviation OS_EDF_FIXTURE_URGENT_PRIORITY :: u8 where "OS_EDF_FIXTURE_URGENT_PRIORITY \<equiv> 1"
abbreviation OS_EDF_FIXTURE_RELAXED_PRIORITY :: u8 where "OS_EDF_FIXTURE_RELAXED_PRIORITY \<equiv> 2"

record edf_lab =
  urgent_id :: os_task_id_t
  relaxed_id :: os_task_id_t
  relaxed_running :: bool
  urgent_finished :: bool

section \<open>The start\<close>

definition edf_urgent_config :: "u32 \<Rightarrow> os_task_config" where
  "edf_urgent_config urgent_entry = (let c = os_task_config_default urgent_entry 0
     in c\<lparr>tc_timing := (tc_timing c)\<lparr>cfg_initial_release_delay_ticks := OS_EDF_FIXTURE_URGENT_RELEASE,
          cfg_kind := OS_TASK_PERIODIC, cfg_period_ticks := OS_EDF_FIXTURE_URGENT_PERIOD,
          cfg_relative_deadline_ticks := OS_EDF_FIXTURE_URGENT_RELATIVE_DEADLINE,
          cfg_priority := OS_EDF_FIXTURE_URGENT_PRIORITY\<rparr>\<rparr>)"

definition edf_relaxed_config :: "u32 \<Rightarrow> os_task_config" where
  "edf_relaxed_config relaxed_entry = (let c = os_task_config_default relaxed_entry 0
     in c\<lparr>tc_timing := (tc_timing c)\<lparr>cfg_relative_deadline_ticks := OS_EDF_FIXTURE_RELAXED_RELATIVE_DEADLINE,
          cfg_priority := OS_EDF_FIXTURE_RELAXED_PRIORITY\<rparr>\<rparr>)"

definition edf_main ::
  "platform \<Rightarrow> 'w hal \<Rightarrow> (u8 list \<Rightarrow> 'w \<Rightarrow> hal_status \<times> 'w) \<Rightarrow> u32 \<times> u32 \<Rightarrow> kernel \<Rightarrow> 'w \<Rightarrow> edf_lab \<Rightarrow>
   (u8 \<times> kernel \<times> 'w \<times> edf_lab) outcome" where
  "edf_main P h transmit entries k w s =
     (let (urgent_entry, relaxed_entry) = entries; (status, w1) = board_init h w
      in on_ok (require (status = HAL_OK) ''BOARD_INIT'') (\<lambda>_.
         on_ok (write_line transmit (''AYMOS READY'' @ crlf) w1) (\<lambda>w2.
         on_ok (os_kernel_init P k) (\<lambda>(ok, k1).
         on_ok (require ok ''KERNEL_INIT'') (\<lambda>_.
         on_ok (require (os_exception_configuration_valid k1) ''EXCEPTION_CONFIG'') (\<lambda>_.
         on_ok (os_task_create P (Some (edf_urgent_config urgent_entry)) (Some (urgent_id s)) k1) (\<lambda>((ok1, i1), k2).
         on_ok (require ok1 ''CREATE_URGENT'') (\<lambda>_.
         on_ok (os_task_create P (Some (edf_relaxed_config relaxed_entry)) (Some (relaxed_id s)) k2) (\<lambda>((ok2, i2), k3).
         on_ok (require ok2 ''CREATE_RELAXED'') (\<lambda>_.
         on_ok (require (i1 = Some OS_EDF_FIXTURE_URGENT_ID \<and> i2 = Some OS_EDF_FIXTURE_RELAXED_ID) ''TASK_IDS'') (\<lambda>_.
         on_ok (write_line transmit (''EDF BEGIN'' @ crlf) w2) (\<lambda>w3.
         on_ok (os_kernel_start k3) (\<lambda>(service, k4).
           Inr (service, k4, w3, s\<lparr>urgent_id := the i1, relaxed_id := the i2\<rparr>))))))))))))))"

definition edf_idle_hook ::
  "(u8 list \<Rightarrow> 'w \<Rightarrow> hal_status \<times> 'w) \<Rightarrow> edf_lab \<Rightarrow> kernel \<Rightarrow> 'w \<Rightarrow> 'w outcome" where
  "edf_idle_hook transmit s k w =
     on_ok (require (os_thread_uses_psp k) ''IDLE_PSP'') (\<lambda>_.
     on_ok (require (os_reclaim_count k = 2 \<and> os_last_reclaimed_task k = relaxed_id s) ''RECLAIM_RELAXED'') (\<lambda>_.
     on_ok (write_line transmit (''EDF RECLAIM TASK=2'' @ crlf) w) (\<lambda>w1.
       write_line transmit (''AYMOS EDF PASS'' @ crlf) w1)))"

section \<open>The urgent task\<close>

text \<open>Its three checks of the first job.\<close>

definition urgent_timing :: "os_task_info_t \<Rightarrow> bool" where
  "urgent_timing info \<longleftrightarrow> info_state info = OS_TASK_RUNNING \<and> info_job_active info \<and>
     info_release_tick info = OS_EDF_FIXTURE_URGENT_RELEASE \<and>
     info_absolute_deadline_tick info = OS_EDF_FIXTURE_URGENT_FIRST_DEADLINE \<and> info_deadline_miss_count info = 0"

definition urgent_period :: "os_task_info_t \<Rightarrow> bool" where
  "urgent_period info \<longleftrightarrow> info_kind info = OS_TASK_PERIODIC \<and> info_job_sequence info = 1 \<and>
     info_next_release_tick info = OS_EDF_FIXTURE_URGENT_SECOND_RELEASE"

text \<open>Up to the call that waits for the second job; the result is the number of the service.\<close>

definition urgent_first ::
  "(u8 list \<Rightarrow> 'w \<Rightarrow> hal_status \<times> 'w) \<Rightarrow> u32 \<Rightarrow> (nat \<Rightarrow> kernel \<Rightarrow> kernel) \<Rightarrow> edf_lab \<Rightarrow> kernel \<Rightarrow> 'w \<Rightarrow> (u8 \<times> 'w) outcome" where
  "urgent_first transmit arg between s k w =
     on_ok (require (arg = 0 \<and> os_current_task k = urgent_id s \<and> os_thread_uses_psp k) ''URGENT_START'') (\<lambda>_.
     on_ok (require (relaxed_running s) ''URGENT_NOT_PREEMPT'') (\<lambda>_.
     on_ok (os_task_info (urgent_id s) True (between 0 k)) (\<lambda>(info, k1).
     on_ok (require (info \<noteq> None) ''URGENT_INFO'') (\<lambda>_.
     on_ok (require (urgent_timing (the info)) ''URGENT_TIMING'') (\<lambda>_.
     on_ok (require (urgent_period (the info)) ''URGENT_PERIOD_1'') (\<lambda>_.
     on_ok (write_line transmit (''EDF RELEASE TASK=1 JOB=1 RELEASE=5 DEADLINE=15'' @ crlf) w) (\<lambda>w1.
     on_ok (write_line transmit (''EDF PREEMPT FROM=2 TO=1 JOB=1'' @ crlf) w1) (\<lambda>w2.
     on_ok (write_line transmit (''EDF WAIT TASK=1 NEXT_RELEASE=20'' @ crlf) w2) (\<lambda>w3.
     let service = os_wait_next_period (between 1 k1)
     in on_ok (require (service \<noteq> None) ''URGENT_WAIT'') (\<lambda>_. Inr (the service, w3)))))))))))"

definition urgent_again :: "os_task_info_t \<Rightarrow> bool" where
  "urgent_again info \<longleftrightarrow> info_state info = OS_TASK_RUNNING \<and> info_job_active info \<and> info_job_sequence info = 2 \<and>
     info_completed_job_count info = 1 \<and> info_release_tick info = OS_EDF_FIXTURE_URGENT_SECOND_RELEASE \<and>
     info_absolute_deadline_tick info = OS_EDF_FIXTURE_URGENT_SECOND_DEADLINE \<and> info_deadline_miss_count info = 0"

definition urgent_second ::
  "(u8 list \<Rightarrow> 'w \<Rightarrow> hal_status \<times> 'w) \<Rightarrow> (nat \<Rightarrow> kernel \<Rightarrow> kernel) \<Rightarrow> edf_lab \<Rightarrow> kernel \<Rightarrow> 'w \<Rightarrow> ('w \<times> edf_lab) outcome" where
  "urgent_second transmit between s k w =
     on_ok (require (os_current_task k = urgent_id s \<and> os_thread_uses_psp k) ''URGENT_RESUME'') (\<lambda>_.
     on_ok (os_task_info (urgent_id s) True (between 0 k)) (\<lambda>(info, k1).
     on_ok (require (info \<noteq> None \<and> urgent_again (the info)) ''URGENT_PERIOD_2'') (\<lambda>_.
     on_ok (write_line transmit (''EDF RELEASE TASK=1 JOB=2 RELEASE=20 DEADLINE=30'' @ crlf) w) (\<lambda>w1.
     on_ok (write_line transmit (''EDF PREEMPT FROM=2 TO=1 JOB=2'' @ crlf) w1) (\<lambda>w2.
     on_ok (write_line transmit (''EDF EXIT TASK=1'' @ crlf) w2) (\<lambda>w3. Inr (w3, s\<lparr>urgent_finished := True\<rparr>)))))))"

section \<open>The relaxed task\<close>

definition relaxed_timing :: "os_task_info_t \<Rightarrow> bool" where
  "relaxed_timing info \<longleftrightarrow> info_state info = OS_TASK_RUNNING \<and> info_job_active info \<and>
     info_release_tick info = OS_EDF_FIXTURE_RELAXED_RELEASE \<and>
     info_absolute_deadline_tick info = OS_EDF_FIXTURE_RELAXED_ABSOLUTE_DEADLINE \<and> info_deadline_miss_count info = 0"

text \<open>Up to the flag that the urgent task tests, and the line that follows.\<close>

definition relaxed_first :: "u32 \<Rightarrow> (nat \<Rightarrow> kernel \<Rightarrow> kernel) \<Rightarrow> edf_lab \<Rightarrow> kernel \<Rightarrow> edf_lab outcome" where
  "relaxed_first arg between s k =
     on_ok (require (arg = 0 \<and> os_current_task k = relaxed_id s \<and> os_thread_uses_psp k) ''RELAXED_START'') (\<lambda>_.
     on_ok (os_task_info (relaxed_id s) True (between 0 k)) (\<lambda>(info, k1).
     on_ok (require (info \<noteq> None) ''RELAXED_INFO'') (\<lambda>_.
     on_ok (require (relaxed_timing (the info)) ''RELAXED_TIMING'') (\<lambda>_. Inr (s\<lparr>relaxed_running := True\<rparr>)))))"

definition relaxed_select :: "(u8 list \<Rightarrow> 'w \<Rightarrow> hal_status \<times> 'w) \<Rightarrow> 'w \<Rightarrow> 'w outcome" where
  "relaxed_select transmit w = write_line transmit (''EDF SELECT TASK=2 RELEASE=0 DEADLINE=50'' @ crlf) w"

text \<open>The loop ends when the flag is set.\<close>

definition relaxed_waits :: "edf_lab \<Rightarrow> bool" where
  "relaxed_waits s \<longleftrightarrow> \<not> urgent_finished s"

definition relaxed_second ::
  "(u8 list \<Rightarrow> 'w \<Rightarrow> hal_status \<times> 'w) \<Rightarrow> (nat \<Rightarrow> kernel \<Rightarrow> kernel) \<Rightarrow> edf_lab \<Rightarrow> kernel \<Rightarrow> 'w \<Rightarrow> 'w outcome" where
  "relaxed_second transmit between s k w =
     on_ok (require (os_reclaim_count k = 1 \<and> os_last_reclaimed_task k = urgent_id s) ''RECLAIM_URGENT'') (\<lambda>_.
     on_ok (os_task_info (relaxed_id s) True (between 0 k)) (\<lambda>(info, k1).
     on_ok (require (info \<noteq> None \<and> info_state (the info) = OS_TASK_RUNNING \<and> info_job_active (the info) \<and>
         info_deadline_miss_count (the info) = 0) ''RELAXED_RESUME'') (\<lambda>_.
     on_ok (write_line transmit (''EDF RECLAIM TASK=1'' @ crlf) w) (\<lambda>w1.
     on_ok (write_line transmit (''EDF RESUME TASK=2'' @ crlf) w1) (\<lambda>w2.
       write_line transmit (''EDF EXIT TASK=2'' @ crlf) w2)))))"

end
