(* ===== verification/App_Run.thy ===== *)
theory App_Run
  imports App_Pair App_Demo
begin

text \<open>
  A concrete run of a program on the demonstration platform: from the supervisor call of the start to the first
  dispatch of a task, and the task in thread mode.
\<close>

lemma handler_mode:
  assumes "kernel_ok P k" and "pendsv_set k" and "stack_in_bounds k" and "PendSV_Handler (rs, k\<lparr>pendsv_set := False\<rparr>) = Inr (rs', k')"
  shows "control k' = CONTROL_SPSEL_Msk" "ccr k' = ccr k" "length rs' = 8"
proof -
  show "control k' = CONTROL_SPSEL_Msk" using assms(4) by (auto simp: PendSV_Handler_def Let_def on_ok_eq_Inr split: if_splits)
  let ?k0 = "saved (if has_active_context k \<noteq> 0 then psp k - 32 else 0) (stacked rs k)"
  obtain k1 k2 nx where sw: "PendSV_Handler (rs, k\<lparr>pendsv_set := False\<rparr>) = Inr (load_registers (saved_psp (tcb k1 nx)) (ram k1), k1)"
    "retires ?k0 k2" "quiet k1 = quiet ((dispatched nx k2)\<lparr>psp := saved_psp (tcb k1 nx) + 32, control := CONTROL_SPSEL_Msk,
       primask := primask k\<rparr>)"
    by (rule handler_effect [OF assms(1-3), of rs]) blast
  have "ccr k2 = ccr ?k0" using sw(2) unfolding retires_def by (auto dest!: quiet_eqD(16) simp: reclaimed_def)
  moreover have "ccr k1 = ccr k2" using quiet_eqD(16) [OF sw(3)] by (simp add: dispatched_def)
  ultimately show "ccr k' = ccr k" using sw(1) assms(4) by (simp add: saved_def set_tcb_def stacked_def)
  show "length rs' = 8" using sw(1) assms(4) by (auto simp: load_registers_def)
qed

text \<open>The trap of the start and the switch to the first task.\<close>

lemma demo_first_task:
  assumes reach: "reachable demo_platform (demo_regs, k0)" and k0: "running k0" "\<not> pendsv_set k0" "has_active_context k0 = 0"
    and choice: "\<And>nx. dispatch_choice (schedules k0) OS_TASK_ID_INVALID nx \<Longrightarrow> nx = i" and i: "unat i < OS_TASK_COUNT"
  obtains k2 rs3 k3 where "runs_without demo_platform i (demo_regs, k0) (demo_regs, k2)" "schedules k2 = schedules k0"
    "kernel_ok demo_platform k2" "pendsv_set k2" "stack_in_bounds k2" "current_task k2 = OS_TASK_ID_INVALID"
    "PendSV_Handler (demo_regs, k2\<lparr>pendsv_set := False\<rparr>) = Inr (rs3, k3)" "kernel_step demo_platform (demo_regs, k2) (rs3, k3)"
    "reachable demo_platform (rs3, k3)" "kernel_ok demo_platform k3" "length rs3 = 8"
    "schedules k3 = (schedules k0)[unat i := (sched k0 i)\<lparr>state := OS_TASK_RUNNING\<rparr>]" "current_task k3 = i"
    "has_active_context k3 = 1" "running k3" "\<not> pendsv_set k3" "control k3 = CONTROL_SPSEL_Msk" "ccr k3 = ccr k0"
    "monotonic_ticks k3 = monotonic_ticks k0"
proof -
  let ?m = "trap_frame 0 0 0x20017F00 (ram k0)"
  define k1 where "k1 = k0\<lparr>ram := ?m, msp := 0x20017F00, ipsr := 11\<rparr>"
  define k2 where "k2 = k1\<lparr>pendsv_set := True\<rparr>"
  have "?m a = ram k0 a" if "j < OS_TASK_COUNT" "stack_area demo_platform j a" for j a
    using outside_stacks [of a j] that by (intro trap_frame_other) auto
  from kernel_step.main [OF k0(3) this, where rs = demo_regs and rs' = demo_regs and p = "0x20017F00" and exception = 11]
  have s1: "kernel_step demo_platform (demo_regs, k0) (demo_regs, k1)" by (simp add: k1_def)
  note r1 = reachable.step [OF reach s1]
  have ok0: "kernel_ok demo_platform k0" and ok1: "kernel_ok demo_platform k1"
    using reachable_ok [OF reach demo_platform_ok] reachable_ok [OF r1 demo_platform_ok] by simp_all
  have f1: "has_active_context k1 = 0" "running k1" "\<not> pendsv_set k1" "schedules k1 = schedules k0" "ram k1 = ?m" "msp k1 = 0x20017F00"
    using k0 by (simp_all add: k1_def)
  have idle: "current_task k1 = OS_TASK_ID_INVALID" "yield_excluded_task k1 = OS_TASK_ID_INVALID" "current_task k0 = OS_TASK_ID_INVALID"
    using ok1 f1(1) ok0 k0(3) by (simp_all add: kernel_ok_def mode_ok_def)
  have "decode_svc demo_platform 0x20017F00 0xFFFFFFF9 k1 = Inr 0"
    by (simp add: decode_svc_def valid_svc_frame_def valid_exc_return_def f1 trap_frame_def demo_platform_def)
  then have "SVC_Handler demo_platform 0xFFFFFFF9 k1 = Inr k2"
    by (simp add: SVC_Handler_def os_svc_dispatch_def svc_start_def idle f1 request_pendsv_def k2_def)
  from kernel_step.svc [OF f1(3,2) this] have s2: "kernel_step demo_platform (demo_regs, k1) (demo_regs, k2)" .
  note r2 = reachable.step [OF r1 s2]
  have ok2: "kernel_ok demo_platform k2" using reachable_ok [OF r2 demo_platform_ok] by simp
  have ne: "OS_TASK_ID_INVALID \<noteq> i" using i by auto
  have away: "runs_without demo_platform i (demo_regs, k0) (demo_regs, k2)"
    by (rule runs_without.more [OF runs_without.more [OF runs_without.stop s1] s2]) (use ne idle in \<open>simp_all add: k2_def\<close>)
  have f2: "pendsv_set k2" "stack_in_bounds k2" "current_task k2 = OS_TASK_ID_INVALID \<or> off_cpu (sched k2 (current_task k2))"
    "yield_excluded_task k2 = OS_TASK_ID_INVALID" "schedules k2 = schedules k0" "current_task k2 = OS_TASK_ID_INVALID" "ccr k2 = ccr k0"
    "monotonic_ticks k2 = monotonic_ticks k0"
    using f1 idle by (simp_all add: k2_def stack_in_bounds_def) (simp_all add: k1_def)
  obtain rs3 k3 nx where sw: "PendSV_Handler (demo_regs, k2\<lparr>pendsv_set := False\<rparr>) = Inr (rs3, k3)" "kernel_ok demo_platform k3"
    "dispatch_choice (schedules k2) (yield_excluded_task k2) nx"
    "schedules k3 = (schedules k2)[unat nx := (sched k2 nx)\<lparr>state := OS_TASK_RUNNING\<rparr>]" "current_task k3 = nx"
    "has_active_context k3 = 1" "running k3" "\<not> pendsv_set k3"
    "monotonic_ticks k3 = monotonic_ticks k2"
    by (rule switch_off_cpu [OF ok2 f2(1-3), of demo_regs]) blast
  have nx: "nx = i" using choice sw(3) by (simp add: f2)
  from kernel_step.switch [OF f2(1,2) sw(1)] have s3: "kernel_step demo_platform (demo_regs, k2) (rs3, k3)" .
  note mode = handler_mode [OF ok2 f2(1,2) sw(1)]
  show thesis
    by (rule that [OF away f2(5) ok2 f2(1,2,6) sw(1) s3 reachable.step [OF r2 s3] sw(2) mode(3) _ _ sw(6,7,8) mode(1)])
      (use sw(4,5,9) mode(2) in \<open>simp_all add: nx f2 sched_def\<close>)
qed

text \<open>A task of the demonstration returns from the exception to thread mode, with an aligned stack pointer of its choice in its stack.\<close>

lemma demo_thread:
  assumes "kernel_ok demo_platform k" and "has_active_context k = 1" and "current_task k = i"
    and "control k = CONTROL_SPSEL_Msk" and "ccr k AND SCB_CCR_STKALIGN_Msk \<noteq> 0"
    and p: "p AND 7 = 0" "0x20001000 + 1024 * unat i \<le> unat p" "unat p \<le> 0x20001100 + 1024 * unat i" "msp k \<noteq> p"
  shows "kernel_step demo_platform (rs, k) (rs, k\<lparr>psp := p, ipsr := 0\<rparr>)"
    "os_thread_uses_psp (k\<lparr>psp := p, ipsr := 0\<rparr>)"
proof -
  have act: "has_active_context k \<noteq> 0" using assms(2) by simp
  show "kernel_step demo_platform (rs, k) (rs, k\<lparr>psp := p, ipsr := 0\<rparr>)" 
    using kernel_step.task [OF act, of demo_platform "ram k" rs rs 0 p] by simp
  note low = region_low [OF assms(1) act, unfolded assms(3)]
  have "stack_low (tcb k i) \<le> p" "p \<le> stack_high (tcb k i)" using low p(2,3) by (simp_all add: word_le_nat_alt)
  moreover have "i \<noteq> OS_TASK_ID_INVALID" using current_region(1) [OF assms(1) act] assms(3) by auto
  ultimately show "os_thread_uses_psp (k\<lparr>psp := p, ipsr := 0\<rparr>)"
    using assms(3-5) p(1,4) by (simp add: os_thread_uses_psp_def tcb_def)
qed

end
