(* ===== verification/Edf_Lab_Claims.thy ===== *)
theory Edf_Lab_Claims
  imports Edf_Lab App_Run
begin

text \<open>
  The properties of the scheduling workload: \<open>main\<close> starts the two tasks of the fixture, and every check of the
  times of release and deadline passes in every run of the kernel in which no deadline is missed.
\<close>

section \<open>The two records\<close>








section \<open>The checks\<close>






section \<open>The start\<close>




section \<open>A run\<close>



end
