(* ===== verification/Lifecycle_Lab.thy ===== *)
theory Lifecycle_Lab
  imports App_Start
begin

text \<open>
  The lifecycle workload: \<open>apps/lifecycle/main.c\<close> and the two probes of \<open>register_probe.S\<close>, which fill \<open>r4\<close> to
  \<open>r11\<close>, give up the processor or wait to be preempted, and compare the registers afterwards. The tasks
  are modelled from one call of a probe or of the kernel to the next; what happens to the kernel before a call
  number \<open>n\<close> of a piece is the function \<open>between n\<close>.
\<close>

section \<open>The register probes\<close>

text \<open>The pushes and pops, lowest register at the lowest address; a register list is that of \<open>r4\<close> to \<open>r11\<close>.\<close>

definition push_words :: "u32 \<Rightarrow> u32 list \<Rightarrow> (u32 \<Rightarrow> u32) \<Rightarrow> u32 \<Rightarrow> u32" where
  "push_words p ws m = fold (\<lambda>i m. m(p + 4 * of_nat i := ws ! i)) [0..<length ws] m"

definition pop_words :: "u32 \<Rightarrow> nat \<Rightarrow> (u32 \<Rightarrow> u32) \<Rightarrow> u32 list" where
  "pop_words p n m = map (\<lambda>i. m (p + 4 * of_nat i)) [0..<n]"

definition probe_prologue :: "u32 \<Rightarrow> u32 \<Rightarrow> cpu \<Rightarrow> cpu" where
  "probe_prologue r3 lr c = (let (rs, k) = c; p = psp k - 40
     in ([0x44, 0x55, 0x66, 0x77, 0x88, 0x99, 0xAA, 0xBB], k\<lparr>ram := push_words p (r3 # rs @ [lr]) (ram k), psp := p\<rparr>))"

definition verify_registers :: "u32 list \<Rightarrow> bool" where
  "verify_registers rs \<longleftrightarrow> rs ! 0 = 0x44 \<and> rs ! 1 = 0x55 \<and> rs ! 2 = 0x66 \<and> rs ! 3 = 0x77 \<and>
     rs ! 4 = 0x88 \<and> rs ! 5 = 0x99 \<and> rs ! 6 = 0xAA \<and> rs ! 7 = 0xBB"

text \<open>The end of a probe: the result in \<open>r0\<close>, the address it returns to, and the processor of the caller.\<close>

definition probe_epilogue :: "cpu \<Rightarrow> u32 \<times> u32 \<times> cpu" where
  "probe_epilogue c = (let (rs, k) = c; r0 = (if verify_registers rs then 1 else 0); ws = pop_words (psp k) 10 (ram k)
     in (r0, ws ! 9, take 8 (drop 1 ws), k\<lparr>psp := psp k + 40\<rparr>))"

text \<open>The yield probe up to its supervisor call, whose number is returned, and after it.\<close>

definition lifecycle_yield_register_probe :: "u32 \<Rightarrow> u32 \<Rightarrow> cpu \<Rightarrow> (u8 \<times> cpu) outcome" where
  "lifecycle_yield_register_probe r3 lr c = (let c1 = probe_prologue r3 lr c
     in on_ok (os_yield (snd c1)) (\<lambda>service. Inr (service, c1)))"

definition yield_probe_end :: "cpu \<Rightarrow> u32 \<times> u32 \<times> cpu" where
  "yield_probe_end c = probe_epilogue c"

text \<open>The preemption probe up to its loop, one test of the loop, which goes on as long as nothing was reclaimed, and the end.\<close>

definition lifecycle_preempt_register_probe :: "u32 \<Rightarrow> u32 \<Rightarrow> cpu \<Rightarrow> cpu" where
  "lifecycle_preempt_register_probe r3 lr c = probe_prologue r3 lr c"

definition wait_for_reclaim :: "cpu \<Rightarrow> bool" where
  "wait_for_reclaim c \<longleftrightarrow> os_reclaim_count (snd c) = 0"

definition preempt_probe_end :: "cpu \<Rightarrow> u32 \<times> u32 \<times> cpu" where
  "preempt_probe_end c = probe_epilogue c"

section \<open>The state and the start\<close>

abbreviation TASK_A_ARGUMENT :: u32 where "TASK_A_ARGUMENT \<equiv> 0xA5"
abbreviation TASK_B_ARGUMENT :: u32 where "TASK_B_ARGUMENT \<equiv> 0x5A"
abbreviation PREEMPT_SLEEP_TICKS :: u32 where "PREEMPT_SLEEP_TICKS \<equiv> 50"

record lifecycle_lab =
  task_a_id :: os_task_id_t
  task_b_id :: os_task_id_t
  task_b_waiting :: bool

definition lifecycle_config :: "u32 \<Rightarrow> u32 \<Rightarrow> u8 \<Rightarrow> os_task_config" where
  "lifecycle_config entry_address arg prio = (let c = os_task_config_default entry_address arg
     in c\<lparr>tc_timing := (tc_timing c)\<lparr>cfg_relative_deadline_ticks := 1000, cfg_priority := prio\<rparr>\<rparr>)"

definition lifecycle_main ::
  "platform \<Rightarrow> 'w hal \<Rightarrow> (u8 list \<Rightarrow> 'w \<Rightarrow> hal_status \<times> 'w) \<Rightarrow> u32 \<times> u32 \<Rightarrow> kernel \<Rightarrow> 'w \<Rightarrow> lifecycle_lab \<Rightarrow>
   (u8 \<times> kernel \<times> 'w \<times> lifecycle_lab) outcome" where
  "lifecycle_main P h transmit entries k w s =
     (let (task_a, task_b) = entries; (status, w1) = board_init h w
      in on_ok (require (status = HAL_OK) ''BOARD_INIT'') (\<lambda>_.
         on_ok (write_line transmit (''AYMOS READY'' @ crlf) w1) (\<lambda>w2.
         on_ok (os_kernel_init P k) (\<lambda>(ok, k1).
         on_ok (require ok ''KERNEL_INIT'') (\<lambda>_.
         on_ok (require (os_exception_configuration_valid k1) ''EXCEPTION_CONFIG'') (\<lambda>_.
         on_ok (os_task_create P (Some (lifecycle_config task_a TASK_A_ARGUMENT 1)) (Some (task_a_id s)) k1) (\<lambda>((ok1, i1), k2).
         on_ok (require ok1 ''CREATE_A'') (\<lambda>_.
         on_ok (os_task_create P (Some (lifecycle_config task_b TASK_B_ARGUMENT 2)) (Some (task_b_id s)) k2) (\<lambda>((ok2, i2), k3).
         on_ok (require ok2 ''CREATE_B'') (\<lambda>_.
         on_ok (require (i1 = Some 1 \<and> i2 = Some 2) ''TASK_IDS'') (\<lambda>_.
         on_ok (write_line transmit (''LIFECYCLE BEGIN'' @ crlf) w2) (\<lambda>w3.
         on_ok (os_kernel_start k3) (\<lambda>(service, k4).
           Inr (service, k4, w3, s\<lparr>task_a_id := the i1, task_b_id := the i2\<rparr>))))))))))))))"

definition lifecycle_idle_hook ::
  "(u8 list \<Rightarrow> 'w \<Rightarrow> hal_status \<times> 'w) \<Rightarrow> lifecycle_lab \<Rightarrow> kernel \<Rightarrow> 'w \<Rightarrow> 'w outcome" where
  "lifecycle_idle_hook transmit s k w =
     on_ok (require (os_thread_uses_psp k) ''IDLE_PSP'') (\<lambda>_.
     on_ok (require (os_reclaim_count k = 2 \<and> os_last_reclaimed_task k = task_b_id s) ''RECLAIM_B'') (\<lambda>_.
     on_ok (write_line transmit (''LIFECYCLE RECLAIM B'' @ crlf) w) (\<lambda>w1.
     on_ok (write_line transmit (''LIFECYCLE IDLE PSP=1'' @ crlf) w1) (\<lambda>w2.
       write_line transmit (''AYMOS LIFECYCLE PASS'' @ crlf) w2))))"

section \<open>Task A\<close>

text \<open>Up to the yield probe.\<close>

definition a_start ::
  "(u8 list \<Rightarrow> 'w \<Rightarrow> hal_status \<times> 'w) \<Rightarrow> u32 \<Rightarrow> lifecycle_lab \<Rightarrow> kernel \<Rightarrow> 'w \<Rightarrow> 'w outcome" where
  "a_start transmit arg s k w =
     on_ok (require (arg = TASK_A_ARGUMENT) ''ARG_A'') (\<lambda>_.
     on_ok (require (os_current_task k = task_a_id s \<and> os_thread_uses_psp k) ''START_A'') (\<lambda>_.
     on_ok (write_line transmit (''LIFECYCLE START A ARG=165 PSP=1'' @ crlf) w) (\<lambda>w1.
       write_line transmit (''LIFECYCLE YIELD A_TO_B'' @ crlf) w1)))"

text \<open>With the result of the probe, up to the sleep; the service and its argument are returned.\<close>

definition a_resumes ::
  "(u8 list \<Rightarrow> 'w \<Rightarrow> hal_status \<times> 'w) \<Rightarrow> (nat \<Rightarrow> kernel \<Rightarrow> kernel) \<Rightarrow> u32 \<Rightarrow> lifecycle_lab \<Rightarrow> kernel \<Rightarrow> 'w \<Rightarrow> ((u8 \<times> u32) \<times> 'w) outcome" where
  "a_resumes transmit between probed s k w =
     on_ok (require (probed = 1) ''REG_YIELD_A'') (\<lambda>_.
     on_ok (require (os_current_task k = task_a_id s) ''RESUME_A'') (\<lambda>_.
     let k1 = between 0 k in on_ok (require (os_sleep 0 k1 = None) ''SLEEP_ZERO'') (\<lambda>_.
     let k2 = between 1 k1 in on_ok (require (os_sleep (OS_MAX_SLEEP_TICKS + 1) k2 = None) ''SLEEP_HALF_RANGE'') (\<lambda>_.
     on_ok (write_line transmit (''LIFECYCLE RESUME A'' @ crlf) w) (\<lambda>w1.
     on_ok (write_line transmit (''LIFECYCLE SLEEP A'' @ crlf) w1) (\<lambda>w2.
     let service = os_sleep PREEMPT_SLEEP_TICKS (between 2 k2)
     in on_ok (require (service \<noteq> None) ''SLEEP_VALID'') (\<lambda>_. Inr (the service, w2))))))))"

definition a_wakes ::
  "(u8 list \<Rightarrow> 'w \<Rightarrow> hal_status \<times> 'w) \<Rightarrow> lifecycle_lab \<Rightarrow> kernel \<Rightarrow> 'w \<Rightarrow> 'w outcome" where
  "a_wakes transmit s k w =
     on_ok (require (task_b_waiting s) ''NO_PREEMPT'') (\<lambda>_.
     on_ok (require (os_current_task k = task_a_id s) ''PREEMPT_A'') (\<lambda>_.
     on_ok (write_line transmit (''LIFECYCLE PREEMPT B_TO_A'' @ crlf) w) (\<lambda>w1.
       write_line transmit (''LIFECYCLE RETURN A'' @ crlf) w1)))"

section \<open>Task B\<close>

definition b_start ::
  "(u8 list \<Rightarrow> 'w \<Rightarrow> hal_status \<times> 'w) \<Rightarrow> u32 \<Rightarrow> lifecycle_lab \<Rightarrow> kernel \<Rightarrow> 'w \<Rightarrow> 'w outcome" where
  "b_start transmit arg s k w =
     on_ok (require (arg = TASK_B_ARGUMENT) ''ARG_B'') (\<lambda>_.
     on_ok (require (os_current_task k = task_b_id s \<and> os_thread_uses_psp k) ''START_B'') (\<lambda>_.
     on_ok (write_line transmit (''LIFECYCLE START B ARG=90 PSP=1'' @ crlf) w) (\<lambda>w1.
       write_line transmit (''LIFECYCLE YIELD B_TO_A'' @ crlf) w1)))"

text \<open>With the result of the yield probe, up to the preemption probe.\<close>

definition b_resumes ::
  "(u8 list \<Rightarrow> 'w \<Rightarrow> hal_status \<times> 'w) \<Rightarrow> u32 \<Rightarrow> lifecycle_lab \<Rightarrow> kernel \<Rightarrow> 'w \<Rightarrow> ('w \<times> lifecycle_lab) outcome" where
  "b_resumes transmit probed s k w =
     on_ok (require (probed = 1) ''REG_YIELD_B'') (\<lambda>_.
     on_ok (require (os_current_task k = task_b_id s) ''RESUME_B'') (\<lambda>_.
     on_ok (write_line transmit (''LIFECYCLE RESUME B'' @ crlf) w) (\<lambda>w1. Inr (w1, s\<lparr>task_b_waiting := True\<rparr>))))"

text \<open>With the result of the preemption probe, to the end.\<close>

definition b_continues ::
  "(u8 list \<Rightarrow> 'w \<Rightarrow> hal_status \<times> 'w) \<Rightarrow> u32 \<Rightarrow> lifecycle_lab \<Rightarrow> kernel \<Rightarrow> 'w \<Rightarrow> 'w outcome" where
  "b_continues transmit probed s k w =
     on_ok (require (probed = 1) ''REG_PREEMPT'') (\<lambda>_.
     on_ok (require (os_reclaim_count k = 1 \<and> os_last_reclaimed_task k = task_a_id s) ''RECLAIM_A'') (\<lambda>_.
     on_ok (write_line transmit (''LIFECYCLE RECLAIM A'' @ crlf) w) (\<lambda>w1.
     on_ok (write_line transmit (''LIFECYCLE CONTINUE B'' @ crlf) w1) (\<lambda>w2.
       write_line transmit (''LIFECYCLE RETURN B'' @ crlf) w2))))"

end
