(* ===== verification/Kernel_Still.thy ===== *)
theory Kernel_Still
  imports Kernel_History
begin

text \<open>
  A task that stands still: its own steps leave \<open>r4\<close> to \<open>r11\<close> and the words of its stack from some address on.
  However often it is interrupted and taken off the processor, it finds both as they were when it runs again.
\<close>

section \<open>The current task changes by a switch\<close>

lemma step_current:
  assumes "kernel_step P c c'" and "platform_ok P" and "kernel_ok P (snd c)" and "current_task (snd c') \<noteq> current_task (snd c)"
  shows "pendsv_set (snd c) \<and> stack_in_bounds (snd c) \<and> PendSV_Handler (fst c, (snd c)\<lparr>pendsv_set := False\<rparr>) = Inr c'"
  using assms
proof (induction rule: kernel_step.induct)
  case (create k config created r k' rs)
  then have ok: "kernel_ok P k" by simp
  show ?case by (cases rule: create_cases [OF ok create(3,1,2), case_names refused slot]) (use create(5) in simp_all)
next
  case (start k service k' rs)
  then have "quiet k' = quiet (k\<lparr>running := True\<rparr>)" using start_keeps(2) by simp
  from quiet_eqD(3) [OF this] start(4) show ?case by simp
next
  case (svc k lr k' rs)
  then show ?case using svc_others(7) [of P k lr k'] by simp
next
  case (tick k k' rs)
  then show ?case using tick_fields(4) [of P k k'] by simp
next
  case (alloc k sz p k' rs)
  then have "quiet k' = quiet (with_heap (heap_of k') k)" using os_memory_alloc_keeps(2) by simp
  from quiet_eqD(3) [OF this] alloc(5) show ?case by (simp add: with_heap_def)
next
  case (free k p r k' rs)
  then have "quiet k' = quiet (with_heap (heap_of k') k)" using os_memory_free_keeps(2) by simp
  from quiet_eqD(3) [OF this] free(5) show ?case by (simp add: with_heap_def)
qed simp_all

lemma current_has_context:
  assumes "kernel_ok P k" and "current_task k = i" and "unat i < OS_TASK_COUNT"
  shows "has_active_context k \<noteq> 0"
  using assms by (auto simp: kernel_ok_def mode_ok_def split: if_splits)

section \<open>Runs in which a task stands still\<close>

text \<open>
  The steps of the others are arbitrary (\<open>away\<close>). At a switch the stack pointer of the task is not above
  the address and the task has not exited (\<open>off\<close>); its own steps, which include the interrupts it is resumed
  from at once, keep its registers and words (\<open>own\<close>).
\<close>

inductive still_run :: "platform \<Rightarrow> os_task_id_t \<Rightarrow> u32 \<Rightarrow> cpu \<Rightarrow> cpu \<Rightarrow> bool" for P i p where
  stop: "still_run P i p c c"
| away: "still_run P i p c c' \<Longrightarrow> current_task (snd c') \<noteq> i \<Longrightarrow> kernel_step P c' c'' \<Longrightarrow> still_run P i p c c''"
| off: "still_run P i p c (rs, k) \<Longrightarrow> current_task k = i \<Longrightarrow> psp k \<le> p \<Longrightarrow> state (sched k i) \<noteq> OS_TASK_EXITING \<Longrightarrow>
    pendsv_set k \<Longrightarrow> stack_in_bounds k \<Longrightarrow> PendSV_Handler (rs, k\<lparr>pendsv_set := False\<rparr>) = Inr c'' \<Longrightarrow> still_run P i p c c''"
| own: "still_run P i p c (rs, k) \<Longrightarrow> current_task k = i \<Longrightarrow> kernel_step P (rs, k) (rs, k'') \<Longrightarrow> current_task k'' = i \<Longrightarrow>
    (\<And>a. stack_area P (unat i) a \<Longrightarrow> p \<le> a \<Longrightarrow> ram k'' a = ram k a) \<Longrightarrow> still_run P i p c (rs, k'')"

text \<open>The registers and words of the task: on the processor, or where the switch has saved them.\<close>

definition still_ok :: "platform \<Rightarrow> os_task_id_t \<Rightarrow> u32 \<Rightarrow> u32 list \<Rightarrow> (u32 \<Rightarrow> u32) \<Rightarrow> cpu \<Rightarrow> bool" where
  "still_ok P i p rs m c \<longleftrightarrow> kernel_ok P (snd c) \<and> state (sched (snd c) i) \<noteq> OS_TASK_DORMANT \<and>
     (\<forall>a. stack_area P (unat i) a \<and> p \<le> a \<longrightarrow> ram (snd c) a = m a) \<and>
     (if current_task (snd c) = i then fst c = rs
      else load_registers (saved_psp (tcb (snd c) i)) (ram (snd c)) = rs)"

lemma store_registers_below:
  assumes "psp_ok t p" and "p + 32 \<le> a"
  shows "store_registers p rs m a = m a"
  unfolding store_registers_def
proof (rule fold_upd_other, rule notI)
  assume "a \<in> (\<lambda>i. p + 4 * of_nat i) ` set [0..<8]"
  then obtain j where j: "j < 8" "a = p + 4 * of_nat j" by auto
  have low: "unat p + 64 < 2 ^ 32" using assms(1) unsigned_less [of "stack_high t", where ?'a = nat] by (auto simp: psp_ok_def)
  have "unat (p + 4 * of_nat j) = unat p + 4 * j" "unat (p + 32) = unat p + 32"
    using low j(1) by (simp_all add: unat_word_ariths unat_of_nat32)
  with assms(2) j show False by (simp add: word_le_nat_alt)
qed

lemma off_still:
  assumes "still_ok P i p rs m (rs', k)" and "platform_ok P" and "unat i < OS_TASK_COUNT" and "length rs = 8"
    and "current_task k = i" and "psp k \<le> p" and "state (sched k i) \<noteq> OS_TASK_EXITING"
    and "pendsv_set k" and "stack_in_bounds k" and "PendSV_Handler (rs', k\<lparr>pendsv_set := False\<rparr>) = Inr c''"
  shows "still_ok P i p rs m c''"
proof -
  obtain rs'' k'' where c'': "c'' = (rs'', k'')" by (cases c'')
  note h = assms(10) [unfolded c'']
  have ok: "kernel_ok P k" and rs': "rs' = rs" using assms(1,5) by (simp_all add: still_ok_def)
  have act: "has_active_context k \<noteq> 0" by (rule current_has_context [OF ok assms(5,3)])
  note save = switch_saves [OF ok assms(8,9) act _ h, unfolded assms(5), OF assms(7)]
  have ok'': "kernel_ok P k''" using kernel_step_keeps [OF kernel_step.switch [OF assms(8,9) h] assms(2)] ok by simp
  have psp: "psp_ok (tcb k i) (psp k - 32)" using assms(5,9) act by (simp add: stack_in_bounds_def)
  have "load_registers (psp k - 32) (ram k'') = rs" using load_store_registers [OF assms(4)] by (simp add: save(5) rs')
  moreover have "ram k'' a = m a" if "stack_area P (unat i) a" "p \<le> a" for a
    using store_registers_below [OF psp, of a rs' "ram k"] that assms(1,6) by (simp add: save(5) still_ok_def)
  moreover have "rs'' = load_registers (saved_psp (tcb k'' i)) (ram k'')" if "current_task k'' = i"
    using switch_restores(1) [OF ok assms(8,9) h] that by simp
  ultimately show ?thesis using save(1,4) ok'' by (simp add: c'' still_ok_def)
qed

lemma away_still:
  assumes "still_ok P i p rs m c" and "platform_ok P" and "unat i < OS_TASK_COUNT"
    and "current_task (snd c) \<noteq> i" and "kernel_step P c c'"
  shows "still_ok P i p rs m c'"
proof -
  have s: "kernel_ok P (snd c)" "state (sched (snd c) i) \<noteq> OS_TASK_DORMANT"
    "load_registers (saved_psp (tcb (snd c) i)) (ram (snd c)) = rs" "i \<noteq> current_task (snd c)"
    "\<And>a. stack_area P (unat i) a \<Longrightarrow> p \<le> a \<Longrightarrow> ram (snd c) a = m a"
    using assms(1,4) by (auto simp: still_ok_def)
  have ok': "kernel_ok P (snd c')" by (rule kernel_step_keeps [OF assms(5,2) s(1)])
  have alone: "left_alone P i (snd c) (snd c')" by (rule step_left_alone [OF assms(5,2) s(1) assms(3) s(4,2)])
  have slot: "slot_ok P (unat i) (sched (snd c) i) (tcb (snd c) i)" using slots_okD assms(3) s(1) by (simp add: kernel_ok_def)
  then have reg: "stack_region P (unat i) (tcb (snd c) i)" "psp_ok (tcb (snd c) i) (saved_psp (tcb (snd c) i))"
    using s(2) by (simp_all add: slot_ok_def)
  have mem: "ram (snd c') a = ram (snd c) a" if "stack_area P (unat i) a" for a using alone that by (simp add: left_alone_def)
  have "load_registers (saved_psp (tcb (snd c') i)) (ram (snd c')) = load_registers (saved_psp (tcb (snd c) i)) (ram (snd c))"
    using alone load_registers_cong [of "ram (snd c')" _ "ram (snd c)"] mem frame_in_area [OF reg]
    by (simp add: left_alone_def)
  with s(3) have load: "load_registers (saved_psp (tcb (snd c') i)) (ram (snd c')) = rs" by simp
  have "state (sched (snd c') i) \<noteq> OS_TASK_DORMANT \<and> (current_task (snd c') = i \<longrightarrow> fst c' = rs)"
  proof (cases "current_task (snd c') = i")
    case False
    have "runs_without P i c c'" using runs_without.more [OF runs_without.stop assms(5)] assms(4) False by blast
    from run_left_alone [OF this assms(2) s(1) assms(3) s(2)] False show ?thesis by simp
  next
    case True
    then have sw: "pendsv_set (snd c)" "stack_in_bounds (snd c)" "PendSV_Handler (fst c, (snd c)\<lparr>pendsv_set := False\<rparr>) = Inr c'"
      using step_current [OF assms(5,2) s(1)] assms(4) by auto
    have "fst c' = rs" using switch_restores(1) [OF s(1) sw(1,2), of "fst c" "fst c'" "snd c'"] sw(3) True load by simp
    moreover have "state (sched (snd c') i) \<noteq> OS_TASK_DORMANT"
      using current_region(3) [OF ok' current_has_context [OF ok' True assms(3)]] True by simp
    ultimately show ?thesis by simp
  qed
  with ok' load mem s(5) show ?thesis by (simp add: still_ok_def)
qed

lemma still_run_ok:
  assumes "still_run P i p c c'" and "still_ok P i p rs m c" and "platform_ok P" and "unat i < OS_TASK_COUNT" and "length rs = 8"
  shows "still_ok P i p rs m c'"
  using assms
proof (induction rule: still_run.induct)
  case (stop c)
  then show ?case by simp
next
  case (away c c' c'')
  then show ?case using away_still by blast
next
  case (off c rs' k c'')
  then show ?case using off_still by blast
next
  case (own c rs' k k'')
  then have ih: "still_ok P i p rs m (rs', k)" by simp
  have ok: "kernel_ok P k''" using kernel_step_keeps [OF own(3) own.prems(2)] ih by (simp add: still_ok_def)
  have "state (sched k'' i) \<noteq> OS_TASK_DORMANT"
    using current_region(3) [OF ok current_has_context [OF ok own(4) own.prems(3)]] own(4) by simp
  with ok ih own(2,4,5) show ?case by (auto simp: still_ok_def)
qed

lemma still_run_kernel:
  assumes "still_run P i p c c'" and "platform_ok P" and "kernel_ok P (snd c)"
  shows "kernel_ok P (snd c')"
  using assms
proof (induction rule: still_run.induct)
  case (off c rs k c'')
  obtain rs'' k'' where "c'' = (rs'', k'')" by (cases c'')
  with off show ?case using kernel_step_keeps [OF kernel_step.switch [of k rs rs'' k'']] by simp
qed (use kernel_step_keeps in fastforce)+

text \<open>What the task finds when it runs again.\<close>

lemma still_task_resumes:
  assumes "still_run P i p (rs, k) (rs', k')" and "platform_ok P" and "reachable P (rs, k)" and "length rs = 8"
    and "current_task k = i" and "unat i < OS_TASK_COUNT" and "current_task k' = i"
  shows "rs' = rs" "\<And>a. stack_area P (unat i) a \<Longrightarrow> p \<le> a \<Longrightarrow> ram k' a = ram k a"
proof -
  have ok: "kernel_ok P k" using reachable_ok [OF assms(3,2)] by simp
  have "state (sched k i) \<noteq> OS_TASK_DORMANT"
    using current_region(3) [OF ok current_has_context [OF ok assms(5,6)]] assms(5) by simp
  with ok assms(5) have "still_ok P i p rs (ram k) (rs, k)" by (simp add: still_ok_def)
  from still_run_ok [OF assms(1) this assms(2,6,4)] assms(7)
  show "rs' = rs" "\<And>a. stack_area P (unat i) a \<Longrightarrow> p \<le> a \<Longrightarrow> ram k' a = ram k a" by (simp_all add: still_ok_def)
qed

end
