(* ===== verification/Lifecycle_Claims.thy ===== *)
theory Lifecycle_Claims
  imports Lifecycle_Lab Kernel_Still App_Run
begin

text \<open>
  The properties of the lifecycle workload: a register probe reports success however its task is interrupted and
  switched, and the checks of the two tasks pass.
\<close>

section \<open>The register probes\<close>

lemma ten_elements: "length xs = 8 \<Longrightarrow> \<exists>a b c d e f g h. xs = [a, b, c, d, e, f, g, h]"
  by (auto simp: length_Suc_conv numeral_eq_Suc)

lemma pop_push_words:
  assumes "length rs = 8"
  shows "pop_words p 10 (push_words p (r3 # rs @ [lr]) m) = r3 # rs @ [lr]"
proof -
  obtain a b c d e f g h where rs: "rs = [a, b, c, d, e, f, g, h]" using ten_elements [OF assms] by blast
  have "[0..<10] = [0, 1, 2, 3, 4, 5, 6, 7, 8, 9]" by (simp add: upt_rec)
  then show ?thesis by (simp add: pop_words_def push_words_def rs)
qed

lemma push_words_other:
  assumes "a \<notin> (\<lambda>i. p + 4 * of_nat i) ` {0..<length ws}"
  shows "push_words p ws m a = m a"
  unfolding push_words_def by (rule fold_upd_other) (use assms in simp)

text \<open>There is room for the ten words of a probe.\<close>

definition probe_room :: "kernel \<Rightarrow> bool" where
  "probe_room k \<longleftrightarrow> unat (stack_low (tcb k (current_task k))) + 40 \<le> unat (psp k) \<and>
     unat (psp k) \<le> unat (stack_high (tcb k (current_task k)))"

lemma probe_words:
  assumes "probe_room k" and "j < 10"
  shows "unat (psp k - 40) = unat (psp k) - 40" "unat (psp k - 40 + 4 * of_nat j) = unat (psp k) - 40 + 4 * j"
proof -
  have small: "unat (psp k) < 2 ^ 32" "40 \<le> unat (psp k)" using assms(1) unsigned_less [of "psp k", where ?'a = nat] by (auto simp: probe_room_def)
  show p: "unat (psp k - 40) = unat (psp k) - 40" using small by (simp add: unat_sub_le)
  show "unat (psp k - 40 + 4 * of_nat j) = unat (psp k) - 40 + 4 * j"
    using small assms(2) by (simp add: unat_word_ariths p unat_of_nat32)
qed

lemma probe_area:
  assumes "probe_room k" and "j < 10" and "stack_region P (unat (current_task k)) (tcb k (current_task k))"
  shows "stack_area P (unat (current_task k)) (psp k - 40 + 4 * of_nat j)"
proof -
  have "unat (stack_low (tcb k (current_task k))) = unat (stacks_address P) + 1024 * unat (current_task k)"
    "unat (stack_high (tcb k (current_task k))) \<le> unat (stack_low (tcb k (current_task k))) + 1024"
    using assms(3) by (simp_all add: stack_region_def)
  moreover have "unat (stack_low (tcb k (current_task k))) + 40 \<le> unat (psp k)" "unat (psp k) \<le> unat (stack_high (tcb k (current_task k)))"
    using assms(1) by (simp_all add: probe_room_def)
  ultimately show ?thesis
    unfolding stack_area_def probe_words(2) [OF assms(1,2)] using assms(2) by linarith
qed

lemma prologue_words:
  assumes "probe_room k" and "length rs = 8" and "psp k \<le> a"
  shows "push_words (psp k - 40) (r3 # rs @ [lr]) m a = m a"
proof (rule push_words_other, rule notI)
  assume "a \<in> (\<lambda>i. psp k - 40 + 4 * of_nat i) ` {0..<length (r3 # rs @ [lr])}"
  then obtain j where j: "j < 10" "a = psp k - 40 + 4 * of_nat j" using assms(2) by auto
  have "40 \<le> unat (psp k)" using assms(1) by (auto simp: probe_room_def)
  then show False using probe_words(2) [OF assms(1) j(1)] j assms(3) by (simp add: word_le_nat_alt)
qed

lemma prologue_step:
  assumes "platform_ok P" and "kernel_ok P k" and "length rs = 8" and "unat (current_task k) < OS_TASK_COUNT" and "probe_room k"
  shows "kernel_step P (rs, k) (probe_prologue r3 lr (rs, k))"
proof -
  let ?i = "current_task k" and ?m = "push_words (psp k - 40) (r3 # rs @ [lr]) (ram k)"
  have act: "has_active_context k \<noteq> 0" by (rule current_has_context [OF assms(2) HOL.refl assms(4)])
  have reg: "stack_region P (unat ?i) (tcb k ?i)" by (rule current_region(2) [OF assms(2) act])
  have others: "?m a = ram k a" if "i < OS_TASK_COUNT" "i \<noteq> unat ?i" "stack_area P i a" for i a
  proof (rule push_words_other, rule notI)
    assume "a \<in> (\<lambda>i. psp k - 40 + 4 * of_nat i) ` {0..<length (r3 # rs @ [lr])}"
    then obtain j where j: "j < 10" "a = psp k - 40 + 4 * of_nat j" using assms(3) by auto
    have "stack_area P (unat ?i) a" using probe_area [OF assms(5) j(1) reg] by (simp add: j(2))
    with stack_areas_disjoint [OF that(3)] that(2) show False by blast
  qed
  have "kernel_step P (rs, k) (rs', k\<lparr>ram := ?m, psp := psp k - 40, ipsr := ipsr k\<rparr>)" for rs'
    by (rule kernel_step.task [OF act others])
  then show ?thesis by (simp add: probe_prologue_def Let_def)
qed

lemma register_probe_returns:
  assumes "platform_ok P" and "reachable P (rs, k)" and "length rs = 8" and "unat (current_task k) < OS_TASK_COUNT" and "probe_room k"
    and "still_run P (current_task k) (psp k - 40) (probe_prologue r3 lr (rs, k)) (rs', k')"
    and "current_task k' = current_task k" and "psp k' = psp k - 40"
  shows "lifecycle_yield_register_probe r3 lr (rs, k) = Inr (OS_SVC_YIELD, probe_prologue r3 lr (rs, k)) \<and>
    yield_probe_end (rs', k') = (1, lr, rs, k'\<lparr>psp := psp k\<rparr>) \<and> preempt_probe_end (rs', k') = (1, lr, rs, k'\<lparr>psp := psp k\<rparr>) \<and>
    (\<forall>a. stack_area P (unat (current_task k)) a \<and> psp k \<le> a \<longrightarrow> ram k' a = ram k a)"
proof -
  let ?i = "current_task k" and ?p = "psp k - 40"
  let ?rs1 = "[0x44, 0x55, 0x66, 0x77, 0x88, 0x99, 0xAA, 0xBB] :: u32 list"
  let ?k1 = "k\<lparr>ram := push_words ?p (r3 # rs @ [lr]) (ram k), psp := ?p\<rparr>"
  have c1: "probe_prologue r3 lr (rs, k) = (?rs1, ?k1)" by (simp add: probe_prologue_def Let_def)
  have ok: "kernel_ok P k" using reachable_ok [OF assms(2,1)] by simp
  have act: "has_active_context k \<noteq> 0" by (rule current_has_context [OF ok HOL.refl assms(4)])
  have run: "running k" "?i \<noteq> OS_TASK_ID_INVALID" using ok act assms(4) by (auto simp: kernel_ok_def mode_ok_def split: if_splits)
  have reach: "reachable P (?rs1, ?k1)"
    using reachable.step [OF assms(2) prologue_step [OF assms(1) ok assms(3-5)], of r3 lr] by (simp add: c1)
  note still = still_task_resumes [OF assms(6) [unfolded c1] assms(1) reach _ _ assms(4,7)]
  have rs': "rs' = ?rs1" by (rule still(1)) simp_all
  have words: "ram k' a = push_words ?p (r3 # rs @ [lr]) (ram k) a" if "stack_area P (unat ?i) a" "?p \<le> a" for a
    using still(2) [OF _ _ that] by simp
  have reg: "stack_region P (unat ?i) (tcb k ?i)" by (rule current_region(2) [OF ok act])
  have "pop_words ?p 10 (ram k') = pop_words ?p 10 (push_words ?p (r3 # rs @ [lr]) (ram k))"
    unfolding pop_words_def
  proof (rule map_cong [OF HOL.refl], rule words)
    fix j assume "j \<in> set [0..<10]"
    then have j: "j < 10" by simp
    show "stack_area P (unat ?i) (?p + 4 * of_nat j)" by (rule probe_area [OF assms(5) j reg])
    show "?p \<le> ?p + 4 * of_nat j" using probe_words [OF assms(5) j] by (simp add: word_le_nat_alt)
  qed
  then have "pop_words ?p 10 (ram k') = r3 # rs @ [lr]" by (simp add: pop_push_words [OF assms(3)])
  then have probe_end: "probe_epilogue (rs', k') = (1, lr, rs, k'\<lparr>psp := psp k\<rparr>)"
    using assms(3,8) by (simp add: probe_epilogue_def verify_registers_def rs' nth_append)
  have "ram k' a = ram k a" if a: "stack_area P (unat ?i) a" "psp k \<le> a" for a
  proof -
    have "?p \<le> a" using a(2) probe_words(1) [OF assms(5), of 0] by (simp add: word_le_nat_alt)
    then show ?thesis using words [OF a(1)] prologue_words [OF assms(5,3) a(2)] by simp
  qed
  with probe_end run show ?thesis
    by (simp add: yield_probe_end_def preempt_probe_end_def lifecycle_yield_register_probe_def c1 os_yield_def)
qed

text \<open>C38: The register probe succeeds. A task calls a probe, which saves the registers of its caller and fills \<open>r4\<close> to
  \<open>r11\<close>. Whatever happens then (the task yields, ticks preempt it, other tasks run, any number of times) as long as its own steps
  leave its registers and its stack from there on, when it comes to the end of the probe, with its stack pointer as the
  prologue left it, the probe finds its values and returns 1 to its caller, which has its registers, its stack pointer and its part of the
  stack back.\<close>

theorem register_probe_succeeds:
  assumes "platform_ok P" and "reachable P (rs, k)" and "length rs = 8" and "unat (current_task k) < OS_TASK_COUNT" and "probe_room k"
    and "still_run P (current_task k) (psp k - 40) (probe_prologue r3 lr (rs, k)) (rs', k')"
    and "current_task k' = current_task k" and "psp k' = psp k - 40"
  shows "lifecycle_yield_register_probe r3 lr (rs, k) = Inr (OS_SVC_YIELD, probe_prologue r3 lr (rs, k)) \<and>
    yield_probe_end (rs', k') = (1, lr, rs, k'\<lparr>psp := psp k\<rparr>) \<and> preempt_probe_end (rs', k') = (1, lr, rs, k'\<lparr>psp := psp k\<rparr>) \<and>
    (\<forall>a. stack_area P (unat (current_task k)) a \<and> psp k \<le> a \<longrightarrow> ram k' a = ram k a)"
  by (rule register_probe_returns [OF assms])

section \<open>The checks of the tasks\<close>

lemma lifecycle_startable: "e \<noteq> 0 \<Longrightarrow> startable (lifecycle_config e arg prio)"
  by (simp add: lifecycle_config_def startable_def os_task_config_default_def os_sched_config_valid_def
      os_tick_interval_valid_def Let_def word_le_nat_alt word_less_nat_alt unat_sub_le)

lemma lifecycle_lines:
  "CHR 0x00 \<notin> set (''AYMOS READY'' @ crlf)" "CHR 0x00 \<notin> set (''LIFECYCLE BEGIN'' @ crlf)"
  "CHR 0x00 \<notin> set (''LIFECYCLE START A ARG=165 PSP=1'' @ crlf)" "CHR 0x00 \<notin> set (''LIFECYCLE YIELD A_TO_B'' @ crlf)"
  "CHR 0x00 \<notin> set (''LIFECYCLE START B ARG=90 PSP=1'' @ crlf)" "CHR 0x00 \<notin> set (''LIFECYCLE YIELD B_TO_A'' @ crlf)"
  "CHR 0x00 \<notin> set (''LIFECYCLE RESUME A'' @ crlf)" "CHR 0x00 \<notin> set (''LIFECYCLE SLEEP A'' @ crlf)"
  "CHR 0x00 \<notin> set (''LIFECYCLE RESUME B'' @ crlf)" "CHR 0x00 \<notin> set (''LIFECYCLE RECLAIM A'' @ crlf)"
  "CHR 0x00 \<notin> set (''LIFECYCLE CONTINUE B'' @ crlf)" "CHR 0x00 \<notin> set (''LIFECYCLE RETURN B'' @ crlf)"
  by (simp_all add: crlf_def)

text \<open>What happens between two calls of a task leaves it on the processor of the running kernel.\<close>

definition keeps_caller :: "(nat \<Rightarrow> kernel \<Rightarrow> kernel) \<Rightarrow> bool" where
  "keeps_caller between \<longleftrightarrow> (\<forall>n k. running k \<longrightarrow> running (between n k) \<and> current_task (between n k) = current_task k)"

lemma lifecycle_main_starts:
  assumes "platform_ok P" and "sets_priority P" and "power_on k" and "ipsr k = 0"
    and "hal_works h" and hal: "hal_sends transmit wire" "hal_never_fails transmit" and "e1 \<noteq> 0" and "e2 \<noteq> 0"
  obtains k' w' where "lifecycle_main P h transmit (e1, e2) k w s = Inr (OS_SVC_START, k', w', s\<lparr>task_a_id := 1, task_b_id := 2\<rparr>)"
    "wire w' = wire (snd (board_init h w)) @ c_text (''AYMOS READY'' @ crlf) @ c_text (''LIFECYCLE BEGIN'' @ crlf)"
    "reachable P (rs, k')" "running k'" "\<not> pendsv_set k'" "has_active_context k' = 0" "ccr k' AND SCB_CCR_STKALIGN_Msk \<noteq> 0"
    "schedules k' = [idle_schedule, initial_record 1 (lifecycle_config e1 TASK_A_ARGUMENT 1), initial_record 2 (lifecycle_config e2 TASK_B_ARGUMENT 2),
       blank_schedule 3, blank_schedule 4]"
    "unentered P (lifecycle_config e1 TASK_A_ARGUMENT 1) 1 k'" "unentered P (lifecycle_config e2 TASK_B_ARGUMENT 2) 2 k'"
proof -
  obtain w1 where b: "board_init h w = (HAL_OK, w1)" using board_init_ok [OF assms(5), of w] by (cases "board_init h w") simp
  obtain w2 where w2: "write_line transmit (''AYMOS READY'' @ crlf) w1 = Inr w2" "wire w2 = wire w1 @ c_text (''AYMOS READY'' @ crlf)"
    using write_line_sends [OF hal lifecycle_lines(1)] by blast
  obtain w3 where w3: "write_line transmit (''LIFECYCLE BEGIN'' @ crlf) w2 = Inr w3" "wire w3 = wire w2 @ c_text (''LIFECYCLE BEGIN'' @ crlf)"
    using write_line_sends [OF hal lifecycle_lines(2)] by blast
  obtain k1 k2 k3 k4 where run: "os_kernel_init P k = Inr (True, k1)" "os_exception_configuration_valid k1"
    "os_task_create P (Some (lifecycle_config e1 TASK_A_ARGUMENT 1)) (Some (task_a_id s)) k1 = Inr ((True, Some 1), k2)"
    "os_task_create P (Some (lifecycle_config e2 TASK_B_ARGUMENT 2)) (Some (task_b_id s)) k2 = Inr ((True, Some 2), k3)"
    "os_kernel_start k3 = Inr (OS_SVC_START, k4)" "reachable P (rs, k4)" "running k4" "\<not> pendsv_set k4" "has_active_context k4 = 0"
    "ccr k4 AND SCB_CCR_STKALIGN_Msk \<noteq> 0"
    "schedules k4 = [idle_schedule, initial_record 1 (lifecycle_config e1 TASK_A_ARGUMENT 1), initial_record 2 (lifecycle_config e2 TASK_B_ARGUMENT 2),
       blank_schedule 3, blank_schedule 4]"
    "unentered P (lifecycle_config e1 TASK_A_ARGUMENT 1) 1 k4" "unentered P (lifecycle_config e2 TASK_B_ARGUMENT 2) 2 k4"
    by (rule pair_starts [OF assms(1-4) lifecycle_startable [OF assms(8), of TASK_A_ARGUMENT 1]
          lifecycle_startable [OF assms(9), of TASK_B_ARGUMENT 2], of "task_a_id s" "task_b_id s" rs])
  have "lifecycle_main P h transmit (e1, e2) k w s = Inr (OS_SVC_START, k4, w3, s\<lparr>task_a_id := 1, task_b_id := 2\<rparr>)"
    using b w2(1) w3(1) run(1-5) by (simp add: lifecycle_main_def require_def Let_def del: append.simps)
  then show thesis by (rule that [OF _ _ run(6-13)]) (simp add: w2(2) w3(2) b)
qed

lemma starts_pass:
  assumes hal: "hal_sends transmit wire" "hal_never_fails transmit" and "os_thread_uses_psp k"
  shows "current_task k = task_a_id s \<Longrightarrow> \<exists>w'. a_start transmit TASK_A_ARGUMENT s k w = Inr w'"
    "current_task k = task_b_id s \<Longrightarrow> \<exists>w'. b_start transmit TASK_B_ARGUMENT s k w = Inr w'"
proof -
  obtain w1 where a1: "write_line transmit (''LIFECYCLE START A ARG=165 PSP=1'' @ crlf) w = Inr w1"
    using write_line_sends [OF hal lifecycle_lines(3)] by blast
  obtain w2 where a2: "write_line transmit (''LIFECYCLE YIELD A_TO_B'' @ crlf) w1 = Inr w2"
    using write_line_sends [OF hal lifecycle_lines(4)] by blast
  show "\<exists>w'. a_start transmit TASK_A_ARGUMENT s k w = Inr w'" if "current_task k = task_a_id s"
    using a1 a2 that assms(3) by (simp add: a_start_def require_def os_current_task_def del: append.simps)
  obtain w1 where b1: "write_line transmit (''LIFECYCLE START B ARG=90 PSP=1'' @ crlf) w = Inr w1"
    using write_line_sends [OF hal lifecycle_lines(5)] by blast
  obtain w2 where b2: "write_line transmit (''LIFECYCLE YIELD B_TO_A'' @ crlf) w1 = Inr w2"
    using write_line_sends [OF hal lifecycle_lines(6)] by blast
  show "\<exists>w'. b_start transmit TASK_B_ARGUMENT s k w = Inr w'" if "current_task k = task_b_id s"
    using b1 b2 that assms(3) by (simp add: b_start_def require_def os_current_task_def del: append.simps)
qed

lemma a_resumes_passes:
  assumes hal: "hal_sends transmit wire" "hal_never_fails transmit" and "keeps_caller between"
    and "running k" and "current_task k = 1" and "task_a_id s = 1"
  shows "\<exists>w'. a_resumes transmit between 1 s k w = Inr ((OS_SVC_SLEEP, PREEMPT_SLEEP_TICKS), w')"
proof -
  let ?k1 = "between 0 k" and ?k2 = "between 1 (between 0 k)"
  have "running ?k1 \<and> current_task ?k1 = 1" "running ?k2 \<and> current_task ?k2 = 1" "running (between 2 ?k2) \<and> current_task (between 2 ?k2) = 1"
    using assms(3-5) by (simp_all add: keeps_caller_def)
  then have sleeps: "os_sleep 0 ?k1 = None" "os_sleep (OS_MAX_SLEEP_TICKS + 1) ?k2 = None"
    "os_sleep PREEMPT_SLEEP_TICKS (between 2 ?k2) = Some (OS_SVC_SLEEP, PREEMPT_SLEEP_TICKS)"
    by (simp_all add: os_sleep_def)
  obtain w1 where w1: "write_line transmit (''LIFECYCLE RESUME A'' @ crlf) w = Inr w1"
    using write_line_sends [OF hal lifecycle_lines(7)] by blast
  obtain w2 where w2: "write_line transmit (''LIFECYCLE SLEEP A'' @ crlf) w1 = Inr w2"
    using write_line_sends [OF hal lifecycle_lines(8)] by blast
  show ?thesis
    using sleeps w1 w2 assms(5,6) by (simp add: a_resumes_def require_def os_current_task_def Let_def del: append.simps)
qed

lemma b_passes:
  assumes hal: "hal_sends transmit wire" "hal_never_fails transmit" and "current_task k = 2" and "task_a_id s = 1" and "task_b_id s = 2"
  shows "\<exists>w'. b_resumes transmit 1 s k w = Inr (w', s\<lparr>task_b_waiting := True\<rparr>)"
    "reclaim_counter k = 1 \<Longrightarrow> last_reclaimed k = 1 \<Longrightarrow> \<exists>w'. b_continues transmit 1 s k w = Inr w'"
proof -
  obtain w1 where "write_line transmit (''LIFECYCLE RESUME B'' @ crlf) w = Inr w1"
    using write_line_sends [OF hal lifecycle_lines(9)] by blast
  then show "\<exists>w'. b_resumes transmit 1 s k w = Inr (w', s\<lparr>task_b_waiting := True\<rparr>)"
    using assms(3,5) by (simp add: b_resumes_def require_def os_current_task_def del: append.simps)
  assume r: "reclaim_counter k = 1" "last_reclaimed k = 1"
  obtain w1 where w1: "write_line transmit (''LIFECYCLE RECLAIM A'' @ crlf) w = Inr w1"
    using write_line_sends [OF hal lifecycle_lines(10)] by blast
  obtain w2 where w2: "write_line transmit (''LIFECYCLE CONTINUE B'' @ crlf) w1 = Inr w2"
    using write_line_sends [OF hal lifecycle_lines(11)] by blast
  obtain w3 where w3: "write_line transmit (''LIFECYCLE RETURN B'' @ crlf) w2 = Inr w3"
    using write_line_sends [OF hal lifecycle_lines(12)] by blast
  show "\<exists>w'. b_continues transmit 1 s k w = Inr w'"
    using w1 w2 w3 r assms(4) by (simp add: b_continues_def require_def os_reclaim_count_def os_last_reclaimed_task_def del: append.simps)
qed

text \<open>C39: The lifecycle workload on the kernel. From a reset \<open>main\<close> comes to a reachable state of the running kernel with
  the two tasks in their slots. In any run from there, the first dispatch of a task finds its argument in the frame, the
  trampoline calls its entry with it, and the checks at the start of the task pass. Whenever a probe of a task comes to its end,
  after any interruptions, the checks that follow it pass: those of task A up to its sleep of 50 ticks, those of
  task B up to its wait and, when A was the one task reclaimed, to its return.\<close>

theorem lifecycle_checks_pass:
  assumes "platform_ok P" and "sets_priority P" and "power_on k" and "ipsr k = 0"
    and "hal_works h" and "hal_sends transmit wire" and "hal_never_fails transmit" and "e1 \<noteq> 0" and "e2 \<noteq> 0" and "keeps_caller between"
  shows "\<exists>k0 w0 s0. lifecycle_main P h transmit (e1, e2) k w s = Inr (OS_SVC_START, k0, w0, s0) \<and> reachable P (rs, k0) \<and>
    (\<forall>i rs1 k1 rs2 k2 k3 w s. runs_without P i (rs, k0) (rs1, k1) \<and> pendsv_set k1 \<and> stack_in_bounds k1 \<and>
       PendSV_Handler (rs1, k1\<lparr>pendsv_set := False\<rparr>) = Inr (rs2, k2) \<and> current_task k2 = i \<and>
       current_task k3 = i \<and> os_thread_uses_psp k3 \<and> task_a_id s = task_a_id s0 \<and> task_b_id s = task_b_id s0 \<longrightarrow>
       (i = 1 \<longrightarrow> task_entry_trampoline (ram k2 (psp k2)) k2 = Inr e1 \<and> (\<exists>w'. a_start transmit (ram k2 (psp k2)) s k3 w = Inr w')) \<and>
       (i = 2 \<longrightarrow> task_entry_trampoline (ram k2 (psp k2)) k2 = Inr e2 \<and> (\<exists>w'. b_start transmit (ram k2 (psp k2)) s k3 w = Inr w'))) \<and>
    (\<forall>i r3 lr rs1 k1 rs2 k2 w s. reachable P (rs1, k1) \<and> length rs1 = 8 \<and> current_task k1 = i \<and> unat i < OS_TASK_COUNT \<and> probe_room k1 \<and>
       still_run P i (psp k1 - 40) (probe_prologue r3 lr (rs1, k1)) (rs2, k2) \<and> current_task k2 = i \<and> psp k2 = psp k1 - 40 \<and>
       task_a_id s = task_a_id s0 \<and> task_b_id s = task_b_id s0 \<longrightarrow>
       (i = 1 \<longrightarrow> (\<exists>w'. a_resumes transmit between (fst (yield_probe_end (rs2, k2))) s k2 w = Inr ((OS_SVC_SLEEP, PREEMPT_SLEEP_TICKS), w'))) \<and>
       (i = 2 \<longrightarrow> (\<exists>w'. b_resumes transmit (fst (yield_probe_end (rs2, k2))) s k2 w = Inr (w', s\<lparr>task_b_waiting := True\<rparr>))) \<and>
       (i = 2 \<and> reclaim_counter k2 = 1 \<and> last_reclaimed k2 = 1 \<longrightarrow>
          (\<exists>w'. b_continues transmit (fst (preempt_probe_end (rs2, k2))) s k2 w = Inr w')))"
proof -
  obtain k0 w0 where main: "lifecycle_main P h transmit (e1, e2) k w s = Inr (OS_SVC_START, k0, w0, s\<lparr>task_a_id := 1, task_b_id := 2\<rparr>)"
    "reachable P (rs, k0)" "unentered P (lifecycle_config e1 TASK_A_ARGUMENT 1) 1 k0" "unentered P (lifecycle_config e2 TASK_B_ARGUMENT 2) 2 k0"
    by (rule lifecycle_main_starts [OF assms(1-9)])
  have ok0: "kernel_ok P k0" using reachable_ok [OF main(2) assms(1)] by simp
  have first: "task_entry_trampoline (ram k2 (psp k2)) k2 = Inr (tc_entry c)" "ram k2 (psp k2) = tc_argument c"
    if run: "runs_without P i (rs, k0) (rs1, k1)" "pendsv_set k1" "stack_in_bounds k1"
      "PendSV_Handler (rs1, k1\<lparr>pendsv_set := False\<rparr>) = Inr (rs2, k2)" "current_task k2 = i"
    and i: "unentered P c i k0" "unat i < OS_TASK_COUNT" for i c rs1 k1 rs2 k2
  proof -
    have live: "state (sched k0 i) \<noteq> OS_TASK_DORMANT" using i(1) by (simp add: unentered_def)
    have k1: "kernel_ok P k1" "current_task k1 \<noteq> i" using run_left_alone [OF run(1) assms(1)] ok0 i(2) live by simp_all
    have "unentered P c i k1" using run_unentered [OF run(1) assms(1)] ok0 i by simp
    note u = unentered_dispatched [OF this assms(1) k1(1) i(2) k1(2) run(2-5)]
    show "ram k2 (psp k2) = tc_argument c" using u(1) by (simp add: first_frame_def)
    with u(3) show "task_entry_trampoline (ram k2 (psp k2)) k2 = Inr (tc_entry c)" by simp
  qed
  have config: "tc_entry (lifecycle_config e a prio) = e" "tc_argument (lifecycle_config e a prio) = a" for e a prio
    by (simp_all add: lifecycle_config_def os_task_config_default_def Let_def)
  have starts: "task_entry_trampoline (ram k2 (psp k2)) k2 = Inr e1 \<and> (\<exists>w'. a_start transmit (ram k2 (psp k2)) s k3 w = Inr w')"
    if "runs_without P 1 (rs, k0) (rs1, k1)" "pendsv_set k1" "stack_in_bounds k1" "PendSV_Handler (rs1, k1\<lparr>pendsv_set := False\<rparr>) = Inr (rs2, k2)"
      "current_task k2 = 1" "current_task k3 = 1" "os_thread_uses_psp k3" "task_a_id s = 1" for rs1 k1 rs2 k2 k3 w s
    using first [OF that(1-5) main(3)] starts_pass(1) [OF assms(6,7) that(7), of s w] that(6,8) by (simp add: config)
  have starts': "task_entry_trampoline (ram k2 (psp k2)) k2 = Inr e2 \<and> (\<exists>w'. b_start transmit (ram k2 (psp k2)) s k3 w = Inr w')"
    if "runs_without P 2 (rs, k0) (rs1, k1)" "pendsv_set k1" "stack_in_bounds k1" "PendSV_Handler (rs1, k1\<lparr>pendsv_set := False\<rparr>) = Inr (rs2, k2)"
      "current_task k2 = 2" "current_task k3 = 2" "os_thread_uses_psp k3" "task_b_id s = 2" for rs1 k1 rs2 k2 k3 w s
    using first [OF that(1-5) main(4)] starts_pass(2) [OF assms(6,7) that(7), of s w] that(6,8) by (simp add: config)
  have probes: "fst (yield_probe_end (rs2, k2)) = 1 \<and> fst (preempt_probe_end (rs2, k2)) = 1 \<and> running k2"
    if "reachable P (rs1, k1)" "length rs1 = 8" "current_task k1 = i" "unat i < OS_TASK_COUNT" "probe_room k1"
      "still_run P i (psp k1 - 40) (probe_prologue r3 lr (rs1, k1)) (rs2, k2)" "current_task k2 = i" "psp k2 = psp k1 - 40"
    for i r3 lr rs1 k1 rs2 k2
  proof -
    have ok1: "kernel_ok P k1" using reachable_ok [OF that(1) assms(1)] by simp
    have "kernel_ok P (snd (probe_prologue r3 lr (rs1, k1)))"
      by (rule kernel_step_keeps [OF prologue_step [OF assms(1) ok1 that(2)] assms(1)]) (use that(3-5) ok1 in simp_all)
    then have ok2: "kernel_ok P k2" using still_run_kernel [OF that(6) assms(1)] by simp
    have "has_active_context k2 \<noteq> 0" by (rule current_has_context [OF ok2 that(7,4)])
    then have "running k2" using ok2 by (simp add: kernel_ok_def mode_ok_def)
    moreover have "yield_probe_end (rs2, k2) = (1, lr, rs1, k2\<lparr>psp := psp k1\<rparr>) \<and> preempt_probe_end (rs2, k2) = (1, lr, rs1, k2\<lparr>psp := psp k1\<rparr>)"
      using register_probe_returns [OF assms(1) that(1,2), of r3 lr rs2 k2] that(3-8) by blast
    ultimately show ?thesis by simp
  qed
  let ?s0 = "s\<lparr>task_a_id := 1, task_b_id := 2\<rparr>"
  have entering: "(i = 1 \<longrightarrow> task_entry_trampoline (ram k2 (psp k2)) k2 = Inr e1 \<and> (\<exists>w'. a_start transmit (ram k2 (psp k2)) s k3 w = Inr w')) \<and>
      (i = 2 \<longrightarrow> task_entry_trampoline (ram k2 (psp k2)) k2 = Inr e2 \<and> (\<exists>w'. b_start transmit (ram k2 (psp k2)) s k3 w = Inr w'))"
    if h: "runs_without P i (rs, k0) (rs1, k1) \<and> pendsv_set k1 \<and> stack_in_bounds k1 \<and>
       PendSV_Handler (rs1, k1\<lparr>pendsv_set := False\<rparr>) = Inr (rs2, k2) \<and> current_task k2 = i \<and>
       current_task k3 = i \<and> os_thread_uses_psp k3 \<and> task_a_id s = task_a_id ?s0 \<and> task_b_id s = task_b_id ?s0"
    for i rs1 k1 rs2 k2 k3 w s
  proof (rule conjI; rule impI)
    show "task_entry_trampoline (ram k2 (psp k2)) k2 = Inr e1 \<and> (\<exists>w'. a_start transmit (ram k2 (psp k2)) s k3 w = Inr w')" if "i = 1"
      by (rule starts [of rs1 k1 rs2]) (use h that in simp_all)
    show "task_entry_trampoline (ram k2 (psp k2)) k2 = Inr e2 \<and> (\<exists>w'. b_start transmit (ram k2 (psp k2)) s k3 w = Inr w')" if "i = 2"
      by (rule starts' [of rs1 k1 rs2]) (use h that in simp_all)
  qed
  have resuming: "(i = 1 \<longrightarrow> (\<exists>w'. a_resumes transmit between (fst (yield_probe_end (rs2, k2))) s k2 w = Inr ((OS_SVC_SLEEP, PREEMPT_SLEEP_TICKS), w'))) \<and>
      (i = 2 \<longrightarrow> (\<exists>w'. b_resumes transmit (fst (yield_probe_end (rs2, k2))) s k2 w = Inr (w', s\<lparr>task_b_waiting := True\<rparr>))) \<and>
      (i = 2 \<and> reclaim_counter k2 = 1 \<and> last_reclaimed k2 = 1 \<longrightarrow>
         (\<exists>w'. b_continues transmit (fst (preempt_probe_end (rs2, k2))) s k2 w = Inr w'))"
    if h: "reachable P (rs1, k1) \<and> length rs1 = 8 \<and> current_task k1 = i \<and> unat i < OS_TASK_COUNT \<and> probe_room k1 \<and>
       still_run P i (psp k1 - 40) (probe_prologue r3 lr (rs1, k1)) (rs2, k2) \<and> current_task k2 = i \<and> psp k2 = psp k1 - 40 \<and>
       task_a_id s = task_a_id ?s0 \<and> task_b_id s = task_b_id ?s0"
    for i r3 lr rs1 k1 rs2 k2 w s
  proof -
    have probed: "fst (yield_probe_end (rs2, k2)) = 1" "fst (preempt_probe_end (rs2, k2)) = 1" "running k2"
      using h probes [of rs1 k1 i r3 lr rs2 k2] by simp_all
    have ids: "task_a_id s = 1" "task_b_id s = 2" "current_task k2 = i" using h by simp_all
    show ?thesis
      unfolding probed using ids a_resumes_passes [OF assms(6,7,10) probed(3), of s w] b_passes [OF assms(6,7), of k2 s w] by simp
  qed
  show ?thesis
    by (rule exI [of _ k0], rule exI [of _ w0], rule exI [of _ ?s0], rule conjI [OF main(1) conjI [OF main(2) conjI]])
      ((intro allI impI, rule entering, assumption), (intro allI impI, rule resuming, assumption))
qed

section \<open>A run of a probe\<close>

lemma only_itself:
  assumes "dispatch_choice [s0, sa, sb, blank_schedule 3, blank_schedule 4] 2 nx" and "state sa \<noteq> OS_TASK_READY" and "ready_user_job sb"
  shows "nx = 2"
proof -
  have "eligible_set [s0, sa, sb, blank_schedule 3, blank_schedule 4] OS_TASK_COUNT32 2 = {}"
  proof (rule equals0I)
    fix j assume j: "j \<in> eligible_set [s0, sa, sb, blank_schedule 3, blank_schedule 4] OS_TASK_COUNT32 2"
    from eligible_small [OF j] show False
      by (elim conjE disjE) (simp_all add: eligible_def blank_dormant assms(2))
  qed
  with assms(1,3) show ?thesis by (simp add: dispatch_choice_def)
qed

text \<open>Task 2 of the demonstration is the only one that is ready. It yields inside a probe and is dispatched again at once.\<close>

lemma yields_to_itself:
  assumes reach: "reachable demo_platform (rs, k)" and k: "current_task k = 2" "has_active_context k \<noteq> 0" "\<not> pendsv_set k" "running k"
    and ss: "schedules k = [s0, sa, sb, blank_schedule 3, blank_schedule 4]" "state sa \<noteq> OS_TASK_READY" "state sb = OS_TASK_RUNNING"
  obtains rs' k' where "still_run demo_platform 2 0x200018A0 (rs, k) (rs', k')" "current_task k' = 2" "psp k' = 0x200018A0"
proof -
  let ?m = "trap_frame 1 0 0x20001880 (ram k)"
  define k2 where "k2 = k\<lparr>ram := ?m, psp := 0x20001880, ipsr := 11\<rparr>"
  have other: "?m a = ram k a" if "i < OS_TASK_COUNT" "i \<noteq> unat (current_task k)" "stack_area demo_platform i a" for i a
    by (rule trap_frame_other) (use that in \<open>auto simp: k(1) stack_area_def demo_platform_def\<close>)
  have s2: "kernel_step demo_platform (rs, k) (rs, k2)"
    unfolding k2_def by (rule kernel_step.task [OF k(2) other])
  have up: "?m a = ram k a" if "(0x200018A0 :: u32) \<le> a" for a
    by (rule trap_frame_other) (use that in auto)
  have f2: "current_task k2 = 2" "has_active_context k2 \<noteq> 0" "\<not> pendsv_set k2" "running k2" "schedules k2 = schedules k"
    "psp k2 = 0x20001880" "ram k2 = ?m"
    using k by (simp_all add: k2_def)
  have ok2: "kernel_ok demo_platform k2" using reachable_ok [OF reachable.step [OF reach s2] demo_platform_ok] by simp
  have caller: "\<not> svc_caller_bad 0xFFFFFFFD k2" by (simp add: svc_caller_bad_def f2 sched_def ss)
  note low = region_low [OF ok2 f2(2), unfolded f2(1)]
  have "stack_low (tcb k2 2) \<le> 0x20001880" "0x200018A0 \<le> stack_high (tcb k2 2)" using low by (simp_all add: word_le_nat_alt)
  then have "valid_svc_frame demo_platform 0x20001880 0xFFFFFFFD k2"
    by (simp add: valid_svc_frame_def valid_exc_return_def f2)
  then have call: "decode_svc demo_platform 0x20001880 0xFFFFFFFD k2 = Inr 1"
    by (simp add: decode_svc_def f2 trap_frame_def, simp add: demo_platform_def)
  obtain k3' where k3': "svc_yield 0xFFFFFFFD k2 = Inr k3'" "traps_to demo_platform OS_TASK_READY k2 (request_pendsv k3')"
    using svc_yield_effect [OF ok2 caller] by blast
  define k3 where "k3 = request_pendsv k3'"
  have svc: "SVC_Handler demo_platform 0xFFFFFFFD k2 = Inr k3"
    by (simp add: SVC_Handler_def os_svc_dispatch_def f2 call k3'(1) k3_def)
  have s3: "kernel_step demo_platform (rs, k2) (rs, k3)" by (rule kernel_step.svc [OF f2(3,4) svc])
  note keep = traps_to_keeps [OF ok2 f2(2,3) k3'(2), folded k3_def, unfolded f2(1)]
  obtain s where t: "quiet k3 = quiet (trapped s 2 k2)" "slot_ok demo_platform 2 s (tcb k2 2)"
    using k3'(2) by (auto simp: traps_to_def k3_def f2(1))
  have psp3: "psp k3 = 0x20001880"
  proof -
    have "psp (quiet k3) = psp k2" unfolding t(1) by (simp add: quiet_def trapped_def)
    then show ?thesis by (simp add: quiet_def f2)
  qed
  have f3: "yield_excluded_task k3 = 2" "ram k3 = ?m" "current_task k3 = 2" "pendsv_set k3" "has_active_context k3 \<noteq> 0"
    "state (sched k3 2) = OS_TASK_READY" "kernel_ok demo_platform k3"
    using quiet_eqD(4,14) [OF t(1)] keep f2 by (simp_all add: trapped_def)
  have bounds: "stack_in_bounds k3"
    using region_low [OF f3(7,5)] by (simp add: stack_in_bounds_def psp_ok_def psp3 f3)
  have off: "current_task k3 = OS_TASK_ID_INVALID \<or> off_cpu (sched k3 (current_task k3))" by (simp add: f3 off_cpu_def)
  obtain rs4 k4 nx where sw: "PendSV_Handler (rs, k3\<lparr>pendsv_set := False\<rparr>) = Inr (rs4, k4)" "kernel_ok demo_platform k4"
    "dispatch_choice (schedules k3) (yield_excluded_task k3) nx" "current_task k4 = nx" "has_active_context k4 = 1"
    by (rule switch_off_cpu [OF f3(7,4) bounds off, of rs])
  have list3: "schedules k3 = [s0, sa, sched k3 2, blank_schedule 3, blank_schedule 4]"
  proof -
    have "length (schedules k3) = OS_TASK_COUNT" using f3(7) by (simp add: kernel_ok_def slots_ok_def)
    then obtain a b c d e where l: "schedules k3 = [a, b, c, d, e]" using five_elements by blast
    have others: "schedules k3 ! i = schedules k ! i" if "i \<noteq> 2" for i using keep(6) that f2(5) by simp
    show ?thesis using others [of 0] others [of 1] others [of 3] others [of 4] by (simp add: l ss(1) sched_def)
  qed
  have nx: "nx = 2"
  proof -
    have slot: "slot_ok demo_platform 2 (sched k3 2) (tcb k3 2)" using f3(7) slots_okD [of demo_platform k3 2] by (simp add: kernel_ok_def)
    then have "ready_user_job (sched k3 2)" using f3(6) by (simp add: slot_ok_def ready_user_job_def)
    with only_itself [of s0 sa "sched k3 2" nx] show ?thesis using sw(3) ss(2) unfolding list3 f3(1) by blast
  qed
  have "still_run demo_platform 2 0x200018A0 (rs, k) (rs, k2)"
    by (rule still_run.own [OF still_run.stop k(1) s2 f2(1)]) (simp add: f2 up)
  then have "still_run demo_platform 2 0x200018A0 (rs, k) (rs, k3)"
    by (rule still_run.own [OF _ f2(1) s3 f3(3)]) (simp add: f2 f3)
  then have run4: "still_run demo_platform 2 0x200018A0 (rs, k) (rs4, k4)"
    by (rule still_run.off [OF _ f3(3) _ _ f3(4) bounds sw(1)]) (simp_all add: psp3 f3)
  define k5 where "k5 = k4\<lparr>psp := 0x200018A0, ipsr := 0\<rparr>"
  have act: "has_active_context k4 \<noteq> 0" using sw(5) by simp
  have s5: "kernel_step demo_platform (rs4, k4) (rs4, k5)"
    using kernel_step.task [OF act, of demo_platform "ram k4" rs4 rs4 0 "0x200018A0"] by (simp add: k5_def)
  have "still_run demo_platform 2 0x200018A0 (rs, k) (rs4, k5)"
    by (rule still_run.own [OF run4 _ s5]) (simp_all add: k5_def sw(4) nx)
  then show thesis by (rule that) (simp_all add: k5_def sw(4) nx)
qed

definition demo_delayed :: os_task_config where
  "demo_delayed = (let c = lifecycle_config 0x08004001 0 1 in c\<lparr>tc_timing := (tc_timing c)\<lparr>cfg_initial_release_delay_ticks := 5\<rparr>\<rparr>)"

lemma demo_delayed: "startable demo_delayed"
  by (simp add: demo_delayed_def lifecycle_config_def startable_def os_task_config_default_def os_sched_config_valid_def
      os_tick_interval_valid_def Let_def word_le_nat_alt word_less_nat_alt unat_sub_le)

lemmas record_defs = initial_record_def lifecycle_config_def os_task_config_default_def step_unfold os_sched_task_reset_def
  os_sched_task_zero_def os_sched_config_valid_def os_tick_interval_valid_def blank_schedule_def Let_def

theorem register_probe_succeeds_witness:
  "\<exists>rs k rs' k'. still_run demo_platform 2 0x200018A0 (probe_prologue 3 0x08001234 (rs, k)) (rs', k') \<and> psp k = 0x200018C8 \<and>
     yield_probe_end (rs', k') = (1, 0x08001234, rs, k'\<lparr>psp := 0x200018C8\<rparr>)"
proof -
  let ?ca = "demo_delayed" and ?cb = "lifecycle_config 0x08005001 TASK_B_ARGUMENT 2"
  have cb: "startable ?cb" by (rule lifecycle_startable) simp
  obtain k0 where k0: "reachable demo_platform (demo_regs, k0)" "running k0" "\<not> pendsv_set k0" "has_active_context k0 = 0"
    "schedules k0 = [idle_schedule, initial_record 1 ?ca, initial_record 2 ?cb, blank_schedule 3, blank_schedule 4]"
    by (rule pair_starts [OF demo_platform_ok demo_priorities zero_power_on zero_thread demo_delayed cb, of 0 0 demo_regs])
  have a: "state (initial_record 1 ?ca) = OS_TASK_WAITING_RELEASE" by (simp add: demo_delayed_def record_defs)
  have b: "task_id (initial_record 2 ?cb) = 2" "state (initial_record 2 ?cb) = OS_TASK_READY" "job_active (initial_record 2 ?cb)"
    by (simp_all add: record_defs)
  have choice: "nx = 2" if "dispatch_choice (schedules k0) OS_TASK_ID_INVALID nx" for nx
    by (rule second_alone [OF that [unfolded k0(5)] _ b]) (use a in simp)
  obtain rs3 k3 where run: "reachable demo_platform (rs3, k3)" "kernel_ok demo_platform k3" "length rs3 = 8"
    "schedules k3 = (schedules k0)[unat (2 :: os_task_id_t) := (sched k0 2)\<lparr>state := OS_TASK_RUNNING\<rparr>]" "current_task k3 = 2"
    "has_active_context k3 = 1" "running k3" "\<not> pendsv_set k3"
    by (rule demo_first_task [OF k0(1-4) choice]) simp_all
  define k where "k = k3\<lparr>psp := 0x200018C8, ipsr := 0\<rparr>"
  have act: "has_active_context k3 \<noteq> 0" by (simp add: run(6))
  have "kernel_step demo_platform (rs3, k3) (rs3, k)"
    using kernel_step.task [OF act, of demo_platform "ram k3" rs3 rs3 0 "0x200018C8"] by (simp add: k_def)
  note reach = reachable.step [OF run(1) this]
  have f: "current_task k = 2" "psp k = 0x200018C8" "unat (current_task k) < OS_TASK_COUNT" "schedules k = schedules k3" "tcb k = tcb k3"
    by (simp_all add: k_def run(5) tcb_def fun_eq_iff)
  have room: "probe_room k" using region_low [OF run(2) act] by (simp add: probe_room_def f run(5))
  have ok: "kernel_ok demo_platform k" using reachable_ok [OF reach demo_platform_ok] by simp
  let ?c1 = "probe_prologue 3 0x08001234 (rs3, k)"
  have reach1: "reachable demo_platform ?c1"
    by (rule reachable.step [OF reach prologue_step [OF demo_platform_ok ok run(3) f(3) room]])
  obtain rs1 k1 where c1: "?c1 = (rs1, k1)" by (cases ?c1)
  then have k1: "current_task k1 = 2" "has_active_context k1 \<noteq> 0" "\<not> pendsv_set k1" "running k1"
    "schedules k1 = [idle_schedule, initial_record 1 ?ca, (sched k0 2)\<lparr>state := OS_TASK_RUNNING\<rparr>, blank_schedule 3, blank_schedule 4]"
    by (auto simp: probe_prologue_def Let_def k_def run k0(5))
  obtain rs' k' where still: "still_run demo_platform 2 0x200018A0 (rs1, k1) (rs', k')" "current_task k' = 2" "psp k' = 0x200018A0"
    by (rule yields_to_itself [OF reach1 [unfolded c1] k1]) (use a in simp_all)
  have "yield_probe_end (rs', k') = (1, 0x08001234, rs3, k'\<lparr>psp := psp k\<rparr>)"
    using register_probe_succeeds [OF demo_platform_ok reach run(3) f(3) room, of 3 "0x08001234" rs' k'] still by (simp add: c1 f(1,2))
  with still(1) show ?thesis unfolding c1 [symmetric] f(2) using f(2) by blast
qed

theorem lifecycle_checks_pass_witness:
  "\<exists>k0 w0 s0 rs1 k1 rs2 k2 k3 w. lifecycle_main demo_platform demo_hal list_uart (0x08004001, 0x08005001) zero_kernel []
       \<lparr>task_a_id = 0, task_b_id = 0, task_b_waiting = False\<rparr> = Inr (OS_SVC_START, k0, w0, s0) \<and>
     runs_without demo_platform 1 (demo_regs, k0) (rs1, k1) \<and> PendSV_Handler (rs1, k1\<lparr>pendsv_set := False\<rparr>) = Inr (rs2, k2) \<and>
     task_entry_trampoline (ram k2 (psp k2)) k2 = Inr 0x08004001 \<and> a_start list_uart (ram k2 (psp k2)) s0 k3 [] = Inr w"
proof -
  let ?s = "\<lparr>task_a_id = 0, task_b_id = 0, task_b_waiting = False\<rparr>"
  let ?ca = "lifecycle_config 0x08004001 TASK_A_ARGUMENT 1" and ?cb = "lifecycle_config 0x08005001 TASK_B_ARGUMENT 2"
  have entries: "(0x08004001 :: u32) \<noteq> 0" "(0x08005001 :: u32) \<noteq> 0" by simp_all
  have quietly: "keeps_caller (\<lambda>_ k. k)" by (simp add: keeps_caller_def)
  note app = demo_platform_ok demo_priorities zero_power_on zero_thread demo_hal_works list_uart_hal entries
  obtain k0 w0 where k0: "lifecycle_main demo_platform demo_hal list_uart (0x08004001, 0x08005001) zero_kernel [] ?s =
      Inr (OS_SVC_START, k0, w0, ?s\<lparr>task_a_id := 1, task_b_id := 2\<rparr>)"
    "reachable demo_platform (demo_regs, k0)" "running k0" "\<not> pendsv_set k0" "has_active_context k0 = 0" "ccr k0 AND SCB_CCR_STKALIGN_Msk \<noteq> 0"
    "schedules k0 = [idle_schedule, initial_record 1 ?ca, initial_record 2 ?cb, blank_schedule 3, blank_schedule 4]"
    by (rule lifecycle_main_starts [OF app, of "[]" ?s demo_regs])
  have a: "task_id (initial_record 1 ?ca) = 1" "state (initial_record 1 ?ca) = OS_TASK_READY" "job_active (initial_record 1 ?ca)"
    "edf_key_of (initial_record 1 ?ca) < edf_key_of (initial_record 2 ?cb)"
    by (simp_all add: record_defs edf_key_of_def less_edf_key_def)
  have choice: "nx = 1" if "dispatch_choice (schedules k0) OS_TASK_ID_INVALID nx" for nx
    by (rule first_of_two [OF that [unfolded k0(7)] a])
  obtain k1 rs2 k2 where run: "runs_without demo_platform 1 (demo_regs, k0) (demo_regs, k1)" "pendsv_set k1" "stack_in_bounds k1"
    "PendSV_Handler (demo_regs, k1\<lparr>pendsv_set := False\<rparr>) = Inr (rs2, k2)" "kernel_ok demo_platform k2" "current_task k2 = 1"
    "has_active_context k2 = 1" "control k2 = CONTROL_SPSEL_Msk" "ccr k2 = ccr k0"
    by (rule demo_first_task [OF k0(2-5) choice]) simp_all
  define p :: u32 where "p = (if msp k2 = 0x20001480 then 0x20001488 else 0x20001480)"
  have p: "p AND 7 = 0" "0x20001000 + 1024 * unat (1 :: os_task_id_t) \<le> unat p" "unat p \<le> 0x20001100 + 1024 * unat (1 :: os_task_id_t)" "msp k2 \<noteq> p"
    by (auto simp: p_def)
  have align: "ccr k2 AND SCB_CCR_STKALIGN_Msk \<noteq> 0" by (simp add: run(9) k0(6))
  let ?k3 = "k2\<lparr>psp := p, ipsr := 0\<rparr>"
  have thread: "os_thread_uses_psp ?k3" "current_task ?k3 = 1" using demo_thread(2) [OF run(5,7,6,8) align p] run(6) by simp_all
  obtain k0' w0' s0' where main: "lifecycle_main demo_platform demo_hal list_uart (0x08004001, 0x08005001) zero_kernel [] ?s = Inr (OS_SVC_START, k0', w0', s0')"
    and entering: "\<forall>i rs1 k1 rs2 k2 k3 w s. runs_without demo_platform i (demo_regs, k0') (rs1, k1) \<and> pendsv_set k1 \<and> stack_in_bounds k1 \<and>
       PendSV_Handler (rs1, k1\<lparr>pendsv_set := False\<rparr>) = Inr (rs2, k2) \<and> current_task k2 = i \<and>
       current_task k3 = i \<and> os_thread_uses_psp k3 \<and> task_a_id s = task_a_id s0' \<and> task_b_id s = task_b_id s0' \<longrightarrow>
       (i = 1 \<longrightarrow> task_entry_trampoline (ram k2 (psp k2)) k2 = Inr 0x08004001 \<and> (\<exists>w'. a_start list_uart (ram k2 (psp k2)) s k3 w = Inr w')) \<and>
       (i = 2 \<longrightarrow> task_entry_trampoline (ram k2 (psp k2)) k2 = Inr 0x08005001 \<and> (\<exists>w'. b_start list_uart (ram k2 (psp k2)) s k3 w = Inr w'))"
    using lifecycle_checks_pass [OF app quietly, of "[]" ?s demo_regs] by (elim exE conjE) (rule that)
  have same: "k0' = k0" "s0' = ?s\<lparr>task_a_id := 1, task_b_id := 2\<rparr>" using main k0(1) by simp_all
  have "task_entry_trampoline (ram k2 (psp k2)) k2 = Inr 0x08004001 \<and> (\<exists>w'. a_start list_uart (ram k2 (psp k2)) s0' ?k3 [] = Inr w')"
    using entering [rule_format, of 1 demo_regs k1 rs2 k2 ?k3 s0' "[]"] run(1-4,6) thread same(1) by blast
  with main run(1,4) same(1) show ?thesis by blast
qed

end
