(* ===== verification/Trace_Lab.thy ===== *)
theory Trace_Lab
  imports Signal_Main
begin

text \<open>
  The trace workload: \<open>apps/trace/main.c\<close>, five tasks that exercise every event of the trace. Task A is modelled
  in pieces, from one call of the kernel that may switch to the next; what happens to the kernel while a task is
  interrupted before a call number \<open>n\<close> of a piece is the function \<open>between n\<close>.
\<close>

section \<open>The state and the start\<close>

abbreviation A_DEADLINE :: u32 where "A_DEADLINE \<equiv> 15"
abbreviation B_RELEASE_DELAY :: u32 where "B_RELEASE_DELAY \<equiv> 1"
abbreviation B_DEADLINE :: u32 where "B_DEADLINE \<equiv> 3"
abbreviation B_SLEEP_TICKS :: u32 where "B_SLEEP_TICKS \<equiv> 2"
abbreviation C_DEADLINE :: u32 where "C_DEADLINE \<equiv> 200"
abbreviation D_DEADLINE :: u32 where "D_DEADLINE \<equiv> 5"
abbreviation E_RELEASE_DELAY :: u32 where "E_RELEASE_DELAY \<equiv> 3"
abbreviation E_DEADLINE :: u32 where "E_DEADLINE \<equiv> 20"
abbreviation A_SLEEP_TICKS :: u32 where "A_SLEEP_TICKS \<equiv> 7"

record trace_lab =
  id_a :: os_task_id_t
  id_b :: os_task_id_t
  id_c :: os_task_id_t
  id_d :: os_task_id_t
  id_e :: os_task_id_t
  finished_a :: bool
  finished_b :: bool
  finished_c :: bool
  finished_d :: bool
  finished_e :: bool
  flushed :: bool

definition trace_config :: "u32 \<Rightarrow> u32 \<Rightarrow> os_task_config" where
  "trace_config entry_address deadline = (let c = os_task_config_default entry_address 0
     in c\<lparr>tc_timing := (tc_timing c)\<lparr>cfg_relative_deadline_ticks := deadline\<rparr>\<rparr>)"

definition trace_delayed_config :: "u32 \<Rightarrow> u32 \<Rightarrow> u32 \<Rightarrow> os_task_config" where
  "trace_delayed_config entry_address delay deadline = (let c = os_task_config_default entry_address 0
     in c\<lparr>tc_timing := (tc_timing c)\<lparr>cfg_initial_release_delay_ticks := delay, cfg_relative_deadline_ticks := deadline\<rparr>\<rparr>)"

definition trace_main ::
  "platform \<Rightarrow> 'w hal \<Rightarrow> (u8 list \<Rightarrow> 'w \<Rightarrow> hal_status \<times> 'w) \<Rightarrow> u32 \<times> u32 \<times> u32 \<Rightarrow> kernel \<Rightarrow> 'w \<Rightarrow> trace_lab \<Rightarrow>
   (u8 \<times> kernel \<times> 'w \<times> trace_lab) outcome" where
  "trace_main P h transmit entries k w s =
     (let (task_a, task_b, task_c) = entries; (status, w1) = board_init h w
      in on_ok (require (status = HAL_OK) ''BOARD_INIT'') (\<lambda>_.
         on_ok (write_line transmit (''AYMOS READY'' @ crlf) w1) (\<lambda>w2.
         on_ok (write_line transmit (''TRACE BEGIN'' @ crlf) w2) (\<lambda>w3.
         on_ok (os_kernel_init P k) (\<lambda>(ok, k1).
         on_ok (require ok ''KERNEL_INIT'') (\<lambda>_.
         on_ok (require (os_exception_configuration_valid k1) ''EXCEPTION_CONFIG'') (\<lambda>_.
         on_ok (os_task_create P (Some (trace_config task_a A_DEADLINE)) (Some (id_a s)) k1) (\<lambda>((ok1, i1), k2).
         on_ok (require (ok1 \<and> i1 = Some 1) ''CREATE_A'') (\<lambda>_.
         on_ok (os_task_create P (Some (trace_delayed_config task_b B_RELEASE_DELAY B_DEADLINE)) (Some (id_b s)) k2) (\<lambda>((ok2, i2), k3).
         on_ok (require (ok2 \<and> i2 = Some 2) ''CREATE_B'') (\<lambda>_.
         on_ok (os_task_create P (Some (trace_config task_c C_DEADLINE)) (Some (id_c s)) k3) (\<lambda>((ok3, i3), k4).
         on_ok (require (ok3 \<and> i3 = Some 3) ''CREATE_C'') (\<lambda>_.
         on_ok (os_kernel_start k4) (\<lambda>(service, k5).
           Inr (service, k5, w3, s\<lparr>id_a := the i1, id_b := the i2, id_c := the i3\<rparr>)))))))))))))))"

definition trace_idle_hook ::
  "(u8 list \<Rightarrow> 'w \<Rightarrow> hal_status \<times> 'w) \<Rightarrow> kernel \<Rightarrow> 'w \<Rightarrow> trace_lab \<Rightarrow> (trace_lab \<times> kernel \<times> 'w) outcome" where
  "trace_idle_hook transmit k w s =
     (if \<not> finished_a s \<or> flushed s then Inr (s, k, w)
      else
        on_ok (require (os_thread_uses_psp k) ''IDLE_PSP'') (\<lambda>_.
        on_ok (os_tick_count k) (\<lambda>(now, k1).
        on_ok (require (finished_b s \<and> finished_c s \<and> finished_d s \<and> finished_e s \<and> now = A_DEADLINE \<and>
            os_reclaim_count k1 = 5 \<and> os_last_reclaimed_task k1 = id_a s) ''TRACE_COMPLETE'') (\<lambda>_.
        let s1 = s\<lparr>flushed := True\<rparr>; (res, k2, w1) = finish_trace transmit k1 w
        in on_ok (require (res = 1) ''TRACE_FLUSH'') (\<lambda>_.
           on_ok (write_line transmit (''AYMOS TRACE DONE'' @ crlf) w1) (\<lambda>w2. Inr (s1, k2, w2)))))))"

section \<open>Task A\<close>

text \<open>It obtains a block and frees it.\<close>

definition a_memory :: "platform \<Rightarrow> (nat \<Rightarrow> kernel \<Rightarrow> kernel) \<Rightarrow> u32 \<Rightarrow> trace_lab \<Rightarrow> kernel \<Rightarrow> kernel outcome" where
  "a_memory P between arg s k =
     on_ok (require (arg = 0 \<and> os_current_task k = id_a s) ''TASK_A_START'') (\<lambda>_.
     on_ok (os_memory_alloc P 24 (between 0 k)) (\<lambda>(memory, k1).
     on_ok (require (memory \<noteq> 0 \<and> memory AND 7 = 0) ''TASK_A_ALLOC'') (\<lambda>_.
     on_ok (os_memory_free P memory (between 1 k1)) (\<lambda>(freed, k2).
     on_ok (require freed ''TASK_A_FREE'') (\<lambda>_. Inr k2)))))"

text \<open>With interrupts masked it creates task D and waits until a tick is pending; then it enables interrupts.\<close>

definition a_creates_d :: "platform \<Rightarrow> u32 \<Rightarrow> trace_lab \<Rightarrow> kernel \<Rightarrow> (kernel \<times> trace_lab) outcome" where
  "a_creates_d P task_d s k = (let s1 = s\<lparr>id_d := OS_TASK_ID_INVALID\<rparr>; k1 = k\<lparr>primask := 1\<rparr>
     in on_ok (os_task_create P (Some (trace_config task_d D_DEADLINE)) (Some (id_d s1)) k1) (\<lambda>((ok, i), k2).
        on_ok (require (ok \<and> i = Some 4) ''CREATE_D'') (\<lambda>_.
        on_ok (require (primask k2 = 1) ''CREATE_D_PRIMASK'') (\<lambda>_. Inr (k2, s1\<lparr>id_d := the i\<rparr>)))))"

abbreviation SCB_ICSR_PENDSTSET_Msk :: u32 where "SCB_ICSR_PENDSTSET_Msk \<equiv> 0x04000000"

definition a_waits_for_tick :: "u32 \<Rightarrow> bool" where
  "a_waits_for_tick icsr \<longleftrightarrow> icsr AND SCB_ICSR_PENDSTSET_Msk = 0"

definition a_enables :: "kernel \<Rightarrow> kernel" where
  "a_enables k = k\<lparr>primask := 0\<rparr>"

text \<open>After the tick and the switches that were pending it creates task E and yields; the result is the service.\<close>

definition a_creates_e ::
  "platform \<Rightarrow> (nat \<Rightarrow> kernel \<Rightarrow> kernel) \<Rightarrow> u32 \<Rightarrow> trace_lab \<Rightarrow> kernel \<Rightarrow> (u8 \<times> kernel \<times> trace_lab) outcome" where
  "a_creates_e P between task_e s k =
     on_ok (os_tick_count k) (\<lambda>(now, k1).
     on_ok (require (primask k = 0 \<and> now = B_RELEASE_DELAY \<and> \<not> finished_b s \<and> finished_d s \<and>
         os_reclaim_count k1 = 1 \<and> os_last_reclaimed_task k1 = id_d s) ''COALESCED_PREEMPT'') (\<lambda>_.
     let s1 = s\<lparr>id_e := OS_TASK_ID_INVALID\<rparr>
     in on_ok (os_task_create P (Some (trace_delayed_config task_e E_RELEASE_DELAY E_DEADLINE)) (Some (id_e s1)) (between 0 k1)) (\<lambda>((ok, i), k2).
        on_ok (require (ok \<and> i = Some (id_d s)) ''CREATE_E_REUSE'') (\<lambda>_.
        on_ok (os_yield (between 1 k2)) (\<lambda>service. Inr (service, k2, s1\<lparr>id_e := the i\<rparr>))))))"

definition a_sleeps :: "(nat \<Rightarrow> kernel \<Rightarrow> kernel) \<Rightarrow> trace_lab \<Rightarrow> kernel \<Rightarrow> (u8 \<times> u32) outcome" where
  "a_sleeps between s k =
     on_ok (require (os_current_task k = id_a s \<and> finished_c s \<and> os_reclaim_count k = 2 \<and>
         os_last_reclaimed_task k = id_c s) ''TASK_A_RESUME'') (\<lambda>_.
     let service = os_sleep A_SLEEP_TICKS (between 0 k)
     in on_ok (require (service \<noteq> None) ''TASK_A_SLEEP'') (\<lambda>_. Inr (the service)))"

definition a_wakes_up :: "trace_lab \<Rightarrow> kernel \<Rightarrow> unit outcome" where
  "a_wakes_up s k = require (finished_b s \<and> finished_e s \<and> os_current_task k = id_a s \<and> os_reclaim_count k = 4 \<and>
     os_last_reclaimed_task k = id_e s) ''TASK_A_WAKE''"

text \<open>One test of the loop that waits for the deadline, and the end.\<close>

definition a_waits_for_deadline :: "kernel \<Rightarrow> (bool \<times> kernel) outcome" where
  "a_waits_for_deadline k = on_ok (os_tick_count k) (\<lambda>(now, k1). Inr (now < A_DEADLINE, k1))"

definition a_ends :: "trace_lab \<Rightarrow> trace_lab" where
  "a_ends s = s\<lparr>finished_a := True\<rparr>"

section \<open>The other tasks\<close>

definition b_sleeps :: "(nat \<Rightarrow> kernel \<Rightarrow> kernel) \<Rightarrow> u32 \<Rightarrow> trace_lab \<Rightarrow> kernel \<Rightarrow> (u8 \<times> u32) outcome" where
  "b_sleeps between arg s k =
     on_ok (require (arg = 0 \<and> os_current_task k = id_b s) ''TASK_B_START'') (\<lambda>_.
     let service = os_sleep B_SLEEP_TICKS (between 0 k)
     in on_ok (require (service \<noteq> None) ''TASK_B_SLEEP'') (\<lambda>_. Inr (the service)))"

definition b_ends :: "trace_lab \<Rightarrow> kernel \<Rightarrow> trace_lab outcome" where
  "b_ends s k = on_ok (require (os_current_task k = id_b s) ''TASK_B_WAKE'') (\<lambda>_. Inr (s\<lparr>finished_b := True\<rparr>))"

definition trace_task_c :: "u32 \<Rightarrow> trace_lab \<Rightarrow> kernel \<Rightarrow> trace_lab outcome" where
  "trace_task_c arg s k =
     on_ok (require (arg = 0 \<and> os_current_task k = id_c s) ''TASK_C_START'') (\<lambda>_. Inr (s\<lparr>finished_c := True\<rparr>))"

definition trace_task_d :: "u32 \<Rightarrow> trace_lab \<Rightarrow> kernel \<Rightarrow> trace_lab outcome" where
  "trace_task_d arg s k =
     on_ok (require (arg = 0 \<and> os_current_task k = id_d s) ''TASK_D_START'') (\<lambda>_. Inr (s\<lparr>finished_d := True\<rparr>))"

definition trace_task_e :: "u32 \<Rightarrow> trace_lab \<Rightarrow> kernel \<Rightarrow> trace_lab outcome" where
  "trace_task_e arg s k =
     on_ok (require (arg = 0 \<and> os_current_task k = id_e s) ''TASK_E_START'') (\<lambda>_. Inr (s\<lparr>finished_e := True\<rparr>))"

end
