(* ===== verification/Trace_Claims.thy ===== *)
theory Trace_Claims
  imports Trace_Lab Heap_Lab_Claims App_Run
begin

text \<open>The property of the trace workload: its start, and the first part of its task A.\<close>

section \<open>The start\<close>

lemma trace_startable:
  "e \<noteq> 0 \<Longrightarrow> deadline \<in> {5, 15, 200} \<Longrightarrow> startable (trace_config e deadline)"
  "e \<noteq> 0 \<Longrightarrow> startable (trace_delayed_config e B_RELEASE_DELAY B_DEADLINE)"
  by (auto simp: trace_config_def trace_delayed_config_def startable_def os_task_config_default_def os_sched_config_valid_def
      os_tick_interval_valid_def Let_def word_le_nat_alt word_less_nat_alt unat_sub_le)

lemma trace_lines: "CHR 0x00 \<notin> set (''AYMOS READY'' @ crlf)" "CHR 0x00 \<notin> set (''TRACE BEGIN'' @ crlf)" "CHR 0x00 \<notin> set (''AYMOS TRACE DONE'' @ crlf)"
  by (simp_all add: crlf_def)

lemma trace_main_starts:
  assumes "platform_ok P" and "sets_priority P" and "power_on k" and "ipsr k = 0"
    and "hal_works h" and hal: "hal_sends transmit wire" "hal_never_fails transmit" and entries: "ea \<noteq> 0" "eb \<noteq> 0" "ec \<noteq> 0"
    and region: "(unat (heap_start_symbol P) + 7) div 8 * 8 + 4096 \<le> unat (heap_end_symbol P) div 8 * 8"
  obtains k' w' where "trace_main P h transmit (ea, eb, ec) k w s = Inr (OS_SVC_START, k', w', s\<lparr>id_a := 1, id_b := 2, id_c := 3\<rparr>)"
    "wire w' = wire (snd (board_init h w)) @ c_text (''AYMOS READY'' @ crlf) @ c_text (''TRACE BEGIN'' @ crlf)"
    "reachable P (rs, k')" "running k'" "\<not> pendsv_set k'" "has_active_context k' = 0" "ccr k' AND SCB_CCR_STKALIGN_Msk \<noteq> 0"
    "fresh_heap (heap_of k')" "monotonic_ticks k' = 0"
    "schedules k' = [idle_schedule, initial_record 1 (trace_config ea A_DEADLINE),
       initial_record 2 (trace_delayed_config eb B_RELEASE_DELAY B_DEADLINE), initial_record 3 (trace_config ec C_DEADLINE), blank_schedule 4]"
proof -
  let ?ca = "trace_config ea A_DEADLINE" and ?cb = "trace_delayed_config eb B_RELEASE_DELAY B_DEADLINE" and ?cc = "trace_config ec C_DEADLINE"
  have cs: "startable ?ca" "startable ?cb" "startable ?cc" using entries trace_startable by simp_all
  obtain w1 where b: "board_init h w = (HAL_OK, w1)" using board_init_ok [OF assms(5), of w] by (cases "board_init h w") simp
  obtain w2 where w2: "write_line transmit (''AYMOS READY'' @ crlf) w1 = Inr w2" "wire w2 = wire w1 @ c_text (''AYMOS READY'' @ crlf)"
    using write_line_sends [OF hal trace_lines(1)] by blast
  obtain w3 where w3: "write_line transmit (''TRACE BEGIN'' @ crlf) w2 = Inr w3" "wire w3 = wire w2 @ c_text (''TRACE BEGIN'' @ crlf)"
    using write_line_sends [OF hal trace_lines(2)] by blast
  obtain k1 where k1: "os_kernel_init P k = Inr (True, k1)" "before_start P rs [idle_schedule] k1" "os_exception_configuration_valid k1"
    "heap_ok (memory_allocator k1) (memory_blocks k1)" "live_blocks (memory_allocator k1) (memory_blocks k1) = []"
    "region_heap P (memory_allocator k1) (memory_blocks k1)"
    using booted_ready [OF assms(1,3,4,2)] by blast
  have fresh: "fresh_heap (heap_of k1)" by (rule region_fresh [OF k1(4-6) region])
  obtain k2 where k2: "os_task_create P (Some ?ca) (Some (id_a s)) k1 = Inr ((True, Some 1), k2)"
    "before_start P rs [idle_schedule, initial_record 1 ?ca] k2" "ccr k2 = ccr k1" "heap_of k2 = heap_of k1"
    using create_one [OF assms(1) k1(2) cs(1), of "id_a s"] by (auto simp: heap_of_def)
  obtain k3 where k3: "os_task_create P (Some ?cb) (Some (id_b s)) k2 = Inr ((True, Some 2), k3)"
    "before_start P rs [idle_schedule, initial_record 1 ?ca, initial_record 2 ?cb] k3" "ccr k3 = ccr k2" "heap_of k3 = heap_of k2"
    using create_one [OF assms(1) k2(2) cs(2), of "id_b s"] by (auto simp: numeral_2_eq_2 heap_of_def)
  obtain k4 where k4: "os_task_create P (Some ?cc) (Some (id_c s)) k3 = Inr ((True, Some 3), k4)"
    "before_start P rs [idle_schedule, initial_record 1 ?ca, initial_record 2 ?cb, initial_record 3 ?cc] k4" "ccr k4 = ccr k3" "heap_of k4 = heap_of k3"
    using create_one [OF assms(1) k3(2) cs(3), of "id_c s"] by (auto simp: numeral_3_eq_3 heap_of_def)
  note facts = k4(2) [unfolded before_start_def]
  obtain k5 where k5: "os_kernel_start k4 = Inr (OS_SVC_START, k5)" using facts by (simp add: os_kernel_start_def kernel_ok_def)
  have ok4: "kernel_ok P k4" using facts by simp
  note q = quiet_eqD [OF start_keeps(2) [OF ok4 k5]]
  have off: "has_active_context k4 = 0" using facts by (auto simp: kernel_ok_def mode_ok_def split: if_splits)
  have main: "trace_main P h transmit (ea, eb, ec) k w s = Inr (OS_SVC_START, k5, w3, s\<lparr>id_a := 1, id_b := 2, id_c := 3\<rparr>)"
    using b w2(1) w3(1) k1(1,3) k2(1) k3(1) k4(1) k5 by (simp add: trace_main_def require_def Let_def del: append.simps)
  show thesis
  proof (rule that [OF main])
    show "reachable P (rs, k5)" using reachable.step [OF _ kernel_step.start [OF k5]] facts by blast
    show "ccr k5 AND SCB_CCR_STKALIGN_Msk \<noteq> 0"
      using k1(3) q(16) by (simp add: k2(3) k3(3) k4(3) os_exception_configuration_valid_def)
    show "fresh_heap (heap_of k5)" using fresh q k2(4) k3(4) k4(4) by (simp add: heap_of_def)
    show "schedules k5 = [idle_schedule, initial_record 1 ?ca, initial_record 2 ?cb, initial_record 3 ?cc, blank_schedule 4]"
      using q(2) facts by (simp add: blank_schedules_list)
  qed (use q facts off w2(2) w3(2) b in simp_all)
qed

section \<open>Task A\<close>

lemma a_memory_passes:
  assumes "undisturbed between" and "fresh_heap (heap_of k)" and "heap_caller k" and "current_task k = 1" and "id_a s = 1"
  shows "\<exists>k'. a_memory P between 0 s k = Inr k' \<and> payloads (heap_of k') = [] \<and> state_ok (heap_of k') \<and> steady k k'"
proof -
  obtain p h where h: "acquire_block 24 1 (heap_of k) = (Some p, h)" "lab_heap 1 p 0 h" "p \<noteq> 0" "8 dvd unat p"
    by (rule fresh_lab [OF assms(2), of 1]) (auto intro: that)
  obtain k1 where k1: "os_memory_alloc P 24 (between 0 k) = Inr (p, k1)" "heap_of k1 = h" "steady k k1"
    using alloc_call [OF assms(1,3), of 24 "Some p" h P 0] h(1) assms(4) by auto
  have caller: "heap_caller k1" "current_task k1 = 1" using k1(3) assms(3,4) by (simp_all add: steady_def)
  have pay: "state_ok h" "payloads h = [(p, 24, 1)]" using h(2) by (simp_all add: lab_heap_def)
  have mem: "(p, 24, 1) \<in> set (payloads h)" by (simp add: pay(2))
  obtain h' where h': "give_back_block p 1 h = (True, h')" "state_ok h'" "payloads h' = filter (\<lambda>b. fst b \<noteq> p) (payloads h)"
    by (rule give_back_taken [OF pay(1) h(3) mem])
  obtain k2 where k2: "os_memory_free P p (between 1 k1) = Inr (True, k2)" "heap_of k2 = h'" "steady k1 k2"
    using free_call [OF assms(1) caller(1), of p True h' P 1] h'(1) k1(2) caller(2) by auto
  have "p AND 7 = 0" using h(4) by (simp add: aligned8)
  then have "a_memory P between 0 s k = Inr k2"
    using k1(1) k2(1) h(3) assms(4,5) by (simp add: a_memory_def require_def os_current_task_def)
  with h'(2,3) k2(2) pay(2) steady_trans [OF k1(3) k2(3)] show ?thesis by simp
qed

lemma trace_deadline_of_a:
  assumes "task_run (initial_record 1 (trace_config e A_DEADLINE)) s" and "e \<noteq> 0" and "job_active s"
  shows "absolute_deadline_order s = 15"
proof -
  define c where "c = tc_timing (trace_config e A_DEADLINE)"
  have start: "startable (trace_config e A_DEADLINE)" using trace_startable(1) assms(2) by simp
  have conf: "os_sched_task_configure (Some (blank_schedule 1)) (Some c) 0 = (True, Some (initial_record 1 (trace_config e A_DEADLINE)))"
    using initial_record_configured [OF start, of 1] by (simp add: c_def)
  have "cfg_kind c = OS_TASK_ONE_SHOT" "cfg_initial_release_delay_ticks c = 0" "cfg_relative_deadline_ticks c = 15"
    by (simp_all add: c_def trace_config_def os_task_config_default_def Let_def)
  with configure_one_shot [OF conf] have "one_shot_job 0 15 (initial_record 1 (trace_config e A_DEADLINE))" by simp
  with assms(1) have one: "one_shot_job 0 15 s" using one_shot_job_step by (rule task_run_invariant)
  have "sched_task_wf s" using assms(1) configure_wf [OF conf] sched_task_wf_step by (rule task_run_invariant)
  with one assms(3) have "unat (absolute_deadline_order s) = 15" by (simp add: sched_task_wf_def one_shot_job_def)
  then show ?thesis by (simp add: word_unat_eq_iff)
qed

lemma a_creates_d_passes:
  assumes "kernel_ok P k" and "platform_ok P" and "heap_caller k" and "current_task k = 1" and "\<not> pendsv_set k" and "e \<noteq> 0"
    and now: "monotonic_ticks k < 10" and a: "absolute_deadline_order (sched k 1) = 15"
    and slots: "state (schedules k ! 2) \<noteq> OS_TASK_DORMANT" "state (schedules k ! 3) \<noteq> OS_TASK_DORMANT" "state (schedules k ! 4) = OS_TASK_DORMANT"
  shows "\<exists>k'. a_creates_d P e s k = Inr (k', s\<lparr>id_d := 4\<rparr>) \<and> primask k' = 1 \<and> pendsv_set k' \<and> state (sched k' 4) = OS_TASK_READY \<and>
    edf_key_of (sched k' 4) < edf_key_of (sched k' 1) \<and> kernel_ok P k'"
proof -
  let ?c = "trace_config e D_DEADLINE" and ?K = "k\<lparr>primask := 1\<rparr>"
  have okK: "kernel_ok P ?K" using assms(1) by simp
  then have ok: "kernel_ok P ?K" "slots_ok P ?K" by (simp_all only: kernel_ok_def simp_thms)
  have run: "running k" "caller_is_running_task k" "kernel_initialized k"
    using assms(1,3) by (auto simp: heap_caller_def caller_is_running_task_def kernel_ok_def mode_ok_def split: if_splits)
  have one: "state (schedules k ! 1) = OS_TASK_RUNNING" using run(2) assms(4) by (simp add: caller_is_running_task_def sched_def)
  have start: "startable ?c" using trace_startable(1) assms(6) by simp
  have guard: "create_guard ?c ?K"
    using start run assms(3,4) by (simp add: create_guard_def startable_def creator_allowed_def heap_caller_def caller_is_running_task_def sched_def)
  have skip: "state (schedules ?K ! j) \<noteq> OS_TASK_DORMANT" if "0 < j" "j < 4" for j
  proof -
    have "j = 1 \<or> j = 2 \<or> j = 3" using that by linarith
    then show ?thesis using one slots(1,2) by (elim disjE) simp_all
  qed
  have free: "free_slot_loop ?K [1..<OS_TASK_COUNT] = 4"
    using free_slot_is [OF ok(2), of 4] skip slots(3) by simp
  have room: "room ?K" unfolding room_def by (rule bexI [of _ 4]) (simp_all add: slots(3))
  have time: "unat (monotonic_ticks k) < 10" using now by (simp add: word_less_nat_alt)
  have valid: "os_sched_config_valid (Some (tc_timing ?c))" using start by (simp add: startable_def)
  have cfg: "cfg_initial_release_delay_ticks (tc_timing ?c) = 0" "cfg_relative_deadline_ticks (tc_timing ?c) = 5"
    by (simp_all add: trace_config_def os_task_config_default_def Let_def)
  have conf: "fst (os_sched_task_configure (Some (sched ?K 4)) (Some (tc_timing ?c)) (monotonic_ticks ?K))"
    by (rule configure_succeeds [OF _ valid]) (use slots(3) time in \<open>simp_all add: sched_def\<close>)
  then have "\<exists>r. new_record ?c 4 r ?K"
    by (cases "os_sched_task_configure (Some (sched ?K 4)) (Some (tc_timing ?c)) (monotonic_ticks ?K)")
      (auto simp: new_record_def os_sched_task_configure_def on_ptr_Some)
  with create_effect [OF ok(1) assms(2), of ?c OS_TASK_ID_INVALID] guard room assms(5) obtain r k' where
    k': "new_record ?c 4 r ?K" "os_task_create P (Some ?c) (Some OS_TASK_ID_INVALID) ?K = Inr ((True, Some 4), k')"
      "quiet k' = quiet (announced 4 (installed P ?c 4 r ?K))" "kernel_ok P k'"
    unfolding free by auto
  have r: "state r = OS_TASK_READY" "absolute_deadline_order r = monotonic_ticks k + 5"
    using k'(1) cfg slots(3) by (auto simp: new_record_def step_unfold os_sched_task_reset_def os_sched_task_zero_def sched_def split: if_splits)
  have len: "length (schedules k) = OS_TASK_COUNT" using ok(2) by (simp add: slots_ok_def)
  have "unat (monotonic_ticks k + 5) = unat (monotonic_ticks k) + 5" using time by (simp add: unat_word_ariths)
  then have "absolute_deadline_order r < absolute_deadline_order (sched k 1)"
    using time by (simp add: r(2) a word_less_nat_alt)
  then have key: "edf_key_of r < edf_key_of (sched k 1)" by (simp add: edf_key_of_def less_edf_key_def)
  have inst: "sched (installed P ?c 4 r ?K) 4 = r" "sched (installed P ?c 4 r ?K) 1 = sched k 1"
    using len by (simp_all add: installed_def sched_def)
  have asks: "asks_switch 4 (installed P ?c 4 r ?K)"
    using run(1) assms(4) key r(1) inst by (simp add: asks_switch_def) (simp add: installed_def)
  note q = quiet_eqD [OF k'(3)]
  have "primask k' = 1" "pendsv_set k'" "sched k' 4 = r" "sched k' 1 = sched k 1"
    using q asks inst by (simp_all add: announced_def sched_def) (simp add: installed_def)
  moreover from this(1) have "a_creates_d P e s k = Inr (k', s\<lparr>id_d := 4\<rparr>)"
    using k'(2) by (simp add: a_creates_d_def require_def Let_def)
  ultimately show ?thesis using r(1) key k'(4) by auto
qed

text \<open>C40: The trace workload on the kernel. From a reset \<open>main\<close> comes to a reachable state of the running kernel with three
  tasks in their slots and one free block in the heap. In every state of any run from there, while task A has its slot and is the
  caller: it obtains an aligned block, if the heap is as at the start, and frees it, after which no block is left; and before tick 10,
  if its last slot is free, with interrupts masked it creates task D there, keeps its mask, and has a switch pending, for D has the
  earlier deadline; the switch still waits when the mask is lifted.\<close>

theorem trace_workload_begins:
  assumes "platform_ok P" and "sets_priority P" and "power_on k" and "ipsr k = 0"
    and "hal_works h" and "hal_sends transmit wire" and "hal_never_fails transmit" and "ea \<noteq> 0" and "eb \<noteq> 0" and "ec \<noteq> 0" and "ed \<noteq> 0"
    and "(unat (heap_start_symbol P) + 7) div 8 * 8 + 4096 \<le> unat (heap_end_symbol P) div 8 * 8" and "undisturbed between"
  shows "\<exists>k0 w0 s0. trace_main P h transmit (ea, eb, ec) k w s = Inr (OS_SVC_START, k0, w0, s0) \<and>
    wire w0 = wire (snd (board_init h w)) @ c_text (''AYMOS READY'' @ crlf) @ c_text (''TRACE BEGIN'' @ crlf) \<and> reachable P (rs, k0) \<and>
    (\<forall>rs1 k1. alive_run P 1 (rs, k0) (rs1, k1) \<and> heap_caller k1 \<and> current_task k1 = 1 \<longrightarrow>
       (heap_of k1 = heap_of k0 \<longrightarrow> (\<exists>k2. a_memory P between 0 s0 k1 = Inr k2 \<and> payloads (heap_of k2) = [])) \<and>
       (\<not> pendsv_set k1 \<and> monotonic_ticks k1 < 10 \<and> state (schedules k1 ! 2) \<noteq> OS_TASK_DORMANT \<and>
        state (schedules k1 ! 3) \<noteq> OS_TASK_DORMANT \<and> state (schedules k1 ! 4) = OS_TASK_DORMANT \<longrightarrow>
        (\<exists>k2. a_creates_d P ed s0 k1 = Inr (k2, s0\<lparr>id_d := 4\<rparr>) \<and> primask k2 = 1 \<and> state (sched k2 4) = OS_TASK_READY \<and>
           edf_key_of (sched k2 4) < edf_key_of (sched k2 1) \<and> pendsv_set (a_enables k2) \<and> primask (a_enables k2) = 0)))"
proof -
  obtain k0 w0 where main: "trace_main P h transmit (ea, eb, ec) k w s = Inr (OS_SVC_START, k0, w0, s\<lparr>id_a := 1, id_b := 2, id_c := 3\<rparr>)"
    "wire w0 = wire (snd (board_init h w)) @ c_text (''AYMOS READY'' @ crlf) @ c_text (''TRACE BEGIN'' @ crlf)" "reachable P (rs, k0)"
    "fresh_heap (heap_of k0)" "monotonic_ticks k0 = 0" "schedules k0 = [idle_schedule, initial_record 1 (trace_config ea A_DEADLINE),
       initial_record 2 (trace_delayed_config eb B_RELEASE_DELAY B_DEADLINE), initial_record 3 (trace_config ec C_DEADLINE), blank_schedule 4]"
    by (rule trace_main_starts [OF assms(1-10,12)])
  let ?s = "s\<lparr>id_a := 1, id_b := 2, id_c := 3\<rparr>"
  have ok0: "kernel_ok P k0" using reachable_ok [OF main(3) assms(1)] by simp
  have first: "sched k0 1 = initial_record 1 (trace_config ea A_DEADLINE)" by (simp add: sched_def main(6))
  have memory: "\<exists>k2. a_memory P between 0 ?s k1 = Inr k2 \<and> payloads (heap_of k2) = []"
    if "heap_caller k1" "current_task k1 = 1" "heap_of k1 = heap_of k0" for k1
    using a_memory_passes [OF assms(13) _ that(1,2), of ?s P] main(4) that(3) by auto
  have creates: "\<exists>k2. a_creates_d P ed ?s k1 = Inr (k2, ?s\<lparr>id_d := 4\<rparr>) \<and> primask k2 = 1 \<and> state (sched k2 4) = OS_TASK_READY \<and>
      edf_key_of (sched k2 4) < edf_key_of (sched k2 1) \<and> pendsv_set (a_enables k2) \<and> primask (a_enables k2) = 0"
    if run: "alive_run P 1 (rs, k0) (rs1, k1)" "heap_caller k1" "current_task k1 = 1" "\<not> pendsv_set k1" "monotonic_ticks k1 < 10"
      "state (schedules k1 ! 2) \<noteq> OS_TASK_DORMANT" "state (schedules k1 ! 3) \<noteq> OS_TASK_DORMANT" "state (schedules k1 ! 4) = OS_TASK_DORMANT" for rs1 k1
  proof -
    have life: "task_run (sched k0 1) (sched k1 1)" "kernel_ok P k1" using alive_task_run [OF run(1) assms(1)] ok0 by simp_all
    have "state (sched k1 1) = OS_TASK_RUNNING" using run(2,3) by (simp add: heap_caller_def caller_is_running_task_def)
    moreover have "slot_ok P 1 (sched k1 1) (tcb k1 1)" using slots_okD [of P k1 1] life(2) by (simp add: kernel_ok_def)
    ultimately have active: "job_active (sched k1 1)" by (simp add: slot_ok_def)
    have "absolute_deadline_order (sched k1 1) = 15" by (rule trace_deadline_of_a [OF life(1) [unfolded first] assms(8) active])
    with a_creates_d_passes [OF life(2) assms(1) run(2-4) assms(11) run(5) _ run(6-8), of ?s] show ?thesis by (auto simp: a_enables_def)
  qed
  have both: "(heap_of k1 = heap_of k0 \<longrightarrow> (\<exists>k2. a_memory P between 0 ?s k1 = Inr k2 \<and> payloads (heap_of k2) = [])) \<and>
      (\<not> pendsv_set k1 \<and> monotonic_ticks k1 < 10 \<and> state (schedules k1 ! 2) \<noteq> OS_TASK_DORMANT \<and>
       state (schedules k1 ! 3) \<noteq> OS_TASK_DORMANT \<and> state (schedules k1 ! 4) = OS_TASK_DORMANT \<longrightarrow>
       (\<exists>k2. a_creates_d P ed ?s k1 = Inr (k2, ?s\<lparr>id_d := 4\<rparr>) \<and> primask k2 = 1 \<and> state (sched k2 4) = OS_TASK_READY \<and>
          edf_key_of (sched k2 4) < edf_key_of (sched k2 1) \<and> pendsv_set (a_enables k2) \<and> primask (a_enables k2) = 0))"
    if h: "alive_run P 1 (rs, k0) (rs1, k1) \<and> heap_caller k1 \<and> current_task k1 = 1" for rs1 k1
  proof (rule conjI; rule impI)
    assume "heap_of k1 = heap_of k0"
    then show "\<exists>k2. a_memory P between 0 ?s k1 = Inr k2 \<and> payloads (heap_of k2) = []" using memory h by blast
  next
    assume c: "\<not> pendsv_set k1 \<and> monotonic_ticks k1 < 10 \<and> state (schedules k1 ! 2) \<noteq> OS_TASK_DORMANT \<and>
       state (schedules k1 ! 3) \<noteq> OS_TASK_DORMANT \<and> state (schedules k1 ! 4) = OS_TASK_DORMANT"
    show "\<exists>k2. a_creates_d P ed ?s k1 = Inr (k2, ?s\<lparr>id_d := 4\<rparr>) \<and> primask k2 = 1 \<and> state (sched k2 4) = OS_TASK_READY \<and>
       edf_key_of (sched k2 4) < edf_key_of (sched k2 1) \<and> pendsv_set (a_enables k2) \<and> primask (a_enables k2) = 0"
      by (rule creates [of rs1 k1]) (simp_all only: h c simp_thms)
  qed
  show ?thesis
    by (rule exI [of _ k0], rule exI [of _ w0], rule exI [of _ ?s], rule conjI [OF main(1) conjI [OF main(2) conjI [OF main(3)]]])
      (intro allI impI, rule both, assumption)
qed

section \<open>The witness\<close>

lemmas trace_record_defs = initial_record_def trace_config_def trace_delayed_config_def os_task_config_default_def step_unfold
  os_sched_task_reset_def os_sched_task_zero_def os_sched_config_valid_def os_tick_interval_valid_def blank_schedule_def Let_def

lemma trace_records:
  "task_id (initial_record 1 (trace_config ea A_DEADLINE)) = 1" "state (initial_record 1 (trace_config ea A_DEADLINE)) = OS_TASK_READY"
  "job_active (initial_record 1 (trace_config ea A_DEADLINE))"
  "state (initial_record 2 (trace_delayed_config eb B_RELEASE_DELAY B_DEADLINE)) = OS_TASK_WAITING_RELEASE"
  "state (initial_record 3 (trace_config ec C_DEADLINE)) = OS_TASK_READY"
  "edf_key_of (initial_record 1 (trace_config ea A_DEADLINE)) < edf_key_of (initial_record 3 (trace_config ec C_DEADLINE))"
  by (simp_all add: trace_record_defs edf_key_of_def less_edf_key_def)

text \<open>With the second slot waiting and the last one free, the first of the two ready tasks is dispatched.\<close>

lemma first_of_three:
  assumes "dispatch_choice [s0, sa, sb, sc, blank_schedule 4] OS_TASK_ID_INVALID nx"
    and "task_id sa = 1" and "state sa = OS_TASK_READY" and "job_active sa" and "state sb \<noteq> OS_TASK_READY" and "edf_key_of sa < edf_key_of sc"
  shows "nx = 1"
proof -
  have "unat nx = 1"
  proof (rule chosen [OF assms(1)])
    fix j
    assume "j \<in> eligible_set [s0, sa, sb, sc, blank_schedule 4] OS_TASK_COUNT32 OS_TASK_ID_INVALID" "j \<noteq> 1"
    with eligible_small [OF this(1)] assms(2-6)
    show "edf_key_of ([s0, sa, sb, sc, blank_schedule 4] ! 1) < edf_key_of ([s0, sa, sb, sc, blank_schedule 4] ! j)"
      by (elim conjE disjE) (simp_all add: eligible_def blank_dormant)
  qed (use assms(2-6) in \<open>simp add: eligible_set_def eligible_def\<close>)
  then show ?thesis by (simp add: word_unat_eq_iff)
qed

text \<open>The start on the demonstration platform, up to task A in thread mode.\<close>

lemma trace_demo_run:
  assumes reach: "reachable demo_platform (demo_regs, k0)" and k0: "running k0" "\<not> pendsv_set k0" "has_active_context k0 = 0"
    "ccr k0 AND SCB_CCR_STKALIGN_Msk \<noteq> 0" "monotonic_ticks k0 = 0"
    "schedules k0 = [idle_schedule, initial_record 1 (trace_config ea A_DEADLINE),
       initial_record 2 (trace_delayed_config eb B_RELEASE_DELAY B_DEADLINE), initial_record 3 (trace_config ec C_DEADLINE), blank_schedule 4]"
  shows "\<exists>rs' k'. alive_run demo_platform 1 (demo_regs, k0) (rs', k') \<and> heap_caller k' \<and> current_task k' = 1 \<and> \<not> pendsv_set k' \<and>
    monotonic_ticks k' = 0 \<and> state (schedules k' ! 2) \<noteq> OS_TASK_DORMANT \<and> state (schedules k' ! 3) \<noteq> OS_TASK_DORMANT \<and>
    state (schedules k' ! 4) = OS_TASK_DORMANT"
proof -
  have choice: "nx = 1" if "dispatch_choice (schedules k0) OS_TASK_ID_INVALID nx" for nx
    by (rule first_of_three [OF that [unfolded k0(6)] trace_records(1-3) _ trace_records(6)]) (simp add: trace_records)
  obtain k2 rs3 k3 where run: "runs_without demo_platform 1 (demo_regs, k0) (demo_regs, k2)" "schedules k2 = schedules k0"
    "kernel_step demo_platform (demo_regs, k2) (rs3, k3)" "kernel_ok demo_platform k3"
    "schedules k3 = (schedules k0)[unat (1 :: os_task_id_t) := (sched k0 1)\<lparr>state := OS_TASK_RUNNING\<rparr>]" "current_task k3 = 1"
    "has_active_context k3 = 1" "running k3" "\<not> pendsv_set k3" "control k3 = CONTROL_SPSEL_Msk" "ccr k3 = ccr k0"
    "monotonic_ticks k3 = monotonic_ticks k0"
    by (rule demo_first_task [OF reach k0(1-3) choice]) simp_all
  define p :: u32 where "p = (if msp k3 = 0x20001480 then 0x20001488 else 0x20001480)"
  have p: "p AND 7 = 0" "0x20001000 + 1024 * unat (1 :: os_task_id_t) \<le> unat p" "unat p \<le> 0x20001100 + 1024 * unat (1 :: os_task_id_t)" "msp k3 \<noteq> p"
    by (auto simp: p_def)
  have align: "ccr k3 AND SCB_CCR_STKALIGN_Msk \<noteq> 0" by (simp add: run(11) k0(4))
  note thread = demo_thread [OF run(4,7,6,10) align p]
  let ?k4 = "k3\<lparr>psp := p, ipsr := 0\<rparr>"
  have one: "state (sched k3 1) = OS_TASK_RUNNING" "sched ?k4 1 = sched k3 1" "sched k0 1 = initial_record 1 (trace_config ea A_DEADLINE)"
    by (simp_all add: sched_def run(5) k0(6))
  have "state (sched k0 1) \<noteq> OS_TASK_DORMANT" unfolding one(3) trace_records(2) by simp
  then have "alive_run demo_platform 1 (demo_regs, k0) (demo_regs, k2)"
    using runs_alive [OF run(1) demo_platform_ok] reachable_ok [OF reach demo_platform_ok] by simp
  then have "alive_run demo_platform 1 (demo_regs, k0) (rs3, ?k4)"
    by (rule alive_run.more [OF alive_run.more [OF _ run(3)] thread(1)]) (simp_all add: one)
  moreover have "heap_caller ?k4"
    using one(1,2) run(6-8) by (simp add: heap_caller_def caller_is_running_task_def)
  moreover have "state (schedules ?k4 ! 2) \<noteq> OS_TASK_DORMANT" "state (schedules ?k4 ! 3) \<noteq> OS_TASK_DORMANT"
    "state (schedules ?k4 ! 4) = OS_TASK_DORMANT"
    by (simp_all add: run(5) k0(6) trace_records blank_dormant)
  ultimately show ?thesis using run(6,9,12) k0(5) by (intro exI [of _ rs3] exI [of _ ?k4]) simp
qed

definition zero_trace_lab :: trace_lab where
  "zero_trace_lab = \<lparr>id_a = 0, id_b = 0, id_c = 0, id_d = 0, id_e = 0, finished_a = False, finished_b = False,
     finished_c = False, finished_d = False, finished_e = False, flushed = False\<rparr>"

theorem trace_workload_begins_witness:
  "\<exists>k0 w0 s0 rs1 k1 k2. trace_main demo_platform demo_hal list_uart (0x08004001, 0x08005001, 0x08006001) zero_kernel [] zero_trace_lab =
       Inr (OS_SVC_START, k0, w0, s0) \<and> alive_run demo_platform 1 (demo_regs, k0) (rs1, k1) \<and>
     a_creates_d demo_platform 0x08007001 s0 k1 = Inr (k2, s0\<lparr>id_d := 4\<rparr>) \<and> pendsv_set (a_enables k2) \<and>
     edf_key_of (sched k2 4) < edf_key_of (sched k2 1)"
proof -
  let ?main = "trace_main demo_platform demo_hal list_uart (0x08004001, 0x08005001, 0x08006001) zero_kernel [] zero_trace_lab"
  have entries: "(0x08004001 :: u32) \<noteq> 0" "(0x08005001 :: u32) \<noteq> 0" "(0x08006001 :: u32) \<noteq> 0" by simp_all
  have ed: "(0x08007001 :: u32) \<noteq> 0" by simp
  have region: "(unat (heap_start_symbol demo_platform) + 7) div 8 * 8 + 4096 \<le> unat (heap_end_symbol demo_platform) div 8 * 8"
    by (simp add: demo_platform_def)
  note app = demo_platform_ok demo_priorities zero_power_on zero_thread demo_hal_works list_uart_hal entries
  obtain k0 w0 where k0: "?main = Inr (OS_SVC_START, k0, w0, zero_trace_lab\<lparr>id_a := 1, id_b := 2, id_c := 3\<rparr>)"
    "reachable demo_platform (demo_regs, k0)" "running k0" "\<not> pendsv_set k0" "has_active_context k0 = 0" "ccr k0 AND SCB_CCR_STKALIGN_Msk \<noteq> 0"
    "monotonic_ticks k0 = 0" "schedules k0 = [idle_schedule, initial_record 1 (trace_config 0x08004001 A_DEADLINE),
       initial_record 2 (trace_delayed_config 0x08005001 B_RELEASE_DELAY B_DEADLINE), initial_record 3 (trace_config 0x08006001 C_DEADLINE), blank_schedule 4]"
    by (rule trace_main_starts [OF app region, of "[]" zero_trace_lab demo_regs])
  obtain rs1 k1 where k1: "alive_run demo_platform 1 (demo_regs, k0) (rs1, k1)" "heap_caller k1" "current_task k1 = 1" "\<not> pendsv_set k1"
    "monotonic_ticks k1 = 0" "state (schedules k1 ! 2) \<noteq> OS_TASK_DORMANT" "state (schedules k1 ! 3) \<noteq> OS_TASK_DORMANT"
    "state (schedules k1 ! 4) = OS_TASK_DORMANT"
    using trace_demo_run [OF k0(2-8)] by (elim exE conjE) (rule that)
  obtain k0' w0' s0' where main: "?main = Inr (OS_SVC_START, k0', w0', s0')"
    and task: "\<forall>rs1 k1. alive_run demo_platform 1 (demo_regs, k0') (rs1, k1) \<and> heap_caller k1 \<and> current_task k1 = 1 \<longrightarrow>
       (heap_of k1 = heap_of k0' \<longrightarrow> (\<exists>k2. a_memory demo_platform (\<lambda>_ k. k) 0 s0' k1 = Inr k2 \<and> payloads (heap_of k2) = [])) \<and>
       (\<not> pendsv_set k1 \<and> monotonic_ticks k1 < 10 \<and> state (schedules k1 ! 2) \<noteq> OS_TASK_DORMANT \<and>
        state (schedules k1 ! 3) \<noteq> OS_TASK_DORMANT \<and> state (schedules k1 ! 4) = OS_TASK_DORMANT \<longrightarrow>
        (\<exists>k2. a_creates_d demo_platform 0x08007001 s0' k1 = Inr (k2, s0'\<lparr>id_d := 4\<rparr>) \<and> primask k2 = 1 \<and> state (sched k2 4) = OS_TASK_READY \<and>
           edf_key_of (sched k2 4) < edf_key_of (sched k2 1) \<and> pendsv_set (a_enables k2) \<and> primask (a_enables k2) = 0))"
    using trace_workload_begins [OF app ed region undisturbed_none, of "[]" zero_trace_lab demo_regs] by (elim exE conjE) (rule that)
  have same: "k0' = k0" using main k0(1) by simp
  have early: "monotonic_ticks k1 < 10" by (simp add: k1(5))
  have "\<exists>k2. a_creates_d demo_platform 0x08007001 s0' k1 = Inr (k2, s0'\<lparr>id_d := 4\<rparr>) \<and> primask k2 = 1 \<and> state (sched k2 4) = OS_TASK_READY \<and>
      edf_key_of (sched k2 4) < edf_key_of (sched k2 1) \<and> pendsv_set (a_enables k2) \<and> primask (a_enables k2) = 0"
    by (rule mp [OF conjunct2 [OF task [unfolded same, rule_format, of rs1 k1, OF conjI [OF k1(1) conjI [OF k1(2,3)]]]]])
      (intro conjI k1(4) early k1(6-8))
  then show ?thesis using main k1(1) unfolding same by blast
qed

end
