(* ===== verification/Boot_Lab.thy ===== *)
theory Boot_Lab
  imports App_Demo
begin

text \<open>
  The boot program, \<open>apps/boot/main.c\<close>, with the handlers of the build without a kernel,
  \<open>bsp/nucleo_f401re/src/interrupts.c\<close>; the handlers of the build with the kernel, \<open>kernel_interrupts.c\<close>; and the heap
  hook of the C library, \<open>newlib_heap.c\<close>. An interrupt may come before any step of the program.
\<close>

section \<open>The handlers without a kernel\<close>

datatype exception = NMI | HardFault | MemManage | BusFault | UsageFault | DebugMon | SVCall | SysTick

text \<open>The places of the program, the endless loop at its end, and the loops that mask the interrupts and never return.\<close>

datatype boot_place = Boot_Init | Boot_Banner | Boot_Wait | Boot_Smoke | Boot_Report | Boot_Loop | Boot_Panic | Fault_Stop

record 'w boot =
  place :: boot_place
  systick_observed :: bool
  svc_observed :: bool
  hardware :: 'w

definition fault_stop :: "'w boot \<Rightarrow> 'w boot" where
  "fault_stop s = s\<lparr>place := Fault_Stop\<rparr>"

definition boot_SVC_Handler :: "'w boot \<Rightarrow> 'w boot" where
  "boot_SVC_Handler s = s\<lparr>svc_observed := True\<rparr>"

definition boot_SysTick_Handler :: "('w \<Rightarrow> 'w) \<Rightarrow> 'w boot \<Rightarrow> 'w boot" where
  "boot_SysTick_Handler HAL_IncTick s = s\<lparr>hardware := HAL_IncTick (hardware s), systick_observed := True\<rparr>"

text \<open>The vector table of the build.\<close>

fun boot_handler :: "('w \<Rightarrow> 'w) \<Rightarrow> exception \<Rightarrow> 'w boot \<Rightarrow> 'w boot" where
  "boot_handler inc DebugMon s = s"
| "boot_handler inc SVCall s = boot_SVC_Handler s"
| "boot_handler inc SysTick s = boot_SysTick_Handler inc s"
| "boot_handler inc _ s = fault_stop s"

definition board_systick_observed :: "'w boot \<Rightarrow> bool" where
  "board_systick_observed s = systick_observed s"

definition board_svc_observed :: "'w boot \<Rightarrow> bool" where
  "board_svc_observed s = svc_observed s"

text \<open>The instruction \<open>svc\<close> takes its exception at once.\<close>

definition board_invoke_svc_smoke :: "('w \<Rightarrow> 'w) \<Rightarrow> 'w boot \<Rightarrow> 'w boot" where
  "board_invoke_svc_smoke inc s = boot_handler inc SVCall s"

section \<open>The program\<close>

definition board_panic :: "'w boot \<Rightarrow> 'w boot" where
  "board_panic s = s\<lparr>place := Boot_Panic\<rparr>"

definition banner :: "u8 list" where "banner = c_text (''AYMOS READY'' @ crlf)"
definition smoke :: "u8 list" where "smoke = c_text (''AYMOS SMOKE SYSTICK=1 SVC=1'' @ crlf)"

text \<open>Send a text, and go on to a place or panic.\<close>

definition boot_send :: "(u8 list \<Rightarrow> 'w \<Rightarrow> hal_status \<times> 'w) \<Rightarrow> u8 list \<Rightarrow> boot_place \<Rightarrow> 'w boot \<Rightarrow> 'w boot" where
  "boot_send transmit bytes after s =
     (let (status, w) = board_uart_write transmit (Some (bytes @ [0])) (length bytes) (hardware s); s1 = s\<lparr>hardware := w\<rparr>
      in if status \<noteq> HAL_OK then board_panic s1 else s1\<lparr>place := after\<rparr>)"

definition boot_step ::
  "'w hal \<Rightarrow> (u8 list \<Rightarrow> 'w \<Rightarrow> hal_status \<times> 'w) \<Rightarrow> ('w \<Rightarrow> 'w) \<Rightarrow> 'w boot \<Rightarrow> 'w boot" where
  "boot_step h transmit inc s = (case place s of
      Boot_Init \<Rightarrow> let (status, w) = board_init h (hardware s); s1 = s\<lparr>hardware := w\<rparr>
        in if status \<noteq> HAL_OK then board_panic s1 else s1\<lparr>place := Boot_Banner\<rparr>
    | Boot_Banner \<Rightarrow> boot_send transmit banner Boot_Wait s
    | Boot_Wait \<Rightarrow> if \<not> board_systick_observed s then s else s\<lparr>place := Boot_Smoke\<rparr>
    | Boot_Smoke \<Rightarrow> let s1 = board_invoke_svc_smoke inc s
        in if \<not> board_svc_observed s1 then board_panic s1 else s1\<lparr>place := Boot_Report\<rparr>
    | Boot_Report \<Rightarrow> boot_send transmit smoke Boot_Loop s
    | _ \<Rightarrow> s)"

text \<open>A run: steps of the program and interrupts; the two loops that mask the interrupts take none.\<close>

datatype boot_event = Program | Interrupt exception

fun boot_react :: "'w hal \<Rightarrow> (u8 list \<Rightarrow> 'w \<Rightarrow> hal_status \<times> 'w) \<Rightarrow> ('w \<Rightarrow> 'w) \<Rightarrow> boot_event \<Rightarrow> 'w boot \<Rightarrow> 'w boot" where
  "boot_react h transmit inc Program s = boot_step h transmit inc s"
| "boot_react h transmit inc (Interrupt e) s =
     (if place s = Boot_Panic \<or> place s = Fault_Stop then s else boot_handler inc e s)"

definition boot_run ::
  "'w hal \<Rightarrow> (u8 list \<Rightarrow> 'w \<Rightarrow> hal_status \<times> 'w) \<Rightarrow> ('w \<Rightarrow> 'w) \<Rightarrow> boot_event list \<Rightarrow> 'w boot \<Rightarrow> 'w boot" where
  "boot_run h transmit inc es s = fold (boot_react h transmit inc) es s"

section \<open>What the program sends\<close>

fun boot_sent :: "boot_place \<Rightarrow> u8 list" where
  "boot_sent Boot_Wait = banner"
| "boot_sent Boot_Smoke = banner"
| "boot_sent Boot_Report = banner"
| "boot_sent Boot_Loop = banner @ smoke"
| "boot_sent _ = []"

definition boot_inv :: "('w \<Rightarrow> u8 list) \<Rightarrow> u8 list \<Rightarrow> 'w boot \<Rightarrow> bool" where
  "boot_inv wire w0 s \<longleftrightarrow> place s \<noteq> Boot_Panic \<and> place s \<noteq> Fault_Stop \<and> wire (hardware s) = w0 @ boot_sent (place s) \<and>
     (place s = Boot_Smoke \<or> place s = Boot_Report \<or> place s = Boot_Loop \<longrightarrow> systick_observed s) \<and>
     (place s = Boot_Report \<or> place s = Boot_Loop \<longrightarrow> svc_observed s)"

lemma board_uart_write_sends:
  assumes "hal_sends transmit wire" and "hal_never_fails transmit"
  obtains w' where "board_uart_write transmit (Some (bytes @ [0])) (length bytes) w = (HAL_OK, w')" "wire w' = wire w @ bytes"
proof -
  have le: "length bytes \<le> length (bytes @ [0])" by simp
  obtain w' where run: "uart_write_loop transmit (bytes @ [0]) (length bytes) 0 w = (HAL_OK, w')"
    using uart_write_loop_ok [OF assms(2) le, of 0 w] by (cases "uart_write_loop transmit (bytes @ [0]) (length bytes) 0 w") simp
  show thesis
    by (rule that [of w']) (use uart_write_loop_sends [OF assms(1) le run] run in \<open>simp_all add: board_uart_write_def\<close>)
qed

text \<open>The boot program on a working board; setting up the board and counting a tick send nothing.\<close>

definition boot_board :: "'w hal \<Rightarrow> (u8 list \<Rightarrow> 'w \<Rightarrow> hal_status \<times> 'w) \<Rightarrow> ('w \<Rightarrow> 'w) \<Rightarrow> ('w \<Rightarrow> u8 list) \<Rightarrow> bool" where
  "boot_board h transmit inc wire \<longleftrightarrow> hal_works h \<and> hal_sends transmit wire \<and> hal_never_fails transmit \<and>
     (\<forall>w. wire (inc w) = wire w) \<and> (\<forall>w. wire (snd (board_init h w)) = wire w)"

definition is_fault :: "boot_event \<Rightarrow> bool" where
  "is_fault ev \<longleftrightarrow> ev \<in> Interrupt ` {NMI, HardFault, MemManage, BusFault, UsageFault}"

fun boot_rank :: "boot_place \<Rightarrow> nat" where
  "boot_rank Boot_Banner = 1"
| "boot_rank Boot_Wait = 2"
| "boot_rank Boot_Smoke = 3"
| "boot_rank Boot_Report = 4"
| "boot_rank Boot_Loop = 5"
| "boot_rank _ = 0"

lemma boot_send_effect:
  assumes "boot_board h transmit inc wire"
  obtains w' where "boot_send transmit bytes after s = s\<lparr>hardware := w', place := after\<rparr>" "wire w' = wire (hardware s) @ bytes"
proof -
  obtain w' where "board_uart_write transmit (Some (bytes @ [0])) (length bytes) (hardware s) = (HAL_OK, w')" "wire w' = wire (hardware s) @ bytes"
    by (rule board_uart_write_sends [of transmit wire bytes "hardware s"]) (use assms in \<open>simp_all add: boot_board_def\<close>)
  then show thesis by (intro that [of w']) (simp_all add: boot_send_def)
qed

lemma boot_step_effect:
  assumes "boot_board h transmit inc wire" and "boot_inv wire w0 s"
  shows "boot_inv wire w0 (boot_step h transmit inc s)"
    "systick_observed s \<Longrightarrow> systick_observed (boot_step h transmit inc s)"
    "systick_observed s \<Longrightarrow> boot_rank (place (boot_step h transmit inc s)) = min 5 (Suc (boot_rank (place s)))"
proof -
  have all: "boot_inv wire w0 (boot_step h transmit inc s) \<and> (systick_observed s \<longrightarrow> systick_observed (boot_step h transmit inc s) \<and>
    boot_rank (place (boot_step h transmit inc s)) = min 5 (Suc (boot_rank (place s))))"
  proof (cases "place s")
    case Boot_Init
    have "fst (board_init h (hardware s)) = HAL_OK" "wire (snd (board_init h (hardware s))) = wire (hardware s)"
      using assms(1) board_init_ok by (auto simp: boot_board_def)
    then show ?thesis using assms(2) Boot_Init by (auto simp: boot_step_def boot_inv_def case_prod_beta Let_def)
  next
    case Boot_Banner
    obtain w' where "boot_send transmit banner Boot_Wait s = s\<lparr>hardware := w', place := Boot_Wait\<rparr>" "wire w' = wire (hardware s) @ banner"
      by (rule boot_send_effect [OF assms(1)])
    then show ?thesis using assms(2) Boot_Banner by (simp add: boot_step_def boot_inv_def)
  next
    case Boot_Report
    obtain w' where "boot_send transmit smoke Boot_Loop s = s\<lparr>hardware := w', place := Boot_Loop\<rparr>" "wire w' = wire (hardware s) @ smoke"
      by (rule boot_send_effect [OF assms(1)])
    then show ?thesis using assms(2) Boot_Report by (simp add: boot_step_def boot_inv_def)
  qed (use assms(2) in \<open>simp_all add: boot_step_def boot_inv_def board_systick_observed_def board_svc_observed_def
      board_invoke_svc_smoke_def boot_SVC_Handler_def\<close>)
  then show "boot_inv wire w0 (boot_step h transmit inc s)"
    "systick_observed s \<Longrightarrow> systick_observed (boot_step h transmit inc s)"
    "systick_observed s \<Longrightarrow> boot_rank (place (boot_step h transmit inc s)) = min 5 (Suc (boot_rank (place s)))"
    by blast+
qed

lemma boot_interrupt_effect:
  assumes "boot_board h transmit inc wire" and "boot_inv wire w0 s" and "\<not> is_fault (Interrupt e)"
  shows "boot_inv wire w0 (boot_react h transmit inc (Interrupt e) s)" "place (boot_react h transmit inc (Interrupt e) s) = place s"
    "systick_observed s \<or> e = SysTick \<Longrightarrow> systick_observed (boot_react h transmit inc (Interrupt e) s)"
  using assms by (cases e; simp add: boot_board_def boot_inv_def is_fault_def boot_SVC_Handler_def boot_SysTick_Handler_def)+

definition program_steps :: "boot_event list \<Rightarrow> nat" where
  "program_steps es = length (filter (\<lambda>ev. ev = Program) es)"

lemma boot_run_inv:
  assumes "boot_board h transmit inc wire" and "boot_inv wire w0 s" and "\<not> (\<exists>ev \<in> set es. is_fault ev)"
  shows "boot_inv wire w0 (boot_run h transmit inc es s) \<and>
    (systick_observed s \<or> Interrupt SysTick \<in> set es \<longrightarrow> systick_observed (boot_run h transmit inc es s)) \<and>
    (systick_observed s \<longrightarrow> min 5 (boot_rank (place s) + program_steps es) \<le> boot_rank (place (boot_run h transmit inc es s)))"
  using assms(2,3)
proof (induction es arbitrary: s)
  case Nil
  then show ?case by (simp add: boot_run_def program_steps_def)
next
  case (Cons ev es)
  let ?s1 = "boot_react h transmit inc ev s"
  have one: "boot_inv wire w0 ?s1 \<and> (systick_observed s \<or> ev = Interrupt SysTick \<longrightarrow> systick_observed ?s1) \<and>
    (systick_observed s \<longrightarrow> min 5 (boot_rank (place s) + program_steps [ev]) \<le> boot_rank (place ?s1))"
  proof (cases ev)
    case Program
    then show ?thesis using boot_step_effect [OF assms(1) Cons.prems(1)] by (simp add: program_steps_def)
  next
    case (Interrupt e)
    then show ?thesis using boot_interrupt_effect [OF assms(1) Cons.prems(1), of e] Cons.prems(2) by (simp add: program_steps_def)
  qed
  have steps: "program_steps (ev # es) = program_steps [ev] + program_steps es" by (simp add: program_steps_def)
  have run: "boot_run h transmit inc (ev # es) s = boot_run h transmit inc es ?s1" by (simp add: boot_run_def)
  have "\<not> (\<exists>ev \<in> set es. is_fault ev)" using Cons.prems(2) by simp
  note rest = Cons.IH [OF conjunct1 [OF one] this]
  show ?case unfolding run steps using one rest by auto
qed

text \<open>
  The boot program, whatever interrupts come and when, as long as none is a fault: nothing but the banner and
  then the report has been sent, the report only after a tick and the supervisor call were observed; and when a tick has
  come, five steps of the program later both lines have been sent and the program is in its last loop.
\<close>

theorem boot_reports:
  assumes "boot_board h transmit inc wire" and "\<not> (\<exists>ev \<in> set (es @ es'). is_fault ev)"
  defines "reset w \<equiv> \<lparr>place = Boot_Init, systick_observed = False, svc_observed = False, hardware = w\<rparr>"
  shows "boot_inv wire (wire w) (boot_run h transmit inc es (reset w))"
    "Interrupt SysTick \<in> set es \<Longrightarrow> 5 \<le> program_steps es' \<Longrightarrow>
      place (boot_run h transmit inc (es @ es') (reset w)) = Boot_Loop \<and>
      wire (hardware (boot_run h transmit inc (es @ es') (reset w))) = wire w @ banner @ smoke"
proof -
  have start: "boot_inv wire (wire w) (reset w)" by (simp add: boot_inv_def reset_def)
  have quiet: "\<not> (\<exists>ev \<in> set es. is_fault ev)" "\<not> (\<exists>ev \<in> set es'. is_fault ev)" using assms(2) by auto
  let ?s = "boot_run h transmit inc es (reset w)"
  note run = boot_run_inv [OF assms(1) start quiet(1)]
  from run show inv: "boot_inv wire (wire w) ?s" by blast
  assume tick: "Interrupt SysTick \<in> set es" and steps: "5 \<le> program_steps es'"
  let ?t = "boot_run h transmit inc es' ?s"
  note more = boot_run_inv [OF assms(1) inv quiet(2)]
  have "boot_rank (place ?t) = 5 \<or> 5 < boot_rank (place ?t)" using more run tick steps by auto
  then have "place ?t = Boot_Loop" by (cases "place ?t") simp_all
  moreover have "boot_run h transmit inc (es @ es') (reset w) = ?t" by (simp add: boot_run_def)
  ultimately show "place (boot_run h transmit inc (es @ es') (reset w)) = Boot_Loop \<and>
      wire (hardware (boot_run h transmit inc (es @ es') (reset w))) = wire w @ banner @ smoke"
    using more by (simp add: boot_inv_def)
qed

section \<open>The handlers with the kernel, and the heap hook\<close>

text \<open>The reason that a handler gives to the panic display; \<open>DebugMon_Handler\<close> returns.\<close>

fun panic_reason :: "exception \<Rightarrow> string option" where
  "panic_reason NMI = Some ''NMI''"
| "panic_reason HardFault = Some ''HARDFAULT''"
| "panic_reason MemManage = Some ''MEMFAULT''"
| "panic_reason BusFault = Some ''BUSFAULT''"
| "panic_reason UsageFault = Some ''USAGEFAULT''"
| "panic_reason _ = None"

definition kernel_fault_handler :: "'d usart \<Rightarrow> exception \<Rightarrow> 'd \<Rightarrow> 'd" where
  "kernel_fault_handler u e d = (case panic_reason e of None \<Rightarrow> d | Some r \<Rightarrow> board_kernel_panic u (Some r) d)"

definition SysTick_Handler :: "('w \<Rightarrow> 'w) \<Rightarrow> 'w \<times> kernel \<Rightarrow> ('w \<times> kernel) outcome" where
  "SysTick_Handler HAL_IncTick c = (let (w, k) = c; w1 = HAL_IncTick w in on_ok (os_kernel_tick k) (\<lambda>k1. Inr (w1, k1)))"

lemma systick_is_a_step:
  "tick_range k \<Longrightarrow> SysTick_Handler inc (w, k) = Inr (w', k') \<Longrightarrow> kernel_step P (rs, k) (rs, k') \<and> w' = inc w"
  by (auto simp: SysTick_Handler_def intro: kernel_step.tick elim: on_ok_InrE)

text \<open>The C library never gets memory from the linker's heap: the hook refuses every request.\<close>

datatype errno = ENOMEM

definition sbrk :: "int \<Rightarrow> errno + u32" where
  "sbrk increment = Inl ENOMEM"

end
