(* ===== verification/Spec2Isabelle.thy ===== *)
theory Spec2Isabelle
  imports Prelude Edf_Select Task_Lifecycle Trace_Ring Trace_Frames Trace_Select Allocator_Claims
    Kernel_Claims Kernel_Edf_Claims Fir_Claims Board Signal_Claims Deadline_Claims
    Heap_Lab_Claims Kernel_History_Claims Edf_Lab_Claims Lifecycle_Claims Trace_Claims Boot_Lab
begin

text \<open>
  AymOS is a preemptive kernel for the Cortex-M4: five task slots (slot 0 is the idle task), earliest
  deadline first with ties by priority and task number, one-shot and periodic tasks, a heap with
  an owner per block, and a trace of every decision. The development models its C sources and the two
  exception handlers in assembly, for the 32-bit target, integer widths and wrap-around included.

  \<^bold>\<open>Parts and theories.\<close>
  \<^item> \<open>Prelude\<close>: names of the C integer types, pointer arguments as options, saturating counters,
    overflow guards read over the natural numbers.
  \<^item> \<open>kernel/src/scheduler.c\<close>: \<open>Scheduler\<close> has one definition per function over the record
    \<open>os_sched_task\<close>; \<open>Ranking\<close> and \<open>Edf_Select\<close> make \<open>os_sched_outranks\<close> a linear order and show what
    the selection returns; \<open>Task_Lifecycle\<close> treats a record as a state machine under any sequence of
    operations: well-formedness, the grid of periodic releases, the accounts of jobs.
  \<^item> \<open>kernel/src/trace.c\<close>: \<open>Trace_Ring\<close> over the interface \<open>Record_Queue\<close> (a bounded queue).
  \<^item> \<open>kernel/src/trace_runtime.c\<close>: \<open>Trace_Select\<close> has the producers (\<open>os_trace_emit\<close>, the batch of a
    scheduling decision and its reason code), \<open>Trace_Frames\<close> the serial frames, the CRC, the drain of
    the ring and \<open>board_uart_write\<close> of \<open>bsp/nucleo_f401re/src/board.c\<close>.
  \<^item> \<open>kernel/src/allocator.c\<close>: \<open>Allocator\<close> has the code over a map from addresses to block headers;
    \<open>Allocator_Chain\<close> the chain that tiles the arena, \<open>Allocator_Ops\<close> the loops, \<open>Allocator_Spec\<close> and
    \<open>Owned_Store\<close> the abstract store of owned blocks that the heap refines, \<open>Allocator_Props\<close> the
    interpretation, \<open>Allocator_Claims\<close> what callers rely on.
  \<^item> \<open>kernel/src/kernel.c\<close>: \<open>Kernel\<close> has the state (the statics of the file, the stack memory by word
    address and the special registers, as the record \<open>kernel\<close>) and the helpers; \<open>Kernel_Api\<close> every call
    and the three entry points. \<open>Kernel_Inv\<close> states the invariant; \<open>Kernel_Switch\<close>, \<open>Kernel_Tick\<close>,
    \<open>Kernel_Calls\<close>, \<open>Kernel_Create\<close> and \<open>Kernel_Boot\<close> give the effect of each operation on it.
  \<^item> \<open>arch/arm_cm4/context_switch.S\<close>: \<open>Kernel_Steps\<close> has the two handlers and the step relation of the
    running system, with the invariant of every reachable state; \<open>Kernel_Runs\<close> shows what a step leaves
    alone and \<open>Kernel_Context\<close> follows a task that is off the processor through a run; \<open>Kernel_Demo\<close>
    is a concrete run, and \<open>Kernel_Setup\<close> what an application does before the start;
    \<open>Kernel_Claims\<close> has the properties of the kernel. \<open>Edf_Machine\<close> is an abstract scheduler (phases of
    jobs, a clock, the current task) with its own invariant; \<open>Kernel_Edf\<close> maps the kernel to it, and
    \<open>Kernel_Edf_Claims\<close> states that every step of the kernel is a step of that machine. \<open>Kernel_History\<close>
    shows that a run of the system takes the record of a task through the state machine of \<open>Task_Lifecycle\<close>,
    \<open>Kernel_Entry\<close> that the frame of a new task waits unchanged for its first dispatch,
    \<open>Kernel_History_Claims\<close> what follows for a task from its creation on. \<open>Kernel_Still\<close> follows a task that
    leaves its registers and stack alone through any number of switches.
  \<^item> \<open>dsp/\<close>: \<open>Fir\<close> has the three filters and their validation, \<open>Fir_Lemmas\<close> the convolution sum they
    compute and the locale \<open>window_sum\<close> for the code of one output, \<open>Fir_Claims\<close> the properties.
  \<^item> \<open>bsp/nucleo_f401re/src/board.c\<close>: \<open>Board\<close> has the set-up over the calls of the vendor HAL and the panic
    display over the registers of the serial port.
  \<^item> \<open>apps/signal_lab/main.c\<close>: \<open>App_Line\<close> has the output routines, \<open>App_Start\<close> the start that the programs
    share, \<open>Signal_Lab\<close> the three tasks from one kernel call to the next, \<open>Signal_Main\<close> the start, the idle
    hook and the result line. \<open>Signal_Data\<close> gives the effect of a frame on lists, \<open>Signal_Eval\<close> evaluates
    the shift register, the filter and the checksums to the constants of the source, \<open>Signal_Runs\<close> has the
    invariant over any order of the tasks, \<open>Signal_Order\<close> the locale \<open>framed_task\<close> for the shape that the
    three tasks share and the run of the design, \<open>Signal_Claims\<close> the properties.
  \<^item> \<open>apps/deadline_lab/main.c\<close>: \<open>Deadline_Lab\<close> has the four tasks, in the smallest pieces between which
    another task may run, the start and the idle hook; \<open>Deadline_Runs\<close> the invariant over any order of
    the pieces, \<open>Deadline_Eval\<close> the evaluated checksums, \<open>Deadline_Claims\<close> the property.
  \<^item> \<open>apps/allocator/main.c\<close>: \<open>Heap_Lab\<close> has the manager and the worker over the calls of the kernel, with the bytes
    they write in their blocks, the start and the idle hook; the function \<open>between\<close> is what happens to the
    kernel while a task is interrupted before a call. \<open>Heap_Rounds\<close> shows when a request finds room and what a
    client with three blocks leaves of the heap, \<open>Heap_Start\<close> the way from a reset to the start,
    \<open>Heap_Lab_Claims\<close> the properties of the start, of a round and of the end.
  \<^item> \<open>apps/edf/main.c\<close> and \<open>aymos_edf_fixture.h\<close>: \<open>Edf_Lab\<close> has the two tasks with their checks, the start and the
    idle hook; \<open>Edf_Lab_Claims\<close> shows that the checks pass in every run of the kernel, through the histories of
    \<open>Kernel_History\<close>. \<open>App_Pair\<close> is the start of a program with two tasks; \<open>App_Demo\<close> is a working board and \<open>App_Run\<close> a run on it up to the
    first task, on which the programs are shown to start.
  \<^item> \<open>apps/lifecycle/main.c\<close> and \<open>register_probe.S\<close>: \<open>Lifecycle_Lab\<close> has the register probes, with the words they push
    and pop, and the pieces of the two tasks between the calls of the probes; \<open>Lifecycle_Claims\<close> shows that a probe
    succeeds in every run and that the checks of the tasks pass.
  \<^item> \<open>apps/trace/main.c\<close>: \<open>Trace_Lab\<close> has the five tasks, task A in pieces from one call of the kernel that may
    switch to the next; \<open>Trace_Claims\<close> follows the program from a reset to the creation of task D by task A.
  \<^item> \<open>apps/boot/main.c\<close> with \<open>interrupts.c\<close>, and \<open>kernel_interrupts.c\<close> and \<open>newlib_heap.c\<close> of the board: \<open>Boot_Lab\<close> has
    the boot program as a machine that any interrupt may meet before any step; \<open>boot_reports\<close> shows that without a
    fault it sends the banner and then the report, the latter after a tick and the supervisor call. The handler
    \<open>SysTick_Handler\<close> of the build with the kernel is the step \<open>tick\<close> of the kernel (\<open>systick_is_a_step\<close>).

  \<^bold>\<open>How the parts meet.\<close> The kernel calls the scheduler on one record of its table (\<open>sched_call\<close>), the
  allocator on the block headers in its state (\<open>set_heap\<close>), and the trace producers on the ring, always
  with interrupts masked or in a handler (\<open>masked\<close>, \<open>PendSV_Handler\<close>). A panic is \<open>Inl\<close> with its reason and
  ends the run; a C result 1 or 0 is a Boolean; a call that ends in an \<open>svc\<close> instruction returns the
  service number, which the step \<open>svc\<close> decodes again from flash.

  \<^bold>\<open>Bounds and termination.\<close> Loops over the five slots and over taps are structural. A walk of the heap is
  \<open>partial_function (option)\<close>: \<open>allocator_calls_return\<close> shows that every call returns; in the kernel
  \<open>returned\<close> would turn a call that does not return into a panic, and no property has that outcome.
  The tick carries the hypothesis \<open>tick_range\<close>: the 64-bit clock is below \<open>2 ^ 64 - 2 ^ 32\<close>, so no instant
  that a task may ask for overflows; the code panics past that range.

  The bounded waits of the panic display count down, so they are structural.

  \<^bold>\<open>Assumptions.\<close> \<open>platform_ok\<close>: the linker gives the stacks an aligned region that does not wrap around,
  the heap a region with room for a block, and the trace an aligned region. \<open>lab_image_ok\<close>: it gives the
  arrays of the signal workload disjoint regions, with the coefficients loaded.
  Interrupts are taken between the operations, as the masks make sure. Between them the running task
  changes its registers and any memory except the stacks of other tasks, the heap headers and the data
  of the kernel; \<open>stack_in_bounds\<close> says that it has not run over its own stack when a switch is taken.
  In the signal workload the code of a task between two kernel calls runs as one piece. In the allocator and trace
  workloads an interruption leaves the heap, the masks, the caller and the set of dormant slots as they were
  (\<open>undisturbed\<close>), and the region of the heap holds at least 4096 bytes.
  A task does not execute a raw \<open>svc 0\<close> before \<open>os_kernel_start\<close>: the step \<open>svc\<close> requires \<open>running\<close>, which
  \<open>svc_start\<close> itself does not test. \<open>HAL_NVIC_SetPriority\<close>, \<open>HAL_UART_Transmit\<close>, the set-up calls of the HAL and the
  instructions \<open>SMLALD\<close> and \<open>SSAT\<close> are parameters with their documented effect as hypotheses.

  \<^bold>\<open>Not modelled.\<close> The body of the idle task (a loop of a board hook and \<open>WFI\<close>); the start-up code, the C
  library stubs and the vendor templates under \<open>src/\<close> and \<open>headers/\<close>; tools and tests.
  Memory barriers have no counterpart in a model with one processor and atomic operations.
\<close>

end
